(* ===== verification/Dhs_Prelude.thy ===== *)
theory Dhs_Prelude
  imports Complex_Main "HOL-Library.Word" "HOL-Library.Sublist"
begin

text \<open>
  Shared vocabulary of the development.

  \<^item> \<open>fault\<close> and \<open>'a res\<close>: the ways a C routine of the DHS can leave defined
    behaviour or end the process, as values.  Every routine that can do so returns
    \<open>'a res\<close>: \<open>Inl\<close> is the fault, \<open>Inr\<close> the result.
  \<^item> C strings as HOL strings, the string stored at an offset of a byte buffer
    (\<open>cstr_at\<close>), and \<open>poke\<close>, the effect of \<open>memset\<close>, \<open>memcpy\<close> and \<open>strcpy\<close> on
    a buffer held as a list.
  \<^item> \<open>linked\<close>: the list of cells met by following a \<open>next\<close> field from a head, the
    shape that every linked list of the sources has (\<open>0\<close> is the null index).
  \<^item> lemmas on these and on lists that several components use, in the collections
    \<open>bind_simps\<close> and \<open>list_upd_simps\<close>.
\<close>

named_theorems bind_simps \<open>rules for sequencing fallible steps\<close>
named_theorems list_upd_simps \<open>rules for arrays updated by index\<close>

section \<open>Faults and fallible results\<close>

datatype fault =
    Out_Of_Bounds
  | Buffer_Overflow
  | Null_Deref
  | Use_After_Free
  | Uninitialised
  | Exit_Process
  | Diverges

type_synonym 'a res = "fault + 'a"

definition bind_res :: "'a res \<Rightarrow> ('a \<Rightarrow> 'b res) \<Rightarrow> 'b res" where
  "bind_res m f = (case m of Inl e \<Rightarrow> Inl e | Inr x \<Rightarrow> f x)"

lemma bind_res_simps [simp, bind_simps]:
  "bind_res (Inl e) f = Inl e"
  "bind_res (Inr x) f = f x"
  by (simp_all add: bind_res_def)

lemma bind_res_Inr_iff [bind_simps]:
  "bind_res m f = Inr y \<longleftrightarrow> (\<exists>x. m = Inr x \<and> f x = Inr y)"
  by (cases m) auto

section \<open>C strings and byte buffers\<close>

abbreviation NUL :: char where
  "NUL \<equiv> CHR 0x00"

definition cstring :: "string \<Rightarrow> bool" where
  "cstring s \<longleftrightarrow> NUL \<notin> set s"

lemma cstring_simps [simp]:
  "cstring []"
  "cstring (c # s) \<longleftrightarrow> c \<noteq> NUL \<and> cstring s"
  "cstring (s @ t) \<longleftrightarrow> cstring s \<and> cstring t"
  by (auto simp: cstring_def)

text \<open>The string that starts at offset \<open>off\<close> of a buffer: everything up to the first NUL.\<close>

definition cstr_at :: "string \<Rightarrow> nat \<Rightarrow> string" where
  "cstr_at buf off = takeWhile (\<lambda>c. c \<noteq> NUL) (drop off buf)"

text \<open>Overwriting a buffer from an offset.\<close>

definition poke :: "nat \<Rightarrow> 'a list \<Rightarrow> 'a list \<Rightarrow> 'a list" where
  "poke off bs buf = take off buf @ bs @ drop (off + length bs) buf"

lemma length_poke [simp]: "off + length bs \<le> length buf \<Longrightarrow> length (poke off bs buf) = length buf"
  by (simp add: poke_def)

lemma poke_Nil [simp]: "poke off [] buf = buf"
  by (simp add: poke_def)

lemma takeWhile_cstring_NUL: "cstring s \<Longrightarrow> takeWhile (\<lambda>c. c \<noteq> NUL) (s @ NUL # t) = s"
  by (induction s) auto

lemma cstr_at_poke_same:
  assumes "cstring s" and "off + length s < length buf"
  shows "cstr_at (poke off (s @ [NUL]) buf) off = s"
  using assms by (simp add: cstr_at_def poke_def takeWhile_cstring_NUL)

lemma cstr_at_append:
  assumes "cstring s"
  shows "cstr_at (buf @ s @ [NUL]) (length buf) = s"
  using assms by (simp add: cstr_at_def takeWhile_cstring_NUL)

text \<open>
  A string is stored at \<open>off\<close> in a field of capacity \<open>n\<close> when its terminator is within
  the \<open>n + 1\<close> bytes that start there; what happens outside these bytes cannot change it.
\<close>

definition stored_at :: "string \<Rightarrow> nat \<Rightarrow> nat \<Rightarrow> string \<Rightarrow> bool" where
  "stored_at buf off n s \<longleftrightarrow> off + n < length buf \<and> length s \<le> n \<and> cstring s
     \<and> take (length s + 1) (drop off buf) = s @ [NUL]"

lemma stored_at_cstr:
  assumes "stored_at buf off n s"
  shows "cstr_at buf off = s"
proof -
  have "drop off buf = (s @ [NUL]) @ drop (length s + 1) (drop off buf)"
    using assms unfolding stored_at_def by (metis append_take_drop_id)
  then have "drop off buf = s @ NUL # drop (length s + 1) (drop off buf)" by simp
  moreover have "cstring s" using assms by (simp add: stored_at_def)
  ultimately show ?thesis unfolding cstr_at_def by (metis takeWhile_cstring_NUL)
qed

lemma stored_at_append: "stored_at buf off n s \<Longrightarrow> stored_at (buf @ t) off n s"
  by (auto simp: stored_at_def)

lemma stored_at_new:
  "cstring s \<Longrightarrow> stored_at (buf @ s @ [NUL]) (length buf) (length s) s"
  by (auto simp: stored_at_def)

lemma stored_at_poke_same:
  assumes "off + n < length buf" "length s \<le> n" "cstring s"
  shows "stored_at (poke off (s @ [NUL]) buf) off n s"
  using assms by (auto simp: stored_at_def poke_def)

lemma stored_at_poke_other:
  assumes s: "stored_at buf off n s"
    and room: "p + length bs \<le> length buf"
    and apart: "off + n < p \<or> p + length bs \<le> off"
  shows "stored_at (poke p bs buf) off n s"
proof -
  have len: "length s \<le> n" "off + n < length buf" using s by (auto simp: stored_at_def)
  have "take (length s + 1) (drop off (poke p bs buf)) = take (length s + 1) (drop off buf)"
    using apart
  proof
    assume a: "off + n < p"
    have "take (length s + 1) (drop off (poke p bs buf))
        = take (length s + 1) (drop off (take p buf))"
      using a len by (simp add: poke_def)
    also have "\<dots> = take (length s + 1) (drop off buf)"
      using a len by (simp add: drop_take)
    finally show ?thesis .
  next
    assume a: "p + length bs \<le> off"
    have "drop off (poke p bs buf) = drop off buf"
    proof -
      have "drop off (poke p bs buf)
          = drop (off - p - length bs) (drop (p + length bs) buf)"
        using a room by (simp add: poke_def)
      also have "\<dots> = drop off buf" using a by simp
      finally show ?thesis .
    qed
    then show ?thesis by simp
  qed
  then show ?thesis using s room by (simp add: stored_at_def)
qed

section \<open>Scanning\<close>

lemma takeWhile_all_hd: "list_all P xs \<Longrightarrow> ys = [] \<or> \<not> P (hd ys) \<Longrightarrow> takeWhile P (xs @ ys) = xs"
  by (induction xs) (cases ys; auto)+

lemma dropWhile_all_hd: "list_all P xs \<Longrightarrow> ys = [] \<or> \<not> P (hd ys) \<Longrightarrow> dropWhile P (xs @ ys) = ys"
  by (induction xs) (cases ys; auto)+

lemma list_all_replicate: "P x \<Longrightarrow> list_all P (replicate n x)"
  by (induction n) auto

text \<open>The character classes of \<open>ctype.h\<close> in the C locale.\<close>

definition isprint :: "char \<Rightarrow> bool" where
  "isprint c \<longleftrightarrow> 32 \<le> (of_char c :: nat) \<and> (of_char c :: nat) \<le> 126"

definition isspace :: "char \<Rightarrow> bool" where
  "isspace c \<longleftrightarrow> c = CHR '' '' \<or> (9 \<le> (of_char c :: nat) \<and> (of_char c :: nat) \<le> 13)"

definition isalnum :: "char \<Rightarrow> bool" where
  "isalnum c \<longleftrightarrow> (let n = (of_char c :: nat) in
     (48 \<le> n \<and> n \<le> 57) \<or> (65 \<le> n \<and> n \<le> 90) \<or> (97 \<le> n \<and> n \<le> 122))"

definition isdigit :: "char \<Rightarrow> bool" where
  "isdigit c \<longleftrightarrow> 48 \<le> (of_char c :: nat) \<and> (of_char c :: nat) \<le> 57"

text \<open>\<open>%d\<close>, and \<open>atoi\<close>.\<close>

definition digit :: "nat \<Rightarrow> char" where
  "digit n = char_of (48 + n)"

fun show_nat :: "nat \<Rightarrow> string" where
  "show_nat n = (if n < 10 then [digit n] else show_nat (n div 10) @ [digit (n mod 10)])"

declare show_nat.simps [simp del]

definition show_int :: "int \<Rightarrow> string" where
  "show_int n = (if n < 0 then ''-'' @ show_nat (nat (- n)) else show_nat (nat n))"

primrec digits_value :: "nat \<Rightarrow> string \<Rightarrow> nat" where
  "digits_value acc [] = acc"
| "digits_value acc (c # s) = (if isdigit c then digits_value (10 * acc + (of_char c - 48)) s else acc)"

definition atoi :: "string \<Rightarrow> int" where
  "atoi s = (let s = dropWhile isspace s in
     case s of [] \<Rightarrow> 0
     | c # t \<Rightarrow> if c = CHR ''-'' then - int (digits_value 0 t)
                else if c = CHR ''+'' then int (digits_value 0 t) else int (digits_value 0 s))"

lemma digit_of_char: "d < 10 \<Longrightarrow> (of_char (digit d) :: nat) = 48 + d"
  by (simp add: digit_def)

lemma digits_value_snoc:
  "list_all isdigit s \<Longrightarrow> d < 10 \<Longrightarrow> digits_value acc (s @ [digit d]) = 10 * digits_value acc s + d"
  by (induction s arbitrary: acc) (auto simp: digit_of_char isdigit_def)

lemma isdigit_digit: "d < 10 \<Longrightarrow> isdigit (digit d)"
  by (simp add: isdigit_def digit_of_char)

lemma show_nat_digits: "list_all isdigit (show_nat n)"
  by (induction n rule: show_nat.induct) (subst show_nat.simps, auto simp: isdigit_digit)

lemma show_nat_nonempty [simp]: "show_nat n \<noteq> []"
  by (subst show_nat.simps) simp

lemma digits_value_show_nat: "digits_value 0 (show_nat n) = n"
proof (induction n rule: show_nat.induct)
  case (1 n)
  show ?case
  proof (cases "n < 10")
    case True
    then show ?thesis by (subst show_nat.simps) (simp add: isdigit_def digit_of_char)
  next
    case False
    then show ?thesis using 1 digits_value_snoc [OF show_nat_digits, of "n mod 10" 0 "n div 10"]
      by (subst show_nat.simps) simp
  qed
qed

lemma isdigit_classes:
  "isdigit c \<Longrightarrow> \<not> isspace c \<and> c \<noteq> CHR '','' \<and> c \<noteq> CHR ''-'' \<and> c \<noteq> CHR ''+'' \<and> c \<noteq> NUL"
  by (auto simp: isdigit_def isspace_def)

lemma atoi_show_nat: "atoi (show_nat n) = int n"
proof -
  obtain c t where c: "show_nat n = c # t" by (cases "show_nat n") auto
  then have "isdigit c" using show_nat_digits [of n] by simp
  from isdigit_classes [OF this] show ?thesis
    using c digits_value_show_nat [of n] by (simp add: atoi_def del: digits_value.simps)
qed

lemma length_show_nat: "n < 10 ^ k \<Longrightarrow> 0 < k \<Longrightarrow> length (show_nat n) \<le> k"
proof (induction k arbitrary: n)
  case (Suc k)
  show ?case
  proof (cases "n < 10")
    case False
    then have "0 < k" using Suc.prems by (cases k) auto
    then have "length (show_nat (n div 10)) \<le> k" using Suc.IH [of "n div 10"] Suc.prems by (simp add: less_mult_imp_div_less mult.commute)
    then show ?thesis using False by (subst show_nat.simps) simp
  qed (subst show_nat.simps, simp)
qed simp

section \<open>Linked lists\<close>

primrec linked_from :: "nat list \<Rightarrow> (nat \<Rightarrow> nat) \<Rightarrow> nat \<Rightarrow> bool" where
  "linked_from [] nx p \<longleftrightarrow> p = 0"
| "linked_from (x # xs) nx p \<longleftrightarrow> p = x \<and> x \<noteq> 0 \<and> linked_from xs nx (nx x)"

abbreviation linked :: "(nat \<Rightarrow> nat) \<Rightarrow> nat \<Rightarrow> nat list \<Rightarrow> bool" where
  "linked nx p xs \<equiv> linked_from xs nx p"

lemma linked_zero [simp]: "linked nx 0 xs \<longleftrightarrow> xs = []"
  by (cases xs) auto

lemma linked_nonzero: "linked nx p xs \<Longrightarrow> 0 \<notin> set xs"
  by (induction xs arbitrary: p) auto

lemma linked_unique: "linked nx p xs \<Longrightarrow> linked nx p ys \<Longrightarrow> xs = ys"
proof (induction xs arbitrary: p ys)
  case Nil
  then show ?case by (cases ys) auto
next
  case (Cons x xs)
  then show ?case by (cases ys) auto
qed

lemma linked_upd_other: "x \<notin> set xs \<Longrightarrow> linked (nx(x := y)) p xs \<longleftrightarrow> linked nx p xs"
  by (induction xs arbitrary: p) auto

lemma linked_cong: "(\<And>x. x \<in> set xs \<Longrightarrow> nx x = nx' x) \<Longrightarrow> linked nx p xs \<longleftrightarrow> linked nx' p xs"
  by (induction xs arbitrary: p) auto

lemma linked_snoc:
  assumes "linked nx p xs" "xs \<noteq> []" "distinct xs" "y \<noteq> 0" "y \<notin> set xs"
  shows "linked (nx(last xs := y, y := 0)) p (xs @ [y])"
  using assms
proof (induction xs arbitrary: p)
  case Nil
  then show ?case by simp
next
  case (Cons x xs)
  show ?case
  proof (cases "xs = []")
    case True
    then show ?thesis using Cons.prems by auto
  next
    case False
    have "linked nx (nx x) xs" "distinct xs" "y \<notin> set xs" using Cons.prems by simp_all
    then have "linked (nx(last xs := y, y := 0)) (nx x) (xs @ [y])"
      using Cons.prems(4) by (intro Cons.IH False)
    moreover have "(nx(last xs := y, y := 0)) x = nx x" using Cons.prems False by auto
    ultimately show ?thesis using Cons.prems False by (simp del: fun_upd_apply)
  qed
qed

lemma linked_split:
  "linked nx p (xs @ ys) \<Longrightarrow> \<exists>q. linked nx q ys \<and> (xs = [] \<longrightarrow> q = p) \<and> (xs \<noteq> [] \<longrightarrow> q = nx (last xs))"
proof (induction xs arbitrary: p)
  case Nil
  then show ?case by simp
next
  case (Cons x xs)
  then obtain q where "linked nx q ys" "xs = [] \<longrightarrow> q = nx x" "xs \<noteq> [] \<longrightarrow> q = nx (last xs)"
    by auto
  then show ?case by auto
qed

lemma linked_unlink:
  assumes "linked nx p (xs @ x # y # ys)" "distinct (xs @ x # y # ys)"
  shows "linked (nx(x := nx y)) p (xs @ x # ys)"
  using assms
proof (induction xs arbitrary: p)
  case Nil
  then have "linked nx (nx y) ys" "x \<notin> set ys" "p = x" "x \<noteq> 0" by auto
  then show ?case by (simp add: linked_upd_other del: fun_upd_apply) simp
next
  case (Cons z xs)
  have "linked (nx(x := nx y)) (nx z) (xs @ x # ys)"
    using Cons.prems by (intro Cons.IH) auto
  moreover have "(nx(x := nx y)) z = nx z" using Cons.prems by auto
  ultimately show ?case using Cons.prems by (simp del: fun_upd_apply)
qed

lemma remove1_split: "distinct (xs @ x # ys) \<Longrightarrow> remove1 x (xs @ x # ys) = xs @ ys"
  by (induction xs) auto

section \<open>Arrays updated by index\<close>

lemma nth_list_update_if [list_upd_simps]:
  "i < length xs \<Longrightarrow> xs[i := x] ! j = (if i = j then x else xs ! j)"
  by (simp add: nth_list_update)

lemma fold_shift_down:
  assumes "k < length xs"
  shows "fold (\<lambda>i a. a[i := a ! Suc i]) [k..<length xs - 1] xs
       = take k xs @ drop (Suc k) xs @ [last xs]"
  using assms
proof (induction "length xs - 1 - k" arbitrary: k xs)
  case 0
  then have k: "k = length xs - 1" by simp
  moreover have "xs \<noteq> []" using 0 by auto
  ultimately show ?case
    using append_butlast_last_id [of xs] by (simp add: butlast_conv_take)
next
  case (Suc n)
  let ?ys = "xs[k := xs ! Suc k]"
  have k: "Suc k < length xs" using Suc.hyps(2) by simp
  have "[k..<length xs - 1] = k # [Suc k..<length xs - 1]"
    using k by (simp add: upt_conv_Cons)
  then have "fold (\<lambda>i a. a[i := a ! Suc i]) [k..<length xs - 1] xs
      = fold (\<lambda>i a. a[i := a ! Suc i]) [Suc k..<length ?ys - 1] ?ys"
    by simp
  also have "\<dots> = take (Suc k) ?ys @ drop (Suc (Suc k)) ?ys @ [last ?ys]"
    using Suc.hyps(1) [of ?ys "Suc k"] Suc.hyps(2) k by simp
  also have "take (Suc k) ?ys = take k xs @ [xs ! Suc k]"
    using k by (simp add: take_Suc_conv_app_nth)
  also have "drop (Suc (Suc k)) ?ys = drop (Suc (Suc k)) xs"
    by simp
  also have "last ?ys = last xs"
    using k by (subst last_list_update) auto
  also have "(take k xs @ [xs ! Suc k]) @ drop (Suc (Suc k)) xs @ [last xs]
      = take k xs @ drop (Suc k) xs @ [last xs]"
    using k by (simp add: Cons_nth_drop_Suc)
  finally show ?case .
qed

end
