(* ===== verification/Kwdb.thy ===== *)
theory Kwdb
  imports Dhs_Prelude
begin

text \<open>
  The keyword database \<open>mosdca/kwdb.c\<close>: the store of keyword entries (everything but the FITS
  reader and writer, which are in \<open>Kwdb_Fits\<close>).

  \<^item> \<open>struct item\<close> and \<open>struct kwdb\<close> are the records \<open>item\<close> and \<open>kwdb\<close>.  \<open>itab\<close> is the item
    array as a function of the index (index 0 is the null entry); \<open>itab_cap\<close> is the number of
    items the array was last allocated for, which the source does not record (it keeps only
    \<open>maxitems\<close>).  \<open>sbuf\<close> holds the \<open>sbufused\<close> bytes in use of the string buffer;
    \<open>sbuflen\<close> is its capacity.  Strings are referenced by their offset in \<open>sbuf\<close>.
  \<^item> \<open>char\<close> is signed on the target, so a byte above 127 counts negatively in \<open>hash\<close>, and a
    negative hash value indexes before \<open>hashtbl\<close>: the fault \<open>Out_Of_Bounds\<close>.
  \<^item> Argument strings are HOL strings (\<open>None\<close> is \<open>NULL\<close> where the source allows it).
  \<^item> \<open>ma\<close> stands for \<open>calloc\<close>/\<open>realloc\<close>: whether a block of so many bytes can be had.
  \<^item> Loops over the linked lists carry fuel; \<open>maxitems\<close> steps visit more cells than there
    are, so running out (\<open>Diverges\<close>) means that the list is cyclic.
\<close>

section \<open>Data\<close>

definition NTHREADS :: nat where "NTHREADS = 797"
definition DEF_SZSBUF :: nat where "DEF_SZSBUF = 1024000"
definition DEF_NKEYWORDS :: nat where "DEF_NKEYWORDS = 2048"
definition MAX_HASHCHARS :: nat where "MAX_HASHCHARS = 18"
definition sizeof_Item :: nat where "sizeof_Item = 36"
definition sizeof_KWDB :: nat where "sizeof_KWDB = 3236"

definition primes :: "int list" where
  "primes = [101, 103, 107, 109, 113, 127, 131, 137, 139,
             149, 151, 157, 163, 167, 173, 179, 181, 191]"

record item =
  it_name :: nat
  it_value :: nat
  it_vallen :: nat
  it_type :: nat
  it_typelen :: nat
  it_comment :: nat
  it_comlen :: nat
  nexthash :: nat
  nextglob :: nat

record kwdb =
  kwdbname :: nat
  maxitems :: nat
  itab_cap :: nat
  nitems :: int
  itemsused :: nat
  sbuflen :: nat
  head :: nat
  tail :: nat
  itab :: "nat \<Rightarrow> item"
  sbuf :: string
  hashtbl :: "nat \<Rightarrow> nat"

definition zero_item :: item where
  "zero_item = \<lparr>it_name = 0, it_value = 0, it_vallen = 0, it_type = 0, it_typelen = 0,
     it_comment = 0, it_comlen = 0, nexthash = 0, nextglob = 0\<rparr>"

section \<open>Strings, hashing, comparison\<close>

definition to_lower :: "char \<Rightarrow> char" where
  "to_lower c = (if 65 \<le> (of_char c :: nat) \<and> (of_char c :: nat) \<le> 90
                 then char_of ((of_char c :: nat) + 32) else c)"

definition schar :: "char \<Rightarrow> int" where
  "schar c = (if (of_char c :: nat) < 128 then int (of_char c) else int (of_char c) - 256)"

primrec hash_sum :: "int list \<Rightarrow> string \<Rightarrow> int \<Rightarrow> int" where
  "hash_sum [] ip s = s"
| "hash_sum (p # ps) ip s =
     (case ip of [] \<Rightarrow> s | c # cs \<Rightarrow> hash_sum ps cs (s + schar (to_lower c) * p))"

definition hash :: "string \<Rightarrow> int" where
  "hash key = (let s = hash_sum primes key 0 in sgn s * (\<bar>s\<bar> mod int NTHREADS))"

definition hash_index :: "string \<Rightarrow> nat res" where
  "hash_index key = (if hash key < 0 then Inl Out_Of_Bounds else Inr (nat (hash key)))"

fun streq :: "string \<Rightarrow> string \<Rightarrow> bool" where
  "streq [] [] = True"
| "streq (c1 # s1) (c2 # s2) = (if to_lower c1 \<noteq> to_lower c2 then False else streq s1 s2)"
| "streq _ _ = False"

definition addstr :: "(nat \<Rightarrow> bool) \<Rightarrow> kwdb \<Rightarrow> string option \<Rightarrow> (nat \<times> kwdb) res" where
  "addstr ma db text = (case text of None \<Rightarrow> Inr (0, db) | Some s \<Rightarrow>
     (if s = [] then Inr (0, db) else
      let nchars = length s + 1; used = length (sbuf db);
          grow = (used + nchars \<ge> sbuflen db) in
      if grow \<and> \<not> ma (sbuflen db + DEF_SZSBUF) then Inr (0, db)
      else let db = (if grow then db\<lparr>sbuflen := sbuflen db + DEF_SZSBUF\<rparr> else db) in
        if used + nchars > sbuflen db then Inl Buffer_Overflow
        else Inr (used, db\<lparr>sbuf := sbuf db @ s @ [NUL]\<rparr>)))"

section \<open>Opening a database, adding entries\<close>

definition kwdb_Open :: "(nat \<Rightarrow> bool) \<Rightarrow> string \<Rightarrow> kwdb option res" where
  "kwdb_Open ma name =
     (if \<not> ma sizeof_KWDB then Inr None
      else if \<not> ma (DEF_NKEYWORDS * sizeof_Item) then Inr None
      else if \<not> ma DEF_SZSBUF then Inr None
      else if 1 + length name + 1 > DEF_SZSBUF then Inl Buffer_Overflow
      else Inr (Some \<lparr>kwdbname = 1, maxitems = DEF_NKEYWORDS, itab_cap = DEF_NKEYWORDS,
             nitems = 0, itemsused = 1, sbuflen = DEF_SZSBUF, head = 0, tail = 0,
             itab = (\<lambda>_. zero_item), sbuf = [NUL] @ name @ [NUL], hashtbl = (\<lambda>_. 0)\<rparr>))"

definition kwdb_Name :: "kwdb \<Rightarrow> string" where
  "kwdb_Name db = cstr_at (sbuf db) (kwdbname db)"

definition kwdb_Len :: "kwdb \<Rightarrow> int" where
  "kwdb_Len db = nitems db"

definition strlen0 :: "string option \<Rightarrow> nat" where
  "strlen0 s = (case s of None \<Rightarrow> 0 | Some t \<Rightarrow> length t)"

text \<open>The linking part of \<open>kwdb_AddEntry\<close>: global list, then hash table.\<close>

definition link_entry :: "kwdb \<Rightarrow> nat \<Rightarrow> string option \<Rightarrow> kwdb res" where
  "link_entry db index keyword =
     (let db = (if head db = 0 then db\<lparr>head := index\<rparr> else db);
          db = (if tail db \<noteq> 0
                then db\<lparr>itab := (itab db)(tail db := (itab db (tail db))\<lparr>nextglob := index\<rparr>)\<rparr>
                else db);
          db = db\<lparr>tail := index\<rparr>
      in if keyword \<noteq> None \<and> keyword \<noteq> Some [] then
           bind_res (hash_index (the keyword)) (\<lambda>h.
             let i = hashtbl db h;
                 db = (if i \<noteq> 0 then db\<lparr>itab := (itab db)(index := (itab db index)\<lparr>nexthash := i\<rparr>)\<rparr>
                       else db)
             in Inr (db\<lparr>hashtbl := (hashtbl db)(h := index)\<rparr>))
         else Inr db)"

definition kwdb_AddEntry ::
    "(nat \<Rightarrow> bool) \<Rightarrow> kwdb \<Rightarrow> string option \<Rightarrow> string option \<Rightarrow> string option \<Rightarrow> string option
      \<Rightarrow> (int \<times> kwdb) res" where
  "kwdb_AddEntry ma db keyword value type comment =
     (let full = (itemsused db \<ge> maxitems db);
          db = (if full then db\<lparr>maxitems := maxitems db + DEF_NKEYWORDS\<rparr> else db) in
      if full \<and> \<not> ma (sizeof_Item * maxitems db) then Inr (-1, db)
      else
        let db = (if full then db\<lparr>itab_cap := maxitems db\<rparr> else db);
            index = itemsused db;
            db = db\<lparr>itemsused := index + 1\<rparr> in
        if index \<ge> itab_cap db then Inl Buffer_Overflow
        else
          bind_res (addstr ma db keyword) (\<lambda>(nm, db).
          bind_res (addstr ma db value) (\<lambda>(v, db).
          bind_res (addstr ma db type) (\<lambda>(ty, db).
          bind_res (addstr ma db comment) (\<lambda>(cm, db).
            let itp = \<lparr>it_name = nm, it_value = v, it_vallen = strlen0 value,
                       it_type = ty, it_typelen = strlen0 type,
                       it_comment = cm, it_comlen = strlen0 comment,
                       nexthash = 0, nextglob = 0\<rparr>;
                db = db\<lparr>itab := (itab db)(index := itp)\<rparr>
            in bind_res (link_entry db index keyword) (\<lambda>db.
                 Inr (int index, db\<lparr>nitems := nitems db + 1\<rparr>)))))))"

section \<open>Lookup and access by keyword\<close>

definition name_of :: "kwdb \<Rightarrow> nat \<Rightarrow> string" where
  "name_of db i = cstr_at (sbuf db) (it_name (itab db i))"

definition value_of :: "kwdb \<Rightarrow> nat \<Rightarrow> string" where
  "value_of db i = cstr_at (sbuf db) (it_value (itab db i))"

definition type_of :: "kwdb \<Rightarrow> nat \<Rightarrow> string" where
  "type_of db i = cstr_at (sbuf db) (it_type (itab db i))"

definition comment_of :: "kwdb \<Rightarrow> nat \<Rightarrow> string" where
  "comment_of db i = cstr_at (sbuf db) (it_comment (itab db i))"

primrec lookup_loop :: "kwdb \<Rightarrow> string \<Rightarrow> int \<Rightarrow> nat \<Rightarrow> nat \<Rightarrow> int \<Rightarrow> int res" where
  "lookup_loop db keyword instance 0 i j = (if i = 0 then Inr 0 else Inl Diverges)"
| "lookup_loop db keyword instance (Suc n) i j =
     (if i = 0 then Inr 0
      else if streq (name_of db i) keyword
        then if instance = j then Inr (int i)
             else lookup_loop db keyword instance n (nexthash (itab db i)) (j + 1)
      else lookup_loop db keyword instance n (nexthash (itab db i)) j)"

definition kwdb_Lookup :: "kwdb \<Rightarrow> string \<Rightarrow> int \<Rightarrow> int res" where
  "kwdb_Lookup db keyword instance =
     bind_res (hash_index keyword) (\<lambda>h.
       lookup_loop db keyword instance (maxitems db) (hashtbl db h) 0)"

definition kwdb_GetValue :: "kwdb \<Rightarrow> string \<Rightarrow> string option res" where
  "kwdb_GetValue db keyword = bind_res (kwdb_Lookup db keyword 0) (\<lambda>ep.
     Inr (if ep \<noteq> 0 then Some (value_of db (nat ep)) else None))"

definition kwdb_GetComment :: "kwdb \<Rightarrow> string \<Rightarrow> string option res" where
  "kwdb_GetComment db keyword = bind_res (kwdb_Lookup db keyword 0) (\<lambda>ep.
     Inr (if ep \<noteq> 0 then Some (comment_of db (nat ep)) else None))"

definition kwdb_GetType :: "kwdb \<Rightarrow> string \<Rightarrow> string option res" where
  "kwdb_GetType db keyword = bind_res (kwdb_Lookup db keyword 0) (\<lambda>ep.
     Inr (if ep \<noteq> 0 then Some (type_of db (nat ep)) else None))"

text \<open>
  The common part of the three setters: clear the old field of capacity \<open>len\<close> at \<open>off\<close>, then
  either copy the new text over it or store it at the end of the buffer.
\<close>

definition set_text ::
    "(nat \<Rightarrow> bool) \<Rightarrow> kwdb \<Rightarrow> nat \<Rightarrow> nat \<Rightarrow> string \<Rightarrow> (nat \<times> nat \<times> kwdb) res" where
  "set_text ma db off len text =
     (let db = db\<lparr>sbuf := poke off (replicate len NUL) (sbuf db)\<rparr> in
      if length text > len
      then bind_res (addstr ma db (Some text)) (\<lambda>(o', db). Inr (o', length text, db))
      else Inr (off, len, db\<lparr>sbuf := poke off (text @ [NUL]) (sbuf db)\<rparr>))"

definition kwdb_SetValue :: "(nat \<Rightarrow> bool) \<Rightarrow> kwdb \<Rightarrow> string \<Rightarrow> string \<Rightarrow> (int \<times> kwdb) res" where
  "kwdb_SetValue ma db keyword value =
     bind_res (kwdb_Lookup db keyword 0) (\<lambda>ep.
       if ep = 0 then Inr (-1, db)
       else let i = nat ep in
         bind_res (set_text ma db (it_value (itab db i)) (it_vallen (itab db i)) value)
           (\<lambda>(off, len, db). Inr (0, db\<lparr>itab := (itab db)(i := (itab db i)
                                      \<lparr>it_value := off, it_vallen := len\<rparr>)\<rparr>)))"

definition kwdb_SetComment :: "(nat \<Rightarrow> bool) \<Rightarrow> kwdb \<Rightarrow> string \<Rightarrow> string \<Rightarrow> (int \<times> kwdb) res" where
  "kwdb_SetComment ma db keyword comment =
     bind_res (kwdb_Lookup db keyword 0) (\<lambda>ep.
       if ep = 0 then Inr (-1, db)
       else let i = nat ep in
         bind_res (set_text ma db (it_comment (itab db i)) (it_comlen (itab db i)) comment)
           (\<lambda>(off, len, db). Inr (0, db\<lparr>itab := (itab db)(i := (itab db i)
                                      \<lparr>it_comment := off, it_comlen := len\<rparr>)\<rparr>)))"

definition kwdb_SetType :: "(nat \<Rightarrow> bool) \<Rightarrow> kwdb \<Rightarrow> string \<Rightarrow> string \<Rightarrow> (int \<times> kwdb) res" where
  "kwdb_SetType ma db keyword type =
     bind_res (kwdb_Lookup db keyword 0) (\<lambda>ep.
       if ep = 0 then Inr (-1, db)
       else let i = nat ep in
         bind_res (set_text ma db (it_type (itab db i)) (it_typelen (itab db i)) type)
           (\<lambda>(off, len, db). Inr (0, db\<lparr>itab := (itab db)(i := (itab db i)
                                      \<lparr>it_type := off, it_typelen := len\<rparr>)\<rparr>)))"

section \<open>Traversal, deletion, renaming, copying\<close>

definition kwdb_Head :: "kwdb \<Rightarrow> int" where
  "kwdb_Head db = int (head db)"

definition kwdb_Tail :: "kwdb \<Rightarrow> int" where
  "kwdb_Tail db = int (tail db)"

definition kwdb_Next :: "kwdb \<Rightarrow> int \<Rightarrow> int" where
  "kwdb_Next db ep = int (nextglob (itab db (nat ep)))"

text \<open>\<open>for (i=otp->nexthash; i; otp=REF_EP(db,i), i=otp->nexthash)\<close>: the predecessor of \<open>ep\<close>.\<close>

primrec find_pred :: "(nat \<Rightarrow> nat) \<Rightarrow> nat \<Rightarrow> nat \<Rightarrow> nat \<Rightarrow> nat \<Rightarrow> nat option res" where
  "find_pred nx ep 0 otp i = (if i = 0 then Inr None else Inl Diverges)"
| "find_pred nx ep (Suc n) otp i =
     (if i = 0 then Inr None
      else if ep = i then Inr (Some otp)
      else find_pred nx ep n i (nx i))"

text \<open>Removing \<open>ep\<close> from its hash chain, if it is a keyword.\<close>

definition unlink_hash :: "kwdb \<Rightarrow> nat \<Rightarrow> kwdb res" where
  "unlink_hash db ep =
     (let itp = itab db ep; name = name_of db ep in
      if it_name itp \<noteq> 0 \<and> name \<noteq> [] then
        bind_res (hash_index name) (\<lambda>h.
          let i = hashtbl db h in
          if ep = i then Inr (db\<lparr>hashtbl := (hashtbl db)(h := nexthash itp)\<rparr>)
          else bind_res (find_pred (\<lambda>k. nexthash (itab db k)) ep (maxitems db) i (nexthash (itab db i)))
            (\<lambda>p. case p of None \<Rightarrow> Inr db
                | Some otp \<Rightarrow> Inr (db\<lparr>itab := (itab db)(otp := (itab db otp)\<lparr>nexthash := nexthash itp\<rparr>)\<rparr>)))
      else Inr db)"

text \<open>\<open>for (i=db->head; i; i = otp->nextglob)\<close>: the entry before \<open>ep\<close>, or 0.\<close>

primrec find_glob :: "(nat \<Rightarrow> nat) \<Rightarrow> nat \<Rightarrow> nat \<Rightarrow> nat \<Rightarrow> nat res" where
  "find_glob nx ep 0 i = (if i = 0 then Inr 0 else Inl Diverges)"
| "find_glob nx ep (Suc n) i =
     (if i = 0 then Inr 0 else if nx i = ep then Inr i else find_glob nx ep n (nx i))"

definition kwdb_DeleteEntry :: "kwdb \<Rightarrow> int \<Rightarrow> (int \<times> kwdb) res" where
  "kwdb_DeleteEntry db ep0 =
     (if ep0 \<le> 0 \<or> ep0 > int (tail db) then Inr (-1, db)
      else let ep = nat ep0 in
        bind_res (unlink_hash db ep) (\<lambda>db.
          let itp = itab db ep;
              db = (if head db = ep then db\<lparr>head := nextglob itp\<rparr> else db) in
          bind_res (find_glob (\<lambda>k. nextglob (itab db k)) ep (maxitems db) (head db)) (\<lambda>i.
            let db = (if i \<noteq> 0
                      then db\<lparr>itab := (itab db)(i := (itab db i)\<lparr>nextglob := nextglob itp\<rparr>)\<rparr> else db);
                db = (if tail db = ep then db\<lparr>tail := i, itemsused := itemsused db - 1\<rparr> else db)
            in Inr (0, db\<lparr>nitems := nitems db - 1\<rparr>))))"

definition kwdb_RenameEntry :: "(nat \<Rightarrow> bool) \<Rightarrow> kwdb \<Rightarrow> int \<Rightarrow> string option \<Rightarrow> (int \<times> kwdb) res" where
  "kwdb_RenameEntry ma db ep0 newname =
     (if ep0 \<le> 0 \<or> ep0 > int (tail db) then Inr (-1, db)
      else let ep = nat ep0 in
        bind_res (unlink_hash db ep) (\<lambda>db.
          if newname \<noteq> None \<and> newname \<noteq> Some [] then
            bind_res (hash_index (the newname)) (\<lambda>h.
              let i = hashtbl db h;
                  db = (if i \<noteq> 0 then db\<lparr>itab := (itab db)(ep := (itab db ep)\<lparr>nexthash := i\<rparr>)\<rparr> else db);
                  db = db\<lparr>hashtbl := (hashtbl db)(h := ep)\<rparr>
              in bind_res (addstr ma db newname) (\<lambda>(nm, db).
                   Inr (0, db\<lparr>itab := (itab db)(ep := (itab db ep)\<lparr>it_name := nm\<rparr>)\<rparr>)))
          else Inr (0, db\<lparr>itab := (itab db)(ep := (itab db ep)\<lparr>it_name := 0\<rparr>)\<rparr>)))"

definition kwdb_GetEntry :: "kwdb \<Rightarrow> int \<Rightarrow> int \<times> (string \<times> string \<times> string \<times> string) option" where
  "kwdb_GetEntry db ep =
     (if ep \<le> 0 \<or> ep > int (tail db) then (-1, None)
      else let i = nat ep in
        (int (it_comment (itab db i)),
         Some (name_of db i, value_of db i, type_of db i, comment_of db i)))"

definition kwdb_KWName :: "kwdb \<Rightarrow> int \<Rightarrow> string option" where
  "kwdb_KWName db ep =
     (if ep \<le> 0 \<or> ep > int (tail db) then None else Some (name_of db (nat ep)))"

text \<open>
  \<open>kwdb_CopyEntry\<close> passes pointers into the source database's string buffer.  When source and
  target are the same database and \<open>addstr\<close> has to grow the buffer, they point into the
  block that \<open>realloc\<close> released.
\<close>

definition copy_name :: "string option \<Rightarrow> string \<Rightarrow> string" where
  "copy_name newname old = (case newname of Some s \<Rightarrow> if s \<noteq> [] then s else old | None \<Rightarrow> old)"

definition kwdb_CopyEntry ::
    "(nat \<Rightarrow> bool) \<Rightarrow> kwdb \<Rightarrow> kwdb \<Rightarrow> nat \<Rightarrow> string option \<Rightarrow> (int \<times> kwdb) res" where
  "kwdb_CopyEntry ma db o_db o_ep newname =
     kwdb_AddEntry ma db (Some (copy_name newname (name_of o_db o_ep))) (Some (value_of o_db o_ep))
       (Some (type_of o_db o_ep)) (Some (comment_of o_db o_ep))"

definition kwdb_CopyEntry_same ::
    "(nat \<Rightarrow> bool) \<Rightarrow> kwdb \<Rightarrow> nat \<Rightarrow> string option \<Rightarrow> (int \<times> kwdb) res" where
  "kwdb_CopyEntry_same ma db o_ep newname =
     bind_res (kwdb_CopyEntry ma db db o_ep newname) (\<lambda>(r, db').
       if sbuflen db' \<noteq> sbuflen db then Inl Use_After_Free else Inr (r, db'))"

end
