(* ===== verification/Kwdb_Correct.thy ===== *)
theory Kwdb_Correct
  imports Kwdb
begin

text \<open>
  Correctness of the keyword database.  The abstract state of a database is the list \<open>gl\<close> of
  its entries, oldest first, and the list \<open>rc\<close> of its keyword entries, most recent first;
  \<open>kw_inv\<close> says that the global list, the hash chains and the string buffer represent them.
  Each operation is shown to keep \<open>kw_inv\<close> and to act on the two lists and on the texts of the
  entries as its specification says.
\<close>

section \<open>Hashing respects the comparison\<close>

definition ascii :: "string \<Rightarrow> bool" where
  "ascii s \<longleftrightarrow> (\<forall>c \<in> set s. (of_char c :: nat) < 128)"

lemma streq_iff: "streq s t \<longleftrightarrow> map to_lower s = map to_lower t"
  by (induction s t rule: streq.induct) auto

lemma streq_refl [simp]: "streq s s"
  by (simp add: streq_iff)

lemma streq_sym: "streq s t \<longleftrightarrow> streq t s"
  by (auto simp: streq_iff)

lemma streq_Nil [simp]: "streq [] s \<longleftrightarrow> s = []" "streq s [] \<longleftrightarrow> s = []"
  by (auto simp: streq_iff)

lemma hash_sum_lower:
  "map to_lower s = map to_lower t \<Longrightarrow> hash_sum ps s a = hash_sum ps t a"
proof (induction ps arbitrary: s t a)
  case Nil
  then show ?case by simp
next
  case (Cons p ps)
  show ?case
  proof (cases s)
    case Nil
    then show ?thesis using Cons.prems by simp
  next
    case (Cons c cs)
    then obtain d ds where t: "t = d # ds" using Cons.prems by (cases t) auto
    then have "to_lower c = to_lower d" "map to_lower cs = map to_lower ds"
      using Cons.prems Cons by auto
    then show ?thesis using Cons t by (simp add: Cons.IH [of cs ds])
  qed
qed

lemma hash_streq: "streq s t \<Longrightarrow> hash s = hash t"
  using hash_sum_lower [of s t] by (simp add: hash_def streq_iff)

lemma to_lower_ascii: "(of_char c :: nat) < 128 \<Longrightarrow> (of_char (to_lower c) :: nat) < 128"
  by (auto simp: to_lower_def)

lemma schar_ascii: "(of_char c :: nat) < 128 \<Longrightarrow> 0 \<le> schar (to_lower c)"
  using to_lower_ascii [of c] by (simp add: schar_def)

lemma hash_sum_nonneg:
  "ascii s \<Longrightarrow> \<forall>p \<in> set ps. 0 \<le> p \<Longrightarrow> 0 \<le> a \<Longrightarrow> 0 \<le> hash_sum ps s a"
proof (induction ps arbitrary: s a)
  case Nil
  then show ?case by simp
next
  case (Cons p ps)
  show ?case
  proof (cases s)
    case Nil
    then show ?thesis using Cons.prems by simp
  next
    case (Cons c cs)
    then have "0 \<le> schar (to_lower c)" "ascii cs" using Cons.prems(1) schar_ascii by (auto simp: ascii_def)
    then show ?thesis using Cons.IH [of cs "a + schar (to_lower c) * p"] Cons.prems Cons by simp
  qed
qed

lemma hash_range:
  assumes "ascii s"
  shows "0 \<le> hash s" "hash s < int NTHREADS"
proof -
  have "0 \<le> hash_sum primes s 0"
    using assms by (intro hash_sum_nonneg) (auto simp: primes_def)
  then show "0 \<le> hash s" "hash s < int NTHREADS"
    by (auto simp: hash_def Let_def sgn_if NTHREADS_def)
qed

lemma hash_index_ascii:
  assumes "ascii s"
  shows "hash_index s = Inr (nat (hash s))" "nat (hash s) < NTHREADS"
  using hash_range [OF assms] by (auto simp: hash_index_def)

section \<open>The string buffer\<close>

datatype field = Fname | Fvalue | Ftype | Fcomment

fun reg :: "kwdb \<Rightarrow> nat \<Rightarrow> field \<Rightarrow> nat \<times> nat" where
  "reg db i Fname = (it_name (itab db i), length (name_of db i))"
| "reg db i Fvalue = (it_value (itab db i), it_vallen (itab db i))"
| "reg db i Ftype = (it_type (itab db i), it_typelen (itab db i))"
| "reg db i Fcomment = (it_comment (itab db i), it_comlen (itab db i))"

definition text_of :: "kwdb \<Rightarrow> nat \<Rightarrow> field \<Rightarrow> string" where
  "text_of db i f = cstr_at (sbuf db) (fst (reg db i f))"

lemma text_of_simps:
  "text_of db i Fname = name_of db i" "text_of db i Fvalue = value_of db i"
  "text_of db i Ftype = type_of db i" "text_of db i Fcomment = comment_of db i"
  by (simp_all add: text_of_def name_of_def value_of_def type_of_def comment_of_def)

definition region_ok :: "string \<Rightarrow> nat \<times> nat \<Rightarrow> bool" where
  "region_ok buf r \<longleftrightarrow> r = (0, 0) \<or> (0 < fst r \<and> (\<exists>s. stored_at buf (fst r) (snd r) s))"

definition apart :: "nat \<times> nat \<Rightarrow> nat \<times> nat \<Rightarrow> bool" where
  "apart r q \<longleftrightarrow> fst r = 0 \<or> fst q = 0 \<or> fst r + snd r < fst q \<or> fst q + snd q < fst r"

definition buf_ok :: "string \<Rightarrow> bool" where
  "buf_ok buf \<longleftrightarrow> buf \<noteq> [] \<and> buf ! 0 = NUL"

definition kw_text :: "kwdb \<Rightarrow> nat list \<Rightarrow> bool" where
  "kw_text db gl \<longleftrightarrow> buf_ok (sbuf db) \<and> length (sbuf db) \<le> sbuflen db
     \<and> (\<forall>i \<in> set gl. \<forall>f. region_ok (sbuf db) (reg db i f))
     \<and> (\<forall>i \<in> set gl. \<forall>j \<in> set gl. \<forall>f g. (i, f) \<noteq> (j, g) \<longrightarrow> apart (reg db i f) (reg db j g))"

lemma cstr_at_0: "buf_ok buf \<Longrightarrow> cstr_at buf 0 = []"
  by (cases buf) (auto simp: buf_ok_def cstr_at_def)

lemma apart_sym: "apart r q \<longleftrightarrow> apart q r"
  by (auto simp: apart_def)

lemma region_text_append:
  assumes "region_ok buf r" "buf_ok buf"
  shows "region_ok (buf @ t) r" "cstr_at (buf @ t) (fst r) = cstr_at buf (fst r)"
proof -
  have "buf_ok (buf @ t)" using assms(2) by (auto simp: buf_ok_def nth_append)
  then have "region_ok (buf @ t) r \<and> cstr_at (buf @ t) (fst r) = cstr_at buf (fst r)"
    using assms cstr_at_0 [of buf] cstr_at_0 [of "buf @ t"] stored_at_append [of buf _ _ _ t]
      stored_at_cstr
    unfolding region_ok_def by (metis fst_conv)
  then show "region_ok (buf @ t) r" "cstr_at (buf @ t) (fst r) = cstr_at buf (fst r)" by auto
qed

lemma region_text_poke:
  assumes r: "region_ok buf r" "buf_ok buf" and room: "0 < p" "p + length bs \<le> length buf"
    and out: "fst r \<noteq> 0 \<Longrightarrow> fst r + snd r < p \<or> p + length bs \<le> fst r"
  shows "region_ok (poke p bs buf) r" "cstr_at (poke p bs buf) (fst r) = cstr_at buf (fst r)"
proof -
  have b: "buf_ok (poke p bs buf)" using r(2) room by (cases buf; cases p) (auto simp: buf_ok_def poke_def)
  have "region_ok (poke p bs buf) r \<and> cstr_at (poke p bs buf) (fst r) = cstr_at buf (fst r)"
  proof (cases "fst r = 0")
    case True
    then show ?thesis using r cstr_at_0 [OF r(2)] cstr_at_0 [OF b] by (auto simp: region_ok_def)
  next
    case False
    then obtain s where s: "stored_at buf (fst r) (snd r) s" using r(1) by (auto simp: region_ok_def)
    have "stored_at (poke p bs buf) (fst r) (snd r) s"
      using stored_at_poke_other [OF s room(2)] out [OF False] by blast
    then show ?thesis using s False stored_at_cstr by (metis region_ok_def neq0_conv)
  qed
  then show "region_ok (poke p bs buf) r" "cstr_at (poke p bs buf) (fst r) = cstr_at buf (fst r)"
    by auto
qed

lemma region_end: "region_ok buf r \<Longrightarrow> buf_ok buf \<Longrightarrow> fst r + snd r < length buf"
  by (cases buf) (auto simp: region_ok_def stored_at_def buf_ok_def)

section \<open>Storing a string\<close>

definition stext :: "string option \<Rightarrow> string" where
  "stext s = (case s of None \<Rightarrow> [] | Some t \<Rightarrow> if t = [] then [] else t @ [NUL])"

definition soff :: "nat \<Rightarrow> string option \<Rightarrow> nat" where
  "soff used s = (if stext s = [] then 0 else used)"

definition txt_of :: "string option \<Rightarrow> string" where
  "txt_of s = (case s of None \<Rightarrow> [] | Some t \<Rightarrow> t)"

definition storable :: "string option \<Rightarrow> bool" where
  "storable s \<longleftrightarrow> cstring (txt_of s) \<and> length (txt_of s) < DEF_SZSBUF"

lemma strlen0_text: "strlen0 s = length (txt_of s)"
  by (simp add: strlen0_def txt_of_def split: option.splits)

lemma stext_text: "stext s = (if txt_of s = [] then [] else txt_of s @ [NUL])"
  by (simp add: stext_def txt_of_def split: option.splits)

lemma addstr_eq:
  assumes "\<forall>n. ma n" "length (sbuf db) \<le> sbuflen db" "length (txt_of s) < DEF_SZSBUF"
  shows "\<exists>L. addstr ma db s = Inr (soff (length (sbuf db)) s, db\<lparr>sbuf := sbuf db @ stext s, sbuflen := L\<rparr>)
    \<and> length (sbuf db @ stext s) \<le> L"
proof (cases "txt_of s = []")
  case True
  then have "addstr ma db s = Inr (0, db)"
    by (simp add: addstr_def txt_of_def split: option.splits)
  then show ?thesis using True assms(2) by (intro exI [of _ "sbuflen db"]) (simp add: soff_def stext_text)
next
  case False
  then obtain t where s: "s = Some t" "t \<noteq> []" by (auto simp: txt_of_def split: option.splits)
  let ?L = "if length (sbuf db) + (length t + 1) \<ge> sbuflen db then sbuflen db + DEF_SZSBUF else sbuflen db"
  have "addstr ma db s = Inr (length (sbuf db), db\<lparr>sbuf := sbuf db @ t @ [NUL], sbuflen := ?L\<rparr>)"
    using assms s by (simp add: addstr_def txt_of_def Let_def)
  moreover have "length (sbuf db @ t @ [NUL]) \<le> ?L"
    using assms s by (simp add: txt_of_def)
  ultimately show ?thesis using s by (intro exI [of _ ?L]) (simp add: soff_def stext_def)
qed

lemma region_new:
  assumes "storable s" "buf_ok buf"
  shows "region_ok (buf @ stext s) (soff (length buf) s, length (txt_of s))"
    and "cstr_at (buf @ stext s) (soff (length buf) s) = txt_of s"
proof -
  have b: "buf_ok (buf @ stext s)" using assms(2) by (auto simp: buf_ok_def nth_append)
  have "region_ok (buf @ stext s) (soff (length buf) s, length (txt_of s))
      \<and> cstr_at (buf @ stext s) (soff (length buf) s) = txt_of s"
  proof (cases "txt_of s = []")
    case True
    then show ?thesis using cstr_at_0 [OF b] by (simp add: soff_def stext_text region_ok_def)
  next
    case False
    have "stored_at (buf @ txt_of s @ [NUL]) (length buf) (length (txt_of s)) (txt_of s)"
      using assms(1) by (intro stored_at_new) (simp add: storable_def)
    moreover have "0 < length buf" using assms(2) by (simp add: buf_ok_def)
    ultimately show ?thesis using False stored_at_cstr
      by (auto simp: soff_def stext_text region_ok_def)
  qed
  then show "region_ok (buf @ stext s) (soff (length buf) s, length (txt_of s))"
    "cstr_at (buf @ stext s) (soff (length buf) s) = txt_of s" by auto
qed

section \<open>The invariant\<close>

definition chain :: "kwdb \<Rightarrow> nat list \<Rightarrow> nat \<Rightarrow> nat list" where
  "chain db rc h = filter (\<lambda>i. hash (name_of db i) = int h) rc"

definition kw_links :: "kwdb \<Rightarrow> nat list \<Rightarrow> nat list \<Rightarrow> bool" where
  "kw_links db gl rc \<longleftrightarrow> linked (\<lambda>i. nextglob (itab db i)) (head db) gl
     \<and> sorted_wrt (<) gl \<and> (\<forall>i \<in> set gl. 0 < i \<and> i < itemsused db)
     \<and> tail db = (if gl = [] then 0 else last gl) \<and> nitems db = int (length gl)
     \<and> 1 \<le> itemsused db \<and> itemsused db \<le> maxitems db \<and> itab_cap db = maxitems db
     \<and> distinct rc \<and> set rc = {i \<in> set gl. name_of db i \<noteq> []}
     \<and> (\<forall>i \<in> set gl. ascii (name_of db i))
     \<and> (\<forall>h < NTHREADS. linked (\<lambda>i. nexthash (itab db i)) (hashtbl db h) (chain db rc h))"

definition kw_inv :: "kwdb \<Rightarrow> nat list \<Rightarrow> nat list \<Rightarrow> bool" where
  "kw_inv db gl rc \<longleftrightarrow> kw_links db gl rc \<and> kw_text db gl"

lemma sorted_distinct: "sorted_wrt (<) (xs :: nat list) \<Longrightarrow> distinct xs"
  by (induction xs) auto

lemma kw_linksD:
  assumes "kw_links db gl rc"
  shows "linked (\<lambda>i. nextglob (itab db i)) (head db) gl" "sorted_wrt (<) gl" "distinct gl"
    "\<And>i. i \<in> set gl \<Longrightarrow> 0 < i" "\<And>i. i \<in> set gl \<Longrightarrow> i < itemsused db"
    "tail db = (if gl = [] then 0 else last gl)" "nitems db = int (length gl)"
    "1 \<le> itemsused db" "itemsused db \<le> maxitems db" "itab_cap db = maxitems db"
    "distinct rc" "set rc = {i \<in> set gl. name_of db i \<noteq> []}"
    "\<And>i. i \<in> set gl \<Longrightarrow> ascii (name_of db i)"
    "\<And>h. h < NTHREADS \<Longrightarrow> linked (\<lambda>i. nexthash (itab db i)) (hashtbl db h) (chain db rc h)"
  using assms sorted_distinct unfolding kw_links_def by auto

lemma kw_textD:
  assumes "kw_text db gl"
  shows "buf_ok (sbuf db)" "length (sbuf db) \<le> sbuflen db"
    "\<And>i f. i \<in> set gl \<Longrightarrow> region_ok (sbuf db) (reg db i f)"
    "\<And>i j f g. i \<in> set gl \<Longrightarrow> j \<in> set gl \<Longrightarrow> (i, f) \<noteq> (j, g) \<Longrightarrow> apart (reg db i f) (reg db j g)"
  using assms unfolding kw_text_def by blast+

lemma kw_rc_gl: "kw_links db gl rc \<Longrightarrow> i \<in> set rc \<Longrightarrow> i \<in> set gl"
  by (simp add: kw_linksD(12))

lemma length_bounded: "distinct xs \<Longrightarrow> (\<And>i. i \<in> set xs \<Longrightarrow> 0 < i \<and> i < (n::nat)) \<Longrightarrow> length xs < Suc n"
  using card_mono [of "{..<n}" "set xs"] by (auto simp: distinct_card less_Suc_eq_le subset_iff)

lemma kw_fuel:
  assumes "kw_links db gl rc"
  shows "length gl \<le> maxitems db" "length rc \<le> maxitems db" "length (chain db rc h) \<le> maxitems db"
proof -
  have "length gl \<le> itemsused db" "length rc \<le> itemsused db"
    using length_bounded [of gl "itemsused db"] length_bounded [of rc "itemsused db"] assms
      kw_linksD [OF assms] by auto
  moreover have "length (chain db rc h) \<le> length rc" by (simp add: chain_def)
  ultimately show "length gl \<le> maxitems db" "length rc \<le> maxitems db"
    "length (chain db rc h) \<le> maxitems db" using kw_linksD(9) [OF assms] by auto
qed

lemma kwdb_Open_inv:
  assumes "\<forall>n. ma n" "length name + 2 \<le> DEF_SZSBUF"
  shows "\<exists>db. kwdb_Open ma name = Inr (Some db) \<and> kw_inv db [] []"
  using assms by (auto simp: kwdb_Open_def kw_inv_def kw_links_def kw_text_def chain_def buf_ok_def
      DEF_NKEYWORDS_def)

section \<open>Adding an entry\<close>

definition added ::
    "kwdb \<Rightarrow> string option \<Rightarrow> string option \<Rightarrow> string option \<Rightarrow> string option \<Rightarrow> nat \<Rightarrow> nat \<Rightarrow> kwdb" where
  "added db kw v ty cm L M =
     (let idx = itemsused db; n0 = length (sbuf db); n1 = n0 + length (stext kw);
          n2 = n1 + length (stext v); n3 = n2 + length (stext ty); h = nat (hash (txt_of kw));
          itp = \<lparr>it_name = soff n0 kw, it_value = soff n1 v, it_vallen = length (txt_of v),
                 it_type = soff n2 ty, it_typelen = length (txt_of ty),
                 it_comment = soff n3 cm, it_comlen = length (txt_of cm),
                 nexthash = (if txt_of kw = [] then 0 else hashtbl db h), nextglob = 0\<rparr>
      in db\<lparr>maxitems := M, itab_cap := M, itemsused := idx + 1, nitems := nitems db + 1,
            sbuflen := L, sbuf := sbuf db @ stext kw @ stext v @ stext ty @ stext cm,
            head := (if head db = 0 then idx else head db), tail := idx,
            itab := (if tail db = 0 then itab db
                     else (itab db)(tail db := (itab db (tail db))\<lparr>nextglob := idx\<rparr>))(idx := itp),
            hashtbl := (if txt_of kw = [] then hashtbl db else (hashtbl db)(h := idx))\<rparr>)"

lemma AddEntry_eq:
  assumes ma: "\<forall>n. ma n" and len: "length (sbuf db) \<le> sbuflen db"
    and cap: "itab_cap db = maxitems db" "itemsused db \<le> maxitems db" and tl: "tail db < itemsused db"
    and st: "storable kw" "storable v" "storable ty" "storable cm" and asc: "ascii (txt_of kw)"
  shows "\<exists>L M. kwdb_AddEntry ma db kw v ty cm = Inr (int (itemsused db), added db kw v ty cm L M)
     \<and> length (sbuf db @ stext kw @ stext v @ stext ty @ stext cm) \<le> L \<and> itemsused db < M"
proof -
  define M where "M = (if itemsused db \<ge> maxitems db then maxitems db + DEF_NKEYWORDS else maxitems db)"
  define d0 where "d0 = db\<lparr>maxitems := M, itab_cap := M, itemsused := itemsused db + 1\<rparr>"
  have M: "itemsused db < M" using cap by (auto simp: M_def DEF_NKEYWORDS_def)
  have lens: "length (txt_of kw) < DEF_SZSBUF" "length (txt_of v) < DEF_SZSBUF"
    "length (txt_of ty) < DEF_SZSBUF" "length (txt_of cm) < DEF_SZSBUF"
    using st by (auto simp: storable_def)
  define d1 where "d1 L = d0\<lparr>sbuf := sbuf db @ stext kw, sbuflen := L\<rparr>" for L
  define d2 where "d2 L = d0\<lparr>sbuf := sbuf db @ stext kw @ stext v, sbuflen := L\<rparr>" for L
  define d3 where "d3 L = d0\<lparr>sbuf := sbuf db @ stext kw @ stext v @ stext ty, sbuflen := L\<rparr>" for L
  define d4 where "d4 L = d0\<lparr>sbuf := sbuf db @ stext kw @ stext v @ stext ty @ stext cm, sbuflen := L\<rparr>" for L
  obtain L1 where 1: "addstr ma d0 kw = Inr (soff (length (sbuf db)) kw, d1 L1)"
    "length (sbuf (d1 L1)) \<le> sbuflen (d1 L1)"
    using addstr_eq [OF ma _ lens(1), of d0] len by (auto simp: d0_def d1_def)
  obtain L2 where 2: "addstr ma (d1 L1) v = Inr (soff (length (sbuf (d1 L1))) v, d2 L2)"
    "length (sbuf (d2 L2)) \<le> sbuflen (d2 L2)"
    using addstr_eq [OF ma 1(2) lens(2)] by (auto simp: d1_def d2_def)
  obtain L3 where 3: "addstr ma (d2 L2) ty = Inr (soff (length (sbuf (d2 L2))) ty, d3 L3)"
    "length (sbuf (d3 L3)) \<le> sbuflen (d3 L3)"
    using addstr_eq [OF ma 2(2) lens(3)] by (auto simp: d2_def d3_def)
  obtain L4 where 4: "addstr ma (d3 L3) cm = Inr (soff (length (sbuf (d3 L3))) cm, d4 L4)"
    "length (sbuf (d4 L4)) \<le> sbuflen (d4 L4)"
    using addstr_eq [OF ma 3(2) lens(4)] by (auto simp: d3_def d4_def)
  let ?itp = "\<lparr>it_name = soff (length (sbuf db)) kw, it_value = soff (length (sbuf (d1 L1))) v,
      it_vallen = length (txt_of v), it_type = soff (length (sbuf (d2 L2))) ty,
      it_typelen = length (txt_of ty), it_comment = soff (length (sbuf (d3 L3))) cm,
      it_comlen = length (txt_of cm), nexthash = 0, nextglob = 0\<rparr>"
  have run: "kwdb_AddEntry ma db kw v ty cm = bind_res
      (link_entry ((d4 L4)\<lparr>itab := (itab (d4 L4))(itemsused db := ?itp)\<rparr>) (itemsused db) kw)
      (\<lambda>db'. Inr (int (itemsused db), db'\<lparr>nitems := nitems db' + 1\<rparr>))"
  proof (cases "itemsused db \<ge> maxitems db")
    case True
    then have "db\<lparr>maxitems := maxitems db + DEF_NKEYWORDS, itab_cap := maxitems db + DEF_NKEYWORDS,
        itemsused := itemsused db + 1\<rparr> = d0" by (simp add: d0_def M_def)
    then show ?thesis using True ma M 1(1) 2(1) 3(1) 4(1)
      by (simp add: kwdb_AddEntry_def Let_def M_def strlen0_text)
  next
    case False
    then have "db\<lparr>itemsused := itemsused db + 1\<rparr> = d0" using cap by (cases db) (simp add: d0_def M_def)
    then show ?thesis using False ma M cap 1(1) 2(1) 3(1) 4(1)
      by (simp add: kwdb_AddEntry_def Let_def M_def strlen0_text)
  qed
  have kw: "kw \<noteq> None \<and> kw \<noteq> Some [] \<longleftrightarrow> txt_of kw \<noteq> []" "txt_of kw \<noteq> [] \<Longrightarrow> the kw = txt_of kw"
    by (auto simp: txt_of_def split: option.splits)
  have "kwdb_AddEntry ma db kw v ty cm = Inr (int (itemsused db), added db kw v ty cm L4 M)"
    unfolding run using kw tl hash_index_ascii(1) [OF asc]
    by (auto simp: link_entry_def Let_def added_def d4_def d0_def d1_def d2_def d3_def fun_upd_twist
        add.assoc intro!: ext)
  then show ?thesis using 4(2) M by (auto simp: d4_def)
qed

lemma region_new_in:
  assumes "storable s" "buf_ok buf"
  shows "region_ok (buf @ stext s @ t) (soff (length buf) s, length (txt_of s))"
    and "cstr_at (buf @ stext s @ t) (soff (length buf) s) = txt_of s"
proof -
  have b: "buf_ok (buf @ stext s)" using assms(2) by (auto simp: buf_ok_def nth_append)
  show "region_ok (buf @ stext s @ t) (soff (length buf) s, length (txt_of s))"
    using region_text_append(1) [OF region_new(1) [OF assms] b, of t] by simp
  show "cstr_at (buf @ stext s @ t) (soff (length buf) s) = txt_of s"
    using region_text_append(2) [OF region_new(1) [OF assms] b, of t] region_new(2) [OF assms] by simp
qed

fun entry_text ::
    "string option \<Rightarrow> string option \<Rightarrow> string option \<Rightarrow> string option \<Rightarrow> field \<Rightarrow> string" where
  "entry_text kw v ty cm Fname = txt_of kw"
| "entry_text kw v ty cm Fvalue = txt_of v"
| "entry_text kw v ty cm Ftype = txt_of ty"
| "entry_text kw v ty cm Fcomment = txt_of cm"

lemma buf_ok_append: "buf_ok buf \<Longrightarrow> buf_ok (buf @ t)"
  by (auto simp: buf_ok_def nth_append)

definition entry_ok :: "string option \<Rightarrow> string option \<Rightarrow> string option \<Rightarrow> string option \<Rightarrow> bool" where
  "entry_ok kw v ty cm \<longleftrightarrow> storable kw \<and> storable v \<and> storable ty \<and> storable cm \<and> ascii (txt_of kw)"

lemma entry_okD:
  assumes "entry_ok kw v ty cm"
  shows "storable kw" "storable v" "storable ty" "storable cm" "ascii (txt_of kw)"
  using assms by (simp_all add: entry_ok_def)

lemma kw_invD:
  assumes "kw_inv db gl rc"
  shows "kw_links db gl rc" "kw_text db gl"
  using assms by (simp_all add: kw_inv_def)

lemma kw_tail:
  assumes "kw_links db gl rc"
  shows "tail db < itemsused db" "gl \<noteq> [] \<Longrightarrow> tail db \<in> set gl"
  using kw_linksD [OF assms] by (auto split: if_splits)

lemma added_text_old:
  assumes inv: "kw_inv db gl rc" and i: "i \<in> set gl"
  shows "fst (reg (added db kw v ty cm L M) i f) = fst (reg db i f)"
    and "text_of (added db kw v ty cm L M) i f = text_of db i f"
    and "reg (added db kw v ty cm L M) i f = reg db i f"
proof -
  note add_links = kw_invD(1) [OF inv] and add_text = kw_invD(2) [OF inv]
  have ne: "i \<noteq> itemsused db" using kw_linksD(5) [OF add_links i] by simp
  show 1: "fst (reg (added db kw v ty cm L M) i f) = fst (reg db i f)" for f
    using ne by (cases f) (auto simp: added_def Let_def)
  show 2: "text_of (added db kw v ty cm L M) i f = text_of db i f" for f
    using region_text_append(2) [OF kw_textD(3) [OF add_text i] kw_textD(1) [OF add_text]] 1
    by (simp add: text_of_def) (simp add: added_def Let_def)
  show "reg (added db kw v ty cm L M) i f = reg db i f"
    using 2 [of Fname] ne by (cases f) (auto simp: text_of_simps added_def Let_def)
qed

lemma added_text_new:
  assumes inv: "kw_inv db gl rc" and st: "entry_ok kw v ty cm"
  shows "text_of (added db kw v ty cm L M) (itemsused db) f = entry_text kw v ty cm f"
    and "region_ok (sbuf (added db kw v ty cm L M)) (reg (added db kw v ty cm L M) (itemsused db) f)"
    and "snd (reg (added db kw v ty cm L M) (itemsused db) f) = length (entry_text kw v ty cm f)"
proof -
  note b = kw_textD(1) [OF kw_invD(2) [OF inv]] and st = entry_okD [OF st]
  note b1 = buf_ok_append [OF b, of "stext kw"]
  note b2 = buf_ok_append [OF b1, of "stext v", simplified]
  note b3 = buf_ok_append [OF b2, of "stext ty", simplified]
  note n = region_new_in [OF st(1) b] region_new_in [OF st(2) b1] region_new_in [OF st(3) b2]
    region_new_in [OF st(4) b3, of "[]"]
  show 1: "text_of (added db kw v ty cm L M) (itemsused db) f = entry_text kw v ty cm f" for f
    using n by (cases f) (auto simp: text_of_def added_def Let_def add.assoc)
  show 2: "snd (reg (added db kw v ty cm L M) (itemsused db) f) = length (entry_text kw v ty cm f)" for f
    using 1 [of Fname, unfolded text_of_simps] by (cases f) (simp_all add: added_def Let_def)
  have "reg (added db kw v ty cm L M) (itemsused db) f
      = (fst (reg (added db kw v ty cm L M) (itemsused db) f), length (entry_text kw v ty cm f))"
    using 2 by (metis prod.collapse)
  then show "region_ok (sbuf (added db kw v ty cm L M)) (reg (added db kw v ty cm L M) (itemsused db) f)"
    using n by (cases f) (auto simp: added_def Let_def add.assoc)
qed

lemma added_fst_new: "fst (reg (added db kw v ty cm L M) (itemsused db) f) = 0
    \<or> length (sbuf db) \<le> fst (reg (added db kw v ty cm L M) (itemsused db) f)"
  by (cases f) (auto simp: added_def Let_def soff_def)

lemma added_apart_new:
  assumes inv: "kw_inv db gl rc" and st: "entry_ok kw v ty cm" and "f \<noteq> g"
  shows "apart (reg (added db kw v ty cm L M) (itemsused db) f) (reg (added db kw v ty cm L M) (itemsused db) g)"
proof -
  have len: "length (stext s) = (if txt_of s = [] then 0 else length (txt_of s) + 1)" for s
    by (simp add: stext_text)
  have emp: "stext s = [] \<longleftrightarrow> txt_of s = []" for s
    by (simp add: stext_text)
  have nm: "name_of (added db kw v ty cm L M) (itemsused db) = txt_of kw"
    using added_text_new(1) [OF inv st, where f = Fname and L = L and M = M] by (simp add: text_of_simps)
  show ?thesis using assms(3)
    by (cases f; cases g) (simp_all add: nm, simp_all add: apart_def added_def Let_def soff_def len emp)
qed

lemma added_kw_text:
  assumes inv: "kw_inv db gl rc" and st: "entry_ok kw v ty cm"
    and L: "length (sbuf db @ stext kw @ stext v @ stext ty @ stext cm) \<le> L"
  shows "kw_text (added db kw v ty cm L M) (gl @ [itemsused db])"
proof -
  note add_links = kw_invD(1) [OF inv] and add_text = kw_invD(2) [OF inv]
  let ?d = "added db kw v ty cm L M" and ?x = "itemsused db"
  have buf: "sbuf ?d = sbuf db @ stext kw @ stext v @ stext ty @ stext cm"
    and sl: "sbuflen ?d = L" by (simp_all add: added_def Let_def)
  have ok: "region_ok (sbuf ?d) (reg ?d i f)" if "i \<in> set gl" for i f
    using region_text_append(1) [OF kw_textD(3) [OF add_text that] kw_textD(1) [OF add_text]]
    by (simp add: buf added_text_old(3) [OF inv that])
  have ap: "apart (reg ?d i f) (reg ?d j g)" if "i \<in> set gl" "j \<in> set gl" "(i, f) \<noteq> (j, g)" for i j f g
    using kw_textD(4) [OF add_text that] by (simp add: added_text_old(3) [OF inv] that)
  have new: "apart (reg ?d i f) (reg ?d ?x g)" if "i \<in> set gl" for i f g
    using region_end [OF kw_textD(3) [OF add_text that] kw_textD(1) [OF add_text], of f] added_fst_new [of db kw v ty cm L M g]
    by (auto simp: apart_def added_text_old(3) [OF inv that])
  have new': "apart (reg ?d ?x g) (reg ?d i f)" if "i \<in> set gl" for i f g
    using new [OF that] apart_sym by blast
  have "buf_ok (sbuf ?d)" using buf_ok_append [OF kw_textD(1) [OF add_text]] by (simp add: buf)
  moreover have "region_ok (sbuf ?d) (reg ?d i f)" if "i \<in> set (gl @ [?x])" for i f
    using that ok added_text_new(2) [OF inv st] by auto
  moreover have "apart (reg ?d i f) (reg ?d j g)"
    if "i \<in> set (gl @ [?x])" "j \<in> set (gl @ [?x])" "(i, f) \<noteq> (j, g)" for i j f g
    using that ap new new' added_apart_new [OF inv st] by auto
  ultimately show ?thesis using L unfolding kw_text_def by (auto simp: buf sl)
qed

lemma added_nexthash:
  assumes "kw_links db gl rc" "i \<in> set gl"
  shows "nexthash (itab (added db kw v ty cm L M) i) = nexthash (itab db i)"
  using kw_linksD(5) [OF assms] by (auto simp: added_def Let_def)

lemma added_name_old:
  assumes "kw_inv db gl rc" "i \<in> set gl"
  shows "name_of (added db kw v ty cm L M) i = name_of db i"
  using added_text_old(2) [OF assms, of kw v ty cm L M Fname] by (simp add: text_of_simps)

lemma added_name_new:
  assumes "kw_inv db gl rc" "entry_ok kw v ty cm"
  shows "name_of (added db kw v ty cm L M) (itemsused db) = txt_of kw"
  using added_text_new(1) [OF assms, where f = Fname and L = L and M = M] by (simp add: text_of_simps)

lemma added_chain:
  assumes inv: "kw_inv db gl rc" and st: "entry_ok kw v ty cm" and h: "h < NTHREADS"
  shows "linked (\<lambda>i. nexthash (itab (added db kw v ty cm L M) i)) (hashtbl (added db kw v ty cm L M) h)
     (chain (added db kw v ty cm L M) (if txt_of kw = [] then rc else itemsused db # rc) h)"
proof -
  let ?d = "added db kw v ty cm L M" and ?x = "itemsused db"
  note li = kw_invD(1) [OF inv]
  have x: "?x \<noteq> 0" "?x \<notin> set rc" using kw_linksD(5,8,12) [OF li] by auto
  have rc: "chain ?d rc g = chain db rc g" for g
    unfolding chain_def using kw_rc_gl [OF li] added_name_old [OF inv]
    by (intro filter_cong) auto
  have old: "linked (\<lambda>i. nexthash (itab ?d i)) p (chain db rc g)
      \<longleftrightarrow> linked (\<lambda>i. nexthash (itab db i)) p (chain db rc g)" for p g
    using kw_rc_gl [OF li] added_nexthash [OF li] by (intro linked_cong) (auto simp: chain_def)
  have nm: "name_of ?d ?x = txt_of kw" by (rule added_name_new [OF inv st])
  show ?thesis
  proof (cases "txt_of kw = []")
    case True
    then have "hashtbl ?d h = hashtbl db h" by (simp add: added_def Let_def)
    then show ?thesis using True old rc kw_linksD(14) [OF li h] by simp
  next
    case False
    let ?h = "nat (hash (txt_of kw))"
    have hk: "int ?h = hash (txt_of kw)" "?h < NTHREADS"
      using hash_range [of "txt_of kw"] entry_okD(5) [OF st] by auto
    have new: "nexthash (itab ?d ?x) = hashtbl db ?h"
      "hashtbl ?d h = (if h = ?h then ?x else hashtbl db h)"
      using False by (simp_all add: added_def Let_def)
    have c: "chain ?d (?x # rc) h = (if h = ?h then ?x # chain db rc h else chain db rc h)"
      using rc [of h] hk(1) nm by (auto simp: chain_def)
    show ?thesis
      using False c new x old kw_linksD(14) [OF li h] kw_linksD(14) [OF li hk(2)] by auto
  qed
qed

lemma added_glob:
  assumes li: "kw_links db gl rc"
  shows "linked (\<lambda>i. nextglob (itab (added db kw v ty cm L M) i)) (head (added db kw v ty cm L M))
     (gl @ [itemsused db])"
proof -
  let ?x = "itemsused db" and ?nx = "\<lambda>i. nextglob (itab db i)"
  have x: "?x \<noteq> 0" "?x \<notin> set gl" using kw_linksD(5,8) [OF li] by auto
  show ?thesis
  proof (cases "gl = []")
    case True
    then have "head db = 0" "tail db = 0" using kw_linksD(1,6) [OF li] by auto
    then show ?thesis using True x by (simp add: added_def Let_def)
  next
    case False
    then have hd0: "head db \<noteq> 0" "tail db = last gl" "tail db \<noteq> 0"
      using kw_linksD(1,4,6) [OF li] by (cases gl; auto)+
    have "linked (?nx(last gl := ?x, ?x := 0)) (head db) (gl @ [?x])"
      using linked_snoc [OF kw_linksD(1) [OF li] False kw_linksD(3) [OF li] x] .
    moreover have "(\<lambda>i. nextglob (itab (added db kw v ty cm L M) i)) = ?nx(last gl := ?x, ?x := 0)"
      using hd0 x False by (intro ext) (auto simp: added_def Let_def)
    moreover have "head (added db kw v ty cm L M) = head db" using hd0 by (simp add: added_def Let_def)
    ultimately show ?thesis by simp
  qed
qed

lemma added_kw_links:
  assumes inv: "kw_inv db gl rc" and st: "entry_ok kw v ty cm" and M: "itemsused db < M"
  shows "kw_links (added db kw v ty cm L M) (gl @ [itemsused db])
     (if txt_of kw = [] then rc else itemsused db # rc)"
proof -
  let ?d = "added db kw v ty cm L M" and ?x = "itemsused db"
  note li = kw_invD(1) [OF inv]
  have sh: "itemsused ?d = ?x + 1" "maxitems ?d = M" "itab_cap ?d = M" "tail ?d = ?x"
    "nitems ?d = nitems db + 1" by (simp_all add: added_def Let_def)
  have nm: "name_of ?d ?x = txt_of kw" "\<And>i. i \<in> set gl \<Longrightarrow> name_of ?d i = name_of db i"
    using added_name_new [OF inv st] added_name_old [OF inv] by auto
  note l = kw_linksD [OF li]
  have "?x \<notin> set rc" using l(5,12) by auto
  moreover have "sorted_wrt (<) (gl @ [?x])" using l(2,5) by (simp add: sorted_wrt_append)
  moreover have "\<forall>i \<in> set (gl @ [?x]). ascii (name_of ?d i)"
    using nm l(13) entry_okD(5) [OF st] by auto
  moreover have "set (if txt_of kw = [] then rc else ?x # rc) = {i \<in> set (gl @ [?x]). name_of ?d i \<noteq> []}"
    using nm l(12) by auto
  moreover have "\<forall>i \<in> set (gl @ [?x]). 0 < i \<and> i < ?x + 1" using l(4,5,8) by fastforce
  ultimately show ?thesis
    using added_glob [OF li, of kw v ty cm L M] added_chain [OF inv st] l(7,8,11) M
    unfolding kw_links_def by (auto simp: sh)
qed

lemma AddEntry_run:
  assumes inv: "kw_inv db gl rc" and ma: "\<forall>n. ma n" and st: "entry_ok kw v ty cm"
  shows "\<exists>x db'. kwdb_AddEntry ma db kw v ty cm = Inr (int x, db') \<and> x \<notin> set gl \<and> 0 < x
     \<and> kw_inv db' (gl @ [x]) (if txt_of kw = [] then rc else x # rc)
     \<and> (\<forall>f. text_of db' x f = entry_text kw v ty cm f)
     \<and> (\<forall>i \<in> set gl. \<forall>f. text_of db' i f = text_of db i f)"
proof -
  note li = kw_invD(1) [OF inv]
  obtain L M where LM: "kwdb_AddEntry ma db kw v ty cm = Inr (int (itemsused db), added db kw v ty cm L M)"
      "length (sbuf db @ stext kw @ stext v @ stext ty @ stext cm) \<le> L" "itemsused db < M"
    using AddEntry_eq [OF ma kw_textD(2) [OF kw_invD(2) [OF inv]] kw_linksD(10,9) [OF li]
        kw_tail(1) [OF li] entry_okD [OF st]] by blast
  have new: "itemsused db \<notin> set gl" "0 < itemsused db" using kw_linksD(5,8) [OF li] by auto
  have "kw_inv (added db kw v ty cm L M) (gl @ [itemsused db])
      (if txt_of kw = [] then rc else itemsused db # rc)"
    using added_kw_links [OF inv st LM(3)] added_kw_text [OF inv st LM(2)] by (simp add: kw_inv_def)
  then show ?thesis
    using LM(1) added_text_new(1) [OF inv st] added_text_old(2) [OF inv] new
    by (intro exI [of _ "itemsused db"] exI [of _ "added db kw v ty cm L M"]) simp
qed

section \<open>Lookup\<close>

definition matches :: "kwdb \<Rightarrow> nat list \<Rightarrow> string \<Rightarrow> nat list" where
  "matches db rc kw = filter (\<lambda>i. streq (name_of db i) kw) rc"

definition nth0 :: "nat list \<Rightarrow> nat \<Rightarrow> nat" where
  "nth0 xs n = (if n < length xs then xs ! n else 0)"

lemma nth0_simps [simp]:
  "nth0 [] n = 0" "nth0 (x # xs) 0 = x" "nth0 (x # xs) (Suc n) = nth0 xs n"
  by (simp_all add: nth0_def)

lemma lookup_loop_chain:
  assumes "linked (\<lambda>i. nexthash (itab db i)) p xs" "length xs \<le> n" "0 \<le> j"
  shows "lookup_loop db kw inst n p j = Inr (if inst < j then 0
      else int (nth0 (filter (\<lambda>i. streq (name_of db i) kw) xs) (nat (inst - j))))"
  using assms
proof (induction n arbitrary: p xs j)
  case 0
  then show ?case by auto
next
  case (Suc n)
  show ?case
  proof (cases xs)
    case Nil
    then show ?thesis using Suc.prems by simp
  next
    case (Cons x ys)
    then have p: "p = x" "x \<noteq> 0" "linked (\<lambda>i. nexthash (itab db i)) (nexthash (itab db x)) ys" "length ys \<le> n"
      using Suc.prems by auto
    have s: "inst > j \<Longrightarrow> nat (inst - j) = Suc (nat (inst - (j + 1)))" by simp
    show ?thesis
      using Suc.IH [OF p(3,4), of j] Suc.IH [OF p(3,4), of "j + 1"] p Suc.prems(3) Cons s by auto
  qed
qed

lemma Lookup_run:
  assumes inv: "kw_inv db gl rc" and kw: "ascii kw" and inst: "0 \<le> inst"
  shows "kwdb_Lookup db kw inst = Inr (int (nth0 (matches db rc kw) (nat inst)))"
proof -
  note li = kw_invD(1) [OF inv]
  let ?h = "nat (hash kw)"
  have h: "hash_index kw = Inr ?h" "?h < NTHREADS" "int ?h = hash kw"
    using hash_index_ascii [OF kw] hash_range [OF kw] by auto
  have "filter (\<lambda>i. streq (name_of db i) kw) (chain db rc ?h) = matches db rc kw"
    unfolding chain_def matches_def using hash_streq h(3) by (auto intro!: filter_cong)
  then show ?thesis
    using lookup_loop_chain [OF kw_linksD(14) [OF li h(2)] kw_fuel(3) [OF li], of 0 kw inst] h inst
    by (simp add: kwdb_Lookup_def)
qed

section \<open>Changing a field in place\<close>

fun upd_field :: "field \<Rightarrow> nat \<Rightarrow> nat \<Rightarrow> nat \<Rightarrow> kwdb \<Rightarrow> kwdb" where
  "upd_field Fname i off len db = db\<lparr>itab := (itab db)(i := (itab db i)\<lparr>it_name := off\<rparr>)\<rparr>"
| "upd_field Fvalue i off len db =
     db\<lparr>itab := (itab db)(i := (itab db i)\<lparr>it_value := off, it_vallen := len\<rparr>)\<rparr>"
| "upd_field Ftype i off len db =
     db\<lparr>itab := (itab db)(i := (itab db i)\<lparr>it_type := off, it_typelen := len\<rparr>)\<rparr>"
| "upd_field Fcomment i off len db =
     db\<lparr>itab := (itab db)(i := (itab db i)\<lparr>it_comment := off, it_comlen := len\<rparr>)\<rparr>"

lemma upd_field_same:
  "itemsused (upd_field f i off len db) = itemsused db" "maxitems (upd_field f i off len db) = maxitems db"
  "itab_cap (upd_field f i off len db) = itab_cap db" "nitems (upd_field f i off len db) = nitems db"
  "head (upd_field f i off len db) = head db" "tail (upd_field f i off len db) = tail db"
  "hashtbl (upd_field f i off len db) = hashtbl db" "sbuf (upd_field f i off len db) = sbuf db"
  "sbuflen (upd_field f i off len db) = sbuflen db"
  "nexthash (itab (upd_field f i off len db) j) = nexthash (itab db j)"
  "nextglob (itab (upd_field f i off len db) j) = nextglob (itab db j)"
  by (cases f; simp)+

lemma fst_reg_upd:
  "fst (reg (upd_field f i off len db) j g) = (if (j, g) = (i, f) then off else fst (reg db j g))"
  by (cases f; cases g) auto

lemma kw_links_cong:
  assumes "kw_links db gl rc"
    and "itemsused db' = itemsused db" "maxitems db' = maxitems db" "itab_cap db' = itab_cap db"
    "nitems db' = nitems db" "head db' = head db" "tail db' = tail db" "hashtbl db' = hashtbl db"
    "\<And>j. nexthash (itab db' j) = nexthash (itab db j)" "\<And>j. nextglob (itab db' j) = nextglob (itab db j)"
    and nm: "\<And>j. j \<in> set gl \<Longrightarrow> name_of db' j = name_of db j"
  shows "kw_links db' gl rc"
proof -
  have "chain db' rc h = chain db rc h" for h
    unfolding chain_def using nm kw_rc_gl [OF assms(1)] by (intro filter_cong) auto
  then show ?thesis using assms unfolding kw_links_def by auto
qed

lemma refield_text:
  fixes db gl i f off len buf L
  defines "db' \<equiv> upd_field f i off len (db\<lparr>sbuf := buf, sbuflen := L\<rparr>)"
  assumes tx: "kw_text db gl" and i: "i \<in> set gl"
    and f: "f = Fname \<Longrightarrow> len = length (cstr_at buf off)"
    and buf: "buf_ok buf" "length buf \<le> L"
    and old: "\<And>j g. j \<in> set gl \<Longrightarrow> (j, g) \<noteq> (i, f) \<Longrightarrow> region_ok buf (reg db j g)
         \<and> cstr_at buf (fst (reg db j g)) = text_of db j g \<and> apart (off, len) (reg db j g)"
    and new: "region_ok buf (off, len)"
  shows "kw_text db' gl" and "text_of db' i f = cstr_at buf off"
    and "j \<in> set gl \<Longrightarrow> (j, g) \<noteq> (i, f) \<Longrightarrow> text_of db' j g = text_of db j g"
proof -
  have b: "sbuf db' = buf" "sbuflen db' = L" by (simp_all add: db'_def upd_field_same)
  show t: "text_of db' i f = cstr_at buf off"
    by (simp add: text_of_def b) (simp add: db'_def fst_reg_upd)
  have fr: "fst (reg db' j g) = fst (reg db j g)" if "(j, g) \<noteq> (i, f)" for j g
    using that unfolding db'_def fst_reg_upd by (cases g) auto
  show o: "text_of db' j g = text_of db j g" if "j \<in> set gl" "(j, g) \<noteq> (i, f)" for j g
    using old [OF that] fr [OF that(2)] by (simp add: text_of_def b)
  have nm: "name_of db' j = (if (j, Fname) = (i, f) then cstr_at buf off else name_of db j)"
    if "j \<in> set gl" for j
    using o [OF that, of Fname] t by (auto simp: text_of_simps)
  have rg: "reg db' j g = (if (j, g) = (i, f) then (off, len) else reg db j g)" if "j \<in> set gl" for j g
    using nm [OF that] f unfolding db'_def by (cases f; cases g) auto
  show "kw_text db' gl"
    unfolding kw_text_def b
  proof (intro conjI ballI allI impI)
    show "buf_ok buf" "length buf \<le> L" by (rule buf)+
    show "region_ok buf (reg db' j g)" if "j \<in> set gl" for j g
      using old [OF that, of g] new by (simp add: rg that)
    show "apart (reg db' j g) (reg db' k h)" if "j \<in> set gl" "k \<in> set gl" "(j, g) \<noteq> (k, h)" for j k g h
    proof (cases "(j, g) = (i, f)")
      case True
      then have "(k, h) \<noteq> (i, f)" using that(3) by auto
      then show ?thesis using old [of k h] that True by (auto simp: rg)
    next
      case jg: False
      have "apart (reg db j g) (off, len)" using old [OF that(1) jg] apart_sym by blast
      then show ?thesis using jg kw_textD(4) [OF tx that] that
        by (cases "(k, h) = (i, f)") (auto simp: rg)
    qed
  qed
qed

lemma refield_inv:
  fixes db gl rc i f off len buf L
  defines "db' \<equiv> upd_field f i off len (db\<lparr>sbuf := buf, sbuflen := L\<rparr>)"
  assumes inv: "kw_inv db gl rc" and i: "i \<in> set gl" and f: "f \<noteq> Fname"
    and buf: "buf_ok buf" "length buf \<le> L"
    and old: "\<And>j g. j \<in> set gl \<Longrightarrow> (j, g) \<noteq> (i, f) \<Longrightarrow> region_ok buf (reg db j g)
         \<and> cstr_at buf (fst (reg db j g)) = text_of db j g \<and> apart (off, len) (reg db j g)"
    and new: "region_ok buf (off, len)"
  shows "kw_inv db' gl rc" and "text_of db' i f = cstr_at buf off"
    and "j \<in> set gl \<Longrightarrow> (j, g) \<noteq> (i, f) \<Longrightarrow> text_of db' j g = text_of db j g"
proof -
  have fn: "f = Fname \<Longrightarrow> len = length (cstr_at buf off)" using f by simp
  note R = refield_text [where f = f, OF kw_invD(2) [OF inv] i fn buf old new, folded db'_def]
  show "text_of db' i f = cstr_at buf off" using R(2) by simp
  show o: "text_of db' j g = text_of db j g" if "j \<in> set gl" "(j, g) \<noteq> (i, f)" for j g
    using R(3) that by simp
  have nm: "name_of db' j = name_of db j" if "j \<in> set gl" for j
    using o [OF that, of Fname] f by (simp add: text_of_simps)
  have "kw_links db' gl rc"
    by (rule kw_links_cong [OF kw_invD(1) [OF inv]]) (simp_all add: nm, simp_all add: db'_def upd_field_same)
  then show "kw_inv db' gl rc" using R(1) by (simp add: kw_inv_def)
qed

text \<open>Overwriting a field's bytes leaves every other text alone.\<close>

lemma poke_field:
  assumes inv: "kw_inv db gl rc" and i: "i \<in> set gl" and p: "0 < fst (reg db i f)"
    and n: "length bs \<le> snd (reg db i f) + 1"
    and j: "j \<in> set gl" "(j, g) \<noteq> (i, f)"
  shows "region_ok (poke (fst (reg db i f)) bs (sbuf db)) (reg db j g)"
    "cstr_at (poke (fst (reg db i f)) bs (sbuf db)) (fst (reg db j g)) = text_of db j g"
proof -
  note t = kw_textD [OF kw_invD(2) [OF inv]]
  have room: "fst (reg db i f) + length bs \<le> length (sbuf db)"
    using region_end [OF t(3) [OF i, of f] t(1)] n by simp
  have "fst (reg db j g) \<noteq> 0 \<Longrightarrow> fst (reg db j g) + snd (reg db j g) < fst (reg db i f)
      \<or> fst (reg db i f) + length bs \<le> fst (reg db j g)"
    using t(4) [OF j(1) i j(2)] p n by (auto simp: apart_def)
  from region_text_poke [OF t(3) [OF j(1)] t(1) p room this]
  show "region_ok (poke (fst (reg db i f)) bs (sbuf db)) (reg db j g)"
    "cstr_at (poke (fst (reg db i f)) bs (sbuf db)) (fst (reg db j g)) = text_of db j g"
    by (simp_all add: text_of_def)
qed

lemma poke_buf_ok: "buf_ok buf \<Longrightarrow> 0 < p \<Longrightarrow> buf_ok (poke p bs buf)"
  by (cases buf; cases p) (auto simp: buf_ok_def poke_def)

lemma poke_zero: "buf_ok buf \<Longrightarrow> poke 0 [NUL] buf = buf"
  by (cases buf) (auto simp: buf_ok_def poke_def)


definition set_field ::
    "(nat \<Rightarrow> bool) \<Rightarrow> field \<Rightarrow> kwdb \<Rightarrow> nat \<Rightarrow> string \<Rightarrow> kwdb res" where
  "set_field ma f db i t = bind_res (set_text ma db (fst (reg db i f)) (snd (reg db i f)) t)
     (\<lambda>(off, len, db). Inr (upd_field f i off len db))"

lemma set_field_run:
  assumes inv: "kw_inv db gl rc" and i: "i \<in> set gl" and f: "f \<noteq> Fname"
    and ma: "\<forall>n. ma n" and st: "storable (Some t)"
  shows "\<exists>db'. set_field ma f db i t = Inr db' \<and> kw_inv db' gl rc \<and> text_of db' i f = t
     \<and> (\<forall>j \<in> set gl. \<forall>g. (j, g) \<noteq> (i, f) \<longrightarrow> text_of db' j g = text_of db j g)"
proof -
  note tx = kw_textD [OF kw_invD(2) [OF inv]]
  obtain p n where r: "reg db i f = (p, n)" by (cases "reg db i f")
  have ok: "region_ok (sbuf db) (p, n)" using tx(3) [OF i, of f] r by simp
  have ct: "cstring t" "length t < DEF_SZSBUF" using st by (simp_all add: storable_def txt_of_def)
  have room: "p + n < length (sbuf db)" using region_end [OF ok tx(1)] by simp
  have p0: "p = 0 \<Longrightarrow> n = 0" using ok by (auto simp: region_ok_def)
  show ?thesis
  proof (cases "length t > n")
    case True
    define b1 where "b1 = poke p (replicate n NUL) (sbuf db)"
    have len: "length b1 = length (sbuf db)" using room by (simp add: b1_def)
    have bo: "buf_ok b1" using p0 poke_buf_ok [OF tx(1)] tx(1) by (cases "p = 0") (auto simp: b1_def)
    have t: "txt_of (Some t) = t" "stext (Some t) = t @ [NUL]" "soff (length b1) (Some t) = length b1"
      using True by (auto simp: txt_of_def stext_def soff_def)
    have old1: "region_ok b1 (reg db j g) \<and> cstr_at b1 (fst (reg db j g)) = text_of db j g"
      if "j \<in> set gl" "(j, g) \<noteq> (i, f)" for j g
      using poke_field [OF inv i _ _ that, of "replicate n NUL"] r p0 tx(3) [OF that(1)]
      by (cases "p = 0") (auto simp: b1_def text_of_def)
    obtain L where L: "addstr ma (db\<lparr>sbuf := b1\<rparr>) (Some t)
        = Inr (length b1, db\<lparr>sbuf := b1 @ t @ [NUL], sbuflen := L\<rparr>)" "length (b1 @ t @ [NUL]) \<le> L"
      using addstr_eq [OF ma, of "db\<lparr>sbuf := b1\<rparr>" "Some t"] tx(2) ct len t by auto
    have run: "set_field ma f db i t = Inr (upd_field f i (length b1) (length t)
        (db\<lparr>sbuf := b1 @ t @ [NUL], sbuflen := L\<rparr>))"
      using True L(1) r by (simp add: set_field_def set_text_def Let_def b1_def)
    have old: "region_ok (b1 @ t @ [NUL]) (reg db j g)
        \<and> cstr_at (b1 @ t @ [NUL]) (fst (reg db j g)) = text_of db j g
        \<and> apart (length b1, length t) (reg db j g)"
      if "j \<in> set gl" "(j, g) \<noteq> (i, f)" for j g
      using region_text_append [of b1 "reg db j g" "t @ [NUL]"] old1 [OF that] bo
        region_end [of b1 "reg db j g"] by (auto simp: apart_def)
    have new: "region_ok (b1 @ t @ [NUL]) (length b1, length t)"
        "cstr_at (b1 @ t @ [NUL]) (length b1) = t"
      using region_new [OF st bo] t by simp_all
    have bo2: "buf_ok (b1 @ t @ [NUL])" by (rule buf_ok_append [OF bo])
    note R = refield_inv [OF inv i f bo2 L(2), of "length b1" "length t", OF old new(1)]
    show ?thesis unfolding run using R new(2) by auto
  next
    case False
    define b1 where "b1 = poke p (replicate n NUL) (sbuf db)"
    define b2 where "b2 = poke p (t @ [NUL]) b1"
    have run: "set_field ma f db i t = Inr (upd_field f i p n (db\<lparr>sbuf := b2, sbuflen := sbuflen db\<rparr>))"
      using False r by (simp add: set_field_def set_text_def Let_def b1_def b2_def)
    have len: "length b1 = length (sbuf db)" "length b2 = length (sbuf db)"
      using room False by (auto simp: b1_def b2_def)
    have bo1: "buf_ok b1" using p0 poke_buf_ok [OF tx(1)] tx(1) by (cases "p = 0") (auto simp: b1_def)
    have tz: "p = 0 \<Longrightarrow> t = []" using False p0 by simp
    have bo2: "buf_ok b2" using poke_buf_ok [OF bo1] poke_zero [OF bo1] bo1 tz
      by (cases "p = 0") (auto simp: b2_def)
    have same: "b2 = sbuf db" if "p = 0" using that tz p0 poke_zero [OF tx(1)] by (simp add: b2_def b1_def)
    have old: "region_ok b2 (reg db j g) \<and> cstr_at b2 (fst (reg db j g)) = text_of db j g
        \<and> apart (p, n) (reg db j g)"
      if j: "j \<in> set gl" "(j, g) \<noteq> (i, f)" for j g
    proof -
      have ap: "apart (p, n) (reg db j g)" using tx(4) [OF i j(1), of f g] j(2) r by auto
      show ?thesis
      proof (cases "p = 0")
        case True
        then show ?thesis using same ap tx(3) [OF j(1)] by (simp add: text_of_def)
      next
        case p: False
        have 1: "region_ok b1 (reg db j g)" "cstr_at b1 (fst (reg db j g)) = text_of db j g"
          using poke_field [OF inv i _ _ j, of "replicate n NUL"] r p by (auto simp: b1_def)
        have "fst (reg db j g) \<noteq> 0 \<Longrightarrow> fst (reg db j g) + snd (reg db j g) < p
            \<or> p + length (t @ [NUL]) \<le> fst (reg db j g)"
          using ap p False by (auto simp: apart_def)
        then show ?thesis
          using region_text_poke [OF 1(1) bo1, of p "t @ [NUL]"] p room False len ap 1(2)
          by (simp add: b2_def)
      qed
    qed
    have new: "region_ok b2 (p, n) \<and> cstr_at b2 p = t"
    proof (cases "p = 0")
      case True
      then show ?thesis using same tz p0 cstr_at_0 [OF tx(1)] by (simp add: region_ok_def)
    next
      case p: False
      have "stored_at b2 p n t"
        unfolding b2_def using stored_at_poke_same [of p n b1 t] room len False ct by simp
      then show ?thesis using p stored_at_cstr by (auto simp: region_ok_def)
    qed
    note R = refield_inv [OF inv i f bo2 _ old conjunct1 [OF new], of "sbuflen db"]
    show ?thesis unfolding run using R new len tx(2) by auto
  qed
qed


text \<open>The setters act on the newest entry of the keyword.\<close>

lemma first_match:
  assumes "kw_inv db gl rc" "ascii kw"
  shows "matches db rc kw = [] \<Longrightarrow> kwdb_Lookup db kw 0 = Inr 0"
    and "matches db rc kw = i # is \<Longrightarrow> kwdb_Lookup db kw 0 = Inr (int i) \<and> i \<in> set gl \<and> i \<noteq> 0"
proof -
  note l = Lookup_run [OF assms, of 0]
  show "matches db rc kw = [] \<Longrightarrow> kwdb_Lookup db kw 0 = Inr 0" using l by simp
  assume m: "matches db rc kw = i # is"
  then have "i \<in> set rc" by (metis (no_types, lifting) filter_is_subset list.set_intros(1) matches_def subsetD)
  then have "i \<in> set gl" "i \<noteq> 0"
    using kw_rc_gl kw_linksD(4) kw_invD(1) [OF assms(1)] by (blast, metis kw_rc_gl less_numeral_extra(3))
  then show "kwdb_Lookup db kw 0 = Inr (int i) \<and> i \<in> set gl \<and> i \<noteq> 0" using l m by simp
qed

lemma setters_set_field:
  assumes "kwdb_Lookup db kw 0 = Inr (int i)" "i \<noteq> 0"
  shows "kwdb_SetValue ma db kw t = bind_res (set_field ma Fvalue db i t) (\<lambda>db. Inr (0, db))"
    "kwdb_SetType ma db kw t = bind_res (set_field ma Ftype db i t) (\<lambda>db. Inr (0, db))"
    "kwdb_SetComment ma db kw t = bind_res (set_field ma Fcomment db i t) (\<lambda>db. Inr (0, db))"
  using assms by (auto simp: kwdb_SetValue_def kwdb_SetType_def kwdb_SetComment_def set_field_def
      bind_res_def split: sum.splits)

section \<open>Unlinking an entry\<close>

lemma find_pred_spec:
  "linked nx p xs \<Longrightarrow> distinct xs \<Longrightarrow> length xs \<le> n \<Longrightarrow>
   find_pred nx ep n otp p = Inr (if ep \<in> set xs then Some (last (otp # takeWhile (\<lambda>i. i \<noteq> ep) xs)) else None)"
proof (induction n arbitrary: xs p otp)
  case 0
  then show ?case by simp
next
  case (Suc n)
  then show ?case by (cases xs) auto
qed

lemma find_glob_spec:
  "linked nx p xs \<Longrightarrow> distinct xs \<Longrightarrow> length xs \<le> n \<Longrightarrow> ep \<noteq> 0 \<Longrightarrow> (xs \<noteq> [] \<Longrightarrow> ep \<noteq> hd xs) \<Longrightarrow>
   find_glob nx ep n p = Inr (if ep \<in> set xs then last (takeWhile (\<lambda>i. i \<noteq> ep) xs) else 0)"
proof (induction n arbitrary: xs p)
  case 0
  then show ?case by simp
next
  case (Suc n)
  show ?case
  proof (cases xs)
    case Nil
    then show ?thesis using Suc.prems by simp
  next
    case (Cons x ys)
    then show ?thesis
      using Suc.IH [of ys "nx x"] Suc.prems by (cases ys) auto
  qed
qed

lemma takeWhile_mid: "x \<notin> set as \<Longrightarrow> takeWhile (\<lambda>i. i \<noteq> x) (as @ x # bs) = as"
  by (induction as) auto

definition relinked :: "kwdb \<Rightarrow> (nat \<Rightarrow> nat) \<Rightarrow> (nat \<Rightarrow> nat) \<Rightarrow> kwdb" where
  "relinked db H X = db\<lparr>hashtbl := H, itab := (\<lambda>i. (itab db i)\<lparr>nexthash := X i\<rparr>)\<rparr>"

lemma relinked_same:
  "itemsused (relinked db H X) = itemsused db" "maxitems (relinked db H X) = maxitems db"
  "itab_cap (relinked db H X) = itab_cap db" "nitems (relinked db H X) = nitems db"
  "head (relinked db H X) = head db" "tail (relinked db H X) = tail db" "sbuf (relinked db H X) = sbuf db"
  "sbuflen (relinked db H X) = sbuflen db" "hashtbl (relinked db H X) = H"
  "nexthash (itab (relinked db H X) i) = X i" "nextglob (itab (relinked db H X) i) = nextglob (itab db i)"
  "reg (relinked db H X) i f = reg db i f" "name_of (relinked db H X) i = name_of db i"
  "text_of (relinked db H X) i f = text_of db i f"
  by (cases f; simp add: relinked_def name_of_def text_of_def)+

lemma relinked_upd:
  "db\<lparr>hashtbl := H\<rparr> = relinked db H (\<lambda>i. nexthash (itab db i))"
  "db\<lparr>itab := (itab db)(y := (itab db y)\<lparr>nexthash := n\<rparr>)\<rparr>
     = relinked db (hashtbl db) ((\<lambda>i. nexthash (itab db i))(y := n))"
  by (cases db; auto simp: relinked_def fun_eq_iff)+

definition chains :: "kwdb \<Rightarrow> (nat \<Rightarrow> nat) \<Rightarrow> (nat \<Rightarrow> nat) \<Rightarrow> nat list \<Rightarrow> bool" where
  "chains db H X rc \<longleftrightarrow> (\<forall>h < NTHREADS. linked X (H h) (chain db rc h))"

lemma append_last_butlast: "xs \<noteq> [] \<Longrightarrow> xs @ zs = butlast xs @ last xs # zs"
  by (induction xs) auto

lemma chain_remove1: "distinct rc \<Longrightarrow> chain db (remove1 ep rc) h = remove1 ep (chain db rc h)"
  by (simp add: chain_def distinct_remove1_removeAll removeAll_filter_not_eq conj_commute)

lemma unlink_hash_run:
  assumes inv: "kw_inv db gl rc" and ep: "ep \<in> set gl"
  shows "\<exists>H X. unlink_hash db ep = Inr (relinked db H X) \<and> X ep = nexthash (itab db ep)
     \<and> chains db H X (remove1 ep rc)"
proof -
  note l = kw_linksD [OF kw_invD(1) [OF inv]]
  let ?nx = "\<lambda>i. nexthash (itab db i)"
  have self: "relinked db (hashtbl db) ?nx = db" by (cases db) (simp add: relinked_def)
  have all: "chains db (hashtbl db) ?nx rc" using l(14) by (simp add: chains_def)
  show ?thesis
  proof (cases "name_of db ep = []")
    case True
    then have "ep \<notin> set rc" using l(12) by simp
    then have "remove1 ep rc = rc" by (simp add: remove1_idem)
    moreover have "unlink_hash db ep = Inr db" using True by (simp add: unlink_hash_def Let_def)
    ultimately show ?thesis using self all by (metis (no_types, lifting))
  next
    case False
    let ?g = "nat (hash (name_of db ep))" and ?name = "name_of db ep"
    have nz: "it_name (itab db ep) \<noteq> 0"
      using False cstr_at_0 [OF kw_textD(1) [OF kw_invD(2) [OF inv]]] by (metis name_of_def)
    have g: "hash_index ?name = Inr ?g" "?g < NTHREADS" "int ?g = hash ?name"
      using hash_index_ascii hash_range l(13) [OF ep] by auto
    have epc: "ep \<in> set (chain db rc ?g)" using False ep l(12) g(3) by (simp add: chain_def)
    have dc: "distinct (chain db rc h)" for h using l(11) by (simp add: chain_def)
    have disj: "y \<notin> set (chain db rc h)" if "y \<in> set (chain db rc ?g)" "h \<noteq> ?g" for y h
      using that g(3) by (auto simp: chain_def)
    have rem: "chain db (remove1 ep rc) h = remove1 ep (chain db rc h)" for h
      by (rule chain_remove1 [OF l(11)])
    have other: "chain db (remove1 ep rc) h = chain db rc h" if "h \<noteq> ?g" for h
      unfolding rem using disj [OF epc that] by (rule remove1_idem)
    obtain as bs where split: "chain db rc ?g = as @ ep # bs" using epc by (meson split_list)
    have nas: "ep \<notin> set as" "ep \<notin> set bs" using dc [of ?g] split by auto
    have link: "linked ?nx (hashtbl db ?g) (as @ ep # bs)" using l(14) [OF g(2)] split by simp
    have remg: "chain db (remove1 ep rc) ?g = as @ bs"
      unfolding rem split by (rule remove1_split) (use dc [of ?g] split in simp)
    show ?thesis
    proof (cases as)
      case Nil
      let ?H = "(hashtbl db)(?g := ?nx ep)"
      have "unlink_hash db ep = Inr (relinked db ?H ?nx)"
        using link Nil False nz g(1) by (simp add: unlink_hash_def Let_def relinked_upd)
      moreover have "chains db ?H ?nx (remove1 ep rc)"
        using link Nil remg other l(14) by (auto simp: chains_def)
      ultimately show ?thesis by blast
    next
      case (Cons a as')
      have a: "hashtbl db ?g = a" "a \<noteq> ep" "linked ?nx (?nx a) (as' @ ep # bs)"
        using link Cons nas by auto
      have fu: "length (as' @ ep # bs) \<le> maxitems db"
        using kw_fuel(3) [OF kw_invD(1) [OF inv], of ?g] split Cons by simp
      define y where "y = last as"
      have yc: "y \<in> set (chain db rc ?g)" "y \<noteq> ep" using Cons nas split by (auto simp: y_def)
      have "find_pred ?nx ep (maxitems db) a (?nx a) = Inr (Some y)"
        using find_pred_spec [OF a(3) _ fu] dc [of ?g] split Cons nas
        by (simp add: takeWhile_mid y_def)
      then have run: "unlink_hash db ep = Inr (relinked db (hashtbl db) (?nx(y := ?nx ep)))"
        using a False nz g(1) by (simp add: unlink_hash_def Let_def relinked_upd)
      have spl: "as @ zs = butlast as @ y # zs" for zs
        using append_last_butlast [of as zs] Cons by (simp add: y_def)
      have "linked (?nx(y := ?nx ep)) (hashtbl db ?g) (as @ bs)"
        using linked_unlink [of "butlast as" y ep bs ?nx "hashtbl db ?g"] link dc [of ?g]
        unfolding split spl [of bs] spl [of "ep # bs"] by blast
      moreover have "linked (?nx(y := ?nx ep)) (hashtbl db h) (chain db rc h)"
        if "h \<noteq> ?g" "h < NTHREADS" for h
        using l(14) [OF that(2)] disj [OF yc(1) that(1)] by (simp add: linked_upd_other del: fun_upd_apply)
      ultimately have "chains db (hashtbl db) (?nx(y := ?nx ep)) (remove1 ep rc)"
        unfolding chains_def using remg other by metis
      moreover have "(?nx(y := ?nx ep)) ep = ?nx ep" using yc(2) by simp
      ultimately show ?thesis using run by blast
    qed
  qed
qed

section \<open>Deleting an entry\<close>

lemma kw_text_sub:
  assumes "kw_text db gl" "set gl' \<subseteq> set gl" "sbuf db' = sbuf db" "sbuflen db' = sbuflen db"
    and "\<And>i f. reg db' i f = reg db i f"
  shows "kw_text db' gl'"
  using assms unfolding kw_text_def by (simp add: subset_iff)

text \<open>The part of \<open>kwdb_DeleteEntry\<close> after the hash chain: the global list.\<close>

definition unlink_glob :: "kwdb \<Rightarrow> nat \<Rightarrow> kwdb res" where
  "unlink_glob db ep =
     (let itp = itab db ep;
          db = (if head db = ep then db\<lparr>head := nextglob itp\<rparr> else db) in
      bind_res (find_glob (\<lambda>k. nextglob (itab db k)) ep (maxitems db) (head db)) (\<lambda>i.
        let db = (if i \<noteq> 0
                  then db\<lparr>itab := (itab db)(i := (itab db i)\<lparr>nextglob := nextglob itp\<rparr>)\<rparr> else db);
            db = (if tail db = ep then db\<lparr>tail := i, itemsused := itemsused db - 1\<rparr> else db)
        in Inr (db\<lparr>nitems := nitems db - 1\<rparr>)))"

lemma DeleteEntry_eq:
  assumes "0 < ep" "ep \<le> tail db"
  shows "kwdb_DeleteEntry db (int ep)
    = bind_res (unlink_hash db ep) (\<lambda>db. bind_res (unlink_glob db ep) (\<lambda>db. Inr (0, db)))"
  using assms by (simp add: kwdb_DeleteEntry_def unlink_glob_def Let_def bind_res_def split: sum.splits)

lemma unlink_glob_run:
  assumes l: "linked (\<lambda>k. nextglob (itab db k)) (head db) gl" "distinct gl" "length gl \<le> maxitems db"
    "tail db = (if gl = [] then 0 else last gl)" and ep: "ep \<in> set gl"
  shows "\<exists>db' G. unlink_glob db ep = Inr db' \<and> linked G (head db') (remove1 ep gl)
     \<and> db' = db\<lparr>head := head db', tail := (if remove1 ep gl = [] then 0 else last (remove1 ep gl)),
             itemsused := itemsused db - (if ep = tail db then 1 else 0), nitems := nitems db - 1,
             itab := (\<lambda>k. (itab db k)\<lparr>nextglob := G k\<rparr>)\<rparr>"
proof -
  let ?nx = "\<lambda>k. nextglob (itab db k)"
  obtain as bs where gl: "gl = as @ ep # bs" using ep by (meson split_list)
  have nas: "ep \<notin> set as" "ep \<notin> set bs" using l(2) gl by auto
  have rem: "remove1 ep gl = as @ bs" unfolding gl by (rule remove1_split) (use l(2) gl in simp)
  have e0: "ep \<noteq> 0" "?nx ep \<noteq> ep" using linked_nonzero [OF l(1)] linked_split [of "as @ [ep]" bs ?nx "head db"] l(1) gl nas
    by (auto, cases bs, auto)
  have tl: "tail db = last (ep # bs)" using l(4) gl by simp
  show ?thesis
  proof (cases as)
    case Nil
    have b: "head db = ep" "linked ?nx (?nx ep) bs" using l(1) gl Nil by auto
    have "find_glob ?nx ep (maxitems db) (?nx ep) = Inr 0"
      using find_glob_spec [OF b(2), of "maxitems db" ep] l(2,3) gl Nil e0 nas by (cases bs) auto
    then have "unlink_glob db ep = Inr (db\<lparr>head := ?nx ep, tail := (if tail db = ep then 0 else tail db),
        itemsused := itemsused db - (if ep = tail db then 1 else 0), nitems := nitems db - 1,
             itab := (\<lambda>k. (itab db k)\<lparr>nextglob := ?nx k\<rparr>)\<rparr>)"
      using b(1) by (cases db) (simp add: unlink_glob_def Let_def)
    moreover have "(if tail db = ep then 0 else tail db) = (if bs = [] then 0 else last bs)"
      using tl nas e0 by (cases bs rule: rev_cases) auto
    ultimately show ?thesis using b(2) rem Nil by (intro exI [of _ "db\<lparr>head := ?nx ep, tail := (if tail db = ep then 0 else tail db),
        itemsused := itemsused db - (if ep = tail db then 1 else 0), nitems := nitems db - 1,
             itab := (\<lambda>k. (itab db k)\<lparr>nextglob := ?nx k\<rparr>)\<rparr>"] exI [of _ ?nx]) simp
  next
    case (Cons a as')
    define y where "y = last as"
    have spl: "as @ zs = butlast as @ y # zs" for zs
      using append_last_butlast [of as zs] Cons by (simp add: y_def)
    have hd: "head db = a" "a \<noteq> ep" using l(1) gl Cons nas by auto
    have "y \<in> set as" using Cons by (simp add: y_def)
    then have y: "y \<noteq> 0" "y \<noteq> ep" using linked_nonzero [OF l(1)] gl nas
      by (metis Un_iff set_append, blast)
    have "find_glob ?nx ep (maxitems db) (head db) = Inr y"
      using find_glob_spec [OF l(1,2,3) e0(1)] gl Cons nas by (simp add: takeWhile_mid y_def)
    then have run: "unlink_glob db ep = Inr (db\<lparr>tail := (if tail db = ep then y else tail db),
        itemsused := itemsused db - (if ep = tail db then 1 else 0), nitems := nitems db - 1,
        itab := (itab db)(y := (itab db y)\<lparr>nextglob := ?nx ep\<rparr>)\<rparr>)"
      using hd y by (simp add: unlink_glob_def Let_def)
    have t: "(if tail db = ep then y else tail db) = (if remove1 ep gl = [] then 0 else last (remove1 ep gl))"
      using tl rem nas Cons by (cases bs rule: rev_cases) (auto simp: y_def)
    have it: "(itab db)(y := (itab db y)\<lparr>nextglob := ?nx ep\<rparr>)
        = (\<lambda>k. (itab db k)\<lparr>nextglob := (?nx(y := ?nx ep)) k\<rparr>)" by (auto simp: fun_eq_iff)
    have "linked (?nx(y := ?nx ep)) (head db) (remove1 ep gl)"
      using linked_unlink [of "butlast as" y ep bs ?nx "head db"] l(1,2)
      unfolding rem unfolding gl spl [of bs] spl [of "ep # bs"] by blast
    then show ?thesis unfolding run t it
      by (intro exI [of _ "db\<lparr>tail := (if remove1 ep gl = [] then 0 else last (remove1 ep gl)),
        itemsused := itemsused db - (if ep = tail db then 1 else 0), nitems := nitems db - 1,
        itab := (\<lambda>k. (itab db k)\<lparr>nextglob := (?nx(y := ?nx ep)) k\<rparr>)\<rparr>"]
        exI [of _ "?nx(y := ?nx ep)"]) (cases db; simp del: fun_upd_apply)
  qed
qed

lemma last_remove1_less:
  assumes "sorted_wrt (<) xs" "i \<in> set (remove1 (last xs) xs)"
  shows "i < (last xs :: nat)"
proof (cases xs rule: rev_cases)
  case (snoc ys y)
  then have "i \<in> set ys" using assms sorted_distinct [OF assms(1)]
    by (auto simp: remove1_append)
  then show ?thesis using assms(1) snoc by (auto simp: sorted_wrt_append)
qed (use assms in simp)

lemma DeleteEntry_run:
  assumes inv: "kw_inv db gl rc" and ep: "ep \<in> set gl"
  shows "\<exists>db'. kwdb_DeleteEntry db (int ep) = Inr (0, db')
     \<and> kw_inv db' (remove1 ep gl) (remove1 ep rc) \<and> (\<forall>i f. text_of db' i f = text_of db i f)"
proof -
  note li = kw_invD(1) [OF inv]
  note l = kw_linksD [OF li]
  have tl: "tail db = last gl" using ep l(6) by auto
  have le: "0 < ep" "ep \<le> tail db"
  proof -
    show "0 < ep" using l(4) [OF ep] .
    show "ep \<le> tail db"
    proof (cases "ep = last gl")
      case False
      then have "ep \<in> set (remove1 (last gl) gl)" using ep by simp
      then show ?thesis using last_remove1_less [OF l(2)] tl by fastforce
    qed (simp add: tl)
  qed
  obtain H X where u: "unlink_hash db ep = Inr (relinked db H X)" "chains db H X (remove1 ep rc)"
    using unlink_hash_run [OF inv ep] by blast
  let ?d = "relinked db H X"
  obtain db' G where v: "unlink_glob ?d ep = Inr db'" "linked G (head db') (remove1 ep gl)"
    "db' = ?d\<lparr>head := head db', tail := (if remove1 ep gl = [] then 0 else last (remove1 ep gl)),
       itemsused := itemsused db - (if ep = tail db then 1 else 0), nitems := nitems db - 1,
       itab := (\<lambda>k. (itab ?d k)\<lparr>nextglob := G k\<rparr>)\<rparr>"
    using unlink_glob_run [of gl ?d ep] l(1,3,6) kw_fuel(1) [OF li] ep
    unfolding relinked_same by blast
  have sh: "itab db' = (\<lambda>k. (itab ?d k)\<lparr>nextglob := G k\<rparr>)" "sbuf db' = sbuf db"
    "sbuflen db' = sbuflen db" "maxitems db' = maxitems db" "itab_cap db' = itab_cap db"
    "nitems db' = nitems db - 1" "itemsused db' = itemsused db - (if ep = tail db then 1 else 0)"
    "tail db' = (if remove1 ep gl = [] then 0 else last (remove1 ep gl))" "hashtbl db' = H"
    by (subst v(3), simp add: relinked_same)+
  have rg: "reg db' i f = reg db i f" and nm: "name_of db' i = name_of db i"
    and nx: "nexthash (itab db' i) = X i" "nextglob (itab db' i) = G i" for i f
    by (cases f; simp add: sh name_of_def relinked_def)+
  have tx: "text_of db' i f = text_of db i f" for i f by (simp add: text_of_def rg sh)
  have used: "i < itemsused db - (if ep = tail db then 1 else 0)" if "i \<in> set (remove1 ep gl)" for i
  proof (cases "ep = tail db")
    case True
    then have "i < ep" using last_remove1_less [OF l(2), of i] that tl by simp
    then show ?thesis using True l(5) [OF ep] by simp
  next
    case False
    then show ?thesis using l(5) that set_remove1_subset by fastforce
  qed
  have ch: "chain db' (remove1 ep rc) h = chain db (remove1 ep rc) h" for h by (simp add: chain_def nm)
  have sub: "set (remove1 ep gl) = set gl - {ep}" "set (remove1 ep rc) = set rc - {ep}"
    using l(3,11) by simp_all
  have "sorted_wrt (<) (remove1 ep gl)" using l(2,3)
    by (simp add: distinct_remove1_removeAll removeAll_filter_not_eq sorted_wrt_filter)
  moreover have "1 \<le> itemsused db - (if ep = tail db then 1 else 0)" using l(4,5) [OF ep] by auto
  moreover have "nitems db - 1 = int (length (remove1 ep gl))"
    using l(7) ep length_pos_if_in_set [OF ep] by (simp only: length_remove1 if_True)
  ultimately have "kw_links db' (remove1 ep gl) (remove1 ep rc)"
    unfolding kw_links_def sh(4-9) nx nm ch
    using v(2) used l(4,9,10,11,12,13) u(2) sub by (auto simp: chains_def)
  moreover have "kw_text db' (remove1 ep gl)"
    using kw_text_sub [OF kw_invD(2) [OF inv]] sub(1) sh(2,3) rg by (metis Diff_subset)
  moreover have "kwdb_DeleteEntry db (int ep) = Inr (0, db')"
    using DeleteEntry_eq [OF le] u(1) v(1) by simp
  ultimately show ?thesis using tx by (auto simp: kw_inv_def)
qed

section \<open>Renaming an entry\<close>

lemma kw_text_relinked: "kw_text (relinked db H X) gl \<longleftrightarrow> kw_text db gl"
  unfolding kw_text_def by (simp add: relinked_same)

lemma relinked_relinked: "relinked (relinked db H X) H' X' = relinked db H' X'"
  by (cases db) (simp add: relinked_def)

text \<open>
  Renaming is sound when the chain the entry moves to is not empty, or the entry was the last
  of its old chain: the source assigns \<open>nexthash\<close> only in the first case.
\<close>

definition rename_safe :: "kwdb \<Rightarrow> nat list \<Rightarrow> nat \<Rightarrow> string \<Rightarrow> bool" where
  "rename_safe db rc ep new \<longleftrightarrow>
     chain db (remove1 ep rc) (nat (hash new)) \<noteq> [] \<or> nexthash (itab db ep) = 0"

definition renamed :: "kwdb \<Rightarrow> (nat \<Rightarrow> nat) \<Rightarrow> (nat \<Rightarrow> nat) \<Rightarrow> nat \<Rightarrow> string \<Rightarrow> nat \<Rightarrow> kwdb" where
  "renamed db H X ep new L = upd_field Fname ep (soff (length (sbuf db)) (Some new)) (length new)
     ((relinked db H X)\<lparr>sbuf := sbuf db @ stext (Some new), sbuflen := L\<rparr>)"

lemma renamed_text:
  assumes inv: "kw_inv db gl rc" and ep: "ep \<in> set gl" and st: "storable (Some new)"
    and L: "length (sbuf db @ stext (Some new)) \<le> L"
  shows "kw_text (renamed db H X ep new L) gl"
    and "text_of (renamed db H X ep new L) ep Fname = new"
    and "j \<in> set gl \<Longrightarrow> (j, g) \<noteq> (ep, Fname) \<Longrightarrow> text_of (renamed db H X ep new L) j g = text_of db j g"
proof -
  note tx = kw_textD [OF kw_invD(2) [OF inv]]
  note n = region_new [OF st tx(1)]
  have t: "txt_of (Some new) = new" by (simp add: txt_of_def)
  have k: "kw_text (relinked db H X) gl" using kw_invD(2) [OF inv] by (simp add: kw_text_relinked)
  have old: "region_ok (sbuf db @ stext (Some new)) (reg (relinked db H X) j g)
      \<and> cstr_at (sbuf db @ stext (Some new)) (fst (reg (relinked db H X) j g)) = text_of (relinked db H X) j g
      \<and> apart (soff (length (sbuf db)) (Some new), length new) (reg (relinked db H X) j g)"
    if "j \<in> set gl" for j g
    using region_text_append [OF tx(3) [OF that, of g] tx(1), of "stext (Some new)"]
      region_end [OF tx(3) [OF that, of g] tx(1)]
    by (auto simp: relinked_same apart_def soff_def text_of_def)
  have len: "Fname = Fname \<Longrightarrow> length new
      = length (cstr_at (sbuf db @ stext (Some new)) (soff (length (sbuf db)) (Some new)))"
    using n(2) t by simp
  have new: "region_ok (sbuf db @ stext (Some new)) (soff (length (sbuf db)) (Some new), length new)"
    using n(1) t by simp
  note R = refield_text [where f = Fname, OF k ep len buf_ok_append [OF tx(1)] L old new, folded renamed_def]
  show "kw_text (renamed db H X ep new L) gl"
    and "text_of (renamed db H X ep new L) ep Fname = new"
    and "j \<in> set gl \<Longrightarrow> (j, g) \<noteq> (ep, Fname) \<Longrightarrow> text_of (renamed db H X ep new L) j g = text_of db j g"
    using R n(2) t by (auto simp: relinked_same)
qed

lemma renamed_same:
  "itemsused (renamed db H X ep new L) = itemsused db" "maxitems (renamed db H X ep new L) = maxitems db"
  "itab_cap (renamed db H X ep new L) = itab_cap db" "nitems (renamed db H X ep new L) = nitems db"
  "head (renamed db H X ep new L) = head db" "tail (renamed db H X ep new L) = tail db"
  "hashtbl (renamed db H X ep new L) = H" "nexthash (itab (renamed db H X ep new L) i) = X i"
  "nextglob (itab (renamed db H X ep new L) i) = nextglob (itab db i)"
  by (simp_all add: renamed_def upd_field_same relinked_same del: upd_field.simps)

lemma renamed_inv:
  assumes inv: "kw_inv db gl rc" and ep: "ep \<in> set gl" and st: "storable (Some new)" "ascii new"
    and L: "length (sbuf db @ stext (Some new)) \<le> L"
    and rc': "distinct rc'" "set rc' = set rc - {ep} \<union> (if new = [] then {} else {ep})"
    and ch: "\<And>h. h < NTHREADS \<Longrightarrow> linked X (H h) (chain (renamed db H X ep new L) rc' h)"
  shows "kw_inv (renamed db H X ep new L) gl rc'"
proof -
  let ?d = "renamed db H X ep new L"
  note l = kw_linksD [OF kw_invD(1) [OF inv]] and R = renamed_text [OF inv ep st(1) L]
  have nm: "name_of ?d j = (if j = ep then new else name_of db j)" if "j \<in> set gl" for j
    using R(2) R(3) [OF that, of Fname] by (auto simp: text_of_simps)
  have "i \<in> set rc' \<longleftrightarrow> i \<in> set gl \<and> name_of ?d i \<noteq> []" for i
    unfolding rc'(2) l(12) using nm [of i] ep by (cases "i = ep"; cases "i \<in> set gl") auto
  then have "set rc' = {i \<in> set gl. name_of ?d i \<noteq> []}" by blast
  then have "kw_links ?d gl rc'"
    unfolding kw_links_def renamed_same using l rc'(1) ch nm st(2) by (auto split: if_splits)
  then show ?thesis using R(1) by (simp add: kw_inv_def)
qed

lemma RenameEntry_eq:
  assumes ep: "0 < ep" "ep \<le> tail db" and u: "unlink_hash db ep = Inr (relinked db H X)"
    and len: "length (sbuf db) \<le> sbuflen db" and ma: "\<forall>n. ma n"
    and st: "length (txt_of new) < DEF_SZSBUF" "ascii (txt_of new)"
  defines "h \<equiv> nat (hash (txt_of new))"
  shows "\<exists>L. length (sbuf db @ stext (Some (txt_of new))) \<le> L \<and> kwdb_RenameEntry ma db (int ep) new
     = Inr (0, if txt_of new = [] then renamed db H X ep [] L
        else renamed db (H(h := ep)) (if H h \<noteq> 0 then X(ep := H h) else X) ep (txt_of new) L)"
proof (cases "txt_of new = []")
  case True
  then have "new = None \<or> new = Some []" by (auto simp: txt_of_def split: option.splits)
  then have "kwdb_RenameEntry ma db (int ep) new = Inr (0, renamed db H X ep [] (sbuflen db))"
    using ep u by (cases db) (auto simp: kwdb_RenameEntry_def renamed_def stext_def soff_def relinked_def)
  then show ?thesis using True len by (auto simp: stext_def)
next
  case False
  define t where "t = txt_of new"
  have n: "new = Some t" "t \<noteq> []" using False by (auto simp: t_def txt_of_def split: option.splits)
  let ?X = "if H h \<noteq> 0 then X(ep := H h) else X"
  let ?d = "relinked db (H(h := ep)) ?X"
  have d: "(relinked db H X)\<lparr>hashtbl := H(h := ep)\<rparr> = relinked db (H(h := ep)) X"
    "(relinked db H X)\<lparr>itab := (itab (relinked db H X))(ep := (itab (relinked db H X) ep)\<lparr>nexthash := n\<rparr>),
        hashtbl := H(h := ep)\<rparr> = relinked db (H(h := ep)) (X(ep := n))" for n
    by (cases db; auto simp: relinked_def fun_eq_iff)+
  have tt: "txt_of (Some t) = t" by (simp add: txt_of_def)
  obtain L where L: "addstr ma ?d (Some t) = Inr (length (sbuf db), ?d\<lparr>sbuf := sbuf db @ t @ [NUL], sbuflen := L\<rparr>)"
      "length (sbuf db @ t @ [NUL]) \<le> L"
    using addstr_eq [OF ma, of ?d "Some t"] len st(1) n tt
    by (auto simp: relinked_same soff_def stext_def)
  have "kwdb_RenameEntry ma db (int ep) new = Inr (0, renamed db (H(h := ep)) ?X ep t L)"
    using ep u n hash_index_ascii(1) [OF st(2)] L(1) d n
    by (cases "H h = 0") (simp_all add: kwdb_RenameEntry_def Let_def h_def tt relinked_same(9)
        renamed_def stext_def soff_def del: fun_upd_apply)
  then show ?thesis using L(2) n tt by (auto simp: stext_def)
qed

lemma chain_Cons: "chain db (x # rc) g
    = (if hash (name_of db x) = int g then x # chain db rc g else chain db rc g)"
  by (simp add: chain_def)

lemma RenameEntry_run:
  assumes inv: "kw_inv db gl rc" and ep: "ep \<in> set gl" and ma: "\<forall>n. ma n"
    and st: "storable new" "ascii (txt_of new)"
    and safe: "txt_of new \<noteq> [] \<Longrightarrow> rename_safe db rc ep (txt_of new)"
  shows "\<exists>db'. kwdb_RenameEntry ma db (int ep) new = Inr (0, db')
     \<and> kw_inv db' gl (if txt_of new = [] then remove1 ep rc else ep # remove1 ep rc)
     \<and> text_of db' ep Fname = txt_of new
     \<and> (\<forall>j \<in> set gl. \<forall>g. (j, g) \<noteq> (ep, Fname) \<longrightarrow> text_of db' j g = text_of db j g)"
proof -
  note li = kw_invD(1) [OF inv]
  note l = kw_linksD [OF li]
  have tl: "tail db = last gl" using ep l(6) by auto
  have le: "0 < ep" "ep \<le> tail db"
    using l(4) [OF ep] last_remove1_less [OF l(2), of ep] tl ep
    by (auto, metis in_set_remove1 less_imp_le nat_le_linear)
  obtain H X where u: "unlink_hash db ep = Inr (relinked db H X)" "X ep = nexthash (itab db ep)"
      "chains db H X (remove1 ep rc)"
    using unlink_hash_run [OF inv ep] by blast
  define t where "t = txt_of new"
  define h where "h = nat (hash t)"
  have t: "txt_of (Some t) = t" "storable (Some t)" "ascii t" "length t < DEF_SZSBUF"
    using st by (auto simp: t_def storable_def txt_of_def)
  obtain L where L: "length (sbuf db @ stext (Some t)) \<le> L"
    "kwdb_RenameEntry ma db (int ep) new = Inr (0, if t = [] then renamed db H X ep [] L
        else renamed db (H(h := ep)) (if H h \<noteq> 0 then X(ep := H h) else X) ep t L)"
    using RenameEntry_eq [OF le u(1) kw_textD(2) [OF kw_invD(2) [OF inv]] ma, of new] t
    unfolding t_def h_def by blast
  let ?rc = "remove1 ep rc"
  have sub: "set ?rc = set rc - {ep}" "distinct ?rc" using l(11) by simp_all
  have nm: "name_of (renamed db H' X' ep t L) j = (if j = ep then t else name_of db j)"
    if "j \<in> set gl" for j H' X'
    using renamed_text(2,3) [OF inv ep t(2) L(1)] that by (auto simp flip: text_of_simps)
  have ch: "chain (renamed db H' X' ep t L) ?rc g = chain db ?rc g" for H' X' g
    unfolding chain_def using nm sub(1) kw_rc_gl [OF li] by (intro filter_cong) auto
  have un: "linked X (H g) (chain db ?rc g)" if "g < NTHREADS" for g using u(3) that by (simp add: chains_def)
  have nin: "ep \<notin> set (chain db ?rc g)" for g using sub(1) by (simp add: chain_def)
  show ?thesis
  proof (cases "t = []")
    case True
    have "kw_inv (renamed db H X ep t L) gl ?rc"
      by (rule renamed_inv [OF inv ep t(2,3) L(1) sub(2)]) (use sub(1) True un ch in auto)
    then show ?thesis using True L renamed_text(2,3) [OF inv ep t(2) L(1)] by (auto simp flip: t_def)
  next
    case False
    let ?H = "H(h := ep)" and ?X = "if H h \<noteq> 0 then X(ep := H h) else X"
    have h: "h < NTHREADS" "int h = hash t" using hash_range [OF t(3)] by (auto simp: h_def)
    have "H h = 0 \<Longrightarrow> chain db ?rc h = []" using un [OF h(1)] by simp
    then have Xe: "?X ep = H h" using safe False u(2) by (auto simp: rename_safe_def h_def t_def)
    have X: "linked ?X p (chain db ?rc g) \<longleftrightarrow> linked X p (chain db ?rc g)" for p g
      using nin by (simp add: linked_upd_other del: fun_upd_apply)
    have "linked ?X (?H g) (chain (renamed db ?H ?X ep t L) (ep # ?rc) g)" if "g < NTHREADS" for g
    proof -
      have "chain (renamed db ?H ?X ep t L) (ep # ?rc) g
          = (if g = h then ep # chain db ?rc g else chain db ?rc g)"
        unfolding chain_Cons nm [OF ep] ch using h(2) by auto
      then show ?thesis using X un [OF that] Xe le(1) by auto
    qed
    then have "kw_inv (renamed db ?H ?X ep t L) gl (ep # ?rc)"
      by (intro renamed_inv [OF inv ep t(2,3) L(1)]) (use sub False in auto)
    then show ?thesis using False L renamed_text(2,3) [OF inv ep t(2) L(1)] by (auto simp flip: t_def)
  qed
qed

section \<open>Walking the entries\<close>

text \<open>\<open>for (ep=kwdb_Head(db); ep > 0; ep=kwdb_Next(db,ep))\<close>, the entries met in \<open>n\<close> steps.\<close>

primrec kwdb_walk :: "kwdb \<Rightarrow> nat \<Rightarrow> int \<Rightarrow> int list" where
  "kwdb_walk db 0 ep = []"
| "kwdb_walk db (Suc n) ep = (if ep > 0 then ep # kwdb_walk db n (kwdb_Next db ep) else [])"

lemma walk_links:
  "linked (\<lambda>i. nextglob (itab db i)) p gl \<Longrightarrow> length gl \<le> n \<Longrightarrow> kwdb_walk db n (int p) = map int gl"
proof (induction n arbitrary: p gl)
  case (Suc n)
  then show ?case by (cases gl) (auto simp: kwdb_Next_def)
qed simp

lemma walk_run: "kw_inv db gl rc \<Longrightarrow> kwdb_walk db (maxitems db) (kwdb_Head db) = map int gl"
  unfolding kwdb_Head_def by (intro walk_links kw_fuel(1) kw_linksD(1) kw_invD(1))

lemma GetEntry_run:
  assumes "kw_inv db gl rc" "i \<in> set gl"
  shows "snd (kwdb_GetEntry db (int i)) = Some (name_of db i, value_of db i, type_of db i, comment_of db i)"
    "kwdb_KWName db (int i) = Some (name_of db i)"
proof -
  note l = kw_linksD [OF kw_invD(1) [OF assms(1)]]
  have "i \<le> tail db" using last_remove1_less [OF l(2), of i] l(6) assms(2)
    by (auto, metis in_set_remove1 less_imp_le nat_le_linear)
  then show "snd (kwdb_GetEntry db (int i)) = Some (name_of db i, value_of db i, type_of db i, comment_of db i)"
    "kwdb_KWName db (int i) = Some (name_of db i)"
    using l(4) [OF assms(2)] by (auto simp: kwdb_GetEntry_def kwdb_KWName_def)
qed

end
