(* ===== verification/Kwdb_Props.thy ===== *)
theory Kwdb_Props
  imports Kwdb_Correct
begin

text \<open>
  What the rest of the system may rely on of the keyword database.  The locale \<open>keyword_store\<close>
  is the interface: adding a card, finding the \<open>n\<close>-th newest entry of a keyword.  Its clients
  are proved inside it; the interpretation \<open>ks\<close> is the model of \<open>mosdca/kwdb.c\<close>.
\<close>

section \<open>The interface\<close>

datatype card = Card (c_name: string) (c_value: string) (c_type: string) (c_comment: string)

primrec card_text :: "card \<Rightarrow> field \<Rightarrow> string" where
  "card_text (Card k v t c) = entry_text (Some k) (Some v) (Some t) (Some c)"

definition card_ok :: "card \<Rightarrow> bool" where
  "card_ok c = entry_ok (Some (c_name c)) (Some (c_value c)) (Some (c_type c)) (Some (c_comment c))"

text \<open>Adding cards one after the other, as every reader of a header does.\<close>

primrec add_all :: "('db \<Rightarrow> card \<Rightarrow> (int \<times> 'db) res) \<Rightarrow> 'db \<Rightarrow> card list \<Rightarrow> 'db res" where
  "add_all add db [] = Inr db"
| "add_all add db (c # cs) = bind_res (add db c) (\<lambda>r. add_all add (snd r) cs)"

locale keyword_store =
  fixes ok :: "'db \<Rightarrow> nat list \<Rightarrow> nat list \<Rightarrow> bool"
    and fld :: "'db \<Rightarrow> nat \<Rightarrow> field \<Rightarrow> string"
    and add :: "'db \<Rightarrow> card \<Rightarrow> (int \<times> 'db) res"
    and find :: "'db \<Rightarrow> string \<Rightarrow> int \<Rightarrow> int res"
  assumes add_law: "ok db gl rc \<Longrightarrow> card_ok c \<Longrightarrow> \<exists>x db'. add db c = Inr (int x, db') \<and> x \<notin> set gl
       \<and> ok db' (gl @ [x]) (if c_name c = [] then rc else x # rc)
       \<and> fld db' x = card_text c \<and> (\<forall>i \<in> set gl. fld db' i = fld db i)"
    and find_law: "ok db gl rc \<Longrightarrow> ascii kw \<Longrightarrow> 0 \<le> n \<Longrightarrow>
       find db kw n = Inr (int (nth0 (filter (\<lambda>i. streq (fld db i Fname) kw) rc) (nat n)))"
    and rc_law: "ok db gl rc \<Longrightarrow> set rc \<subseteq> set gl"
begin

lemma add_finds:
  assumes "ok db gl rc" "card_ok c" "c_name c \<noteq> []"
  shows "\<exists>x db'. add db c = Inr (int x, db') \<and> x \<notin> set gl \<and> ok db' (gl @ [x]) (x # rc)
     \<and> fld db' x = card_text c
     \<and> find db' (c_name c) 0 = Inr (int x)
     \<and> (\<forall>n \<ge> 0. find db' (c_name c) (n + 1) = find db (c_name c) n)
     \<and> (\<forall>kw n. ascii kw \<longrightarrow> \<not> streq (c_name c) kw \<longrightarrow> 0 \<le> n \<longrightarrow> find db' kw n = find db kw n)"
proof -
  obtain x db' where a: "add db c = Inr (int x, db')" "x \<notin> set gl" "ok db' (gl @ [x]) (x # rc)"
    "fld db' x = card_text c" "\<And>i. i \<in> set gl \<Longrightarrow> fld db' i = fld db i"
    using add_law [OF assms(1,2)] assms(3) by auto
  have nm: "fld db' x Fname = c_name c" using a(4) by (cases c) (simp add: txt_of_def)
  have same: "filter (\<lambda>i. streq (fld db' i Fname) kw) rc = filter (\<lambda>i. streq (fld db i Fname) kw) rc" for kw
    using rc_law [OF assms(1)] a(5) by (intro filter_cong) auto
  have asc: "ascii (c_name c)" using assms(2) by (simp add: card_ok_def entry_ok_def txt_of_def)
  have "find db' (c_name c) (n + 1) = find db (c_name c) n" if "0 \<le> n" for n
    using find_law [OF a(3) asc, of "n + 1"] find_law [OF assms(1) asc that] that nm
    by (simp add: same nat_add_distrib)
  moreover have "find db' kw n = find db kw n" if "ascii kw" "\<not> streq (c_name c) kw" "0 \<le> n" for kw n
    using find_law [OF a(3) that(1,3)] find_law [OF assms(1) that(1,3)] that(2) nm by (simp add: same)
  moreover have "find db' (c_name c) 0 = Inr (int x)" using find_law [OF a(3) asc, of 0] nm by simp
  ultimately show ?thesis using a by blast
qed

lemma add_all_appends:
  assumes "ok db gl rc" "list_all card_ok cs"
  shows "\<exists>db' xs. add_all add db cs = Inr db' \<and> ok db' (gl @ xs) (rev (filter (\<lambda>i. fld db' i Fname \<noteq> []) xs) @ rc)
     \<and> map (fld db') xs = map card_text cs \<and> (\<forall>i \<in> set gl. fld db' i = fld db i)"
  using assms
proof (induction cs arbitrary: db gl rc)
  case Nil
  then show ?case by (intro exI [of _ db] exI [of _ "[]"]) simp
next
  case (Cons c cs)
  let ?rc = "\<lambda>x. if c_name c = [] then rc else x # rc"
  obtain x db1 where a: "add db c = Inr (int x, db1)" "ok db1 (gl @ [x]) (?rc x)"
    "fld db1 x = card_text c" "\<And>i. i \<in> set gl \<Longrightarrow> fld db1 i = fld db i"
    using add_law [OF Cons.prems(1), of c] Cons.prems(2) by (simp, blast)
  obtain db2 xs where b: "add_all add db1 cs = Inr db2"
    "ok db2 ((gl @ [x]) @ xs) (rev (filter (\<lambda>i. fld db2 i Fname \<noteq> []) xs) @ ?rc x)"
    "map (fld db2) xs = map card_text cs" "\<And>i. i \<in> set (gl @ [x]) \<Longrightarrow> fld db2 i = fld db1 i"
    using Cons.IH [OF a(2)] Cons.prems(2) by auto
  have x: "fld db2 x = card_text c" using b(4) [of x] a(3) by simp
  have "fld db2 x Fname = c_name c" using x by (cases c) (simp add: txt_of_def)
  then have "ok db2 (gl @ x # xs) (rev (filter (\<lambda>i. fld db2 i Fname \<noteq> []) (x # xs)) @ rc)"
    using b(2) by (auto split: if_splits)
  then show ?case using a b x by (intro exI [of _ db2] exI [of _ "x # xs"]) simp
qed

end

definition kw_add :: "(nat \<Rightarrow> bool) \<Rightarrow> kwdb \<Rightarrow> card \<Rightarrow> (int \<times> kwdb) res" where
  "kw_add ma db c = kwdb_AddEntry ma db (Some (c_name c)) (Some (c_value c)) (Some (c_type c)) (Some (c_comment c))"

definition mem_ok :: "nat \<Rightarrow> bool" where
  "mem_ok n = True"

interpretation ks: keyword_store kw_inv text_of "kw_add mem_ok" kwdb_Lookup
proof unfold_locales
  fix db gl rc and c :: card and kw and n :: int
  assume ok: "kw_inv db gl rc"
  show "\<exists>x db'. kw_add mem_ok db c = Inr (int x, db') \<and> x \<notin> set gl
       \<and> kw_inv db' (gl @ [x]) (if c_name c = [] then rc else x # rc)
       \<and> text_of db' x = card_text c \<and> (\<forall>i \<in> set gl. text_of db' i = text_of db i)" if "card_ok c"
    using AddEntry_run [OF ok, of mem_ok "Some (c_name c)" "Some (c_value c)" "Some (c_type c)"
        "Some (c_comment c)"] that
    by (cases c; cases "c_name c = []") (simp_all add: kw_add_def card_ok_def mem_ok_def txt_of_def fun_eq_iff, blast+)
  show "kwdb_Lookup db kw n = Inr (int (nth0 (filter (\<lambda>i. streq (text_of db i Fname) kw) rc) (nat n)))"
    if "ascii kw" "0 \<le> n"
    using Lookup_run [OF ok that] by (simp add: matches_def text_of_simps)
  show "set rc \<subseteq> set gl" using kw_rc_gl [OF kw_invD(1) [OF ok]] by blast
qed


lemma kw_ok_mem: "\<forall>n. mem_ok n"
  by (simp add: mem_ok_def)

lemma open_empty: "\<exists>db. kwdb_Open mem_ok ''det'' = Inr (Some db) \<and> kw_inv db [] []"
  using kwdb_Open_inv [OF kw_ok_mem, of "''det''"] by (simp add: DEF_SZSBUF_def)

lemmas card_eval = card_ok_def entry_ok_def storable_def txt_of_def ascii_def DEF_SZSBUF_def

section \<open>Properties\<close>

text \<open>
  C12: an entry added with a non-empty keyword is the one that lookup and the three getters find
  for that keyword; older entries of the keyword move back by one instance; the lookup of
  any keyword that differs (ignoring case) is as before.
\<close>

theorem kwdb_AddEntry_found:
  assumes "kw_inv db gl rc" "card_ok (Card k v t c)" "k \<noteq> []"
  shows "\<exists>x db'. kwdb_AddEntry mem_ok db (Some k) (Some v) (Some t) (Some c) = Inr (int x, db')
     \<and> kwdb_Lookup db' k 0 = Inr (int x)
     \<and> kwdb_GetValue db' k = Inr (Some v) \<and> kwdb_GetType db' k = Inr (Some t)
     \<and> kwdb_GetComment db' k = Inr (Some c)
     \<and> (\<forall>n \<ge> 0. kwdb_Lookup db' k (n + 1) = kwdb_Lookup db k n)
     \<and> (\<forall>kw n. ascii kw \<longrightarrow> \<not> streq k kw \<longrightarrow> 0 \<le> n \<longrightarrow> kwdb_Lookup db' kw n = kwdb_Lookup db kw n)"
proof -
  obtain x db' where a: "kw_add mem_ok db (Card k v t c) = Inr (int x, db')" "kw_inv db' (gl @ [x]) (x # rc)"
    "text_of db' x = card_text (Card k v t c)" "kwdb_Lookup db' k 0 = Inr (int x)"
    "\<forall>n \<ge> 0. kwdb_Lookup db' k (n + 1) = kwdb_Lookup db k n"
    "\<forall>kw n. ascii kw \<longrightarrow> \<not> streq k kw \<longrightarrow> 0 \<le> n \<longrightarrow> kwdb_Lookup db' kw n = kwdb_Lookup db kw n"
    using ks.add_finds [OF assms(1,2)] assms(3) by auto
  have "x \<noteq> 0" using kw_linksD(4) [OF kw_invD(1) [OF a(2)], of x] by simp
  moreover have "value_of db' x = v" "type_of db' x = t" "comment_of db' x = c"
    using a(3) by (simp_all add: fun_eq_iff txt_of_def flip: text_of_simps)
  ultimately show ?thesis using a(1,4-6)
    by (intro exI [of _ x] exI [of _ db'])
      (simp add: kw_add_def kwdb_GetValue_def kwdb_GetType_def kwdb_GetComment_def)
qed

theorem kwdb_AddEntry_found_witness:
  "\<exists>db x db'. kwdb_Open mem_ok ''det'' = Inr (Some db)
     \<and> kwdb_AddEntry mem_ok db (Some ''SIMPLE'') (Some ''T'') (Some ''B'') (Some ''std'') = Inr (int x, db')
     \<and> kwdb_GetValue db' ''SIMPLE'' = Inr (Some ''T'')"
proof -
  obtain db where db: "kwdb_Open mem_ok ''det'' = Inr (Some db)" "kw_inv db [] []" using open_empty by blast
  have "card_ok (Card ''SIMPLE'' ''T'' ''B'' ''std'')" by (simp add: card_eval)
  from kwdb_AddEntry_found [OF db(2) this] db(1) show ?thesis by auto
qed

text \<open>
  cards added one after the other to a new database come back from the walk
  \<open>kwdb_Head\<close>/\<open>kwdb_Next\<close> with \<open>kwdb_GetEntry\<close> in the order they were added, each with its
  four texts, and \<open>kwdb_Len\<close> counts them.
\<close>

theorem kwdb_walk_lists_cards:
  assumes "list_all card_ok cs" "length name + 2 \<le> DEF_SZSBUF"
  shows "\<exists>db db'. kwdb_Open mem_ok name = Inr (Some db) \<and> add_all (kw_add mem_ok) db cs = Inr db'
     \<and> map (\<lambda>ep. snd (kwdb_GetEntry db' ep)) (kwdb_walk db' (maxitems db') (kwdb_Head db'))
        = map (\<lambda>c. Some (c_name c, c_value c, c_type c, c_comment c)) cs
     \<and> kwdb_Len db' = int (length cs)"
proof -
  obtain db where db: "kwdb_Open mem_ok name = Inr (Some db)" "kw_inv db [] []"
    using kwdb_Open_inv [OF kw_ok_mem assms(2)] by blast
  obtain db' xs where a: "add_all (kw_add mem_ok) db cs = Inr db'"
    "kw_inv db' xs (rev (filter (\<lambda>i. text_of db' i Fname \<noteq> []) xs))"
    "map (text_of db') xs = map card_text cs"
    using ks.add_all_appends [OF db(2) assms(1)] by auto
  have len: "length xs = length cs" using a(3) by (metis length_map)
  have "snd (kwdb_GetEntry db' (int (xs ! i))) = Some (c_name (cs ! i), c_value (cs ! i), c_type (cs ! i), c_comment (cs ! i))"
    if "i < length cs" for i
  proof -
    have "text_of db' (xs ! i) = card_text (cs ! i)" using a(3) that len by (metis nth_map)
    then show ?thesis using GetEntry_run(1) [OF a(2), of "xs ! i"] that len
      by (cases "cs ! i") (simp add: fun_eq_iff txt_of_def flip: text_of_simps)
  qed
  then have "map (\<lambda>ep. snd (kwdb_GetEntry db' ep)) (map int xs)
      = map (\<lambda>c. Some (c_name c, c_value c, c_type c, c_comment c)) cs"
    using len by (auto intro!: nth_equalityI)
  moreover have "kwdb_Len db' = int (length cs)"
    using kw_linksD(7) [OF kw_invD(1) [OF a(2)]] len by (simp add: kwdb_Len_def)
  ultimately show ?thesis using db(1) a(1) walk_run [OF a(2)] by auto
qed

theorem kwdb_walk_lists_cards_witness:
  "\<exists>db db'. kwdb_Open mem_ok ''x'' = Inr (Some db)
     \<and> add_all (kw_add mem_ok) db [Card ''A'' ''1'' ''N'' [], Card [] ''text'' [] []] = Inr db'
     \<and> kwdb_Len db' = 2"
proof -
  have "list_all card_ok [Card ''A'' ''1'' ''N'' [], Card [] ''text'' [] []]" "length ''x'' + 2 \<le> DEF_SZSBUF"
    by (simp_all add: card_eval)
  from kwdb_walk_lists_cards [OF this] show ?thesis by auto
qed

lemma found_match:
  assumes "kw_inv db gl rc" "ascii kw" "kwdb_Lookup db kw 0 = Inr (int i)" "i \<noteq> 0"
  shows "i \<in> set gl" "i \<in> set rc" "\<exists>is. matches db rc kw = i # is"
proof -
  obtain j "is" where m: "matches db rc kw = j # is"
    using Lookup_run [OF assms(1,2), of 0] assms(3,4) by (cases "matches db rc kw") auto
  then have "j = i" "i \<in> set gl" using first_match(2) [OF assms(1,2) m] assms(3) by auto
  then show "i \<in> set gl" "\<exists>is. matches db rc kw = i # is" using m by auto
  show "i \<in> set rc" using m \<open>j = i\<close> unfolding matches_def
    by (metis (no_types, lifting) filter_is_subset list.set_intros(1) subsetD)
qed

lemma lookup_cong:
  assumes "kw_inv db gl rc" "kw_inv db' gl rc" "ascii kw" "0 \<le> n"
    and "\<And>i. i \<in> set gl \<Longrightarrow> text_of db' i Fname = text_of db i Fname"
  shows "kwdb_Lookup db' kw n = kwdb_Lookup db kw n"
proof -
  have "matches db' rc kw = matches db rc kw"
    unfolding matches_def using assms(5) kw_rc_gl [OF kw_invD(1) [OF assms(1)]]
    by (intro filter_cong) (auto simp: text_of_simps)
  then show ?thesis using Lookup_run [OF assms(1,3,4)] Lookup_run [OF assms(2,3,4)] by simp
qed

text \<open>
  \<open>kwdb_SetValue\<close> on a keyword that is present succeeds whether or not the new value fits
  in place of the old one: the value read back is the new one, no lookup changes, and no
  other text of any entry changes (a value stored in place never spills into a neighbour).
\<close>

theorem kwdb_SetValue_updates:
  assumes inv: "kw_inv db gl rc" and kw: "ascii kw" and st: "storable (Some v)"
    and found: "kwdb_Lookup db kw 0 = Inr (int i)" "i \<noteq> 0"
  shows "\<exists>db'. kwdb_SetValue mem_ok db kw v = Inr (0, db') \<and> kw_inv db' gl rc
     \<and> kwdb_GetValue db' kw = Inr (Some v)
     \<and> (\<forall>kw n. ascii kw \<longrightarrow> 0 \<le> n \<longrightarrow> kwdb_Lookup db' kw n = kwdb_Lookup db kw n)
     \<and> (\<forall>j \<in> set gl. \<forall>f. (j, f) \<noteq> (i, Fvalue) \<longrightarrow> text_of db' j f = text_of db j f)"
proof -
  obtain db' where s: "set_field mem_ok Fvalue db i v = Inr db'" "kw_inv db' gl rc"
    "text_of db' i Fvalue = v" "\<And>j g. j \<in> set gl \<Longrightarrow> (j, g) \<noteq> (i, Fvalue) \<Longrightarrow> text_of db' j g = text_of db j g"
    using set_field_run [OF inv found_match(1) [OF inv kw found] _ kw_ok_mem st, of Fvalue] by auto
  have lk: "kwdb_Lookup db' kw n = kwdb_Lookup db kw n" if "ascii kw" "0 \<le> n" for kw n
    using lookup_cong [OF inv s(2) that] s(4) by simp
  have "kwdb_GetValue db' kw = Inr (Some v)"
    using lk [OF kw, of 0] found s(3) by (simp add: kwdb_GetValue_def text_of_simps)
  then show ?thesis using s lk setters_set_field(1) [OF found] by auto
qed

theorem kwdb_SetValue_updates_witness:
  "\<exists>db db'. kwdb_GetValue db ''GAIN'' = Inr (Some ''1'') \<and> kwdb_SetValue mem_ok db ''gain'' ''2.75'' = Inr (0, db')
     \<and> kwdb_GetValue db' ''gain'' = Inr (Some ''2.75'')"
proof -
  obtain db0 where db0: "kw_inv db0 [] []" using open_empty by blast
  have c: "card_ok (Card ''GAIN'' ''1'' [] [])" by (simp add: card_eval)
  obtain x db where a: "kw_add mem_ok db0 (Card ''GAIN'' ''1'' [] []) = Inr (int x, db)" "kw_inv db [x] [x]"
    "text_of db x = card_text (Card ''GAIN'' ''1'' [] [])" "kwdb_Lookup db ''GAIN'' 0 = Inr (int x)"
    using ks.add_finds [OF db0 c] by auto
  have x: "x \<noteq> 0" using kw_linksD(4) [OF kw_invD(1) [OF a(2)], of x] by simp
  have v: "value_of db x = ''1''" "name_of db x = ''GAIN''"
    using a(3) by (simp_all add: fun_eq_iff txt_of_def flip: text_of_simps)
  have "streq ''GAIN'' ''gain''" by code_simp
  then have g: "kwdb_Lookup db ''gain'' 0 = Inr (int x)"
    using Lookup_run [OF a(2), of "''gain''" 0] v(2) by (simp add: ascii_def matches_def del: streq.simps)
  have "kwdb_GetValue db ''GAIN'' = Inr (Some ''1'')" using a(4) x v(1) by (simp add: kwdb_GetValue_def)
  then show ?thesis
    using kwdb_SetValue_updates [OF a(2) _ _ g x, of "''2.75''"] by (auto simp: card_eval)
qed

text \<open>
  \<open>kwdb_SetType\<close> and \<open>kwdb_SetComment\<close> likewise replace one text of the newest entry of the
  keyword and nothing else; on an absent keyword all three setters return -1 and leave the
  database as it was.
\<close>

theorem kwdb_setters_frame:
  assumes inv: "kw_inv db gl rc" and kw: "ascii kw" and st: "storable (Some t)"
    and found: "kwdb_Lookup db kw 0 = Inr (int i)"
  shows "if i = 0 then kwdb_SetValue mem_ok db kw t = Inr (-1, db) \<and> kwdb_SetType mem_ok db kw t = Inr (-1, db)
           \<and> kwdb_SetComment mem_ok db kw t = Inr (-1, db)
     else (\<exists>db'. kwdb_SetType mem_ok db kw t = Inr (0, db') \<and> kw_inv db' gl rc \<and> kwdb_GetType db' kw = Inr (Some t)
             \<and> (\<forall>j \<in> set gl. \<forall>f. (j, f) \<noteq> (i, Ftype) \<longrightarrow> text_of db' j f = text_of db j f))
        \<and> (\<exists>db'. kwdb_SetComment mem_ok db kw t = Inr (0, db') \<and> kw_inv db' gl rc
             \<and> kwdb_GetComment db' kw = Inr (Some t)
             \<and> (\<forall>j \<in> set gl. \<forall>f. (j, f) \<noteq> (i, Fcomment) \<longrightarrow> text_of db' j f = text_of db j f))"
proof (cases "i = 0")
  case True
  then show ?thesis using found by (simp add: kwdb_SetValue_def kwdb_SetType_def kwdb_SetComment_def)
next
  case False
  note run = set_field_run [OF inv found_match(1) [OF inv kw found False] _ kw_ok_mem st]
  obtain d1 where 1: "set_field mem_ok Ftype db i t = Inr d1" "kw_inv d1 gl rc" "text_of d1 i Ftype = t"
    "\<And>j g. j \<in> set gl \<Longrightarrow> (j, g) \<noteq> (i, Ftype) \<Longrightarrow> text_of d1 j g = text_of db j g"
    using run [of Ftype] by auto
  obtain d2 where 2: "set_field mem_ok Fcomment db i t = Inr d2" "kw_inv d2 gl rc" "text_of d2 i Fcomment = t"
    "\<And>j g. j \<in> set gl \<Longrightarrow> (j, g) \<noteq> (i, Fcomment) \<Longrightarrow> text_of d2 j g = text_of db j g"
    using run [of Fcomment] by auto
  have "kwdb_Lookup d1 kw 0 = Inr (int i)"
    using lookup_cong [OF inv 1(2) kw, of 0] 1(4) found by simp
  moreover have "kwdb_Lookup d2 kw 0 = Inr (int i)"
    using lookup_cong [OF inv 2(2) kw, of 0] 2(4) found by simp
  ultimately have "kwdb_GetType d1 kw = Inr (Some t)" "kwdb_GetComment d2 kw = Inr (Some t)"
    using 1(3) 2(3) False by (simp_all add: kwdb_GetType_def kwdb_GetComment_def text_of_simps)
  then show ?thesis using False 1 2 setters_set_field(2,3) [OF found False] by auto
qed

theorem kwdb_setters_frame_witness:
  "\<exists>db. kwdb_Open mem_ok ''det'' = Inr (Some db) \<and> kwdb_SetComment mem_ok db ''GAIN'' ''e/ADU'' = Inr (-1, db)"
proof -
  obtain db where db: "kwdb_Open mem_ok ''det'' = Inr (Some db)" "kw_inv db [] []" using open_empty by blast
  have "kwdb_Lookup db ''GAIN'' 0 = Inr (int 0)"
    using Lookup_run [OF db(2), of "''GAIN''" 0] by (simp add: ascii_def matches_def)
  from kwdb_setters_frame [OF db(2) _ _ this, of "''e/ADU''"] db(1) show ?thesis
    by (auto simp: card_eval)
qed

text \<open>
  C13: deleting an entry takes exactly that entry out of the walk and out of the lookups: the
  walk afterwards is the walk before without it, the length drops by one, every lookup is the
  lookup over the remaining entries, and no text changes; so later instances of its keyword
  move up by one.
\<close>

theorem kwdb_DeleteEntry_removes:
  assumes inv: "kw_inv db gl rc" and ep: "ep \<in> set gl"
  shows "\<exists>db'. kwdb_DeleteEntry db (int ep) = Inr (0, db')
     \<and> kw_inv db' (remove1 ep gl) (remove1 ep rc)
     \<and> kwdb_walk db' (maxitems db') (kwdb_Head db') = remove1 (int ep) (kwdb_walk db (maxitems db) (kwdb_Head db))
     \<and> kwdb_Len db' = kwdb_Len db - 1
     \<and> (\<forall>kw n. ascii kw \<longrightarrow> 0 \<le> n \<longrightarrow>
          kwdb_Lookup db' kw n = Inr (int (nth0 (remove1 ep (matches db rc kw)) (nat n))))
     \<and> (\<forall>i f. text_of db' i f = text_of db i f)"
proof -
  obtain db' where d: "kwdb_DeleteEntry db (int ep) = Inr (0, db')"
    "kw_inv db' (remove1 ep gl) (remove1 ep rc)" "\<And>i f. text_of db' i f = text_of db i f"
    using DeleteEntry_run [OF inv ep] by blast
  note l = kw_linksD [OF kw_invD(1) [OF inv]] and l' = kw_linksD [OF kw_invD(1) [OF d(2)]]
  have "matches db' (remove1 ep rc) kw = remove1 ep (matches db rc kw)" for kw
    using l(11) d(3) unfolding matches_def text_of_simps [symmetric]
    by (simp add: distinct_remove1_removeAll removeAll_filter_not_eq conj_commute)
  moreover have "map int (remove1 ep gl) = remove1 (int ep) (map int gl)"
    by (induction gl) auto
  moreover have "kwdb_Len db' = kwdb_Len db - 1"
    using l(7) l'(7) ep length_pos_if_in_set [OF ep] by (simp add: kwdb_Len_def length_remove1)
  ultimately show ?thesis
    using d walk_run [OF inv] walk_run [OF d(2)] Lookup_run [OF d(2)] by auto
qed

theorem kwdb_DeleteEntry_removes_witness:
  "\<exists>db db' x. kwdb_walk db (maxitems db) (kwdb_Head db) = [x]
     \<and> kwdb_DeleteEntry db x = Inr (0, db') \<and> kwdb_Len db' = 0 \<and> kwdb_Lookup db' ''GAIN'' 0 = Inr 0"
proof -
  obtain db0 where db0: "kw_inv db0 [] []" using open_empty by blast
  have c: "card_ok (Card ''GAIN'' ''1'' [] [])" by (simp add: card_eval)
  obtain x db where a: "kw_inv db [x] [x]" "text_of db x = card_text (Card ''GAIN'' ''1'' [] [])"
    using ks.add_finds [OF db0 c] by auto
  have n: "kwdb_Len db = 1" using kw_linksD(7) [OF kw_invD(1) [OF a(1)]] by (simp add: kwdb_Len_def)
  have m: "remove1 x (matches db [x] kw) = []" for kw by (simp add: matches_def)
  obtain db' where "kwdb_DeleteEntry db (int x) = Inr (0, db')" "kwdb_Len db' = 0"
    "kwdb_Lookup db' ''GAIN'' 0 = Inr 0"
    using kwdb_DeleteEntry_removes [OF a(1), of x] m n by (auto simp: ascii_def)
  then show ?thesis using walk_run [OF a(1)]
    by (intro exI [of _ db] exI [of _ db'] exI [of _ "int x"]) simp
qed

text \<open>
  renaming an entry, when the source's missing reset of \<open>nexthash\<close> does no harm, keeps the
  walk, makes the entry the newest one of its new keyword, removes it from every other
  keyword's instances, and changes no other text.
\<close>

theorem kwdb_RenameEntry_moves:
  assumes inv: "kw_inv db gl rc" and ep: "ep \<in> set gl"
    and new: "storable (Some new)" "ascii new" "new \<noteq> []" and safe: "rename_safe db rc ep new"
  shows "\<exists>db'. kwdb_RenameEntry mem_ok db (int ep) (Some new) = Inr (0, db')
     \<and> kw_inv db' gl (ep # remove1 ep rc)
     \<and> kwdb_walk db' (maxitems db') (kwdb_Head db') = kwdb_walk db (maxitems db) (kwdb_Head db)
     \<and> kwdb_KWName db' (int ep) = Some new \<and> kwdb_Lookup db' new 0 = Inr (int ep)
     \<and> (\<forall>kw n. ascii kw \<longrightarrow> \<not> streq new kw \<longrightarrow> 0 \<le> n \<longrightarrow>
          kwdb_Lookup db' kw n = Inr (int (nth0 (remove1 ep (matches db rc kw)) (nat n))))
     \<and> (\<forall>j \<in> set gl. \<forall>f. (j, f) \<noteq> (ep, Fname) \<longrightarrow> text_of db' j f = text_of db j f)"
proof -
  have t: "txt_of (Some new) = new" by (simp add: txt_of_def)
  obtain db' where d: "kwdb_RenameEntry mem_ok db (int ep) (Some new) = Inr (0, db')"
    "kw_inv db' gl (ep # remove1 ep rc)" "text_of db' ep Fname = new"
    "\<And>j g. j \<in> set gl \<Longrightarrow> (j, g) \<noteq> (ep, Fname) \<Longrightarrow> text_of db' j g = text_of db j g"
    using RenameEntry_run [OF inv ep kw_ok_mem new(1)] new safe t by auto
  note l = kw_linksD [OF kw_invD(1) [OF inv]]
  have nm: "name_of db' ep = new" "\<And>j. j \<in> set rc - {ep} \<Longrightarrow> name_of db' j = name_of db j"
    using d(3,4) kw_rc_gl [OF kw_invD(1) [OF inv]] by (auto simp flip: text_of_simps)
  have "filter (\<lambda>i. streq (name_of db' i) kw) (remove1 ep rc) = remove1 ep (matches db rc kw)" for kw
  proof -
    have "filter (\<lambda>i. streq (name_of db' i) kw) (remove1 ep rc)
        = filter (\<lambda>i. streq (name_of db i) kw) (remove1 ep rc)"
      using nm(2) l(11) by (intro filter_cong) auto
    then show ?thesis using l(11)
      by (simp add: matches_def distinct_remove1_removeAll removeAll_filter_not_eq conj_commute)
  qed
  then have "matches db' (ep # remove1 ep rc) kw
      = (if streq new kw then ep # remove1 ep (matches db rc kw) else remove1 ep (matches db rc kw))" for kw
    by (simp add: matches_def nm(1))
  then show ?thesis
    using d walk_run [OF inv] walk_run [OF d(2)] Lookup_run [OF d(2)] GetEntry_run(2) [OF d(2) ep] nm(1) new(2)
    by auto
qed

theorem kwdb_RenameEntry_moves_witness:
  "\<exists>db db' x. kwdb_KWName db x = Some ''OLD'' \<and> kwdb_RenameEntry mem_ok db x (Some ''NEW'') = Inr (0, db')
     \<and> kwdb_KWName db' x = Some ''NEW'' \<and> kwdb_Lookup db' ''NEW'' 0 = Inr x"
proof -
  obtain db0 where db0: "kw_inv db0 [] []" using open_empty by blast
  have c: "card_ok (Card ''OLD'' ''1'' [] [])" by (simp add: card_eval)
  obtain x db where a: "kw_inv db [x] [x]" "text_of db x = card_text (Card ''OLD'' ''1'' [] [])"
    using ks.add_finds [OF db0 c] by auto
  have nm: "name_of db x = ''OLD''" using a(2) by (simp add: fun_eq_iff txt_of_def flip: text_of_simps)
  let ?h = "nat (hash ''OLD'')"
  have h: "?h < NTHREADS" "int ?h = hash ''OLD''" using hash_range [of "''OLD''"] by (auto simp: ascii_def)
  have "nexthash (itab db x) = 0"
    using kw_linksD(14) [OF kw_invD(1) [OF a(1)] h(1)] nm h(2) by (simp add: chain_def)
  then have "rename_safe db [x] x ''NEW''" by (simp add: rename_safe_def)
  then obtain db' where "kwdb_RenameEntry mem_ok db (int x) (Some ''NEW'') = Inr (0, db')"
    "kwdb_KWName db' (int x) = Some ''NEW''" "kwdb_Lookup db' ''NEW'' 0 = Inr (int x)"
    using kwdb_RenameEntry_moves [OF a(1), of x "''NEW''"] by (auto simp: card_eval)
  then show ?thesis using GetEntry_run(2) [OF a(1), of x] nm by auto
qed

definition two_renames :: "kwdb res" where
  "two_renames = bind_res (kwdb_Open mem_ok ''db'') (\<lambda>od.
     bind_res (kwdb_AddEntry mem_ok (the od) (Some ''a'') (Some ''1'') None None) (\<lambda>r.
     bind_res (kwdb_AddEntry mem_ok (snd r) (Some ''a'') (Some ''2'') None None) (\<lambda>r.
     bind_res (kwdb_RenameEntry mem_ok (snd r) 2 (Some ''b'')) (\<lambda>r.
     bind_res (kwdb_RenameEntry mem_ok (snd r) 1 (Some ''b'')) (\<lambda>r. Inr (snd r))))))"

lemma hash_ab: "hash ''a'' = 233" "hash ''b'' = 334" "hash ''lr'' = 334"
  by code_simp+

lemma two_renames_state:
  "\<exists>db. two_renames = Inr db \<and> hashtbl db 334 = 1 \<and> nexthash (itab db 1) = 2 \<and> nexthash (itab db 2) = 1
     \<and> name_of db 1 = ''b'' \<and> name_of db 2 = ''b'' \<and> head db = 1 \<and> nextglob (itab db 1) = 2
     \<and> nextglob (itab db 2) = 0 \<and> maxitems db = 2048"
  unfolding two_renames_def
  by (simp add: kwdb_Open_def mem_ok_def DEF_SZSBUF_def DEF_NKEYWORDS_def kwdb_AddEntry_def Let_def
      addstr_def link_entry_def hash_index_def hash_ab kwdb_RenameEntry_def unlink_hash_def name_of_def
      cstr_at_def zero_item_def strlen0_def)

lemma cyclic_chain_diverges:
  assumes "nexthash (itab db 1) = 2" "nexthash (itab db 2) = 1" "i \<in> {1, 2}"
    "\<not> streq (name_of db 1) kw" "\<not> streq (name_of db 2) kw"
  shows "lookup_loop db kw inst n i j = Inl Diverges"
  using assms(3)
proof (induction n arbitrary: i)
  case 0
  then show ?case by auto
next
  case (Suc n)
  then show ?case using assms by auto
qed

text \<open>
  \<open>kwdb_RenameEntry\<close> does not reset \<open>nexthash\<close> when the chain it moves the entry to is
  empty.  Renaming the two entries of one keyword to another keyword leaves a cyclic hash
  chain: the lookup of an absent keyword that hashes there never ends, whatever the number of
  steps, although the walk still lists the two entries.
\<close>

theorem kwdb_RenameEntry_makes_cycle:
  "\<exists>db. two_renames = Inr db \<and> kwdb_walk db (maxitems db) (kwdb_Head db) = [1, 2]
     \<and> kwdb_Lookup db ''lr'' 0 = Inl Diverges
     \<and> (\<forall>n. lookup_loop db ''lr'' 0 n (hashtbl db (nat (hash ''lr''))) 0 = Inl Diverges)"
proof -
  obtain db where db: "two_renames = Inr db" "hashtbl db 334 = 1" "nexthash (itab db 1) = 2"
    "nexthash (itab db 2) = 1" "name_of db 1 = ''b''" "name_of db 2 = ''b''" "head db = 1"
    "nextglob (itab db 1) = 2" "nextglob (itab db 2) = 0" "maxitems db = 2048"
    using two_renames_state by blast
  have s: "\<not> streq ''b'' ''lr''" by code_simp
  have "lookup_loop db ''lr'' 0 n (hashtbl db (nat (hash ''lr''))) 0 = Inl Diverges" for n
    using cyclic_chain_diverges [OF db(3,4), of 1 "''lr''"] db s hash_ab by simp
  moreover have "linked (\<lambda>i. nextglob (itab db i)) (head db) [1, 2]" using db by simp
  then have "kwdb_walk db (maxitems db) (kwdb_Head db) = [1, 2]"
    using walk_links [of "[1, 2]" db "head db" "maxitems db"] db(10) by (simp add: kwdb_Head_def)
  ultimately show ?thesis using db(1) hash_ab
    by (intro exI [of _ db]) (simp add: kwdb_Lookup_def hash_index_def)
qed

text \<open>
  when the item table is full and cannot be enlarged, \<open>kwdb_AddEntry\<close> reports the failure
  but has already counted the larger table: the next addition, with any arguments, writes
  past the end of the table, even if memory is available again.
\<close>

theorem kwdb_AddEntry_failed_growth:
  assumes full: "itemsused db \<ge> maxitems db" "itab_cap db \<le> maxitems db" "itemsused db < maxitems db + DEF_NKEYWORDS"
    and oom: "\<not> ma (sizeof_Item * (maxitems db + DEF_NKEYWORDS))"
  shows "\<exists>db'. kwdb_AddEntry ma db kw v ty cm = Inr (-1, db') \<and> itemsused db' = itemsused db
     \<and> (\<forall>ma' kw' v' ty' cm'. kwdb_AddEntry ma' db' kw' v' ty' cm' = Inl Buffer_Overflow)"
  using assms by (intro exI [of _ "db\<lparr>maxitems := maxitems db + DEF_NKEYWORDS\<rparr>"])
    (simp add: kwdb_AddEntry_def Let_def)

theorem kwdb_AddEntry_failed_growth_witness:
  "\<exists>db db'. itemsused db = maxitems db
     \<and> kwdb_AddEntry (\<lambda>n. n < 80000) db (Some ''A'') None None None = Inr (-1, db')
     \<and> kwdb_AddEntry mem_ok db' (Some ''A'') None None None = Inl Buffer_Overflow"
proof -
  obtain db0 where db0: "kwdb_Open mem_ok ''det'' = Inr (Some db0)" using open_empty by blast
  let ?db = "db0\<lparr>itemsused := 2048\<rparr>"
  have m: "maxitems ?db = 2048" "itab_cap ?db = 2048"
    using db0 by (auto simp: kwdb_Open_def mem_ok_def DEF_NKEYWORDS_def DEF_SZSBUF_def)
  have o: "\<not> sizeof_Item * (maxitems ?db + DEF_NKEYWORDS) < 80000"
    using m by (simp add: sizeof_Item_def DEF_NKEYWORDS_def)
  obtain db' where "kwdb_AddEntry (\<lambda>n. n < 80000) ?db (Some ''A'') None None None = Inr (-1, db')"
    "kwdb_AddEntry mem_ok db' (Some ''A'') None None None = Inl Buffer_Overflow"
    using kwdb_AddEntry_failed_growth [of ?db "\<lambda>n. n < 80000" "Some ''A''" None None None, OF _ _ _ o] m
    by (auto simp: DEF_NKEYWORDS_def)
  then show ?thesis using m(1) by (intro exI [of _ ?db] exI [of _ db']) simp
qed

text \<open>
  \<open>kwdb_CopyEntry\<close> appends to the target database an entry with the value, type and comment
  of the source entry, under the new name when one is given and under the old name otherwise.
\<close>

theorem kwdb_CopyEntry_copies:
  assumes o_db: "kw_inv o_db ogl orc" "i \<in> set ogl" and inv: "kw_inv db gl rc"
    and len: "\<forall>f. length (text_of o_db i f) < DEF_SZSBUF"
    and new: "storable newname" "ascii (txt_of newname)"
  shows "\<exists>x db'. kwdb_CopyEntry mem_ok db o_db i newname = Inr (int x, db')
     \<and> snd (kwdb_GetEntry db' (int x)) = Some (if txt_of newname = [] then name_of o_db i else txt_of newname,
          value_of o_db i, type_of o_db i, comment_of o_db i)
     \<and> kwdb_walk db' (maxitems db') (kwdb_Head db')
        = kwdb_walk db (maxitems db) (kwdb_Head db) @ [int x]"
proof -
  have cs: "cstring (cstr_at buf off)" for buf off
    unfolding cstring_def cstr_at_def by (auto dest: set_takeWhileD)
  have st: "storable (Some (text_of o_db i f))" for f
    using len cs by (simp add: storable_def txt_of_def text_of_def)
  define k where "k = copy_name newname (name_of o_db i)"
  have k: "k = (if txt_of newname = [] then name_of o_db i else txt_of newname)"
    by (auto simp: k_def copy_name_def txt_of_def split: option.splits)
  have "storable (Some k)" "ascii k"
    using new st [of Fname] kw_linksD(13) [OF kw_invD(1) [OF o_db(1)] o_db(2)] k
    by (auto simp: storable_def txt_of_def text_of_simps)
  then have eok: "entry_ok (Some k) (Some (value_of o_db i)) (Some (type_of o_db i)) (Some (comment_of o_db i))"
    using st [of Fvalue] st [of Ftype] st [of Fcomment] by (simp add: entry_ok_def text_of_simps txt_of_def)
  obtain x db' rc' where a: "kwdb_CopyEntry mem_ok db o_db i newname = Inr (int x, db')" "kw_inv db' (gl @ [x]) rc'"
    "\<And>f. text_of db' x f = entry_text (Some k) (Some (value_of o_db i)) (Some (type_of o_db i)) (Some (comment_of o_db i)) f"
    using AddEntry_run [OF inv kw_ok_mem eok] unfolding kwdb_CopyEntry_def k_def by blast
  have "snd (kwdb_GetEntry db' (int x)) = Some (k, value_of o_db i, type_of o_db i, comment_of o_db i)"
    using GetEntry_run(1) [OF a(2), of x] a(3) by (simp add: txt_of_def flip: text_of_simps)
  then show ?thesis using a(1) walk_run [OF a(2)] walk_run [OF inv] k by auto
qed

theorem kwdb_CopyEntry_copies_witness:
  "\<exists>db0 db i x db'. kwdb_KWName db (int i) = Some ''GAIN''
     \<and> kwdb_CopyEntry mem_ok db0 db i (Some ''GAIN2'') = Inr (int x, db')
     \<and> snd (kwdb_GetEntry db' (int x)) = Some (''GAIN2'', ''1'', [], [])"
proof -
  obtain db0 where db0: "kw_inv db0 [] []" using open_empty by blast
  have c: "card_ok (Card ''GAIN'' ''1'' [] [])" by (simp add: card_eval)
  obtain i db where a: "kw_inv db [i] [i]" "text_of db i = card_text (Card ''GAIN'' ''1'' [] [])"
    using ks.add_finds [OF db0 c] by auto
  have nm: "name_of db i = ''GAIN''" "value_of db i = ''1''" "type_of db i = []" "comment_of db i = []"
    using a(2) by (simp_all add: fun_eq_iff txt_of_def flip: text_of_simps)
  have "length (text_of db i f) < DEF_SZSBUF" for f
    using a(2) by (cases f) (simp_all add: txt_of_def DEF_SZSBUF_def)
  then have l: "\<forall>f. length (text_of db i f) < DEF_SZSBUF" by blast
  obtain x db' where "kwdb_CopyEntry mem_ok db0 db i (Some ''GAIN2'') = Inr (int x, db')"
    "snd (kwdb_GetEntry db' (int x)) = Some (''GAIN2'', ''1'', [], [])"
    using kwdb_CopyEntry_copies [OF a(1) _ db0 l, of "Some ''GAIN2''"] nm by (auto simp: card_eval)
  moreover have "kwdb_KWName db (int i) = Some ''GAIN''" using GetEntry_run(2) [OF a(1), of i] nm by simp
  ultimately show ?thesis by blast
qed

end
