(* ===== verification/Kwdb_Fits.thy ===== *)
theory Kwdb_Fits
  imports Kwdb_Props
begin

text \<open>
  The FITS reader and writer of the keyword database (\<open>kwdb_ReadFITS\<close>, \<open>kwdb_WriteFITS\<close>,
  \<open>kwdb_UpdateFITS\<close> in \<open>mosdca/kwdb.c\<close>).

  \<^item> An 80-byte card image is a string of length 80.  What \<open>db->read\<close> delivers is a list of
    chunks, one per call; a chunk that is not 80 bytes long ends the reading.
  \<^item> The local array \<open>comment\<close> of \<open>kwdb_ReadFITS\<close> is set only by cards with a value field, so
    its contents are part of the state of the loop: \<open>None\<close> is an array never set.
  \<^item> The scans of the value and comment fields look at the byte after the card before they
    test \<open>ip < card+80\<close>; whatever it is, the scan ends there, so the model does not have it.
  \<^item> The card being formatted is a list of 80 characters: the writes that land beyond column
    80 (at most four bytes, the array has 256) are never output and leave the list as it is.
\<close>

section \<open>C strings and trailing blanks\<close>

definition cs :: "string \<Rightarrow> string" where
  "cs s = takeWhile (\<lambda>c. c \<noteq> NUL) s"

definition trim_end :: "string \<Rightarrow> string" where
  "trim_end s = rev (dropWhile (\<lambda>c. c = CHR '' '') (rev s))"

section \<open>Reading a card\<close>

definition card_keyword :: "string \<Rightarrow> string" where
  "card_keyword img = (if list_all isprint (take 8 img)
     then takeWhile (\<lambda>c. c \<noteq> CHR '' '') (take 8 img) else ''END     '')"

definition line_text :: "string \<Rightarrow> string" where
  "line_text s = cs (trim_end (takeWhile (\<lambda>c. c \<noteq> CHR 0x0A) s))"

definition value_field :: "string \<Rightarrow> string \<times> bool \<times> string" where
  "value_field img =
     (let n = length (takeWhile isspace (take 21 (drop 9 img))); ip = drop (9 + n) img in
      if ip \<noteq> [] \<and> hd ip = CHR 0x27
      then let v = takeWhile (\<lambda>c. c \<noteq> CHR 0x27) (tl ip) in (v, True, drop (length v + 1) (tl ip))
      else let v = takeWhile (\<lambda>c. c \<noteq> CHR '' '' \<and> c \<noteq> CHR ''/'') ip in (v, False, drop (length v) ip))"

definition comment_field :: "string \<Rightarrow> string" where
  "comment_field ip = line_text (dropWhile (\<lambda>c. c = CHR ''/'' \<or> c = CHR '' '') ip)"

text \<open>The keyword, value, type and comment of a card; \<open>old\<close> is what \<open>comment\<close> held before.\<close>

definition parse_card :: "string \<Rightarrow> string option \<Rightarrow> string \<times> string \<times> string \<times> string option" where
  "parse_card img old =
     (let keyword = card_keyword img;
          iscomment = streq keyword ''COMMENT''; ishistory = streq keyword ''HISTORY'' in
      if \<not> iscomment \<and> \<not> ishistory \<and> img ! 8 = CHR ''='' then
        let (v, isstring, ip) = value_field img; v = cs v in
        (keyword, v, (if isstring then ''S'' else if streq v ''T'' \<or> streq v ''F'' then ''L'' else ''N''),
         Some (comment_field ip))
      else (keyword, line_text (drop 8 img),
            (if iscomment then ''C'' else if ishistory then ''H'' else ''T''), old))"

primrec read_cards ::
    "(nat \<Rightarrow> bool) \<Rightarrow> int \<Rightarrow> string list \<Rightarrow> kwdb \<Rightarrow> int \<Rightarrow> string option \<Rightarrow> (int \<times> kwdb) res" where
  "read_cards ma maxcards [] db ncards comment = Inr (ncards, db)"
| "read_cards ma maxcards (img # rest) db ncards comment =
     (if (maxcards \<noteq> 0 \<and> ncards \<ge> maxcards) \<or> length img \<noteq> 80 then Inr (ncards, db)
      else if streq (card_keyword img) ''END'' then Inr (ncards, db)
      else case parse_card img comment of (keyword, value, type, comment) \<Rightarrow>
        (case comment of None \<Rightarrow> Inl Uninitialised
         | Some c \<Rightarrow> bind_res (kwdb_AddEntry ma db (Some keyword) (Some value) (Some type) (Some c))
             (\<lambda>(ep, db). if ep < 0 then Inr (-1, db)
                         else read_cards ma maxcards rest db (ncards + 1) comment)))"

text \<open>
  The loop that drops blank lines from the end of the header.  An entry is dropped when its
  type starts with T and its value is empty.  Each round deletes an entry, so \<open>maxitems\<close>
  rounds suffice.
\<close>

primrec trim_blanks :: "nat \<Rightarrow> kwdb \<Rightarrow> int \<Rightarrow> (int \<times> kwdb) res" where
  "trim_blanks 0 db nb = (if kwdb_Tail db > 0 then Inl Diverges else Inr (nb, db))"
| "trim_blanks (Suc n) db nb =
     (if kwdb_Tail db > 0 then
        (case snd (kwdb_GetEntry db (kwdb_Tail db)) of
           None \<Rightarrow> trim_blanks n db (nb + 1)
         | Some (keyword, value, type, comment) \<Rightarrow>
             if type \<noteq> [] \<and> hd type = CHR ''T'' \<and> value = []
             then bind_res (kwdb_DeleteEntry db (kwdb_Tail db)) (\<lambda>(_, db). trim_blanks n db (nb + 1))
             else Inr (nb, db))
      else Inr (nb, db))"

definition kwdb_ReadFITS ::
    "(nat \<Rightarrow> bool) \<Rightarrow> kwdb \<Rightarrow> string list \<Rightarrow> int \<Rightarrow> (int \<times> int \<times> kwdb) res" where
  "kwdb_ReadFITS ma db input maxcards =
     bind_res (read_cards ma maxcards input db 0 None) (\<lambda>(ncards, db).
       if ncards < 0 then Inr (-1, 0, db)
       else bind_res (trim_blanks (maxitems db) db 0) (\<lambda>(nb, db). Inr (ncards, nb, db)))"

definition kwdb_OpenFITS ::
    "(nat \<Rightarrow> bool) \<Rightarrow> (string \<rightharpoonup> string list) \<Rightarrow> string \<Rightarrow> int \<Rightarrow> (kwdb \<times> int) option res" where
  "kwdb_OpenFITS ma files filename maxcards =
     (case files filename of None \<Rightarrow> Inr None
      | Some input \<Rightarrow> bind_res (kwdb_Open ma filename) (\<lambda>o_db. case o_db of None \<Rightarrow> Inr None
          | Some db \<Rightarrow> bind_res (kwdb_ReadFITS ma db input maxcards) (\<lambda>(n, nblank, db).
              if n < 0 then Inr None else Inr (Some (db, nblank)))))"

section \<open>Formatting a card\<close>

text \<open>\<open>for (ip=s; *ip && op < card+80; ) { ch = *ip++; if (isprint(ch)) *op++ = ch; }\<close>\<close>

primrec put_text :: "string \<Rightarrow> string \<times> nat \<Rightarrow> string \<times> nat" where
  "put_text [] st = st"
| "put_text (ch # ip) st =
     (if snd st < 80 then put_text ip (if isprint ch then ((fst st)[snd st := ch], snd st + 1) else st)
      else st)"

text \<open>The same without the test of printability, for the text of a comment card.\<close>

primrec put_raw :: "string \<Rightarrow> string \<times> nat \<Rightarrow> string \<times> nat" where
  "put_raw [] st = st"
| "put_raw (ch # ip) st =
     (if snd st < 80 then put_raw ip ((fst st)[snd st := ch], snd st + 1) else st)"

definition put_char :: "char \<Rightarrow> string \<times> nat \<Rightarrow> string \<times> nat" where
  "put_char ch st = ((fst st)[snd st := ch], snd st + 1)"

definition put_value :: "string \<Rightarrow> string \<Rightarrow> string \<times> nat \<Rightarrow> string \<times> nat" where
  "put_value type value st =
     (if hd type = CHR ''S'' then
        let st = put_text value (put_char (CHR 0x27) st);
            st = put_char (CHR 0x27) (fst st, max (snd st) 19)
        in (fst st, max (snd st) 30)
      else put_text value (fst st, snd st + (20 - length value)))"

definition put_comment :: "string \<Rightarrow> string \<times> nat \<Rightarrow> string \<times> nat" where
  "put_comment comment st =
     (if comment \<noteq> [] \<and> snd st < 80
      then let st = put_char (CHR ''/'') (fst st, snd st + 1) in put_text comment (fst st, snd st + 1)
      else st)"

definition format_card :: "string \<Rightarrow> string \<Rightarrow> string \<Rightarrow> string \<Rightarrow> string" where
  "format_card keyword value type comment =
     (let img = fst (put_text (take 8 keyword) (replicate 80 (CHR '' ''), 0)) in
      if type \<noteq> [] \<and> hd type \<in> {CHR ''S'', CHR ''N'', CHR ''L''}
      then fst (put_comment comment (put_value type value (img[8 := CHR ''=''], 10)))
      else fst (put_raw value (img, 8)))"

text \<open>\<open>wr n\<close>: the \<open>n\<close>-th call of \<open>db->write\<close> takes all 80 bytes.\<close>

primrec write_cards ::
    "(nat \<Rightarrow> bool) \<Rightarrow> kwdb \<Rightarrow> nat \<Rightarrow> int \<Rightarrow> nat \<Rightarrow> string list \<Rightarrow> (int \<times> string list) res" where
  "write_cards wr db 0 ep ncards out = (if ep = 0 then Inr (int ncards, out) else Inl Diverges)"
| "write_cards wr db (Suc n) ep ncards out =
     (if ep = 0 then Inr (int ncards, out)
      else case snd (kwdb_GetEntry db ep) of None \<Rightarrow> Inr (-1, out)
      | Some (keyword, value, type, comment) \<Rightarrow>
          if wr ncards
          then write_cards wr db n (kwdb_Next db ep) (ncards + 1)
                 (out @ [format_card keyword value type comment])
          else Inr (-1, out))"

definition kwdb_WriteFITS :: "(nat \<Rightarrow> bool) \<Rightarrow> kwdb \<Rightarrow> (int \<times> string list) res" where
  "kwdb_WriteFITS wr db = write_cards wr db (maxitems db) (kwdb_Head db) 0 []"

section \<open>Updating a file\<close>

text \<open>
  \<open>header_cards\<close> is the loop that finds the capacity of the header: it reads blocks of 2880
  bytes until the END card and returns the number of cards and the rest of the file.  A file is
  its byte string; the system calls other than the first \<open>open\<close> are taken to succeed.
\<close>

definition block_cards :: "string \<Rightarrow> string list" where
  "block_cards block = map (\<lambda>i. take 80 (drop (80 * i) block)) [0..<36]"

fun header_cards :: "nat \<Rightarrow> string \<Rightarrow> nat \<Rightarrow> nat \<times> string" where
  "header_cards 0 file maxcards = (maxcards, file)"
| "header_cards (Suc n) file maxcards =
     (if length file < 2880 then (maxcards, [])
      else if list_ex (\<lambda>cp. streq (cs (take 8 cp)) ''END'') (block_cards (take 2880 file))
      then (maxcards + 35, drop 2880 file)
      else header_cards n (drop 2880 file) (maxcards + 36))"

definition end_card :: string where
  "end_card = ''END'' @ replicate 77 (CHR '' '')"

definition kwdb_UpdateFITS ::
    "kwdb \<Rightarrow> string option \<Rightarrow> bool \<Rightarrow> bool \<Rightarrow> int \<Rightarrow> (int \<times> string option) res" where
  "kwdb_UpdateFITS db file update extnd npad =
     (let write_header = (\<lambda>content. bind_res (kwdb_WriteFITS (\<lambda>_. True) db) (\<lambda>(n, cards).
            if n < 0 then Inr (-1, Some content)
            else let bytes = concat cards @ end_card in
                 Inr (0, Some (bytes @ drop (length bytes) content)))) in
      if update then
        (case file of None \<Rightarrow> Inr (-1, None)
         | Some content \<Rightarrow>
             let (maxcards, rest) = header_cards (length content) content 0 in
             if kwdb_Len db > int maxcards then
               if \<not> extnd then Inr (-1, file)
               else let nblocks = nat ((kwdb_Len db + npad + 1) + 35 div 36) in
                    write_header (replicate (2880 * nblocks) NUL @ rest)
             else write_header content)
      else write_header (case file of None \<Rightarrow> [] | Some content \<Rightarrow> content))"

section \<open>The shape of a formatted card\<close>

abbreviation SP :: char where "SP \<equiv> CHR '' ''"

definition padded :: "string \<Rightarrow> string" where
  "padded s = s @ replicate (80 - length s) SP"

lemma length_padded: "length s \<le> 80 \<Longrightarrow> length (padded s) = 80"
  by (simp add: padded_def)

text \<open>Writing at column \<open>op\<close>, at or after what has been written.\<close>

lemma padded_put:
  assumes "length s \<le> op" "op < 80"
  shows "(padded s)[op := c] = padded (s @ replicate (op - length s) SP @ [c])"
proof -
  have "replicate (80 - length s) SP = replicate (op - length s) SP @ SP # replicate (79 - op) SP"
    using assms by (simp flip: replicate_add replicate_Suc)
  then have "padded s = (s @ replicate (op - length s) SP) @ SP # replicate (79 - op) SP"
    by (simp add: padded_def)
  moreover have "length (s @ replicate (op - length s) SP) = op" using assms by simp
  ultimately have "(padded s)[op := c] = (s @ replicate (op - length s) SP) @ c # replicate (79 - op) SP"
    by (metis list_update_length)
  then show ?thesis using assms by (simp add: padded_def)
qed

lemma put_text_padded:
  assumes "list_all isprint t" "length s = op" "op + length t \<le> 80"
  shows "put_text t (padded s, op) = (padded (s @ t), op + length t)"
  using assms
proof (induction t arbitrary: s op)
  case (Cons c t)
  have "put_text (c # t) (padded s, op) = put_text t (padded (s @ [c]), op + 1)"
    using Cons.prems padded_put [of s op c] by simp
  then show ?case using Cons.IH [of "s @ [c]" "op + 1"] Cons.prems by simp
qed simp

lemma padded_gap: "length s \<le> op \<Longrightarrow> op \<le> 80 \<Longrightarrow> padded s = padded (s @ replicate (op - length s) SP)"
  by (simp add: padded_def flip: replicate_add)

lemma put_text_gap:
  assumes "list_all isprint t" "length s \<le> op" "op + length t \<le> 80"
  shows "put_text t (padded s, op) = (padded (s @ replicate (op - length s) SP @ t), op + length t)"
  using put_text_padded [of t "s @ replicate (op - length s) SP" op] padded_gap [of s op] assms by simp

lemma put_char_gap:
  assumes "length s \<le> op" "op < 80"
  shows "put_char c (padded s, op) = (padded (s @ replicate (op - length s) SP @ [c]), op + 1)"
  using padded_put [OF assms] by (simp add: put_char_def)

text \<open>Cards in canonical form: what the formatter and the parser agree on.\<close>

definition plain_key :: "string \<Rightarrow> bool" where
  "plain_key k \<longleftrightarrow> length k \<le> 8 \<and> list_all (\<lambda>c. isprint c \<and> c \<noteq> SP) k
     \<and> \<not> streq k ''COMMENT'' \<and> \<not> streq k ''HISTORY'' \<and> \<not> streq k ''END''"

definition plain_comment :: "string \<Rightarrow> bool" where
  "plain_comment c \<longleftrightarrow> list_all isprint c \<and> (c \<noteq> [] \<longrightarrow> hd c \<noteq> SP \<and> hd c \<noteq> CHR ''/'' \<and> last c \<noteq> SP)"

definition pad8 :: "string \<Rightarrow> string" where
  "pad8 v = v @ replicate (8 - length v) SP"

definition plain_value :: "string \<Rightarrow> string \<Rightarrow> string \<Rightarrow> bool" where
  "plain_value t v c \<longleftrightarrow> plain_comment c \<and>
     (if t = ''S'' then list_all (\<lambda>ch. isprint ch \<and> ch \<noteq> CHR 0x27) v \<and> length v \<le> 68
        \<and> (c \<noteq> [] \<longrightarrow> max (length v + 12) 30 + length c + 3 \<le> 80)
      else t = (if streq v ''T'' \<or> streq v ''F'' then ''L'' else ''N'')
        \<and> list_all (\<lambda>ch. isprint ch \<and> ch \<noteq> SP \<and> ch \<noteq> CHR ''/'') v \<and> (v \<noteq> [] \<longrightarrow> hd v \<noteq> CHR 0x27)
        \<and> 0 < length v \<and> length v \<le> 20 \<and> length c \<le> 47)"

definition key_text :: "string \<Rightarrow> string" where
  "key_text k = k @ replicate (8 - length k) SP @ ''= ''"

definition value_text :: "string \<Rightarrow> string \<Rightarrow> string" where
  "value_text t v = (if t = ''S'' then CHR 0x27 # pad8 v @ CHR 0x27 # replicate (18 - length (pad8 v)) SP
     else replicate (20 - length v) SP @ v)"

definition comment_text :: "string \<Rightarrow> string" where
  "comment_text c = (if c = [] then [] else '' / '' @ c)"

lemma format_card_shape:
  assumes k: "plain_key k" and v: "plain_value t v c"
  shows "format_card k v t c = padded (key_text k @ value_text t v @ comment_text c)"
proof -
  define key9 where "key9 = k @ replicate (8 - length k) SP @ ''=''"
  have l9: "length key9 = 9" and kt: "key_text k = key9 @ [SP]"
    using k by (simp_all add: key9_def key_text_def plain_key_def)
  have pk: "list_all isprint k" "length k \<le> 8" "take 8 k = k"
    using k by (auto simp: plain_key_def list_all_iff)
  have "put_text (take 8 k) (replicate 80 SP, 0) = (padded k, length k)"
    using put_text_padded [of k "[]" 0] pk by (simp add: padded_def)
  then have key: "(fst (put_text (take 8 k) (replicate 80 SP, 0)))[8 := CHR ''=''] = padded key9"
    using padded_put [of k 8] pk by (simp add: key9_def)
  have vals: "t = ''S'' \<or> t = ''N'' \<or> t = ''L''" using v by (auto simp: plain_value_def split: if_splits)
  have val: "put_value t v (padded key9, 10) = (padded (key_text k @ value_text t v),
      10 + length (value_text t v)) \<and> 30 \<le> 10 + length (value_text t v)"
  proof (cases "t = ''S''")
    case True
    have pv: "list_all isprint v" "length v \<le> 68" using v True by (auto simp: plain_value_def list_all_iff)
    have A: "put_char (CHR 0x27) (padded key9, 10) = (padded (key_text k @ [CHR 0x27]), 11)"
      using put_char_gap [of key9 10] l9 by (simp add: kt)
    have B: "put_text v (padded (key_text k @ [CHR 0x27]), 11) = (padded (key_text k @ CHR 0x27 # v), 11 + length v)"
      using put_text_padded [of v "key_text k @ [CHR 0x27]" 11] pv l9 by (simp add: kt)
    have m: "max (11 + length v) 19 - (11 + length v) = 8 - length v" by (simp add: max_def)
    have C: "put_char (CHR 0x27) (padded (key_text k @ CHR 0x27 # v), max (11 + length v) 19)
        = (padded (key_text k @ CHR 0x27 # pad8 v @ [CHR 0x27]), 12 + length (pad8 v))"
      using put_char_gap [of "key_text k @ CHR 0x27 # v" "max (11 + length v) 19"] l9 pv m
      by (simp add: kt pad8_def)
    have D: "padded (key_text k @ CHR 0x27 # pad8 v @ [CHR 0x27]) = padded (key_text k @ value_text t v)"
      using padded_gap [of "key_text k @ CHR 0x27 # pad8 v @ [CHR 0x27]" "max (12 + length (pad8 v)) 30"] pv l9 True
      by (simp add: kt value_text_def pad8_def max_def split: if_splits)
    have "put_value t v (padded key9, 10) = (padded (key_text k @ CHR 0x27 # pad8 v @ [CHR 0x27]), max (12 + length (pad8 v)) 30)"
      using True by (simp add: put_value_def A B C)
    then show ?thesis using D True by (auto simp: value_text_def max_def)
  next
    case False
    have pv: "list_all isprint v" "length v \<le> 20" using v False by (auto simp: plain_value_def list_all_iff)
    have "replicate (21 - length v) SP = SP # replicate (20 - length v) SP"
      using pv(2) by (simp add: Suc_diff_le flip: replicate_Suc)
    then show ?thesis
      using put_text_gap [of v key9 "10 + (20 - length v)"] False vals pv l9
      by (auto simp: put_value_def kt value_text_def)
  qed
  have com: "put_comment c (padded (key_text k @ value_text t v), 10 + length (value_text t v))
      = (padded (key_text k @ value_text t v @ comment_text c), 10 + length (value_text t v @ comment_text c))
      \<or> c = []"
  proof (cases "c = []")
    case False
    let ?n = "10 + length (value_text t v)"
    have lk: "length (key_text k @ value_text t v) = ?n" using l9 by (simp add: kt)
    have room: "?n + 3 + length c \<le> 80"
      using v False by (auto simp: plain_value_def value_text_def pad8_def max_def split: if_splits)
    have pc: "list_all isprint c" using v by (simp add: plain_value_def plain_comment_def)
    have A: "put_char (CHR ''/'') (padded (key_text k @ value_text t v), ?n + 1)
        = (padded (key_text k @ value_text t v @ '' /''), ?n + 2)"
      using put_char_gap [of "key_text k @ value_text t v" "?n + 1" "CHR ''/''"] lk room by simp
    have "put_text c (padded (key_text k @ value_text t v @ '' /''), ?n + 3)
        = (padded (key_text k @ value_text t v @ comment_text c), ?n + 3 + length c)"
      using put_text_gap [OF pc, of "key_text k @ value_text t v @ '' /''" "?n + 3"] lk room False
      by (simp add: comment_text_def)
    then show ?thesis using A room False by (simp add: put_comment_def comment_text_def)
  qed simp
  show ?thesis
    using vals key val com
    by (auto simp: format_card_def Let_def put_comment_def comment_text_def)
qed

end
