(* ===== verification/Kwdb_Fits_Props.thy ===== *)
theory Kwdb_Fits_Props
  imports Kwdb_Fits
begin

text \<open>
  The FITS header reader and writer agree: a card in canonical form, formatted and parsed, is
  the same card; a header written out and read into another database gives the same entries.
\<close>

section \<open>Parsing a formatted card\<close>

lemma trim_end_spaces: "s = [] \<or> last s \<noteq> SP \<Longrightarrow> trim_end (s @ replicate n SP) = s"
proof -
  assume a: "s = [] \<or> last s \<noteq> SP"
  have "dropWhile (\<lambda>c. c = SP) (replicate n SP @ rev s) = rev s"
    by (rule dropWhile_all_hd) (use a in \<open>auto simp: list_all_iff hd_rev\<close>)
  then show ?thesis by (simp add: trim_end_def)
qed

lemma printable_no_nul:
  assumes "list_all isprint s"
  shows "NUL \<notin> set s" "CHR 0x0A \<notin> set s"
proof -
  have "\<not> isprint NUL" "\<not> isprint (CHR 0x0A)" by code_simp+
  then show "NUL \<notin> set s" "CHR 0x0A \<notin> set s" using assms by (auto simp: list_all_iff)
qed

lemma cs_id: "NUL \<notin> set s \<Longrightarrow> cs s = s"
  unfolding cs_def by (rule takeWhile_eq_all_conv [THEN iffD2]) auto

lemma isprint_SP [simp]: "isprint SP" "isspace SP"
  by code_simp+

lemma line_text_padded:
  assumes "list_all isprint s" "s = [] \<or> last s \<noteq> SP"
  shows "line_text (s @ replicate n SP) = s"
proof -
  have "takeWhile (\<lambda>c. c \<noteq> CHR 0x0A) (s @ replicate n SP) = s @ replicate n SP"
    using printable_no_nul(2) [OF assms(1)] by (intro takeWhile_eq_all_conv [THEN iffD2]) auto
  then show ?thesis
    using trim_end_spaces [OF assms(2)] cs_id [OF printable_no_nul(1) [OF assms(1)]]
    by (simp add: line_text_def)
qed

lemma comment_field_shape:
  assumes "plain_comment c" "set pre \<subseteq> {SP, CHR ''/''}"
  shows "comment_field (pre @ comment_text c @ replicate n SP) = c"
proof (cases "c = []")
  case True
  have "dropWhile (\<lambda>c. c = CHR ''/'' \<or> c = SP) (pre @ replicate n SP) = []"
    using assms(2) by (auto simp: dropWhile_eq_Nil_conv)
  then show ?thesis using True line_text_padded [of "[]" 0] by (simp add: comment_field_def comment_text_def)
next
  case False
  have "dropWhile (\<lambda>c. c = CHR ''/'' \<or> c = SP) ((pre @ '' / '') @ c @ replicate n SP) = c @ replicate n SP"
    by (rule dropWhile_all_hd) (use assms False in \<open>auto simp: list_all_iff plain_comment_def\<close>)
  then show ?thesis using False assms(1) line_text_padded [of c n]
    by (simp add: comment_field_def comment_text_def plain_comment_def)
qed

lemma skip_spaces:
  assumes "length pre \<le> 21" "list_all isspace pre" "s \<noteq> []" "\<not> isspace (hd s)"
  shows "drop (length (takeWhile isspace (take 21 (pre @ s)))) (pre @ s) = s"
proof -
  have "takeWhile isspace (take 21 (pre @ s)) = pre"
  proof (cases "length pre = 21")
    case True
    then show ?thesis using assms(2) by (simp add: list_all_iff takeWhile_eq_all_conv)
  next
    case False
    then have "take 21 (pre @ s) = pre @ take (21 - length pre) s" "hd (take (21 - length pre) s) = hd s"
      using assms(1,3) by (auto simp: hd_take)
    then show ?thesis using takeWhile_all_hd [of isspace pre] assms(2,4) by metis
  qed
  then show ?thesis by simp
qed

lemma isprint_not_space: "isprint c \<Longrightarrow> c \<noteq> SP \<Longrightarrow> \<not> isspace c"
  by (auto simp: isprint_def isspace_def)

lemma plain_keyD:
  assumes "plain_key k"
  shows "length k \<le> 8" "list_all isprint k" "list_all (\<lambda>c. c \<noteq> SP) k"
  using assms unfolding plain_key_def by (simp_all add: list.pred_set)

lemma plain_valueS:
  assumes "plain_value ''S'' v c"
  shows "list_all isprint v" "list_all (\<lambda>c. c \<noteq> CHR 0x27) v" "length v \<le> 68"
    "c \<noteq> [] \<Longrightarrow> max (length v + 12) 30 + length c + 3 \<le> 80"
  using assms unfolding plain_value_def by (simp_all add: list.pred_set)

lemma drop_key9:
  assumes "length key9 = 9"
  shows "drop 9 (key9 @ s) = s" "drop (9 + n) (key9 @ s) = drop n s"
  using assms by simp_all

lemma value_field_shape:
  assumes v: "plain_value t v c" and k9: "length key9 = 9" and rest: "rest = [] \<or> hd rest = SP"
  shows "\<exists>pre. value_field (key9 @ [SP] @ value_text t v @ rest)
       = (if t = ''S'' then pad8 v else v, t = ''S'', pre @ rest) \<and> set pre \<subseteq> {SP}"
proof (cases "t = ''S''")
  case True
  define sp where "sp = replicate (18 - length (pad8 v)) SP"
  let ?s = "CHR 0x27 # pad8 v @ CHR 0x27 # sp @ rest"
  have img: "key9 @ [SP] @ value_text t v @ rest = key9 @ [SP] @ ?s" using True by (simp add: value_text_def sp_def)
  have q: "\<not> isspace (CHR 0x27)" by code_simp
  have skip: "drop (length (takeWhile isspace (take 21 ([SP] @ ?s)))) ([SP] @ ?s) = ?s"
    by (rule skip_spaces) (use q in auto)
  have p8: "list_all (\<lambda>ch. ch \<noteq> CHR 0x27) (pad8 v)"
    using plain_valueS(2) v True list_all_replicate [of "\<lambda>c. c \<noteq> CHR 0x27"] by (simp add: pad8_def)
  have "takeWhile (\<lambda>ch. ch \<noteq> CHR 0x27) (pad8 v @ CHR 0x27 # sp @ rest) = pad8 v"
    using takeWhile_all_hd [OF p8] by simp
  then have "value_field (key9 @ [SP] @ ?s) = (pad8 v, True, sp @ rest)"
    unfolding value_field_def Let_def drop_key9 [OF k9] skip by simp
  then show ?thesis unfolding img using True by (auto simp: sp_def)
next
  case False
  have pv: "list_all (\<lambda>ch. isprint ch \<and> ch \<noteq> SP \<and> ch \<noteq> CHR ''/'') v" "v \<noteq> []" "hd v \<noteq> CHR 0x27"
    "length v \<le> 20" using v False by (auto simp: plain_value_def)
  define sp where "sp = SP # replicate (20 - length v) SP"
  have img: "key9 @ [SP] @ value_text t v @ rest = key9 @ sp @ v @ rest" using False by (simp add: value_text_def sp_def)
  have hv: "hd (v @ rest) = hd v" "\<not> isspace (hd v)" using pv isprint_not_space by (cases v; auto)+
  have skip: "drop (length (takeWhile isspace (take 21 (sp @ v @ rest)))) (sp @ v @ rest) = v @ rest"
    by (rule skip_spaces) (use pv hv in \<open>auto simp: sp_def list_all_iff\<close>)
  have "takeWhile (\<lambda>ch. ch \<noteq> SP \<and> ch \<noteq> CHR ''/'') (v @ rest) = v"
    by (rule takeWhile_all_hd) (use pv(1) rest in \<open>auto simp: list_all_iff\<close>)
  then have "value_field (key9 @ sp @ v @ rest) = (v, False, rest)"
    unfolding value_field_def Let_def drop_key9 [OF k9] skip using pv hv by simp
  then show ?thesis unfolding img using False by auto
qed

lemma card_keyword_shape:
  assumes "plain_key k" "length r = n"
  shows "card_keyword (k @ replicate (8 - length k) SP @ r) = k"
proof -
  have "take 8 (k @ replicate (8 - length k) SP @ r) = k @ replicate (8 - length k) SP"
    using plain_keyD(1) [OF assms(1)] by simp
  moreover have "takeWhile (\<lambda>c. c \<noteq> SP) (k @ replicate (8 - length k) SP) = k"
    by (rule takeWhile_all_hd [OF plain_keyD(3) [OF assms(1)]]) (cases "8 - length k"; simp)
  moreover have "list_all isprint (k @ replicate (8 - length k) SP)"
    using plain_keyD(2) [OF assms(1)] list_all_replicate [of isprint SP] by simp
  ultimately show ?thesis by (simp only: card_keyword_def if_True)
qed

lemma pad8_printable: "plain_value t v c \<Longrightarrow> list_all isprint (if t = ''S'' then pad8 v else v)"
  by (auto simp: plain_value_def pad8_def list_all_iff)

lemma format_length: 
  assumes "plain_key k" "plain_value t v c"
  shows "length (key_text k @ value_text t v @ comment_text c) \<le> 80"
proof (cases "t = ''S''")
  case True
  have "length v \<le> 68" "c \<noteq> [] \<longrightarrow> max (length v + 12) 30 + length c + 3 \<le> 80"
    using assms(2) True by (auto simp: plain_value_def)
  then show ?thesis using assms(1) True
    by (cases "c = []") (auto simp: plain_key_def key_text_def value_text_def comment_text_def pad8_def)
next
  case False
  then show ?thesis using assms
    by (auto simp: plain_key_def plain_value_def key_text_def value_text_def comment_text_def)
qed

lemma parse_format:
  assumes k: "plain_key k" and v: "plain_value t v c"
  shows "parse_card (format_card k v t c) old = (k, if t = ''S'' then pad8 v else v, t, Some c)"
    and "length (format_card k v t c) = 80" and "card_keyword (format_card k v t c) = k"
proof -
  define key9 where "key9 = k @ replicate (8 - length k) SP @ ''=''"
  define n where "n = 80 - length (key_text k @ value_text t v @ comment_text c)"
  define rest where "rest = comment_text c @ replicate n SP"
  have kl: "length k \<le> 8" using k by (simp add: plain_key_def)
  have l9: "length key9 = 9" using kl by (simp add: key9_def)
  have img: "format_card k v t c = key9 @ [SP] @ value_text t v @ rest"
    using format_card_shape [OF k v] by (simp add: padded_def key9_def key_text_def rest_def n_def)
  show "length (format_card k v t c) = 80"
    using format_card_shape [OF k v] length_padded format_length [OF k v] by simp
  have img2: "format_card k v t c = k @ replicate (8 - length k) SP @ ''='' @ [SP] @ value_text t v @ rest"
    using img by (simp add: key9_def)
  show key: "card_keyword (format_card k v t c) = k"
    unfolding img2 by (rule card_keyword_shape [OF k refl])
  have eq: "format_card k v t c ! 8 = CHR ''=''" unfolding img2 using kl by (simp add: nth_append)
  have hr: "rest = [] \<or> hd rest = SP" by (cases n) (auto simp: rest_def comment_text_def)
  obtain pre where vf: "value_field (format_card k v t c) = (if t = ''S'' then pad8 v else v, t = ''S'', pre @ rest)"
      "set pre \<subseteq> {SP}"
    using value_field_shape [OF v l9 hr] unfolding img by blast
  have cf: "comment_field (pre @ rest) = c"
    unfolding rest_def by (rule comment_field_shape) (use v vf(2) in \<open>auto simp: plain_value_def\<close>)
  have val: "cs (if t = ''S'' then pad8 v else v) = (if t = ''S'' then pad8 v else v)"
    by (rule cs_id [OF printable_no_nul(1) [OF pad8_printable [OF v]]])
  have ty: "t = (if t = ''S'' then ''S'' else if streq v ''T'' \<or> streq v ''F'' then ''L'' else ''N'')"
    using v by (auto simp: plain_value_def)
  show "parse_card (format_card k v t c) old = (k, if t = ''S'' then pad8 v else v, t, Some c)"
    using k eq vf(1) cf val ty by (auto simp: parse_card_def key Let_def plain_key_def)
qed

section \<open>Writing a database, reading a header\<close>

definition plain_card :: "card \<Rightarrow> bool" where
  "plain_card c \<longleftrightarrow> plain_key (c_name c) \<and> plain_value (c_type c) (c_value c) (c_comment c)"

definition fits_card :: "card \<Rightarrow> string" where
  "fits_card c = format_card (c_name c) (c_value c) (c_type c) (c_comment c)"

definition read_back :: "card \<Rightarrow> card" where
  "read_back c = Card (c_name c) (if c_type c = ''S'' then pad8 (c_value c) else c_value c) (c_type c) (c_comment c)"

lemma printable_ascii: "list_all isprint s \<Longrightarrow> ascii s \<and> cstring s"
  using printable_no_nul(1) [of s] by (auto simp: ascii_def cstring_def isprint_def list_all_iff)

lemma plain_value_lengths:
  assumes "plain_value t v c"
  shows "length (if t = ''S'' then pad8 v else v) \<le> 68" "length c \<le> 47" "t = ''S'' \<or> t = ''N'' \<or> t = ''L''"
    "list_all isprint c"
proof -
  have "length c \<le> 47" if "t = ''S''"
    using plain_valueS(4) [of v c] assms that by (cases "c = []") auto
  then show "length (if t = ''S'' then pad8 v else v) \<le> 68" "length c \<le> 47" "t = ''S'' \<or> t = ''N'' \<or> t = ''L''"
    "list_all isprint c"
    using assms plain_valueS(3) [of v c]
    by (auto simp: plain_value_def plain_comment_def pad8_def split: if_splits)
qed

lemma read_back_ok:
  assumes "plain_card c"
  shows "card_ok (read_back c)"
proof -
  note k = plain_keyD [of "c_name c"]
  have v: "plain_value (c_type c) (c_value c) (c_comment c)" and pk: "plain_key (c_name c)"
    using assms by (simp_all add: plain_card_def)
  have st: "list_all isprint s \<Longrightarrow> length s \<le> 80 \<Longrightarrow> storable (Some s)" for s
    using printable_ascii [of s] by (simp add: storable_def txt_of_def DEF_SZSBUF_def)
  have "list_all isprint (c_type c)" "length (c_type c) \<le> 80" using plain_value_lengths(3) [OF v]
    by (auto simp: isprint_def)
  then show ?thesis
    using st [of "c_name c"] st [of "c_type c"] st [of "c_comment c"] st [of "c_value (read_back c)"]
      k [OF pk] plain_value_lengths [OF v] pad8_printable [OF v] printable_ascii [of "c_name c"]
    by (simp add: card_ok_def entry_ok_def read_back_def txt_of_def split: if_splits)
qed

lemma end_card_parses: "length end_card = 80" "card_keyword end_card = ''END''"
  by code_simp+

lemma read_cards_formatted:
  assumes "kw_inv db gl rc" "list_all plain_card cards"
  shows "\<exists>db'. add_all (kw_add mem_ok) db (map read_back cards) = Inr db'
     \<and> read_cards mem_ok 0 (map fits_card cards @ end_card # rest) db n old = Inr (n + int (length cards), db')"
  using assms
proof (induction cards arbitrary: db gl rc n old)
  case Nil
  then show ?case by (simp add: end_card_parses)
next
  case (Cons c cards)
  have pc: "plain_key (c_name c)" "plain_value (c_type c) (c_value c) (c_comment c)"
    using Cons.prems(2) by (simp_all add: plain_card_def)
  have ok: "card_ok (read_back c)" using read_back_ok [of c] Cons.prems(2) by simp
  obtain x db1 where a: "kw_add mem_ok db (read_back c) = Inr (int x, db1)"
    "kw_inv db1 (gl @ [x]) (if c_name c = [] then rc else x # rc)"
    using ks.add_law [OF Cons.prems(1) ok] by (auto simp: read_back_def)
  obtain db' where b: "add_all (kw_add mem_ok) db1 (map read_back cards) = Inr db'"
    "read_cards mem_ok 0 (map fits_card cards @ end_card # rest) db1 (n + 1) (Some (c_comment c))
       = Inr (n + 1 + int (length cards), db')"
    using Cons.IH [OF a(2)] Cons.prems(2) by (simp, blast)
  have ne: "\<not> streq (c_name c) ''END''" using pc(1) by (simp add: plain_key_def)
  have "read_cards mem_ok 0 ((fits_card c) # (map fits_card cards @ end_card # rest)) db n old
      = Inr (n + 1 + int (length cards), db')"
    using parse_format [OF pc] ne a(1) b(2)
    by (simp add: fits_card_def kw_add_def read_back_def del: streq.simps)
  then show ?case using a(1) b(1) by simp
qed

lemma write_cards_links:
  assumes "kw_inv db gl rc"
  shows "linked (\<lambda>i. nextglob (itab db i)) p xs \<Longrightarrow> set xs \<subseteq> set gl \<Longrightarrow> length xs \<le> n \<Longrightarrow>
    write_cards (\<lambda>_. True) db n (int p) k out = Inr (int (k + length xs),
      out @ map (\<lambda>i. format_card (name_of db i) (value_of db i) (type_of db i) (comment_of db i)) xs)"
proof (induction n arbitrary: p xs k out)
  case (Suc n)
  show ?case
  proof (cases xs)
    case Nil
    then show ?thesis using Suc.prems by simp
  next
    case (Cons x ys)
    then show ?thesis
      using Suc.IH [of ys "nextglob (itab db x)" "k + 1"] Suc.prems GetEntry_run(1) [OF assms, of x]
      by (auto simp: kwdb_Next_def)
  qed
qed simp

definition entry_card :: "kwdb \<Rightarrow> nat \<Rightarrow> card" where
  "entry_card db i = Card (name_of db i) (value_of db i) (type_of db i) (comment_of db i)"

lemma WriteFITS_run:
  assumes "kw_inv db gl rc"
  shows "kwdb_WriteFITS (\<lambda>_. True) db = Inr (int (length gl), map (\<lambda>i. fits_card (entry_card db i)) gl)"
  using write_cards_links [OF assms kw_linksD(1) [OF kw_invD(1) [OF assms]] _ kw_fuel(1) [OF kw_invD(1) [OF assms]], of 0 "[]"]
  by (simp add: kwdb_WriteFITS_def kwdb_Head_def fits_card_def entry_card_def)

section \<open>Blank lines at the end of a header\<close>

definition blank_entry :: "kwdb \<Rightarrow> nat \<Rightarrow> bool" where
  "blank_entry db i \<longleftrightarrow> type_of db i \<noteq> [] \<and> hd (type_of db i) = CHR ''T'' \<and> value_of db i = []"

lemma trim_blanks_run:
  assumes "kw_inv db gl rc" "length gl \<le> n"
  shows "\<exists>db' rc'. trim_blanks n db nb = Inr (nb + int (length (takeWhile (blank_entry db) (rev gl))), db')
     \<and> kw_inv db' (rev (dropWhile (blank_entry db) (rev gl))) rc' \<and> (\<forall>i f. text_of db' i f = text_of db i f)"
  using assms
proof (induction n arbitrary: db gl rc nb)
  case 0
  then have "kwdb_Tail db = 0" using kw_linksD(6) [OF kw_invD(1) [OF 0(1)]] by (simp add: kwdb_Tail_def)
  then show ?case using 0 by auto
next
  case (Suc n)
  note l = kw_linksD [OF kw_invD(1) [OF Suc.prems(1)]]
  show ?case
  proof (cases gl rule: rev_cases)
    case Nil
    then have "kwdb_Tail db = 0" using l(6) by (simp add: kwdb_Tail_def)
    then show ?thesis using Suc.prems Nil by auto
  next
    case (snoc ys y)
    have y: "y \<in> set gl" "kwdb_Tail db = int y" "0 < y" using snoc l(4,6) by (auto simp: kwdb_Tail_def)
    note g = GetEntry_run(1) [OF Suc.prems(1) y(1)]
    show ?thesis
    proof (cases "blank_entry db y")
      case False
      then have "trim_blanks (Suc n) db nb = Inr (nb, db)" using y g by (auto simp: blank_entry_def)
      then show ?thesis using snoc False Suc.prems(1) by auto
    next
      case True
      have rm: "remove1 y gl = ys" using l(3) snoc by (simp add: remove1_append)
      obtain d1 where d1: "kwdb_DeleteEntry db (int y) = Inr (0, d1)" "kw_inv d1 ys (remove1 y rc)"
        "\<And>i f. text_of d1 i f = text_of db i f"
        using DeleteEntry_run [OF Suc.prems(1) y(1)] rm by auto
      have same: "blank_entry d1 = blank_entry db" using d1(3)
        by (auto simp: blank_entry_def fun_eq_iff simp flip: text_of_simps)
      obtain db' rc' where "trim_blanks n d1 (nb + 1)
          = Inr (nb + 1 + int (length (takeWhile (blank_entry d1) (rev ys))), db')"
        "kw_inv db' (rev (dropWhile (blank_entry d1) (rev ys))) rc'" "\<And>i f. text_of db' i f = text_of d1 i f"
        using Suc.IH [OF d1(2), of "nb + 1"] Suc.prems(2) snoc by auto
      moreover have "trim_blanks (Suc n) db nb = trim_blanks n d1 (nb + 1)"
        using True y g d1(1) by (auto simp: blank_entry_def)
      ultimately show ?thesis using snoc True same d1(3) by auto
    qed
  qed
qed

section \<open>Properties\<close>

text \<open>
  a card in canonical form survives formatting and parsing: the image has 80 columns and
  parses to the same keyword, type and comment and to the same value, except that a string
  value shorter than 8 characters comes back padded to 8 with blanks (the padding the writer
  puts inside the quotes).
\<close>

theorem format_parse_roundtrip:
  assumes "plain_key k" "plain_value t v c"
  shows "length (format_card k v t c) = 80
     \<and> parse_card (format_card k v t c) old = (k, if t = ''S'' then pad8 v else v, t, Some c)"
  using parse_format [OF assms] by simp_all

theorem format_parse_roundtrip_witness:
  "plain_key ''OBJECT'' \<and> plain_value ''S'' ''M 31'' ''target''
   \<and> parse_card (format_card ''OBJECT'' ''M 31'' ''S'' ''target'') None = (''OBJECT'', ''M 31    '', ''S'', Some ''target'')"
proof -
  have k: "plain_key ''OBJECT''" and v: "plain_value ''S'' ''M 31'' ''target''" by code_simp+
  have "pad8 ''M 31'' = ''M 31    ''" by code_simp
  then show ?thesis using format_parse_roundtrip [OF k v, of None] k v by simp
qed

text \<open>
  C1: a header written by \<open>kwdb_WriteFITS\<close> from a database of canonical entries, followed by an
  END card, is read by \<open>kwdb_ReadFITS\<close> into a new database whose entries are those of the first in
  the same order, with their names, types, comments and values, but for one change of values: a
  string of less than eight characters comes back padded with blanks to eight (\<open>read_back\<close>, since
  the card holds it so).  Both report the number of cards.
\<close>

theorem WriteFITS_ReadFITS:
  assumes o_db: "kw_inv o_db gl rc" "list_all (\<lambda>i. plain_card (entry_card o_db i)) gl"
    and name: "length name + 2 \<le> DEF_SZSBUF"
  shows "\<exists>imgs db db'. kwdb_WriteFITS (\<lambda>_. True) o_db = Inr (kwdb_Len o_db, imgs)
     \<and> kwdb_Open mem_ok name = Inr (Some db)
     \<and> kwdb_ReadFITS mem_ok db (imgs @ end_card # rest) 0 = Inr (kwdb_Len o_db, 0, db')
     \<and> map (\<lambda>ep. snd (kwdb_GetEntry db' ep)) (kwdb_walk db' (maxitems db') (kwdb_Head db'))
        = map (\<lambda>i. let c = read_back (entry_card o_db i) in Some (c_name c, c_value c, c_type c, c_comment c)) gl"
proof -
  let ?cards = "map (entry_card o_db) gl"
  obtain db where db: "kwdb_Open mem_ok name = Inr (Some db)" "kw_inv db [] []"
    using kwdb_Open_inv [OF kw_ok_mem name] by blast
  have pl: "list_all plain_card ?cards" using o_db(2) by (simp add: list.pred_set)
  obtain d1 where d1: "add_all (kw_add mem_ok) db (map read_back ?cards) = Inr d1"
    "read_cards mem_ok 0 (map fits_card ?cards @ end_card # rest) db 0 None = Inr (int (length gl), d1)"
    using read_cards_formatted [OF db(2) pl, where rest = rest and n = 0 and old = None] by auto
  have cok: "list_all card_ok (map read_back ?cards)" using pl read_back_ok by (simp add: list.pred_set)
  obtain xs where xs: "kw_inv d1 xs (rev (filter (\<lambda>i. text_of d1 i Fname \<noteq> []) xs))"
    "map (text_of d1) xs = map card_text (map read_back ?cards)"
    using ks.add_all_appends [OF db(2) cok] d1(1) by auto
  have len: "length xs = length gl" using xs(2) by (metis length_map)
  have tx: "text_of d1 (xs ! i) = card_text (read_back (entry_card o_db (gl ! i)))" if "i < length gl" for i
    using xs(2) that len by (metis length_map nth_map)
  have en: "snd (kwdb_GetEntry d1 (int (xs ! i))) = (let c = read_back (entry_card o_db (gl ! i)) in
      Some (c_name c, c_value c, c_type c, c_comment c))" if "i < length gl" for i
    using GetEntry_run(1) [OF xs(1), of "xs ! i"] tx [OF that] that len
    by (cases "read_back (entry_card o_db (gl ! i))")
      (simp add: fun_eq_iff txt_of_def Let_def flip: text_of_simps)
  have "\<not> blank_entry d1 x" if x: "x \<in> set xs" for x
  proof -
    obtain i where i: "i < length gl" "x = xs ! i" using x len by (auto simp: in_set_conv_nth)
    have "c_type (entry_card o_db (gl ! i)) \<in> {''S'', ''N'', ''L''}"
      using o_db(2) i(1) plain_value_lengths(3) by (fastforce simp: list.pred_set plain_card_def)
    moreover have "type_of d1 x = c_type (entry_card o_db (gl ! i))"
      using tx [OF i(1)] i(2) by (simp add: fun_eq_iff txt_of_def read_back_def flip: text_of_simps)
    ultimately show ?thesis by (auto simp: blank_entry_def)
  qed
  then have nb: "takeWhile (blank_entry d1) (rev xs) = []" "dropWhile (blank_entry d1) (rev xs) = rev xs"
    by (cases xs rule: rev_cases; simp)+
  obtain db' rc' where t: "trim_blanks (maxitems d1) d1 0 = Inr (0, db')" "kw_inv db' xs rc'"
    "\<And>i f. text_of db' i f = text_of d1 i f"
    using trim_blanks_run [OF xs(1) kw_fuel(1) [OF kw_invD(1) [OF xs(1)]], of 0] nb by auto
  have ge: "snd (kwdb_GetEntry db' (int x)) = snd (kwdb_GetEntry d1 (int x))" if "x \<in> set xs" for x
    using GetEntry_run(1) [OF xs(1) that] GetEntry_run(1) [OF t(2) that] t(3) by (simp flip: text_of_simps)
  have "map (\<lambda>ep. snd (kwdb_GetEntry db' ep)) (map int xs)
     = map (\<lambda>i. let c = read_back (entry_card o_db i) in Some (c_name c, c_value c, c_type c, c_comment c)) gl"
    using ge en len by (intro nth_equalityI) auto
  moreover have "kwdb_ReadFITS mem_ok db (map fits_card ?cards @ end_card # rest) 0 = Inr (int (length gl), 0, db')"
    using d1(2) t(1) by (simp add: kwdb_ReadFITS_def)
  moreover have "kwdb_Len o_db = int (length gl)"
    using kw_linksD(7) [OF kw_invD(1) [OF o_db(1)]] by (simp add: kwdb_Len_def)
  ultimately show ?thesis using db(1) WriteFITS_run [OF o_db(1)] walk_run [OF t(2)]
    by (intro exI [of _ "map fits_card ?cards"] exI [of _ db] exI [of _ db']) (simp add: o_def)
qed

theorem WriteFITS_ReadFITS_witness:
  "\<exists>o_db imgs db db'. kwdb_WriteFITS (\<lambda>_. True) o_db = Inr (1, imgs)
     \<and> kwdb_Open mem_ok ''new'' = Inr (Some db)
     \<and> kwdb_ReadFITS mem_ok db (imgs @ [end_card]) 0 = Inr (1, 0, db')"
proof -
  obtain db0 where db0: "kw_inv db0 [] []" using open_empty by blast
  have c: "card_ok (Card ''GAIN'' ''1'' ''N'' [])" by (simp add: card_eval)
  obtain x o_db where a: "kw_inv o_db [x] [x]" "text_of o_db x = card_text (Card ''GAIN'' ''1'' ''N'' [])"
    using ks.add_finds [OF db0 c] by auto
  have "entry_card o_db x = Card ''GAIN'' ''1'' ''N'' []"
    using a(2) by (simp add: entry_card_def fun_eq_iff txt_of_def flip: text_of_simps)
  moreover have "plain_card (Card ''GAIN'' ''1'' ''N'' [])" by code_simp
  ultimately have pl: "list_all (\<lambda>i. plain_card (entry_card o_db i)) [x]" by simp
  have n: "kwdb_Len o_db = 1" using kw_linksD(7) [OF kw_invD(1) [OF a(1)]] by (simp add: kwdb_Len_def)
  have "length ''new'' + 2 \<le> DEF_SZSBUF" by (simp add: DEF_SZSBUF_def)
  from WriteFITS_ReadFITS [OF a(1) pl this, of "[]"] n show ?thesis by auto
qed

text \<open>
  the end of \<open>kwdb_ReadFITS\<close> drops exactly the longest run of blank lines at the end of the
  list (entries whose type starts with T and whose value is empty), counts them, and leaves
  every remaining entry and its texts alone.
\<close>

theorem ReadFITS_trims_blank_lines:
  assumes "kw_inv db gl rc"
  shows "\<exists>db' rc'. trim_blanks (maxitems db) db 0 = Inr (int (length (takeWhile (blank_entry db) (rev gl))), db')
     \<and> kw_inv db' (rev (dropWhile (blank_entry db) (rev gl))) rc' \<and> (\<forall>i f. text_of db' i f = text_of db i f)"
  using trim_blanks_run [OF assms kw_fuel(1) [OF kw_invD(1) [OF assms]], of 0] by simp

theorem ReadFITS_trims_blank_lines_witness:
  "\<exists>db db'. kwdb_Len db = 1 \<and> trim_blanks (maxitems db) db 0 = Inr (1, db') \<and> kwdb_Len db' = 0"
proof -
  obtain db0 where db0: "kw_inv db0 [] []" using open_empty by blast
  have c: "card_ok (Card ''X'' [] ''T'' [])" by (simp add: card_eval)
  obtain x db where a: "kw_inv db [x] [x]" "text_of db x = card_text (Card ''X'' [] ''T'' [])"
    using ks.add_finds [OF db0 c] by auto
  have b: "blank_entry db x" using a(2) by (simp add: blank_entry_def fun_eq_iff txt_of_def flip: text_of_simps)
  obtain db' rc' where "trim_blanks (maxitems db) db 0 = Inr (1, db')" "kw_inv db' [] rc'"
    using ReadFITS_trims_blank_lines [OF a(1)] b by auto
  then show ?thesis using kw_linksD(7) [OF kw_invD(1)] a(1)
    by (intro exI [of _ db] exI [of _ db']) (auto simp: kwdb_Len_def)
qed

lemma cstring_cs: "cstring (cs s)"
  unfolding cstring_def cs_def by (auto dest: set_takeWhileD)

lemma length_line_text: "length (line_text s) \<le> length s"
proof -
  have "length (trim_end t) \<le> length t" for t
    unfolding trim_end_def by (metis length_dropWhile_le length_rev)
  then show ?thesis unfolding line_text_def cs_def
    by (meson length_takeWhile_le order_trans)
qed

lemma text_card_storable: "length img = 80 \<Longrightarrow> storable (Some (line_text (drop 8 img)))"
  using length_line_text [of "drop 8 img"] cstring_cs
  by (auto simp: storable_def txt_of_def line_text_def DEF_SZSBUF_def)

lemma end_name: "\<not> streq ''END     '' ''END''" "\<not> streq ''END     '' ''COMMENT''" "\<not> streq ''END     '' ''HISTORY''"
  by code_simp+

text \<open>
  a block of binary data after a header without END does not stop the reader.  When one of
  the first 8 bytes is not printable the keyword becomes \<open>END\<close> with five trailing blanks, which
  the test for END does not match: the bytes are entered as an entry of that name and the
  reading goes on with the next card.
\<close>

theorem ReadFITS_reads_past_binary_data:
  assumes inv: "kw_inv db gl rc" and img: "length img = 80" "\<not> list_all isprint (take 8 img)" "img ! 8 \<noteq> CHR ''=''"
    and c: "storable (Some c)"
  shows "\<exists>x db'. read_cards mem_ok 0 (img # imgs) db n (Some c) = read_cards mem_ok 0 imgs db' (n + 1) (Some c)
     \<and> kw_inv db' (gl @ [x]) (x # rc) \<and> kwdb_KWName db' (int x) = Some ''END     ''"
proof -
  have key: "card_keyword img = ''END     ''" using img(2) by (auto simp: card_keyword_def)
  have ok: "card_ok (Card ''END     '' (line_text (drop 8 img)) ''T'' c)"
    using c text_card_storable [OF img(1)] by (simp add: card_eval)
  obtain x db' where a: "kw_add mem_ok db (Card ''END     '' (line_text (drop 8 img)) ''T'' c) = Inr (int x, db')"
    "kw_inv db' (gl @ [x]) (x # rc)" "text_of db' x = card_text (Card ''END     '' (line_text (drop 8 img)) ''T'' c)"
    using ks.add_finds [OF inv ok] by auto
  have p: "parse_card img (Some c) = (''END     '', line_text (drop 8 img), ''T'', Some c)"
    using img(3) end_name by (simp add: parse_card_def key Let_def del: streq.simps)
  have "name_of db' x = ''END     ''" using a(3) by (simp add: fun_eq_iff txt_of_def flip: text_of_simps)
  then have "kwdb_KWName db' (int x) = Some ''END     ''" using GetEntry_run(2) [OF a(2), of x] by simp
  then show ?thesis using a(1,2) p img(1) key end_name
    by (intro exI [of _ x] exI [of _ db']) (simp add: kw_add_def del: streq.simps)
qed

theorem ReadFITS_reads_past_binary_data_witness:
  "\<exists>db x db'. kwdb_Open mem_ok ''det'' = Inr (Some db)
     \<and> read_cards mem_ok 0 [replicate 80 (CHR 0xFF)] db 0 (Some []) = Inr (1, db') \<and> kwdb_KWName db' x = Some ''END     ''"
proof -
  obtain db where db: "kwdb_Open mem_ok ''det'' = Inr (Some db)" "kw_inv db [] []" using open_empty by blast
  have i: "\<not> list_all isprint (take 8 (replicate 80 (CHR 0xFF)))" by code_simp
  have l: "length (replicate 80 (CHR 0xFF)) = 80" by simp
  have e: "replicate 80 (CHR 0xFF) ! 8 \<noteq> CHR ''=''" by simp
  have s: "storable (Some [])" by (simp add: card_eval)
  from ReadFITS_reads_past_binary_data [OF db(2) l i e s, of "[]" 0] show ?thesis
    using db(1) by fastforce
qed

text \<open>
  the comment buffer of the reader is not cleared between cards.  A HISTORY card that
  follows a card with a comment is stored with the comment of that card.
\<close>

theorem ReadFITS_stale_comment:
  assumes inv: "kw_inv db gl rc" and card: "plain_card cd"
    and h: "length img = 80" "card_keyword img = ''HISTORY''"
  shows "\<exists>x y db'. read_cards mem_ok 0 [fits_card cd, img, end_card] db n old = Inr (n + 2, db')
     \<and> kw_inv db' (gl @ [x, y]) (y # (if c_name cd = [] then rc else x # rc))
     \<and> snd (kwdb_GetEntry db' (int y)) = Some (''HISTORY'', line_text (drop 8 img), ''H'', c_comment cd)"
proof -
  have pc: "plain_key (c_name cd)" "plain_value (c_type cd) (c_value cd) (c_comment cd)"
    using card by (simp_all add: plain_card_def)
  obtain x d1 where a: "kw_add mem_ok db (read_back cd) = Inr (int x, d1)"
    "kw_inv d1 (gl @ [x]) (if c_name cd = [] then rc else x # rc)"
    using ks.add_law [OF inv read_back_ok [OF card]] by (auto simp: read_back_def)
  have cst: "storable (Some (c_comment cd))"
    using read_back_ok [OF card] by (simp add: card_ok_def entry_ok_def read_back_def)
  let ?h = "Card ''HISTORY'' (line_text (drop 8 img)) ''H'' (c_comment cd)"
  have ok: "card_ok ?h" using cst text_card_storable [OF h(1)] by (simp add: card_eval)
  obtain y db' where b: "kw_add mem_ok d1 ?h = Inr (int y, db')"
    "kw_inv db' ((gl @ [x]) @ [y]) (y # (if c_name cd = [] then rc else x # rc))" "text_of db' y = card_text ?h"
    using ks.add_finds [OF a(2) ok] by auto
  have hs: "\<not> streq ''HISTORY'' ''END''" "\<not> streq ''HISTORY'' ''COMMENT''" "streq ''HISTORY'' ''HISTORY''"
    by code_simp+
  have p: "parse_card img (Some (c_comment cd)) = (''HISTORY'', line_text (drop 8 img), ''H'', Some (c_comment cd))"
    using hs by (simp add: parse_card_def h(2) Let_def del: streq.simps)
  have ne: "\<not> streq (c_name cd) ''END''" using pc(1) by (simp add: plain_key_def)
  have "read_cards mem_ok 0 [fits_card cd, img, end_card] db n old = Inr (n + 2, db')"
    using parse_format [OF pc] ne a(1) b(1) p h hs end_card_parses
    by (simp add: fits_card_def kw_add_def read_back_def del: streq.simps)
  moreover have "snd (kwdb_GetEntry db' (int y)) = Some (''HISTORY'', line_text (drop 8 img), ''H'', c_comment cd)"
    using GetEntry_run(1) [OF b(2), of y] b(3) by (simp add: fun_eq_iff txt_of_def flip: text_of_simps)
  ultimately show ?thesis using b(2)
    by (intro exI [of _ x] exI [of _ y] exI [of _ db']) (simp del: read_cards.simps)
qed

definition history_card :: string where
  "history_card = ''HISTORY flat fielded'' @ replicate 60 SP"

theorem ReadFITS_stale_comment_witness:
  "\<exists>db y db'. kwdb_Open mem_ok ''det'' = Inr (Some db)
     \<and> read_cards mem_ok 0 [fits_card (Card ''GAIN'' ''1'' ''N'' ''e/ADU''), history_card, end_card] db 0 None = Inr (2, db')
     \<and> snd (kwdb_GetEntry db' y) = Some (''HISTORY'', line_text (drop 8 history_card), ''H'', ''e/ADU'')"
proof -
  obtain db where db: "kwdb_Open mem_ok ''det'' = Inr (Some db)" "kw_inv db [] []" using open_empty by blast
  have c: "plain_card (Card ''GAIN'' ''1'' ''N'' ''e/ADU'')" by code_simp
  have h: "length history_card = 80" "card_keyword history_card = ''HISTORY''" by code_simp+
  from ReadFITS_stale_comment [OF db(2) c h, of 0 None] db(1) show ?thesis by fastforce
qed

lemma no_end_in_block:
  assumes "list_all isprint block" "length block = 2880"
  shows "\<not> list_ex (\<lambda>cp. streq (cs (take 8 cp)) ''END'') (block_cards block)"
proof -
  have "\<not> streq (cs (take 8 (take 80 (drop (80 * i) block)))) ''END''" if "i < 36" for i
  proof -
    let ?t = "take 8 (take 80 (drop (80 * i) block))"
    have "set ?t \<subseteq> set block" by (meson set_drop_subset set_take_subset subset_trans)
    then have "list_all isprint ?t" using assms(1) unfolding list.pred_set by blast
    then have "cs ?t = ?t" by (intro cs_id printable_no_nul)
    moreover have "length ?t = 8" using that assms(2) by simp
    moreover have "streq s t \<Longrightarrow> length s = length t" for s t
      by (simp add: streq_iff) (metis length_map)
    ultimately show ?thesis by force
  qed
  then show ?thesis by (auto simp: block_cards_def list_ex_iff)
qed

text \<open>
  \<open>kwdb_UpdateFITS\<close> never finds the END card of a file whose bytes are printable (a header
  with blank-padded END): the 8 characters it compares include the padding.  It takes the
  whole file for the header, so the capacity it computes is 36 cards per block of the file.
\<close>

theorem UpdateFITS_misses_END:
  assumes "list_all isprint f" "length f \<le> 2880 * n"
  shows "header_cards n f m = (m + 36 * (length f div 2880), [])"
  using assms
proof (induction n arbitrary: f m)
  case (Suc n)
  show ?case
  proof (cases "length f < 2880")
    case False
    have sub: "list_all isprint (take 2880 f)" "list_all isprint (drop 2880 f)"
      using Suc.prems(1) unfolding list.pred_set by (meson in_set_takeD in_set_dropD)+
    have "length f div 2880 = Suc (length (drop 2880 f) div 2880)"
      using False by (simp add: le_div_geq)
    then show ?thesis
      using Suc.IH [OF sub(2), of "m + 36"] Suc.prems(2) no_end_in_block [OF sub(1)] False by simp
  qed simp
qed simp

theorem UpdateFITS_misses_END_witness:
  "header_cards 1 (end_card @ replicate 2800 SP) 0 = (36, [])"
proof -
  have p: "list_all isprint (end_card @ replicate 2800 SP)"
    using list_all_replicate [of isprint SP 2800] list_all_replicate [of isprint SP 77]
    by (simp add: end_card_def) (simp add: isprint_def)
  have l: "length (end_card @ replicate 2800 SP) = 2880" by (simp add: end_card_parses)
  then show ?thesis using UpdateFITS_misses_END [OF p, of 1 0] by simp
qed

end
