(* ===== verification/Sm_Config.thy ===== *)
theory Sm_Config
  imports Dhs_Prelude
begin

text \<open>
  The configuration of the shared memory cache: \<open>lib/smCache/smConfig.c\<close> and the lock file that
  \<open>smUtilInitCache\<close> (\<open>lib/smCache/smUtil.c\<close>) writes for later readers.

  \<^item> \<open>struct sysConfig\<close> is the record \<open>sysConfig\<close>; \<open>keyw\<close> and \<open>val\<close> are 64-byte arrays, so a
    keyword or value of 64 or more characters is the fault \<open>Buffer_Overflow\<close>.
  \<^item> \<open>smParseCfgFile\<close> compares against a variable \<open>len\<close> that it never sets; its value is the
    argument \<open>len\<close> of the model.
  \<^item> \<open>file\<close> arguments are contents; \<open>page\<close> is \<open>getpagesize ()\<close>.  Messages are not modelled.
\<close>

section \<open>Data\<close>

definition SZ_KEYW :: nat where "SZ_KEYW = 64"
definition SZ_LINE :: nat where "SZ_LINE = 1024"
definition MAX_NSEGS :: int where "MAX_NSEGS = 4096"

definition TY_NONE :: int where "TY_NONE = -1"
definition TY_ANY :: int where "TY_ANY = 0"
definition TY_DATA :: int where "TY_DATA = 2"
definition TY_META :: int where "TY_META = 3"

record sysConfig =
  cfg_config :: string
  cfg_path :: string
  cfg_size :: int
  cfg_memKey :: int
  cfg_addr :: int
  cfg_debug :: bool
  cfg_nsegs :: int
  cfg_max_segs :: int
  cfg_min_seg_size :: int
  cfg_lock_cache :: int
  cfg_lock_segs :: int
  cfg_throttle_time :: "32 word"
  cfg_throttle_ntry :: "32 word"
  cfg_interval :: "32 word"
  cfg_verbose :: bool
  sys_page_size :: "32 word"
  sys_avphys_pages :: "32 word"

definition smSetConfigDefaults :: "sysConfig \<Rightarrow> sysConfig" where
  "smSetConfigDefaults cfg = cfg\<lparr>cfg_size := 0, cfg_max_segs := MAX_NSEGS, cfg_nsegs := MAX_NSEGS,
     cfg_min_seg_size := 4096, cfg_lock_cache := 3, cfg_lock_segs := 3, cfg_throttle_time := 1000,
     cfg_throttle_ntry := 60, cfg_interval := 500, cfg_verbose := True\<rparr>"

section \<open>Keyword and value\<close>

definition key_char :: "char \<Rightarrow> bool" where
  "key_char c \<longleftrightarrow> isalnum c \<or> c = CHR ''_''"

definition equal_char :: "char \<Rightarrow> bool" where
  "equal_char c \<longleftrightarrow> c = CHR ''='' \<or> isspace c"

definition comma_char :: "char \<Rightarrow> bool" where
  "comma_char c \<longleftrightarrow> c = CHR '','' \<or> isspace c"

text \<open>\<open>smGetCfgOption\<close>: keyword, value and the rest of the text.\<close>

definition smGetCfgOption :: "string \<Rightarrow> (string \<times> string \<times> string) res" where
  "smGetCfgOption ip =
     (let keyw = takeWhile key_char ip;
          op1 = dropWhile equal_char (dropWhile key_char ip);
          val = takeWhile (\<lambda>c. \<not> comma_char c) op1;
          op2 = dropWhile comma_char (dropWhile (\<lambda>c. \<not> comma_char c) op1)
      in if length keyw \<ge> SZ_KEYW \<or> length val \<ge> SZ_KEYW then Inl Buffer_Overflow
         else Inr (keyw, val, op2))"

text \<open>\<open>strncmp (s, t, n) == 0\<close>\<close>

definition strneq :: "nat \<Rightarrow> string \<Rightarrow> string \<Rightarrow> bool" where
  "strneq n s t \<longleftrightarrow> take n (s @ [NUL]) = take n (t @ [NUL])"

text \<open>\<open>strchr (set, val[0]) != NULL\<close>: the terminator of an empty value is found too.\<close>

definition first_in :: "string \<Rightarrow> string \<Rightarrow> bool" where
  "first_in st val \<longleftrightarrow> val = [] \<or> hd val \<in> set st"

definition bool_int :: "bool \<Rightarrow> int" where
  "bool_int b = (if b then 1 else 0)"

definition smSetCfgOption :: "sysConfig \<Rightarrow> string \<Rightarrow> string \<Rightarrow> sysConfig" where
  "smSetCfgOption cfg keyw val =
     (if strneq 7 keyw ''cache_path'' \<or> strneq 7 keyw ''cache_file''
      then (if length val > 0 then cfg\<lparr>cfg_path := val\<rparr> else cfg)
      else if strneq 7 keyw ''cache_size'' then cfg\<lparr>cfg_size := atoi val\<rparr>
      else if strneq 7 keyw ''cache_memKey'' then cfg\<lparr>cfg_memKey := atoi val\<rparr>
      else if strneq 7 keyw ''cache_addr'' then cfg\<lparr>cfg_addr := atoi val\<rparr>
      else if strneq 4 keyw ''nsegs'' then cfg\<lparr>cfg_nsegs := min MAX_NSEGS (atoi val)\<rparr>
      else if strneq 4 keyw ''debug'' then cfg\<lparr>cfg_debug := first_in (''tTyY1'' @ [CHR 0x0A]) val\<rparr>
      else if strneq 10 keyw ''throttle_time'' then cfg\<lparr>cfg_throttle_time := word_of_int (atoi val)\<rparr>
      else if strneq 10 keyw ''throttle_ntry'' then cfg\<lparr>cfg_throttle_ntry := word_of_int (atoi val)\<rparr>
      else if strneq 9 keyw ''min_seg_size''
        then cfg\<lparr>cfg_min_seg_size := max (sint (sys_page_size cfg)) (atoi val)\<rparr>
      else if strneq 4 keyw ''verbose'' then cfg\<lparr>cfg_verbose := first_in ''tTyY1'' val\<rparr>
      else if strneq 6 keyw ''lock_cache'' then cfg\<lparr>cfg_lock_cache := bool_int (first_in ''tTyY1'' val)\<rparr>
      else if strneq 6 keyw ''lock_segs'' then cfg\<lparr>cfg_lock_segs := bool_int (first_in ''tTyY1'' val)\<rparr>
      else cfg)"

definition set_reader :: "int \<Rightarrow> string \<Rightarrow> int" where
  "set_reader reader val =
     (if val = [] then reader
      else if hd val = CHR ''a'' then TY_ANY else if hd val = CHR ''n'' then TY_NONE
      else if hd val = CHR ''d'' then TY_DATA else if hd val = CHR ''m'' then TY_META else reader)"

definition one_option :: "sysConfig \<times> int \<Rightarrow> string \<Rightarrow> string \<Rightarrow> sysConfig \<times> int" where
  "one_option st keyw val =
     (if strneq 3 keyw ''segments'' then (fst st, set_reader (snd st) val)
      else (smSetCfgOption (fst st) keyw val, snd st))"

section \<open>Parsing a string\<close>

lemma length_dropWhile_less: "xs \<noteq> [] \<Longrightarrow> P (hd xs) \<Longrightarrow> length (dropWhile P xs) < length xs"
  by (cases xs) (auto simp: less_Suc_eq_le length_dropWhile_le)

text \<open>Every round of the parser moves on, so its loops end.\<close>

lemma dropWhile_step: "length (dropWhile P xs) \<le> length xs"
  by (rule length_dropWhile_le)

lemma smGetCfgOption_progress:
  assumes "ip \<noteq> []" "smGetCfgOption ip = Inr (keyw, val, rest)"
  shows "length rest < length ip"
proof -
  define a where "a = dropWhile key_char ip"
  define b where "b = dropWhile equal_char a"
  define c where "c = dropWhile (\<lambda>c. \<not> comma_char c) b"
  have r: "rest = dropWhile comma_char c"
    using assms(2) by (auto simp: smGetCfgOption_def Let_def a_def b_def c_def split: if_splits)
  have le: "length a \<le> length ip" "length b \<le> length a" "length c \<le> length b" "length rest \<le> length c"
    by (simp_all add: a_def b_def c_def r dropWhile_step)
  show ?thesis
  proof (cases "length b < length ip")
    case True
    then show ?thesis using le by simp
  next
    case False
    then have "length b = length ip" using le by simp
    then have ne: "b \<noteq> []" using assms(1) by auto
    show ?thesis
    proof (cases "comma_char (hd b)")
      case True
      then have "c = b" using ne by (cases b) (auto simp: c_def)
      then have "length rest < length c" using True ne r by (simp add: length_dropWhile_less)
      then show ?thesis using le by simp
    next
      case False
      then have "length c < length b" using ne by (simp add: c_def length_dropWhile_less)
      then show ?thesis using le by simp
    qed
  qed
qed

function parse_options :: "sysConfig \<times> int \<Rightarrow> string \<Rightarrow> (sysConfig \<times> int) res" where
  "parse_options st ip =
     (if ip = [] then Inr st
      else case smGetCfgOption ip of Inl f \<Rightarrow> Inl f
      | Inr (keyw, val, rest) \<Rightarrow> parse_options (one_option st keyw val) rest)"
  by pat_completeness auto
termination by (relation "measure (\<lambda>(st, ip). length ip)") (auto dest: smGetCfgOption_progress)

declare parse_options.simps [simp del]

definition smParseCfgString :: "string option \<Rightarrow> sysConfig \<Rightarrow> int \<Rightarrow> (bool \<times> sysConfig \<times> int) res" where
  "smParseCfgString config cfg reader = (case config of None \<Rightarrow> Inr (False, cfg, reader)
     | Some s \<Rightarrow> bind_res (parse_options (cfg, reader) s) (\<lambda>(cfg, reader).
         Inr (True, cfg\<lparr>cfg_config := s\<rparr>, reader)))"

section \<open>Parsing a file\<close>

text \<open>\<open>fgets (line, SZ_LINE, fd)\<close>: up to and including the newline, at most 1023 characters.\<close>

definition fgets :: "string \<Rightarrow> string \<times> string" where
  "fgets s = (let n = length (takeWhile (\<lambda>c. c \<noteq> CHR 0x0A) s);
                  k = min (min (n + 1) (SZ_LINE - 1)) (length s) in (take k s, drop k s))"

lemma fgets_progress: "s \<noteq> [] \<Longrightarrow> length (snd (fgets s)) < length s"
  by (simp add: fgets_def Let_def SZ_LINE_def)

function file_lines :: "string \<Rightarrow> string list" where
  "file_lines s = (if s = [] then [] else fst (fgets s) # file_lines (snd (fgets s)))"
  by pat_completeness auto
termination by (relation "measure length") (auto simp: fgets_progress)

declare file_lines.simps [simp del]

text \<open>
  The options of one line: \<open>pos\<close> is \<open>ip - line\<close>, compared with the unset \<open>len\<close>; the first result
  says whether \<open>E_O_C\<close> was met.
\<close>

function parse_line :: "int \<Rightarrow> sysConfig \<times> int \<Rightarrow> string \<Rightarrow> int \<Rightarrow> (bool \<times> sysConfig \<times> int) res" where
  "parse_line len st ip pos =
     (if ip = [] \<or> pos > len then Inr (False, st)
      else case smGetCfgOption ip of Inl f \<Rightarrow> Inl f
      | Inr (keyw, val, rest) \<Rightarrow>
          if strneq 5 keyw ''E_O_C'' then Inr (True, st)
          else parse_line len (one_option st keyw val) rest (pos + int (length ip - length rest)))"
  by pat_completeness auto
termination by (relation "measure (\<lambda>(len, st, ip, pos). length ip)") (auto dest: smGetCfgOption_progress)

declare parse_line.simps [simp del]

primrec parse_lines :: "int \<Rightarrow> sysConfig \<times> int \<Rightarrow> string list \<Rightarrow> (sysConfig \<times> int) res" where
  "parse_lines len st [] = Inr st"
| "parse_lines len st (l # ls) =
     (if l \<noteq> [] \<and> (hd l = CHR 0x0A \<or> hd l = CHR ''#'') then parse_lines len st ls
      else bind_res (parse_line len st l 0) (\<lambda>(done, st).
             if done then Inr st else parse_lines len st ls))"

definition smParseCfgFile ::
    "(string \<rightharpoonup> string) \<Rightarrow> int \<Rightarrow> string option \<Rightarrow> sysConfig \<Rightarrow> int \<Rightarrow> (bool \<times> sysConfig \<times> int) res" where
  "smParseCfgFile files len config cfg reader =
     (case config of None \<Rightarrow> Inr (False, cfg, reader)
      | Some name \<Rightarrow> (case files name of None \<Rightarrow> Inr (False, cfg, reader)
        | Some content \<Rightarrow> bind_res (parse_lines len (cfg, reader) (file_lines content)) (\<lambda>(cfg, reader).
            Inr (True, cfg\<lparr>cfg_config := name, cfg_path := name\<rparr>, reader))))"

text \<open>
  \<open>smParseConfig\<close>: \<open>uid\<close> is the user id, \<open>page\<close> the system page size in bytes, \<open>avphys\<close> the
  available physical pages, \<open>smc_size\<close> is \<open>sizeof (smCache_t)\<close>, \<open>dbg\<close> the value of \<open>SMC_DEBUG\<close>.
\<close>

definition cache_bytes :: "nat \<Rightarrow> int \<Rightarrow> int" where
  "cache_bytes smc_size pgsz = ((int smc_size + pgsz) div pgsz) * pgsz"

definition smParseConfig ::
    "(string \<rightharpoonup> string) \<Rightarrow> int \<Rightarrow> nat \<Rightarrow> nat \<Rightarrow> 32 word \<Rightarrow> nat \<Rightarrow> bool \<Rightarrow> string option \<Rightarrow> sysConfig
      \<Rightarrow> (bool \<times> sysConfig \<times> int) res" where
  "smParseConfig files len uid page avphys smc_size dbg config cfg =
     (let cfg = smSetConfigDefaults (cfg\<lparr>cfg_path := ''/tmp/.smc'' @ show_nat uid\<rparr>);
          pg = (of_nat (page div 1024) :: 32 word);
          cfg = cfg\<lparr>sys_page_size := pg, sys_avphys_pages := avphys div pg, cfg_debug := dbg\<rparr> in
      bind_res
        (case config of None \<Rightarrow> Inr (True, cfg, TY_ANY)
         | Some name \<Rightarrow>
             if files name \<noteq> None then smParseCfgFile files len (Some name) cfg TY_ANY
             else bind_res (smParseCfgString (Some name) cfg TY_ANY) (\<lambda>(status, cfg, reader).
               if files (cfg_path cfg) \<noteq> None
               then smParseCfgFile files len (Some (cfg_path cfg)) (smSetConfigDefaults cfg) reader
               else Inr (status, cfg, reader)))
        (\<lambda>(status, cfg, reader).
           Inr (status, cfg\<lparr>cfg_size := cache_bytes smc_size (sint (sys_page_size cfg))\<rparr>, reader)))"

section \<open>The lock file\<close>

definition cfg_line :: "string \<Rightarrow> string \<Rightarrow> string" where
  "cfg_line key val = key @ '' = '' @ val @ [CHR 0x0A]"

text \<open>
  What \<open>smUtilInitCache\<close> appends to the lock file: the configuration when the file is new, a
  comment with the process id and the time, and the key of the cache, which is in \<open>cfg\<close> by then.
\<close>

definition lockfile_text :: "bool \<Rightarrow> sysConfig \<Rightarrow> int \<Rightarrow> int \<Rightarrow> string" where
  "lockfile_text new cfg pid time =
     (if new then cfg_line ''cache_path'' (cfg_path cfg) @ cfg_line ''cache_size'' (show_int (cfg_size cfg))
        @ cfg_line ''nsegs'' (show_int (cfg_nsegs cfg)) @ cfg_line ''min_seg_size'' (show_int (cfg_min_seg_size cfg))
        @ cfg_line ''lock_cache'' (show_int (cfg_lock_cache cfg)) @ cfg_line ''lock_segs'' (show_int (cfg_lock_segs cfg))
      else [])
     @ ''# init pid='' @ show_int pid @ '' ('' @ show_int time @ '')'' @ [CHR 0x0A]
     @ cfg_line ''cache_memKey'' (show_int (cfg_memKey cfg))"

text \<open>What \<open>smUtilAttach\<close> appends to the lock file of what it attaches.\<close>

definition attach_text :: "int \<Rightarrow> int \<Rightarrow> int \<Rightarrow> int \<Rightarrow> int \<Rightarrow> string" where
  "attach_text addr pid time shmid sz =
     cfg_line ''cache_addr'' (show_int addr) @ cfg_line ''E_O_C'' ''true''
     @ ''# attach pid='' @ show_int pid @ '' ('' @ show_int time @ '')'' @ [CHR 0x09]
     @ ''shmid='' @ show_int shmid @ ''  size='' @ show_int sz @ [CHR 0x0A]"

end
