(* ===== verification/Sm_Config_Props.thy ===== *)
theory Sm_Config_Props
  imports Sm_Config
begin

text \<open>What the configuration parser makes of a list of options and of a lock file.\<close>

definition plain_option :: "string \<times> string \<Rightarrow> bool" where
  "plain_option kv \<longleftrightarrow> (case kv of (k, v) \<Rightarrow> list_all key_char k \<and> length k < SZ_KEYW
     \<and> v \<noteq> [] \<and> length v < SZ_KEYW \<and> list_all (\<lambda>c. \<not> comma_char c) v \<and> hd v \<noteq> CHR ''='')"

lemma equal_not_key: "equal_char c \<Longrightarrow> \<not> key_char c"
  by (auto simp: equal_char_def key_char_def isspace_def isalnum_def Let_def)

lemma smGetCfgOption_parts:
  assumes kv: "plain_option (k, v)" and e: "e \<noteq> []" "list_all equal_char e"
    and s: "list_all comma_char s" "s \<noteq> []" and r: "rest = [] \<or> \<not> comma_char (hd rest)"
  shows "smGetCfgOption (k @ e @ v @ s @ rest) = Inr (k, v, rest)"
proof -
  have hk: "e @ v @ s @ rest = [] \<or> \<not> key_char (hd (e @ v @ s @ rest))"
    using e equal_not_key by (cases e) auto
  have k: "list_all key_char k" using kv by (simp add: plain_option_def)
  have "\<not> equal_char (hd v)" "v \<noteq> []"
    using kv by (cases v; auto simp: plain_option_def equal_char_def comma_char_def)+
  then have he: "v @ s @ rest = [] \<or> \<not> equal_char (hd (v @ s @ rest))" by simp
  have v: "list_all (\<lambda>c. \<not> comma_char c) v" using kv by (simp add: plain_option_def)
  have hs: "s @ rest = [] \<or> \<not> \<not> comma_char (hd (s @ rest))" using s by (cases s) auto
  show ?thesis
    using kv takeWhile_all_hd [OF k hk] dropWhile_all_hd [OF k hk] dropWhile_all_hd [OF e(2) he]
      takeWhile_all_hd [OF v hs] dropWhile_all_hd [OF v hs] dropWhile_all_hd [OF s(1) r]
    by (simp add: smGetCfgOption_def Let_def plain_option_def)
qed

definition option_text :: "string \<times> string \<Rightarrow> string" where
  "option_text kv = (case kv of (k, v) \<Rightarrow> k @ ''='' @ v @ '', '')"

text \<open>
  a configuration string that lists options \<open>key=value\<close> separated by commas and blanks has
  exactly the effect of setting the options one after the other, left to right; the parser
  always ends.
\<close>

theorem parse_options_in_order:
  assumes "list_all plain_option kvs" "list_all (\<lambda>kv. fst kv \<noteq> []) kvs"
  shows "parse_options st (concat (map option_text kvs)) = Inr (foldl (\<lambda>st kv. one_option st (fst kv) (snd kv)) st kvs)"
  using assms
proof (induction kvs arbitrary: st)
  case Nil
  then show ?case by (simp add: parse_options.simps)
next
  case (Cons kv kvs)
  obtain k v where kv: "kv = (k, v)" by (cases kv)
  let ?rest = "concat (map option_text kvs)"
  have "list_all comma_char '', ''" "list_all equal_char ''=''"
    by (simp_all add: comma_char_def equal_char_def isspace_def)
  moreover have "?rest = [] \<or> \<not> comma_char (hd ?rest)"
  proof (cases kvs)
    case (Cons kv' kvs')
    then show ?thesis using Cons.prems
      by (cases kv'; cases "fst kv'") (auto simp: option_text_def plain_option_def key_char_def comma_char_def
          isalnum_def isspace_def Let_def)
  qed simp
  ultimately have "smGetCfgOption (k @ ''='' @ v @ '', '' @ ?rest) = Inr (k, v, ?rest)"
    using Cons.prems kv by (intro smGetCfgOption_parts) simp_all
  moreover have "option_text kv = k @ ''='' @ v @ '', ''" by (simp add: kv option_text_def)
  moreover have "parse_options (one_option st k v) ?rest
      = Inr (foldl (\<lambda>st kv. one_option st (fst kv) (snd kv)) (one_option st k v) kvs)"
    using Cons.IH [of "one_option st k v"] Cons.prems by simp
  ultimately show ?case by (subst parse_options.simps) (simp add: kv)
qed

theorem parse_options_in_order_witness:
  "\<forall>st. parse_options st ''nsegs=12, verbose=f, '' = Inr (one_option (one_option st ''nsegs'' ''12'') ''verbose'' ''f'')"
proof
  have p: "list_all plain_option [(''nsegs'', ''12''), (''verbose'', ''f'')]"
    "list_all (\<lambda>kv. fst kv \<noteq> []) [(''nsegs'', ''12''), (''verbose'', ''f'')]" by code_simp+
  show "parse_options st ''nsegs=12, verbose=f, '' = Inr (one_option (one_option st ''nsegs'' ''12'') ''verbose'' ''f'')" for st
    using parse_options_in_order [OF p, of st] by (simp add: option_text_def)
qed

section \<open>Lock files\<close>

lemma fgets_line:
  assumes "CHR 0x0A \<notin> set l" "length l < SZ_LINE - 1"
  shows "fgets (l @ CHR 0x0A # rest) = (l @ [CHR 0x0A], rest)"
proof -
  have "takeWhile (\<lambda>c. c \<noteq> CHR 0x0A) (l @ CHR 0x0A # rest) = l"
    using assms(1) by (simp add: takeWhile_tail takeWhile_append2 cong: takeWhile_cong)
      (metis (no_types, lifting) append.right_neutral takeWhile.simps(1) takeWhile_append2)
  then show ?thesis using assms(2) by (simp add: fgets_def Let_def)
qed

lemma file_lines_line:
  assumes "CHR 0x0A \<notin> set l" "length l < SZ_LINE - 1"
  shows "file_lines (l @ CHR 0x0A # rest) = (l @ [CHR 0x0A]) # file_lines rest"
  using fgets_line [OF assms] by (subst file_lines.simps) simp

lemma parse_cfg_line:
  assumes kv: "plain_option (k, v)" "k \<noteq> []" and len: "0 \<le> len"
    and e: "\<not> strneq 5 k ''E_O_C''"
  shows "parse_lines len st (file_lines (cfg_line k v @ rest)) = parse_lines len (one_option st k v) (file_lines rest)"
proof -
  have nl: "CHR 0x0A \<notin> set (k @ '' = '' @ v)"
  proof -
    have "\<not> key_char (CHR 0x0A)" "comma_char (CHR 0x0A)" by code_simp+
    then have "CHR 0x0A \<notin> set k" "CHR 0x0A \<notin> set v"
      using kv(1) unfolding plain_option_def list.pred_set by auto
    then show ?thesis by simp
  qed
  have ln: "length (k @ '' = '' @ v) < SZ_LINE - 1"
    using kv by (simp add: plain_option_def SZ_KEYW_def SZ_LINE_def)
  have f: "file_lines (cfg_line k v @ rest) = (k @ '' = '' @ v @ [CHR 0x0A]) # file_lines rest"
    using file_lines_line [OF nl ln] by (simp add: cfg_line_def)
  have hk: "hd k \<noteq> CHR 0x0A" "hd k \<noteq> CHR ''#''"
  proof -
    have "\<not> key_char (CHR 0x0A)" "\<not> key_char (CHR ''#'')" by code_simp+
    moreover have "key_char (hd k)" using kv by (cases k) (simp_all add: plain_option_def)
    ultimately show "hd k \<noteq> CHR 0x0A" "hd k \<noteq> CHR ''#''" by auto
  qed
  have "smGetCfgOption (k @ '' = '' @ v @ [CHR 0x0A] @ []) = Inr (k, v, [])"
    by (rule smGetCfgOption_parts) (use kv(1) in \<open>simp_all add: equal_char_def comma_char_def isspace_def\<close>)
  then have "parse_line len st (k @ '' = '' @ v @ [CHR 0x0A]) 0 = Inr (False, one_option st k v)"
    using e len by (subst parse_line.simps) (simp add: parse_line.simps)
  then show ?thesis using f hk kv(2) by (cases k) auto
qed

lemma one_option_keys:
  "v \<noteq> [] \<Longrightarrow> one_option (c, r) ''cache_path'' v = (c\<lparr>cfg_path := v\<rparr>, r)"
  "one_option (c, r) ''cache_size'' v = (c\<lparr>cfg_size := atoi v\<rparr>, r)"
  "one_option (c, r) ''nsegs'' v = (c\<lparr>cfg_nsegs := min MAX_NSEGS (atoi v)\<rparr>, r)"
  "one_option (c, r) ''min_seg_size'' v = (c\<lparr>cfg_min_seg_size := max (sint (sys_page_size c)) (atoi v)\<rparr>, r)"
  "one_option (c, r) ''lock_cache'' v = (c\<lparr>cfg_lock_cache := bool_int (first_in ''tTyY1'' v)\<rparr>, r)"
  "one_option (c, r) ''cache_memKey'' v = (c\<lparr>cfg_memKey := atoi v\<rparr>, r)"
  "one_option (c, r) ''cache_addr'' v = (c\<lparr>cfg_addr := atoi v\<rparr>, r)"
  "one_option (c, r) ''lock_segs'' v = (c\<lparr>cfg_lock_segs := bool_int (first_in ''tTyY1'' v)\<rparr>, r)"
  by (simp_all add: one_option_def smSetCfgOption_def strneq_def)

lemma lock_keys:
  "plain_option (k, v) \<longleftrightarrow> v \<noteq> [] \<and> length v < SZ_KEYW \<and> list_all (\<lambda>c. \<not> comma_char c) v \<and> hd v \<noteq> CHR ''=''"
  "k \<noteq> []" "\<not> strneq 5 k ''E_O_C''"
  if "k \<in> {''cache_path'', ''cache_size'', ''nsegs'', ''min_seg_size'', ''lock_cache'', ''lock_segs'', ''cache_memKey'', ''cache_addr''}"
  using that by (auto simp: plain_option_def SZ_KEYW_def key_char_def isalnum_def Let_def strneq_def)

definition plain_value :: "string \<Rightarrow> bool" where
  "plain_value v \<longleftrightarrow> v \<noteq> [] \<and> length v < SZ_KEYW \<and> list_all (\<lambda>c. \<not> comma_char c) v \<and> hd v \<noteq> CHR ''=''"

lemma show_nat_plain: "length (show_nat n) < SZ_KEYW \<Longrightarrow> plain_value (show_nat n)"
proof -
  assume l: "length (show_nat n) < SZ_KEYW"
  have d: "isdigit c \<Longrightarrow> \<not> comma_char c \<and> c \<noteq> CHR ''=''" for c
    using isdigit_classes [of c] by (auto simp: comma_char_def isdigit_def)
  have "isdigit (hd (show_nat n))" using show_nat_digits [of n] by (cases "show_nat n") auto
  then show "plain_value (show_nat n)" using l show_nat_digits [of n] d
    by (simp add: plain_value_def list.pred_set)
qed

lemma show_int_plain:
  assumes "- (2 ^ 31) \<le> n" "n < 2 ^ 31"
  shows "plain_value (show_int n)" "atoi (show_int n) = n" "length (show_int n) \<le> 11" "CHR 0x0A \<notin> set (show_int n)"
proof -
  have l: "length (show_nat (nat \<bar>n\<bar>)) \<le> 10" using assms by (intro length_show_nat) auto
  then have p: "plain_value (show_nat (nat \<bar>n\<bar>))" by (intro show_nat_plain) (simp add: SZ_KEYW_def)
  have "\<not> isdigit (CHR 0x0A)" by code_simp
  then have nl: "CHR 0x0A \<notin> set (show_nat (nat \<bar>n\<bar>))" using show_nat_digits [of "nat \<bar>n\<bar>"] by (auto simp: list.pred_set)
  have m: "\<not> comma_char (CHR ''-'')" "\<not> isspace (CHR ''-'')" by code_simp+
  show "plain_value (show_int n)" "length (show_int n) \<le> 11" "CHR 0x0A \<notin> set (show_int n)"
    using p l nl m(1) by (auto simp: show_int_def plain_value_def SZ_KEYW_def)
  show "atoi (show_int n) = n"
  proof (cases "n < 0")
    case True
    have "digits_value 0 (show_nat (nat (- n))) = nat (- n)" by (rule digits_value_show_nat)
    then show ?thesis using True m(2) by (simp add: show_int_def atoi_def del: digits_value.simps)
  next
    case False
    then show ?thesis using atoi_show_nat [of "nat n"] by (simp add: show_int_def)
  qed
qed

lemma parse_lock_line:
  assumes "k \<in> {''cache_path'', ''cache_size'', ''nsegs'', ''min_seg_size'', ''lock_cache'', ''lock_segs'', ''cache_memKey'', ''cache_addr''}"
    and "plain_value v" "0 \<le> len"
  shows "parse_lines len st (file_lines (cfg_line k v @ rest)) = parse_lines len (one_option st k v) (file_lines rest)"
  using parse_cfg_line [of k v len] lock_keys [OF assms(1)] assms(2,3) by (simp add: plain_value_def)

lemma parse_comment_line:
  assumes "CHR 0x0A \<notin> set l" "length l + 1 < SZ_LINE - 1"
  shows "parse_lines len st (file_lines (CHR ''#'' # l @ CHR 0x0A # rest)) = parse_lines len st (file_lines rest)"
  using file_lines_line [of "CHR ''#'' # l" rest] assms by simp

lemma parse_init_line:
  assumes "- (2 ^ 31) \<le> pid" "pid < 2 ^ 31" "- (2 ^ 31) \<le> t" "t < 2 ^ 31"
  shows "parse_lines len st (file_lines (''# init pid='' @ show_int pid @ '' ('' @ show_int t @ '')'' @ CHR 0x0A # rest))
    = parse_lines len st (file_lines rest)"
  using show_int_plain(3, 4) [OF assms(1, 2)] show_int_plain(3, 4) [OF assms(3, 4)]
    parse_comment_line [of "'' init pid='' @ show_int pid @ '' ('' @ show_int t @ '')''" len st rest]
  by (simp add: SZ_LINE_def)

lemma parse_end_line:
  assumes "0 \<le> len"
  shows "parse_lines len st (file_lines (cfg_line ''E_O_C'' ''true'' @ rest)) = Inr st"
proof -
  have "CHR 0x0A \<notin> set (''E_O_C'' @ '' = '' @ ''true'')" "length (''E_O_C'' @ '' = '' @ ''true'') < SZ_LINE - 1"
    by (simp_all add: SZ_LINE_def)
  from file_lines_line [OF this]
  have f: "file_lines (cfg_line ''E_O_C'' ''true'' @ rest) = (''E_O_C'' @ '' = '' @ ''true'' @ [CHR 0x0A]) # file_lines rest"
    by (simp add: cfg_line_def)
  have "smGetCfgOption (''E_O_C'' @ '' = '' @ ''true'' @ [CHR 0x0A]) = Inr (''E_O_C'', ''true'', [])" by code_simp
  moreover have "strneq 5 ''E_O_C'' ''E_O_C''" by code_simp
  ultimately have "parse_line len st (''E_O_C'' @ '' = '' @ ''true'' @ [CHR 0x0A]) 0 = Inr (True, st)"
    using assms by (subst parse_line.simps) simp
  then show ?thesis using f by simp
qed

lemma parse_lines_negative: "len < 0 \<Longrightarrow> parse_lines len st ls = Inr st"
  by (induction ls arbitrary: st) (auto simp: parse_line.simps)

text \<open>
  C33: \<open>smParseCfgFile\<close> on the lock file of a cache that was set up (\<open>smUtilInitCache\<close>) and
  attached (\<open>smUtilAttach\<close>), whatever later processes have appended.  When the variable \<open>len\<close>,
  which is never set, holds a value that is not negative, the later process gets back the path, the
  size, the number of segments, the minimal segment size and the key of the cache and the address of
  the first process, but the lock flags, written as the number 3 (the default), are read with the
  test for yes/true/1 and come back as 0; what is not in the lock file stays as it was.  When \<open>len\<close>
  is negative nothing but the path comes back.
\<close>

theorem lockfile_roundtrip:
  assumes path: "plain_value (cfg_path cfg)"
    and sz: "0 \<le> cfg_size cfg" "cfg_size cfg < 2 ^ 31"
    and n: "0 \<le> cfg_nsegs cfg" "cfg_nsegs cfg \<le> MAX_NSEGS"
    and m: "sint (sys_page_size c0) \<le> cfg_min_seg_size cfg" "0 \<le> cfg_min_seg_size cfg" "cfg_min_seg_size cfg < 2 ^ 31"
    and lock: "cfg_lock_cache cfg = 3" "cfg_lock_segs cfg = 3"
    and key: "- (2 ^ 31) \<le> cfg_memKey cfg" "cfg_memKey cfg < 2 ^ 31" and addr: "0 \<le> addr" "addr < 2 ^ 31"
    and pid: "0 \<le> pid" "pid < 2 ^ 31" and t: "0 \<le> time" "time < 2 ^ 31"
    and stored: "files (cfg_path cfg) = Some (lockfile_text True cfg pid time @ attach_text addr pid' time' shmid sz' @ rest)"
  shows "smParseCfgFile files len (Some (cfg_path cfg)) c0 r
    = Inr (True, (if len < 0 then c0
        else c0\<lparr>cfg_size := cfg_size cfg, cfg_nsegs := cfg_nsegs cfg, cfg_min_seg_size := cfg_min_seg_size cfg,
          cfg_memKey := cfg_memKey cfg, cfg_addr := addr, cfg_lock_cache := 0, cfg_lock_segs := 0\<rparr>)
        \<lparr>cfg_config := cfg_path cfg, cfg_path := cfg_path cfg\<rparr>, r)"
proof (cases "len < 0")
  case True
  then show ?thesis using parse_lines_negative [OF True] stored by (simp add: smParseCfgFile_def)
next
  case False
  then have len: "0 \<le> len" by simp
  have b: "- (2 ^ 31) \<le> cfg_size cfg" "- (2 ^ 31) \<le> cfg_nsegs cfg" "cfg_nsegs cfg < 2 ^ 31" "- (2 ^ 31) \<le> cfg_min_seg_size cfg"
    "- (2 ^ 31) \<le> addr" "- (2 ^ 31) \<le> pid" "- (2 ^ 31) \<le> time"
    using sz(1) n m(2) addr(1) pid(1) t(1) by (simp_all add: MAX_NSEGS_def)
  note v = show_int_plain(1) [OF b(1) sz(2)] show_int_plain(1) [OF b(2, 3)] show_int_plain(1) [OF b(4) m(3)]
    show_int_plain(1) [OF key] show_int_plain(1) [OF b(5) addr(2)]
  note a = show_int_plain(2) [OF b(1) sz(2)] show_int_plain(2) [OF b(2, 3)] show_int_plain(2) [OF b(4) m(3)]
    show_int_plain(2) [OF key] show_int_plain(2) [OF b(5) addr(2)]
  have l3: "plain_value (show_int 3)" "first_in ''tTyY1'' (show_int 3) = False"
    by (rule show_int_plain; simp) code_simp
  have pe: "cfg_path cfg \<noteq> []" using path by (simp add: plain_value_def)
  define h tail where "h = ''# init pid='' @ show_int pid @ '' ('' @ show_int time @ '')'' @ [CHR 0x0A]"
    and "tail = ''# attach pid='' @ show_int pid' @ '' ('' @ show_int time' @ '')'' @ [CHR 0x09]
     @ ''shmid='' @ show_int shmid @ ''  size='' @ show_int sz' @ [CHR 0x0A] @ rest"
  then have whole: "lockfile_text True cfg pid time @ attach_text addr pid' time' shmid sz' @ rest
    = cfg_line ''cache_path'' (cfg_path cfg) @ cfg_line ''cache_size'' (show_int (cfg_size cfg))
      @ cfg_line ''nsegs'' (show_int (cfg_nsegs cfg)) @ cfg_line ''min_seg_size'' (show_int (cfg_min_seg_size cfg))
      @ cfg_line ''lock_cache'' (show_int (cfg_lock_cache cfg)) @ cfg_line ''lock_segs'' (show_int (cfg_lock_segs cfg))
      @ h @ cfg_line ''cache_memKey'' (show_int (cfg_memKey cfg)) @ cfg_line ''cache_addr'' (show_int addr)
      @ cfg_line ''E_O_C'' ''true'' @ tail"
    by (simp add: lockfile_text_def attach_text_def)
  have h: "parse_lines len st (file_lines (h @ ls)) = parse_lines len st (file_lines ls)" for st ls
    using parse_init_line [OF b(6) pid(2) b(7) t(2), of len st ls] by (simp add: h_def)
  have "parse_lines len (c0, r) (file_lines (lockfile_text True cfg pid time @ attach_text addr pid' time' shmid sz' @ rest))
    = Inr (c0\<lparr>cfg_path := cfg_path cfg, cfg_size := cfg_size cfg, cfg_nsegs := cfg_nsegs cfg, cfg_min_seg_size := cfg_min_seg_size cfg,
          cfg_lock_cache := 0, cfg_lock_segs := 0, cfg_memKey := cfg_memKey cfg, cfg_addr := addr\<rparr>, r)"
    unfolding whole using path v a l3 len lock pe n(2) m(1)
    by (simp add: parse_lock_line h parse_end_line one_option_keys bool_int_def)
  then show ?thesis using stored False by (simp add: smParseCfgFile_def)
qed

theorem lockfile_roundtrip_witness:
  "\<exists>files cfg c0 c1. smParseCfgFile files 100 (Some ''/tmp/.smc42'') c0 0 = Inr (True, c1, 0)
     \<and> files ''/tmp/.smc42'' = Some (lockfile_text True cfg 77 1000 @ attach_text 4096 77 1000 5 8192)
     \<and> cfg_nsegs c0 = 0 \<and> cfg_nsegs c1 = 32 \<and> cfg_memKey c1 = -9 \<and> cfg_lock_segs c1 = 0"
proof -
  define c0 :: sysConfig where "c0 = \<lparr>cfg_config = [], cfg_path = [], cfg_size = 0, cfg_memKey = 0, cfg_addr = 0,
     cfg_debug = False, cfg_nsegs = 0, cfg_max_segs = 0, cfg_min_seg_size = 0, cfg_lock_cache = 0,
     cfg_lock_segs = 0, cfg_throttle_time = 0, cfg_throttle_ntry = 0, cfg_interval = 0, cfg_verbose = False,
     sys_page_size = 4, sys_avphys_pages = 0\<rparr>"
  define cfg where "cfg = c0\<lparr>cfg_path := ''/tmp/.smc42'', cfg_size := 8192, cfg_nsegs := 32,
     cfg_min_seg_size := 4096, cfg_lock_cache := 3, cfg_lock_segs := 3, cfg_memKey := -9\<rparr>"
  have p: "plain_value ''/tmp/.smc42''" by code_simp
  have s: "sint (sys_page_size c0) \<le> cfg_min_seg_size cfg" by (simp add: c0_def cfg_def)
  have f: "cfg_path cfg = ''/tmp/.smc42''" "cfg_size cfg = 8192" "cfg_nsegs cfg = 32"
    "cfg_min_seg_size cfg = 4096" "cfg_lock_cache cfg = 3" "cfg_lock_segs cfg = 3" "cfg_memKey cfg = -9"
    by (simp_all add: cfg_def)
  let ?files = "[''/tmp/.smc42'' \<mapsto> lockfile_text True cfg 77 1000 @ attach_text 4096 77 1000 5 8192]"
  have "?files (cfg_path cfg) = Some (lockfile_text True cfg 77 1000 @ attach_text 4096 77 1000 5 8192 @ [])" by (simp add: f)
  note r = lockfile_roundtrip [of cfg c0 4096 77 1000 ?files 77 1000 5 8192 "[]" 100 0, OF _ _ _ _ _ s _ _ _ _ _ _ _ _ _ _ _ _ this]
  show ?thesis
    by (intro exI [of _ ?files] exI [of _ cfg] exI [of _ c0] exI, intro conjI, rule r [unfolded f(1)])
      (use p in \<open>simp_all add: f MAX_NSEGS_def c0_def\<close>)
qed

text \<open>
  the loop over a line of a configuration file compares with a variable that is never
  set: when it happens to hold a negative value no option of the file is taken, and the parser
  reports success.
\<close>

theorem smParseCfgFile_unset_len:
  assumes "len < 0" "files name = Some content"
  shows "smParseCfgFile files len (Some name) cfg reader = Inr (True, cfg\<lparr>cfg_config := name, cfg_path := name\<rparr>, reader)"
  using assms parse_lines_negative [OF assms(1)] by (simp add: smParseCfgFile_def)

theorem smParseCfgFile_unset_len_witness:
  "\<forall>cfg. smParseCfgFile [''c'' \<mapsto> ''nsegs=1''] (-7) (Some ''c'') cfg 0
     = Inr (True, cfg\<lparr>cfg_config := ''c'', cfg_path := ''c''\<rparr>, 0)"
  using smParseCfgFile_unset_len [of "-7" "[''c'' \<mapsto> ''nsegs=1'']" "''c''" "''nsegs=1''" _ 0] by simp

end
