(* ===== verification/Sm_State.thy ===== *)
theory Sm_State
  imports Dhs_Prelude
begin

text \<open>
  The process-state table of the shared memory cache: \<open>lib/smCache/smState.c\<close>.

  Every page of the cache, and the cache itself, carries an array of \<open>MAX_PROCS\<close> entries
  \<open>smState_t\<close>, one per process that uses it; an entry with pid 0 is unused.  The model is
  a list of \<open>MAX_PROCS\<close> records.  A pointer is its address (a \<open>nat\<close>, 0 is NULL); the
  \<open>double\<close> times are rationals, which represents every finite value exactly.  Parameters
  that stand for the operating system: \<open>me\<close>, what \<open>smPid ()\<close> caches from \<open>getpid\<close>, and
  \<open>alive\<close>, whether \<open>/proc/<pid>\<close> is readable (the \<open>LINUX\<close> branch of \<open>smStateClean\<close>,
  which the Makefile selects).

  The loops of the source that stop at the first unused entry test \<open>sa[i].pid\<close> before
  \<open>i < MAX_PROCS\<close>, so on a full table they read one entry past the array; whatever is
  read there, the loop ends with \<open>i = MAX_PROCS\<close>, which is what the model returns.
\<close>

section \<open>The table\<close>

definition MAX_PROCS :: nat where
  "MAX_PROCS = 8"

record s_info =
  si_smc :: nat
  si_pid :: nat
  si_atime :: rat
  si_ltime :: rat
  si_utime :: rat
  si_attached :: int
  si_reader :: int
  si_addr :: nat

type_synonym smState_t = "s_info list"

definition zero_info :: s_info where
  "zero_info = \<lparr>si_smc = 0, si_pid = 0, si_atime = 0, si_ltime = 0, si_utime = 0,
     si_attached = 0, si_reader = 0, si_addr = 0\<rparr>"

definition smStateInit :: "smState_t \<Rightarrow> smState_t" where
  "smStateInit sa = map (\<lambda>s. s\<lparr>si_pid := 0, si_atime := 0, si_addr := 0\<rparr>) sa"

text \<open>\<open>for (i=0; sa[i].pid && i < MAX_PROCS; i++)\<close> with the pid test of the body.\<close>

primrec scan_pid :: "smState_t \<Rightarrow> nat \<Rightarrow> bool" where
  "scan_pid [] pid = False"
| "scan_pid (s # ss) pid =
     (if si_pid s = 0 then False else if si_pid s = pid then True else scan_pid ss pid)"

primrec scan_free :: "smState_t \<Rightarrow> nat \<Rightarrow> nat" where
  "scan_free [] i = i"
| "scan_free (s # ss) i = (if si_pid s = 0 then i else scan_free ss (Suc i))"

primrec lookup_from :: "smState_t \<Rightarrow> nat \<Rightarrow> nat \<Rightarrow> nat option" where
  "lookup_from [] pid i = None"
| "lookup_from (s # ss) pid i = (if si_pid s = pid then Some i else lookup_from ss pid (Suc i))"

definition smStateLookupByPid :: "smState_t \<Rightarrow> nat \<Rightarrow> nat option" where
  "smStateLookupByPid sa pid = lookup_from sa pid 0"

primrec smStateClean :: "(nat \<Rightarrow> bool) \<Rightarrow> smState_t \<Rightarrow> smState_t" where
  "smStateClean alive [] = []"
| "smStateClean alive (s # ss) =
     (if si_pid s = 0 then s # ss
      else (if alive (si_pid s) then s else zero_info) # smStateClean alive ss)"

definition smStateDefined :: "nat \<Rightarrow> smState_t \<Rightarrow> bool" where
  "smStateDefined me sa = scan_pid sa me"

text \<open>The status is \<open>True\<close> for \<open>OK\<close> and \<open>False\<close> for \<open>ERR\<close>.\<close>

definition smStateAdd ::
    "(nat \<Rightarrow> bool) \<Rightarrow> nat \<Rightarrow> smState_t \<Rightarrow> rat \<Rightarrow> nat \<Rightarrow> int \<Rightarrow> bool \<times> smState_t" where
  "smStateAdd alive me sa0 atime addr attached =
     (let sa = smStateClean alive sa0 in
      if scan_pid sa me then (True, sa)
      else let slot = scan_free sa 0 in
        if slot < MAX_PROCS
        then (True, sa[slot := (sa ! slot)\<lparr>si_pid := me,
               si_atime := (if attached \<noteq> 0 then atime else 0),
               si_ltime := atime, si_utime := 0, si_addr := addr, si_attached := attached\<rparr>])
        else (False, sa))"

definition smStateRemove ::
    "(nat \<Rightarrow> bool) \<Rightarrow> nat \<Rightarrow> smState_t \<Rightarrow> nat \<Rightarrow> bool \<times> smState_t" where
  "smStateRemove alive me sa0 rmpid =
     (let pid = (if rmpid \<noteq> 0 then rmpid else me) in
      case smStateLookupByPid sa0 pid of
        None \<Rightarrow> (False, sa0)
      | Some index \<Rightarrow>
          let sa = smStateClean alive sa0;
              sa = sa[index := zero_info]
          in (True, fold (\<lambda>i a. a[i := a ! Suc i]) [index..<MAX_PROCS - 1] sa))"

section \<open>Field access for the calling process\<close>

definition smStateSetATime :: "nat \<Rightarrow> smState_t \<Rightarrow> rat \<Rightarrow> smState_t" where
  "smStateSetATime me sa t = (case smStateLookupByPid sa me of
     Some i \<Rightarrow> sa[i := (sa ! i)\<lparr>si_atime := t\<rparr>] | None \<Rightarrow> sa)"

definition smStateGetATime :: "nat \<Rightarrow> smState_t \<Rightarrow> rat" where
  "smStateGetATime me sa = (case smStateLookupByPid sa me of
     Some i \<Rightarrow> si_atime (sa ! i) | None \<Rightarrow> 0)"

definition smStateSetLTime :: "nat \<Rightarrow> smState_t \<Rightarrow> rat \<Rightarrow> smState_t" where
  "smStateSetLTime me sa t = (case smStateLookupByPid sa me of
     Some i \<Rightarrow> sa[i := (sa ! i)\<lparr>si_ltime := t\<rparr>] | None \<Rightarrow> sa)"

definition smStateGetLTime :: "nat \<Rightarrow> smState_t \<Rightarrow> rat" where
  "smStateGetLTime me sa = (case smStateLookupByPid sa me of
     Some i \<Rightarrow> si_ltime (sa ! i) | None \<Rightarrow> 0)"

definition smStateSetUTime :: "nat \<Rightarrow> smState_t \<Rightarrow> rat \<Rightarrow> smState_t" where
  "smStateSetUTime me sa t = (case smStateLookupByPid sa me of
     Some i \<Rightarrow> sa[i := (sa ! i)\<lparr>si_utime := t\<rparr>] | None \<Rightarrow> sa)"

definition smStateGetUTime :: "nat \<Rightarrow> smState_t \<Rightarrow> rat" where
  "smStateGetUTime me sa = (case smStateLookupByPid sa me of
     Some i \<Rightarrow> si_utime (sa ! i) | None \<Rightarrow> 0)"

definition smStateSetReader :: "nat \<Rightarrow> smState_t \<Rightarrow> int \<Rightarrow> smState_t" where
  "smStateSetReader me sa r = (case smStateLookupByPid sa me of
     Some i \<Rightarrow> sa[i := (sa ! i)\<lparr>si_reader := r\<rparr>] | None \<Rightarrow> sa)"

definition smStateGetReader :: "nat \<Rightarrow> smState_t \<Rightarrow> int" where
  "smStateGetReader me sa = (case smStateLookupByPid sa me of
     Some i \<Rightarrow> si_reader (sa ! i) | None \<Rightarrow> -1)"

definition smStateSetAddr :: "nat \<Rightarrow> smState_t \<Rightarrow> nat \<Rightarrow> smState_t" where
  "smStateSetAddr me sa a = (case smStateLookupByPid sa me of
     Some i \<Rightarrow> sa[i := (sa ! i)\<lparr>si_addr := a\<rparr>] | None \<Rightarrow> sa)"

definition smStateGetAddr :: "nat \<Rightarrow> smState_t \<Rightarrow> nat" where
  "smStateGetAddr me sa = (case smStateLookupByPid sa me of
     Some i \<Rightarrow> si_addr (sa ! i) | None \<Rightarrow> 0)"

definition smStateSetSMC :: "nat \<Rightarrow> smState_t \<Rightarrow> nat \<Rightarrow> smState_t" where
  "smStateSetSMC me sa a = (case smStateLookupByPid sa me of
     Some i \<Rightarrow> sa[i := (sa ! i)\<lparr>si_smc := a\<rparr>] | None \<Rightarrow> sa)"

definition smStateGetSMC :: "nat \<Rightarrow> smState_t \<Rightarrow> nat" where
  "smStateGetSMC me sa = (case smStateLookupByPid sa me of
     Some i \<Rightarrow> si_smc (sa ! i) | None \<Rightarrow> 0)"

definition smStateSetAttached :: "nat \<Rightarrow> smState_t \<Rightarrow> int \<Rightarrow> smState_t" where
  "smStateSetAttached me sa v = (case smStateLookupByPid sa me of
     Some i \<Rightarrow> sa[i := (sa ! i)\<lparr>si_attached := v\<rparr>] | None \<Rightarrow> sa)"

definition smStateGetAttached :: "nat \<Rightarrow> smState_t \<Rightarrow> int" where
  "smStateGetAttached me sa = (case smStateLookupByPid sa me of
     Some i \<Rightarrow> si_attached (sa ! i) | None \<Rightarrow> 0)"

lemmas state_access_defs =
  smStateSetATime_def smStateGetATime_def smStateSetLTime_def smStateGetLTime_def
  smStateSetUTime_def smStateGetUTime_def smStateSetReader_def smStateGetReader_def
  smStateSetAddr_def smStateGetAddr_def smStateSetSMC_def smStateGetSMC_def
  smStateSetAttached_def smStateGetAttached_def

section \<open>The table as a map from pids\<close>

text \<open>
  The contract: a table is a finite map from pids to entries.  \<open>state_ok\<close> is the shape in
  which the array represents one: \<open>MAX_PROCS\<close> entries, the used ones first, each of a
  different process, all alive.
\<close>

definition used :: "smState_t \<Rightarrow> smState_t" where
  "used sa = takeWhile (\<lambda>s. si_pid s \<noteq> 0) sa"

definition view :: "smState_t \<Rightarrow> nat \<Rightarrow> s_info option" where
  "view sa pid = (if pid = 0 then None else map_of (map (\<lambda>s. (si_pid s, s)) sa) pid)"

definition pids_ok :: "(nat \<Rightarrow> bool) \<Rightarrow> nat list \<Rightarrow> bool" where
  "pids_ok alive ps \<longleftrightarrow> length ps = MAX_PROCS \<and> distinct (takeWhile (\<lambda>p. p \<noteq> 0) ps)
     \<and> (\<forall>p \<in> set (takeWhile (\<lambda>p. p \<noteq> 0) ps). alive p)
     \<and> (\<forall>p \<in> set (dropWhile (\<lambda>p. p \<noteq> 0) ps). p = 0)"

definition state_ok :: "(nat \<Rightarrow> bool) \<Rightarrow> smState_t \<Rightarrow> bool" where
  "state_ok alive sa \<longleftrightarrow> pids_ok alive (map si_pid sa)"

definition full :: "smState_t \<Rightarrow> bool" where
  "full sa \<longleftrightarrow> length (used sa) = MAX_PROCS"

lemma used_Cons [simp]:
  "used [] = []"
  "used (s # ss) = (if si_pid s = 0 then [] else s # used ss)"
  by (simp_all add: used_def)

lemma length_used_le: "length (used sa) \<le> length sa"
  by (simp add: used_def length_takeWhile_le)

lemma map_pid_used: "map si_pid (used sa) = takeWhile (\<lambda>p. p \<noteq> 0) (map si_pid sa)"
  by (induction sa) auto

lemma map_pid_rest: "map si_pid (drop (length (used sa)) sa) = dropWhile (\<lambda>p. p \<noteq> 0) (map si_pid sa)"
  by (induction sa) auto

lemma state_ok_iff:
  "state_ok alive sa \<longleftrightarrow> length sa = MAX_PROCS \<and> distinct (map si_pid (used sa))
     \<and> (\<forall>s \<in> set (used sa). alive (si_pid s))
     \<and> (\<forall>s \<in> set (drop (length (used sa)) sa). si_pid s = 0)"
  unfolding state_ok_def pids_ok_def map_pid_used [symmetric] map_pid_rest [symmetric] by simp

lemma used_split: "used sa @ drop (length (used sa)) sa = sa"
  by (induction sa) auto

lemma used_pid: "s \<in> set (used sa) \<Longrightarrow> si_pid s \<noteq> 0"
  by (auto simp: used_def dest: set_takeWhileD)

lemma used_append:
  "\<forall>s \<in> set us. si_pid s \<noteq> 0 \<Longrightarrow> \<forall>s \<in> set zs. si_pid s = 0 \<Longrightarrow> used (us @ zs) = us"
  by (induction us) (auto simp: used_def takeWhile_eq_Nil_iff, cases zs, auto)

lemma scan_pid_iff: "pid \<noteq> 0 \<Longrightarrow> scan_pid sa pid \<longleftrightarrow> pid \<in> si_pid ` set (used sa)"
  by (induction sa) auto

lemma scan_free_eq: "scan_free sa i = i + length (used sa)"
  by (induction sa arbitrary: i) auto

lemma lookup_from_ge: "lookup_from sa pid i = Some j \<Longrightarrow> i \<le> j"
  by (induction sa arbitrary: i) (force split: if_splits)+

lemma lookup_from_Some:
  "lookup_from sa pid i = Some j \<Longrightarrow>
     j - i < length sa \<and> si_pid (sa ! (j - i)) = pid \<and> (\<forall>k < j - i. si_pid (sa ! k) \<noteq> pid)"
proof (induction sa arbitrary: i)
  case Nil
  then show ?case by simp
next
  case (Cons s ss)
  show ?case
  proof (cases "si_pid s = pid")
    case True
    then show ?thesis using Cons.prems by simp
  next
    case False
    then have l: "lookup_from ss pid (Suc i) = Some j" using Cons.prems by simp
    then have "Suc i \<le> j" by (rule lookup_from_ge)
    then have j: "j - i = Suc (j - Suc i)" by simp
    show ?thesis using Cons.IH [OF l] False unfolding j by (auto simp: less_Suc_eq_0_disj)
  qed
qed

lemma lookup_from_None: "lookup_from sa pid i = None \<longleftrightarrow> pid \<notin> si_pid ` set sa"
  by (induction sa arbitrary: i) auto

lemma smStateClean_alive:
  "\<forall>s \<in> set (used sa). alive (si_pid s) \<Longrightarrow> smStateClean alive sa = sa"
  by (induction sa) auto

lemma length_smStateClean [simp]: "length (smStateClean alive sa) = length sa"
  by (induction sa) auto

lemma view_lookup:
  assumes "pid \<noteq> 0"
  shows "view sa pid = (case smStateLookupByPid sa pid of Some i \<Rightarrow> Some (sa ! i) | None \<Rightarrow> None)"
proof -
  have "map_of (map (\<lambda>s. (si_pid s, s)) sa) pid
      = (case lookup_from sa pid i of Some j \<Rightarrow> Some (sa ! (j - i)) | None \<Rightarrow> None)" for i
  proof (induction sa arbitrary: i)
    case Nil
    then show ?case by simp
  next
    case (Cons s ss)
    show ?case
    proof (cases "si_pid s = pid")
      case False
      then show ?thesis
        using Cons.IH [of "Suc i"]
        by (auto split: option.splits dest!: lookup_from_ge simp: Suc_diff_le Suc_le_eq nth_Cons')
    qed simp
  qed
  from this [of 0] show ?thesis using assms
    by (simp add: view_def smStateLookupByPid_def split: option.splits)
qed

text \<open>Every setter is an update of the map at the caller's pid, every getter a read of it.\<close>

lemma view_upd:
  assumes "me \<noteq> 0" "smStateLookupByPid sa me = Some i" "si_pid (f (sa ! i)) = si_pid (sa ! i)"
  shows "view (sa[i := f (sa ! i)]) = (view sa)(me := map_option f (view sa me))"
proof -
  have "map_of (map (\<lambda>s. (si_pid s, s)) (sa[j - k := f (sa ! (j - k))]))
      = (map_of (map (\<lambda>s. (si_pid s, s)) sa))
          (me := map_option f (map_of (map (\<lambda>s. (si_pid s, s)) sa) me))"
    if "lookup_from sa me k = Some j" "si_pid (f (sa ! (j - k))) = me" for j k
    using that
  proof (induction sa arbitrary: k)
    case Nil
    then show ?case by simp
  next
    case (Cons s ss)
    show ?case
    proof (cases "si_pid s = me")
      case True
      then show ?thesis using Cons.prems by auto
    next
      case False
      then have l: "lookup_from ss me (Suc k) = Some j" using Cons.prems by simp
      then have "Suc k \<le> j" by (rule lookup_from_ge)
      then have j: "j - k = Suc (j - Suc k)" by simp
      have "si_pid (f (ss ! (j - Suc k))) = me" using Cons.prems(2) unfolding j by simp
      from Cons.IH [OF l this] show ?thesis using False unfolding j by (auto simp: fun_upd_twist)
    qed
  qed
  from this [of 0 i] show ?thesis
    using assms lookup_from_Some [of sa me 0 i]
    by (auto simp: view_def smStateLookupByPid_def fun_eq_iff)
qed

lemma view_pid: "view sa pid = Some s \<Longrightarrow> si_pid s = pid"
  by (auto simp: view_def split: if_splits dest!: map_of_SomeD)

lemma state_ok_upd:
  assumes "state_ok alive sa" "si_pid (f (sa ! i)) = si_pid (sa ! i)" "i < length sa"
  shows "state_ok alive (sa[i := f (sa ! i)])"
proof -
  have "map si_pid (sa[i := f (sa ! i)]) = map si_pid sa"
    using assms(2,3) by (metis list_update_id map_update)
  then show ?thesis using assms(1) by (simp add: state_ok_def)
qed

lemma view_set:
  assumes "me \<noteq> 0" "\<And>s. si_pid (f s) = si_pid s"
  shows "view (case smStateLookupByPid sa me of Some i \<Rightarrow> sa[i := f (sa ! i)] | None \<Rightarrow> sa)
    = (view sa)(me := map_option f (view sa me))"
proof (cases "smStateLookupByPid sa me")
  case None
  then show ?thesis using view_lookup [OF assms(1), of sa] by (auto simp: fun_eq_iff)
next
  case (Some i)
  then show ?thesis using view_upd [OF assms(1) Some, of f] assms(2) by simp
qed

lemma state_set_view:
  assumes "me \<noteq> 0"
  shows "view (smStateSetATime me sa t) = (view sa)(me := map_option (si_atime_update (\<lambda>_. t)) (view sa me))"
    and "view (smStateSetLTime me sa t) = (view sa)(me := map_option (si_ltime_update (\<lambda>_. t)) (view sa me))"
    and "view (smStateSetUTime me sa t) = (view sa)(me := map_option (si_utime_update (\<lambda>_. t)) (view sa me))"
    and "view (smStateSetReader me sa r) = (view sa)(me := map_option (si_reader_update (\<lambda>_. r)) (view sa me))"
    and "view (smStateSetAddr me sa a) = (view sa)(me := map_option (si_addr_update (\<lambda>_. a)) (view sa me))"
    and "view (smStateSetSMC me sa a) = (view sa)(me := map_option (si_smc_update (\<lambda>_. a)) (view sa me))"
    and "view (smStateSetAttached me sa v) = (view sa)(me := map_option (si_attached_update (\<lambda>_. v)) (view sa me))"
  unfolding state_access_defs by (rule view_set [OF assms], simp)+

lemma state_get_view:
  assumes "me \<noteq> 0"
  shows "smStateGetATime me sa = (case view sa me of Some s \<Rightarrow> si_atime s | None \<Rightarrow> 0)"
    and "smStateGetLTime me sa = (case view sa me of Some s \<Rightarrow> si_ltime s | None \<Rightarrow> 0)"
    and "smStateGetUTime me sa = (case view sa me of Some s \<Rightarrow> si_utime s | None \<Rightarrow> 0)"
    and "smStateGetReader me sa = (case view sa me of Some s \<Rightarrow> si_reader s | None \<Rightarrow> -1)"
    and "smStateGetAddr me sa = (case view sa me of Some s \<Rightarrow> si_addr s | None \<Rightarrow> 0)"
    and "smStateGetSMC me sa = (case view sa me of Some s \<Rightarrow> si_smc s | None \<Rightarrow> 0)"
    and "smStateGetAttached me sa = (case view sa me of Some s \<Rightarrow> si_attached s | None \<Rightarrow> 0)"
  using view_lookup [OF assms, of sa]
  by (auto simp: state_access_defs split: option.splits)

lemma state_set_ok:
  assumes "state_ok alive sa"
  shows "state_ok alive (smStateSetATime me sa t)" "state_ok alive (smStateSetLTime me sa t)"
    "state_ok alive (smStateSetUTime me sa t)" "state_ok alive (smStateSetReader me sa r)"
    "state_ok alive (smStateSetAddr me sa a)" "state_ok alive (smStateSetSMC me sa a)"
    "state_ok alive (smStateSetAttached me sa v)"
  using assms
  by (auto simp: state_access_defs smStateLookupByPid_def split: option.splits
        dest!: lookup_from_Some intro!: state_ok_upd)

section \<open>Adding and removing a process\<close>

lemma state_ok_used: "state_ok alive sa \<Longrightarrow> pid \<noteq> 0 \<Longrightarrow> pid \<in> si_pid ` set sa \<longleftrightarrow> pid \<in> si_pid ` set (used sa)"
  unfolding state_ok_iff by (subst used_split [symmetric]) (auto simp del: used_split)

lemma state_ok_defined:
  assumes "state_ok alive sa" "me \<noteq> 0"
  shows "smStateDefined me sa \<longleftrightarrow> view sa me \<noteq> None"
  using assms state_ok_used [OF assms] view_lookup [of me sa] lookup_from_None [of sa me 0]
  by (auto simp: smStateDefined_def scan_pid_iff smStateLookupByPid_def split: option.splits)

lemma view_append_zero:
  "\<forall>s \<in> set zs. si_pid s = 0 \<Longrightarrow> view (us @ zs) = view us"
proof
  fix pid assume z: "\<forall>s \<in> set zs. si_pid s = 0"
  have "map_of (map (\<lambda>s. (si_pid s, s)) zs) pid = None" if "pid \<noteq> 0"
    using z that by (auto simp: map_of_eq_None_iff)
  then show "view (us @ zs) pid = view us pid"
    by (auto simp: view_def map_add_def split: option.splits)
qed

lemma view_none: "pid \<notin> si_pid ` set us \<Longrightarrow> view us pid = None"
  by (auto simp: view_def map_of_eq_None_iff)

lemma view_append: "view (us @ vs) pid = (case view us pid of None \<Rightarrow> view vs pid | Some s \<Rightarrow> Some s)"
  by (auto simp: view_def map_add_def split: option.splits)

lemma view_snoc:
  assumes "si_pid n \<notin> si_pid ` set us" "si_pid n \<noteq> 0"
  shows "view (us @ [n]) = (view us)(si_pid n \<mapsto> n)"
proof
  fix pid
  have "view [n] pid = (if pid = si_pid n then Some n else None)"
    using assms(2) by (auto simp: view_def)
  then show "view (us @ [n]) pid = ((view us)(si_pid n \<mapsto> n)) pid"
    using view_none [OF assms(1)] by (auto simp: view_append split: option.splits)
qed

lemma view_delete:
  assumes "si_pid s \<notin> si_pid ` set as" "si_pid s \<notin> si_pid ` set bs"
  shows "view (as @ bs) = (view (as @ s # bs))(si_pid s := None)"
proof
  fix pid
  have "view (s # bs) pid = (if pid = si_pid s \<and> pid \<noteq> 0 then Some s else view bs pid)"
    by (auto simp: view_def)
  then show "view (as @ bs) pid = ((view (as @ s # bs))(si_pid s := None)) pid"
    using view_none [OF assms(1)] view_none [OF assms(2)]
    by (auto simp: view_append split: option.splits)
qed

lemma state_ok_cases:
  assumes "state_ok alive sa"
  obtains us zs where "sa = us @ zs" "used sa = us" "length us + length zs = MAX_PROCS"
    "\<forall>s \<in> set us. si_pid s \<noteq> 0 \<and> alive (si_pid s)" "distinct (map si_pid us)"
    "\<forall>s \<in> set zs. si_pid s = 0" "view sa = view us"
proof
  let ?zs = "drop (length (used sa)) sa"
  show "sa = used sa @ ?zs" by (simp add: used_split)
  show "used sa = used sa" ..
  have "length (used sa @ ?zs) = MAX_PROCS" using assms by (simp only: used_split state_ok_iff)
  then show "length (used sa) + length ?zs = MAX_PROCS" by (simp only: length_append)
  show "\<forall>s \<in> set (used sa). si_pid s \<noteq> 0 \<and> alive (si_pid s)" "distinct (map si_pid (used sa))"
    "\<forall>s \<in> set ?zs. si_pid s = 0"
    using assms used_pid [of _ sa] unfolding state_ok_iff by auto
  then show "view sa = view (used sa)" by (metis used_split view_append_zero)
qed

lemma state_ok_parts:
  assumes "\<forall>s \<in> set us. si_pid s \<noteq> 0 \<and> alive (si_pid s)" "distinct (map si_pid us)"
    "\<forall>s \<in> set zs. si_pid s = 0" "length us + length zs = MAX_PROCS"
  shows "state_ok alive (us @ zs)" "used (us @ zs) = us"
proof -
  show u: "used (us @ zs) = us" using assms by (intro used_append) auto
  show "state_ok alive (us @ zs)" unfolding state_ok_iff u using assms by auto
qed

lemma state_ok_clean: "state_ok alive sa \<Longrightarrow> smStateClean alive sa = sa"
  by (rule smStateClean_alive) (simp add: state_ok_iff)

lemma smStateAdd_present:
  assumes "state_ok alive sa" "me \<noteq> 0" "view sa me \<noteq> None"
  shows "smStateAdd alive me sa t a att = (True, sa)"
  using assms state_ok_defined [OF assms(1,2)]
  by (simp add: smStateAdd_def state_ok_clean smStateDefined_def)

lemma smStateAdd_full:
  assumes "state_ok alive sa" "me \<noteq> 0" "view sa me = None" "full sa"
  shows "smStateAdd alive me sa t a att = (False, sa)"
  using assms state_ok_defined [OF assms(1,2)]
  by (simp add: smStateAdd_def state_ok_clean smStateDefined_def scan_free_eq full_def)

definition new_info :: "nat \<Rightarrow> rat \<Rightarrow> nat \<Rightarrow> int \<Rightarrow> s_info \<Rightarrow> s_info" where
  "new_info me atime addr attached s =
     s\<lparr>si_pid := me, si_atime := (if attached \<noteq> 0 then atime else 0),
       si_ltime := atime, si_utime := 0, si_addr := addr, si_attached := attached\<rparr>"

lemma smStateAdd_new:
  assumes ok: "state_ok alive sa" and me: "me \<noteq> 0" "alive me"
    and v: "view sa me = None" and room: "\<not> full sa"
  shows "\<exists>s sa'. smStateAdd alive me sa t a att = (True, sa') \<and> state_ok alive sa'
    \<and> s \<in> set sa \<and> view sa' = (view sa)(me \<mapsto> new_info me t a att s)"
proof -
  from ok obtain us zs where d: "sa = us @ zs" "used sa = us" "length us + length zs = MAX_PROCS"
    "\<forall>s \<in> set us. si_pid s \<noteq> 0 \<and> alive (si_pid s)" "distinct (map si_pid us)"
    "\<forall>s \<in> set zs. si_pid s = 0" "view sa = view us" by (rule state_ok_cases)
  from room d have "length us < MAX_PROCS" "zs \<noteq> []"
    by (auto simp: full_def)
  then obtain z zs' where z: "zs = z # zs'" by (cases zs) auto
  let ?n = "new_info me t a att z"
  have fresh: "me \<notin> si_pid ` set us"
    using v me d(7) by (auto simp: view_def map_of_eq_None_iff image_image)
  have add: "smStateAdd alive me sa t a att = (True, (us @ [?n]) @ zs')"
    using state_ok_defined [OF ok me(1)] v ok d \<open>length us < MAX_PROCS\<close> z
    by (simp add: smStateAdd_def state_ok_clean smStateDefined_def scan_free_eq new_info_def)
  have "state_ok alive ((us @ [?n]) @ zs')"
    using d z me fresh by (intro state_ok_parts) (auto simp: new_info_def)
  moreover have "view ((us @ [?n]) @ zs') = (view sa)(me \<mapsto> ?n)"
  proof -
    have "view ((us @ [?n]) @ zs') = view (us @ [?n])"
      using d z by (intro view_append_zero) auto
    also have "\<dots> = (view us)(si_pid ?n \<mapsto> ?n)"
      using me fresh by (intro view_snoc) (simp_all add: new_info_def)
    also have "\<dots> = (view us)(me \<mapsto> ?n)" by (simp add: new_info_def)
    finally show ?thesis using d by simp
  qed
  ultimately show ?thesis using add d z by auto
qed

lemma view_split:
  assumes "view us pid = Some s"
  obtains as bs where "us = as @ s # bs" "pid \<notin> si_pid ` set as" "si_pid s = pid" "pid \<noteq> 0"
proof -
  have p: "pid \<noteq> 0" "map_of (map (\<lambda>s. (si_pid s, s)) us) pid = Some s"
    using assms by (auto simp: view_def split: if_splits)
  from p(2) have "\<exists>as bs. us = as @ s # bs \<and> pid \<notin> si_pid ` set as \<and> si_pid s = pid"
  proof (induction us)
    case Nil
    then show ?case by simp
  next
    case (Cons u us)
    show ?case
    proof (cases "si_pid u = pid")
      case True
      then show ?thesis using Cons.prems by (intro exI [of _ "[]"] exI [of _ us]) auto
    next
      case False
      then obtain as bs where "us = as @ s # bs" "pid \<notin> si_pid ` set as" "si_pid s = pid"
        using Cons by auto
      then show ?thesis using False by (intro exI [of _ "u # as"] exI [of _ bs]) auto
    qed
  qed
  then show thesis using that p(1) by blast
qed

lemma lookup_append:
  "pid \<notin> si_pid ` set as \<Longrightarrow> si_pid s = pid \<Longrightarrow>
     smStateLookupByPid (as @ s # bs) pid = Some (length as)"
proof -
  assume a: "pid \<notin> si_pid ` set as" "si_pid s = pid"
  have "lookup_from (as @ s # bs) pid i = Some (i + length as)" for i
    using a by (induction as arbitrary: i) auto
  then show ?thesis by (simp add: smStateLookupByPid_def)
qed

text \<open>What \<open>smStateRemove\<close> computes: the entries after the removed one move down by one,
  and the last entry of the array keeps its old contents.\<close>

lemma smStateRemove_eq:
  assumes "state_ok alive sa" "rmpid \<noteq> 0" "sa = as @ s # bs"
    "rmpid \<notin> si_pid ` set as" "si_pid s = rmpid"
  shows "smStateRemove alive me sa rmpid = (True, as @ bs @ [last (zero_info # bs)])"
proof -
  have len: "length sa = MAX_PROCS" using assms(1) by (simp add: state_ok_iff)
  let ?z = "as @ zero_info # bs"
  have "length ?z = MAX_PROCS" using len assms(3) by simp
  moreover have "fold (\<lambda>i a. a[i := a ! Suc i]) [length as..<length ?z - 1] ?z
      = take (length as) ?z @ drop (Suc (length as)) ?z @ [last ?z]"
    by (rule fold_shift_down) simp
  ultimately have "fold (\<lambda>i a. a[i := a ! Suc i]) [length as..<MAX_PROCS - 1] ?z
      = as @ bs @ [last (zero_info # bs)]"
    by simp
  then show ?thesis
    using assms lookup_append [OF assms(4,5), of bs]
    by (simp add: smStateRemove_def state_ok_clean Let_def)
qed

lemma smStateRemove_absent:
  assumes "pid = (if rmpid \<noteq> 0 then rmpid else me)" "pid \<noteq> 0" "view sa pid = None"
  shows "smStateRemove alive me sa rmpid = (False, sa)"
proof -
  have "smStateLookupByPid sa pid = None"
    using assms(3) view_lookup [OF assms(2), of sa] by (auto split: option.splits)
  then show ?thesis unfolding smStateRemove_def assms(1) [symmetric] by simp
qed

lemma smStateRemove_present:
  assumes ok: "state_ok alive sa" and r: "rmpid \<noteq> 0" and v: "view sa rmpid \<noteq> None"
    and room: "\<not> full sa"
  shows "\<exists>sa'. smStateRemove alive me sa rmpid = (True, sa') \<and> state_ok alive sa'
    \<and> view sa' = (view sa)(rmpid := None)"
proof -
  from ok obtain us zs where d: "sa = us @ zs" "used sa = us" "length us + length zs = MAX_PROCS"
    "\<forall>s \<in> set us. si_pid s \<noteq> 0 \<and> alive (si_pid s)" "distinct (map si_pid us)"
    "\<forall>s \<in> set zs. si_pid s = 0" "view sa = view us" by (rule state_ok_cases)
  from v d obtain s where "view us rmpid = Some s" by auto
  then obtain as bs where u: "us = as @ s # bs" "rmpid \<notin> si_pid ` set as" "si_pid s = rmpid"
    by (rule view_split)
  have z: "zs \<noteq> []" using room d by (auto simp: full_def)
  then have l: "last (zero_info # bs @ zs) = last zs" "last zs \<in> set zs" by auto
  let ?sa = "(as @ bs) @ (zs @ [last zs])"
  have rem: "smStateRemove alive me sa rmpid = (True, ?sa)"
    using smStateRemove_eq [OF ok r, of as s "bs @ zs" me] d u l by simp
  have "state_ok alive ?sa"
    using d u l by (intro state_ok_parts) auto
  moreover have "view ?sa = (view sa)(rmpid := None)"
  proof -
    have "view ?sa = view (as @ bs)" using d l by (intro view_append_zero) auto
    moreover have "rmpid \<notin> si_pid ` set bs" using d(5) u by (auto simp: rev_image_eqI)
    ultimately show ?thesis using u d(7) view_delete [of s as bs] by simp
  qed
  ultimately show ?thesis using rem by blast
qed

section \<open>The interface the page code relies on\<close>

text \<open>
  \<open>smCache.c\<close> uses a table only through these operations.  The laws are those of a finite
  map of bounded size; \<open>inv\<close> is the representation invariant.
\<close>

locale proc_table =
  fixes inv :: "'t \<Rightarrow> bool"
    and alive_p :: "nat \<Rightarrow> bool"
    and look :: "'t \<Rightarrow> nat \<Rightarrow> s_info option"
    and at_capacity :: "'t \<Rightarrow> bool"
    and defined_p :: "nat \<Rightarrow> 't \<Rightarrow> bool"
    and add :: "nat \<Rightarrow> 't \<Rightarrow> rat \<Rightarrow> nat \<Rightarrow> int \<Rightarrow> bool \<times> 't"
    and set_addr :: "nat \<Rightarrow> 't \<Rightarrow> nat \<Rightarrow> 't"
    and set_smc :: "nat \<Rightarrow> 't \<Rightarrow> nat \<Rightarrow> 't"
    and set_attached :: "nat \<Rightarrow> 't \<Rightarrow> int \<Rightarrow> 't"
  assumes defined_look: "inv t \<Longrightarrow> me \<noteq> 0 \<Longrightarrow> defined_p me t \<longleftrightarrow> look t me \<noteq> None"
    and add_present: "inv t \<Longrightarrow> me \<noteq> 0 \<Longrightarrow> look t me \<noteq> None \<Longrightarrow> add me t now a att = (True, t)"
    and add_full: "inv t \<Longrightarrow> me \<noteq> 0 \<Longrightarrow> look t me = None \<Longrightarrow> at_capacity t \<Longrightarrow>
      add me t now a att = (False, t)"
    and add_new: "inv t \<Longrightarrow> me \<noteq> 0 \<Longrightarrow> alive_p me \<Longrightarrow> look t me = None \<Longrightarrow> \<not> at_capacity t \<Longrightarrow>
      \<exists>s t'. add me t now a att = (True, t') \<and> inv t' \<and> look t' = (look t)(me \<mapsto> new_info me now a att s)"
    and set_addr_look: "me \<noteq> 0 \<Longrightarrow>
      look (set_addr me t a) = (look t)(me := map_option (si_addr_update (\<lambda>_. a)) (look t me))"
    and set_smc_look: "me \<noteq> 0 \<Longrightarrow>
      look (set_smc me t a) = (look t)(me := map_option (si_smc_update (\<lambda>_. a)) (look t me))"
    and set_attached_look: "me \<noteq> 0 \<Longrightarrow>
      look (set_attached me t v) = (look t)(me := map_option (si_attached_update (\<lambda>_. v)) (look t me))"
    and set_inv: "inv t \<Longrightarrow> inv (set_addr me t a)" "inv t \<Longrightarrow> inv (set_smc me t b)"
      "inv t \<Longrightarrow> inv (set_attached me t v)"
begin

text \<open>The sequence of calls by which \<open>smcAttach\<close> registers the caller with a page.\<close>

definition register :: "nat \<Rightarrow> 't \<Rightarrow> rat \<Rightarrow> nat \<Rightarrow> nat \<Rightarrow> 't" where
  "register me t now a smc =
     (let t = (if defined_p me t then t else snd (add me t now a 1));
          t = set_addr me t a; t = set_smc me t smc
      in set_attached me t 1)"

lemma register_look:
  assumes "inv t" "me \<noteq> 0" "alive_p me" "look t me \<noteq> None \<or> \<not> at_capacity t"
  shows "inv (register me t now a smc)"
    and "\<exists>s. look (register me t now a smc) me = Some s
          \<and> si_addr s = a \<and> si_smc s = smc \<and> si_attached s = 1"
    and "\<forall>p. p \<noteq> me \<longrightarrow> look (register me t now a smc) p = look t p"
proof -
  have base: "\<exists>s t'. (if defined_p me t then t else snd (add me t now a 1)) = t' \<and> inv t'
      \<and> look t' me = Some s \<and> (\<forall>p. p \<noteq> me \<longrightarrow> look t' p = look t p)"
  proof (cases "look t me")
    case None
    then obtain s t' where "add me t now a 1 = (True, t')" "inv t'"
      "look t' = (look t)(me \<mapsto> new_info me now a 1 s)"
      using add_new assms by metis
    then show ?thesis using None defined_look [OF assms(1,2)] by auto
  next
    case (Some s)
    then show ?thesis using defined_look [OF assms(1,2)] assms(1) by auto
  qed
  then obtain s t' where t': "(if defined_p me t then t else snd (add me t now a 1)) = t'"
    "inv t'" "look t' me = Some s" "\<forall>p. p \<noteq> me \<longrightarrow> look t' p = look t p" by blast
  show "inv (register me t now a smc)" using t' by (simp add: register_def set_inv)
  show "\<exists>s. look (register me t now a smc) me = Some s
          \<and> si_addr s = a \<and> si_smc s = smc \<and> si_attached s = 1"
    using t' assms(2) by (simp add: register_def set_addr_look set_smc_look set_attached_look)
  show "\<forall>p. p \<noteq> me \<longrightarrow> look (register me t now a smc) p = look t p"
    using t' assms(2) by (simp add: register_def set_addr_look set_smc_look set_attached_look)
qed

lemma register_full:
  assumes "inv t" "me \<noteq> 0" "look t me = None" "at_capacity t"
  shows "look (register me t now a smc) = look t"
  using assms defined_look [OF assms(1,2)] add_full [OF assms]
  by (simp add: register_def set_addr_look set_smc_look set_attached_look fun_eq_iff)

end

interpretation pt: proc_table "state_ok alive" alive view full smStateDefined
    "smStateAdd alive" smStateSetAddr smStateSetSMC smStateSetAttached for alive
proof (unfold_locales, goal_cases)
  case 1 then show ?case by (rule state_ok_defined)
next
  case 2 then show ?case by (rule smStateAdd_present)
next
  case 3 then show ?case by (rule smStateAdd_full)
next
  case 4 then show ?case using smStateAdd_new by metis
next
  case 5 then show ?case by (rule state_set_view)
next
  case 6 then show ?case by (rule state_set_view)
next
  case 7 then show ?case by (rule state_set_view)
qed (rule state_set_ok, assumption)+

section \<open>Properties\<close>

text \<open>
  C25: \<open>smStateAdd\<close> on a well-formed table of live processes keeps it well formed, succeeds
  exactly when the caller is already there or a slot is free, changes nothing when the
  caller is there or the table is full, and otherwise adds one entry for the caller, with
  the attach time only if \<open>attached\<close> is set, and leaves every other process's entry alone.
\<close>

theorem smStateAdd_registers:
  assumes "state_ok alive sa" "me \<noteq> 0" "alive me"
  shows "state_ok alive (snd (smStateAdd alive me sa t a att))
    \<and> (fst (smStateAdd alive me sa t a att) \<longleftrightarrow> view sa me \<noteq> None \<or> \<not> full sa)
    \<and> (if view sa me \<noteq> None \<or> full sa
       then snd (smStateAdd alive me sa t a att) = sa
       else \<exists>s \<in> set sa. view (snd (smStateAdd alive me sa t a att))
              = (view sa)(me \<mapsto> new_info me t a att s))"
proof (cases "view sa me")
  case None
  show ?thesis
  proof (cases "full sa")
    case True
    then show ?thesis using None assms smStateAdd_full by auto
  next
    case False
    then show ?thesis using None smStateAdd_new [OF assms None False, of t a att] by auto
  qed
next
  case (Some s)
  then show ?thesis using assms smStateAdd_present by auto
qed

theorem smStateAdd_registers_witness:
  "fst (smStateAdd (\<lambda>_. True) 7 (replicate 8 zero_info) 1 100 1)
   \<and> state_ok (\<lambda>_. True) (snd (smStateAdd (\<lambda>_. True) 7 (replicate 8 zero_info) 1 100 1))"
proof -
  have "state_ok (\<lambda>_. True) (replicate 8 zero_info)" "\<not> full (replicate 8 zero_info)"
    by code_simp+
  then show ?thesis
    using smStateAdd_registers [of "\<lambda>_. True" "replicate 8 zero_info" 7 1 100 1] by simp
qed

text \<open>
  \<open>smStateRemove\<close> of a registered process from a table that is not full succeeds, keeps
  the table well formed and removes exactly that process from the map.
\<close>

theorem smStateRemove_unregisters:
  assumes "state_ok alive sa" "rmpid \<noteq> 0" "view sa rmpid \<noteq> None" "\<not> full sa"
  shows "fst (smStateRemove alive me sa rmpid)
    \<and> state_ok alive (snd (smStateRemove alive me sa rmpid))
    \<and> view (snd (smStateRemove alive me sa rmpid)) = (view sa)(rmpid := None)"
  using smStateRemove_present [OF assms, of me] by auto

definition two_procs :: smState_t where
  "two_procs = zero_info\<lparr>si_pid := 3, si_addr := 300\<rparr> # zero_info\<lparr>si_pid := 4, si_addr := 400\<rparr>
     # replicate 6 zero_info"

theorem smStateRemove_unregisters_witness:
  "fst (smStateRemove (\<lambda>_. True) 9 two_procs 3)
   \<and> view (snd (smStateRemove (\<lambda>_. True) 9 two_procs 3)) = (view two_procs)(3 := None)
   \<and> map_option si_addr (view two_procs 4) = Some 400"
proof -
  have "state_ok (\<lambda>_. True) two_procs" "view two_procs 3 \<noteq> None" "\<not> full two_procs"
    "map_option si_addr (view two_procs 4) = Some 400"
    by code_simp+
  then show ?thesis using smStateRemove_unregisters [of "\<lambda>_. True" two_procs 3 9] by simp
qed

text \<open>
  removing any but the last process from a full table leaves the last process in it
  twice: the source moves the entries down but never clears the last slot.  The table is
  then not well formed.
\<close>

theorem smStateRemove_full_duplicates:
  assumes "state_ok alive sa" "full sa" "rmpid \<noteq> 0" "view sa rmpid \<noteq> None"
    "si_pid (last sa) \<noteq> rmpid"
  shows "\<exists>bs. snd (smStateRemove alive me sa rmpid) = bs @ [last sa, last sa]
    \<and> length bs = MAX_PROCS - 2
    \<and> \<not> state_ok alive (snd (smStateRemove alive me sa rmpid))"
proof -
  from assms(1) obtain us zs where d: "sa = us @ zs" "used sa = us"
    "length us + length zs = MAX_PROCS"
    "\<forall>s \<in> set us. si_pid s \<noteq> 0 \<and> alive (si_pid s)" "distinct (map si_pid us)"
    "\<forall>s \<in> set zs. si_pid s = 0" "view sa = view us" by (rule state_ok_cases)
  then have z: "zs = []" using assms(2) by (simp add: full_def)
  from assms(4) d obtain s where "view us rmpid = Some s" by auto
  then obtain as cs where u: "us = as @ s # cs" "rmpid \<notin> si_pid ` set as" "si_pid s = rmpid"
    by (rule view_split)
  with assms(5) d z have c: "cs \<noteq> []" by auto
  then obtain bs l where l: "cs = bs @ [l]" by (metis rev_exhaust)
  have sa: "sa = as @ s # cs" using d z u by simp
  have rem: "snd (smStateRemove alive me sa rmpid) = (as @ bs) @ [last sa, last sa]"
    using smStateRemove_eq [OF assms(1,3) sa u(2,3), of me] l sa by simp
  have used: "used ((as @ bs) @ [l, l]) = (as @ bs) @ [l, l]"
    using d(4) u l used_append [of "(as @ bs) @ [l, l]" "[]"] by simp
  have "\<not> state_ok alive ((as @ bs) @ [l, l])"
    unfolding state_ok_iff used by auto
  moreover have "length (as @ bs) = MAX_PROCS - 2" using d z u l by simp
  ultimately show ?thesis using rem l sa by auto
qed

theorem smStateRemove_full_duplicates_witness:
  "\<not> state_ok (\<lambda>_. True) (snd (smStateRemove (\<lambda>_. True) 1
     (map (\<lambda>p. zero_info\<lparr>si_pid := p\<rparr>) [1, 2, 3, 4, 5, 6, 7, 8]) 2))"
proof -
  let ?t = "map (\<lambda>p. zero_info\<lparr>si_pid := p\<rparr>) [1, 2, 3, 4, 5, 6, 7, 8]"
  have "state_ok (\<lambda>_. True) ?t" "full ?t" "view ?t 2 \<noteq> None" "si_pid (last ?t) \<noteq> 2"
    by code_simp+
  then show ?thesis using smStateRemove_full_duplicates [of "\<lambda>_. True" ?t 2 1] by fastforce
qed

text \<open>
  when an earlier process has died, \<open>smStateAdd\<close> can register the caller a second time:
  \<open>smStateClean\<close> clears the dead entry in place, the search for the caller then stops at
  that hole, and the hole is taken as the free slot.  The older entry stays behind it, and
  a later lookup by pid finds the new one only.
\<close>

theorem smStateAdd_duplicates_after_death:
  "let sa = [zero_info\<lparr>si_pid := 3\<rparr>, zero_info\<lparr>si_pid := 4, si_utime := 5\<rparr>]
              @ replicate 6 zero_info;
       sa' = snd (smStateAdd (\<lambda>p. p = 4) 4 sa 9 400 1)
   in state_ok (\<lambda>_. True) sa \<and> smStateDefined 4 sa
      \<and> map si_pid sa' = [4, 4, 0, 0, 0, 0, 0, 0]
      \<and> smStateGetUTime 4 sa = 5 \<and> smStateGetUTime 4 sa' = 0"
  by code_simp

text \<open>
  registering with a page, as \<open>smcAttach\<close> does (add if not defined, then set the
  address, the cache pointer and the attached flag), makes exactly these three values
  readable by the caller, and changes no other process's entry.
\<close>

theorem register_visible:
  assumes "state_ok alive sa" "me \<noteq> 0" "alive me" "view sa me \<noteq> None \<or> \<not> full sa"
  shows "let sa1 = (if smStateDefined me sa then sa else snd (smStateAdd alive me sa t a 1));
             sa4 = smStateSetAttached me (smStateSetSMC me (smStateSetAddr me sa1 a) smc) 1
         in state_ok alive sa4 \<and> smStateGetAddr me sa4 = a \<and> smStateGetSMC me sa4 = smc
            \<and> smStateGetAttached me sa4 = 1 \<and> (\<forall>p. p \<noteq> me \<longrightarrow> view sa4 p = view sa p)"
proof -
  note r = pt.register_look [OF assms, of t a smc]
  from r(2) obtain s where s: "view (pt.register alive me sa t a smc) me = Some s"
    "si_addr s = a" "si_smc s = smc" "si_attached s = 1" by blast
  show ?thesis
    using r(1,3) s assms(2)
    unfolding pt.register_def Let_def by (simp add: state_get_view)
qed

theorem register_visible_witness:
  "let sa1 = (if smStateDefined 9 two_procs then two_procs
              else snd (smStateAdd (\<lambda>_. True) 9 two_procs 1 500 1));
       sa4 = smStateSetAttached 9 (smStateSetSMC 9 (smStateSetAddr 9 sa1 500) 77) 1
   in smStateGetAddr 9 sa4 = 500 \<and> smStateGetSMC 9 sa4 = 77 \<and> view sa4 3 = view two_procs 3"
proof -
  have "state_ok (\<lambda>_. True) two_procs" "\<not> full two_procs" by code_simp+
  then show ?thesis
    using register_visible [of "\<lambda>_. True" two_procs 9 1 500 77] by (simp add: Let_def)
qed

end
