(* ===== verification/Sm_Cache.thy ===== *)
theory Sm_Cache
  imports Sm_State Sm_Config
begin

text \<open>
  The shared memory cache: \<open>lib/smCache/smCache.c\<close> with the shared-memory helpers of
  \<open>lib/smCache/smUtil.c\<close> that it calls.

  \<^item> \<open>struct smCache\<close> (one shared object) is the record \<open>smCache\<close>, its array \<open>pdata\<close> of
    \<open>struct smcPage\<close> a list of \<open>smcPage\<close> records; a page pointer is its index.  The header
    \<open>struct smcSegment\<close> at the start of a page's segment is the record \<open>segment\<close>.
  \<^item> The System V shared memory that the code drives is the record \<open>kernel\<close>: segments by
    key with their size and attach count, the mappings of the calling process (address to key),
    the lock files that exist, and how many anonymous segments \<open>shmget\<close> made for key 0
    (\<open>IPC_PRIVATE\<close>).
  \<^item> \<open>env\<close> holds what the code asks of its environment: the caller's pid and user id, live processes, the
    time, page size, \<open>sizeof (smcSegment_t)\<close>, \<open>ftok\<close>, whether a lock file can be opened.
  \<^item> \<open>XLONG\<close> is a 32-bit unsigned word; the memory counters wrap.  Other \<open>int\<close> counters are
    \<open>int\<close> (they stay far below the limits).
\<close>

section \<open>Data\<close>

definition MAX_SEGS :: nat where "MAX_SEGS = 4096"
definition MAX_SEG_SIZE :: int where "MAX_SEG_SIZE = 67104768"
definition SZ_FNAME :: nat where "SZ_FNAME = 64"
definition MAX_ID_PAGES :: nat where "MAX_ID_PAGES = 128"

record fpConfig =
  xSize :: "32 word" ySize :: "32 word" xStart :: "32 word" yStart :: "32 word"
  fp_dataType :: "32 word" xDir :: "32 word" yDir :: "32 word" xDetSz :: "32 word"
  yDetSz :: "32 word" xDetCnt :: "32 word" yDetCnt :: "32 word"

record mdConfig =
  metaType :: "32 word" numFields :: "32 word"
  fieldSize :: "32 word list" md_dataType :: "32 word list"

record segment =
  seg_pagenum :: nat
  seg_memKey :: int
  seg_shmid :: int
  seg_size :: "32 word"
  seg_type :: int
  seg_ctime :: rat
  who :: "32 word"
  seg_expID :: rat
  obsetID :: string
  seg_dirpath :: string
  seg_froot :: string
  seg_seqno :: int
  seg_colID :: string
  expPageNum :: int
  mdCfg :: mdConfig
  fpCfg :: fpConfig
  dsize :: "32 word"

record smcPage =
  memKey :: int
  lockFile :: string
  pg_size :: "32 word"
  free_flag :: bool
  pg_type :: int
  pg_ctime :: rat
  cpid :: nat
  nattached :: int
  refcount :: int
  nreaders :: int
  initialized :: bool
  expID :: rat
  colID :: string
  ac_locked :: bool
  pstate :: smState_t

record smCache =
  c_memKey :: int
  c_shmid :: int
  cache_addr :: nat
  cache_size :: "32 word"
  c_nattached :: int
  c_vm_locked :: bool
  c_ctime :: rat
  dirpath :: string
  froot :: string
  seqno :: int
  np_max :: int
  np_hiwater :: nat
  mem_allocated :: "32 word"
  mem_avail :: "32 word"
  cache_path :: string
  throttle_ntry :: nat
  c_pstate :: smState_t
  npages :: int
  top :: nat
  pdata :: "smcPage list"

record env =
  me :: nat
  uid :: nat
  alive :: "nat \<Rightarrow> bool"
  now :: rat
  pgsize :: nat
  sizeof_seg :: nat
  ftok :: "string \<Rightarrow> int"
  lock_ok :: "string \<Rightarrow> bool"
  calloc_ok :: bool
  is_root :: bool
  mlock_ok :: bool
  smc_ptr :: nat
  bogus :: "nat \<Rightarrow> nat"

record shm_seg =
  sg_id :: int
  sg_size :: nat
  sg_nattch :: int
  sg_hdr :: segment

record kernel =
  segs :: "int \<Rightarrow> shm_seg option"
  maps :: "nat \<Rightarrow> int option"
  next_addr :: nat
  next_id :: int
  lockfiles :: "string \<Rightarrow> bool"
  privates :: nat

definition zero_state :: smState_t where
  "zero_state = replicate MAX_PROCS zero_info"

definition zero_page :: smcPage where
  "zero_page = \<lparr>memKey = 0, lockFile = [], pg_size = 0, free_flag = False, pg_type = 0, pg_ctime = 0,
     cpid = 0, nattached = 0, refcount = 0, nreaders = 0, initialized = False, expID = 0,
     colID = [], ac_locked = False, pstate = zero_state\<rparr>"

definition zero_segment :: segment where
  "zero_segment = \<lparr>seg_pagenum = 0, seg_memKey = 0, seg_shmid = 0, seg_size = 0, seg_type = 0,
     seg_ctime = 0, who = 0, seg_expID = 0, obsetID = [], seg_dirpath = [], seg_froot = [],
     seg_seqno = 0, seg_colID = [], expPageNum = 0,
     mdCfg = \<lparr>metaType = 0, numFields = 0, fieldSize = [], md_dataType = []\<rparr>,
     fpCfg = \<lparr>xSize = 0, ySize = 0, xStart = 0, yStart = 0, fp_dataType = 0, xDir = 0, yDir = 0,
       xDetSz = 0, yDetSz = 0, xDetCnt = 0, yDetCnt = 0\<rparr>, dsize = 0\<rparr>"

definition SEG_ADDR :: "env \<Rightarrow> smcPage \<Rightarrow> nat" where
  "SEG_ADDR e p = smStateGetAddr (me e) (pstate p)"

definition SEG_ATTACHED :: "env \<Rightarrow> smcPage \<Rightarrow> int" where
  "SEG_ATTACHED e p = smStateGetAttached (me e) (pstate p)"

definition SEG_UTIME :: "env \<Rightarrow> smcPage \<Rightarrow> rat" where
  "SEG_UTIME e p = smStateGetUTime (me e) (pstate p)"

definition SEG_LTIME :: "env \<Rightarrow> smcPage \<Rightarrow> rat" where
  "SEG_LTIME e p = smStateGetLTime (me e) (pstate p)"

definition set_page :: "smCache \<Rightarrow> nat \<Rightarrow> smcPage \<Rightarrow> smCache" where
  "set_page c i p = c\<lparr>pdata := (pdata c)[i := p]\<rparr>"

section \<open>Shared memory\<close>

definition shmdt :: "kernel \<Rightarrow> nat \<Rightarrow> kernel" where
  "shmdt k a = (case maps k a of None \<Rightarrow> k
     | Some key \<Rightarrow> k\<lparr>maps := (maps k)(a := None),
         segs := (segs k)(key := map_option (\<lambda>s. s\<lparr>sg_nattch := sg_nattch s - 1\<rparr>) (segs k key))\<rparr>)"

text \<open>\<open>smUtilAttach\<close>: the address (0 is NULL), the new value of \<open>*create\<close>, the kernel after.\<close>

definition smUtilAttach ::
    "env \<Rightarrow> kernel \<Rightarrow> int \<Rightarrow> string \<Rightarrow> 32 word \<Rightarrow> int \<Rightarrow> nat \<times> int \<times> kernel" where
  "smUtilAttach e k key lockfile sz create =
     (if key = 0 \<or> sz = 0 then (0, create, k)
      else
        let shmget = (case segs k key of
              Some s \<Rightarrow> if sg_size s < unat sz then None else Some (s, k)
            | None \<Rightarrow> if create = 0 then None
                else Some (\<lparr>sg_id = next_id k, sg_size = unat sz, sg_nattch = 0, sg_hdr = zero_segment\<rparr>,
                           k\<lparr>next_id := next_id k + 1\<rparr>)) in
        case shmget of None \<Rightarrow> (0, -1, k)
        | Some (s, k) \<Rightarrow>
            let a = next_addr k; s = s\<lparr>sg_nattch := sg_nattch s + 1\<rparr>;
                k = k\<lparr>next_addr := a + 1, maps := (maps k)(a := Some key), segs := (segs k)(key := Some s)\<rparr> in
            if \<not> lock_ok e lockfile then (0, -1, k)
            else let k = k\<lparr>lockfiles := (lockfiles k)(lockfile := True)\<rparr>;
                     k = (if create \<noteq> 0
                          then k\<lparr>segs := (segs k)(key := Some (s\<lparr>sg_hdr := zero_segment\<rparr>))\<rparr> else k)
                 in (a, sg_id s, k))"

text \<open>\<open>shmget (0, 123, 0666)\<close> is \<open>IPC_PRIVATE\<close>: it makes a new anonymous segment.\<close>

definition smUtilDetach :: "kernel \<Rightarrow> int \<Rightarrow> string \<Rightarrow> nat \<Rightarrow> bool \<Rightarrow> kernel" where
  "smUtilDetach k key lockfile address clearLock =
     (if key = 0 then shmdt (k\<lparr>privates := privates k + 1\<rparr>) address
      else case segs k key of None \<Rightarrow> k
      | Some s \<Rightarrow>
          if sg_size s < 123 then k
          else let nattch = sg_nattch s; k = shmdt k address in
            if clearLock \<and> nattch = 1
            then k\<lparr>segs := (segs k)(key := None), lockfiles := (lockfiles k)(lockfile := False)\<rparr>
            else k)"

text \<open>\<open>smUtilInitSegment\<close>: the key (\<open>ERR\<close> is -1), whether the lock file is new, the lock file name.\<close>

definition smUtilInitSegment :: "env \<Rightarrow> kernel \<Rightarrow> string \<Rightarrow> (int \<times> int \<times> string \<times> kernel) res" where
  "smUtilInitSegment e k lf =
     (if length lf \<ge> SZ_FNAME then Inl Buffer_Overflow
      else if \<not> lock_ok e lf then Inr (-1, 0, [], k)
      else Inr (ftok e lf, (if lockfiles k lf then 0 else 1), lf, k\<lparr>lockfiles := (lockfiles k)(lf := True)\<rparr>))"

section \<open>Locking, attaching, detaching, freeing a page\<close>

definition smcLock :: "smcPage \<Rightarrow> smcPage" where
  "smcLock p = p\<lparr>ac_locked := True\<rparr>"

definition smcUnlock :: "env \<Rightarrow> smcPage \<Rightarrow> smcPage" where
  "smcUnlock e p = (let p = p\<lparr>ac_locked := False\<rparr> in
     if SEG_ATTACHED e p > 0 then p\<lparr>pstate := smStateSetLTime (me e) (pstate p) (now e)\<rparr> else p)"

definition smcFreePage :: "smcPage \<Rightarrow> smcPage" where
  "smcFreePage p = zero_page\<lparr>free_flag := True\<rparr>"

definition smcAttach :: "env \<Rightarrow> smCache \<Rightarrow> kernel \<Rightarrow> nat \<Rightarrow> smCache \<times> kernel" where
  "smcAttach e c k i =
     (let p = pdata c ! i in
      if memKey p = 0 then (c, k)
      else
        let (a, create, k) = smUtilAttach e k (memKey p) (lockFile p) (pg_size p) 0;
            st = pstate p;
            st = (if \<not> smStateDefined (me e) st then snd (smStateAdd (alive e) (me e) st (now e) a 1) else st);
            st = smStateSetAddr (me e) st a;
            st = smStateSetSMC (me e) st (smc_ptr e);
            st = smStateSetAttached (me e) st 1
        in (set_page c i (p\<lparr>pstate := st\<rparr>), k))"

definition smcDetach :: "env \<Rightarrow> smCache \<Rightarrow> kernel \<Rightarrow> nat \<Rightarrow> bool \<Rightarrow> smCache \<times> kernel" where
  "smcDetach e c k i free =
     (let (c, k) = (if free \<and> SEG_ATTACHED e (pdata c ! i) \<le> 0 then smcAttach e c k i else (c, k));
          p = pdata c ! i;
          p = (if cpid p = me e then smcUnlock e p else p);
          k = smUtilDetach k (memKey p) (lockFile p) (SEG_ADDR e p) free;
          p = p\<lparr>pstate := smStateSetAttached (me e) (pstate p) 0\<rparr>
      in if free then
           (let psz = pg_size p;
                c = set_page (c\<lparr>npages := npages c - 1\<rparr>) i (zero_page\<lparr>free_flag := True\<rparr>);
                c = (if Suc i = top c then c\<lparr>top := top c - 1\<rparr> else c)
            in (c\<lparr>mem_allocated := mem_allocated c - psz, mem_avail := mem_avail c + psz\<rparr>, k))
         else (set_page c i p, k))"

section \<open>Getting a page\<close>

text \<open>
  The throttle loop: while the cache is full, sleep and look again, at most \<open>throttle_ntry\<close>
  more times.  \<open>wait\<close> is what the other processes do to the cache during a sleep.
\<close>

primrec throttle :: "(smCache \<Rightarrow> smCache) \<Rightarrow> nat \<Rightarrow> smCache \<Rightarrow> bool \<times> smCache" where
  "throttle wait 0 c = (if npages c \<ge> np_max c then (False, wait c) else (True, c))"
| "throttle wait (Suc n) c = (if npages c \<ge> np_max c then throttle wait n (wait c) else (True, c))"

definition available :: "smcPage \<Rightarrow> bool" where
  "available p \<longleftrightarrow> memKey p = 0 \<or> (nattached p = 0 \<and> free_flag p)"

primrec find_slot :: "smcPage list \<Rightarrow> nat \<Rightarrow> nat" where
  "find_slot [] i = i"
| "find_slot (p # ps) i = (if available p then i else find_slot ps (Suc i))"

definition page_align :: "env \<Rightarrow> 32 word \<Rightarrow> 32 word" where
  "page_align e sz = (sz div of_nat (pgsize e) + 1) * of_nat (pgsize e)"

definition new_header :: "env \<Rightarrow> smCache \<Rightarrow> nat \<Rightarrow> smcPage \<Rightarrow> int \<Rightarrow> int \<Rightarrow> segment" where
  "new_header e c pnum p shmid sz = zero_segment
     \<lparr>seg_pagenum := pnum, seg_memKey := memKey p, seg_shmid := shmid, seg_size := pg_size p,
      dsize := word_of_int sz, seg_type := pg_type p, seg_ctime := now e,
      seg_seqno := seqno c, seg_dirpath := dirpath c, seg_froot := froot c\<rparr>"

definition put_header :: "kernel \<Rightarrow> int \<Rightarrow> segment \<Rightarrow> kernel" where
  "put_header k key h = k\<lparr>segs := (segs k)(key := map_option (\<lambda>s. s\<lparr>sg_hdr := h\<rparr>) (segs k key))\<rparr>"

text \<open>The attachment of the new page: a failed attachment leaves \<open>new\<close> at -1 and \<open>sp\<close> NULL.\<close>

definition attach_new ::
    "env \<Rightarrow> smCache \<Rightarrow> kernel \<Rightarrow> nat \<Rightarrow> smcPage \<Rightarrow> int \<Rightarrow> int \<Rightarrow> (smcPage \<times> kernel) res" where
  "attach_new e c k pnum p new sz =
     (let (sp, new, k) = smUtilAttach e k (memKey p) (lockFile p) (pg_size p) new in
      if new \<noteq> 0 \<and> sp = 0 then Inl Null_Deref
      else
        let k = (if new \<noteq> 0 then put_header k (memKey p) (new_header e c pnum p new sz) else k);
            st = snd (smStateAdd (alive e) (me e) (pstate p) (now e) sp 1);
            st = smStateSetAddr (me e) st sp;
            st = smStateSetAttached (me e) st 1
        in Inr (p\<lparr>initialized := True, pstate := st\<rparr>, k))"

definition smcGetPage ::
    "env \<Rightarrow> (smCache \<Rightarrow> smCache) \<Rightarrow> smCache \<Rightarrow> kernel \<Rightarrow> int \<Rightarrow> int \<Rightarrow> bool \<Rightarrow> bool
      \<Rightarrow> (nat option \<times> smCache \<times> kernel) res" where
  "smcGetPage e wait c0 k type sz attach_flag lock_flag =
     (if sz > MAX_SEG_SIZE then Inr (None, c0, k)
      else case throttle wait (throttle_ntry c0) c0 of (False, c) \<Rightarrow> Inr (None, c, k)
      | (True, c) \<Rightarrow>
        let pnum = find_slot (take (top c) (pdata c)) 0 in
        if pnum \<ge> length (pdata c) then Inl Out_Of_Bounds
        else
          let psz = word_of_int ((int (sizeof_seg e) + 1) + (sz + 1) + 1);
              p = zero_page\<lparr>lockFile := cache_path c @ ''_'' @ show_nat pnum, pg_size := psz,
                    pg_type := type, pg_ctime := now e, cpid := me e\<rparr>;
              c = set_page (c\<lparr>mem_allocated := mem_allocated c + psz, mem_avail := mem_avail c - psz\<rparr>) pnum p
          in if \<not> calloc_ok e then Inr (None, c, k)
          else bind_res (smUtilInitSegment e k (lockFile p)) (\<lambda>(key, new, lf, k).
            let p = p\<lparr>memKey := key, lockFile := lf\<rparr> in
            if key = 0 then Inr (None, set_page c pnum p, k)
            else
              let c = c\<lparr>npages := npages c + 1, top := (if pnum = top c then top c + 1 else top c)\<rparr>;
                  p = p\<lparr>pg_size := page_align e (pg_size p)\<rparr>
              in bind_res (if attach_flag then attach_new e c k pnum p new sz
                           else Inr (p\<lparr>initialized := False\<rparr>, k)) (\<lambda>(p, k).
                let p = p\<lparr>free_flag := False, pstate := smStateSetSMC (me e) (pstate p) (smc_ptr e)\<rparr>;
                    p = (if lock_flag then smcLock p else p)
                in Inr (Some pnum, set_page c pnum p, k))))"

section \<open>Finding pages\<close>

text \<open>\<open>smcFindPage\<close>: the loop leaves \<open>p\<close> at the last page it looked at.\<close>

primrec find_key :: "smcPage list \<Rightarrow> int \<Rightarrow> nat \<Rightarrow> nat option \<Rightarrow> nat option" where
  "find_key [] key i seen = seen"
| "find_key (p # ps) key i seen = (if memKey p = key then Some i else find_key ps key (Suc i) (Some i))"

definition smcFindPage :: "smCache \<Rightarrow> int \<Rightarrow> nat option" where
  "smcFindPage c key = find_key (take (nat (npages c)) (pdata c)) key 0 None"

text \<open>One pass of \<open>smcNextPage\<close>: the pages register the caller, the oldest pending one is chosen.\<close>

definition register :: "env \<Rightarrow> nat \<Rightarrow> smcPage \<Rightarrow> smcPage" where
  "register e i p = (if \<not> smStateDefined (me e) (pstate p)
     then p\<lparr>pstate := snd (smStateAdd (alive e) (me e) (pstate p) (pg_ctime p) (bogus e i) 0)\<rparr> else p)"

definition older :: "env \<Rightarrow> smcPage list \<Rightarrow> nat option \<Rightarrow> nat \<Rightarrow> nat option" where
  "older e ps oldest i =
     (let p = ps ! i in
      if memKey p = 0 \<or> ac_locked p then oldest
      else if SEG_UTIME e p = 0 then
        (let old = (case oldest of None \<Rightarrow> i | Some o' \<Rightarrow> o') in
         Some (if SEG_LTIME e p < SEG_LTIME e (ps ! old) then i else old))
      else if SEG_UTIME e p < SEG_LTIME e p then
        (let old = (case oldest of None \<Rightarrow> i | Some o' \<Rightarrow> o') in
         Some (if SEG_UTIME e p < SEG_UTIME e (ps ! old) then i else old))
      else oldest)"

text \<open>Page \<open>i\<close> is registered before it is compared, so the whole list may be registered first.\<close>

definition register_all :: "env \<Rightarrow> smCache \<Rightarrow> smCache" where
  "register_all e c = c\<lparr>pdata := map (\<lambda>i. if i < top c then register e i (pdata c ! i) else pdata c ! i)
     [0..<length (pdata c)]\<rparr>"

definition next_pass :: "env \<Rightarrow> smCache \<Rightarrow> nat option \<times> smCache" where
  "next_pass e c0 =
     (let c = register_all e c0 in
      case fold (\<lambda>i o'. older e (pdata c) o' i) [0..<top c] None of
        None \<Rightarrow> (None, c)
      | Some i \<Rightarrow> let p = pdata c ! i in
          (Some i, set_page c i (p\<lparr>pstate := smStateSetUTime (me e) (pstate p) (now e)\<rparr>)))"

text \<open>
  With a timeout the passes are repeated for as long as nothing is found; \<open>n\<close> bounds the
  number of passes looked at, and \<open>wait\<close> is the work of the other processes in between.
\<close>

primrec smcNextPage ::
    "nat \<Rightarrow> env \<Rightarrow> (smCache \<Rightarrow> smCache) \<Rightarrow> smCache \<Rightarrow> int \<Rightarrow> (nat option \<times> smCache) res" where
  "smcNextPage 0 e wait c timeout = Inl Diverges"
| "smcNextPage (Suc n) e wait c timeout =
     (case next_pass e c of
        (Some i, c) \<Rightarrow> Inr (Some i, c)
      | (None, c) \<Rightarrow> if timeout > 0 then smcNextPage n e wait (wait c) timeout else Inr (None, c))"

definition smcEqualExpID :: "rat \<Rightarrow> rat \<Rightarrow> bool" where
  "smcEqualExpID a b = (let tol = 1 / 1000000 in if a < b then b - a < tol else a - b < tol)"

text \<open>The static variables of \<open>smcNextByExpID\<close>: \<open>plist\<close> is a null-terminated array of 128.\<close>

record exp_iter =
  listID :: rat
  curPage :: nat
  plist :: "nat list"

definition exp_matches :: "smCache \<Rightarrow> rat \<Rightarrow> nat list" where
  "exp_matches c xid = filter (\<lambda>i. memKey (pdata c ! i) \<noteq> 0 \<and> \<not> ac_locked (pdata c ! i)
     \<and> smcEqualExpID (expID (pdata c ! i)) xid) [0..<top c]"

definition plist_get :: "nat list \<Rightarrow> nat \<Rightarrow> nat option" where
  "plist_get ps i = (if i < length ps then Some (ps ! i) else None)"

definition smcNextByExpID ::
    "env \<Rightarrow> exp_iter \<Rightarrow> smCache \<Rightarrow> rat \<Rightarrow> (nat option \<times> exp_iter \<times> smCache) res" where
  "smcNextByExpID e it c xid =
     (if xid < 0 then (case next_pass e c of (r, c) \<Rightarrow> Inr (r, it, c))
      else if xid \<noteq> listID it then
        (let ps = exp_matches c xid in
         if length ps > MAX_ID_PAGES then Inl Buffer_Overflow
         else Inr (plist_get ps 0, \<lparr>listID = xid, curPage = 0, plist = ps\<rparr>, c))
      else if curPage it + 1 \<ge> MAX_ID_PAGES then Inl Out_Of_Bounds
      else (case plist_get (plist it) (curPage it + 1) of
              Some p \<Rightarrow> Inr (Some p, it\<lparr>curPage := curPage it + 1\<rparr>, c)
            | None \<Rightarrow> Inr (None, it\<lparr>listID := 0\<rparr>, c)))"

section \<open>Pruning, resetting, initialising\<close>

text \<open>Closing the gap at \<open>i\<close>: the pages above move down by one, the last one is cleared.\<close>

definition close_gap :: "smcPage list \<Rightarrow> nat \<Rightarrow> nat \<Rightarrow> smcPage list" where
  "close_gap ps i t = (fold (\<lambda>j a. a[j := a ! Suc j]) [i..<t - 1] ps)[max i (t - 1) := zero_page]"

function prune_loop :: "smcPage list \<Rightarrow> nat \<Rightarrow> nat \<Rightarrow> smcPage list \<times> nat" where
  "prune_loop ps i t =
     (if i < t then
        if memKey (ps ! i) = 0 then prune_loop (close_gap ps i t) (i + 1) (t - 1)
        else prune_loop ps (i + 1) t
      else (ps, t))"
  by pat_completeness auto
termination by (relation "measure (\<lambda>(ps, i, t). t - i)") auto

declare prune_loop.simps [simp del]

definition smcPrune :: "smCache \<Rightarrow> smCache" where
  "smcPrune c =
     (let c = c\<lparr>np_hiwater := max (top c) (np_hiwater c)\<rparr>;
          (ps, t) = prune_loop (pdata c) 0 (top c)
      in c\<lparr>pdata := ps, top := t\<rparr>)"

definition smcReset :: "env \<Rightarrow> smCache \<Rightarrow> kernel \<Rightarrow> smCache \<times> kernel" where
  "smcReset e c k = fold (\<lambda>i (c, k). smcDetach e c k i True) [0..<top c] (c, k)"

definition init_page :: "env \<Rightarrow> nat \<Rightarrow> smCache \<times> kernel \<Rightarrow> smCache \<times> kernel" where
  "init_page e i ck =
     (case ck of (c, k) \<Rightarrow>
       if memKey (pdata c ! i) = 0 then (c, k)
       else let (c, k) = smcDetach e c k i True;
                p = pdata c ! i;
                p = p\<lparr>pstate := snd (smStateRemove (alive e) (me e) (pstate p) 0)\<rparr>
            in (set_page c i (smcFreePage p), k))"

definition smcInitialize :: "env \<Rightarrow> smCache option \<Rightarrow> kernel \<Rightarrow> (bool \<times> smCache option \<times> kernel) res" where
  "smcInitialize e smc k = (case smc of None \<Rightarrow> Inr (False, None, k)
     | Some c \<Rightarrow>
        if nat (np_max c) > length (pdata c) then Inl Out_Of_Bounds
        else let c = c\<lparr>c_pstate := smStateClean (alive e) (c_pstate c)\<rparr>;
                 (c, k) = fold (init_page e) [0..<nat (np_max c)] (c, k);
                 c = smcPrune c
             in Inr (True, Some (c\<lparr>seqno := 0, dirpath := ''./'', froot := ''image''\<rparr>), k))"

text \<open>
  The loop of \<open>smcClose\<close> re-reads \<open>smc->top\<close>; \<open>n\<close> rounds with \<open>n\<close> the initial top are enough,
  because \<open>top\<close> only falls.
\<close>

primrec close_loop :: "nat \<Rightarrow> env \<Rightarrow> nat \<Rightarrow> bool \<Rightarrow> smCache \<times> kernel \<Rightarrow> smCache \<times> kernel" where
  "close_loop 0 e i free ck = ck"
| "close_loop (Suc n) e i free ck =
     (case ck of (c, k) \<Rightarrow>
       if i < top c then
         let p = pdata c ! i in
         close_loop n e (i + 1) free
           (if free \<and> nattached p < 1 \<and> nreaders p < 1 then
              (if memKey p \<noteq> 0 then (case smcAttach e c k i of (c, k) \<Rightarrow> smcDetach e c k i free) else (c, k))
            else if free \<or> free_flag p then
              (if memKey p \<noteq> 0 then
                 (case (if SEG_ATTACHED e p = 0 then smcAttach e c k i else (c, k)) of
                    (c, k) \<Rightarrow> smcDetach e c k i free)
               else (c, k))
            else (c, k))
       else (c, k))"

definition smcClose :: "env \<Rightarrow> smCache \<Rightarrow> kernel \<Rightarrow> bool \<Rightarrow> smCache \<times> kernel" where
  "smcClose e c k free =
     (case close_loop (top c) e 0 free (c, k) of (c, k) \<Rightarrow>
        let c = c\<lparr>c_nattached := c_nattached c - 1\<rparr>;
            c = (if c_nattached c = 0 \<and> c_vm_locked c \<and> is_root e then c\<lparr>c_vm_locked := False\<rparr> else c)
        in (c, smUtilDetach k (c_memKey c) (cache_path c) (smStateGetAddr (me e) (c_pstate c)) free))"

section \<open>Page attributes\<close>

text \<open>The header of a page, read at the address where the calling process has it attached.\<close>

definition header_at :: "kernel \<Rightarrow> nat \<Rightarrow> segment option" where
  "header_at k a = (case maps k a of None \<Rightarrow> None | Some key \<Rightarrow> map_option sg_hdr (segs k key))"

definition upd_header :: "kernel \<Rightarrow> nat \<Rightarrow> (segment \<Rightarrow> segment) \<Rightarrow> kernel res" where
  "upd_header k a f = (case maps k a of None \<Rightarrow> Inl Null_Deref
     | Some key \<Rightarrow> Inr (k\<lparr>segs := (segs k)(key := map_option (\<lambda>s. s\<lparr>sg_hdr := f (sg_hdr s)\<rparr>) (segs k key))\<rparr>))"

definition smcGetExpID :: "smcPage \<Rightarrow> rat" where
  "smcGetExpID p = expID p"

definition smcSetExpID :: "env \<Rightarrow> kernel \<Rightarrow> smcPage \<Rightarrow> rat \<Rightarrow> (smcPage \<times> kernel) res" where
  "smcSetExpID e k p xid = bind_res (upd_header k (SEG_ADDR e p) (\<lambda>h. h\<lparr>seg_expID := xid\<rparr>))
     (\<lambda>k. Inr (p\<lparr>expID := xid\<rparr>, k))"

definition smcGetWho :: "env \<Rightarrow> kernel \<Rightarrow> smcPage \<Rightarrow> (32 word) option" where
  "smcGetWho e k p = (if SEG_ADDR e p = 0 then Some (-1) else map_option who (header_at k (SEG_ADDR e p)))"

definition smcSetWho :: "env \<Rightarrow> kernel \<Rightarrow> smcPage \<Rightarrow> 32 word \<Rightarrow> kernel res" where
  "smcSetWho e k p w = upd_header k (SEG_ADDR e p) (\<lambda>h. h\<lparr>who := w\<rparr>)"

definition smcGetExpPageNum :: "env \<Rightarrow> kernel \<Rightarrow> smcPage \<Rightarrow> int option" where
  "smcGetExpPageNum e k p = (if SEG_ADDR e p = 0 then Some (-1) else map_option expPageNum (header_at k (SEG_ADDR e p)))"

definition smcSetExpPageNum :: "env \<Rightarrow> kernel \<Rightarrow> smcPage \<Rightarrow> int \<Rightarrow> kernel res" where
  "smcSetExpPageNum e k p n = upd_header k (SEG_ADDR e p) (\<lambda>h. h\<lparr>expPageNum := n\<rparr>)"

definition smcGetFPConfig :: "env \<Rightarrow> kernel \<Rightarrow> smcPage \<Rightarrow> fpConfig option" where
  "smcGetFPConfig e k p = map_option fpCfg (header_at k (SEG_ADDR e p))"

definition smcSetFPConfig :: "env \<Rightarrow> kernel \<Rightarrow> smcPage \<Rightarrow> fpConfig \<Rightarrow> kernel res" where
  "smcSetFPConfig e k p cfg = upd_header k (SEG_ADDR e p) (\<lambda>h. h\<lparr>fpCfg := cfg\<rparr>)"

definition smcGetMDConfig :: "env \<Rightarrow> kernel \<Rightarrow> smcPage \<Rightarrow> mdConfig option" where
  "smcGetMDConfig e k p = map_option mdCfg (header_at k (SEG_ADDR e p))"

definition smcSetMDConfig :: "env \<Rightarrow> kernel \<Rightarrow> smcPage \<Rightarrow> mdConfig \<Rightarrow> kernel res" where
  "smcSetMDConfig e k p cfg = upd_header k (SEG_ADDR e p) (\<lambda>h. h\<lparr>mdCfg := cfg\<rparr>)"

text \<open>
  \<open>strncpy (dst, src, strlen (src))\<close> copies no terminator: what was in the 164-byte field
  beyond the new text stays.
\<close>

definition overlay :: "string \<Rightarrow> string \<Rightarrow> string" where
  "overlay old new = new @ drop (length new) old"

definition smcGetColID :: "smcPage \<Rightarrow> string" where
  "smcGetColID p = colID p"

definition smcSetColID :: "env \<Rightarrow> kernel \<Rightarrow> smcPage \<Rightarrow> string \<Rightarrow> (smcPage \<times> kernel) res" where
  "smcSetColID e k p s =
     (if length s \<ge> 164 then Inl Buffer_Overflow
      else bind_res (if SEG_ADDR e p = 0 then Inr k
                     else upd_header k (SEG_ADDR e p) (\<lambda>h. h\<lparr>seg_colID := overlay (seg_colID h) s\<rparr>))
        (\<lambda>k. Inr (p\<lparr>colID := overlay (colID p) s\<rparr>, k)))"

definition smcGetObsetID :: "env \<Rightarrow> kernel \<Rightarrow> smcPage \<Rightarrow> string option" where
  "smcGetObsetID e k p = (if SEG_ADDR e p = 0 then None else map_option obsetID (header_at k (SEG_ADDR e p)))"

definition smcSetObsetID :: "env \<Rightarrow> kernel \<Rightarrow> smcPage \<Rightarrow> string \<Rightarrow> kernel res" where
  "smcSetObsetID e k p s =
     (if length s \<ge> 164 then Inl Buffer_Overflow
      else upd_header k (SEG_ADDR e p) (\<lambda>h. h\<lparr>obsetID := overlay (obsetID h) s\<rparr>))"

definition smcIncrSeqNo :: "smCache \<Rightarrow> smCache" where "smcIncrSeqNo c = c\<lparr>seqno := seqno c + 1\<rparr>"
definition smcDecrSeqNo :: "smCache \<Rightarrow> smCache" where "smcDecrSeqNo c = c\<lparr>seqno := seqno c - 1\<rparr>"
definition smcResetSeqNo :: "smCache \<Rightarrow> smCache" where "smcResetSeqNo c = c\<lparr>seqno := 0\<rparr>"
definition smcSetSeqNo :: "smCache \<Rightarrow> int \<Rightarrow> smCache" where "smcSetSeqNo c n = c\<lparr>seqno := n\<rparr>"
definition smcGetSeqNo :: "smCache \<Rightarrow> int" where "smcGetSeqNo c = seqno c"


section \<open>Opening the cache\<close>

text \<open>\<open>smUtilInitCache\<close>: the key (\<open>ERR\<close> is -1), whether the cache is new, the configuration.\<close>

definition smUtilInitCache :: "env \<Rightarrow> kernel \<Rightarrow> sysConfig \<Rightarrow> (int \<times> bool \<times> sysConfig \<times> kernel) res" where
  "smUtilInitCache e k cfg =
     (let path = (if cfg_path cfg = [] then ''/tmp/.smc'' @ show_nat (uid e) else cfg_path cfg);
          cfg = cfg\<lparr>cfg_path := path\<rparr> in
      if length path \<ge> SZ_FNAME then Inl Buffer_Overflow
      else if \<not> lock_ok e path then Inr (-1, False, cfg\<lparr>cfg_path := []\<rparr>, k)
      else Inr (ftok e path, \<not> lockfiles k path, cfg\<lparr>cfg_memKey := ftok e path\<rparr>,
                k\<lparr>lockfiles := (lockfiles k)(path := True)\<rparr>))"

text \<open>
  The object that a new cache starts as.  The loop that sets \<open>free\<close> in the page array runs
  over the local copy after it has been copied to shared memory, so it changes nothing here.
\<close>

definition new_cache :: "env \<Rightarrow> sysConfig \<Rightarrow> int \<Rightarrow> smCache" where
  "new_cache e cfg key =
     \<lparr>c_memKey = key, c_shmid = 0, cache_addr = 0, cache_size = word_of_int (cfg_size cfg),
      c_nattached = 0, c_vm_locked = False, c_ctime = now e, dirpath = ''./'', froot = ''image'', seqno = 0,
      np_max = cfg_max_segs cfg, np_hiwater = 0, mem_allocated = word_of_int (cfg_size cfg),
      mem_avail = sys_avphys_pages cfg * sys_page_size cfg, cache_path = cfg_path cfg,
      throttle_ntry = unat (cfg_throttle_ntry cfg), c_pstate = zero_state, npages = 0, top = 0,
      pdata = replicate MAX_SEGS zero_page\<rparr>"

definition join_cache :: "env \<Rightarrow> int \<Rightarrow> smCache \<Rightarrow> smCache" where
  "join_cache e reader c =
     (let c = c\<lparr>c_nattached := c_nattached c + 1, c_pstate := smStateSetReader (me e) (c_pstate c) reader\<rparr> in
      if c_nattached c = 1 \<and> \<not> c_vm_locked c \<and> is_root e \<and> mlock_ok e then c\<lparr>c_vm_locked := True\<rparr> else c)"

text \<open>\<open>shared\<close> is the object found at the attached address when the cache exists already.\<close>

definition smcOpen ::
    "env \<Rightarrow> kernel \<Rightarrow> sysConfig \<Rightarrow> int \<Rightarrow> smCache \<Rightarrow> (smCache option \<times> kernel) res" where
  "smcOpen e k cfg reader shared =
     bind_res (smUtilInitCache e k cfg) (\<lambda>(key, new, cfg, k).
       if key = 0 then Inr (None, k)
       else if \<not> new then
         (case smUtilAttach e k (cfg_memKey cfg) (cfg_path cfg) (word_of_int (cfg_size cfg)) 0 of (a, fd, k) \<Rightarrow>
            if a = 0 then Inr (None, k)
            else Inr (Some (join_cache e reader (shared\<lparr>c_shmid := fd,
                   c_pstate := snd (smStateAdd (alive e) (me e) (c_pstate shared) (now e) a 1)\<rparr>)), k))
       else
         (let c = new_cache e cfg key in
          case smUtilAttach e k key (cfg_path cfg) (cache_size c) 1 of (a, fd, k) \<Rightarrow>
            if a = 0 then Inr (None, snd (smcClose e c k True))
            else Inr (Some (join_cache e reader (c\<lparr>cache_addr := a, c_shmid := fd,
                   c_pstate := snd (smStateAdd (alive e) (me e) (c_pstate c) (now e) a 1)\<rparr>)), k)))"


section \<open>File names and page data\<close>

text \<open>
  \<open>strncpy (dst, src, n)\<close> keeps at most \<open>n\<close> characters; when it keeps all \<open>n\<close> it writes no
  terminator, and the text read back then runs on into the next member, which is not modelled.
\<close>

definition SZ_PATH :: nat where "SZ_PATH = 164"

definition smcSetDir :: "smCache \<Rightarrow> string \<Rightarrow> smCache" where
  "smcSetDir c s = c\<lparr>dirpath := take SZ_PATH s\<rparr>"

definition smcSetFRoot :: "smCache \<Rightarrow> string \<Rightarrow> smCache" where
  "smcSetFRoot c s = c\<lparr>froot := take SZ_FNAME s\<rparr>"

definition smcGetDir :: "smCache \<Rightarrow> string" where "smcGetDir c = dirpath c"
definition smcGetFRoot :: "smCache \<Rightarrow> string" where "smcGetFRoot c = froot c"

definition smcGetPageDir :: "env \<Rightarrow> kernel \<Rightarrow> smcPage \<Rightarrow> string option" where
  "smcGetPageDir e k p = map_option seg_dirpath (header_at k (SEG_ADDR e p))"

definition smcGetPageFRoot :: "env \<Rightarrow> kernel \<Rightarrow> smcPage \<Rightarrow> string option" where
  "smcGetPageFRoot e k p = map_option seg_froot (header_at k (SEG_ADDR e p))"

definition smcGetPageSeqNo :: "env \<Rightarrow> kernel \<Rightarrow> smcPage \<Rightarrow> int option" where
  "smcGetPageSeqNo e k p = map_option seg_seqno (header_at k (SEG_ADDR e p))"

definition smcSetPageSeqNo :: "env \<Rightarrow> kernel \<Rightarrow> smcPage \<Rightarrow> int \<Rightarrow> kernel res" where
  "smcSetPageSeqNo e k p n = upd_header k (SEG_ADDR e p) (\<lambda>h. h\<lparr>seg_seqno := n\<rparr>)"

text \<open>\<open>smcGetPageData\<close>: the mapping the data lies in and the offset there; \<open>None\<close> is NULL.\<close>

definition smcGetPageData :: "env \<Rightarrow> smcPage option \<Rightarrow> (nat \<times> nat) option" where
  "smcGetPageData e po = (case po of None \<Rightarrow> None
     | Some p \<Rightarrow> if \<not> initialized p then None else Some (SEG_ADDR e p, sizeof_seg e + 1))"

end
