(* ===== verification/Sm_Cache_Props.thy ===== *)
theory Sm_Cache_Props
  imports Sm_Cache
begin

text \<open>
  Correctness of the shared memory cache: the page array and its counters stay consistent, a
  page handed out is fresh, a released page gives its segment back, every written page is
  delivered once, pruning keeps the pages in order.
\<close>

section \<open>The invariant of the page array\<close>

definition live :: "smCache \<Rightarrow> smcPage list" where
  "live c = filter (\<lambda>p. memKey p \<noteq> 0) (take (top c) (pdata c))"

definition cache_ok :: "smCache \<Rightarrow> bool" where
  "cache_ok c \<longleftrightarrow> top c \<le> length (pdata c) \<and> npages c = int (length (live c))
     \<and> (\<forall>i < top c. free_flag (pdata c ! i) \<longrightarrow> memKey (pdata c ! i) = 0)"

lemma cache_okD:
  assumes "cache_ok c"
  shows "top c \<le> length (pdata c)" "npages c = int (length (live c))"
    "\<And>i. i < top c \<Longrightarrow> free_flag (pdata c ! i) \<Longrightarrow> memKey (pdata c ! i) = 0"
  using assms by (auto simp: cache_ok_def)

lemma set_page_simps [simp]:
  "top (set_page c i p) = top c" "npages (set_page c i p) = npages c"
  "pdata (set_page c i p) = (pdata c)[i := p]" "mem_allocated (set_page c i p) = mem_allocated c"
  "mem_avail (set_page c i p) = mem_avail c" "np_max (set_page c i p) = np_max c"
  "seqno (set_page c i p) = seqno c" "dirpath (set_page c i p) = dirpath c" "froot (set_page c i p) = froot c"
  "cache_path (set_page c i p) = cache_path c"
  by (simp_all add: set_page_def)

lemma length_filter_update:
  "i < length xs \<Longrightarrow> int (length (filter P (xs[i := x])))
    = int (length (filter P xs)) - (if P (xs ! i) then 1 else 0) + (if P x then 1 else 0)"
proof (induction xs arbitrary: i)
  case (Cons y ys)
  show ?case
  proof (cases i)
    case (Suc j)
    have "int (length (filter P (ys[j := x])))
      = int (length (filter P ys)) - (if P (ys ! j) then 1 else 0) + (if P x then 1 else 0)"
      using Cons.prems Suc by (intro Cons.IH) simp
    then show ?thesis using Suc by (cases "P (ys ! j)"; cases "P x"; simp)
  qed simp
qed simp

lemma find_slot_spec:
  "find_slot ps i = i + length (takeWhile (\<lambda>p. \<not> available p) ps)"
  by (induction ps arbitrary: i) auto

definition first_slot :: "smCache \<Rightarrow> nat" where
  "first_slot c = length (takeWhile (\<lambda>p. memKey p \<noteq> 0) (take (top c) (pdata c)))"

lemma slot_first:
  assumes "cache_ok c"
  shows "find_slot (take (top c) (pdata c)) 0 = first_slot c"
    and "first_slot c \<le> top c" and "first_slot c < top c \<Longrightarrow> memKey (pdata c ! first_slot c) = 0"
proof -
  have a: "available p \<longleftrightarrow> memKey p = 0" if p: "p \<in> set (take (top c) (pdata c))" for p
  proof -
    obtain i where "i < top c" "i < length (pdata c)" "p = pdata c ! i"
      using p by (auto simp: in_set_conv_nth)
    then show ?thesis using cache_okD(3) [OF assms, of i] by (auto simp: available_def)
  qed
  have "takeWhile (\<lambda>p. \<not> available p) (take (top c) (pdata c))
      = takeWhile (\<lambda>p. memKey p \<noteq> 0) (take (top c) (pdata c))"
    using a by (intro takeWhile_cong) auto
  then show "find_slot (take (top c) (pdata c)) 0 = first_slot c"
    by (simp add: find_slot_spec first_slot_def)
  have l: "length (take (top c) (pdata c)) = top c" using cache_okD(1) [OF assms] by simp
  show le: "first_slot c \<le> top c" unfolding first_slot_def
    using length_takeWhile_le [of "\<lambda>p. memKey p \<noteq> 0" "take (top c) (pdata c)"] l by simp
  assume "first_slot c < top c"
  then show "memKey (pdata c ! first_slot c) = 0"
    using nth_length_takeWhile [of "\<lambda>p. memKey p \<noteq> 0" "take (top c) (pdata c)"] l
    by (simp add: first_slot_def)
qed

lemma live_grow:
  assumes ok: "cache_ok c" and s: "first_slot c < length (pdata c)" and p: "memKey p \<noteq> 0" "\<not> free_flag p"
  shows "cache_ok (set_page (c\<lparr>npages := npages c + 1,
     top := (if first_slot c = top c then top c + 1 else top c)\<rparr>) (first_slot c) p)"
proof -
  let ?i = "first_slot c" and ?t = "if first_slot c = top c then top c + 1 else top c"
  note le = slot_first(2,3) [OF ok] and t = cache_okD(1) [OF ok]
  have tl: "?t \<le> length (pdata c)" using s t by auto
  have "length (filter (\<lambda>p. memKey p \<noteq> 0) (take ?t ((pdata c)[?i := p]))) = Suc (length (live c))"
  proof (cases "?i = top c")
    case True
    then have "take ?t ((pdata c)[?i := p]) = take (top c) (pdata c) @ [p]"
      using s by (simp add: take_Suc_conv_app_nth)
    then show ?thesis using p by (simp add: live_def)
  next
    case False
    then have i: "?i < length (take (top c) (pdata c))" using le(1) t by simp
    have "memKey (take (top c) (pdata c) ! ?i) = 0" using le(2) False le(1) by simp
    then show ?thesis
      using length_filter_update [OF i, of "\<lambda>p. memKey p \<noteq> 0" p] p False
      by (simp add: live_def take_update_swap)
  qed
  moreover have "free_flag (((pdata c)[?i := p]) ! j) \<longrightarrow> memKey (((pdata c)[?i := p]) ! j) = 0" if "j < ?t" for j
    using that p cache_okD(3) [OF ok, of j] s le by (cases "j = ?i") (auto split: if_splits)
  ultimately show ?thesis using cache_okD(2) [OF ok] tl
    by (auto simp: cache_ok_def live_def set_page_def)
qed

section \<open>Getting a page\<close>

text \<open>What a request for a page needs from the environment to succeed.\<close>

definition can_get :: "env \<Rightarrow> smCache \<Rightarrow> kernel \<Rightarrow> int \<Rightarrow> bool" where
  "can_get e c k sz \<longleftrightarrow> sz \<le> MAX_SEG_SIZE \<and> npages c < np_max c \<and> first_slot c < length (pdata c)
     \<and> calloc_ok e \<and> me e \<noteq> 0 \<and>
     (let lf = cache_path c @ ''_'' @ show_nat (first_slot c) in
      length lf < SZ_FNAME \<and> lock_ok e lf \<and> \<not> lockfiles k lf \<and> ftok e lf \<noteq> 0 \<and> segs k (ftok e lf) = None
      \<and> 0 < next_addr k \<and> maps k (next_addr k) = None \<and> next_id k \<noteq> 0 \<and> next_id k \<noteq> -1)
     \<and> page_align e (word_of_int (int (sizeof_seg e) + 1 + (sz + 1) + 1)) \<noteq> 0"

definition got_page :: "env \<Rightarrow> smCache \<Rightarrow> kernel \<Rightarrow> int \<Rightarrow> int \<Rightarrow> bool \<Rightarrow> smcPage" where
  "got_page e c k type sz lock =
     (let lf = cache_path c @ ''_'' @ show_nat (first_slot c) in
      zero_page\<lparr>memKey := ftok e lf, lockFile := lf, pg_size := page_align e (word_of_int (int (sizeof_seg e) + 1 + (sz + 1) + 1)),
        pg_type := type, pg_ctime := now e, cpid := me e, initialized := True, ac_locked := lock,
        pstate := zero_state[0 := zero_info\<lparr>si_smc := smc_ptr e, si_pid := me e, si_atime := now e,
          si_ltime := now e, si_addr := next_addr k, si_attached := 1\<rparr>]\<rparr>)"

lemma zero_state_facts:
  "smStateClean al zero_state = zero_state" "scan_pid zero_state pid = False" "scan_free zero_state 0 = 0"
  by (simp_all add: zero_state_def MAX_PROCS_def zero_info_def eval_nat_numeral)

lemma add_zero_state:
  assumes "pid \<noteq> 0"
  shows "smStateSetSMC pid (smStateSetAttached pid (smStateSetAddr pid
      (snd (smStateAdd al pid zero_state t a 1)) a) 1) ptr
    = zero_state[0 := zero_info\<lparr>si_smc := ptr, si_pid := pid, si_atime := t, si_ltime := t, si_addr := a, si_attached := 1\<rparr>]"
  using assms
  by (simp add: smStateAdd_def zero_state_facts MAX_PROCS_def)
    (simp add: zero_state_def MAX_PROCS_def zero_info_def eval_nat_numeral state_access_defs smStateLookupByPid_def)

definition raw_size :: "env \<Rightarrow> int \<Rightarrow> 32 word" where
  "raw_size e sz = word_of_int (int (sizeof_seg e) + 1 + (sz + 1) + 1)"

definition got_cache :: "env \<Rightarrow> smCache \<Rightarrow> kernel \<Rightarrow> int \<Rightarrow> int \<Rightarrow> bool \<Rightarrow> smCache" where
  "got_cache e c k type sz lock =
     set_page (c\<lparr>mem_allocated := mem_allocated c + raw_size e sz, mem_avail := mem_avail c - raw_size e sz,
         npages := npages c + 1, top := (if first_slot c = top c then top c + 1 else top c)\<rparr>)
       (first_slot c) (got_page e c k type sz lock)"

definition got_kernel :: "env \<Rightarrow> smCache \<Rightarrow> kernel \<Rightarrow> int \<Rightarrow> int \<Rightarrow> kernel" where
  "got_kernel e c k type sz =
     (let p = got_page e c k type sz True in
      k\<lparr>next_id := next_id k + 1, next_addr := next_addr k + 1, maps := (maps k)(next_addr k := Some (memKey p)),
        segs := (segs k)(memKey p := Some \<lparr>sg_id = next_id k, sg_size = unat (pg_size p), sg_nattch = 1,
           sg_hdr = new_header e c (first_slot c) p (next_id k) sz\<rparr>),
        lockfiles := (lockfiles k)(lockFile p := True)\<rparr>)"

lemma throttle_free: "npages c < np_max c \<Longrightarrow> throttle wait n c = (True, c)"
  by (cases n) auto

lemma smcGetPage_run:
  assumes ok: "cache_ok c" and can: "can_get e c k sz"
  shows "smcGetPage e wait c k type sz True lock
    = Inr (Some (first_slot c), got_cache e c k type sz lock, got_kernel e c k type sz)"
proof -
  let ?i = "first_slot c" and ?lf = "cache_path c @ ''_'' @ show_nat (first_slot c)"
  have g: "sz \<le> MAX_SEG_SIZE" "npages c < np_max c" "?i < length (pdata c)" "calloc_ok e" "me e \<noteq> 0"
    "length ?lf < SZ_FNAME" "lock_ok e ?lf" "\<not> lockfiles k ?lf" "ftok e ?lf \<noteq> 0" "segs k (ftok e ?lf) = None"
    "0 < next_addr k" "next_id k \<noteq> 0" "page_align e (raw_size e sz) \<noteq> 0"
    using can by (auto simp: can_get_def Let_def raw_size_def)
  define p where "p = zero_page\<lparr>lockFile := ?lf, pg_size := raw_size e sz, pg_type := type, pg_ctime := now e, cpid := me e\<rparr>"
  define p' where "p' = p\<lparr>memKey := ftok e ?lf, lockFile := ?lf, pg_size := page_align e (raw_size e sz)\<rparr>"
  define c1 where "c1 = set_page (c\<lparr>mem_allocated := mem_allocated c + raw_size e sz,
     mem_avail := mem_avail c - raw_size e sz\<rparr>) ?i p"
  define c2 where "c2 = c1\<lparr>npages := npages c1 + 1, top := (if ?i = top c1 then top c1 + 1 else top c1)\<rparr>"
  define k1 where "k1 = k\<lparr>lockfiles := (lockfiles k)(?lf := True)\<rparr>"
  have init: "smUtilInitSegment e k ?lf = Inr (ftok e ?lf, 1, ?lf, k1)"
    using g by (simp add: smUtilInitSegment_def k1_def)
  have att: "attach_new e c2 k1 ?i p' 1 sz
      = Inr (p'\<lparr>initialized := True, pstate := smStateSetAttached (me e) (smStateSetAddr (me e)
          (snd (smStateAdd (alive e) (me e) zero_state (now e) (next_addr k) 1)) (next_addr k)) 1\<rparr>, got_kernel e c k type sz)"
    using g by (simp add: attach_new_def smUtilAttach_def Let_def k1_def p'_def p_def zero_page_def
        put_header_def got_kernel_def got_page_def new_header_def raw_size_def c2_def c1_def fun_upd_idem_iff)
  have gp: "(p'\<lparr>initialized := True, free_flag := False, pstate := zero_state[0 := zero_info\<lparr>si_smc := smc_ptr e,
        si_pid := me e, si_atime := now e, si_ltime := now e, si_addr := next_addr k, si_attached := 1\<rparr>]\<rparr>)
      = got_page e c k type sz False"
    by (simp add: got_page_def p'_def p_def Let_def zero_page_def raw_size_def)
  have lk: "smcLock (got_page e c k type sz False) = got_page e c k type sz True"
    by (simp add: smcLock_def got_page_def Let_def)
  have fin: "set_page c2 ?i (got_page e c k type sz lock) = got_cache e c k type sz lock"
    by (simp add: c2_def c1_def got_cache_def set_page_def)
  have "smcGetPage e wait c k type sz True lock = bind_res (attach_new e c2 k1 ?i p' 1 sz) (\<lambda>(p, k).
     let p = p\<lparr>free_flag := False, pstate := smStateSetSMC (me e) (pstate p) (smc_ptr e)\<rparr>;
         p = (if lock then smcLock p else p)
     in Inr (Some ?i, set_page c2 ?i p, k))"
    using g(1,3,4,9) slot_first(1) [OF ok] throttle_free [OF g(2)] init
    unfolding smcGetPage_def raw_size_def [symmetric]
    by (simp add: Let_def c2_def c1_def p'_def p_def split del: if_split cong: if_cong)
  then show ?thesis
    using att add_zero_state [OF g(5)] gp lk fin by (cases lock) (simp_all add: Let_def)
qed

lemma got_page_simps [simp]:
  "free_flag (got_page e c k type sz lock) = False" "ac_locked (got_page e c k type sz lock) = lock"
  "pg_type (got_page e c k type sz lock) = type" "cpid (got_page e c k type sz lock) = me e"
  "initialized (got_page e c k type sz lock) = True"
  "memKey (got_page e c k type sz lock) = ftok e (cache_path c @ ''_'' @ show_nat (first_slot c))"
  "lockFile (got_page e c k type sz lock) = cache_path c @ ''_'' @ show_nat (first_slot c)"
  "pg_size (got_page e c k type sz lock) = page_align e (raw_size e sz)"
  by (simp_all add: got_page_def Let_def raw_size_def zero_page_def)

lemma got_page_state:
  assumes "me e \<noteq> 0"
  shows "SEG_ADDR e (got_page e c k type sz lock) = next_addr k" "SEG_ATTACHED e (got_page e c k type sz lock) = 1"
    "SEG_LTIME e (got_page e c k type sz lock) = now e" "SEG_UTIME e (got_page e c k type sz lock) = 0"
  using assms by (simp_all add: SEG_ADDR_def SEG_ATTACHED_def SEG_LTIME_def SEG_UTIME_def got_page_def Let_def
      state_access_defs smStateLookupByPid_def zero_state_def MAX_PROCS_def zero_info_def eval_nat_numeral)

lemma got_cache_ok:
  assumes ok: "cache_ok c" and can: "can_get e c k sz"
  shows "cache_ok (got_cache e c k type sz lock)"
proof -
  let ?c = "c\<lparr>mem_allocated := mem_allocated c + raw_size e sz, mem_avail := mem_avail c - raw_size e sz\<rparr>"
  have f: "first_slot ?c = first_slot c" "cache_ok ?c" using ok
    by (simp_all add: first_slot_def cache_ok_def live_def)
  have "first_slot ?c < length (pdata ?c)" "memKey (got_page e c k type sz lock) \<noteq> 0"
    using can f by (simp_all add: can_get_def Let_def)
  from live_grow [OF f(2) this] show ?thesis using f(1)
    by (simp add: got_cache_def cong: if_cong split del: if_split)
qed

section \<open>Releasing a page\<close>

definition freed :: "smCache \<Rightarrow> nat \<Rightarrow> 32 word \<Rightarrow> smCache" where
  "freed c i sz =
     (set_page c i (zero_page\<lparr>free_flag := True\<rparr>))\<lparr>npages := npages c - 1, top := (if Suc i = top c then top c - 1 else top c),
        mem_allocated := mem_allocated c - sz, mem_avail := mem_avail c + sz\<rparr>"

lemma zero_page_simps [simp]:
  "memKey zero_page = 0" "free_flag zero_page = False" "cpid zero_page = 0" "pg_size zero_page = 0"
  "ac_locked zero_page = False" "pstate zero_page = zero_state" "lockFile zero_page = []"
  by (simp_all add: zero_page_def)

lemma freed_ok:
  assumes ok: "cache_ok c" and i: "i < top c" "memKey (pdata c ! i) \<noteq> 0"
  shows "cache_ok (freed c i sz)"
proof -
  let ?z = "zero_page\<lparr>free_flag := True\<rparr>" and ?t = "if Suc i = top c then top c - 1 else top c"
  note t = cache_okD(1) [OF ok]
  let ?xs = "take (top c) (pdata c)"
  have il: "i < length ?xs" "?xs ! i = pdata c ! i" using i(1) t by simp_all
  have one: "int (length (filter (\<lambda>p. memKey p \<noteq> 0) (?xs[i := ?z]))) = npages c - 1"
    using length_filter_update [OF il(1), of "\<lambda>p. memKey p \<noteq> 0" ?z] i(2) il(2) cache_okD(2) [OF ok]
    by (simp add: live_def)
  have "filter (\<lambda>p. memKey p \<noteq> 0) (take ?t ((pdata c)[i := ?z])) = filter (\<lambda>p. memKey p \<noteq> 0) (?xs[i := ?z])"
  proof (cases "Suc i = top c")
    case True
    then have "?xs = take i (pdata c) @ [pdata c ! i]"
      using t by (simp add: take_Suc_conv_app_nth flip: True)
    then have "?xs[i := ?z] = take i (pdata c) @ [?z]" using i(1) t by (simp add: list_update_append)
    moreover have "top c - 1 = i" using True by simp
    ultimately show ?thesis using True by simp
  next
    case False
    then show ?thesis by (simp add: take_update_swap)
  qed
  moreover have "memKey (((pdata c)[i := ?z]) ! j) = 0" if "j < ?t" "free_flag (((pdata c)[i := ?z]) ! j)" for j
    using that cache_okD(3) [OF ok, of j] i(1) t by (cases "j = i") (auto split: if_splits)
  ultimately show ?thesis using one t by (auto simp: cache_ok_def live_def freed_def set_page_def)
qed

lemma smcDetach_free_attached:
  assumes at: "SEG_ATTACHED e (pdata c ! i) > 0" and i: "i < length (pdata c)" and me: "me e \<noteq> 0"
  shows "smcDetach e c k i True = (freed c i (pg_size (pdata c ! i)),
      smUtilDetach k (memKey (pdata c ! i)) (lockFile (pdata c ! i)) (SEG_ADDR e (pdata c ! i)) True)"
proof -
  let ?p = "pdata c ! i"
  have u: "memKey (smcUnlock e ?p) = memKey ?p" "lockFile (smcUnlock e ?p) = lockFile ?p"
    "pg_size (smcUnlock e ?p) = pg_size ?p" by (simp_all add: smcUnlock_def Let_def)
  have addr: "SEG_ADDR e (smcUnlock e ?p) = SEG_ADDR e ?p"
    using state_get_view(5) [OF me] state_set_view(2) [OF me]
    by (simp add: SEG_ADDR_def smcUnlock_def Let_def split: option.splits)
  show ?thesis using at i u addr
    by (simp add: smcDetach_def Let_def freed_def set_page_def)
qed

lemma freed_simps [simp]:
  "npages (freed c i sz) = npages c - 1" "pdata (freed c i sz) = (pdata c)[i := zero_page\<lparr>free_flag := True\<rparr>]"
  "mem_allocated (freed c i sz) = mem_allocated c - sz"
  by (simp_all add: freed_def)

section \<open>The next page\<close>

definition pending :: "env \<Rightarrow> smcPage \<Rightarrow> bool" where
  "pending e p \<longleftrightarrow> memKey p \<noteq> 0 \<and> \<not> ac_locked p \<and> (SEG_UTIME e p = 0 \<or> SEG_UTIME e p < SEG_LTIME e p)"

lemma older_cases:
  "\<not> pending e (ps ! i) \<Longrightarrow> older e ps oldest i = oldest"
  "pending e (ps ! i) \<Longrightarrow> older e ps None i = Some i"
  "pending e (ps ! i) \<Longrightarrow> older e ps (Some j) i = Some i \<or> older e ps (Some j) i = Some j"
  by (auto simp: pending_def older_def Let_def)

lemma older_fold:
  "fold (\<lambda>i o'. older e ps o' i) is o' = None \<longleftrightarrow> o' = None \<and> (\<forall>i \<in> set is. \<not> pending e (ps ! i))"
  "fold (\<lambda>i o'. older e ps o' i) is o' = Some j \<Longrightarrow> o' = Some j \<or> (j \<in> set is \<and> pending e (ps ! j))"
proof (induction "is" arbitrary: o')
  case (Cons i "is")
  {
    case 1
    show ?case
    proof (cases "pending e (ps ! i)")
      case True
      then have "older e ps o' i \<noteq> None" using older_cases [of e ps i] by (cases o') fastforce+
      then show ?thesis using Cons.IH(1) True by simp
    qed (simp add: older_cases Cons.IH(1))
  next
    case 2
    show ?case
    proof (cases "pending e (ps ! i)")
      case True
      then have "older e ps o' i = Some i \<or> older e ps o' i = o'" using older_cases [of e ps i] by (cases o') auto
      then show ?thesis using Cons.IH(2) [of "older e ps o' i"] 2 True by auto
    next
      case False
      then show ?thesis using Cons.IH(2) [of o'] 2 by (simp add: older_cases) blast
    qed
  }
qed auto

text \<open>Every page below the top has, or has room for, an entry of the calling process.\<close>

definition tables_ok :: "env \<Rightarrow> smCache \<Rightarrow> bool" where
  "tables_ok e c \<longleftrightarrow> me e \<noteq> 0 \<and> alive e (me e) \<and> top c \<le> length (pdata c) \<and> (\<forall>i < top c. state_ok (alive e) (pstate (pdata c ! i))
     \<and> (view (pstate (pdata c ! i)) (me e) = None \<longrightarrow> \<not> full (pstate (pdata c ! i))))"

lemma register_defined:
  assumes "me e \<noteq> 0" "alive e (me e)" "state_ok (alive e) (pstate p)"
    "view (pstate p) (me e) = None \<Longrightarrow> \<not> full (pstate p)"
  shows "\<exists>s. view (pstate (register e i p)) (me e) = Some s"
proof (cases "view (pstate p) (me e)")
  case None
  then obtain s sa' where "smStateAdd (alive e) (me e) (pstate p) (pg_ctime p) (bogus e i) 0 = (True, sa')"
    "view sa' = (view (pstate p))(me e \<mapsto> new_info (me e) (pg_ctime p) (bogus e i) 0 s)"
    using smStateAdd_new [OF assms(3,1,2)] assms(4) by metis
  then show ?thesis using None state_ok_defined [OF assms(3,1)] by (simp add: register_def)
next
  case (Some s)
  then show ?thesis using state_ok_defined [OF assms(3,1)] by (simp add: register_def)
qed

lemma register_same: "memKey (register e i p) = memKey p" "ac_locked (register e i p) = ac_locked p"
  by (simp_all add: register_def)

lemma register_all_simps [simp]:
  "top (register_all e c) = top c" "length (pdata (register_all e c)) = length (pdata c)"
  "i < length (pdata c) \<Longrightarrow> i < top c \<Longrightarrow> pdata (register_all e c) ! i = register e i (pdata c ! i)"
  by (simp_all add: register_all_def)

definition pending_set :: "env \<Rightarrow> smCache \<Rightarrow> nat set" where
  "pending_set e c = {i. i < top c \<and> pending e (pdata c ! i)}"

lemma seen_not_pending:
  assumes "view (pstate p) (me e) = Some s" "me e \<noteq> 0" "SEG_LTIME e p \<le> now e" "now e \<noteq> 0"
  shows "\<not> pending e (p\<lparr>pstate := smStateSetUTime (me e) (pstate p) (now e)\<rparr>)"
  using assms(1,3,4) state_get_view(2,3) [OF assms(2)] state_set_view(3) [OF assms(2)]
  by (simp add: pending_def SEG_UTIME_def SEG_LTIME_def)

lemma next_pass_cases:
  assumes t: "tables_ok e c" and now: "now e \<noteq> 0" "\<And>i. i < top c \<Longrightarrow> SEG_LTIME e (register e i (pdata c ! i)) \<le> now e"
  shows "case next_pass e c of
      (None, c') \<Rightarrow> c' = register_all e c \<and> pending_set e (register_all e c) = {}
    | (Some i, c') \<Rightarrow> i \<in> pending_set e (register_all e c)
        \<and> pending_set e c' = pending_set e (register_all e c) - {i}"
proof -
  let ?c = "register_all e c"
  let ?r = "fold (\<lambda>i o'. older e (pdata ?c) o' i) [0..<top c] None"
  have le: "top c \<le> length (pdata c)" using t by (simp add: tables_ok_def)
  show ?thesis
  proof (cases ?r)
    case None
    then have "pending_set e ?c = {}"
      using older_fold(1) [of e "pdata ?c" "[0..<top c]" None] by (auto simp: pending_set_def)
    then show ?thesis using None by (simp add: next_pass_def Let_def)
  next
    case (Some i)
    then have i: "i < top c" "pending e (pdata ?c ! i)"
      using older_fold(2) [of e "pdata ?c" "[0..<top c]" None i] by auto
    let ?p = "pdata ?c ! i"
    let ?p' = "?p\<lparr>pstate := smStateSetUTime (me e) (pstate ?p) (now e)\<rparr>"
    have reg: "?p = register e i (pdata c ! i)" using i(1) le by simp
    obtain s where s: "view (pstate ?p) (me e) = Some s"
      using register_defined [of e "pdata c ! i" i] t i(1) unfolding reg by (auto simp: tables_ok_def)
    have np: "\<not> pending e ?p'"
      by (rule seen_not_pending [OF s]) (use t now i(1) reg in \<open>auto simp: tables_ok_def\<close>)
    have "next_pass e c = (Some i, set_page ?c i ?p')" using Some by (simp add: next_pass_def Let_def)
    moreover have "pending_set e (set_page ?c i ?p') = pending_set e ?c - {i}"
      using np i(1) le by (auto simp: pending_set_def nth_list_update_if)
    ultimately show ?thesis using i by (simp add: pending_set_def)
  qed
qed

text \<open>Once the process is registered everywhere, a pass changes only the page it returns.\<close>

definition joined :: "env \<Rightarrow> smCache \<Rightarrow> bool" where
  "joined e c \<longleftrightarrow> tables_ok e c \<and> now e \<noteq> 0
     \<and> (\<forall>i < top c. view (pstate (pdata c ! i)) (me e) \<noteq> None \<and> SEG_LTIME e (pdata c ! i) \<le> now e)"

lemma joined_register:
  assumes "joined e c"
  shows "register_all e c = c" "\<And>i. i < top c \<Longrightarrow> register e i (pdata c ! i) = pdata c ! i"
proof -
  show r: "register e i (pdata c ! i) = pdata c ! i" if "i < top c" for i
    using assms that state_ok_defined [of "alive e" "pstate (pdata c ! i)" "me e"]
    by (auto simp: joined_def tables_ok_def register_def)
  have "map (\<lambda>i. if i < top c then register e i (pdata c ! i) else pdata c ! i) [0..<length (pdata c)] = pdata c"
    using r by (intro nth_equalityI) auto
  then show "register_all e c = c" by (simp add: register_all_def)
qed

lemma register_state_ok:
  assumes "me e \<noteq> 0" "alive e (me e)" "state_ok (alive e) (pstate p)"
    "view (pstate p) (me e) = None \<Longrightarrow> \<not> full (pstate p)"
  shows "state_ok (alive e) (pstate (register e i p))"
proof (cases "view (pstate p) (me e)")
  case None
  then obtain s sa' where "smStateAdd (alive e) (me e) (pstate p) (pg_ctime p) (bogus e i) 0 = (True, sa')"
    "state_ok (alive e) sa'"
    using smStateAdd_new [OF assms(3,1,2)] assms(4) by metis
  then show ?thesis using assms(3) by (simp add: register_def)
next
  case (Some s)
  then show ?thesis using assms(3) state_ok_defined [OF assms(3,1)] by (simp add: register_def)
qed

lemma next_pass_joined:
  assumes "joined e c" "next_pass e c = (Some i, c')"
  shows "joined e c'"
proof -
  have t: "tables_ok e c" using assms(1) by (simp add: joined_def)
  have r: "register_all e c = c" by (rule joined_register(1) [OF assms(1)])
  have c': "c' = set_page c i ((pdata c ! i)\<lparr>pstate := smStateSetUTime (me e) (pstate (pdata c ! i)) (now e)\<rparr>)"
    using assms(2) by (auto simp: next_pass_def Let_def r split: option.splits)
  have m: "me e \<noteq> 0" using t by (simp add: tables_ok_def)
  have P: "state_ok (alive e) (pstate (pdata c' ! j)) \<and> view (pstate (pdata c' ! j)) (me e) \<noteq> None
      \<and> SEG_LTIME e (pdata c' ! j) \<le> now e" if "j < top c" for j
  proof (cases "j = i")
    case True
    then have "pdata c' ! j = (pdata c ! i)\<lparr>pstate := smStateSetUTime (me e) (pstate (pdata c ! i)) (now e)\<rparr>"
      using that t c' by (simp add: tables_ok_def)
    then show ?thesis
      using assms(1) that True state_set_ok(3) state_set_view(3) [OF m] state_get_view(2) [OF m]
      by (auto simp: joined_def tables_ok_def SEG_LTIME_def)
  next
    case False
    then show ?thesis using assms(1) that c' by (simp add: joined_def tables_ok_def)
  qed
  have s: "top c' = top c" "length (pdata c') = length (pdata c)" using c' by simp_all
  show ?thesis unfolding joined_def tables_ok_def s
    using P t assms(1) by (auto simp: tables_ok_def joined_def dest!: P)
qed

text \<open>Polling until nothing is found, at most \<open>n\<close> times.\<close>

primrec drain :: "env \<Rightarrow> nat \<Rightarrow> smCache \<Rightarrow> nat list" where
  "drain e 0 c = []"
| "drain e (Suc n) c = (case smcNextPage 1 e id c 0 of
      Inr (Some i, c) \<Rightarrow> i # drain e n c | _ \<Rightarrow> [])"

lemma drain_joined:
  assumes "joined e c" "card (pending_set e c) \<le> n"
  shows "distinct (drain e n c) \<and> set (drain e n c) = pending_set e c"
  using assms
proof (induction n arbitrary: c)
  case 0
  have "finite (pending_set e c)" by (simp add: pending_set_def)
  then show ?case using 0 by simp
next
  case (Suc n)
  have fin: "finite (pending_set e c)" by (simp add: pending_set_def)
  have t: "tables_ok e c" "now e \<noteq> 0" using Suc.prems(1) by (simp_all add: joined_def)
  have r: "register_all e c = c" "\<And>i. i < top c \<Longrightarrow> register e i (pdata c ! i) = pdata c ! i"
    using joined_register [OF Suc.prems(1)] by auto
  have lt: "\<And>i. i < top c \<Longrightarrow> SEG_LTIME e (register e i (pdata c ! i)) \<le> now e"
    using Suc.prems(1) r(2) by (simp add: joined_def)
  note np = next_pass_cases [OF t lt, unfolded r(1)]
  show ?case
  proof (cases "next_pass e c")
    case (Pair o' c')
    show ?thesis
    proof (cases o')
      case None
      then show ?thesis using np Pair by simp
    next
      case (Some i)
      then have i: "i \<in> pending_set e c" "pending_set e c' = pending_set e c - {i}" using np Pair by auto
      have "card (pending_set e c') \<le> n" using i fin Suc.prems(2) by simp
      then have "distinct (drain e n c') \<and> set (drain e n c') = pending_set e c'"
        using Suc.IH next_pass_joined [OF Suc.prems(1)] Pair Some by blast
      then show ?thesis using Pair Some i by auto
    qed
  qed
qed

text \<open>
  The pages that are due for a process: in use, not locked, and new to it, never seen by it, or
  written since it last saw them.  \<open>written p\<close> is when the page was last written, as the process
  knows it.
\<close>

definition due :: "env \<Rightarrow> smCache \<Rightarrow> nat set" where
  "due e c = {i. i < top c \<and> memKey (pdata c ! i) \<noteq> 0 \<and> \<not> ac_locked (pdata c ! i)
     \<and> (case view (pstate (pdata c ! i)) (me e) of None \<Rightarrow> True | Some s \<Rightarrow> si_utime s = 0 \<or> si_utime s < si_ltime s)}"

definition written :: "env \<Rightarrow> smcPage \<Rightarrow> rat" where
  "written e p = (case view (pstate p) (me e) of None \<Rightarrow> pg_ctime p | Some s \<Rightarrow> si_ltime s)"

lemma register_view:
  assumes "me e \<noteq> 0" "alive e (me e)" "state_ok (alive e) (pstate p)" "view (pstate p) (me e) = None \<Longrightarrow> \<not> full (pstate p)"
  shows "\<exists>s. view (pstate (register e i p)) (me e) = Some s \<and> si_ltime s = written e p
     \<and> si_utime s = (case view (pstate p) (me e) of None \<Rightarrow> 0 | Some s \<Rightarrow> si_utime s)"
proof (cases "view (pstate p) (me e)")
  case None
  then obtain s sa' where "smStateAdd (alive e) (me e) (pstate p) (pg_ctime p) (bogus e i) 0 = (True, sa')"
    "view sa' = (view (pstate p))(me e \<mapsto> new_info (me e) (pg_ctime p) (bogus e i) 0 s)"
    using smStateAdd_new [OF assms(3,1,2)] assms(4) by metis
  then show ?thesis using None state_ok_defined [OF assms(3,1)] by (simp add: register_def written_def new_info_def)
next
  case (Some s)
  then show ?thesis using state_ok_defined [OF assms(3,1)] by (simp add: register_def written_def)
qed

lemma register_all_joined:
  assumes t: "tables_ok e c" and now: "now e \<noteq> 0" "\<forall>i < top c. written e (pdata c ! i) \<le> now e"
  shows "joined e (register_all e c)" "pending_set e (register_all e c) = due e c"
proof -
  have me: "me e \<noteq> 0" "alive e (me e)" "top c \<le> length (pdata c)" using t by (simp_all add: tables_ok_def)
  have st: "state_ok (alive e) (pstate (pdata c ! i))" "view (pstate (pdata c ! i)) (me e) = None \<Longrightarrow> \<not> full (pstate (pdata c ! i))"
    if "i < top c" for i using t that by (auto simp: tables_ok_def)
  have reg: "pdata (register_all e c) ! i = register e i (pdata c ! i)" if "i < top c" for i using me(3) that by simp
  have v: "\<exists>s. view (pstate (pdata (register_all e c) ! i)) (me e) = Some s \<and> si_ltime s = written e (pdata c ! i)
     \<and> si_utime s = (case view (pstate (pdata c ! i)) (me e) of None \<Rightarrow> 0 | Some s \<Rightarrow> si_utime s)" if "i < top c" for i
    unfolding reg [OF that] by (rule register_view [OF me(1, 2) st [OF that]])
  show "joined e (register_all e c)"
    unfolding joined_def tables_ok_def register_all_simps
  proof (intro conjI allI impI)
    fix i assume i: "i < top c"
    show "state_ok (alive e) (pstate (pdata (register_all e c) ! i))" unfolding reg [OF i] by (rule register_state_ok [OF me(1, 2) st [OF i]])
    show "view (pstate (pdata (register_all e c) ! i)) (me e) \<noteq> None" using v [OF i] by auto
    then show "view (pstate (pdata (register_all e c) ! i)) (me e) = None \<Longrightarrow> \<not> full (pstate (pdata (register_all e c) ! i))" by simp
    show "SEG_LTIME e (pdata (register_all e c) ! i) \<le> now e"
      using v [OF i] now(2) i by (auto simp: SEG_LTIME_def state_get_view [OF me(1)])
  qed (use me now in simp_all)
  have "pending e (pdata (register_all e c) ! i) \<longleftrightarrow> i \<in> due e c" if i: "i < top c" for i
  proof -
    obtain s where s: "view (pstate (pdata (register_all e c) ! i)) (me e) = Some s" "si_ltime s = written e (pdata c ! i)"
      "si_utime s = (case view (pstate (pdata c ! i)) (me e) of None \<Rightarrow> 0 | Some s \<Rightarrow> si_utime s)" using v [OF i] by blast
    have "memKey (pdata (register_all e c) ! i) = memKey (pdata c ! i)" "ac_locked (pdata (register_all e c) ! i) = ac_locked (pdata c ! i)"
      using register_same reg [OF i] by simp_all
    moreover have "SEG_UTIME e (pdata (register_all e c) ! i) = si_utime s" "SEG_LTIME e (pdata (register_all e c) ! i) = si_ltime s"
      using s(1) by (simp_all add: SEG_UTIME_def SEG_LTIME_def state_get_view [OF me(1)])
    ultimately show ?thesis using i s(2, 3)
      by (auto simp: pending_def due_def written_def split: option.splits)
  qed
  then show "pending_set e (register_all e c) = due e c" by (auto simp: pending_set_def due_def)
qed

lemma next_pass_registered:
  assumes "joined e (register_all e c)"
  shows "next_pass e (register_all e c) = next_pass e c"
  by (simp add: next_pass_def joined_register(1) [OF assms])

lemma drain_due:
  assumes t: "tables_ok e c" and now: "now e \<noteq> 0" "\<forall>i < top c. written e (pdata c ! i) \<le> now e" and n: "card (due e c) \<le> n"
  shows "distinct (drain e n c) \<and> set (drain e n c) = due e c"
proof -
  note j = register_all_joined [OF t now]
  have "drain e n c = drain e n (register_all e c)" by (cases n) (simp_all add: next_pass_registered [OF j(1)])
  then show ?thesis using drain_joined [OF j(1)] n unfolding j(2) by simp
qed

section \<open>Pruning\<close>

definition void :: "smcPage \<Rightarrow> bool" where
  "void p \<longleftrightarrow> memKey p = 0"

text \<open>What the loop of \<open>smcPrune\<close> does to the pages: it skips the page that moves into a gap.\<close>

fun squeeze :: "smcPage list \<Rightarrow> smcPage list" where
  "squeeze [] = []"
| "squeeze [p] = (if void p then [] else [p])"
| "squeeze (p # q # ps) = (if void p then q # squeeze ps else p # squeeze (q # ps))"

lemma length_fold_shift: "length (fold (\<lambda>j a. a[j := a ! Suc j]) js xs) = length xs"
  by (induction js arbitrary: xs) auto

lemma fold_shift_append:
  "\<forall>j \<in> set js. Suc j < length xs \<Longrightarrow>
   fold (\<lambda>j a. a[j := a ! Suc j]) js (xs @ ys) = fold (\<lambda>j a. a[j := a ! Suc j]) js xs @ ys"
proof (induction js arbitrary: xs)
  case (Cons j js)
  then have "(xs @ ys)[j := (xs @ ys) ! Suc j] = xs[j := xs ! Suc j] @ ys"
    by (simp add: list_update_append nth_append)
  then show ?case using Cons.IH [of "xs[j := xs ! Suc j]"] Cons.prems by simp
qed simp

lemma close_gap_eq: "close_gap (as @ p # bs @ ds) (length as) (length as + 1 + length bs) = as @ bs @ zero_page # ds"
proof -
  let ?xs = "as @ p # bs" and ?t = "length as + 1 + length bs"
  have "fold (\<lambda>j a. a[j := a ! Suc j]) [length as..<?t - 1] (?xs @ ds)
      = fold (\<lambda>j a. a[j := a ! Suc j]) [length as..<length ?xs - 1] ?xs @ ds"
    by (subst fold_shift_append) auto
  also have "\<dots> = (as @ bs @ [last ?xs]) @ ds"
    using fold_shift_down [of "length as" ?xs] by simp
  finally have "fold (\<lambda>j a. a[j := a ! Suc j]) [length as..<?t - 1] (as @ p # bs @ ds) = (as @ bs) @ last ?xs # ds"
    by simp
  moreover have m: "max (length as) (?t - 1) = length (as @ bs)" by simp
  have "((as @ bs) @ last ?xs # ds)[max (length as) (?t - 1) := zero_page] = (as @ bs) @ zero_page # ds"
    unfolding m by (rule list_update_length)
  ultimately show ?thesis unfolding close_gap_def by simp
qed

lemma prune_loop_squeeze:
  "t = length as + length ps \<Longrightarrow>
   prune_loop (as @ ps @ ds) (length as) t
     = (as @ squeeze ps @ replicate (length ps - length (squeeze ps)) zero_page @ ds, length as + length (squeeze ps))"
proof (induction ps arbitrary: as ds t rule: squeeze.induct)
  case 1
  then show ?case by (subst prune_loop.simps) simp
next
  case (2 p)
  show ?case
  proof (cases "void p")
    case True
    have "close_gap (as @ p # ds) (length as) (length as + 1) = as @ zero_page # ds"
      using close_gap_eq [of as p "[]" ds] by simp
    then show ?thesis using 2 True
      by (subst prune_loop.simps) (simp add: void_def, subst prune_loop.simps, simp)
  next
    case False
    then show ?thesis using 2
      by (subst prune_loop.simps) (simp add: void_def, subst prune_loop.simps, simp)
  qed
next
  case (3 p q ps)
  show ?case
  proof (cases "void p")
    case True
    have "close_gap (as @ (p # q # ps) @ ds) (length as) t = (as @ [q]) @ ps @ (zero_page # ds)"
      using close_gap_eq [of as p "q # ps" ds] 3(3) by simp
    moreover have "prune_loop ((as @ [q]) @ ps @ (zero_page # ds)) (length (as @ [q])) (t - 1)
      = ((as @ [q]) @ squeeze ps @ replicate (length ps - length (squeeze ps)) zero_page @ (zero_page # ds),
         length (as @ [q]) + length (squeeze ps))"
      using 3(3) by (intro 3(1) True) simp
    moreover have "memKey ((as @ (p # q # ps) @ ds) ! length as) = 0" using True by (simp add: void_def)
    moreover have "length (squeeze xs) \<le> length xs" for xs
      by (induction xs rule: squeeze.induct) auto
    ultimately show ?thesis using True 3(3)
      by (subst prune_loop.simps) (simp add: Suc_diff_le replicate_app_Cons_same)
  next
    case False
    moreover have "prune_loop ((as @ [p]) @ (q # ps) @ ds) (length (as @ [p])) t
      = ((as @ [p]) @ squeeze (q # ps) @ replicate (length (q # ps) - length (squeeze (q # ps))) zero_page @ ds,
         length (as @ [p]) + length (squeeze (q # ps)))"
      using 3(3) by (intro 3(2) False) simp
    moreover have "memKey ((as @ (p # q # ps) @ ds) ! length as) \<noteq> 0" using False by (simp add: void_def)
    ultimately show ?thesis using 3(3) by (subst prune_loop.simps) simp
  qed
qed

lemma smcPrune_squeeze:
  assumes "top c \<le> length (pdata c)"
  shows "take (top (smcPrune c)) (pdata (smcPrune c)) = squeeze (take (top c) (pdata c))"
    "top (smcPrune c) = length (squeeze (take (top c) (pdata c)))" "npages (smcPrune c) = npages c"
proof -
  have "prune_loop ([] @ take (top c) (pdata c) @ drop (top c) (pdata c)) (length ([] :: smcPage list)) (top c)
    = ([] @ squeeze (take (top c) (pdata c)) @ replicate (length (take (top c) (pdata c)) - length (squeeze (take (top c) (pdata c)))) zero_page
        @ drop (top c) (pdata c), length ([] :: smcPage list) + length (squeeze (take (top c) (pdata c))))"
    using assms by (intro prune_loop_squeeze) simp
  then show "take (top (smcPrune c)) (pdata (smcPrune c)) = squeeze (take (top c) (pdata c))"
    "top (smcPrune c) = length (squeeze (take (top c) (pdata c)))" "npages (smcPrune c) = npages c"
    by (simp_all add: smcPrune_def Let_def)
qed

text \<open>No two unused slots next to each other.\<close>

fun spaced :: "smcPage list \<Rightarrow> bool" where
  "spaced (p # q # ps) \<longleftrightarrow> \<not> (void p \<and> void q) \<and> spaced (q # ps)"
| "spaced _ \<longleftrightarrow> True"

lemma squeeze_spaced: "spaced ps \<Longrightarrow> squeeze ps = filter (\<lambda>p. \<not> void p) ps"
proof (induction ps rule: squeeze.induct)
  case (3 p q ps)
  moreover have "spaced ps" using 3(3) by (cases ps) auto
  ultimately show ?case by auto
qed auto

lemma squeeze_live: "list_all (\<lambda>p. \<not> void p) ps \<Longrightarrow> squeeze ps = ps"
  by (induction ps rule: squeeze.induct) auto

lemma squeeze_append_live: "list_all (\<lambda>p. \<not> void p) as \<Longrightarrow> squeeze (as @ ps) = as @ squeeze ps"
proof (induction as)
  case (Cons a as)
  then show ?case by (cases "as @ ps") auto
qed simp

lemma squeeze_two_voids:
  assumes "list_all (\<lambda>p. \<not> void p) as" "void v"
  shows "squeeze (as @ v # w # ps) = as @ w # squeeze ps"
  using assms by (simp add: squeeze_append_live)

section \<open>Resetting\<close>

lemma smcAttach_simps:
  "npages (fst (smcAttach e c k i)) = npages c" "top (fst (smcAttach e c k i)) = top c"
  by (simp_all add: smcAttach_def Let_def split: prod.splits)

lemma smcDetach_npages: "npages (fst (smcDetach e c k i True)) = npages c - 1"
proof -
  obtain c1 k1 where a: "smcAttach e c k i = (c1, k1)" by (cases "smcAttach e c k i")
  then have "npages c1 = npages c" using smcAttach_simps(1) [of e c k i] by simp
  then show ?thesis using a by (simp add: smcDetach_def Let_def)
qed

lemma reset_npages: "npages (fst (fold (\<lambda>i (c, k). smcDetach e c k i True) is (c, k))) = npages c - int (length is)"
proof (induction "is" arbitrary: c k)
  case (Cons i "is")
  obtain c1 k1 where d: "smcDetach e c k i True = (c1, k1)" by (cases "smcDetach e c k i True")
  have "npages c1 = npages c - 1" using d smcDetach_npages [of e c k i] by simp
  then show ?case using Cons.IH [of c1 k1] d by simp
qed simp

section \<open>Properties\<close>

text \<open>
  C11: \<open>smcGetPage\<close> hands out the first unused slot, or the slot at the top: the page is
  initialised, attached to the caller at a new mapping, carries the requested type and lock
  state and a segment header with the page number, key, requested data size and the cache's
  sequence number and directory; no other page changes, the page count grows by one, and the
  cache stays consistent.
\<close>

theorem smcGetPage_fresh:
  assumes ok: "cache_ok c" and can: "can_get e c k sz"
  shows "\<exists>i c' k' s. smcGetPage e wait c k type sz True lock = Inr (Some i, c', k') \<and> cache_ok c'
     \<and> i \<le> top c \<and> (i < top c \<longrightarrow> memKey (pdata c ! i) = 0) \<and> (\<forall>j < i. memKey (pdata c ! j) \<noteq> 0)
     \<and> npages c' = npages c + 1 \<and> (\<forall>j. j \<noteq> i \<longrightarrow> pdata c' ! j = pdata c ! j)
     \<and> memKey (pdata c' ! i) \<noteq> 0 \<and> pg_type (pdata c' ! i) = type \<and> ac_locked (pdata c' ! i) = lock
     \<and> initialized (pdata c' ! i) \<and> SEG_ATTACHED e (pdata c' ! i) = 1
     \<and> maps k' (SEG_ADDR e (pdata c' ! i)) = Some (memKey (pdata c' ! i))
     \<and> segs k' (memKey (pdata c' ! i)) = Some s \<and> sg_nattch s = 1
     \<and> seg_pagenum (sg_hdr s) = i \<and> seg_memKey (sg_hdr s) = memKey (pdata c' ! i)
     \<and> dsize (sg_hdr s) = word_of_int sz \<and> seg_seqno (sg_hdr s) = seqno c \<and> seg_dirpath (sg_hdr s) = dirpath c"
proof -
  let ?i = "first_slot c" and ?p = "got_page e c k type sz lock"
  have g: "?i < length (pdata c)" "me e \<noteq> 0" "memKey ?p \<noteq> 0" using can by (auto simp: can_get_def Let_def)
  have pg: "pdata (got_cache e c k type sz lock) ! ?i = ?p" using g(1) by (simp add: got_cache_def)
  have "memKey (pdata c ! j) \<noteq> 0" if "j < ?i" for j
  proof -
    have l: "j < length (takeWhile (\<lambda>p. memKey p \<noteq> 0) (take (top c) (pdata c)))"
      using that by (simp add: first_slot_def)
    then have "takeWhile (\<lambda>p. memKey p \<noteq> 0) (take (top c) (pdata c)) ! j = take (top c) (pdata c) ! j"
      by (rule takeWhile_nth)
    moreover have "memKey (takeWhile (\<lambda>p. memKey p \<noteq> 0) (take (top c) (pdata c)) ! j) \<noteq> 0"
      using nth_mem [OF l] set_takeWhileD by fastforce
    moreover have "j < top c" using that slot_first(2) [OF ok] by simp
    ultimately show ?thesis by simp
  qed
  moreover have "got_page e c k type sz True = got_page e c k type sz lock\<lparr>ac_locked := True\<rparr>"
    by (simp add: got_page_def Let_def)
  ultimately show ?thesis
    using smcGetPage_run [OF ok can, of wait type lock] got_cache_ok [OF ok can, of type lock]
      slot_first(2,3) [OF ok] g pg got_page_state [OF g(2), of c k type sz lock]
    by (intro exI [of _ ?i] exI [of _ "got_cache e c k type sz lock"] exI [of _ "got_kernel e c k type sz"]
        exI [of _ "the (segs (got_kernel e c k type sz) (memKey ?p))"])
      (simp add: got_kernel_def Let_def new_header_def, simp add: got_cache_def)
qed

definition env0 :: env where
  "env0 = \<lparr>me = 42, uid = 500, alive = (\<lambda>_. True), now = 100, pgsize = 4096, sizeof_seg = 33700, ftok = (\<lambda>s. 7 + int (length s)),
     lock_ok = (\<lambda>_. True), calloc_ok = True, is_root = False, mlock_ok = False, smc_ptr = 5, bogus = (\<lambda>i. i + 1)\<rparr>"

definition kernel0 :: kernel where
  "kernel0 = \<lparr>segs = (\<lambda>_. None), maps = (\<lambda>_. None), next_addr = 1, next_id = 1, lockfiles = (\<lambda>_. False), privates = 0\<rparr>"

definition cache0 :: smCache where
  "cache0 = \<lparr>c_memKey = 3, c_shmid = 9, cache_addr = 5, cache_size = 8192, c_nattached = 1, c_vm_locked = False,
     c_ctime = 1, dirpath = ''./'', froot = ''image'', seqno = 4, np_max = 8, np_hiwater = 0, mem_allocated = 8192,
     mem_avail = 1000000, cache_path = ''/tmp/.smc'', throttle_ntry = 60, c_pstate = zero_state, npages = 0, top = 0,
     pdata = replicate 8 zero_page\<rparr>"

lemma cache0_ok: "cache_ok cache0" "can_get env0 cache0 kernel0 1000"
  by (simp_all add: cache_ok_def live_def cache0_def can_get_def Let_def first_slot_def env0_def kernel0_def
      MAX_SEG_SIZE_def SZ_FNAME_def show_nat.simps page_align_def)

theorem smcGetPage_fresh_witness:
  "\<exists>i c' k'. smcGetPage env0 id cache0 kernel0 2 1000 True True = Inr (Some i, c', k')
     \<and> npages c' = 1 \<and> pg_type (pdata c' ! i) = 2 \<and> ac_locked (pdata c' ! i)"
proof -
  have "npages cache0 = 0" by (simp add: cache0_def)
  then show ?thesis using smcGetPage_fresh [OF cache0_ok, of id 2 True] by (metis add_0)
qed

text \<open>
  C29: a process that gets a page and then releases it gives everything back to the system: the
  segment and its lock file are gone, the mapping too, the page count is what it was and the
  cache is consistent.  The memory counter is not restored: the page was charged with its
  unaligned size and is credited with the aligned one (modulo 2 to the 32).
\<close>

theorem smcGetPage_smcDetach:
  assumes ok: "cache_ok c" and can: "can_get e c k sz" and big: "123 \<le> unat (page_align e (raw_size e sz))"
  shows "\<exists>i c1 k1 c2 k2. smcGetPage e wait c k type sz True lock = Inr (Some i, c1, k1)
     \<and> smcDetach e c1 k1 i True = (c2, k2) \<and> cache_ok c2
     \<and> segs k2 = segs k \<and> lockfiles k2 = lockfiles k \<and> maps k2 = maps k \<and> npages c2 = npages c
     \<and> memKey (pdata c2 ! i) = 0 \<and> free_flag (pdata c2 ! i)
     \<and> mem_allocated c2 = mem_allocated c + raw_size e sz - page_align e (raw_size e sz)"
proof -
  let ?i = "first_slot c" and ?p = "got_page e c k type sz lock"
  let ?c1 = "got_cache e c k type sz lock" and ?k1 = "got_kernel e c k type sz"
  have g: "?i < length (pdata c)" "me e \<noteq> 0" "memKey ?p \<noteq> 0" "segs k (memKey ?p) = None"
    "\<not> lockfiles k (lockFile ?p)" "maps k (next_addr k) = None"
    using can by (auto simp: can_get_def Let_def)
  have pg: "pdata ?c1 ! ?i = ?p" "length (pdata ?c1) = length (pdata c)" using g(1) by (simp_all add: got_cache_def)
  have top: "?i < top ?c1" using slot_first(2) [OF ok] by (auto simp: got_cache_def)
  have det: "smcDetach e ?c1 ?k1 ?i True = (freed ?c1 ?i (pg_size ?p),
      smUtilDetach ?k1 (memKey ?p) (lockFile ?p) (SEG_ADDR e ?p) True)"
    using smcDetach_free_attached [of e ?c1 ?i ?k1] pg g got_page_state [OF g(2), of c k type sz lock] by simp
  have k2: "segs (smUtilDetach ?k1 (memKey ?p) (lockFile ?p) (SEG_ADDR e ?p) True) = segs k
     \<and> lockfiles (smUtilDetach ?k1 (memKey ?p) (lockFile ?p) (SEG_ADDR e ?p) True) = lockfiles k
     \<and> maps (smUtilDetach ?k1 (memKey ?p) (lockFile ?p) (SEG_ADDR e ?p) True) = maps k"
    using g big got_page_state(1) [OF g(2), of c k type sz lock]
    by (auto simp: smUtilDetach_def got_kernel_def Let_def shmdt_def fun_eq_iff)
  have "cache_ok (freed ?c1 ?i (pg_size ?p))"
    using freed_ok [OF got_cache_ok [OF ok can] top] pg(1) g(3) by simp
  moreover have "npages (freed ?c1 ?i (pg_size ?p)) = npages c"
    "mem_allocated (freed ?c1 ?i (pg_size ?p)) = mem_allocated c + raw_size e sz - page_align e (raw_size e sz)"
    by (simp_all add: got_cache_def)
  ultimately show ?thesis
    using smcGetPage_run [OF ok can, of wait type lock] det k2 pg g(1)
    by (intro exI [of _ ?i] exI [of _ ?c1] exI [of _ ?k1] exI conjI) (assumption | simp)+
qed

theorem smcGetPage_smcDetach_witness:
  "\<exists>i c1 k1 c2 k2. smcGetPage env0 id cache0 kernel0 2 1000 True False = Inr (Some i, c1, k1)
     \<and> smcDetach env0 c1 k1 i True = (c2, k2) \<and> npages c2 = 0 \<and> mem_allocated c2 = 8192 + 34703 - 36864"
proof -
  have r: "raw_size env0 1000 = 34703" "page_align env0 34703 = 36864"
    by (simp_all add: raw_size_def env0_def page_align_def)
  have b: "123 \<le> unat (page_align env0 (raw_size env0 1000))" unfolding r by simp
  have n: "npages cache0 = 0" "mem_allocated cache0 = 8192" by (simp_all add: cache0_def)
  from smcGetPage_smcDetach [OF cache0_ok b, of id 2 False] show ?thesis unfolding r n by blast
qed


definition written_page :: smcPage where
  "written_page = zero_page\<lparr>memKey := 9, pstate := zero_state[0 := zero_info\<lparr>si_pid := 42, si_ltime := 50\<rparr>]\<rparr>"

lemma written_page_facts:
  "view (pstate written_page) 42 = Some (zero_info\<lparr>si_pid := 42, si_ltime := 50\<rparr>)"
  "state_ok al (pstate written_page) \<longleftrightarrow> al 42"
  by (simp_all add: written_page_def view_def state_ok_def pids_ok_def zero_state_def MAX_PROCS_def zero_info_def
      eval_nat_numeral)

definition new_page :: smcPage where
  "new_page = zero_page\<lparr>memKey := 11, pstate := zero_state[0 := zero_info\<lparr>si_pid := 7\<rparr>]\<rparr>"

lemma new_page_facts:
  "view (pstate new_page) 42 = None" "\<not> full (pstate new_page)" "memKey new_page \<noteq> 0" "\<not> ac_locked new_page" "pg_ctime new_page = 0"
  "state_ok al (pstate new_page) \<longleftrightarrow> al 7"
  by (simp_all add: new_page_def view_def state_ok_def pids_ok_def full_def zero_state_def MAX_PROCS_def zero_info_def zero_page_def eval_nat_numeral)


lemma view_none_setters:
  assumes "pid \<noteq> 0" "view st pid = None"
  shows "smStateSetUTime pid st t = st" "smStateGetUTime pid st = 0" "smStateGetLTime pid st = 0"
  using view_lookup [OF assms(1), of st] assms(2)
  by (auto simp: state_access_defs split: option.splits)

text \<open>
  a page whose process table is full has no room for a new reader.  \<open>smcNextPage\<close> cannot
  register the reader there and cannot record that it has seen the page: the page is returned
  again by every call.
\<close>

theorem smcNextPage_full_table_repeats:
  assumes p: "pdata c = [p]" "top c = 1" "memKey p \<noteq> 0" "\<not> ac_locked p"
    and full: "state_ok (alive e) (pstate p)" "full (pstate p)" "view (pstate p) (me e) = None" "me e \<noteq> 0"
  shows "smcNextPage 1 e wait c timeout = Inr (Some 0, c)"
proof -
  have r: "register e 0 p = p"
    using smStateAdd_full [OF full(1,4,3,2)] state_ok_defined [OF full(1,4)] full(3)
    by (simp add: register_def)
  have ra: "register_all e c = c" using p r by (simp add: register_all_def)
  have "next_pass e c = (Some 0, c)"
    using p r view_none_setters [OF full(4,3)]
    by (simp add: next_pass_def ra older_def Let_def SEG_UTIME_def SEG_LTIME_def set_page_def)
  then show ?thesis by simp
qed

theorem smcNextPage_full_table_repeats_witness:
  "\<exists>c. smcNextPage 1 env0 id c 0 = Inr (Some 0, c)"
proof -
  let ?st = "map (\<lambda>i. zero_info\<lparr>si_pid := i\<rparr>) [1, 2, 3, 4, 5, 6, 7, 8]"
  let ?p = "zero_page\<lparr>memKey := 9, pstate := ?st\<rparr>"
  let ?c = "cache0\<lparr>top := 1, pdata := [?p]\<rparr>"
  have s: "state_ok (alive env0) ?st" "full ?st" "view ?st 42 = None" "me env0 = 42"
    by (simp_all add: state_ok_def pids_ok_def MAX_PROCS_def env0_def full_def view_def)
  have "smcNextPage 1 env0 id ?c 0 = Inr (Some 0, ?c)"
    by (rule smcNextPage_full_table_repeats [of ?c ?p]) (use s in simp_all)
  then show ?thesis by blast
qed

primrec exp_calls :: "env \<Rightarrow> nat \<Rightarrow> exp_iter \<Rightarrow> smCache \<Rightarrow> rat \<Rightarrow> (nat option) list res" where
  "exp_calls e 0 it c xid = Inr []"
| "exp_calls e (Suc n) it c xid = bind_res (smcNextByExpID e it c xid) (\<lambda>(r, it, c).
     bind_res (exp_calls e n it c xid) (\<lambda>rs. Inr (r # rs)))"

lemma exp_calls_rest:
  assumes "listID it = xid" "0 \<le> xid" "length (plist it) < MAX_ID_PAGES" "curPage it < length (plist it)"
  shows "exp_calls e (length (plist it) - curPage it) it c xid = Inr (map Some (drop (Suc (curPage it)) (plist it)) @ [None])"
  using assms
proof (induction "length (plist it) - curPage it" arbitrary: it)
  case (Suc n)
  show ?case
  proof (cases "Suc (curPage it) < length (plist it)")
    case True
    let ?it = "it\<lparr>curPage := curPage it + 1\<rparr>"
    have n: "n = length (plist ?it) - curPage ?it" using Suc.hyps(2) by simp
    have "exp_calls e n ?it c xid = Inr (map Some (drop (Suc (curPage ?it)) (plist ?it)) @ [None])"
      unfolding n using Suc.prems True by (intro Suc.hyps(1) n) simp_all
    moreover have "smcNextByExpID e it c xid = Inr (Some (plist it ! Suc (curPage it)), ?it, c)"
      using Suc.prems True by (simp add: smcNextByExpID_def plist_get_def)
    ultimately show ?thesis using True Suc.hyps(2) by (simp flip: Suc.hyps(2) Cons_nth_drop_Suc)
  next
    case False
    then have "n = 0" "drop (Suc (curPage it)) (plist it) = []" using Suc.hyps(2) by simp_all
    moreover have "smcNextByExpID e it c xid = Inr (None, it\<lparr>listID := 0\<rparr>, c)"
      using Suc.prems False by (simp add: smcNextByExpID_def plist_get_def)
    ultimately show ?thesis by (simp flip: Suc.hyps(2))
  qed
qed simp

text \<open>
  \<open>smcNextByExpID\<close>, called again and again with the same exposure ID, returns the unlocked
  pages whose ID matches within the tolerance, in page order, each once, and then NULL.
\<close>

theorem smcNextByExpID_iterates:
  assumes "0 \<le> xid" "listID it \<noteq> xid" "exp_matches c xid \<noteq> []" "length (exp_matches c xid) < MAX_ID_PAGES"
  shows "exp_calls e (Suc (length (exp_matches c xid))) it c xid = Inr (map Some (exp_matches c xid) @ [None])"
proof -
  let ?ps = "exp_matches c xid" and ?it = "\<lparr>listID = xid, curPage = 0, plist = exp_matches c xid\<rparr>"
  have "exp_calls e (length (plist ?it) - curPage ?it) ?it c xid = Inr (map Some (drop (Suc (curPage ?it)) (plist ?it)) @ [None])"
    using assms by (intro exp_calls_rest) simp_all
  then have "exp_calls e (length ?ps) ?it c xid = Inr (map Some (drop 1 ?ps) @ [None])" by simp
  moreover have "smcNextByExpID e it c xid = Inr (Some (hd ?ps), ?it, c)"
    using assms by (simp add: smcNextByExpID_def Let_def plist_get_def hd_conv_nth)
  ultimately show ?thesis using assms(3) by (cases ?ps) simp_all
qed

definition exposed_page :: "rat \<Rightarrow> smcPage" where
  "exposed_page x = zero_page\<lparr>memKey := 9, expID := x\<rparr>"

theorem smcNextByExpID_iterates_witness:
  "\<exists>c it. exp_calls env0 3 it c 7 = Inr [Some 0, Some 2, None]"
proof -
  let ?c = "cache0\<lparr>top := 3, pdata := [exposed_page 7, exposed_page 8, exposed_page 7]\<rparr>"
  let ?it = "\<lparr>listID = 0, curPage = 0, plist = []\<rparr>"
  have m: "exp_matches ?c 7 = [0, 2]"
    by (simp add: exp_matches_def exposed_page_def smcEqualExpID_def Let_def upt_rec numeral_eq_Suc)
  have "exp_calls env0 (Suc (length (exp_matches ?c 7))) ?it ?c 7 = Inr (map Some (exp_matches ?c 7) @ [None])"
    by (rule smcNextByExpID_iterates) (simp_all add: m MAX_ID_PAGES_def)
  then have "exp_calls env0 3 ?it ?c 7 = Inr [Some 0, Some 2, None]" unfolding m by (simp add: numeral_3_eq_3)
  then show ?thesis by blast
qed

text \<open>
  \<open>smcPrune\<close> on a consistent cache in which no two unused slots are adjacent leaves
  exactly the pages in use, in their order, with the top and the page count equal to their
  number.
\<close>

theorem smcPrune_compacts:
  assumes "cache_ok c" "spaced (take (top c) (pdata c))"
  shows "take (top (smcPrune c)) (pdata (smcPrune c)) = live c \<and> int (top (smcPrune c)) = npages (smcPrune c)"
  using smcPrune_squeeze [OF cache_okD(1) [OF assms(1)]] squeeze_spaced [OF assms(2)] cache_okD(2) [OF assms(1)]
  by (simp add: live_def void_def)

theorem smcPrune_compacts_witness:
  "take (top (smcPrune (cache0\<lparr>npages := 2, top := 3, pdata := [exposed_page 7, zero_page, exposed_page 8]\<rparr>)))
     (pdata (smcPrune (cache0\<lparr>npages := 2, top := 3, pdata := [exposed_page 7, zero_page, exposed_page 8]\<rparr>)))
   = [exposed_page 7, exposed_page 8]"
proof -
  let ?c = "cache0\<lparr>npages := 2, top := 3, pdata := [exposed_page 7, zero_page, exposed_page 8]\<rparr>"
  have l: "live ?c = [exposed_page 7, exposed_page 8]" by (simp add: live_def exposed_page_def)
  have o': "cache_ok ?c" unfolding cache_ok_def l
    by (simp add: exposed_page_def less_Suc_eq numeral_eq_Suc)
  have sp: "spaced (take (top ?c) (pdata ?c))" by (simp add: void_def exposed_page_def)
  show ?thesis using smcPrune_compacts [OF o' sp] unfolding l by (rule conjunct1)
qed

text \<open>
  of two adjacent unused slots \<open>smcPrune\<close> removes only the first: the loop index moves on
  past the slot that has just been shifted into place, so the second one survives the pruning
  and the top stays above the number of pages in use.
\<close>

theorem smcPrune_skips_adjacent:
  assumes "top c \<le> length (pdata c)" "take (top c) (pdata c) = as @ v # w # ps"
    and "list_all (\<lambda>p. memKey p \<noteq> 0) as" "memKey v = 0" "memKey w = 0"
  shows "length as < top (smcPrune c) \<and> pdata (smcPrune c) ! length as = w"
proof -
  have "list_all (\<lambda>p. \<not> void p) as" "void v" using assms(3,4) by (simp_all add: void_def)
  then have s: "squeeze (take (top c) (pdata c)) = as @ w # squeeze ps"
    unfolding assms(2) by (rule squeeze_two_voids)
  then have t: "length as < top (smcPrune c)" using smcPrune_squeeze(2) [OF assms(1)] by simp
  moreover have "take (top (smcPrune c)) (pdata (smcPrune c)) ! length as = w"
    using smcPrune_squeeze(1) [OF assms(1)] s by simp
  ultimately show ?thesis by simp
qed

theorem smcPrune_skips_adjacent_witness:
  "memKey (pdata (smcPrune (cache0\<lparr>top := 3, pdata := [exposed_page 7, zero_page, zero_page]\<rparr>)) ! 1) = 0
     \<and> 1 < top (smcPrune (cache0\<lparr>top := 3, pdata := [exposed_page 7, zero_page, zero_page]\<rparr>))"
proof -
  have "length [exposed_page 7] < top (smcPrune (cache0\<lparr>top := 3, pdata := [exposed_page 7, zero_page, zero_page]\<rparr>))
     \<and> pdata (smcPrune (cache0\<lparr>top := 3, pdata := [exposed_page 7, zero_page, zero_page]\<rparr>)) ! length [exposed_page 7] = zero_page"
    by (rule smcPrune_skips_adjacent [where v = zero_page and ps = "[]"]) (simp_all add: exposed_page_def)
  then show ?thesis by simp
qed

text \<open>
  \<open>smcReset\<close> frees every slot below the top, the unused ones too, and each one takes one
  off the page count: on a consistent cache the count ends at minus the number of slots that
  were unused, not at zero.
\<close>

theorem smcReset_miscounts:
  assumes "cache_ok c"
  shows "npages (fst (smcReset e c k)) = - int (length (filter (\<lambda>p. memKey p = 0) (take (top c) (pdata c))))"
proof -
  let ?xs = "take (top c) (pdata c)"
  have "length (filter (\<lambda>p. memKey p \<noteq> 0) ?xs) + length (filter (\<lambda>p. memKey p = 0) ?xs) = top c"
    using sum_length_filter_compl [of "\<lambda>p. memKey p \<noteq> 0" ?xs] cache_okD(1) [OF assms] by simp
  then show ?thesis
    using reset_npages [of e "[0..<top c]" c k] cache_okD(2) [OF assms]
    by (simp add: smcReset_def live_def)
qed

theorem smcReset_miscounts_witness:
  "npages (fst (smcReset env0 (cache0\<lparr>top := 2\<rparr>) kernel0)) = -2"
proof -
  have "cache_ok (cache0\<lparr>top := 2\<rparr>)" by (simp add: cache_ok_def live_def cache0_def less_Suc_eq numeral_eq_Suc)
  from smcReset_miscounts [OF this, of env0 kernel0] show ?thesis by (simp add: cache0_def)
qed

end
