(* ===== verification/Proc_Queue.thy ===== *)
theory Proc_Queue
  imports Dhs_Prelude
begin

text \<open>
  The supervisor's processing queue: \<open>super/supQueue.c\<close>, with the node type and constants
  of \<open>super/super.h\<close> and the exposure comparison of \<open>lib/smCache/smCache.c\<close>.

  The queue is a ring of \<open>SZ_PROC_QUEUE\<close> nodes linked by \<open>next\<close>, with \<open>qFirst\<close>, \<open>qLast\<close>
  and \<open>qCount\<close>.  A node pointer is its index in the array; the array is a function of the
  index.  Exposure ids are \<open>double\<close>s in the source and rationals here (the subtraction of
  the comparison is exact).  \<open>procTimestamp ()\<close> is the argument \<open>now\<close>; the messages sent to
  the GUI are collected in \<open>q_log\<close>; \<open>exit (1)\<close> is the fault \<open>Exit_Process\<close>.
\<close>

section \<open>Data and operations\<close>

definition SZ_PROC_QUEUE :: nat where "SZ_PROC_QUEUE = 512"

definition PQ_AVAILABLE :: int where "PQ_AVAILABLE = 0"
definition PQ_START :: int where "PQ_START = 1"
definition PQ_READY :: int where "PQ_READY = 2"
definition PQ_ACTIVE :: int where "PQ_ACTIVE = 3"
definition PQ_DONE :: int where "PQ_DONE = 4"

lemmas pq_status_defs = PQ_AVAILABLE_def PQ_START_def PQ_READY_def PQ_ACTIVE_def PQ_DONE_def

record pqNode =
  q_expID :: rat
  q_status :: int
  t_in :: string
  t_out :: string
  t_done :: string
  q_next :: nat

record pq =
  queue :: "nat \<Rightarrow> pqNode"
  qFirst :: nat
  qLast :: nat
  qCount :: int
  q_log :: "string list"

definition smcEqualExpID :: "rat \<Rightarrow> rat \<Rightarrow> bool" where
  "smcEqualExpID a b = (if a < b then b - a < 1 / 1000000 else a - b < 1 / 1000000)"

text \<open>The initialisation loop sets the first \<open>SZ_PROC_QUEUE - 1\<close> nodes; the last one only gets its link.\<close>

definition pqInit :: "pq \<Rightarrow> pq" where
  "pqInit sp = sp\<lparr>
     queue := (\<lambda>i. if i < SZ_PROC_QUEUE - 1
                   then (queue sp i)\<lparr>q_next := i + 1, q_expID := 0, q_status := PQ_AVAILABLE\<rparr>
                   else if i = SZ_PROC_QUEUE - 1 then (queue sp i)\<lparr>q_next := 0\<rparr>
                   else queue sp i),
     qFirst := 0, qLast := SZ_PROC_QUEUE - 1, qCount := 0\<rparr>"

definition pqAdd :: "string \<Rightarrow> pq \<Rightarrow> rat \<Rightarrow> pq res" where
  "pqAdd now sp expID =
     (let p = q_next (queue sp (qLast sp)) in
      if qCount sp = int SZ_PROC_QUEUE then Inl Exit_Process
      else
        let sp = sp\<lparr>queue := (queue sp)(p := (queue sp p)\<lparr>q_expID := expID,
                     q_status := PQ_START, t_in := now, t_out := [], t_done := []\<rparr>),
                   qLast := p, qCount := qCount sp + 1\<rparr>;
            sp = (if qCount sp > 0 then sp\<lparr>q_log := q_log sp @ [''waiting 1'']\<rparr> else sp)
        in if qCount sp > int SZ_PROC_QUEUE then Inl Exit_Process else Inr sp)"

definition pqNext :: "pq \<Rightarrow> rat" where
  "pqNext sp = (if q_status (queue sp (qFirst sp)) = PQ_READY
                 then q_expID (queue sp (qFirst sp)) else 0)"

text \<open>The search loop of \<open>pqSetStat\<close>: at most \<open>n\<close> nodes from \<open>p\<close> on.\<close>

primrec find_node :: "(nat \<Rightarrow> pqNode) \<Rightarrow> rat \<Rightarrow> nat \<Rightarrow> nat \<Rightarrow> nat option" where
  "find_node q e 0 p = None"
| "find_node q e (Suc n) p =
     (if smcEqualExpID (q_expID (q p)) e then Some p else find_node q e n (q_next (q p)))"

definition pqSetStat :: "pq \<Rightarrow> rat \<Rightarrow> int \<Rightarrow> pq res" where
  "pqSetStat sp expID status =
     (let sp' =
       (case find_node (queue sp) expID (SZ_PROC_QUEUE - 1) (qFirst sp) of
          None \<Rightarrow> sp
        | Some p \<Rightarrow>
            let sp = sp\<lparr>queue := (queue sp)(p := (queue sp p)\<lparr>q_status := status\<rparr>)\<rparr> in
            if status = PQ_DONE then
              let f = qFirst sp;
                  sp = sp\<lparr>queue := (queue sp)(f := (queue sp f)\<lparr>q_expID := 0,
                               q_status := PQ_AVAILABLE\<rparr>)\<rparr>;
                  sp = sp\<lparr>qFirst := q_next (queue sp f), qCount := qCount sp - 1\<rparr>
              in if qCount sp = 0 then sp\<lparr>q_log := q_log sp @ [''waiting 0'']\<rparr> else sp
            else sp)
      in if qCount sp' < 0 then Inl Exit_Process else Inr sp')"

text \<open>\<open>for (p = qFirst; p != qLast->next; p = p->next)\<close>; the ring bounds the loop by its size.\<close>

primrec get_stat_loop :: "(nat \<Rightarrow> pqNode) \<Rightarrow> rat \<Rightarrow> nat \<Rightarrow> nat \<Rightarrow> nat \<Rightarrow> int res" where
  "get_stat_loop q e stop 0 p = (if p = stop then Inr 0 else Inl Diverges)"
| "get_stat_loop q e stop (Suc n) p =
     (if p = stop then Inr 0
      else if smcEqualExpID (q_expID (q p)) e then Inr (q_status (q p))
      else get_stat_loop q e stop n (q_next (q p)))"

definition pqGetStat :: "pq \<Rightarrow> rat \<Rightarrow> int res" where
  "pqGetStat sp expID =
     get_stat_loop (queue sp) expID (q_next (queue sp (qLast sp))) SZ_PROC_QUEUE (qFirst sp)"

definition pqDataWaiting :: "pq \<Rightarrow> bool" where
  "pqDataWaiting sp \<longleftrightarrow> qCount sp > 0 \<and> q_status (queue sp (qFirst sp)) = PQ_READY"

text \<open>
  The queue part of \<open>superProcNext\<close> (\<open>super/supPanHandler.c\<close>): take the next ready exposure
  and mark it active; the broadcasts that start the managers are not modelled.
\<close>

definition superProcNext :: "bool \<Rightarrow> pq \<Rightarrow> (rat \<times> pq) res" where
  "superProcNext dca_done sp =
     (let expID = pqNext sp in
      if expID > 0 \<and> dca_done
      then bind_res (pqSetStat sp expID PQ_ACTIVE) (\<lambda>sp. Inr (expID, sp))
      else Inr (expID, sp))"

section \<open>The ring and the list it holds\<close>

definition slot :: "pq \<Rightarrow> nat \<Rightarrow> nat" where
  "slot s k = (qFirst s + k) mod SZ_PROC_QUEUE"

definition items :: "pq \<Rightarrow> (rat \<times> int) list" where
  "items s = map (\<lambda>k. (q_expID (queue s (slot s k)), q_status (queue s (slot s k))))
               [0..<nat (qCount s)]"

definition pq_inv :: "pq \<Rightarrow> bool" where
  "pq_inv s \<longleftrightarrow> (\<forall>i < SZ_PROC_QUEUE. q_next (queue s i) = (i + 1) mod SZ_PROC_QUEUE)
     \<and> qFirst s < SZ_PROC_QUEUE \<and> qLast s < SZ_PROC_QUEUE
     \<and> 0 \<le> qCount s \<and> qCount s \<le> int SZ_PROC_QUEUE
     \<and> (qLast s + 1) mod SZ_PROC_QUEUE = slot s (nat (qCount s))
     \<and> (\<forall>k. nat (qCount s) \<le> k \<and> k < SZ_PROC_QUEUE \<longrightarrow>
          q_expID (queue s (slot s k)) = 0 \<and> q_status (queue s (slot s k)) = PQ_AVAILABLE)"

text \<open>Exposure ids that the comparison tells apart from an unused node's 0.\<close>

definition valid_id :: "rat \<Rightarrow> bool" where
  "valid_id e \<longleftrightarrow> \<not> smcEqualExpID 0 e"

definition index_of :: "(rat \<times> int) list \<Rightarrow> rat \<Rightarrow> nat option" where
  "index_of xs e = (case filter (\<lambda>k. smcEqualExpID (fst (xs ! k)) e) [0..<length xs] of
     [] \<Rightarrow> None | k # _ \<Rightarrow> Some k)"

lemma SZ_pos [simp]: "0 < SZ_PROC_QUEUE" "Suc 0 < SZ_PROC_QUEUE"
  by (simp_all add: SZ_PROC_QUEUE_def)

lemma slot_less [simp]: "slot s k < SZ_PROC_QUEUE"
  by (simp add: slot_def)

lemma slot_0: "qFirst s < SZ_PROC_QUEUE \<Longrightarrow> slot s 0 = qFirst s"
  by (simp add: slot_def)

lemma ring_inj:
  assumes "(f + i) mod n = (f + j) mod n" "i < n" "j < (n::nat)"
  shows "i = j"
proof -
  have r: "(f + k) mod n = (if f mod n + k < n then f mod n + k else f mod n + k - n)"
    if "k < n" for k
  proof -
    have "(f + k) mod n = (f mod n + k) mod n" by (simp add: mod_add_left_eq)
    moreover have "f mod n < n" using that by simp
    moreover have "(f mod n + k) mod n = f mod n + k - n" if "\<not> f mod n + k < n"
    proof -
      have "f mod n + k - n < n" using that \<open>k < n\<close> \<open>f mod n < n\<close> by linarith
      then show ?thesis using that le_mod_geq [of n "f mod n + k"] by simp
    qed
    ultimately show ?thesis by simp
  qed
  define g where "g = f mod n"
  have "(if g + i < n then g + i else g + i - n) = (if g + j < n then g + j else g + j - n)"
    unfolding g_def using r [OF assms(2)] r [OF assms(3)] assms(1) by presburger
  then show ?thesis using assms(2,3) by (simp split: if_splits)
qed

lemma slot_inj: "slot s i = slot s j \<Longrightarrow> i < SZ_PROC_QUEUE \<Longrightarrow> j < SZ_PROC_QUEUE \<Longrightarrow> i = j"
  unfolding slot_def by (rule ring_inj)

lemma mod_Suc_slot:
  assumes "qFirst s < SZ_PROC_QUEUE"
  shows "(slot s k + 1) mod SZ_PROC_QUEUE = slot s (Suc k)"
  by (simp add: slot_def mod_simps)

lemma slot_cover:
  assumes "i < SZ_PROC_QUEUE" "qFirst s < SZ_PROC_QUEUE"
  obtains k where "k < SZ_PROC_QUEUE" "slot s k = i"
proof -
  have "slot s ` {..<SZ_PROC_QUEUE} = {..<SZ_PROC_QUEUE}"
    by (intro endo_inj_surj inj_onI) (auto intro: slot_inj)
  then show thesis using assms(1) that by (metis imageE lessThan_iff)
qed

lemma length_items [simp]: "length (items s) = nat (qCount s)"
  by (simp add: items_def)

lemma items_nth: "k < nat (qCount s) \<Longrightarrow>
    items s ! k = (q_expID (queue s (slot s k)), q_status (queue s (slot s k)))"
  by (simp add: items_def)

subsection \<open>Searching\<close>

lemma find_node_ring:
  assumes "\<forall>i < SZ_PROC_QUEUE. q_next (q i) = (i + 1) mod SZ_PROC_QUEUE" "p < SZ_PROC_QUEUE"
  shows "(\<forall>k < n. \<not> smcEqualExpID (q_expID (q ((p + k) mod SZ_PROC_QUEUE))) e)
           \<Longrightarrow> find_node q e n p = None"
    and "k < n \<Longrightarrow> smcEqualExpID (q_expID (q ((p + k) mod SZ_PROC_QUEUE))) e \<Longrightarrow>
         (\<forall>j < k. \<not> smcEqualExpID (q_expID (q ((p + j) mod SZ_PROC_QUEUE))) e) \<Longrightarrow>
         find_node q e n p = Some ((p + k) mod SZ_PROC_QUEUE)"
proof -
  have shift: "((p + 1) mod SZ_PROC_QUEUE + k) mod SZ_PROC_QUEUE = (p + Suc k) mod SZ_PROC_QUEUE"
    "(Suc p mod SZ_PROC_QUEUE + k) mod SZ_PROC_QUEUE = (p + Suc k) mod SZ_PROC_QUEUE"
    for p k by (simp_all add: mod_simps)
  show "(\<forall>k < n. \<not> smcEqualExpID (q_expID (q ((p + k) mod SZ_PROC_QUEUE))) e)
           \<Longrightarrow> find_node q e n p = None"
    using assms(2)
  proof (induction n arbitrary: p)
    case (Suc n)
    have "\<forall>k < n. \<not> smcEqualExpID (q_expID (q (((p + 1) mod SZ_PROC_QUEUE + k) mod SZ_PROC_QUEUE))) e"
      unfolding shift using Suc.prems(1) by auto
    then have "find_node q e n (q_next (q p)) = None"
      using Suc.IH [of "(p + 1) mod SZ_PROC_QUEUE"] assms(1) Suc.prems(2) by simp
    moreover have "\<not> smcEqualExpID (q_expID (q p)) e"
      using Suc.prems(1) [rule_format, of 0] Suc.prems(2) by simp
    ultimately show ?case by simp
  qed simp
  show "k < n \<Longrightarrow> smcEqualExpID (q_expID (q ((p + k) mod SZ_PROC_QUEUE))) e \<Longrightarrow>
         (\<forall>j < k. \<not> smcEqualExpID (q_expID (q ((p + j) mod SZ_PROC_QUEUE))) e) \<Longrightarrow>
         find_node q e n p = Some ((p + k) mod SZ_PROC_QUEUE)"
    using assms(2)
  proof (induction n arbitrary: p k)
    case (Suc n)
    show ?case
    proof (cases k)
      case 0
      then show ?thesis using Suc.prems by simp
    next
      case (Suc k')
      have "\<not> smcEqualExpID (q_expID (q p)) e"
        using Suc.prems(3,4) Suc by (metis add.right_neutral mod_less zero_less_Suc)
      moreover have "find_node q e n ((p + 1) mod SZ_PROC_QUEUE)
          = Some (((p + 1) mod SZ_PROC_QUEUE + k') mod SZ_PROC_QUEUE)"
        using Suc.prems Suc by (intro Suc.IH) (auto simp only: shift mod_less_divisor SZ_pos)
      ultimately show ?thesis using assms(1) Suc.prems(4) Suc by (simp add: shift)
    qed
  qed simp
qed

lemma find_in_items:
  assumes inv: "pq_inv s" and k: "k < nat (qCount s)" "k < SZ_PROC_QUEUE - 1"
    and here: "smcEqualExpID (fst (items s ! k)) e"
    and before: "\<forall>j < k. \<not> smcEqualExpID (fst (items s ! j)) e"
  shows "find_node (queue s) e (SZ_PROC_QUEUE - 1) (qFirst s) = Some (slot s k)"
  unfolding slot_def
proof (rule find_node_ring(2))
  show "\<forall>i < SZ_PROC_QUEUE. q_next (queue s i) = (i + 1) mod SZ_PROC_QUEUE" "qFirst s < SZ_PROC_QUEUE"
    using inv by (simp_all add: pq_inv_def)
  show "k < SZ_PROC_QUEUE - 1" by (rule k)
  show "smcEqualExpID (q_expID (queue s ((qFirst s + k) mod SZ_PROC_QUEUE))) e"
    using here k by (simp add: items_nth slot_def)
  show "\<forall>j < k. \<not> smcEqualExpID (q_expID (queue s ((qFirst s + j) mod SZ_PROC_QUEUE))) e"
    using before k by (auto simp: items_nth slot_def)
qed

lemma find_not_in_items:
  assumes inv: "pq_inv s" and e: "valid_id e"
    and none: "\<forall>x \<in> set (items s). \<not> smcEqualExpID (fst x) e"
  shows "find_node (queue s) e (SZ_PROC_QUEUE - 1) (qFirst s) = None"
proof (rule find_node_ring(1))
  show "\<forall>i < SZ_PROC_QUEUE. q_next (queue s i) = (i + 1) mod SZ_PROC_QUEUE" "qFirst s < SZ_PROC_QUEUE"
    using inv by (simp_all add: pq_inv_def)
  show "\<forall>k < SZ_PROC_QUEUE - 1. \<not> smcEqualExpID (q_expID (queue s ((qFirst s + k) mod SZ_PROC_QUEUE))) e"
  proof (intro allI impI)
    fix k assume k: "k < SZ_PROC_QUEUE - 1"
    show "\<not> smcEqualExpID (q_expID (queue s ((qFirst s + k) mod SZ_PROC_QUEUE))) e"
    proof (cases "k < nat (qCount s)")
      case True
      then have "items s ! k \<in> set (items s)" by simp
      then show ?thesis using none True by (force simp: items_nth slot_def)
    next
      case False
      then have "q_expID (queue s (slot s k)) = 0" using inv k by (simp add: pq_inv_def)
      then show ?thesis using e by (simp add: slot_def valid_id_def)
    qed
  qed
qed

subsection \<open>What the operations do to the list\<close>

lemma pqInit_inv:
  assumes "q_expID (queue sp (SZ_PROC_QUEUE - 1)) = 0"
    "q_status (queue sp (SZ_PROC_QUEUE - 1)) = PQ_AVAILABLE"
  shows "pq_inv (pqInit sp) \<and> items (pqInit sp) = []"
proof -
  have "q_next (queue (pqInit sp) i) = (i + 1) mod SZ_PROC_QUEUE" if "i < SZ_PROC_QUEUE" for i
  proof (cases "i < SZ_PROC_QUEUE - 1")
    case True
    then have "i + 1 < SZ_PROC_QUEUE" by simp
    then show ?thesis using True by (simp add: pqInit_def)
  next
    case False
    then have "i = SZ_PROC_QUEUE - 1" using that by simp
    then show ?thesis by (simp add: pqInit_def)
  qed
  moreover have "q_expID (queue (pqInit sp) i) = 0 \<and> q_status (queue (pqInit sp) i) = PQ_AVAILABLE"
    if "i < SZ_PROC_QUEUE" for i
    using that assms by (auto simp: pqInit_def)
  ultimately show ?thesis
    by (auto simp: pq_inv_def items_def pqInit_def slot_def)
qed

lemma pqAdd_full: "qCount s = int SZ_PROC_QUEUE \<Longrightarrow> pqAdd now s e = Inl Exit_Process"
  by (simp add: pqAdd_def)

lemma pqAdd_items:
  assumes inv: "pq_inv s" and room: "length (items s) < SZ_PROC_QUEUE"
  shows "\<exists>s'. pqAdd now s e = Inr s' \<and> pq_inv s' \<and> items s' = items s @ [(e, PQ_START)]
    \<and> q_log s' = q_log s @ [''waiting 1'']"
proof -
  let ?n = "nat (qCount s)"
  have c: "0 \<le> qCount s" "?n < SZ_PROC_QUEUE" "qCount s < int SZ_PROC_QUEUE"
    using inv room by (auto simp: pq_inv_def)
  have p: "q_next (queue s (qLast s)) = slot s ?n" using inv by (simp add: pq_inv_def)
  define q' where "q' = (queue s)(slot s ?n := (queue s (slot s ?n))\<lparr>q_expID := e,
      q_status := PQ_START, t_in := now, t_out := [], t_done := []\<rparr>)"
  define s' where "s' = s\<lparr>queue := q', qLast := slot s ?n, qCount := qCount s + 1,
      q_log := q_log s @ [''waiting 1'']\<rparr>"
  have add: "pqAdd now s e = Inr s'"
    using c p by (simp add: pqAdd_def Let_def s'_def q'_def)
  have sl: "slot s' k = slot s k" for k by (simp add: slot_def s'_def)
  have n': "nat (qCount s') = Suc ?n" using c by (simp add: s'_def)
  have other: "queue s' (slot s k) = queue s (slot s k)" if "k < SZ_PROC_QUEUE" "k \<noteq> ?n" for k
    using that c(2) slot_inj [of s k ?n] by (auto simp: s'_def q'_def)
  have same: "q_expID (queue s' (slot s ?n)) = e" "q_status (queue s' (slot s ?n)) = PQ_START"
    by (simp_all add: s'_def q'_def)
  have nx: "\<forall>i < SZ_PROC_QUEUE. q_next (queue s' i) = (i + 1) mod SZ_PROC_QUEUE"
    using inv by (auto simp: pq_inv_def s'_def q'_def)
  have f: "qFirst s < SZ_PROC_QUEUE" using inv by (simp add: pq_inv_def)
  have "(qLast s' + 1) mod SZ_PROC_QUEUE = slot s' (nat (qCount s'))"
    unfolding sl n' using mod_Suc_slot [OF f, of ?n] by (simp add: s'_def)
  moreover have "\<forall>k. nat (qCount s') \<le> k \<and> k < SZ_PROC_QUEUE \<longrightarrow>
      q_expID (queue s' (slot s' k)) = 0 \<and> q_status (queue s' (slot s' k)) = PQ_AVAILABLE"
    unfolding sl n' using inv other by (auto simp: pq_inv_def)
  moreover have "qFirst s' < SZ_PROC_QUEUE" "qLast s' < SZ_PROC_QUEUE" "0 \<le> qCount s'"
    "qCount s' \<le> int SZ_PROC_QUEUE"
    using f c by (simp_all add: s'_def)
  ultimately have "pq_inv s'" using nx by (simp add: pq_inv_def)
  moreover have "items s' = items s @ [(e, PQ_START)]"
  proof -
    have "map (\<lambda>k. (q_expID (queue s' (slot s' k)), q_status (queue s' (slot s' k)))) [0..<?n]
        = items s"
      unfolding items_def sl using other c(2) by (intro map_cong) auto
    then show ?thesis unfolding items_def [of s'] n' by (simp add: sl same)
  qed
  ultimately show ?thesis using add by (intro exI [of _ s']) (simp add: s'_def)
qed

lemma pqNext_items:
  assumes "pq_inv s"
  shows "pqNext s = (case items s of [] \<Rightarrow> 0
           | (e, st) # _ \<Rightarrow> if st = PQ_READY then e else 0)"
proof (cases "nat (qCount s)")
  case 0
  then have "q_status (queue s (qFirst s)) = PQ_AVAILABLE"
    using assms slot_0 [of s] by (force simp: pq_inv_def)
  then show ?thesis using 0 by (simp add: pqNext_def items_def pq_status_defs)
next
  case (Suc n)
  then have "items s = (q_expID (queue s (slot s 0)), q_status (queue s (slot s 0)))
      # map (\<lambda>k. (q_expID (queue s (slot s k)), q_status (queue s (slot s k)))) [1..<Suc n]"
    by (simp add: items_def upt_rec)
  then show ?thesis using assms slot_0 [of s] by (simp add: pqNext_def pq_inv_def)
qed

lemma pqSetStat_none:
  assumes "pq_inv s" "valid_id e" "\<forall>x \<in> set (items s). \<not> smcEqualExpID (fst x) e"
  shows "pqSetStat s e st = Inr s"
  using find_not_in_items [OF assms] assms(1) by (simp add: pqSetStat_def pq_inv_def)

text \<open>Changing the status of the queued exposure at position \<open>k\<close>.\<close>

lemma pq_inv_status:
  fixes st :: int
  assumes inv: "pq_inv s" and k: "k < nat (qCount s)"
  defines "s1 \<equiv> s\<lparr>queue := (queue s)(slot s k := (queue s (slot s k))\<lparr>q_status := st\<rparr>)\<rparr>"
  shows "pq_inv s1" "items s1 = (items s)[k := (fst (items s ! k), st)]"
proof -
  have kN: "k < SZ_PROC_QUEUE" using inv k by (auto simp: pq_inv_def)
  have sl: "slot s1 j = slot s j" for j by (simp add: slot_def s1_def)
  have other: "queue s1 (slot s j) = queue s (slot s j)" if "j < SZ_PROC_QUEUE" "j \<noteq> k" for j
    using that kN slot_inj [of s j k] by (auto simp: s1_def)
  have free: "\<forall>j. nat (qCount s) \<le> j \<and> j < SZ_PROC_QUEUE \<longrightarrow>
      q_expID (queue s1 (slot s j)) = 0 \<and> q_status (queue s1 (slot s j)) = PQ_AVAILABLE"
    using inv k other by (auto simp: pq_inv_def)
  have nx: "\<forall>i < SZ_PROC_QUEUE. q_next (queue s1 i) = (i + 1) mod SZ_PROC_QUEUE"
    using inv by (auto simp: pq_inv_def s1_def)
  have c: "qCount s1 = qCount s" "qFirst s1 = qFirst s" "qLast s1 = qLast s"
    by (simp_all add: s1_def)
  show "pq_inv s1" using inv free nx unfolding pq_inv_def sl c by blast
  show "items s1 = (items s)[k := (fst (items s ! k), st)]"
  proof (rule nth_equalityI)
    fix j assume "j < length (items s1)"
    then have j: "j < nat (qCount s)" "j < SZ_PROC_QUEUE" using inv by (auto simp: c pq_inv_def)
    show "items s1 ! j = (items s)[k := (fst (items s ! k), st)] ! j"
    proof (cases "j = k")
      case True
      then show ?thesis using k by (simp add: items_nth c sl) (simp add: s1_def)
    next
      case False
      then show ?thesis using j other by (simp add: items_nth c sl)
    qed
  qed (simp add: c)
qed

lemma pq_inv_pop:
  assumes inv: "pq_inv s" and n: "0 < nat (qCount s)"
  defines "s1 \<equiv> s\<lparr>queue := (queue s)(qFirst s := (queue s (qFirst s))\<lparr>q_expID := 0,
                    q_status := PQ_AVAILABLE\<rparr>),
                 qFirst := q_next (queue s (qFirst s)), qCount := qCount s - 1\<rparr>"
  shows "pq_inv s1" "items s1 = tl (items s)"
proof -
  let ?n = "nat (qCount s)"
  have f: "qFirst s < SZ_PROC_QUEUE" "slot s 0 = qFirst s" using inv by (auto simp: pq_inv_def slot_0)
  have c: "nat (qCount s1) = ?n - 1" "?n \<le> SZ_PROC_QUEUE"
    using inv n by (auto simp: s1_def pq_inv_def)
  have first: "qFirst s1 = (qFirst s + 1) mod SZ_PROC_QUEUE"
    using inv f by (simp add: s1_def pq_inv_def)
  have sl: "slot s1 j = slot s (Suc j)" for j
    unfolding slot_def first by (simp add: mod_simps)
  have other: "queue s1 (slot s j) = queue s (slot s j)" if "j < SZ_PROC_QUEUE" "j \<noteq> 0" for j
    using that slot_inj [of s j 0] f by (auto simp: s1_def)
  have wrap: "slot s SZ_PROC_QUEUE = slot s 0" by (simp add: slot_def)
  have free: "q_expID (queue s1 (slot s1 j)) = 0 \<and> q_status (queue s1 (slot s1 j)) = PQ_AVAILABLE"
    if "nat (qCount s1) \<le> j" "j < SZ_PROC_QUEUE" for j
  proof (cases "Suc j = SZ_PROC_QUEUE")
    case True
    then have "slot s1 j = qFirst s" using sl wrap f by simp
    then show ?thesis by (simp add: s1_def)
  next
    case False
    then have "Suc j < SZ_PROC_QUEUE" "?n \<le> Suc j" using that c by auto
    then show ?thesis using inv unfolding sl by (simp add: other pq_inv_def)
  qed
  have "\<forall>i < SZ_PROC_QUEUE. q_next (queue s1 i) = (i + 1) mod SZ_PROC_QUEUE"
    using inv by (auto simp: pq_inv_def s1_def)
  moreover have "qLast s1 = qLast s" "0 \<le> qCount s1" "qCount s1 \<le> int SZ_PROC_QUEUE"
    using inv n by (auto simp: s1_def pq_inv_def)
  moreover have "slot s1 (nat (qCount s1)) = slot s ?n" unfolding sl using c n by simp
  moreover have "qFirst s1 < SZ_PROC_QUEUE" unfolding first by simp
  ultimately show "pq_inv s1" using inv free unfolding pq_inv_def by auto
  show "items s1 = tl (items s)"
  proof (rule nth_equalityI)
    show "length (items s1) = length (tl (items s))" using c by simp
    fix j assume "j < length (items s1)"
    then have j: "Suc j < ?n" "Suc j < SZ_PROC_QUEUE" using c by auto
    then have "items s1 ! j = (q_expID (queue s (slot s (Suc j))), q_status (queue s (slot s (Suc j))))"
      using c by (simp add: items_nth sl other)
    also have "\<dots> = tl (items s) ! j" using j by (simp add: items_nth nth_tl)
    finally show "items s1 ! j = tl (items s) ! j" .
  qed
qed

lemma pqSetStat_items:
  assumes inv: "pq_inv s" and k: "k < length (items s)" "k < SZ_PROC_QUEUE - 1"
    and here: "smcEqualExpID (fst (items s ! k)) e"
    and before: "\<forall>j < k. \<not> smcEqualExpID (fst (items s ! j)) e"
  shows "\<exists>s'. pqSetStat s e st = Inr s' \<and> pq_inv s'
    \<and> items s' = (if st = PQ_DONE then tl ((items s)[k := (fst (items s ! k), st)])
                  else (items s)[k := (fst (items s ! k), st)])"
proof -
  define s1 where "s1 = s\<lparr>queue := (queue s)(slot s k := (queue s (slot s k))\<lparr>q_status := st\<rparr>)\<rparr>"
  have k': "k < nat (qCount s)" using k by simp
  have found: "find_node (queue s) e (SZ_PROC_QUEUE - 1) (qFirst s) = Some (slot s k)"
    using find_in_items [OF inv k' k(2) here before] .
  have s1: "pq_inv s1" "items s1 = (items s)[k := (fst (items s ! k), st)]"
    unfolding s1_def by (rule pq_inv_status [OF inv k'])+
  show ?thesis
  proof (cases "st = PQ_DONE")
    case False
    then have "pqSetStat s e st = Inr s1"
      using found s1(1) by (simp add: pqSetStat_def Let_def s1_def pq_inv_def)
    then show ?thesis using s1 False by auto
  next
    case True
    define s2 where "s2 = s1\<lparr>queue := (queue s1)(qFirst s1 := (queue s1 (qFirst s1))\<lparr>q_expID := 0,
                    q_status := PQ_AVAILABLE\<rparr>),
                 qFirst := q_next (queue s1 (qFirst s1)), qCount := qCount s1 - 1\<rparr>"
    define s3 where "s3 = (if qCount s2 = 0 then s2\<lparr>q_log := q_log s2 @ [''waiting 0'']\<rparr> else s2)"
    have n: "0 < nat (qCount s1)" using k' by (simp add: s1_def)
    have s2: "pq_inv s2" "items s2 = tl (items s1)"
      unfolding s2_def by (rule pq_inv_pop [OF s1(1) n])+
    have same: "pq_inv s3 = pq_inv s2" "items s3 = items s2"
      by (simp_all add: s3_def pq_inv_def items_def slot_def)
    have "q_next (queue s2 (qFirst s1)) = q_next (queue s1 (qFirst s1))" by (simp add: s2_def)
    then have "pqSetStat s e st = Inr s3"
      using found s2(1) True unfolding pqSetStat_def
      by (simp add: Let_def s1_def [symmetric]) (simp add: s3_def s2_def s1_def pq_inv_def)
    then show ?thesis using s1 s2 same True by auto
  qed
qed

lemma smcEqualExpID_refl [simp]: "smcEqualExpID e e"
  by (simp add: smcEqualExpID_def)

lemma smcEqualExpID_iff: "smcEqualExpID a b \<longleftrightarrow> \<bar>a - b\<bar> < 1 / 1000000"
  by (auto simp: smcEqualExpID_def)

section \<open>The interface its callers rely on\<close>

text \<open>
  The supervisor adds an exposure when a readout starts, marks it ready when it ends, picks
  the next one (\<open>superProcNext\<close>) and marks it done when the managers report.  The laws say
  that the queue is a bounded list of (exposure, status) pairs.
\<close>

primrec add_all :: "('q \<Rightarrow> rat \<Rightarrow> 'q res) \<Rightarrow> 'q \<Rightarrow> rat list \<Rightarrow> 'q res" where
  "add_all add q [] = Inr q"
| "add_all add q (e # es) = bind_res (add q e) (\<lambda>q. add_all add q es)"

definition serve :: "('q \<Rightarrow> rat \<Rightarrow> int \<Rightarrow> 'q res) \<Rightarrow> ('q \<Rightarrow> (rat \<times> 'q) res) \<Rightarrow> 'q \<Rightarrow> rat \<Rightarrow> (rat \<times> 'q) res" where
  "serve set_stat proc_next q e =
     bind_res (set_stat q e PQ_READY) (\<lambda>q.
     bind_res (proc_next q) (\<lambda>(id, q).
     bind_res (set_stat q id PQ_DONE) (\<lambda>q. Inr (id, q))))"

primrec serve_all ::
    "('q \<Rightarrow> rat \<Rightarrow> int \<Rightarrow> 'q res) \<Rightarrow> ('q \<Rightarrow> (rat \<times> 'q) res) \<Rightarrow> 'q \<Rightarrow> rat list \<Rightarrow> (rat list \<times> 'q) res" where
  "serve_all set_stat proc_next q [] = Inr ([], q)"
| "serve_all set_stat proc_next q (e # es) =
     bind_res (serve set_stat proc_next q e) (\<lambda>(id, q).
     bind_res (serve_all set_stat proc_next q es) (\<lambda>(ids, q). Inr (id # ids, q)))"

locale exposure_queue =
  fixes inv :: "'q \<Rightarrow> bool"
    and contents :: "'q \<Rightarrow> (rat \<times> int) list"
    and capacity :: nat
    and add :: "'q \<Rightarrow> rat \<Rightarrow> 'q res"
    and set_stat :: "'q \<Rightarrow> rat \<Rightarrow> int \<Rightarrow> 'q res"
    and proc_next :: "'q \<Rightarrow> (rat \<times> 'q) res"
  assumes add_room: "inv q \<Longrightarrow> length (contents q) < capacity \<Longrightarrow>
      \<exists>q'. add q e = Inr q' \<and> inv q' \<and> contents q' = contents q @ [(e, PQ_START)]"
    and set_head: "inv q \<Longrightarrow> contents q = (e, st0) # xs \<Longrightarrow> st \<noteq> PQ_DONE \<Longrightarrow>
      \<exists>q'. set_stat q e st = Inr q' \<and> inv q' \<and> contents q' = (e, st) # xs"
    and done_head: "inv q \<Longrightarrow> contents q = (e, st0) # xs \<Longrightarrow>
      \<exists>q'. set_stat q e PQ_DONE = Inr q' \<and> inv q' \<and> contents q' = xs"
    and next_ready: "inv q \<Longrightarrow> contents q = (e, PQ_READY) # xs \<Longrightarrow> e > 0 \<Longrightarrow>
      \<exists>q'. proc_next q = Inr (e, q') \<and> inv q' \<and> contents q' = (e, PQ_ACTIVE) # xs"
    and next_idle: "inv q \<Longrightarrow> (\<forall>e xs. contents q \<noteq> (e, PQ_READY) # xs) \<Longrightarrow> proc_next q = Inr (0, q)"
begin

lemma add_all_contents:
  assumes "inv q" "length (contents q) + length es \<le> capacity"
  shows "\<exists>q'. add_all add q es = Inr q' \<and> inv q'
    \<and> contents q' = contents q @ map (\<lambda>e. (e, PQ_START)) es"
  using assms
proof (induction es arbitrary: q)
  case Nil
  then show ?case by simp
next
  case (Cons e es)
  then obtain q' where q': "add q e = Inr q'" "inv q'" "contents q' = contents q @ [(e, PQ_START)]"
    using add_room [of q e] by auto
  then show ?case using Cons.IH [of q'] Cons.prems by simp
qed

lemma serve_head:
  assumes "inv q" "contents q = (e, st) # xs" "e > 0"
  shows "\<exists>q'. serve set_stat proc_next q e = Inr (e, q') \<and> inv q' \<and> contents q' = xs"
proof -
  obtain q1 where q1: "set_stat q e PQ_READY = Inr q1" "inv q1" "contents q1 = (e, PQ_READY) # xs"
    using set_head [OF assms(1,2), of PQ_READY] by (auto simp: pq_status_defs)
  obtain q2 where q2: "proc_next q1 = Inr (e, q2)" "inv q2" "contents q2 = (e, PQ_ACTIVE) # xs"
    using next_ready [OF q1(2,3) assms(3)] by auto
  obtain q3 where "set_stat q2 e PQ_DONE = Inr q3" "inv q3" "contents q3 = xs"
    using done_head [OF q2(2,3)] by auto
  then show ?thesis using q1 q2 by (simp add: serve_def)
qed

lemma serve_all_contents:
  assumes "inv q" "map fst (contents q) = es @ map fst rest" "contents q = cs @ rest" "\<forall>e \<in> set es. e > 0"
  shows "\<exists>q'. serve_all set_stat proc_next q es = Inr (es, q') \<and> inv q' \<and> contents q' = rest"
  using assms
proof (induction es arbitrary: q cs)
  case Nil
  then have "cs = []" by simp
  then show ?case using Nil by simp
next
  case (Cons e es)
  then obtain st cs' where cs: "cs = (e, st) # cs'" by (cases cs) auto
  then obtain q' where q': "serve set_stat proc_next q e = Inr (e, q')" "inv q'" "contents q' = cs' @ rest"
    using serve_head [of q e st "cs' @ rest"] Cons.prems by auto
  moreover have "map fst (contents q') = es @ map fst rest" using Cons.prems cs q' by simp
  ultimately show ?case using Cons.IH [of q' cs'] Cons.prems by auto
qed

lemma fifo:
  assumes "inv q" "contents q = []" "length es \<le> capacity" "\<forall>e \<in> set es. e > 0"
  shows "\<exists>q'. bind_res (add_all add q es) (\<lambda>q. serve_all set_stat proc_next q es) = Inr (es, q')
    \<and> inv q' \<and> contents q' = []"
proof -
  obtain q1 where q1: "add_all add q es = Inr q1" "inv q1"
    "contents q1 = map (\<lambda>e. (e, PQ_START)) es"
    using add_all_contents [OF assms(1), of es] assms(2,3) by auto
  then show ?thesis
    using serve_all_contents [of q1 es "[]" "contents q1"] assms(4) by (auto simp: comp_def)
qed

end

lemma set_head_pq:
  assumes "pq_inv s" "items s = (e, st0) # xs"
  shows "\<exists>s'. pqSetStat s e st = Inr s' \<and> pq_inv s'
    \<and> items s' = (if st = PQ_DONE then xs else (e, st) # xs)"
  using pqSetStat_items [of s 0 e st] assms by auto

lemma superProcNext_items:
  assumes inv: "pq_inv s"
  shows "items s = (e, PQ_READY) # xs \<Longrightarrow> e > 0 \<Longrightarrow>
      \<exists>s'. superProcNext True s = Inr (e, s') \<and> pq_inv s' \<and> items s' = (e, PQ_ACTIVE) # xs"
    and "(\<forall>e xs. items s \<noteq> (e, PQ_READY) # xs) \<Longrightarrow> superProcNext True s = Inr (0, s)"
proof -
  assume i: "items s = (e, PQ_READY) # xs" "e > 0"
  obtain s' where "pqSetStat s e PQ_ACTIVE = Inr s'" "pq_inv s'" "items s' = (e, PQ_ACTIVE) # xs"
    using set_head_pq [OF inv i(1), of PQ_ACTIVE] by (auto simp: pq_status_defs)
  then show "\<exists>s'. superProcNext True s = Inr (e, s') \<and> pq_inv s' \<and> items s' = (e, PQ_ACTIVE) # xs"
    using i pqNext_items [OF inv] by (simp add: superProcNext_def)
next
  assume "\<forall>e xs. items s \<noteq> (e, PQ_READY) # xs"
  then have "pqNext s = 0" using pqNext_items [OF inv] by (auto split: list.splits)
  then show "superProcNext True s = Inr (0, s)" by (simp add: superProcNext_def)
qed

interpretation eq: exposure_queue pq_inv items SZ_PROC_QUEUE "pqAdd now" pqSetStat
    "superProcNext True" for now
proof (unfold_locales, goal_cases)
  case 1 then show ?case using pqAdd_items by metis
next
  case 2 then show ?case using set_head_pq by metis
next
  case 3 then show ?case using set_head_pq by metis
next
  case 4 then show ?case using superProcNext_items(1) by blast
next
  case 5 then show ?case using superProcNext_items(2) by blast
qed

section \<open>Status queries\<close>

definition stat_of :: "(rat \<times> int) list \<Rightarrow> rat \<Rightarrow> int" where
  "stat_of xs e = (case List.find (\<lambda>x. smcEqualExpID (fst x) e) xs of None \<Rightarrow> 0 | Some x \<Rightarrow> snd x)"

lemma get_stat_loop_items:
  assumes inv: "pq_inv s" and n: "nat (qCount s) < SZ_PROC_QUEUE"
  shows "j \<le> nat (qCount s) \<Longrightarrow> nat (qCount s) - j \<le> m \<Longrightarrow>
    get_stat_loop (queue s) e (slot s (nat (qCount s))) m (slot s j) = Inr (stat_of (drop j (items s)) e)"
proof (induction m arbitrary: j)
  case 0
  then show ?case by (simp add: stat_of_def)
next
  case (Suc m)
  show ?case
  proof (cases "j = nat (qCount s)")
    case True
    then show ?thesis by (simp add: stat_of_def)
  next
    case False
    then have j: "j < nat (qCount s)" using Suc.prems by simp
    then have ne: "slot s j \<noteq> slot s (nat (qCount s))" using n slot_inj [of s j "nat (qCount s)"] by auto
    have "q_next (queue s (slot s j)) = slot s (Suc j)"
      using inv mod_Suc_slot [of s j] by (simp add: pq_inv_def)
    moreover have "drop j (items s) = items s ! j # drop (Suc j) (items s)"
      using j by (simp add: Cons_nth_drop_Suc)
    ultimately show ?thesis
      using ne j Suc.IH [of "Suc j"] Suc.prems by (simp add: stat_of_def items_nth)
  qed
qed

lemma pq_full:
  assumes "pq_inv s" "\<not> nat (qCount s) < SZ_PROC_QUEUE"
  shows "qCount s = int SZ_PROC_QUEUE"
proof -
  have "qCount s \<le> int SZ_PROC_QUEUE" using assms(1) by (simp add: pq_inv_def)
  moreover have "0 \<le> qCount s" using assms(1) by (simp add: pq_inv_def)
  then have "int SZ_PROC_QUEUE \<le> qCount s" using assms(2) by (simp add: not_less le_nat_iff)
  ultimately show ?thesis by simp
qed

section \<open>Properties\<close>

subsection \<open>Runs of the queue\<close>

text \<open>
  What happens to the queue: an exposure arrives, an exposure is marked as ready, the next one is
  asked for, and the one handed out last is finished.  The state has the exposures handed out so
  far and the one that is being processed.
\<close>

datatype pq_event = Arrive rat | Ready rat | Serve | Finish

fun pq_event_step :: "string \<Rightarrow> pq_event \<Rightarrow> pq \<times> rat list \<times> rat option \<Rightarrow> (pq \<times> rat list \<times> rat option) res" where
  "pq_event_step now (Arrive e) (q, out, cur) = bind_res (pqAdd now q e) (\<lambda>q. Inr (q, out, cur))"
| "pq_event_step now (Ready e) (q, out, cur) = bind_res (pqSetStat q e PQ_READY) (\<lambda>q. Inr (q, out, cur))"
| "pq_event_step now Serve (q, out, cur) = bind_res (superProcNext True q) (\<lambda>(e, q).
     Inr (if e = 0 then (q, out, cur) else (q, out @ [e], Some e)))"
| "pq_event_step now Finish (q, out, cur) = (case cur of None \<Rightarrow> Inr (q, out, cur)
     | Some e \<Rightarrow> bind_res (pqSetStat q e PQ_DONE) (\<lambda>q. Inr (q, out, None)))"

primrec pq_run :: "string \<Rightarrow> pq_event list \<Rightarrow> pq \<times> rat list \<times> rat option \<Rightarrow> (pq \<times> rat list \<times> rat option) res" where
  "pq_run now [] s = Inr s"
| "pq_run now (v # vs) s = bind_res (pq_event_step now v s) (pq_run now vs)"

definition arrivals :: "pq_event list \<Rightarrow> rat list" where
  "arrivals vs = concat (map (\<lambda>v. case v of Arrive e \<Rightarrow> [e] | _ \<Rightarrow> []) vs)"

definition readies :: "pq_event list \<Rightarrow> rat set" where
  "readies vs = {e. Ready e \<in> set vs}"

text \<open>
  Exposure ids are positive and told apart by the comparison, and an exposure is marked as ready at
  most once, after it has arrived; \<open>A\<close> and \<open>R\<close> are the ids that have arrived and are ready.
\<close>

fun orderly :: "rat set \<Rightarrow> rat set \<Rightarrow> pq_event list \<Rightarrow> bool" where
  "orderly A R [] = True"
| "orderly A R (Arrive e # vs) \<longleftrightarrow> 0 < e \<and> valid_id e \<and> (\<forall>a \<in> A. \<not> smcEqualExpID a e) \<and> orderly (insert e A) R vs"
| "orderly A R (Ready e # vs) \<longleftrightarrow> e \<in> A \<and> e \<notin> R \<and> orderly A (insert e R) vs"
| "orderly A R (_ # vs) \<longleftrightarrow> orderly A R vs"

lemma event_lists [simp]:
  "arrivals [] = []" "arrivals (Arrive e # vs) = e # arrivals vs" "arrivals (Ready e # vs) = arrivals vs"
  "arrivals (Serve # vs) = arrivals vs" "arrivals (Finish # vs) = arrivals vs"
  "readies [] = {}" "readies (Arrive e # vs) = readies vs" "readies (Ready e # vs) = insert e (readies vs)"
  "readies (Serve # vs) = readies vs" "readies (Finish # vs) = readies vs"
  by (auto simp: arrivals_def readies_def)

lemma smcEqualExpID_iff_abs: "smcEqualExpID a b \<longleftrightarrow> \<bar>a - b\<bar> < 1 / 1000000"
  by (simp add: smcEqualExpID_def)

lemma equal_ids: "smcEqualExpID a a" "smcEqualExpID a b \<Longrightarrow> smcEqualExpID b a"
  by (simp_all add: smcEqualExpID_iff_abs abs_minus_commute)

text \<open>
  The state after \<open>as\<close> have arrived and \<open>R\<close> have become ready: those handed out, the one in work
  at the head of the queue, and behind it those that wait, are \<open>as\<close> in order.
\<close>

definition fifo_state :: "rat list \<Rightarrow> rat set \<Rightarrow> pq \<times> rat list \<times> rat option \<Rightarrow> (rat \<times> int) list \<Rightarrow> bool" where
  "fifo_state as R s w \<longleftrightarrow> (case s of (q, out, cur) \<Rightarrow> pq_inv q \<and> as = out @ map fst w
     \<and> items q = (case cur of None \<Rightarrow> w | Some e \<Rightarrow> (e, PQ_ACTIVE) # w)
     \<and> (case cur of None \<Rightarrow> True | Some e \<Rightarrow> out \<noteq> [] \<and> e = last out)
     \<and> (\<forall>e \<in> set as. 0 < e \<and> valid_id e) \<and> sorted_wrt (\<lambda>a b. \<not> smcEqualExpID a b) as \<and> set out \<subseteq> R
     \<and> (\<forall>x \<in> set w. snd x = PQ_START \<or> snd x = PQ_READY \<and> fst x \<in> R)
     \<and> (length as < SZ_PROC_QUEUE \<longrightarrow> (\<forall>x \<in> set w. fst x \<in> R \<longrightarrow> snd x = PQ_READY)))"

lemma fifo_stateI:
  assumes "pq_inv q" "as = out @ map fst w" "items q = (case cur of None \<Rightarrow> w | Some e \<Rightarrow> (e, PQ_ACTIVE) # w)"
    and "case cur of None \<Rightarrow> True | Some e \<Rightarrow> out \<noteq> [] \<and> e = last out" "\<forall>e \<in> set as. 0 < e \<and> valid_id e"
    and "sorted_wrt (\<lambda>a b. \<not> smcEqualExpID a b) as" "set out \<subseteq> R" "\<forall>x \<in> set w. snd x = PQ_START \<or> snd x = PQ_READY \<and> fst x \<in> R"
    and "length as < SZ_PROC_QUEUE \<longrightarrow> (\<forall>x \<in> set w. fst x \<in> R \<longrightarrow> snd x = PQ_READY)"
  shows "fifo_state as R (q, out, cur) w"
  using assms by (simp add: fifo_state_def)

lemma fifo_stateD:
  assumes "fifo_state as R (q, out, cur) w"
  shows "pq_inv q" "as = out @ map fst w" "items q = (case cur of None \<Rightarrow> w | Some e \<Rightarrow> (e, PQ_ACTIVE) # w)"
    "case cur of None \<Rightarrow> True | Some e \<Rightarrow> out \<noteq> [] \<and> e = last out" "\<forall>e \<in> set as. 0 < e \<and> valid_id e"
    "sorted_wrt (\<lambda>a b. \<not> smcEqualExpID a b) as" "set out \<subseteq> R" "\<forall>x \<in> set w. snd x = PQ_START \<or> snd x = PQ_READY \<and> fst x \<in> R"
    "length as < SZ_PROC_QUEUE \<longrightarrow> (\<forall>x \<in> set w. fst x \<in> R \<longrightarrow> snd x = PQ_READY)"
  using assms unfolding fifo_state_def prod.case by blast+

lemma fifo_short: "fifo_state as R (q, out, cur) w \<Longrightarrow> length (items q) \<le> length as"
  using fifo_stateD(2-4) [of as R q out cur w] by (cases cur; cases out) (simp_all del: length_items)

lemma fifo_arrive:
  assumes f: "fifo_state as R (q, out, cur) w" and e: "0 < e" "valid_id e" "\<forall>a \<in> set as. \<not> smcEqualExpID a e" "e \<notin> R"
    and room: "length (items q) < SZ_PROC_QUEUE"
  shows "\<exists>q'. pqAdd now q e = Inr q' \<and> fifo_state (as @ [e]) R (q', out, cur) (w @ [(e, PQ_START)])"
proof -
  note d = fifo_stateD [OF f]
  obtain q' where q': "pqAdd now q e = Inr q'" "pq_inv q'" "items q' = items q @ [(e, PQ_START)]" using pqAdd_items [OF d(1) room] by blast
  have "fifo_state (as @ [e]) R (q', out, cur) (w @ [(e, PQ_START)])"
    by (rule fifo_stateI [OF q'(2)]) (use d q'(3) e in \<open>auto simp: sorted_wrt_append split: option.splits\<close>)
  then show ?thesis using q'(1) by blast
qed

text \<open>Marking the exposure at position \<open>k\<close>; the search does not see the last node of a full ring.\<close>

lemma pqSetStat_at:
  assumes inv: "pq_inv q" and k: "k < length (items q)" "fst (items q ! k) = e" "st \<noteq> PQ_DONE"
    and others: "\<forall>j < length (items q). j \<noteq> k \<longrightarrow> \<not> smcEqualExpID (fst (items q ! j)) e"
  shows "\<exists>q'. pqSetStat q e st = Inr q' \<and> pq_inv q' \<and> (items q' = (items q)[k := (e, st)] \<or> items q' = items q \<and> length (items q) = SZ_PROC_QUEUE)"
proof (cases "k < SZ_PROC_QUEUE - 1")
  case True
  have "smcEqualExpID (fst (items q ! k)) e" "\<forall>j < k. \<not> smcEqualExpID (fst (items q ! j)) e" using k others by (simp_all add: equal_ids(1))
  from pqSetStat_items [OF inv k(1) True this, of st] show ?thesis using k by auto
next
  case False
  have len: "nat (qCount q) \<le> SZ_PROC_QUEUE" using inv by (auto simp: pq_inv_def)
  then have kk: "k = SZ_PROC_QUEUE - 1" "nat (qCount q) = SZ_PROC_QUEUE" using False k(1) by simp_all
  have "find_node (queue q) e (SZ_PROC_QUEUE - 1) (qFirst q) = None"
  proof (rule find_node_ring(1))
    show "\<forall>i < SZ_PROC_QUEUE. q_next (queue q i) = (i + 1) mod SZ_PROC_QUEUE" "qFirst q < SZ_PROC_QUEUE" using inv by (simp_all add: pq_inv_def)
    show "\<forall>j < SZ_PROC_QUEUE - 1. \<not> smcEqualExpID (q_expID (queue q ((qFirst q + j) mod SZ_PROC_QUEUE))) e"
    proof (intro allI impI)
      fix j assume j: "j < SZ_PROC_QUEUE - 1"
      then have "j < nat (qCount q)" "j \<noteq> k" using kk by simp_all
      then show "\<not> smcEqualExpID (q_expID (queue q ((qFirst q + j) mod SZ_PROC_QUEUE))) e"
        using others by (force simp: items_nth slot_def)
    qed
  qed
  then show ?thesis using inv kk(2) by (intro exI [of _ q]) (simp add: pqSetStat_def pq_inv_def)
qed

lemma apart_nth:
  assumes "sorted_wrt (\<lambda>a b. \<not> smcEqualExpID a b) as" "i < length as" "j < length as" "i \<noteq> j"
  shows "\<not> smcEqualExpID (as ! i) (as ! j)"
proof (cases "i < j")
  case True
  then show ?thesis using sorted_wrt_nth_less [OF assms(1), of i j] assms(3) by simp
next
  case False
  then have "\<not> smcEqualExpID (as ! j) (as ! i)" using sorted_wrt_nth_less [OF assms(1), of j i] assms by simp
  then show ?thesis using equal_ids(2) by blast
qed

lemma apart_waiting:
  assumes f: "fifo_state as R (q, out, cur) w"
  shows "sorted_wrt (\<lambda>a b. \<not> smcEqualExpID a b) (map fst (items q))"
proof (cases cur)
  case None
  then show ?thesis using fifo_stateD(2, 3, 6) [OF f] by (simp add: sorted_wrt_append)
next
  case (Some e)
  have o': "out = butlast out @ [e]" using fifo_stateD(4) [OF f] Some by simp
  have it: "map fst (items q) = e # map fst w" using fifo_stateD(3) [OF f] Some by simp
  have "as = (butlast out @ [e]) @ map fst w" using fifo_stateD(2) [OF f] o' by argo
  then have "as = butlast out @ (e # map fst w)" by simp
  then show ?thesis using fifo_stateD(6) [OF f] unfolding it by (simp only: sorted_wrt_append)
qed

lemma fifo_ready:
  assumes f: "fifo_state as R (q, out, cur) w" and e: "e \<in> set as" "e \<notin> R"
  shows "\<exists>q' w'. pqSetStat q e PQ_READY = Inr q' \<and> fifo_state as (insert e R) (q', out, cur) w'"
proof -
  note d = fifo_stateD [OF f]
  define o' :: nat where "o' = (case cur of None \<Rightarrow> 0 | Some e \<Rightarrow> 1)"
  have "e \<in> set (map fst w)" using e d(2, 7) by auto
  then obtain m where m: "m < length w" "fst (w ! m) = e" by (metis in_set_conv_nth length_map nth_map)
  have it: "length (items q) = o' + length w" "items q ! (o' + m) = w ! m" using d(3) m(1) by (auto simp: o'_def split: option.splits)
  have ap: "\<forall>j < length (items q). j \<noteq> o' + m \<longrightarrow> \<not> smcEqualExpID (fst (items q ! j)) e"
  proof (intro allI impI)
    fix j assume "j < length (items q)" "j \<noteq> o' + m"
    then have "\<not> smcEqualExpID (map fst (items q) ! j) (map fst (items q) ! (o' + m))" using apart_nth [OF apart_waiting [OF f], of j "o' + m"] it m(1) by simp
    then show "\<not> smcEqualExpID (fst (items q ! j)) e" using \<open>j < length (items q)\<close> it m by simp
  qed
  obtain q' where q': "pqSetStat q e PQ_READY = Inr q'" "pq_inv q'"
    "items q' = (items q)[o' + m := (e, PQ_READY)] \<or> items q' = items q \<and> length (items q) = SZ_PROC_QUEUE"
    using pqSetStat_at [OF d(1) _ _ _ ap, of PQ_READY] it m by (auto simp: pq_status_defs)
  show ?thesis
  proof (cases "items q' = (items q)[o' + m := (e, PQ_READY)]")
    case True
    let ?w = "w[m := (e, PQ_READY)]"
    have mf: "map fst ?w = map fst w" using m by (simp add: map_update list_update_same_conv)
    have "fifo_state as (insert e R) (q', out, cur) ?w"
    proof (rule fifo_stateI [OF q'(2)])
      show "as = out @ map fst ?w" using d(2) mf by simp
      show "items q' = (case cur of None \<Rightarrow> ?w | Some e \<Rightarrow> (e, PQ_ACTIVE) # ?w)" using True d(3) by (simp add: o'_def split: option.splits)
      show "\<forall>x \<in> set ?w. snd x = PQ_START \<or> snd x = PQ_READY \<and> fst x \<in> insert e R"
        using d(8) set_update_subset_insert [of w m "(e, PQ_READY)"] by auto
      show "length as < SZ_PROC_QUEUE \<longrightarrow> (\<forall>x \<in> set ?w. fst x \<in> insert e R \<longrightarrow> snd x = PQ_READY)"
      proof (intro impI ballI)
        fix x assume l: "length as < SZ_PROC_QUEUE" and x: "x \<in> set ?w" "fst x \<in> insert e R"
        then obtain i where i: "i < length w" "x = ?w ! i" by (metis in_set_conv_nth length_list_update)
        show "snd x = PQ_READY"
        proof (cases "i = m")
          case False
          then have "x = w ! i" "o' + i < length (items q)" "items q ! (o' + i) = w ! i" using i it d(3) by (auto simp: o'_def split: option.splits)
          moreover from this have "fst x \<noteq> e" using ap False by (metis add_left_imp_eq equal_ids(1))
          ultimately show ?thesis using d(9) l x(2) i(1) by auto
        qed (use i in simp)
      qed
    qed (use d in auto)
    then show ?thesis using q'(1) by blast
  next
    case False
    then have same: "items q' = items q" "length (items q) = SZ_PROC_QUEUE" using q'(3) by blast+
    then have "\<not> length as < SZ_PROC_QUEUE" using fifo_short [OF f] by simp
    then have "fifo_state as (insert e R) (q', out, cur) w" by (intro fifo_stateI [OF q'(2)]) (use d same in auto)
    then show ?thesis using q'(1) by blast
  qed
qed

lemma fifo_serve:
  assumes f: "fifo_state as R (q, out, cur) w"
  shows "\<exists>s' w'. pq_event_step now Serve (q, out, cur) = Inr s' \<and> fifo_state as R s' w'"
proof (cases "cur = None \<and> (\<exists>e xs. w = (e, PQ_READY) # xs)")
  case True
  note d = fifo_stateD [OF f]
  obtain e xs where w: "w = (e, PQ_READY) # xs" using True by blast
  have e: "0 < e" "e \<in> R" using d(2, 5, 8) w by (auto simp: pq_status_defs)
  obtain q' where q': "superProcNext True q = Inr (e, q')" "pq_inv q'" "items q' = (e, PQ_ACTIVE) # xs"
    using superProcNext_items(1) [OF d(1), of e xs] d(3) True w e(1) by auto
  have "fifo_state as R (q', out @ [e], Some e) xs" by (rule fifo_stateI [OF q'(2)]) (use d w e q'(3) in auto)
  then show ?thesis using q'(1) e(1) by (intro exI [of _ "(q', out @ [e], Some e)"] exI [of _ xs]) simp
next
  case False
  note d = fifo_stateD [OF f]
  have "\<forall>e xs. items q \<noteq> (e, PQ_READY) # xs" using d(3) False by (auto simp: pq_status_defs split: option.splits)
  then have "superProcNext True q = Inr (0, q)" by (rule superProcNext_items(2) [OF d(1)])
  then show ?thesis using f by (intro exI [of _ "(q, out, cur)"] exI [of _ w]) simp
qed

lemma fifo_finish:
  assumes f: "fifo_state as R (q, out, cur) w"
  shows "\<exists>s' w'. pq_event_step now Finish (q, out, cur) = Inr s' \<and> fifo_state as R s' w'"
proof (cases cur)
  case None
  then show ?thesis using f by (intro exI [of _ "(q, out, cur)"] exI [of _ w]) simp
next
  case (Some e)
  note d = fifo_stateD [OF f]
  obtain q' where q': "pqSetStat q e PQ_DONE = Inr q'" "pq_inv q'" "items q' = w"
    using set_head_pq [OF d(1), of e PQ_ACTIVE w PQ_DONE] d(3) Some by auto
  have "fifo_state as R (q', out, None) w" by (rule fifo_stateI [OF q'(2)]) (use d q'(3) in auto)
  then show ?thesis using q'(1) Some by (intro exI [of _ "(q', out, None)"] exI [of _ w]) simp
qed

definition fifo_result :: "rat list \<Rightarrow> rat set \<Rightarrow> (pq \<times> rat list \<times> rat option) res \<Rightarrow> bool" where
  "fifo_result as R r \<longleftrightarrow> (case r of Inl f \<Rightarrow> f = Exit_Process \<and> SZ_PROC_QUEUE < length as | Inr s \<Rightarrow> \<exists>w. fifo_state as R s w)"

lemma fifo_run:
  assumes "fifo_state as R s w" "orderly (set as) R vs" "R \<subseteq> set as"
  shows "fifo_result (as @ arrivals vs) (R \<union> readies vs) (pq_run now vs s)"
  using assms
proof (induction vs arbitrary: as R s w)
  case Nil
  then show ?case by (auto simp: fifo_result_def)
next
  case (Cons v vs)
  obtain q out cur where s: "s = (q, out, cur)" by (cases s)
  note f = Cons.prems(1) [unfolded s]
  show ?case
  proof (cases v)
    case (Arrive e)
    have e: "0 < e" "valid_id e" "\<forall>a \<in> set as. \<not> smcEqualExpID a e" "orderly (set (as @ [e])) R vs" using Cons.prems(2) Arrive by simp_all
    then have eR: "e \<notin> R" using Cons.prems(3) by (metis equal_ids(1) subsetD)
    show ?thesis
    proof (cases "length (items q) < SZ_PROC_QUEUE")
      case True
      then obtain q' where "pqAdd now q e = Inr q'" "fifo_state (as @ [e]) R (q', out, cur) (w @ [(e, PQ_START)])" using fifo_arrive [OF f e(1-3) eR] by blast
      then show ?thesis using Cons.IH [OF _ e(4), of "(q', out, cur)"] Cons.prems(3) Arrive s by auto
    next
      case False
      then have "qCount q = int SZ_PROC_QUEUE" using fifo_stateD(1) [OF f] by (intro pq_full) simp_all
      then show ?thesis using False fifo_short [OF f] Arrive s by (simp add: pqAdd_full fifo_result_def)
    qed
  next
    case (Ready e)
    then obtain q' w' where "pqSetStat q e PQ_READY = Inr q'" "fifo_state as (insert e R) (q', out, cur) w'" using fifo_ready [OF f, of e] Cons.prems(2) by fastforce
    then show ?thesis using Cons.IH [of as "insert e R" "(q', out, cur)"] Cons.prems(2, 3) Ready s by simp
  next
    case Serve
    then obtain s' w' where "pq_event_step now v s = Inr s'" "fifo_state as R s' w'" using fifo_serve [OF f] s by blast
    then show ?thesis using Cons.IH Cons.prems(2, 3) Serve by simp
  next
    case Finish
    then obtain s' w' where "pq_event_step now v s = Inr s'" "fifo_state as R s' w'" using fifo_finish [OF f] s by blast
    then show ?thesis using Cons.IH Cons.prems(2, 3) Finish by simp
  qed
qed

text \<open>
  C9: exposures are processed in the order in which they arrived, in whatever order they become ready.
  Over any sequence of arrivals, ready marks, requests for the next exposure and ends of the one in
  work, the exposures handed out so far, followed by those that wait, are the arrivals in order.  A
  request hands out the first that waits as soon as it is ready and the one before is finished, and
  (while fewer than \<open>SZ_PROC_QUEUE\<close> have arrived) it is ready when it has been marked.  The process
  only exits when more than \<open>SZ_PROC_QUEUE\<close> exposures have arrived.
\<close>

theorem queue_fifo:
  assumes "q_expID (queue sp (SZ_PROC_QUEUE - 1)) = 0" "q_status (queue sp (SZ_PROC_QUEUE - 1)) = PQ_AVAILABLE"
    and "orderly {} {} vs"
  shows "case pq_run now vs (pqInit sp, [], None) of
       Inl f \<Rightarrow> f = Exit_Process \<and> SZ_PROC_QUEUE < length (arrivals vs)
     | Inr (q, out, cur) \<Rightarrow> pq_inv q \<and> (\<exists>w. arrivals vs = out @ map fst w
         \<and> items q = (case cur of None \<Rightarrow> w | Some e \<Rightarrow> (last out, PQ_ACTIVE) # w)
         \<and> (\<forall>e xs. cur = None \<and> w = (e, PQ_READY) # xs \<longrightarrow> (\<exists>q'. pq_event_step now Serve (q, out, cur) = Inr (q', out @ [e], Some e)))
         \<and> (length (arrivals vs) < SZ_PROC_QUEUE \<longrightarrow> (\<forall>x \<in> set w. snd x = (if fst x \<in> readies vs then PQ_READY else PQ_START))))"
proof -
  have "fifo_state [] {} (pqInit sp, [], None) []" using pqInit_inv [OF assms(1, 2)] by (simp add: fifo_state_def)
  from fifo_run [OF this, of vs now] assms(3)
  have r: "fifo_result (arrivals vs) (readies vs) (pq_run now vs (pqInit sp, [], None))" by simp
  show ?thesis
  proof (cases "pq_run now vs (pqInit sp, [], None)")
    case (Inl f)
    then show ?thesis using r by (simp add: fifo_result_def)
  next
    case (Inr s')
    obtain q out cur where s': "s' = (q, out, cur)" by (cases s')
    then obtain w where f: "fifo_state (arrivals vs) (readies vs) (q, out, cur) w" using r Inr by (auto simp: fifo_result_def)
    note d = fifo_stateD [OF f]
    have serve: "\<exists>q'. pq_event_step now Serve (q, out, cur) = Inr (q', out @ [e], Some e)" if "cur = None" "w = (e, PQ_READY) # xs" for e xs
      using superProcNext_items(1) [OF d(1), of e xs] d(2, 3, 5) that by auto
    have "items q = (case cur of None \<Rightarrow> w | Some e \<Rightarrow> (last out, PQ_ACTIVE) # w)" using d(3, 4) by (auto split: option.splits)
    then show ?thesis unfolding Inr s' using d(1, 2, 8, 9) serve
      by (simp only: sum.case prod.case) (intro conjI exI [of _ w]; auto simp: pq_status_defs)
  qed
qed

definition blank_pq :: pq where
  "blank_pq = \<lparr>queue = (\<lambda>_. \<lparr>q_expID = 0, q_status = 0, t_in = [], t_out = [], t_done = [], q_next = 0\<rparr>),
     qFirst = 0, qLast = 0, qCount = 0, q_log = []\<rparr>"

theorem queue_fifo_witness:
  "case pq_run ''now'' [Arrive 5, Arrive 3, Ready 3, Serve, Ready 5, Serve, Arrive 9, Finish, Serve] (pqInit blank_pq, [], None) of Inl f \<Rightarrow> False
   | Inr (q, out, cur) \<Rightarrow> \<exists>w. [5, 3, 9] = out @ map fst w \<and> (\<forall>x \<in> set w. snd x = (if fst x \<in> {3, 5} then PQ_READY else PQ_START))"
proof -
  let ?vs = "[Arrive 5, Arrive 3, Ready 3, Serve, Ready 5, Serve, Arrive 9, Finish, Serve]"
  have init: "q_expID (queue blank_pq (SZ_PROC_QUEUE - 1)) = 0" "q_status (queue blank_pq (SZ_PROC_QUEUE - 1)) = PQ_AVAILABLE"
    by (simp_all add: blank_pq_def pq_status_defs)
  have o': "orderly {} {} ?vs" by (simp add: valid_id_def smcEqualExpID_def)
  have a: "arrivals ?vs = [5, 3, 9]" "readies ?vs = {3, 5}" "length [5, 3, 9 :: rat] < SZ_PROC_QUEUE" "\<not> SZ_PROC_QUEUE < length [5, 3, 9 :: rat]"
    by (simp_all add: SZ_PROC_QUEUE_def)
  show ?thesis
  proof (cases "pq_run ''now'' ?vs (pqInit blank_pq, [], None)")
    case (Inl f)
    then show ?thesis using queue_fifo [OF init o', of "''now''"] a by simp
  next
    case (Inr s')
    obtain q out cur where "s' = (q, out, cur)" by (cases s')
    with queue_fifo [OF init o', of "''now''"] a(3) obtain w where "[5, 3, 9] = out @ map fst w"
      "\<forall>x \<in> set w. snd x = (if fst x \<in> {3, 5} then PQ_READY else PQ_START)" unfolding Inr a(1, 2) by auto
    then show ?thesis unfolding Inr \<open>s' = (q, out, cur)\<close> sum.case prod.case by blast
  qed
qed

text \<open>
  \<open>pqAdd\<close> refines appending to a bounded list: with room it appends the exposure in the
  start state and flags waiting data to the GUI; it ends the process exactly when the queue
  already holds \<open>SZ_PROC_QUEUE\<close> exposures.
\<close>

theorem pqAdd_refines:
  assumes "pq_inv s"
  shows "if length (items s) < SZ_PROC_QUEUE
    then \<exists>s'. pqAdd now s e = Inr s' \<and> pq_inv s' \<and> items s' = items s @ [(e, PQ_START)]
           \<and> q_log s' = q_log s @ [''waiting 1'']
    else pqAdd now s e = Inl Exit_Process"
proof (cases "length (items s) < SZ_PROC_QUEUE")
  case True
  then show ?thesis using pqAdd_items [OF assms, of now e] by simp
next
  case False
  then have "qCount s = int SZ_PROC_QUEUE" using assms by (intro pq_full) simp_all
  then show ?thesis using False pqAdd_full by simp
qed

theorem pqAdd_refines_witness:
  "\<exists>s'. pqAdd ''now'' (pqInit blank_pq) 4 = Inr s' \<and> items s' = [(4, PQ_START)]"
proof -
  have "pq_inv (pqInit blank_pq)" "items (pqInit blank_pq) = []"
    using pqInit_inv [of blank_pq] by (simp_all add: blank_pq_def pq_status_defs)
  then show ?thesis using pqAdd_refines [of "pqInit blank_pq" "''now''" 4] by auto
qed

text \<open>
  what \<open>pqSetStat\<close> does.  If no queued exposure matches, nothing changes.  If the first
  match is at position \<open>k\<close> (within the nodes the loop visits), its status is set; with
  \<open>PQ_DONE\<close> the head of the queue is dropped as well, whichever exposure is done.
\<close>

theorem pqSetStat_refines:
  assumes "pq_inv s" "valid_id e"
  shows "if \<forall>x \<in> set (items s). \<not> smcEqualExpID (fst x) e
    then pqSetStat s e st = Inr s
    else \<forall>k < length (items s). k < SZ_PROC_QUEUE - 1
      \<and> smcEqualExpID (fst (items s ! k)) e \<and> (\<forall>j < k. \<not> smcEqualExpID (fst (items s ! j)) e)
      \<longrightarrow> (\<exists>s'. pqSetStat s e st = Inr s' \<and> pq_inv s'
        \<and> items s' = (if st = PQ_DONE then tl ((items s)[k := (fst (items s ! k), st)])
                      else (items s)[k := (fst (items s ! k), st)]))"
  using pqSetStat_none [OF assms, of st] pqSetStat_items [OF assms(1), of _ e st] by auto

definition three_queued :: pq where
  "three_queued = (case add_all (pqAdd ''t'') (pqInit blank_pq) [5, 3, 9] of Inr q \<Rightarrow> q | Inl _ \<Rightarrow> blank_pq)"

lemma three_queued_inv:
  "pq_inv three_queued" "items three_queued = [(5, PQ_START), (3, PQ_START), (9, PQ_START)]"
proof -
  have "pq_inv (pqInit blank_pq)" "items (pqInit blank_pq) = []"
    using pqInit_inv [of blank_pq] by (simp_all add: blank_pq_def pq_status_defs)
  then obtain q where "add_all (pqAdd ''t'') (pqInit blank_pq) [5, 3, 9] = Inr q" "pq_inv q"
    "items q = [(5, PQ_START), (3, PQ_START), (9, PQ_START)]"
    using eq.add_all_contents [of "pqInit blank_pq" "[5, 3, 9]" "''t''"]
    by (auto simp: SZ_PROC_QUEUE_def)
  then show "pq_inv three_queued" "items three_queued = [(5, PQ_START), (3, PQ_START), (9, PQ_START)]"
    by (simp_all add: three_queued_def)
qed

theorem pqSetStat_refines_witness:
  "pqSetStat three_queued 77 PQ_DONE = Inr three_queued
   \<and> (\<exists>s'. pqSetStat three_queued 3 PQ_READY = Inr s'
        \<and> items s' = [(5, PQ_START), (3, PQ_READY), (9, PQ_START)])"
proof
  have v: "valid_id 77" "valid_id 3" by (simp_all add: valid_id_def smcEqualExpID_def)
  show "pqSetStat three_queued 77 PQ_DONE = Inr three_queued"
    using pqSetStat_refines [OF three_queued_inv(1) v(1), of PQ_DONE] three_queued_inv(2)
    by (simp add: smcEqualExpID_def)
  have "(1::nat) < length (items three_queued)" "items three_queued ! 1 = (3, PQ_START)"
    "items three_queued ! 0 = (5, PQ_START)" "(1::nat) < SZ_PROC_QUEUE - 1"
    unfolding three_queued_inv(2) by (simp_all add: SZ_PROC_QUEUE_def)
  then show "\<exists>s'. pqSetStat three_queued 3 PQ_READY = Inr s'
        \<and> items s' = [(5, PQ_START), (3, PQ_READY), (9, PQ_START)]"
    using pqSetStat_refines [OF three_queued_inv(1) v(2), of PQ_READY] three_queued_inv(2)
    by (auto simp: smcEqualExpID_def pq_status_defs dest!: spec [of _ 1])
qed

text \<open>
  finishing an exposure that is not at the head loses the one that is: the head is
  removed whatever its status, and the finished exposure stays in the queue as done.
\<close>

theorem pqSetStat_done_drops_head:
  assumes "pq_inv s" "items s = (e0, st0) # xs @ (e, st) # ys" "length xs + 1 < SZ_PROC_QUEUE - 1"
    "\<not> smcEqualExpID e0 e" "\<forall>x \<in> set xs. \<not> smcEqualExpID (fst x) e"
  shows "\<exists>s'. pqSetStat s e PQ_DONE = Inr s' \<and> items s' = xs @ (e, PQ_DONE) # ys"
proof -
  let ?k = "Suc (length xs)"
  have k: "items s ! ?k = (e, st)" "?k < length (items s)" by (simp_all add: assms(2) del: length_items)
  have "\<forall>j < ?k. \<not> smcEqualExpID (fst (items s ! j)) e"
    using assms(4,5) by (auto simp: assms(2) nth_Cons' nth_append less_Suc_eq_0_disj)
  then have "\<exists>s'. pqSetStat s e PQ_DONE = Inr s' \<and> pq_inv s'
      \<and> items s' = tl ((items s)[?k := (fst (items s ! ?k), PQ_DONE)])"
    using pqSetStat_items [OF assms(1) k(2), of e PQ_DONE] k(1) assms(3) by simp
  then show ?thesis using k(1) by (auto simp: assms(2))
qed

theorem pqSetStat_done_drops_head_witness:
  "\<exists>s'. pqSetStat three_queued 3 PQ_DONE = Inr s' \<and> items s' = [(3, PQ_DONE), (9, PQ_START)]"
  using pqSetStat_done_drops_head [OF three_queued_inv(1), of 5 PQ_START "[]" 3 PQ_START "[(9, PQ_START)]"]
    three_queued_inv(2)
  by (simp add: smcEqualExpID_def SZ_PROC_QUEUE_def)

text \<open>
  \<open>pqGetStat\<close> always returns.  While the queue is not full it reports the status of the
  first matching exposure, or 0 if there is none; when all \<open>SZ_PROC_QUEUE\<close> nodes are in use
  its loop ends before the first node and it reports 0 for every exposure.
\<close>

theorem pqGetStat_returns:
  assumes "pq_inv s"
  shows "pqGetStat s e = Inr (if length (items s) < SZ_PROC_QUEUE then stat_of (items s) e else 0)"
proof -
  have stop: "q_next (queue s (qLast s)) = slot s (nat (qCount s))" and f: "slot s 0 = qFirst s"
    using assms by (auto simp: pq_inv_def slot_0)
  show ?thesis
  proof (cases "nat (qCount s) < SZ_PROC_QUEUE")
    case True
    then show ?thesis
      using get_stat_loop_items [OF assms True, of 0 SZ_PROC_QUEUE e] stop f
      by (simp add: pqGetStat_def)
  next
    case False
    then have "nat (qCount s) = SZ_PROC_QUEUE" using pq_full [OF assms] by simp
    then have "slot s (nat (qCount s)) = qFirst s"
      using assms by (simp add: pq_inv_def slot_def)
    moreover have "get_stat_loop q e p (Suc m) p = Inr 0" for q p m by simp
    ultimately show ?thesis using stop False SZ_pos(1) unfolding pqGetStat_def
      by (metis length_items less_imp_Suc_add)
  qed
qed

theorem pqGetStat_returns_witness: "pqGetStat three_queued 9 = Inr PQ_START"
  using pqGetStat_returns [OF three_queued_inv(1), of 9] three_queued_inv(2)
  by (simp add: stat_of_def smcEqualExpID_def SZ_PROC_QUEUE_def)

end
