(* ===== verification/Vm_Cache.thy ===== *)
theory Vm_Cache
  imports Dhs_Prelude
begin

unbundle bit_operations_syntax

text \<open>
  The virtual memory cache controller, \<open>mosdca/vmcache.c\<close>.

  \<^item> \<open>struct segment\<close> is the record \<open>Segment\<close>, \<open>struct vmcache\<close> the record \<open>VMcache\<close>.  The
    segments live in a heap \<open>vm_heap\<close>, indexed by their address (0 is NULL), and are doubly
    linked through it as in the code; \<open>free\<close> removes a segment from the heap, and reading
    or writing a freed one is the fault \<open>Use_After_Free\<close>.
  \<^item> \<open>unsigned long\<close> is a 64-bit word, sums and differences wrap.
  \<^item> The calls made to the kernel are recorded in order in \<open>vm_calls\<close>.
  \<^item> \<open>mmap\<close> may answer by all calls made up to and including its own (\<open>os_mmap\<close> of \<open>vm_calls\<close>).
  \<^item> \<open>os\<close> holds what the code asks of its environment (\<open>fstat\<close>, \<open>stat\<close>, \<open>open\<close>, \<open>mmap\<close>,
    \<open>munmap\<close>, \<open>msync\<close>, \<open>calloc\<close>, the physical memory), the indeterminate value that a
    variable has which is read before it is set (\<open>os_junk\<close>), and the number of rounds that
    are looked at in each loop (\<open>os_fuel\<close>); a loop that needs more is \<open>Diverges\<close>.
  \<^item> Not modelled: the debug messages and the \<open>debug\<close> switch that turns them on.
\<close>

section \<open>Data\<close>

record Segment =
  vs_next :: nat
  vs_prev :: nat
  vs_refcnt :: int
  vs_addr :: "64 word"
  vs_fd :: int
  vs_inode :: nat
  vs_device :: nat
  vs_offset :: "64 word"
  vs_nbytes :: "64 word"

datatype kcall =
    Madvise "64 word" "64 word" bool
  | Mmap "64 word" int "64 word" bool
  | Munmap "64 word" "64 word"
  | Mlock "64 word" "64 word"
  | Msync "64 word" "64 word" bool
  | Close int

type_synonym seg_heap = "nat \<Rightarrow> Segment option"

record VMcache =
  segment_head :: nat
  segment_tail :: nat
  cache_initialized :: bool
  cache_enabled :: bool
  cacheused :: "64 word"
  cachesize :: "64 word"
  physmem :: "64 word"
  lockpages :: bool
  pagesize :: "32 word"
  vm_heap :: seg_heap
  vm_calls :: "kcall list"

record file_stat =
  st_ino :: nat
  st_dev :: nat
  st_size :: "64 word"

record os =
  os_fstat :: "int \<Rightarrow> file_stat option"
  os_stat :: "string \<Rightarrow> file_stat option"
  os_open :: "string \<Rightarrow> int"
  os_mmap :: "kcall list \<Rightarrow> 64 word"
  os_munmap_ok :: "64 word \<Rightarrow> bool"
  os_msync_ok :: "64 word \<Rightarrow> bool"
  os_calloc :: "seg_heap \<Rightarrow> nat"
  os_physpages :: "64 word"
  os_pagesize :: "32 word"
  os_junk :: "64 word"
  os_fuel :: nat

definition VM_READONLY :: "32 word" where "VM_READONLY = 1"
definition VM_READWRITE :: "32 word" where "VM_READWRITE = 2"
definition VM_ASYNC :: "32 word" where "VM_ASYNC = 8"
definition VM_LOCKFILE :: "32 word" where "VM_LOCKFILE = 32"
definition VM_DESTROYREGION :: "32 word" where "VM_DESTROYREGION = 64"
definition VM_CANCELREFCNT :: "32 word" where "VM_CANCELREFCNT = 128"
definition READAHEAD :: "32 word" where "READAHEAD = 32768"
definition SZ_NAME :: nat where "SZ_NAME = 64"

definition deref :: "seg_heap \<Rightarrow> nat \<Rightarrow> Segment res" where
  "deref h p = (if p = 0 then Inl Null_Deref
     else case h p of None \<Rightarrow> Inl Use_After_Free | Some s \<Rightarrow> Inr s)"

definition upd_seg :: "VMcache \<Rightarrow> nat \<Rightarrow> (Segment \<Rightarrow> Segment) \<Rightarrow> VMcache res" where
  "upd_seg vm p f = bind_res (deref (vm_heap vm) p) (\<lambda>s. Inr (vm\<lparr>vm_heap := (vm_heap vm)(p \<mapsto> f s)\<rparr>))"

definition call :: "kcall \<Rightarrow> VMcache \<Rightarrow> VMcache" where
  "call k vm = vm\<lparr>vm_calls := vm_calls vm @ [k]\<rparr>"

section \<open>Lists of segments\<close>

text \<open>The pair of assignments that takes \<open>sp\<close> out of the chain of its neighbours.\<close>

definition unlink_seg :: "VMcache \<Rightarrow> nat \<Rightarrow> VMcache res" where
  "unlink_seg vm sp =
     bind_res (deref (vm_heap vm) sp) (\<lambda>s.
     bind_res (if vs_next s \<noteq> 0 then upd_seg vm (vs_next s) (\<lambda>n. n\<lparr>vs_prev := vs_prev s\<rparr>) else Inr vm) (\<lambda>vm.
     bind_res (deref (vm_heap vm) sp) (\<lambda>s.
     if vs_prev s \<noteq> 0 then upd_seg vm (vs_prev s) (\<lambda>n. n\<lparr>vs_next := vs_next s\<rparr>) else Inr vm)))"

text \<open>Linking \<open>sp\<close> in front of the head.\<close>

definition link_head :: "VMcache \<Rightarrow> nat \<Rightarrow> VMcache res" where
  "link_head vm sp =
     bind_res (upd_seg vm sp (\<lambda>s. s\<lparr>vs_next := segment_head vm, vs_prev := 0\<rparr>)) (\<lambda>vm.
     bind_res (if segment_head vm \<noteq> 0 then upd_seg vm (segment_head vm) (\<lambda>s. s\<lparr>vs_prev := sp\<rparr>) else Inr vm) (\<lambda>vm.
     Inr (vm\<lparr>segment_head := sp\<rparr>)))"

text \<open>Unlinking a segment, moving the head and tail pointers off it, and freeing it.\<close>

definition drop_seg :: "VMcache \<Rightarrow> nat \<Rightarrow> VMcache res" where
  "drop_seg vm sp =
     bind_res (unlink_seg vm sp) (\<lambda>vm.
     bind_res (deref (vm_heap vm) sp) (\<lambda>s.
       let vm = (if segment_head vm = sp then vm\<lparr>segment_head := vs_next s\<rparr> else vm);
           vm = (if segment_tail vm = sp then vm\<lparr>segment_tail := vs_prev s\<rparr> else vm)
       in Inr (vm\<lparr>vm_heap := (vm_heap vm)(sp := None)\<rparr>)))"

section \<open>Internal routines\<close>

definition vm_uncache :: "os \<Rightarrow> VMcache \<Rightarrow> nat \<Rightarrow> 32 word \<Rightarrow> (int \<times> VMcache) res" where
  "vm_uncache e vm sp flags =
     bind_res (deref (vm_heap vm) sp) (\<lambda>s.
       let r = (if vs_refcnt s - 1 < 0 \<or> flags AND VM_CANCELREFCNT \<noteq> 0 then 0 else vs_refcnt s - 1);
           vm = vm\<lparr>vm_heap := (vm_heap vm)(sp \<mapsto> s\<lparr>vs_refcnt := r\<rparr>)\<rparr>
       in if r = 0 \<and> (flags AND VM_DESTROYREGION \<noteq> 0 \<or> \<not> cache_enabled vm) then
            let vm = (if cache_enabled vm then call (Madvise (vs_addr s) (vs_nbytes s) False) vm else vm);
                vm = call (Munmap (vs_addr s) (vs_nbytes s)) vm;
                status = (if os_munmap_ok e (vs_addr s) then 0 else -1);
                vm = vm\<lparr>cacheused := cacheused vm - vs_nbytes s\<rparr>
            in bind_res (drop_seg vm sp) (\<lambda>vm. Inr (status, vm))
          else Inr (0, vm))"

primrec readahead_loop ::
    "nat \<Rightarrow> VMcache \<Rightarrow> 64 word \<Rightarrow> 64 word \<Rightarrow> 32 word \<Rightarrow> 32 word \<Rightarrow> VMcache res" where
  "readahead_loop 0 vm buf nbytes chunk n = Inl Diverges"
| "readahead_loop (Suc f) vm buf nbytes chunk n =
     (if (scast n :: 64 word) < nbytes then
        let nb = (ucast nbytes :: 32 word) - n;
            nb = (if sint nb > sint chunk then chunk else nb)
        in readahead_loop f (call (Madvise (buf + scast n) (scast nb) True) vm) buf nbytes chunk (n + chunk)
      else Inr vm)"

definition vm_readahead :: "os \<Rightarrow> VMcache \<Rightarrow> 64 word \<Rightarrow> 64 word \<Rightarrow> VMcache res" where
  "vm_readahead e vm address nbytes = readahead_loop (os_fuel e) vm address nbytes (READAHEAD * pagesize vm) 0"

primrec reserve_loop :: "nat \<Rightarrow> VMcache \<Rightarrow> 64 word \<Rightarrow> nat \<Rightarrow> 64 word \<Rightarrow> (64 word \<times> VMcache) res" where
  "reserve_loop 0 vm nbytes sp freespace = Inl Diverges"
| "reserve_loop (Suc n) vm nbytes sp freespace =
     (if sp = 0 \<or> freespace > nbytes then Inr (freespace, vm)
      else bind_res (deref (vm_heap vm) sp) (\<lambda>s.
        if vs_refcnt s \<noteq> 0 then reserve_loop n vm nbytes (vs_prev s) freespace
        else
          let vm = call (Munmap (vs_addr s) (vs_nbytes s)) (call (Madvise (vs_addr s) (vs_nbytes s) False) vm);
              vm = vm\<lparr>cacheused := cacheused vm - vs_nbytes s\<rparr>;
              freespace = cachesize vm - cacheused vm
          in bind_res (drop_seg vm sp) (\<lambda>vm.
             bind_res (deref (vm_heap vm) sp) (\<lambda>s.
             reserve_loop n vm nbytes (vs_prev s) freespace))))"

definition vm_reservespace :: "os \<Rightarrow> VMcache \<Rightarrow> 64 word \<Rightarrow> (int \<times> VMcache) res" where
  "vm_reservespace e vm nbytes =
     (if \<not> cache_enabled vm then Inr (0, vm)
      else bind_res (reserve_loop (os_fuel e) vm nbytes (segment_tail vm) (cachesize vm - cacheused vm))
        (\<lambda>(freespace, vm). Inr (if freespace \<ge> nbytes then 0 else -1, vm)))"

section \<open>Regions\<close>

text \<open>The first and last byte of the pages that \<open>nbytes\<close> bytes at \<open>offset\<close> touch.\<close>

definition page_size :: "VMcache \<Rightarrow> 64 word" where
  "page_size vm = scast (pagesize vm)"

definition region_start :: "VMcache \<Rightarrow> 64 word \<Rightarrow> 64 word" where
  "region_start vm offset = offset - offset mod page_size vm"

definition region_end :: "VMcache \<Rightarrow> 64 word \<Rightarrow> 64 word \<Rightarrow> 64 word" where
  "region_end vm offset nbytes =
     (let x1 = offset + nbytes - 1 in x1 - x1 mod page_size vm + page_size vm - 1)"

datatype lookup = Hit nat "64 word" "64 word" | Extends | Absent

primrec find_region ::
    "nat \<Rightarrow> seg_heap \<Rightarrow> file_stat \<Rightarrow> 64 word \<Rightarrow> 64 word \<Rightarrow> nat \<Rightarrow> lookup res" where
  "find_region 0 h st x0 x1 sp = Inl Diverges"
| "find_region (Suc n) h st x0 x1 sp =
     (if sp = 0 then Inr Absent
      else bind_res (deref h sp) (\<lambda>s.
        if vs_inode s \<noteq> st_ino st \<or> vs_device s \<noteq> st_dev st then find_region n h st x0 x1 (vs_next s)
        else if x0 \<ge> vs_offset s \<and> x0 < vs_offset s + vs_nbytes s then
          if x1 \<ge> vs_offset s \<and> x1 < vs_offset s + vs_nbytes s then Inr (Hit sp (vs_offset s) (vs_nbytes s))
          else Inr Extends
        else find_region n h st x0 x1 (vs_next s)))"

text \<open>The code after the label \<open>refresh\<close>.\<close>

definition refresh ::
    "os \<Rightarrow> VMcache \<Rightarrow> nat \<Rightarrow> 64 word \<Rightarrow> 64 word \<Rightarrow> 64 word \<Rightarrow> 64 word \<Rightarrow> (64 word \<times> VMcache) res" where
  "refresh e vm sp address offset vm_offset vm_nbytes =
     bind_res (if segment_head vm \<noteq> sp then
         bind_res (unlink_seg vm sp) (\<lambda>vm.
         bind_res (link_head vm sp) (\<lambda>vm.
         Inr (if segment_tail vm = 0 then vm\<lparr>segment_tail := sp\<rparr> else vm)))
       else Inr vm) (\<lambda>vm.
     bind_res (if cache_enabled vm then vm_readahead e vm address vm_nbytes else Inr vm) (\<lambda>vm.
     bind_res (upd_seg vm sp (\<lambda>s. s\<lparr>vs_refcnt := vs_refcnt s + 1\<rparr>)) (\<lambda>vm.
     Inr (address + (offset - vm_offset), vm))))"

text \<open>
  The part of \<open>vm_cacheregion\<close> that maps a new segment and makes it the head of the list:
  the segment (0 where the routine returns NULL) and its address.
\<close>

definition map_segment ::
    "os \<Rightarrow> VMcache \<Rightarrow> int \<Rightarrow> file_stat \<Rightarrow> 64 word \<Rightarrow> 64 word \<Rightarrow> 32 word \<Rightarrow> (nat \<times> 64 word \<times> VMcache) res" where
  "map_segment e vm fd st vm_offset vm_nbytes acmode =
     (let vm = call (Mmap vm_nbytes fd vm_offset (acmode = VM_READWRITE)) vm;
          address = os_mmap e (vm_calls vm) in
      if address = 0 then Inr (0, 0, vm)
      else
        let vm = (if lockpages vm \<and> cache_enabled vm then call (Mlock address vm_nbytes) vm else vm);
            sp = os_calloc e (vm_heap vm) in
        if sp = 0 then Inr (0, 0, call (Munmap address vm_nbytes) vm)
        else
          let vm = vm\<lparr>vm_heap := (vm_heap vm)(sp \<mapsto>
                \<lparr>vs_next = 0, vs_prev = 0, vs_refcnt = 0, vs_addr = address, vs_fd = fd, vs_inode = st_ino st,
                 vs_device = st_dev st, vs_offset = vm_offset, vs_nbytes = vm_nbytes\<rparr>)\<rparr> in
          bind_res (link_head vm sp) (\<lambda>vm.
          let vm = vm\<lparr>cacheused := cacheused vm + vm_nbytes\<rparr>;
              vm = (if segment_tail vm = 0 then vm\<lparr>segment_tail := sp\<rparr> else vm)
          in Inr (sp, address, vm)))"

text \<open>
  \<open>vm_cacheregion\<close> returns 0 for NULL.  On a hit the variable \<open>addr\<close> has not been set when
  \<open>refresh\<close> uses it.
\<close>

definition vm_cacheregion ::
    "os \<Rightarrow> VMcache \<Rightarrow> int \<Rightarrow> 64 word \<Rightarrow> 64 word \<Rightarrow> 32 word \<Rightarrow> 32 word \<Rightarrow> (64 word \<times> VMcache) res" where
  "vm_cacheregion e vm fd offset nbytes acmode flags =
     (case os_fstat e fd of None \<Rightarrow> Inr (0, vm)
      | Some st \<Rightarrow>
        let x0 = region_start vm offset; x1 = region_end vm offset nbytes;
            vm_offset = x0; vm_nbytes = x1 - x0 + 1 in
        bind_res (find_region (os_fuel e) (vm_heap vm) st x0 x1 (segment_head vm)) (\<lambda>l.
        case l of
          Hit sp so sn \<Rightarrow> refresh e vm sp (os_junk e) offset so sn
        | Extends \<Rightarrow> Inr (0, vm)
        | Absent \<Rightarrow>
            bind_res (vm_reservespace e vm vm_nbytes) (\<lambda>(r, vm).
            bind_res (map_segment e vm fd st vm_offset vm_nbytes acmode) (\<lambda>(sp, address, vm).
            if sp = 0 then Inr (0, vm) else refresh e vm sp address offset vm_offset vm_nbytes))))"

primrec find_offset :: "nat \<Rightarrow> seg_heap \<Rightarrow> file_stat \<Rightarrow> 64 word \<Rightarrow> nat \<Rightarrow> nat res" where
  "find_offset 0 h st off sp = Inl Diverges"
| "find_offset (Suc n) h st off sp =
     (if sp = 0 then Inr 0
      else bind_res (deref h sp) (\<lambda>s.
        if vs_inode s = st_ino st \<and> vs_device s = st_dev st \<and> vs_offset s = off then Inr sp
        else find_offset n h st off (vs_next s)))"

definition vm_uncacheregion ::
    "os \<Rightarrow> VMcache \<Rightarrow> int \<Rightarrow> 64 word \<Rightarrow> 64 word \<Rightarrow> 32 word \<Rightarrow> (int \<times> VMcache) res" where
  "vm_uncacheregion e vm fd offset nbytes flags =
     (case os_fstat e fd of None \<Rightarrow> Inr (-1, vm)
      | Some st \<Rightarrow>
        bind_res (find_offset (os_fuel e) (vm_heap vm) st (region_start vm offset) (segment_head vm)) (\<lambda>sp.
        if sp = 0 then Inr (-1, vm) else vm_uncache e vm sp flags))"

definition vm_refreshregion :: "os \<Rightarrow> VMcache \<Rightarrow> int \<Rightarrow> 64 word \<Rightarrow> 64 word \<Rightarrow> (int \<times> VMcache) res" where
  "vm_refreshregion e vm fd offset nbytes =
     (if \<not> cache_enabled vm then Inr (0, vm)
      else let x0 = region_start vm offset; x1 = region_end vm offset nbytes; vm_nbytes = x1 - x0 + 1 in
      case os_fstat e fd of None \<Rightarrow> Inr (-1, vm)
      | Some st \<Rightarrow>
        bind_res (find_offset (os_fuel e) (vm_heap vm) st x0 (segment_head vm)) (\<lambda>sp.
        if sp = 0 then Inr (-1, vm)
        else bind_res (if segment_head vm \<noteq> sp then bind_res (unlink_seg vm sp) (\<lambda>vm. link_head vm sp) else Inr vm)
          (\<lambda>vm. Inr (0, call (Madvise (os_junk e) vm_nbytes True) vm))))"

section \<open>Files\<close>

primrec uncache_loop :: "nat \<Rightarrow> os \<Rightarrow> VMcache \<Rightarrow> file_stat \<Rightarrow> 32 word \<Rightarrow> nat \<Rightarrow> int \<Rightarrow> (int \<times> VMcache) res" where
  "uncache_loop 0 e vm st flags sp status = Inl Diverges"
| "uncache_loop (Suc n) e vm st flags sp status =
     (if sp = 0 then Inr (status, vm)
      else bind_res (deref (vm_heap vm) sp) (\<lambda>s.
        bind_res (if vs_inode s \<noteq> st_ino st \<or> vs_device s \<noteq> st_dev st then Inr (status, vm)
          else bind_res (vm_uncache e vm sp flags) (\<lambda>(r, vm). Inr (if r < 0 then -1 else status, vm)))
        (\<lambda>(status, vm). bind_res (deref (vm_heap vm) sp) (\<lambda>s.
          uncache_loop n e vm st flags (vs_next s) status))))"

definition vm_uncachefile :: "os \<Rightarrow> VMcache \<Rightarrow> string \<Rightarrow> 32 word \<Rightarrow> (int \<times> VMcache) res" where
  "vm_uncachefile e vm fname flags =
     (if \<not> cache_enabled vm then Inr (0, vm)
      else case os_stat e fname of None \<Rightarrow> Inr (-1, vm)
      | Some st \<Rightarrow> uncache_loop (os_fuel e) e vm st flags (segment_head vm) 0)"

definition vm_uncachefd :: "os \<Rightarrow> VMcache \<Rightarrow> int \<Rightarrow> 32 word \<Rightarrow> (int \<times> VMcache) res" where
  "vm_uncachefd e vm fd flags =
     (if \<not> cache_enabled vm then Inr (0, vm)
      else case os_fstat e fd of None \<Rightarrow> Inr (-1, vm)
      | Some st \<Rightarrow> uncache_loop (os_fuel e) e vm st flags (segment_head vm) 0)"

definition vm_cachefile :: "os \<Rightarrow> VMcache \<Rightarrow> string \<Rightarrow> 32 word \<Rightarrow> (int \<times> VMcache) res" where
  "vm_cachefile e vm fname flags =
     (if \<not> cache_enabled vm then Inr (0, vm)
      else let fd = os_open e fname in
      if fd < 0 then Inr (-1, vm)
      else case os_fstat e fd of None \<Rightarrow> Inr (-1, vm)
      | Some st \<Rightarrow>
        bind_res (vm_cacheregion e vm fd 0 (st_size st) VM_READONLY 0) (\<lambda>(a, vm).
        let vm = call (Close fd) vm in
        if a = 0 then Inr (-1, vm)
        else if flags AND VM_LOCKFILE = 0 then bind_res (vm_uncachefile e vm fname 0) (\<lambda>(r, vm). Inr (0, vm))
        else Inr (0, vm)))"

definition vm_cachefd :: "os \<Rightarrow> VMcache \<Rightarrow> int \<Rightarrow> 32 word \<Rightarrow> 32 word \<Rightarrow> (int \<times> VMcache) res" where
  "vm_cachefd e vm fd acmode flags =
     (if \<not> cache_enabled vm then Inr (0, vm)
      else case os_fstat e fd of None \<Rightarrow> Inr (-1, vm)
      | Some st \<Rightarrow>
        bind_res (vm_cacheregion e vm fd 0 (st_size st) acmode flags) (\<lambda>(a, vm).
        if a = 0 then Inr (-1, vm)
        else if flags AND VM_LOCKFILE = 0 then bind_res (vm_uncachefd e vm fd 0) (\<lambda>(r, vm). Inr (0, vm))
        else Inr (0, vm)))"

section \<open>Synchronisation\<close>

primrec sync_loop ::
    "nat \<Rightarrow> os \<Rightarrow> VMcache \<Rightarrow> file_stat \<Rightarrow> 64 word \<Rightarrow> 64 word \<Rightarrow> bool \<Rightarrow> nat \<Rightarrow> int \<Rightarrow> (int \<times> VMcache) res" where
  "sync_loop 0 e vm st off nbytes async sp status = Inl Diverges"
| "sync_loop (Suc n) e vm st off nbytes async sp status =
     (if sp = 0 then Inr (status, vm)
      else bind_res (deref (vm_heap vm) sp) (\<lambda>s.
        if vs_inode s = st_ino st \<and> vs_device s = st_dev st \<and> (nbytes = 0 \<or> vs_offset s = off) then
          sync_loop n e (call (Msync (vs_addr s) (vs_nbytes s) async) vm) st off nbytes async (vs_next s)
            (if os_msync_ok e (vs_addr s) then status else -1)
        else sync_loop n e vm st off nbytes async (vs_next s) status))"

definition vm_sync :: "os \<Rightarrow> VMcache \<Rightarrow> int \<Rightarrow> 64 word \<Rightarrow> 64 word \<Rightarrow> 32 word \<Rightarrow> (int \<times> VMcache) res" where
  "vm_sync e vm fd offset nbytes flags =
     (if \<not> cache_enabled vm then Inr (0, vm)
      else case os_fstat e fd of None \<Rightarrow> Inr (-1, vm)
      | Some st \<Rightarrow> sync_loop (os_fuel e) e vm st (region_start vm offset) nbytes (flags AND VM_ASYNC \<noteq> 0) (segment_head vm) 0)"

definition vm_msync :: "os \<Rightarrow> VMcache \<Rightarrow> 64 word \<Rightarrow> 64 word \<Rightarrow> 32 word \<Rightarrow> int \<times> VMcache" where
  "vm_msync e vm address nbytes flags =
     (let addr1 = word_of_int (sint address - (if sint address < 0 then - (- sint address mod sint (pagesize vm))
                                               else sint address mod sint (pagesize vm)));
          addr2 = region_end vm address nbytes
      in (if os_msync_ok e addr1 then 0 else -1,
          call (Msync addr1 (addr2 - addr1 + 1) (flags AND VM_ASYNC \<noteq> 0)) vm))"

section \<open>Opening and closing the cache\<close>

primrec close_segs :: "nat \<Rightarrow> os \<Rightarrow> VMcache \<Rightarrow> VMcache res" where
  "close_segs 0 e vm = Inl Diverges"
| "close_segs (Suc n) e vm =
     (if segment_head vm = 0 then Inr vm
      else let sp = segment_head vm in
        bind_res (vm_uncache e vm sp (VM_DESTROYREGION OR VM_CANCELREFCNT)) (\<lambda>(r, vm).
        bind_res (deref (vm_heap vm) sp) (\<lambda>s.
        let vm = (case os_fstat e (vs_fd s) of None \<Rightarrow> vm
              | Some st \<Rightarrow> if vs_inode s = st_ino st \<and> vs_device s = st_dev st then call (Close (vs_fd s)) vm else vm)
        in close_segs n e vm)))"

definition vm_closecache :: "os \<Rightarrow> VMcache \<Rightarrow> VMcache res" where
  "vm_closecache e vm =
     (if \<not> cache_initialized vm then Inr vm
      else bind_res (close_segs (os_fuel e) e vm) (\<lambda>vm. Inr (vm\<lparr>cache_initialized := False\<rparr>)))"

record init_opts =
  io_cachesize :: string
  io_enable :: bool
  io_lockpages :: bool

definition yes :: "string \<Rightarrow> bool" where
  "yes v \<longleftrightarrow> v \<noteq> [] \<and> (hd v = CHR ''y'' \<or> hd v = CHR ''Y'')"

definition set_option :: "init_opts \<Rightarrow> string \<Rightarrow> string \<Rightarrow> init_opts" where
  "set_option o' k v =
     (if k = ''cachesize'' then o'\<lparr>io_cachesize := v\<rparr>
      else if k = ''lockpages'' then o'\<lparr>io_lockpages := yes v\<rparr>
      else if k = ''enable'' then o'\<lparr>io_enable := yes v\<rparr>
      else o')"

text \<open>
  The scan of the initialisation string: skip blanks and commas, a keyword of letters and
  digits, skip blanks and equal signs, a value of letters and digits.  \<open>keyword\<close> and \<open>valstr\<close>
  are arrays of 64 bytes.
\<close>

primrec scan_init :: "nat \<Rightarrow> string \<Rightarrow> init_opts \<Rightarrow> init_opts res" where
  "scan_init 0 ip o' = Inl Diverges"
| "scan_init (Suc n) ip o' =
     (if ip = [] then Inr o'
      else
        let ip = dropWhile (\<lambda>c. isspace c \<or> c = CHR '','') ip;
            k = takeWhile isalnum ip; ip = dropWhile isalnum ip in
        if length k \<ge> SZ_NAME then Inl Buffer_Overflow
        else
          let ip = dropWhile (\<lambda>c. isspace c \<or> c = CHR ''='') ip;
              v = takeWhile isalnum ip; ip = dropWhile isalnum ip in
          if length v \<ge> SZ_NAME then Inl Buffer_Overflow
          else scan_init n ip (set_option o' k v))"

text \<open>\<open>strtol\<close> in base 10 (a \<open>long\<close> of 64 bits) on a string without blanks or sign, and what it leaves.\<close>

definition strtol :: "string \<Rightarrow> int \<times> string" where
  "strtol s = (min (int (digits_value 0 (takeWhile isdigit s))) (2 ^ 63 - 1), dropWhile isdigit s)"

definition cache_bytes :: "os \<Rightarrow> string \<Rightarrow> 64 word" where
  "cache_bytes e s =
     (let (v, rest) = strtol s;
          percent = (scast (word_of_int v :: 32 word) :: 64 word);
          pg = (scast (os_pagesize e) :: 64 word);
          c = (if rest = [] then NUL else hd rest)
      in if rest = s then os_physpages e div 2 * pg
         else if c = CHR ''%'' then os_physpages e * percent div 100 * pg
         else if c = CHR ''k'' \<or> c = CHR ''K'' then percent * 1024
         else if c = CHR ''m'' \<or> c = CHR ''M'' then percent * (1024 * 1024)
         else if c = CHR ''g'' \<or> c = CHR ''G'' then percent * (1024 * 1024 * 1024)
         else percent)"

definition vm_initcache :: "os \<Rightarrow> VMcache \<Rightarrow> string option \<Rightarrow> VMcache res" where
  "vm_initcache e vm initstr =
     bind_res (scan_init (os_fuel e) (case initstr of None \<Rightarrow> [] | Some s \<Rightarrow> s)
       \<lparr>io_cachesize = ''50%'', io_enable = True, io_lockpages = False\<rparr>) (\<lambda>o'.
     bind_res (vm_closecache e vm) (\<lambda>vm.
     Inr (vm\<lparr>cacheused := 0, cache_enabled := io_enable o', cache_initialized := True,
            segment_head := 0, segment_tail := 0, pagesize := os_pagesize e,
            physmem := os_physpages e * scast (os_pagesize e), lockpages := io_lockpages o',
            cachesize := cache_bytes e (io_cachesize o')\<rparr>)))"

end
