(* ===== verification/Vm_Cache_Props.thy ===== *)
theory Vm_Cache_Props
  imports Vm_Cache
begin

text \<open>
  Correctness of the virtual memory cache.  The abstraction of the cache is the list of its
  segments from the most to the least recently used one: \<open>seg_list\<close> says that the heap holds
  that list, doubly linked, from \<open>segment_head\<close>, and \<open>vm_ok\<close> adds that \<open>segment_tail\<close> is its
  end and \<open>cacheused\<close> the size of its segments.  The interface \<open>lru_list\<close> states what the
  routines need of unlinking and of linking at the head.
\<close>

section \<open>Doubly linked segments\<close>

text \<open>
  \<open>lseg h as q p q' p'\<close>: the segments \<open>as\<close> are linked from \<open>p\<close>, the first one points back to
  \<open>q\<close>; \<open>q'\<close> is the last one and \<open>p'\<close> what it points to.
\<close>

primrec lseg :: "seg_heap \<Rightarrow> nat list \<Rightarrow> nat \<Rightarrow> nat \<Rightarrow> nat \<Rightarrow> nat \<Rightarrow> bool" where
  "lseg h [] q p q' p' \<longleftrightarrow> q' = q \<and> p' = p"
| "lseg h (a # as) q p q' p' \<longleftrightarrow> p = a \<and> a \<noteq> 0 \<and>
     (\<exists>s. h a = Some s \<and> vs_prev s = q \<and> lseg h as a (vs_next s) q' p')"

lemma lseg_append: "lseg h (xs @ ys) q p q' p' \<longleftrightarrow> (\<exists>m n. lseg h xs q p m n \<and> lseg h ys m n q' p')"
  by (induction xs arbitrary: q p) auto

lemma lseg_frame: "a \<notin> set as \<Longrightarrow> lseg (h(a := v)) as q p q' p' \<longleftrightarrow> lseg h as q p q' p'"
  by (induction as arbitrary: q p) auto

lemma lseg_ends:
  assumes "lseg h as q p q' p'"
  shows "as = [] \<Longrightarrow> q' = q \<and> p = p'" "as \<noteq> [] \<Longrightarrow> q' = last as \<and> p = hd as"
    "a \<in> set as \<Longrightarrow> a \<noteq> 0 \<and> h a \<noteq> None"
  using assms by (induction as arbitrary: q p) (auto split: if_splits)

lemma lseg_set_next:
  "lseg h as q p m n \<Longrightarrow> as \<noteq> [] \<Longrightarrow> distinct as \<Longrightarrow> h m = Some s \<Longrightarrow>
     lseg (h(m \<mapsto> s\<lparr>vs_next := n'\<rparr>)) as q p m n'"
proof (induction as arbitrary: q p)
  case (Cons a as)
  then obtain sa where sa: "h a = Some sa" "vs_prev sa = q" "lseg h as a (vs_next sa) m n" "p = a" "a \<noteq> 0" by auto
  show ?case
  proof (cases "as = []")
    case True
    then show ?thesis using Cons.prems sa by auto
  next
    case False
    then have "m \<noteq> a" using lseg_ends(2) [OF sa(3)] Cons.prems(3) by auto
    moreover have "lseg (h(m \<mapsto> s\<lparr>vs_next := n'\<rparr>)) as a (vs_next sa) m n'"
      using Cons.IH [OF sa(3) False _ Cons.prems(4)] Cons.prems(3) by (simp del: fun_upd_apply)
    moreover have "(h(m \<mapsto> s\<lparr>vs_next := n'\<rparr>)) a = Some sa" using calculation(1) sa(1) by simp
    ultimately show ?thesis using sa by (simp del: fun_upd_apply)
  qed
qed simp

lemma lseg_set_prev:
  "lseg h as m n q' p' \<Longrightarrow> as \<noteq> [] \<Longrightarrow> distinct as \<Longrightarrow> h n = Some s \<Longrightarrow>
     lseg (h(n \<mapsto> s\<lparr>vs_prev := m'\<rparr>)) as m' n q' p'"
  by (cases as) (auto simp: lseg_frame)

definition payload :: "Segment \<Rightarrow> Segment" where
  "payload s = s\<lparr>vs_next := 0, vs_prev := 0\<rparr>"

definition contents :: "VMcache \<Rightarrow> nat \<Rightarrow> Segment option" where
  "contents vm a = map_option payload (vm_heap vm a)"

lemma payload_simps [simp]:
  "payload (s\<lparr>vs_next := n\<rparr>) = payload s" "payload (s\<lparr>vs_prev := n\<rparr>) = payload s"
  "payload (s\<lparr>vs_next := n, vs_prev := m\<rparr>) = payload s"
  by (simp_all add: payload_def)

lemma contents_Some:
  assumes "vm_heap vm a = Some s" "contents vm' a = contents vm a"
  shows "\<exists>s'. vm_heap vm' a = Some s' \<and> payload s' = payload s"
  using assms by (auto simp: contents_def)

lemma payload_fields:
  assumes "payload s = payload s'"
  shows "vs_refcnt s = vs_refcnt s'" "vs_addr s = vs_addr s'" "vs_offset s = vs_offset s'" "vs_nbytes s = vs_nbytes s'"
    "vs_inode s = vs_inode s'" "vs_device s = vs_device s'" "vs_fd s = vs_fd s'"
  using assms by (simp_all add: payload_def) (metis Segment.select_convs Segment.surjective Segment.update_convs)+

definition seg_list :: "VMcache \<Rightarrow> nat list \<Rightarrow> bool" where
  "seg_list vm as \<longleftrightarrow> distinct as \<and> (\<exists>t. lseg (vm_heap vm) as 0 (segment_head vm) t 0)"

text \<open>The state between unlinking a segment and linking it again.\<close>

definition loose :: "VMcache \<Rightarrow> nat list \<Rightarrow> nat \<Rightarrow> bool" where
  "loose vm as a \<longleftrightarrow> seg_list vm as \<and> a \<notin> set as \<and> a \<noteq> 0 \<and> vm_heap vm a \<noteq> None"

definition seg_view :: "VMcache \<Rightarrow> (nat \<Rightarrow> Segment option) \<times> VMcache" where
  "seg_view vm = (contents vm, vm\<lparr>vm_heap := Map.empty, segment_head := 0\<rparr>)"

lemma unlink_run:
  assumes l: "lseg (vm_heap vm) (xs @ a # ys) 0 p t 0" and d: "distinct (xs @ a # ys)"
  shows "\<exists>s h'. vm_heap vm a = Some s \<and> unlink_seg vm a = Inr (vm\<lparr>vm_heap := h'\<rparr>) \<and> h' a = Some s
     \<and> lseg h' (xs @ ys) 0 (if xs = [] then vs_next s else p) (if ys = [] then vs_prev s else t) 0
     \<and> vs_prev s = (if xs = [] then 0 else last xs)
     \<and> (\<forall>b. map_option payload (h' b) = map_option payload (vm_heap vm b))"
proof -
  let ?h = "vm_heap vm"
  obtain s m where s: "?h a = Some s" "lseg ?h xs 0 p m a" "vs_prev s = m" "a \<noteq> 0" "lseg ?h ys a (vs_next s) t 0"
    using l by (auto simp: lseg_append)
  let ?n = "vs_next s"
  have m: "m = (if xs = [] then 0 else last xs)" using lseg_ends(1,2) [OF s(2)] by auto
  have n: "?n = (if ys = [] then 0 else hd ys)" using lseg_ends(1,2) [OF s(5)] by auto
  have zero: "0 \<notin> set xs" "0 \<notin> set ys" using lseg_ends(3) [OF s(2)] lseg_ends(3) [OF s(5)] by auto
  define h1 where "h1 = (if ys = [] then ?h else ?h(?n \<mapsto> (the (?h ?n))\<lparr>vs_prev := m\<rparr>))"
  define h2 where "h2 = (if xs = [] then h1 else h1(m \<mapsto> (the (h1 m))\<lparr>vs_next := ?n\<rparr>))"
  have nin: "ys \<noteq> [] \<Longrightarrow> ?n \<in> set ys" "xs \<noteq> [] \<Longrightarrow> m \<in> set xs" using n m by auto
  have nz: "ys \<noteq> [] \<Longrightarrow> ?n \<noteq> 0" "xs \<noteq> [] \<Longrightarrow> m \<noteq> 0" using nin zero by metis+
  have nz0: "ys = [] \<Longrightarrow> ?n = 0" "xs = [] \<Longrightarrow> m = 0" using n m by simp_all
  from nin have alive: "ys \<noteq> [] \<Longrightarrow> \<exists>sn. ?h ?n = Some sn" "xs \<noteq> [] \<Longrightarrow> \<exists>sm. ?h m = Some sm"
    using lseg_ends(3) [OF s(5)] lseg_ends(3) [OF s(2)] by auto
  have apart: "ys \<noteq> [] \<Longrightarrow> ?n \<noteq> a \<and> ?n \<notin> set xs" "xs \<noteq> [] \<Longrightarrow> m \<noteq> a \<and> m \<notin> set ys" using nin d by auto
  have h1m: "xs \<noteq> [] \<Longrightarrow> h1 m = ?h m" using apart nin by (auto simp: h1_def)
  have h1a: "h1 a = Some s" "h2 a = Some s" using s(1) apart by (auto simp: h1_def h2_def)
  have u1: "(if vs_next s \<noteq> 0 then upd_seg vm (vs_next s) (\<lambda>n. n\<lparr>vs_prev := vs_prev s\<rparr>) else Inr vm) = Inr (vm\<lparr>vm_heap := h1\<rparr>)"
    using nz(1) nz0(1) alive(1) s(3) by (cases "ys = []") (auto simp: upd_seg_def deref_def h1_def)
  have u2: "(if vs_prev s \<noteq> 0 then upd_seg (vm\<lparr>vm_heap := h1\<rparr>) (vs_prev s) (\<lambda>n. n\<lparr>vs_next := vs_next s\<rparr>) else Inr (vm\<lparr>vm_heap := h1\<rparr>))
      = Inr (vm\<lparr>vm_heap := h2\<rparr>)"
    using nz(2) nz0(2) alive(2) s(3) h1m by (cases "xs = []") (auto simp: upd_seg_def deref_def h2_def)
  have run: "unlink_seg vm a = Inr (vm\<lparr>vm_heap := h2\<rparr>)"
    using s(1,4) u1 u2 h1a by (simp add: unlink_seg_def deref_def)
  have lx: "lseg h2 xs 0 (if xs = [] then ?n else p) m ?n"
  proof (cases "xs = []")
    case True
    then show ?thesis using m by simp
  next
    case False
    obtain sm where sm: "h1 m = Some sm" using alive(2) h1m False by auto
    have "lseg h1 xs 0 p m a" using s(2) apart(1) by (simp add: h1_def lseg_frame)
    from lseg_set_next [OF this False _ sm] show ?thesis using d False sm by (simp add: h2_def)
  qed
  have ly: "lseg h2 ys m ?n (if ys = [] then m else t) 0"
  proof (cases "ys = []")
    case True
    then show ?thesis using n by simp
  next
    case False
    obtain sn where sn: "?h ?n = Some sn" using alive(1) False by auto
    from lseg_set_prev [OF s(5) False _ sn] have "lseg h1 ys m ?n t 0" using d False sn by (simp add: h1_def)
    then show ?thesis using apart(2) False by (simp add: h2_def lseg_frame)
  qed
  have "map_option payload (h2 b) = map_option payload (?h b)" for b
    using alive h1m by (auto simp: h2_def h1_def)
  moreover have "lseg h2 (xs @ ys) 0 (if xs = [] then ?n else p) (if ys = [] then m else t) 0"
    unfolding lseg_append using lx ly by (intro exI [of _ m] exI [of _ ?n]) simp
  ultimately show ?thesis using run h1a(2) s(1,3) m by blast
qed

lemma link_run:
  assumes "loose vm as a"
  shows "\<exists>h'. link_head vm a = Inr (vm\<lparr>vm_heap := h', segment_head := a\<rparr>) \<and> seg_list (vm\<lparr>vm_heap := h', segment_head := a\<rparr>) (a # as)
     \<and> (\<forall>b. map_option payload (h' b) = map_option payload (vm_heap vm b))"
proof -
  let ?h = "vm_heap vm" and ?p = "segment_head vm"
  obtain s t where s: "?h a = Some s" "lseg ?h as 0 ?p t 0" "distinct as" "a \<notin> set as" "a \<noteq> 0"
    using assms by (auto simp: loose_def seg_list_def)
  let ?h1 = "?h(a \<mapsto> s\<lparr>vs_next := ?p, vs_prev := 0\<rparr>)"
  have l1: "lseg ?h1 as 0 ?p t 0" using s by (simp add: lseg_frame del: fun_upd_apply)
  show ?thesis
  proof (cases "as = []")
    case True
    then have "?p = 0" using s(2) by simp
    moreover have "seg_list (vm\<lparr>vm_heap := ?h1, segment_head := a\<rparr>) (a # as)"
      using True s \<open>?p = 0\<close> by (auto simp: seg_list_def)
    ultimately show ?thesis using s(1,5)
      by (intro exI [of _ ?h1]) (auto simp: link_head_def upd_seg_def deref_def)
  next
    case False
    then have p: "?p \<in> set as" "?p \<noteq> 0" "?p \<noteq> a" using lseg_ends [OF s(2)] s(4) by auto
    then obtain sp where sp: "?h ?p = Some sp" using lseg_ends(3) [OF s(2)] by auto
    let ?h2 = "?h1(?p \<mapsto> sp\<lparr>vs_prev := a\<rparr>)"
    have "?h1 ?p = Some sp" using sp p(3) by simp
    from lseg_set_prev [OF l1 False s(3) this] have "lseg ?h2 as a ?p t 0" .
    then have "seg_list (vm\<lparr>vm_heap := ?h2, segment_head := a\<rparr>) (a # as)"
      using s p by (auto simp: seg_list_def)
    moreover have "link_head vm a = Inr (vm\<lparr>vm_heap := ?h2, segment_head := a\<rparr>)"
      using s(1,5) p sp by (simp add: link_head_def upd_seg_def deref_def)
    moreover have "\<forall>b. map_option payload (?h2 b) = map_option payload (?h b)" using sp s(1) by auto
    ultimately show ?thesis by blast
  qed
qed

section \<open>The list as an interface\<close>

locale lru_list =
  fixes rep :: "'s \<Rightarrow> nat list \<Rightarrow> bool"
    and free_node :: "'s \<Rightarrow> nat list \<Rightarrow> nat \<Rightarrow> bool"
    and view_of :: "'s \<Rightarrow> 'v"
    and unlink :: "'s \<Rightarrow> nat \<Rightarrow> 's res"
    and push :: "'s \<Rightarrow> nat \<Rightarrow> 's res"
    and first_node :: "'s \<Rightarrow> nat"
  assumes unlink_law: "rep s (xs @ a # ys) \<Longrightarrow> xs \<noteq> [] \<Longrightarrow>
        \<exists>s'. unlink s a = Inr s' \<and> free_node s' (xs @ ys) a \<and> view_of s' = view_of s"
    and push_law: "free_node s as a \<Longrightarrow> \<exists>s'. push s a = Inr s' \<and> rep s' (a # as) \<and> view_of s' = view_of s"
    and first_law: "rep s (a # as) \<Longrightarrow> first_node s = a"
    and distinct_law: "rep s as \<Longrightarrow> distinct as"
begin

lemma move_front:
  assumes "rep s (xs @ a # ys)"
  shows "\<exists>s'. (if first_node s \<noteq> a then bind_res (unlink s a) (\<lambda>s. push s a) else Inr s) = Inr s'
     \<and> rep s' (a # xs @ ys) \<and> view_of s' = view_of s"
proof (cases xs)
  case Nil
  then show ?thesis using assms first_law by auto
next
  case (Cons x xs')
  then have "first_node s = x" "x \<noteq> a" using assms first_law distinct_law by fastforce+
  moreover obtain s1 where "unlink s a = Inr s1" "free_node s1 (xs @ ys) a" "view_of s1 = view_of s"
    using unlink_law assms Cons by blast
  moreover from this(2) push_law obtain s2 where "push s1 a = Inr s2" "rep s2 (a # xs @ ys)" "view_of s2 = view_of s1"
    by blast
  ultimately show ?thesis by auto
qed

end

interpretation segs: lru_list seg_list loose seg_view unlink_seg link_head segment_head
proof
  fix vm xs a ys assume l: "seg_list vm (xs @ a # ys)" and ne: "xs \<noteq> []"
  then obtain t where t: "lseg (vm_heap vm) (xs @ a # ys) 0 (segment_head vm) t 0" "distinct (xs @ a # ys)"
    by (auto simp: seg_list_def)
  have "a \<noteq> 0" using lseg_ends(3) [OF t(1), of a] by simp
  with unlink_run [OF t] ne t(2) show "\<exists>s'. unlink_seg vm a = Inr s' \<and> loose s' (xs @ ys) a \<and> seg_view s' = seg_view vm"
    by (fastforce simp: loose_def seg_list_def seg_view_def contents_def fun_eq_iff)
next
  fix vm as a assume "loose vm as a"
  from link_run [OF this] show "\<exists>s'. link_head vm a = Inr s' \<and> seg_list s' (a # as) \<and> seg_view s' = seg_view vm"
    by (force simp: seg_view_def contents_def fun_eq_iff)
qed (auto simp: seg_list_def)

section \<open>Read-ahead\<close>

text \<open>A request to the kernel to read pages ahead.\<close>

definition will_need :: "kcall \<Rightarrow> bool" where
  "will_need k \<longleftrightarrow> (\<exists>x m. k = Madvise x m True)"


lemma scast_small:
  fixes w :: "32 word"
  assumes "unat w < 2 ^ 31"
  shows "sint w = int (unat w)" "unat (scast w :: 64 word) = unat w"
proof -
  have "int (unat w) < int (2 ^ 31)" using assms by (simp only: of_nat_less_iff)
  then have u: "uint w < 2 ^ 31" by simp
  have "sint w = signed_take_bit 31 (uint w)" by (simp only: sint_uint len_num1 len_num0 len_bit0 len_bit1) simp
  also have "\<dots> = uint w" using u by (intro signed_take_bit_int_eq_self) (simp_all add: order_trans [OF _ uint_ge_0])
  finally show s: "sint w = int (unat w)" by simp
  have "(scast w :: 64 word) = word_of_nat (unat w)" unfolding scast_eq s by simp
  then have "unat (scast w :: 64 word) = unat (word_of_nat (unat w) :: 64 word)" by (rule arg_cong)
  also have "\<dots> = unat w mod 2 ^ 64" by (simp only: unat_of_nat) simp
  finally show "unat (scast w :: 64 word) = unat w" using assms by simp
qed

lemma step_div: "0 < c \<Longrightarrow> k < n \<Longrightarrow> (n + c - k) div c = Suc ((n - k) div (c::nat))"
  by (metis Nat.add_diff_assoc2 add.commute div_add_self1 less_imp_le_nat not_gr_zero plus_1_eq_Suc)

text \<open>What read-ahead of \<open>n\<close> bytes needs to stay within \<open>int\<close> arithmetic and within the rounds looked at.\<close>

definition readable :: "os \<Rightarrow> VMcache \<Rightarrow> 64 word \<Rightarrow> bool" where
  "readable e vm n \<longleftrightarrow> (let c = unat (READAHEAD * pagesize vm) in
     0 < c \<and> unat n + c < 2 ^ 31 \<and> unat n div c + 1 < os_fuel e)"

lemma readahead_loop_run:
  assumes "0 < unat chunk" "unat nbytes + unat chunk < 2 ^ 31" "unat n \<le> unat nbytes + unat chunk"
    "(unat nbytes + unat chunk - unat n) div unat chunk < f"
  shows "\<exists>ks. readahead_loop f vm buf nbytes chunk n = Inr (vm\<lparr>vm_calls := vm_calls vm @ ks\<rparr>) \<and> list_all will_need ks"
  using assms(3,4)
proof (induction f arbitrary: vm n)
  case (Suc f)
  have n: "unat (scast n :: 64 word) = unat n" using Suc.prems(1) assms(2) by (intro scast_small) simp
  show ?case
  proof (cases "(scast n :: 64 word) < nbytes")
    case True
    then have lt: "unat n < unat nbytes" using n by (simp add: word_less_nat_alt)
    have add: "unat (n + chunk) = unat n + unat chunk" using lt assms(2) by (subst unat_plus_if_size) (simp add: word_size)
    have "(unat nbytes + unat chunk - unat (n + chunk)) div unat chunk < f"
      using Suc.prems(2) add step_div [OF assms(1) lt] by simp
    moreover have "unat (n + chunk) \<le> unat nbytes + unat chunk" using add lt by simp
    ultimately have IH: "\<exists>ks. readahead_loop f v buf nbytes chunk (n + chunk) = Inr (v\<lparr>vm_calls := vm_calls v @ ks\<rparr>) \<and> list_all will_need ks" for v
      by (intro Suc.IH)
    obtain k where "readahead_loop (Suc f) vm buf nbytes chunk n = readahead_loop f (call k vm) buf nbytes chunk (n + chunk)" "will_need k"
      using True by (auto simp: Let_def will_need_def)
    moreover obtain ks where "readahead_loop f (call k vm) buf nbytes chunk (n + chunk)
        = Inr ((call k vm)\<lparr>vm_calls := vm_calls (call k vm) @ ks\<rparr>)" "list_all will_need ks" using IH by blast
    ultimately show ?thesis by (intro exI [of _ "k # ks"]) (simp add: call_def)
  next
    case False
    then show ?thesis by (intro exI [of _ "[]"]) simp
  qed
qed simp

lemma readahead_run:
  assumes "readable e vm nbytes"
  shows "\<exists>ks. vm_readahead e vm buf nbytes = Inr (vm\<lparr>vm_calls := vm_calls vm @ ks\<rparr>) \<and> list_all will_need ks"
proof -
  have "0 < unat (READAHEAD * pagesize vm)" "unat nbytes + unat (READAHEAD * pagesize vm) < 2 ^ 31"
    "unat nbytes div unat (READAHEAD * pagesize vm) + 1 < os_fuel e"
    using assms by (simp_all add: readable_def Let_def)
  then show ?thesis unfolding vm_readahead_def by (intro readahead_loop_run) (simp_all add: div_add_self2)
qed

section \<open>Looking up a region\<close>

definition touches :: "file_stat \<Rightarrow> 64 word \<Rightarrow> Segment \<Rightarrow> bool" where
  "touches st x s \<longleftrightarrow> vs_inode s = st_ino st \<and> vs_device s = st_dev st \<and> vs_offset s \<le> x \<and> x < vs_offset s + vs_nbytes s"

lemma find_region_skip:
  assumes "lseg h xs q p m a" "\<forall>b \<in> set xs. \<not> touches st x0 (the (h b))" "length xs \<le> n"
  shows "find_region n h st x0 x1 p = find_region (n - length xs) h st x0 x1 a"
  using assms
proof (induction xs arbitrary: q p n)
  case (Cons b xs)
  then obtain s n' where s: "h b = Some s" "lseg h xs b (vs_next s) m a" "p = b" "b \<noteq> 0" "n = Suc n'" "length xs \<le> n'"
    by (cases n) auto
  have "\<not> touches st x0 s" using Cons.prems(2) s(1) by simp
  then have "find_region n h st x0 x1 p = find_region n' h st x0 x1 (vs_next s)"
    using s by (auto simp: deref_def touches_def)
  then show ?case using Cons.IH [OF s(2) _ s(6)] Cons.prems(2) s(5) by simp
qed simp

lemma find_region_hit:
  assumes l: "seg_list vm (xs @ a # ys)" and h: "vm_heap vm a = Some s"
    and x: "\<forall>b \<in> set xs. \<not> touches st x0 (the (vm_heap vm b))" "touches st x0 s" "touches st x1 s" and n: "length xs < n"
  shows "find_region n (vm_heap vm) st x0 x1 (segment_head vm) = Inr (Hit a (vs_offset s) (vs_nbytes s))"
proof -
  obtain m where m: "lseg (vm_heap vm) xs 0 (segment_head vm) m a" "a \<noteq> 0"
    using l by (auto simp: seg_list_def lseg_append)
  obtain k where k: "n - length xs = Suc k" using n by (cases "n - length xs") auto
  show ?thesis using find_region_skip [OF m(1) x(1), of n x1] n k m(2) h x(2,3)
    by (simp add: deref_def touches_def)
qed

lemma find_region_absent:
  assumes "seg_list vm as" "\<forall>b \<in> set as. \<not> touches st x0 (the (vm_heap vm b))" "length as < n"
  shows "find_region n (vm_heap vm) st x0 x1 (segment_head vm) = Inr Absent"
proof -
  obtain t where t: "lseg (vm_heap vm) as 0 (segment_head vm) t 0" using assms(1) by (auto simp: seg_list_def)
  obtain k where "n - length as = Suc k" using assms(3) by (cases "n - length as") auto
  then show ?thesis using find_region_skip [OF t assms(2), of n x1] assms(3) by simp
qed

section \<open>Reserving space\<close>

lemma reserve_skip:
  assumes "lseg h ys m n t p'" "\<forall>b \<in> set ys. vs_refcnt (the (h b)) \<noteq> 0" "\<not> nbytes < fs" "vm_heap vm = h"
  shows "reserve_loop (length ys + k) vm nbytes t fs = reserve_loop k vm nbytes m fs"
  using assms(1,2)
proof (induction ys arbitrary: t p' rule: rev_induct)
  case (snoc y ys)
  then obtain t' s where s: "lseg h ys m n t' y" "h y = Some s" "vs_prev s = t'" "t = y" "y \<noteq> 0"
    by (auto simp: lseg_append)
  have "reserve_loop (length (ys @ [y]) + k) vm nbytes t fs = reserve_loop (length ys + k) vm nbytes t' fs"
    using s snoc.prems(2) assms(3,4) by (simp add: deref_def)
  then show ?case using snoc.IH [OF s(1)] snoc.prems(2) by simp
qed simp

section \<open>The cache invariant\<close>

definition seg_size :: "VMcache \<Rightarrow> nat \<Rightarrow> 64 word" where
  "seg_size vm a = vs_nbytes (the (vm_heap vm a))"

definition vm_ok :: "VMcache \<Rightarrow> nat list \<Rightarrow> bool" where
  "vm_ok vm as \<longleftrightarrow> seg_list vm as \<and> segment_tail vm = (if as = [] then 0 else last as)
     \<and> cacheused vm = sum_list (map (seg_size vm) as)"

lemma seg_list_alive: "seg_list vm as \<Longrightarrow> a \<in> set as \<Longrightarrow> a \<noteq> 0 \<and> (\<exists>s. vm_heap vm a = Some s)"
  using lseg_ends(3) by (fastforce simp: seg_list_def)

lemma contents_size: "contents vm' a = contents vm a \<Longrightarrow> vm_heap vm a \<noteq> None \<Longrightarrow> seg_size vm' a = seg_size vm a"
  by (cases "vm_heap vm a"; cases "vm_heap vm' a") (auto simp: contents_def seg_size_def dest: payload_fields(4))

lemma seg_view_fields:
  assumes "seg_view vm' = seg_view vm"
  shows "contents vm' = contents vm" "segment_tail vm' = segment_tail vm" "cacheused vm' = cacheused vm"
    "cachesize vm' = cachesize vm" "cache_enabled vm' = cache_enabled vm" "pagesize vm' = pagesize vm"
    "lockpages vm' = lockpages vm" "vm_calls vm' = vm_calls vm" "cache_initialized vm' = cache_initialized vm"
proof -
  have c: "contents vm' = contents vm" and
    v: "vm'\<lparr>vm_heap := Map.empty, segment_head := 0\<rparr> = vm\<lparr>vm_heap := Map.empty, segment_head := 0\<rparr>"
    using assms by (simp_all add: seg_view_def)
  show "contents vm' = contents vm" by (rule c)
  show "segment_tail vm' = segment_tail vm" "cacheused vm' = cacheused vm"
    "cachesize vm' = cachesize vm" "cache_enabled vm' = cache_enabled vm" "pagesize vm' = pagesize vm"
    "lockpages vm' = lockpages vm" "vm_calls vm' = vm_calls vm" "cache_initialized vm' = cache_initialized vm"
    using arg_cong [OF v, of segment_tail] arg_cong [OF v, of cacheused] arg_cong [OF v, of cachesize]
      arg_cong [OF v, of cache_enabled] arg_cong [OF v, of pagesize] arg_cong [OF v, of lockpages]
      arg_cong [OF v, of vm_calls] arg_cong [OF v, of cache_initialized] by simp_all
qed

text \<open>
  What \<open>refresh\<close> does to a segment in the list: it becomes the head, its count goes up by one,
  the tail pointer and everything else stay.
\<close>

lemma refresh_run:
  assumes l: "seg_list vm (xs @ a # ys)" and h: "vm_heap vm a = Some s" and t: "segment_tail vm \<noteq> 0"
    and r: "readable e vm n"
  shows "\<exists>vm' ks. refresh e vm a address offset vo n = Inr (address + (offset - vo), vm')
     \<and> seg_list vm' (a # xs @ ys) \<and> segment_tail vm' = segment_tail vm \<and> cacheused vm' = cacheused vm
     \<and> cachesize vm' = cachesize vm \<and> cache_enabled vm' = cache_enabled vm \<and> vm_calls vm' = vm_calls vm @ ks
     \<and> list_all will_need ks \<and> (\<not> cache_enabled vm \<longrightarrow> ks = []) \<and> contents vm' = (contents vm)(a \<mapsto> payload (s\<lparr>vs_refcnt := vs_refcnt s + 1\<rparr>))"
proof -
  obtain v1 where v1: "(if segment_head vm \<noteq> a then bind_res (unlink_seg vm a) (\<lambda>vm. link_head vm a) else Inr vm) = Inr v1"
    "seg_list v1 (a # xs @ ys)" "seg_view v1 = seg_view vm" using segs.move_front [OF l] by blast
  note f = seg_view_fields [OF v1(3)]
  have m: "(if segment_head vm \<noteq> a then bind_res (unlink_seg vm a) (\<lambda>vm. bind_res (link_head vm a) (\<lambda>vm.
         Inr (if segment_tail vm = 0 then vm\<lparr>segment_tail := a\<rparr> else vm))) else Inr vm) = Inr v1"
  proof (cases "segment_head vm = a")
    case False
    then obtain w where w: "unlink_seg vm a = Inr w" "link_head w a = Inr v1" using v1(1) by (auto simp: bind_res_Inr_iff)
    then show ?thesis using False t f(2) by simp
  qed (use v1(1) in simp)
  have "readable e v1 n" using r f(6) by (simp add: readable_def)
  then obtain ks where ks: "(if cache_enabled v1 then vm_readahead e v1 address n else Inr v1)
      = Inr (v1\<lparr>vm_calls := vm_calls v1 @ ks\<rparr>)" and kw: "list_all will_need ks" "\<not> cache_enabled v1 \<longrightarrow> ks = []"
  proof (cases "cache_enabled v1")
    case False
    then show ?thesis by (intro that [of "[]"]) simp_all
  qed (use readahead_run [of e v1 n address] that in auto)
  obtain s1 where s1: "vm_heap v1 a = Some s1" "payload s1 = payload s"
    using contents_Some [OF h, of v1] f(1) by auto
  let ?v2 = "v1\<lparr>vm_calls := vm_calls v1 @ ks, vm_heap := (vm_heap v1)(a \<mapsto> s1\<lparr>vs_refcnt := vs_refcnt s1 + 1\<rparr>)\<rparr>"
  have a0: "a \<noteq> 0" using seg_list_alive [OF l, of a] by simp
  have p1: "payload (s1\<lparr>vs_refcnt := vs_refcnt s1 + 1\<rparr>) = payload (s\<lparr>vs_refcnt := vs_refcnt s + 1\<rparr>)"
    using payload_fields [OF s1(2)] by (simp add: payload_def)
  have run: "refresh e vm a address offset vo n = Inr (address + (offset - vo), ?v2)"
    unfolding refresh_def m bind_res_simps ks using s1(1) a0 by (simp add: upd_seg_def deref_def)
  obtain t' where t': "distinct (a # xs @ ys)" "segment_head v1 = a" "lseg (vm_heap v1) (xs @ ys) a (vs_next s1) t' 0"
    "vs_prev s1 = 0" using v1(2) s1(1) by (auto simp: seg_list_def)
  have "seg_list ?v2 (a # xs @ ys)" using t' a0 by (auto simp: seg_list_def lseg_frame)
  moreover have "contents ?v2 = (contents vm)(a \<mapsto> payload (s\<lparr>vs_refcnt := vs_refcnt s + 1\<rparr>))"
    using p1 by (auto simp: contents_def fun_eq_iff simp flip: f(1))
  ultimately show ?thesis using run f kw by (intro exI [of _ ?v2] exI [of _ ks]) simp
qed

section \<open>Removing and adding a segment\<close>

abbreviation end_of :: "nat list \<Rightarrow> nat" where
  "end_of as \<equiv> (if as = [] then 0 else last as)"

lemma seg_list_upd [simp]:
  "seg_list (vm\<lparr>cacheused := u\<rparr>) as = seg_list vm as" "seg_list (vm\<lparr>vm_calls := k\<rparr>) as = seg_list vm as"
  "seg_list (vm\<lparr>segment_tail := t\<rparr>) as = seg_list vm as" "seg_list (call c vm) as = seg_list vm as"
  by (simp_all add: seg_list_def call_def)

lemma call_simps [simp]:
  "vm_heap (call c vm) = vm_heap vm" "segment_tail (call c vm) = segment_tail vm" "segment_head (call c vm) = segment_head vm"
  "cacheused (call c vm) = cacheused vm" "cachesize (call c vm) = cachesize vm" "cache_enabled (call c vm) = cache_enabled vm"
  "pagesize (call c vm) = pagesize vm" "lockpages (call c vm) = lockpages vm" "vm_calls (call c vm) = vm_calls vm @ [c]"
  by (simp_all add: call_def)

lemma drop_run:
  assumes l: "seg_list vm (xs @ a # ys)" and t: "segment_tail vm = end_of (xs @ a # ys)"
  shows "\<exists>vm'. drop_seg vm a = Inr vm' \<and> seg_list vm' (xs @ ys) \<and> segment_tail vm' = end_of (xs @ ys)
     \<and> contents vm' = (contents vm)(a := None) \<and> cacheused vm' = cacheused vm \<and> vm_calls vm' = vm_calls vm"
proof -
  obtain t' where t': "lseg (vm_heap vm) (xs @ a # ys) 0 (segment_head vm) t' 0" "distinct (xs @ a # ys)"
    using l by (auto simp: seg_list_def)
  have a0: "a \<noteq> 0" using seg_list_alive [OF l, of a] by simp
  obtain s h' where u: "unlink_seg vm a = Inr (vm\<lparr>vm_heap := h'\<rparr>)" "h' a = Some s"
    "lseg h' (xs @ ys) 0 (if xs = [] then vs_next s else segment_head vm) (if ys = [] then vs_prev s else t') 0"
    "vs_prev s = end_of xs" "\<And>b. map_option payload (h' b) = map_option payload (vm_heap vm b)"
    using unlink_run [OF t'] by auto
  have hd: "segment_head vm = a \<longleftrightarrow> xs = []" using lseg_ends(2) [OF t'(1)] t'(2) by (cases xs) auto
  have tl: "segment_tail vm = a \<longleftrightarrow> ys = []" using t t'(2) by (cases ys rule: rev_cases) auto
  let ?v = "vm\<lparr>vm_heap := h'(a := None), segment_head := (if xs = [] then vs_next s else segment_head vm),
     segment_tail := (if ys = [] then vs_prev s else segment_tail vm)\<rparr>"
  have run: "drop_seg vm a = Inr ?v"
    unfolding drop_seg_def u(1) bind_res_simps using u(2) a0 hd tl
    by (cases "xs = []"; cases "ys = []") (simp_all add: deref_def Let_def)
  have "lseg (h'(a := None)) (xs @ ys) 0 (if xs = [] then vs_next s else segment_head vm) (if ys = [] then vs_prev s else t') 0"
    using u(3) t'(2) by (simp add: lseg_frame)
  then have "seg_list ?v (xs @ ys)" using t'(2) unfolding seg_list_def by auto
  moreover have "segment_tail ?v = end_of (xs @ ys)" using t u(4) by auto
  moreover have "contents ?v = (contents vm)(a := None)" using u(5) by (auto simp: contents_def fun_eq_iff)
  ultimately show ?thesis using run by (intro exI [of _ ?v]) simp
qed

lemma insert_run:
  assumes l: "seg_list vm as" and t: "segment_tail vm = end_of as" and f: "vm_heap vm a = None" "a \<noteq> 0"
  shows "\<exists>vm'. link_head (vm\<lparr>vm_heap := (vm_heap vm)(a \<mapsto> s)\<rparr>) a = Inr vm' \<and> seg_list vm' (a # as)
     \<and> contents vm' = (contents vm)(a \<mapsto> payload s) \<and> segment_tail vm' = segment_tail vm \<and> cacheused vm' = cacheused vm
     \<and> cachesize vm' = cachesize vm \<and> cache_enabled vm' = cache_enabled vm \<and> pagesize vm' = pagesize vm
     \<and> vm_calls vm' = vm_calls vm"
proof -
  have n: "a \<notin> set as" using seg_list_alive [OF l, of a] f(1) by auto
  have "loose (vm\<lparr>vm_heap := (vm_heap vm)(a \<mapsto> s)\<rparr>) as a"
    using l f(2) n by (auto simp: loose_def seg_list_def lseg_frame)
  from segs.push_law [OF this] obtain v where v: "link_head (vm\<lparr>vm_heap := (vm_heap vm)(a \<mapsto> s)\<rparr>) a = Inr v"
    "seg_list v (a # as)" "seg_view v = seg_view (vm\<lparr>vm_heap := (vm_heap vm)(a \<mapsto> s)\<rparr>)" by blast
  have "contents (vm\<lparr>vm_heap := (vm_heap vm)(a \<mapsto> s)\<rparr>) = (contents vm)(a \<mapsto> payload s)"
    by (auto simp: contents_def fun_eq_iff)
  then show ?thesis using v(1,2) seg_view_fields [OF v(3)] by (intro exI [of _ v]) simp
qed

text \<open>The call that locks a new segment into memory, where the cache does that.\<close>

definition lock_call :: "VMcache \<Rightarrow> 64 word \<Rightarrow> 64 word \<Rightarrow> kcall list" where
  "lock_call vm x n = (if lockpages vm \<and> cache_enabled vm then [Mlock x n] else [])"

lemma map_segment_run:
  assumes l: "seg_list vm as" and t: "segment_tail vm = end_of as"
    and os: "os_mmap e (vm_calls vm @ [Mmap n fd x0 (acmode = VM_READWRITE)]) \<noteq> 0" "os_calloc e (vm_heap vm) \<noteq> 0"
      "vm_heap vm (os_calloc e (vm_heap vm)) = None"
  shows "\<exists>v2 a s. map_segment e vm fd st x0 n acmode = Inr (a, vs_addr s, v2)
     \<and> vs_addr s = os_mmap e (vm_calls vm @ [Mmap n fd x0 (acmode = VM_READWRITE)])
     \<and> vm_calls v2 = vm_calls vm @ Mmap n fd x0 (acmode = VM_READWRITE) # lock_call vm (vs_addr s) n
     \<and> cache_enabled v2 = cache_enabled vm \<and> vs_fd s = fd \<and> a \<noteq> 0 \<and> vm_heap vm a = None
     \<and> seg_list v2 (a # as) \<and> segment_tail v2 = end_of (a # as) \<and> cacheused v2 = cacheused vm + n
     \<and> pagesize v2 = pagesize vm \<and> contents v2 = (contents vm)(a \<mapsto> payload s)
     \<and> vs_refcnt s = 0 \<and> vs_offset s = x0 \<and> vs_nbytes s = n \<and> vs_inode s = st_ino st \<and> vs_device s = st_dev st"
proof -
  let ?a = "os_calloc e (vm_heap vm)" and ?ad = "os_mmap e (vm_calls vm @ [Mmap n fd x0 (acmode = VM_READWRITE)])"
  define s where "s = \<lparr>vs_next = 0, vs_prev = 0, vs_refcnt = 0, vs_addr = ?ad, vs_fd = fd, vs_inode = st_ino st,
     vs_device = st_dev st, vs_offset = x0, vs_nbytes = n\<rparr>"
  define v0 where "v0 = (let v = call (Mmap n fd x0 (acmode = VM_READWRITE)) vm in
     if lockpages v \<and> cache_enabled v then call (Mlock ?ad n) v else v)"
  have v0: "seg_list v0 as" "segment_tail v0 = end_of as" "vm_heap v0 = vm_heap vm" "cacheused v0 = cacheused vm"
    "pagesize v0 = pagesize vm" "contents v0 = contents vm" "cache_enabled v0 = cache_enabled vm"
    "vm_calls v0 = vm_calls vm @ Mmap n fd x0 (acmode = VM_READWRITE) # lock_call vm ?ad n"
    using l t by (auto simp: v0_def Let_def contents_def fun_eq_iff lock_call_def)
  have fresh: "vm_heap v0 ?a = None" "?a \<noteq> 0" using os(2,3) v0(3) by simp_all
  obtain v1 where v1: "link_head (v0\<lparr>vm_heap := (vm_heap v0)(?a \<mapsto> s)\<rparr>) ?a = Inr v1" "seg_list v1 (?a # as)"
    "contents v1 = (contents vm)(?a \<mapsto> payload s)" "segment_tail v1 = end_of as" "cacheused v1 = cacheused vm"
    "pagesize v1 = pagesize vm" "cache_enabled v1 = cache_enabled vm" "vm_calls v1 = vm_calls v0"
    using insert_run [OF v0(1,2) fresh, of s] v0 by auto
  define v2 where "v2 = (let v = v1\<lparr>cacheused := cacheused v1 + n\<rparr> in if segment_tail v = 0 then v\<lparr>segment_tail := ?a\<rparr> else v)"
  have as0: "as \<noteq> [] \<Longrightarrow> last as \<noteq> 0" using seg_list_alive [OF l, of "last as"] by auto
  have v2: "seg_list v2 (?a # as)" "segment_tail v2 = end_of (?a # as)" "cacheused v2 = cacheused vm + n"
    "contents v2 = contents v1" "pagesize v2 = pagesize vm" "cache_enabled v2 = cache_enabled vm" "vm_calls v2 = vm_calls v0"
    using v1 as0 by (auto simp: v2_def Let_def contents_def fun_eq_iff)
  have z: "(os_calloc e (vm_heap vm) = 0) = False" using fresh(2) by simp
  have "map_segment e vm fd st x0 n acmode
      = bind_res (link_head (v0\<lparr>vm_heap := (vm_heap vm)(?a \<mapsto> s)\<rparr>) ?a)
          (\<lambda>v1. let v = v1\<lparr>cacheused := cacheused v1 + n\<rparr>; v = (if segment_tail v = 0 then v\<lparr>segment_tail := ?a\<rparr> else v)
           in Inr (?a, ?ad, v))"
    using os(1) z by (simp add: map_segment_def v0_def s_def Let_def cong: if_cong)
  then have "map_segment e vm fd st x0 n acmode = Inr (?a, ?ad, v2)"
    using v1(1) v0(3) by (simp add: v2_def Let_def)
  moreover have "?ad = vs_addr s" by (simp add: s_def)
  moreover have "vs_refcnt s = 0 \<and> vs_offset s = x0 \<and> vs_nbytes s = n \<and> vs_inode s = st_ino st \<and> vs_device s = st_dev st \<and> vs_fd s = fd"
    by (simp add: s_def)
  moreover have "contents v2 = (contents vm)(?a \<mapsto> payload s)" unfolding v2(4) by (rule v1(3))
  moreover have "vm_heap vm ?a = None" using fresh(1) v0(3) by simp
  ultimately show ?thesis using v2(1-3,5-7) v0(8) fresh(2) by (intro exI [of _ v2] exI [of _ ?a] exI [of _ s]) simp
qed

lemma sizes_same:
  assumes "seg_list vm as" "\<And>b. b \<in> set as \<Longrightarrow> contents vm' b = contents vm b"
  shows "sum_list (map (seg_size vm') as) = sum_list (map (seg_size vm) as)"
proof -
  have "seg_size vm' b = seg_size vm b" if "b \<in> set as" for b
    using contents_size [OF assms(2) [OF that]] seg_list_alive [OF assms(1) that] by auto
  then show ?thesis by (simp cong: map_cong)
qed

lemma cacheregion_hit_run:
  assumes ok: "vm_ok vm (xs @ a # ys)" and h: "vm_heap vm a = Some s" and st: "os_fstat e fd = Some st"
    and skip: "\<forall>b \<in> set xs. \<not> touches st (region_start vm offset) (the (vm_heap vm b))"
    and hit: "touches st (region_start vm offset) s" "touches st (region_end vm offset nbytes) s"
    and r: "readable e vm (vs_nbytes s)" "length xs < os_fuel e"
  shows "\<exists>vm' s'. vm_cacheregion e vm fd offset nbytes acmode flags = Inr (os_junk e + (offset - vs_offset s), vm')
     \<and> seg_list vm' (a # xs @ ys) \<and> segment_tail vm' = last (a # ys)
     \<and> vm_heap vm' a = Some s' \<and> vs_refcnt s' = vs_refcnt s + 1 \<and> vs_addr s' = vs_addr s
     \<and> (\<forall>b. b \<noteq> a \<longrightarrow> contents vm' b = contents vm b) \<and> cacheused vm' = cacheused vm
     \<and> cachesize vm' = cachesize vm \<and> cache_enabled vm' = cache_enabled vm"
proof -
  have l: "seg_list vm (xs @ a # ys)" and t: "segment_tail vm = last (a # ys)" using ok by (simp_all add: vm_ok_def)
  have t0: "segment_tail vm \<noteq> 0" unfolding t using seg_list_alive [OF l, of "last (a # ys)"] by auto
  have f: "find_region (os_fuel e) (vm_heap vm) st (region_start vm offset) (region_end vm offset nbytes) (segment_head vm)
      = Inr (Hit a (vs_offset s) (vs_nbytes s))"
    by (rule find_region_hit [OF l h skip hit r(2)])
  obtain vm' ks where v: "refresh e vm a (os_junk e) offset (vs_offset s) (vs_nbytes s) = Inr (os_junk e + (offset - vs_offset s), vm')"
    "seg_list vm' (a # xs @ ys)" "segment_tail vm' = segment_tail vm" "cacheused vm' = cacheused vm"
    "cachesize vm' = cachesize vm" "cache_enabled vm' = cache_enabled vm"
    "contents vm' = (contents vm)(a \<mapsto> payload (s\<lparr>vs_refcnt := vs_refcnt s + 1\<rparr>))"
    using refresh_run [OF l h t0 r(1)] by blast
  obtain s' where s': "vm_heap vm' a = Some s'" using seg_list_alive [OF v(2), of a] by auto
  then have "payload s' = payload (s\<lparr>vs_refcnt := vs_refcnt s + 1\<rparr>)"
    using fun_cong [OF v(7), of a] by (simp add: contents_def)
  from payload_fields(1,2) [OF this] have "vs_refcnt s' = vs_refcnt s + 1" "vs_addr s' = vs_addr s" by simp_all
  moreover have "vm_cacheregion e vm fd offset nbytes acmode flags = Inr (os_junk e + (offset - vs_offset s), vm')"
    using st f v(1) by (simp add: vm_cacheregion_def Let_def)
  moreover have "\<forall>b. b \<noteq> a \<longrightarrow> contents vm' b = contents vm b" unfolding v(7) by simp
  ultimately show ?thesis using v(2-6) s' t by (intro exI [of _ vm'] exI [of _ s'] conjI) simp_all
qed

lemma lseg_refcnt:
  assumes "h a = Some s"
  shows "lseg (h(a \<mapsto> s\<lparr>vs_refcnt := r\<rparr>)) as q p q' p' \<longleftrightarrow> lseg h as q p q' p'"
  using assms by (induction as arbitrary: q p) auto

lemma seg_list_refcnt:
  "vm_heap vm a = Some s \<Longrightarrow> seg_list (vm\<lparr>vm_heap := (vm_heap vm)(a \<mapsto> s\<lparr>vs_refcnt := r\<rparr>)\<rparr>) as \<longleftrightarrow> seg_list vm as"
  by (simp add: seg_list_def lseg_refcnt del: fun_upd_apply)

section \<open>The initialisation string\<close>

definition init_char :: "char \<Rightarrow> bool" where
  "init_char c \<longleftrightarrow> isspace c \<or> c = CHR '','' \<or> isalnum c \<or> c = CHR ''=''"

lemma dropWhile_keeps:
  assumes "\<And>c. P c \<Longrightarrow> Q c"
  shows "list_all Q (dropWhile P xs) \<longleftrightarrow> list_all Q xs"
  using assms by (induction xs) auto

lemma isalnum_classes: "isalnum c \<Longrightarrow> \<not> isspace c \<and> c \<noteq> CHR '','' \<and> c \<noteq> CHR ''=''"
  by (auto simp: isalnum_def isspace_def Let_def)

definition init_rest :: "string \<Rightarrow> string" where
  "init_rest ip = dropWhile isalnum (dropWhile (\<lambda>c. isspace c \<or> c = CHR ''='')
     (dropWhile isalnum (dropWhile (\<lambda>c. isspace c \<or> c = CHR '','') ip)))"

lemma init_rest_keeps: "list_all init_char (init_rest ip) \<longleftrightarrow> list_all init_char ip"
proof -
  have "list_all init_char (dropWhile P xs) \<longleftrightarrow> list_all init_char xs"
    if "P = isalnum \<or> P = (\<lambda>c. isspace c \<or> c = CHR '','') \<or> P = (\<lambda>c. isspace c \<or> c = CHR ''='')" for P and xs :: string
    using that by (intro dropWhile_keeps) (auto simp: init_char_def)
  then show ?thesis unfolding init_rest_def by presburger
qed

lemma dropWhile3_le: "length (dropWhile P (dropWhile Q (dropWhile R u))) \<le> length u"
  by (metis length_dropWhile_le order_trans)

lemma init_rest_length: "length (init_rest ip) \<le> length ip"
  unfolding init_rest_def by (metis length_dropWhile_le dropWhile3_le order_trans)

lemma init_rest_progress:
  assumes "list_all init_char ip" "ip \<noteq> []"
  shows "length (init_rest ip) < length ip"
proof -
  obtain c t where ip: "ip = c # t" using assms(2) by (cases ip) auto
  have "isspace c \<or> c = CHR '','' \<or> isalnum c \<or> c = CHR ''=''" using assms(1) ip by (auto simp: init_char_def)
  then consider "isspace c \<or> c = CHR '',''" | "isalnum c" | "c = CHR ''=''" by blast
  then show ?thesis
  proof cases
    case 1
    then have "init_rest ip = init_rest t" by (simp add: init_rest_def ip)
    then show ?thesis using ip init_rest_length [of t] by simp
  next
    case 2
    then have "init_rest ip = dropWhile isalnum (dropWhile (\<lambda>c. isspace c \<or> c = CHR ''='') (dropWhile isalnum t))"
      using isalnum_classes [OF 2] ip by (simp add: init_rest_def)
    then show ?thesis using ip dropWhile3_le [of isalnum "\<lambda>c. isspace c \<or> c = CHR ''=''" isalnum t] by simp
  next
    case 3
    have "\<not> isspace (CHR ''='')" "\<not> isalnum (CHR ''='')" by code_simp+
    then have "init_rest ip = dropWhile isalnum (dropWhile (\<lambda>c. isspace c \<or> c = CHR ''='') t)"
      using 3 ip by (simp add: init_rest_def)
    also have "\<dots> = dropWhile isalnum (dropWhile (\<lambda>c. isspace c \<or> c = CHR ''='') (dropWhile (\<lambda>_. False) t))"
      by (cases t) auto
    finally show ?thesis using ip dropWhile3_le [of isalnum "\<lambda>c. isspace c \<or> c = CHR ''=''" "\<lambda>_. False" t] by simp
  qed
qed

lemma scan_round:
  assumes "ip \<noteq> []" "length ip < SZ_NAME"
  shows "\<exists>o''. scan_init (Suc n) ip o' = scan_init n (init_rest ip) o''"
proof -
  have le: "length (takeWhile P (dropWhile Q u)) \<le> length u" for P Q and u :: string
    using length_takeWhile_le length_dropWhile_le order_trans by metis
  let ?a = "dropWhile (\<lambda>c. isspace c \<or> c = CHR '','') ip"
  have "length (takeWhile isalnum ?a) < SZ_NAME" using le [of isalnum _ ip] assms(2) by (meson le_less_trans)
  moreover have "length (dropWhile isalnum ?a) < SZ_NAME"
    using length_dropWhile_le [of isalnum ?a] length_dropWhile_le [of "\<lambda>c. isspace c \<or> c = CHR '',''" ip] assms(2) by linarith
  then have "length (takeWhile isalnum (dropWhile (\<lambda>c. isspace c \<or> c = CHR ''='') (dropWhile isalnum ?a))) < SZ_NAME"
    using le [of isalnum _ "dropWhile isalnum ?a"] by (meson le_less_trans)
  ultimately show ?thesis using assms(1) by (auto simp: Let_def init_rest_def)
qed

lemma scan_stuck: "\<not> list_all init_char ip \<Longrightarrow> length ip < SZ_NAME \<Longrightarrow> scan_init n ip o' = Inl Diverges"
proof (induction n arbitrary: ip o')
  case (Suc n)
  have "ip \<noteq> []" using Suc.prems(1) by auto
  from scan_round [OF this Suc.prems(2)] obtain o'' where r: "scan_init (Suc n) ip o' = scan_init n (init_rest ip) o''"
    by blast
  have "\<not> list_all init_char (init_rest ip)" "length (init_rest ip) < SZ_NAME"
    using Suc.prems init_rest_keeps [of ip] init_rest_length [of ip] by simp_all
  then show ?case unfolding r by (rule Suc.IH)
qed simp

lemma scan_ends: "list_all init_char ip \<Longrightarrow> length ip < SZ_NAME \<Longrightarrow> length ip < n \<Longrightarrow> \<exists>o''. scan_init n ip o' = Inr o''"
proof (induction n arbitrary: ip o')
  case (Suc n)
  show ?case
  proof (cases "ip = []")
    case False
    from scan_round [OF this Suc.prems(2)] obtain o'' where r: "scan_init (Suc n) ip o' = scan_init n (init_rest ip) o''"
      by blast
    have "length (init_rest ip) < length ip" by (rule init_rest_progress [OF Suc.prems(1) False])
    then have "list_all init_char (init_rest ip)" "length (init_rest ip) < SZ_NAME" "length (init_rest ip) < n"
      using Suc.prems init_rest_keeps [of ip] by simp_all
    then show ?thesis unfolding r by (rule Suc.IH)
  qed simp
qed simp

section \<open>Properties\<close>

text \<open>
  a request for a region that lies in a cached segment moves that segment to the front of
  the list and counts one more reference to it.  The address returned is not the address of the
  segment: the variable it is computed from is never set on this path.  The tail pointer is
  left alone, so it points to the head when the segment was the last one.
\<close>

theorem vm_cacheregion_hit:
  assumes ok: "vm_ok vm (xs @ a # ys)" and h: "vm_heap vm a = Some s" and st: "os_fstat e fd = Some st"
    and skip: "\<forall>b \<in> set xs. \<not> touches st (region_start vm offset) (the (vm_heap vm b))"
    and hit: "touches st (region_start vm offset) s" "touches st (region_end vm offset nbytes) s"
    and r: "readable e vm (vs_nbytes s)" "length xs < os_fuel e"
  shows "\<exists>vm' s'. vm_cacheregion e vm fd offset nbytes acmode flags = Inr (os_junk e + (offset - vs_offset s), vm')
     \<and> seg_list vm' (a # xs @ ys) \<and> segment_tail vm' = last (a # ys)
     \<and> vm_heap vm' a = Some s' \<and> vs_refcnt s' = vs_refcnt s + 1 \<and> vs_addr s' = vs_addr s
     \<and> (\<forall>b. b \<noteq> a \<longrightarrow> contents vm' b = contents vm b) \<and> cacheused vm' = cacheused vm"
  using cacheregion_hit_run [OF assms, of acmode flags] by blast

text \<open>A segment of the file that has bytes in common with \<open>x0\<close> to \<open>x1\<close>.\<close>

definition overlaps :: "file_stat \<Rightarrow> 64 word \<Rightarrow> 64 word \<Rightarrow> Segment \<Rightarrow> bool" where
  "overlaps st x0 x1 s \<longleftrightarrow> touches st x0 s
     \<or> (vs_inode s = st_ino st \<and> vs_device s = st_dev st \<and> x0 \<le> vs_offset s \<and> vs_offset s \<le> x1)"

text \<open>
  C31: a request for a region whose pages overlap no cached segment of the file, when there is room
  for it, calls \<open>mmap\<close> for exactly the pages that contain the region (their length and offset, the
  descriptor, writable when asked for), locks them when the cache does that and reads them ahead
  when it is enabled, and makes no other call.  A new segment for them, referenced once, is put at
  the front of the list.  The address returned is that of the requested offset in the mapping, and
  the list, the tail pointer, the other segments and the space accounting stay consistent.
\<close>

theorem vm_cacheregion_miss:
  assumes ok: "vm_ok vm as" and st: "os_fstat e fd = Some st"
    and absent: "\<forall>b \<in> set as. \<not> overlaps st (region_start vm offset) (region_end vm offset nbytes) (the (vm_heap vm b))"
    and n: "n = region_end vm offset nbytes - region_start vm offset + 1"
    and room: "\<not> cache_enabled vm \<or> n < cachesize vm - cacheused vm"
    and c: "c = Mmap n fd (region_start vm offset) (acmode = VM_READWRITE)"
    and os: "os_mmap e (vm_calls vm @ [c]) \<noteq> 0" "os_mmap e (vm_calls vm @ [c]) \<noteq> -1" "os_calloc e (vm_heap vm) \<noteq> 0"
      "vm_heap vm (os_calloc e (vm_heap vm)) = None"
    and r: "readable e vm n" "length as < os_fuel e"
  shows "\<exists>vm' a s ks. vm_cacheregion e vm fd offset nbytes acmode flags
       = Inr (vs_addr s + (offset - region_start vm offset), vm')
     \<and> vm_calls vm' = vm_calls vm @ c # lock_call vm (vs_addr s) n @ ks
     \<and> list_all will_need ks \<and> (\<not> cache_enabled vm \<longrightarrow> ks = [])
     \<and> vs_addr s = os_mmap e (vm_calls vm @ [c]) \<and> vm_ok vm' (a # as) \<and> a \<notin> set as \<and> vm_heap vm' a = Some s \<and> vs_refcnt s = 1
     \<and> vs_offset s = region_start vm offset \<and> vs_nbytes s = n \<and> vs_inode s = st_ino st \<and> vs_device s = st_dev st \<and> vs_fd s = fd
     \<and> (\<forall>b. b \<noteq> a \<longrightarrow> contents vm' b = contents vm b) \<and> cacheused vm' = cacheused vm + n"
proof -
  have l: "seg_list vm as" and t: "segment_tail vm = end_of as" and u: "cacheused vm = sum_list (map (seg_size vm) as)"
    using ok by (simp_all add: vm_ok_def)
  let ?x0 = "region_start vm offset" and ?a = "os_calloc e (vm_heap vm)" and ?ad = "os_mmap e (vm_calls vm @ [c])"
  have f: "find_region (os_fuel e) (vm_heap vm) st ?x0 (region_end vm offset nbytes) (segment_head vm) = Inr Absent"
    by (rule find_region_absent [OF l _ r(2)]) (use absent in \<open>auto simp: overlaps_def\<close>)
  obtain k where k: "os_fuel e = Suc k" using r(2) by (cases "os_fuel e") auto
  have "\<exists>i. vm_reservespace e vm n = Inr (i, vm)" using room by (auto simp: vm_reservespace_def k)
  then obtain i where rs: "vm_reservespace e vm n = Inr (i, vm)" by blast
  obtain v2 a s where v2: "map_segment e vm fd st ?x0 n acmode = Inr (a, vs_addr s, v2)" "a \<noteq> 0" "vm_heap vm a = None"
    "seg_list v2 (a # as)" "segment_tail v2 = end_of (a # as)" "cacheused v2 = cacheused vm + n" "pagesize v2 = pagesize vm"
    "contents v2 = (contents vm)(a \<mapsto> payload s)" "vs_refcnt s = 0" "vs_offset s = ?x0" "vs_nbytes s = n"
    "vs_inode s = st_ino st" "vs_device s = st_dev st" "vs_addr s = ?ad" "vs_fd s = fd" "cache_enabled v2 = cache_enabled vm" "vm_calls v2 = vm_calls vm @ c # lock_call vm (vs_addr s) n"
    using map_segment_run [OF l t os(1) [unfolded c] os(3, 4), of st] unfolding c by blast
  obtain s2 where s2: "vm_heap v2 a = Some s2" using seg_list_alive [OF v2(4), of a] by auto
  have ps: "payload s2 = payload s" using s2 fun_cong [OF v2(8), of a] by (simp add: contents_def)
  have rd: "readable e v2 n" using r(1) v2(7) by (simp add: readable_def)
  have l2: "seg_list v2 ([] @ a # as)" using v2(4) by simp
  have "end_of (a # as) \<in> set (a # as)" by simp
  then have t2: "segment_tail v2 \<noteq> 0" unfolding v2(5) using seg_list_alive [OF v2(4)] by blast
  obtain v3 ks where v3: "refresh e v2 a (vs_addr s) offset ?x0 n = Inr (vs_addr s + (offset - ?x0), v3)" "seg_list v3 (a # [] @ as)"
    "segment_tail v3 = segment_tail v2" "cacheused v3 = cacheused v2"
    "contents v3 = (contents v2)(a \<mapsto> payload (s2\<lparr>vs_refcnt := vs_refcnt s2 + 1\<rparr>))"
    "vm_calls v3 = vm_calls v2 @ ks" "list_all will_need ks" "\<not> cache_enabled v2 \<longrightarrow> ks = []"
    using refresh_run [OF l2 s2 t2 rd, of "vs_addr s" offset ?x0] by blast
  have run: "vm_cacheregion e vm fd offset nbytes acmode flags = Inr (vs_addr s + (offset - ?x0), v3)"
    using st f rs v2(1,2) v3(1) by (simp add: vm_cacheregion_def Let_def flip: n)
  have na: "a \<notin> set as" using v3(2) by (simp add: seg_list_def)
  obtain s3 where s3: "vm_heap v3 a = Some s3" using seg_list_alive [OF v3(2), of a] by auto
  then have "payload s3 = payload (s2\<lparr>vs_refcnt := vs_refcnt s2 + 1\<rparr>)"
    using fun_cong [OF v3(5), of a] by (simp add: contents_def)
  from payload_fields [OF this] payload_fields [OF ps] v2(9-15)
  have fs: "vs_refcnt s3 = 1" "vs_addr s3 = vs_addr s" "vs_addr s = ?ad" "vs_offset s3 = ?x0" "vs_nbytes s3 = n" "vs_inode s3 = st_ino st"
    "vs_device s3 = st_dev st" "vs_fd s3 = fd" by simp_all
  have other: "contents v3 b = contents vm b" if "b \<noteq> a" for b using that v3(5) v2(8) by simp
  have "sum_list (map (seg_size v3) as) = cacheused vm" unfolding u
  proof (rule sizes_same [OF l])
    fix b assume "b \<in> set as"
    then have "b \<noteq> a" using na by auto
    then show "contents v3 b = contents vm b" by (rule other)
  qed
  then have "vm_ok v3 (a # as)" using v3(2-4) v2(5,6) s3 fs(5) by (simp add: vm_ok_def seg_size_def)
  then show ?thesis using run na s3 fs other v3(4, 6-) v2(6, 16, 17)
    by (intro exI [of _ v3] exI [of _ a] exI [of _ s3] exI [of _ ks] conjI) simp_all
qed

text \<open>
  \<open>vm_reservespace\<close> frees a segment and then reads the freed memory to go on to the one
  before it: as soon as space has to be made and some segment can be freed, the call does not
  end in a defined state, whatever is freed.
\<close>

theorem vm_reservespace_use_after_free:
  assumes ok: "vm_ok vm (xs @ a # ys)" and en: "cache_enabled vm" and full: "\<not> n < cachesize vm - cacheused vm"
    and busy: "\<forall>b \<in> set ys. vs_refcnt (the (vm_heap vm b)) \<noteq> 0"
    and idle: "vm_heap vm a = Some s" "vs_refcnt s = 0" and fuel: "length ys < os_fuel e"
  shows "vm_reservespace e vm n = Inl Use_After_Free"
proof -
  have l: "seg_list vm (xs @ a # ys)" and t: "segment_tail vm = end_of (xs @ a # ys)" using ok by (simp_all add: vm_ok_def)
  obtain t' where "lseg (vm_heap vm) (xs @ a # ys) 0 (segment_head vm) t' 0" using l by (auto simp: seg_list_def)
  then obtain m where m: "a \<noteq> 0" "lseg (vm_heap vm) ys a m t' 0"
    by (auto simp: lseg_append)
  have tt: "t' = segment_tail vm" using lseg_ends(1,2) [OF m(2)] t by (cases "ys = []") auto
  obtain k where k: "os_fuel e = length ys + Suc k" using fuel less_iff_Suc_add by force
  let ?v = "(call (Munmap (vs_addr s) (vs_nbytes s)) (call (Madvise (vs_addr s) (vs_nbytes s) False) vm))
     \<lparr>cacheused := cacheused vm - vs_nbytes s\<rparr>"
  obtain v where v: "drop_seg ?v a = Inr v" "contents v = (contents ?v)(a := None)"
    using drop_run [of ?v xs a ys] l t by auto
  have "vm_heap v a = None" using fun_cong [OF v(2), of a] by (simp add: contents_def)
  then have "reserve_loop (Suc k) vm n a (cachesize vm - cacheused vm) = Inl Use_After_Free"
    using m(1) full idle v(1) by (simp add: deref_def Let_def)
  then show ?thesis
    using reserve_skip [OF m(2) busy full, of vm "Suc k"] en k tt by (simp add: vm_reservespace_def)
qed

section \<open>Concrete caches\<close>

definition os0 :: os where
  "os0 = \<lparr>os_fstat = (\<lambda>_. Some \<lparr>st_ino = 7, st_dev = 1, st_size = 8192\<rparr>), os_stat = (\<lambda>_. None), os_open = (\<lambda>_. 3),
     os_mmap = (\<lambda>ks. 65536), os_munmap_ok = (\<lambda>_. True), os_msync_ok = (\<lambda>_. True),
     os_calloc = (\<lambda>h. if h 1 = None then 1 else if h 2 = None then 2 else 3),
     os_physpages = 1000, os_pagesize = 4096, os_junk = 99, os_fuel = 10\<rparr>"

definition seg_of :: "nat \<Rightarrow> nat \<Rightarrow> int \<Rightarrow> nat \<Rightarrow> Segment" where
  "seg_of n p r ino = \<lparr>vs_next = n, vs_prev = p, vs_refcnt = r, vs_addr = 131072, vs_fd = 3, vs_inode = ino, vs_device = 1,
     vs_offset = 0, vs_nbytes = 4096\<rparr>"

definition vm_two :: VMcache where
  "vm_two = \<lparr>segment_head = 1, segment_tail = 2, cache_initialized = True, cache_enabled = True, cacheused = 8192,
     cachesize = 8192, physmem = 4096000, lockpages = False, pagesize = 4096,
     vm_heap = [1 \<mapsto> seg_of 2 0 0 5, 2 \<mapsto> seg_of 0 1 0 7], vm_calls = []\<rparr>"

lemma vm_two_ok: "vm_ok vm_two [1, 2]" "vm_heap vm_two 2 = Some (seg_of 0 1 0 7)" "vm_heap vm_two 1 = Some (seg_of 2 0 0 5)"
  by (simp_all add: vm_ok_def seg_list_def seg_size_def vm_two_def seg_of_def)

lemma regions_two:
  "region_start vm_two 100 = 0" "region_end vm_two 100 50 = 4095" "page_size vm_two = 4096"
  by (simp_all add: region_start_def region_end_def page_size_def vm_two_def Let_def)

text \<open>
  the scan of the initialisation string ends exactly when the string is made of letters,
  digits, blanks, commas and equal signs.  On any other character the scan makes no progress:
  \<open>vm_initcache\<close> never returns, whatever the number of rounds.  The documented value
  \<open>cachesize=50%\<close> is such a string.
\<close>

theorem vm_initcache_scan_ends_iff:
  assumes "length s < SZ_NAME"
  shows "if list_all init_char s then \<exists>o''. scan_init (Suc (length s)) s o' = Inr o''
     else \<forall>e vm. vm_initcache e vm (Some s) = Inl Diverges"
  using scan_ends [of s "Suc (length s)" o'] scan_stuck [of s] assms by (auto simp: vm_initcache_def)

theorem vm_initcache_scan_ends_iff_witness:
  "\<forall>e vm. vm_initcache e vm (Some ''cachesize=50%'') = Inl Diverges"
proof -
  have "\<not> list_all init_char ''cachesize=50%''" by code_simp
  moreover have "length ''cachesize=50%'' < SZ_NAME" by (simp add: SZ_NAME_def)
  ultimately show ?thesis using vm_initcache_scan_ends_iff [of "''cachesize=50%''"] by simp
qed

text \<open>
  giving up the last reference to a segment with \<open>VM_DESTROYREGION\<close> (or with the cache
  disabled) unmaps exactly that segment and takes it out of the list; the other segments, the
  tail pointer and the space accounting stay consistent.
\<close>

theorem vm_uncache_destroys:
  assumes ok: "vm_ok vm (xs @ a # ys)" and h: "vm_heap vm a = Some s"
    and idle: "vs_refcnt s \<le> 1 \<or> flags AND VM_CANCELREFCNT \<noteq> 0"
    and destroy: "flags AND VM_DESTROYREGION \<noteq> 0 \<or> \<not> cache_enabled vm"
  shows "\<exists>vm'. vm_uncache e vm a flags = Inr (if os_munmap_ok e (vs_addr s) then 0 else -1, vm')
     \<and> vm_ok vm' (xs @ ys) \<and> vm_heap vm' a = None \<and> (\<forall>b. b \<noteq> a \<longrightarrow> contents vm' b = contents vm b)
     \<and> last (vm_calls vm') = Munmap (vs_addr s) (vs_nbytes s)"
proof -
  have l: "seg_list vm (xs @ a # ys)" and t: "segment_tail vm = end_of (xs @ a # ys)"
    and u: "cacheused vm = sum_list (map (seg_size vm) (xs @ a # ys))" using ok by (simp_all add: vm_ok_def)
  have a0: "a \<noteq> 0" using seg_list_alive [OF l, of a] by simp
  let ?v0 = "vm\<lparr>vm_heap := (vm_heap vm)(a \<mapsto> s\<lparr>vs_refcnt := 0\<rparr>)\<rparr>"
  define v1 where "v1 = (call (Munmap (vs_addr s) (vs_nbytes s)) (if cache_enabled vm then call (Madvise (vs_addr s) (vs_nbytes s) False) ?v0 else ?v0))
     \<lparr>cacheused := cacheused vm - vs_nbytes s\<rparr>"
  have l1: "seg_list v1 (xs @ a # ys)" "segment_tail v1 = end_of (xs @ a # ys)"
    using l t h by (simp_all add: v1_def seg_list_refcnt)
  obtain v where v: "drop_seg v1 a = Inr v" "seg_list v (xs @ ys)" "segment_tail v = end_of (xs @ ys)"
    "contents v = (contents v1)(a := None)" "cacheused v = cacheused v1" "vm_calls v = vm_calls v1"
    using drop_run [OF l1] by blast
  have c1: "cacheused v1 = cacheused vm - vs_nbytes s" "last (vm_calls v1) = Munmap (vs_addr s) (vs_nbytes s)"
    by (simp_all add: v1_def)
  have r: "(if vs_refcnt s - 1 < 0 \<or> flags AND VM_CANCELREFCNT \<noteq> 0 then 0 else vs_refcnt s - 1) = 0" using idle by auto
  have dr: "deref (vm_heap vm) a = Inr s" using h a0 by (simp add: deref_def)
  have run: "vm_uncache e vm a flags = Inr (if os_munmap_ok e (vs_addr s) then 0 else -1, v)"
    unfolding vm_uncache_def dr bind_res_simps Let_def r using destroy v(1)
    by (cases "cache_enabled vm") (simp_all add: v1_def)
  have other: "contents v b = contents vm b" if "b \<noteq> a" for b
    using that v(4) by (simp add: contents_def v1_def)
  have d: "distinct (xs @ a # ys)" using l by (simp add: seg_list_def)
  have size: "seg_size v b = seg_size vm b" if "b \<in> set (xs @ ys)" for b
  proof -
    have "b \<noteq> a" "b \<in> set (xs @ a # ys)" using that d by auto
    then show ?thesis using contents_size [OF other [of b]] seg_list_alive [OF l, of b] by auto
  qed
  have eq: "map (seg_size v) (xs @ ys) = map (seg_size vm) (xs @ ys)" using size by (intro map_cong) auto
  have "seg_size vm a = vs_nbytes s" using h by (simp add: seg_size_def)
  then have "cacheused v = sum_list (map (seg_size v) (xs @ ys))" unfolding eq using v(5) c1(1) u by simp
  then have "vm_ok v (xs @ ys)" using v(2,3) by (simp add: vm_ok_def)
  moreover have "vm_heap v a = None" using fun_cong [OF v(4), of a] by (simp add: contents_def)
  ultimately show ?thesis using run other c1(2) v(6) by (intro exI [of _ v]) simp
qed

theorem vm_uncache_destroys_witness:
  "\<exists>vm'. vm_uncache os0 vm_two 2 VM_DESTROYREGION = Inr (0, vm') \<and> vm_ok vm' [1] \<and> vm_heap vm' 2 = None"
proof -
  have o': "vm_ok vm_two ([1] @ 2 # [])" using vm_two_ok(1) by simp
  have "vs_refcnt (seg_of 0 1 0 7) \<le> 1 \<or> VM_DESTROYREGION AND VM_CANCELREFCNT \<noteq> 0" by (simp add: seg_of_def)
  moreover have "VM_DESTROYREGION AND VM_DESTROYREGION \<noteq> 0 \<or> \<not> cache_enabled vm_two" by (simp add: VM_DESTROYREGION_def)
  ultimately show ?thesis using vm_uncache_destroys [OF o' vm_two_ok(2), of VM_DESTROYREGION os0] by (auto simp: os0_def)
qed

text \<open>
  a hit on the last segment of a list of several makes \<open>segment_tail\<close> point to the new
  head.  From then on \<open>vm_reservespace\<close> sees only the head: it reports that no space can be
  had and frees nothing, although the segments behind the head may all be unused.
\<close>

theorem vm_hit_hides_the_tail:
  assumes ok: "vm_ok vm (xs @ [a])" "xs \<noteq> []" and h: "vm_heap vm a = Some s" "0 \<le> vs_refcnt s" and st: "os_fstat e fd = Some st"
    and skip: "\<forall>b \<in> set xs. \<not> touches st (region_start vm offset) (the (vm_heap vm b))"
    and hit: "touches st (region_start vm offset) s" "touches st (region_end vm offset nbytes) s"
    and r: "readable e vm (vs_nbytes s)" "length xs < os_fuel e"
    and full: "cache_enabled vm" "cachesize vm - cacheused vm < n"
    and run: "vm_cacheregion e vm fd offset nbytes acmode flags = Inr (address, vm')"
  shows "seg_list vm' (a # xs) \<and> vm_reservespace e vm' n = Inr (-1, vm')"
proof -
  obtain w s' where w: "vm_cacheregion e vm fd offset nbytes acmode flags = Inr (os_junk e + (offset - vs_offset s), w)"
    "seg_list w (a # xs @ [])" "segment_tail w = last [a]" "vm_heap w a = Some s'" "vs_refcnt s' = vs_refcnt s + 1"
    "cacheused w = cacheused vm" "cachesize w = cachesize vm" "cache_enabled w = cache_enabled vm"
    using cacheregion_hit_run [OF ok(1) h(1) st skip hit r, of acmode flags] by blast
  have "w = vm'" using w(1) run by simp
  then have v: "seg_list vm' (a # xs)" "segment_tail vm' = a" "vm_heap vm' a = Some s'" "vs_refcnt s' = vs_refcnt s + 1"
    "cacheused vm' = cacheused vm" "cachesize vm' = cachesize vm" "cache_enabled vm' = cache_enabled vm" using w(2-8) by simp_all
  have p: "vs_prev s' = 0" "a \<noteq> 0" using v(1,3) by (auto simp: seg_list_def)
  have "1 < os_fuel e" using r(2) ok(2) by (cases xs) auto
  then have k: "os_fuel e = Suc (Suc (os_fuel e - 2))" by simp
  define k where "k = os_fuel e - 2"
  note k = k [folded k_def]
  have "vs_refcnt s' \<noteq> 0" using v(4) h(2) by simp
  define f where "f = cachesize vm - cacheused vm"
  have f: "\<not> n < f" "\<not> n \<le> f" using full(2) unfolding f_def by auto
  have "reserve_loop (Suc (Suc k)) vm' n a f = Inr (f, vm')"
    using p v(3) \<open>vs_refcnt s' \<noteq> 0\<close> f(1) by (simp add: deref_def)
  then have "vm_reservespace e vm' n = Inr (-1, vm')"
    using v(2,5-7) full(1) f(2) unfolding vm_reservespace_def k by (simp flip: f_def)
  then show ?thesis using v(1) by simp
qed

lemma hit_two:
  "touches \<lparr>st_ino = 7, st_dev = 1, st_size = 8192\<rparr> (region_start vm_two 100) (seg_of 0 1 0 7)"
  "touches \<lparr>st_ino = 7, st_dev = 1, st_size = 8192\<rparr> (region_end vm_two 100 50) (seg_of 0 1 0 7)"
  "\<forall>b \<in> set [1]. \<not> touches \<lparr>st_ino = 7, st_dev = 1, st_size = 8192\<rparr> (region_start vm_two 100) (the (vm_heap vm_two b))"
  "readable os0 vm_two (vs_nbytes (seg_of 0 1 0 7))" "length [1 :: nat] < os_fuel os0"
  unfolding regions_two vm_two_ok(3)
  by (simp_all add: touches_def vm_two_ok(3) readable_def os0_def READAHEAD_def) (simp_all add: vm_two_def seg_of_def)

theorem vm_cacheregion_hit_witness:
  "\<exists>vm'. vm_cacheregion os0 vm_two 3 100 50 VM_READONLY 0 = Inr (199, vm') \<and> seg_list vm' [2, 1] \<and> segment_tail vm' = 2"
proof -
  have o': "vm_ok vm_two ([1] @ 2 # [])" using vm_two_ok(1) by simp
  have st: "os_fstat os0 3 = Some \<lparr>st_ino = 7, st_dev = 1, st_size = 8192\<rparr>" by (simp add: os0_def)
  have "os_junk os0 + (100 - vs_offset (seg_of 0 1 0 7)) = 199" by (simp add: os0_def seg_of_def)
  with vm_cacheregion_hit [OF o' vm_two_ok(2) st hit_two(3,1,2,4,5), of VM_READONLY 0] show ?thesis by auto
qed

theorem vm_cacheregion_miss_witness:
  "\<exists>vm' a. vm_cacheregion os0 (vm_two\<lparr>cache_enabled := False\<rparr>) 3 5000 50 VM_READONLY 0 = Inr (65536 + 904, vm')
     \<and> vm_calls vm' = [Mmap 4096 3 4096 False] \<and> vm_ok vm' [a, 1, 2] \<and> cacheused vm' = 12288"
proof -
  let ?vm = "vm_two\<lparr>cache_enabled := False\<rparr>" and ?st = "\<lparr>st_ino = 7, st_dev = 1, st_size = 8192\<rparr>"
  have o': "vm_ok ?vm [1, 2]" using vm_two_ok(1) by (simp add: vm_ok_def seg_list_def seg_size_def)
  have st: "os_fstat os0 3 = Some ?st" by (simp add: os0_def)
  have x: "region_start ?vm 5000 = 4096" "region_end ?vm 5000 50 = 8191"
    by (simp_all add: region_start_def region_end_def page_size_def vm_two_def Let_def)
  have ab: "\<forall>b \<in> set [1, 2]. \<not> overlaps ?st (region_start ?vm 5000) (region_end ?vm 5000 50) (the (vm_heap ?vm b))"
    unfolding x by (simp add: overlaps_def touches_def vm_two_def seg_of_def)
  have n: "4096 = region_end ?vm 5000 50 - region_start ?vm 5000 + 1" unfolding x by simp
  have room: "\<not> cache_enabled ?vm \<or> 4096 < cachesize ?vm - cacheused ?vm" by simp
  let ?c = "Mmap 4096 3 (region_start ?vm 5000) (VM_READONLY = VM_READWRITE)"
  have os: "os_mmap os0 (vm_calls ?vm @ [?c]) \<noteq> 0" "os_mmap os0 (vm_calls ?vm @ [?c]) \<noteq> -1" "os_calloc os0 (vm_heap ?vm) \<noteq> 0"
    "vm_heap ?vm (os_calloc os0 (vm_heap ?vm)) = None"
    by (simp_all add: os0_def vm_two_def)
  have rd: "readable os0 ?vm 4096" "length [1 :: nat, 2] < os_fuel os0"
    by (simp_all add: readable_def os0_def vm_two_def READAHEAD_def)
  have e: "os_mmap os0 (vm_calls ?vm @ [?c]) = 65536" "\<And>ks. os_mmap os0 ks = 65536" "5000 - region_start ?vm 5000 = 904" "cacheused ?vm + 4096 = 12288"
    "?c = Mmap 4096 3 4096 False" "vm_calls ?vm = []" "\<And>y. lock_call ?vm y 4096 = []"
    unfolding x by (simp_all add: os0_def vm_two_def VM_READONLY_def VM_READWRITE_def lock_call_def)
  obtain w a ks and s :: Segment where w: "vm_cacheregion os0 ?vm 3 5000 50 VM_READONLY 0 = Inr (vs_addr s + (5000 - region_start ?vm 5000), w)"
    "vm_calls w = vm_calls ?vm @ ?c # lock_call ?vm (vs_addr s) 4096 @ ks" "\<not> cache_enabled ?vm \<longrightarrow> ks = []"
    "vs_addr s = os_mmap os0 (vm_calls ?vm @ [?c])" "vm_ok w [a, 1, 2]" "cacheused w = cacheused ?vm + 4096"
    using vm_cacheregion_miss [OF o' st ab n room refl os rd, of 0] by blast
  have "ks = []" using w(3) by simp
  then show ?thesis using w(1,2,5,6) unfolding w(4) e by auto
qed

theorem vm_reservespace_use_after_free_witness:
  "vm_reservespace os0 vm_two 4096 = Inl Use_After_Free"
proof -
  have o': "vm_ok vm_two ([1] @ 2 # [])" using vm_two_ok(1) by simp
  have en: "cache_enabled vm_two" "\<not> 4096 < cachesize vm_two - cacheused vm_two" by (simp_all add: vm_two_def)
  show ?thesis
    by (rule vm_reservespace_use_after_free [OF o' en _ vm_two_ok(2)]) (simp_all add: seg_of_def os0_def)
qed

theorem vm_hit_hides_the_tail_witness:
  "\<exists>vm'. seg_list vm' [2, 1] \<and> vm_reservespace os0 vm' 4096 = Inr (-1, vm')"
proof -
  have o': "vm_ok vm_two ([1] @ [2])" using vm_two_ok(1) by simp
  have st: "os_fstat os0 3 = Some \<lparr>st_ino = 7, st_dev = 1, st_size = 8192\<rparr>" by (simp add: os0_def)
  obtain vm' address where run: "vm_cacheregion os0 vm_two 3 100 50 VM_READONLY 0 = Inr (address, vm')"
    using cacheregion_hit_run [of vm_two "[1]" 2 "[]", OF _ vm_two_ok(2) st hit_two(3,1,2,4,5)] o' by fastforce
  have full: "cache_enabled vm_two" "cachesize vm_two - cacheused vm_two < 4096" by (simp_all add: vm_two_def)
  have "0 \<le> vs_refcnt (seg_of 0 1 0 7)" by (simp add: seg_of_def)
  from vm_hit_hides_the_tail [OF o' _ vm_two_ok(2) this st hit_two(3,1,2,4,5) full run] show ?thesis by auto
qed

end
