(* ===== verification/Dsim.thy ===== *)
theory Dsim
  imports Kwdb_Fits_Props Vm_Cache
begin

text \<open>
  The distributed shared image interface, \<open>mosdca/dsim.c\<close>: an image file of several FITS
  extensions, laid out by \<open>dsim_Configure\<close>, mapped through the virtual memory cache, with headers
  read and written through the keyword database and pixels addressed in the mapping.

  \<^item> \<open>struct image\<close>, \<open>struct ioregion\<close>, \<open>struct dsimage\<close> and \<open>struct dsim_fio\<close> are the records
    \<open>Image\<close>, \<open>IORegion\<close>, \<open>DSImage\<close> and \<open>dsim_fio\<close>.  Image descriptors are referenced by their
    index in the list.  The static \<open>fdtable\<close>, the open image files by their address and the
    virtual memory cache make up the state \<open>dsworld\<close>.
  \<^item> The file is its byte string \<open>d_file\<close>; the mapping is shared, so its bytes are those of the
    file.  \<open>d_kpos\<close> is the offset of the file descriptor, used while the file is not mapped.
    Where it is left after a header has been read is not modelled: every reader and writer of
    the program seeks first.
  \<^item> \<open>int\<close> products that can leave the range wrap (\<open>i32\<close>); \<open>long\<close> offsets do not.
  \<^item> \<open>dsenv\<close> holds what the code asks of its environment.  \<open>sprintf\<close> is modelled for formats
    whose directives are \<open>%d\<close> and \<open>%%\<close>.
\<close>

section \<open>Data\<close>

definition MAXDIM :: nat where "MAXDIM = 8"
definition CARDLEN :: int where "CARDLEN = 80"
definition BLKLEN :: int where "BLKLEN = 2880"
definition DEF_MAXKEYWORDS :: int where "DEF_MAXKEYWORDS = 72"
definition SZ_PATHNAME :: nat where "SZ_PATHNAME = 256"
definition DEF_EXTENSION :: string where "DEF_EXTENSION = ''.fits''"
definition DEF_EXTNLEN :: nat where "DEF_EXTNLEN = 5"
definition MAX_FD :: nat where "MAX_FD = 32"

definition DSO_RDONLY :: int where "DSO_RDONLY = 0"
definition DSO_RDWR :: int where "DSO_RDWR = 1"
definition DSO_CREATE :: int where "DSO_CREATE = 2"
definition DSO_USHORT :: int where "DSO_USHORT = 4"
definition DSO_INT :: int where "DSO_INT = 5"

datatype conv = No_Conv | Conv_UShort | Conv_Int

record Image =
  im_name :: string
  im_type :: string
  imagenumber :: int
  im_maxkeywords :: int
  im_nreserved :: int
  naxes :: int
  axlen :: "int list"
  pixtype :: int
  pixsize :: int
  im_extend :: int
  im_hdr_offset :: int
  pix_offset :: int
  extnsize :: int
  pixels :: "64 word"
  encode :: conv
  decode :: conv

record IORegion =
  io_image :: "nat option"
  io_mode :: int
  io_sv :: "int list"
  io_nv :: "int list"
  io_stride :: "int list"
  io_pixsize :: int
  io_pixels :: "64 word"

record DSImage =
  d_name :: string
  d_type :: string
  imformat :: string
  d_mode :: int
  d_fd :: int
  configured :: int
  configuring :: int
  d_maxkeywords :: int
  d_nreserved :: int
  nimages :: int
  imagelist :: "Image list option"
  nregions :: nat
  iolist :: "IORegion option list"
  io_base :: nat
  d_hdr_offset :: int
  hdr_length :: int
  filesize :: int
  mmap_addr :: "64 word"
  mmap_len :: int
  d_file :: string
  d_kpos :: int

record dsim_fio =
  fio_dsim :: nat
  fio_mode :: int
  fio_pos :: int

record dsworld =
  fdtable :: "dsim_fio list"
  dsims :: "nat \<Rightarrow> DSImage option"
  w_vm :: VMcache

record dsenv =
  de_os :: os
  de_ma :: "nat \<Rightarrow> bool"
  de_maxkeywords :: "string option"
  de_imformat :: "string option"
  de_access :: "string \<Rightarrow> bool"
  de_open :: "string \<Rightarrow> int"
  de_calloc :: nat
  de_imagelist_ok :: bool
  de_realloc :: "nat \<Rightarrow> nat"
  de_write :: "int \<Rightarrow> bool"
  de_close :: "int \<Rightarrow> bool"
  de_little :: bool

definition zero_image :: Image where
  "zero_image = \<lparr>im_name = [], im_type = [], imagenumber = 0, im_maxkeywords = 0, im_nreserved = 0, naxes = 0,
     axlen = replicate MAXDIM 0, pixtype = 0, pixsize = 0, im_extend = 0, im_hdr_offset = 0, pix_offset = 0,
     extnsize = 0, pixels = 0, encode = No_Conv, decode = No_Conv\<rparr>"

definition i32 :: "int \<Rightarrow> int" where
  "i32 n = (n + 2 ^ 31) mod 2 ^ 32 - 2 ^ 31"

text \<open>Division of C, which rounds towards zero.\<close>

definition cdiv :: "int \<Rightarrow> int \<Rightarrow> int" where
  "cdiv a b = (if a < 0 then - ((- a) div b) else a div b)"

definition get_ds :: "dsworld \<Rightarrow> nat \<Rightarrow> DSImage res" where
  "get_ds w p = (if p = 0 then Inl Null_Deref else case dsims w p of None \<Rightarrow> Inl Use_After_Free | Some ds \<Rightarrow> Inr ds)"

definition put_ds :: "dsworld \<Rightarrow> nat \<Rightarrow> DSImage \<Rightarrow> dsworld" where
  "put_ds w p ds = w\<lparr>dsims := (dsims w)(p \<mapsto> ds)\<rparr>"

definition get_image :: "DSImage \<Rightarrow> nat \<Rightarrow> Image res" where
  "get_image ds k = (case imagelist ds of None \<Rightarrow> Inl Null_Deref
     | Some ims \<Rightarrow> if k < length ims then Inr (ims ! k) else Inl Out_Of_Bounds)"

definition put_image :: "DSImage \<Rightarrow> nat \<Rightarrow> Image \<Rightarrow> DSImage" where
  "put_image ds k im = ds\<lparr>imagelist := map_option (\<lambda>ims. ims[k := im]) (imagelist ds)\<rparr>"

section \<open>Opening\<close>

definition dsim_FileName :: "string \<Rightarrow> string res" where
  "dsim_FileName objectname =
     (let fname = (if length objectname < DEF_EXTNLEN \<or> drop (length objectname - DEF_EXTNLEN) objectname \<noteq> DEF_EXTENSION
                   then objectname @ DEF_EXTENSION else objectname)
      in if length fname \<ge> SZ_PATHNAME then Inl Buffer_Overflow else Inr fname)"

definition new_dsimage :: "dsenv \<Rightarrow> string \<Rightarrow> int \<Rightarrow> int \<Rightarrow> DSImage res" where
  "new_dsimage e objectname mode fd =
     (let fmt = (case de_imformat e of None \<Rightarrow> ''im%d'' | Some s \<Rightarrow> s) in
      if length fmt \<ge> 128 then Inl Buffer_Overflow
      else Inr \<lparr>d_name = objectname, d_type = [], imformat = fmt, d_mode = mode, d_fd = fd, configured = 0, configuring = 0,
        d_maxkeywords = (case de_maxkeywords e of None \<Rightarrow> DEF_MAXKEYWORDS | Some s \<Rightarrow> atoi s), d_nreserved = 0, nimages = 0,
        imagelist = None, nregions = 0, iolist = [], io_base = 0, d_hdr_offset = 0, hdr_length = 0, filesize = 0, mmap_addr = 0,
        mmap_len = 0, d_file = [], d_kpos = 0\<rparr>)"

text \<open>\<open>dsim_Open\<close>: the address of the descriptor (0 is NULL).  Only new files are supported.\<close>

definition dsim_Open :: "dsenv \<Rightarrow> dsworld \<Rightarrow> string \<Rightarrow> int \<Rightarrow> (nat \<times> dsworld) res" where
  "dsim_Open e w objectname mode =
     bind_res (dsim_FileName objectname) (\<lambda>fname.
     if mode = DSO_CREATE then
       (if de_access e fname then Inr (0, w)
        else let fd = de_open e fname in
          if fd < 0 then Inr (0, w)
          else if de_calloc e = 0 then Inr (0, w)
          else bind_res (new_dsimage e objectname mode fd) (\<lambda>ds. Inr (de_calloc e, put_ds w (de_calloc e) ds)))
     else Inr (0, w))"

section \<open>Parameters\<close>

text \<open>
  The start of \<open>dsim_Set\<close> and \<open>dsim_SetStr\<close>: \<open>None\<close> is a bad image number or no memory,
  \<open>Some None\<close> the whole file, \<open>Some (Some k)\<close> image \<open>k + 1\<close>.  The image list is allocated for
  the number of images at its first use.
\<close>

definition set_target :: "dsenv \<Rightarrow> DSImage \<Rightarrow> int \<Rightarrow> nat option option \<times> DSImage" where
  "set_target e ds imno =
     (if imno = 0 then (Some None, ds)
      else if imno < 1 \<or> imno > nimages ds then (None, ds)
      else if imagelist ds = None then
        (if de_imagelist_ok e
         then (Some (Some (nat imno - 1)), ds\<lparr>imagelist := Some (replicate (nat (nimages ds)) zero_image)\<rparr>)
         else (None, ds))
      else (Some (Some (nat imno - 1)), ds))"

definition on_image :: "DSImage \<Rightarrow> nat \<Rightarrow> (Image \<Rightarrow> Image) \<Rightarrow> (int \<times> DSImage) res" where
  "on_image ds k f = bind_res (get_image ds k) (\<lambda>im. Inr (0, put_image ds k (f im)))"

text \<open>The parameter codes of \<open>dsim.h\<close>.\<close>

datatype dsim_param = DSIM_Axlen nat | DSIM_Extend | DSIM_FileAccessMode | DSIM_FileDescriptor | DSIM_FileIndex
  | DSIM_ImageNameFormat | DSIM_ImageNumber | DSIM_MaxKeywords | DSIM_NAxes | DSIM_NImages | DSIM_ObjectName
  | DSIM_ObjectType | DSIM_PixelSize | DSIM_PixelType | DSIM_PixelConvert | DSIM_ByteSwapped | DSIM_Other

definition param_of :: "int \<Rightarrow> dsim_param" where
  "param_of n = (if n = 1 then DSIM_Axlen 0 else if n = 2 then DSIM_Axlen 1 else if n = 3 then DSIM_Axlen 2
     else if n = 4 then DSIM_Extend else if n = 5 then DSIM_FileAccessMode else if n = 6 then DSIM_FileDescriptor
     else if n = 7 then DSIM_FileIndex else if n = 8 then DSIM_ImageNameFormat else if n = 9 then DSIM_ImageNumber
     else if n = 10 then DSIM_MaxKeywords else if n = 11 then DSIM_NAxes else if n = 12 then DSIM_NImages
     else if n = 13 then DSIM_ObjectName else if n = 14 then DSIM_ObjectType else if n = 15 then DSIM_PixelSize
     else if n = 16 then DSIM_PixelType else if n = 17 then DSIM_PixelConvert else if n = 18 then DSIM_ByteSwapped
     else DSIM_Other)"

definition dsim_Set :: "dsenv \<Rightarrow> DSImage \<Rightarrow> int \<Rightarrow> dsim_param \<Rightarrow> int \<Rightarrow> (int \<times> DSImage) res" where
  "dsim_Set e ds imno param value =
     (case set_target e ds imno of
        (None, ds) \<Rightarrow> Inr (-1, ds)
      | (Some None, ds) \<Rightarrow>
          (case param of DSIM_NImages \<Rightarrow> Inr (0, ds\<lparr>nimages := value\<rparr>)
           | DSIM_MaxKeywords \<Rightarrow> Inr (0, ds\<lparr>d_maxkeywords := value\<rparr>)
           | _ \<Rightarrow> Inr (-1, ds))
      | (Some (Some k), ds) \<Rightarrow>
          (case param of DSIM_PixelType \<Rightarrow> on_image ds k (\<lambda>im. im\<lparr>pixtype := value\<rparr>)
           | DSIM_NAxes \<Rightarrow> if value < 0 \<or> value > int MAXDIM then Inr (-1, ds) else on_image ds k (\<lambda>im. im\<lparr>naxes := value\<rparr>)
           | DSIM_Axlen axis \<Rightarrow> on_image ds k (\<lambda>im. im\<lparr>axlen := (axlen im)[axis := value]\<rparr>)
           | DSIM_MaxKeywords \<Rightarrow> on_image ds k (\<lambda>im. im\<lparr>im_maxkeywords := value\<rparr>)
           | DSIM_Extend \<Rightarrow> on_image ds k (\<lambda>im. im\<lparr>im_extend := value\<rparr>)
           | _ \<Rightarrow> Inr (-1, ds)))"

definition dsim_SetStr :: "dsenv \<Rightarrow> DSImage \<Rightarrow> int \<Rightarrow> dsim_param \<Rightarrow> string \<Rightarrow> (int \<times> DSImage) res" where
  "dsim_SetStr e ds imno param value =
     (case set_target e ds imno of
        (None, ds) \<Rightarrow> Inr (-1, ds)
      | (Some tgt, ds) \<Rightarrow>
          (case param of
             DSIM_ImageNameFormat \<Rightarrow> if length value \<ge> 128 then Inl Buffer_Overflow else Inr (0, ds\<lparr>imformat := value\<rparr>)
           | DSIM_ObjectName \<Rightarrow> if length value \<ge> SZ_PATHNAME then Inl Buffer_Overflow
               else (case tgt of None \<Rightarrow> Inr (0, ds\<lparr>d_name := value\<rparr>) | Some k \<Rightarrow> on_image ds k (\<lambda>im. im\<lparr>im_name := value\<rparr>))
           | DSIM_ObjectType \<Rightarrow> if length value \<ge> SZ_PATHNAME then Inl Buffer_Overflow
               else (case tgt of None \<Rightarrow> Inr (0, ds\<lparr>d_type := value\<rparr>) | Some k \<Rightarrow> on_image ds k (\<lambda>im. im\<lparr>im_type := value\<rparr>))
           | _ \<Rightarrow> Inr (-1, ds)))"

text \<open>\<open>Inr None\<close> is a bad image number, \<open>Inr (Some None)\<close> the whole file.\<close>

definition get_target :: "DSImage \<Rightarrow> int \<Rightarrow> Image option option res" where
  "get_target ds imno =
     (if imno = 0 then Inr (Some None)
      else if imno < 1 \<or> imno > nimages ds \<or> imagelist ds = None then Inr None
      else bind_res (get_image ds (nat imno - 1)) (\<lambda>im. Inr (Some (Some im))))"

definition dsim_Get :: "DSImage \<Rightarrow> int \<Rightarrow> dsim_param \<Rightarrow> int res" where
  "dsim_Get ds imno param =
     bind_res (get_target ds imno) (\<lambda>tgt. case tgt of None \<Rightarrow> Inr (-1)
      | Some None \<Rightarrow> Inr (case param of DSIM_FileIndex \<Rightarrow> 0 | DSIM_NImages \<Rightarrow> nimages ds | DSIM_ByteSwapped \<Rightarrow> 0
          | DSIM_MaxKeywords \<Rightarrow> d_maxkeywords ds | DSIM_Extend \<Rightarrow> 0 | DSIM_FileDescriptor \<Rightarrow> d_fd ds
          | DSIM_FileAccessMode \<Rightarrow> d_mode ds | _ \<Rightarrow> -1)
      | Some (Some im) \<Rightarrow> Inr (case param of DSIM_ImageNumber \<Rightarrow> imagenumber im | DSIM_FileIndex \<Rightarrow> imno
          | DSIM_NImages \<Rightarrow> nimages ds | DSIM_PixelType \<Rightarrow> pixtype im | DSIM_PixelSize \<Rightarrow> pixsize im
          | DSIM_PixelConvert \<Rightarrow> (if encode im \<noteq> No_Conv then 1 else 0) | DSIM_ByteSwapped \<Rightarrow> 0 | DSIM_NAxes \<Rightarrow> naxes im
          | DSIM_Axlen axis \<Rightarrow> axlen im ! axis | DSIM_MaxKeywords \<Rightarrow> im_maxkeywords im | DSIM_Extend \<Rightarrow> im_extend im
          | DSIM_FileDescriptor \<Rightarrow> d_fd ds | DSIM_FileAccessMode \<Rightarrow> d_mode ds | _ \<Rightarrow> -1))"

definition dsim_GetStr :: "DSImage \<Rightarrow> int \<Rightarrow> dsim_param \<Rightarrow> string option res" where
  "dsim_GetStr ds imno param =
     bind_res (get_target ds imno) (\<lambda>tgt. Inr (case tgt of None \<Rightarrow> None
      | Some imo \<Rightarrow> (case param of DSIM_ImageNameFormat \<Rightarrow> Some (imformat ds)
          | DSIM_ObjectName \<Rightarrow> Some (case imo of None \<Rightarrow> d_name ds | Some im \<Rightarrow> im_name im)
          | DSIM_ObjectType \<Rightarrow> Some (case imo of None \<Rightarrow> d_type ds | Some im \<Rightarrow> im_type im)
          | _ \<Rightarrow> None)))"

text \<open>
  \<open>dsim_Locate\<close> advances \<open>ds\<close>, not \<open>im\<close>: after the first comparison the loop condition reads the
  number of images beyond the descriptor.
\<close>

definition dsim_Locate :: "DSImage \<Rightarrow> string \<Rightarrow> int res" where
  "dsim_Locate ds name =
     (if nimages ds \<le> 0 \<or> imagelist ds = None then Inr 0
      else bind_res (get_image ds 0) (\<lambda>im.
        if im_name im = name then Inr 1 else Inl Out_Of_Bounds))"

section \<open>Pixel regions\<close>

text \<open>
  \<open>nregions\<close> is the capacity of the table of regions; the table is \<open>iolist\<close>, at address
  \<open>io_base\<close> (0 is NULL), with \<open>None\<close> for an entry whose memory has never been set.  A region is
  referenced by the address of the table and its index: after \<open>realloc\<close> has moved the table, a
  reference to the old one dangles.  \<open>de_realloc\<close> is the address that \<open>malloc\<close> and \<open>realloc\<close>
  deliver for a table of so many regions.
\<close>

definition sv_in_bounds :: "int list \<Rightarrow> int list \<Rightarrow> Image \<Rightarrow> bool" where
  "sv_in_bounds sv nv im \<longleftrightarrow> list_all (\<lambda>i. \<not> (sv ! i < 0 \<or> i32 (sv ! i + nv ! i) > axlen im ! i)) [0..<nat (naxes im)]"

primrec strides :: "nat \<Rightarrow> int list \<Rightarrow> int \<Rightarrow> int list" where
  "strides 0 al s = []"
| "strides (Suc n) al s = s # strides n (tl al) (i32 (s * hd al))"

definition region :: "Image \<Rightarrow> nat \<Rightarrow> int \<Rightarrow> int list \<Rightarrow> int list \<Rightarrow> IORegion" where
  "region im k mode sv nv =
     \<lparr>io_image = Some k, io_mode = mode,
      io_sv = map (\<lambda>i. if int i < naxes im then sv ! i else 1) [0..<MAXDIM],
      io_nv = map (\<lambda>i. if int i < naxes im then nv ! i else 1) [0..<MAXDIM],
      io_stride = strides MAXDIM (axlen im) 1,
      io_pixsize = pixsize im, io_pixels = pixels im\<rparr>"

primrec first_unused :: "IORegion option list \<Rightarrow> nat \<Rightarrow> nat option res" where
  "first_unused [] n = Inr None"
| "first_unused (r # rs) n = (case r of None \<Rightarrow> Inl Uninitialised
     | Some rp \<Rightarrow> if io_image rp = None then Inr (Some n) else first_unused rs (n + 1))"

definition empty_region :: IORegion where
  "empty_region = \<lparr>io_image = None, io_mode = 0, io_sv = [], io_nv = [], io_stride = [], io_pixsize = 0, io_pixels = 0\<rparr>"

text \<open>
  Getting more regions: the new table and the index of its first new entry, or \<open>None\<close> where
  the routine returns NULL.  The entries up to \<open>nregions\<close> keep what the old table had, which is
  nothing when the table was lost by a \<open>realloc\<close> that failed.
\<close>

definition grow_regions :: "dsenv \<Rightarrow> DSImage \<Rightarrow> nat option \<times> DSImage" where
  "grow_regions e ds =
     (let n = nregions ds; n' = max 4 (n * 2); addr = de_realloc e n' in
      if addr = 0 then (None, ds\<lparr>iolist := [], io_base := 0\<rparr>)
      else (Some n, ds\<lparr>io_base := addr, nregions := n',
              iolist := take n (iolist ds @ replicate n None) @ replicate (n' - n) (Some empty_region)\<rparr>))"

text \<open>\<open>dsim_StartIO\<close> on a configured file: the reference to the region, \<open>None\<close> for NULL.\<close>

definition start_io :: "dsenv \<Rightarrow> DSImage \<Rightarrow> int \<Rightarrow> int \<Rightarrow> int list \<Rightarrow> int list \<Rightarrow> ((nat \<times> nat) option \<times> DSImage) res" where
  "start_io e ds imno mode sv nv =
     (if imno < 1 \<or> imno > nimages ds \<or> imagelist ds = None then Inr (None, ds)
      else bind_res (get_image ds (nat imno - 1)) (\<lambda>im.
        if length sv < nat (naxes im) \<or> length nv < nat (naxes im) then Inl Out_Of_Bounds
        else if \<not> sv_in_bounds sv nv im then Inr (None, ds)
        else bind_res (first_unused (iolist ds) 0) (\<lambda>u.
          case (case u of Some i \<Rightarrow> (Some i, ds) | None \<Rightarrow> grow_regions e ds) of
            (None, ds) \<Rightarrow> Inr (None, ds)
          | (Some i, ds) \<Rightarrow> Inr (Some (io_base ds, i),
              ds\<lparr>iolist := (iolist ds)[i := Some (region im (nat imno - 1) mode sv nv)]\<rparr>))))"

definition region_at :: "DSImage \<Rightarrow> nat \<times> nat \<Rightarrow> IORegion res" where
  "region_at ds io =
     (if fst io = 0 then Inl Null_Deref
      else if fst io \<noteq> io_base ds then Inl Use_After_Free
      else if snd io \<ge> length (iolist ds) then Inl Out_Of_Bounds
      else case iolist ds ! snd io of None \<Rightarrow> Inl Uninitialised | Some rp \<Rightarrow> Inr rp)"

definition dsim_FinishIO :: "DSImage \<Rightarrow> nat \<times> nat \<Rightarrow> (int \<times> DSImage) res" where
  "dsim_FinishIO ds io =
     bind_res (region_at ds io) (\<lambda>rp. Inr (0, ds\<lparr>iolist := (iolist ds)[snd io := Some (rp\<lparr>io_image := None\<rparr>)]\<rparr>))"

text \<open>The index arithmetic is that of \<open>int\<close>; the product is sign extended when it is added.\<close>

definition dsim_Pixel1D :: "IORegion \<Rightarrow> int \<Rightarrow> 64 word" where
  "dsim_Pixel1D rp i = io_pixels rp + word_of_int (i32 (i * io_pixsize rp))"

definition dsim_Pixel2D :: "IORegion \<Rightarrow> int \<Rightarrow> int \<Rightarrow> 64 word" where
  "dsim_Pixel2D rp i j =
     io_pixels rp + word_of_int (i32 (i32 (i32 (j * io_stride rp ! 1) + i) * io_pixsize rp))"

definition dsim_Pixel3D :: "IORegion \<Rightarrow> int \<Rightarrow> int \<Rightarrow> int \<Rightarrow> 64 word" where
  "dsim_Pixel3D rp i j k =
     io_pixels rp + word_of_int (i32 (i32 (i32 (i32 (k * io_stride rp ! 2) + i32 (j * io_stride rp ! 1)) + i) * io_pixsize rp))"

section \<open>Encoding pixels\<close>

text \<open>
  Pixel arrays are byte lists of \<open>datalen\<close> bytes; \<open>le\<close> says that the host is little-endian
  (\<open>host_swap2\<close>).  The output array is the result; \<open>out\<close> is what it held before, which is what
  an odd last byte keeps where it is not copied.  The arrays may be the same.
\<close>

fun bswap2 :: "8 word list \<Rightarrow> 8 word list" where
  "bswap2 (x # y # r) = y # x # bswap2 r"
| "bswap2 r = r"

definition get_short :: "bool \<Rightarrow> 8 word \<Rightarrow> 8 word \<Rightarrow> 16 word" where
  "get_short le x y = (if le then word_cat y x else word_cat x y)"

definition put_short :: "bool \<Rightarrow> 16 word \<Rightarrow> 8 word list" where
  "put_short le s = (let hi = ucast (drop_bit 8 s); lo = ucast s in if le then [lo, hi] else [hi, lo])"

fun map_shorts :: "bool \<Rightarrow> (16 word \<Rightarrow> 16 word) \<Rightarrow> 8 word list \<Rightarrow> 8 word list \<Rightarrow> 8 word list" where
  "map_shorts le f (x # y # r) out = put_short le (f (get_short le x y)) @ map_shorts le f r (drop 2 out)"
| "map_shorts le f r out = out"

definition host_swap2 :: "bool \<Rightarrow> int" where
  "host_swap2 le = (if le then 1 else 0)"

definition EncodeUShort :: "bool \<Rightarrow> 8 word list \<Rightarrow> 8 word list \<Rightarrow> int \<Rightarrow> 8 word list" where
  "EncodeUShort le inp out swapped =
     (let (inp, out) = (if swapped \<noteq> host_swap2 le then (bswap2 inp, bswap2 inp) else (inp, out));
          out = map_shorts le (\<lambda>s. s - 32768) inp out
      in if le then bswap2 out else out)"

definition DecodeUShort :: "bool \<Rightarrow> 8 word list \<Rightarrow> 8 word list \<Rightarrow> int \<Rightarrow> 8 word list" where
  "DecodeUShort le inp out swapped =
     (let (inp, out) = (if le then (bswap2 inp, bswap2 inp) else (inp, out));
          out = map_shorts le (\<lambda>s. s + 32768) inp out
      in if swapped \<noteq> host_swap2 le then bswap2 out else out)"

text \<open>
  \<open>EncodeInt\<close> stores in host order the number whose bytes are read most significant first,
  whatever \<open>swapped\<close> says.
\<close>

definition put_int :: "bool \<Rightarrow> 32 word \<Rightarrow> 8 word list" where
  "put_int le v = (let bs = map (\<lambda>k. ucast (drop_bit (8 * k) v)) [0, 1, 2, 3] in if le then bs else rev bs)"

fun EncodeInt :: "bool \<Rightarrow> 8 word list \<Rightarrow> 8 word list \<Rightarrow> int \<Rightarrow> 8 word list" where
  "EncodeInt le (a # b # c # d # r) out swapped =
     put_int le (push_bit 24 (ucast a) OR push_bit 16 (ucast b) OR push_bit 8 (ucast c) OR ucast d)
       @ EncodeInt le r (drop 4 out) swapped"
| "EncodeInt le r out swapped = out"

definition run_conv :: "conv \<Rightarrow> bool \<Rightarrow> bool \<Rightarrow> 8 word list \<Rightarrow> 8 word list \<Rightarrow> int \<Rightarrow> 8 word list" where
  "run_conv c dec le inp out swapped = (case c of No_Conv \<Rightarrow> out
     | Conv_UShort \<Rightarrow> if dec then DecodeUShort le inp out swapped else EncodeUShort le inp out swapped
     | Conv_Int \<Rightarrow> if dec then out else EncodeInt le inp out swapped)"

text \<open>
  \<open>dsim_EncodePixels\<close> and \<open>dsim_DecodePixels\<close> on a configured file: the status and the output array.
\<close>

definition encode_pixels :: "dsenv \<Rightarrow> DSImage \<Rightarrow> int \<Rightarrow> 8 word list \<Rightarrow> 8 word list \<Rightarrow> int \<Rightarrow> (int \<times> 8 word list) res" where
  "encode_pixels e ds imno inp out swapped =
     (if imno < 1 \<or> imno > nimages ds \<or> imagelist ds = None then Inr (-1, out)
      else bind_res (get_image ds (nat imno - 1)) (\<lambda>im.
        Inr (0, run_conv (encode im) False (de_little e) inp out swapped)))"

definition decode_pixels :: "dsenv \<Rightarrow> DSImage \<Rightarrow> int \<Rightarrow> 8 word list \<Rightarrow> 8 word list \<Rightarrow> int \<Rightarrow> (int \<times> 8 word list) res" where
  "decode_pixels e ds imno inp out swapped =
     (if imno < 1 \<or> imno > nimages ds \<or> imagelist ds = None then Inr (-1, out)
      else bind_res (get_image ds (nat imno - 1)) (\<lambda>im.
        Inr (0, run_conv (decode im) True (de_little e) inp out swapped)))"

end
