(* ===== verification/Dsim_File.thy ===== *)
theory Dsim_File
  imports Dsim
begin

text \<open>
  The file side of \<open>mosdca/dsim.c\<close>: the emulation of file access on the mapped image
  (\<open>ds_open\<close>, \<open>ds_read\<close>, ...), reading and writing headers, \<open>dsim_Configure\<close>, \<open>dsim_Sync\<close>,
  \<open>dsim_Close\<close>, and the operations that configure the file before they start.

  \<^item> The image is a byte string \<open>d_file\<close>, its file descriptor is at \<open>d_kpos\<close>.  A write to the
    file at a position either takes all its bytes or is refused (\<open>de_write\<close>).
  \<^item> \<open>fd = ds_open (...) < 0\<close> assigns the comparison: \<open>fd\<close> is 1 when no slot is free and 0
    otherwise, whichever slot was taken.
  \<^item> \<open>kwdb_WriteFITS\<close> writes one card at a time with \<open>ds_write\<close> and gives up at the first
    short write: the cards that it formats are passed to \<open>ds_write\<close> in turn.
\<close>

section \<open>The emulated files\<close>

definition mapped :: "DSImage \<Rightarrow> bool" where
  "mapped ds \<longleftrightarrow> configured ds \<noteq> 0 \<and> mmap_addr ds \<noteq> 0"

primrec free_slot :: "dsim_fio list \<Rightarrow> nat \<Rightarrow> nat option" where
  "free_slot [] n = None"
| "free_slot (f # fs) n = (if fio_dsim f = 0 then Some n else free_slot fs (n + 1))"

definition ds_open :: "dsworld \<Rightarrow> nat \<Rightarrow> int \<Rightarrow> int \<times> dsworld" where
  "ds_open w p mode = (case free_slot (fdtable w) 0 of None \<Rightarrow> (-1, w)
     | Some i \<Rightarrow> (int i, w\<lparr>fdtable := (fdtable w)[i := \<lparr>fio_dsim = p, fio_mode = mode, fio_pos = 0\<rparr>]\<rparr>))"

definition ds_close :: "dsworld \<Rightarrow> int \<Rightarrow> int \<times> dsworld" where
  "ds_close w fd = (if fd < 0 \<or> fd \<ge> int MAX_FD then (-1, w)
     else (0, w\<lparr>fdtable := (fdtable w)[nat fd := (fdtable w ! nat fd)\<lparr>fio_dsim := 0\<rparr>]\<rparr>))"

definition overwrite :: "int \<Rightarrow> string \<Rightarrow> string \<Rightarrow> string" where
  "overwrite pos bs content = (if bs = [] then content else poke (nat pos) bs (content @ replicate (nat pos + length bs - length content) NUL))"

definition set_pos :: "dsworld \<Rightarrow> nat \<Rightarrow> int \<Rightarrow> dsworld" where
  "set_pos w i pos = w\<lparr>fdtable := (fdtable w)[i := (fdtable w ! i)\<lparr>fio_pos := pos\<rparr>]\<rparr>"

definition ds_read :: "dsworld \<Rightarrow> int \<Rightarrow> int \<Rightarrow> (int \<times> string \<times> dsworld) res" where
  "ds_read w fd maxbytes =
     (if fd < 0 \<or> fd \<ge> int MAX_FD then Inr (-1, [], w)
      else let fp = fdtable w ! nat fd in
      bind_res (get_ds w (fio_dsim fp)) (\<lambda>ds.
        if \<not> mapped ds then
          let bs = take (nat maxbytes) (drop (nat (d_kpos ds)) (d_file ds)) in
          Inr (int (length bs), bs, put_ds w (fio_dsim fp) (ds\<lparr>d_kpos := d_kpos ds + int (length bs)\<rparr>))
        else if fio_pos fp < 0 \<or> fio_pos fp > filesize ds then Inr (-1, [], w)
        else let nbytes = min (filesize ds) (fio_pos fp + maxbytes) - fio_pos fp in
          Inr (nbytes, take (nat nbytes) (drop (nat (fio_pos fp)) (d_file ds) @ replicate (nat nbytes) NUL),
               set_pos w (nat fd) (fio_pos fp + nbytes))))"

definition ds_write :: "dsenv \<Rightarrow> dsworld \<Rightarrow> int \<Rightarrow> string \<Rightarrow> (int \<times> dsworld) res" where
  "ds_write e w fd bs =
     (if fd < 0 \<or> fd \<ge> int MAX_FD then Inr (-1, w)
      else let fp = fdtable w ! nat fd in
      bind_res (get_ds w (fio_dsim fp)) (\<lambda>ds.
        if \<not> mapped ds then
          if de_write e (d_kpos ds)
          then Inr (int (length bs), put_ds w (fio_dsim fp)
                 (ds\<lparr>d_file := overwrite (d_kpos ds) bs (d_file ds), d_kpos := d_kpos ds + int (length bs)\<rparr>))
          else Inr (-1, w)
        else if fio_pos fp < 0 \<or> fio_pos fp > filesize ds then Inr (-1, w)
        else let nbytes = min (filesize ds) (fio_pos fp + int (length bs)) - fio_pos fp in
          Inr (nbytes, set_pos (put_ds w (fio_dsim fp)
                 (ds\<lparr>d_file := overwrite (fio_pos fp) (take (nat nbytes) bs) (d_file ds)\<rparr>)) (nat fd) (fio_pos fp + nbytes))))"

text \<open>\<open>ds_lseek\<close> with \<open>SEEK_SET\<close>; the result is an \<open>int\<close>.\<close>

definition ds_lseek :: "dsworld \<Rightarrow> int \<Rightarrow> int \<Rightarrow> (int \<times> dsworld) res" where
  "ds_lseek w fd offset =
     (if fd < 0 \<or> fd \<ge> int MAX_FD then Inr (-1, w)
      else let fp = fdtable w ! nat fd in
      bind_res (get_ds w (fio_dsim fp)) (\<lambda>ds.
        if \<not> mapped ds then
          if offset < 0 then Inr (-1, w) else Inr (i32 offset, put_ds w (fio_dsim fp) (ds\<lparr>d_kpos := offset\<rparr>))
        else Inr (i32 offset, set_pos w (nat fd) offset)))"

text \<open>The chunks that successive reads of a card deliver, up to the first that is not 80 bytes long.\<close>

primrec ds_chunks :: "nat \<Rightarrow> dsworld \<Rightarrow> int \<Rightarrow> string list res" where
  "ds_chunks 0 w fd = Inr []"
| "ds_chunks (Suc n) w fd = bind_res (ds_read w fd CARDLEN) (\<lambda>(r, bs, w).
     if r \<noteq> CARDLEN then Inr []
     else bind_res (ds_chunks n w fd) (\<lambda>rest. Inr (bs # rest)))"

primrec write_list :: "dsenv \<Rightarrow> dsworld \<Rightarrow> int \<Rightarrow> string list \<Rightarrow> (bool \<times> dsworld) res" where
  "write_list e w fd [] = Inr (True, w)"
| "write_list e w fd (c # rest) = bind_res (ds_write e w fd c) (\<lambda>(n, w).
     if n \<noteq> CARDLEN then Inr (False, w) else write_list e w fd rest)"

section \<open>Headers\<close>

text \<open>
  The code of \<open>dsim_ReadHeader\<close> and \<open>dsim_WriteHeader\<close> after the file has been configured, or
  while it is.  \<open>None\<close> is a null pointer.
\<close>

definition header_place :: "DSImage \<Rightarrow> int \<Rightarrow> (string \<times> int) option res" where
  "header_place ds imno =
     (if imno = 0 then Inr (Some (d_name ds, 0))
      else if imno < 1 \<or> imno > nimages ds \<or> imagelist ds = None then Inr None
      else bind_res (get_image ds (nat imno - 1)) (\<lambda>im. Inr (Some (im_name im, im_hdr_offset im))))"

definition read_header :: "dsenv \<Rightarrow> dsworld \<Rightarrow> nat \<Rightarrow> int \<Rightarrow> int \<Rightarrow> (kwdb option \<times> dsworld) res" where
  "read_header e w p imno maxentries =
     bind_res (get_ds w p) (\<lambda>ds.
     bind_res (header_place ds imno) (\<lambda>pl. case pl of None \<Rightarrow> Inr (None, w) | Some (name, offset) \<Rightarrow>
     bind_res (kwdb_Open (de_ma e) name) (\<lambda>o_db. case o_db of None \<Rightarrow> Inr (None, w) | Some kwdb \<Rightarrow>
       let (slot, w) = ds_open w p 0; fd = (if slot < 0 then 1 else 0) in
       if fd \<noteq> 0 then Inr (None, w)
       else bind_res (ds_lseek w fd offset) (\<lambda>(r, w).
         if r < 0 then Inr (None, w)
         else bind_res (ds_chunks (length (d_file ds) + nat (filesize ds)) w fd) (\<lambda>input.
           bind_res (kwdb_ReadFITS (de_ma e) kwdb input maxentries) (\<lambda>(n, nblank, kwdb).
             let w = snd (ds_close w fd) in Inr (if n < 0 then None else Some kwdb, w)))))))"

text \<open>Deleting from \<open>kwdb\<close> the keywords of \<open>rskw\<close>, entry by entry.\<close>

definition delete_keyword :: "kwdb \<Rightarrow> string \<Rightarrow> kwdb res" where
  "delete_keyword kwdb name = bind_res (kwdb_Lookup kwdb name 0) (\<lambda>xp.
     if xp \<noteq> 0 then bind_res (kwdb_DeleteEntry kwdb xp) (\<lambda>(_, kwdb). Inr kwdb) else Inr kwdb)"

primrec delete_reserved :: "nat \<Rightarrow> kwdb \<Rightarrow> int \<Rightarrow> kwdb \<Rightarrow> kwdb res" where
  "delete_reserved 0 rskw ep kwdb = (if ep = 0 then Inr kwdb else Inl Diverges)"
| "delete_reserved (Suc n) rskw ep kwdb =
     (if ep = 0 then Inr kwdb
      else case kwdb_KWName rskw ep of None \<Rightarrow> Inl Null_Deref
      | Some name \<Rightarrow> bind_res (delete_keyword kwdb name) (\<lambda>kwdb.
          delete_reserved n rskw (kwdb_Next rskw ep) kwdb))"

definition blank_card :: string where
  "blank_card = replicate 80 (CHR '' '')"

text \<open>
  What follows the positioning: the cards, blank cards up to the capacity, the END card.  The
  status, and whether the routine goes on to \<open>done\<close> (a short write of the fill returns at once).
\<close>

definition write_cards_at :: "dsenv \<Rightarrow> dsworld \<Rightarrow> int \<Rightarrow> int \<Rightarrow> int \<Rightarrow> kwdb \<Rightarrow> (int \<times> bool \<times> dsworld) res" where
  "write_cards_at e w fd nreserved maxcards kwdb =
     (if nreserved + kwdb_Len kwdb + 1 > maxcards then Inr (-1, True, w)
      else bind_res (kwdb_WriteFITS (\<lambda>_. True) kwdb) (\<lambda>(ncards, cards).
        bind_res (write_list e w fd cards) (\<lambda>(ok, w).
        if \<not> ok \<or> ncards < 0 then Inr (-1, True, w)
        else bind_res (write_list e w fd (replicate (nat (maxcards - (nreserved + ncards + 1))) blank_card @ [end_card]))
          (\<lambda>(ok, w). if ok then Inr (0, True, w) else Inr (-1, False, w)))))"

definition write_header :: "dsenv \<Rightarrow> dsworld \<Rightarrow> nat \<Rightarrow> int \<Rightarrow> kwdb \<Rightarrow> (int \<times> kwdb \<times> dsworld) res" where
  "write_header e w p imno kwdb =
     bind_res (get_ds w p) (\<lambda>ds.
     if imno \<noteq> 0 \<and> (imno < 1 \<or> imno > nimages ds \<or> imagelist ds = None) then Inr (-1, kwdb, w)
     else bind_res (if imno = 0 then Inr (d_hdr_offset ds, d_maxkeywords ds, d_nreserved ds)
         else bind_res (get_image ds (nat imno - 1)) (\<lambda>im. Inr (im_hdr_offset im, im_maxkeywords im, im_nreserved im)))
       (\<lambda>(offset, maxcards, nreserved).
     bind_res (read_header e w p imno nreserved) (\<lambda>(rskw, w). case rskw of None \<Rightarrow> Inr (-1, kwdb, w)
     | Some rskw \<Rightarrow>
     bind_res (delete_reserved (maxitems rskw) rskw (kwdb_Head rskw) kwdb) (\<lambda>kwdb.
     bind_res (delete_keyword kwdb ''END'') (\<lambda>kwdb.
       let (slot, w) = ds_open w p 2; fd = (if slot < 0 then 1 else 0) in
       if fd \<noteq> 0 then Inr (-1, kwdb, snd (ds_close w fd))
       else bind_res (ds_lseek w fd (offset + i32 (nreserved * CARDLEN))) (\<lambda>(r, w).
         if r < 0 then Inr (-1, kwdb, snd (ds_close w fd))
         else bind_res (write_cards_at e w fd nreserved maxcards kwdb) (\<lambda>(status, fin, w).
           Inr (status, kwdb, if fin then snd (ds_close w fd) else w))))))))"

section \<open>The layout of the file\<close>

text \<open>Rounding up to whole blocks, in \<open>int\<close>, and the capacity of a header in keywords.\<close>

definition round_blocks :: "int \<Rightarrow> int" where
  "round_blocks n = i32 (cdiv (i32 (n + BLKLEN - 1)) BLKLEN * BLKLEN)"

definition header_capacity :: "int \<Rightarrow> int" where
  "header_capacity n = cdiv (round_blocks (i32 (n * CARDLEN))) CARDLEN"

definition PixelSize :: "int \<Rightarrow> int" where
  "PixelSize t = (if t = 1 \<or> t = 2 then 1 else if t = 3 \<or> t = 4 then 2 else if t = 5 then 4
     else if t = 6 then 8 else if t = 7 then 4 else if t = 8 then 8 else 0)"

text \<open>The global header: the geometry of the file before any image is placed.\<close>

definition place_global :: "DSImage \<Rightarrow> DSImage" where
  "place_global ds =
     (let n = header_capacity (if d_maxkeywords ds = 0 then DEF_MAXKEYWORDS else d_maxkeywords ds)
      in ds\<lparr>d_maxkeywords := n, d_hdr_offset := 0, hdr_length := i32 (n * CARDLEN), filesize := i32 (n * CARDLEN)\<rparr>)"

text \<open>An image is placed at \<open>start\<close>: its header, then its pixels and the area after them.\<close>

definition place_header :: "int \<Rightarrow> int \<Rightarrow> Image \<Rightarrow> Image" where
  "place_header dmax start im =
     (let n = header_capacity (if im_maxkeywords im = 0 then dmax else im_maxkeywords im)
      in im\<lparr>im_maxkeywords := n, im_hdr_offset := start, pix_offset := start + i32 (n * CARDLEN),
           axlen := take (nat (naxes im)) (axlen im) @ replicate (MAXDIM - nat (naxes im)) 1\<rparr>)"

definition num_pixels :: "Image \<Rightarrow> int" where
  "num_pixels im = (if naxes im = 0 then 0 else fold (\<lambda>n a. i32 (a * n)) (take (nat (naxes im) - 1) (tl (axlen im))) (hd (axlen im)))"

definition pixel_bytes :: "Image \<Rightarrow> int" where
  "pixel_bytes im = i32 (cdiv (i32 (i32 (num_pixels im * pixsize im) + BLKLEN - 1)) BLKLEN * BLKLEN)"

definition place_pixels :: "Image \<Rightarrow> Image \<times> int" where
  "place_pixels im =
     (let im = im\<lparr>pixsize := PixelSize (pixtype im)\<rparr>;
          ext = cdiv (im_extend im + BLKLEN - 1) BLKLEN * BLKLEN;
          fs = pix_offset im + pixel_bytes im + ext
      in (im\<lparr>im_extend := ext, extnsize := fs - im_hdr_offset im\<rparr>, fs))"

text \<open>
  \<open>sprintf (buf, format, n)\<close> for directives \<open>%%\<close>, \<open>%d\<close>, and \<open>%d\<close> with a width and zero padding;
  \<open>dirv\<close> is the part of a directive already read.  Any other directive, and a second use of the
  argument, is not defined.
\<close>

definition pad_int :: "string \<Rightarrow> int \<Rightarrow> string" where
  "pad_int dirv n =
     (let t = show_int n; w = digits_value 0 dirv in
      if dirv \<noteq> [] \<and> hd dirv = CHR ''0''
      then (if n < 0 then ''-'' @ replicate (w - length t) (CHR ''0'') @ tl t else replicate (w - length t) (CHR ''0'') @ t)
      else replicate (w - length t) (CHR '' '') @ t)"

primrec format_int :: "string \<Rightarrow> string option \<Rightarrow> int option \<Rightarrow> string res" where
  "format_int [] dirv a = (case dirv of None \<Rightarrow> Inr [] | Some _ \<Rightarrow> Inl Uninitialised)"
| "format_int (c # s) dirv a =
     (case dirv of
        None \<Rightarrow> if c = CHR ''%'' then format_int s (Some []) a
                else bind_res (format_int s None a) (\<lambda>t. Inr (c # t))
      | Some ds \<Rightarrow>
          if c = CHR ''%'' \<and> ds = [] then bind_res (format_int s None a) (\<lambda>t. Inr (c # t))
          else if isdigit c then format_int s (Some (ds @ [c])) a
          else if c = CHR ''d'' then
            (case a of None \<Rightarrow> Inl Uninitialised
             | Some n \<Rightarrow> bind_res (format_int s None None) (\<lambda>t. Inr (pad_int ds n @ t)))
          else Inl Uninitialised)"

text \<open>The type and the name of an extension; \<open>nim\<close> counts the images so far.\<close>

definition name_image :: "string \<Rightarrow> int \<Rightarrow> int \<Rightarrow> Image \<Rightarrow> (Image \<times> int) res" where
  "name_image fmt number nim im =
     (let im = (if im_type im = [] then im\<lparr>im_type := ''IMAGE''\<rparr> else im) in
      bind_res (if im_type im = ''IMAGE'' then bind_res (format_int fmt None (Some (nim + 1)))
          (\<lambda>buf. Inr (buf, im\<lparr>imagenumber := nim + 1\<rparr>, nim + 1))
        else Inr (''extn'' @ show_int number, im, nim)) (\<lambda>(buf, im, nim).
      if length buf \<ge> 128 then Inl Buffer_Overflow
      else Inr (if im_name im = [] then im\<lparr>im_name := buf\<rparr> else im, nim)))"

section \<open>Reserved keywords\<close>

type_synonym card_text = "string \<times> string \<times> string \<times> string"

primrec add_cards :: "(nat \<Rightarrow> bool) \<Rightarrow> kwdb \<Rightarrow> card_text list \<Rightarrow> kwdb res" where
  "add_cards ma db [] = Inr db"
| "add_cards ma db (c # rest) = (case c of (k, v, t, com) \<Rightarrow>
     bind_res (kwdb_AddEntry ma db (Some k) (Some v) (Some t) (Some com)) (\<lambda>(_, db). add_cards ma db rest))"

definition phu_cards :: "DSImage \<Rightarrow> card_text list" where
  "phu_cards ds =
     [(''SIMPLE'', ''T'', ''L'', ''File conforms to FITS standard''),
      (''BITPIX'', ''8'', ''N'', ''Bits per pixel (not used)''),
      (''NAXIS'', ''0'', ''N'', ''PHU contains no image matrix''),
      (''EXTEND'', ''T'', ''L'', ''File contains extensions''),
      (''NEXTEND'', show_int (nimages ds), ''N'', ''Number of extensions''),
      (''FILENAME'', d_name ds, ''S'', ''Original host filename'')]"

definition ehu_cards :: "Image \<Rightarrow> card_text list" where
  "ehu_cards im =
     [(''XTENSION'', im_type im, ''S'', ''Extension type''),
      (''BITPIX'', show_int (i32 (pixsize im * 8)), ''N'', ''Bits per pixel''),
      (''NAXIS'', show_int (naxes im), ''N'', ''Number of image axes'')]
     @ map (\<lambda>i. (''NAXIS'' @ show_nat i, show_int (axlen im ! (i - 1)), ''N'', ''Length of axis '' @ show_nat i))
         [1..<nat (naxes im) + 1]
     @ (if pixtype im = DSO_USHORT then
          [(''BSCALE'', ''1'', ''N'', ''Scale factor for unsigned short''),
           (''BZERO'', ''32768'', ''N'', ''Zero shift for unsigned short'')] else [])
     @ [(''PCOUNT'', show_int (i32 (im_extend im)), ''N'', ''Number of bytes following image matrix''),
        (''GCOUNT'', ''1'', ''N'', ''Number of groups''),
        (''EXTNAME'', im_name im, ''S'', ''Extension name'')]"

definition set_conv :: "Image \<Rightarrow> Image" where
  "set_conv im =
     (if pixtype im = DSO_INT then im\<lparr>encode := Conv_Int, decode := No_Conv\<rparr>
      else if pixtype im = DSO_USHORT then im\<lparr>encode := Conv_UShort, decode := Conv_UShort\<rparr>
      else im\<lparr>encode := No_Conv, decode := No_Conv\<rparr>)"

section \<open>Configuring\<close>

text \<open>A header with its reserved keywords: the number of them, or \<open>None\<close> on failure.\<close>

definition reserved_header ::
    "dsenv \<Rightarrow> dsworld \<Rightarrow> nat \<Rightarrow> int \<Rightarrow> string \<Rightarrow> card_text list \<Rightarrow> (int option \<times> dsworld) res" where
  "reserved_header e w p imno name cards =
     bind_res (kwdb_Open (de_ma e) name) (\<lambda>o_db. case o_db of None \<Rightarrow> Inr (None, w) | Some kwdb \<Rightarrow>
       bind_res (add_cards (de_ma e) kwdb cards) (\<lambda>kwdb.
       bind_res (write_header e w p imno kwdb) (\<lambda>(r, kwdb, w).
         Inr (if r < 0 then None else Some (kwdb_Len kwdb), w))))"

definition upd_image :: "dsworld \<Rightarrow> nat \<Rightarrow> nat \<Rightarrow> (DSImage \<Rightarrow> Image \<Rightarrow> Image) \<Rightarrow> dsworld res" where
  "upd_image w p k f = bind_res (get_ds w p) (\<lambda>ds. bind_res (get_image ds k) (\<lambda>im.
     Inr (put_ds w p (put_image ds k (f ds im)))))"

text \<open>One round of the loop over the images; \<open>None\<close> is the jump to \<open>done\<close>.\<close>

definition conf_image :: "dsenv \<Rightarrow> dsworld \<Rightarrow> nat \<Rightarrow> nat \<Rightarrow> int \<Rightarrow> (int option \<times> dsworld) res" where
  "conf_image e w p k nim =
     bind_res (get_ds w p) (\<lambda>ds.
     bind_res (get_image ds k) (\<lambda>im.
     bind_res (name_image (imformat ds) (int k + 1) nim im) (\<lambda>(im, nim).
       let im = place_header (d_maxkeywords ds) (filesize ds) im;
           ds = (put_image ds k im)\<lparr>filesize := pix_offset im\<rparr> in
       if naxes im \<noteq> 0 \<and> pixtype im = 0 then Inr (None, put_ds w p ds)
       else
         let (im, fs) = place_pixels im; w = put_ds w p ((put_image ds k im)\<lparr>filesize := fs\<rparr>) in
         bind_res (reserved_header e w p (int k + 1) ''EHU'' (ehu_cards im)) (\<lambda>(r, w).
           case r of None \<Rightarrow> Inr (None, w)
           | Some n \<Rightarrow> bind_res (upd_image w p k (\<lambda>ds im. set_conv (im\<lparr>im_nreserved := n\<rparr>)))
               (\<lambda>w. Inr (Some nim, w))))))"

primrec conf_images :: "nat \<Rightarrow> dsenv \<Rightarrow> dsworld \<Rightarrow> nat \<Rightarrow> nat \<Rightarrow> int \<Rightarrow> (bool \<times> dsworld) res" where
  "conf_images 0 e w p k nim = Inr (True, w)"
| "conf_images (Suc n) e w p k nim = bind_res (conf_image e w p k nim) (\<lambda>(r, w).
     case r of None \<Rightarrow> Inr (False, w) | Some nim \<Rightarrow> conf_images n e w p (k + 1) nim)"

text \<open>The code from the label \<open>mapfile\<close>.  Only -1 is taken as a failure of \<open>vm_cacheregion\<close>.\<close>

definition map_file :: "dsenv \<Rightarrow> dsworld \<Rightarrow> nat \<Rightarrow> (int \<times> dsworld) res" where
  "map_file e w p =
     bind_res (get_ds w p) (\<lambda>ds.
     bind_res (vm_cacheregion (de_os e) (w_vm w) (d_fd ds) 0 (word_of_int (filesize ds))
         (if d_mode ds = DSO_RDONLY then VM_READONLY else VM_READWRITE) 0) (\<lambda>(addr, vm).
       let w = w\<lparr>w_vm := vm\<rparr> in
       if addr = -1 then Inr (-1, w)
       else let ds = ds\<lparr>mmap_addr := addr, mmap_len := filesize ds\<rparr> in
         if nimages ds > 0 \<and> (case imagelist ds of None \<Rightarrow> True | Some ims \<Rightarrow> length ims < nat (nimages ds))
         then Inl Out_Of_Bounds
         else Inr (0, put_ds w p (ds\<lparr>
           imagelist := map_option (\<lambda>ims. map (\<lambda>im. im\<lparr>pixels := addr + word_of_int (pix_offset im)\<rparr>)
                (take (nat (nimages ds)) ims) @ drop (nat (nimages ds)) ims) (imagelist ds),
           configured := configured ds + 1, configuring := 0\<rparr>))))"

text \<open>Setting the size of the file: a byte at its end.\<close>

definition set_file_size :: "dsenv \<Rightarrow> dsworld \<Rightarrow> nat \<Rightarrow> (bool \<times> dsworld) res" where
  "set_file_size e w p =
     bind_res (get_ds w p) (\<lambda>ds.
     if filesize ds - 1 < 0 \<or> \<not> de_write e (filesize ds - 1) then Inr (False, w)
     else Inr (True, put_ds w p (ds\<lparr>d_file := overwrite (filesize ds - 1) [NUL] (d_file ds), d_kpos := filesize ds\<rparr>)))"

text \<open>Writing the file of a geometry whose global part is known, and mapping it.\<close>

definition write_file :: "dsenv \<Rightarrow> dsworld \<Rightarrow> nat \<Rightarrow> DSImage \<Rightarrow> (int \<times> dsworld) res" where
  "write_file e w p ds =
     bind_res (reserved_header e w p 0 ''PHU'' (phu_cards ds)) (\<lambda>(r, w).
     case r of None \<Rightarrow> Inr (-1, w)
     | Some n \<Rightarrow>
       bind_res (get_ds w p) (\<lambda>ds. let w = put_ds w p (ds\<lparr>d_nreserved := n\<rparr>) in
       bind_res (conf_images (nat (nimages ds)) e w p 0 0) (\<lambda>(ok, w).
       if \<not> ok then Inr (-1, w)
       else bind_res (set_file_size e w p) (\<lambda>(ok, w).
         if ok then map_file e w p else Inr (-1, w)))))"

text \<open>
  \<open>dsim_Configure\<close>.  A file of no image is left in configuration.  \<open>kwdb\<close> has not been set when
  a file is mapped that is not being created.
\<close>

definition dsim_Configure :: "dsenv \<Rightarrow> dsworld \<Rightarrow> nat \<Rightarrow> (int \<times> dsworld) res" where
  "dsim_Configure e w p =
     bind_res (get_ds w p) (\<lambda>ds.
     if configured ds \<noteq> 0 then Inr (0, w)
     else
       let ds = ds\<lparr>configuring := configuring ds + 1\<rparr> in
       if d_mode ds \<noteq> DSO_CREATE then Inl Uninitialised
       else
         let ds = place_global ds; w = put_ds w p ds in
         if nimages ds = 0 then Inr (0, w) else write_file e w p ds)"

section \<open>The operations of the interface\<close>

text \<open>Configuring first where it has not been done; \<open>b\<close> also lets a configuration in progress pass.\<close>

definition ensure_configured :: "dsenv \<Rightarrow> bool \<Rightarrow> dsworld \<Rightarrow> nat \<Rightarrow> (bool \<times> dsworld) res" where
  "ensure_configured e b w p =
     bind_res (get_ds w p) (\<lambda>ds.
     if configured ds \<noteq> 0 \<or> (b \<and> configuring ds \<noteq> 0) then Inr (True, w)
     else bind_res (dsim_Configure e w p) (\<lambda>(r, w). Inr (r \<ge> 0, w)))"

definition dsim_ReadHeader :: "dsenv \<Rightarrow> dsworld \<Rightarrow> nat \<Rightarrow> int \<Rightarrow> int \<Rightarrow> (kwdb option \<times> dsworld) res" where
  "dsim_ReadHeader e w p imno maxentries =
     bind_res (ensure_configured e True w p) (\<lambda>(ok, w).
       if ok then read_header e w p imno maxentries else Inr (None, w))"

definition dsim_WriteHeader :: "dsenv \<Rightarrow> dsworld \<Rightarrow> nat \<Rightarrow> int \<Rightarrow> kwdb \<Rightarrow> (int \<times> kwdb \<times> dsworld) res" where
  "dsim_WriteHeader e w p imno kwdb =
     bind_res (ensure_configured e True w p) (\<lambda>(ok, w).
       if ok then write_header e w p imno kwdb else Inr (-1, kwdb, w))"

definition dsim_StartIO ::
    "dsenv \<Rightarrow> dsworld \<Rightarrow> nat \<Rightarrow> int \<Rightarrow> int \<Rightarrow> int list \<Rightarrow> int list \<Rightarrow> ((nat \<times> nat) option \<times> dsworld) res" where
  "dsim_StartIO e w p imno mode sv nv =
     bind_res (ensure_configured e False w p) (\<lambda>(ok, w).
       if \<not> ok then Inr (None, w)
       else bind_res (get_ds w p) (\<lambda>ds. bind_res (start_io e ds imno mode sv nv) (\<lambda>(io, ds). Inr (io, put_ds w p ds))))"

definition dsim_EncodePixels ::
    "dsenv \<Rightarrow> dsworld \<Rightarrow> nat \<Rightarrow> int \<Rightarrow> 8 word list \<Rightarrow> 8 word list \<Rightarrow> int \<Rightarrow> (int \<times> 8 word list \<times> dsworld) res" where
  "dsim_EncodePixels e w p imno inp out swapped =
     bind_res (ensure_configured e False w p) (\<lambda>(ok, w).
       if \<not> ok then Inr (-1, out, w)
       else bind_res (get_ds w p) (\<lambda>ds. bind_res (encode_pixels e ds imno inp out swapped) (\<lambda>(r, out). Inr (r, out, w))))"

definition dsim_DecodePixels ::
    "dsenv \<Rightarrow> dsworld \<Rightarrow> nat \<Rightarrow> int \<Rightarrow> 8 word list \<Rightarrow> 8 word list \<Rightarrow> int \<Rightarrow> (int \<times> 8 word list \<times> dsworld) res" where
  "dsim_DecodePixels e w p imno inp out swapped =
     bind_res (ensure_configured e False w p) (\<lambda>(ok, w).
       if \<not> ok then Inr (-1, out, w)
       else bind_res (get_ds w p) (\<lambda>ds. bind_res (decode_pixels e ds imno inp out swapped) (\<lambda>(r, out). Inr (r, out, w))))"

definition dsim_Sync :: "dsenv \<Rightarrow> dsworld \<Rightarrow> nat \<Rightarrow> bool \<Rightarrow> (int \<times> dsworld) res" where
  "dsim_Sync e w p async =
     bind_res (get_ds w p) (\<lambda>ds.
     if mmap_addr ds = 0 then Inr (0, w)
     else bind_res (vm_sync (de_os e) (w_vm w) (d_fd ds) 0 (word_of_int (mmap_len ds)) (if async then VM_ASYNC else 0))
       (\<lambda>(r, vm). Inr (r, w\<lparr>w_vm := vm\<rparr>)))"

definition dsim_Close :: "dsenv \<Rightarrow> dsworld \<Rightarrow> nat \<Rightarrow> (int \<times> dsworld) res" where
  "dsim_Close e w p =
     bind_res (get_ds w p) (\<lambda>ds.
     bind_res (if mmap_addr ds = 0 then Inr (0, w)
       else bind_res (vm_sync (de_os e) (w_vm w) (d_fd ds) 0 (word_of_int (mmap_len ds)) 0) (\<lambda>(r1, vm).
            bind_res (vm_uncacheregion (de_os e) vm (d_fd ds) 0 (word_of_int (mmap_len ds)) 0) (\<lambda>(r2, vm).
            Inr (if r1 < 0 \<or> r2 < 0 then -1 else 0, w\<lparr>w_vm := vm\<rparr>)))) (\<lambda>(status, w).
     Inr (if d_fd ds \<noteq> 0 \<and> \<not> de_close e (d_fd ds) then -1 else status,
          w\<lparr>dsims := (dsims w)(p := None)\<rparr>)))"

end
