(* ===== verification/Dsim_Props.thy ===== *)
theory Dsim_Props
  imports Dsim
begin

text \<open>
  Correctness of the pixel side of \<open>mosdca/dsim.c\<close>: the addresses of the pixels of a region,
  the life of the region descriptors, the encoding of pixels, and the search by name.
\<close>

section \<open>Arithmetic of int\<close>

lemma i32_id [simp]: "- (2 ^ 31) \<le> n \<Longrightarrow> n < 2 ^ 31 \<Longrightarrow> i32 n = n"
  by (simp add: i32_def)

lemma i32_range: "- (2 ^ 31) \<le> i32 n" "i32 n < 2 ^ 31"
proof -
  have "0 \<le> (n + 2 ^ 31) mod 2 ^ 32" "(n + 2 ^ 31) mod 2 ^ 32 < (2::int) ^ 32" by simp_all
  then show "- (2 ^ 31) \<le> i32 n" "i32 n < 2 ^ 31" by (simp_all add: i32_def)
qed

section \<open>Encoding\<close>

lemma length_bswap2 [simp]: "length (bswap2 xs) = length xs"
  by (induction xs rule: bswap2.induct) auto

lemma bswap2_bswap2 [simp]: "bswap2 (bswap2 xs) = xs"
  by (induction xs rule: bswap2.induct) auto

lemma put_short_bytes: "\<exists>a b. put_short le s = [a, b] \<and> get_short le a b = s"
proof -
  have "word_cat (ucast (drop_bit 8 s) :: 8 word) (ucast s :: 8 word) = s" for s :: "16 word"
    by (rule bit_word_eqI) (auto simp: bit_simps)
  then show ?thesis by (auto simp: put_short_def get_short_def Let_def)
qed

lemma put_get_short: "put_short le (get_short le x y) = [x, y]"
proof -
  have "ucast (drop_bit 8 (word_cat a b :: 16 word)) = a" "ucast (word_cat a b :: 16 word) = b" for a b :: "8 word"
    by (rule bit_word_eqI, auto simp: bit_simps)+
  then show ?thesis by (auto simp: put_short_def get_short_def Let_def)
qed

lemma map_shorts_map_shorts:
  assumes "even (length xs)" "length out = length xs" "length out' = length xs"
  shows "map_shorts le f (map_shorts le g xs out) out' = map_shorts le (\<lambda>s. f (g s)) xs out'"
  using assms
proof (induction le g xs out arbitrary: out' rule: map_shorts.induct)
  case (1 le g x y r out)
  obtain a b where ab: "put_short le (g (get_short le x y)) = [a, b]" "get_short le a b = g (get_short le x y)"
    using put_short_bytes by blast
  have "map_shorts le f (map_shorts le g r (drop 2 out)) (drop 2 out') = map_shorts le (\<lambda>s. f (g s)) r (drop 2 out')"
    using 1(1) [of "drop 2 out'"] 1(2-4) by simp
  then show ?case by (simp add: ab)
qed auto

lemma map_shorts_id: "even (length xs) \<Longrightarrow> length out = length xs \<Longrightarrow> map_shorts le (\<lambda>s. s) xs out = xs"
  by (induction le "\<lambda>s :: 16 word. s" xs out rule: map_shorts.induct) (auto simp: put_get_short)

lemma length_map_shorts [simp]:
  "even (length xs) \<Longrightarrow> length out = length xs \<Longrightarrow> length (map_shorts le f xs out) = length xs"
  by (induction le f xs out rule: map_shorts.induct) (auto simp: put_short_def Let_def)

lemma put_short_not: "put_short (\<not> le) s = rev (put_short le s)"
  by (simp add: put_short_def Let_def)

lemma get_short_not: "get_short (\<not> le) x y = get_short le y x"
  by (simp add: get_short_def)

text \<open>Exchanging the bytes of the pixels before or after is reading or writing in the other order.\<close>

lemma bswap2_map_shorts:
  assumes "even (length xs)" "length out = length xs" "length out' = length xs"
  shows "bswap2 (map_shorts le f xs out) = map_shorts (\<not> le) f (bswap2 xs) out'"
  using assms
proof (induction le f xs out arbitrary: out' rule: map_shorts.induct)
  case (1 le f x y r out)
  obtain a b where ab: "put_short le (f (get_short le x y)) = [a, b]" using put_short_bytes by blast
  have "bswap2 (map_shorts le f r (drop 2 out)) = map_shorts (\<not> le) f (bswap2 r) (drop 2 out')"
    using 1(1) [of "drop 2 out'"] 1(2-4) by simp
  moreover have "put_short (\<not> le) (f (get_short (\<not> le) y x)) = [b, a]"
    by (simp add: put_short_not get_short_not ab)
  ultimately show ?case by (simp add: ab)
qed auto

text \<open>The pixel values that a byte array holds, read least significant byte first or last.\<close>

fun ushorts :: "bool \<Rightarrow> 8 word list \<Rightarrow> 16 word list" where
  "ushorts le (x # y # r) = get_short le x y # ushorts le r"
| "ushorts le r = []"

lemma ushorts_not: "ushorts (\<not> le) xs = ushorts le (bswap2 xs)"
  by (induction le xs rule: ushorts.induct) (auto simp: get_short_not)

lemma map_shorts_ushorts:
  "even (length xs) \<Longrightarrow> length out = length xs \<Longrightarrow>
   map_shorts le f xs out = concat (map (\<lambda>s. put_short le (f s)) (ushorts le xs))"
  by (induction le f xs out rule: map_shorts.induct) auto

lemma EncodeUShort_eq:
  assumes "even (length inp)" "length out = length inp"
  shows "EncodeUShort le inp out (host_swap2 little)
    = map_shorts False (\<lambda>s. s - 32768) (if little then bswap2 inp else inp) out"
  using assms bswap2_map_shorts [of inp out out True] bswap2_map_shorts [of "bswap2 inp" "bswap2 inp" out True]
  by (cases le; cases little) (auto simp: EncodeUShort_def host_swap2_def map_shorts_ushorts)

lemma DecodeUShort_eq:
  assumes "even (length inp)" "length out = length inp"
  shows "DecodeUShort le inp out (host_swap2 little)
    = (if little then bswap2 (map_shorts False (\<lambda>s. s + 32768) inp out) else map_shorts False (\<lambda>s. s + 32768) inp out)"
  using assms bswap2_map_shorts [of inp out "bswap2 inp" False] bswap2_map_shorts [of "bswap2 inp" "bswap2 inp" out True]
  by (cases le; cases little) (auto simp: DecodeUShort_def host_swap2_def)

lemma map_shorts_eq_ushorts:
  "even (length xs) \<Longrightarrow> concat (map (put_short le) (ushorts le xs)) = xs"
  by (induction le xs rule: ushorts.induct) (auto simp: put_get_short)

text \<open>
  C28: \<open>EncodeUShort\<close> stores every unsigned pixel as the signed 16-bit number that FITS wants,
  the value less 32768, most significant byte first, whatever the byte order of the host and
  for pixels in either order; \<open>DecodeUShort\<close>, on any host, restores the array from it.
\<close>

theorem ushort_encode_decode:
  assumes "even (length inp)" and "length out = length inp" and "length out' = length inp"
  shows "EncodeUShort le inp out (host_swap2 little)
      = concat (map (\<lambda>s. put_short False (s - 32768)) (ushorts little inp))
    \<and> DecodeUShort le' (EncodeUShort le inp out (host_swap2 little)) out' (host_swap2 little) = inp"
proof
  let ?x = "if little then bswap2 inp else inp" and ?f = "\<lambda>s :: 16 word. s - 32768"
  have x: "even (length ?x)" "length out = length ?x" "length out' = length ?x" using assms by auto
  have E: "EncodeUShort le inp out (host_swap2 little) = map_shorts False ?f ?x out"
    by (rule EncodeUShort_eq [OF assms(1, 2)])
  have u: "ushorts False ?x = ushorts little inp" using ushorts_not [of False inp] by auto
  show "EncodeUShort le inp out (host_swap2 little) = concat (map (\<lambda>s. put_short False (s - 32768)) (ushorts little inp))"
    using map_shorts_ushorts [OF x(1, 2), of False ?f] by (simp only: E u)
  have "map_shorts False (\<lambda>s. s + 32768) (map_shorts False ?f ?x out) out' = map_shorts False (\<lambda>s. s) ?x out'"
    using map_shorts_map_shorts [OF x, of False "\<lambda>s. s + 32768" ?f] by simp
  then have "map_shorts False (\<lambda>s. s + 32768) (map_shorts False ?f ?x out) out' = ?x"
    using map_shorts_ushorts [OF x(1, 3), of False "\<lambda>s. s"] map_shorts_eq_ushorts [OF x(1), of False] by simp
  moreover have "even (length (map_shorts False ?f ?x out))" "length out' = length (map_shorts False ?f ?x out)"
    using length_map_shorts [OF x(1, 2), of False ?f] x assms by simp_all
  ultimately show "DecodeUShort le' (EncodeUShort le inp out (host_swap2 little)) out' (host_swap2 little) = inp"
    unfolding E by (subst DecodeUShort_eq) (auto split: if_splits)
qed

theorem ushort_encode_decode_witness:
  "EncodeUShort True [0x34, 0x12] [0, 0] (host_swap2 True) = [0x92, 0x34]
   \<and> DecodeUShort False (EncodeUShort True [0x34, 0x12] [0, 0] (host_swap2 True)) [0, 0] (host_swap2 True) = [0x34, 0x12]"
proof -
  have c: "concat (map (\<lambda>s. put_short False (s - 32768)) (ushorts True [0x34, 0x12])) = [0x92, 0x34]" by code_simp
  have "EncodeUShort True [0x34, 0x12] [0, 0] (host_swap2 True)
      = concat (map (\<lambda>s. put_short False (s - 32768)) (ushorts True [0x34, 0x12]))
    \<and> DecodeUShort False (EncodeUShort True [0x34, 0x12] [0, 0] (host_swap2 True)) [0, 0] (host_swap2 True) = [0x34, 0x12]"
    by (rule ushort_encode_decode) simp_all
  then show ?thesis unfolding c .
qed

section \<open>Regions\<close>

lemma mixed_radix:
  fixes a b A B :: int
  assumes "0 \<le> a" "a < A" "0 \<le> b" "b < B"
  shows "0 \<le> b * A + a \<and> b * A + a < B * A"
proof -
  have "(b + 1) * A \<le> B * A" using assms by (intro mult_right_mono) auto
  then have "b * A + A \<le> B * A" by (simp add: distrib_right)
  moreover have "0 \<le> b * A" using assms by simp
  ultimately show ?thesis using assms by linarith
qed

lemma mixed_radix_unique:
  fixes a b a' b' A :: int
  assumes "0 \<le> a" "a < A" "0 \<le> a'" "a' < A" "b * A + a = b' * A + a'"
  shows "a = a' \<and> b = b'"
proof -
  have "(b * A + a) mod A = a" "(b' * A + a') mod A = a'" using assms(1-4) by simp_all
  then have "a = a'" using assms(5) by metis
  then show ?thesis using assms by auto
qed

lemma le_times_pos:
  fixes x y :: int
  assumes "0 \<le> x" "0 < y"
  shows "x \<le> x * y"
  using mult_left_mono [of 1 y x] assms by simp

definition pixel_index :: "int list \<Rightarrow> int \<Rightarrow> int \<Rightarrow> int \<Rightarrow> int" where
  "pixel_index al i j k = (k * al ! 1 + j) * al ! 0 + i"

definition in_image :: "int list \<Rightarrow> int \<Rightarrow> int \<Rightarrow> int \<Rightarrow> bool" where
  "in_image al i j k \<longleftrightarrow> 0 \<le> i \<and> i < al ! 0 \<and> 0 \<le> j \<and> j < al ! 1 \<and> 0 \<le> k \<and> k < al ! 2"

lemma pixel_index_range:
  assumes "in_image al i j k"
  shows "0 \<le> pixel_index al i j k \<and> pixel_index al i j k < al ! 2 * al ! 1 * al ! 0"
  using assms mixed_radix [of j "al ! 1" k "al ! 2"] mixed_radix [of i "al ! 0" "k * al ! 1 + j" "al ! 2 * al ! 1"]
  by (auto simp: pixel_index_def in_image_def)

lemma pixel_index_unique:
  assumes "in_image al i j k" "in_image al i' j' k'" "pixel_index al i j k = pixel_index al i' j' k'"
  shows "i = i' \<and> j = j' \<and> k = k'"
  using assms mixed_radix_unique [of i "al ! 0" i' "k * al ! 1 + j" "k' * al ! 1 + j'"]
    mixed_radix_unique [of j "al ! 1" j' k k']
  by (auto simp: pixel_index_def in_image_def)

lemma Pixel3D_offset:
  assumes b: "in_image al i j k" and ps: "0 < io_pixsize rp"
    and fit: "al ! 2 * al ! 1 * al ! 0 * io_pixsize rp < 2 ^ 31"
    and st: "io_stride rp ! 1 = al ! 0" "io_stride rp ! 2 = al ! 0 * al ! 1"
  shows "dsim_Pixel3D rp i j k = io_pixels rp + word_of_int (pixel_index al i j k * io_pixsize rp)
    \<and> 0 \<le> pixel_index al i j k * io_pixsize rp
    \<and> pixel_index al i j k * io_pixsize rp + io_pixsize rp \<le> al ! 2 * al ! 1 * al ! 0 * io_pixsize rp"
proof -
  let ?n = "al ! 2 * al ! 1 * al ! 0" and ?x = "pixel_index al i j k" and ?s = "io_pixsize rp"
  have x: "0 \<le> ?x" "?x < ?n" using pixel_index_range [OF b] by simp_all
  have nonneg: "0 \<le> k * (al ! 0 * al ! 1)" "0 \<le> j * al ! 0" "0 \<le> i" using b by (simp_all add: in_image_def)
  have sum: "?x = k * (al ! 0 * al ! 1) + j * al ! 0 + i" by (simp add: pixel_index_def algebra_simps)
  have top: "?x * ?s + ?s \<le> ?n * ?s"
    using mult_right_mono [of "?x + 1" ?n ?s] x ps by (simp add: distrib_right)
  have nn: "?n \<le> ?n * ?s" by (rule le_times_pos) (use x ps in auto)
  have s0: "0 \<le> ?x * ?s" using x ps by simp
  have lim: "?x < 2 ^ 31" using x nn fit by linarith
  have r: "i32 (k * (al ! 0 * al ! 1)) = k * (al ! 0 * al ! 1)" "i32 (j * al ! 0) = j * al ! 0"
    "i32 (k * (al ! 0 * al ! 1) + j * al ! 0 + i) = ?x"
    "i32 (k * (al ! 0 * al ! 1) + j * al ! 0) = k * (al ! 0 * al ! 1) + j * al ! 0"
    using nonneg sum lim top fit ps s0 by (simp_all add: i32_id)
  have r4: "i32 (?x * ?s) = ?x * ?s" by (rule i32_id) (use s0 top fit ps in linarith)+
  have "dsim_Pixel3D rp i j k = io_pixels rp + word_of_int (?x * ?s)"
    unfolding dsim_Pixel3D_def st r(1, 2, 4) unfolding r(3) r4 ..
  then show ?thesis using s0 top by simp
qed

text \<open>The table of regions has an address when it has entries.\<close>

definition regions_ok :: "DSImage \<Rightarrow> bool" where
  "regions_ok ds \<longleftrightarrow> (io_base ds = 0 \<longrightarrow> iolist ds = [])"

lemma first_unused_some:
  assumes "first_unused rs n = Inr (Some i)"
  shows "n \<le> i \<and> i < n + length rs \<and> (\<exists>rp. rs ! (i - n) = Some rp \<and> io_image rp = None)"
  using assms
proof (induction rs arbitrary: n)
  case (Cons r rs)
  show ?case
  proof (cases "\<exists>rp. r = Some rp \<and> io_image rp = None")
    case True
    then show ?thesis using Cons.prems by auto
  next
    case False
    then have "first_unused rs (n + 1) = Inr (Some i)"
      using Cons.prems by (auto split: option.splits if_splits)
    from Cons.IH [OF this] show ?thesis by (auto simp: nth_Cons')
  qed
qed simp

lemma first_unused_none: "first_unused rs n = Inr None \<Longrightarrow> r \<in> set rs \<Longrightarrow> \<exists>rp. r = Some rp \<and> io_image rp \<noteq> None"
  by (induction rs arbitrary: n) (auto split: option.splits if_splits)

lemma grow_regions_some:
  assumes "grow_regions e ds = (Some i, ds')"
  shows "i = nregions ds \<and> i < length (iolist ds') \<and> io_base ds' = de_realloc e (max 4 (nregions ds * 2)) \<and> io_base ds' \<noteq> 0
    \<and> imagelist ds' = imagelist ds \<and> nimages ds' = nimages ds
    \<and> (length (iolist ds) = nregions ds \<longrightarrow> take i (iolist ds') = iolist ds)"
  using assms by (auto simp: grow_regions_def Let_def split: if_splits)

text \<open>Where the region of a successful \<open>dsim_StartIO\<close> is taken from.\<close>

lemma start_io_cases:
  assumes "start_io e ds imno mode sv nv = Inr (Some io, ds')"
  obtains im i ds1 where "1 \<le> imno" "imno \<le> nimages ds" "get_image ds (nat imno - 1) = Inr im"
    "nat (naxes im) \<le> length sv" "nat (naxes im) \<le> length nv" "sv_in_bounds sv nv im"
    "first_unused (iolist ds) 0 = Inr (Some i) \<and> ds1 = ds
      \<or> first_unused (iolist ds) 0 = Inr None \<and> grow_regions e ds = (Some i, ds1)"
    "io = (io_base ds1, i)" "ds' = ds1\<lparr>iolist := (iolist ds1)[i := Some (region im (nat imno - 1) mode sv nv)]\<rparr>"
proof -
  obtain im where im: "get_image ds (nat imno - 1) = Inr im" and "1 \<le> imno" "imno \<le> nimages ds"
    and l: "nat (naxes im) \<le> length sv" "nat (naxes im) \<le> length nv" "sv_in_bounds sv nv im"
    and u: "bind_res (first_unused (iolist ds) 0) (\<lambda>u.
          case (case u of Some i \<Rightarrow> (Some i, ds) | None \<Rightarrow> grow_regions e ds) of
            (None, ds) \<Rightarrow> Inr (None, ds)
          | (Some i, ds) \<Rightarrow> Inr (Some (io_base ds, i),
              ds\<lparr>iolist := (iolist ds)[i := Some (region im (nat imno - 1) mode sv nv)]\<rparr>)) = Inr (Some io, ds')"
    using assms by (auto simp: start_io_def bind_res_Inr_iff split: if_splits)
  from u obtain u' where "first_unused (iolist ds) 0 = Inr u'"
    and "(case (case u' of Some i \<Rightarrow> (Some i, ds) | None \<Rightarrow> grow_regions e ds) of
            (None, ds) \<Rightarrow> Inr (None, ds)
          | (Some i, ds) \<Rightarrow> Inr (Some (io_base ds, i),
              ds\<lparr>iolist := (iolist ds)[i := Some (region im (nat imno - 1) mode sv nv)]\<rparr>)) = (Inr (Some io, ds') :: _ res)"
    by (auto simp: bind_res_Inr_iff)
  then show ?thesis using that im l \<open>1 \<le> imno\<close> \<open>imno \<le> nimages ds\<close>
    by (auto split: option.splits prod.splits)
qed

lemma start_io_region:
  assumes "start_io e ds imno mode sv nv = Inr (Some io, ds')" "regions_ok ds'"
  shows "\<exists>im. get_image ds' (nat imno - 1) = Inr im \<and> nat (naxes im) \<le> length sv \<and> nat (naxes im) \<le> length nv
    \<and> sv_in_bounds sv nv im \<and> region_at ds' io = Inr (region im (nat imno - 1) mode sv nv)"
proof -
  obtain im i ds1 where *: "get_image ds (nat imno - 1) = Inr im"
    "nat (naxes im) \<le> length sv" "nat (naxes im) \<le> length nv" "sv_in_bounds sv nv im"
    "first_unused (iolist ds) 0 = Inr (Some i) \<and> ds1 = ds
      \<or> first_unused (iolist ds) 0 = Inr None \<and> grow_regions e ds = (Some i, ds1)"
    "io = (io_base ds1, i)" "ds' = ds1\<lparr>iolist := (iolist ds1)[i := Some (region im (nat imno - 1) mode sv nv)]\<rparr>"
    by (rule start_io_cases [OF assms(1)])
  have i: "i < length (iolist ds1)" and im1: "get_image ds1 (nat imno - 1) = Inr im"
    using *(1, 5) first_unused_some [of "iolist ds" 0 i] grow_regions_some [of e ds i ds1] by (auto simp: get_image_def)
  then have "io_base ds1 \<noteq> 0" using assms(2) *(7) by (auto simp: regions_ok_def)
  then show ?thesis using * i im1 by (auto simp: region_at_def get_image_def)
qed

lemma strides_12:
  "length al = MAXDIM \<Longrightarrow> strides MAXDIM al 1 ! 1 = i32 (al ! 0) \<and> strides MAXDIM al 1 ! 2 = i32 (i32 (al ! 0) * al ! 1)"
  by (cases al; cases "tl al") (auto simp: MAXDIM_def numeral_eq_Suc)

text \<open>An image of at most three axes whose pixels can be counted in bytes with an \<open>int\<close>.\<close>

definition plain_image :: "Image \<Rightarrow> bool" where
  "plain_image im \<longleftrightarrow> length (axlen im) = MAXDIM \<and> 1 \<le> naxes im \<and> naxes im \<le> 3
     \<and> (\<forall>a < 3. 0 < axlen im ! a \<and> (naxes im \<le> int a \<longrightarrow> axlen im ! a = 1))
     \<and> 0 < pixsize im \<and> axlen im ! 2 * axlen im ! 1 * axlen im ! 0 * pixsize im < 2 ^ 31"

text \<open>The pixel \<open>(i, j, k)\<close> is in the region; coordinates beyond the axes of the image are 0.\<close>

definition in_region :: "Image \<Rightarrow> int list \<Rightarrow> int list \<Rightarrow> int \<Rightarrow> int \<Rightarrow> int \<Rightarrow> bool" where
  "in_region im sv nv i j k \<longleftrightarrow>
     (\<forall>a < 3. let c = [i, j, k] ! a in
        if int a < naxes im then sv ! a \<le> c \<and> c < sv ! a + nv ! a \<and> sv ! a + nv ! a < 2 ^ 31 else c = 0)"

lemma all_less_3: "(\<forall>a < 3. P a) \<longleftrightarrow> P 0 \<and> P (1 :: nat) \<and> P 2"
  by (auto simp: numeral_eq_Suc less_Suc_eq)

lemma region_in_image:
  assumes im: "plain_image im" and b: "sv_in_bounds sv nv im" and r: "in_region im sv nv i j k"
  shows "in_image (axlen im) i j k"
proof -
  have c: "0 \<le> [i, j, k] ! a \<and> [i, j, k] ! a < axlen im ! a" if a: "a < 3" for a
  proof (cases "int a < naxes im")
    case True
    let ?c = "[i, j, k] ! a"
    have c: "sv ! a \<le> ?c" "?c < sv ! a + nv ! a" "sv ! a + nv ! a < 2 ^ 31"
      using r a True by (auto simp: in_region_def Let_def)
    have "a \<in> set [0..<nat (naxes im)]" using True by simp
    then have sv: "0 \<le> sv ! a" "i32 (sv ! a + nv ! a) \<le> axlen im ! a"
      using b unfolding sv_in_bounds_def list_all_iff by (auto simp: not_less)
    then have "i32 (sv ! a + nv ! a) = sv ! a + nv ! a" using c by (intro i32_id) simp_all
    then show ?thesis using c sv by linarith
  next
    case False
    then show ?thesis using r a im by (auto simp: in_region_def plain_image_def Let_def)
  qed
  from c [of 0] c [of 1] c [of 2] show ?thesis by (simp add: in_image_def)
qed

lemma region_strides:
  assumes "plain_image im"
  shows "io_stride (region im n mode sv nv) ! 1 = axlen im ! 0"
    "io_stride (region im n mode sv nv) ! 2 = axlen im ! 0 * axlen im ! 1"
proof -
  let ?x = "axlen im ! 0" and ?y = "axlen im ! 1" and ?z = "axlen im ! 2" and ?s = "pixsize im"
  have p: "0 < ?x" "0 < ?y" "0 < ?z" "0 < ?s" "?z * ?y * ?x * ?s < 2 ^ 31" "length (axlen im) = MAXDIM"
    using assms by (auto simp: plain_image_def all_less_3)
  have "?x * ?y \<le> ?x * ?y * ?z" "?x * ?y * ?z \<le> ?x * ?y * ?z * ?s" "?x \<le> ?x * ?y"
    using p by (auto intro!: le_times_pos)
  moreover have "?x * ?y * ?z * ?s < 2 ^ 31" using p(5) by (simp add: ac_simps)
  ultimately have lim: "?x < 2 ^ 31" "?x * ?y < 2 ^ 31" "0 \<le> ?x * ?y" using p by linarith+
  have "i32 ?x = ?x" "i32 (?x * ?y) = ?x * ?y" by (rule i32_id, use lim p in linarith, use lim p in linarith)+
  then show "io_stride (region im n mode sv nv) ! 1 = ?x" "io_stride (region im n mode sv nv) ! 2 = ?x * ?y"
    using strides_12 [OF p(6)] by (simp_all add: region_def)
qed

lemma region_pixel:
  assumes im: "plain_image im" and "sv_in_bounds sv nv im" and "in_region im sv nv i j k"
  shows "dsim_Pixel3D (region im n mode sv nv) i j k = pixels im + word_of_int (pixel_index (axlen im) i j k * pixsize im)
    \<and> 0 \<le> pixel_index (axlen im) i j k * pixsize im
    \<and> pixel_index (axlen im) i j k * pixsize im + pixsize im
        \<le> axlen im ! 2 * axlen im ! 1 * axlen im ! 0 * pixsize im"
  using Pixel3D_offset [OF region_in_image [OF assms], of "region im n mode sv nv"] region_strides [OF im] im
  by (simp add: region_def plain_image_def)

lemma Pixel_2D_1D:
  "dsim_Pixel2D rp i j = dsim_Pixel3D rp i j 0"
  "i = i32 i \<Longrightarrow> dsim_Pixel1D rp i = dsim_Pixel2D rp i 0"
  by (simp_all add: dsim_Pixel1D_def dsim_Pixel2D_def dsim_Pixel3D_def i32_def mod_simps)

end
