(* ===== verification/Dsim_File_Props.thy ===== *)
theory Dsim_File_Props
  imports Dsim_File Dsim_Props Vm_Cache_Props
begin

text \<open>
  Correctness of the file side of \<open>mosdca/dsim.c\<close>: what the emulated file access does to the
  image, where a header is written, and the layout that \<open>dsim_Configure\<close> gives the file.
\<close>

section \<open>Overwriting\<close>

lemma overwrite_Nil [simp]: "overwrite pos [] f = f"
  by (simp add: overwrite_def)

lemma poke_append: "poke (p + length a) b (poke p a f @ t) = poke p (a @ b) (f @ t)" if "p + length a \<le> length f"
  using that by (simp add: poke_def ac_simps)

lemma poke_past: "poke p a (f @ t) @ u = poke p a (f @ t @ u)" if "p + length a \<le> length f + length t"
  using that by (simp add: poke_def)

lemma overwrite_append:
  assumes "0 \<le> pos"
  shows "overwrite (pos + int (length a)) b (overwrite pos a f) = overwrite pos (a @ b) f"
proof (cases "a = [] \<or> b = []")
  case False
  let ?p = "nat pos"
  let ?m = "?p + length a - length f" and ?n = "?p + length a + length b - length f"
  have p: "nat (pos + int (length a)) = ?p + length a" using assms by (simp add: nat_add_distrib)
  have l: "length (poke ?p a (f @ replicate ?m NUL)) = max (length f) (?p + length a)" by (simp add: poke_def)
  have r: "replicate ?m NUL @ replicate (?p + length a + length b - max (length f) (?p + length a)) NUL = replicate ?n NUL"
    by (simp add: max_def flip: replicate_add)
  have "overwrite (pos + int (length a)) b (overwrite pos a f)
      = poke (?p + length a) b (poke ?p a (f @ replicate ?m NUL) @ replicate (?p + length a + length b - max (length f) (?p + length a)) NUL)"
    using False l by (simp add: overwrite_def p ac_simps)
  also have "\<dots> = poke ?p (a @ b) (f @ replicate ?n NUL)"
    using poke_append [of ?p a "f @ replicate ?m NUL" b "replicate (?p + length a + length b - max (length f) (?p + length a)) NUL"]
    by (simp add: r)
  finally show ?thesis using False by (simp add: overwrite_def ac_simps)
qed auto

lemma length_overwrite: "0 \<le> pos \<Longrightarrow> bs \<noteq> [] \<Longrightarrow> length (overwrite pos bs f) = max (length f) (nat pos + length bs)"
  by (simp add: overwrite_def poke_def)

lemma overwrite_other:
  assumes "0 \<le> pos" "i < length f" "i < nat pos \<or> nat pos + length bs \<le> i"
  shows "overwrite pos bs f ! i = f ! i"
proof -
  have "poke (nat pos) bs (f @ t) ! i = f ! i" for t
    using assms(2, 3) by (auto simp: poke_def nth_append min_def)
  then show ?thesis by (simp add: overwrite_def)
qed

lemma overwrite_at: "0 \<le> pos \<Longrightarrow> bs \<noteq> [] \<Longrightarrow> take (length bs) (drop (nat pos) (overwrite pos bs f)) = bs"
  by (simp add: overwrite_def poke_def)

section \<open>An open file\<close>

text \<open>
  The file of \<open>p\<close> is open in slot 0, at \<open>pos\<close>; what the accesses through the slot can change is
  the contents of the file and the positions.
\<close>

definition session :: "dsworld \<Rightarrow> nat \<Rightarrow> DSImage \<Rightarrow> int \<Rightarrow> bool" where
  "session w p ds pos \<longleftrightarrow> length (fdtable w) = MAX_FD \<and> fio_dsim (fdtable w ! 0) = p \<and> p \<noteq> 0 \<and> dsims w p = Some ds
     \<and> pos = (if mapped ds then fio_pos (fdtable w ! 0) else d_kpos ds) \<and> 0 \<le> pos \<and> 0 \<le> d_kpos ds"

definition only_file :: "dsworld \<Rightarrow> dsworld \<Rightarrow> nat \<Rightarrow> DSImage \<Rightarrow> DSImage \<Rightarrow> bool" where
  "only_file w w' p ds ds' \<longleftrightarrow> dsims w' = (dsims w)(p \<mapsto> ds') \<and> w_vm w' = w_vm w
     \<and> (\<exists>f. fdtable w' = (fdtable w)[0 := f])
     \<and> (\<exists>f k. ds' = ds\<lparr>d_file := f, d_kpos := k\<rparr>)"

lemma only_file_mapped: "only_file w w' p ds ds' \<Longrightarrow> mapped ds' = mapped ds"
  by (auto simp: only_file_def mapped_def)

lemma only_file_filesize: "only_file w w' p ds ds' \<Longrightarrow> filesize ds' = filesize ds"
  by (auto simp: only_file_def)

lemma only_file_refl:
  assumes "w' = w" "dsims w p = Some ds"
  shows "only_file w w' p ds ds"
proof -
  have "fdtable w' = (fdtable w)[0 := fdtable w ! 0]" "ds = ds\<lparr>d_file := d_file ds, d_kpos := d_kpos ds\<rparr>"
    "dsims w' = (dsims w)(p \<mapsto> ds)" using assms by auto
  then show ?thesis unfolding only_file_def using assms by blast
qed

lemma only_file_trans:
  assumes "only_file w w' p ds ds'" "only_file w' w'' p ds' ds''"
  shows "only_file w w'' p ds ds''"
proof -
  obtain f k where 1: "ds' = ds\<lparr>d_file := f, d_kpos := k\<rparr>" using assms(1) by (auto simp: only_file_def)
  obtain f' k' where "ds'' = ds'\<lparr>d_file := f', d_kpos := k'\<rparr>" using assms(2) by (auto simp: only_file_def)
  then have "ds'' = ds\<lparr>d_file := f', d_kpos := k'\<rparr>" by (simp add: 1)
  then show ?thesis using assms by (fastforce simp: only_file_def)
qed

lemma ds_write_session:
  assumes s: "session w p ds pos" and bs: "bs \<noteq> []" and r: "ds_write e w 0 bs = Inr (int (length bs), w')"
  shows "\<exists>ds'. session w' p ds' (pos + int (length bs)) \<and> only_file w w' p ds ds'
     \<and> d_file ds' = overwrite pos bs (d_file ds) \<and> (mapped ds \<longrightarrow> pos + int (length bs) \<le> filesize ds)"
proof (cases "mapped ds")
  case False
  let ?ds = "ds\<lparr>d_file := overwrite pos bs (d_file ds), d_kpos := pos + int (length bs)\<rparr>"
  have *: "w' = put_ds w p ?ds" "p \<noteq> 0" "dsims w p = Some ds" "fio_dsim (fdtable w ! 0) = p" "length (fdtable w) = 32"
    "pos = d_kpos ds" "0 \<le> pos"
    using assms False by (auto simp: session_def ds_write_def get_ds_def MAX_FD_def Let_def split: if_splits)
  have "session w' p ?ds (pos + int (length bs))"
    using *(2-7) False by (auto simp: *(1) session_def put_ds_def mapped_def MAX_FD_def)
  moreover have "only_file w w' p ds ?ds"
    unfolding only_file_def
  proof (intro conjI)
    show "\<exists>f k. ?ds = ds\<lparr>d_file := f, d_kpos := k\<rparr>" by blast
    show "\<exists>f. fdtable w' = (fdtable w)[0 := f]" by (rule exI [of _ "fdtable w ! 0"]) (simp add: *(1) put_ds_def)
  qed (simp_all add: *(1) put_ds_def)
  ultimately show ?thesis using False by auto
next
  case True
  then have *: "0 \<le> fio_pos (fdtable w ! 0)" "fio_pos (fdtable w ! 0) \<le> filesize ds"
    "min (filesize ds) (fio_pos (fdtable w ! 0) + int (length bs)) - fio_pos (fdtable w ! 0) = int (length bs)"
    "p \<noteq> 0" "dsims w p = Some ds" "fio_dsim (fdtable w ! 0) = p" "length (fdtable w) = 32" "pos = fio_pos (fdtable w ! 0)"
    "w' = set_pos (put_ds w p (ds\<lparr>d_file := overwrite pos bs (d_file ds)\<rparr>)) 0 (pos + int (length bs))"
    using assms by (auto simp: session_def ds_write_def get_ds_def MAX_FD_def Let_def split: if_splits)
  let ?ds = "ds\<lparr>d_file := overwrite pos bs (d_file ds)\<rparr>"
  have "session w' p ?ds (pos + int (length bs))"
    using *(1, 4, 6-9) True assms(1) by (simp add: session_def put_ds_def set_pos_def mapped_def MAX_FD_def)
  moreover have "only_file w w' p ds ?ds"
    unfolding only_file_def
  proof (intro conjI)
    show "\<exists>f k. ?ds = ds\<lparr>d_file := f, d_kpos := k\<rparr>"
      by (rule exI [of _ "overwrite pos bs (d_file ds)"], rule exI [of _ "d_kpos ds"]) simp
    show "\<exists>f. fdtable w' = (fdtable w)[0 := f]" by (rule exI) (simp add: *(9) set_pos_def put_ds_def)
  qed (simp_all add: *(9) set_pos_def put_ds_def)
  moreover have "pos + int (length bs) \<le> filesize ds" using *(3, 8) by linarith
  ultimately show ?thesis by auto
qed

lemma write_list_session:
  assumes "session w p ds pos" "\<forall>c \<in> set cards. length c = 80" "write_list e w 0 cards = Inr (True, w')"
  shows "\<exists>ds'. session w' p ds' (pos + 80 * int (length cards)) \<and> only_file w w' p ds ds'
     \<and> d_file ds' = overwrite pos (concat cards) (d_file ds)
     \<and> (mapped ds \<longrightarrow> cards \<noteq> [] \<longrightarrow> pos + 80 * int (length cards) \<le> filesize ds)"
  using assms
proof (induction cards arbitrary: w ds pos)
  case Nil
  then have "only_file w w' p ds ds" by (intro only_file_refl) (simp_all add: session_def)
  then show ?case using Nil by (intro exI [of _ ds]) simp
next
  case (Cons c cards)
  have l: "int (length c) = 80" "c \<noteq> []" using Cons.prems(2) by auto
  obtain w1 where w1: "ds_write e w 0 c = Inr (int (length c), w1)" "write_list e w1 0 cards = Inr (True, w')"
    using Cons.prems(3) l by (auto simp: bind_res_Inr_iff CARDLEN_def split: if_splits)
  obtain d1 where d1: "session w1 p d1 (pos + int (length c))" "only_file w w1 p ds d1"
    "d_file d1 = overwrite pos c (d_file ds)" "mapped ds \<longrightarrow> pos + int (length c) \<le> filesize ds"
    using ds_write_session [OF Cons.prems(1) l(2) w1(1)] by blast
  obtain ds' where ds': "session w' p ds' (pos + int (length c) + 80 * int (length cards))" "only_file w1 w' p d1 ds'"
    "d_file ds' = overwrite (pos + int (length c)) (concat cards) (d_file d1)"
    "mapped d1 \<longrightarrow> cards \<noteq> [] \<longrightarrow> pos + int (length c) + 80 * int (length cards) \<le> filesize d1"
    using Cons.IH [OF d1(1) _ w1(2)] Cons.prems(2) by auto
  have "0 \<le> pos" using Cons.prems(1) by (simp add: session_def)
  then have "d_file ds' = overwrite pos (concat (c # cards)) (d_file ds)"
    using ds'(3) d1(3) overwrite_append [of pos c "concat cards" "d_file ds"] by simp
  then show ?case using ds'(1, 4) d1(4) only_file_trans [OF d1(2) ds'(2)] only_file_mapped [OF d1(2)] only_file_filesize [OF d1(2)] l(1)
    by (intro exI [of _ ds']) (cases "cards = []"; auto simp: algebra_simps)
qed

text \<open>Between the accesses: no file is open in slot 0.\<close>

definition idle :: "dsworld \<Rightarrow> nat \<Rightarrow> DSImage \<Rightarrow> bool" where
  "idle w p ds \<longleftrightarrow> length (fdtable w) = MAX_FD \<and> fio_dsim (fdtable w ! 0) = 0 \<and> p \<noteq> 0 \<and> dsims w p = Some ds \<and> 0 \<le> d_kpos ds"

lemma ds_open_session:
  assumes "idle w p ds"
  shows "\<exists>w'. ds_open w p m = (0, w') \<and> session w' p ds (if mapped ds then 0 else d_kpos ds) \<and> only_file w w' p ds ds"
proof -
  obtain f fs where f: "fdtable w = f # fs" using assms by (cases "fdtable w") (auto simp: idle_def MAX_FD_def)
  let ?f = "\<lparr>fio_dsim = p, fio_mode = m, fio_pos = 0\<rparr>"
  have w: "ds_open w p m = (0, w\<lparr>fdtable := (fdtable w)[0 := ?f]\<rparr>)" using assms f by (simp add: ds_open_def idle_def)
  have "only_file w (w\<lparr>fdtable := (fdtable w)[0 := ?f]\<rparr>) p ds ds"
    unfolding only_file_def
  proof (intro conjI)
    show "\<exists>f k. ds = ds\<lparr>d_file := f, d_kpos := k\<rparr>" by (rule exI [of _ "d_file ds"], rule exI [of _ "d_kpos ds"]) simp
    show "\<exists>g. fdtable (w\<lparr>fdtable := (fdtable w)[0 := ?f]\<rparr>) = (fdtable w)[0 := g]" by (rule exI [of _ ?f]) simp
  qed (use assms in \<open>auto simp: idle_def\<close>)
  then show ?thesis using assms f w by (auto simp: session_def idle_def)
qed

lemma ds_lseek_session:
  assumes "session w p ds pos" "0 \<le> off" "ds_lseek w 0 off = Inr (r, w')"
  shows "\<exists>ds'. session w' p ds' off \<and> only_file w w' p ds ds' \<and> d_file ds' = d_file ds"
proof (cases "mapped ds")
  case False
  let ?ds = "ds\<lparr>d_kpos := off\<rparr>"
  have *: "w' = put_ds w p ?ds" "p \<noteq> 0" "dsims w p = Some ds" "fio_dsim (fdtable w ! 0) = p" "length (fdtable w) = 32"
    using assms False by (auto simp: session_def ds_lseek_def get_ds_def MAX_FD_def Let_def split: if_splits)
  have "session w' p ?ds off"
    using *(2-5) assms(2) False by (auto simp: *(1) session_def put_ds_def mapped_def MAX_FD_def)
  moreover have "only_file w w' p ds ?ds"
    unfolding only_file_def
  proof (intro conjI)
    show "\<exists>f k. ?ds = ds\<lparr>d_file := f, d_kpos := k\<rparr>" by (rule exI [of _ "d_file ds"], rule exI [of _ off]) simp
    show "\<exists>f. fdtable w' = (fdtable w)[0 := f]" by (rule exI [of _ "fdtable w ! 0"]) (simp add: *(1) put_ds_def)
  qed (simp_all add: *(1) put_ds_def)
  ultimately show ?thesis by auto
next
  case True
  have *: "w' = set_pos w 0 off" "p \<noteq> 0" "dsims w p = Some ds" "fio_dsim (fdtable w ! 0) = p" "length (fdtable w) = 32"
    using assms True by (auto simp: session_def ds_lseek_def get_ds_def MAX_FD_def Let_def split: if_splits)
  have "session w' p ds off"
    using *(2-5) assms(1, 2) True by (simp add: *(1) session_def set_pos_def MAX_FD_def)
  moreover have "only_file w w' p ds ds"
    unfolding only_file_def
  proof (intro conjI)
    show "\<exists>f k. ds = ds\<lparr>d_file := f, d_kpos := k\<rparr>" by (rule exI [of _ "d_file ds"], rule exI [of _ "d_kpos ds"]) simp
    show "\<exists>f. fdtable w' = (fdtable w)[0 := f]" by (rule exI) (simp add: *(1) set_pos_def)
  qed (use *(3) in \<open>simp_all add: *(1) set_pos_def fun_upd_idem\<close>)
  ultimately show ?thesis by auto
qed

lemma ds_close_session:
  assumes "session w p ds pos"
  shows "idle (snd (ds_close w 0)) p ds \<and> only_file w (snd (ds_close w 0)) p ds ds"
proof
  show "idle (snd (ds_close w 0)) p ds" using assms by (auto simp: session_def idle_def ds_close_def MAX_FD_def)
  show "only_file w (snd (ds_close w 0)) p ds ds"
    unfolding only_file_def
  proof (intro conjI)
    show "\<exists>f k. ds = ds\<lparr>d_file := f, d_kpos := k\<rparr>" by (rule exI [of _ "d_file ds"], rule exI [of _ "d_kpos ds"]) simp
    show "\<exists>f. fdtable (snd (ds_close w 0)) = (fdtable w)[0 := f]" by (rule exI) (simp add: ds_close_def MAX_FD_def)
  qed (use assms in \<open>auto simp: session_def ds_close_def MAX_FD_def\<close>)
qed

section \<open>Headers read from any file\<close>

lemma isprint_ascii: "list_all isprint s \<Longrightarrow> ascii (takeWhile P s) \<and> cstring (takeWhile P s)"
  using printable_ascii [of "takeWhile P s"] by (auto simp: list_all_iff dest: set_takeWhileD)

lemma card_keyword_ok: "ascii (card_keyword img) \<and> storable (Some (card_keyword img))"
proof (cases "list_all isprint (take 8 img)")
  case True
  have "length (takeWhile (\<lambda>c. c \<noteq> SP) (take 8 img)) < 1024000"
    using length_takeWhile_le [of "\<lambda>c. c \<noteq> SP" "take 8 img"] by simp
  then show ?thesis using True isprint_ascii [OF True]
    by (simp add: card_keyword_def storable_def txt_of_def DEF_SZSBUF_def)
next
  case False
  have "ascii ''END     '' \<and> cstring ''END     ''" by code_simp
  then show ?thesis unfolding card_keyword_def if_not_P [OF False] by (simp add: storable_def txt_of_def DEF_SZSBUF_def)
qed

lemma cs_storable: "length s \<le> 80 \<Longrightarrow> storable (Some (cs s))"
  using length_takeWhile_le [of "\<lambda>c. c \<noteq> NUL" s] cstring_cs [of s]
  by (simp add: storable_def txt_of_def DEF_SZSBUF_def cs_def)

lemma line_text_storable: "length s \<le> 80 \<Longrightarrow> storable (Some (line_text s))"
  using length_line_text [of s] cstring_cs
  by (auto simp: storable_def txt_of_def line_text_def DEF_SZSBUF_def)

lemma value_field_lengths:
  assumes "length img = 80"
  shows "length (fst (value_field img)) \<le> 80 \<and> length (snd (snd (value_field img))) \<le> 80"
proof -
  have "length (takeWhile P (drop n img)) \<le> 80" "length (takeWhile P (tl (drop n img))) \<le> 80" for P n
    using length_takeWhile_le [of P "drop n img"] length_takeWhile_le [of P "tl (drop n img)"] assms by auto
  then show ?thesis using assms by (auto simp: value_field_def Let_def)
qed

lemma parse_card_ok:
  assumes "length img = 80" "parse_card img old = (k, v, t, c)" "old \<noteq> None \<longrightarrow> storable old"
  shows "k = card_keyword img \<and> storable (Some k) \<and> ascii k \<and> storable (Some v) \<and> storable (Some t) \<and> (c \<noteq> None \<longrightarrow> storable c)"
proof -
  obtain fv fs fi where vf: "value_field img = (fv, fs, fi)" by (cases "value_field img")
  have l: "length fv \<le> 80" "length fi \<le> 80" using value_field_lengths [OF assms(1)] vf by auto
  have "length (dropWhile P fi) \<le> 80" for P using length_dropWhile_le [of P fi] l by linarith
  then have "storable (Some (comment_field fi))" using line_text_storable by (simp add: comment_field_def)
  moreover have "storable (Some (cs fv))" "storable (Some (line_text (drop 8 img)))"
    using cs_storable line_text_storable l assms(1) by auto
  moreover have "storable (Some [c])" if "c \<noteq> NUL" for c using that by (simp add: storable_def txt_of_def DEF_SZSBUF_def)
  ultimately show ?thesis using assms(2, 3) card_keyword_ok [of img] vf
    by (auto simp: parse_card_def Let_def split: if_splits)
qed

lemma read_cards_inv:
  assumes "kw_inv db gl rc" "\<forall>n. ma n" "old \<noteq> None \<longrightarrow> storable old" "read_cards ma maxcards imgs db n old = Inr (m, db')"
  shows "\<exists>gl' rc'. kw_inv db' gl' rc'"
  using assms
proof (induction imgs arbitrary: db gl rc n old)
  case (Cons img imgs)
  show ?case
  proof (cases "(maxcards \<noteq> 0 \<and> n \<ge> maxcards) \<or> length img \<noteq> 80 \<or> streq (card_keyword img) ''END''")
    case True
    then show ?thesis using Cons.prems(1, 4) by (auto split: if_splits)
  next
    case False
    obtain k v t co where p: "parse_card img old = (k, v, t, co)" by (cases "parse_card img old")
    obtain c where c: "co = Some c" and r: "bind_res (kwdb_AddEntry ma db (Some k) (Some v) (Some t) (Some c))
             (\<lambda>(ep, db). if ep < 0 then Inr (-1, db) else read_cards ma maxcards imgs db (n + 1) co) = Inr (m, db')"
      using Cons.prems(4) False p by (auto split: option.splits)
    have "length img = 80" using False by simp
    from parse_card_ok [OF this p Cons.prems(3)] have ok: "entry_ok (Some k) (Some v) (Some t) (Some c)" "storable co"
      by (auto simp: entry_ok_def c txt_of_def)
    obtain x d1 where a: "kwdb_AddEntry ma db (Some k) (Some v) (Some t) (Some c) = Inr (int x, d1)"
      "kw_inv d1 (gl @ [x]) (if txt_of (Some k) = [] then rc else x # rc)"
      using AddEntry_run [OF Cons.prems(1, 2) ok(1)] by blast
    then have "read_cards ma maxcards imgs d1 (n + 1) co = Inr (m, db')" using r by simp
    then show ?thesis using Cons.IH [OF a(2) Cons.prems(2)] ok(2) by blast
  qed
qed auto

lemma ReadFITS_inv:
  assumes "kw_inv db gl rc" "\<forall>n. ma n" "kwdb_ReadFITS ma db input maxcards = Inr (n, nb, db')"
  shows "\<exists>gl' rc'. kw_inv db' gl' rc'"
proof -
  obtain m d1 where 1: "read_cards ma maxcards input db 0 None = Inr (m, d1)"
    and 2: "(if m < 0 then Inr (-1, 0, d1)
       else bind_res (trim_blanks (maxitems d1) d1 0) (\<lambda>(nb, db). Inr (m, nb, db))) = Inr (n, nb, db')"
    using assms(3) by (auto simp: kwdb_ReadFITS_def bind_res_Inr_iff)
  obtain gl1 rc1 where inv: "kw_inv d1 gl1 rc1" using read_cards_inv [OF assms(1, 2) _ 1] by auto
  show ?thesis using 2 trim_blanks_run [OF inv kw_fuel(1) [OF kw_invD(1) [OF inv]], of 0] inv
    by (auto split: if_splits)
qed

text \<open>Deleting entries leaves the texts of the others.\<close>

definition kept :: "kwdb \<Rightarrow> nat list \<Rightarrow> kwdb \<Rightarrow> nat list \<Rightarrow> bool" where
  "kept db gl db' gl' \<longleftrightarrow> subseq gl' gl \<and> (\<forall>i. text_of db' i = text_of db i)"

lemma kept_refl: "kept db gl db gl"
  by (simp add: kept_def)

lemma kept_trans: "kept db gl db' gl' \<Longrightarrow> kept db' gl' db'' gl'' \<Longrightarrow> kept db gl db'' gl''"
  by (auto simp: kept_def intro: subseq_order.trans)

lemma subseq_remove1: "subseq (remove1 x xs) xs"
  by (induction xs) auto

lemma delete_keyword_total:
  assumes inv: "kw_inv db gl rc" and nm: "ascii name"
  shows "\<exists>db' gl' rc'. delete_keyword db name = Inr db' \<and> kw_inv db' gl' rc' \<and> kept db gl db' gl'"
proof (cases "matches db rc name")
  case Nil
  then have "delete_keyword db name = Inr db" using Lookup_run [OF inv nm, of 0] by (simp add: delete_keyword_def)
  then show ?thesis using inv kept_refl by blast
next
  case (Cons x xs)
  then have "x \<in> set rc" unfolding matches_def by (metis filter_is_subset list.set_intros(1) subsetD)
  then have x: "x \<in> set gl" using kw_rc_gl [OF kw_invD(1) [OF inv]] by simp
  have "x \<noteq> 0" using x kw_linksD(4) [OF kw_invD(1) [OF inv]] by auto
  obtain d where "kwdb_DeleteEntry db (int x) = Inr (0, d)" "kw_inv d (remove1 x gl) (remove1 x rc)" "\<forall>i f. text_of d i f = text_of db i f"
    using DeleteEntry_run [OF inv x] by blast
  moreover from this have "delete_keyword db name = Inr d"
    using \<open>x \<noteq> 0\<close> Lookup_run [OF inv nm, of 0] Cons by (simp add: delete_keyword_def)
  ultimately show ?thesis using subseq_remove1 [of x gl] by (auto simp: kept_def fun_eq_iff)
qed

lemma delete_keyword_inv:
  assumes "kw_inv db gl rc" "ascii name" "delete_keyword db name = Inr db'"
  shows "\<exists>gl' rc'. kw_inv db' gl' rc' \<and> kept db gl db' gl'"
  using delete_keyword_total [OF assms(1, 2)] assms(3) by auto

lemma delete_reserved_inv:
  assumes "kw_inv rs rgl rrc" "linked (\<lambda>i. nextglob (itab rs i)) q xs" "set xs \<subseteq> set rgl"
    "kw_inv db gl rc" "delete_reserved n rs (int q) db = Inr db'"
  shows "\<exists>gl' rc'. kw_inv db' gl' rc' \<and> kept db gl db' gl'"
  using assms(2-)
proof (induction n arbitrary: q xs db gl rc)
  case 0
  then show ?case using kept_refl by (auto split: if_splits)
next
  case (Suc n)
  show ?case
  proof (cases xs)
    case Nil
    then show ?thesis using Suc.prems kept_refl by auto
  next
    case (Cons x ys)
    then have x: "q = x" "x \<noteq> 0" "linked (\<lambda>i. nextglob (itab rs i)) (nextglob (itab rs x)) ys" "x \<in> set rgl" "set ys \<subseteq> set rgl"
      using Suc.prems by auto
    have nm: "kwdb_KWName rs (int x) = Some (name_of rs x)" "ascii (name_of rs x)"
      using GetEntry_run(2) [OF assms(1) x(4)] kw_linksD(13) [OF kw_invD(1) [OF assms(1)] x(4)] by simp_all
    obtain d1 where d1: "delete_keyword db (name_of rs x) = Inr d1" "delete_reserved n rs (int (nextglob (itab rs x))) d1 = Inr db'"
      using Suc.prems(4) nm(1) x by (auto simp: kwdb_Next_def bind_res_Inr_iff)
    obtain gl1 rc1 where "kw_inv d1 gl1 rc1" "kept db gl d1 gl1" using delete_keyword_inv [OF Suc.prems(3) nm(2) d1(1)] by auto
    then show ?thesis using Suc.IH [OF x(3, 5) _ d1(2)] kept_trans by blast
  qed
qed

text \<open>The keywords left to write: those of \<open>kwdb\<close> without the reserved ones and END.\<close>

lemma write_keywords_inv:
  assumes "kw_inv rs rgl rrc" "kw_inv db gl rc"
    "delete_reserved (maxitems rs) rs (kwdb_Head rs) db = Inr d1" "delete_keyword d1 ''END'' = Inr d2"
  shows "\<exists>gl' rc'. kw_inv d2 gl' rc' \<and> kept db gl d2 gl'"
proof -
  obtain gl1 rc1 where 1: "kw_inv d1 gl1 rc1" "kept db gl d1 gl1"
    using delete_reserved_inv [OF assms(1) kw_linksD(1) [OF kw_invD(1) [OF assms(1)]] subset_refl assms(2)]
      assms(3) [unfolded kwdb_Head_def] by blast
  have "ascii ''END''" by code_simp
  then show ?thesis using delete_keyword_inv [OF 1(1) _ assms(4)] kept_trans [OF 1(2)] by blast
qed

section \<open>Where a header is written\<close>

lemma length_put_text [simp]: "length (fst (put_text s st)) = length (fst st)"
  by (induction s arbitrary: st) auto

lemma length_put_raw [simp]: "length (fst (put_raw s st)) = length (fst st)"
  by (induction s arbitrary: st) auto

lemma length_format_card: "length (format_card k v t c) = 80"
  by (simp add: format_card_def put_value_def put_comment_def put_char_def Let_def)

lemma read_header_run:
  assumes i: "idle w p ds" and ma: "\<forall>n. de_ma e n" and pl: "header_place ds imno = Inr (Some (name, off))" "0 \<le> off"
    and r: "read_header e w p imno n = Inr (Some rs, w')"
  shows "\<exists>ds'. idle w' p ds' \<and> only_file w w' p ds ds' \<and> d_file ds' = d_file ds \<and> (\<exists>gl rc. kw_inv rs gl rc)"
proof -
  have ds: "get_ds w p = Inr ds" using i by (simp add: idle_def get_ds_def)
  obtain w1 where w1: "ds_open w p 0 = (0, w1)" "session w1 p ds (if mapped ds then 0 else d_kpos ds)" "only_file w w1 p ds ds"
    using ds_open_session [OF i] by blast
  obtain db0 where db0: "kwdb_Open (de_ma e) name = Inr (Some db0)"
    using r ds pl(1) by (auto simp: read_header_def bind_res_Inr_iff split: option.splits)
  have "length name + 2 \<le> DEF_SZSBUF" using db0 by (auto simp: kwdb_Open_def split: if_splits)
  then have inv0: "kw_inv db0 [] []" using kwdb_Open_inv [OF ma, of name] db0 by auto
  have rr: "bind_res (ds_lseek w1 0 off) (\<lambda>(r, w).
         if r < 0 then Inr (None, w)
         else bind_res (ds_chunks (length (d_file ds) + nat (filesize ds)) w 0) (\<lambda>input.
           bind_res (kwdb_ReadFITS (de_ma e) db0 input n) (\<lambda>(n, nblank, kwdb).
             let w = snd (ds_close w 0) in Inr (if n < 0 then None else Some kwdb, w)))) = Inr (Some rs, w')"
    using r ds pl(1) db0 w1(1) by (simp add: read_header_def)
  then obtain x w2 input m nb where w2: "ds_lseek w1 0 off = Inr (x, w2)"
    and rd: "kwdb_ReadFITS (de_ma e) db0 input n = Inr (m, nb, rs)" and w': "w' = snd (ds_close w2 0)"
    by (auto simp: bind_res_Inr_iff Let_def split: if_splits)
  obtain d2 where d2: "session w2 p d2 off" "only_file w1 w2 p ds d2" "d_file d2 = d_file ds"
    using ds_lseek_session [OF w1(2) pl(2) w2] by blast
  note c = ds_close_session [OF d2(1)]
  have "only_file w w' p ds d2"
    using only_file_trans [OF only_file_trans [OF w1(3) d2(2)]] c w' by blast
  then show ?thesis using c w' d2(3) ReadFITS_inv [OF inv0 ma rd] by blast
qed

definition header_geometry :: "DSImage \<Rightarrow> int \<Rightarrow> (int \<times> int \<times> int) res" where
  "header_geometry ds imno = (if imno = 0 then Inr (d_hdr_offset ds, d_maxkeywords ds, d_nreserved ds)
     else bind_res (get_image ds (nat imno - 1)) (\<lambda>im. Inr (im_hdr_offset im, im_maxkeywords im, im_nreserved im)))"

text \<open>The cards of a header of capacity \<open>maxcards\<close> from the first that is not reserved.\<close>

definition header_bytes :: "kwdb \<Rightarrow> nat list \<Rightarrow> int \<Rightarrow> string" where
  "header_bytes db gl room = concat (map (\<lambda>i. fits_card (entry_card db i)) gl
     @ replicate (nat (room - int (length gl) - 1)) blank_card @ [end_card])"

lemma concat_80: "\<forall>c \<in> set cards. length c = 80 \<Longrightarrow> length (concat cards) = 80 * length cards"
  by (induction cards) auto

lemma header_lengths:
  "\<forall>c \<in> set (map (\<lambda>i. fits_card (entry_card db i)) gl). length c = 80"
  "\<forall>c \<in> set (replicate n blank_card @ [end_card]). length c = 80"
proof -
  have "length blank_card = 80" "length end_card = 80" by code_simp+
  then show "\<forall>c \<in> set (map (\<lambda>i. fits_card (entry_card db i)) gl). length c = 80"
    "\<forall>c \<in> set (replicate n blank_card @ [end_card]). length c = 80"
    by (auto simp: fits_card_def length_format_card)
qed

lemma header_bytes_length:
  assumes "int (length gl) + 1 \<le> room"
  shows "int (length (header_bytes db gl room)) = 80 * room"
proof -
  let ?cards = "map (\<lambda>i. fits_card (entry_card db i)) gl" and ?fill = "replicate (nat (room - int (length gl) - 1)) blank_card @ [end_card]"
  have "length (header_bytes db gl room) = 80 * length (?cards @ ?fill)"
    unfolding header_bytes_def by (rule concat_80) (use header_lengths(1) [of db gl] header_lengths(2) [of "nat (room - int (length gl) - 1)"] in \<open>simp only: set_append ball_Un\<close>)
  then show ?thesis using assms by (simp add: nat_diff_distrib)
qed

lemma write_cards_at_run:
  assumes s: "session w p ds pos" and inv: "kw_inv db gl rc"
    and r: "write_cards_at e w 0 nres maxc db = Inr (0, fin, w')"
  shows "fin \<and> int (length gl) + 1 \<le> maxc - nres \<and> (\<exists>ds'. session w' p ds' (pos + 80 * (maxc - nres)) \<and> only_file w w' p ds ds'
     \<and> d_file ds' = overwrite pos (header_bytes db gl (maxc - nres)) (d_file ds)
     \<and> (mapped ds \<longrightarrow> pos + 80 * (maxc - nres) \<le> filesize ds))"
proof -
  let ?cards = "map (\<lambda>i. fits_card (entry_card db i)) gl"
  let ?fill = "replicate (nat (maxc - (nres + int (length gl) + 1))) blank_card @ [end_card]"
  have len: "kwdb_Len db = int (length gl)" using kw_linksD(7) [OF kw_invD(1) [OF inv]] by (simp add: kwdb_Len_def)
  have room: "nres + int (length gl) + 1 \<le> maxc" using r len by (auto simp: write_cards_at_def split: if_splits)
  obtain w1 where w1: "write_list e w 0 ?cards = Inr (True, w1)" "write_list e w1 0 ?fill = Inr (True, w')" "fin"
    using r room len WriteFITS_run [OF inv] by (auto simp: write_cards_at_def bind_res_Inr_iff split: if_splits)
  obtain d1 where d1: "session w1 p d1 (pos + 80 * int (length ?cards))" "only_file w w1 p ds d1"
    "d_file d1 = overwrite pos (concat ?cards) (d_file ds)"
    using write_list_session [OF s header_lengths(1) w1(1)] by blast
  obtain d2 where d2: "session w' p d2 (pos + 80 * int (length ?cards) + 80 * int (length ?fill))" "only_file w1 w' p d1 d2"
    "d_file d2 = overwrite (pos + 80 * int (length ?cards)) (concat ?fill) (d_file d1)"
    "mapped d1 \<longrightarrow> ?fill \<noteq> [] \<longrightarrow> pos + 80 * int (length ?cards) + 80 * int (length ?fill) \<le> filesize d1"
    using write_list_session [OF d1(1) header_lengths(2) w1(2)] by blast
  have n: "80 * int (length ?cards) + 80 * int (length ?fill) = 80 * (maxc - nres)" using room by simp
  have "int (length (concat ?cards)) = 80 * int (length ?cards)" using concat_80 [OF header_lengths(1)] by simp
  moreover have "0 \<le> pos" using s by (simp add: session_def)
  ultimately have "d_file d2 = overwrite pos (concat ?cards @ concat ?fill) (d_file ds)"
    using overwrite_append [of pos "concat ?cards" "concat ?fill" "d_file ds"] d2(3) d1(3) by simp
  moreover have "concat ?cards @ concat ?fill = header_bytes db gl (maxc - nres)"
    by (simp add: header_bytes_def algebra_simps)
  moreover have "mapped ds \<longrightarrow> pos + 80 * (maxc - nres) \<le> filesize ds"
    using d2(4) n only_file_mapped [OF d1(2)] only_file_filesize [OF d1(2)] by auto
  ultimately show ?thesis
    using w1(3) room d2(1) only_file_trans [OF d1(2) d2(2)] n
    by (intro conjI exI [of _ d2]) (auto simp: add.assoc)
qed

lemma write_header_run:
  assumes i: "idle w p ds" and ma: "\<forall>n. de_ma e n" and inv: "kw_inv kwdb gl rc"
    and g: "header_geometry ds imno = Inr (off, maxc, nres)" "0 \<le> off" "imno = 0 \<longrightarrow> off = 0" "0 \<le> nres" "nres * 80 < 2 ^ 31"
    and r: "write_header e w p imno kwdb = Inr (0, kwdb', w')"
  shows "\<exists>ds' gl' rc'. idle w' p ds' \<and> only_file w w' p ds ds' \<and> kw_inv kwdb' gl' rc' \<and> kept kwdb gl kwdb' gl' \<and> int (length gl') + 1 \<le> maxc - nres
     \<and> d_file ds' = overwrite (off + nres * 80) (header_bytes kwdb' gl' (maxc - nres)) (d_file ds)
     \<and> (mapped ds \<longrightarrow> off + maxc * 80 \<le> filesize ds)"
proof -
  have ds: "get_ds w p = Inr ds" using i by (simp add: idle_def get_ds_def)
  have im: "\<not> (imno \<noteq> 0 \<and> (imno < 1 \<or> imno > nimages ds \<or> imagelist ds = None))"
  proof
    assume "imno \<noteq> 0 \<and> (imno < 1 \<or> imno > nimages ds \<or> imagelist ds = None)"
    then have "write_header e w p imno kwdb = Inr (-1, kwdb, w)" using ds by (simp add: write_header_def)
    then show False using r by simp
  qed
  obtain name where pl: "header_place ds imno = Inr (Some (name, off))"
    using g(1, 3) im by (auto simp: header_place_def header_geometry_def bind_res_Inr_iff split: if_splits)
  obtain rs w1 where rs: "read_header e w p imno nres = Inr (Some rs, w1)"
    and r1: "bind_res (delete_reserved (maxitems rs) rs (kwdb_Head rs) kwdb) (\<lambda>kwdb.
     bind_res (delete_keyword kwdb ''END'') (\<lambda>kwdb.
       let (slot, w) = ds_open w1 p 2; fd = (if slot < 0 then 1 else 0) in
       if fd \<noteq> 0 then Inr (-1, kwdb, snd (ds_close w fd))
       else bind_res (ds_lseek w fd (off + i32 (nres * CARDLEN))) (\<lambda>(r, w).
         if r < 0 then Inr (-1, kwdb, snd (ds_close w fd))
         else bind_res (write_cards_at e w fd nres maxc kwdb) (\<lambda>(status, fin, w).
           Inr (status, kwdb, if fin then snd (ds_close w fd) else w))))) = Inr (0, kwdb', w')"
    using r ds im g(1) unfolding write_header_def header_geometry_def
    by (auto simp: bind_res_Inr_iff split: option.splits if_splits)
  obtain d1 rgl rrc where d1: "idle w1 p d1" "only_file w w1 p ds d1" "d_file d1 = d_file ds" "kw_inv rs rgl rrc"
    using read_header_run [OF i ma pl g(2) rs] by blast
  obtain k1 k2 where k: "delete_reserved (maxitems rs) rs (kwdb_Head rs) kwdb = Inr k1" "delete_keyword k1 ''END'' = Inr k2"
    using r1 by (auto simp: bind_res_Inr_iff)
  obtain gl' rc' where inv': "kw_inv k2 gl' rc'" "kept kwdb gl k2 gl'" using write_keywords_inv [OF d1(4) inv k] by blast
  obtain w2 where w2: "ds_open w1 p 2 = (0, w2)" "session w2 p d1 (if mapped d1 then 0 else d_kpos d1)" "only_file w1 w2 p d1 d1"
    using ds_open_session [OF d1(1)] by blast
  have o': "i32 (nres * CARDLEN) = nres * 80" using g(4, 5) by (simp add: CARDLEN_def)
  have "bind_res (ds_lseek w2 0 (off + nres * 80)) (\<lambda>(r, w).
         if r < 0 then Inr (-1, k2, snd (ds_close w 0))
         else bind_res (write_cards_at e w 0 nres maxc k2) (\<lambda>(status, fin, w).
           Inr (status, k2, if fin then snd (ds_close w 0) else w))) = Inr (0, kwdb', w')"
    using r1 by (simp only: Let_def k bind_res_simps w2(1) o' prod.case less_irrefl if_False simp_thms)
  then obtain xw where x: "ds_lseek w2 0 (off + nres * 80) = Inr xw"
    and y: "(case xw of (r, w) \<Rightarrow> if r < 0 then Inr (-1, k2, snd (ds_close w 0))
         else bind_res (write_cards_at e w 0 nres maxc k2) (\<lambda>(status, fin, w).
           Inr (status, k2, if fin then snd (ds_close w 0) else w))) = (Inr (0, kwdb', w') :: (int \<times> kwdb \<times> dsworld) res)"
    unfolding bind_res_Inr_iff by blast
  obtain z w3 where zw: "xw = (z, w3)" by (cases xw)
  have "\<not> z < 0" using y zw by auto
  then have "bind_res (write_cards_at e w3 0 nres maxc k2) (\<lambda>(status, fin, w).
           Inr (status, k2, if fin then snd (ds_close w 0) else w)) = (Inr (0, kwdb', w') :: (int \<times> kwdb \<times> dsworld) res)"
    using y zw by simp
  then obtain st fin w4 where "write_cards_at e w3 0 nres maxc k2 = Inr (st, fin, w4)"
    and "(st, k2, if fin then snd (ds_close w4 0) else w4) = (0, kwdb', w')"
    unfolding bind_res_Inr_iff by (fastforce simp del: snd_conv)
  then have w3: "ds_lseek w2 0 (off + nres * 80) = Inr (z, w3)" and w4: "write_cards_at e w3 0 nres maxc k2 = Inr (0, fin, w4)"
    and w': "w' = (if fin then snd (ds_close w4 0) else w4)" "kwdb' = k2" using x zw by simp_all
  obtain d3 where d3: "session w3 p d3 (off + nres * 80)" "only_file w2 w3 p d1 d3" "d_file d3 = d_file d1"
    using ds_lseek_session [OF w2(2) _ w3] g(2, 4) by auto
  obtain d4 where d4: "fin" "int (length gl') + 1 \<le> maxc - nres" "session w4 p d4 (off + nres * 80 + 80 * (maxc - nres))" "only_file w3 w4 p d3 d4"
    "d_file d4 = overwrite (off + nres * 80) (header_bytes k2 gl' (maxc - nres)) (d_file d3)"
    "mapped d3 \<longrightarrow> off + nres * 80 + 80 * (maxc - nres) \<le> filesize d3"
    using write_cards_at_run [OF d3(1) inv'(1) w4] by blast
  note c = ds_close_session [OF d4(3)]
  have f: "only_file w w3 p ds d3" using only_file_trans [OF only_file_trans [OF d1(2) w2(3)] d3(2)] .
  have "only_file w w' p ds d4"
    using only_file_trans [OF only_file_trans [OF f d4(4)]] c w' d4(1) by simp
  moreover have "mapped ds \<longrightarrow> off + maxc * 80 \<le> filesize ds"
    using d4(6) only_file_mapped [OF f] only_file_filesize [OF f] by (auto simp: algebra_simps)
  ultimately show ?thesis
    using c w' d4(1, 2, 5) d3(3) d1(3) inv' by (intro exI [of _ d4] exI [of _ gl'] exI [of _ rc']) simp
qed

section \<open>The layout\<close>

lemma round_up:
  fixes n :: int
  assumes "0 \<le> n"
  shows "cdiv (n + BLKLEN - 1) BLKLEN * BLKLEN = (n + 2879) div 2880 * 2880"
    and "n \<le> (n + 2879) div 2880 * 2880" "(n + 2879) div 2880 * 2880 < n + 2880"
  using assms div_mult_mod_eq [of "n + 2879" 2880] pos_mod_bound [of 2880 "n + 2879"] pos_mod_sign [of 2880 "n + 2879"]
  by (simp_all add: cdiv_def BLKLEN_def)

lemma round_blocks_eq:
  assumes "0 \<le> n" "n + 2880 < 2 ^ 31"
  shows "round_blocks n = (n + 2879) div 2880 * 2880"
proof -
  have i: "i32 (n + BLKLEN - 1) = n + BLKLEN - 1" using assms by (intro i32_id) (auto simp: BLKLEN_def)
  have "- (2 ^ 31) \<le> (n + 2879) div 2880 * 2880" "(n + 2879) div 2880 * 2880 < 2 ^ 31"
    using round_up(2, 3) [OF assms(1)] assms by linarith+
  then show ?thesis unfolding round_blocks_def i round_up(1) [OF assms(1)] by simp
qed

text \<open>A header holds the number of keywords asked for, rounded up to whole blocks of 36 cards.\<close>

lemma header_capacity_spec:
  assumes "0 \<le> n" "n * 80 + 2880 < 2 ^ 31"
  shows "n \<le> header_capacity n \<and> header_capacity n < n + 36 \<and> 36 dvd header_capacity n
    \<and> i32 (header_capacity n * CARDLEN) = header_capacity n * 80"
proof -
  let ?b = "(n * 80 + 2879) div 2880"
  have "i32 (n * CARDLEN) = n * 80" using assms by (simp add: CARDLEN_def)
  then have b: "round_blocks (i32 (n * CARDLEN)) = ?b * 2880" using round_blocks_eq [of "n * 80"] assms by simp
  have "0 \<le> ?b" using assms by (simp add: pos_imp_zdiv_nonneg_iff)
  then have c: "header_capacity n = ?b * 36" unfolding header_capacity_def b by (simp add: cdiv_def CARDLEN_def)
  have r: "n * 80 \<le> ?b * 2880" "?b * 2880 < n * 80 + 2880" using round_up(2, 3) [of "n * 80"] assms(1) by simp_all
  then have "i32 (?b * 36 * CARDLEN) = ?b * 2880" using assms \<open>0 \<le> ?b\<close> by (simp add: CARDLEN_def)
  then show ?thesis using r by (simp add: c)
qed

definition npix :: "Image \<Rightarrow> int" where
  "npix im = (if naxes im = 0 then 0 else prod_list (take (nat (naxes im)) (axlen im)))"

text \<open>An image that can be laid out: \<open>int\<close> holds the sizes of its header and of its pixels in bytes.\<close>

definition can_place :: "int \<Rightarrow> Image \<Rightarrow> bool" where
  "can_place dmax im \<longleftrightarrow>
     (let n = (if im_maxkeywords im = 0 then dmax else im_maxkeywords im) in 0 < n \<and> n * 80 + 2880 < 2 ^ 31)
     \<and> length (axlen im) = MAXDIM \<and> 0 \<le> naxes im \<and> naxes im \<le> int MAXDIM
     \<and> list_all (\<lambda>n. 0 < n \<and> n < 2 ^ 31) (take (nat (naxes im)) (axlen im))
     \<and> npix im < 2 ^ 31 \<and> npix im * PixelSize (pixtype im) + 2880 < 2 ^ 31 \<and> 0 \<le> im_extend im"

lemma prod_list_pos: "list_all (\<lambda>n. 0 < n) xs \<Longrightarrow> 0 < prod_list (xs :: int list)"
  by (induction xs) auto

lemma fold_prod:
  assumes "list_all (\<lambda>n. 0 < n) xs" "0 < a" "a * prod_list xs < 2 ^ 31"
  shows "fold (\<lambda>n a. i32 (a * n)) xs a = a * prod_list xs"
  using assms
proof (induction xs arbitrary: a)
  case (Cons x xs)
  have pos: "0 < x" "0 < prod_list xs" "0 < a * x" using Cons.prems prod_list_pos by auto
  have "a * x \<le> a * x * prod_list xs" by (rule le_times_pos) (use pos in auto)
  then have "i32 (a * x) = a * x" using Cons.prems(3) pos by (intro i32_id) (auto simp: mult.assoc)
  then show ?case using Cons.IH [of "a * x"] Cons.prems pos by (simp add: mult.assoc)
qed simp

lemma num_pixels_eq:
  assumes "length (axlen im) = MAXDIM" "0 \<le> naxes im" "naxes im \<le> int MAXDIM"
    "list_all (\<lambda>n. 0 < n) (take (nat (naxes im)) (axlen im))" "npix im < 2 ^ 31"
  shows "num_pixels im = npix im" "0 \<le> npix im"
proof -
  show "0 \<le> npix im" using prod_list_pos [OF assms(4)] by (simp add: npix_def)
  show "num_pixels im = npix im"
  proof (cases "naxes im = 0")
    case False
    then obtain m where m: "nat (naxes im) = Suc m" using assms(2) by (cases "nat (naxes im)") auto
    obtain x xs where x: "axlen im = x # xs" using assms(1) by (cases "axlen im") (auto simp: MAXDIM_def)
    have t: "take (nat (naxes im)) (axlen im) = x # take m xs" by (simp only: m x take_Suc_Cons)
    have "npix im = x * prod_list (take m xs)" using False by (simp add: npix_def t)
    moreover have "num_pixels im = fold (\<lambda>n a. i32 (a * n)) (take m xs) x"
      using False by (simp add: num_pixels_def m x)
    ultimately show ?thesis using fold_prod [of "take m xs" x] assms(4, 5) t by simp
  qed (simp add: num_pixels_def npix_def)
qed

text \<open>An image placed at \<open>start\<close>, as asked for by \<open>im\<close>: \<open>im'\<close> with the end of its area.\<close>

definition placed :: "int \<Rightarrow> int \<Rightarrow> Image \<Rightarrow> Image \<Rightarrow> bool" where
  "placed dmax start im im' \<longleftrightarrow>
     im_hdr_offset im' = start \<and> pix_offset im' = start + im_maxkeywords im' * 80
     \<and> (let n = if im_maxkeywords im = 0 then dmax else im_maxkeywords im in n \<le> im_maxkeywords im' \<and> im_maxkeywords im' < n + 36)
     \<and> 36 dvd im_maxkeywords im'
     \<and> pixsize im' = PixelSize (pixtype im) \<and> npix im' = npix im
     \<and> im_extend im \<le> im_extend im' \<and> im_extend im' < im_extend im + 2880 \<and> 2880 dvd im_extend im'
     \<and> pix_offset im' + npix im * pixsize im' + im_extend im' \<le> start + extnsize im'
     \<and> start + extnsize im' < pix_offset im' + npix im * pixsize im' + im_extend im' + 2880
     \<and> 2880 dvd extnsize im'"

lemma pixel_bytes_eq:
  assumes "num_pixels im = npix im" "0 \<le> npix im" "0 \<le> pixsize im" "npix im * pixsize im + 2880 < 2 ^ 31"
  shows "pixel_bytes im = (npix im * pixsize im + 2879) div 2880 * 2880"
proof -
  have n: "0 \<le> npix im * pixsize im" using assms(2, 3) by simp
  have "i32 (npix im * pixsize im) = npix im * pixsize im" by (rule i32_id) (use n assms(4) in linarith)+
  then have "i32 (num_pixels im * pixsize im) = npix im * pixsize im" by (simp only: assms(1))
  then show ?thesis using round_blocks_eq [OF n assms(4)] by (simp add: pixel_bytes_def round_blocks_def)
qed

lemma PixelSize_nonneg: "0 \<le> PixelSize t"
  by (simp add: PixelSize_def)

lemma place_image_spec:
  assumes c: "can_place dmax im" and p: "place_pixels (place_header dmax start im) = (im', fs)"
  shows "placed dmax start im im' \<and> fs = start + extnsize im' \<and> 0 < im_maxkeywords im'"
proof -
  define n where "n = (if im_maxkeywords im = 0 then dmax else im_maxkeywords im)"
  define h where "h = (place_header dmax start im)\<lparr>pixsize := PixelSize (pixtype im)\<rparr>"
  let ?c = "header_capacity n"
  have n: "0 < n" "n * 80 + 2880 < 2 ^ 31" using c by (simp_all add: can_place_def Let_def n_def)
  note cap = header_capacity_spec [OF less_imp_le [OF n(1)] n(2)]
  have ax: "length (axlen im) = MAXDIM" "0 \<le> naxes im" "naxes im \<le> int MAXDIM" "0 \<le> im_extend im"
    "list_all (\<lambda>n. 0 < n) (take (nat (naxes im)) (axlen im))" "npix im < 2 ^ 31" "npix im * PixelSize (pixtype im) + 2880 < 2 ^ 31"
    using c by (auto simp: can_place_def Let_def elim: list.pred_mono_strong)
  have h: "axlen h = take (nat (naxes im)) (axlen im) @ replicate (MAXDIM - nat (naxes im)) 1" "naxes h = naxes im"
    "im_hdr_offset h = start" "im_maxkeywords h = ?c" "im_extend h = im_extend im" "pixsize h = PixelSize (pixtype im)"
    "pix_offset h = start + ?c * 80"
    using cap by (simp_all add: h_def place_header_def Let_def flip: n_def)
  have ln: "length (take (nat (naxes im)) (axlen im)) = nat (naxes im)" using ax(1, 3) by simp
  have np: "npix h = npix im" using ln by (simp add: npix_def h(1, 2))
  have la: "length (axlen h) = MAXDIM" using ln ax(3) by (simp add: h(1))
  have tk: "take (nat (naxes h)) (axlen h) = take (nat (naxes im)) (axlen im)" using ln by (simp add: h(1, 2))
  have "num_pixels h = npix h" "0 \<le> npix h"
    using num_pixels_eq [of h, unfolded tk, unfolded np h(2), OF la ax(2, 3, 5, 6)] np by simp_all
  then have pb: "pixel_bytes h = (npix im * PixelSize (pixtype im) + 2879) div 2880 * 2880" and np0: "0 \<le> npix im"
    using pixel_bytes_eq [of h] ax(7) PixelSize_nonneg [of "pixtype im"] np h(6) by simp_all
  let ?e = "(im_extend im + 2879) div 2880 * 2880" and ?b = "(npix im * PixelSize (pixtype im) + 2879) div 2880 * 2880"
  have "pixtype (place_header dmax start im) = pixtype im" by (simp add: place_header_def Let_def)
  then have "place_pixels (place_header dmax start im)
      = (h\<lparr>im_extend := ?e, extnsize := pix_offset h + pixel_bytes h + ?e - im_hdr_offset h\<rparr>, pix_offset h + pixel_bytes h + ?e)"
    using round_up(1) [OF ax(4)] h(5) by (simp add: place_pixels_def Let_def flip: h_def)
  then have im': "im' = h\<lparr>im_extend := ?e, extnsize := ?c * 80 + ?b + ?e\<rparr>" "fs = start + (?c * 80 + ?b + ?e)"
    using p pb h by simp_all
  have "npix im' = npix h" by (simp add: im'(1) npix_def)
  then have np': "npix im' = npix im" using np by simp
  have "0 \<le> npix im * PixelSize (pixtype im)" using np0 PixelSize_nonneg by simp
  note r = round_up(2, 3) [OF this] round_up(2, 3) [OF ax(4)]
  have k: "im_maxkeywords im' = ?c" "im_hdr_offset im' = start" "pix_offset im' = start + ?c * 80" "pixsize im' = PixelSize (pixtype im)"
    "im_extend im' = ?e" "extnsize im' = ?c * 80 + ?b + ?e" using h by (simp_all add: im'(1))
  obtain q where q: "?c = 36 * q" using cap by blast
  have "2880 dvd ?c * 80" by (simp add: q)
  then have "2880 dvd extnsize im'" unfolding k by (intro dvd_add) simp_all
  then show ?thesis using cap n(1) r unfolding placed_def k np' im'(2) n_def [symmetric] Let_def by auto
qed

lemma placed_named:
  assumes "im_maxkeywords im0 = im_maxkeywords im" "pixtype im0 = pixtype im" "naxes im0 = naxes im" "axlen im0 = axlen im"
    "im_extend im0 = im_extend im"
  shows "can_place dmax im0 = can_place dmax im" "placed dmax start im0 im' = placed dmax start im im'"
  using assms by (simp_all add: can_place_def placed_def npix_def)

section \<open>The reserved headers\<close>

lemma ascii_append [simp]: "ascii (s @ t) \<longleftrightarrow> ascii s \<and> ascii t"
  by (auto simp: ascii_def)

lemma digits_plain: "list_all isdigit s \<Longrightarrow> ascii s \<and> cstring s"
proof -
  have "isdigit c \<Longrightarrow> c \<noteq> NUL \<and> (of_char c :: nat) < 128" for c
    using isdigit_classes [of c] by (simp add: isdigit_def)
  then show "list_all isdigit s \<Longrightarrow> ascii s \<and> cstring s" unfolding list.pred_set ascii_def cstring_def by blast
qed

lemma show_int_ascii: "ascii (show_int n) \<and> cstring (show_int n)"
proof -
  have "ascii ''-''" by code_simp
  then show ?thesis using digits_plain [OF show_nat_digits, of "nat n"] digits_plain [OF show_nat_digits, of "nat (- n)"]
    unfolding show_int_def by (simp add: ascii_def)
qed

lemma show_int_storable:
  assumes "\<bar>n\<bar> \<le> 2 ^ 31"
  shows "storable (Some (show_int n))"
proof -
  have "nat n < 10 ^ 10" "nat (- n) < 10 ^ 10" using assms by auto
  then have "length (show_nat (nat n)) \<le> 10" "length (show_nat (nat (- n))) \<le> 10" using length_show_nat by simp_all
  then have "length (show_int n) < DEF_SZSBUF" by (simp add: show_int_def DEF_SZSBUF_def)
  then show ?thesis using show_int_ascii by (simp add: storable_def txt_of_def)
qed

lemma pad_int_plain: "cstring (pad_int d n)"
  using digits_plain [OF show_nat_digits] by (auto simp: pad_int_def Let_def show_int_def cstring_def)

lemma format_int_plain: "format_int s dirv a = Inr t \<Longrightarrow> cstring s \<Longrightarrow> cstring t"
  by (induction s arbitrary: dirv a t) (auto simp: bind_res_Inr_iff pad_int_plain split: option.splits if_splits)

definition texts_ok :: "Image \<Rightarrow> bool" where
  "texts_ok im \<longleftrightarrow> cstring (im_type im) \<and> length (im_type im) < SZ_PATHNAME \<and> cstring (im_name im) \<and> length (im_name im) < SZ_PATHNAME"

lemma name_image_spec:
  assumes "name_image fmt number nim im = Inr (im0, nim')" "cstring fmt" "texts_ok im"
  shows "texts_ok im0 \<and> im_maxkeywords im0 = im_maxkeywords im \<and> pixtype im0 = pixtype im \<and> naxes im0 = naxes im
    \<and> axlen im0 = axlen im \<and> im_extend im0 = im_extend im \<and> im_nreserved im0 = im_nreserved im"
proof -
  have "cstring ''IMAGE''" "cstring (''extn'' @ show_int number)" using show_int_ascii by simp_all
  then show ?thesis using assms
    by (auto simp: name_image_def bind_res_Inr_iff Let_def texts_ok_def SZ_PATHNAME_def dest: format_int_plain split: if_splits)
qed

definition card_storable :: "card_text \<Rightarrow> bool" where
  "card_storable c = (case c of (k, v, t, com) \<Rightarrow> entry_ok (Some k) (Some v) (Some t) (Some com))"

lemma add_cards_inv:
  assumes "kw_inv db gl rc" "\<forall>n. ma n" "list_all card_storable cards" "add_cards ma db cards = Inr db'"
  shows "\<exists>gl' rc'. kw_inv db' gl' rc'"
  using assms
proof (induction cards arbitrary: db gl rc)
  case (Cons c cards)
  obtain k v t com where c: "c = (k, v, t, com)" by (cases c)
  then have ok: "entry_ok (Some k) (Some v) (Some t) (Some com)" using Cons.prems(3) by (simp add: card_storable_def)
  obtain x d1 where "kwdb_AddEntry ma db (Some k) (Some v) (Some t) (Some com) = Inr (int x, d1)"
    "kw_inv d1 (gl @ [x]) (if txt_of (Some k) = [] then rc else x # rc)"
    using AddEntry_run [OF Cons.prems(1, 2) ok] by blast
  moreover from this have "add_cards ma d1 cards = Inr db'" using Cons.prems(4) by (simp add: c)
  moreover have "list_all card_storable cards" using Cons.prems(3) by simp
  ultimately show ?case using Cons.IH [OF _ Cons.prems(2)] by blast
qed auto

lemma literal_ok: "cstring s \<Longrightarrow> length s < 200 \<Longrightarrow> storable (Some s)"
  by (simp add: storable_def txt_of_def DEF_SZSBUF_def)

lemma phu_cards_ok:
  assumes "\<bar>nimages ds\<bar> \<le> 2 ^ 31" "storable (Some (d_name ds))"
  shows "list_all card_storable (phu_cards ds)"
  using assms show_int_storable [of "nimages ds"]
  by (simp add: phu_cards_def card_storable_def entry_ok_def literal_ok txt_of_def ascii_def)

lemma ehu_cards_ok:
  assumes t: "texts_ok im" and n: "0 \<le> naxes im" "naxes im \<le> int MAXDIM" "length (axlen im) = MAXDIM"
    and a: "\<forall>i < nat (naxes im). \<bar>axlen im ! i\<bar> \<le> 2 ^ 31"
  shows "list_all card_storable (ehu_cards im)"
proof -
  have i: "storable (Some (show_int (i32 k)))" for k
    using i32_range [of k] by (intro show_int_storable) (simp add: abs_le_iff)
  have x: "storable (Some (im_type im))" "storable (Some (im_name im))" "storable (Some (show_int (naxes im)))"
    using t n by (auto simp: texts_ok_def MAXDIM_def storable_def txt_of_def DEF_SZSBUF_def SZ_PATHNAME_def intro!: show_int_storable [unfolded storable_def txt_of_def DEF_SZSBUF_def, simplified])
  have ax: "card_storable (''NAXIS'' @ show_nat k, show_int (axlen im ! (k - 1)), ''N'', ''Length of axis '' @ show_nat k)"
    if k: "k \<in> set [1..<nat (naxes im) + 1]" for k
  proof -
    have s: "ascii (show_nat k)" "cstring (show_nat k)" using digits_plain [OF show_nat_digits] by simp_all
    have "length (show_nat k) \<le> 1" using k n by (intro length_show_nat) (auto simp: MAXDIM_def)
    then have "storable (Some (''NAXIS'' @ show_nat k))" "storable (Some (''Length of axis '' @ show_nat k))"
      using s by (auto intro!: literal_ok)
    moreover have "storable (Some (show_int (axlen im ! (k - 1))))" using a k by (intro show_int_storable) auto
    moreover have "ascii (''NAXIS'' @ show_nat k)" using s(1) by (simp add: ascii_def)
    ultimately show ?thesis by (simp add: card_storable_def entry_ok_def txt_of_def literal_ok)
  qed
  have c: "card_storable (k, v, ''N'', com)"
    if "ascii k" "cstring k" "storable (Some v)" "cstring com" "length k < 200" "length com < 200" for k v com
    using that by (simp add: card_storable_def entry_ok_def literal_ok txt_of_def)
  have cS: "card_storable (k, v, ''S'', com)"
    if "ascii k" "cstring k" "storable (Some v)" "cstring com" "length k < 200" "length com < 200" for k v com
    using that by (simp add: card_storable_def entry_ok_def literal_ok txt_of_def)
  have ascii_l: "ascii ''XTENSION''" "ascii ''BITPIX''" "ascii ''NAXIS''" "ascii ''BSCALE''" "ascii ''BZERO''" "ascii ''PCOUNT''"
    "ascii ''GCOUNT''" "ascii ''EXTNAME''" by code_simp+
  show ?thesis unfolding ehu_cards_def list.pred_set set_append ball_Un
    by (intro conjI) (use ax i x ascii_l in \<open>auto simp: literal_ok intro!: c cS\<close>)
qed

definition status_ok :: "(int \<times> kwdb \<times> dsworld) res \<Rightarrow> bool" where
  "status_ok r \<longleftrightarrow> (\<forall>x k w. r = Inr (x, k, w) \<longrightarrow> x = 0 \<or> x = -1)"

lemma status_bind: "(\<And>x. status_ok (f x)) \<Longrightarrow> status_ok (bind_res m f)"
  by (cases m) (auto simp: status_ok_def)

lemma status_fail: "status_ok (Inr (-1, k, w))" "status_ok (Inl f)"
  by (simp_all add: status_ok_def)

lemma status_cards: "status_ok (bind_res (write_cards_at e w fd nres maxc k) (\<lambda>(status, fin, w). Inr (status, g, h fin w)))"
proof -
  have "x = 0 \<or> x = -1" if "write_cards_at e w fd nres maxc k = Inr (x, fin, w')" for x fin w'
    using that by (auto simp: write_cards_at_def bind_res_Inr_iff split: if_splits)
  then show ?thesis by (auto simp: status_ok_def bind_res_Inr_iff)
qed

lemma status_if: "status_ok a \<Longrightarrow> status_ok b \<Longrightarrow> status_ok (if c then a else b)"
  by simp

lemma status_option: "status_ok a \<Longrightarrow> (\<And>x. status_ok (b x)) \<Longrightarrow> status_ok (case o' of None \<Rightarrow> a | Some x \<Rightarrow> b x)"
  by (cases o') auto

lemma status_prod: "(\<And>x y. status_ok (f x y)) \<Longrightarrow> status_ok (case p of (x, y) \<Rightarrow> f x y)"
  by (cases p) auto

lemma write_header_status:
  assumes "write_header e w p imno kwdb = Inr (x, kwdb', w')"
  shows "x = 0 \<or> x = -1"
proof -
  have "status_ok (write_header e w p imno kwdb)"
    unfolding write_header_def Let_def
    by (intro status_cards status_fail status_if status_option status_prod status_bind)
  then show ?thesis using assms by (simp add: status_ok_def)
qed

definition wf_file :: "DSImage \<Rightarrow> bool" where
  "wf_file ds \<longleftrightarrow> \<not> mapped ds \<and> storable (Some (d_name ds)) \<and> cstring (imformat ds) \<and> \<bar>nimages ds\<bar> \<le> 2 ^ 31 \<and> d_hdr_offset ds = 0"

lemma only_file_wf: "only_file w w' p ds ds' \<Longrightarrow> wf_file ds \<Longrightarrow> wf_file ds'"
  by (auto simp: only_file_def wf_file_def mapped_def)

lemma reserved_header_run:
  assumes i: "idle w p ds" and ma: "\<forall>n. de_ma e n" and st: "list_all card_storable cards"
    and g: "header_geometry ds imno = Inr (off, maxc, nres)" "0 \<le> off" "imno = 0 \<longrightarrow> off = 0" "0 \<le> nres" "nres * 80 < 2 ^ 31"
    and r: "reserved_header e w p imno name cards = Inr (Some n, w')"
  shows "\<exists>ds' bs. idle w' p ds' \<and> only_file w w' p ds ds' \<and> 0 \<le> n \<and> n < maxc
     \<and> d_file ds' = overwrite (off + nres * 80) bs (d_file ds) \<and> bs \<noteq> [] \<and> int (length bs) = 80 * (maxc - nres)"
proof -
  obtain db0 where db0: "kwdb_Open (de_ma e) name = Inr (Some db0)"
    using r by (auto simp: reserved_header_def bind_res_Inr_iff split: option.splits)
  have "length name + 2 \<le> DEF_SZSBUF" using db0 by (auto simp: kwdb_Open_def split: if_splits)
  then have inv0: "kw_inv db0 [] []" using kwdb_Open_inv [OF ma, of name] db0 by auto
  obtain db1 x db2 where a: "add_cards (de_ma e) db0 cards = Inr db1" and wh: "write_header e w p imno db1 = Inr (x, db2, w')"
    and n: "\<not> x < 0" "n = kwdb_Len db2"
    using r db0 by (auto simp: reserved_header_def bind_res_Inr_iff split: if_splits)
  obtain gl rc where inv: "kw_inv db1 gl rc" using add_cards_inv [OF inv0 ma st a] by blast
  have "x = 0 \<or> x = -1" using write_header_status [OF wh] .
  then have "write_header e w p imno db1 = Inr (0, db2, w')" using wh n by auto
  from write_header_run [OF i ma inv g this] obtain ds' gl' rc' where *: "idle w' p ds'" "only_file w w' p ds ds'" "kw_inv db2 gl' rc'"
    "int (length gl') + 1 \<le> maxc - nres" "d_file ds' = overwrite (off + nres * 80) (header_bytes db2 gl' (maxc - nres)) (d_file ds)"
    by blast
  have "n = int (length gl')" using n(2) kw_linksD(7) [OF kw_invD(1) [OF *(3)]] by (simp add: kwdb_Len_def)
  moreover have l: "int (length (header_bytes db2 gl' (maxc - nres))) = 80 * (maxc - nres)" by (rule header_bytes_length [OF *(4)])
  moreover have "header_bytes db2 gl' (maxc - nres) \<noteq> []" using l *(4) by auto
  ultimately show ?thesis using * g(4) by (intro exI [of _ ds'] exI [of _ "header_bytes db2 gl' (maxc - nres)"]) auto
qed

section \<open>Configuring\<close>

definition conf_frame :: "dsworld \<Rightarrow> dsworld \<Rightarrow> nat \<Rightarrow> DSImage \<Rightarrow> DSImage \<Rightarrow> bool" where
  "conf_frame w w' p ds ds' \<longleftrightarrow> dsims w' = (dsims w)(p \<mapsto> ds') \<and> w_vm w' = w_vm w
     \<and> (\<exists>il fs f k. ds' = ds\<lparr>imagelist := il, filesize := fs, d_file := f, d_kpos := k\<rparr>)"

lemma conf_frame_trans:
  assumes "conf_frame w w' p ds ds'" "conf_frame w' w'' p ds' ds''"
  shows "conf_frame w w'' p ds ds''"
proof -
  obtain il fs f k where 1: "ds' = ds\<lparr>imagelist := il, filesize := fs, d_file := f, d_kpos := k\<rparr>"
    using assms(1) by (auto simp: conf_frame_def)
  obtain il' fs' f' k' where "ds'' = ds'\<lparr>imagelist := il', filesize := fs', d_file := f', d_kpos := k'\<rparr>"
    using assms(2) by (auto simp: conf_frame_def)
  then have "ds'' = ds\<lparr>imagelist := il', filesize := fs', d_file := f', d_kpos := k'\<rparr>" by (simp add: 1)
  then show ?thesis using assms by (fastforce simp: conf_frame_def)
qed

lemma only_file_conf: "only_file w w' p ds ds' \<Longrightarrow> conf_frame w w' p ds ds'"
proof -
  assume a: "only_file w w' p ds ds'"
  then obtain f k where "ds' = ds\<lparr>d_file := f, d_kpos := k\<rparr>" by (auto simp: only_file_def)
  then have "ds' = ds\<lparr>imagelist := imagelist ds, filesize := filesize ds, d_file := f, d_kpos := k\<rparr>" by simp
  then show ?thesis using a unfolding only_file_def conf_frame_def by blast
qed

lemma put_conf:
  assumes "idle w p ds" "ds' = ds\<lparr>imagelist := il, filesize := fs\<rparr>"
  shows "idle (put_ds w p ds') p ds' \<and> conf_frame w (put_ds w p ds') p ds ds'"
proof -
  have "ds' = ds\<lparr>imagelist := il, filesize := fs, d_file := d_file ds, d_kpos := d_kpos ds\<rparr>" using assms(2) by simp
  then have "\<exists>il fs f k. ds' = ds\<lparr>imagelist := il, filesize := fs, d_file := f, d_kpos := k\<rparr>" by blast
  then have "conf_frame w (put_ds w p ds') p ds ds'" unfolding conf_frame_def by (simp add: put_ds_def)
  moreover have "idle (put_ds w p ds') p ds'" using assms by (simp add: idle_def put_ds_def)
  ultimately show ?thesis by blast
qed

lemma conf_frame_wf: "conf_frame w w' p ds ds' \<Longrightarrow> wf_file ds \<Longrightarrow> wf_file ds' \<and> d_maxkeywords ds' = d_maxkeywords ds
    \<and> nimages ds' = nimages ds \<and> d_mode ds' = d_mode ds \<and> hdr_length ds' = hdr_length ds"
  by (auto simp: conf_frame_def wf_file_def mapped_def)

lemma put_image_simps [simp]:
  "filesize (put_image ds k x) = filesize ds" "d_file (put_image ds k x) = d_file ds"
  by (simp_all add: put_image_def)

lemma set_conv_simps [simp]:
  "extnsize (set_conv im) = extnsize im" "pix_offset (set_conv im) = pix_offset im" "im_hdr_offset (set_conv im) = im_hdr_offset im"
  by (simp_all add: set_conv_def)

lemma placed_cong: "placed dmax start im (set_conv (im'\<lparr>im_nreserved := n\<rparr>)) = placed dmax start im im'"
  by (simp add: placed_def set_conv_def npix_def)

lemma placed_image_facts:
  assumes nm: "name_image fmt number nim im = Inr (im0, nim0)" and pp: "place_pixels (place_header dmax start im0) = (im1, fs)"
    and ok: "can_place dmax im" "texts_ok im" and cst: "cstring fmt"
  shows "placed dmax start im im1" "fs = start + extnsize im1" "36 \<le> im_maxkeywords im1" "im_nreserved im1 = im_nreserved im" "texts_ok im1"
    "list_all card_storable (ehu_cards im1)" "length (ehu_cards im1) \<le> 16" "naxes (place_header dmax start im0) = naxes im"
    "pixtype (place_header dmax start im0) = pixtype im"
proof -
  note nms = name_image_spec [OF nm cst ok(2)]
  have pl: "placed dmax start im im1 \<and> fs = start + extnsize im1 \<and> 0 < im_maxkeywords im1"
    using place_image_spec [OF _ pp] placed_named [of im0 im] nms ok(1) by auto
  then show "placed dmax start im im1" "fs = start + extnsize im1" by simp_all
  have "36 dvd im_maxkeywords im1" "0 < im_maxkeywords im1" using pl by (simp_all add: placed_def)
  then show "36 \<le> im_maxkeywords im1" by (rule zdvd_imp_le)
  have flds: "im_nreserved im1 = im_nreserved im" "naxes im1 = naxes im" "im_type im1 = im_type im0" "im_name im1 = im_name im0"
    "axlen im1 = take (nat (naxes im)) (axlen im) @ replicate (MAXDIM - nat (naxes im)) 1"
    using pp nms by (auto simp: place_pixels_def place_header_def Let_def)
  then show "im_nreserved im1 = im_nreserved im" "texts_ok im1" using nms by (simp_all add: texts_ok_def)
  have cp: "length (axlen im) = MAXDIM" "0 \<le> naxes im" "naxes im \<le> int MAXDIM" "list_all (\<lambda>n. 0 < n \<and> n < 2 ^ 31) (take (nat (naxes im)) (axlen im))"
    using ok(1) by (simp_all add: can_place_def Let_def)
  have ax: "\<bar>axlen im1 ! j\<bar> \<le> 2 ^ 31" if j: "j < nat (naxes im1)" for j
  proof -
    have l: "j < length (take (nat (naxes im)) (axlen im))" using j cp by (simp add: flds(2))
    have "axlen im1 ! j = take (nat (naxes im)) (axlen im) ! j" using l by (simp add: flds(5) nth_append)
    moreover have "0 < take (nat (naxes im)) (axlen im) ! j \<and> take (nat (naxes im)) (axlen im) ! j < 2 ^ 31"
      using cp(4) l by (simp only: list_all_length)
    ultimately show ?thesis by simp
  qed
  show "list_all card_storable (ehu_cards im1)"
    by (rule ehu_cards_ok) (use nms cp ax flds in \<open>auto simp: texts_ok_def\<close>)
  have "nat (naxes im1) \<le> 8" using cp flds(2) by (simp add: MAXDIM_def)
  then show "length (ehu_cards im1) \<le> 16" by (simp add: ehu_cards_def)
  show "naxes (place_header dmax start im0) = naxes im" "pixtype (place_header dmax start im0) = pixtype im"
    using nms by (simp_all add: place_header_def Let_def)
qed

text \<open>The state in which the reserved header of image \<open>k\<close> is written.\<close>

lemma placed_world:
  assumes i: "idle w p ds" and im: "get_image ds k = Inr im"
  defines "d1 \<equiv> \<lambda>h x fs. (put_image ((put_image ds k h)\<lparr>filesize := pix_offset h\<rparr>) k x)\<lparr>filesize := fs\<rparr>"
  shows "d1 h x fs = ds\<lparr>imagelist := map_option (\<lambda>l. l[k := x]) (imagelist ds), filesize := fs\<rparr>"
    "idle (put_ds w p (d1 h x fs)) p (d1 h x fs)" "conf_frame w (put_ds w p (d1 h x fs)) p ds (d1 h x fs)"
    "get_image (d1 h x fs) k = Inr x"
    "header_geometry (d1 h x fs) (int k + 1) = Inr (im_hdr_offset x, im_maxkeywords x, im_nreserved x)"
proof -
  show d: "d1 h x fs = ds\<lparr>imagelist := map_option (\<lambda>l. l[k := x]) (imagelist ds), filesize := fs\<rparr>"
    unfolding d1_def by (cases "imagelist ds") (simp_all add: put_image_def)
  show "idle (put_ds w p (d1 h x fs)) p (d1 h x fs)" "conf_frame w (put_ds w p (d1 h x fs)) p ds (d1 h x fs)"
    using put_conf [OF i d] by simp_all
  show gi: "get_image (d1 h x fs) k = Inr x"
    unfolding d using im by (auto simp: get_image_def split: option.splits if_splits)
  have "nat (int k + 1) - 1 = k" by simp
  then show "header_geometry (d1 h x fs) (int k + 1) = Inr (im_hdr_offset x, im_maxkeywords x, im_nreserved x)"
    unfolding header_geometry_def using gi by simp
qed

lemma conf_image_run:
  assumes i: "idle w p ds" and wf: "wf_file ds" and ma: "\<forall>n. de_ma e n" and im: "get_image ds k = Inr im"
    and ok: "can_place (d_maxkeywords ds) im" "texts_ok im" "0 \<le> im_nreserved im" "im_nreserved im * 80 < 2 ^ 31" "0 \<le> filesize ds"
    and r: "conf_image e w p k nim = Inr (Some nim', w')"
  shows "\<exists>ds' im'. idle w' p ds' \<and> conf_frame w w' p ds ds' \<and> placed (d_maxkeywords ds) (filesize ds) im im'
     \<and> imagelist ds' = map_option (\<lambda>l. l[k := im']) (imagelist ds) \<and> filesize ds' = filesize ds + extnsize im'
     \<and> int (length (d_file ds')) \<le> max (int (length (d_file ds))) (pix_offset im')"
proof -
  have ds: "get_ds w p = Inr ds" using i by (simp add: idle_def get_ds_def)
  obtain im0 nim0 where nm: "name_image (imformat ds) (int k + 1) nim im = Inr (im0, nim0)"
    using r ds im by (auto simp: conf_image_def bind_res_Inr_iff)
  let ?h = "place_header (d_maxkeywords ds) (filesize ds) im0"
  obtain im1 fs where pp: "place_pixels ?h = (im1, fs)" by (cases "place_pixels ?h")
  have nr: "\<not> (naxes ?h \<noteq> 0 \<and> pixtype ?h = 0)" using r ds im nm by (auto simp: conf_image_def Let_def)
  let ?d1 = "(put_image ((put_image ds k ?h)\<lparr>filesize := pix_offset ?h\<rparr>) k im1)\<lparr>filesize := fs\<rparr>"
  let ?w1 = "put_ds w p ?d1"
  obtain n w2 where rh: "reserved_header e ?w1 p (int k + 1) ''EHU'' (ehu_cards im1) = Inr (Some n, w2)"
    and up: "upd_image w2 p k (\<lambda>ds im. set_conv (im\<lparr>im_nreserved := n\<rparr>)) = Inr w'"
    using r ds im nm nr pp by (auto simp: conf_image_def Let_def bind_res_Inr_iff split: option.splits)
  have cst: "cstring (imformat ds)" using wf by (simp add: wf_file_def)
  note fa = placed_image_facts [OF nm pp ok(1, 2) cst]
  note pl = fa(1-3) and flds = fa(4) and eh = fa(6)
  note pw = placed_world [OF i im, where h = ?h and x = im1 and fs = fs]
  note d1 = pw(1) and gi = pw(4) and geo = pw(5)
  have pc: "idle ?w1 p ?d1 \<and> conf_frame w ?w1 p ds ?d1" using pw(2, 3) by simp
  have "0 \<le> im_hdr_offset im1" using pl(1) ok(5) by (simp add: placed_def)
  from reserved_header_run [OF conjunct1 [OF pc] ma eh geo this _ _ _ rh] ok(3, 4) flds
  obtain d2 bs where d2: "idle w2 p d2" "only_file ?w1 w2 p ?d1 d2"
    "d_file d2 = overwrite (im_hdr_offset im1 + im_nreserved im1 * 80) bs (d_file ?d1)" "bs \<noteq> []"
    "int (length bs) = 80 * (im_maxkeywords im1 - im_nreserved im1)"
    by auto
  let ?im' = "set_conv (im1\<lparr>im_nreserved := n\<rparr>)"
  obtain f kp where d2f: "d2 = ?d1\<lparr>d_file := f, d_kpos := kp\<rparr>" using d2(2) by (auto simp: only_file_def)
  have g2: "get_image d2 k = Inr im1" using gi unfolding d2f d1 by (simp add: get_image_def)
  let ?d3 = "put_image d2 k ?im'"
  have w': "w' = put_ds w2 p ?d3" using up d2(1) g2 by (auto simp: upd_image_def get_ds_def idle_def)
  have d3: "?d3 = d2\<lparr>imagelist := map_option (\<lambda>l. l[k := ?im']) (imagelist ds), filesize := filesize d2\<rparr>"
    unfolding d2f d1 by (cases "imagelist ds") (simp_all add: put_image_def)
  note pc3 = put_conf [OF d2(1) d3]
  have "conf_frame w w' p ds ?d3"
    using conf_frame_trans [OF conf_frame_trans [OF conjunct2 [OF pc] only_file_conf [OF d2(2)]] conjunct2 [OF pc3]] w' by simp
  moreover have "filesize ?d3 = filesize ds + extnsize ?im'"
    by (simp add: d2f pl(2))
  moreover have "int (length (d_file ?d3)) \<le> max (int (length (d_file ds))) (pix_offset ?im')"
  proof -
    have pos: "0 \<le> im_hdr_offset im1 + im_nreserved im1 * 80" using \<open>0 \<le> im_hdr_offset im1\<close> ok(3) flds by simp
    have "d_file ?d3 = d_file d2" "d_file ?d1 = d_file ds" by simp_all
    then have "length (d_file ?d3) = max (length (d_file ds)) (nat (im_hdr_offset im1 + im_nreserved im1 * 80) + length bs)"
      using length_overwrite [OF pos d2(4), of "d_file ds"] d2(3) by simp
    moreover have "int (nat (im_hdr_offset im1 + im_nreserved im1 * 80) + length bs) = pix_offset im1"
      using pos d2(5) pl(1) by (simp add: placed_def)
    moreover have "pix_offset ?im' = pix_offset im1" by simp
    ultimately show ?thesis by linarith
  qed
  moreover have "imagelist ?d3 = map_option (\<lambda>l. l[k := ?im']) (imagelist ds)" by (simp add: d3)
  moreover have "idle w' p ?d3" using conjunct1 [OF pc3] unfolding w' .
  moreover have "placed (d_maxkeywords ds) (filesize ds) im ?im'" using pl(1) placed_cong by simp
  ultimately show ?thesis by blast
qed

lemma multiple_unique:
  fixes a b n d :: int
  assumes "d dvd a" "d dvd b" "n \<le> a" "a < n + d" "n \<le> b" "b < n + d"
  shows "a = b"
proof -
  have "d dvd a - b" "\<bar>a - b\<bar> < d" using assms by auto
  then show ?thesis using dvd_imp_le_int [of "a - b" d] by fastforce
qed

text \<open>The place of an image is determined by what was asked for.\<close>

lemma placed_unique:
  assumes "placed dmax start im im1" "placed dmax start im im2"
  shows "extnsize im1 = extnsize im2"
proof -
  note p1 = assms(1) [unfolded placed_def Let_def] and p2 = assms(2) [unfolded placed_def Let_def]
  let ?L = "pix_offset im1 + npix im * pixsize im1 + im_extend im1 - start"
  have mk: "im_maxkeywords im1 = im_maxkeywords im2"
    by (rule multiple_unique [of 36 _ _ "if im_maxkeywords im = 0 then dmax else im_maxkeywords im"]) (use p1 p2 in blast)+
  have ex: "im_extend im1 = im_extend im2"
    by (rule multiple_unique [of 2880 _ _ "im_extend im"]) (use p1 p2 in blast)+
  have e: "pix_offset im2 = pix_offset im1" "pixsize im2 = pixsize im1" using p1 p2 mk by simp_all
  have 1: "?L \<le> extnsize im1" "extnsize im1 < ?L + 2880" using p1 by linarith+
  have "pix_offset im2 + npix im * pixsize im2 + im_extend im2 \<le> start + extnsize im2"
    "start + extnsize im2 < pix_offset im2 + npix im * pixsize im2 + im_extend im2 + 2880" using p2 by blast+
  then have 2: "?L \<le> extnsize im2" "extnsize im2 < ?L + 2880" unfolding e ex [symmetric] by linarith+
  show ?thesis by (rule multiple_unique [of 2880 _ _ ?L]) (use p1 p2 1 2 in blast)+
qed

text \<open>The images of the file in order, each starting where the one before ends.\<close>

fun placed_all :: "int \<Rightarrow> int \<Rightarrow> Image list \<Rightarrow> Image list \<Rightarrow> int \<Rightarrow> bool" where
  "placed_all dmax start [] [] fs \<longleftrightarrow> fs = start"
| "placed_all dmax start (im # ims) (im' # ims') fs \<longleftrightarrow> placed dmax start im im' \<and> placed_all dmax (start + extnsize im') ims ims' fs"
| "placed_all dmax start _ _ fs \<longleftrightarrow> False"

definition image_ok :: "int \<Rightarrow> Image \<Rightarrow> bool" where
  "image_ok dmax im \<longleftrightarrow> can_place dmax im \<and> texts_ok im \<and> 0 \<le> im_nreserved im \<and> im_nreserved im * 80 < 2 ^ 31"

lemma placed_sizes:
  assumes "placed dmax start im im'" "can_place dmax im"
  shows "start \<le> pix_offset im'" "pix_offset im' \<le> start + extnsize im'"
proof -
  have "0 < (if im_maxkeywords im = 0 then dmax else im_maxkeywords im)" using assms(2) by (auto simp: can_place_def Let_def)
  then show "start \<le> pix_offset im'" using assms(1) by (auto simp: placed_def Let_def)
  have "list_all (\<lambda>n. 0 < n) (take (nat (naxes im)) (axlen im))" using assms(2) by (auto simp: can_place_def list_all_iff)
  then have "0 \<le> npix im" using num_pixels_eq(2) [of im] assms(2) by (simp add: can_place_def Let_def)
  then have "0 \<le> npix im * pixsize im'" using assms(1) PixelSize_nonneg by (simp add: placed_def)
  then show "pix_offset im' \<le> start + extnsize im'" using assms by (auto simp: placed_def can_place_def)
qed

lemma conf_images_run:
  assumes "idle w p ds" "wf_file ds" "\<forall>n. de_ma e n" "imagelist ds = Some (pre @ ims)" "length pre = k" "length ims = n"
    "\<forall>im \<in> set ims. image_ok (d_maxkeywords ds) im" "0 \<le> filesize ds" "int (length (d_file ds)) \<le> filesize ds"
    "conf_images n e w p k nim = Inr (True, w')"
  shows "\<exists>ds' ims'. idle w' p ds' \<and> conf_frame w w' p ds ds' \<and> imagelist ds' = Some (pre @ ims')
     \<and> placed_all (d_maxkeywords ds) (filesize ds) ims ims' (filesize ds') \<and> filesize ds \<le> filesize ds'
     \<and> int (length (d_file ds')) \<le> filesize ds'"
  using assms
proof (induction n arbitrary: w ds pre ims k nim)
  case 0
  have "dsims w p = Some ds" using "0.prems"(1) by (simp add: idle_def)
  then have "conf_frame w w p ds ds" by (intro only_file_conf only_file_refl) simp_all
  then show ?case using 0 by auto
next
  case (Suc n)
  obtain im ims1 where ims: "ims = im # ims1" using Suc.prems(6) by (cases ims) auto
  obtain nim1 w1 where c: "conf_image e w p k nim = Inr (Some nim1, w1)" "conf_images n e w1 p (k + 1) nim1 = Inr (True, w')"
    using Suc.prems(10) by (auto simp: bind_res_Inr_iff split: option.splits)
  have gi: "get_image ds k = Inr im" using Suc.prems(4, 5) ims by (auto simp: get_image_def)
  have ok: "can_place (d_maxkeywords ds) im" "texts_ok im" "0 \<le> im_nreserved im" "im_nreserved im * 80 < 2 ^ 31"
    using Suc.prems(7) ims by (auto simp: image_ok_def)
  obtain d1 im' where d1: "idle w1 p d1" "conf_frame w w1 p ds d1" "placed (d_maxkeywords ds) (filesize ds) im im'"
     "imagelist d1 = map_option (\<lambda>l. l[k := im']) (imagelist ds)" "filesize d1 = filesize ds + extnsize im'"
     "int (length (d_file d1)) \<le> max (int (length (d_file ds))) (pix_offset im')"
    using conf_image_run [OF Suc.prems(1-3) gi ok Suc.prems(8) c(1)] by blast
  note s = placed_sizes [OF d1(3) ok(1)]
  have il: "imagelist d1 = Some ((pre @ [im']) @ ims1)" using d1(4) Suc.prems(4, 5) ims by (simp add: list_update_append)
  note wf = conf_frame_wf [OF d1(2) Suc.prems(2)]
  have fl: "int (length (d_file d1)) \<le> filesize d1" using d1(5, 6) s Suc.prems(9) by linarith
  have fz: "0 \<le> filesize d1" using d1(5) s Suc.prems(8) by linarith
  obtain ds' ims' where *: "idle w' p ds'" "conf_frame w1 w' p d1 ds'" "imagelist ds' = Some ((pre @ [im']) @ ims')"
    "placed_all (d_maxkeywords d1) (filesize d1) ims1 ims' (filesize ds')" "filesize d1 \<le> filesize ds'" "int (length (d_file ds')) \<le> filesize ds'"
    using Suc.IH [OF d1(1) conjunct1 [OF wf] Suc.prems(3) il _ _ _ fz fl c(2)] Suc.prems(5-7) ims wf by auto
  have "placed_all (d_maxkeywords ds) (filesize ds) ims (im' # ims') (filesize ds')" using *(4) d1(3, 5) wf ims by simp
  then show ?case using * conf_frame_trans [OF d1(2) *(2)] s d1(5)
    by (intro exI [of _ ds'] exI [of _ "im' # ims'"]) auto
qed

lemma placed_pixels [simp]: "placed dmax start im (im'\<lparr>pixels := a\<rparr>) = placed dmax start im im'"
  by (simp add: placed_def npix_def)

lemma placed_all_pixels:
  "placed_all dmax start ims ims' fs \<Longrightarrow> placed_all dmax start ims (map (\<lambda>im. im\<lparr>pixels := f im\<rparr>) ims') fs"
  by (induction dmax start ims ims' fs rule: placed_all.induct) auto

lemma placed_all_length: "placed_all dmax start ims ims' fs \<Longrightarrow> length ims' = length ims"
  by (induction dmax start ims ims' fs rule: placed_all.induct) auto

lemma map_file_run:
  assumes "idle w p ds" "nimages ds = int (length ims)" "imagelist ds = Some ims" "map_file e w p = Inr (0, w')"
  shows "\<exists>addr. dsims w' = (dsims w)(p \<mapsto> ds\<lparr>mmap_addr := addr, mmap_len := filesize ds,
       imagelist := Some (map (\<lambda>im. im\<lparr>pixels := addr + word_of_int (pix_offset im)\<rparr>) ims),
       configured := configured ds + 1, configuring := 0\<rparr>)"
  using assms by (auto simp: map_file_def get_ds_def idle_def bind_res_Inr_iff put_ds_def Let_def split: if_splits)

definition new_file :: "DSImage \<Rightarrow> Image list \<Rightarrow> bool" where
  "new_file ds ims \<longleftrightarrow> configured ds = 0 \<and> d_mode ds = DSO_CREATE \<and> d_file ds = [] \<and> 0 \<le> d_maxkeywords ds \<and> d_maxkeywords ds * 80 + 2880 < 2 ^ 31
     \<and> 0 \<le> d_nreserved ds \<and> d_nreserved ds * 80 < 2 ^ 31 \<and> storable (Some (d_name ds)) \<and> cstring (imformat ds)
     \<and> nimages ds = int (length ims) \<and> imagelist ds = Some ims \<and> ims \<noteq> [] \<and> length ims \<le> 2 ^ 31"

definition global_capacity :: "DSImage \<Rightarrow> int" where
  "global_capacity ds = header_capacity (if d_maxkeywords ds = 0 then DEF_MAXKEYWORDS else d_maxkeywords ds)"

text \<open>Steps that succeeded, of a sequence whose result is a status.\<close>

lemma bind_some:
  assumes "bind_res m (\<lambda>(r, w). case r of None \<Rightarrow> Inr (-1, w) | Some n \<Rightarrow> f n w) = (Inr (0, w') :: (int \<times> 'b) res)"
  shows "\<exists>n w. m = Inr (Some n, w) \<and> f n w = Inr (0, w')"
  using assms by (auto simp: bind_res_Inr_iff split: option.splits)

lemma bind_ok:
  assumes "bind_res m (\<lambda>(ok, w). if ok then f w else Inr (-1, w)) = (Inr (0, w') :: (int \<times> 'b) res)"
  shows "\<exists>w. m = Inr (True, w) \<and> f w = Inr (0, w')"
  using assms by (auto simp: bind_res_Inr_iff split: if_splits)

lemma bind_not_ok:
  assumes "bind_res m (\<lambda>(ok, w). if \<not> ok then Inr (-1, w) else f w) = (Inr (0, w') :: (int \<times> 'b) res)"
  shows "\<exists>w. m = Inr (True, w) \<and> f w = Inr (0, w')"
  using assms by (auto simp: bind_res_Inr_iff split: if_splits)

text \<open>The state in which the global header is written.\<close>

lemma global_start:
  assumes i: "idle w p ds" and nf: "new_file ds ims"
  defines "d1 \<equiv> place_global (ds\<lparr>configuring := configuring ds + 1\<rparr>)"
  shows "dsim_Configure e w p = write_file e (put_ds w p d1) p d1" "idle (put_ds w p d1) p d1" "wf_file d1"
    "list_all card_storable (phu_cards d1)" "header_geometry d1 0 = Inr (0, global_capacity ds, d_nreserved ds)"
    "filesize d1 = global_capacity ds * 80" "hdr_length d1 = global_capacity ds * 80" "d_maxkeywords d1 = global_capacity ds"
    "36 \<le> global_capacity ds" "imagelist d1 = Some ims" "nimages d1 = int (length ims)" "d_file d1 = []" "configured d1 = 0"
    "imformat d1 = imformat ds" "d_name d1 = d_name ds" "d_fd d1 = d_fd ds" "d_mode d1 = DSO_CREATE"
proof -
  have ds: "get_ds w p = Inr ds" using i by (simp add: idle_def get_ds_def)
  have nf': "configured ds = 0" "d_mode ds = DSO_CREATE" "d_file ds = []" "nimages ds = int (length ims)" "imagelist ds = Some ims" "ims \<noteq> []"
    using nf by (auto simp: new_file_def)
  let ?n = "if d_maxkeywords ds = 0 then DEF_MAXKEYWORDS else d_maxkeywords ds"
  have n: "0 < ?n" "?n * 80 + 2880 < 2 ^ 31" using nf by (auto simp: new_file_def DEF_MAXKEYWORDS_def)
  note cap = header_capacity_spec [OF less_imp_le [OF n(1)] n(2), folded global_capacity_def]
  have "36 dvd global_capacity ds" "0 < global_capacity ds" using cap n by auto
  then show "36 \<le> global_capacity ds" by (rule zdvd_imp_le)
  have d: "d1 = ds\<lparr>configuring := configuring ds + 1, d_maxkeywords := global_capacity ds, d_hdr_offset := 0,
      hdr_length := global_capacity ds * 80, filesize := global_capacity ds * 80\<rparr>"
    using cap unfolding d1_def global_capacity_def by (cases "d_maxkeywords ds = 0") (simp_all add: place_global_def Let_def)
  have ni: "nimages d1 \<noteq> 0" using nf' unfolding d by simp
  then show "dsim_Configure e w p = write_file e (put_ds w p d1) p d1"
    unfolding dsim_Configure_def ds bind_res_simps Let_def d1_def by (simp add: nf'(1, 2))
  show "idle (put_ds w p d1) p d1" using i unfolding d by (simp add: idle_def put_ds_def)
  show "wf_file d1" unfolding d using nf by (simp add: wf_file_def new_file_def mapped_def)
  show "list_all card_storable (phu_cards d1)" using nf unfolding d by (intro phu_cards_ok) (auto simp: new_file_def)
  show "header_geometry d1 0 = Inr (0, global_capacity ds, d_nreserved ds)" unfolding d by (simp add: header_geometry_def)
  show "filesize d1 = global_capacity ds * 80" "hdr_length d1 = global_capacity ds * 80" "d_maxkeywords d1 = global_capacity ds"
    "imagelist d1 = Some ims" "nimages d1 = int (length ims)" "d_file d1 = []" "configured d1 = 0"
    "imformat d1 = imformat ds" "d_name d1 = d_name ds" "d_fd d1 = d_fd ds" "d_mode d1 = DSO_CREATE"
    using nf' by (simp_all add: d)
qed

text \<open>The state in which the images are laid out.\<close>

lemma global_written:
  assumes i: "idle w p ds" and ma: "\<forall>n. de_ma e n" and wf: "wf_file ds" and st: "list_all card_storable cards"
    and geo: "header_geometry ds 0 = Inr (0, cap, nres)" and n: "0 \<le> nres" "nres * 80 < 2 ^ 31"
    and d: "filesize ds = cap * 80" "d_file ds = []"
    and r: "reserved_header e w p 0 name cards = Inr (Some nr, w')"
  shows "\<exists>d2 f kp. get_ds w' p = Inr d2 \<and> d2 = ds\<lparr>d_file := f, d_kpos := kp\<rparr> \<and> idle (put_ds w' p (d2\<lparr>d_nreserved := nr\<rparr>)) p (d2\<lparr>d_nreserved := nr\<rparr>)
     \<and> wf_file (d2\<lparr>d_nreserved := nr\<rparr>) \<and> int (length f) \<le> filesize ds \<and> dsims w' = (dsims w)(p \<mapsto> d2) \<and> w_vm w' = w_vm w"
proof -
  obtain d2 bs where d2: "idle w' p d2" "only_file w w' p ds d2" "d_file d2 = overwrite (0 + nres * 80) bs (d_file ds)"
    "bs \<noteq> []" "int (length bs) = 80 * (cap - nres)"
    using reserved_header_run [OF i ma st geo _ _ n r] by auto
  obtain f kp where f: "d2 = ds\<lparr>d_file := f, d_kpos := kp\<rparr>" using d2(2) by (auto simp: only_file_def)
  have pos: "0 \<le> 0 + nres * 80" using n by simp
  have "f = d_file d2" using f by simp
  then have "int (length f) \<le> filesize ds" using length_overwrite [OF pos d2(4), of "[]"] d2(3, 5) pos d by simp
  moreover have "idle (put_ds w' p (d2\<lparr>d_nreserved := nr\<rparr>)) p (d2\<lparr>d_nreserved := nr\<rparr>)" "get_ds w' p = Inr d2"
    using d2(1) by (simp_all add: idle_def put_ds_def get_ds_def)
  moreover have "wf_file (d2\<lparr>d_nreserved := nr\<rparr>)" using only_file_wf [OF d2(2) wf] by (simp add: wf_file_def mapped_def)
  moreover have "dsims w' = (dsims w)(p \<mapsto> d2)" "w_vm w' = w_vm w" using d2(2) by (simp_all add: only_file_def)
  ultimately show ?thesis using f by blast
qed

text \<open>Setting the size of the file and mapping it.\<close>

lemma file_mapped:
  assumes i: "idle w p ds" and n: "nimages ds = int (length ims)" "imagelist ds = Some ims" and sz: "0 < filesize ds" "int (length (d_file ds)) \<le> filesize ds"
    and r: "bind_res (set_file_size e w p) (\<lambda>(ok, w). if ok then map_file e w p else Inr (-1, w)) = Inr (0, w')"
  shows "\<exists>addr f kp. dsims w' = (dsims w)(p \<mapsto> ds\<lparr>d_file := f, d_kpos := kp, mmap_addr := addr, mmap_len := filesize ds,
       imagelist := Some (map (\<lambda>im. im\<lparr>pixels := addr + word_of_int (pix_offset im)\<rparr>) ims),
       configured := configured ds + 1, configuring := 0\<rparr>) \<and> int (length f) = filesize ds"
proof -
  let ?f = "overwrite (filesize ds - 1) [NUL] (d_file ds)"
  let ?d5 = "ds\<lparr>d_file := ?f, d_kpos := filesize ds\<rparr>"
  obtain w5 where w5: "set_file_size e w p = Inr (True, w5)" "map_file e w5 p = Inr (0, w')" using bind_ok [OF r] by blast
  have "w5 = put_ds w p ?d5" using w5(1) i by (auto simp: set_file_size_def get_ds_def idle_def split: if_splits)
  then have s5: "map_file e (put_ds w p ?d5) p = Inr (0, w')" using w5(2) by simp
  have i5: "idle (put_ds w p ?d5) p ?d5" using i sz by (simp add: idle_def put_ds_def)
  have l5: "int (length ?f) = filesize ds"
    using length_overwrite [of "filesize ds - 1" "[NUL]" "d_file ds"] sz by simp
  obtain addr where "dsims w' = (dsims (put_ds w p ?d5))(p \<mapsto> ?d5\<lparr>mmap_addr := addr, mmap_len := filesize ?d5,
       imagelist := Some (map (\<lambda>im. im\<lparr>pixels := addr + word_of_int (pix_offset im)\<rparr>) ims),
       configured := configured ?d5 + 1, configuring := 0\<rparr>)"
    using map_file_run [OF i5 _ _ s5, of ims] n by auto
  then show ?thesis using l5
    by (intro exI [of _ addr] exI [of _ ?f] exI [of _ "filesize ds"]) (simp add: put_ds_def)
qed

text \<open>What any configuration that succeeds has done.\<close>

lemma configure_layout:
  assumes i: "idle w p ds" and nf: "new_file ds ims" and ma: "\<forall>n. de_ma e n"
    and ok: "\<forall>im \<in> set ims. image_ok (global_capacity ds) im" and r: "dsim_Configure e w p = Inr (0, w')"
  shows "\<exists>ds' ims'. dsims w' p = Some ds' \<and> configured ds' = 1 \<and> configuring ds' = 0 \<and> imagelist ds' = Some ims' \<and> nimages ds' = nimages ds
     \<and> d_maxkeywords ds' = global_capacity ds \<and> hdr_length ds' = d_maxkeywords ds' * 80
     \<and> placed_all (d_maxkeywords ds') (hdr_length ds') ims ims' (filesize ds')
     \<and> int (length (d_file ds')) = filesize ds' \<and> mmap_len ds' = filesize ds'
     \<and> (\<forall>im \<in> set ims'. pixels im = mmap_addr ds' + word_of_int (pix_offset im))
     \<and> (\<forall>q. q \<noteq> p \<longrightarrow> dsims w' q = dsims w q)"
proof -
  note g = global_start [OF i nf]
  let ?d1 = "place_global (ds\<lparr>configuring := configuring ds + 1\<rparr>)" and ?cap = "global_capacity ds"
  have n: "0 \<le> d_nreserved ds" "d_nreserved ds * 80 < 2 ^ 31" using nf by (simp_all add: new_file_def)
  from r g(1) have "write_file e (put_ds w p ?d1) p ?d1 = Inr (0, w')" by simp
  from bind_some [OF this [unfolded write_file_def]]
  obtain nr w2 where rh: "reserved_header e (put_ds w p ?d1) p 0 ''PHU'' (phu_cards ?d1) = Inr (Some nr, w2)"
    and r2: "bind_res (get_ds w2 p) (\<lambda>ds. let w = put_ds w2 p (ds\<lparr>d_nreserved := nr\<rparr>) in
             bind_res (conf_images (nat (nimages ds)) e w p 0 0) (\<lambda>(ok, w).
             if \<not> ok then Inr (-1, w)
             else bind_res (set_file_size e w p) (\<lambda>(ok, w).
               if ok then map_file e w p else Inr (-1, w)))) = Inr (0, w')"
    by blast
  obtain d2 f kp where d2: "get_ds w2 p = Inr d2" "d2 = ?d1\<lparr>d_file := f, d_kpos := kp\<rparr>"
    "idle (put_ds w2 p (d2\<lparr>d_nreserved := nr\<rparr>)) p (d2\<lparr>d_nreserved := nr\<rparr>)" "wf_file (d2\<lparr>d_nreserved := nr\<rparr>)"
    "int (length f) \<le> filesize ?d1" "dsims w2 = (dsims (put_ds w p ?d1))(p \<mapsto> d2)"
    using global_written [OF g(2) ma g(3, 4, 5) n g(6, 12) rh] by blast
  let ?d3 = "d2\<lparr>d_nreserved := nr\<rparr>"
  have f3: "filesize ?d3 = ?cap * 80" "imagelist ?d3 = Some ims" "d_maxkeywords ?d3 = ?cap" "nimages ?d3 = int (length ims)"
    "nimages d2 = int (length ims)" "hdr_length ?d3 = ?cap * 80" "int (length (d_file ?d3)) \<le> filesize ?d3" "configured ?d3 = 0"
    using d2(2, 5) g by simp_all
  have "bind_res (conf_images (length ims) e (put_ds w2 p ?d3) p 0 0) (\<lambda>(ok, w).
             if \<not> ok then Inr (-1, w)
             else bind_res (set_file_size e w p) (\<lambda>(ok, w). if ok then map_file e w p else Inr (-1, w))) = Inr (0, w')"
    using r2 unfolding d2(1) bind_res_simps Let_def f3(5) nat_int .
  from bind_not_ok [OF this] obtain w4 where w4: "conf_images (length ims) e (put_ds w2 p ?d3) p 0 0 = Inr (True, w4)"
    and r4: "bind_res (set_file_size e w4 p) (\<lambda>(ok, w). if ok then map_file e w p else Inr (-1, w)) = Inr (0, w')"
    by blast
  obtain d4 ims' where d4: "idle w4 p d4" "conf_frame (put_ds w2 p ?d3) w4 p ?d3 d4" "imagelist d4 = Some ims'"
    "placed_all ?cap (?cap * 80) ims ims' (filesize d4)" "filesize ?d3 \<le> filesize d4" "int (length (d_file d4)) \<le> filesize d4"
    using conf_images_run [OF d2(3, 4) ma, of "[]" ims 0 "length ims" 0 w4] ok f3 g(9) w4 by auto
  note wf4 = conf_frame_wf [OF d4(2) d2(4)]
  have n4: "nimages d4 = int (length ims')" using wf4 f3(4) placed_all_length [OF d4(4)] by simp
  have "0 < filesize d4" using d4(5) f3(1) g(9) by simp
  from file_mapped [OF d4(1) n4 d4(3) this d4(6) r4] obtain addr f' kp' where a:
    "dsims w' = (dsims w4)(p \<mapsto> d4\<lparr>d_file := f', d_kpos := kp', mmap_addr := addr, mmap_len := filesize d4,
       imagelist := Some (map (\<lambda>im. im\<lparr>pixels := addr + word_of_int (pix_offset im)\<rparr>) ims'),
       configured := configured d4 + 1, configuring := 0\<rparr>)" "int (length f') = filesize d4"
    by blast
  have "configured d4 = 0" using d4(2) f3(8) by (auto simp: conf_frame_def)
  moreover have "d_maxkeywords d4 = ?cap" "hdr_length d4 = ?cap * 80" "nimages d4 = nimages ds"
    using wf4 f3 nf by (simp_all add: new_file_def)
  moreover have "dsims w' q = dsims w q" if "q \<noteq> p" for q
    using that a d4(2) d2(6) by (simp add: conf_frame_def put_ds_def)
  ultimately show ?thesis using a placed_all_pixels [OF d4(4)] by auto
qed

section \<open>Configuring a new file succeeds\<close>

lemma read_past_end:
  assumes "session w p ds pos" "\<not> mapped ds" "int (length (d_file ds)) \<le> pos"
  shows "ds_chunks n w 0 = Inr []"
proof (cases n)
  case (Suc m)
  have "drop (nat (d_kpos ds)) (d_file ds) = []" using assms by (simp add: session_def)
  then have "ds_read w 0 CARDLEN = Inr (0, [], put_ds w p (ds\<lparr>d_kpos := d_kpos ds + 0\<rparr>))"
    using assms by (simp add: ds_read_def session_def get_ds_def MAX_FD_def Let_def)
  then show ?thesis by (simp add: Suc CARDLEN_def)
qed simp

lemma lseek_total:
  assumes "session w p ds pos" "0 \<le> off" "off < 2 ^ 31"
  shows "\<exists>w'. ds_lseek w 0 off = Inr (off, w')"
  using assms by (auto simp: ds_lseek_def session_def get_ds_def MAX_FD_def Let_def)

lemma ReadFITS_nothing: "kw_inv db [] [] \<Longrightarrow> kwdb_ReadFITS ma db [] n = Inr (0, 0, db)"
  using kw_linksD(6) [of db "[]" "[]"] by (cases "maxitems db") (auto simp: kwdb_ReadFITS_def kw_inv_def kwdb_Tail_def)

lemma read_header_total:
  assumes i: "idle w p ds" and nm: "\<not> mapped ds" and ma: "\<forall>n. de_ma e n" and pl: "header_place ds imno = Inr (Some (name, off))"
    and o': "0 \<le> off" "off < 2 ^ 31" "int (length (d_file ds)) \<le> off" "length name + 2 \<le> DEF_SZSBUF"
  shows "\<exists>rs w'. read_header e w p imno n = Inr (Some rs, w') \<and> kw_inv rs [] []"
proof -
  have ds: "get_ds w p = Inr ds" using i by (simp add: idle_def get_ds_def)
  obtain w1 where w1: "ds_open w p 0 = (0, w1)" "session w1 p ds (if mapped ds then 0 else d_kpos ds)"
    using ds_open_session [OF i] by blast
  obtain db0 where db0: "kwdb_Open (de_ma e) name = Inr (Some db0)" "kw_inv db0 [] []" using kwdb_Open_inv [OF ma o'(4)] by blast
  obtain w2 where w2: "ds_lseek w1 0 off = Inr (off, w2)" using lseek_total [OF w1(2) o'(1, 2)] by blast
  obtain d2 where d2: "session w2 p d2 off" "only_file w1 w2 p ds d2" "d_file d2 = d_file ds"
    using ds_lseek_session [OF w1(2) o'(1) w2] by blast
  have "ds_chunks k w2 0 = Inr []" for k
    using read_past_end [OF d2(1)] only_file_mapped [OF d2(2)] nm o'(3) d2(3) by simp
  then show ?thesis using ds pl db0 w1(1) w2 o'(1) ReadFITS_nothing [OF db0(2)]
    by (simp add: read_header_def Let_def)
qed

lemma ds_write_total:
  assumes "session w p ds pos" "mapped ds \<longrightarrow> pos + int (length bs) \<le> filesize ds" "\<forall>n. de_write e n"
  shows "\<exists>w'. ds_write e w 0 bs = Inr (int (length bs), w')"
proof (cases "mapped ds")
  case True
  then have "pos + int (length bs) \<le> filesize ds" "pos = fio_pos (fdtable w ! 0)" using assms by (simp_all add: session_def)
  then have "min (filesize ds) (fio_pos (fdtable w ! 0) + int (length bs)) - fio_pos (fdtable w ! 0) = int (length bs)" by simp
  then show ?thesis using assms True by (auto simp: ds_write_def session_def get_ds_def MAX_FD_def Let_def)
next
  case False
  then show ?thesis using assms by (auto simp: ds_write_def session_def get_ds_def MAX_FD_def Let_def)
qed

lemma write_list_total:
  assumes "session w p ds pos" "mapped ds \<longrightarrow> pos + 80 * int (length cards) \<le> filesize ds"
    "\<forall>c \<in> set cards. length c = 80" "\<forall>n. de_write e n"
  shows "\<exists>w'. write_list e w 0 cards = Inr (True, w')"
  using assms
proof (induction cards arbitrary: w ds pos)
  case (Cons c cards)
  have l: "int (length c) = 80" "c \<noteq> []" using Cons.prems(3) by auto
  have "mapped ds \<longrightarrow> pos + int (length c) \<le> filesize ds" using Cons.prems(2) l(1) by auto
  from ds_write_total [OF Cons.prems(1) this Cons.prems(4)] obtain w1 where w1: "ds_write e w 0 c = Inr (int (length c), w1)" by blast
  obtain d1 where d1: "session w1 p d1 (pos + int (length c))" "only_file w w1 p ds d1"
    using ds_write_session [OF Cons.prems(1) l(2) w1(1)] by blast
  have "mapped d1 \<longrightarrow> pos + int (length c) + 80 * int (length cards) \<le> filesize d1"
    using Cons.prems(2) l(1) only_file_mapped [OF d1(2)] only_file_filesize [OF d1(2)] by auto
  then show ?case using Cons.IH [OF d1(1)] Cons.prems(3, 4) w1 l by (simp add: CARDLEN_def)
qed simp

lemma write_cards_at_total:
  assumes s: "session w p ds pos" "mapped ds \<longrightarrow> pos + 80 * (maxc - nres) \<le> filesize ds"
    and inv: "kw_inv db gl rc" and wr: "\<forall>n. de_write e n" and room: "nres + int (length gl) + 1 \<le> maxc"
  shows "\<exists>w'. write_cards_at e w 0 nres maxc db = Inr (0, True, w')"
proof -
  let ?cards = "map (\<lambda>i. fits_card (entry_card db i)) gl"
  let ?fill = "replicate (nat (maxc - (nres + int (length gl) + 1))) blank_card @ [end_card]"
  have len: "kwdb_Len db = int (length gl)" using kw_linksD(7) [OF kw_invD(1) [OF inv]] by (simp add: kwdb_Len_def)
  have n: "80 * int (length ?cards) + 80 * int (length ?fill) = 80 * (maxc - nres)" using room by simp
  have m: "mapped ds \<longrightarrow> pos + 80 * int (length ?cards) \<le> filesize ds" using s(2) n by linarith
  obtain w1 where w1: "write_list e w 0 ?cards = Inr (True, w1)" using write_list_total [OF s(1) m header_lengths(1) wr] by blast
  obtain d1 where d1: "session w1 p d1 (pos + 80 * int (length ?cards))" "only_file w w1 p ds d1"
    using write_list_session [OF s(1) header_lengths(1) w1] by blast
  have "mapped d1 \<longrightarrow> pos + 80 * int (length ?cards) + 80 * int (length ?fill) \<le> filesize d1"
    using s(2) n only_file_mapped [OF d1(2)] only_file_filesize [OF d1(2)] by (metis add.assoc)
  from write_list_total [OF d1(1) this header_lengths(2) wr] obtain w2 where "write_list e w1 0 ?fill = Inr (True, w2)" by blast
  then show ?thesis using w1 len room WriteFITS_run [OF inv] by (simp add: write_cards_at_def)
qed

lemma write_header_total:
  assumes i: "idle w p ds" and nm: "\<not> mapped ds" and ma: "\<forall>n. de_ma e n" and wr: "\<forall>n. de_write e n" and inv: "kw_inv kwdb gl rc"
    and pl: "header_place ds imno = Inr (Some (name, off))" and g: "header_geometry ds imno = Inr (off, maxc, 0)"
    and o': "0 \<le> off" "off < 2 ^ 31" "int (length (d_file ds)) \<le> off" "length name + 2 \<le> DEF_SZSBUF" "int (length gl) + 1 \<le> maxc"
  shows "\<exists>kwdb' w'. write_header e w p imno kwdb = Inr (0, kwdb', w')"
proof -
  have ds: "get_ds w p = Inr ds" using i by (simp add: idle_def get_ds_def)
  have im: "\<not> (imno \<noteq> 0 \<and> (imno < 1 \<or> imno > nimages ds \<or> imagelist ds = None))"
    using pl by (auto simp: header_place_def split: if_splits)
  obtain rs w1 where rs: "read_header e w p imno 0 = Inr (Some rs, w1)" "kw_inv rs [] []"
    using read_header_total [OF i nm ma pl o'(1-4)] by blast
  obtain d1 where d1: "idle w1 p d1" "only_file w w1 p ds d1" "d_file d1 = d_file ds"
    using read_header_run [OF i ma pl o'(1) rs(1)] by blast
  have "head rs = 0" using kw_linksD(1) [OF kw_invD(1) [OF rs(2)]] by simp
  then have dr: "delete_reserved (maxitems rs) rs (kwdb_Head rs) kwdb = Inr kwdb" by (cases "maxitems rs") (simp_all add: kwdb_Head_def)
  have "ascii ''END''" by code_simp
  from delete_keyword_total [OF inv this] obtain k2 gl2 rc2 where k2: "delete_keyword kwdb ''END'' = Inr k2" "kw_inv k2 gl2 rc2" "kept kwdb gl k2 gl2"
    by blast
  then have k2l: "length gl2 \<le> length gl" by (auto simp: kept_def dest: list_emb_length)
  obtain w2 where w2: "ds_open w1 p 2 = (0, w2)" "session w2 p d1 (if mapped d1 then 0 else d_kpos d1)"
    using ds_open_session [OF d1(1)] by blast
  obtain w3 where w3: "ds_lseek w2 0 off = Inr (off, w3)" using lseek_total [OF w2(2) o'(1, 2)] by blast
  obtain d3 where d3: "session w3 p d3 off" "only_file w2 w3 p d1 d3" using ds_lseek_session [OF w2(2) o'(1) w3] by blast
  have "mapped d3 \<longrightarrow> off + 80 * (maxc - 0) \<le> filesize d3" using only_file_mapped [OF d3(2)] only_file_mapped [OF d1(2)] nm by simp
  from write_cards_at_total [OF d3(1) this k2(2) wr] o'(5) k2l
  obtain w4 where "write_cards_at e w3 0 0 maxc k2 = Inr (0, True, w4)" by auto
  then show ?thesis using ds im g rs(1) dr k2(1) w2(1) w3 o'(1) unfolding write_header_def header_geometry_def
    by (simp add: Let_def CARDLEN_def)
qed

lemma add_cards_total:
  assumes "kw_inv db gl rc" "\<forall>n. ma n" "list_all card_storable cards"
  shows "\<exists>db' gl' rc'. add_cards ma db cards = Inr db' \<and> kw_inv db' gl' rc' \<and> length gl' = length gl + length cards"
  using assms
proof (induction cards arbitrary: db gl rc)
  case (Cons c cards)
  obtain k v t com where c: "c = (k, v, t, com)" by (cases c)
  then have ok: "entry_ok (Some k) (Some v) (Some t) (Some com)" using Cons.prems(3) by (simp add: card_storable_def)
  obtain x d1 where a: "kwdb_AddEntry ma db (Some k) (Some v) (Some t) (Some com) = Inr (int x, d1)"
    "kw_inv d1 (gl @ [x]) (if txt_of (Some k) = [] then rc else x # rc)"
    using AddEntry_run [OF Cons.prems(1, 2) ok] by blast
  have "list_all card_storable cards" using Cons.prems(3) by simp
  from Cons.IH [OF a(2) Cons.prems(2) this] show ?case using a(1) by (auto simp: c)
qed auto

lemma reserved_header_total:
  assumes i: "idle w p ds" and nm: "\<not> mapped ds" and ma: "\<forall>n. de_ma e n" and wr: "\<forall>n. de_write e n"
    and st: "list_all card_storable cards" "length ''EHU'' = length name"
    and pl: "header_place ds imno = Inr (Some (nm, off))" and g: "header_geometry ds imno = Inr (off, maxc, 0)" "imno = 0 \<longrightarrow> off = 0"
    and o': "0 \<le> off" "off < 2 ^ 31" "int (length (d_file ds)) \<le> off" "length nm + 2 \<le> DEF_SZSBUF" "int (length cards) + 1 \<le> maxc"
  shows "\<exists>n w'. reserved_header e w p imno name cards = Inr (Some n, w')"
proof -
  obtain db0 where db0: "kwdb_Open (de_ma e) name = Inr (Some db0)" "kw_inv db0 [] []"
    using kwdb_Open_inv [OF ma, of name] st(2) by (auto simp: DEF_SZSBUF_def)
  obtain db1 gl rc where db1: "add_cards (de_ma e) db0 cards = Inr db1" "kw_inv db1 gl rc" "length gl = length cards"
    using add_cards_total [OF db0(2) ma st(1)] by auto
  obtain db2 w' where "write_header e w p imno db1 = Inr (0, db2, w')"
    using write_header_total [OF i nm ma wr db1(2) pl g(1) o'(1-4)] o'(5) db1(3) by auto
  then show ?thesis using db0 db1 by (simp add: reserved_header_def)
qed

text \<open>The end of a file of these images, from \<open>start\<close>.\<close>

primrec layout_end :: "int \<Rightarrow> int \<Rightarrow> Image list \<Rightarrow> int" where
  "layout_end dmax start [] = start"
| "layout_end dmax start (im # ims) = layout_end dmax (snd (place_pixels (place_header dmax start im))) ims"

lemma place_pixels_end: "can_place dmax im \<Longrightarrow> start \<le> snd (place_pixels (place_header dmax start im))"
  using place_image_spec [of dmax im start] placed_sizes [of dmax start im]
  by (cases "place_pixels (place_header dmax start im)") fastforce

lemma layout_end_mono: "\<forall>im \<in> set ims. can_place dmax im \<Longrightarrow> start \<le> layout_end dmax start ims"
proof (induction ims arbitrary: start)
  case (Cons im ims)
  then show ?case using place_pixels_end [of dmax im start] by (fastforce intro: order_trans)
qed simp

text \<open>An image whose name can be made and whose pixels have a type.\<close>

definition image_nameable :: "string \<Rightarrow> Image \<Rightarrow> bool" where
  "image_nameable fmt im \<longleftrightarrow> (naxes im = 0 \<or> pixtype im \<noteq> 0)
     \<and> (\<forall>n. 0 \<le> n \<and> n \<le> 2 ^ 31 \<longrightarrow> (\<exists>t. format_int fmt None (Some n) = Inr t \<and> length t < 128))"

lemma name_image_total:
  assumes "image_nameable fmt im" "0 \<le> nim" "nim < number" "number \<le> 2 ^ 31"
  shows "\<exists>im0 nim'. name_image fmt number nim im = Inr (im0, nim') \<and> 0 \<le> nim' \<and> nim' \<le> number"
proof -
  have "0 \<le> nim + 1 \<and> nim + 1 \<le> 2 ^ 31" using assms by simp
  then obtain t where t: "format_int fmt None (Some (nim + 1)) = Inr t" "length t < 128"
    using assms(1) unfolding image_nameable_def by blast
  have "length (show_nat (nat number)) \<le> 10" using assms by (intro length_show_nat) auto
  then have "length (''extn'' @ show_int number) < 128" using assms by (simp add: show_int_def)
  then show ?thesis using t assms by (auto simp: name_image_def Let_def)
qed

lemma conf_image_total:
  assumes i: "idle w p ds" and wf: "wf_file ds" and ma: "\<forall>n. de_ma e n" and wr: "\<forall>n. de_write e n" and im: "get_image ds k = Inr im"
    and ok: "can_place (d_maxkeywords ds) im" "texts_ok im" "im_nreserved im = 0" "0 \<le> filesize ds" "filesize ds < 2 ^ 31"
    and nb: "image_nameable (imformat ds) im" "0 \<le> nim" "nim \<le> int k" "int k < nimages ds" "int (length (d_file ds)) \<le> filesize ds"
  shows "\<exists>nim' w'. conf_image e w p k nim = Inr (Some nim', w') \<and> 0 \<le> nim' \<and> nim' \<le> int k + 1"
proof -
  have ds: "get_ds w p = Inr ds" using i by (simp add: idle_def get_ds_def)
  have lim: "nimages ds \<le> 2 ^ 31" using wf unfolding wf_file_def by linarith
  have cst: "cstring (imformat ds)" and nm0: "\<not> mapped ds" using wf by (simp_all add: wf_file_def)
  obtain im0 nim0 where nm: "name_image (imformat ds) (int k + 1) nim im = Inr (im0, nim0)" "0 \<le> nim0" "nim0 \<le> int k + 1"
    using name_image_total [OF nb(1, 2), of "int k + 1"] nb(3, 4) lim by auto
  let ?h = "place_header (d_maxkeywords ds) (filesize ds) im0"
  obtain im1 fs where pp: "place_pixels ?h = (im1, fs)" by (cases "place_pixels ?h")
  note fa = placed_image_facts [OF nm(1) pp ok(1, 2) cst]
  have nr: "\<not> (naxes ?h \<noteq> 0 \<and> pixtype ?h = 0)" using nb(1) fa(8, 9) by (simp add: image_nameable_def)
  let ?d1 = "(put_image ((put_image ds k ?h)\<lparr>filesize := pix_offset ?h\<rparr>) k im1)\<lparr>filesize := fs\<rparr>"
  let ?w1 = "put_ds w p ?d1"
  note pw = placed_world [OF i im, where h = ?h and x = im1 and fs = fs]
  have off: "im_hdr_offset im1 = filesize ds" using fa(1) by (simp add: placed_def)
  have geo: "header_geometry ?d1 (int k + 1) = Inr (filesize ds, im_maxkeywords im1, 0)" using pw(5) off fa(4) ok(3) by simp
  have m1: "\<not> mapped ?d1" using nm0 pw(1) by (simp add: mapped_def)
  have "nimages ?d1 = nimages ds" "imagelist ?d1 \<noteq> None" using pw(1) im by (auto simp: get_image_def split: option.splits)
  moreover have "nat (int k + 1) - 1 = k" by simp
  ultimately have pl: "header_place ?d1 (int k + 1) = Inr (Some (im_name im1, filesize ds))"
    using nb(4) pw(4) off unfolding header_place_def by simp
  have df: "int (length (d_file ?d1)) \<le> filesize ds" using nb(5) pw(1) by simp
  have nl: "length (im_name im1) + 2 \<le> DEF_SZSBUF" using fa(5) by (simp add: texts_ok_def SZ_PATHNAME_def DEF_SZSBUF_def)
  have rm: "int (length (ehu_cards im1)) + 1 \<le> im_maxkeywords im1" using fa(3, 7) by simp
  obtain n w2 where rh: "reserved_header e ?w1 p (int k + 1) ''EHU'' (ehu_cards im1) = Inr (Some n, w2)"
    using reserved_header_total [OF pw(2) m1 ma wr fa(6) refl pl geo _ ok(4, 5) df nl rm] by auto
  obtain d2 where d2: "idle w2 p d2" "only_file ?w1 w2 p ?d1 d2"
    using reserved_header_run [OF pw(2) ma fa(6) geo ok(4) _ _ _ rh] by auto
  obtain f kp where "d2 = ?d1\<lparr>d_file := f, d_kpos := kp\<rparr>" using d2(2) by (auto simp: only_file_def)
  then have "get_image d2 k = Inr im1" using pw(1, 4) by (simp add: get_image_def)
  then have "\<exists>w'. upd_image w2 p k (\<lambda>ds im. set_conv (im\<lparr>im_nreserved := n\<rparr>)) = Inr w'"
    using d2(1) by (simp add: upd_image_def get_ds_def idle_def)
  then show ?thesis using ds im nm nr pp rh by (auto simp: conf_image_def Let_def)
qed

lemma conf_images_total:
  assumes "idle w p ds" "wf_file ds" "\<forall>n. de_ma e n" "\<forall>n. de_write e n" "imagelist ds = Some (pre @ ims)" "length pre = k" "length ims = n"
    "\<forall>im \<in> set ims. can_place (d_maxkeywords ds) im \<and> texts_ok im \<and> im_nreserved im = 0 \<and> image_nameable (imformat ds) im"
    "0 \<le> filesize ds" "int (length (d_file ds)) \<le> filesize ds" "layout_end (d_maxkeywords ds) (filesize ds) ims < 2 ^ 31"
    "0 \<le> nim" "nim \<le> int k" "nimages ds = int k + int n"
  shows "\<exists>w'. conf_images n e w p k nim = Inr (True, w')"
  using assms
proof (induction n arbitrary: w ds pre ims k nim)
  case (Suc n)
  obtain im ims1 where ims: "ims = im # ims1" using Suc.prems(7) by (cases ims) auto
  have gi: "get_image ds k = Inr im" using Suc.prems(5, 6) ims by (auto simp: get_image_def)
  have ok: "can_place (d_maxkeywords ds) im" "texts_ok im" "im_nreserved im = 0" "image_nameable (imformat ds) im"
    "\<forall>im \<in> set ims1. can_place (d_maxkeywords ds) im"
    using Suc.prems(8) ims by auto
  let ?fs = "snd (place_pixels (place_header (d_maxkeywords ds) (filesize ds) im))"
  have "?fs \<le> layout_end (d_maxkeywords ds) (filesize ds) ims" using layout_end_mono [OF ok(5)] ims by simp
  moreover have "filesize ds \<le> ?fs" by (rule place_pixels_end [OF ok(1)])
  ultimately have "filesize ds < 2 ^ 31" using Suc.prems(11) by linarith
  from conf_image_total [OF Suc.prems(1-4) gi ok(1-3) Suc.prems(9) this ok(4) Suc.prems(12, 13) _ Suc.prems(10)] Suc.prems(14)
  obtain nim1 w1 where c: "conf_image e w p k nim = Inr (Some nim1, w1)" "0 \<le> nim1" "nim1 \<le> int k + 1" by auto
  have nr: "0 \<le> im_nreserved im" "im_nreserved im * 80 < 2 ^ 31" using ok(3) by simp_all
  obtain d1 im' where d1: "idle w1 p d1" "conf_frame w w1 p ds d1" "placed (d_maxkeywords ds) (filesize ds) im im'"
     "imagelist d1 = map_option (\<lambda>l. l[k := im']) (imagelist ds)" "filesize d1 = filesize ds + extnsize im'"
     "int (length (d_file d1)) \<le> max (int (length (d_file ds))) (pix_offset im')"
    using conf_image_run [OF Suc.prems(1-3) gi ok(1, 2) nr Suc.prems(9) c(1)] by blast
  note s = placed_sizes [OF d1(3) ok(1)]
  have il: "imagelist d1 = Some ((pre @ [im']) @ ims1)" using d1(4) Suc.prems(5, 6) ims by (simp add: list_update_append)
  note wf = conf_frame_wf [OF d1(2) Suc.prems(2)]
  have fl: "int (length (d_file d1)) \<le> filesize d1" using d1(5, 6) s Suc.prems(10) by linarith
  have fz: "0 \<le> filesize d1" using d1(5) s Suc.prems(9) by linarith
  obtain im2 fs2 where pp: "place_pixels (place_header (d_maxkeywords ds) (filesize ds) im) = (im2, fs2)"
    by (cases "place_pixels (place_header (d_maxkeywords ds) (filesize ds) im)")
  have "extnsize im' = extnsize im2" using placed_unique [OF d1(3)] place_image_spec [OF ok(1) pp] by blast
  then have le: "layout_end (d_maxkeywords d1) (filesize d1) ims1 < 2 ^ 31"
    using Suc.prems(11) ims pp place_image_spec [OF ok(1) pp] d1(5) wf by simp
  have fm: "imformat d1 = imformat ds" using d1(2) by (auto simp: conf_frame_def)
  have "\<exists>w'. conf_images n e w1 p (k + 1) nim1 = Inr (True, w')"
    by (rule Suc.IH [OF d1(1) conjunct1 [OF wf] Suc.prems(3, 4) il]) (use Suc.prems(6-8, 14) ims wf fz fl le c fm in auto)
  then show ?case using c(1) by auto
qed simp

text \<open>An image file as \<open>dsim_Open\<close> and \<open>dsim_Set\<close> leave it, small enough for \<open>ds_lseek\<close>.\<close>

definition fresh_images :: "DSImage \<Rightarrow> Image list \<Rightarrow> bool" where
  "fresh_images ds ims \<longleftrightarrow> d_nreserved ds = 0 \<and> length (d_name ds) < SZ_PATHNAME
     \<and> (\<forall>im \<in> set ims. can_place (global_capacity ds) im \<and> texts_ok im \<and> im_nreserved im = 0 \<and> image_nameable (imformat ds) im)
     \<and> layout_end (global_capacity ds) (global_capacity ds * 80) ims < 2 ^ 31"

lemma configure_total:
  assumes i: "idle w p ds" and nf: "new_file ds ims" and fr: "fresh_images ds ims" and ma: "\<forall>n. de_ma e n" and wr: "\<forall>n. de_write e n"
    and vm: "\<forall>n. \<exists>addr vm. vm_cacheregion (de_os e) (w_vm w) (d_fd ds) 0 n VM_READWRITE 0 = Inr (addr, vm) \<and> addr \<noteq> -1"
  shows "\<exists>w'. dsim_Configure e w p = Inr (0, w')"
proof -
  note g = global_start [OF i nf]
  let ?d1 = "place_global (ds\<lparr>configuring := configuring ds + 1\<rparr>)" and ?cap = "global_capacity ds"
  have fi: "d_nreserved ds = 0" "length (d_name ds) < SZ_PATHNAME" "layout_end ?cap (?cap * 80) ims < 2 ^ 31"
    "\<forall>im \<in> set ims. can_place ?cap im \<and> texts_ok im \<and> im_nreserved im = 0 \<and> image_nameable (imformat ds) im"
    using fr by (simp_all add: fresh_images_def)
  have nm: "\<not> mapped ?d1" using g(13) by (simp add: mapped_def)
  have geo: "header_geometry ?d1 0 = Inr (0, ?cap, 0)" using g(5) fi(1) by simp
  have pl: "header_place ?d1 0 = Inr (Some (d_name ds, 0))" using g(15) by (simp add: header_place_def)
  have st: "length ''EHU'' = length ''PHU''" "(0 :: int) \<le> 0" "(0 :: int) < 2 ^ 31" "int (length (d_file ?d1)) \<le> 0"
    "length (d_name ds) + 2 \<le> DEF_SZSBUF" "int (length (phu_cards ?d1)) + 1 \<le> ?cap"
    using g(9, 12) fi(2) by (simp_all add: SZ_PATHNAME_def DEF_SZSBUF_def phu_cards_def)
  obtain nr w2 where rh: "reserved_header e (put_ds w p ?d1) p 0 ''PHU'' (phu_cards ?d1) = Inr (Some nr, w2)"
    using reserved_header_total [OF g(2) nm ma wr g(4) st(1) pl geo _ st(2-6)] by auto
  obtain d2 f kp where d2: "get_ds w2 p = Inr d2" "d2 = ?d1\<lparr>d_file := f, d_kpos := kp\<rparr>"
    "idle (put_ds w2 p (d2\<lparr>d_nreserved := nr\<rparr>)) p (d2\<lparr>d_nreserved := nr\<rparr>)" "wf_file (d2\<lparr>d_nreserved := nr\<rparr>)"
    "int (length f) \<le> filesize ?d1" "w_vm w2 = w_vm (put_ds w p ?d1)"
    using global_written [OF g(2) ma g(3, 4) geo _ _ g(6, 12) rh] by auto
  let ?d3 = "d2\<lparr>d_nreserved := nr\<rparr>"
  have f3: "filesize ?d3 = ?cap * 80" "imagelist ?d3 = Some ims" "d_maxkeywords ?d3 = ?cap" "nimages ?d3 = int (length ims)"
    "nimages d2 = int (length ims)" "imformat ?d3 = imformat ds" "int (length (d_file ?d3)) \<le> filesize ?d3" "d_fd ?d3 = d_fd ds" "d_mode ?d3 = DSO_CREATE"
    using d2(2, 5) g by simp_all
  have cs: "imagelist ?d3 = Some ([] @ ims)" "length [] = (0 :: nat)" "length ims = length ims"
    "\<forall>im \<in> set ims. can_place (d_maxkeywords ?d3) im \<and> texts_ok im \<and> im_nreserved im = 0 \<and> image_nameable (imformat ?d3) im"
    "0 \<le> filesize ?d3" "layout_end (d_maxkeywords ?d3) (filesize ?d3) ims < 2 ^ 31" "nimages ?d3 = int 0 + int (length ims)"
    using f3 fi g(9) by simp_all
  obtain w4 where w4: "conf_images (length ims) e (put_ds w2 p ?d3) p 0 0 = Inr (True, w4)"
    using conf_images_total [OF d2(3, 4) ma wr cs(1-5) f3(7) cs(6) _ _ cs(7)] by auto
  have "\<forall>im \<in> set ims. image_ok (d_maxkeywords ?d3) im" using cs(4) by (simp add: image_ok_def)
  from conf_images_run [OF d2(3, 4) ma cs(1-3) this cs(5) f3(7) w4]
  obtain d4 ims' where d4: "idle w4 p d4" "conf_frame (put_ds w2 p ?d3) w4 p ?d3 d4" "imagelist d4 = Some ims'"
    "placed_all ?cap (?cap * 80) ims ims' (filesize d4)" "filesize ?d3 \<le> filesize d4"
    using f3 by auto
  note wf4 = conf_frame_wf [OF d4(2) d2(4)]
  have pos: "\<not> filesize d4 - 1 < 0" using d4(5) f3(1) g(9) by simp
  have k: "w_vm w4 = w_vm w" "d_fd d4 = d_fd ds" "d_mode d4 = DSO_CREATE" "length ims' = length ims" "nimages d4 = int (length ims)"
    using d4(2) d2(6) f3 placed_all_length [OF d4(4)] wf4 by (auto simp: conf_frame_def put_ds_def)
  let ?d5 = "d4\<lparr>d_file := overwrite (filesize d4 - 1) [NUL] (d_file d4), d_kpos := filesize d4\<rparr>"
  have sz: "set_file_size e w4 p = Inr (True, put_ds w4 p ?d5)"
    using d4(1) pos wr by (simp add: set_file_size_def get_ds_def idle_def)
  obtain addr vm' where v: "vm_cacheregion (de_os e) (w_vm w) (d_fd ds) 0 (word_of_int (filesize d4)) VM_READWRITE 0 = Inr (addr, vm')" "addr \<noteq> -1"
    using vm by blast
  have "\<exists>w'. map_file e (put_ds w4 p ?d5) p = Inr (0, w')"
    using d4(1, 3) k v by (auto simp: map_file_def put_ds_def get_ds_def idle_def DSO_CREATE_def DSO_RDONLY_def Let_def)
  then show ?thesis
    using g(1) rh d2(1) f3(5) w4 sz by (simp add: write_file_def Let_def)
qed

section \<open>A concrete file\<close>

text \<open>A file of one image of 100 by 20 unsigned shorts, with 40 keywords asked for.\<close>

definition image0 :: Image where
  "image0 = zero_image\<lparr>im_maxkeywords := 40, naxes := 2, axlen := [100, 20, 0, 0, 0, 0, 0, 0], pixtype := DSO_USHORT\<rparr>"

definition ds0 :: DSImage where
  "ds0 = \<lparr>d_name = ''obj'', d_type = [], imformat = ''im%d'', d_mode = DSO_CREATE, d_fd = 3, configured = 0, configuring = 0,
     d_maxkeywords = 0, d_nreserved = 0, nimages = 1, imagelist = Some [image0], nregions = 0, iolist = [], io_base = 0,
     d_hdr_offset = 0, hdr_length = 0, filesize = 0, mmap_addr = 0, mmap_len = 0, d_file = [], d_kpos = 0\<rparr>"

definition world0 :: dsworld where
  "world0 = \<lparr>fdtable = replicate MAX_FD \<lparr>fio_dsim = 0, fio_mode = 0, fio_pos = 0\<rparr>, dsims = [1 \<mapsto> ds0],
     w_vm = \<lparr>segment_head = 0, segment_tail = 0, cache_initialized = True, cache_enabled = False, cacheused = 0, cachesize = 0,
       physmem = 0, lockpages = False, pagesize = 4096, vm_heap = (\<lambda>_. None), vm_calls = []\<rparr>\<rparr>"

definition env0 :: dsenv where
  "env0 = \<lparr>de_os = os0, de_ma = (\<lambda>_. True), de_maxkeywords = None, de_imformat = None, de_access = (\<lambda>_. False), de_open = (\<lambda>_. 3),
     de_calloc = 1, de_imagelist_ok = True, de_realloc = (\<lambda>_. 512), de_write = (\<lambda>_. True), de_close = (\<lambda>_. True), de_little = True\<rparr>"

lemma world0_idle: "idle world0 1 ds0"
  by (simp add: idle_def world0_def ds0_def MAX_FD_def)

lemma global0: "global_capacity ds0 = 72"
  by code_simp

lemma new0: "new_file ds0 [image0]"
  by (simp add: new_file_def ds0_def storable_def txt_of_def DEF_SZSBUF_def)

lemma pad_int_length: "0 \<le> n \<Longrightarrow> n \<le> 2 ^ 31 \<Longrightarrow> length (pad_int [] n) \<le> 10"
proof -
  assume "0 \<le> n" "n \<le> 2 ^ 31"
  then have "length (show_nat (nat n)) \<le> 10" by (intro length_show_nat) auto
  then show ?thesis using \<open>0 \<le> n\<close> by (simp add: pad_int_def show_int_def)
qed

lemma image0_ok: "can_place 72 image0" "texts_ok image0" "im_nreserved image0 = 0" "image_nameable ''im%d'' image0"
proof -
  show "can_place 72 image0" "texts_ok image0" "im_nreserved image0 = 0" by code_simp+
  have "format_int ''im%d'' None (Some n) = Inr (''im'' @ pad_int [] n)" for n
    by (simp add: isdigit_def)
  moreover have "length (''im'' @ pad_int [] n) < 128" if "0 \<le> n \<and> n \<le> 2 ^ 31" for n using pad_int_length [of n] that by simp
  moreover have "pixtype image0 \<noteq> 0" by code_simp
  ultimately show "image_nameable ''im%d'' image0" unfolding image_nameable_def by blast
qed

lemma fresh0: "fresh_images ds0 [image0]"
proof -
  have "layout_end 72 (72 * 80) [image0] < 2 ^ 31" by code_simp
  then show ?thesis using image0_ok unfolding fresh_images_def global0
    by (simp add: ds0_def SZ_PATHNAME_def)
qed

lemma vm0: "\<exists>addr vm. vm_cacheregion (de_os env0) (w_vm world0) (d_fd ds0) 0 n VM_READWRITE 0 = Inr (addr, vm) \<and> addr \<noteq> -1"
proof -
  have "os_fuel os0 = Suc 9" by (simp add: os0_def)
  then have "find_region (os_fuel os0) h st x0 x1 0 = Inr Absent" for h st x0 x1 by (simp only: find_region.simps simp_thms if_True)
  moreover have "os_fstat os0 = (\<lambda>_. Some \<lparr>st_ino = 7, st_dev = 1, st_size = 8192\<rparr>)" "os_mmap os0 = (\<lambda>_. 65536)" "os_calloc os0 (\<lambda>_. None) = 1"
    by (simp_all add: os0_def)
  ultimately show ?thesis
    by (simp add: vm_cacheregion_def env0_def world0_def ds0_def Let_def vm_reservespace_def map_segment_def
      link_head_def upd_seg_def deref_def refresh_def call_def region_start_def)
qed

section \<open>Properties\<close>

lemma placed_all_nth:
  "placed_all dmax start ims ims' fs \<Longrightarrow> k < length ims \<Longrightarrow>
     placed dmax (im_hdr_offset (ims' ! k)) (ims ! k) (ims' ! k)
     \<and> im_hdr_offset (ims' ! k) = (if k = 0 then start else im_hdr_offset (ims' ! (k - 1)) + extnsize (ims' ! (k - 1)))"
proof (induction dmax start ims ims' fs arbitrary: k rule: placed_all.induct)
  case (2 dmax start im ims im' ims' fs)
  have p1: "placed dmax start im im'" using "2.prems"(1) by simp
  then have p: "placed dmax start im im'" "im_hdr_offset im' = start" by (simp, simp add: placed_def)
  show ?case
  proof (cases k)
    case (Suc j)
    then show ?thesis using "2.IH" [of j] "2.prems" p by (cases j) auto
  qed (use p in simp)
qed auto

lemma placed_all_end:
  "placed_all dmax start ims ims' fs \<Longrightarrow> ims' \<noteq> [] \<Longrightarrow> im_hdr_offset (last ims') + extnsize (last ims') = fs"
proof (induction dmax start ims ims' fs rule: placed_all.induct)
  case (2 dmax start im ims im' ims' fs)
  have "im_hdr_offset im' = start" using "2.prems"(1) by (simp add: placed_def)
  then show ?case using 2 by (cases "ims' = []"; cases ims) auto
qed auto

text \<open>
  C7: a configuration that succeeds lays the file out without gap or overlap.  The global header
  takes whole blocks, the first extension starts after it and each other one where the one
  before ends, and the last one ends with the file.  In each (\<open>placed\<close>) the header takes whole
  blocks with room for the keywords asked for, and the pixels and the area after them follow,
  padded to whole blocks.  The pixels of an image are at their offset in the mapping, and other
  open image files are not touched.
\<close>

theorem dsim_Configure_layout:
  assumes i: "idle w p ds" and nf: "new_file ds ims" and ma: "\<forall>n. de_ma e n"
    and ok: "\<forall>im \<in> set ims. image_ok (global_capacity ds) im" and r: "dsim_Configure e w p = Inr (0, w')"
  shows "\<exists>ds' ims'. dsims w' p = Some ds' \<and> configured ds' = 1 \<and> configuring ds' = 0
     \<and> imagelist ds' = Some ims' \<and> length ims' = length ims \<and> nimages ds' = nimages ds
     \<and> d_maxkeywords ds' = global_capacity ds \<and> hdr_length ds' = d_maxkeywords ds' * 80
     \<and> (\<forall>k < length ims. placed (d_maxkeywords ds') (im_hdr_offset (ims' ! k)) (ims ! k) (ims' ! k)
          \<and> im_hdr_offset (ims' ! k) = (if k = 0 then hdr_length ds' else im_hdr_offset (ims' ! (k - 1)) + extnsize (ims' ! (k - 1)))
          \<and> pixels (ims' ! k) = mmap_addr ds' + word_of_int (pix_offset (ims' ! k)))
     \<and> im_hdr_offset (last ims') + extnsize (last ims') = filesize ds'
     \<and> int (length (d_file ds')) = filesize ds' \<and> mmap_len ds' = filesize ds'
     \<and> (\<forall>q. q \<noteq> p \<longrightarrow> dsims w' q = dsims w q)"
proof -
  obtain ds' ims' where *: "dsims w' p = Some ds'" "configured ds' = 1" "configuring ds' = 0" "imagelist ds' = Some ims'"
    "nimages ds' = nimages ds" "d_maxkeywords ds' = global_capacity ds" "hdr_length ds' = d_maxkeywords ds' * 80"
    "placed_all (d_maxkeywords ds') (hdr_length ds') ims ims' (filesize ds')"
    "int (length (d_file ds')) = filesize ds'" "mmap_len ds' = filesize ds'"
    "\<forall>im \<in> set ims'. pixels im = mmap_addr ds' + word_of_int (pix_offset im)" "\<forall>q. q \<noteq> p \<longrightarrow> dsims w' q = dsims w q"
    using configure_layout [OF assms] by blast
  have l: "length ims' = length ims" by (rule placed_all_length [OF *(8)])
  then have "ims' \<noteq> []" using nf by (auto simp: new_file_def)
  from placed_all_end [OF *(8) this] have end': "im_hdr_offset (last ims') + extnsize (last ims') = filesize ds'" .
  have "\<forall>k < length ims. placed (d_maxkeywords ds') (im_hdr_offset (ims' ! k)) (ims ! k) (ims' ! k)
          \<and> im_hdr_offset (ims' ! k) = (if k = 0 then hdr_length ds' else im_hdr_offset (ims' ! (k - 1)) + extnsize (ims' ! (k - 1)))
          \<and> pixels (ims' ! k) = mmap_addr ds' + word_of_int (pix_offset (ims' ! k))"
  proof (intro allI impI)
    fix k
    assume k: "k < length ims"
    then have "ims' ! k \<in> set ims'" using l by simp
    then have "pixels (ims' ! k) = mmap_addr ds' + word_of_int (pix_offset (ims' ! k))" using *(11) by blast
    with placed_all_nth [OF *(8) k]
    show "placed (d_maxkeywords ds') (im_hdr_offset (ims' ! k)) (ims ! k) (ims' ! k)
          \<and> im_hdr_offset (ims' ! k) = (if k = 0 then hdr_length ds' else im_hdr_offset (ims' ! (k - 1)) + extnsize (ims' ! (k - 1)))
          \<and> pixels (ims' ! k) = mmap_addr ds' + word_of_int (pix_offset (ims' ! k))" by blast
  qed
  then show ?thesis using * l end' by blast
qed

theorem dsim_Configure_layout_witness:
  "\<exists>w' ds'. dsim_Configure env0 world0 1 = Inr (0, w') \<and> dsims w' 1 = Some ds' \<and> filesize ds' = int (length (d_file ds'))"
proof -
  obtain w' where w': "dsim_Configure env0 world0 1 = Inr (0, w')"
    using configure_total [OF world0_idle new0 fresh0, of env0] vm0 by (auto simp: env0_def)
  have "\<forall>im \<in> set [image0]. image_ok (global_capacity ds0) im" using image0_ok by (simp add: global0 image_ok_def)
  from dsim_Configure_layout [OF world0_idle new0 _ this w'] w' show ?thesis by (auto simp: env0_def)
qed

text \<open>
  C27: configuring a new file whose images have been described succeeds when memory, the writes
  and the mapping do: every header fits its area and every search of the keyword database ends.
  Configuring it again changes nothing.
\<close>

theorem dsim_Configure_succeeds:
  assumes i: "idle w p ds" and nf: "new_file ds ims" and fr: "fresh_images ds ims" and ma: "\<forall>n. de_ma e n" and wr: "\<forall>n. de_write e n"
    and vm: "\<forall>n. \<exists>addr vm. vm_cacheregion (de_os e) (w_vm w) (d_fd ds) 0 n VM_READWRITE 0 = Inr (addr, vm) \<and> addr \<noteq> -1"
  shows "\<exists>w'. dsim_Configure e w p = Inr (0, w') \<and> dsim_Configure e w' p = Inr (0, w')"
proof -
  obtain w' where w': "dsim_Configure e w p = Inr (0, w')" using configure_total [OF assms] by blast
  have "\<forall>im \<in> set ims. image_ok (global_capacity ds) im" using fr by (simp add: fresh_images_def image_ok_def)
  then obtain ds' where "dsims w' p = Some ds'" "configured ds' = 1" using configure_layout [OF i nf ma _ w'] by blast
  moreover have "p \<noteq> 0" using i by (simp add: idle_def)
  ultimately show ?thesis using w' by (auto simp: dsim_Configure_def get_ds_def)
qed

theorem dsim_Configure_succeeds_witness:
  "\<exists>w'. dsim_Configure env0 world0 1 = Inr (0, w')"
  using dsim_Configure_succeeds [OF world0_idle new0 fresh0, of env0] vm0 by (auto simp: env0_def)

text \<open>
  C8: \<open>dsim_StartIO\<close> gives a region in which every pixel that was asked for has its own bytes
  inside the pixels of the image: the address is that of row-major order, two pixels of the
  region do not overlap, and the routines for one and two dimensions agree with the one for
  three.
\<close>

theorem dsim_StartIO_pixels:
  assumes r: "dsim_StartIO e w p imno mode sv nv = Inr (Some io, w')" and ds: "get_ds w' p = Inr ds" "regions_ok ds"
    and im: "get_image ds (nat imno - 1) = Inr im" "plain_image im" and b: "in_region im sv nv i j k"
  shows "\<exists>rp. region_at ds io = Inr rp
     \<and> dsim_Pixel3D rp i j k = pixels im + word_of_int (pixel_index (axlen im) i j k * pixsize im)
     \<and> 0 \<le> pixel_index (axlen im) i j k * pixsize im
     \<and> pixel_index (axlen im) i j k * pixsize im + pixsize im \<le> axlen im ! 2 * axlen im ! 1 * axlen im ! 0 * pixsize im
     \<and> (\<forall>i' j' k'. in_region im sv nv i' j' k' \<longrightarrow> (i', j', k') \<noteq> (i, j, k) \<longrightarrow>
          pixsize im \<le> \<bar>pixel_index (axlen im) i' j' k' * pixsize im - pixel_index (axlen im) i j k * pixsize im\<bar>)
     \<and> dsim_Pixel2D rp i j = dsim_Pixel3D rp i j 0 \<and> dsim_Pixel1D rp (i32 i) = dsim_Pixel3D rp (i32 i) 0 0"
proof -
  obtain w1 ds1 ds2 where "start_io e ds1 imno mode sv nv = Inr (Some io, ds2)" "w' = put_ds w1 p ds2"
    using r by (auto simp: dsim_StartIO_def bind_res_Inr_iff split: if_splits)
  moreover from this have "ds2 = ds" using ds(1) by (auto simp: get_ds_def put_ds_def split: if_splits)
  ultimately have "start_io e ds1 imno mode sv nv = Inr (Some io, ds)" by simp
  from start_io_region [OF this ds(2)] im(1)
  have sb: "sv_in_bounds sv nv im" and rp: "region_at ds io = Inr (region im (nat imno - 1) mode sv nv)" by auto
  have ps: "0 < pixsize im" using im(2) by (simp add: plain_image_def)
  have apart: "pixsize im \<le> \<bar>pixel_index (axlen im) i' j' k' * pixsize im - pixel_index (axlen im) i j k * pixsize im\<bar>"
    if o': "in_region im sv nv i' j' k'" "(i', j', k') \<noteq> (i, j, k)" for i' j' k'
  proof -
    let ?d = "pixel_index (axlen im) i' j' k' - pixel_index (axlen im) i j k"
    have "?d \<noteq> 0" using pixel_index_unique [OF region_in_image [OF im(2) sb o'(1)] region_in_image [OF im(2) sb b]] o'(2) by auto
    then have "pixsize im * 1 \<le> pixsize im * \<bar>?d\<bar>" using ps by (intro mult_left_mono) auto
    moreover have "pixel_index (axlen im) i' j' k' * pixsize im - pixel_index (axlen im) i j k * pixsize im = pixsize im * ?d"
      by (simp add: algebra_simps)
    moreover have "\<bar>pixsize im * ?d\<bar> = pixsize im * \<bar>?d\<bar>" using ps by (simp add: abs_mult)
    ultimately show ?thesis by simp
  qed
  have "i32 (i32 i) = i32 i" using i32_range [of i] by (intro i32_id)
  then show ?thesis
    using rp region_pixel [OF im(2) sb b, of "nat imno - 1" mode] apart Pixel_2D_1D by auto
qed

definition image1 :: Image where
  "image1 = image0\<lparr>axlen := [100, 20, 1, 1, 1, 1, 1, 1], pixsize := 2, pixels := 65536\<rparr>"

definition ds1 :: DSImage where
  "ds1 = ds0\<lparr>configured := 1, imagelist := Some [image1]\<rparr>"

lemma start_io_1:
  "start_io env0 ds1 1 0 [10, 5] [3, 2] = Inr (Some (512, 0), ds1\<lparr>io_base := 512, nregions := 4,
     iolist := Some (region image1 0 0 [10, 5] [3, 2]) # replicate 3 (Some empty_region)\<rparr>)"
  by code_simp

theorem dsim_StartIO_pixels_witness:
  "\<exists>w' rp. dsim_StartIO env0 (put_ds world0 1 ds1) 1 1 0 [10, 5] [3, 2] = Inr (Some (512, 0), w')
     \<and> dsim_Pixel3D rp 12 6 0 = 65536 + 2 * 612"
proof -
  let ?ds = "ds1\<lparr>io_base := 512, nregions := 4, iolist := Some (region image1 0 0 [10, 5] [3, 2]) # replicate 3 (Some empty_region)\<rparr>"
  let ?w = "put_ds (put_ds world0 1 ds1) 1 ?ds"
  have g: "get_ds (put_ds world0 1 ds1) 1 = Inr ds1" "get_ds ?w 1 = Inr ?ds" by (simp_all add: get_ds_def put_ds_def)
  have "configured ds1 \<noteq> 0" by (simp add: ds1_def)
  then have r: "dsim_StartIO env0 (put_ds world0 1 ds1) 1 1 0 [10, 5] [3, 2] = Inr (Some (512, 0), ?w)"
    using start_io_1 g(1) by (simp add: dsim_StartIO_def ensure_configured_def)
  have im: "get_image ?ds (nat 1 - 1) = Inr image1" "regions_ok ?ds" by (simp_all add: get_image_def ds1_def regions_ok_def)
  have pl: "plain_image image1" "in_region image1 [10, 5] [3, 2] 12 6 0"
    by (simp_all add: plain_image_def in_region_def image1_def image0_def all_less_3 MAXDIM_def)
  from dsim_StartIO_pixels [OF r g(2) im(2) im(1) pl] obtain rp where
    "dsim_Pixel3D rp 12 6 0 = pixels image1 + word_of_int (pixel_index (axlen image1) 12 6 0 * pixsize image1)" by blast
  moreover have "pixels image1 + word_of_int (pixel_index (axlen image1) 12 6 0 * pixsize image1) = 65536 + 2 * 612"
    by (simp add: image1_def pixel_index_def)
  ultimately show ?thesis using r by auto
qed

text \<open>
  regions that are in use keep their descriptors when another region is opened, which is not
  one of them, unless the table of regions is full and \<open>realloc\<close> moves it: then every region
  opened before is a reference into freed memory.
\<close>

theorem dsim_StartIO_regions:
  assumes "start_io e ds imno mode sv nv = Inr (Some io', ds')"
    and "region_at ds io = Inr rp" and "io_image rp \<noteq> None" and "length (iolist ds) = nregions ds"
  shows "(io_base ds' = io_base ds \<longrightarrow> io' \<noteq> io \<and> region_at ds' io = Inr rp)
    \<and> (io_base ds' \<noteq> io_base ds \<longrightarrow> region_at ds' io = Inl Use_After_Free
        \<and> (\<forall>r \<in> set (iolist ds). \<exists>rq. r = Some rq \<and> io_image rq \<noteq> None)
        \<and> io_base ds' = de_realloc e (max 4 (2 * nregions ds)))"
proof -
  obtain im i ds1 where *: "first_unused (iolist ds) 0 = Inr (Some i) \<and> ds1 = ds
      \<or> first_unused (iolist ds) 0 = Inr None \<and> grow_regions e ds = (Some i, ds1)"
    "io' = (io_base ds1, i)" "ds' = ds1\<lparr>iolist := (iolist ds1)[i := Some (region im (nat imno - 1) mode sv nv)]\<rparr>"
    by (rule start_io_cases [OF assms(1)])
  obtain b k where io: "io = (b, k)" by (cases io)
  have old: "b \<noteq> 0" "b = io_base ds" "k < length (iolist ds)" "iolist ds ! k = Some rp"
    using assms(2) by (auto simp: io region_at_def split: if_splits option.splits)
  from *(1) show ?thesis
  proof
    assume a: "first_unused (iolist ds) 0 = Inr (Some i) \<and> ds1 = ds"
    then have "i \<noteq> k" using first_unused_some [of "iolist ds" 0 i] old assms(3) by auto
    then show ?thesis using a * old by (auto simp: io region_at_def)
  next
    assume a: "first_unused (iolist ds) 0 = Inr None \<and> grow_regions e ds = (Some i, ds1)"
    then have g: "i = nregions ds" "i < length (iolist ds1)" "take i (iolist ds1) = iolist ds"
      "io_base ds1 = de_realloc e (max 4 (nregions ds * 2))"
      using grow_regions_some [of e ds i ds1] assms(4) by auto
    have k: "k < i" using old(3) assms(4) g by simp
    have "iolist ds1 ! k = take i (iolist ds1) ! k" using k by simp
    then have "iolist ds1 ! k = Some rp" using g(3) old(4) by simp
    moreover have "\<forall>r \<in> set (iolist ds). \<exists>rq. r = Some rq \<and> io_image rq \<noteq> None" using a first_unused_none by blast
    ultimately show ?thesis using * g k old
      by (auto simp: io region_at_def ac_simps)
  qed
qed

definition ds_full :: DSImage where
  "ds_full = ds1\<lparr>io_base := 512, nregions := 4, iolist := replicate 4 (Some (region image1 0 0 [0, 0] [1, 1]))\<rparr>"

lemma start_io_full:
  "start_io (env0\<lparr>de_realloc := (\<lambda>_. 1024)\<rparr>) ds_full 1 0 [10, 5] [3, 2] = Inr (Some (1024, 4), ds_full\<lparr>io_base := 1024, nregions := 8,
     iolist := replicate 4 (Some (region image1 0 0 [0, 0] [1, 1])) @ Some (region image1 0 0 [10, 5] [3, 2]) # replicate 3 (Some empty_region)\<rparr>)"
  by code_simp

theorem dsim_StartIO_regions_witness:
  "\<exists>ds'. start_io (env0\<lparr>de_realloc := (\<lambda>_. 1024)\<rparr>) ds_full 1 0 [10, 5] [3, 2] = Inr (Some (1024, 4), ds')
     \<and> region_at ds_full (512, 2) = Inr (region image1 0 0 [0, 0] [1, 1]) \<and> region_at ds' (512, 2) = Inl Use_After_Free"
proof -
  have o': "region_at ds_full (512, 2) = Inr (region image1 0 0 [0, 0] [1, 1])" by (simp add: region_at_def ds_full_def)
  have "io_image (region image1 0 0 [0, 0] [1, 1]) \<noteq> None" "length (iolist ds_full) = nregions ds_full"
    by (simp_all add: region_def ds_full_def)
  from dsim_StartIO_regions [OF start_io_full o' this] start_io_full o' show ?thesis by (simp add: ds_full_def)
qed

end
