(* ===== verification/Dsim_Header.thy ===== *)
theory Dsim_Header
  imports Dsim_File_Props
begin

text \<open>
  Headers of an image file, \<open>dsim_WriteHeader\<close> and \<open>dsim_ReadHeader\<close> of \<open>mosdca/dsim.c\<close>, as a
  whole: which bytes of the file a written header takes, and that reading it gives the reserved
  keywords and those that were written.
\<close>

section \<open>Cards in a file\<close>

lemma ds_read_session:
  assumes s: "session w p ds pos" and f: "mapped ds \<longrightarrow> int (length (d_file ds)) = filesize ds"
    and fit: "nat pos + 80 \<le> length (d_file ds)"
  shows "\<exists>w' ds'. ds_read w 0 CARDLEN = Inr (80, take 80 (drop (nat pos) (d_file ds)), w') \<and> session w' p ds' (pos + 80)
     \<and> only_file w w' p ds ds' \<and> d_file ds' = d_file ds"
proof (cases "mapped ds")
  case False
  let ?ds = "ds\<lparr>d_kpos := pos + 80\<rparr>"
  have *: "p \<noteq> 0" "dsims w p = Some ds" "fio_dsim (fdtable w ! 0) = p" "length (fdtable w) = 32" "pos = d_kpos ds" "0 \<le> pos"
    using s False by (auto simp: session_def MAX_FD_def)
  have l: "length (take 80 (drop (nat pos) (d_file ds))) = 80" using fit by simp
  have "ds_read w 0 CARDLEN = Inr (80, take 80 (drop (nat pos) (d_file ds)), put_ds w p ?ds)"
    using * False l by (simp add: ds_read_def get_ds_def MAX_FD_def CARDLEN_def Let_def)
  moreover have "session (put_ds w p ?ds) p ?ds (pos + 80)"
    using * False by (auto simp: session_def put_ds_def mapped_def MAX_FD_def)
  moreover have "only_file w (put_ds w p ?ds) p ds ?ds"
    unfolding only_file_def
  proof (intro conjI)
    show "\<exists>f k. ?ds = ds\<lparr>d_file := f, d_kpos := k\<rparr>" by (rule exI [of _ "d_file ds"], rule exI [of _ "pos + 80"]) simp
    show "\<exists>f. fdtable (put_ds w p ?ds) = (fdtable w)[0 := f]" by (rule exI [of _ "fdtable w ! 0"]) (simp add: put_ds_def)
  qed (simp_all add: put_ds_def)
  ultimately show ?thesis by (intro exI [of _ "put_ds w p ?ds"] exI [of _ ?ds]) simp
next
  case True
  have *: "p \<noteq> 0" "dsims w p = Some ds" "fio_dsim (fdtable w ! 0) = p" "length (fdtable w) = 32" "pos = fio_pos (fdtable w ! 0)"
    "0 \<le> pos" "0 \<le> d_kpos ds"
    using s True by (auto simp: session_def MAX_FD_def)
  have fz: "pos + 80 \<le> filesize ds" using fit f True *(6) by linarith
  then have m: "min (filesize ds) (pos + CARDLEN) - pos = 80" "pos \<le> filesize ds" by (simp_all add: CARDLEN_def)
  have "ds_read w 0 CARDLEN = Inr (80, take 80 (drop (nat pos) (d_file ds)), set_pos w 0 (pos + 80))"
    using *(1-4, 6) True m fit by (simp add: ds_read_def get_ds_def MAX_FD_def Let_def flip: *(5))
  moreover have "session (set_pos w 0 (pos + 80)) p ds (pos + 80)"
    using *(1-4, 6, 7) True by (simp add: session_def set_pos_def MAX_FD_def)
  moreover have "only_file w (set_pos w 0 (pos + 80)) p ds ds"
    unfolding only_file_def
  proof (intro conjI)
    show "\<exists>f k. ds = ds\<lparr>d_file := f, d_kpos := k\<rparr>" by (rule exI [of _ "d_file ds"], rule exI [of _ "d_kpos ds"]) simp
    show "\<exists>f. fdtable (set_pos w 0 (pos + 80)) = (fdtable w)[0 := f]" by (rule exI) (simp add: set_pos_def)
  qed (use *(2) in \<open>simp_all add: set_pos_def fun_upd_idem\<close>)
  ultimately show ?thesis by (intro exI [of _ "set_pos w 0 (pos + 80)"] exI [of _ ds]) simp
qed

text \<open>The cards that a reader gets, up to the end of the file.\<close>

lemma ds_chunks_prefix:
  assumes "session w p ds pos" "mapped ds \<longrightarrow> int (length (d_file ds)) = filesize ds"
    "\<forall>c \<in> set cards. length c = 80" "drop (nat pos) (d_file ds) = concat cards @ rest" "length cards \<le> n"
    "ds_chunks n w 0 = Inr input"
  shows "\<exists>extra. input = cards @ extra"
  using assms
proof (induction cards arbitrary: w ds pos n input)
  case (Cons c cards)
  obtain m where n: "n = Suc m" using Cons.prems(5) by (cases n) auto
  have c: "length c = 80" "drop (nat pos) (d_file ds) = c @ concat cards @ rest" using Cons.prems(3, 4) by simp_all
  then have "80 \<le> length (drop (nat pos) (d_file ds))" by simp
  then have fit: "nat pos + 80 \<le> length (d_file ds)" by simp
  obtain w1 d1 where r: "ds_read w 0 CARDLEN = Inr (80, take 80 (drop (nat pos) (d_file ds)), w1)"
    "session w1 p d1 (pos + 80)" "only_file w w1 p ds d1" "d_file d1 = d_file ds"
    using ds_read_session [OF Cons.prems(1, 2) fit] by blast
  have t: "take 80 (drop (nat pos) (d_file ds)) = c" using c by simp
  obtain in1 where i: "ds_chunks m w1 0 = Inr in1" "input = c # in1"
    using Cons.prems(6) r(1) t n by (auto simp: CARDLEN_def bind_res_Inr_iff)
  have "0 \<le> pos" using Cons.prems(1) by (simp add: session_def)
  then have "drop (nat (pos + 80)) (d_file d1) = drop 80 (drop (nat pos) (d_file ds))" using r(4) by (simp add: nat_add_distrib add.commute)
  then have d: "drop (nat (pos + 80)) (d_file d1) = concat cards @ rest" using c by simp
  have "mapped d1 \<longrightarrow> int (length (d_file d1)) = filesize d1"
    using Cons.prems(2) r(4) only_file_mapped [OF r(3)] only_file_filesize [OF r(3)] by simp
  from Cons.IH [OF r(2) this _ d _ i(1)] Cons.prems(3, 5) n i(2) show ?case by auto
qed simp

section \<open>Reading formatted cards\<close>

lemma read_cards_append:
  assumes "kw_inv db gl rc" "\<forall>n. ma n" "list_all plain_card cards" "maxc = 0 \<or> n + int (length cards) \<le> maxc"
  shows "\<exists>db' xs rc'. read_cards ma maxc (map fits_card cards @ extra) db n old
       = read_cards ma maxc extra db' (n + int (length cards)) (if cards = [] then old else Some (c_comment (last cards)))
     \<and> kw_inv db' (gl @ xs) rc' \<and> list_all2 (\<lambda>x c. text_of db' x = card_text (read_back c)) xs cards
     \<and> (\<forall>i \<in> set gl. text_of db' i = text_of db i)"
  using assms
proof (induction cards arbitrary: db gl rc n old)
  case (Cons c cards)
  have pc: "plain_key (c_name c)" "plain_value (c_type c) (c_value c) (c_comment c)"
    using Cons.prems(3) by (simp_all add: plain_card_def)
  have ok: "card_ok (read_back c)" using read_back_ok [of c] Cons.prems(3) by simp
  have "ma = mem_ok" using Cons.prems(2) by (auto simp: mem_ok_def)
  then obtain x d1 where a: "kw_add ma db (read_back c) = Inr (int x, d1)"
    "kw_inv d1 (gl @ [x]) (if c_name c = [] then rc else x # rc)" "text_of d1 x = card_text (read_back c)"
    "\<forall>i \<in> set gl. text_of d1 i = text_of db i"
    using ks.add_law [OF Cons.prems(1) ok] by (auto simp: read_back_def)
  have pl: "list_all plain_card cards" "maxc = 0 \<or> n + 1 + int (length cards) \<le> maxc" using Cons.prems(3, 4) by auto
  obtain db' xs rc' where b: "read_cards ma maxc (map fits_card cards @ extra) d1 (n + 1) (Some (c_comment c))
       = read_cards ma maxc extra db' (n + 1 + int (length cards)) (if cards = [] then Some (c_comment c) else Some (c_comment (last cards)))"
     "kw_inv db' ((gl @ [x]) @ xs) rc'" "list_all2 (\<lambda>x c. text_of db' x = card_text (read_back c)) xs cards"
     "\<forall>i \<in> set (gl @ [x]). text_of db' i = text_of d1 i"
    using Cons.IH [OF a(2) Cons.prems(2) pl, of "Some (c_comment c)"] by blast
  have ne: "\<not> streq (c_name c) ''END''" using pc(1) by (simp add: plain_key_def)
  have "\<not> (maxc \<noteq> 0 \<and> n \<ge> maxc)" using Cons.prems(4) by auto
  then have "read_cards ma maxc (map fits_card (c # cards) @ extra) db n old
      = read_cards ma maxc (map fits_card cards @ extra) d1 (n + 1) (Some (c_comment c))"
    using parse_format [OF pc] ne a(1)
    by (cases "maxc = 0") (simp_all add: fits_card_def kw_add_def read_back_def del: streq.simps)
  then show ?case using b a(3, 4)
    by (intro exI [of _ db'] exI [of _ "x # xs"] exI [of _ rc']) (auto simp: algebra_simps)
qed auto

lemma blank_parses:
  "length blank_card = 80" "card_keyword blank_card = []" "parse_card blank_card old = ([], [], ''T'', old)"
proof -
  show "length blank_card = 80" "card_keyword blank_card = []" by code_simp+
  have "line_text (drop 8 blank_card) = []" "blank_card ! 8 \<noteq> CHR ''=''" by code_simp+
  moreover have "\<not> streq [] ''COMMENT''" "\<not> streq [] ''HISTORY''" by simp_all
  ultimately show "parse_card blank_card old = ([], [], ''T'', old)"
    by (simp add: parse_card_def \<open>card_keyword blank_card = []\<close> Let_def del: streq.simps)
qed

text \<open>Blank cards are entered as blank entries with the comment of the last card before them.\<close>

lemma read_cards_blanks:
  assumes "kw_inv db gl rc" "\<forall>n. ma n" "storable (Some c)"
  shows "\<exists>db' bs. read_cards ma 0 (replicate k blank_card @ extra) db n (Some c) = read_cards ma 0 extra db' (n + int k) (Some c)
     \<and> kw_inv db' (gl @ bs) rc \<and> length bs = k \<and> (\<forall>b \<in> set bs. blank_entry db' b) \<and> (\<forall>i \<in> set gl. text_of db' i = text_of db i)"
  using assms(1)
proof (induction k arbitrary: db gl n)
  case 0
  then show ?case by (intro exI [of _ db] exI [of _ "[]"]) simp
next
  case (Suc k)
  let ?c = "Card [] [] ''T'' c"
  have ok: "card_ok ?c" using assms(3) by (simp add: card_eval)
  have "ma = mem_ok" using assms(2) by (auto simp: mem_ok_def)
  then obtain x d1 where a: "kw_add ma db ?c = Inr (int x, d1)" "kw_inv d1 (gl @ [x]) rc" "text_of d1 x = card_text ?c"
    "\<forall>i \<in> set gl. text_of d1 i = text_of db i"
    using ks.add_law [OF Suc.prems ok] by auto
  obtain db' bs where b: "read_cards ma 0 (replicate k blank_card @ extra) d1 (n + 1) (Some c) = read_cards ma 0 extra db' (n + 1 + int k) (Some c)"
    "kw_inv db' ((gl @ [x]) @ bs) rc" "length bs = k" "\<forall>b \<in> set bs. blank_entry db' b" "\<forall>i \<in> set (gl @ [x]). text_of db' i = text_of d1 i"
    using Suc.IH [OF a(2), of "n + 1"] by blast
  have "text_of db' x = card_text ?c" using a(3) b(5) by simp
  then have "blank_entry db' x" by (simp add: blank_entry_def fun_eq_iff txt_of_def flip: text_of_simps)
  moreover have "read_cards ma 0 (replicate (Suc k) blank_card @ extra) db n (Some c)
      = read_cards ma 0 (replicate k blank_card @ extra) d1 (n + 1) (Some c)"
    using blank_parses a(1) by (simp add: kw_add_def)
  ultimately show ?case using b a(4)
    by (intro exI [of _ db'] exI [of _ "x # bs"]) (auto simp: algebra_simps)
qed

section \<open>What is read from a header\<close>

lemma plain_not_blank:
  assumes "plain_card c" "text_of db x = card_text (read_back c)"
  shows "\<not> blank_entry db x"
proof -
  have "c_type c = ''S'' \<or> c_type c = ''N'' \<or> c_type c = ''L''"
    using assms(1) plain_value_lengths(3) by (auto simp: plain_card_def)
  moreover have "type_of db x = c_type c" using assms(2) by (simp add: read_back_def txt_of_def fun_eq_iff flip: text_of_simps)
  ultimately show ?thesis by (auto simp: blank_entry_def)
qed

text \<open>A header: cards, blank cards, END.\<close>

lemma ReadFITS_header:
  assumes inv: "kw_inv db [] []" and ma: "\<forall>n. ma n" and pl: "list_all plain_card cards" "cards \<noteq> []"
  shows "\<exists>db' xs rc'. kwdb_ReadFITS ma db (map fits_card cards @ replicate k blank_card @ end_card # extra) 0 = Inr (int (length cards + k), int k, db')
     \<and> kw_inv db' xs rc' \<and> list_all2 (\<lambda>x c. text_of db' x = card_text (read_back c)) xs cards"
proof -
  let ?extra = "replicate k blank_card @ end_card # extra" and ?c = "c_comment (last cards)"
  obtain d1 xs rc1 where a: "read_cards ma 0 (map fits_card cards @ ?extra) db 0 None = read_cards ma 0 ?extra d1 (int (length cards)) (Some ?c)"
    "kw_inv d1 xs rc1" "list_all2 (\<lambda>x c. text_of d1 x = card_text (read_back c)) xs cards"
    using read_cards_append [OF inv ma pl(1), of 0 0 ?extra None] pl(2) by auto
  have "plain_card (last cards)" using pl by (simp add: list_all_iff)
  then have st: "storable (Some ?c)" using read_back_ok [of "last cards"] by (simp add: card_ok_def entry_ok_def read_back_def)
  obtain d2 bs where b: "read_cards ma 0 ?extra d1 (int (length cards)) (Some ?c) = read_cards ma 0 (end_card # extra) d2 (int (length cards) + int k) (Some ?c)"
    "kw_inv d2 (xs @ bs) rc1" "length bs = k" "\<forall>b \<in> set bs. blank_entry d2 b" "\<forall>i \<in> set xs. text_of d2 i = text_of d1 i"
    using read_cards_blanks [OF a(2) ma st, of k "end_card # extra" "int (length cards)"] by blast
  have e: "read_cards ma 0 (end_card # extra) d2 n old = Inr (n, d2)" for n old by (simp add: end_card_parses)
  have x2: "list_all2 (\<lambda>x c. text_of d2 x = card_text (read_back c)) xs cards"
    using a(3) b(5) by (auto simp: list_all2_conv_all_nth)
  have nb: "\<not> blank_entry d2 x" if "x \<in> set xs" for x
  proof -
    obtain i where i: "i < length xs" "xs ! i = x" using \<open>x \<in> set xs\<close> by (auto simp: in_set_conv_nth)
    then have "plain_card (cards ! i)" "text_of d2 x = card_text (read_back (cards ! i))"
      using x2 pl(1) by (auto simp: list_all2_conv_all_nth list_all_length)
    then show ?thesis by (rule plain_not_blank)
  qed
  have sp: "rev xs = [] \<or> \<not> blank_entry d2 (hd (rev xs))" using nb by (cases "rev xs") (auto simp: rev_eq_Cons_iff)
  have ab: "list_all (blank_entry d2) (rev bs)" using b(4) by (simp add: list_all_iff)
  have tw: "takeWhile (blank_entry d2) (rev (xs @ bs)) = rev bs" "dropWhile (blank_entry d2) (rev (xs @ bs)) = rev xs"
    using takeWhile_all_hd [OF ab sp] dropWhile_all_hd [OF ab sp] by simp_all
  obtain db' rc' where t: "trim_blanks (maxitems d2) d2 0 = Inr (0 + int (length bs), db')" "kw_inv db' xs rc'" "\<forall>i f. text_of db' i f = text_of d2 i f"
    using trim_blanks_run [OF b(2) kw_fuel(1) [OF kw_invD(1) [OF b(2)]], of 0] tw by auto
  have "kwdb_ReadFITS ma db (map fits_card cards @ ?extra) 0 = Inr (int (length cards) + int k, int k, db')"
    using a(1) b(1, 3) e t(1) by (simp add: kwdb_ReadFITS_def)
  moreover have "list_all2 (\<lambda>x c. text_of db' x = card_text (read_back c)) xs cards"
    using x2 t(3) by (auto simp: list_all2_conv_all_nth)
  ultimately show ?thesis using t(2) by auto
qed

lemma ReadFITS_first:
  assumes inv: "kw_inv db [] []" and ma: "\<forall>n. ma n" and pl: "list_all plain_card cards" "cards \<noteq> []"
  shows "\<exists>db' xs rc'. kwdb_ReadFITS ma db (map fits_card cards @ extra) (int (length cards)) = Inr (int (length cards), 0, db')
     \<and> kw_inv db' xs rc' \<and> list_all2 (\<lambda>x c. text_of db' x = card_text (read_back c)) xs cards"
proof -
  obtain d1 xs rc1 where a: "read_cards ma (int (length cards)) (map fits_card cards @ extra) db 0 None
      = read_cards ma (int (length cards)) extra d1 (int (length cards)) (Some (c_comment (last cards)))"
    "kw_inv d1 xs rc1" "list_all2 (\<lambda>x c. text_of d1 x = card_text (read_back c)) xs cards"
    using read_cards_append [OF inv ma pl(1), of "int (length cards)" 0 extra None] pl(2) by auto
  have e: "read_cards ma (int (length cards)) extra d1 (int (length cards)) old = Inr (int (length cards), d1)" for old
    using pl(2) by (cases extra) simp_all
  have nb: "\<not> blank_entry d1 x" if "x \<in> set xs" for x
  proof -
    obtain i where i: "i < length xs" "xs ! i = x" using \<open>x \<in> set xs\<close> by (auto simp: in_set_conv_nth)
    then have "plain_card (cards ! i)" "text_of d1 x = card_text (read_back (cards ! i))"
      using a(3) pl(1) by (auto simp: list_all2_conv_all_nth list_all_length)
    then show ?thesis by (rule plain_not_blank)
  qed
  have sp: "rev xs = [] \<or> \<not> blank_entry d1 (hd (rev xs))" using nb by (cases "rev xs") (auto simp: rev_eq_Cons_iff)
  have tw: "takeWhile (blank_entry d1) (rev xs) = []" "dropWhile (blank_entry d1) (rev xs) = rev xs"
    using takeWhile_all_hd [of "blank_entry d1" "[]", OF _ sp] dropWhile_all_hd [of "blank_entry d1" "[]", OF _ sp] by simp_all
  obtain db' rc' where t: "trim_blanks (maxitems d1) d1 0 = Inr (0, db')" "kw_inv db' xs rc'" "\<forall>i f. text_of db' i f = text_of d1 i f"
    using trim_blanks_run [OF a(2) kw_fuel(1) [OF kw_invD(1) [OF a(2)]], of 0] tw by auto
  have "kwdb_ReadFITS ma db (map fits_card cards @ extra) (int (length cards)) = Inr (int (length cards), 0, db')"
    using a(1) e t(1) by (simp add: kwdb_ReadFITS_def)
  moreover have "list_all2 (\<lambda>x c. text_of db' x = card_text (read_back c)) xs cards"
    using a(3) t(3) by (auto simp: list_all2_conv_all_nth)
  ultimately show ?thesis using t(2) by auto
qed

lemma ds_chunks_total: "session w p ds pos \<Longrightarrow> mapped ds \<longrightarrow> int (length (d_file ds)) = filesize ds \<Longrightarrow> \<exists>input. ds_chunks n w 0 = Inr input"
proof (induction n arbitrary: w ds pos)
  case (Suc n)
  show ?case
  proof (cases "nat pos + 80 \<le> length (d_file ds)")
    case True
    obtain w1 d1 where r: "ds_read w 0 CARDLEN = Inr (80, take 80 (drop (nat pos) (d_file ds)), w1)"
      "session w1 p d1 (pos + 80)" "only_file w w1 p ds d1" "d_file d1 = d_file ds"
      using ds_read_session [OF Suc.prems True] by blast
    have "mapped d1 \<longrightarrow> int (length (d_file d1)) = filesize d1"
      using Suc.prems(2) r(4) only_file_mapped [OF r(3)] only_file_filesize [OF r(3)] by simp
    from Suc.IH [OF r(2) this] r(1) show ?thesis by (auto simp: CARDLEN_def)
  next
    case False
    have "\<exists>x bs w'. ds_read w 0 CARDLEN = Inr (x, bs, w') \<and> x \<noteq> 80"
    proof (cases "mapped ds")
      case True
      then show ?thesis using Suc.prems False
        by (auto simp: ds_read_def session_def get_ds_def MAX_FD_def CARDLEN_def Let_def)
    next
      case nm: False
      then show ?thesis using Suc.prems(1) False
        by (auto simp: ds_read_def session_def get_ds_def MAX_FD_def CARDLEN_def Let_def)
    qed
    then show ?thesis by (auto simp: CARDLEN_def)
  qed
qed simp

text \<open>
  Reading the header at \<open>off\<close> of a file that has these cards there: what the FITS reader makes of
  cards that begin so is the result.
\<close>

lemma read_header_cards:
  assumes i: "idle w p ds" and ma: "\<forall>n. de_ma e n" and f: "mapped ds \<longrightarrow> int (length (d_file ds)) = filesize ds"
    and pl: "header_place ds imno = Inr (Some (name, off))" and o': "0 \<le> off" "off < 2 ^ 31" "length name + 2 \<le> DEF_SZSBUF"
    and d: "drop (nat off) (d_file ds) = concat cs80 @ rest" "\<forall>c \<in> set cs80. length c = 80"
    and rd: "\<And>db extra. kw_inv db [] [] \<Longrightarrow> \<exists>m nb rs. kwdb_ReadFITS (de_ma e) db (cs80 @ extra) n = Inr (m, nb, rs) \<and> 0 \<le> m \<and> Q rs"
  shows "\<exists>rs w'. read_header e w p imno n = Inr (Some rs, w') \<and> Q rs"
proof -
  have ds: "get_ds w p = Inr ds" using i by (simp add: idle_def get_ds_def)
  obtain w1 where w1: "ds_open w p 0 = (0, w1)" "session w1 p ds (if mapped ds then 0 else d_kpos ds)"
    using ds_open_session [OF i] by blast
  obtain db0 where db0: "kwdb_Open (de_ma e) name = Inr (Some db0)" "kw_inv db0 [] []" using kwdb_Open_inv [OF ma o'(3)] by blast
  obtain w2 where w2: "ds_lseek w1 0 off = Inr (off, w2)" using lseek_total [OF w1(2) o'(1, 2)] by blast
  obtain d2 where d2: "session w2 p d2 off" "only_file w1 w2 p ds d2" "d_file d2 = d_file ds"
    using ds_lseek_session [OF w1(2) o'(1) w2] by blast
  let ?k = "length (d_file ds) + nat (filesize ds)"
  have f2: "mapped d2 \<longrightarrow> int (length (d_file d2)) = filesize d2"
    using f d2(3) only_file_mapped [OF d2(2)] only_file_filesize [OF d2(2)] by simp
  obtain input where inp: "ds_chunks ?k w2 0 = Inr input" using ds_chunks_total [OF d2(1) f2] by blast
  have "length (drop (nat off) (d_file ds)) = 80 * length cs80 + length rest" using d(1) concat_80 [OF d(2)] by simp
  then have "80 * length cs80 \<le> length (d_file ds)" by simp
  then have "length cs80 \<le> ?k" by linarith
  from ds_chunks_prefix [OF d2(1) f2 d(2) _ this inp] d(1) d2(3) obtain extra where "input = cs80 @ extra" by auto
  then obtain m nb rs where "kwdb_ReadFITS (de_ma e) db0 input n = Inr (m, nb, rs)" "0 \<le> m" "Q rs" using rd [OF db0(2)] by blast
  then show ?thesis using ds pl db0(1) w1(1) w2 o'(1) inp by (simp add: read_header_def Let_def)
qed

section \<open>Writing a header\<close>

text \<open>Only entries with one of these names have been deleted.\<close>

definition dropped :: "string set \<Rightarrow> kwdb \<Rightarrow> nat list \<Rightarrow> nat list \<Rightarrow> bool" where
  "dropped N db gl gl' \<longleftrightarrow> (\<forall>i \<in> set gl - set gl'. \<exists>n \<in> N. streq (name_of db i) n)"

lemma dropped_trans:
  "kept db gl db' gl' \<Longrightarrow> dropped N db gl gl' \<Longrightarrow> dropped N db' gl' gl'' \<Longrightarrow> dropped N db gl gl''"
  unfolding dropped_def kept_def by (metis Diff_iff text_of_simps(1))

text \<open>Each name is that of at most one entry; then no entry with one of the names is left.\<close>

definition one_each :: "kwdb \<Rightarrow> nat list \<Rightarrow> bool" where
  "one_each db gl \<longleftrightarrow> (\<forall>n. \<forall>i \<in> set gl. \<forall>j \<in> set gl. streq (name_of db i) n \<and> streq (name_of db j) n \<longrightarrow> i = j)"

definition cleared :: "string set \<Rightarrow> kwdb \<Rightarrow> nat list \<Rightarrow> nat list \<Rightarrow> bool" where
  "cleared N db gl gl' \<longleftrightarrow> (one_each db gl \<longrightarrow> (\<forall>i \<in> set gl'. \<forall>n \<in> N. \<not> streq (name_of db i) n))"

lemma subseq_subset: "subseq xs ys \<Longrightarrow> set xs \<subseteq> set ys"
  by (induction rule: list_emb.induct) auto

lemma kept_one_each: "kept db gl db' gl' \<Longrightarrow> one_each db gl \<Longrightarrow> one_each db' gl'"
proof -
  assume k: "kept db gl db' gl'" and o: "one_each db gl"
  have "name_of db' i = name_of db i" for i using k by (simp add: kept_def flip: text_of_simps)
  moreover have "set gl' \<subseteq> set gl" using k by (intro subseq_subset) (simp add: kept_def)
  ultimately show "one_each db' gl'" using o unfolding one_each_def by (simp only:) blast
qed

lemma cleared_trans:
  assumes "kept db gl db' gl'" "cleared N db gl gl'" "kept db' gl' db'' gl''" "cleared M db' gl' gl''"
  shows "cleared (N \<union> M) db gl gl''"
proof -
  have "name_of db' i = name_of db i" for i using assms(1) by (simp add: kept_def flip: text_of_simps)
  moreover have "set gl'' \<subseteq> set gl'" using assms(3) by (intro subseq_subset) (simp add: kept_def)
  ultimately show ?thesis using kept_one_each [OF assms(1)] assms(2, 4) unfolding cleared_def by auto
qed

lemma subseq_as_filter: "subseq xs ys \<Longrightarrow> distinct ys \<Longrightarrow> xs = filter (\<lambda>x. x \<in> set xs) ys"
proof (induction rule: list_emb.induct)
  case (list_emb_Cons xs ys y)
  then have "y \<notin> set xs" using subseq_subset [of xs ys] by auto
  then show ?case using list_emb_Cons by simp
next
  case (list_emb_Cons2 x y xs ys)
  have "filter (\<lambda>z. z = x \<or> z \<in> set xs) ys = filter (\<lambda>z. z \<in> set xs) ys"
    by (rule filter_cong [OF refl]) (use list_emb_Cons2 in auto)
  then show ?case using list_emb_Cons2 by simp
qed simp

lemma left_over:
  assumes "kw_inv db gl rc" "kept db gl db' gl'" "dropped N db gl gl'" "cleared (N - {[]}) db gl gl'" "one_each db gl" "[] \<notin> N"
  shows "gl' = filter (\<lambda>i. \<not> (\<exists>n \<in> N. streq (name_of db i) n)) gl"
proof -
  have d: "distinct gl" using kw_linksD(3) [OF kw_invD(1) [OF assms(1)]] .
  have "gl' = filter (\<lambda>x. x \<in> set gl') gl" by (rule subseq_as_filter) (use assms(2) d in \<open>simp_all add: kept_def\<close>)
  also have "\<dots> = filter (\<lambda>i. \<not> (\<exists>n \<in> N. streq (name_of db i) n)) gl"
    by (rule filter_cong [OF refl]) (use assms(3-6) in \<open>auto simp: dropped_def cleared_def simp del: streq.simps\<close>)
  finally show ?thesis .
qed

lemma delete_keyword_drops:
  assumes inv: "kw_inv db gl rc" and nm: "ascii name" "name \<in> N"
  shows "\<exists>db' gl' rc'. delete_keyword db name = Inr db' \<and> kw_inv db' gl' rc' \<and> kept db gl db' gl' \<and> dropped N db gl gl'
    \<and> cleared ({name} - {[]}) db gl gl'"
proof (cases "matches db rc name")
  case Nil
  then have "delete_keyword db name = Inr db" using Lookup_run [OF inv nm(1), of 0] by (simp add: delete_keyword_def)
  moreover have "cleared ({name} - {[]}) db gl gl" unfolding cleared_def
  proof (intro impI ballI)
    fix i n
    assume i: "i \<in> set gl" "n \<in> {name} - {[]}"
    show "\<not> streq (name_of db i) n"
    proof (cases "i \<in> set rc")
      case True
      then show ?thesis using Nil i(2) by (auto simp: matches_def filter_empty_conv simp del: streq.simps)
    next
      case False
      then have "name_of db i = []" using i(1) kw_linksD(12) [OF kw_invD(1) [OF inv]] by blast
      then show ?thesis using i(2) by (cases n) auto
    qed
  qed
  ultimately show ?thesis using inv kept_refl by (auto simp: dropped_def)
next
  case (Cons x xs)
  then have m: "x \<in> set (matches db rc name)" by simp
  then have x: "x \<in> set gl" "streq (name_of db x) name"
    using kw_rc_gl [OF kw_invD(1) [OF inv]] by (auto simp: matches_def simp del: streq.simps)
  have "x \<noteq> 0" using x(1) kw_linksD(4) [OF kw_invD(1) [OF inv]] by auto
  obtain d where d: "kwdb_DeleteEntry db (int x) = Inr (0, d)" "kw_inv d (remove1 x gl) (remove1 x rc)" "\<forall>i f. text_of d i f = text_of db i f"
    using DeleteEntry_run [OF inv x(1)] by blast
  then have "delete_keyword db name = Inr d"
    using \<open>x \<noteq> 0\<close> Lookup_run [OF inv nm(1), of 0] Cons by (simp add: delete_keyword_def)
  moreover have "kept db gl d (remove1 x gl)" using d(3) subseq_remove1 [of x gl] by (simp add: kept_def fun_eq_iff)
  moreover have "dropped N db gl (remove1 x gl)" unfolding dropped_def
  proof
    fix i
    assume "i \<in> set gl - set (remove1 x gl)"
    then have "i = x" using in_set_remove1 by fastforce
    then show "\<exists>n \<in> N. streq (name_of db i) n" using x(2) nm(2) by blast
  qed
  moreover have "cleared ({name} - {[]}) db gl (remove1 x gl)"
    using x kw_linksD(3) [OF kw_invD(1) [OF inv]] by (auto simp: cleared_def one_each_def simp del: streq.simps)
  ultimately show ?thesis using d(2) by blast
qed

lemma delete_reserved_total:
  assumes "kw_inv rs rgl rrc" "linked (\<lambda>i. nextglob (itab rs i)) q xs" "set xs \<subseteq> set rgl" "length xs \<le> n" "kw_inv db gl rc"
    "\<forall>i \<in> set rgl. name_of rs i \<in> N"
  shows "\<exists>db' gl' rc'. delete_reserved n rs (int q) db = Inr db' \<and> kw_inv db' gl' rc' \<and> kept db gl db' gl' \<and> dropped N db gl gl'
    \<and> cleared (name_of rs ` set xs - {[]}) db gl gl'"
  using assms(2-5)
proof (induction n arbitrary: q xs db gl rc)
  case (Suc n)
  show ?case
  proof (cases xs)
    case (Cons x ys)
    then have x: "q = x" "x \<noteq> 0" "linked (\<lambda>i. nextglob (itab rs i)) (nextglob (itab rs x)) ys" "x \<in> set rgl" "set ys \<subseteq> set rgl" "length ys \<le> n"
      using Suc.prems by auto
    have nm: "kwdb_KWName rs (int x) = Some (name_of rs x)" "ascii (name_of rs x)" "name_of rs x \<in> N"
      using GetEntry_run(2) [OF assms(1) x(4)] kw_linksD(13) [OF kw_invD(1) [OF assms(1)] x(4)] assms(6) x(4) by simp_all
    obtain d1 gl1 rc1 where 1: "delete_keyword db (name_of rs x) = Inr d1" "kw_inv d1 gl1 rc1" "kept db gl d1 gl1" "dropped N db gl gl1"
      "cleared ({name_of rs x} - {[]}) db gl gl1" using delete_keyword_drops [OF Suc.prems(4) nm(2, 3)] by blast
    obtain d2 gl2 rc2 where 2: "delete_reserved n rs (int (nextglob (itab rs x))) d1 = Inr d2" "kw_inv d2 gl2 rc2" "kept d1 gl1 d2 gl2" "dropped N d1 gl1 gl2"
      "cleared (name_of rs ` set ys - {[]}) d1 gl1 gl2" using Suc.IH [OF x(3, 5, 6) 1(2)] by blast
    have "delete_reserved (Suc n) rs (int q) db = Inr d2" using 1(1) 2(1) nm(1) x(1, 2) by (simp add: kwdb_Next_def)
    moreover have "cleared (name_of rs ` set xs - {[]}) db gl gl2" using cleared_trans [OF 1(3, 5) 2(3, 5)] Cons by (simp flip: Un_Diff)
    ultimately show ?thesis using 2(2) kept_trans [OF 1(3) 2(3)] dropped_trans [OF 1(3, 4) 2(4)] by blast
  qed (use Suc.prems kept_refl in \<open>auto simp: dropped_def cleared_def\<close>)
next
  case 0
  then show ?case using kept_refl by (cases xs) (auto simp: dropped_def cleared_def)
qed

text \<open>A header in the file whose reserved keywords are these, with room for \<open>n\<close> more.\<close>

definition header_at :: "DSImage \<Rightarrow> int \<Rightarrow> string \<Rightarrow> int \<Rightarrow> int \<Rightarrow> card list \<Rightarrow> nat \<Rightarrow> bool" where
  "header_at ds imno name off maxc rcs n \<longleftrightarrow>
     header_place ds imno = Inr (Some (name, off)) \<and> header_geometry ds imno = Inr (off, maxc, int (length rcs))
     \<and> 0 \<le> off \<and> off + maxc * 80 < 2 ^ 31 \<and> off + maxc * 80 \<le> int (length (d_file ds)) \<and> length name + 2 \<le> DEF_SZSBUF
     \<and> list_all plain_card rcs \<and> rcs \<noteq> [] \<and> int (length rcs + n) + 1 \<le> maxc
     \<and> take (80 * length rcs) (drop (nat off) (d_file ds)) = concat (map fits_card rcs)
     \<and> (mapped ds \<longrightarrow> int (length (d_file ds)) = filesize ds)"

lemma header_atD:
  assumes "header_at ds imno name off maxc rcs n"
  shows "header_place ds imno = Inr (Some (name, off))" "header_geometry ds imno = Inr (off, maxc, int (length rcs))" "0 \<le> off"
    "off + maxc * 80 < 2 ^ 31" "off + maxc * 80 \<le> int (length (d_file ds))" "length name + 2 \<le> DEF_SZSBUF" "list_all plain_card rcs"
    "rcs \<noteq> []" "int (length rcs) + int n + 1 \<le> maxc" "take (80 * length rcs) (drop (nat off) (d_file ds)) = concat (map fits_card rcs)"
    "mapped ds \<longrightarrow> int (length (d_file ds)) = filesize ds" "off < 2 ^ 31" "int (length rcs) * 80 < 2 ^ 31"
    "drop (nat off) (d_file ds) = concat (map fits_card rcs) @ drop (80 * length rcs) (drop (nat off) (d_file ds))"
    "\<forall>c \<in> set (map fits_card rcs). length c = 80"
proof -
  show h: "header_place ds imno = Inr (Some (name, off))" "header_geometry ds imno = Inr (off, maxc, int (length rcs))" "0 \<le> off"
    "off + maxc * 80 < 2 ^ 31" "off + maxc * 80 \<le> int (length (d_file ds))" "length name + 2 \<le> DEF_SZSBUF" "list_all plain_card rcs"
    "rcs \<noteq> []" "int (length rcs) + int n + 1 \<le> maxc" "take (80 * length rcs) (drop (nat off) (d_file ds)) = concat (map fits_card rcs)"
    "mapped ds \<longrightarrow> int (length (d_file ds)) = filesize ds"
    using assms by (simp_all add: header_at_def)
  then show "off < 2 ^ 31" "int (length rcs) * 80 < 2 ^ 31" by linarith+
  show "drop (nat off) (d_file ds) = concat (map fits_card rcs) @ drop (80 * length rcs) (drop (nat off) (d_file ds))"
    by (simp only: append_take_drop_id flip: h(10))
  show "\<forall>c \<in> set (map fits_card rcs). length c = 80" by (simp add: fits_card_def length_format_card)
qed

lemma write_header_succeeds:
  assumes i: "idle w p ds" and ma: "\<forall>n. de_ma e n" and wr: "\<forall>n. de_write e n" and inv: "kw_inv kwdb gl rc"
    and h: "header_at ds imno name off maxc rcs (length gl)"
  shows "\<exists>kwdb' w' gl' rc'. write_header e w p imno kwdb = Inr (0, kwdb', w') \<and> kw_inv kwdb' gl' rc' \<and> kept kwdb gl kwdb' gl'
     \<and> dropped (insert ''END'' (c_name ` set rcs)) kwdb gl gl' \<and> cleared (insert ''END'' (c_name ` set rcs) - {[]}) kwdb gl gl'"
proof -
  note h = header_atD [OF h]
  let ?n = "int (length rcs)" and ?N = "insert ''END'' (c_name ` set rcs)"
  let ?Q = "\<lambda>rs. \<exists>gl rc. kw_inv rs gl rc \<and> name_of rs ` set gl = c_name ` set rcs"
  have ds: "get_ds w p = Inr ds" using i by (simp add: idle_def get_ds_def)
  have im: "\<not> (imno \<noteq> 0 \<and> (imno < 1 \<or> imno > nimages ds \<or> imagelist ds = None))"
    using h(1) by (auto simp: header_place_def split: if_splits)
  have rd: "\<exists>m nb rs. kwdb_ReadFITS (de_ma e) db (map fits_card rcs @ extra) ?n = Inr (m, nb, rs) \<and> 0 \<le> m \<and> ?Q rs"
    if inv0: "kw_inv db [] []" for db extra
  proof -
    obtain db' xs rc' where r: "kwdb_ReadFITS (de_ma e) db (map fits_card rcs @ extra) ?n = Inr (?n, 0, db')" "kw_inv db' xs rc'"
      "list_all2 (\<lambda>x c. text_of db' x = card_text (read_back c)) xs rcs"
      using ReadFITS_first [OF inv0 ma h(7, 8), of extra] by blast
    have nm: "length xs = length rcs" "name_of db' (xs ! k) = c_name (rcs ! k)" if "k < length xs" for k
    proof -
      show "length xs = length rcs" using r(3) by (rule list_all2_lengthD)
      have "text_of db' (xs ! k) = card_text (read_back (rcs ! k))" using that r(3) by (auto simp: list_all2_conv_all_nth)
      then show "name_of db' (xs ! k) = c_name (rcs ! k)" by (simp add: read_back_def fun_eq_iff txt_of_def flip: text_of_simps)
    qed
    have "map (name_of db') xs = map c_name rcs" using list_all2_lengthD [OF r(3)] nm(2) by (intro nth_equalityI) simp_all
    then have "name_of db' ` set xs = c_name ` set rcs" by (metis set_map)
    then show ?thesis using r(1, 2) by auto
  qed
  obtain rs w1 rgl rrc where rs: "read_header e w p imno ?n = Inr (Some rs, w1)" "kw_inv rs rgl rrc" "name_of rs ` set rgl = c_name ` set rcs"
    using read_header_cards [OF i ma h(11, 1, 3, 12, 6, 14, 15) rd] by blast
  obtain d1 where d1: "idle w1 p d1" "only_file w w1 p ds d1" using read_header_run [OF i ma h(1, 3) rs(1)] by blast
  have rsN: "\<forall>i \<in> set rgl. name_of rs i \<in> ?N" using rs(3) by auto
  obtain k1 gl1 rc1 where k1: "delete_reserved (maxitems rs) rs (kwdb_Head rs) kwdb = Inr k1" "kw_inv k1 gl1 rc1" "kept kwdb gl k1 gl1" "dropped ?N kwdb gl gl1"
    "cleared (c_name ` set rcs - {[]}) kwdb gl gl1" using rs(3) delete_reserved_total [OF rs(2) kw_linksD(1) [OF kw_invD(1) [OF rs(2)]] subset_refl kw_fuel(1) [OF kw_invD(1) [OF rs(2)]] inv rsN]
    unfolding kwdb_Head_def by auto
  have "ascii ''END''" by code_simp
  from delete_keyword_drops [OF k1(2) this, of ?N] obtain k2 gl2 rc2 where
    k2: "delete_keyword k1 ''END'' = Inr k2" "kw_inv k2 gl2 rc2" "kept k1 gl1 k2 gl2" "dropped ?N k1 gl1 gl2"
    "cleared ({''END''} - {[]}) k1 gl1 gl2" by blast
  have "c_name ` set rcs - {[]} \<union> ({''END''} - {[]}) = ?N - {[]}" by blast
  then have cl: "cleared (?N - {[]}) kwdb gl gl2" using cleared_trans [OF k1(3, 5) k2(3, 5)] by (simp only:)
  note k = kept_trans [OF k1(3) k2(3)] dropped_trans [OF k1(3, 4) k2(4)]
  have "length gl2 \<le> length gl" using k(1) by (auto simp: kept_def dest: list_emb_length)
  then have room: "?n + int (length gl2) + 1 \<le> maxc" using h(9) by linarith
  obtain w2 where w2: "ds_open w1 p 2 = (0, w2)" "session w2 p d1 (if mapped d1 then 0 else d_kpos d1)" "only_file w1 w2 p d1 d1"
    using ds_open_session [OF d1(1)] by blast
  have o': "i32 (?n * CARDLEN) = ?n * 80" using h(13) by (simp add: CARDLEN_def)
  have p: "0 \<le> off + ?n * 80" "off + ?n * 80 < 2 ^ 31" using h(3, 4) room by linarith+
  obtain w3 where w3: "ds_lseek w2 0 (off + ?n * 80) = Inr (off + ?n * 80, w3)" using lseek_total [OF w2(2) p] by blast
  obtain d3 where d3: "session w3 p d3 (off + ?n * 80)" "only_file w2 w3 p d1 d3" using ds_lseek_session [OF w2(2) p(1) w3] by blast
  have f3: "only_file w w3 p ds d3" using only_file_trans [OF only_file_trans [OF d1(2) w2(3)] d3(2)] .
  have "mapped d3 \<longrightarrow> off + ?n * 80 + 80 * (maxc - ?n) \<le> filesize d3"
    using h(5, 11) only_file_mapped [OF f3] only_file_filesize [OF f3] by (auto simp: algebra_simps)
  from write_cards_at_total [OF d3(1) this k2(2) wr room]
  obtain w4 where "write_cards_at e w3 0 ?n maxc k2 = Inr (0, True, w4)" by auto
  moreover have "\<not> off + ?n * 80 < 0" using p by simp
  ultimately have "write_header e w p imno kwdb = Inr (0, k2, snd (ds_close w4 0))"
    using ds im h(2) rs(1) k1(1) k2(1) w2(1) w3 o' unfolding write_header_def header_geometry_def
    by (simp add: Let_def)
  then show ?thesis using k2(2) k cl by blast
qed

lemma overwrite_inside:
  assumes "0 \<le> pos" "nat pos + length bs \<le> length f"
  shows "overwrite pos bs f = take (nat pos) f @ bs @ drop (nat pos + length bs) f"
  using assms by (auto simp: overwrite_def poke_def)

text \<open>The whole of a header written into a file: its reserved cards, the others, blanks and END.\<close>

lemma write_header_writes:
  assumes i: "idle w p ds" and ma: "\<forall>n. de_ma e n" and wr: "\<forall>n. de_write e n" and inv: "kw_inv kwdb gl rc"
    and h: "header_at ds imno name off maxc rcs (length gl)" and o0: "imno = 0 \<longrightarrow> off = 0"
  shows "\<exists>kwdb' w' ds' gl' rc'. write_header e w p imno kwdb = Inr (0, kwdb', w') \<and> kw_inv kwdb' gl' rc' \<and> kept kwdb gl kwdb' gl'
     \<and> dropped (insert ''END'' (c_name ` set rcs)) kwdb gl gl' \<and> cleared (insert ''END'' (c_name ` set rcs) - {[]}) kwdb gl gl'
     \<and> idle w' p ds' \<and> only_file w w' p ds ds'
     \<and> d_file ds' = take (nat off + 80 * length rcs) (d_file ds) @ header_bytes kwdb' gl' (maxc - int (length rcs))
          @ drop (nat (off + maxc * 80)) (d_file ds)"
proof -
  let ?n = "int (length rcs)" and ?f = "d_file ds"
  obtain kwdb' w' gl' rc' where r: "write_header e w p imno kwdb = Inr (0, kwdb', w')" "kw_inv kwdb' gl' rc'" "kept kwdb gl kwdb' gl'"
    "dropped (insert ''END'' (c_name ` set rcs)) kwdb gl gl'" "cleared (insert ''END'' (c_name ` set rcs) - {[]}) kwdb gl gl'"
    using write_header_succeeds [OF i ma wr inv h] by blast
  note h = header_atD [OF h]
  obtain ds' gl2 rc2 where 2: "idle w' p ds'" "only_file w w' p ds ds'" "kw_inv kwdb' gl2 rc2" "int (length gl2) + 1 \<le> maxc - ?n"
    "d_file ds' = overwrite (off + ?n * 80) (header_bytes kwdb' gl2 (maxc - ?n)) ?f"
    using write_header_run [OF i ma inv h(2, 3) o0 _ h(13) r(1)] by auto
  have "map int gl' = map int gl2" using walk_run [OF r(2)] walk_run [OF 2(3)] by simp
  then have g: "gl2 = gl'" by (simp add: inj_map_eq_map inj_on_def)
  let ?h = "header_bytes kwdb' gl' (maxc - ?n)"
  have l: "int (length ?h) = 80 * (maxc - ?n)" using header_bytes_length 2(4) g by blast
  have n0: "0 \<le> ?n" by simp
  have p: "0 \<le> off + ?n * 80" "nat (off + ?n * 80) = nat off + 80 * length rcs"
    using h(3) n0 by linarith+
  have "int (nat (off + ?n * 80) + length ?h) = off + maxc * 80" using l p(1) by simp
  then have "nat (off + ?n * 80) + length ?h = nat (off + maxc * 80)" by linarith
  moreover have "nat (off + maxc * 80) \<le> length ?f" using h(5) by linarith
  ultimately have "overwrite (off + ?n * 80) ?h ?f = take (nat off + 80 * length rcs) ?f @ ?h @ drop (nat (off + maxc * 80)) ?f"
    using overwrite_inside [of "off + ?n * 80" ?h ?f] p by simp
  then show ?thesis using r 2 g by auto
qed

text \<open>Reading a header back: its cards, but for the padding of short strings.\<close>

definition entry_of :: "card \<Rightarrow> (string \<times> string \<times> string \<times> string) option" where
  "entry_of c = Some (c_name c, c_value c, c_type c, c_comment c)"

definition entries :: "kwdb \<Rightarrow> (string \<times> string \<times> string \<times> string) option list" where
  "entries db = map (\<lambda>ep. snd (kwdb_GetEntry db ep)) (kwdb_walk db (maxitems db) (kwdb_Head db))"

lemma entries_read:
  assumes "kw_inv db xs rc" "list_all2 (\<lambda>x c. text_of db x = card_text c) xs cards"
  shows "entries db = map entry_of cards"
proof -
  have len: "length xs = length cards" using assms(2) by (rule list_all2_lengthD)
  have "snd (kwdb_GetEntry db (int (xs ! i))) = entry_of (cards ! i)" if "i < length xs" for i
    using GetEntry_run(1) [OF assms(1), of "xs ! i"] assms(2) that len
    by (cases "cards ! i") (auto simp: list_all2_conv_all_nth fun_eq_iff txt_of_def entry_of_def simp flip: text_of_simps)
  then show ?thesis using walk_run [OF assms(1)] len unfolding entries_def by (auto intro: nth_equalityI)
qed

lemma read_header_back:
  assumes i: "idle w p ds" and ma: "\<forall>n. de_ma e n" and f: "mapped ds \<longrightarrow> int (length (d_file ds)) = filesize ds"
    and pl: "header_place ds imno = Inr (Some (name, off))" and o': "0 \<le> off" "off < 2 ^ 31" "length name + 2 \<le> DEF_SZSBUF"
    and d: "drop (nat off) (d_file ds) = concat (map fits_card cards @ replicate k blank_card @ [end_card]) @ rest"
    and pc: "list_all plain_card cards" "cards \<noteq> []"
  shows "\<exists>rs w'. read_header e w p imno 0 = Inr (Some rs, w') \<and> entries rs = map (\<lambda>c. entry_of (read_back c)) cards"
proof -
  let ?cs = "map fits_card cards @ replicate k blank_card @ [end_card]"
  let ?Q = "\<lambda>rs. entries rs = map (\<lambda>c. entry_of (read_back c)) cards"
  have l: "\<forall>c \<in> set ?cs. length c = 80"
    using header_lengths(2) [of k] by (auto simp: fits_card_def length_format_card)
  have rd: "\<exists>m nb rs. kwdb_ReadFITS (de_ma e) db (?cs @ extra) 0 = Inr (m, nb, rs) \<and> 0 \<le> m \<and> ?Q rs"
    if inv0: "kw_inv db [] []" for db extra
  proof -
    obtain db' xs rc' where r: "kwdb_ReadFITS (de_ma e) db (map fits_card cards @ replicate k blank_card @ end_card # extra) 0 = Inr (int (length cards + k), int k, db')"
      "kw_inv db' xs rc'" "list_all2 (\<lambda>x c. text_of db' x = card_text (read_back c)) xs cards"
      using ReadFITS_header [OF inv0 ma pc, of k extra] by blast
    have "list_all2 (\<lambda>x c. text_of db' x = card_text c) xs (map read_back cards)" using r(3) by (simp add: list_all2_map2)
    from entries_read [OF r(2) this] r(1) show ?thesis by (auto simp: o_def)
  qed
  show ?thesis by (rule read_header_cards [OF i ma f pl o' d l rd])
qed

section \<open>A concrete header\<close>

text \<open>A configured file whose global header has room for four cards, one of them reserved.\<close>

definition simple_card :: card where
  "simple_card = Card ''SIMPLE'' ''T'' ''L'' ''ok''"

definition ds2 :: DSImage where
  "ds2 = ds0\<lparr>configured := 1, d_maxkeywords := 4, d_nreserved := 1, filesize := 320,
     d_file := fits_card simple_card @ concat (replicate 3 blank_card)\<rparr>"

lemma header2: "header_at ds2 0 ''obj'' 0 4 [simple_card] 1"
proof -
  have "length (d_file ds2) = 320" "plain_card simple_card" by code_simp+
  moreover have "length (fits_card simple_card) = 80" by (simp add: fits_card_def length_format_card)
  ultimately show ?thesis
    by (simp add: header_at_def header_place_def header_geometry_def ds2_def ds0_def DEF_SZSBUF_def mapped_def)
qed

lemma header2': "header_at ds2 0 ''obj'' 0 4 [simple_card] (length [x])" "(0 :: int) = 0 \<longrightarrow> (0 :: int) = 0"
  using header2 by simp_all

lemma env0_ok: "\<forall>n. de_ma env0 n" "\<forall>n. de_write env0 n"
  by (simp_all add: env0_def)

lemma idle2: "idle (put_ds world0 1 ds2) 1 ds2"
  by (simp add: idle_def world0_def ds2_def ds0_def put_ds_def MAX_FD_def)

lemma gain_plain: "plain_card (Card ''GAIN'' ''1'' ''N'' [])"
  by code_simp

lemma kwdb_gain: "\<exists>db x. kw_inv db [x] [x] \<and> entry_card db x = Card ''GAIN'' ''1'' ''N'' []"
proof -
  obtain db0 where db0: "kw_inv db0 [] []" using open_empty by blast
  have "card_ok (Card ''GAIN'' ''1'' ''N'' [])" by (simp add: card_eval)
  from ks.add_finds [OF db0 this] obtain x db where a: "kw_inv db [x] [x]" "text_of db x = card_text (Card ''GAIN'' ''1'' ''N'' [])"
    by auto
  have "entry_card db x = Card ''GAIN'' ''1'' ''N'' []"
    using a(2) by (simp add: entry_card_def fun_eq_iff txt_of_def flip: text_of_simps)
  then show ?thesis using a(1) by blast
qed

section \<open>Properties\<close>

text \<open>
  C26: \<open>dsim_WriteHeader\<close> writes exactly the area of the header behind its reserved cards: the
  entries of the database that are left, in order, blank cards up to the capacity and END.  When no
  two entries have the same name, those left are exactly the ones that have neither the name of a
  reserved card nor END (of several entries with a reserved name only one is taken out for each
  reserved card).  It succeeds when there is room for them, and leaves the rest of the file, the
  reserved cards and every other image file alone.
\<close>

theorem dsim_WriteHeader_writes:
  assumes i: "idle w p ds" "configured ds \<noteq> 0" and ma: "\<forall>n. de_ma e n" and wr: "\<forall>n. de_write e n" and inv: "kw_inv kwdb gl rc"
    and h: "header_at ds imno name off maxc rcs (length gl)" "imno = 0 \<longrightarrow> off = 0"
  shows "\<exists>kwdb' w' ds' gl' rc'. dsim_WriteHeader e w p imno kwdb = Inr (0, kwdb', w') \<and> kw_inv kwdb' gl' rc' \<and> kept kwdb gl kwdb' gl'
     \<and> dropped (insert ''END'' (c_name ` set rcs)) kwdb gl gl' \<and> only_file w w' p ds ds'
     \<and> (one_each kwdb gl \<and> [] \<notin> c_name ` set rcs \<longrightarrow> gl' = filter (\<lambda>i. \<not> (\<exists>n \<in> insert ''END'' (c_name ` set rcs). streq (name_of kwdb i) n)) gl)
     \<and> d_file ds' = take (nat off + 80 * length rcs) (d_file ds) @ header_bytes kwdb' gl' (maxc - int (length rcs))
          @ drop (nat (off + maxc * 80)) (d_file ds)"
proof -
  have "get_ds w p = Inr ds" using i(1) by (simp add: idle_def get_ds_def)
  then have "dsim_WriteHeader e w p imno kwdb = write_header e w p imno kwdb"
    using i(2) by (simp add: dsim_WriteHeader_def ensure_configured_def)
  moreover obtain kwdb' w' ds' gl' rc' where r: "write_header e w p imno kwdb = Inr (0, kwdb', w')" "kw_inv kwdb' gl' rc'" "kept kwdb gl kwdb' gl'"
    "dropped (insert ''END'' (c_name ` set rcs)) kwdb gl gl'" "cleared (insert ''END'' (c_name ` set rcs) - {[]}) kwdb gl gl'"
    "only_file w w' p ds ds'" "d_file ds' = take (nat off + 80 * length rcs) (d_file ds) @ header_bytes kwdb' gl' (maxc - int (length rcs))
          @ drop (nat (off + maxc * 80)) (d_file ds)"
    using write_header_writes [OF i(1) ma wr inv h] by blast
  moreover have "one_each kwdb gl \<and> [] \<notin> c_name ` set rcs \<longrightarrow> gl' = filter (\<lambda>i. \<not> (\<exists>n \<in> insert ''END'' (c_name ` set rcs). streq (name_of kwdb i) n)) gl"
    using left_over [OF inv r(3-5)] by blast
  ultimately show ?thesis using r(2-) by (intro exI conjI) (assumption | simp)+
qed

theorem dsim_WriteHeader_writes_witness:
  "\<exists>kwdb kwdb' w'. dsim_WriteHeader env0 (put_ds world0 1 ds2) 1 0 kwdb = Inr (0, kwdb', w')"
proof -
  obtain db x where db: "kw_inv db [x] [x]" using kwdb_gain by blast
  have "configured ds2 \<noteq> 0" by (simp add: ds2_def)
  from dsim_WriteHeader_writes [OF idle2 this env0_ok db header2'] show ?thesis by blast
qed

text \<open>
  C2: a header that was written is read back: \<open>dsim_ReadHeader\<close> gives the reserved keywords and
  then those of the database that is left after \<open>dsim_WriteHeader\<close>, in their order and with
  their values and comments (string values of less than eight characters padded).
\<close>

theorem dsim_WriteHeader_ReadHeader:
  assumes i: "idle w p ds" "configured ds \<noteq> 0" and ma: "\<forall>n. de_ma e n" and wr: "\<forall>n. de_write e n" and inv: "kw_inv kwdb gl rc"
    and pl: "list_all (\<lambda>i. plain_card (entry_card kwdb i)) gl"
    and h: "header_at ds imno name off maxc rcs (length gl)" "imno = 0 \<longrightarrow> off = 0"
  shows "\<exists>kwdb' w' gl' rs w''. dsim_WriteHeader e w p imno kwdb = Inr (0, kwdb', w')
     \<and> subseq gl' gl \<and> dropped (insert ''END'' (c_name ` set rcs)) kwdb gl gl'
     \<and> dsim_ReadHeader e w' p imno 0 = Inr (Some rs, w'')
     \<and> entries rs = map (\<lambda>c. entry_of (read_back c)) (rcs @ map (entry_card kwdb) gl')"
proof -
  obtain kwdb' w' ds' gl' rc' where r: "write_header e w p imno kwdb = Inr (0, kwdb', w')" "kept kwdb gl kwdb' gl'"
    "dropped (insert ''END'' (c_name ` set rcs)) kwdb gl gl'" "idle w' p ds'" "only_file w w' p ds ds'"
    "d_file ds' = take (nat off + 80 * length rcs) (d_file ds) @ header_bytes kwdb' gl' (maxc - int (length rcs)) @ drop (nat (off + maxc * 80)) (d_file ds)"
    using write_header_writes [OF i(1) ma wr inv h] by blast
  obtain f k where ds': "ds' = ds\<lparr>d_file := f, d_kpos := k\<rparr>" using r(5) by (auto simp: only_file_def)
  note h = header_atD [OF h(1)]
  let ?cards = "rcs @ map (entry_card kwdb) gl'" and ?room = "maxc - int (length rcs)"
  have tx: "map (entry_card kwdb') gl' = map (entry_card kwdb) gl'"
    using r(2) by (auto simp: kept_def entry_card_def simp flip: text_of_simps)
  have sub: "subseq gl' gl" using r(2) by (simp add: kept_def)
  have len: "nat off + 80 * length rcs \<le> length (d_file ds)" using h(3, 5, 9) by linarith
  have "drop (nat off) (take (nat off + 80 * length rcs) (d_file ds)) = concat (map fits_card rcs)"
    using h(10) by (simp add: drop_take add.commute)
  then have "drop (nat off) (d_file ds') = concat (map fits_card rcs) @ header_bytes kwdb' gl' ?room @ drop (nat (off + maxc * 80)) (d_file ds)"
    using r(6) len by simp
  moreover have fc: "map (\<lambda>i. fits_card (entry_card kwdb' i)) gl' = map fits_card (map (entry_card kwdb) gl')"
    using tx by simp
  ultimately have d: "drop (nat off) (d_file ds') = concat (map fits_card ?cards @ replicate (nat (?room - int (length gl') - 1)) blank_card @ [end_card])
      @ drop (nat (off + maxc * 80)) (d_file ds)"
    by (simp add: header_bytes_def fc)
  have pc: "list_all plain_card ?cards" "?cards \<noteq> []"
    using pl h(7, 8) list_emb_set [OF sub] by (auto simp: list_all_iff)
  have "length gl' \<le> length gl" using sub by (auto dest: list_emb_length)
  then have "int (length gl') + 1 \<le> ?room" using h(9) by linarith
  from header_bytes_length [OF this, of kwdb'] have "int (length (d_file ds')) = off + maxc * 80 + int (length (d_file ds) - nat (off + maxc * 80))"
    using r(6) len h(3) by simp
  moreover have "0 \<le> off + maxc * 80" using h(3, 9) by linarith
  ultimately have d_len: "length (d_file ds') = length (d_file ds)" using h(5) by linarith
  have m: "mapped ds' \<longrightarrow> int (length (d_file ds')) = filesize ds'"
    using d_len h(11) ds' by (auto simp: mapped_def)
  have "get_image ds' = get_image ds" by (simp add: ds' get_image_def fun_eq_iff)
  then have "header_place ds' imno = header_place ds imno" by (simp add: ds' header_place_def)
  then have p': "header_place ds' imno = Inr (Some (name, off))" using h(1) by simp
  obtain rs w'' where rs: "read_header e w' p imno 0 = Inr (Some rs, w'')" "entries rs = map (\<lambda>c. entry_of (read_back c)) ?cards"
    using read_header_back [OF r(4) ma m p' h(3, 12, 6) d pc] by blast
  have "get_ds w p = Inr ds" "get_ds w' p = Inr ds'" "configured ds' \<noteq> 0" using i r(4) ds' by (simp_all add: idle_def get_ds_def)
  then have "dsim_WriteHeader e w p imno kwdb = Inr (0, kwdb', w')" "dsim_ReadHeader e w' p imno 0 = Inr (Some rs, w'')"
    using r(1) rs(1) i(2) by (simp_all add: dsim_WriteHeader_def dsim_ReadHeader_def ensure_configured_def)
  then show ?thesis using sub r(3) rs(2) by blast
qed

theorem dsim_WriteHeader_ReadHeader_witness:
  "\<exists>kwdb kwdb' w' rs w''. dsim_WriteHeader env0 (put_ds world0 1 ds2) 1 0 kwdb = Inr (0, kwdb', w')
     \<and> dsim_ReadHeader env0 w' 1 0 0 = Inr (Some rs, w'')
     \<and> entries rs = [Some (''SIMPLE'', ''T'', ''L'', ''ok''), Some (''GAIN'', ''1'', ''N'', [])]"
proof -
  obtain db x where db: "kw_inv db [x] [x]" "entry_card db x = Card ''GAIN'' ''1'' ''N'' []" using kwdb_gain by blast
  have c: "configured ds2 \<noteq> 0" by (simp add: ds2_def)
  have pl: "list_all (\<lambda>i. plain_card (entry_card db i)) [x]" using db(2) gain_plain by simp
  obtain kwdb' w' gl' rs w'' where *: "dsim_WriteHeader env0 (put_ds world0 1 ds2) 1 0 db = Inr (0, kwdb', w')"
     "dropped (insert ''END'' (c_name ` set [simple_card])) db [x] gl'" "subseq gl' [x]"
     "dsim_ReadHeader env0 w' 1 0 0 = Inr (Some rs, w'')"
     "entries rs = map (\<lambda>c. entry_of (read_back c)) ([simple_card] @ map (entry_card db) gl')"
    using dsim_WriteHeader_ReadHeader [OF idle2 c env0_ok db(1) pl header2'] by blast
  have "\<not> streq ''GAIN'' ''END''" "\<not> streq ''GAIN'' ''SIMPLE''" by code_simp+
  moreover have "name_of db x = ''GAIN''" using db(2) by (simp add: entry_card_def)
  ultimately have "gl' \<noteq> []" using *(2) by (auto simp: dropped_def simple_card_def simp del: streq.simps)
  then have "gl' = [x]" using *(3) by (cases gl') (auto split: if_splits)
  then have "entries rs = [Some (''SIMPLE'', ''T'', ''L'', ''ok''), Some (''GAIN'', ''1'', ''N'', [])]"
    using *(5) db(2) by (simp add: entry_of_def read_back_def simple_card_def)
  then show ?thesis using *(1, 4) by blast
qed

end
