(* ===== verification/Raster.thy ===== *)
theory Raster
  imports Sm_Cache
begin

text \<open>
  Rasters: \<open>smcmgr/rotate.c\<close>, which flips and transposes an array of pixels into a buffer that it
  keeps between calls, and the routines that bring the pixels of a page into the orientation of
  the focal plane, \<open>smcRectifyPage\<close> of \<open>dev/src.newfirm/rectify.c\<close> and of
  \<open>dev/src.mosaic1/rectify.c\<close>.

  \<^item> Memory is a map from the address of a block to its elements (\<open>store\<close>); 0 is NULL, a block
    that has been freed is unmapped.  A pointer into a block is the block's address and an index.
    The elements are pixels of the width of the block's type; they are only copied.
  \<^item> The static variables of \<open>rotate\<close> are the record \<open>rotator\<close>, those of \<open>smcRectifyPage\<close> the
    record \<open>rectifier\<close>.  The pointers \<open>ubip\<close>, \<open>ubop\<close>, ... are set at each call before they are
    used, so they are arguments here.
  \<^item> \<open>calloc\<close> is the parameter \<open>al\<close>: the address of a new block of so many elements.
  \<^item> The number of pixels is taken to fit an \<open>int\<close>.
\<close>

section \<open>Memory\<close>

type_synonym store = "nat \<Rightarrow> int list option"

definition block :: "store \<Rightarrow> nat \<Rightarrow> int list res" where
  "block h p = (if p = 0 then Inl Null_Deref else case h p of None \<Rightarrow> Inl Use_After_Free | Some b \<Rightarrow> Inr b)"

definition load_px :: "store \<Rightarrow> nat \<Rightarrow> int \<Rightarrow> int res" where
  "load_px h p i = bind_res (block h p) (\<lambda>b.
     if 0 \<le> i \<and> i < int (length b) then Inr (b ! nat i) else Inl Out_Of_Bounds)"

definition store_px :: "store \<Rightarrow> nat \<Rightarrow> int \<Rightarrow> int \<Rightarrow> store res" where
  "store_px h p i v = bind_res (block h p) (\<lambda>b.
     if 0 \<le> i \<and> i < int (length b) then Inr (h(p \<mapsto> b[nat i := v])) else Inl Buffer_Overflow)"

text \<open>A loop that copies an element from an index of one block to an index of another, pair by pair.\<close>

primrec copy_px :: "(int \<times> int) list \<Rightarrow> store \<Rightarrow> nat \<Rightarrow> nat \<Rightarrow> store res" where
  "copy_px [] h ip op = Inr h"
| "copy_px (a # rest) h ip op = bind_res (load_px h ip (fst a)) (\<lambda>v.
     bind_res (store_px h op (snd a) v) (\<lambda>h. copy_px rest h ip op))"

text \<open>\<open>*op++ = *(ip + i)\<close> for the indices in turn.\<close>

definition copy_seq :: "int list \<Rightarrow> store \<Rightarrow> nat \<Rightarrow> nat \<Rightarrow> store res" where
  "copy_seq is h ip op = copy_px (zip is (map int [0..<length is])) h ip op"

definition new_px :: "(store \<Rightarrow> int \<Rightarrow> nat) \<Rightarrow> store \<Rightarrow> int \<Rightarrow> nat \<times> store" where
  "new_px al h n = (let p = al h n in (p, if p = 0 then h else h(p \<mapsto> replicate (nat n) 0)))"

definition free_px :: "store \<Rightarrow> nat \<Rightarrow> store" where
  "free_px h p = (if p = 0 then h else h(p := None))"

text \<open>\<open>bcopy\<close> of \<open>n\<close> elements; a negative count becomes a huge size.\<close>

definition bcopy_px :: "store \<Rightarrow> nat \<Rightarrow> int \<Rightarrow> nat \<Rightarrow> int \<Rightarrow> int \<Rightarrow> store res" where
  "bcopy_px h ip i op j n =
     (if n < 0 then Inl Out_Of_Bounds else if n = 0 then Inr h
      else bind_res (block h ip) (\<lambda>s. bind_res (block h op) (\<lambda>d.
        if i < 0 \<or> i + n > int (length s) then Inl Out_Of_Bounds
        else if j < 0 \<or> j + n > int (length d) then Inl Buffer_Overflow
        else Inr (h(op \<mapsto> poke (nat j) (take (nat n) (drop (nat i) s)) d)))))"

section \<open>Flipping and transposing\<close>

definition pixel_type :: "int \<Rightarrow> bool" where
  "pixel_type t \<longleftrightarrow> t = 1 \<or> t = 2 \<or> t = 4"

definition flipx_ix :: "int \<Rightarrow> int \<Rightarrow> int list" where
  "flipx_ix nx ny = concat (map (\<lambda>y. map (\<lambda>x. y * nx + x - 1) (rev [1..nx])) [0..ny - 1])"

definition flipx :: "store \<Rightarrow> int \<Rightarrow> nat \<Rightarrow> nat \<Rightarrow> int \<Rightarrow> int \<Rightarrow> store res" where
  "flipx h pixsize ip op nx ny = (if pixel_type pixsize then copy_seq (flipx_ix nx ny) h ip op else Inr h)"

definition flipy_ix :: "int \<Rightarrow> int \<Rightarrow> int list" where
  "flipy_ix nx ny = concat (map (\<lambda>y. map (\<lambda>x. y * nx + x) [0..nx - 1]) (rev [0..ny - 1]))"

definition flipy :: "store \<Rightarrow> int \<Rightarrow> nat \<Rightarrow> nat \<Rightarrow> int \<Rightarrow> int \<Rightarrow> store res" where
  "flipy h pixsize ip op nx ny = (if pixel_type pixsize then copy_seq (flipy_ix nx ny) h ip op else Inr h)"

definition transpose2_ix :: "int \<Rightarrow> int \<Rightarrow> int list" where
  "transpose2_ix nx ny = concat (map (\<lambda>x. map (\<lambda>y. y * nx - x - 1) (rev [1..ny])) [0..nx - 1])"

definition transpose2 :: "store \<Rightarrow> int \<Rightarrow> nat \<Rightarrow> nat \<Rightarrow> int \<Rightarrow> int \<Rightarrow> store res" where
  "transpose2 h pixsize ip op nx ny = (if pixel_type pixsize then copy_seq (transpose2_ix nx ny) h ip op else Inr h)"

text \<open>Pixels of type \<open>ushort\<close> are read with \<open>y\<close> from \<open>ny\<close> down to 1.\<close>

definition transpose1_ix :: "int \<Rightarrow> int \<Rightarrow> int \<Rightarrow> int list" where
  "transpose1_ix pixsize nx ny =
     concat (map (\<lambda>x. map (\<lambda>y. y * nx + x) (if pixsize = 2 then rev [1..ny] else [0..ny - 1])) [0..nx - 1])"

definition transpose1 :: "store \<Rightarrow> int \<Rightarrow> nat \<Rightarrow> nat \<Rightarrow> int \<Rightarrow> int \<Rightarrow> store res" where
  "transpose1 h pixsize ip op nx ny = (if pixel_type pixsize then copy_seq (transpose1_ix pixsize nx ny) h ip op else Inr h)"

section \<open>The buffers of rotate\<close>

record rotator =
  rot_first :: bool
  rot_nx :: int
  rot_ny :: int
  bufc :: nat
  bufs :: nat
  bufl :: nat

definition rotator_init :: rotator where
  "rotator_init = \<lparr>rot_first = True, rot_nx = 0, rot_ny = 0, bufc = 0, bufs = 0, bufl = 0\<rparr>"

definition rot_buf :: "rotator \<Rightarrow> int \<Rightarrow> nat" where
  "rot_buf r t = (if t = 1 then bufc r else if t = 2 then bufs r else bufl r)"

definition set_rot_buf :: "rotator \<Rightarrow> int \<Rightarrow> nat \<Rightarrow> rotator" where
  "set_rot_buf r t p = (if t = 1 then r\<lparr>bufc := p\<rparr> else if t = 2 then r\<lparr>bufs := p\<rparr> else r\<lparr>bufl := p\<rparr>)"

text \<open>The buffer of the given type is dropped when the number of pixels changes.\<close>

definition rot_resize :: "rotator \<Rightarrow> store \<Rightarrow> int \<Rightarrow> int \<Rightarrow> int \<Rightarrow> rotator \<times> store" where
  "rot_resize r h t nx ny =
     (if nx * ny \<noteq> rot_nx r * rot_ny r
      then (r\<lparr>rot_nx := nx, rot_ny := ny, rot_first := True\<rparr>, if pixel_type t then free_px h (rot_buf r t) else h)
      else (r, h))"

definition rot_alloc :: "(store \<Rightarrow> int \<Rightarrow> nat) \<Rightarrow> rotator \<Rightarrow> store \<Rightarrow> int \<Rightarrow> int \<Rightarrow> rotator \<times> store" where
  "rot_alloc al r h t n =
     (if rot_first r then let (p, h) = new_px al h n in ((set_rot_buf r t p)\<lparr>rot_first := False\<rparr>, h) else (r, h))"

definition rot_dir :: "store \<Rightarrow> int \<Rightarrow> nat \<Rightarrow> nat \<Rightarrow> int \<Rightarrow> int \<Rightarrow> int \<Rightarrow> store res" where
  "rot_dir h t ip op nx ny dir =
     (if dir = 1 then flipx h t ip op nx ny
      else if dir = 2 then flipy h t ip op nx ny
      else if dir = 3 then transpose1 h t ip op nx ny
      else if dir = 4 then transpose2 h t ip op nx ny
      else Inr h)"

text \<open>\<open>rotate\<close>: what is stored in \<open>*oadr\<close>, if anything, and the state.\<close>

definition rotate_px ::
    "(store \<Rightarrow> int \<Rightarrow> nat) \<Rightarrow> rotator \<Rightarrow> store \<Rightarrow> nat \<Rightarrow> int \<Rightarrow> int \<Rightarrow> int \<Rightarrow> int \<Rightarrow> (nat option \<times> rotator \<times> store) res" where
  "rotate_px al r h iadr t nx ny dir =
     (let (r, h) = rot_resize r h t nx ny in
      if \<not> pixel_type t then Inr (None, r, h)
      else let (r, h) = rot_alloc al r h t (nx * ny) in
        bind_res (rot_dir h t iadr (rot_buf r t) nx ny dir) (\<lambda>h. Inr (Some (rot_buf r t), r, h)))"

section \<open>Rectifying a page of NEWFIRM\<close>

record rectifier =
  rec_first :: bool
  rec_nx :: int
  rec_ny :: int
  dpix_buf :: nat
  lpix_buf :: nat

definition REFERENCE_WIDTH :: int where "REFERENCE_WIDTH = 32"

text \<open>The layouts that the preprocessor selects between.\<close>

datatype layout = KPNO_Original | KPNO_Fall07 | KPNO_Feb08 | KPNO | CTIO | No_Site

definition raster_dir :: "layout \<Rightarrow> int \<Rightarrow> int \<Rightarrow> int" where
  "raster_dir l xs ys =
     (let q = (\<lambda>a b c d. if xs = 0 \<and> ys = 0 then a else if ys = 0 then b else if xs = 0 then c else d) in
      case l of KPNO_Original \<Rightarrow> q 0 1 2 4 | KPNO_Fall07 \<Rightarrow> q 1 4 3 2 | KPNO_Feb08 \<Rightarrow> q 1 3 4 2
        | KPNO \<Rightarrow> q (-3) 0 (-2) (-4) | CTIO \<Rightarrow> q (-4) (-2) 0 (-3) | No_Site \<Rightarrow> 0)"

definition rectifyDir :: "layout \<Rightarrow> int \<Rightarrow> int \<Rightarrow> int \<Rightarrow> int" where
  "rectifyDir l rotate_enable xs ys =
     (let dir = raster_dir l xs ys in if dir = 0 \<or> rotate_enable = 0 then -1 else dir)"

text \<open>\<open>n\<close> rows from row \<open>k\<close>: \<open>w\<close> elements each, the rows \<open>si\<close> and \<open>so\<close> elements apart.\<close>

primrec copy_rows :: "nat \<Rightarrow> int \<Rightarrow> store \<Rightarrow> nat \<Rightarrow> int \<Rightarrow> nat \<Rightarrow> int \<Rightarrow> int \<Rightarrow> store res" where
  "copy_rows 0 k h ip si op so w = Inr h"
| "copy_rows (Suc n) k h ip si op so w = bind_res (bcopy_px h ip (k * si) op (k * so) w) (\<lambda>h.
     copy_rows n (k + 1) h ip si op so w)"

text \<open>Flips and transpositions, and a flip in x after them when \<open>dir\<close> is negative.\<close>

definition transform_px ::
    "(store \<Rightarrow> int \<Rightarrow> nat) \<Rightarrow> rotator \<Rightarrow> store \<Rightarrow> nat \<Rightarrow> int \<Rightarrow> int \<Rightarrow> int \<Rightarrow> (nat \<times> rotator \<times> store) res" where
  "transform_px al r h dpix rowlen ny dir =
     bind_res (rotate_px al r h dpix 4 rowlen ny \<bar>dir\<bar>) (\<lambda>(a, r, h). case a of None \<Rightarrow> Inl Uninitialised | Some adrop \<Rightarrow>
     bind_res (bcopy_px h adrop 0 dpix 0 (rowlen * ny)) (\<lambda>h.
     if dir > 0 then Inr (adrop, r, h)
     else bind_res (rotate_px al r h dpix 4 rowlen ny 1) (\<lambda>(a, r, h). case a of None \<Rightarrow> Inl Uninitialised | Some adrop \<Rightarrow>
       bind_res (bcopy_px h adrop 0 dpix 0 (rowlen * ny)) (\<lambda>h. Inr (adrop, r, h)))))"

definition rec_buffer :: "(store \<Rightarrow> int \<Rightarrow> nat) \<Rightarrow> rectifier \<Rightarrow> store \<Rightarrow> int \<Rightarrow> int \<Rightarrow> rectifier \<times> store" where
  "rec_buffer al c h nx ny =
     (let (c, h) = (if nx * ny \<noteq> rec_nx c * rec_ny c
            then (c\<lparr>rec_nx := nx, rec_ny := ny, rec_first := True\<rparr>, free_px h (dpix_buf c)) else (c, h))
      in if rec_first c then let (p, h) = new_px al h (nx * ny) in (c\<lparr>dpix_buf := p, rec_first := False\<rparr>, h) else (c, h))"

definition smcRectifyPage ::
    "(store \<Rightarrow> int \<Rightarrow> nat) \<Rightarrow> layout \<Rightarrow> int \<Rightarrow> rectifier \<Rightarrow> rotator \<Rightarrow> store \<Rightarrow> fpConfig \<Rightarrow> nat
       \<Rightarrow> (rectifier \<times> rotator \<times> store) res" where
  "smcRectifyPage al l rotate_enable c r h fp pix =
     (if rotate_enable = 0 then Inr (c, r, h)
      else
        let nx = sint (xSize fp); ny = sint (ySize fp); (c, h) = rec_buffer al c h nx ny;
            dir = rectifyDir l rotate_enable (sint (xStart fp)) (sint (yStart fp)) in
        if dir < 0 then Inr (c, r, h)
        else
          let rowlen = nx - REFERENCE_WIDTH in
          bind_res (copy_rows (nat ny) 0 h pix nx (dpix_buf c) rowlen rowlen) (\<lambda>h.
          bind_res (transform_px al r h (dpix_buf c) rowlen ny dir) (\<lambda>(adrop, r, h).
          bind_res (copy_rows (nat ny) 0 h adrop rowlen pix nx rowlen) (\<lambda>h. Inr (c, r, h)))))"

section \<open>Rectifying a page of MOSAIC\<close>

definition BIAS :: int where "BIAS = 100"

definition rec_buffers :: "(store \<Rightarrow> int \<Rightarrow> nat) \<Rightarrow> rectifier \<Rightarrow> store \<Rightarrow> int \<Rightarrow> int \<Rightarrow> rectifier \<times> store" where
  "rec_buffers al c h nx ny =
     (let (c, h) = (if nx * ny \<noteq> rec_nx c * rec_ny c
            then (c\<lparr>rec_nx := nx, rec_ny := ny, rec_first := True\<rparr>, free_px (free_px h (dpix_buf c)) (lpix_buf c)) else (c, h))
      in if rec_first c
         then let (p, h) = new_px al h (nx * ny); (q, h) = new_px al h nx in (c\<lparr>dpix_buf := p, lpix_buf := q, rec_first := False\<rparr>, h)
         else (c, h))"

function reverse_px :: "store \<Rightarrow> nat \<Rightarrow> int \<Rightarrow> int \<Rightarrow> store res" where
  "reverse_px h p sp ep =
     (if sp < ep
      then bind_res (load_px h p sp) (\<lambda>temp. bind_res (load_px h p ep) (\<lambda>v.
           bind_res (store_px h p sp v) (\<lambda>h. bind_res (store_px h p ep temp) (\<lambda>h. reverse_px h p (sp + 1) (ep - 1)))))
      else Inr h)"
  by pat_completeness auto
termination by (relation "measure (\<lambda>(h, p, sp, ep). nat (ep - sp))") auto

declare reverse_px.simps [simp del]

text \<open>The data of the row that starts at \<open>b\<close>, then its bias region, into the line buffer.\<close>

definition line_pairs :: "int \<Rightarrow> int \<Rightarrow> (int \<times> int) list" where
  "line_pairs b nx = map (\<lambda>j. (b + j, j - BIAS)) [BIAS..nx - 1] @ map (\<lambda>j. (b + j, max 0 (nx - BIAS) + j)) [0..BIAS - 1]"

primrec shift_rows :: "nat \<Rightarrow> int \<Rightarrow> store \<Rightarrow> nat \<Rightarrow> nat \<Rightarrow> int \<Rightarrow> store res" where
  "shift_rows 0 k h pix lpix nx = Inr h"
| "shift_rows (Suc n) k h pix lpix nx =
     bind_res (copy_px (line_pairs (k * nx) nx) h pix lpix) (\<lambda>h.
     bind_res (copy_px (map (\<lambda>i. (i, k * nx + i)) [0..nx - 1]) h lpix pix) (\<lambda>h.
       shift_rows n (k + 1) h pix lpix nx))"

definition smcRectifyPage_mosaic ::
    "(store \<Rightarrow> int \<Rightarrow> nat) \<Rightarrow> int \<Rightarrow> rectifier \<Rightarrow> store \<Rightarrow> fpConfig \<Rightarrow> nat \<Rightarrow> (rectifier \<times> store) res" where
  "smcRectifyPage_mosaic al rotate_enable c h fp pix =
     (if rotate_enable = 0 then Inr (c, h)
      else
        let nx = sint (xSize fp); ny = sint (ySize fp); (c, h) = rec_buffers al c h nx ny in
        if sint (yStart fp) = 0 then Inr (c, h)
        else bind_res (reverse_px h pix 0 (nx * ny - 1)) (\<lambda>h.
             bind_res (shift_rows (nat ny) 0 h pix (lpix_buf c) nx) (\<lambda>h. Inr (c, h))))"

end
