(* ===== verification/Raster_Props.thy ===== *)
theory Raster_Props
  imports Raster
begin

text \<open>
  Properties of the raster routines.  The interface \<open>raster_move\<close> says what a flip or a
  transposition is: the list of indices that it reads and the place each pixel comes from.  The
  four index lists of \<open>rotate.c\<close> are instances.
\<close>

section \<open>Copying\<close>

lemma block_some: "p \<noteq> 0 \<Longrightarrow> h p = Some b \<Longrightarrow> block h p = Inr b"
  by (simp add: block_def)

definition put_all :: "(int \<times> int) list \<Rightarrow> int list \<Rightarrow> int list \<Rightarrow> int list" where
  "put_all ps s d = fold (\<lambda>a d. d[nat (snd a) := s ! nat (fst a)]) ps d"

lemma length_put_all [simp]: "length (put_all ps s d) = length d"
  unfolding put_all_def by (induction ps arbitrary: d) auto

lemma copy_px_run:
  assumes "ip \<noteq> 0" "op \<noteq> 0" "ip \<noteq> op" "h ip = Some s" "h op = Some d"
    "\<forall>a \<in> set ps. 0 \<le> fst a \<and> fst a < int (length s) \<and> 0 \<le> snd a \<and> snd a < int (length d)"
  shows "copy_px ps h ip op = Inr (h(op \<mapsto> put_all ps s d))"
  using assms(4-6)
proof (induction ps arbitrary: h d)
  case Nil
  then show ?case by (simp add: put_all_def fun_upd_idem)
next
  case (Cons a ps)
  let ?d = "d[nat (snd a) := s ! nat (fst a)]"
  have "load_px h ip (fst a) = Inr (s ! nat (fst a))"
    using Cons.prems assms(1) by (simp add: load_px_def block_some)
  moreover have "store_px h op (snd a) (s ! nat (fst a)) = Inr (h(op \<mapsto> ?d))"
    using Cons.prems assms(2) by (simp add: store_px_def block_some)
  moreover have "copy_px ps (h(op \<mapsto> ?d)) ip op = Inr (h(op \<mapsto> ?d, op \<mapsto> put_all ps s ?d))"
    using Cons.prems assms(3) by (intro Cons.IH) auto
  moreover have "put_all ps s ?d = put_all (a # ps) s d" by (simp add: put_all_def)
  ultimately show ?case by (simp only: copy_px.simps bind_res_simps fun_upd_upd)
qed

definition gather :: "int list \<Rightarrow> 'a list \<Rightarrow> 'a list" where
  "gather is s = map (\<lambda>i. s ! nat i) is"

lemma length_gather [simp]: "length (gather is s) = length is"
  by (simp add: gather_def)

lemma put_all_seq:
  "k + length is \<le> length d \<Longrightarrow>
     put_all (zip is (map int [k..<k + length is])) s d = take k d @ gather is s @ drop (k + length is) d"
proof (induction "is" arbitrary: k d)
  case (Cons i "is")
  have "[k..<k + length (i # is)] = k # [Suc k..<Suc k + length is]"
    by (metis add_Suc_right add_Suc length_Cons less_add_Suc1 upt_conv_Cons)
  then have "put_all (zip (i # is) (map int [k..<k + length (i # is)])) s d
      = put_all (zip is (map int [Suc k..<Suc k + length is])) s (d[k := s ! nat i])"
    by (simp add: put_all_def)
  also have "\<dots> = take (Suc k) (d[k := s ! nat i]) @ gather is s @ drop (Suc k + length is) (d[k := s ! nat i])"
    using Cons.prems by (intro Cons.IH) simp
  also have "take (Suc k) (d[k := s ! nat i]) = take k d @ [s ! nat i]"
    using Cons.prems by (simp add: take_Suc_conv_app_nth)
  also have "drop (Suc k + length is) (d[k := s ! nat i]) = drop (k + length (i # is)) d" by simp
  finally show ?case by (simp add: gather_def)
qed (simp add: put_all_def gather_def)

lemma copy_seq_run:
  assumes "ip \<noteq> 0" "op \<noteq> 0" "ip \<noteq> op" "h ip = Some s" "h op = Some d"
    "\<forall>i \<in> set is. 0 \<le> i \<and> i < int (length s)" "length is \<le> length d"
  shows "copy_seq is h ip op = Inr (h(op \<mapsto> gather is s @ drop (length is) d))"
proof -
  have "\<forall>a \<in> set (zip is (map int [0..<length is])). 0 \<le> fst a \<and> fst a < int (length s) \<and> 0 \<le> snd a \<and> snd a < int (length d)"
  proof
    fix a
    assume a: "a \<in> set (zip is (map int [0..<length is]))"
    then have "fst a \<in> set is" "snd a \<in> set (map int [0..<length is])"
      by (metis prod.collapse set_zip_leftD, metis prod.collapse set_zip_rightD)
    then show "0 \<le> fst a \<and> fst a < int (length s) \<and> 0 \<le> snd a \<and> snd a < int (length d)" using assms(6, 7) by auto
  qed
  from copy_px_run [OF assms(1-5) this] put_all_seq [of 0 "is" d s] assms(7) show ?thesis by (simp add: copy_seq_def)
qed

text \<open>A pixel index that is out of bounds stops the copy.\<close>

lemma copy_seq_fault:
  assumes "ip \<noteq> 0" "h ip = Some s" "\<not> (0 \<le> i \<and> i < int (length s))"
  shows "copy_seq (i # is) h ip op = Inl Out_Of_Bounds"
proof -
  have "[0..<length (i # is)] = 0 # [1..<Suc (length is)]" by (subst upt_conv_Cons) simp_all
  moreover have "load_px h ip i = Inl Out_Of_Bounds" using assms by (auto simp: load_px_def block_some)
  ultimately show ?thesis by (simp add: copy_seq_def)
qed

section \<open>Rows and columns\<close>

lemma nth_concat_rows:
  "\<forall>r \<in> set rows. length r = w \<Longrightarrow> r < length rows \<Longrightarrow> c < w \<Longrightarrow> concat rows ! (r * w + c) = rows ! r ! c"
proof (induction rows arbitrary: r)
  case (Cons a rows)
  show ?case
  proof (cases r)
    case (Suc k)
    then have "concat (a # rows) ! (r * w + c) = concat rows ! (k * w + c)"
      using Cons.prems by (simp add: nth_append)
    then show ?thesis using Cons.IH [of k] Cons.prems Suc by simp
  qed (use Cons.prems in \<open>simp add: nth_append\<close>)
qed simp

lemma length_concat_rows: "\<forall>r \<in> set rows. length r = w \<Longrightarrow> length (concat rows) = length rows * w"
  by (induction rows) auto

lemma nth_upto_0: "0 \<le> k \<Longrightarrow> k < n \<Longrightarrow> [0..n - 1] ! nat k = k"
  by (simp add: nth_upto)

lemma nth_rev_upto_0: "0 \<le> k \<Longrightarrow> k < n \<Longrightarrow> rev [0..n - 1] ! nat k = n - 1 - k"
  by (simp add: rev_nth nth_upto nat_diff_distrib)

lemma nth_rev_upto_1: "0 \<le> k \<Longrightarrow> k < n \<Longrightarrow> rev [1..n] ! nat k = n - k"
  by (simp add: rev_nth nth_upto)

lemma nat_row: "0 \<le> y \<Longrightarrow> 0 \<le> x \<Longrightarrow> 0 \<le> w \<Longrightarrow> nat (y * w + x) = nat y * nat w + nat x"
  by (simp add: nat_add_distrib nat_mult_distrib)

text \<open>The list of \<open>f y x\<close> for rows \<open>y\<close> and columns \<open>x\<close> taken from two lists.\<close>

lemma rows_nth:
  assumes "length ys = nat ny" "length xs = nat nx" "0 \<le> x" "x < nx" "0 \<le> y" "y < ny"
  shows "concat (map (\<lambda>y. map (f y) xs) ys) ! nat (y * nx + x) = f (ys ! nat y) (xs ! nat x)"
proof -
  have "nat (y * nx + x) = nat y * nat nx + nat x" using assms by (intro nat_row) auto
  moreover have "nat x < nat nx" "nat y < length ys" using assms by auto
  ultimately show ?thesis
    using nth_concat_rows [of "map (\<lambda>y. map (f y) xs) ys" "nat nx" "nat y" "nat x"] assms(1, 2) by simp
qed

lemma rows_length: "length ys = nat ny \<Longrightarrow> length xs = nat nx \<Longrightarrow> 0 \<le> nx \<Longrightarrow> 0 \<le> ny \<Longrightarrow>
    length (concat (map (\<lambda>y. map (f y) xs) ys)) = nat (nx * ny)"
  using length_concat_rows [of "map (\<lambda>y. map (f y) xs) ys" "nat nx"] by (simp add: nat_mult_distrib mult.commute)

lemma index_split:
  fixes k :: int
  assumes "0 \<le> k" "k < nx * ny" "0 < nx"
  shows "0 \<le> k mod nx" "k mod nx < nx" "0 \<le> k div nx" "k div nx < ny" "k = (k div nx) * nx + k mod nx"
proof -
  show "0 \<le> k mod nx" "k mod nx < nx" using assms(3) by simp_all
  show "0 \<le> k div nx" using assms(1, 3) by (simp add: pos_imp_zdiv_nonneg_iff)
  show "k = (k div nx) * nx + k mod nx" by simp
  then have "(k div nx) * nx < nx * ny" using \<open>0 \<le> k mod nx\<close> assms(2) by linarith
  then have "(k div nx) * nx < ny * nx" by (simp only: mult.commute [of ny])
  then show "k div nx < ny" using assms(3) by simp
qed

section \<open>Flips and transpositions\<close>

definition pixel :: "'a list \<Rightarrow> int \<Rightarrow> int \<Rightarrow> int \<Rightarrow> 'a" where
  "pixel b w x y = b ! nat (y * w + x)"

definition inside :: "int \<Rightarrow> int \<Rightarrow> int \<Rightarrow> int \<Rightarrow> bool" where
  "inside nx ny x y \<longleftrightarrow> 0 \<le> x \<and> x < nx \<and> 0 \<le> y \<and> y < ny"

locale raster_move =
  fixes ix :: "int \<Rightarrow> int \<Rightarrow> int list"
    and src :: "int \<Rightarrow> int \<Rightarrow> int \<Rightarrow> int \<Rightarrow> int \<times> int"
    and wid :: "int \<Rightarrow> int \<Rightarrow> int"
    and hei :: "int \<Rightarrow> int \<Rightarrow> int"
  assumes length_ix: "0 \<le> nx \<Longrightarrow> 0 \<le> ny \<Longrightarrow> length (ix nx ny) = nat (nx * ny)"
    and ix_nth: "inside (wid nx ny) (hei nx ny) x y \<Longrightarrow>
        ix nx ny ! nat (y * wid nx ny + x) = snd (src nx ny x y) * nx + fst (src nx ny x y)"
    and src_inside: "inside (wid nx ny) (hei nx ny) x y \<Longrightarrow> inside nx ny (fst (src nx ny x y)) (snd (src nx ny x y))"
    and dims: "wid nx ny * hei nx ny = nx * ny" "wid (wid nx ny) (hei nx ny) = nx" "hei (wid nx ny) (hei nx ny) = ny"
    and dims_pos: "0 < nx \<Longrightarrow> 0 < ny \<Longrightarrow> 0 < wid nx ny \<and> 0 < hei nx ny"
    and src_src: "inside nx ny x y \<Longrightarrow>
        src nx ny (fst (src (wid nx ny) (hei nx ny) x y)) (snd (src (wid nx ny) (hei nx ny) x y)) = (x, y)"
begin

lemma ix_range:
  assumes "0 < nx" "0 < ny"
  shows "\<forall>i \<in> set (ix nx ny). 0 \<le> i \<and> i < nx * ny"
proof
  fix i
  assume "i \<in> set (ix nx ny)"
  then obtain k where k: "k < length (ix nx ny)" "i = ix nx ny ! k" by (auto simp: in_set_conv_nth)
  let ?w = "wid nx ny" and ?h = "hei nx ny"
  have w: "0 < ?w" "0 < ?h" using dims_pos assms by auto
  have "int k < ?w * ?h" using k(1) assms length_ix [of nx ny] dims(1) [of nx ny] by (simp add: zless_nat_eq_int_zless)
  note s = index_split [OF of_nat_0_le_iff this w(1)]
  let ?x = "int k mod ?w" and ?y = "int k div ?w"
  have ins: "inside ?w ?h ?x ?y" using s(1-4) by (simp only: inside_def simp_thms)
  have kk: "nat (?y * ?w + ?x) = k" by (simp only: s(5) [symmetric] nat_int)
  have "i = snd (src nx ny ?x ?y) * nx + fst (src nx ny ?x ?y)" unfolding k(2) using ix_nth [OF ins] by (simp only: kk)
  moreover have "inside nx ny (fst (src nx ny ?x ?y)) (snd (src nx ny ?x ?y))" by (rule src_inside [OF ins])
  ultimately show "0 \<le> i \<and> i < nx * ny"
    using mult_right_mono [of "snd (src nx ny ?x ?y)" "ny - 1" nx] assms by (auto simp: inside_def algebra_simps)
qed

lemma gather_pixel:
  assumes "inside (wid nx ny) (hei nx ny) x y" "0 < nx" "0 < ny"
  shows "pixel (gather (ix nx ny) s) (wid nx ny) x y = pixel s nx (fst (src nx ny x y)) (snd (src nx ny x y))"
proof -
  have "0 \<le> y * wid nx ny + x" "y * wid nx ny + x < hei nx ny * wid nx ny"
    using assms(1) mult_right_mono [of y "hei nx ny - 1" "wid nx ny"] by (auto simp: inside_def algebra_simps)
  then have "nat (y * wid nx ny + x) < length (ix nx ny)"
    using length_ix [of nx ny] assms(2, 3) dims(1) [of nx ny] by (simp add: mult.commute)
  then show ?thesis using ix_nth [OF assms(1)] by (simp add: pixel_def gather_def)
qed

lemma gather_twice:
  assumes "0 < nx" "0 < ny" "length s = nat (nx * ny)"
  shows "gather (ix (wid nx ny) (hei nx ny)) (gather (ix nx ny) s) = s"
proof (rule nth_equalityI)
  let ?w = "wid nx ny" and ?h = "hei nx ny"
  have w: "0 < ?w" "0 < ?h" using dims_pos assms by auto
  show l: "length (gather (ix ?w ?h) (gather (ix nx ny) s)) = length s"
    using length_ix [of ?w ?h] w assms(3) dims(1) by simp
  fix k
  assume "k < length (gather (ix ?w ?h) (gather (ix nx ny) s))"
  then have "int k < nx * ny" using l assms(3) by simp
  note sp = index_split [OF of_nat_0_le_iff this assms(1)]
  let ?x = "int k mod nx" and ?y = "int k div nx"
  have ins: "inside nx ny ?x ?y" using sp(1-4) by (simp only: inside_def simp_thms)
  then have ins': "inside (wid ?w ?h) (hei ?w ?h) ?x ?y" by (simp add: dims)
  have k: "nat (?y * nx + ?x) = k" by (simp only: sp(5) [symmetric] nat_int)
  have "pixel (gather (ix ?w ?h) (gather (ix nx ny) s)) nx ?x ?y
      = pixel (gather (ix nx ny) s) ?w (fst (src ?w ?h ?x ?y)) (snd (src ?w ?h ?x ?y))"
    using gather_pixel [OF ins' w] by (simp add: dims)
  also have "\<dots> = pixel s nx ?x ?y"
    using gather_pixel [OF src_inside [OF ins'] assms(1, 2)] src_src [OF ins] by simp
  finally show "gather (ix ?w ?h) (gather (ix nx ny) s) ! k = s ! k" by (simp only: pixel_def k)
qed

end

definition wid_same :: "int \<Rightarrow> int \<Rightarrow> int" where "wid_same nx ny = nx"
definition hei_same :: "int \<Rightarrow> int \<Rightarrow> int" where "hei_same nx ny = ny"

definition src_flipx :: "int \<Rightarrow> int \<Rightarrow> int \<Rightarrow> int \<Rightarrow> int \<times> int" where "src_flipx nx ny x y = (nx - 1 - x, y)"
definition src_flipy :: "int \<Rightarrow> int \<Rightarrow> int \<Rightarrow> int \<Rightarrow> int \<times> int" where "src_flipy nx ny x y = (x, ny - 1 - y)"
definition src_transpose1 :: "int \<Rightarrow> int \<Rightarrow> int \<Rightarrow> int \<Rightarrow> int \<times> int" where "src_transpose1 nx ny x y = (y, x)"
definition src_transpose2 :: "int \<Rightarrow> int \<Rightarrow> int \<Rightarrow> int \<Rightarrow> int \<times> int" where "src_transpose2 nx ny x y = (nx - 1 - y, ny - 1 - x)"

lemmas src_defs = src_flipx_def src_flipy_def src_transpose1_def src_transpose2_def wid_same_def hei_same_def inside_def

interpretation fx: raster_move flipx_ix src_flipx wid_same hei_same
proof unfold_locales
  show "inside (wid_same nx ny) (hei_same nx ny) x y \<Longrightarrow> flipx_ix nx ny ! nat (y * wid_same nx ny + x)
      = snd (src_flipx nx ny x y) * nx + fst (src_flipx nx ny x y)" for nx ny x y
    by (auto simp: flipx_ix_def src_defs rows_nth nth_upto_0 nth_rev_upto_1)
qed (auto simp: src_defs flipx_ix_def rows_length)

interpretation fy: raster_move flipy_ix src_flipy wid_same hei_same
proof unfold_locales
  show "inside (wid_same nx ny) (hei_same nx ny) x y \<Longrightarrow> flipy_ix nx ny ! nat (y * wid_same nx ny + x)
      = snd (src_flipy nx ny x y) * nx + fst (src_flipy nx ny x y)" for nx ny x y
    by (auto simp: flipy_ix_def src_defs rows_nth nth_upto_0 nth_rev_upto_0)
qed (auto simp: src_defs flipy_ix_def rows_length)

definition wid_swap :: "int \<Rightarrow> int \<Rightarrow> int" where "wid_swap nx ny = ny"
definition hei_swap :: "int \<Rightarrow> int \<Rightarrow> int" where "hei_swap nx ny = nx"

interpretation t1: raster_move "transpose1_ix 4" src_transpose1 wid_swap hei_swap
proof unfold_locales
  show "inside (wid_swap nx ny) (hei_swap nx ny) x y \<Longrightarrow> transpose1_ix 4 nx ny ! nat (y * wid_swap nx ny + x)
      = snd (src_transpose1 nx ny x y) * nx + fst (src_transpose1 nx ny x y)" for nx ny x y
    by (auto simp: transpose1_ix_def src_defs wid_swap_def hei_swap_def rows_nth nth_upto_0)
qed (auto simp: src_defs wid_swap_def hei_swap_def transpose1_ix_def rows_length mult.commute)

interpretation t2: raster_move transpose2_ix src_transpose2 wid_swap hei_swap
proof unfold_locales
  show "inside (wid_swap nx ny) (hei_swap nx ny) x y \<Longrightarrow> transpose2_ix nx ny ! nat (y * wid_swap nx ny + x)
      = snd (src_transpose2 nx ny x y) * nx + fst (src_transpose2 nx ny x y)" for nx ny x y
    by (auto simp: transpose2_ix_def src_defs wid_swap_def hei_swap_def rows_nth nth_upto_0 nth_rev_upto_1 left_diff_distrib)
qed (auto simp: src_defs wid_swap_def hei_swap_def transpose2_ix_def rows_length mult.commute)

text \<open>The four directions of \<open>rotate\<close>.  The transposition of \<open>ushort\<close> pixels is not among them.\<close>

definition dir_ix :: "int \<Rightarrow> int \<Rightarrow> int \<Rightarrow> int \<Rightarrow> int list" where
  "dir_ix t dir = (if dir = 1 then flipx_ix else if dir = 2 then flipy_ix else if dir = 3 then transpose1_ix t else transpose2_ix)"

definition dir_src :: "int \<Rightarrow> int \<Rightarrow> int \<Rightarrow> int \<Rightarrow> int \<Rightarrow> int \<times> int" where
  "dir_src dir = (if dir = 1 then src_flipx else if dir = 2 then src_flipy else if dir = 3 then src_transpose1 else src_transpose2)"

definition dir_wid :: "int \<Rightarrow> int \<Rightarrow> int \<Rightarrow> int" where
  "dir_wid dir = (if dir = 1 \<or> dir = 2 then wid_same else wid_swap)"

definition dir_hei :: "int \<Rightarrow> int \<Rightarrow> int \<Rightarrow> int" where
  "dir_hei dir = (if dir = 1 \<or> dir = 2 then hei_same else hei_swap)"

definition good_dir :: "int \<Rightarrow> int \<Rightarrow> bool" where
  "good_dir t dir \<longleftrightarrow> pixel_type t \<and> (dir = 1 \<or> dir = 2 \<or> dir = 3 \<and> t \<noteq> 2 \<or> dir = 4)"

lemma transpose1_wide: "t \<noteq> 2 \<Longrightarrow> transpose1_ix t = transpose1_ix 4"
  by (simp add: transpose1_ix_def fun_eq_iff)

lemma dir_move: "good_dir t dir \<Longrightarrow> raster_move (dir_ix t dir) (dir_src dir) (dir_wid dir) (dir_hei dir)"
  using fx.raster_move_axioms fy.raster_move_axioms t1.raster_move_axioms t2.raster_move_axioms transpose1_wide [of t]
  by (auto simp: good_dir_def dir_ix_def dir_src_def dir_wid_def dir_hei_def)

lemma rot_dir_run:
  assumes "good_dir t dir" "0 < nx" "0 < ny" "ip \<noteq> 0" "op \<noteq> 0" "ip \<noteq> op" "h ip = Some s" "h op = Some d"
    "nx * ny \<le> int (length s)" "int (length d) = nx * ny"
  shows "rot_dir h t ip op nx ny dir = Inr (h(op \<mapsto> gather (dir_ix t dir nx ny) s))"
proof -
  note m = dir_move [OF assms(1)]
  have l: "length (dir_ix t dir nx ny) = length d" using raster_move.length_ix [OF m, of nx ny] assms(2, 3, 10) by simp
  have "\<forall>i \<in> set (dir_ix t dir nx ny). 0 \<le> i \<and> i < int (length s)"
    using raster_move.ix_range [OF m assms(2, 3)] assms(9) by fastforce
  from copy_seq_run [OF assms(4-8) this] l
  have "copy_seq (dir_ix t dir nx ny) h ip op = Inr (h(op \<mapsto> gather (dir_ix t dir nx ny) s))" by simp
  then show ?thesis using assms(1)
    by (auto simp: good_dir_def rot_dir_def dir_ix_def flipx_def flipy_def transpose1_def transpose2_def)
qed

section \<open>The buffer of rotate\<close>

definition al_ok :: "(store \<Rightarrow> int \<Rightarrow> nat) \<Rightarrow> bool" where
  "al_ok al \<longleftrightarrow> (\<forall>h n. finite (dom h) \<longrightarrow> al h n \<noteq> 0 \<and> h (al h n) = None)"

text \<open>As long as \<open>rotate\<close> is used for pixels of one type its buffer has the size it remembers.\<close>

definition rot_inv :: "int \<Rightarrow> rotator \<Rightarrow> store \<Rightarrow> bool" where
  "rot_inv t r h \<longleftrightarrow> (if rot_first r then rot_buf r t = 0
     else rot_buf r t \<noteq> 0 \<and> (\<exists>b. h (rot_buf r t) = Some b \<and> int (length b) = rot_nx r * rot_ny r))"

lemma rot_buf_simps [simp]:
  "rot_buf (r\<lparr>rot_nx := a\<rparr>) t = rot_buf r t" "rot_buf (r\<lparr>rot_ny := a\<rparr>) t = rot_buf r t"
  "rot_buf (r\<lparr>rot_first := f\<rparr>) t = rot_buf r t" "pixel_type t \<Longrightarrow> rot_buf (set_rot_buf r t p) t = p"
  "rot_nx (set_rot_buf r t p) = rot_nx r" "rot_ny (set_rot_buf r t p) = rot_ny r"
  by (auto simp: rot_buf_def set_rot_buf_def)

lemma rot_ready:
  assumes al: "al_ok al" "finite (dom h)" and r: "rot_inv t r h" "pixel_type t" and n: "0 < nx" "0 < ny"
    and ip: "ip \<noteq> 0" "h ip = Some s" "ip \<noteq> rot_buf r t"
  shows "\<exists>r1 h1 r2 h2 d. rot_resize r h t nx ny = (r1, h1) \<and> rot_alloc al r1 h1 t (nx * ny) = (r2, h2)
     \<and> rot_buf r2 t \<noteq> 0 \<and> rot_buf r2 t \<noteq> ip \<and> h2 (rot_buf r2 t) = Some d \<and> int (length d) = nx * ny \<and> h2 ip = Some s
     \<and> \<not> rot_first r2 \<and> rot_nx r2 * rot_ny r2 = nx * ny \<and> finite (dom h2) \<and> (\<forall>q. q \<noteq> rot_buf r2 t \<longrightarrow> q \<noteq> rot_buf r t \<longrightarrow> h2 q = h q)
     \<and> (\<not> rot_first r \<and> nx * ny = rot_nx r * rot_ny r \<longrightarrow> rot_buf r2 t = rot_buf r t)
     \<and> (rot_buf r2 t = rot_buf r t \<or> h (rot_buf r2 t) = None)"
proof (cases "nx * ny = rot_nx r * rot_ny r \<and> \<not> rot_first r")
  case True
  then show ?thesis using assms by (auto simp: rot_resize_def rot_alloc_def rot_inv_def)
next
  case False
  let ?r1 = "fst (rot_resize r h t nx ny)" and ?h1 = "snd (rot_resize r h t nx ny)"
  have first: "rot_first ?r1" "rot_nx ?r1 * rot_ny ?r1 = nx * ny" "rot_buf ?r1 t = rot_buf r t"
    using False by (auto simp: rot_resize_def)
  have h1: "?h1 ip = Some s" "finite (dom ?h1)" "\<forall>q. q \<noteq> rot_buf r t \<longrightarrow> ?h1 q = h q"
    using ip al(2) by (auto simp: rot_resize_def free_px_def)
  let ?p = "al ?h1 (nx * ny)"
  have p: "?p \<noteq> 0" "?h1 ?p = None" using al(1) h1(2) by (auto simp: al_ok_def)
  have "?p \<noteq> ip" using p(2) h1(1) by auto
  moreover have "rot_alloc al ?r1 ?h1 t (nx * ny) = ((set_rot_buf ?r1 t ?p)\<lparr>rot_first := False\<rparr>, ?h1(?p \<mapsto> replicate (nat (nx * ny)) 0))"
    using first(1) p(1) by (simp add: rot_alloc_def new_px_def Let_def)
  moreover have "int (length (replicate (nat (nx * ny)) 0)) = nx * ny" using n by simp
  moreover have "rot_buf ((set_rot_buf ?r1 t ?p)\<lparr>rot_first := False\<rparr>) t = ?p" using r(2) by simp
  moreover have "?p = rot_buf r t \<or> h ?p = None" using p(2) h1(3) by metis
  ultimately show ?thesis using first h1 p False ip(3)
    by (intro exI [of _ ?r1] exI [of _ ?h1] exI [of _ "(set_rot_buf ?r1 t ?p)\<lparr>rot_first := False\<rparr>"]
        exI [of _ "?h1(?p \<mapsto> replicate (nat (nx * ny)) 0)"] exI [of _ "replicate (nat (nx * ny)) 0"]) auto
qed

lemma rotate_run:
  assumes al: "al_ok al" "finite (dom h)" and r: "rot_inv t r h" "good_dir t dir" and n: "0 < nx" "0 < ny"
    and ip: "ip \<noteq> 0" "h ip = Some s" "ip \<noteq> rot_buf r t" "nx * ny \<le> int (length s)"
  shows "\<exists>p r' h'. rotate_px al r h ip t nx ny dir = Inr (Some p, r', h') \<and> p = rot_buf r' t \<and> p \<noteq> 0 \<and> p \<noteq> ip
     \<and> h' p = Some (gather (dir_ix t dir nx ny) s) \<and> rot_inv t r' h' \<and> finite (dom h') \<and> \<not> rot_first r' \<and> rot_nx r' * rot_ny r' = nx * ny
     \<and> (\<forall>q. q \<noteq> p \<longrightarrow> q \<noteq> rot_buf r t \<longrightarrow> h' q = h q)
     \<and> (\<not> rot_first r \<and> nx * ny = rot_nx r * rot_ny r \<longrightarrow> p = rot_buf r t) \<and> (p = rot_buf r t \<or> h p = None)"
proof -
  have t: "pixel_type t" using r(2) by (simp add: good_dir_def)
  obtain r1 h1 r2 h2 d where *: "rot_resize r h t nx ny = (r1, h1)" "rot_alloc al r1 h1 t (nx * ny) = (r2, h2)"
    "rot_buf r2 t \<noteq> 0" "rot_buf r2 t \<noteq> ip" "h2 (rot_buf r2 t) = Some d" "int (length d) = nx * ny" "h2 ip = Some s"
    "\<not> rot_first r2" "rot_nx r2 * rot_ny r2 = nx * ny" "finite (dom h2)" "\<forall>q. q \<noteq> rot_buf r2 t \<longrightarrow> q \<noteq> rot_buf r t \<longrightarrow> h2 q = h q"
    "\<not> rot_first r \<and> nx * ny = rot_nx r * rot_ny r \<longrightarrow> rot_buf r2 t = rot_buf r t"
    "rot_buf r2 t = rot_buf r t \<or> h (rot_buf r2 t) = None"
    using rot_ready [OF al r(1) t n ip(1-3)] by blast
  let ?h = "h2(rot_buf r2 t \<mapsto> gather (dir_ix t dir nx ny) s)"
  have "rot_dir h2 t ip (rot_buf r2 t) nx ny dir = Inr ?h"
    using rot_dir_run [OF r(2) n ip(1) *(3) *(4) [symmetric] *(7, 5) ip(4) *(6)] .
  then have "rotate_px al r h ip t nx ny dir = Inr (Some (rot_buf r2 t), r2, ?h)"
    using *(1, 2) t by (simp add: rotate_px_def)
  moreover have "int (length (dir_ix t dir nx ny)) = nx * ny"
    using raster_move.length_ix [OF dir_move [OF r(2)], of nx ny] n by simp
  ultimately show ?thesis using * by (intro exI [of _ "rot_buf r2 t"] exI [of _ r2] exI [of _ ?h]) (auto simp: rot_inv_def)
qed

text \<open>An allocator for the witnesses: the address after the last one in use.\<close>

definition next_free :: "store \<Rightarrow> int \<Rightarrow> nat" where
  "next_free h n = Suc (Max (insert 0 (dom h)))"

lemma next_free_ok: "al_ok next_free"
  unfolding al_ok_def
proof (intro allI impI conjI)
  fix h :: store and n :: int
  assume f: "finite (dom h)"
  show "next_free h n \<noteq> 0" by (simp add: next_free_def)
  have "next_free h n \<notin> insert 0 (dom h)"
  proof
    assume "next_free h n \<in> insert 0 (dom h)"
    then have "next_free h n \<le> Max (insert 0 (dom h))" using f by (intro Max_ge) auto
    then show False by (simp add: next_free_def)
  qed
  then show "h (next_free h n) = None" by auto
qed

lemma rotator_init_inv: "rot_inv t rotator_init h"
  by (simp add: rot_inv_def rotator_init_def rot_buf_def)

section \<open>Properties of rotate\<close>

text \<open>
  C14: \<open>rotate\<close> puts the flipped or transposed raster into its buffer: pixel (x, y) of the result
  is the pixel of the input that the flip in x, the flip in y, the transposition or the
  transposition along the second diagonal takes there.  The input and all other memory but the
  old buffer keep their contents, and the buffer fits the size that is remembered.
\<close>

theorem rotate_moves_pixels:
  assumes al: "al_ok al" "finite (dom h)" and r: "rot_inv t r h" "good_dir t dir" and n: "0 < nx" "0 < ny"
    and ip: "ip \<noteq> 0" "h ip = Some s" "ip \<noteq> rot_buf r t" "nx * ny \<le> int (length s)"
  shows "\<exists>p r' h' d. rotate_px al r h ip t nx ny dir = Inr (Some p, r', h') \<and> h' p = Some d \<and> int (length d) = nx * ny
     \<and> (\<forall>x y. inside (dir_wid dir nx ny) (dir_hei dir nx ny) x y \<longrightarrow>
          pixel d (dir_wid dir nx ny) x y = pixel s nx (fst (dir_src dir nx ny x y)) (snd (dir_src dir nx ny x y)))
     \<and> rot_inv t r' h' \<and> h' ip = Some s \<and> (\<forall>q. q \<noteq> p \<longrightarrow> q \<noteq> rot_buf r t \<longrightarrow> h' q = h q)"
proof -
  obtain p r' h' where *: "rotate_px al r h ip t nx ny dir = Inr (Some p, r', h')" "p \<noteq> ip"
     "h' p = Some (gather (dir_ix t dir nx ny) s)" "rot_inv t r' h'" "\<forall>q. q \<noteq> p \<longrightarrow> q \<noteq> rot_buf r t \<longrightarrow> h' q = h q"
    using rotate_run [OF assms] by blast
  note m = dir_move [OF r(2)]
  have "int (length (gather (dir_ix t dir nx ny) s)) = nx * ny" using raster_move.length_ix [OF m, of nx ny] n by simp
  moreover have "h' ip = Some s" using *(2, 5) ip by simp
  ultimately show ?thesis using * raster_move.gather_pixel [OF m _ n, of _ _ s] by blast
qed

theorem rotate_moves_pixels_witness:
  "\<exists>p r' h' d. rotate_px next_free rotator_init [1 \<mapsto> [11, 12, 13, 21, 22, 23]] 1 4 3 2 4 = Inr (Some p, r', h')
     \<and> h' p = Some d \<and> pixel d 2 0 0 = 23"
proof -
  have "good_dir 4 4" "rot_buf rotator_init 4 = 0" by (simp_all add: good_dir_def pixel_type_def rotator_init_def rot_buf_def)
  from rotate_moves_pixels [OF next_free_ok _ rotator_init_inv this(1), of "[1 \<mapsto> [11, 12, 13, 21, 22, 23]]" 3 2 1 "[11, 12, 13, 21, 22, 23]"]
    this(2) obtain p r' h' d where *: "rotate_px next_free rotator_init [1 \<mapsto> [11, 12, 13, 21, 22, 23]] 1 4 3 2 4 = Inr (Some p, r', h')"
    "h' p = Some d" "\<forall>x y. inside (dir_wid 4 3 2) (dir_hei 4 3 2) x y \<longrightarrow>
          pixel d (dir_wid 4 3 2) x y = pixel [11, 12, 13, 21, 22, 23] 3 (fst (dir_src 4 3 2 x y)) (snd (dir_src 4 3 2 x y))"
    by auto
  have "inside (dir_wid 4 3 2) (dir_hei 4 3 2) 0 0" "dir_wid 4 3 2 = 2" "dir_src 4 3 2 0 0 = (2, 1)"
    by (simp_all add: inside_def dir_wid_def dir_hei_def wid_swap_def hei_swap_def dir_src_def src_transpose2_def)
  then have "pixel d 2 0 0 = pixel [11, 12, 13, 21, 22, 23] 3 2 1" using *(3) by fastforce
  then show ?thesis using *(1, 2) by (simp add: pixel_def)
qed

text \<open>
  each of the four directions undoes itself: when the result of \<open>rotate\<close> is copied elsewhere
  and rotated again, with the dimensions it now has, the original raster comes back.  It comes
  back in the same buffer, so the result of the first call is gone.
\<close>

theorem rotate_twice_restores:
  assumes al: "al_ok al" "finite (dom h)" and r: "rot_inv t r h" "good_dir t dir" and n: "0 < nx" "0 < ny"
    and ip: "ip \<noteq> 0" "h ip = Some s" "ip \<noteq> rot_buf r t" "nx * ny = int (length s)"
  shows "\<exists>p r' h' d. rotate_px al r h ip t nx ny dir = Inr (Some p, r', h') \<and> h' p = Some d
     \<and> (\<forall>q. q \<noteq> 0 \<longrightarrow> q \<noteq> p \<longrightarrow> (\<exists>r'' h''. rotate_px al r' (h'(q \<mapsto> d)) q t (dir_wid dir nx ny) (dir_hei dir nx ny) dir
            = Inr (Some p, r'', h'') \<and> h'' p = Some s))"
proof -
  let ?w = "dir_wid dir nx ny" and ?k = "dir_hei dir nx ny" and ?d = "gather (dir_ix t dir nx ny) s"
  have "nx * ny \<le> int (length s)" using ip(4) by simp
  then obtain p r' h' where *: "rotate_px al r h ip t nx ny dir = Inr (Some p, r', h')" "p = rot_buf r' t" "h' p = Some ?d" "rot_inv t r' h'"
    "finite (dom h')" "\<not> rot_first r'" "rot_nx r' * rot_ny r' = nx * ny"
    using rotate_run [OF al r n ip(1-3)] by blast
  note m = dir_move [OF r(2)]
  note dims = raster_move.dims(1) [OF m, of nx ny] raster_move.dims_pos [OF m n]
  have len: "int (length ?d) = ?w * ?k" using raster_move.length_ix [OF m, of nx ny] n dims(1) by simp
  have "\<exists>r'' h''. rotate_px al r' (h'(q \<mapsto> ?d)) q t ?w ?k dir = Inr (Some p, r'', h'') \<and> h'' p = Some s" if q: "q \<noteq> 0" "q \<noteq> p" for q
  proof -
    have "rot_inv t r' (h'(q \<mapsto> ?d))" "finite (dom (h'(q \<mapsto> ?d)))" "q \<noteq> rot_buf r' t" "(h'(q \<mapsto> ?d)) q = Some ?d"
      using *(2, 4, 5, 6) q by (auto simp: rot_inv_def)
    from rotate_run [OF al(1) this(2, 1) r(2) _ _ q(1) this(4, 3), of ?w ?k] dims len obtain p2 r'' h'' where
      2: "rotate_px al r' (h'(q \<mapsto> ?d)) q t ?w ?k dir = Inr (Some p2, r'', h'')" "h'' p2 = Some (gather (dir_ix t dir ?w ?k) ?d)"
      "\<not> rot_first r' \<and> ?w * ?k = rot_nx r' * rot_ny r' \<longrightarrow> p2 = rot_buf r' t"
      by (metis order_refl)
    have "p2 = p" using 2(3) *(2, 6, 7) dims(1) by simp
    then have "rotate_px al r' (h'(q \<mapsto> ?d)) q t ?w ?k dir = Inr (Some p, r'', h'')" "h'' p = Some (gather (dir_ix t dir ?w ?k) ?d)"
      using 2(1, 2) by simp_all
    moreover have "gather (dir_ix t dir ?w ?k) ?d = s"
      by (rule raster_move.gather_twice [OF m n]) (use ip(4) in simp)
    ultimately show ?thesis by auto
  qed
  then show ?thesis using *(1, 3) by blast
qed

theorem rotate_twice_restores_witness:
  "\<exists>p r' h' d r'' h''. rotate_px next_free rotator_init [1 \<mapsto> [1, 2, 3, 4, 5, 6]] 1 4 3 2 3 = Inr (Some p, r', h') \<and> h' p = Some d
     \<and> rotate_px next_free r' (h'(Suc p \<mapsto> d)) (Suc p) 4 2 3 3 = Inr (Some p, r'', h'') \<and> h'' p = Some [1, 2, 3, 4, 5, 6]"
proof -
  let ?s = "[1, 2, 3, 4, 5, 6] :: int list"
  have g: "good_dir 4 3" "(1 :: nat) \<noteq> rot_buf rotator_init 4" "finite (dom [1 \<mapsto> ?s])"
    by (simp_all add: good_dir_def pixel_type_def rotator_init_def rot_buf_def)
  have d: "dir_wid 3 3 2 = 2" "dir_hei 3 3 2 = 3" by (simp_all add: dir_wid_def dir_hei_def wid_swap_def hei_swap_def)
  obtain p r' h' d where *: "rotate_px next_free rotator_init [1 \<mapsto> ?s] 1 4 3 2 3 = Inr (Some p, r', h')" "h' p = Some d"
    "\<forall>q. q \<noteq> 0 \<longrightarrow> q \<noteq> p \<longrightarrow> (\<exists>r'' h''. rotate_px next_free r' (h'(q \<mapsto> d)) q 4 (dir_wid 3 3 2) (dir_hei 3 3 2) 3
            = Inr (Some p, r'', h'') \<and> h'' p = Some ?s)"
    using rotate_twice_restores [OF next_free_ok g(3) rotator_init_inv g(1), of 3 2 1 ?s] g(2) by auto
  have "Suc p \<noteq> 0" "Suc p \<noteq> p" by simp_all
  then obtain r'' h'' where "rotate_px next_free r' (h'(Suc p \<mapsto> d)) (Suc p) 4 2 3 3 = Inr (Some p, r'', h'')" "h'' p = Some ?s"
    using *(3) unfolding d by blast
  then show ?thesis using *(1, 2) by blast
qed

text \<open>
  the transposition of a raster of \<open>ushort\<close> pixels reads the row after the last one: with an
  input of exactly the raster's size it leaves the array at the first pixel.
\<close>

theorem transpose_ushort_out_of_bounds:
  assumes al: "al_ok al" "finite (dom h)" and r: "rot_inv 2 r h" and n: "0 < nx" "0 < ny"
    and ip: "ip \<noteq> 0" "h ip = Some s" "ip \<noteq> rot_buf r 2" "int (length s) = nx * ny"
  shows "rotate_px al r h ip 2 nx ny 3 = Inl Out_Of_Bounds"
proof -
  have t: "pixel_type 2" by (simp add: pixel_type_def)
  obtain r1 h1 r2 h2 where *: "rot_resize r h 2 nx ny = (r1, h1)" "rot_alloc al r1 h1 2 (nx * ny) = (r2, h2)" "h2 ip = Some s"
    using rot_ready [OF al r t n ip(1-3)] by blast
  have "rev [1..ny] = ny # rev [1..ny - 1]" using n by (simp add: upto_rec2)
  moreover have "[0..nx - 1] = 0 # [1..nx - 1]" using n by (subst upto_rec1) simp_all
  ultimately have "\<exists>rest. transpose1_ix 2 nx ny = (ny * nx) # rest" by (simp add: transpose1_ix_def)
  then obtain rest where "transpose1_ix 2 nx ny = (ny * nx) # rest" by blast
  moreover have "\<not> (0 \<le> ny * nx \<and> ny * nx < int (length s))" using ip(4) by (simp add: mult.commute)
  ultimately have "copy_seq (transpose1_ix 2 nx ny) h2 ip (rot_buf r2 2) = Inl Out_Of_Bounds"
    using copy_seq_fault [of ip h2 s "ny * nx"] ip(1) *(3) by simp
  then show ?thesis using * t by (simp add: rotate_px_def rot_dir_def transpose1_def)
qed

theorem transpose_ushort_out_of_bounds_witness:
  "rotate_px next_free rotator_init [1 \<mapsto> [1, 2, 3, 4]] 1 2 2 2 3 = Inl Out_Of_Bounds"
  using transpose_ushort_out_of_bounds [OF next_free_ok _ rotator_init_inv, of "[1 \<mapsto> [1, 2, 3, 4]]" 2 2 1 "[1, 2, 3, 4]"]
  by (simp add: rotator_init_def rot_buf_def)

text \<open>
  one flag and one size serve the buffers of all three pixel types.  After a raster of long
  pixels the buffer of another type is taken for allocated when the number of pixels is the same:
  a raster of that type is then written through a null pointer.
\<close>

theorem rotate_mixed_types:
  assumes r: "rot_inv 4 r h" "\<not> rot_first r" "nx * ny = rot_nx r * rot_ny r"
    and t: "t = 1 \<or> t = 2" "rot_buf r t = 0" and dir: "good_dir t dir" and n: "0 < nx" "0 < ny"
    and ip: "ip \<noteq> 0" "h ip = Some s" "nx * ny \<le> int (length s)"
  shows "rotate_px al r h ip t nx ny dir = Inl Null_Deref"
proof -
  note m = dir_move [OF dir]
  have l: "int (length (dir_ix t dir nx ny)) = nx * ny" using raster_move.length_ix [OF m, of nx ny] n by simp
  obtain i rest where i: "dir_ix t dir nx ny = i # rest"
    using l n by (cases "dir_ix t dir nx ny") auto
  have "0 \<le> i \<and> i < int (length s)" using raster_move.ix_range [OF m n] i ip(3) by fastforce
  then have "load_px h ip i = Inr (s ! nat i)" using ip by (simp add: load_px_def block_some)
  moreover have "[0..<length (i # rest)] = 0 # [1..<Suc (length rest)]" by (subst upt_conv_Cons) simp_all
  ultimately have "copy_seq (dir_ix t dir nx ny) h ip 0 = Inl Null_Deref"
    by (simp add: i copy_seq_def store_px_def block_def)
  then have "rot_dir h t ip (rot_buf r t) nx ny dir = Inl Null_Deref" using dir t(2)
    by (auto simp: good_dir_def rot_dir_def dir_ix_def flipx_def flipy_def transpose1_def transpose2_def)
  then show ?thesis using r(2, 3) dir by (simp add: rotate_px_def rot_resize_def rot_alloc_def good_dir_def)
qed

theorem rotate_mixed_types_witness:
  "\<exists>p r h. rotate_px next_free rotator_init [1 \<mapsto> [1, 2, 3, 4]] 1 4 2 2 1 = Inr (Some p, r, h)
     \<and> rotate_px next_free r h 1 2 2 2 1 = Inl Null_Deref"
proof -
  have g: "good_dir 4 1" "good_dir 2 1" "rot_buf rotator_init 4 = 0" by (simp_all add: good_dir_def pixel_type_def rotator_init_def rot_buf_def)
  have l: "rot_first rotator_init" "rot_nx rotator_init * rot_ny rotator_init \<noteq> 2 * 2" by (simp_all add: rotator_init_def)
  obtain p r' h' where *: "rotate_px next_free rotator_init [1 \<mapsto> [1, 2, 3, 4]] 1 4 2 2 1 = Inr (Some p, r', h')" "rot_inv 4 r' h'"
    "\<not> rot_first r'" "rot_nx r' * rot_ny r' = 2 * 2" "p \<noteq> 1" "\<forall>q. q \<noteq> p \<longrightarrow> q \<noteq> 0 \<longrightarrow> h' q = [1 \<mapsto> [1, 2, 3, 4]] q"
    using rotate_run [OF next_free_ok _ rotator_init_inv g(1), of "[1 \<mapsto> [1, 2, 3, 4]]" 2 2 1 "[1, 2, 3, 4]"] g(3) by auto
  have "h' 1 = Some [1, 2, 3, 4]" using *(5, 6) by simp
  moreover have "rot_buf r' 2 = 0"
  proof -
    have "r' = fst (rot_alloc next_free (fst (rot_resize rotator_init [1 \<mapsto> [1, 2, 3, 4]] 4 2 2)) (snd (rot_resize rotator_init [1 \<mapsto> [1, 2, 3, 4]] 4 2 2)) 4 4)"
      using *(1) by (simp add: rotate_px_def pixel_type_def bind_res_Inr_iff split: prod.splits)
    then show ?thesis by (simp add: rot_alloc_def rot_resize_def rotator_init_def new_px_def set_rot_buf_def rot_buf_def Let_def)
  qed
  ultimately show ?thesis using * rotate_mixed_types [OF *(2, 3) _ _ _ g(2), of 2 2 1 "[1, 2, 3, 4]"] by auto
qed

end
