(* ===== verification/Raster_Rectify.thy ===== *)
theory Raster_Rectify
  imports Raster_Props
begin

text \<open>
  The rectification of pages: what \<open>smcRectifyPage\<close> of NEWFIRM and of MOSAIC do to the pixels of
  a page, reference and bias columns included.
\<close>

section \<open>Copying rows\<close>

lemma nth_poke:
  "off + length bs \<le> length buf \<Longrightarrow> i < length buf \<Longrightarrow>
     poke off bs buf ! i = (if off \<le> i \<and> i < off + length bs then bs ! (i - off) else buf ! i)"
  by (auto simp: poke_def nth_append)

primrec rows_into :: "nat \<Rightarrow> int \<Rightarrow> int list \<Rightarrow> int \<Rightarrow> int \<Rightarrow> int \<Rightarrow> int list \<Rightarrow> int list" where
  "rows_into 0 k s si so w d = d"
| "rows_into (Suc n) k s si so w d =
     rows_into n (k + 1) s si so w (poke (nat (k * so)) (take (nat w) (drop (nat (k * si)) s)) d)"

lemma row_fits:
  fixes k :: int
  assumes "0 \<le> k" "0 < w" "w \<le> v" "(k + int (Suc n)) * v \<le> l"
  shows "0 \<le> k * v" "k * v + w \<le> l"
proof -
  show "0 \<le> k * v" using assms by simp
  have "(k + 1) * v \<le> (k + int (Suc n)) * v" using assms by (intro mult_right_mono) auto
  then show "k * v + w \<le> l" using assms(3, 4) by (simp add: distrib_right)
qed

lemma length_row:
  assumes "0 \<le> k * si" "k * si + w \<le> int (length s)" "0 < w"
  shows "length (take (nat w) (drop (nat (k * si)) s)) = nat w"
  using assms by (simp add: min_def) linarith

lemma copy_rows_run:
  assumes "ip \<noteq> 0" "op \<noteq> 0" "ip \<noteq> op" "h ip = Some s" "h op = Some d" "0 \<le> k" "0 < w" "w \<le> si" "w \<le> so"
    "(k + int n) * si \<le> int (length s)" "(k + int n) * so \<le> int (length d)"
  shows "copy_rows n k h ip si op so w = Inr (h(op \<mapsto> rows_into n k s si so w d)) \<and> length (rows_into n k s si so w d) = length d"
  using assms(4-)
proof (induction n arbitrary: k h d)
  case 0
  then show ?case by (simp add: fun_upd_idem)
next
  case (Suc n)
  note s = row_fits [OF Suc.prems(3, 4, 5, 7)] and d = row_fits [OF Suc.prems(3, 4, 6, 8)]
  let ?bs = "take (nat w) (drop (nat (k * si)) s)"
  let ?d = "poke (nat (k * so)) ?bs d"
  have l: "length ?bs = nat w" by (rule length_row [OF s Suc.prems(4)])
  then have ld: "length ?d = length d" using d Suc.prems(4) by (intro length_poke) linarith
  have "bcopy_px h ip (k * si) op (k * so) w = Inr (h(op \<mapsto> ?d))"
    using s d Suc.prems(1, 2, 4) assms(1, 2) by (simp add: bcopy_px_def block_some)
  moreover have "copy_rows n (k + 1) (h(op \<mapsto> ?d)) ip si op so w = Inr ((h(op \<mapsto> ?d))(op \<mapsto> rows_into n (k + 1) s si so w ?d))
      \<and> length (rows_into n (k + 1) s si so w ?d) = length ?d"
    using Suc.prems assms(3) ld by (intro Suc.IH) (auto simp: algebra_simps)
  ultimately show ?case using ld by (simp only: copy_rows.simps bind_res_simps fun_upd_upd rows_into.simps simp_thms)
qed

text \<open>Two pixels lie in the same row of a raster when their indices are that close.\<close>

lemma index_row:
  fixes k :: int
  assumes "inside so ny x y" "0 < w" "w \<le> so"
  shows "k * so \<le> y * so + x \<and> y * so + x < k * so + w \<longleftrightarrow> y = k \<and> x < w"
proof (cases y k rule: linorder_cases)
  case less
  then have "(y + 1) * so \<le> k * so" using assms by (intro mult_right_mono) (auto simp: inside_def)
  then show ?thesis using less assms(1) by (auto simp: inside_def distrib_right)
next
  case greater
  then have "(k + 1) * so \<le> y * so" using assms by (intro mult_right_mono) (auto simp: inside_def)
  then show ?thesis using greater assms by (auto simp: inside_def distrib_right)
qed (use assms in \<open>auto simp: inside_def\<close>)

lemma index_bound:
  fixes x :: int
  assumes "inside w ny x y"
  shows "0 \<le> y * w + x" "y * w + x < w * ny"
proof -
  show "0 \<le> y * w + x" using assms by (auto simp: inside_def)
  have "(y + 1) * w \<le> ny * w" using assms by (intro mult_right_mono) (auto simp: inside_def)
  moreover have "(y + 1) * w = y * w + w" by (simp add: distrib_right)
  moreover have "x < w" using assms by (simp add: inside_def)
  ultimately have "y * w + x < ny * w" by linarith
  then show "y * w + x < w * ny" by (simp only: mult.commute)
qed

lemma pixel_rows_into:
  assumes "0 \<le> k" "0 < w" "w \<le> si" "w \<le> so" "(k + int n) * si \<le> int (length s)" "(k + int n) * so \<le> int (length d)"
    "inside so ny x y" "so * ny \<le> int (length d)"
  shows "pixel (rows_into n k s si so w d) so x y = (if k \<le> y \<and> y < k + int n \<and> x < w then pixel s si x y else pixel d so x y)"
  using assms(1, 5, 6, 8)
proof (induction n arbitrary: k d)
  case (Suc n)
  note s = row_fits [OF Suc.prems(1) assms(2, 3) Suc.prems(2)] and d = row_fits [OF Suc.prems(1) assms(2, 4) Suc.prems(3)]
  let ?bs = "take (nat w) (drop (nat (k * si)) s)"
  let ?d = "poke (nat (k * so)) ?bs d"
  have l: "length ?bs = nat w" by (rule length_row [OF s assms(2)])
  have fit: "nat (k * so) + length ?bs \<le> length d" using l d assms(2) by linarith
  have ld: "length ?d = length d" by (rule length_poke [OF fit])
  note b = index_bound [OF assms(7)]
  have i: "nat (y * so + x) < length d" using b Suc.prems(4) by linarith
  have "pixel ?d so x y = (if y = k \<and> x < w then pixel s si x y else pixel d so x y)"
  proof (cases "y = k \<and> x < w")
    case True
    then have "nat (y * so + x) = nat (k * so) + nat x" "nat x < length ?bs"
      using l assms(2, 7) d(1) by (auto simp: inside_def nat_add_distrib)
    then have "pixel ?d so x y = ?bs ! nat x" using nth_poke [OF fit i] by (simp add: pixel_def)
    also have "\<dots> = s ! (nat (k * si) + nat x)"
    proof -
      have "nat (k * si) \<le> length s" "nat x < nat w" using s assms(2, 7) True by (linarith, simp add: inside_def)
      then show ?thesis by simp
    qed
    also have "nat (k * si) + nat x = nat (y * si + x)" using True assms(7) s by (auto simp: inside_def nat_add_distrib)
    finally show ?thesis using True by (simp add: pixel_def)
  next
    case False
    then have "\<not> (k * so \<le> y * so + x \<and> y * so + x < k * so + w)" using index_row [OF assms(7, 2, 4), of k] by blast
    then have "\<not> (nat (k * so) \<le> nat (y * so + x) \<and> nat (y * so + x) < nat (k * so) + length ?bs)"
      using l assms(2) d b by linarith
    then have "pixel ?d so x y = pixel d so x y" using nth_poke [OF fit i] by (simp only: pixel_def if_False)
    then show ?thesis using False by (simp only: if_False)
  qed
  moreover have "pixel (rows_into n (k + 1) s si so w ?d) so x y = (if k + 1 \<le> y \<and> y < (k + 1) + int n \<and> x < w then pixel s si x y else pixel ?d so x y)"
    using Suc.prems ld by (intro Suc.IH) (auto simp: algebra_simps)
  ultimately show ?case by auto
qed auto

section \<open>NEWFIRM\<close>

definition rec_inv :: "rectifier \<Rightarrow> store \<Rightarrow> bool" where
  "rec_inv c h \<longleftrightarrow> (if rec_first c then dpix_buf c = 0
     else dpix_buf c \<noteq> 0 \<and> (\<exists>b. h (dpix_buf c) = Some b \<and> int (length b) = rec_nx c * rec_ny c))"

lemma rec_buffer_run:
  assumes al: "al_ok al" "finite (dom h)" and c: "rec_inv c h" and n: "0 < nx" "0 < ny"
    and p: "p \<noteq> 0" "h p = Some s" "p \<noteq> dpix_buf c"
  shows "\<exists>c' h' d. rec_buffer al c h nx ny = (c', h') \<and> dpix_buf c' \<noteq> 0 \<and> dpix_buf c' \<noteq> p \<and> h' (dpix_buf c') = Some d
     \<and> int (length d) = nx * ny \<and> h' p = Some s \<and> rec_inv c' h' \<and> \<not> rec_first c' \<and> rec_nx c' * rec_ny c' = nx * ny \<and> finite (dom h')
     \<and> (\<forall>q. q \<noteq> dpix_buf c' \<longrightarrow> q \<noteq> dpix_buf c \<longrightarrow> h' q = h q) \<and> (dpix_buf c' = dpix_buf c \<or> h (dpix_buf c') = None)"
proof (cases "nx * ny = rec_nx c * rec_ny c \<and> \<not> rec_first c")
  case True
  then show ?thesis using assms by (auto simp: rec_buffer_def rec_inv_def)
next
  case False
  define c1 h1 where "c1 = (if nx * ny \<noteq> rec_nx c * rec_ny c then c\<lparr>rec_nx := nx, rec_ny := ny, rec_first := True\<rparr> else c)"
    and "h1 = (if nx * ny \<noteq> rec_nx c * rec_ny c then free_px h (dpix_buf c) else h)"
  have 1: "rec_first c1" "rec_nx c1 * rec_ny c1 = nx * ny" using False by (auto simp: c1_def)
  have h1: "h1 p = Some s" "finite (dom h1)" "\<forall>q. q \<noteq> dpix_buf c \<longrightarrow> h1 q = h q"
    using p al(2) by (auto simp: h1_def free_px_def)
  let ?p = "al h1 (nx * ny)"
  have q: "?p \<noteq> 0" "h1 ?p = None" using al(1) h1(2) by (auto simp: al_ok_def)
  have "?p \<noteq> p" using q(2) h1(1) by auto
  moreover have "rec_buffer al c h nx ny = (c1\<lparr>dpix_buf := ?p, rec_first := False\<rparr>, h1(?p \<mapsto> replicate (nat (nx * ny)) 0))"
  proof -
    have "(if nx * ny \<noteq> rec_nx c * rec_ny c
            then (c\<lparr>rec_nx := nx, rec_ny := ny, rec_first := True\<rparr>, free_px h (dpix_buf c)) else (c, h)) = (c1, h1)"
      by (simp add: c1_def h1_def)
    then show ?thesis using 1(1) q(1) unfolding rec_buffer_def by (simp only:) (simp add: new_px_def Let_def)
  qed
  moreover have "int (length (replicate (nat (nx * ny)) 0)) = nx * ny" using n by simp
  moreover have "?p = dpix_buf c \<or> h ?p = None" using q(2) h1(3) by metis
  ultimately show ?thesis using 1 h1 q p(3)
    by (intro exI [of _ "c1\<lparr>dpix_buf := ?p, rec_first := False\<rparr>"] exI [of _ "h1(?p \<mapsto> replicate (nat (nx * ny)) 0)"]
        exI [of _ "replicate (nat (nx * ny)) 0"]) (auto simp: rec_inv_def)
qed

lemma transform_run:
  assumes al: "al_ok al" "finite (dom h)" and r: "rot_inv 4 r h" "good_dir 4 dir" and n: "0 < w" "0 < ny"
    and p: "p \<noteq> 0" "h p = Some s" "p \<noteq> rot_buf r 4" "w * ny \<le> int (length s)"
  shows "\<exists>a r' h' b. transform_px al r h p w ny dir = Inr (a, r', h') \<and> a \<noteq> 0 \<and> a \<noteq> p \<and> a = rot_buf r' 4
     \<and> h' a = Some (gather (dir_ix 4 dir w ny) s) \<and> h' p = Some b \<and> length b = length s \<and> rot_inv 4 r' h' \<and> finite (dom h')
     \<and> (\<forall>q. q \<noteq> p \<longrightarrow> q \<noteq> a \<longrightarrow> q \<noteq> rot_buf r 4 \<longrightarrow> h' q = h q) \<and> (a = rot_buf r 4 \<or> h a = None)"
proof -
  have d: "0 < dir" "\<bar>dir\<bar> = dir" using r(2) by (auto simp: good_dir_def)
  let ?g = "gather (dir_ix 4 dir w ny) s"
  obtain a r' h' where *: "rotate_px al r h p 4 w ny dir = Inr (Some a, r', h')" "a = rot_buf r' 4" "a \<noteq> 0" "a \<noteq> p" "h' a = Some ?g"
    "rot_inv 4 r' h'" "finite (dom h')" "\<forall>q. q \<noteq> a \<longrightarrow> q \<noteq> rot_buf r 4 \<longrightarrow> h' q = h q" "a = rot_buf r 4 \<or> h a = None"
    using rotate_run [OF al r n p] by blast
  have hp: "h' p = Some s" using *(4, 8) p(2, 3) by metis
  have l: "int (length ?g) = w * ny" using raster_move.length_ix [OF dir_move [OF r(2)], of w ny] n by simp
  let ?b = "poke 0 (take (nat (w * ny)) ?g) s"
  have "0 < w * ny" using n by simp
  then have "bcopy_px h' a 0 p 0 (w * ny) = Inr (h'(p \<mapsto> ?b))"
    using *(3, 5) hp p(1, 4) l n by (simp add: bcopy_px_def block_some)
  then have "transform_px al r h p w ny dir = Inr (a, r', h'(p \<mapsto> ?b))" using *(1) d by (simp add: transform_px_def)
  moreover have "length ?b = length s" using l p(4) by (intro length_poke) simp
  moreover have "rot_inv 4 r' (h'(p \<mapsto> ?b))" using *(2, 4, 6) by (auto simp: rot_inv_def)
  ultimately show ?thesis using * by (intro exI [of _ a] exI [of _ r'] exI [of _ "h'(p \<mapsto> ?b)"] exI [of _ ?b]) auto
qed

lemma rectify_run:
  assumes al: "al_ok al" "finite (dom h)" and c: "rec_inv c h" and r: "rot_inv 4 r h" "bufl r \<noteq> dpix_buf c \<or> bufl r = 0"
    and p: "pix \<noteq> 0" "h pix = Some s" "pix \<noteq> dpix_buf c" "pix \<noteq> bufl r"
    and n: "nx = sint (xSize fp)" "ny = sint (ySize fp)" "w = nx - REFERENCE_WIDTH" "0 < w" "0 < ny" "int (length s) = nx * ny"
    and d: "dir = rectifyDir l en (sint (xStart fp)) (sint (yStart fp))" "good_dir 4 dir" "en \<noteq> 0"
  shows "\<exists>c' r' h' b. smcRectifyPage al l en c r h fp pix = Inr (c', r', h') \<and> h' pix = Some b \<and> length b = length s
     \<and> (\<forall>x y. inside nx ny x y \<longrightarrow> pixel b nx x y = (if x < w then
          (let i = y * w + x; v = dir_wid dir w ny in pixel s nx (fst (dir_src dir w ny (i mod v) (i div v))) (snd (dir_src dir w ny (i mod v) (i div v))))
          else pixel s nx x y))
     \<and> rec_inv c' h' \<and> rot_inv 4 r' h' \<and> (\<forall>q. q \<notin> {pix, dpix_buf c, dpix_buf c', bufl r, bufl r'} \<longrightarrow> h' q = h q)"
proof -
  have nx: "0 < nx" "w < nx" using n(3, 4) by (simp_all add: REFERENCE_WIDTH_def)
  have bl: "rot_buf r 4 = bufl r" for r by (simp add: rot_buf_def)
  have dir: "0 < dir" using d(2) by (auto simp: good_dir_def)
  obtain c1 h1 d0 where c1: "rec_buffer al c h nx ny = (c1, h1)" "dpix_buf c1 \<noteq> 0" "dpix_buf c1 \<noteq> pix" "h1 (dpix_buf c1) = Some d0"
    "int (length d0) = nx * ny" "h1 pix = Some s" "rec_inv c1 h1" "\<not> rec_first c1" "rec_nx c1 * rec_ny c1 = nx * ny" "finite (dom h1)"
    "\<forall>q. q \<noteq> dpix_buf c1 \<longrightarrow> q \<noteq> dpix_buf c \<longrightarrow> h1 q = h q" "dpix_buf c1 = dpix_buf c \<or> h (dpix_buf c1) = None"
    using rec_buffer_run [OF al c nx(1) n(5) p(1-3)] by blast
  let ?q = "dpix_buf c1"
  have qb: "?q \<noteq> bufl r"
    using c1(2, 12) r by (auto simp: rot_inv_def bl split: if_splits)
  have "h1 (bufl r) = h (bufl r)" if "bufl r \<noteq> 0" using c1(11) qb r(2) that by metis
  then have ri: "rot_inv 4 r h1" using r(1) by (auto simp: rot_inv_def bl split: if_splits)
  have wle: "w * ny \<le> nx * ny" using nx(2) n(5) by simp
  have bounds: "(0 + int (nat ny)) * nx \<le> int (length s)" "(0 + int (nat ny)) * w \<le> int (length d0)"
    using n(5, 6) c1(5) wle by (simp_all add: mult.commute)
  let ?s2 = "rows_into (nat ny) 0 s nx w w d0"
  have s2: "copy_rows (nat ny) 0 h1 pix nx ?q w w = Inr (h1(?q \<mapsto> ?s2))" "length ?s2 = length d0"
    using copy_rows_run [OF p(1) c1(2) c1(3) [symmetric] c1(6, 4) _ n(4) _ _ bounds] nx(2) by simp_all
  have "finite (dom (h1(?q \<mapsto> ?s2)))" "rot_inv 4 r (h1(?q \<mapsto> ?s2))" "(h1(?q \<mapsto> ?s2)) ?q = Some ?s2" "?q \<noteq> rot_buf r 4" "w * ny \<le> int (length ?s2)"
    using c1(5, 10) ri qb s2(2) wle by (auto simp: rot_inv_def bl)
  from transform_run [OF al(1) this(1, 2) d(2) n(4, 5) c1(2) this(3-5)]
  obtain a r2 h2 b2 where t: "transform_px al r (h1(?q \<mapsto> ?s2)) ?q w ny dir = Inr (a, r2, h2)" "a \<noteq> 0" "a \<noteq> ?q" "a = rot_buf r2 4"
     "h2 a = Some (gather (dir_ix 4 dir w ny) ?s2)" "h2 ?q = Some b2" "length b2 = length ?s2" "rot_inv 4 r2 h2" "finite (dom h2)"
     "\<forall>q. q \<noteq> ?q \<longrightarrow> q \<noteq> a \<longrightarrow> q \<noteq> rot_buf r 4 \<longrightarrow> h2 q = (h1(?q \<mapsto> ?s2)) q" "a = rot_buf r 4 \<or> (h1(?q \<mapsto> ?s2)) a = None"
    by blast
  let ?g = "gather (dir_ix 4 dir w ny) ?s2"
  have ap: "a \<noteq> pix" using t(11) c1(3, 6) p(4) bl by auto
  have hp: "h2 pix = Some s" using t(10) ap c1(3, 6) p(4) bl by auto
  note m = dir_move [OF d(2)]
  have lg: "int (length ?g) = w * ny" using raster_move.length_ix [OF m, of w ny] n(4, 5) by simp
  have bounds2: "(0 + int (nat ny)) * w \<le> int (length ?g)" "(0 + int (nat ny)) * nx \<le> int (length s)"
    using lg n(5, 6) by (simp_all add: mult.commute)
  let ?b = "rows_into (nat ny) 0 ?g w nx w s"
  have b: "copy_rows (nat ny) 0 h2 a w pix nx w = Inr (h2(pix \<mapsto> ?b))" "length ?b = length s"
    using copy_rows_run [OF t(2) p(1) ap t(5) hp _ n(4) _ _ bounds2] nx(2) by simp_all
  have run: "smcRectifyPage al l en c r h fp pix = Inr (c1, r2, h2(pix \<mapsto> ?b))"
    using d(1, 3) dir c1(1) s2(1) t(1) b(1) unfolding smcRectifyPage_def n(1) [symmetric] n(2) [symmetric]
    by (simp add: Let_def n(3))
  have pix: "pixel ?b nx x y = (if x < w then (let i = y * w + x; v = dir_wid dir w ny in
      pixel s nx (fst (dir_src dir w ny (i mod v) (i div v))) (snd (dir_src dir w ny (i mod v) (i div v)))) else pixel s nx x y)"
    if ins: "inside nx ny x y" for x y
  proof -
    have b': "pixel ?b nx x y = (if x < w then pixel ?g w x y else pixel s nx x y)"
      using pixel_rows_into [OF _ n(4) _ _ bounds2 ins] nx(2) n(6) ins by (auto simp: inside_def)
    show ?thesis
    proof (cases "x < w")
      case True
      let ?i = "y * w + x" and ?v = "dir_wid dir w ny" and ?k = "dir_hei dir w ny"
      have "inside w ny x y" using ins True by (simp add: inside_def)
      note ib = index_bound [OF this]
      have vk: "0 < ?v" "?v * ?k = w * ny" using raster_move.dims_pos [OF m n(4, 5)] raster_move.dims(1) [OF m] by auto
      note sp = index_split [OF ib(1) _ vk(1), of ?k, unfolded vk(2), OF ib(2)]
      have ins2: "inside ?v ?k (?i mod ?v) (?i div ?v)" using sp(1-4) by (simp only: inside_def simp_thms)
      have "pixel ?g w x y = pixel ?g ?v (?i mod ?v) (?i div ?v)" by (simp only: pixel_def sp(5) [symmetric])
      also have "\<dots> = pixel ?s2 w (fst (dir_src dir w ny (?i mod ?v) (?i div ?v))) (snd (dir_src dir w ny (?i mod ?v) (?i div ?v)))"
        by (rule raster_move.gather_pixel [OF m ins2 n(4, 5)])
      also have "\<dots> = pixel s nx (fst (dir_src dir w ny (?i mod ?v) (?i div ?v))) (snd (dir_src dir w ny (?i mod ?v) (?i div ?v)))"
        using pixel_rows_into [OF _ n(4) _ _ bounds raster_move.src_inside [OF m ins2]] raster_move.src_inside [OF m ins2] nx(2) c1(5) wle
        by (auto simp: inside_def)
      finally show ?thesis using b' True by (simp add: Let_def)
    qed (use b' in simp)
  qed
  have "rec_inv c1 (h2(pix \<mapsto> ?b))" using c1(2, 3, 5, 8, 9) t(6, 7) s2(2) by (simp add: rec_inv_def)
  moreover have "rot_inv 4 r2 (h2(pix \<mapsto> ?b))" using t(4, 8) ap by (auto simp: rot_inv_def)
  moreover have "\<forall>q. q \<notin> {pix, dpix_buf c, ?q, bufl r, bufl r2} \<longrightarrow> (h2(pix \<mapsto> ?b)) q = h q"
    using t(4, 10) c1(11) bl by auto
  ultimately show ?thesis using run b(2) pix
    by (intro exI [of _ c1] exI [of _ r2] exI [of _ "h2(pix \<mapsto> ?b)"] exI [of _ ?b]) simp
qed

section \<open>MOSAIC\<close>

lemma reverse_px_run:
  "p \<noteq> 0 \<Longrightarrow> h p = Some b \<Longrightarrow> 0 \<le> i \<Longrightarrow> j < int (length b) \<Longrightarrow>
     \<exists>b'. reverse_px h p i j = Inr (h(p \<mapsto> b')) \<and> length b' = length b
       \<and> (\<forall>k. 0 \<le> k \<longrightarrow> k < int (length b) \<longrightarrow> b' ! nat k = (if i \<le> k \<and> k \<le> j then b ! nat (i + j - k) else b ! nat k))"
proof (induction h p i j arbitrary: b rule: reverse_px.induct)
  case (1 h p i j)
  show ?case
  proof (cases "i < j")
    case False
    then have "reverse_px h p i j = Inr (h(p \<mapsto> b))" using "1.prems" by (simp add: reverse_px.simps fun_upd_idem)
    moreover have "\<forall>k. 0 \<le> k \<longrightarrow> k < int (length b) \<longrightarrow> b ! nat k = (if i \<le> k \<and> k \<le> j then b ! nat (i + j - k) else b ! nat k)"
    proof (intro allI impI)
      fix k
      have "i + j - k = k" if "i \<le> k \<and> k \<le> j" using that False by linarith
      then show "b ! nat k = (if i \<le> k \<and> k \<le> j then b ! nat (i + j - k) else b ! nat k)" by simp
    qed
    ultimately show ?thesis by blast
  next
    case True
    let ?b1 = "b[nat i := b ! nat j]" and ?b2 = "b[nat i := b ! nat j, nat j := b ! nat i]"
    have ld: "load_px h p i = Inr (b ! nat i)" "load_px h p j = Inr (b ! nat j)"
      using "1.prems" True by (simp_all add: load_px_def block_some)
    have st: "store_px h p i (b ! nat j) = Inr (h(p \<mapsto> ?b1))" "store_px (h(p \<mapsto> ?b1)) p j (b ! nat i) = Inr (h(p \<mapsto> ?b2))"
      using "1.prems" True by (simp_all add: store_px_def block_some)
    have step: "reverse_px h p i j = reverse_px (h(p \<mapsto> ?b2)) p (i + 1) (j - 1)"
      using True by (subst reverse_px.simps) (simp add: ld st)
    obtain b' where b': "reverse_px (h(p \<mapsto> ?b2)) p (i + 1) (j - 1) = Inr ((h(p \<mapsto> ?b2))(p \<mapsto> b'))" "length b' = length ?b2"
      "\<forall>k. 0 \<le> k \<longrightarrow> k < int (length ?b2) \<longrightarrow> b' ! nat k = (if i + 1 \<le> k \<and> k \<le> j - 1 then ?b2 ! nat ((i + 1) + (j - 1) - k) else ?b2 ! nat k)"
      using "1.IH" [OF True "1.prems"(1), of "h(p \<mapsto> ?b2)" ?b2] "1.prems"(3, 4)
      by (auto simp del: fun_upd_apply simp: fun_upd_same)
    have "b' ! nat k = (if i \<le> k \<and> k \<le> j then b ! nat (i + j - k) else b ! nat k)" if k: "0 \<le> k" "k < int (length b)" for k
    proof -
      have "b' ! nat k = (if i + 1 \<le> k \<and> k \<le> j - 1 then ?b2 ! nat (i + j - k) else ?b2 ! nat k)" using b'(3) k by auto
      moreover have "?b2 ! nat m = (if m = j then b ! nat i else if m = i then b ! nat j else b ! nat m)" if "0 \<le> m" "m < int (length b)" for m
        using that True "1.prems"(3, 4) by (auto simp: nth_list_update nat_eq_iff2)
      ultimately show ?thesis using True "1.prems"(3, 4) k by auto
    qed
    then show ?thesis using step b'(1, 2) by (auto simp del: fun_upd_apply)
  qed
qed

text \<open>The pixels of a line: data first, bias region last.\<close>

definition shift_col :: "int \<Rightarrow> int \<Rightarrow> int" where
  "shift_col nx x = (if x < nx - BIAS then x + BIAS else x - (nx - BIAS))"

definition shifted_row :: "int list \<Rightarrow> int \<Rightarrow> int \<Rightarrow> int list" where
  "shifted_row s nx y = map (\<lambda>x. pixel s nx (shift_col nx x) y) [0..nx - 1]"

lemma put_all_other: "k \<notin> (\<lambda>a. nat (snd a)) ` set ps \<Longrightarrow> put_all ps s d ! k = d ! k"
  unfolding put_all_def by (induction ps arbitrary: d) auto

lemma put_all_at:
  "distinct (map (\<lambda>a. nat (snd a)) ps) \<Longrightarrow> a \<in> set ps \<Longrightarrow> nat (snd a) < length d \<Longrightarrow> put_all ps s d ! nat (snd a) = s ! nat (fst a)"
proof (induction ps arbitrary: d)
  case (Cons c ps)
  have eq: "put_all (c # ps) s d = put_all ps s (d[nat (snd c) := s ! nat (fst c)])" by (simp add: put_all_def)
  show ?case
  proof (cases "a \<in> set ps")
    case True
    then show ?thesis using Cons.IH [of "d[nat (snd c) := s ! nat (fst c)]"] Cons.prems eq by simp
  next
    case False
    then have "a = c" using Cons.prems(2) by simp
    moreover have "nat (snd c) \<notin> (\<lambda>a. nat (snd a)) ` set ps" using Cons.prems(1) by (auto simp: image_iff)
    ultimately show ?thesis using put_all_other [of "nat (snd c)" ps s "d[nat (snd c) := s ! nat (fst c)]"] Cons.prems(3) eq by simp
  qed
qed simp

lemma line_pairs_snd:
  assumes "BIAS \<le> nx"
  shows "map (\<lambda>a. nat (snd a)) (line_pairs b nx) = map nat [0..nx - 1]"
proof -
  have "map (\<lambda>j. j - BIAS) [BIAS..nx - 1] = [0..nx - BIAS - 1]"
    by (rule nth_equalityI) (auto simp: nth_upto)
  moreover have "map (\<lambda>j. nx - BIAS + j) [0..BIAS - 1] = [nx - BIAS..nx - 1]"
    by (rule nth_equalityI) (auto simp: nth_upto)
  moreover have "max 0 (nx - BIAS) = nx - BIAS" using assms by simp
  ultimately have "map snd (line_pairs b nx) = [0..nx - BIAS - 1] @ [nx - BIAS..nx - 1]" by (simp add: line_pairs_def o_def)
  also have "\<dots> = [0..nx - 1]"
    using upto_split1 [of 0 "nx - BIAS" "nx - 1"] assms by (simp add: BIAS_def)
  finally have "map snd (line_pairs b nx) = [0..nx - 1]" .
  moreover have "map (\<lambda>a. nat (snd a)) (line_pairs b nx) = map nat (map snd (line_pairs b nx))" by simp
  ultimately show ?thesis by (simp only:)
qed

lemma line_pairs_in:
  assumes "BIAS \<le> nx" "0 \<le> x" "x < nx"
  shows "(b + shift_col nx x, x) \<in> set (line_pairs b nx)"
proof (cases "x < nx - BIAS")
  case True
  then have "(b + (x + BIAS), (x + BIAS) - BIAS) \<in> (\<lambda>j. (b + j, j - BIAS)) ` {BIAS..nx - 1}" using assms by (intro imageI) auto
  then show ?thesis using True by (simp add: line_pairs_def shift_col_def)
next
  case False
  let ?j = "x - (nx - BIAS)"
  have "(b + ?j, max 0 (nx - BIAS) + ?j) \<in> (\<lambda>j. (b + j, max 0 (nx - BIAS) + j)) ` {0..BIAS - 1}" using False assms by (intro imageI) auto
  moreover have "max 0 (nx - BIAS) + ?j = x" using assms(1) by simp
  ultimately show ?thesis using False by (simp add: line_pairs_def shift_col_def)
qed

lemma line_pairs_range:
  assumes "BIAS \<le> nx" "a \<in> set (line_pairs b nx)"
  shows "b \<le> fst a" "fst a < b + nx" "0 \<le> snd a" "snd a < nx"
  using assms by (auto simp: line_pairs_def BIAS_def)

lemma shift_row_step:
  assumes p: "pix \<noteq> 0" "lpix \<noteq> 0" "pix \<noteq> lpix" and h: "h pix = Some s" "h lpix = Some m" and nx: "BIAS \<le> nx" "int (length m) = nx"
    and k: "0 \<le> k" "k < ny" "int (length s) = nx * ny"
  shows "\<exists>m' s'. copy_px (line_pairs (k * nx) nx) h pix lpix = Inr (h(lpix \<mapsto> m'))
     \<and> copy_px (map (\<lambda>i. (i, k * nx + i)) [0..nx - 1]) (h(lpix \<mapsto> m')) lpix pix = Inr (h(lpix \<mapsto> m', pix \<mapsto> s'))
     \<and> length m' = length m \<and> length s' = length s
     \<and> (\<forall>x y. inside nx ny x y \<longrightarrow> pixel s' nx x y = pixel s nx (if y = k then shift_col nx x else x) y)"
proof -
  let ?ps = "line_pairs (k * nx) nx" and ?qs = "map (\<lambda>i. (i, k * nx + i)) [0..nx - 1]"
  have nx0: "0 < nx" using nx(1) by (simp add: BIAS_def)
  have "(k + 1) * nx \<le> ny * nx" using k nx0 by (intro mult_right_mono) auto
  then have row: "0 \<le> k * nx" "k * nx + nx \<le> int (length s)" using k nx0 by (simp_all add: algebra_simps)
  let ?m = "put_all ?ps s m"
  have ra: "\<forall>a \<in> set ?ps. 0 \<le> fst a \<and> fst a < int (length s) \<and> 0 \<le> snd a \<and> snd a < int (length m)"
    using line_pairs_range [OF nx(1)] row nx(2) by fastforce
  have 1: "copy_px ?ps h pix lpix = Inr (h(lpix \<mapsto> ?m))" by (rule copy_px_run [OF p(1, 2, 3) h ra])
  have line: "?m ! nat x = s ! nat (k * nx + shift_col nx x)" if "0 \<le> x" "x < nx" for x
  proof -
    have "distinct (map (\<lambda>a. nat (snd a)) ?ps)" unfolding line_pairs_snd [OF nx(1)] by (auto simp: distinct_map inj_on_def)
    from put_all_at [OF this line_pairs_in [OF nx(1) that, of "k * nx"], of m s] that nx(2) show ?thesis by simp
  qed
  let ?h1 = "h(lpix \<mapsto> ?m)" and ?s = "put_all ?qs ?m s"
  have rb: "\<forall>a \<in> set ?qs. 0 \<le> fst a \<and> fst a < int (length ?m) \<and> 0 \<le> snd a \<and> snd a < int (length s)"
    using row nx(2) by auto
  have 2: "copy_px ?qs ?h1 lpix pix = Inr (?h1(pix \<mapsto> ?s))"
    using p h by (intro copy_px_run [OF p(2, 1) _ _ _ rb]) auto
  have snds: "map (\<lambda>a. nat (snd a)) ?qs = map (\<lambda>i. nat (k * nx + i)) [0..nx - 1]" by simp
  have pix: "pixel ?s nx x y = pixel s nx (if y = k then shift_col nx x else x) y" if ins: "inside nx ny x y" for x y
  proof (cases "y = k")
    case True
    have x: "0 \<le> x" "x < nx" using ins by (simp_all add: inside_def)
    have "distinct (map (\<lambda>a. nat (snd a)) ?qs)" unfolding snds using row by (auto simp: distinct_map inj_on_def)
    moreover have "(x, k * nx + x) \<in> set ?qs" using x by auto
    ultimately have "?s ! nat (k * nx + x) = ?m ! nat x" using put_all_at [of ?qs "(x, k * nx + x)" s ?m] row x by simp
    then show ?thesis using line [OF x] True by (simp add: pixel_def)
  next
    case False
    have "nat (y * nx + x) \<notin> (\<lambda>a. nat (snd a)) ` set ?qs"
    proof
      assume "nat (y * nx + x) \<in> (\<lambda>a. nat (snd a)) ` set ?qs"
      then obtain i where "0 \<le> i" "i < nx" "nat (y * nx + x) = nat (k * nx + i)" by auto
      then have "k * nx \<le> y * nx + x \<and> y * nx + x < k * nx + nx" using row index_bound [OF ins] by (auto simp: nat_eq_iff)
      then show False using index_row [OF ins nx0 order_refl, of k] False by simp
    qed
    then show ?thesis using put_all_other [of "nat (y * nx + x)" ?qs ?m s] False by (simp add: pixel_def)
  qed
  show ?thesis by (rule exI [of _ ?m], rule exI [of _ ?s]) (use 1 2 pix in simp)
qed

lemma shift_rows_run:
  assumes p: "pix \<noteq> 0" "lpix \<noteq> 0" "pix \<noteq> lpix" and h: "h pix = Some s" "h lpix = Some m" and nx: "BIAS \<le> nx" "int (length m) = nx"
    and k: "0 \<le> k" "k + int n \<le> ny" "int (length s) = nx * ny"
  shows "\<exists>m' s'. shift_rows n k h pix lpix nx = Inr (h(lpix \<mapsto> m', pix \<mapsto> s')) \<and> length s' = length s \<and> length m' = length m
     \<and> (\<forall>x y. inside nx ny x y \<longrightarrow> pixel s' nx x y = pixel s nx (if k \<le> y \<and> y < k + int n then shift_col nx x else x) y)"
  using h nx(2) k
proof (induction n arbitrary: k h s m)
  case 0
  show ?case by (rule exI [of _ m], rule exI [of _ s]) (use 0 p in \<open>auto simp: fun_upd_idem\<close>)
next
  case (Suc n)
  have kn: "k < ny" using Suc.prems(5) by simp
  obtain m1 s1 where 1: "copy_px (line_pairs (k * nx) nx) h pix lpix = Inr (h(lpix \<mapsto> m1))"
     "copy_px (map (\<lambda>i. (i, k * nx + i)) [0..nx - 1]) (h(lpix \<mapsto> m1)) lpix pix = Inr (h(lpix \<mapsto> m1, pix \<mapsto> s1))"
     "length m1 = length m" "length s1 = length s"
     "\<forall>x y. inside nx ny x y \<longrightarrow> pixel s1 nx x y = pixel s nx (if y = k then shift_col nx x else x) y"
    using shift_row_step [OF p Suc.prems(1, 2) nx(1) Suc.prems(3, 4) kn Suc.prems(6)] by blast
  let ?h = "h(lpix \<mapsto> m1, pix \<mapsto> s1)"
  have "?h pix = Some s1" "?h lpix = Some m1" "int (length m1) = nx" "0 \<le> k + 1" "(k + 1) + int n \<le> ny" "int (length s1) = nx * ny"
    using Suc.prems 1(3, 4) p(3) by auto
  from Suc.IH [OF this] obtain m2 s2 where 2: "shift_rows n (k + 1) ?h pix lpix nx = Inr (?h(lpix \<mapsto> m2, pix \<mapsto> s2))" "length s2 = length s1" "length m2 = length m1"
     "\<forall>x y. inside nx ny x y \<longrightarrow> pixel s2 nx x y = pixel s1 nx (if k + 1 \<le> y \<and> y < (k + 1) + int n then shift_col nx x else x) y"
    by blast
  have eq: "?h(lpix \<mapsto> m2, pix \<mapsto> s2) = h(lpix \<mapsto> m2, pix \<mapsto> s2)" using p(3) by auto
  have "shift_rows (Suc n) k h pix lpix nx = Inr (h(lpix \<mapsto> m2, pix \<mapsto> s2))"
    by (simp only: shift_rows.simps 1(1, 2) 2(1) bind_res_simps eq)
  moreover have "length s2 = length s" "length m2 = length m" using 1(3, 4) 2(2, 3) by simp_all
  moreover have "pixel s2 nx x y = pixel s nx (if k \<le> y \<and> y < k + int (Suc n) then shift_col nx x else x) y" if ins: "inside nx ny x y" for x y
  proof -
    have sc: "inside nx ny (shift_col nx x) y" using ins nx(1) by (auto simp: inside_def shift_col_def BIAS_def)
    show ?thesis using 2(4) 1(5) ins sc by auto
  qed
  ultimately show ?case by blast
qed

lemma free_px_other: "q \<noteq> p \<Longrightarrow> free_px h p q = h q"
  by (simp add: free_px_def)

text \<open>The invariant of the line buffer; its length is that of the rows it was made for.\<close>

definition line_inv :: "rectifier \<Rightarrow> store \<Rightarrow> int \<Rightarrow> bool" where
  "line_inv c h nx \<longleftrightarrow> \<not> rec_first c \<longrightarrow> lpix_buf c \<noteq> 0 \<and> (\<exists>m. h (lpix_buf c) = Some m \<and> int (length m) = nx)"

lemma rec_buffers_run:
  assumes al: "al_ok al" "finite (dom h)" and c: "nx * ny = rec_nx c * rec_ny c \<longrightarrow> line_inv c h nx" and n: "0 < nx" "0 < ny"
    and p: "p \<noteq> 0" "h p = Some s" "p \<noteq> dpix_buf c" "p \<noteq> lpix_buf c"
  shows "\<exists>c' h' m. rec_buffers al c h nx ny = (c', h') \<and> lpix_buf c' \<noteq> 0 \<and> lpix_buf c' \<noteq> p \<and> h' (lpix_buf c') = Some m
     \<and> int (length m) = nx \<and> h' p = Some s \<and> (\<forall>q. q \<notin> {dpix_buf c, lpix_buf c, dpix_buf c', lpix_buf c'} \<longrightarrow> h' q = h q)"
proof (cases "nx * ny = rec_nx c * rec_ny c \<and> \<not> rec_first c")
  case True
  then show ?thesis using assms by (auto simp: rec_buffers_def line_inv_def)
next
  case False
  define c1 h1 where "c1 = (if nx * ny \<noteq> rec_nx c * rec_ny c then c\<lparr>rec_nx := nx, rec_ny := ny, rec_first := True\<rparr> else c)"
    and "h1 = (if nx * ny \<noteq> rec_nx c * rec_ny c then free_px (free_px h (dpix_buf c)) (lpix_buf c) else h)"
  have 1: "rec_first c1" using False by (auto simp: c1_def)
  have h1: "h1 p = Some s" "finite (dom h1)" "\<forall>q. q \<noteq> dpix_buf c \<longrightarrow> q \<noteq> lpix_buf c \<longrightarrow> h1 q = h q"
    using p al(2) by (auto simp: h1_def free_px_def)
  let ?p = "al h1 (nx * ny)"
  let ?h2 = "h1(?p \<mapsto> replicate (nat (nx * ny)) 0)"
  let ?q = "al ?h2 nx"
  have f2: "finite (dom ?h2)" using h1(2) by simp
  have a: "?p \<noteq> 0" "h1 ?p = None" "?q \<noteq> 0" "?h2 ?q = None" using al(1) h1(2) f2 unfolding al_ok_def by blast+
  have pp: "?p \<noteq> p" using a(2) h1(1) by auto
  then have qp: "?q \<noteq> p" "?q \<noteq> ?p" using a(4) h1(1) by (auto split: if_splits)
  have eq: "(if nx * ny \<noteq> rec_nx c * rec_ny c
            then (c\<lparr>rec_nx := nx, rec_ny := ny, rec_first := True\<rparr>, free_px (free_px h (dpix_buf c)) (lpix_buf c)) else (c, h)) = (c1, h1)"
    by (simp add: c1_def h1_def)
  have n1: "new_px al h1 (nx * ny) = (?p, ?h2)" using a(1) by (simp add: new_px_def Let_def)
  have n2: "new_px al ?h2 nx = (?q, ?h2(?q \<mapsto> replicate (nat nx) 0))" using a(3) by (simp add: new_px_def Let_def)
  have "rec_buffers al c h nx ny = (c1\<lparr>dpix_buf := ?p, lpix_buf := ?q, rec_first := False\<rparr>, ?h2(?q \<mapsto> replicate (nat nx) 0))"
    unfolding rec_buffers_def eq by (simp only: Let_def prod.case 1 if_True n1 n2)
  then show ?thesis using a(3) qp pp h1 n(1)
    by (intro exI [of _ "c1\<lparr>dpix_buf := ?p, lpix_buf := ?q, rec_first := False\<rparr>"] exI [of _ "?h2(?q \<mapsto> replicate (nat nx) 0)"]
        exI [of _ "replicate (nat nx) 0"]) auto
qed

section \<open>Properties\<close>

text \<open>
  C21: in the layouts with a positive direction \<open>smcRectifyPage\<close> of NEWFIRM brings the columns of a
  page but the last 32 (\<open>REFERENCE_WIDTH\<close> of \<open>rectify.c\<close>) into that orientation, pixel by pixel,
  and leaves the last 32 columns and the memory of others alone.  For a transposition this holds
  when that area is square.  The display code (\<open>rtd.c\<close>, \<open>smcProcess.c\<close>) takes the last 64 columns
  for reference columns: the first 32 of those are moved like data.
\<close>

theorem smcRectifyPage_orients:
  assumes al: "al_ok al" "finite (dom h)" and c: "rec_inv c h" and r: "rot_inv 4 r h" "bufl r \<noteq> dpix_buf c \<or> bufl r = 0"
    and p: "pix \<noteq> 0" "h pix = Some s" "pix \<noteq> dpix_buf c" "pix \<noteq> bufl r"
    and n: "nx = sint (xSize fp)" "ny = sint (ySize fp)" "w = nx - REFERENCE_WIDTH" "0 < w" "0 < ny" "int (length s) = nx * ny"
    and d: "dir = rectifyDir l en (sint (xStart fp)) (sint (yStart fp))" "good_dir 4 dir" "en \<noteq> 0" "dir = 1 \<or> dir = 2 \<or> w = ny"
  shows "\<exists>c' r' h' b. smcRectifyPage al l en c r h fp pix = Inr (c', r', h') \<and> h' pix = Some b \<and> length b = length s
     \<and> (\<forall>x y. inside nx ny x y \<longrightarrow> pixel b nx x y = (if x < w then pixel s nx (fst (dir_src dir w ny x y)) (snd (dir_src dir w ny x y))
          else pixel s nx x y))
     \<and> rec_inv c' h' \<and> rot_inv 4 r' h' \<and> (\<forall>q. q \<notin> {pix, dpix_buf c, dpix_buf c', bufl r, bufl r'} \<longrightarrow> h' q = h q)"
proof -
  have v: "dir_wid dir w ny = w" using d(4) by (auto simp: dir_wid_def wid_same_def wid_swap_def)
  have i: "(y * w + x) mod w = x" "(y * w + x) div w = y" if "0 \<le> x" "x < w" for x y :: int using that by simp_all
  obtain c' r' h' b where *: "smcRectifyPage al l en c r h fp pix = Inr (c', r', h')" "h' pix = Some b" "length b = length s"
     "\<forall>x y. inside nx ny x y \<longrightarrow> pixel b nx x y = (if x < w then
          (let i = y * w + x; v = dir_wid dir w ny in pixel s nx (fst (dir_src dir w ny (i mod v) (i div v))) (snd (dir_src dir w ny (i mod v) (i div v))))
          else pixel s nx x y)"
     "rec_inv c' h'" "rot_inv 4 r' h'" "\<forall>q. q \<notin> {pix, dpix_buf c, dpix_buf c', bufl r, bufl r'} \<longrightarrow> h' q = h q"
    using rectify_run [OF al c r p n d(1-3)] by blast
  have "\<forall>x y. inside nx ny x y \<longrightarrow> pixel b nx x y = (if x < w then pixel s nx (fst (dir_src dir w ny x y)) (snd (dir_src dir w ny x y))
          else pixel s nx x y)"
    using *(4) i by (simp add: v Let_def inside_def)
  then show ?thesis using * by blast
qed

definition fp0 :: fpConfig where
  "fp0 = \<lparr>xSize = 34, ySize = 2, xStart = 1, yStart = 0, fp_dataType = 0, xDir = 0, yDir = 0, xDetSz = 0, yDetSz = 0, xDetCnt = 0, yDetCnt = 0\<rparr>"

definition ramp :: "nat \<Rightarrow> int list" where
  "ramp n = map int [0..<n]"

lemma ramp: "length (ramp n) = n" "k < n \<Longrightarrow> ramp n ! k = int k"
  by (simp_all add: ramp_def)

definition rectifier_init :: rectifier where
  "rectifier_init = \<lparr>rec_first = True, rec_nx = 0, rec_ny = 0, dpix_buf = 0, lpix_buf = 0\<rparr>"

theorem smcRectifyPage_orients_witness:
  "\<exists>c' r' h' b. smcRectifyPage next_free KPNO_Fall07 1 rectifier_init rotator_init [1 \<mapsto> ramp 68] fp0 1 = Inr (c', r', h')
     \<and> h' 1 = Some b \<and> pixel b 34 0 0 = 35 \<and> pixel b 34 33 1 = 67"
proof -
  let ?s = "ramp 68" and ?h = "[1 \<mapsto> ramp 68]"
  have i: "finite (dom ?h)" "rec_inv rectifier_init ?h" "rot_inv 4 rotator_init ?h"
    "bufl rotator_init \<noteq> dpix_buf rectifier_init \<or> bufl rotator_init = 0"
    "(1 :: nat) \<noteq> 0" "?h 1 = Some ?s" "1 \<noteq> dpix_buf rectifier_init" "1 \<noteq> bufl rotator_init"
    by (simp_all add: rec_inv_def rectifier_init_def rotator_init_def rotator_init_inv [unfolded rotator_init_def])
  have n: "34 = sint (xSize fp0)" "2 = sint (ySize fp0)" "2 = 34 - REFERENCE_WIDTH" "(0 :: int) < 2" "(0 :: int) < 2" "int (length ?s) = 34 * 2"
    by (simp_all add: fp0_def REFERENCE_WIDTH_def ramp)
  have d: "4 = rectifyDir KPNO_Fall07 1 (sint (xStart fp0)) (sint (yStart fp0))" "good_dir 4 4" "(1 :: int) \<noteq> 0" "(4 :: int) = 1 \<or> (4 :: int) = 2 \<or> (2 :: int) = 2"
    by (simp_all add: rectifyDir_def raster_dir_def fp0_def good_dir_def pixel_type_def)
  obtain c' r' h' b where *: "smcRectifyPage next_free KPNO_Fall07 1 rectifier_init rotator_init ?h fp0 1 = Inr (c', r', h')" "h' 1 = Some b"
    "\<forall>x y. inside 34 2 x y \<longrightarrow> pixel b 34 x y = (if x < 2 then pixel ?s 34 (fst (dir_src 4 2 2 x y)) (snd (dir_src 4 2 2 x y)) else pixel ?s 34 x y)"
    using smcRectifyPage_orients [OF next_free_ok i n d] by blast
  have "inside 34 2 0 0" "inside 34 2 33 1" "dir_src 4 2 2 0 0 = (1, 1)"
    by (simp_all add: inside_def dir_src_def src_transpose2_def)
  then have "pixel b 34 0 0 = pixel ?s 34 1 1" "pixel b 34 33 1 = pixel ?s 34 33 1" using *(3) by fastforce+
  then show ?thesis using *(1, 2) by (simp add: pixel_def ramp)
qed

lemma rec_buffer_other:
  "q \<noteq> dpix_buf c \<Longrightarrow> q \<noteq> dpix_buf (fst (rec_buffer al c h nx ny)) \<Longrightarrow> snd (rec_buffer al c h nx ny) q = h q"
  unfolding rec_buffer_def by (cases "nx * ny \<noteq> rec_nx c * rec_ny c"; cases "rec_first c") (simp_all add: new_px_def Let_def free_px_def)

text \<open>
  C34: in the standard layouts of both sites no page is ever rectified: their directions are
  negative, which stands for a flip in x after the rotation, and a negative direction is taken
  for "nothing to do".
\<close>

theorem smcRectifyPage_standard_layout:
  assumes "l = KPNO \<or> l = CTIO" and "pix \<noteq> dpix_buf c" and "pix \<noteq> dpix_buf (fst (rec_buffer al c h (sint (xSize fp)) (sint (ySize fp))))"
  shows "\<exists>c' h'. smcRectifyPage al l en c r h fp pix = Inr (c', r, h') \<and> h' pix = h pix"
proof -
  let ?c = "fst (rec_buffer al c h (sint (xSize fp)) (sint (ySize fp)))" and ?h = "snd (rec_buffer al c h (sint (xSize fp)) (sint (ySize fp)))"
  have "rectifyDir l en xs ys < 0" for xs ys using assms(1) by (auto simp: rectifyDir_def raster_dir_def Let_def)
  then have "smcRectifyPage al l en c r h fp pix = (if en = 0 then Inr (c, r, h) else Inr (?c, r, ?h))"
    by (simp add: smcRectifyPage_def Let_def split_beta)
  moreover have "?h pix = h pix" by (rule rec_buffer_other [OF assms(2, 3)])
  ultimately show ?thesis by auto
qed

theorem smcRectifyPage_standard_layout_witness:
  "\<exists>c' h'. smcRectifyPage next_free CTIO 1 rectifier_init rotator_init [1 \<mapsto> ramp 68] fp0 1 = Inr (c', rotator_init, h')
     \<and> h' 1 = Some (ramp 68)"
proof -
  let ?h = "[1 \<mapsto> ramp 68]"
  obtain c' h' where "rec_buffer next_free rectifier_init ?h (sint (xSize fp0)) (sint (ySize fp0)) = (c', h')" "dpix_buf c' \<noteq> 1"
    using rec_buffer_run [OF next_free_ok, of ?h rectifier_init "sint (xSize fp0)" "sint (ySize fp0)" 1]
    by (auto simp: rec_inv_def rectifier_init_def fp0_def)
  then show ?thesis using smcRectifyPage_standard_layout [of CTIO 1 rectifier_init next_free ?h fp0 1 rotator_init]
    by (simp add: rectifier_init_def)
qed

text \<open>
  C22: \<open>smcRectifyPage\<close> of MOSAIC turns a page of an upper detector by 180 degrees and moves the bias
  columns, which the turn has brought to the left, back to the right of every row.  The page must
  be at least as wide as the bias region.
\<close>

theorem smcRectifyPage_mosaic_turns:
  assumes al: "al_ok al" "finite (dom h)" and n: "nx = sint (xSize fp)" "ny = sint (ySize fp)" "BIAS \<le> nx" "0 < ny"
    and c: "nx * ny = rec_nx c * rec_ny c \<longrightarrow> line_inv c h nx"
    and p: "pix \<noteq> 0" "h pix = Some s" "pix \<noteq> dpix_buf c" "pix \<noteq> lpix_buf c" "int (length s) = nx * ny"
    and en: "en \<noteq> 0" "sint (yStart fp) \<noteq> 0"
  shows "\<exists>c' h' b. smcRectifyPage_mosaic al en c h fp pix = Inr (c', h') \<and> h' pix = Some b \<and> length b = length s
     \<and> (\<forall>x y. inside nx ny x y \<longrightarrow> pixel b nx x y = pixel s nx (nx - 1 - shift_col nx x) (ny - 1 - y))"
proof -
  have nx: "0 < nx" using n(3) by (simp add: BIAS_def)
  obtain c1 h1 m where 1: "rec_buffers al c h nx ny = (c1, h1)" "lpix_buf c1 \<noteq> 0" "lpix_buf c1 \<noteq> pix" "h1 (lpix_buf c1) = Some m"
     "int (length m) = nx" "h1 pix = Some s"
    using rec_buffers_run [OF al c nx n(4) p(1-4)] by blast
  obtain s1 where s1: "reverse_px h1 pix 0 (nx * ny - 1) = Inr (h1(pix \<mapsto> s1))" "length s1 = length s"
    "\<forall>k. 0 \<le> k \<longrightarrow> k < int (length s) \<longrightarrow> s1 ! nat k = (if 0 \<le> k \<and> k \<le> nx * ny - 1 then s ! nat (0 + (nx * ny - 1) - k) else s ! nat k)"
    using reverse_px_run [of pix h1 s 0 "nx * ny - 1"] p(1, 5) 1(6) by auto
  let ?h1 = "h1(pix \<mapsto> s1)"
  have "?h1 pix = Some s1" "?h1 (lpix_buf c1) = Some m" "0 + int (nat ny) \<le> ny" "int (length s1) = nx * ny"
    using 1(3, 4) n(4) s1(2) p(5) by simp_all
  from shift_rows_run [OF p(1) 1(2) 1(3) [symmetric] this(1, 2) n(3) 1(5) order_refl this(3, 4)]
  obtain m' s' where s': "shift_rows (nat ny) 0 ?h1 pix (lpix_buf c1) nx = Inr (?h1(lpix_buf c1 \<mapsto> m', pix \<mapsto> s'))" "length s' = length s1"
    "\<forall>x y. inside nx ny x y \<longrightarrow> pixel s' nx x y = pixel s1 nx (if 0 \<le> y \<and> y < 0 + int (nat ny) then shift_col nx x else x) y"
    by blast
  have "smcRectifyPage_mosaic al en c h fp pix = Inr (c1, ?h1(lpix_buf c1 \<mapsto> m', pix \<mapsto> s'))"
    using en 1(1) s1(1) s'(1) by (simp add: smcRectifyPage_mosaic_def Let_def del: fun_upd_apply flip: n(1, 2))
  moreover have "pixel s' nx x y = pixel s nx (nx - 1 - shift_col nx x) (ny - 1 - y)" if ins: "inside nx ny x y" for x y
  proof -
    let ?x = "shift_col nx x"
    have ix: "inside nx ny ?x y" using ins n(3) by (auto simp: inside_def shift_col_def BIAS_def)
    note b = index_bound [OF ix]
    have "pixel s' nx x y = pixel s1 nx ?x y" using s'(3) ins by (auto simp: inside_def)
    also have "\<dots> = s ! nat (nx * ny - 1 - (y * nx + ?x))" using s1(3) b p(5) by (simp add: pixel_def)
    also have "nx * ny - 1 - (y * nx + ?x) = (ny - 1 - y) * nx + (nx - 1 - ?x)" by (simp add: algebra_simps)
    finally show ?thesis by (simp add: pixel_def)
  qed
  ultimately show ?thesis using s1(2) s'(2) by (intro exI [of _ c1] exI [of _ "?h1(lpix_buf c1 \<mapsto> m', pix \<mapsto> s')"] exI [of _ s']) simp
qed

definition fp1 :: fpConfig where
  "fp1 = fp0\<lparr>xSize := 102, ySize := 2, yStart := 1\<rparr>"

theorem smcRectifyPage_mosaic_turns_witness:
  "\<exists>c' h' b. smcRectifyPage_mosaic next_free 1 rectifier_init [1 \<mapsto> ramp 204] fp1 1 = Inr (c', h')
     \<and> h' 1 = Some b \<and> pixel b 102 0 0 = 103"
proof -
  let ?s = "ramp 204" and ?h = "[1 \<mapsto> ramp 204]"
  have n: "finite (dom ?h)" "102 = sint (xSize fp1)" "2 = sint (ySize fp1)" "BIAS \<le> 102" "(0 :: int) < 2"
    "102 * 2 = rec_nx rectifier_init * rec_ny rectifier_init \<longrightarrow> line_inv rectifier_init ?h 102"
    by (simp_all add: fp1_def fp0_def BIAS_def rectifier_init_def)
  have p: "(1 :: nat) \<noteq> 0" "?h 1 = Some ?s" "1 \<noteq> dpix_buf rectifier_init" "1 \<noteq> lpix_buf rectifier_init" "int (length ?s) = 102 * 2"
    "(1 :: int) \<noteq> 0" "sint (yStart fp1) \<noteq> 0"
    by (simp_all add: fp1_def rectifier_init_def ramp)
  obtain c' h' b where *: "smcRectifyPage_mosaic next_free 1 rectifier_init ?h fp1 1 = Inr (c', h')" "h' 1 = Some b"
    "\<forall>x y. inside 102 2 x y \<longrightarrow> pixel b 102 x y = pixel ?s 102 (102 - 1 - shift_col 102 x) (2 - 1 - y)"
    using smcRectifyPage_mosaic_turns [OF next_free_ok n p] by blast
  have "inside 102 2 0 0" "shift_col 102 0 = 100" by (simp_all add: inside_def shift_col_def BIAS_def)
  then have "pixel b 102 0 0 = pixel (ramp 204) 102 1 1" using *(3) by fastforce
  then show ?thesis using *(1, 2) by (simp add: pixel_def ramp)
qed

end
