(* ===== verification/Mb_Handle.thy ===== *)
theory Mb_Handle
  imports Dhs_Prelude
begin

text \<open>
  The input handlers of the message bus, \<open>lib/mbus/mbHandle.c\<close>: a table of file descriptors with
  the function to call when one of them has input, and the two loops that wait for input and call
  the functions.

  \<^item> \<open>MBus\<close> is the part of the bus descriptor that the handlers are in.  A function is its
    address (0 is NULL); what it does is the parameter \<open>callf\<close>, which may change the table and
    the state \<open>'s\<close> of the program.
  \<^item> \<open>select\<close> is the parameter \<open>sel\<close>: the number of descriptors that are ready, or a negative
    number, and the set of them.  The debugging output is left out.
\<close>

section \<open>The table\<close>

definition MAX_HANDLERS :: nat where "MAX_HANDLERS = 16"
definition FD_SETSIZE :: int where "FD_SETSIZE = 1024"

record mbHandler =
  hd_fd :: int
  hd_func :: nat
  hd_data :: nat

record MBus =
  nhandlers :: nat
  handlers :: "mbHandler list"

definition zero_handler :: mbHandler where
  "zero_handler = \<lparr>hd_fd = 0, hd_func = 0, hd_data = 0\<rparr>"

definition mbusAddInputHandler :: "MBus option \<Rightarrow> int \<Rightarrow> nat \<Rightarrow> nat \<Rightarrow> int \<times> MBus option" where
  "mbusAddInputHandler mbus fd handler client_data =
     (case mbus of None \<Rightarrow> (-1, None)
      | Some m \<Rightarrow>
        if nhandlers m = MAX_HANDLERS then (-1, Some m)
        else (0, Some (m\<lparr>nhandlers := nhandlers m + 1,
               handlers := (handlers m)[nhandlers m := \<lparr>hd_fd = fd, hd_func = handler, hd_data = client_data\<rparr>]\<rparr>)))"

text \<open>The elements from \<open>j + 1\<close> on move down by one; the index of the last place moved to.\<close>

function shift_down :: "mbHandler list \<Rightarrow> nat \<Rightarrow> nat \<Rightarrow> mbHandler list \<times> nat" where
  "shift_down hs j n = (if j < n - 1 then shift_down (hs[j := hs ! (j + 1)]) (j + 1) n else (hs, j))"
  by pat_completeness auto
termination by (relation "measure (\<lambda>(hs, j, n). n - j)") auto

declare shift_down.simps [simp del]

text \<open>Removing the handler at \<open>i\<close>; \<open>n\<close> is the number of handlers at the start.\<close>

definition remove_at :: "MBus \<Rightarrow> nat \<Rightarrow> nat \<Rightarrow> MBus" where
  "remove_at m i n =
     (let (hs, j) = (if i = n - 1 then (handlers m, i) else shift_down (handlers m) (i + 1) n)
      in m\<lparr>handlers := hs[j := zero_handler], nhandlers := nhandlers m - 1\<rparr>)"

text \<open>The scan goes up to the number of handlers that there were.\<close>

primrec remove_scan :: "nat \<Rightarrow> nat \<Rightarrow> int \<Rightarrow> nat \<Rightarrow> MBus \<Rightarrow> MBus" where
  "remove_scan 0 i fd n m = m"
| "remove_scan (Suc k) i fd n m = remove_scan k (i + 1) fd n (if hd_fd (handlers m ! i) = fd then remove_at m i n else m)"

definition mbusRemoveInputHandler :: "MBus option \<Rightarrow> int \<Rightarrow> int \<times> MBus option" where
  "mbusRemoveInputHandler mbus fd =
     (case mbus of None \<Rightarrow> (-1, None)
      | Some m \<Rightarrow> (0, Some (remove_scan (nhandlers m) 0 fd (nhandlers m) m)))"

section \<open>Private procedures\<close>

definition mbInputSet :: "MBus \<Rightarrow> int set res" where
  "mbInputSet m = (if list_all (\<lambda>h. 0 \<le> hd_fd h \<and> hd_fd h < FD_SETSIZE) (take (nhandlers m) (handlers m))
     then Inr (set (map hd_fd (take (nhandlers m) (handlers m)))) else Inl Out_Of_Bounds)"

definition mbGetMBusFD :: "int list \<Rightarrow> int" where
  "mbGetMBusFD pvm_fds = (if pvm_fds = [] then -1 else hd pvm_fds)"

definition mbGetNHandlers :: "MBus \<Rightarrow> nat" where
  "mbGetNHandlers m = nhandlers m"

definition mbGetHandlerFD :: "MBus \<Rightarrow> nat \<Rightarrow> int res" where
  "mbGetHandlerFD m i = (if i < length (handlers m) then Inr (hd_fd (handlers m ! i)) else Inl Out_Of_Bounds)"

type_synonym 's callf = "nat \<Rightarrow> int \<Rightarrow> nat \<Rightarrow> MBus \<times> 's \<Rightarrow> int \<times> MBus \<times> 's"

definition mbCallHandler :: "'s callf \<Rightarrow> MBus \<Rightarrow> 's \<Rightarrow> nat \<Rightarrow> (int \<times> MBus \<times> 's) res" where
  "mbCallHandler callf m s i =
     (if i < length (handlers m)
      then let h = handlers m ! i in
        if hd_func h = 0 then Inl Null_Deref else Inr (callf (hd_func h) (hd_fd h) (hd_data h) (m, s))
      else Inl Out_Of_Bounds)"

section \<open>Waiting for input\<close>

text \<open>The loop over the handlers: each whose descriptor is ready is called.\<close>

primrec dispatch :: "'s callf \<Rightarrow> int set \<Rightarrow> nat \<Rightarrow> nat \<Rightarrow> MBus \<Rightarrow> 's \<Rightarrow> (MBus \<times> 's) res" where
  "dispatch callf ready 0 i m s = Inr (m, s)"
| "dispatch callf ready (Suc k) i m s =
     bind_res (mbGetHandlerFD m i) (\<lambda>fd.
     if fd < 0 \<or> fd \<ge> FD_SETSIZE then Inl Out_Of_Bounds
     else if fd \<in> ready
     then bind_res (mbCallHandler callf m s i) (\<lambda>(stat, m, s). dispatch callf ready k (i + 1) m s)
     else dispatch callf ready k (i + 1) m s)"

text \<open>The timeout in seconds and microseconds.\<close>

definition select_time :: "int \<Rightarrow> int \<times> int" where
  "select_time timeout =
     (let timeout = (if timeout < 0 then 0 else timeout) in
      if timeout \<ge> 1000 then (timeout div 1000, (timeout - timeout div 1000) * 1000) else (0, timeout * 1000))"

definition mbusInputHandler ::
    "(int set \<Rightarrow> (int \<times> int) option \<Rightarrow> 's \<Rightarrow> int \<times> int set) \<Rightarrow> 's callf \<Rightarrow> MBus \<Rightarrow> 's \<Rightarrow> int \<Rightarrow> (int \<times> MBus \<times> 's) res" where
  "mbusInputHandler sel callf m s timeout =
     bind_res (mbInputSet m) (\<lambda>allset.
       let nfd = mbGetNHandlers m; (nselect, ready) = sel allset (Some (select_time timeout)) s in
       if nselect > 0 then bind_res (dispatch callf ready nfd 0 m s) (\<lambda>(m, s). Inr (nselect, m, s))
       else Inr (nselect, m, s))"

text \<open>\<open>n\<close> rounds of the main loop, which has no end of its own.\<close>

primrec mbusAppMainLoop ::
    "nat \<Rightarrow> (int set \<Rightarrow> (int \<times> int) option \<Rightarrow> 's \<Rightarrow> int \<times> int set) \<Rightarrow> 's callf \<Rightarrow> MBus \<Rightarrow> 's \<Rightarrow> (MBus \<times> 's) res" where
  "mbusAppMainLoop 0 sel callf m s = Inr (m, s)"
| "mbusAppMainLoop (Suc n) sel callf m s =
     bind_res (mbInputSet m) (\<lambda>allset.
       let nfd = mbGetNHandlers m; (k, ready) = sel allset None s in
       bind_res (if k > 0 then dispatch callf ready nfd 0 m s else Inr (m, s)) (\<lambda>(m, s). mbusAppMainLoop n sel callf m s))"

section \<open>The handlers in the table\<close>

definition live :: "MBus \<Rightarrow> mbHandler list" where
  "live m = take (nhandlers m) (handlers m)"

text \<open>The places after the handlers are clear.\<close>

definition bus_ok :: "MBus \<Rightarrow> bool" where
  "bus_ok m \<longleftrightarrow> length (handlers m) = MAX_HANDLERS \<and> nhandlers m \<le> MAX_HANDLERS
     \<and> drop (nhandlers m) (handlers m) = replicate (MAX_HANDLERS - nhandlers m) zero_handler"

lemma bus_okD:
  assumes "bus_ok m"
  shows "length (live m) = nhandlers m" "nhandlers m \<le> MAX_HANDLERS" "length (handlers m) = MAX_HANDLERS"
    "handlers m = live m @ replicate (MAX_HANDLERS - nhandlers m) zero_handler"
proof -
  show "length (live m) = nhandlers m" "nhandlers m \<le> MAX_HANDLERS" "length (handlers m) = MAX_HANDLERS"
    using assms by (simp_all add: bus_ok_def live_def)
  show "handlers m = live m @ replicate (MAX_HANDLERS - nhandlers m) zero_handler"
    using assms unfolding bus_ok_def live_def by (metis append_take_drop_id)
qed

lemma bus_okI:
  "length hs \<le> MAX_HANDLERS \<Longrightarrow> m = m0\<lparr>nhandlers := length hs, handlers := hs @ replicate (MAX_HANDLERS - length hs) zero_handler\<rparr>
     \<Longrightarrow> bus_ok m \<and> live m = hs"
  by (simp add: bus_ok_def live_def)

lemma shift_down_run:
  assumes "j < n" "n \<le> length hs"
  shows "shift_down hs j n = (take j hs @ drop (Suc j) (take n hs) @ drop (n - 1) hs, n - 1)"
  using assms
proof (induction hs j n rule: shift_down.induct)
  case (1 hs j n)
  show ?case
  proof (cases "j < n - 1")
    case True
    let ?hs = "hs[j := hs ! (j + 1)]"
    have "shift_down hs j n = (take (j + 1) ?hs @ drop (Suc (j + 1)) (take n ?hs) @ drop (n - 1) ?hs, n - 1)"
      using "1.IH" [OF True] "1.prems" True by (subst shift_down.simps) simp
    moreover have "take (j + 1) ?hs = take j hs @ [hs ! (j + 1)]" using "1.prems" by (simp add: take_Suc_conv_app_nth)
    moreover have "drop (Suc (j + 1)) (take n ?hs) = drop (Suc (j + 1)) (take n hs)" by (simp add: drop_take drop_update_cancel)
    moreover have "drop (n - 1) ?hs = drop (n - 1) hs" using True by simp
    moreover have "drop (Suc j) (take n hs) = hs ! (j + 1) # drop (Suc (j + 1)) (take n hs)"
      using Cons_nth_drop_Suc [of "Suc j" "take n hs"] True "1.prems" by simp
    ultimately show ?thesis by simp
  next
    case False
    then have j: "j = n - 1" using "1.prems" by simp
    moreover have "drop (Suc (n - 1)) (take n hs) = []" using "1.prems" by simp
    ultimately show ?thesis using False by (subst shift_down.simps) simp
  qed
qed

lemma remove_scan_append: "remove_scan (a + b) i fd n m = remove_scan b (i + a) fd n (remove_scan a i fd n m)"
  by (induction a arbitrary: i m) simp_all

lemma remove_scan_none: "\<forall>k. i \<le> k \<and> k < i + c \<longrightarrow> hd_fd (handlers m ! k) \<noteq> fd \<Longrightarrow> remove_scan c i fd n m = m"
proof (induction c arbitrary: i)
  case (Suc c)
  have "hd_fd (handlers m ! i) \<noteq> fd" using Suc.prems by simp
  moreover have "remove_scan c (i + 1) fd n m = m" using Suc.prems by (intro Suc.IH) simp
  ultimately show ?case by simp
qed simp

text \<open>What the scan does when the first match is at \<open>length as\<close>.\<close>

lemma remove_scan_first:
  assumes ok: "bus_ok m" and l: "live m = as @ h # bs" and fd: "hd_fd h = fd" "fd \<notin> hd_fd ` set as"
  shows "remove_scan (nhandlers m) 0 fd (nhandlers m) m
     = remove_scan (length bs) (length as + 1) fd (nhandlers m) (remove_at m (length as) (nhandlers m))"
proof -
  have n: "nhandlers m = length as + Suc (length bs)" using bus_okD(1) [OF ok] l by simp
  have hs: "handlers m = (as @ h # bs) @ replicate (MAX_HANDLERS - nhandlers m) zero_handler" using bus_okD(4) [OF ok] l by simp
  have "remove_scan (length as) 0 fd (nhandlers m) m = m"
    using fd(2) by (intro remove_scan_none) (auto simp: hs nth_append)
  moreover have "handlers m ! length as = h" by (simp add: hs nth_append)
  ultimately show ?thesis using fd(1) remove_scan_append [of "length as" "Suc (length bs)" 0 fd "nhandlers m" m] n by simp
qed

lemma remove_at_run:
  assumes ok: "bus_ok m" and l: "live m = as @ h # bs"
  shows "bus_ok (remove_at m (length as) (nhandlers m))
     \<and> live (remove_at m (length as) (nhandlers m)) = (if bs = [] then as else as @ h # tl bs)"
proof -
  let ?Z = "replicate (MAX_HANDLERS - nhandlers m) zero_handler"
  have n: "nhandlers m = length as + Suc (length bs)" using bus_okD(1) [OF ok] l by simp
  have hs: "handlers m = (as @ h # bs) @ ?Z" using bus_okD(4) [OF ok] l by simp
  have nm: "nhandlers m \<le> MAX_HANDLERS" by (rule bus_okD(2) [OF ok])
  have z: "zero_handler # ?Z = replicate (MAX_HANDLERS - (nhandlers m - 1)) zero_handler"
  proof -
    have "MAX_HANDLERS - (nhandlers m - 1) = Suc (MAX_HANDLERS - nhandlers m)" using nm n by linarith
    then show ?thesis by simp
  qed
  show ?thesis
  proof (cases "bs = []")
    case True
    then have "remove_at m (length as) (nhandlers m) = m\<lparr>nhandlers := length as, handlers := as @ zero_handler # ?Z\<rparr>"
      using n hs by (simp add: remove_at_def list_update_append)
    then show ?thesis using z n True nm by (intro bus_okI [of as, THEN conj_forward]) auto
  next
    case False
    then obtain b bs' where bs: "bs = b # bs'" by (cases bs) auto
    let ?j = "Suc (length as)"
    have j: "?j < nhandlers m" "nhandlers m \<le> length (handlers m)" using n bs bus_okD(2, 3) [OF ok] by simp_all
    have d: "drop (nhandlers m - 1) (handlers m) = last (b # bs') # ?Z"
    proof -
      have "as @ h # bs = (as @ h # butlast (b # bs')) @ [last (b # bs')]" by (simp add: bs)
      then have "handlers m = (as @ h # butlast (b # bs')) @ last (b # bs') # ?Z" using hs by simp
      moreover have "length (as @ h # butlast (b # bs')) = nhandlers m - 1" using n bs by simp
      ultimately show ?thesis by (metis append_eq_conv_conj)
    qed
    have "shift_down (handlers m) ?j (nhandlers m) = (as @ h # bs' @ last (b # bs') # ?Z, nhandlers m - 1)"
      using shift_down_run [OF j] d hs n bs by simp
    moreover have "length as \<noteq> nhandlers m - 1" using n bs by simp
    moreover have "(as @ h # bs' @ last (b # bs') # ?Z)[nhandlers m - 1 := zero_handler] = as @ h # bs' @ zero_handler # ?Z"
      using n bs by (simp add: list_update_append)
    ultimately have "remove_at m (length as) (nhandlers m) = m\<lparr>nhandlers := nhandlers m - 1, handlers := (as @ h # bs') @ zero_handler # ?Z\<rparr>"
      by (simp add: remove_at_def)
    then show ?thesis using z n bs nm by (intro bus_okI [of "as @ h # bs'", THEN conj_forward]) auto
  qed
qed

text \<open>A function that leaves the table alone: \<open>eff\<close> is what it does to the state of the program.\<close>

definition keeps_table :: "'s callf \<Rightarrow> (mbHandler \<Rightarrow> 's \<Rightarrow> 's) \<Rightarrow> bool" where
  "keeps_table callf eff \<longleftrightarrow> (\<forall>h m s. snd (callf (hd_func h) (hd_fd h) (hd_data h) (m, s)) = (m, eff h s))"

definition callable :: "mbHandler \<Rightarrow> bool" where
  "callable h \<longleftrightarrow> hd_func h \<noteq> 0 \<and> 0 \<le> hd_fd h \<and> hd_fd h < FD_SETSIZE"

lemma dispatch_run:
  assumes "keeps_table callf eff" "live m = as @ bs" "list_all callable bs" "bus_ok m"
  shows "dispatch callf ready (length bs) (length as) m s = Inr (m, fold eff (filter (\<lambda>h. hd_fd h \<in> ready) bs) s)"
  using assms(2, 3)
proof (induction bs arbitrary: as s)
  case (Cons h bs)
  obtain Z where hs: "handlers m = (as @ h # bs) @ Z" using bus_okD(4) [OF assms(4)] Cons.prems(1) by metis
  then have "handlers m ! length as = h" "length as < length (handlers m)" by (simp_all add: nth_append)
  moreover have c: "hd_func h \<noteq> 0" "0 \<le> hd_fd h" "hd_fd h < FD_SETSIZE" using Cons.prems(2) by (simp_all add: callable_def)
  moreover obtain st where "callf (hd_func h) (hd_fd h) (hd_data h) (m, s) = (st, m, eff h s)"
    using assms(1) by (cases "callf (hd_func h) (hd_fd h) (hd_data h) (m, s)") (metis keeps_table_def snd_conv)
  moreover have "dispatch callf ready (length bs) (length as + 1) m s' = Inr (m, fold eff (filter (\<lambda>h. hd_fd h \<in> ready) bs) s')" for s'
    using Cons.IH [of "as @ [h]"] Cons.prems by simp
  ultimately show ?case by (simp add: mbGetHandlerFD_def mbCallHandler_def Let_def)
qed simp

lemma mbInputSet_run:
  assumes "bus_ok m" "list_all callable (live m)"
  shows "mbInputSet m = Inr (hd_fd ` set (live m))"
  using assms(2) by (auto simp: mbInputSet_def live_def callable_def list_all_iff)

text \<open>What one wait for input does to the state of the program.\<close>

definition wait_round ::
    "(int set \<Rightarrow> (int \<times> int) option \<Rightarrow> 's \<Rightarrow> int \<times> int set) \<Rightarrow> (mbHandler \<Rightarrow> 's \<Rightarrow> 's) \<Rightarrow> MBus \<Rightarrow> (int \<times> int) option \<Rightarrow> 's \<Rightarrow> 's" where
  "wait_round sel eff m t s =
     (let (k, ready) = sel (hd_fd ` set (live m)) t s in
      if k > 0 then fold eff (filter (\<lambda>h. hd_fd h \<in> ready) (live m)) s else s)"

lemma round_run:
  assumes "keeps_table callf eff" "bus_ok m" "list_all callable (live m)"
  shows "(if fst (sel (hd_fd ` set (live m)) t s) > 0 then dispatch callf (snd (sel (hd_fd ` set (live m)) t s)) (nhandlers m) 0 m s
     else Inr (m, s)) = Inr (m, wait_round sel eff m t s)"
  using dispatch_run [OF assms(1) _ assms(3, 2), of "[]"] bus_okD(1) [OF assms(2)]
  by (simp add: wait_round_def split_beta)

section \<open>Properties\<close>

text \<open>No descriptor has two handlers, as the comment at the top of the source asks for.\<close>

definition one_handler :: "MBus \<Rightarrow> bool" where
  "one_handler m \<longleftrightarrow> distinct (map hd_fd (live m))"

text \<open>
  C32: a handler for a descriptor that has none is added behind those in the table, which keeps its
  other places clear and has no two handlers for one descriptor; a full table refuses it and stays
  as it is.  (The routine itself does not look for a handler that the descriptor has already.)
\<close>

theorem mbusAddInputHandler_appends:
  assumes ok: "bus_ok m" and one: "one_handler m" "fd \<notin> hd_fd ` set (live m)"
  shows "\<exists>r m'. mbusAddInputHandler (Some m) fd f d = (r, Some m') \<and> bus_ok m' \<and> one_handler m'
     \<and> (length (live m) < MAX_HANDLERS \<longrightarrow> r = 0 \<and> live m' = live m @ [\<lparr>hd_fd = fd, hd_func = f, hd_data = d\<rparr>])
     \<and> (length (live m) = MAX_HANDLERS \<longrightarrow> r = -1 \<and> m' = m)"
proof (cases "nhandlers m = MAX_HANDLERS")
  case True
  then show ?thesis using ok one bus_okD(1) [OF ok] by (simp add: mbusAddInputHandler_def)
next
  case False
  let ?h = "\<lparr>hd_fd = fd, hd_func = f, hd_data = d\<rparr>" and ?n = "nhandlers m"
  have n: "?n < MAX_HANDLERS" using bus_okD(2) [OF ok] False by simp
  then have "replicate (MAX_HANDLERS - ?n) zero_handler = zero_handler # replicate (MAX_HANDLERS - (?n + 1)) zero_handler"
    by (metis Suc_diff_Suc Suc_eq_plus1 replicate_Suc)
  then have "handlers m = live m @ zero_handler # replicate (MAX_HANDLERS - (?n + 1)) zero_handler" using bus_okD(4) [OF ok] by simp
  then have "(handlers m)[?n := ?h] = (live m @ [?h]) @ replicate (MAX_HANDLERS - (?n + 1)) zero_handler"
    using bus_okD(1) [OF ok] by (simp add: list_update_append)
  then have "bus_ok (m\<lparr>nhandlers := ?n + 1, handlers := (handlers m)[?n := ?h]\<rparr>)
      \<and> live (m\<lparr>nhandlers := ?n + 1, handlers := (handlers m)[?n := ?h]\<rparr>) = live m @ [?h]"
    using bus_okD(1) [OF ok] n by (intro bus_okI [of "live m @ [?h]"]) simp_all
  then show ?thesis using False n one bus_okD(1) [OF ok] by (simp add: mbusAddInputHandler_def one_handler_def)
qed

definition bus0 :: MBus where
  "bus0 = \<lparr>nhandlers = 3, handlers = [\<lparr>hd_fd = 3, hd_func = 1, hd_data = 0\<rparr>, \<lparr>hd_fd = 4, hd_func = 2, hd_data = 0\<rparr>,
     \<lparr>hd_fd = 5, hd_func = 3, hd_data = 0\<rparr>] @ replicate 13 zero_handler\<rparr>"

lemma bus0: "bus_ok bus0" "live bus0 = [] @ \<lparr>hd_fd = 3, hd_func = 1, hd_data = 0\<rparr> # [\<lparr>hd_fd = 4, hd_func = 2, hd_data = 0\<rparr>, \<lparr>hd_fd = 5, hd_func = 3, hd_data = 0\<rparr>]"
  by (simp_all add: bus0_def bus_ok_def live_def MAX_HANDLERS_def)

theorem mbusAddInputHandler_appends_witness:
  "\<exists>m. mbusAddInputHandler (Some bus0) 7 9 0 = (0, Some m) \<and> live m = live bus0 @ [\<lparr>hd_fd = 7, hd_func = 9, hd_data = 0\<rparr>]"
  using mbusAddInputHandler_appends [OF bus0(1), of 7 9 0] by (auto simp: bus0(2) MAX_HANDLERS_def one_handler_def)

text \<open>
  C36: removing the handler of a descriptor takes the last handler of the table away when it is
  that one; otherwise the handler stays and the one after it is lost.
\<close>

theorem mbusRemoveInputHandler_removes_successor:
  assumes ok: "bus_ok m" and l: "live m = as @ h # bs"
    and fd: "hd_fd h = fd" "fd \<notin> hd_fd ` set as" "fd \<notin> hd_fd ` set bs" "fd \<noteq> 0"
  shows "\<exists>m'. mbusRemoveInputHandler (Some m) fd = (0, Some m') \<and> bus_ok m' \<and> live m' = (if bs = [] then as else as @ h # tl bs)"
proof -
  let ?m = "remove_at m (length as) (nhandlers m)"
  have r: "bus_ok ?m" "live ?m = (if bs = [] then as else as @ h # tl bs)" using remove_at_run [OF ok l] by simp_all
  have "remove_scan (length bs) (length as + 1) fd (nhandlers m) ?m = ?m"
  proof (rule remove_scan_none, intro allI impI)
    fix k
    assume k: "length as + 1 \<le> k \<and> k < length as + 1 + length bs"
    then have b: "bs \<noteq> []" by auto
    have "handlers ?m = (as @ h # tl bs) @ replicate (MAX_HANDLERS - nhandlers ?m) zero_handler"
      using bus_okD(4) [OF r(1)] r(2) b by simp
    moreover have "k < length (handlers ?m)"
      using k bus_okD [OF ok] bus_okD(3) [OF r(1)] l by simp
    ultimately have "handlers ?m ! k \<in> set (tl bs) \<union> {zero_handler}"
      using k by (auto simp: nth_append nth_Cons')
    then show "hd_fd (handlers ?m ! k) \<noteq> fd"
      using fd(3, 4) b by (auto simp: zero_handler_def dest: list.set_sel(2))
  qed
  then show ?thesis using remove_scan_first [OF ok l fd(1, 2)] r by (simp add: mbusRemoveInputHandler_def)
qed

theorem mbusRemoveInputHandler_removes_successor_witness:
  "\<exists>m. mbusRemoveInputHandler (Some bus0) 3 = (0, Some m)
     \<and> live m = [\<lparr>hd_fd = 3, hd_func = 1, hd_data = 0\<rparr>, \<lparr>hd_fd = 5, hd_func = 3, hd_data = 0\<rparr>]"
  using mbusRemoveInputHandler_removes_successor [OF bus0, of 3] by auto

text \<open>
  C23: as long as the functions leave the table alone, \<open>n\<close> rounds of the main loop call in each
  round exactly the handlers whose descriptors are ready, in the order in which they were added,
  and \<open>mbusInputHandler\<close> does the same once.
\<close>

theorem mbusAppMainLoop_dispatches:
  assumes "keeps_table callf eff" "bus_ok m" "list_all callable (live m)"
  shows "mbusAppMainLoop n sel callf m s = Inr (m, (wait_round sel eff m None ^^ n) s)
     \<and> mbusInputHandler sel callf m s timeout = Inr (fst (sel (hd_fd ` set (live m)) (Some (select_time timeout)) s), m,
          wait_round sel eff m (Some (select_time timeout)) s)"
proof
  show "mbusAppMainLoop n sel callf m s = Inr (m, (wait_round sel eff m None ^^ n) s)"
  proof (induction n arbitrary: s)
    case (Suc n)
    have "mbusAppMainLoop (Suc n) sel callf m s = mbusAppMainLoop n sel callf m (wait_round sel eff m None s)"
      using round_run [OF assms, of sel None s] mbInputSet_run [OF assms(2, 3)]
      by (simp add: mbGetNHandlers_def split_beta)
    then show ?case using Suc.IH by (simp add: funpow_swap1)
  qed simp
  show "mbusInputHandler sel callf m s timeout = Inr (fst (sel (hd_fd ` set (live m)) (Some (select_time timeout)) s), m,
          wait_round sel eff m (Some (select_time timeout)) s)"
    using round_run [OF assms, of sel "Some (select_time timeout)" s] mbInputSet_run [OF assms(2, 3)]
    by (auto simp: mbusInputHandler_def mbGetNHandlers_def split_beta Let_def split: if_splits)
qed

definition log_call :: "int list callf" where
  "log_call f fd d = (\<lambda>(m, s). (0, m, s @ [fd]))"

theorem mbusAppMainLoop_dispatches_witness:
  "mbusAppMainLoop 2 (\<lambda>fds t s. (2, {5, 3})) log_call bus0 [] = Inr (bus0, [3, 5, 3, 5])"
proof -
  have "keeps_table log_call (\<lambda>h s. s @ [hd_fd h])" by (simp add: keeps_table_def log_call_def)
  moreover have "list_all callable (live bus0)" by (simp add: bus0(2) callable_def FD_SETSIZE_def)
  ultimately have "mbusAppMainLoop 2 (\<lambda>fds t s. (2, {5, 3})) log_call bus0 []
      = Inr (bus0, (wait_round (\<lambda>fds t s. (2, {5, 3})) (\<lambda>h s. s @ [hd_fd h]) bus0 None ^^ 2) [])"
    using mbusAppMainLoop_dispatches [OF _ bus0(1), of log_call "\<lambda>h s. s @ [hd_fd h]" 2 "\<lambda>fds t s. (2, {5, 3})" "[]" 0] by simp
  then show ?thesis by (simp add: numeral_2_eq_2 wait_round_def bus0(2))
qed

end
