(* ===== verification/Sup_Proc.thy ===== *)
theory Sup_Proc
  imports Dhs_Prelude
begin

text \<open>
  The process table of the supervisor: \<open>super/supProc.c\<close>, with the structures of
  \<open>super/super.h\<close> and the host name routines of \<open>super/supSocket.c\<close>.

  \<^item> A \<open>char\<close> array is the C string in it; storing a string that does not fit the array with its
    terminator is the fault \<open>Buffer_Overflow\<close> (\<open>fit\<close>).  A pointer into the process table or the
    connection table is an index; NULL is \<open>None\<close>.
  \<^item> The tables are lists of \<open>SZ_PROCTABLE\<close> elements; an index outside is \<open>Out_Of_Bounds\<close>.
  \<^item> What is sent to the GUI (\<open>sup_message\<close>) is collected in \<open>gui\<close>, object and message.  The time
    of \<open>procTimestamp\<close> is the argument \<open>now\<close>.  The debugging output is left out.
  \<^item> \<open>double\<close> is \<open>rat\<close> here; the counts of bytes are taken to fit their types.
\<close>

section \<open>Strings and arrays\<close>

definition fit :: "nat \<Rightarrow> string \<Rightarrow> string res" where
  "fit n s = (if length s < n then Inr s else Inl Buffer_Overflow)"

definition arr_get :: "'a list \<Rightarrow> int \<Rightarrow> 'a res" where
  "arr_get xs i = (if 0 \<le> i \<and> i < int (length xs) then Inr (xs ! nat i) else Inl Out_Of_Bounds)"

definition arr_set :: "'a list \<Rightarrow> int \<Rightarrow> 'a \<Rightarrow> 'a list res" where
  "arr_set xs i x = (if 0 \<le> i \<and> i < int (length xs) then Inr (xs[nat i := x]) else Inl Out_Of_Bounds)"

text \<open>\<open>&s[k]\<close> as a string: it may start at the terminator of \<open>s\<close>, not behind it.\<close>

definition str_from :: "string \<Rightarrow> nat \<Rightarrow> string res" where
  "str_from s k = (if k \<le> length s then Inr (drop k s) else Inl Out_Of_Bounds)"

definition starts :: "string \<Rightarrow> string \<Rightarrow> bool" where
  "starts s p \<longleftrightarrow> take (length p) s = p"

definition tolower :: "char \<Rightarrow> char" where
  "tolower c = (let n = (of_char c :: nat) in if 65 \<le> n \<and> n \<le> 90 then char_of (n + 32) else c)"

definition strcaseeq :: "string \<Rightarrow> string \<Rightarrow> bool" where
  "strcaseeq a b \<longleftrightarrow> map tolower a = map tolower b"

definition starts_case :: "string \<Rightarrow> string \<Rightarrow> bool" where
  "starts_case s p \<longleftrightarrow> map tolower (take (length p) s) = map tolower p"

text \<open>\<open>%-n.ns\<close>, \<open>%-ns\<close>, \<open>%ns\<close>, \<open>%-nd\<close> and \<open>%.kf\<close> of \<open>printf\<close>.\<close>

definition padr :: "nat \<Rightarrow> string \<Rightarrow> string" where
  "padr n s = s @ replicate (n - length s) CHR '' ''"

definition padl :: "nat \<Rightarrow> string \<Rightarrow> string" where
  "padl n s = replicate (n - length s) CHR '' '' @ s"

definition round_even :: "rat \<Rightarrow> int" where
  "round_even x = (let f = \<lfloor>x\<rfloor>; d = x - of_int f in
     if d < 1 / 2 then f else if d > 1 / 2 then f + 1 else if even f then f else f + 1)"

definition fixed :: "nat \<Rightarrow> rat \<Rightarrow> string" where
  "fixed k x = (let n = round_even (\<bar>x\<bar> * 10 ^ k); d = show_nat (nat (n mod 10 ^ k)) in
     (if x < 0 then ''-'' else []) @ show_nat (nat (n div 10 ^ k)) @ ''.'' @ replicate (k - length d) CHR ''0'' @ d)"

text \<open>\<open>%d\<close> of \<open>sscanf\<close>: the number and what follows it.\<close>

definition scan_int :: "string \<Rightarrow> (int \<times> string) option" where
  "scan_int s =
     (let s = dropWhile isspace s;
          (sg, t) = (if s \<noteq> [] \<and> hd s \<in> {CHR ''-'', CHR ''+''} then (hd s, tl s) else (CHR ''+'', s));
          ds = takeWhile isdigit t
      in if ds = [] then None
         else Some ((if sg = CHR ''-'' then - 1 else 1) * int (digits_value 0 ds), drop (length ds) t))"

section \<open>The tables\<close>

definition SZ_PNAME :: nat where "SZ_PNAME = 12"
definition SZ_PHOST :: nat where "SZ_PHOST = 32"
definition SZ_PDATE :: nat where "SZ_PDATE = 9"
definition SZ_PSTAT :: nat where "SZ_PSTAT = 32"
definition SZ_PROCTABLE :: nat where "SZ_PROCTABLE = 128"
definition SZ_FNAME :: nat where "SZ_FNAME = 64"

lemmas sup_sizes = SZ_PNAME_def SZ_PHOST_def SZ_PDATE_def SZ_PSTAT_def SZ_PROCTABLE_def SZ_FNAME_def

text \<open>Of the pointers of a channel, to the supervisor and its callback id, is kept whether they are set.\<close>

record clientIoChan =
  ch_sup :: bool
  ch_id :: bool
  datain :: int
  dataout :: int
  ch_connected :: int
  ch_port :: int
  ch_pid :: int
  ch_name :: string
  ch_host :: string

definition zero_chan :: clientIoChan where
  "zero_chan = \<lparr>ch_sup = False, ch_id = False, datain = 0, dataout = 0, ch_connected = 0, ch_port = 0, ch_pid = 0, ch_name = [], ch_host = []\<rparr>"

record clientProc =
  p_name :: string
  p_host :: string
  p_pid :: int
  p_port :: int
  p_tid :: int
  colID :: string
  p_date :: string
  p_status :: string
  p_chan :: clientIoChan
  connected :: int
  active :: int

definition zero_proc :: clientProc where
  "zero_proc = \<lparr>p_name = [], p_host = [], p_pid = 0, p_port = 0, p_tid = 0, colID = [], p_date = [], p_status = [],
     p_chan = zero_chan, connected = 0, active = 0\<rparr>"

record panConn =
  pan :: "int option"
  collector :: "int option"
  inUse :: int
  bytesTransferred :: int
  bytesTotal :: rat
  pc_timestamp :: string
  obsSetID :: string

record panPair =
  phost :: string
  chost :: string
  socket :: int

record hostTable =
  ht_name :: string
  ip_addr :: string

record sup =
  numClients :: int
  procTable :: "clientProc list"
  numPanConns :: int
  connTable :: "panConn list"
  numPanPairs :: int
  pairTable :: "panPair list"
  numHostTable :: int
  hosts :: "hostTable list"
  showActivity :: bool
  sup_verbose :: bool
  gui :: "(string \<times> string) list"

definition sup_message :: "sup \<Rightarrow> string \<Rightarrow> string \<Rightarrow> sup" where
  "sup_message s obj msg = s\<lparr>gui := gui s @ [(obj, msg)]\<rparr>"

definition procTimestamp :: "string \<Rightarrow> string" where
  "procTimestamp ctime = take 8 (drop 11 ctime)"

section \<open>Host names\<close>

definition extns :: "string list" where
  "extns = [''-cr'', ''-fr'', ''-4m'']"

text \<open>A name up to the first location-specific extension.\<close>

fun strip_ext :: "string \<Rightarrow> string" where
  "strip_ext [] = []"
| "strip_ext (c # s) =
     (if c = CHR ''-'' \<and> (\<exists>e \<in> set extns. starts_case (c # s) e) then [] else c # strip_ext s)"

text \<open>The result, and the caller's string afterwards: the loop copies the dot before it clears it.\<close>

definition supNeuter :: "string \<Rightarrow> (string \<times> string) res" where
  "supNeuter name =
     (let label = takeWhile (\<lambda>c. c \<noteq> CHR ''.'') name;
          host = (if CHR ''.'' \<in> set name then label @ ''.'' else label)
      in if length host < SZ_FNAME then Inr (strip_ext host, label) else Inl Buffer_Overflow)"

primrec lookup_host :: "nat \<Rightarrow> int \<Rightarrow> hostTable list \<Rightarrow> string \<Rightarrow> string option res" where
  "lookup_host 0 i ht host = Inr None"
| "lookup_host (Suc n) i ht host = bind_res (arr_get ht i) (\<lambda>h.
     if ht_name h = host then Inr (Some (ip_addr h)) else lookup_host n (i + 1) ht host)"

definition supHostLookup :: "sup \<Rightarrow> string \<Rightarrow> (string option \<times> string) res" where
  "supHostLookup s name = bind_res (supNeuter name) (\<lambda>(host, name).
     bind_res (lookup_host (nat (numHostTable s)) 0 (hosts s) host) (\<lambda>a. Inr (a, name)))"

section \<open>The display\<close>

text \<open>One line of the process table, \<open>" {  %-10.10s %-11.11s %-6d %-6s %-4s %8s %s } "\<close>.\<close>

definition num_text :: "nat \<Rightarrow> int \<Rightarrow> string res" where
  "num_text w n = (if n > 0 \<and> n \<noteq> 999 then fit 10 (padr w (show_int n)) else Inr ''N/A'')"

definition proc_line :: "clientProc \<Rightarrow> string res" where
  "proc_line cp = bind_res (num_text 6 (p_tid cp)) (\<lambda>tid. bind_res (num_text 4 (p_port cp)) (\<lambda>port.
     fit 160 ('' {  '' @ padr 10 (take 10 (p_name cp)) @ '' '' @ padr 11 (take 11 (p_host cp)) @ '' '' @ padr 6 (show_int (p_pid cp))
       @ '' '' @ padr 6 tid @ '' '' @ padr 4 port @ '' '' @ padl 8 (p_date cp) @ '' '' @ p_status cp @ '' } '')))"

primrec proc_lines :: "nat \<Rightarrow> int \<Rightarrow> clientProc list \<Rightarrow> string \<Rightarrow> int list \<Rightarrow> (string \<times> int list) res" where
  "proc_lines 0 i pt buf act = Inr (buf, act)"
| "proc_lines (Suc n) i pt buf act = bind_res (arr_get pt i) (\<lambda>cp. bind_res (proc_line cp) (\<lambda>line.
     bind_res (fit (SZ_PROCTABLE * 80) (buf @ line)) (\<lambda>buf.
       proc_lines n (i + 1) pt buf (if active cp \<noteq> 0 then act @ [i] else act))))"

definition procUpdateProcessTable :: "sup \<Rightarrow> sup res" where
  "procUpdateProcessTable s = bind_res (proc_lines (nat (numClients s)) 0 (procTable s) [] []) (\<lambda>(buf, act).
     let s = sup_message s ''procTab'' buf in
     Inr (if showActivity s then fold (\<lambda>i s. sup_message s ''procActive'' (show_int i)) act s else s))"

text \<open>One line of the transfer table; a connection without both ends has none.\<close>

definition trans_line :: "sup \<Rightarrow> panConn \<Rightarrow> string res" where
  "trans_line s pc = (case (pan pc, collector pc) of (Some p, Some c) \<Rightarrow>
       bind_res (arr_get (procTable s) p) (\<lambda>pp. bind_res (arr_get (procTable s) c) (\<lambda>cp.
         fit 160 ('' {'' @ padl 10 (p_host pp) @ '':'' @ padr 6 (show_int (p_pid pp)) @ ''->'' @ padl 10 (p_host cp) @ '':''
           @ padr 6 (show_int (p_pid cp)) @ '' '' @ fixed 2 (of_int (bytesTransferred pc) / (1024 * 1024)) @ '' / '' @ fixed 2 (bytesTotal pc)
           @ (if sup_verbose s then '' '' @ pc_timestamp pc @ '' '' @ obsSetID pc else '''') @ ''} '')))
     | _ \<Rightarrow> Inr [])"

primrec trans_lines :: "nat \<Rightarrow> int \<Rightarrow> sup \<Rightarrow> string \<Rightarrow> string res" where
  "trans_lines 0 i s buf = Inr buf"
| "trans_lines (Suc n) i s buf = bind_res (arr_get (connTable s) i) (\<lambda>pc. bind_res (trans_line s pc) (\<lambda>line.
     bind_res (fit (SZ_PROCTABLE * 80) (buf @ line)) (\<lambda>buf. trans_lines n (i + 1) s buf)))"

definition procUpdateTransferTable :: "sup \<Rightarrow> sup res" where
  "procUpdateTransferTable s = bind_res (trans_lines (nat (numPanConns s)) 0 s []) (\<lambda>buf. Inr (sup_message s ''transTab'' buf))"

section \<open>Adding a client\<close>

text \<open>The entry of the pairing table for a host; without one \<open>pp\<close> is left at the last entry.\<close>

primrec find_pair :: "nat \<Rightarrow> int \<Rightarrow> panPair list \<Rightarrow> string \<Rightarrow> panPair option \<Rightarrow> panPair option res" where
  "find_pair 0 i pairs host pp = Inr pp"
| "find_pair (Suc n) i pairs host pp = bind_res (arr_get pairs i) (\<lambda>p.
     if strcaseeq host (phost p) then Inr (Some p) else find_pair n (i + 1) pairs host (Some p))"

text \<open>The first connection not in use whose collector runs on the paired host and socket.\<close>

primrec match_conn :: "nat \<Rightarrow> int \<Rightarrow> sup \<Rightarrow> panPair option \<Rightarrow> int option res" where
  "match_conn 0 i s pp = Inr None"
| "match_conn (Suc n) i s pp = bind_res (arr_get (connTable s) i) (\<lambda>pc.
     if inUse pc > 0 then match_conn n (i + 1) s pp
     else case collector pc of None \<Rightarrow> Inl Null_Deref
       | Some c \<Rightarrow> bind_res (arr_get (procTable s) c) (\<lambda>pcp. case pp of None \<Rightarrow> Inl Uninitialised
           | Some p \<Rightarrow> if strcaseeq (p_host pcp) (chost p) \<and> socket p = p_port pcp then Inr (Some i)
                       else match_conn n (i + 1) s pp))"

definition add_collector :: "sup \<Rightarrow> int \<Rightarrow> sup res" where
  "add_collector s k = bind_res (arr_get (connTable s) (numPanConns s)) (\<lambda>pc.
     bind_res (arr_set (connTable s) (numPanConns s) (pc\<lparr>collector := Some k, inUse := 0\<rparr>)) (\<lambda>ct.
       Inr (s\<lparr>connTable := ct, numPanConns := numPanConns s + 1\<rparr>)))"

definition pair_pan :: "sup \<Rightarrow> int \<Rightarrow> string \<Rightarrow> sup res" where
  "pair_pan s k host =
     bind_res (if numPanPairs s > 0 then supNeuter host else Inr ([], host)) (\<lambda>(h, host).
     bind_res (find_pair (nat (numPanPairs s)) 0 (pairTable s) h None) (\<lambda>pp.
     bind_res (match_conn (nat (numPanConns s)) 0 s pp) (\<lambda>m. case m of None \<Rightarrow> Inr s
       | Some i \<Rightarrow> bind_res (arr_get (connTable s) i) (\<lambda>pc.
           bind_res (arr_set (connTable s) i (pc\<lparr>pan := Some k\<rparr>)) (\<lambda>ct. Inr (s\<lparr>connTable := ct\<rparr>))))))"

definition new_client :: "string \<Rightarrow> clientIoChan option \<Rightarrow> string \<Rightarrow> string \<Rightarrow> int \<Rightarrow> int \<Rightarrow> int \<Rightarrow> string \<Rightarrow> clientProc" where
  "new_client now chan name host port tid pid status = zero_proc\<lparr>p_name := name, p_host := host, p_port := port, p_tid := tid,
     p_pid := pid, p_chan := (case chan of None \<Rightarrow> zero_chan | Some c \<Rightarrow> c), p_date := now, p_status := status\<rparr>"

definition connect_client :: "sup \<Rightarrow> int \<Rightarrow> string \<Rightarrow> string \<Rightarrow> sup res" where
  "connect_client s k name host =
     (if starts_case name ''collector'' then add_collector s k
      else if starts_case name ''pan'' then pair_pan s k host
      else Inr s)"

text \<open>The status that is returned, the caller's host name afterwards and the tables.\<close>

definition procAddClient ::
    "string \<Rightarrow> sup \<Rightarrow> clientIoChan option \<Rightarrow> string \<Rightarrow> string \<Rightarrow> int \<Rightarrow> int \<Rightarrow> int \<Rightarrow> string \<Rightarrow> bool \<Rightarrow> (int \<times> string \<times> sup) res" where
  "procAddClient now s chan name host port tid pid status update =
     (if name = ''CMD_Test'' then Inr (0, host, s)
      else if numClients s = int SZ_PROCTABLE then Inr (-1, host, s)
      else let k = numClients s in
        bind_res (fit SZ_PNAME name) (\<lambda>name.
        bind_res (supNeuter host) (\<lambda>(h, host).
        bind_res (fit SZ_PHOST h) (\<lambda>h.
        bind_res (fit SZ_PDATE now) (\<lambda>now.
        bind_res (fit SZ_PSTAT status) (\<lambda>status.
        bind_res (arr_set (procTable s) k (new_client now chan name h port tid pid status)) (\<lambda>pt.
        bind_res (connect_client (s\<lparr>procTable := pt, numClients := k + 1\<rparr>) k name host) (\<lambda>s.
        bind_res (if update then procUpdateProcessTable s else Inr s) (\<lambda>s. Inr (0, host, s))))))))))"

section \<open>Deleting and finding clients\<close>

primrec shift_procs :: "nat \<Rightarrow> int \<Rightarrow> clientProc list \<Rightarrow> clientProc list res" where
  "shift_procs 0 i pt = Inr pt"
| "shift_procs (Suc n) i pt = bind_res (arr_get pt (i + 1)) (\<lambda>np. bind_res (arr_set pt i np) (\<lambda>pt. shift_procs n (i + 1) pt))"

definition procDelClient :: "sup \<Rightarrow> int \<Rightarrow> bool \<Rightarrow> (int \<times> sup) res" where
  "procDelClient s clid update = bind_res (arr_get (procTable s) clid) (\<lambda>cp.
     if connected cp \<noteq> 0 then Inr (-1, s)
     else bind_res (shift_procs (nat (numClients s - 1 - clid)) clid (procTable s)) (\<lambda>pt.
       bind_res (arr_set pt (numClients s) zero_proc) (\<lambda>pt.
       let s = s\<lparr>procTable := pt, numClients := numClients s - 1\<rparr> in
       bind_res (if update then procUpdateProcessTable s else Inr s) (\<lambda>s. Inr (0, s)))))"

primrec find_from :: "nat \<Rightarrow> int \<Rightarrow> (clientProc \<Rightarrow> bool) \<Rightarrow> clientProc list \<Rightarrow> int res" where
  "find_from 0 i P pt = Inr (-1)"
| "find_from (Suc n) i P pt = bind_res (arr_get pt i) (\<lambda>cp. if P cp then Inr i else find_from n (i + 1) P pt)"

definition client_match :: "int \<Rightarrow> int \<Rightarrow> clientProc \<Rightarrow> bool" where
  "client_match port tid cp \<longleftrightarrow> p_port cp = port \<and> p_tid cp = tid \<or> p_port cp = port \<and> tid \<le> 0 \<or> port \<le> 0 \<and> p_tid cp = tid"

definition procFindClient :: "sup \<Rightarrow> int \<Rightarrow> int \<Rightarrow> int res" where
  "procFindClient s port tid = find_from (nat (numClients s)) 0 (client_match port tid) (procTable s)"

definition procFindBySocket :: "sup \<Rightarrow> int \<Rightarrow> int res" where
  "procFindBySocket s fd = find_from (nat (numClients s)) 0 (\<lambda>cp. datain (p_chan cp) = fd) (procTable s)"

definition upd_proc :: "sup \<Rightarrow> int \<Rightarrow> (clientProc \<Rightarrow> clientProc) \<Rightarrow> sup res" where
  "upd_proc s clid f = bind_res (arr_get (procTable s) clid) (\<lambda>cp.
     bind_res (arr_set (procTable s) clid (f cp)) (\<lambda>pt. Inr (s\<lparr>procTable := pt\<rparr>)))"

definition procDisconnect :: "string \<Rightarrow> sup option \<Rightarrow> int \<Rightarrow> sup option res" where
  "procDisconnect now so clid = (case so of None \<Rightarrow> Inr None
     | Some s \<Rightarrow> if clid < 0 then Inr (Some s)
       else bind_res (fit SZ_PDATE now) (\<lambda>now.
         bind_res (upd_proc s clid (\<lambda>cp. cp\<lparr>p_port := -1, p_tid := -1, connected := 0, p_date := now, p_status := ''Disconnected''\<rparr>)) (\<lambda>s.
         bind_res (procUpdateProcessTable s) (\<lambda>s. Inr (Some s)))))"

text \<open>Each round either takes a client away or moves on to the next one.\<close>

primrec clean_loop :: "nat \<Rightarrow> int \<Rightarrow> sup \<Rightarrow> sup res" where
  "clean_loop 0 i s = Inr s"
| "clean_loop (Suc n) i s =
     (if i < numClients s
      then bind_res (arr_get (procTable s) i) (\<lambda>cp.
        if \<not> strcaseeq (p_name cp) ''Supervisor'' \<and> connected cp = 0 \<and> numClients s > 1
        then bind_res (procDelClient s i False) (\<lambda>(stat, s). clean_loop n i s)
        else clean_loop n (i + 1) s)
      else Inr s)"

definition procCleanTable :: "sup \<Rightarrow> sup res" where
  "procCleanTable s = bind_res (clean_loop (nat (numClients s)) 0 s) procUpdateProcessTable"

section \<open>Status and values of a client\<close>

definition procUpdateStatus :: "string \<Rightarrow> sup option \<Rightarrow> int \<Rightarrow> string \<Rightarrow> bool \<Rightarrow> (int \<times> sup option) res" where
  "procUpdateStatus now so clid status update = (case so of None \<Rightarrow> Inr (-1, None)
     | Some s \<Rightarrow> if clid < 0 then Inr (-1, Some s)
       else bind_res
         (if starts status ''trans'' then bind_res (str_from status 6) (\<lambda>t. Inr (sup_message s ''transTab'' t))
          else if starts status ''file'' then bind_res (str_from status 5) (\<lambda>t. Inr (sup_message s ''filesTab'' t))
          else if starts status ''dca'' then bind_res (str_from status 3) (\<lambda>t. Inr (sup_message s ''dcaTransStat'' t))
          else if starts status ''active'' then upd_proc s clid (\<lambda>cp. cp\<lparr>active := 1\<rparr>)
          else if starts status ''inactive'' then upd_proc s clid (\<lambda>cp. cp\<lparr>active := 0\<rparr>)
          else bind_res (fit SZ_PDATE now) (\<lambda>now.
            bind_res (if starts status ''proc'' then str_from status 5 else Inr status) (\<lambda>t.
            bind_res (fit SZ_PSTAT t) (\<lambda>t. upd_proc s clid (\<lambda>cp. cp\<lparr>p_date := now, p_status := t\<rparr>))))) (\<lambda>s.
         bind_res (if update then procUpdateProcessTable s else Inr s) (\<lambda>s. Inr (0, Some s))))"

text \<open>\<open>sscanf (msg, "port %d %s", ...)\<close> for a message that starts with \<open>port\<close>.\<close>

definition set_port :: "string \<Rightarrow> clientProc \<Rightarrow> clientProc res" where
  "set_port msg cp = (case scan_int (drop 4 msg) of None \<Rightarrow> Inr cp
     | Some (n, rest) \<Rightarrow>
       let w = takeWhile (\<lambda>c. \<not> isspace c) (dropWhile isspace rest) in
       if w = [] then Inr (cp\<lparr>p_port := n\<rparr>)
       else bind_res (fit SZ_PNAME w) (\<lambda>w. Inr (cp\<lparr>p_port := n, colID := w\<rparr>)))"

text \<open>A transfer of \<open>ival\<close> bytes is counted on each connection of the collector.\<close>

primrec count_transfer :: "string \<Rightarrow> int \<Rightarrow> int \<Rightarrow> nat \<Rightarrow> int \<Rightarrow> panConn list \<Rightarrow> panConn list res" where
  "count_transfer now clid ival 0 i ct = Inr ct"
| "count_transfer now clid ival (Suc n) i ct = bind_res (arr_get ct i) (\<lambda>pc.
     if collector pc = Some clid
     then bind_res (fit SZ_PDATE now) (\<lambda>now.
          bind_res (arr_set ct i (pc\<lparr>bytesTransferred := bytesTransferred pc + ival,
            bytesTotal := bytesTotal pc + of_int ival / (1024 * 1024 * 1024), pc_timestamp := now\<rparr>)) (\<lambda>ct.
            count_transfer now clid ival n (i + 1) ct))
     else count_transfer now clid ival n (i + 1) ct)"

text \<open>Each connection of the collector is reported under the host of its PAN.\<close>

primrec report_conns :: "int \<Rightarrow> int \<Rightarrow> nat \<Rightarrow> int \<Rightarrow> sup \<Rightarrow> sup res" where
  "report_conns clid ival 0 i s = Inr s"
| "report_conns clid ival (Suc n) i s = bind_res (arr_get (connTable s) i) (\<lambda>pc.
     if collector pc = Some clid
     then case pan pc of None \<Rightarrow> Inl Null_Deref
       | Some p \<Rightarrow> bind_res (arr_get (procTable s) p) (\<lambda>pp.
           bind_res (fit 128 (p_host pp @ '' '' @ show_int ival)) (\<lambda>m. report_conns clid ival n (i + 1) (sup_message s ''conStat'' m)))
     else report_conns clid ival n (i + 1) s)"

definition procSetValue :: "string \<Rightarrow> sup option \<Rightarrow> int \<Rightarrow> string \<Rightarrow> bool \<Rightarrow> (int \<times> sup option) res" where
  "procSetValue now so clid msg update = (case so of None \<Rightarrow> Inr (-1, None)
     | Some s \<Rightarrow> if clid < 0 then Inr (-1, Some s)
       else bind_res
         (if starts msg ''port'' then
            bind_res (arr_get (procTable s) clid) (\<lambda>cp. bind_res (set_port msg cp) (\<lambda>cp.
            bind_res (arr_set (procTable s) clid cp) (\<lambda>pt. Inr (s\<lparr>procTable := pt\<rparr>))))
          else if starts msg ''transfer'' then
            bind_res (str_from msg 9) (\<lambda>t.
            bind_res (count_transfer now clid (atoi t) (nat (numPanConns s)) 0 (connTable s)) (\<lambda>ct.
            let s = s\<lparr>connTable := ct\<rparr> in if update then procUpdateTransferTable s else Inr s))
          else if starts msg ''connected'' then
            bind_res (str_from msg 10) (\<lambda>t.
            bind_res (upd_proc s clid (\<lambda>cp. cp\<lparr>connected := atoi t\<rparr>)) (\<lambda>s.
            bind_res (report_conns clid (atoi t) (nat (numPanConns s)) 0 s) (\<lambda>s.
            if update then procUpdateProcessTable s else Inr s)))
          else Inr s) (\<lambda>s. Inr (0, Some s)))"

section \<open>Client ids\<close>

text \<open>
  \<open>cid\<close> is the buffer that holds the client id, \<open>name\<close> and \<open>host\<close> are the buffers that it is
  broken out into.  Nothing terminates what is copied into them.
\<close>

definition put :: "string \<Rightarrow> string \<Rightarrow> string res" where
  "put s buf = (if length s \<le> length buf then Inr (poke 0 s buf) else Inl Buffer_Overflow)"

definition copy_host :: "string \<Rightarrow> string \<Rightarrow> (string \<times> string \<times> string) res" where
  "copy_host ip host =
     (let h = takeWhile (\<lambda>c. c \<notin> {NUL, CHR '':'', CHR ''.''}) ip; ip = drop (length h) ip in
      if ip = [] then Inl Out_Of_Bounds
      else if hd ip = CHR ''.'' then
        let ip = dropWhile (\<lambda>c. c \<notin> {NUL, CHR '':''}) ip in
        if ip = [] then Inl Out_Of_Bounds else bind_res (put (h @ [NUL]) host) (\<lambda>host. Inr (h, ip, host))
      else bind_res (put h host) (\<lambda>host. Inr (h, ip, host)))"

definition procBreakoutClientID :: "string option \<Rightarrow> string \<Rightarrow> string \<Rightarrow> (string \<times> string \<times> int) res" where
  "procBreakoutClientID cid name host = (case cid of
     None \<Rightarrow> bind_res (put (''unknown'' @ [NUL]) name) (\<lambda>name. bind_res (put (''unknown'' @ [NUL]) host) (\<lambda>host. Inr (name, host, 0)))
   | Some ip \<Rightarrow>
       let n = takeWhile (\<lambda>c. c \<notin> {NUL, CHR ''@''}) ip; ip = drop (length n) ip in
       if ip = [] then Inl Out_Of_Bounds
       else bind_res (put (if n = [] then ''unknown'' @ [NUL] else n) name) (\<lambda>name.
         bind_res (copy_host (tl ip) host) (\<lambda>(h, ip, host).
         bind_res (if h = [] then put (''unknown'' @ [NUL]) name else Inr name) (\<lambda>name.
         if NUL \<in> set (tl ip) then Inr (name, host, atoi (cstr_at (tl ip) 0)) else Inl Out_Of_Bounds))))"

end
