(* ===== verification/Sup_Super.thy ===== *)
theory Sup_Super
  imports Sup_Proc Proc_Queue
begin

unbundle bit_operations_syntax

text \<open>
  The supervisor as a whole: what it does with the messages of the instrument on its sockets
  (\<open>superHandleClient\<close>, \<open>super/supPanHandler.c\<close>), with those of the message bus
  (\<open>supIOHandler\<close>, \<open>super/supIO.c\<close>), and with the request to process the next exposure
  (\<open>supProcNext\<close>, \<open>super/supClient.c\<close>).

  \<^item> \<open>superv\<close> is the state: the process tables, the processing queue, and the counters, which are
    members of the descriptor or static variables in the source.
  \<^item> What the supervisor sends is collected in \<open>sent\<close>: broadcasts on the message bus, answers on
    sockets, calls of the routines of \<open>dhsCmds\<close> and the writes to the sequence number file.
  \<^item> The time, the host name of \<open>gethostname\<close> (\<open>None\<close> when it fails) are arguments.  Exposure ids are
    rationals; in messages they have six decimals and no exponent.
  \<^item> Only printed, and left out: the elapsed times.  Connecting to another supervisor
    (\<open>mbConnectToSuper\<close>) and the notifier of \<open>mbAddTaskExitHandler\<close> leave this state alone.
\<close>

section \<open>Reading messages\<close>

text \<open>\<open>atof\<close> of a number without exponent.\<close>

definition atof :: "string \<Rightarrow> rat" where
  "atof s =
     (let s = dropWhile isspace s;
          (sg, t) = (if s \<noteq> [] \<and> hd s \<in> {CHR ''-'', CHR ''+''} then (hd s, tl s) else (CHR ''+'', s));
          i = takeWhile isdigit t; r = drop (length i) t;
          f = (if r \<noteq> [] \<and> hd r = CHR ''.'' then takeWhile isdigit (tl r) else [])
      in (if sg = CHR ''-'' then -1 else 1) * (of_nat (digits_value 0 i) + of_nat (digits_value 0 f) / 10 ^ length f))"

text \<open>\<open>sscanf\<close> with blanks, characters, \<open>%d\<close> and \<open>%s\<close> in the format: the converted values.\<close>

datatype directive = Blank | Lit char | Dir_d | Dir_s

datatype scanned = Num int | Word string

fun directives :: "string \<Rightarrow> directive list" where
  "directives [] = []"
| "directives [c] = [if isspace c then Blank else Lit c]"
| "directives (c # d # s) =
     (if c = CHR 0x25 \<and> d = CHR ''d'' then Dir_d # directives s
      else if c = CHR 0x25 \<and> d = CHR ''s'' then Dir_s # directives s
      else (if isspace c then Blank else Lit c) # directives (d # s))"

fun sscanf :: "directive list \<Rightarrow> string \<Rightarrow> scanned list" where
  "sscanf [] s = []"
| "sscanf (Blank # f) s = sscanf f (dropWhile isspace s)"
| "sscanf (Lit c # f) s = (case s of [] \<Rightarrow> [] | d # t \<Rightarrow> if d = c then sscanf f t else [])"
| "sscanf (Dir_d # f) s = (case scan_int s of None \<Rightarrow> [] | Some (n, t) \<Rightarrow> Num n # sscanf f t)"
| "sscanf (Dir_s # f) s = (let t = dropWhile isspace s; w = takeWhile (\<lambda>c. \<not> isspace c) t in
     if w = [] then [] else Word w # sscanf f (drop (length w) t))"

definition connect_format :: string where
  "connect_format = ''{ tid='' @ [CHR 0x25] @ ''d who='' @ [CHR 0x25] @ ''s host='' @ [CHR 0x25] @ ''s pid='' @ [CHR 0x25] @ ''d }''"

text \<open>\<open>mbParseConnectMsg\<close>: the status, and tid, name, host and pid as far as they have been converted.\<close>

definition mbParseConnectMsg :: "string \<Rightarrow> int \<times> int option \<times> string option \<times> string option \<times> int option" where
  "mbParseConnectMsg msg =
     (case sscanf (directives connect_format) msg of
        [Num t, Word w, Word h, Num p] \<Rightarrow> (0, Some t, Some w, Some h, Some p)
      | [Num t, Word w, Word h] \<Rightarrow> (-1, Some t, Some w, Some h, None)
      | [Num t, Word w] \<Rightarrow> (-1, Some t, Some w, None, None)
      | [Num t] \<Rightarrow> (-1, Some t, None, None, None)
      | _ \<Rightarrow> (-1, None, None, None, None))"

definition connect_msg :: "int \<Rightarrow> string \<Rightarrow> string \<Rightarrow> int \<Rightarrow> string" where
  "connect_msg tid who host pid =
     ''{ tid='' @ show_int tid @ '' who='' @ who @ '' host='' @ host @ '' pid='' @ show_int pid @ '' }''"

section \<open>The state\<close>

datatype outmsg =
    Bcast string string int
  | Client_Text int string
  | Client_Ack int
  | Close_Socket int
  | Dhs_SetImIndex int int int
  | Dhs_StartReadout int int string string
  | Dhs_SetBinning int
  | Dhs_ConfigureImage int int string string
  | Dhs_SetExpID int int rat
  | Dhs_EndReadout int int
  | Seq_No int
  | Seq_Name string

record superv =
  tabs :: sup
  que :: pq
  dca_done :: int
  open_exp :: int
  close_exp :: int
  numProcMgrs :: int
  imgSeqNo :: int
  dca_tid :: int
  nbin :: int
  nready :: int
  nclients :: int
  npxf_started :: int
  npxf_finished :: int
  npxf_transferred :: int
  triggerHost :: string
  rawDir :: string
  fileRoot :: string
  imagetype :: string
  stat_enable :: bool
  keywList :: "(string \<times> string) list"
  sent :: "outmsg list"

definition send :: "superv \<Rightarrow> outmsg \<Rightarrow> superv" where
  "send v m = v\<lparr>sent := sent v @ [m]\<rparr>"

definition message :: "superv \<Rightarrow> string \<Rightarrow> string \<Rightarrow> superv" where
  "message v obj msg = v\<lparr>tabs := sup_message (tabs v) obj msg\<rparr>"

definition on_tabs :: "superv \<Rightarrow> sup option res \<Rightarrow> superv res" where
  "on_tabs v r = bind_res r (\<lambda>t. case t of None \<Rightarrow> Inr v | Some s \<Rightarrow> Inr (v\<lparr>tabs := s\<rparr>))"

definition on_que :: "superv \<Rightarrow> pq res \<Rightarrow> superv res" where
  "on_que v r = bind_res r (\<lambda>q. Inr (v\<lparr>que := q\<rparr>))"

definition MB_READY :: int where "MB_READY = 2"
definition MB_START :: int where "MB_START = 4"
definition MB_SET :: int where "MB_SET = 8"
definition MB_GET :: int where "MB_GET = 65552"
definition MB_FINISH :: int where "MB_FINISH = 32"
definition MB_DONE :: int where "MB_DONE = 64"
definition MB_STATUS :: int where "MB_STATUS = 128"
definition MB_PING :: int where "MB_PING = 256"
definition MB_ERR :: int where "MB_ERR = 512"
definition MB_CONNECT :: int where "MB_CONNECT = 1024"
definition MB_EXITING :: int where "MB_EXITING = 4096"
definition MB_ORPHAN :: int where "MB_ORPHAN = 16384"
definition MB_ACK :: int where "MB_ACK = 1"

lemmas mb_defs = MB_READY_def MB_START_def MB_SET_def MB_GET_def MB_FINISH_def MB_DONE_def MB_STATUS_def MB_PING_def
  MB_ERR_def MB_CONNECT_def MB_EXITING_def MB_ORPHAN_def MB_ACK_def

text \<open>\<open>MB_GET|MB_STATUS\<close>.\<close>

definition MB_GET_STATUS :: int where "MB_GET_STATUS = 65680"

section \<open>The next exposure\<close>

definition supProcNext :: "superv \<Rightarrow> superv res" where
  "supProcNext v =
     (let expID = pqNext (que v) in
      if expID > 0 \<and> (dca_done v < 0 \<or> dca_done v \<ge> numProcMgrs v)
      then bind_res (on_que v (pqSetStat (que v) expID PQ_ACTIVE)) (\<lambda>v.
        let v = message v ''transStat'' (fixed 6 expID @ '' test'');
            v = v\<lparr>imgSeqNo := imgSeqNo v + 1\<rparr>;
            v = send v (Bcast ''PXF'' (''seqno '' @ show_int (imgSeqNo v)) MB_SET);
            v = send v (Bcast ''SMCMgr'' (''option seqno '' @ show_int (imgSeqNo v)) MB_SET);
            v = send v (Bcast ''SMCMgr'' (''process '' @ fixed 6 expID) MB_START)
        in Inr (v\<lparr>dca_done := max 0 (dca_done v - numProcMgrs v)\<rparr>))
      else Inr v)"

section \<open>Messages of the bus\<close>

text \<open>\<open>ip\<close> goes back from the end to the last slash, and would go on before the start.\<close>

definition last_slash :: "string \<Rightarrow> string res" where
  "last_slash msg = (if CHR ''/'' \<in> set msg then Inr (CHR ''/'' # rev (takeWhile (\<lambda>c. c \<noteq> CHR ''/'') (rev msg))) else Inl Out_Of_Bounds)"

text \<open>The word up to a blank; the loop does not stop at the end of the string.\<close>

definition blank_word :: "string \<Rightarrow> string res" where
  "blank_word s = (if \<exists>c \<in> set s. isspace c then Inr (takeWhile (\<lambda>c. \<not> isspace c) s) else Inl Out_Of_Bounds)"

definition set_dca_done :: "superv \<Rightarrow> string \<Rightarrow> superv res" where
  "set_dca_done v msg =
     bind_res (str_from msg 9) (\<lambda>t.
     let expID = atof t in
     bind_res (on_que v (pqSetStat (que v) expID PQ_DONE)) (\<lambda>v.
     bind_res (fit 128 (''ExpID '' @ fixed 6 expID)) (\<lambda>reply.
     let v = send v (Bcast ''SMCMgr'' reply MB_FINISH) in
     bind_res (bind_res (last_slash msg) (fit SZ_FNAME)) (\<lambda>fname.
     bind_res (bind_res (blank_word t) (fit 1024)) (\<lambda>exp.
     if rawDir v = [] then Inl Out_Of_Bounds
     else bind_res (fit 128 (exp @ '' '' @ rawDir v @ (if last (rawDir v) = CHR ''/'' then [] else ''/'') @ fname)) (\<lambda>reply.
       let v = message v ''dcaStat'' reply in
       bind_res (fit 128 (t @ '' '' @ rawDir v)) (\<lambda>reply. Inr (message v ''dca_done'' reply))))))))"

definition set_trans_done :: "superv \<Rightarrow> string \<Rightarrow> superv res" where
  "set_trans_done v msg = bind_res (str_from msg 15) (\<lambda>t.
     let v = v\<lparr>npxf_transferred := npxf_transferred v + 1\<rparr> in
     if npxf_transferred v \<ge> numProcMgrs v
     then Inr ((send v (Dhs_EndReadout (dca_tid v) (atoi t)))\<lparr>npxf_transferred := npxf_transferred v - numProcMgrs v\<rparr>)
     else Inr v)"

definition zero5 :: "int \<Rightarrow> string" where
  "zero5 n = (let d = show_nat (nat \<bar>n\<bar>) in if n < 0 then ''-'' @ replicate (4 - length d) CHR ''0'' @ d else replicate (5 - length d) CHR ''0'' @ d)"

definition set_imagetype :: "superv \<Rightarrow> string \<Rightarrow> superv res" where
  "set_imagetype v msg = bind_res (str_from msg 10) (\<lambda>ip.
     let expID = atof ip;
         ip = dropWhile isspace (dropWhile (\<lambda>c. \<not> isspace c) ip) in
     bind_res (fit SZ_FNAME (map tolower (takeWhile (\<lambda>c. \<not> isspace c) ip))) (\<lambda>ty.
     let v = v\<lparr>imagetype := ty\<rparr>;
         v = send v (Seq_No (imgSeqNo v));
         v = send v (Seq_Name (fileRoot v));
         v = message v ''seqno'' (show_int (imgSeqNo v));
         v = send v (Dhs_SetImIndex (dca_tid v) (imgSeqNo v) (imgSeqNo v)) in
     bind_res (fit 80 (''imname '' @ fileRoot v @ zero5 (imgSeqNo v))) (\<lambda>name.
     let v = send v (Bcast ''SMCMgr'' name MB_SET);
         v = send v (Dhs_StartReadout (dca_tid v) (imgSeqNo v) (fileRoot v) (imagetype v));
         v = send v (Dhs_SetBinning (nbin v));
         v = send v (Dhs_ConfigureImage (dca_tid v) (imgSeqNo v) (fileRoot v) (imagetype v))
     in Inr (send v (Dhs_SetExpID (dca_tid v) (imgSeqNo v) expID)))))"

definition set_clean_done :: "superv \<Rightarrow> string \<Rightarrow> superv res" where
  "set_clean_done v msg = bind_res (str_from msg 10) (\<lambda>t.
     bind_res (on_que v (pqSetStat (que v) (atof t) PQ_AVAILABLE)) (\<lambda>v.
     let v = send v (Bcast ''SMCMgr'' ''segList'' MB_GET_STATUS)
     in Inr (v\<lparr>dca_done := dca_done v + 1\<rparr>)))"

text \<open>A manager has sent its pages: when all have, the picture feeds start.  A picture feed has finished.\<close>

definition smc_done :: "superv \<Rightarrow> rat \<Rightarrow> superv res" where
  "smc_done v expID =
     (let v = v\<lparr>npxf_started := npxf_started v + 1\<rparr> in
      if npxf_started v \<ge> numProcMgrs v
      then bind_res (fit 128 (''process '' @ fixed 6 expID)) (\<lambda>reply.
        let v = send v (Bcast ''PXF'' (''seqno '' @ show_int (imgSeqNo v)) MB_SET);
            v = send v (Bcast ''PXF'' (''dca_tid '' @ show_int (dca_tid v)) MB_START);
            v = send v (Bcast ''PXF'' reply MB_START)
        in Inr (v\<lparr>npxf_started := npxf_started v - numProcMgrs v\<rparr>))
      else Inr v)"

definition pxf_done :: "superv \<Rightarrow> superv" where
  "pxf_done v =
     (let v = v\<lparr>npxf_finished := npxf_finished v + 1\<rparr> in
      if npxf_finished v \<ge> numProcMgrs v then v\<lparr>npxf_finished := npxf_finished v - numProcMgrs v\<rparr> else v)"

definition set_process :: "superv \<Rightarrow> string \<Rightarrow> superv res" where
  "set_process v msg = bind_res (str_from msg 8) (\<lambda>t.
     if starts t ''smc done'' then bind_res (str_from msg 17) (\<lambda>e. smc_done v (atof e))
     else if starts t ''pxf done'' then bind_res (str_from msg 17) (\<lambda>e. Inr (pxf_done v))
     else Inr v)"

text \<open>\<open>MB_SET\<close>: the first keyword that the message starts with decides.\<close>

definition handle_set :: "string \<Rightarrow> superv \<Rightarrow> int \<Rightarrow> string \<Rightarrow> superv res" where
  "handle_set now v sender msg =
     (if starts msg ''segList'' then bind_res (str_from msg 7) (\<lambda>t. Inr (message v ''smcStat'' t))
      else if starts msg ''segCount'' then bind_res (str_from msg 9) (\<lambda>t. Inr (message v ''smcCount'' t))
      else if starts msg ''rtdStat'' then bind_res (str_from msg 7) (\<lambda>t. Inr (message v ''rtdStat'' t))
      else if starts msg ''dca_tid'' then bind_res (str_from msg 8) (\<lambda>t. Inr (send (v\<lparr>dca_tid := atoi t\<rparr>) (Bcast ''PXF'' msg MB_SET)))
      else if starts msg ''nbin'' then bind_res (str_from msg 5) (\<lambda>t. Inr (send (v\<lparr>nbin := atoi t\<rparr>) (Bcast ''PXF'' msg MB_SET)))
      else if starts msg ''dca_done '' then set_dca_done v msg
      else if starts msg ''dca_trans_done'' then set_trans_done v msg
      else if starts msg ''dca_trans'' then bind_res (str_from msg 9) (\<lambda>t. Inr (message v ''dcaTransStat'' t))
      else if starts msg ''dca_cwd'' then bind_res (bind_res (str_from msg 8) (fit SZ_FNAME)) (\<lambda>t. Inr (message (v\<lparr>rawDir := t\<rparr>) ''dirname'' t))
      else if starts msg ''debug'' then bind_res (str_from msg 6) (\<lambda>t. Inr (send v (Bcast ''SMCMgr'' t MB_SET)))
      else if starts msg ''imagetype'' then set_imagetype v msg
      else if starts msg ''keywmon'' then Inr v
      else if starts msg ''clean done'' then set_clean_done v msg
      else if starts msg ''process'' then set_process v msg
      else bind_res (procFindClient (tabs v) (-1) sender) (\<lambda>clid.
        if clid < 0 then Inr v
        else on_tabs v (bind_res (procSetValue now (Some (tabs v)) clid msg True) (\<lambda>(stat, t). Inr t))))"

definition supMakeKeywordList :: "(string \<times> string) list \<Rightarrow> string" where
  "supMakeKeywordList kws = ''keyword add '' @ concat (map (\<lambda>(keyw, dbname). dbname @ ''.'' @ keyw @ '' '') kws)"

definition handle_ready :: "string \<Rightarrow> superv \<Rightarrow> superv res" where
  "handle_ready now v =
     (let v = v\<lparr>nready := nready v + 1\<rparr> in
      if nready v = nclients v
      then bind_res (on_tabs v (bind_res (procUpdateStatus now (Some (tabs v)) 0 ''Clients Ready...'' True) (\<lambda>(stat, t). Inr t))) (\<lambda>v.
        Inr (send v (Bcast ''PXF'' (supMakeKeywordList (keywList v)) MB_SET)))
      else Inr v)"

definition handle_connect :: "string \<Rightarrow> superv \<Rightarrow> string \<Rightarrow> superv res" where
  "handle_connect now v msg =
     (case mbParseConnectMsg msg of
        (stat, tid, Some who, Some host, pid) \<Rightarrow>
          bind_res (fit 128 who) (\<lambda>who. bind_res (fit 128 host) (\<lambda>host.
          bind_res (procAddClient now (tabs v) None who host 0 (case tid of None \<Rightarrow> 0 | Some t \<Rightarrow> t)
            (case pid of None \<Rightarrow> 0 | Some p \<Rightarrow> p) ''Connected'' True) (\<lambda>(r, host, s).
          let v = v\<lparr>tabs := s\<rparr> in
          if starts_case who ''SMCMgr''
          then Inr (message (send (v\<lparr>numProcMgrs := numProcMgrs v + 1\<rparr>) (Bcast ''SMCMgr'' (''option dirname '' @ rawDir v @ [CHR 0x0A]) MB_SET))
                 ''rdirname'' (rawDir v))
          else Inr v)))
      | _ \<Rightarrow> Inl Uninitialised)"

definition handle_exiting :: "string \<Rightarrow> superv \<Rightarrow> string \<Rightarrow> superv res" where
  "handle_exiting now v msg =
     (case mbParseConnectMsg msg of (stat, tid, who, host, pid) \<Rightarrow>
        bind_res (procFindClient (tabs v) (-1) (case tid of None \<Rightarrow> 0 | Some t \<Rightarrow> t)) (\<lambda>clid.
          on_tabs v (procDisconnect now (Some (tabs v)) clid)))"

definition orphan_format :: string where
  "orphan_format = ''Orphan {From: '' @ [CHR 0x25] @ ''d  To: '' @ [CHR 0x25] @ ''d  Subj: '' @ [CHR 0x25] @ ''d -- ('' @ [CHR 0x25] @ ''s)}''"

text \<open>The handler of the bus.  \<open>MB_READY\<close> falls through into \<open>MB_SET\<close>; the text of an orphan is stored through a pointer never set.\<close>

definition supIOHandler :: "string \<Rightarrow> superv \<Rightarrow> int \<Rightarrow> int \<Rightarrow> string \<Rightarrow> superv res" where
  "supIOHandler now v sender subject msg =
     (if subject = MB_CONNECT then handle_connect now v msg
      else if subject = MB_EXITING then handle_exiting now v msg
      else if subject = MB_READY then bind_res (handle_ready now v) (\<lambda>v. handle_set now v sender msg)
      else if subject = MB_SET then handle_set now v sender msg
      else if subject = MB_GET then Inr v
      else if subject = MB_STATUS then bind_res (procFindClient (tabs v) (-1) sender) (\<lambda>clid.
        if clid < 0 then Inr v
        else on_tabs v (bind_res (procUpdateStatus now (Some (tabs v)) clid msg True) (\<lambda>(stat, t). Inr t)))
      else if subject = MB_ORPHAN then
        (if length (sscanf (directives orphan_format) msg) < 4 then Inr v else Inl Uninitialised)
      else if subject \<in> {MB_ACK, MB_PING, MB_ERR} then Inr v
      else if subject = MB_DONE then Inl Exit_Process
      else if starts msg ''quit'' then Inl Exit_Process else Inr v)"

section \<open>Messages of the instrument\<close>

definition DCA_OPEN :: "32 word" where "DCA_OPEN = 0x1"
definition DCA_CLOSE :: "32 word" where "DCA_CLOSE = 0x2"
definition DCA_NOOP :: "32 word" where "DCA_NOOP = 0x40"
definition DCA_SET :: "32 word" where "DCA_SET = 0x100"
definition DCA_GET :: "32 word" where "DCA_GET = 0x200"
definition DCA_EXP :: "32 word" where "DCA_EXP = 0x2000"
definition DCA_DCADEV :: "32 word" where "DCA_DCADEV = 21"

lemmas dca_defs = DCA_OPEN_def DCA_CLOSE_def DCA_NOOP_def DCA_SET_def DCA_GET_def DCA_EXP_def DCA_DCADEV_def

definition SZMSG :: nat where "SZMSG = 120"

text \<open>\<open>sup_disconnectClient\<close> on the channel of a client, which is the copy of it in the process table.\<close>

definition disconnect_chan :: "string \<Rightarrow> superv \<Rightarrow> int \<Rightarrow> superv res" where
  "disconnect_chan now v k = bind_res (arr_get (procTable (tabs v)) k) (\<lambda>cp.
     if \<not> ch_sup (p_chan cp) then Inl Null_Deref
     else bind_res (procFindClient (tabs v) (ch_port (p_chan cp)) (-1)) (\<lambda>clid.
       let v = send v (Close_Socket (datain (p_chan cp))) in
       bind_res (if ch_id (p_chan cp)
         then upd_proc (tabs v) k (\<lambda>cp. cp\<lparr>p_chan := (p_chan cp)\<lparr>ch_port := -1, ch_connected := 0, ch_id := False\<rparr>\<rparr>)
         else Inr (tabs v)) (\<lambda>s.
       bind_res (on_tabs v (procDisconnect now (Some s) clid)) (\<lambda>v.
       bind_res (upd_proc (tabs v) k (\<lambda>cp. cp\<lparr>p_chan := (p_chan cp)\<lparr>datain := 0\<rparr>\<rparr>)) (\<lambda>s. Inr (v\<lparr>tabs := s\<rparr>))))))"

definition isTriggerHost :: "string option \<Rightarrow> superv \<Rightarrow> int \<Rightarrow> bool res" where
  "isTriggerHost hostname v clid = bind_res (arr_get (procTable (tabs v)) clid) (\<lambda>cp.
     let host = takeWhile (\<lambda>c. c \<noteq> CHR ''.'') (case hostname of None \<Rightarrow> ''localhost'' | Some h \<Rightarrow> h) in
     Inr (strcaseeq (triggerHost v) ''localhost'' \<and> strcaseeq host (p_host cp) \<or> strcaseeq (triggerHost v) (p_host cp)))"

text \<open>\<open>DCA_DCADEV\<close>: the collector for a PAN, the first connection not in use with the paired host and socket.\<close>

primrec find_dev :: "nat \<Rightarrow> int \<Rightarrow> sup \<Rightarrow> panPair option \<Rightarrow> (int \<times> clientProc) option res" where
  "find_dev 0 i s pp = Inr None"
| "find_dev (Suc n) i s pp = bind_res (arr_get (connTable s) i) (\<lambda>pc. case collector pc of None \<Rightarrow> Inl Null_Deref
     | Some c \<Rightarrow> bind_res (arr_get (procTable s) c) (\<lambda>cp. case pp of None \<Rightarrow> Inl Uninitialised
       | Some p \<Rightarrow> if strcaseeq (p_host cp) (chost p) \<and> (socket p > 0 \<longrightarrow> p_port cp = socket p) \<and> inUse pc \<le> 0
           then Inr (Some (c, cp)) else find_dev n (i + 1) s pp))"

definition dca_dev :: "string \<Rightarrow> superv \<Rightarrow> int \<Rightarrow> superv res" where
  "dca_dev now v fd = bind_res (procFindBySocket (tabs v) fd) (\<lambda>clid.
     if clid < 0 then Inr (send v (Client_Text fd ''localhost:4100''))
     else bind_res (arr_get (procTable (tabs v)) clid) (\<lambda>cp.
       bind_res (find_pair (nat (numPanPairs (tabs v))) 0 (pairTable (tabs v)) (p_host cp) None) (\<lambda>pp.
       bind_res (find_dev (nat (numPanConns (tabs v))) 0 (tabs v) pp) (\<lambda>d. case d of
         Some (c, col) \<Rightarrow> bind_res (supHostLookup (tabs v) (p_host col)) (\<lambda>(ip, host). case ip of None \<Rightarrow> Inl Null_Deref
           | Some a \<Rightarrow> bind_res (upd_proc (tabs v) c (\<lambda>cp. cp\<lparr>p_host := host\<rparr>)) (\<lambda>s.
             bind_res (fit SZMSG (a @ '':'' @ show_int (p_port col))) (\<lambda>dev. Inr (send (v\<lparr>tabs := s\<rparr>) (Client_Text fd dev)))))
       | None \<Rightarrow> disconnect_chan now v clid))))"

text \<open>The count of the first connection of a PAN starts again.\<close>

primrec reset_transfer :: "nat \<Rightarrow> int \<Rightarrow> int \<Rightarrow> panConn list \<Rightarrow> panConn list res" where
  "reset_transfer 0 i clid ct = Inr ct"
| "reset_transfer (Suc n) i clid ct = bind_res (arr_get ct i) (\<lambda>pc.
     if pan pc = Some clid then arr_set ct i (pc\<lparr>bytesTransferred := 0\<rparr>) else reset_transfer n (i + 1) clid ct)"

definition upd_status :: "string \<Rightarrow> superv \<Rightarrow> int \<Rightarrow> string \<Rightarrow> superv res" where
  "upd_status now v clid st = on_tabs v (bind_res (procUpdateStatus now (Some (tabs v)) clid st True) (\<lambda>(stat, t). Inr t))"

definition host_message :: "superv \<Rightarrow> int \<Rightarrow> string \<Rightarrow> string \<Rightarrow> superv res" where
  "host_message v clid obj txt = bind_res (arr_get (procTable (tabs v)) clid) (\<lambda>cp.
     bind_res (fit 128 (p_host cp @ txt)) (\<lambda>m. Inr (message v obj m)))"

definition open_exposure :: "string \<Rightarrow> string option \<Rightarrow> superv \<Rightarrow> int \<Rightarrow> rat \<Rightarrow> superv res" where
  "open_exposure now hostname v clid expnum =
     bind_res (upd_status now v clid ''active'') (\<lambda>v.
     bind_res (host_message v clid ''expStat'' '' 1'') (\<lambda>v.
     bind_res (reset_transfer (nat (numPanConns (tabs v))) 0 clid (connTable (tabs v))) (\<lambda>ct.
     let v = v\<lparr>tabs := (tabs v)\<lparr>connTable := ct\<rparr>, open_exp := open_exp v + 1\<rparr> in
     bind_res (isTriggerHost hostname v clid) (\<lambda>trig.
     bind_res (if trig then bind_res (on_que v (pqAdd now (que v) expnum)) (\<lambda>v. Inr (v\<lparr>close_exp := 0\<rparr>)) else Inr v) (\<lambda>v.
     Inr (message v ''rtdStat'' (if stat_enable v then ''clear'' else ''sclear'')))))))"

definition close_exposure :: "string \<Rightarrow> string option \<Rightarrow> superv \<Rightarrow> int \<Rightarrow> rat \<Rightarrow> superv res" where
  "close_exposure now hostname v clid expnum =
     bind_res (upd_status now v clid ''inactive'') (\<lambda>v.
     let v = v\<lparr>close_exp := close_exp v + 1\<rparr> in
     bind_res (isTriggerHost hostname v clid) (\<lambda>trig.
     bind_res (if trig \<or> close_exp v = 2
       then bind_res (on_que v (pqSetStat (que v) expnum PQ_READY)) (\<lambda>v. Inr (message v ''dataFlag'' ''waiting 1'')) else Inr v) (\<lambda>v.
     host_message v clid ''expStat'' '' 0'')))"

text \<open>A message of the given type and exposure on socket \<open>fd\<close>.  What \<open>DCA_SET\<close> receives is only printed.\<close>

definition superHandleClient :: "string \<Rightarrow> string option \<Rightarrow> superv \<Rightarrow> int \<Rightarrow> 32 word \<Rightarrow> rat \<Rightarrow> superv res" where
  "superHandleClient now hostname v fd mtype expnum =
     (if mtype AND DCA_SET \<noteq> 0 then Inr v
      else if mtype AND DCA_GET \<noteq> 0 then
        (if mtype AND NOT DCA_GET = DCA_DCADEV then dca_dev now v fd else Inr v)
      else if mtype AND DCA_NOOP \<noteq> 0 then Inr (send v (Client_Ack fd))
      else if mtype AND DCA_OPEN \<noteq> 0 then
        bind_res (procFindBySocket (tabs v) fd) (\<lambda>clid.
          if clid < 0 then Inr v
          else if mtype AND DCA_EXP \<noteq> 0 then open_exposure now hostname v clid expnum
          else host_message v clid ''conStat'' '' 1'')
      else if mtype AND DCA_CLOSE \<noteq> 0 then
        bind_res (procFindBySocket (tabs v) fd) (\<lambda>clid.
          if clid < 0 then Inr v
          else if mtype AND DCA_EXP \<noteq> 0 then close_exposure now hostname v clid expnum
          else bind_res (disconnect_chan now v clid) (\<lambda>v. host_message v clid ''conStat'' '' 0''))
      else Inr v)"

section \<open>Events\<close>

datatype event =
    From_Bus int int string
  | From_Client int "32 word" rat
  | Proc_Next

primrec handle :: "string \<Rightarrow> string option \<Rightarrow> event \<Rightarrow> superv \<Rightarrow> superv res" where
  "handle now hostname (From_Bus sender subject msg) v = supIOHandler now v sender subject msg"
| "handle now hostname (From_Client fd mtype expnum) v = superHandleClient now hostname v fd mtype expnum"
| "handle now hostname Proc_Next v = supProcNext v"

text \<open>A sequence of events, each with the time at which it comes in.\<close>

primrec run :: "string option \<Rightarrow> (string \<times> event) list \<Rightarrow> superv \<Rightarrow> superv res" where
  "run hostname [] v = Inr v"
| "run hostname (e # es) v = bind_res (handle (fst e) hostname (snd e) v) (run hostname es)"

end
