(* ===== verification/Dca_Lib.thy ===== *)
theory Dca_Lib
  imports Sup_Super Sm_Cache
begin

text \<open>
  The messages between the client library, the supervisor and the collectors: their layout in
  memory (\<open>include/dcaDhs.h\<close>), sending and receiving (\<open>lib/dcalib/dcaSend.c\<close>, \<open>dcaRecv.c\<close>,
  \<open>dcamsg.c\<close>, \<open>dcaConnectionACK.c\<close>, the check of a channel in \<open>dcaDev.c\<close>).

  \<^item> A message goes over the socket as the bytes of its structure; both ends lay it out alike, with
    32-bit integers in little-endian order.  The bytes of a \<open>double\<close> are a parameter.
  \<^item> A socket is the bytes sent so far and the results of the next calls of \<open>write\<close> and \<open>read\<close>.  A
    list of results that runs out means that the kernel takes all bytes, or that the stream ends.
  \<^item> Sizes are below \<open>2 ^ 31\<close>.
\<close>

section \<open>Bytes\<close>

primrec le :: "nat \<Rightarrow> nat \<Rightarrow> string" where
  "le 0 v = []"
| "le (Suc n) v = char_of v # le n (v div 256)"

primrec un :: "string \<Rightarrow> nat" where
  "un [] = 0"
| "un (c # s) = of_char c + 256 * un s"

definition w32 :: "32 word \<Rightarrow> string" where
  "w32 w = le 4 (unat w)"

definition rd32 :: "string \<Rightarrow> nat \<Rightarrow> 32 word" where
  "rd32 s k = word_of_nat (un (take 4 (drop k s)))"

definition w32s :: "32 word list \<Rightarrow> string" where
  "w32s ws = concat (map w32 ws)"

definition rd32s :: "string \<Rightarrow> nat \<Rightarrow> nat \<Rightarrow> 32 word list" where
  "rd32s s k n = map (\<lambda>i. rd32 s (k + 4 * i)) [0..<n]"

section \<open>Environment\<close>

text \<open>
  What the library asks of the system: the bytes of a \<open>double\<close> and back, what \<open>va_arg\<close> yields
  where no argument was passed, the macro \<open>STATUS_BAD\<close> (of a header that is not here), the variable
  \<open>MONSOON_DHS\<close>, the pid, the own host name, name lookup, and what becomes of the \<open>n\<close>-th connection.
\<close>

datatype rd = Data string | Again | Rd_Err
datatype wr = Wrote nat | Intr | Wr_Err
datatype net_res = No_Socket | Refused | Connected "wr list" "rd list"

record dca_env =
  dbl_rep :: "rat \<Rightarrow> string"
  dbl_val :: "string \<Rightarrow> rat"
  va_rest :: "32 word \<times> 32 word"
  status_bad :: "int \<Rightarrow> bool"
  monsoon_dhs :: "string option"
  dca_pid :: nat
  host_name :: "string option"
  by_name :: "string \<Rightarrow> nat option"
  inet_addr :: "string \<Rightarrow> nat option"
  net :: "nat \<Rightarrow> nat \<Rightarrow> nat \<Rightarrow> net_res"

section \<open>Structures\<close>

definition fp_rep :: "fpConfig \<Rightarrow> string" where
  "fp_rep f = w32s [xSize f, ySize f, xStart f, yStart f, fp_dataType f, xDir f, yDir f, xDetSz f, yDetSz f, xDetCnt f, yDetCnt f]"

definition fp_val :: "string \<Rightarrow> fpConfig" where
  "fp_val s = \<lparr>xSize = rd32 s 0, ySize = rd32 s 4, xStart = rd32 s 8, yStart = rd32 s 12, fp_dataType = rd32 s 16,
     xDir = rd32 s 20, yDir = rd32 s 24, xDetSz = rd32 s 28, yDetSz = rd32 s 32, xDetCnt = rd32 s 36, yDetCnt = rd32 s 40\<rparr>"

definition DHS_MAXFIELDS :: nat where "DHS_MAXFIELDS = 4096"

definition md_rep :: "mdConfig \<Rightarrow> string" where
  "md_rep m = w32 (metaType m) @ w32 (numFields m) @ w32s (fieldSize m) @ w32s (md_dataType m)"

definition md_val :: "string \<Rightarrow> mdConfig" where
  "md_val s = \<lparr>metaType = rd32 s 0, numFields = rd32 s 4, fieldSize = rd32s s 8 DHS_MAXFIELDS,
     md_dataType = rd32s s (8 + 4 * DHS_MAXFIELDS) DHS_MAXFIELDS\<rparr>"

definition SZ_FP :: nat where "SZ_FP = 44"
definition SZ_MD :: nat where "SZ_MD = 32776"

record msgHeader =
  m_type :: "32 word"
  m_whoami :: "32 word"
  m_expnum :: rat
  m_obset :: string
  m_value :: "32 word"
  m_retry :: "32 word"
  m_nbytes :: "32 word"
  m_checksum :: "32 word"
  m_addr :: "32 word"
  m_size :: "32 word"

definition hdr_rep :: "dca_env \<Rightarrow> msgHeader \<Rightarrow> string" where
  "hdr_rep E h = w32 (m_type h) @ w32 (m_whoami h) @ dbl_rep E (m_expnum h) @ m_obset h
     @ w32s [m_value h, m_retry h, m_nbytes h, m_checksum h, m_addr h, m_size h]"

definition hdr_val :: "dca_env \<Rightarrow> string \<Rightarrow> msgHeader" where
  "hdr_val E s = \<lparr>m_type = rd32 s 0, m_whoami = rd32 s 4, m_expnum = dbl_val E (take 8 (drop 8 s)), m_obset = take 80 (drop 16 s),
     m_value = rd32 s 96, m_retry = rd32 s 100, m_nbytes = rd32 s 104, m_checksum = rd32 s 108, m_addr = rd32 s 112, m_size = rd32 s 116\<rparr>"

text \<open>The message types that the supervisor does not know, and the codes of the library.\<close>

definition DCA_INIT :: "32 word" where "DCA_INIT = 0x10"
definition DCA_FAIL :: "32 word" where "DCA_FAIL = 0x20"
definition DCA_CONNECT :: "32 word" where "DCA_CONNECT = 0x800"
definition DCA_META :: "32 word" where "DCA_META = 0x4000"
definition DCA_PIXEL :: "32 word" where "DCA_PIXEL = 0x8000"
definition DCA_FP_CONFIG :: "32 word" where "DCA_FP_CONFIG = 0x20000"
definition DCA_EXP_OBSID :: "32 word" where "DCA_EXP_OBSID = 0x200000"
definition DCA_DIRECTORY :: "32 word" where "DCA_DIRECTORY = 0x400000"
definition DCA_FNAME :: "32 word" where "DCA_FNAME = 0x800000"

lemmas dca_type_defs = DCA_INIT_def DCA_FAIL_def DCA_CONNECT_def DCA_META_def DCA_PIXEL_def DCA_FP_CONFIG_def
  DCA_EXP_OBSID_def DCA_DIRECTORY_def DCA_FNAME_def

definition DCA_ERR :: int where "DCA_ERR = -2"
definition DCA_OK :: int where "DCA_OK = 1"
definition DCA_ALIVE :: int where "DCA_ALIVE = 0x80"
definition DCA_CON :: int where "DCA_CON = 0x1000"
definition DCA_ACK :: "32 word" where "DCA_ACK = 2"
definition DCA_SUPERVISOR :: int where "DCA_SUPERVISOR = 24"
definition DCA_COLLECTOR :: int where "DCA_COLLECTOR = 32"
definition DHS_OK :: int where "DHS_OK = 0"
definition DHS_ERROR :: int where "DHS_ERROR = -1"
definition DHS_IAMPAN :: "32 word" where "DHS_IAMPAN = 0xABCD"
definition DHS_IAMWHO :: "32 word" where "DHS_IAMWHO = 0xFEED"

lemmas dca_code_defs = DCA_ERR_def DCA_OK_def DCA_ALIVE_def DCA_CON_def DCA_ACK_def DCA_SUPERVISOR_def DCA_COLLECTOR_def
  DHS_OK_def DHS_ERROR_def DHS_IAMPAN_def DHS_IAMWHO_def

section \<open>Sending and receiving\<close>

record io =
  sent :: string
  wq :: "wr list"
  rq :: "rd list"

text \<open>\<open>chan_write\<close>: whether all was written, and the bytes that were.\<close>

primrec chan_write :: "wr list \<Rightarrow> string \<Rightarrow> string \<Rightarrow> bool \<times> string \<times> wr list" where
  "chan_write [] rest done = (True, done @ rest, [])"
| "chan_write (w # ws) rest done =
     (if rest = [] then (True, done, w # ws)
      else case w of
        Wrote k \<Rightarrow> chan_write ws (drop (Suc k) rest) (done @ take (Suc k) rest)
      | Intr \<Rightarrow> chan_write ws rest done
      | Wr_Err \<Rightarrow> (False, done, ws))"

definition dcaSend :: "io \<Rightarrow> string \<Rightarrow> int \<times> io" where
  "dcaSend c buf = (case chan_write (wq c) buf [] of (ok, out, ws) \<Rightarrow>
     (if ok then int (length buf) else DCA_ERR, c\<lparr>sent := sent c @ out, wq := ws\<rparr>))"

text \<open>
  The loop of \<open>dcaRecv\<close>: the return value, the bytes that are in the buffer, the rest of the
  stream.  \<open>read\<close> gives at most what is left to read; \<open>EOF\<close> is -1.
\<close>

primrec recv_loop :: "rd list \<Rightarrow> nat \<Rightarrow> string \<Rightarrow> int \<times> string \<times> rd list" where
  "recv_loop [] cur acc = (-1, acc, [])"
| "recv_loop (r # rs) cur acc = (case r of
      Again \<Rightarrow> if cur = 0 then (int (length acc), acc, rs) else recv_loop rs cur acc
    | Rd_Err \<Rightarrow> (DCA_ERR, acc, rs)
    | Data d \<Rightarrow>
        if take cur d = [] then (-1, acc, if d = [] then rs else Data d # rs)
        else if length d < cur then recv_loop rs (cur - length d) (acc @ d)
        else (int (length (acc @ take cur d)), acc @ take cur d, if drop cur d = [] then rs else Data (drop cur d) # rs))"

definition dcaRecv :: "rd list \<Rightarrow> nat \<Rightarrow> int \<times> string \<times> rd list" where
  "dcaRecv rs n = recv_loop rs n []"

section \<open>Messages\<close>

text \<open>\<open>strncpy (dst, s, n)\<close>.\<close>

definition strn :: "nat \<Rightarrow> string \<Rightarrow> string" where
  "strn n s = take n (s @ replicate n NUL)"

text \<open>
  A message has the exposure and observation set of the library's state.  An address and a size
  are fetched by \<open>va_arg\<close>, whether there are such arguments or not.
\<close>

definition dcaFmtMsg :: "dca_env \<Rightarrow> rat \<Rightarrow> string \<Rightarrow> 32 word \<Rightarrow> 32 word \<Rightarrow> msgHeader" where
  "dcaFmtMsg E xid obset vtype whoami =
     (let h = \<lparr>m_type = vtype, m_whoami = whoami, m_expnum = xid, m_obset = strn 80 obset, m_value = 0, m_retry = 0,
         m_nbytes = 0, m_checksum = 0, m_addr = fst (va_rest E), m_size = 0\<rparr>
      in if m_addr h = 0 then h else h\<lparr>m_size := snd (va_rest E)\<rparr>)"

definition dcaSendMsg :: "dca_env \<Rightarrow> io \<Rightarrow> msgHeader \<Rightarrow> int \<times> io" where
  "dcaSendMsg E c h = dcaSend c (hdr_rep E h)"

definition dcaRecvMsg :: "io \<Rightarrow> nat \<Rightarrow> int \<times> string \<times> io" where
  "dcaRecvMsg c n = (case dcaRecv (rq c) n of (istat, buf, rs) \<Rightarrow>
     (if istat \<noteq> int n then DCA_ERR else istat, buf, c\<lparr>rq := rs\<rparr>))"

end
