(* ===== verification/Col_Pan.thy ===== *)
theory Col_Pan
  imports Dca_Lib
begin

text \<open>
  The collector (\<open>collector/colPanHandler.c\<close>, \<open>colSocket.c\<close>): it receives the messages of a PAN and
  stores the metadata and the pixels in pages of the shared memory cache.

  \<^item> \<open>col\<close> is the state: the cache and the shared memory with the contents of the segments by key,
    the global variables, what the connection still delivers, what has been sent, and the local
    variables of the handler as the bytes they consist of.  \<open>c_sem\<close> is the value of the semaphore of
    the cache.  Other processes change it as well (each that opens the cache sets it to 1), which
    matters here where the collector waits for it: \<open>sem_wait\<close> says how that ends, with the value that
    is left when it has got the semaphore, by a signal (the result of \<open>semop\<close> is ignored), or never.
  \<^item> \<open>col_env\<close> holds the environment of the cache, that of the messages, the size of the detector
    (\<open>imageCfg.h\<close> of the instrument), the flag \<open>-temp\<close>, and what the stack holds where a local
    variable is not initialised.
  \<^item> A negative size makes \<open>read\<close> fail, because it stands for more than the address space, and
    \<open>calloc\<close> return NULL.  A division by zero ends the process.
\<close>

datatype cout =
    C_Super string int
  | C_Reply string
  | C_Remove_Handler
  | C_Close

datatype sem_wait =
    Sem_Got nat
  | Sem_Interrupted
  | Sem_Never

record col_env =
  csys :: env
  cwait :: "smCache \<Rightarrow> smCache"
  csem_wait :: sem_wait
  cdca :: dca_env
  ccd_xsize :: int
  ccd_ysize :: int
  temp_coll :: bool
  stack_obset :: string
  stack_dir :: string
  stack_file :: string
  stack_fp :: string
  stack_md :: string

record col =
  ccache :: smCache
  ckern :: kernel
  contents :: "int \<Rightarrow> string"
  c_colID :: string
  c_pageNum :: int
  c_sem :: nat
  c_nbin :: int
  c_in :: "rd list"
  c_out :: "cout list"
  l_expID :: rat
  l_obset :: string
  l_dir :: string
  l_file :: string
  l_fp :: string
  l_md :: string
  l_total :: "32 word"
  l_array :: int

definition c_tell :: "col \<Rightarrow> string \<Rightarrow> int \<Rightarrow> col" where
  "c_tell s txt subject = s\<lparr>c_out := c_out s @ [C_Super txt subject]\<rparr>"

definition c_recv :: "int \<Rightarrow> col \<Rightarrow> int \<times> string \<times> col" where
  "c_recv n s = (if n < 0 then (DCA_ERR, [], s)
     else case dcaRecv (c_in s) (nat n) of (r, got, rs) \<Rightarrow> (r, got, s\<lparr>c_in := rs\<rparr>))"

section \<open>Storing a page\<close>

definition smcMutexOn :: "col_env \<Rightarrow> col \<Rightarrow> col res" where
  "smcMutexOn E s =
     (if c_sem s > 0 then Inr (s\<lparr>c_sem := c_sem s - 1\<rparr>)
      else case csem_wait E of Sem_Got n \<Rightarrow> Inr (s\<lparr>c_sem := n\<rparr>) | Sem_Interrupted \<Rightarrow> Inr s | Sem_Never \<Rightarrow> Inl Diverges)"

definition smcMutexOff :: "col \<Rightarrow> col" where
  "smcMutexOff s = s\<lparr>c_sem := c_sem s + 1\<rparr>"

text \<open>\<open>smcMutexOn\<close>, and a request for a page.\<close>

definition get_page :: "col_env \<Rightarrow> int \<Rightarrow> int \<Rightarrow> col \<Rightarrow> (nat option \<times> col) res" where
  "get_page E ty sz s =
     bind_res (smcMutexOn E s) (\<lambda>s.
     bind_res (smcGetPage (csys E) (cwait E) (ccache s) (ckern s) ty sz True True) (\<lambda>(i, c, k).
     Inr (i, s\<lparr>ccache := c, ckern := k\<rparr>)))"

definition set_hdr :: "col \<Rightarrow> kernel res \<Rightarrow> col res" where
  "set_hdr s r = bind_res r (\<lambda>k. Inr (s\<lparr>ckern := k\<rparr>))"

definition set_both :: "col \<Rightarrow> nat \<Rightarrow> (smcPage \<times> kernel) res \<Rightarrow> col res" where
  "set_both s i r = bind_res r (\<lambda>(p, k). Inr (s\<lparr>ccache := set_page (ccache s) i p, ckern := k\<rparr>))"

text \<open>The observation set and the collector's id, as C strings, and the number of the page.\<close>

definition name_page :: "col_env \<Rightarrow> nat \<Rightarrow> col \<Rightarrow> col res" where
  "name_page E i s =
     (if NUL \<notin> set (l_obset s) then Inl Out_Of_Bounds
      else bind_res (set_hdr s (smcSetObsetID (csys E) (ckern s) (pdata (ccache s) ! i) (cstr_at (l_obset s) 0))) (\<lambda>s.
      bind_res (set_both s i (smcSetColID (csys E) (ckern s) (pdata (ccache s) ! i) (c_colID s))) (\<lambda>s.
      bind_res (set_hdr s (smcSetExpPageNum (csys E) (ckern s) (pdata (ccache s) ! i) (c_pageNum s))) (\<lambda>s.
      Inr (s\<lparr>c_pageNum := c_pageNum s + 1\<rparr>)))))"

text \<open>\<open>smcUnlock\<close>, \<open>smcDetach\<close>, \<open>smcMutexOff\<close>.\<close>

definition leave_page :: "col_env \<Rightarrow> nat \<Rightarrow> col \<Rightarrow> col" where
  "leave_page E i s =
     (case smcDetach (csys E) (set_page (ccache s) i (smcUnlock (csys E) (pdata (ccache s) ! i))) (ckern s) i False of (c, k) \<Rightarrow>
        smcMutexOff (s\<lparr>ccache := c, ckern := k\<rparr>))"

definition store_meta :: "col_env \<Rightarrow> int \<Rightarrow> string \<Rightarrow> nat \<Rightarrow> col \<Rightarrow> col res" where
  "store_meta E n blk i s =
     bind_res (set_hdr s (smcSetMDConfig (csys E) (ckern s) (pdata (ccache s) ! i) (md_val (l_md s)))) (\<lambda>s.
     bind_res (set_hdr s (smcSetFPConfig (csys E) (ckern s) (pdata (ccache s) ! i) (fp_val (l_fp s)))) (\<lambda>s.
     bind_res (set_both s i (smcSetExpID (csys E) (ckern s) (pdata (ccache s) ! i) (l_expID s))) (\<lambda>s.
     bind_res (name_page E i s) (\<lambda>s.
     if smcGetPageData (csys E) (Some (pdata (ccache s) ! i)) = None \<or> n < 0 then Inl Null_Deref
     else Inr (leave_page E i (s\<lparr>contents := (contents s)(memKey (pdata (ccache s) ! i) := blk)\<rparr>))))))"

definition meta_msg :: "col_env \<Rightarrow> string \<Rightarrow> col \<Rightarrow> (bool \<times> col) res" where
  "meta_msg E buf s =
     (case c_recv 120 s of (_, got, s) \<Rightarrow>
      let n = sint (rd32 (overlay buf got) 0) in
      case c_recv n (c_tell s ''Reading metadata...'' MB_STATUS) of (_, got, s) \<Rightarrow>
      let blk = overlay (replicate (nat n) NUL) got in
      case c_recv (int SZ_MD) s of (_, got, s) \<Rightarrow>
      bind_res (get_page E TY_META n (s\<lparr>l_md := overlay (l_md s) got, l_total := l_total s + word_of_int n\<rparr>)) (\<lambda>(io, s).
      case io of None \<Rightarrow> Inr (False, s)
      | Some i \<Rightarrow> bind_res (store_meta E n blk i s) (\<lambda>s. Inr (True, s))))"

text \<open>The binning is reported to the supervisor.\<close>

definition bin_factor :: "col_env \<Rightarrow> fpConfig \<Rightarrow> int res" where
  "bin_factor E f =
     (let x = sint (xSize f); y = sint (ySize f) in
      if x \<noteq> ccd_xsize E \<and> y \<noteq> ccd_ysize E
      then (if y = 0 then Inl Exit_Process else Inr (sgn (ccd_ysize E) * sgn y * (\<bar>ccd_ysize E\<bar> div \<bar>y\<bar>)))
      else Inr 1)"

definition store_pixels :: "col_env \<Rightarrow> 32 word \<Rightarrow> nat \<Rightarrow> col \<Rightarrow> col res" where
  "store_pixels E imSize i s =
     bind_res (set_both (s\<lparr>l_array := l_array s + 1\<rparr>) i (smcSetExpID (csys E) (ckern s) (pdata (ccache s) ! i) (l_expID s))) (\<lambda>s.
     bind_res (set_hdr s (smcSetFPConfig (csys E) (ckern s) (pdata (ccache s) ! i) (fp_val (l_fp s)))) (\<lambda>s.
     bind_res (name_page E i s) (\<lambda>s.
     if smcGetPageData (csys E) (Some (pdata (ccache s) ! i)) = None then Inl Null_Deref
     else case c_recv (sint imSize) s of (_, got, s) \<Rightarrow>
       Inr (leave_page E i (s\<lparr>contents := (contents s)(memKey (pdata (ccache s) ! i) := overlay (replicate (unat imSize) NUL) got)\<rparr>)))))"

definition pixel_msg :: "col_env \<Rightarrow> col \<Rightarrow> (bool \<times> col) res" where
  "pixel_msg E s =
     (case c_recv (int SZ_FP) s of (_, got, s) \<Rightarrow>
      let s = s\<lparr>l_fp := overlay (l_fp s) got\<rparr>; f = fp_val (l_fp s); imSize = ySize f * xSize f * 4;
          s = c_tell (s\<lparr>l_total := l_total s + imSize\<rparr>) ''Reading Pixel data...'' MB_STATUS in
      bind_res (bin_factor E f) (\<lambda>nb.
      bind_res (get_page E TY_DATA (sint imSize) (c_tell (s\<lparr>c_nbin := nb\<rparr>) (''nbin '' @ show_int nb) MB_SET)) (\<lambda>(io, s).
      case io of None \<Rightarrow> Inl Null_Deref
      | Some i \<Rightarrow> bind_res (store_pixels E imSize i s) (\<lambda>s. Inr (True, s)))))"

section \<open>The other messages\<close>

definition fp_msg :: "32 word \<Rightarrow> col \<Rightarrow> col" where
  "fp_msg mtype s = (if mtype AND DCA_FP_CONFIG = 0 then s
     else case c_recv (int SZ_FP) s of (_, got, s) \<Rightarrow> s\<lparr>l_fp := overlay (l_fp s) got\<rparr>)"

definition ack_of :: "string \<Rightarrow> string" where
  "ack_of buf = w32 DCA_ACK @ w32 (word_of_int DCA_COLLECTOR) @ drop 8 buf"

text \<open>256 bytes are received into an array of 120 bytes, which must then hold a C string.\<close>

definition recv_name :: "string \<Rightarrow> col \<Rightarrow> (string \<times> col) res" where
  "recv_name old s = (case c_recv 256 s of (_, got, s) \<Rightarrow>
     if length got > 120 then Inl Buffer_Overflow
     else let a = overlay old got in if NUL \<notin> set a then Inl Out_Of_Bounds else Inr (a, s))"

definition dir_msg :: "col \<Rightarrow> col res" where
  "dir_msg s = bind_res (recv_name (l_dir s) s) (\<lambda>(a, s). Inr (s\<lparr>l_dir := a, ccache := smcSetDir (ccache s) (cstr_at a 0)\<rparr>))"

definition fname_msg :: "col \<Rightarrow> col res" where
  "fname_msg s = bind_res (recv_name (l_file s) s) (\<lambda>(a, s). Inr (s\<lparr>l_file := a, ccache := smcSetFRoot (ccache s) (cstr_at a 0)\<rparr>))"

definition open_msg :: "32 word \<Rightarrow> col \<Rightarrow> col" where
  "open_msg mtype s =
     (if mtype AND DCA_CONNECT \<noteq> 0 then s
      else if mtype AND DCA_EXP \<noteq> 0 then (c_tell s ''active'' MB_STATUS)\<lparr>l_total := 0, c_pageNum := 0\<rparr>
      else s)"

definition close_msg :: "col_env \<Rightarrow> 32 word \<Rightarrow> col \<Rightarrow> (bool \<times> col) res" where
  "close_msg E mtype s0 =
     (let s = s0\<lparr>l_array := 0\<rparr> in
      if mtype AND DCA_CONNECT \<noteq> 0 then
        (let s = c_tell (c_tell s ''connected 0'' MB_SET) ''Closing connection...'' MB_STATUS in
         if temp_coll E then Inl Exit_Process
         else Inr (False, s\<lparr>c_out := c_out s @ [C_Remove_Handler, C_Close]\<rparr>))
      else if mtype AND DCA_EXP \<noteq> 0 then
        Inr (False, c_tell (c_tell (c_tell s ''inactive'' MB_STATUS) ''Waiting for input...'' MB_STATUS)
          (''transfer '' @ show_int (sint (l_total s))) MB_SET)
      else Inr (True, s))"

text \<open>A message with header \<open>buf\<close>: whether the handler goes on, and the state.\<close>

definition col_msg :: "col_env \<Rightarrow> string \<Rightarrow> col \<Rightarrow> (bool \<times> col) res" where
  "col_msg E buf s =
     (let h = hdr_val (cdca E) buf; t = m_type h; on = (\<lambda>r. bind_res r (\<lambda>s. Inr (True, s))) in
      if t AND DCA_SET \<noteq> 0 then Inr (True, fp_msg t s)
      else if t AND DCA_NOOP \<noteq> 0 then Inr (True, s\<lparr>c_out := c_out s @ [C_Reply (ack_of buf)]\<rparr>)
      else if t AND DCA_DIRECTORY \<noteq> 0 then on (dir_msg s)
      else if t AND DCA_FNAME \<noteq> 0 then on (fname_msg s)
      else if t AND DCA_EXP_OBSID \<noteq> 0 then Inr (True, s\<lparr>l_expID := m_expnum h, l_obset := m_obset h\<rparr>)
      else if t AND DCA_META \<noteq> 0 then meta_msg E buf s
      else if t AND DCA_PIXEL \<noteq> 0 then pixel_msg E s
      else if t AND DCA_INIT \<noteq> 0 then Inr (True, s)
      else if t AND DCA_OPEN \<noteq> 0 then Inr (True, open_msg t s)
      else if t AND DCA_CLOSE \<noteq> 0 then close_msg E t s
      else Inr (True, s))"

section \<open>The loop of the handler\<close>

text \<open>The bytes that the connection still delivers; no step makes them more.\<close>

primrec avail :: "rd list \<Rightarrow> nat" where
  "avail [] = 0"
| "avail (r # rs) = (case r of Data d \<Rightarrow> length d | _ \<Rightarrow> 0) + avail rs"

lemma recv_loop_avail:
  "recv_loop rs cur acc = (r, got, rs') \<Longrightarrow> avail rs' + length got = avail rs + length acc \<and> (r > 0 \<longrightarrow> r = int (length got))"
proof (induction rs arbitrary: cur acc)
  case (Cons x xs)
  show ?case
  proof (cases x)
    case (Data d)
    then show ?thesis using Cons by (auto split: if_splits)
  qed (use Cons in \<open>auto simp: DCA_ERR_def split: if_splits\<close>)
qed simp

lemma c_recv_avail:
  assumes "c_recv n s = (r, got, s')"
  shows "avail (c_in s') + length got = avail (c_in s)" "r > 0 \<Longrightarrow> r = int (length got)"
  using assms recv_loop_avail [of "c_in s" "nat n" "[]"] by (auto simp: c_recv_def dcaRecv_def DCA_ERR_def split: if_splits prod.splits)

lemma c_recv_le: "c_recv n s = (r, got, s') \<Longrightarrow> avail (c_in s') \<le> avail (c_in s)"
  using c_recv_avail(1) by fastforce

lemma keeps_in:
  "get_page E ty sz s = Inr (i, s') \<Longrightarrow> c_in s' = c_in s"
  "set_hdr s r = Inr s' \<Longrightarrow> c_in s' = c_in s"
  "set_both s i' r' = Inr s' \<Longrightarrow> c_in s' = c_in s"
  "c_in (leave_page E j s) = c_in s"
  "c_in (c_tell s txt subject) = c_in s"
  by (auto simp: get_page_def smcMutexOn_def smcMutexOff_def set_hdr_def set_both_def leave_page_def c_tell_def bind_res_Inr_iff split: if_splits prod.splits sem_wait.splits)

lemma name_page_in: "name_page E i s = Inr s' \<Longrightarrow> c_in s' = c_in s"
  by (auto simp: name_page_def bind_res_Inr_iff dest!: keeps_in(2, 3) split: if_splits)

lemma store_meta_in: "store_meta E n blk i s = Inr s' \<Longrightarrow> c_in s' = c_in s"
  by (auto simp: store_meta_def bind_res_Inr_iff keeps_in(4) dest!: keeps_in(2, 3) name_page_in split: if_splits)

lemma store_pixels_avail:
  assumes "store_pixels E sz i s = Inr s'"
  shows "avail (c_in s') \<le> avail (c_in s)"
proof -
  obtain s1 r got s2 where 1: "c_in s1 = c_in s" "c_recv (sint sz) s1 = (r, got, s2)" "c_in s' = c_in s2"
    using assms unfolding store_pixels_def bind_res_Inr_iff
    by (auto simp: keeps_in(4) dest!: keeps_in(2, 3) name_page_in split: if_splits prod.splits)
  then show ?thesis using c_recv_le [OF 1(2)] by simp
qed

lemma meta_msg_avail:
  assumes "meta_msg E buf s = Inr (b, s')"
  shows "avail (c_in s') \<le> avail (c_in s)"
proof -
  obtain r1 g1 s1 where 1: "c_recv 120 s = (r1, g1, s1)" by (metis prod_cases3)
  let ?n = "sint (rd32 (overlay buf g1) 0)"
  obtain r2 g2 s2 where 2: "c_recv ?n (c_tell s1 ''Reading metadata...'' MB_STATUS) = (r2, g2, s2)" by (metis prod_cases3)
  obtain r3 g3 s3 where 3: "c_recv (int SZ_MD) s2 = (r3, g3, s3)" by (metis prod_cases3)
  let ?blk = "overlay (replicate (nat ?n) NUL) g2" and ?s = "s3\<lparr>l_md := overlay (l_md s3) g3, l_total := l_total s3 + word_of_int ?n\<rparr>"
  obtain io s4 where 4: "get_page E TY_META ?n ?s = Inr (io, s4)"
    and 5: "(case io of None \<Rightarrow> Inr (False, s4) | Some i \<Rightarrow> bind_res (store_meta E ?n ?blk i s4) (\<lambda>s. Inr (True, s))) = Inr (b, s')"
    using assms by (auto simp: meta_msg_def Let_def 1 2 3 bind_res_Inr_iff)
  have "c_in s' = c_in s4" using 5 by (auto simp: bind_res_Inr_iff dest!: store_meta_in split: option.splits)
  then show ?thesis using keeps_in(1) [OF 4] c_recv_le [OF 1] c_recv_le [OF 2] c_recv_le [OF 3] by (simp add: keeps_in(5))
qed

lemma pixel_msg_avail:
  assumes "pixel_msg E s = Inr (b, s')"
  shows "avail (c_in s') \<le> avail (c_in s)"
proof -
  obtain r1 g1 s1 where 1: "c_recv (int SZ_FP) s = (r1, g1, s1)" by (metis prod_cases3)
  let ?s = "s1\<lparr>l_fp := overlay (l_fp s1) g1\<rparr>"
  let ?f = "fp_val (l_fp ?s)"
  let ?sz = "ySize ?f * xSize ?f * 4"
  let ?t = "c_tell (?s\<lparr>l_total := l_total ?s + ?sz\<rparr>) ''Reading Pixel data...'' MB_STATUS"
  obtain nb io s4 where 4: "get_page E TY_DATA (sint ?sz) (c_tell (?t\<lparr>c_nbin := nb\<rparr>) (''nbin '' @ show_int nb) MB_SET) = Inr (io, s4)"
    and 5: "(case io of None \<Rightarrow> Inl Null_Deref | Some i \<Rightarrow> bind_res (store_pixels E ?sz i s4) (\<lambda>s. Inr (True, s))) = Inr (b, s')"
    using assms by (auto simp: pixel_msg_def Let_def 1 bind_res_Inr_iff)
  have "avail (c_in s') \<le> avail (c_in s4)" using 5 by (auto simp: bind_res_Inr_iff dest!: store_pixels_avail split: option.splits)
  then show ?thesis using keeps_in(1) [OF 4] c_recv_le [OF 1] by (simp add: keeps_in(5))
qed

lemma recv_name_avail: "recv_name old s = Inr (a, s') \<Longrightarrow> avail (c_in s') \<le> avail (c_in s)"
  by (auto simp: recv_name_def Let_def split: prod.splits if_splits dest!: c_recv_le)

lemma col_msg_avail: "col_msg E buf s = Inr (b, s') \<Longrightarrow> avail (c_in s') \<le> avail (c_in s)"
  by (auto simp: col_msg_def Let_def fp_msg_def dir_msg_def fname_msg_def open_msg_def close_msg_def bind_res_Inr_iff keeps_in(5)
      split: if_splits prod.splits dest!: meta_msg_avail pixel_msg_avail recv_name_avail c_recv_le)

text \<open>The loop ends when receiving the next header fails.\<close>

function col_loop :: "col_env \<Rightarrow> string \<Rightarrow> col \<Rightarrow> (int \<times> col) res" where
  "col_loop E buf s = (case col_msg E buf s of
      Inl f \<Rightarrow> Inl f
    | Inr (on, s) \<Rightarrow>
        if \<not> on then Inr (0, s)
        else case c_recv 120 s of (r, got, s) \<Rightarrow> if r > 0 then col_loop E got s else Inr (0, s))"
  by pat_completeness auto
termination
proof (relation "measure (\<lambda>(E, buf, s). avail (c_in s))", goal_cases)
  case (2 E buf s y on s1 r gs got s2)
  then have "avail (c_in s1) \<le> avail (c_in s)" using col_msg_avail [of E buf s True s1] by simp
  moreover have "c_recv 120 s1 = (r, got, s2)" using 2 by simp
  then have "avail (c_in s2) + length got = avail (c_in s1)" "r = int (length got)" using c_recv_avail 2 by blast+
  moreover have "0 < length got" using 2 calculation(3) by simp
  ultimately have "avail (c_in s2) < avail (c_in s)" by linarith
  then show ?case using 2(5) [symmetric] by simp
qed simp

declare col_loop.simps [simp del]

text \<open>The handler where it receives the next header.\<close>

definition col_run :: "col_env \<Rightarrow> col \<Rightarrow> (int \<times> col) res" where
  "col_run E s = (case c_recv 120 s of (r, got, s) \<Rightarrow> if r > 0 then col_loop E got s else Inr (0, s))"

text \<open>\<open>col_disconnectClient\<close>, \<open>colPanHandler\<close>.\<close>

definition col_disconnectClient :: "col \<Rightarrow> col" where
  "col_disconnectClient s = (let s = s\<lparr>c_out := c_out s @ [C_Remove_Handler]\<rparr>;
     s = c_tell (c_tell s ''connected 0'' MB_SET) ''PAN disconnected...'' MB_STATUS in s\<lparr>c_out := c_out s @ [C_Close]\<rparr>)"

definition colPanHandler :: "col_env \<Rightarrow> col \<Rightarrow> (int \<times> col) res" where
  "colPanHandler E s =
     (case c_recv 120 (s\<lparr>l_expID := 0, l_obset := stack_obset E, l_dir := stack_dir E, l_file := stack_file E, l_fp := stack_fp E,
         l_md := stack_md E, l_total := 0, l_array := 0\<rparr>) of (r, got, s) \<Rightarrow>
      if r \<noteq> 120 then Inr (-1, if r = -1 then col_disconnectClient s else s)
      else col_loop E got s)"

definition col_connectClient :: "col \<Rightarrow> col" where
  "col_connectClient s = c_tell (c_tell s ''connected 1'' MB_SET) ''PAN connected...'' MB_STATUS"

end
