(* ===== verification/Dhs_Lib.thy ===== *)
theory Dhs_Lib
  imports Dca_Lib
begin

text \<open>
  The library that a pixel acquisition node (PAN) links to send its data: the channels to the
  supervisor and to a collector (\<open>lib/dcalib\<close>) and the calls of an exposure (\<open>lib/dhslib\<close>).

  \<^item> \<open>dhs_lib\<close> is the state: the global variables \<open>dhs\<close>, \<open>dhsNW\<close>, \<open>dcaHost\<close> and those of
    \<open>dhsUtilAux.c\<close> and \<open>dcaSimulator.c\<close>, and the number of sockets opened so far.  \<open>utilDIR\<close> and
    \<open>utilFILENAME\<close> are the bytes of the arrays.
  \<^item> The text of the response messages and the prints are left out.  A closed descriptor is a flag
    of its channel.  An exposure call returns the status and the state.
\<close>

record chan =
  ch_io :: io
  is_open :: bool
  ch_node :: string
  ch_port :: int
  ch_name :: string
  ch_connected :: int

record dhs_lib =
  d_expID :: rat
  d_obset :: string
  d_name :: string
  d_superNode :: string
  d_superPort :: int
  d_collNode :: string
  d_collPort :: int
  superch :: "chan option"
  collch :: "chan option"
  nopen :: int
  utilDIR :: string
  utilFILENAME :: string
  utilFLAG :: int
  simulator :: int
  sim_init :: int
  hostinfo :: "(string \<times> string \<times> int) option"
  nsockets :: nat

definition SZNODE :: nat where "SZNODE = 120"
definition SZ_DEV :: nat where "SZ_DEV = 80"
definition DHS_MAXSTR :: nat where "DHS_MAXSTR = 128"

definition dcaSimulator :: "dhs_lib \<Rightarrow> int" where
  "dcaSimulator L = simulator L"

text \<open>The mode can be set once.\<close>

definition dcaSetSimMode :: "dhs_lib \<Rightarrow> int \<Rightarrow> dhs_lib" where
  "dcaSetSimMode L mode = (let L' = L\<lparr>sim_init := sim_init L + 1\<rparr> in if sim_init L = 0 then L'\<lparr>simulator := mode\<rparr> else L')"

definition dcaGetSimMode :: "dhs_lib \<Rightarrow> int" where
  "dcaGetSimMode L = dcaSimulator L"

section \<open>The own host name\<close>

text \<open>\<open>dcaInitDCAHost\<close>, \<open>dcaSetDCAHost\<close>: the name without its domain, which must have an address.\<close>

definition dcaSetDCAHost :: "dca_env \<Rightarrow> (string \<times> string \<times> int) \<Rightarrow> (string \<times> string \<times> int) res" where
  "dcaSetDCAHost E h =
     (let hname = takeWhile (\<lambda>c. c \<noteq> CHR ''.'') (take 63 (case host_name E of None \<Rightarrow> [] | Some n \<Rightarrow> n)) in
      if by_name E hname = None then Inl Exit_Process else Inr (hname, snd h))"

definition dcaInitDCAHost :: "dca_env \<Rightarrow> dhs_lib \<Rightarrow> dhs_lib res" where
  "dcaInitDCAHost E L = (case hostinfo L of Some h \<Rightarrow> Inr L
     | None \<Rightarrow> bind_res (dcaSetDCAHost E ([], [], 0)) (\<lambda>h. Inr (L\<lparr>hostinfo := Some h\<rparr>)))"

definition dcaSetSimHost :: "dca_env \<Rightarrow> dhs_lib \<Rightarrow> string \<Rightarrow> int \<Rightarrow> dhs_lib res" where
  "dcaSetSimHost E L simhost flag = bind_res (dcaInitDCAHost E L) (\<lambda>L.
     if length simhost \<ge> 64 then Inl Buffer_Overflow
     else Inr (L\<lparr>hostinfo := map_option (\<lambda>(act, _, _). (act, simhost, flag)) (hostinfo L)\<rparr>))"

definition dcaUseSim :: "dhs_lib \<Rightarrow> bool" where
  "dcaUseSim L = (case hostinfo L of Some (_, _, u) \<Rightarrow> u \<noteq> 0 | None \<Rightarrow> False)"

definition dcaGetDCAHost :: "dhs_lib \<Rightarrow> string" where
  "dcaGetDCAHost L = (case hostinfo L of Some (act, sim, u) \<Rightarrow> if u \<noteq> 0 then sim else act | None \<Rightarrow> [])"

section \<open>Opening the supervisor\<close>

text \<open>
  \<open>dcaSupParseNode\<close>: the address and the port of \<open>host\<close>.  The scan for the port starts behind
  the colon; the host that it scans is in a buffer of zeros, so that it stops there without one.
\<close>

definition local_addr :: "dca_env \<Rightarrow> nat option res" where
  "local_addr E = (case by_name E ''localhost'' of None \<Rightarrow> Inl Uninitialised | Some a \<Rightarrow> Inr (Some a))"

definition node_addr :: "dca_env \<Rightarrow> string \<Rightarrow> nat option res" where
  "node_addr E host_str = (case host_name E of
      None \<Rightarrow> local_addr E
    | Some lhost \<Rightarrow> bind_res (fit 120 host_str) (\<lambda>h.
        if lhost = h then local_addr E
        else Inr (if h \<noteq> [] \<and> isdigit (hd h) then inet_addr E h else by_name E h)))"

definition dcaSupParseNode :: "dca_env \<Rightarrow> string \<Rightarrow> int \<Rightarrow> (nat \<times> nat) option res" where
  "dcaSupParseNode E host port =
     (let host_str = takeWhile (\<lambda>c. c \<noteq> CHR '':'') host in
      bind_res (node_addr E host_str) (\<lambda>ao.
      case ao of None \<Rightarrow> Inr None
      | Some a \<Rightarrow>
          if port > 0 then Inr (Some (a, nat port mod 65536))
          else if host_name E = None then Inl Uninitialised
          else let port_str = takeWhile (\<lambda>c. c \<noteq> CHR '':'') (drop (Suc (length host_str)) host) in
            if port_str \<noteq> [] \<and> isdigit (hd port_str) then Inr (Some (a, nat (atoi port_str) mod 65536)) else Inr None))"

text \<open>The next socket; a failed connection leaves no descriptor here.\<close>

definition dcaSupOpenSocket :: "dca_env \<Rightarrow> dhs_lib \<Rightarrow> string \<Rightarrow> int \<Rightarrow> (io option \<times> dhs_lib) res" where
  "dcaSupOpenSocket E L host port = bind_res (dcaSupParseNode E host port) (\<lambda>ap.
     case ap of None \<Rightarrow> Inr (None, L)
     | Some (a, p) \<Rightarrow> (let L' = L\<lparr>nsockets := nsockets L + 1\<rparr> in
         case net E (nsockets L) a p of
           Connected ws rs \<Rightarrow> Inr (Some \<lparr>sent = [], wq = ws, rq = rs\<rparr>, L')
         | _ \<Rightarrow> Inr (None, L')))"

text \<open>\<open>dcaSupSockWrite\<close> is \<open>chan_write\<close>; \<open>dcaSupSockRead\<close> stops at the end of the stream and at errors.\<close>

definition dcaSupSockWrite :: "io \<Rightarrow> string \<Rightarrow> bool \<times> io" where
  "dcaSupSockWrite c buf = (case chan_write (wq c) buf [] of (ok, out, ws) \<Rightarrow> (ok, c\<lparr>sent := sent c @ out, wq := ws\<rparr>))"

primrec dcaSupSockRead :: "rd list \<Rightarrow> nat \<Rightarrow> string \<Rightarrow> string" where
  "dcaSupSockRead [] nleft acc = acc"
| "dcaSupSockRead (r # rs) nleft acc =
     (if nleft = 0 then acc
      else case r of Again \<Rightarrow> acc | Rd_Err \<Rightarrow> acc
      | Data d \<Rightarrow> if d = [] then acc else dcaSupSockRead rs (nleft - length d) (acc @ take nleft d))"

definition sup_msg :: "string \<Rightarrow> string res" where
  "sup_msg s = bind_res (fit 120 s) (\<lambda>s. Inr (strn 120 s))"

definition dcaSupSendStatus :: "io \<Rightarrow> string \<Rightarrow> (int \<times> io) res" where
  "dcaSupSendStatus c msg = bind_res (sup_msg (''sup_status '' @ msg)) (\<lambda>m.
     case dcaSupSockWrite c m of (ok, c) \<Rightarrow> Inr (if ok then 0 else -1, c))"

definition dcaSupCloseConn :: "io \<Rightarrow> io" where
  "dcaSupCloseConn c = c\<lparr>sent := sent c @ ''sup_quit''\<rparr>"

text \<open>
  The negotiation: ask on the public port, read where to connect again (from the 15th byte of the
  reply on), connect there, and say that the client is ready.
\<close>

definition dcaSupOpenConn :: "dca_env \<Rightarrow> dhs_lib \<Rightarrow> string \<Rightarrow> int \<Rightarrow> string \<Rightarrow> (io option \<times> dhs_lib) res" where
  "dcaSupOpenConn E L host port name =
     bind_res (dcaSupOpenSocket E L host port) (\<lambda>(fd, L).
     case fd of None \<Rightarrow> Inr (None, L)
     | Some fd \<Rightarrow>
        bind_res (dcaInitDCAHost E L) (\<lambda>L.
        let hostname = dcaGetDCAHost L; pid = show_nat (dca_pid E) in
        bind_res (sup_msg (''sup_connect '' @ name @ ''@'' @
            (if CHR ''.'' \<notin> set hostname then hostname else hostname @ ''.'') @ '':'' @ pid)) (\<lambda>msg.
        case dcaSupSockWrite fd msg of
          (False, _) \<Rightarrow> Inr (None, L)
        | (True, fd) \<Rightarrow>
            let reply = strn 120 (dcaSupSockRead (rq fd) 120 []) in
            if NUL \<notin> set (drop 14 reply) then Inl Out_Of_Bounds
            else bind_res (dcaSupOpenSocket E L (cstr_at reply 14) (-1)) (\<lambda>(rfd, L).
              case rfd of None \<Rightarrow> Inr (None, L)
              | Some rfd \<Rightarrow>
                  bind_res (sup_msg (''sup_ready rc_'' @ name @ ''@'' @ hostname @ ''.:'' @ pid)) (\<lambda>msg.
                  case dcaSupSockWrite rfd msg of
                    (False, _) \<Rightarrow> Inr (None, L)
                  | (True, rfd) \<Rightarrow> bind_res (dcaSupSendStatus rfd ''Client ready ...'') (\<lambda>(_, rfd). Inr (Some rfd, L)))))))"

section \<open>Channels\<close>

text \<open>Sending on a channel; a closed descriptor is an error.\<close>

definition ch_send :: "chan \<Rightarrow> string \<Rightarrow> int \<times> chan" where
  "ch_send c buf = (if \<not> is_open c then (DCA_ERR, c)
     else case dcaSend (ch_io c) buf of (s, x) \<Rightarrow> (s, c\<lparr>ch_io := x\<rparr>))"

definition ch_msg :: "dca_env \<Rightarrow> dhs_lib \<Rightarrow> chan \<Rightarrow> 32 word \<Rightarrow> 32 word \<Rightarrow> int \<times> chan" where
  "ch_msg E L c vtype whoami = ch_send c (hdr_rep E (dcaFmtMsg E (d_expID L) (d_obset L) vtype whoami))"

text \<open>Receiving on a channel: \<open>select\<close> fails on a closed descriptor, over and over.\<close>

definition ch_recv :: "chan \<Rightarrow> nat \<Rightarrow> (int \<times> string \<times> chan) res" where
  "ch_recv c n = (if \<not> is_open c then Inl Diverges
     else case dcaRecvMsg (ch_io c) n of (s, buf, x) \<Rightarrow> Inr (s, buf, c\<lparr>ch_io := x\<rparr>))"

definition dcaSendfpConfig :: "dca_env \<Rightarrow> dhs_lib \<Rightarrow> chan \<Rightarrow> 32 word \<Rightarrow> fpConfig \<Rightarrow> int \<times> chan" where
  "dcaSendfpConfig E L c whoami cfg =
     (case ch_msg E L c (DCA_SET OR DCA_FP_CONFIG) whoami of (s, c) \<Rightarrow>
        if s = DCA_ERR then (DCA_ERR, c) else ch_send c (fp_rep cfg))"

definition dcaConnectionACK :: "dca_env \<Rightarrow> dhs_lib \<Rightarrow> chan \<Rightarrow> (int \<times> chan) res" where
  "dcaConnectionACK E L c = (case ch_msg E L c DCA_NOOP 0 of (_, c) \<Rightarrow>
     bind_res (ch_recv c 120) (\<lambda>(s, _, c). Inr (if s > 0 then DCA_ALIVE else DCA_ERR, c)))"

definition dcaValidateChannel :: "dca_env \<Rightarrow> dhs_lib \<Rightarrow> chan \<Rightarrow> (int \<times> chan) res" where
  "dcaValidateChannel E L c = (case ch_msg E L c DCA_NOOP 0 of (s, c) \<Rightarrow>
     if s = DCA_ERR then Inr (DCA_ERR, c) else bind_res (ch_recv c 120) (\<lambda>(s, _, c). Inr (s, c)))"

text \<open>The collector's device from the supervisor, its node and its port.\<close>

definition dcaGetDCADev :: "dca_env \<Rightarrow> dhs_lib \<Rightarrow> chan \<Rightarrow> (string \<times> chan) res" where
  "dcaGetDCADev E L c = (case ch_msg E L c (DCA_GET OR DCA_DCADEV) 0 of (_, c) \<Rightarrow>
     bind_res (ch_recv c 120) (\<lambda>(_, buf, c). Inr (strn 120 buf, c)))"

definition dcaGetNode :: "string \<Rightarrow> string res" where
  "dcaGetNode dev = fit SZ_DEV (takeWhile (\<lambda>c. c \<noteq> CHR '':'') dev)"

definition dcaGetPort :: "string \<Rightarrow> int res" where
  "dcaGetPort dev = (case dropWhile (\<lambda>c. c \<noteq> CHR '':'') dev of [] \<Rightarrow> Inl Null_Deref | _ # t \<Rightarrow> Inr (atoi t))"

text \<open>
  \<open>dcaSockConnect\<close>, \<open>dcaOpenChannel\<close>: the socket descriptor stays set when the connection fails
  and it has been closed; only a failing \<open>socket\<close> gives \<open>ERROR\<close>.
\<close>

definition sock_addr :: "dca_env \<Rightarrow> string \<Rightarrow> nat option res" where
  "sock_addr E node =
     (if node \<noteq> [] \<and> (isalnum (hd node) \<and> \<not> isdigit (hd node))
      then (case by_name E node of None \<Rightarrow> Inl Null_Deref | Some a \<Rightarrow> Inr (Some a))
      else Inr (inet_addr E node))"

definition dcaOpenChannel :: "dca_env \<Rightarrow> dhs_lib \<Rightarrow> chan \<Rightarrow> (bool \<times> chan \<times> dhs_lib) res" where
  "dcaOpenChannel E L c =
     bind_res (dcaInitDCAHost E L) (\<lambda>L.
     bind_res (sock_addr E (if dcaUseSim L then ''localhost'' else ch_node c)) (\<lambda>a.
     let L' = L\<lparr>nsockets := nsockets L + 1\<rparr>; gone = c\<lparr>is_open := False\<rparr> in
     case a of None \<Rightarrow> Inr (True, gone, L')
     | Some a \<Rightarrow> (case net E (nsockets L) a (nat (ch_port c) mod 65536) of
          No_Socket \<Rightarrow> Inr (False, gone, L')
        | Refused \<Rightarrow> Inr (True, gone, L')
        | Connected ws rs \<Rightarrow> Inr (True, c\<lparr>is_open := True, ch_io := \<lparr>sent = [], wq = ws, rq = rs\<rparr>\<rparr>, L'))))"

definition new_chan :: "string \<Rightarrow> int \<Rightarrow> string \<Rightarrow> chan" where
  "new_chan n p nm = \<lparr>ch_io = \<lparr>sent = [], wq = [], rq = []\<rparr>, is_open = False, ch_node = n, ch_port = p, ch_name = nm, ch_connected = 0\<rparr>"

definition init_super :: "dca_env \<Rightarrow> dhs_lib \<Rightarrow> (int \<times> dhs_lib) res" where
  "init_super E L =
     (let c = (case superch L of Some c \<Rightarrow> c | None \<Rightarrow> new_chan (d_superNode L) (d_superPort L) []);
          (s, c) = (if ch_connected c > 0 then ch_msg E L c DCA_NOOP 0 else (DCA_ERR, c)) in
      if s = DCA_OK then Inr (DCA_OK, L\<lparr>superch := Some (c\<lparr>ch_connected := DCA_OK\<rparr>)\<rparr>)
      else let c = c\<lparr>is_open := False, ch_node := d_superNode L, ch_port := d_superPort L, ch_name := d_name L\<rparr> in
        bind_res (dcaSupOpenConn E L (ch_node c) (ch_port c) (ch_name c)) (\<lambda>(fd, L).
        case fd of None \<Rightarrow> Inr (DCA_ERR, L\<lparr>superch := Some c\<rparr>)
        | Some x \<Rightarrow> Inr (DCA_OK, L\<lparr>superch := Some (c\<lparr>is_open := True, ch_io := x\<rparr>), nopen := nopen L + 1\<rparr>)))"

text \<open>A collector's channel is entered before it is opened, and a connection that fails counts as connected.\<close>

definition find_collector :: "dca_env \<Rightarrow> dhs_lib \<Rightarrow> (chan \<times> dhs_lib) res" where
  "find_collector E L = (case collch L of Some c \<Rightarrow> Inr (c, L)
     | None \<Rightarrow> (case superch L of None \<Rightarrow> Inl Null_Deref
       | Some sc \<Rightarrow> bind_res (dcaGetDCADev E L sc) (\<lambda>(dev, sc).
           let dev = cstr_at dev 0 in
           bind_res (dcaGetNode dev) (\<lambda>n.
           bind_res (dcaGetPort dev) (\<lambda>p.
           Inr (new_chan n p (d_name L), L\<lparr>superch := Some sc\<rparr>))))))"

definition init_collector :: "dca_env \<Rightarrow> dhs_lib \<Rightarrow> (int \<times> dhs_lib) res" where
  "init_collector E L =
     bind_res (if superch L = None then bind_res (init_super E L) (\<lambda>(_, L). Inr L) else Inr L) (\<lambda>L.
     bind_res (find_collector E L) (\<lambda>(c, L).
     bind_res (if ch_connected c > 0 then dcaConnectionACK E L c else Inr (DCA_ERR, c)) (\<lambda>(s, c).
     if s = DCA_ALIVE then Inr (DCA_OK, L\<lparr>collch := Some (c\<lparr>ch_connected := DCA_CON\<rparr>)\<rparr>)
     else bind_res (dcaOpenChannel E L (c\<lparr>is_open := False\<rparr>)) (\<lambda>(ok, c, L).
       if ok then Inr (DCA_OK, L\<lparr>collch := Some (c\<lparr>ch_connected := ch_connected c + 1\<rparr>)\<rparr>)
       else Inr (DCA_ERR, L\<lparr>collch := Some (c\<lparr>ch_connected := 0\<rparr>)\<rparr>)))))"

definition dcaInitChannel :: "dca_env \<Rightarrow> dhs_lib \<Rightarrow> int \<Rightarrow> (int \<times> dhs_lib) res" where
  "dcaInitChannel E L ty =
     (if ty = DCA_SUPERVISOR then init_super E L else if ty = DCA_COLLECTOR then init_collector E L else Inr (DCA_ERR, L))"

definition dcaCloseChannel :: "chan \<Rightarrow> chan" where
  "dcaCloseChannel c = c\<lparr>is_open := False\<rparr>"

section \<open>Opening and closing the system and the connection\<close>

text \<open>The channel to the supervisor is checked, or opened.\<close>

definition super_ready :: "dca_env \<Rightarrow> dhs_lib \<Rightarrow> (bool \<times> dhs_lib) res" where
  "super_ready E L =
     (let init = (\<lambda>L. bind_res (dcaInitChannel E L DCA_SUPERVISOR) (\<lambda>(s, L). Inr (s \<noteq> DCA_ERR, L))) in
      case superch L of None \<Rightarrow> init L
      | Some c \<Rightarrow> bind_res (dcaValidateChannel E L c) (\<lambda>(s, c).
          let L = L\<lparr>superch := Some c\<rparr> in if s = DCA_ERR then init L else Inr (True, L)))"

definition dhsUtilSysOpen :: "dca_env \<Rightarrow> int \<Rightarrow> dhs_lib \<Rightarrow> (int \<times> dhs_lib) res" where
  "dhsUtilSysOpen E istat L =
     (if status_bad E istat \<or> dcaSimulator L \<noteq> 0 then Inr (istat, L)
      else case monsoon_dhs E of None \<Rightarrow> Inr (DHS_ERROR, L)
      | Some p \<Rightarrow>
         (case dropWhile (\<lambda>c. c \<noteq> CHR '':'') p of [] \<Rightarrow> Inr (DHS_ERROR, L)
         | _ # t \<Rightarrow> bind_res (fit SZNODE (takeWhile (\<lambda>c. c \<noteq> CHR '':'') p)) (\<lambda>n.
             bind_res (super_ready E (L\<lparr>d_superNode := n, d_superPort := atoi t, d_name := ''PAN'', d_collNode := [], d_collPort := -1\<rparr>))
               (\<lambda>(ok, L). Inr (if ok then DHS_OK else DHS_ERROR, L)))))"

definition dhsUtilSysClose :: "dca_env \<Rightarrow> int \<Rightarrow> dhs_lib \<Rightarrow> int \<Rightarrow> int" where
  "dhsUtilSysClose E istat L dhsID =
     (if status_bad E istat \<or> dcaSimulator L \<noteq> 0 then istat else if dhsID < 0 then DHS_ERROR else DHS_OK)"

text \<open>The loop over \<open>MAXTRYS\<close> attempts returns from its first round in any case.\<close>

definition dhsConnectCollector :: "dca_env \<Rightarrow> dhs_lib \<Rightarrow> 32 word \<Rightarrow> (int \<times> dhs_lib) res" where
  "dhsConnectCollector E L whoAmI =
     bind_res (dcaInitChannel E L DCA_COLLECTOR) (\<lambda>(s, L).
       case (superch L, collch L) of
         (Some sc, Some cc) \<Rightarrow>
           if s = DCA_OK then Inr (DHS_OK, L\<lparr>collch := Some (snd (ch_msg E L cc DCA_INIT whoAmI))\<rparr>)
           else Inr (DHS_ERROR, L\<lparr>superch := Some (snd (ch_msg E L sc (DCA_FAIL OR DCA_CONNECT) whoAmI))\<rparr>)
       | _ \<Rightarrow> Inl Null_Deref)"

definition dhsUtilOpenConnect :: "dca_env \<Rightarrow> dhs_lib \<Rightarrow> 32 word \<Rightarrow> fpConfig \<Rightarrow> (int \<times> dhs_lib) res" where
  "dhsUtilOpenConnect E L whoAmI cfg =
     (if dcaSimulator L \<noteq> 0 then Inr (DHS_OK, L)
      else bind_res (super_ready E L) (\<lambda>(ok, L).
        if \<not> ok then Inr (DHS_ERROR, L)
        else case superch L of None \<Rightarrow> Inl Null_Deref
        | Some sc \<Rightarrow> (case dcaSendfpConfig E L sc whoAmI cfg of (s, sc) \<Rightarrow>
            if s = DCA_ERR then Inr (DHS_ERROR, L\<lparr>superch := Some sc\<rparr>)
            else let sc = snd (ch_msg E L sc (DCA_OPEN OR DCA_CONNECT) 0) in
              bind_res (dhsConnectCollector E (L\<lparr>superch := Some sc\<rparr>) whoAmI) (\<lambda>(_, L).
              Inr (if collch L \<noteq> None then DHS_OK else DHS_ERROR, L)))))"

definition dhsUtilCloseConnect :: "dca_env \<Rightarrow> int \<Rightarrow> dhs_lib \<Rightarrow> int \<Rightarrow> (int \<times> dhs_lib) res" where
  "dhsUtilCloseConnect E istat L dhsID =
     (if status_bad E istat \<or> dcaSimulator L \<noteq> 0 then Inr (istat, L)
      else if dhsID < 0 then Inr (DHS_ERROR, L)
      else case (collch L, superch L) of
        (Some cc, Some sc) \<Rightarrow>
          let cc = snd (ch_msg E L cc (DCA_CLOSE OR DCA_CONNECT) 0); sc = snd (ch_msg E L sc (DCA_CLOSE OR DCA_CONNECT) 0)
          in Inr (DHS_OK, L\<lparr>collch := Some (dcaCloseChannel cc), superch := Some (dcaCloseChannel sc)\<rparr>)
      | _ \<Rightarrow> Inl Null_Deref)"

section \<open>The calls of an exposure\<close>

text \<open>What goes to the collector at the start: open, focal plane, exposure and observation set.\<close>

definition announce :: "dca_env \<Rightarrow> dhs_lib \<Rightarrow> chan \<Rightarrow> fpConfig \<Rightarrow> int \<times> chan" where
  "announce E L c cfg =
     (case ch_msg E L c (DCA_OPEN OR DCA_EXP) DHS_IAMPAN of (_, c) \<Rightarrow>
      case dcaSendfpConfig E L c DHS_IAMPAN cfg of (s, c) \<Rightarrow>
        if s = DCA_ERR then (DHS_ERROR, c) else (DHS_OK, snd (ch_msg E L c DCA_EXP_OBSID 0)))"

text \<open>\<open>dcaSend (socket, a, 256)\<close> of an array \<open>a\<close>.\<close>

definition send_256 :: "chan \<Rightarrow> string \<Rightarrow> chan res" where
  "send_256 c a = (if length a < 256 then Inl Out_Of_Bounds else Inr (snd (ch_send c (take 256 a))))"

definition send_open :: "dca_env \<Rightarrow> dhs_lib \<Rightarrow> fpConfig \<Rightarrow> (int \<times> dhs_lib) res" where
  "send_open E L cfg = (case (collch L, superch L) of
      (Some cc, Some sc) \<Rightarrow>
        (case announce E L cc cfg of (s, cc) \<Rightarrow>
         let L = L\<lparr>collch := Some cc, superch := Some (snd (ch_msg E L sc (DCA_OPEN OR DCA_EXP) DHS_IAMPAN))\<rparr> in
         if s = DHS_ERROR then Inr (DHS_ERROR, L)
         else bind_res (send_256 (snd (ch_msg E L cc DCA_DIRECTORY 0)) (utilDIR L)) (\<lambda>cc.
           bind_res (send_256 (snd (ch_msg E L cc DCA_FNAME 0)) (utilFILENAME L)) (\<lambda>cc.
           Inr (DHS_OK, L\<lparr>collch := Some cc\<rparr>))))
    | _ \<Rightarrow> Inl Null_Deref)"

definition dhsUtilOpenExp :: "dca_env \<Rightarrow> int \<Rightarrow> dhs_lib \<Rightarrow> int \<Rightarrow> fpConfig option \<Rightarrow> rat option \<Rightarrow> string option \<Rightarrow> (int \<times> dhs_lib) res" where
  "dhsUtilOpenExp E istat L dhsID fp xid obset =
     (if status_bad E istat \<or> dcaSimulator L \<noteq> 0 then Inr (istat, L)
      else case (fp, xid, obset) of
        (Some fp, Some xid, Some obset) \<Rightarrow>
          if dhsID < 0 then Inr (DHS_ERROR, L)
          else (case (superch L, collch L) of
            (Some sc, Some _) \<Rightarrow>
              bind_res (dcaValidateChannel E L sc) (\<lambda>(s, sc).
              let L = L\<lparr>superch := Some sc\<rparr> in
              bind_res (if s \<noteq> DCA_ERR then Inr (True, L)
                else bind_res (dcaInitChannel E L DCA_SUPERVISOR) (\<lambda>(s, L).
                  if s = DCA_ERR then Inr (False, L)
                  else case superch L of None \<Rightarrow> Inl Null_Deref
                  | Some sc \<Rightarrow> bind_res (dcaValidateChannel E L sc) (\<lambda>(s, sc). Inr (s \<noteq> DCA_ERR, L\<lparr>superch := Some sc\<rparr>)))) (\<lambda>(ok, L).
              if \<not> ok then Inr (DHS_ERROR, L)
              else let L = L\<lparr>d_expID := xid, d_obset := obset\<rparr> in
                case collch L of None \<Rightarrow> Inl Null_Deref
                | Some cc \<Rightarrow> bind_res (dcaValidateChannel E L cc) (\<lambda>(s, cc).
                    let L = L\<lparr>collch := Some cc\<rparr> in
                    if s \<noteq> DCA_ERR then send_open E L fp
                    else bind_res (dhsConnectCollector E L DHS_IAMPAN) (\<lambda>(s, L).
                      if s = DHS_ERROR then Inr (DHS_ERROR, L) else send_open E L fp))))
          | _ \<Rightarrow> Inl Null_Deref)
      | _ \<Rightarrow> Inr (DHS_ERROR, L))"

text \<open>Two sends, of which each may set the status.\<close>

definition send_two :: "int \<Rightarrow> chan \<Rightarrow> string \<Rightarrow> string \<Rightarrow> int \<times> chan" where
  "send_two istat c a b = (case ch_send c a of (s, c) \<Rightarrow> case ch_send c b of (t, c) \<Rightarrow>
     (if s = DCA_ERR \<or> t = DCA_ERR then DHS_ERROR else istat, c))"

definition dhsSendMetaData :: "dca_env \<Rightarrow> int \<Rightarrow> dhs_lib \<Rightarrow> string \<Rightarrow> mdConfig \<Rightarrow> (int \<times> dhs_lib) res" where
  "dhsSendMetaData E istat L blk cfg =
     (if dcaSimulator L \<noteq> 0 then Inr (istat, L)
      else case collch L of None \<Rightarrow> Inl Null_Deref
      | Some c \<Rightarrow>
          if blk = [] then Inr (DHS_OK, L)
          else let c = snd (ch_msg E L c DCA_META 0); c = snd (ch_send c (le 8 (length blk) @ replicate 112 NUL)) in
            case send_two DHS_OK c blk (md_rep cfg) of (s, c) \<Rightarrow> Inr (s, L\<lparr>collch := Some c\<rparr>))"

definition dhsSendPixelData :: "dca_env \<Rightarrow> int \<Rightarrow> dhs_lib \<Rightarrow> string \<Rightarrow> fpConfig \<Rightarrow> (int \<times> dhs_lib) res" where
  "dhsSendPixelData E istat L pxl cfg =
     (if dcaSimulator L \<noteq> 0 \<or> pxl = [] then Inr (istat, L)
      else case collch L of None \<Rightarrow> Inl Null_Deref
      | Some c \<Rightarrow> (case send_two istat (snd (ch_msg E L c DCA_PIXEL DHS_IAMWHO)) (fp_rep cfg) pxl of
          (s, c) \<Rightarrow> Inr (s, L\<lparr>collch := Some c\<rparr>)))"

definition dhsUtilCloseExp :: "dca_env \<Rightarrow> int \<Rightarrow> dhs_lib \<Rightarrow> int \<Rightarrow> rat \<Rightarrow> (int \<times> dhs_lib) res" where
  "dhsUtilCloseExp E istat L dhsID xid =
     (if status_bad E istat \<or> dcaSimulator L \<noteq> 0 then Inr (istat, L)
      else if dhsID < 0 \<or> xid \<le> 0 then Inr (DHS_ERROR, L)
      else case (collch L, superch L) of
        (Some cc, Some sc) \<Rightarrow> Inr (DHS_OK, L\<lparr>collch := Some (snd (ch_msg E L cc (DCA_CLOSE OR DCA_EXP) DHS_IAMPAN)),
           superch := Some (snd (ch_msg E L sc (DCA_CLOSE OR DCA_EXP) DHS_IAMPAN))\<rparr>)
      | _ \<Rightarrow> Inl Null_Deref)"

definition dhsUtilReadImage :: "dca_env \<Rightarrow> int \<Rightarrow> int \<Rightarrow> int" where
  "dhsUtilReadImage E istat dhsID = (if status_bad E istat then istat else if dhsID < 0 then DHS_ERROR else DHS_OK)"

definition DHS_IOC_SETFILENAME :: int where "DHS_IOC_SETFILENAME = 0x4000"
definition DHS_IOC_SETDIR :: int where "DHS_IOC_SETDIR = 0x8000"

definition dhsUtilIOCtl :: "dca_env \<Rightarrow> int \<Rightarrow> dhs_lib \<Rightarrow> int \<Rightarrow> string \<Rightarrow> int \<times> dhs_lib" where
  "dhsUtilIOCtl E istat L f arg =
     (if status_bad E istat then (istat, L)
      else if f = DHS_IOC_SETFILENAME
        then (DHS_OK, L\<lparr>utilFILENAME := strn DHS_MAXSTR arg, utilFLAG := (if utilFLAG L > 0 then 3 else 1)\<rparr>)
      else if f = DHS_IOC_SETDIR
        then (DHS_OK, L\<lparr>utilDIR := strn DHS_MAXSTR arg, utilFLAG := (if utilFLAG L > 0 then 3 else 2)\<rparr>)
      else if f \<in> {0x100, 0x200, 0x400, 0x800, 0x1000, 0x2000} then (DHS_OK, L)
      else (DHS_ERROR, L))"

end
