(* ===== verification/Dca_Props.thy ===== *)
theory Dca_Props
  imports Dhs_Lib
begin

text \<open>
  Correctness of the messages of the client library: structures survive their way through memory
  and socket, and sending and receiving do not depend on how the kernel splits the stream.
\<close>

section \<open>Bytes\<close>

lemma length_le [simp]: "length (le n v) = n"
  by (induction n arbitrary: v) simp_all

lemma un_le: "un (le n v) = v mod 256 ^ n"
proof (induction n arbitrary: v)
  case (Suc n)
  have "un (le (Suc n) v) = v mod 256 + 256 * (v div 256 mod 256 ^ n)" by (simp add: Suc.IH)
  then show ?case by (simp add: mod_mult2_eq [of v 256 "256 ^ n"])
qed simp

lemma take_le: "m \<le> n \<Longrightarrow> take m (le n v) = le m v"
proof (induction n arbitrary: m v)
  case (Suc n)
  then show ?case by (cases m) simp_all
qed simp

lemma length_w32 [simp]: "length (w32 w) = 4"
  by (simp add: w32_def)

lemma un_w32: "un (w32 w) = unat w"
proof -
  have "unat w < 256 ^ 4" using unsigned_less [of w] by simp
  then show ?thesis by (simp add: w32_def un_le)
qed

lemma rd32_at: "rd32 (a @ w32 w @ b) (length a) = w"
  by (simp add: rd32_def un_w32)

lemma rd32_0: "rd32 (w32 w @ b) 0 = w"
  by (simp add: rd32_def un_w32)

lemma rd32_skip: "length a \<le> k \<Longrightarrow> rd32 (a @ b) k = rd32 b (k - length a)"
  by (simp add: rd32_def)

lemma length_w32s [simp]: "length (w32s ws) = 4 * length ws"
  by (induction ws) (simp_all add: w32s_def)

lemma w32s_Cons: "w32s (w # ws) = w32 w @ w32s ws" "w32s [] = []"
  by (simp_all add: w32s_def)

lemma rd32s_w32s: "rd32s (a @ w32s ws @ b) (length a) (length ws) = ws"
proof (induction ws arbitrary: a)
  case (Cons w ws)
  have "rd32s (a @ w32s (w # ws) @ b) (length a) (length (w # ws)) = rd32 (a @ w32 w @ w32s ws @ b) (length a)
      # rd32s ((a @ w32 w) @ w32s ws @ b) (length (a @ w32 w)) (length ws)"
    unfolding rd32s_def by (simp add: upt_conv_Cons map_Suc_upt [symmetric] w32s_Cons algebra_simps del: upt_Suc)
  then show ?case using Cons [of "a @ w32 w"] by (simp only: rd32_at)
qed (simp add: rd32s_def)

lemma length_fp_rep [simp]: "length (fp_rep f) = SZ_FP"
  by (simp add: fp_rep_def SZ_FP_def)

lemma fp_val_rep: "fp_val (fp_rep f @ t) = f"
  by (simp add: fp_val_def fp_rep_def w32s_Cons rd32_skip rd32_0)

definition md_ok :: "mdConfig \<Rightarrow> bool" where
  "md_ok m \<longleftrightarrow> length (fieldSize m) = DHS_MAXFIELDS \<and> length (md_dataType m) = DHS_MAXFIELDS"

lemma length_md_rep: "md_ok m \<Longrightarrow> length (md_rep m) = SZ_MD"
  by (simp add: md_rep_def md_ok_def SZ_MD_def DHS_MAXFIELDS_def)

lemma md_val_rep:
  assumes "md_ok m"
  shows "md_val (md_rep m @ t) = m"
proof -
  have l: "length (fieldSize m) = DHS_MAXFIELDS" "length (md_dataType m) = DHS_MAXFIELDS" using assms by (simp_all add: md_ok_def)
  have "rd32s (md_rep m @ t) 8 DHS_MAXFIELDS = fieldSize m"
    using rd32s_w32s [of "w32 (metaType m) @ w32 (numFields m)" "fieldSize m" "w32s (md_dataType m) @ t"] l by (simp add: md_rep_def)
  moreover have "rd32s (md_rep m @ t) (8 + 4 * DHS_MAXFIELDS) DHS_MAXFIELDS = md_dataType m"
    using rd32s_w32s [of "w32 (metaType m) @ w32 (numFields m) @ w32s (fieldSize m)" "md_dataType m" t] l by (simp add: md_rep_def)
  moreover have "rd32 (md_rep m @ t) 0 = metaType m" "rd32 (md_rep m @ t) 4 = numFields m" by (simp_all add: md_rep_def rd32_0 rd32_skip)
  ultimately show ?thesis by (simp add: md_val_def)
qed

lemma length_strn [simp]: "length (strn n s) = n"
  by (simp add: strn_def)

text \<open>A header whose exposure the processor's \<open>double\<close> holds exactly.\<close>

definition dbl_ok :: "dca_env \<Rightarrow> rat \<Rightarrow> bool" where
  "dbl_ok E x \<longleftrightarrow> length (dbl_rep E x) = 8 \<and> dbl_val E (dbl_rep E x) = x"

lemma length_hdr_rep: "dbl_ok E (m_expnum h) \<Longrightarrow> length (m_obset h) = 80 \<Longrightarrow> length (hdr_rep E h) = 120"
  by (simp add: hdr_rep_def dbl_ok_def)

lemma hdr_val_rep:
  assumes "dbl_ok E (m_expnum h)" "length (m_obset h) = 80"
  shows "hdr_val E (hdr_rep E h) = h"
  using assms by (simp add: hdr_val_def hdr_rep_def dbl_ok_def w32s_Cons rd32_skip rd32_0 rd32_0 [of _ "[]", simplified])

lemma fmt_msg_simps [simp]:
  "m_type (dcaFmtMsg E x o' t w) = t" "m_whoami (dcaFmtMsg E x o' t w) = w" "m_expnum (dcaFmtMsg E x o' t w) = x"
  "m_obset (dcaFmtMsg E x o' t w) = strn 80 o'"
  by (simp_all add: dcaFmtMsg_def Let_def)

section \<open>Sending and receiving\<close>

text \<open>The bytes that a connection delivers before it ends; no error in it, no early end.\<close>

definition stream :: "rd list \<Rightarrow> string" where
  "stream rs = concat (map (\<lambda>r. case r of Data d \<Rightarrow> d | _ \<Rightarrow> []) rs)"

definition plain :: "rd list \<Rightarrow> bool" where
  "plain rs \<longleftrightarrow> list_all (\<lambda>r. case r of Data d \<Rightarrow> d \<noteq> [] | Again \<Rightarrow> True | Rd_Err \<Rightarrow> False) rs"

lemma stream_simps [simp]:
  "stream [] = []" "stream (Data d # rs) = d @ stream rs" "stream (Again # rs) = stream rs" "stream (Rd_Err # rs) = stream rs"
  by (simp_all add: stream_def)

lemma plain_simps [simp]:
  "plain []" "plain (Data d # rs) \<longleftrightarrow> d \<noteq> [] \<and> plain rs" "plain (Again # rs) \<longleftrightarrow> plain rs" "\<not> plain (Rd_Err # rs)"
  by (simp_all add: plain_def)

lemma recv_loop_stream:
  assumes "plain rs" "0 < n"
  shows "\<exists>rs'. recv_loop rs n acc = (if n \<le> length (stream rs) then int (length acc + n) else -1, acc @ take n (stream rs), rs')
     \<and> plain rs' \<and> stream rs' = drop n (stream rs)"
  using assms
proof (induction rs arbitrary: n acc)
  case (Cons r rs)
  show ?case
  proof (cases r)
    case (Data d)
    then have d: "d \<noteq> []" "plain rs" using Cons.prems by simp_all
    show ?thesis
    proof (cases "length d < n")
      case True
      then obtain rs' where "recv_loop rs (n - length d) (acc @ d)
          = (if n - length d \<le> length (stream rs) then int (length (acc @ d) + (n - length d)) else -1, (acc @ d) @ take (n - length d) (stream rs), rs')"
          "plain rs'" "stream rs' = drop (n - length d) (stream rs)"
        using Cons.IH [OF d(2), of "n - length d" "acc @ d"] by auto
      moreover have "recv_loop (r # rs) n acc = recv_loop rs (n - length d) (acc @ d)"
        using True d(1) Cons.prems(2) Data by simp
      ultimately show ?thesis using True Data by (auto simp: le_diff_conv add.commute)
    next
      case False
      then show ?thesis using d Cons.prems(2) Data by (cases "drop n d = []") (auto simp: min_def)
    qed
  qed (use Cons in auto)
qed simp

text \<open>
  C37: receiving waits for all bytes asked for and gets exactly them, in order, and leaves the
  others, however the stream is split into pieces and how often a read has to be repeated; when the
  stream ends before, it reports the end.
\<close>

theorem dcaRecv_any_split:
  assumes "plain rs" "0 < n"
  shows "\<exists>rs'. dcaRecv rs n = (if n \<le> length (stream rs) then int n else -1, take n (stream rs), rs')
     \<and> plain rs' \<and> stream rs' = drop n (stream rs)"
  using recv_loop_stream [OF assms, of "[]"] by (simp only: dcaRecv_def append_Nil list.size(3) add_0)

theorem dcaRecv_any_split_witness:
  "\<exists>rs'. dcaRecv [Data ''ab'', Again, Data ''cde''] 3 = (3, ''abc'', rs') \<and> stream rs' = ''de''"
proof -
  have p: "plain [Data ''ab'', Again, Data ''cde'']" "0 < (3 :: nat)" by simp_all
  from dcaRecv_any_split [OF p] show ?thesis by (auto simp: eval_nat_numeral)
qed

text \<open>A channel on which no write fails.\<close>

definition good :: "chan \<Rightarrow> bool" where
  "good c \<longleftrightarrow> is_open c \<and> Wr_Err \<notin> set (wq (ch_io c))"

lemma chan_write_all:
  "Wr_Err \<notin> set ws \<Longrightarrow> \<exists>ws'. chan_write ws rest done = (True, done @ rest, ws') \<and> Wr_Err \<notin> set ws'"
proof (induction ws arbitrary: rest "done")
  case (Cons w ws)
  then have ih: "\<exists>ws'. chan_write ws r d = (True, d @ r, ws') \<and> Wr_Err \<notin> set ws'" for r d by simp
  show ?case
  proof (cases w)
    case (Wrote k)
    then show ?thesis using ih [of "drop (Suc k) rest" "done @ take (Suc k) rest"] Cons.prems by auto
  qed (use Cons.prems ih in auto)
qed simp

text \<open>The channel after more bytes have been sent.\<close>

definition sent_more :: "chan \<Rightarrow> string \<Rightarrow> chan \<Rightarrow> bool" where
  "sent_more c buf c' \<longleftrightarrow> good c' \<and> sent (ch_io c') = sent (ch_io c) @ buf \<and> rq (ch_io c') = rq (ch_io c)"

lemma ch_send_all: "good c \<Longrightarrow> \<exists>c'. ch_send c buf = (int (length buf), c') \<and> sent_more c buf c'"
  using chan_write_all [of "wq (ch_io c)" buf "[]"] by (auto simp: good_def ch_send_def dcaSend_def sent_more_def)

lemma sent_more_trans: "sent_more c a c' \<Longrightarrow> sent_more c' b c'' \<Longrightarrow> sent_more c (a @ b) c''"
  by (simp add: sent_more_def)

lemma sent_more_good: "sent_more c a c' \<Longrightarrow> good c'"
  by (simp add: sent_more_def)

text \<open>The bytes of a message of the library.\<close>

definition msg_rep :: "dca_env \<Rightarrow> dhs_lib \<Rightarrow> 32 word \<Rightarrow> 32 word \<Rightarrow> string" where
  "msg_rep E L t w = hdr_rep E (dcaFmtMsg E (d_expID L) (d_obset L) t w)"

lemma msg_rep_val:
  assumes "dbl_ok E (d_expID L)"
  shows "length (msg_rep E L t w) = 120" "hdr_val E (msg_rep E L t w) = dcaFmtMsg E (d_expID L) (d_obset L) t w"
  using assms by (simp_all add: msg_rep_def length_hdr_rep hdr_val_rep)

lemma ch_msg_all:
  assumes "good c"
  shows "\<exists>c'. ch_msg E L c t w = (int (length (msg_rep E L t w)), c') \<and> sent_more c (msg_rep E L t w) c'"
  using ch_send_all [OF assms] by (simp add: ch_msg_def msg_rep_def)

section \<open>The calls of an exposure\<close>

text \<open>A connected library: the channel to the collector is good, and the supervisor's one is there.\<close>

definition linked_to :: "dhs_lib \<Rightarrow> chan \<Rightarrow> bool" where
  "linked_to L c \<longleftrightarrow> collch L = Some c \<and> good c \<and> superch L \<noteq> None \<and> simulator L = 0"

lemma announce_sends:
  assumes "good c"
  shows "\<exists>c'. announce E L c cfg = (DHS_OK, c') \<and> sent_more c (msg_rep E L (DCA_OPEN OR DCA_EXP) DHS_IAMPAN
     @ msg_rep E L (DCA_SET OR DCA_FP_CONFIG) DHS_IAMPAN @ fp_rep cfg @ msg_rep E L DCA_EXP_OBSID 0) c'"
proof -
  obtain c1 where 1: "ch_msg E L c (DCA_OPEN OR DCA_EXP) DHS_IAMPAN = (int (length (msg_rep E L (DCA_OPEN OR DCA_EXP) DHS_IAMPAN)), c1)"
    "sent_more c (msg_rep E L (DCA_OPEN OR DCA_EXP) DHS_IAMPAN) c1" using ch_msg_all [OF assms] by blast
  obtain c2 where 2: "ch_msg E L c1 (DCA_SET OR DCA_FP_CONFIG) DHS_IAMPAN = (int (length (msg_rep E L (DCA_SET OR DCA_FP_CONFIG) DHS_IAMPAN)), c2)"
    "sent_more c1 (msg_rep E L (DCA_SET OR DCA_FP_CONFIG) DHS_IAMPAN) c2" using ch_msg_all [OF sent_more_good [OF 1(2)]] by blast
  obtain c3 where 3: "ch_send c2 (fp_rep cfg) = (int (length (fp_rep cfg)), c3)" "sent_more c2 (fp_rep cfg) c3"
    using ch_send_all [OF sent_more_good [OF 2(2)]] by blast
  obtain c4 where 4: "ch_msg E L c3 DCA_EXP_OBSID 0 = (int (length (msg_rep E L DCA_EXP_OBSID 0)), c4)"
    "sent_more c3 (msg_rep E L DCA_EXP_OBSID 0) c4" using ch_msg_all [OF sent_more_good [OF 3(2)]] by blast
  have "announce E L c cfg = (DHS_OK, c4)"
    using 1(1) 2(1) 3(1) 4(1) by (simp add: announce_def dcaSendfpConfig_def dca_code_defs)
  moreover have "sent_more c (msg_rep E L (DCA_OPEN OR DCA_EXP) DHS_IAMPAN @ msg_rep E L (DCA_SET OR DCA_FP_CONFIG) DHS_IAMPAN
      @ fp_rep cfg @ msg_rep E L DCA_EXP_OBSID 0) c4"
    using sent_more_trans [OF 1(2) sent_more_trans [OF 2(2) sent_more_trans [OF 3(2) 4(2)]]] .
  ultimately show ?thesis by blast
qed

lemma send_two_all:
  assumes "good c"
  shows "\<exists>c'. send_two istat c a b = (istat, c') \<and> sent_more c (a @ b) c'"
proof -
  obtain c1 where 1: "ch_send c a = (int (length a), c1)" "sent_more c a c1" using ch_send_all [OF assms] by blast
  obtain c2 where 2: "ch_send c1 b = (int (length b), c2)" "sent_more c1 b c2" using ch_send_all [OF sent_more_good [OF 1(2)]] by blast
  show ?thesis using 1 2 sent_more_trans by (auto simp: send_two_def DCA_ERR_def)
qed

text \<open>The data of an exposure in the order in which they are sent.\<close>

datatype block = Pixels string fpConfig | Meta string mdConfig

definition send_block :: "dca_env \<Rightarrow> dhs_lib \<Rightarrow> block \<Rightarrow> (int \<times> dhs_lib) res" where
  "send_block E L b = (case b of Pixels p f \<Rightarrow> dhsSendPixelData E DHS_OK L p f | Meta t m \<Rightarrow> dhsSendMetaData E DHS_OK L t m)"

primrec send_blocks :: "dca_env \<Rightarrow> dhs_lib \<Rightarrow> block list \<Rightarrow> (int \<times> dhs_lib) res" where
  "send_blocks E L [] = Inr (DHS_OK, L)"
| "send_blocks E L (b # bs) = bind_res (send_block E L b) (\<lambda>(s, L). if s \<noteq> DHS_OK then Inr (s, L) else send_blocks E L bs)"

definition block_data :: "block \<Rightarrow> string" where
  "block_data b = (case b of Pixels p f \<Rightarrow> p | Meta t m \<Rightarrow> t)"

definition wire :: "dca_env \<Rightarrow> dhs_lib \<Rightarrow> block \<Rightarrow> string" where
  "wire E L b = (case b of
      Pixels p f \<Rightarrow> msg_rep E L DCA_PIXEL DHS_IAMWHO @ fp_rep f @ p
    | Meta t m \<Rightarrow> msg_rep E L DCA_META 0 @ (le 8 (length t) @ replicate 112 NUL) @ t @ md_rep m)"

lemma wire_coll [simp]: "wire E (L\<lparr>collch := c\<rparr>) b = wire E L b"
  by (simp add: wire_def msg_rep_def split: block.splits)

lemma send_block_wire:
  assumes "linked_to L c" "block_data b \<noteq> []"
  shows "\<exists>c'. send_block E L b = Inr (DHS_OK, L\<lparr>collch := Some c'\<rparr>) \<and> sent_more c (wire E L b) c'"
proof -
  have c: "collch L = Some c" "good c" "simulator L = 0" using assms(1) by (simp_all add: linked_to_def)
  show ?thesis
  proof (cases b)
    case (Pixels p f)
    obtain c1 where 1: "ch_msg E L c DCA_PIXEL DHS_IAMWHO = (int (length (msg_rep E L DCA_PIXEL DHS_IAMWHO)), c1)"
      "sent_more c (msg_rep E L DCA_PIXEL DHS_IAMWHO) c1" using ch_msg_all [OF c(2)] by blast
    obtain c2 where 2: "send_two DHS_OK c1 (fp_rep f) p = (DHS_OK, c2)" "sent_more c1 (fp_rep f @ p) c2"
      using send_two_all [OF sent_more_good [OF 1(2)]] by blast
    have "send_block E L b = Inr (DHS_OK, L\<lparr>collch := Some c2\<rparr>)"
      using Pixels assms(2) c(1, 3) 1(1) 2(1) by (simp add: send_block_def dhsSendPixelData_def dcaSimulator_def block_data_def)
    then show ?thesis using sent_more_trans [OF 1(2) 2(2)] Pixels by (auto simp: wire_def)
  next
    case (Meta t m)
    let ?n = "le 8 (length t) @ replicate 112 NUL"
    obtain c1 where 1: "ch_msg E L c DCA_META 0 = (int (length (msg_rep E L DCA_META 0)), c1)"
      "sent_more c (msg_rep E L DCA_META 0) c1" using ch_msg_all [OF c(2)] by blast
    obtain c2 where 2: "ch_send c1 ?n = (int (length ?n), c2)" "sent_more c1 ?n c2"
      using ch_send_all [OF sent_more_good [OF 1(2)]] by blast
    obtain c3 where 3: "send_two DHS_OK c2 t (md_rep m) = (DHS_OK, c3)" "sent_more c2 (t @ md_rep m) c3"
      using send_two_all [OF sent_more_good [OF 2(2)]] by blast
    have "send_block E L b = Inr (DHS_OK, L\<lparr>collch := Some c3\<rparr>)"
      using Meta assms(2) c(1, 3) 1(1) 2(1) 3(1) by (simp add: send_block_def dhsSendMetaData_def dcaSimulator_def block_data_def)
    then show ?thesis using sent_more_trans [OF 1(2) sent_more_trans [OF 2(2) 3(2)]] Meta by (auto simp: wire_def)
  qed
qed

lemma send_blocks_wire:
  assumes "linked_to L c" "\<forall>b \<in> set bs. block_data b \<noteq> []"
  shows "\<exists>c'. send_blocks E L bs = Inr (DHS_OK, L\<lparr>collch := Some c'\<rparr>) \<and> sent_more c (concat (map (wire E L) bs)) c'"
  using assms
proof (induction bs arbitrary: L c)
  case Nil
  then show ?case by (auto simp: sent_more_def linked_to_def intro: exI [of _ c])
next
  case (Cons b bs)
  obtain c1 where 1: "send_block E L b = Inr (DHS_OK, L\<lparr>collch := Some c1\<rparr>)" "sent_more c (wire E L b) c1"
    using send_block_wire [OF Cons.prems(1)] Cons.prems(2) by (meson list.set_intros(1))
  have "linked_to (L\<lparr>collch := Some c1\<rparr>) c1" using Cons.prems(1) sent_more_good [OF 1(2)] by (simp add: linked_to_def)
  then obtain c2 where 2: "send_blocks E (L\<lparr>collch := Some c1\<rparr>) bs = Inr (DHS_OK, L\<lparr>collch := Some c1\<rparr>\<lparr>collch := Some c2\<rparr>)"
    "sent_more c1 (concat (map (wire E (L\<lparr>collch := Some c1\<rparr>)) bs)) c2"
    using Cons.IH Cons.prems(2) by (metis list.set_intros(2))
  have "map (wire E (L\<lparr>collch := Some c1\<rparr>)) bs = map (wire E L) bs" by simp
  then have "sent_more c (concat (map (wire E L) (b # bs))) c2" using sent_more_trans [OF 1(2) 2(2)] by (simp only: list.map concat.simps)
  moreover have "send_blocks E L (b # bs) = Inr (DHS_OK, L\<lparr>collch := Some c2\<rparr>)" using 1(1) 2(1) by simp
  ultimately show ?case by blast
qed

lemma close_sends:
  assumes "linked_to L c" "\<not> status_bad E istat" "0 \<le> dhsID" "0 < x"
  shows "\<exists>L' c'. dhsUtilCloseExp E istat L dhsID x = Inr (DHS_OK, L') \<and> collch L' = Some c'
     \<and> sent_more c (msg_rep E L (DCA_CLOSE OR DCA_EXP) DHS_IAMPAN) c'"
  using assms ch_msg_all [of c E L "DCA_CLOSE OR DCA_EXP" DHS_IAMPAN]
  by (auto simp: linked_to_def dhsUtilCloseExp_def dcaSimulator_def)

section \<open>Defects of opening\<close>

text \<open>
  C40: opening an exposure over two good connections reads behind the array of the directory: 256
  bytes are sent from an array of 128.
\<close>

theorem dhsUtilOpenExp_overreads:
  assumes "\<not> status_bad E istat" "simulator L = 0" "0 \<le> dhsID" "superch L = Some sc" "collch L = Some cc" "good sc" "good cc"
    "plain (rq (ch_io sc))" "120 \<le> length (stream (rq (ch_io sc)))" "plain (rq (ch_io cc))" "120 \<le> length (stream (rq (ch_io cc)))"
    "length (utilDIR L) = DHS_MAXSTR"
  shows "dhsUtilOpenExp E istat L dhsID (Some fp) (Some x) (Some o') = Inl Out_Of_Bounds"
proof -
  have val: "\<exists>c'. dcaValidateChannel E L c = Inr (120, c') \<and> good c'" if c: "good c" "plain (rq (ch_io c))" "120 \<le> length (stream (rq (ch_io c)))" for L c
  proof -
    obtain c1 where 1: "ch_msg E L c DCA_NOOP 0 = (int (length (msg_rep E L DCA_NOOP 0)), c1)" "sent_more c (msg_rep E L DCA_NOOP 0) c1"
      using ch_msg_all [OF c(1)] by blast
    obtain rs' where r: "dcaRecv (rq (ch_io c1)) 120 = (120, take 120 (stream (rq (ch_io c))), rs')"
      using recv_loop_stream [OF c(2), of 120 "[]"] c(3) 1(2) by (auto simp: dcaRecv_def sent_more_def)
    have "is_open c1" using sent_more_good [OF 1(2)] by (simp add: good_def)
    then have "dcaValidateChannel E L c = Inr (120, c1\<lparr>ch_io := (ch_io c1)\<lparr>rq := rs'\<rparr>\<rparr>)"
      using 1(1) r by (simp add: dcaValidateChannel_def ch_recv_def dcaRecvMsg_def DCA_ERR_def)
    moreover have "good (c1\<lparr>ch_io := (ch_io c1)\<lparr>rq := rs'\<rparr>\<rparr>)" using sent_more_good [OF 1(2)] by (simp add: good_def)
    ultimately show ?thesis by blast
  qed
  obtain sc' where s: "dcaValidateChannel E L sc = Inr (120, sc')" using val [OF assms(6, 8, 9)] by blast
  let ?L = "L\<lparr>superch := Some sc', d_expID := x, d_obset := o'\<rparr>"
  obtain cc' where c: "dcaValidateChannel E ?L cc = Inr (120, cc')" "good cc'" using val [OF assms(7, 10, 11)] by blast
  let ?L' = "?L\<lparr>collch := Some cc'\<rparr>"
  have "dhsUtilOpenExp E istat L dhsID (Some fp) (Some x) (Some o') = send_open E ?L' fp"
    using assms(1-5) s c(1) by (simp add: dhsUtilOpenExp_def dcaSimulator_def DCA_ERR_def)
  also have "\<dots> = Inl Out_Of_Bounds"
  proof -
    obtain c1 where "announce E ?L' cc' fp = (DHS_OK, c1)" using announce_sends [OF c(2)] by blast
    then show ?thesis using assms(12) by (simp add: send_open_def send_256_def DHS_MAXSTR_def DHS_OK_def DHS_ERROR_def)
  qed
  finally show ?thesis .
qed

text \<open>
  a connection to a collector that is refused counts as made: the channel has a closed socket,
  but is connected and the call succeeds.
\<close>

theorem dcaInitChannel_counts_refused:
  assumes "collch L = Some c" "ch_connected c = 0" "superch L \<noteq> None" "hostinfo L = Some (act, sim, 0)"
    and "inet_addr E (ch_node c) = Some a" "isdigit (hd (ch_node c))" "net E (nsockets L) a (nat (ch_port c) mod 65536) = Refused"
  shows "\<exists>L' c'. dcaInitChannel E L DCA_COLLECTOR = Inr (DCA_OK, L') \<and> collch L' = Some c' \<and> ch_connected c' = 1 \<and> \<not> is_open c'"
  using assms by (auto simp: dcaInitChannel_def init_collector_def find_collector_def dcaOpenChannel_def dcaInitDCAHost_def
      sock_addr_def dcaUseSim_def dca_code_defs Let_def)

text \<open>A library with open channels.\<close>

definition reply_chan :: chan where
  "reply_chan = \<lparr>ch_io = \<lparr>sent = [], wq = [Wrote 50, Intr], rq = [Data (replicate 100 CHR ''x''), Again, Data (replicate 20 CHR ''y'')]\<rparr>,
     is_open = True, ch_node = ''10.0.0.1'', ch_port = 4101, ch_name = ''PAN'', ch_connected = 0\<rparr>"

definition lib0 :: dhs_lib where
  "lib0 = \<lparr>d_expID = 0, d_obset = [], d_name = ''PAN'', d_superNode = ''10.0.0.2'', d_superPort = 4100, d_collNode = [], d_collPort = -1,
     superch = Some reply_chan, collch = Some reply_chan, nopen = 2, utilDIR = strn 128 ''/data'', utilFILENAME = strn 128 ''img'', utilFLAG = 3,
     simulator = 0, sim_init = 0, hostinfo = Some (''pan1'', [], 0), nsockets = 3\<rparr>"

definition dca_env0 :: dca_env where
  "dca_env0 = \<lparr>dbl_rep = (\<lambda>_. replicate 8 CHR ''d''), dbl_val = (\<lambda>_. 12), va_rest = (0, 0), status_bad = (\<lambda>s. s < 0), monsoon_dhs = Some ''10.0.0.2:4100'',
     dca_pid = 77, host_name = Some ''pan1'', by_name = (\<lambda>_. Some 1), inet_addr = (\<lambda>_. Some 2), net = (\<lambda>_ _ _. Refused)\<rparr>"

theorem dhsUtilOpenExp_overreads_witness:
  "dhsUtilOpenExp dca_env0 0 lib0 1 (Some (fpCfg zero_segment)) (Some 12) (Some ''obs'') = Inl Out_Of_Bounds"
  by (rule dhsUtilOpenExp_overreads [of _ _ _ _ reply_chan reply_chan])
    (simp_all add: lib0_def dca_env0_def reply_chan_def good_def DHS_MAXSTR_def)

theorem dcaInitChannel_counts_refused_witness:
  "\<exists>L' c'. dcaInitChannel dca_env0 lib0 DCA_COLLECTOR = Inr (DCA_OK, L') \<and> collch L' = Some c' \<and> ch_connected c' = 1 \<and> \<not> is_open c'"
  by (rule dcaInitChannel_counts_refused [of _ reply_chan "''pan1''" "[]" _ 2])
    (simp_all add: lib0_def dca_env0_def reply_chan_def isdigit_def)

end
