(* ===== verification/Smc_Manager.thy ===== *)
theory Smc_Manager
  imports Sup_Super Sm_Cache
begin

text \<open>
  The SMC manager: how it processes the pages of an exposure (\<open>smcmgr/smcProcess.c\<close>) and how it
  reacts to the messages of the bus (\<open>smcmgr/mbusMsgHandler.c\<close>).

  \<^item> \<open>manager\<close> is the state: the cache and the shared memory behind it, and the global variables of
    the program.  What the manager sends to the supervisor, shows on the display and so on is
    collected in \<open>m_out\<close>.  The rectification of a page (\<open>Raster\<close>) only changes its pixels, which
    the cache does not have, and is recorded.
  \<^item> \<open>mgr_env\<close> is what the program asks of its environment: that of the cache, whether the display
    server and the threads can be had, the keyword cards in a metadata page by its key, and the
    name of the host.
  \<^item> The display threads detach their page when they have shown it; a record of the thread stands
    for that.  The text of the page statistics is left out, but for the count at its end.
\<close>

record mgr_env =
  sys :: env
  display_ok :: bool
  thread_ok :: "nat \<Rightarrow> bool"
  cards :: "int \<Rightarrow> nat \<Rightarrow> string"
  mbhost :: string

datatype mout =
    To_Super string int
  | To_Join int string int
  | Rectified nat
  | Displayed nat
  | Display_Thread nat nat
  | Display_Open int int
  | Display_Close
  | Seg_List nat
  | Debug_File string int

record manager =
  cache :: smCache
  kern :: kernel
  m_seqno :: int
  procPages :: "string option"
  imtypeDB :: string
  imtypeKeyw :: string
  use_mbus :: bool
  use_disp :: int
  use_pxf :: int
  use_threads :: int
  disp_enable :: int
  stat_enb :: int
  rotate_enable :: int
  lo_gain :: int
  otf_enable :: int
  idListing :: int
  disp_frame :: int
  disp_stdimg :: int
  trim_ref :: int
  skysub :: int
  nthread :: int
  m_stid :: int
  m_out :: "mout list"

definition out :: "manager \<Rightarrow> mout \<Rightarrow> manager" where
  "out m x = m\<lparr>m_out := m_out m @ [x]\<rparr>"

definition tell :: "manager \<Rightarrow> string \<Rightarrow> int \<Rightarrow> manager" where
  "tell m txt subject = out m (To_Super txt subject)"

text \<open>\<open>strstr (s, p) != NULL\<close>.\<close>

fun contains :: "string \<Rightarrow> string \<Rightarrow> bool" where
  "contains [] p \<longleftrightarrow> p = []"
| "contains (c # s) p \<longleftrightarrow> starts (c # s) p \<or> contains s p"

text \<open>Is this manager to process the page?\<close>

definition wanted :: "string option \<Rightarrow> smcPage \<Rightarrow> bool" where
  "wanted pp p = (case pp of None \<Rightarrow> True | Some s \<Rightarrow> contains s (colID p))"

definition selected :: "string option \<Rightarrow> rat \<Rightarrow> smcPage \<Rightarrow> bool" where
  "selected pp xid p \<longleftrightarrow> wanted pp p \<and> Sm_Cache.smcEqualExpID (expID p) xid"

section \<open>All pages of an exposure\<close>

definition smcLockExpID :: "smCache \<Rightarrow> rat \<Rightarrow> string option \<Rightarrow> smCache" where
  "smcLockExpID c xid pp = fold (\<lambda>i c. if selected pp xid (pdata c ! i) then set_page c i (smcLock (pdata c ! i)) else c) [0..<top c] c"

definition smcUnlockExpID :: "env \<Rightarrow> smCache \<Rightarrow> rat \<Rightarrow> string option \<Rightarrow> smCache" where
  "smcUnlockExpID e c xid pp = fold (\<lambda>i c. if selected pp xid (pdata c ! i) then set_page c i (smcUnlock e (pdata c ! i)) else c) [0..<top c] c"

text \<open>
  The loop reads \<open>top\<close> again in every round; as many rounds as there are pages at first are
  enough, because \<open>top\<close> only falls.
\<close>

primrec del_loop :: "nat \<Rightarrow> env \<Rightarrow> rat \<Rightarrow> string option \<Rightarrow> nat \<Rightarrow> smCache \<times> kernel \<Rightarrow> smCache \<times> kernel" where
  "del_loop 0 e xid pp i ck = ck"
| "del_loop (Suc n) e xid pp i ck = (case ck of (c, k) \<Rightarrow>
     if i < top c then
       del_loop n e xid pp (Suc i)
         (if selected pp xid (pdata c ! i)
          then smcDetach e (set_page c i (smcUnlock e (pdata c ! i))) k i True else (c, k))
     else (c, k))"

definition smcDelExpID :: "env \<Rightarrow> smCache \<Rightarrow> kernel \<Rightarrow> rat \<Rightarrow> string option \<Rightarrow> smCache \<times> kernel" where
  "smcDelExpID e c k xid pp = del_loop (top c) e xid pp 0 (c, k)"

section \<open>Processing an exposure\<close>

definition TY_VOID :: int where "TY_VOID = 1"

definition SZ_LINE :: nat where "SZ_LINE = 1024"

text \<open>
  A data page is rectified and displayed.  The call that displays it stands behind the
  alternative of the threads, so that it is made with threads, too.
\<close>

definition data_page :: "mgr_env \<Rightarrow> nat \<Rightarrow> manager \<Rightarrow> manager res" where
  "data_page E i m =
     (let m = out m (Rectified i) in
      if disp_enable m = 0 then Inr m
      else if use_threads m \<noteq> 0 then
        (if nthread m \<ge> 128 then Inl Out_Of_Bounds
         else if \<not> thread_ok E (nat (nthread m)) then Inr m
         else let m = out m (Display_Thread (nat (nthread m)) i); m = m\<lparr>nthread := nthread m + 1\<rparr> in Inr (out m (Displayed i)))
      else Inr (out m (Displayed i)))"

text \<open>
  The image type from the keyword cards of 128 bytes: the word at column 32 of the first card that
  has the keyword.  A card without a terminator is followed by what is on the stack.
\<close>

primrec find_imtype :: "nat \<Rightarrow> nat \<Rightarrow> (nat \<Rightarrow> string) \<Rightarrow> string \<Rightarrow> string res" where
  "find_imtype 0 i crd keyw = Inr []"
| "find_imtype (Suc n) i crd keyw =
     (if length (crd i) \<ge> 128 then Inl Uninitialised
      else if contains (crd i) keyw
      then fit Sm_Cache.SZ_FNAME (takeWhile (\<lambda>c. \<not> isspace c) (dropWhile isspace (drop 32 (crd i))))
      else find_imtype n (Suc i) crd keyw)"

definition meta_page :: "mgr_env \<Rightarrow> rat \<Rightarrow> nat \<Rightarrow> manager \<Rightarrow> manager res" where
  "meta_page E xid i m =
     (let p = pdata (cache m) ! i in case header_at (kern m) (SEG_ADDR (sys E) p) of
        None \<Rightarrow> Inl Null_Deref
      | Some h \<Rightarrow>
        bind_res (fit 80 (seg_colID h @ (if expPageNum h = 0 then ''_Pre'' else ''_Post''))) (\<lambda>kwdb.
        if strcaseeq (imtypeDB m) kwdb then
          let n = unat (dsize h) div 128 in
          if smcGetPageData (sys E) (Some p) = None \<and> n > 0 then Inl Null_Deref
          else bind_res (find_imtype n 0 (cards E (memKey p)) (imtypeKeyw m)) (\<lambda>val.
            bind_res (fit SZ_LINE (''imagetype '' @ fixed 6 xid @ '' '' @ (if val \<noteq> [] then val else ''image'') @ [CHR 0x0A])) (\<lambda>msg.
            Inr (tell m msg MB_SET)))
        else Inr m))"

text \<open>What happens to the page at the end: with threads nothing, they detach it.\<close>

definition release_page :: "mgr_env \<Rightarrow> nat \<Rightarrow> manager \<Rightarrow> manager" where
  "release_page E i m =
     (if use_threads m \<noteq> 0 then m
      else case smcDetach (sys E) (cache m) (kern m) i (use_pxf m = 0) of (c, k) \<Rightarrow> m\<lparr>cache := c, kern := k\<rparr>)"

definition proc_page :: "mgr_env \<Rightarrow> rat \<Rightarrow> nat \<Rightarrow> manager \<Rightarrow> manager res" where
  "proc_page E xid i m =
     (let p = pdata (cache m) ! i in
      if memKey p = 0 \<or> \<not> selected (procPages m) xid p then Inr m
      else case smcAttach (sys E) (cache m) (kern m) i of (c, k) \<Rightarrow>
        let p = pdata c ! i in
        bind_res (smcSetPageSeqNo (sys E) k p (m_seqno m)) (\<lambda>k.
        let m = m\<lparr>cache := c, kern := k\<rparr> in
        bind_res (if pg_type p = TY_DATA \<or> pg_type p = TY_VOID then data_page E i m
                  else if pg_type p = TY_META then meta_page E xid i m else Inr m) (\<lambda>m.
        Inr (release_page E i m))))"

primrec proc_loop :: "nat \<Rightarrow> mgr_env \<Rightarrow> rat \<Rightarrow> nat \<Rightarrow> manager \<Rightarrow> manager res" where
  "proc_loop 0 E xid i m = Inr m"
| "proc_loop (Suc n) E xid i m =
     (if i < top (cache m) then bind_res (proc_page E xid i m) (proc_loop n E xid (Suc i)) else Inr m)"

definition open_display :: "mgr_env \<Rightarrow> manager \<Rightarrow> manager" where
  "open_display E m =
     (if disp_enable m = 0 then m
      else let m = (if use_threads m = 0
             then let m = (if display_ok E then m else m\<lparr>use_disp := 0, disp_enable := 0\<rparr>)
                  in out m (Display_Open (disp_stdimg m) (disp_frame m))
             else m)
           in if use_mbus m then tell (tell m ''active'' MB_STATUS) ''rtdStat clear'' MB_SET else m)"

definition smcProcess :: "mgr_env \<Rightarrow> rat \<Rightarrow> manager \<Rightarrow> manager res" where
  "smcProcess E xid m =
     (let m = (open_display E m)\<lparr>nthread := 0\<rparr> in
      bind_res (proc_loop (top (cache m)) E xid 0 m) (\<lambda>m.
      bind_res (if use_mbus m
        then bind_res (fit 128 (''process smc done '' @ fixed 6 xid)) (\<lambda>buf. Inr (tell (tell m buf MB_SET) ''inactive'' MB_STATUS))
        else Inr m) (\<lambda>m.
      let m = (if disp_enable m \<noteq> 0 \<and> use_threads m = 0 then out m Display_Close else m)
      in Inr (tell m ''inactive'' MB_STATUS))))"

text \<open>\<open>smcProcNext\<close> looks for a page of an exposure id that it has never set.\<close>

definition smcProcAll :: "manager \<Rightarrow> manager" where
  "smcProcAll m = m"

definition smcProcNext :: "manager \<Rightarrow> manager res" where
  "smcProcNext m = Inl Uninitialised"

section \<open>Messages of the bus\<close>

text \<open>The statistics: when ids are listed, each page is attached for a moment.\<close>

primrec stat_pages :: "nat \<Rightarrow> env \<Rightarrow> bool \<Rightarrow> nat \<Rightarrow> smCache \<times> kernel \<Rightarrow> (smCache \<times> kernel) res" where
  "stat_pages 0 e ids i ck = Inr ck"
| "stat_pages (Suc n) e ids i ck = (case ck of (c, k) \<Rightarrow>
     if i \<ge> length (pdata c) then Inl Out_Of_Bounds
     else stat_pages n e ids (Suc i)
       (if memKey (pdata c ! i) \<noteq> 0 \<and> ids then (case smcAttach e c k i of (c, k) \<Rightarrow> smcDetach e c k i False) else (c, k)))"

definition smcPageStats :: "mgr_env \<Rightarrow> int \<Rightarrow> manager \<Rightarrow> manager res" where
  "smcPageStats E np m =
     (let np = (if np < 0 then max (int (top (cache m)) + 2) (npages (cache m)) else np);
          np = (if np > 100 then 100 else np) in
      bind_res (stat_pages (nat np) (sys E) (idListing m \<noteq> 0) 0 (cache m, kern m)) (\<lambda>(c, k).
        let m = out (m\<lparr>cache := c, kern := k\<rparr>) (Seg_List (nat np))
        in Inr (tell m (''segCount '' @ mbhost E @ '' '' @ show_int (npages c) @ '' '') MB_SET)))"

text \<open>
  The buffer of a message: the characters of the text as it was received, and one more, the
  terminator.  Newlines are overwritten by NUL where they stand, so that what is behind them can
  still be read: \<open>text_from b n\<close> is the string that starts at \<open>&msg[n]\<close>.
\<close>

definition kill_newline :: "string \<Rightarrow> string" where
  "kill_newline = map (\<lambda>c. if c = CHR 0x0A then NUL else c)"

definition text_from :: "string \<Rightarrow> nat \<Rightarrow> string res" where
  "text_from b n = (if n \<le> length b then Inr (cstr_at b n) else Inl Out_Of_Bounds)"

text \<open>The files that switch debugging on and off; the level is behind the flag and one more character.\<close>

definition debug_names :: "(string \<times> string) list" where
  "debug_names = [(''super'', ''SUP''), (''io'', ''IO''), (''socket'', ''SOCK''), (''sendrec'', ''SR''), (''conf'', ''CONF''),
     (''proc'', ''PROC''), (''queue'', ''QUEUE''), (''collector'', ''COL''), (''pxf'', ''PXF''), (''smc'', ''SMC''), (''mbus'', ''MB'')]"

definition smcSetDebug :: "manager \<Rightarrow> string \<Rightarrow> manager res" where
  "smcSetDebug m b =
     (let f = takeWhile (\<lambda>c. \<not> isspace c) (cstr_at b 0) in
      bind_res (fit 32 f) (\<lambda>f.
      bind_res (text_from b (Suc (length f))) (\<lambda>t.
        let files = (if f = ''all'' then map snd debug_names else case map_of debug_names f of None \<Rightarrow> [] | Some n \<Rightarrow> [n])
        in Inr (fold (\<lambda>n m. out m (Debug_File (''/tmp/'' @ n @ ''_DEBUG'') (atoi t))) files m))))"

text \<open>\<open>smProcImtype\<close> reads through a pointer that it has never set; \<open>smProcImname\<close> is empty.\<close>

definition smProcImtype :: "manager \<Rightarrow> string \<Rightarrow> manager res" where
  "smProcImtype m msg = Inl Uninitialised"

definition smProcImname :: "manager \<Rightarrow> string \<Rightarrow> manager" where
  "smProcImname m name = m"

text \<open>\<open>MB_SET\<close>: an option or a command; \<open>num n\<close> is the number from position \<open>n\<close> on.\<close>

definition mgr_set :: "mgr_env \<Rightarrow> manager \<Rightarrow> string \<Rightarrow> manager res" where
  "mgr_set E m b =
     (let num = (\<lambda>n f. bind_res (text_from b n) (\<lambda>t. Inr (f (atoi t)))) in
      if starts b ''option disp_enable'' then num 19 (\<lambda>v. m\<lparr>disp_enable := v\<rparr>)
      else if starts b ''option lo_gai'' then num 14 (\<lambda>v. m\<lparr>lo_gain := v\<rparr>)
      else if starts b ''option otf_enable'' then num 18 (\<lambda>v. m\<lparr>otf_enable := v\<rparr>)
      else if starts b ''option use_threads'' then num 19 (\<lambda>v. m\<lparr>use_threads := v\<rparr>)
      else if starts b ''option stat_enable'' then num 19 (\<lambda>v. m\<lparr>stat_enb := v\<rparr>)
      else if starts b ''option rot_enable'' then num 18 (\<lambda>v. m\<lparr>rotate_enable := v\<rparr>)
      else if starts b ''option idListing'' then num 17 (\<lambda>v. m\<lparr>idListing := v\<rparr>)
      else if starts b ''option seqno'' then num 13 (\<lambda>v. m\<lparr>m_seqno := v, cache := smcSetSeqNo (cache m) v\<rparr>)
      else if starts b ''option froot'' then bind_res (text_from b 13) (\<lambda>t. Inr (m\<lparr>cache := smcSetFRoot (cache m) t\<rparr>))
      else if starts b ''option dirname'' then bind_res (text_from b 16) (\<lambda>t. Inr (m\<lparr>cache := smcSetDir (cache m) t\<rparr>))
      else if starts b ''option frame'' then num 14 (\<lambda>v. m\<lparr>disp_frame := v\<rparr>)
      else if starts b ''option tr'' then num 11 (\<lambda>v. m\<lparr>trim_ref := v\<rparr>)
      else if starts b ''option stdimg'' then num 15 (\<lambda>v. m\<lparr>disp_stdimg := v\<rparr>)
      else if starts b ''no-op'' then Inr m
      else if starts b ''reset'' then (case smcReset (sys E) (cache m) (kern m) of (c, k) \<Rightarrow> Inr (m\<lparr>cache := c, kern := k\<rparr>))
      else if starts b ''skysub'' then num 7 (\<lambda>v. m\<lparr>skysub := v\<rparr>)
      else if starts b ''imtype'' then bind_res (text_from b 7) (smProcImtype m)
      else if starts b ''imname'' then bind_res (text_from b 7) (\<lambda>t. Inr (smProcImname m t))
      else if starts b ''debug'' then bind_res (str_from b 6) (smcSetDebug m)
      else Inr m)"

definition mgr_start :: "mgr_env \<Rightarrow> manager \<Rightarrow> string \<Rightarrow> manager res" where
  "mgr_start E m b =
     (if \<not> starts b ''process'' then Inr m
      else bind_res (text_from b 8) (\<lambda>t.
        if starts t ''all'' \<or> starts t ''next'' then Inr m
        else let xid = atof t in
          bind_res (smcProcess E xid (m\<lparr>cache := smcLockExpID (cache m) xid (procPages m)\<rparr>)) (\<lambda>m.
          Inr (m\<lparr>cache := smcUnlockExpID (sys E) (cache m) xid (procPages m)\<rparr>))))"

definition mgr_finish :: "mgr_env \<Rightarrow> manager \<Rightarrow> string \<Rightarrow> manager res" where
  "mgr_finish E m b =
     (if \<not> starts b ''ExpID'' then Inr m
      else bind_res (text_from b 6) (\<lambda>t.
        case smcDelExpID (sys E) (cache m) (kern m) (atof t) (procPages m) of (c, k) \<Rightarrow>
          let m = m\<lparr>cache := c, kern := k\<rparr> in
          bind_res (fit SZ_LINE (''clean done '' @ t)) (\<lambda>buf.
          Inr (tell (tell (tell (tell m buf MB_SET) [] MB_ACK) [] MB_ACK) [] MB_ACK))))"

text \<open>A supervisor that connects: join it, when there is none yet.\<close>

definition mgr_connect :: "manager \<Rightarrow> string \<Rightarrow> manager res" where
  "mgr_connect m msg =
     (case mbParseConnectMsg msg of
        (stat, tid, Some name, host, pid) \<Rightarrow>
          if starts ''super'' name \<and> m_stid m < 0 then
            (case host of None \<Rightarrow> Inl Uninitialised
             | Some h \<Rightarrow> Inr (out m (To_Join (case tid of None \<Rightarrow> 0 | Some t \<Rightarrow> t) h (case pid of None \<Rightarrow> 0 | Some p \<Rightarrow> p))))
          else Inr m
      | _ \<Rightarrow> Inl Uninitialised)"

definition myHandler :: "mgr_env \<Rightarrow> manager \<Rightarrow> int \<Rightarrow> string \<Rightarrow> manager res" where
  "myHandler E m subject msg =
     (let b = kill_newline msg in
      if subject = MB_CONNECT then mgr_connect m (cstr_at b 0)
      else if subject = MB_GET_STATUS then smcPageStats E (-1) m
      else if subject = MB_START then mgr_start E m b
      else if subject = MB_FINISH then mgr_finish E m b
      else if subject = MB_SET then mgr_set E m b
      else if subject = MB_EXITING then Inr m
      else if subject = MB_STATUS then Inr (tell m ''Waiting for data...'' MB_STATUS)
      else if subject = MB_PING then Inr (tell m [] MB_ACK)
      else if subject = MB_ERR then Inr m
      else if subject = MB_DONE then Inl Exit_Process
      else if starts b ''quit'' then Inl Exit_Process else Inr m)"

text \<open>A message for this process or for all: the addressee, the subject and the text, unless receiving failed.\<close>

definition mbusMsgHandler :: "mgr_env \<Rightarrow> int \<Rightarrow> (int \<times> int \<times> string) option \<Rightarrow> manager \<Rightarrow> (int \<times> manager) res" where
  "mbusMsgHandler E mytid received m =
     (case received of None \<Rightarrow> Inr (-1, m)
      | Some (to_tid, subject, msg) \<Rightarrow>
          if to_tid = mytid \<and> subject \<noteq> MB_ERR \<or> to_tid < 0
          then bind_res (myHandler E m subject msg) (\<lambda>m. Inr (0, m))
          else Inr (0, m))"

end
