(* ===== verification/Sup_Proc_Props.thy ===== *)
theory Sup_Proc_Props
  imports Sup_Proc
begin

text \<open>
  The process table of the supervisor as the list of its clients (\<open>clients\<close>), the invariant of
  the tables (\<open>sup_ok\<close>), which every operation keeps, and what each operation does to the list.
\<close>

section \<open>Arrays\<close>

lemma arr_get_in: "0 \<le> i \<Longrightarrow> i < int (length xs) \<Longrightarrow> arr_get xs i = Inr (xs ! nat i)"
  by (simp add: arr_get_def)

lemma arr_set_in: "0 \<le> i \<Longrightarrow> i < int (length xs) \<Longrightarrow> arr_set xs i x = Inr (xs[nat i := x])"
  by (simp add: arr_set_def)

lemma arr_get_Inr: "arr_get xs i = Inr x \<longleftrightarrow> 0 \<le> i \<and> i < int (length xs) \<and> x = xs ! nat i"
  by (auto simp: arr_get_def)

lemma arr_set_Inr: "arr_set xs i x = Inr ys \<longleftrightarrow> 0 \<le> i \<and> i < int (length xs) \<and> ys = xs[nat i := x]"
  by (auto simp: arr_set_def)

lemma fit_Inr: "fit n s = Inr t \<longleftrightarrow> length s < n \<and> t = s"
  by (auto simp: fit_def)

lemma arr_get_mem: "arr_get xs i = Inr x \<Longrightarrow> x \<in> set xs"
  by (auto simp: arr_get_Inr intro: nth_mem)

lemma arr_set_mem: "arr_set xs i x = Inr ys \<Longrightarrow> set ys \<subseteq> insert x (set xs)"
  by (auto simp: arr_set_Inr dest: set_update_subset_insert [THEN subsetD])

lemmas arr_in = arr_get_in arr_set_in
lemmas res_Inr = arr_get_Inr arr_set_Inr fit_Inr bind_res_Inr_iff

text \<open>The search loops return the first index in the range that satisfies the test, or \<open>-1\<close>.\<close>

lemma find_from_run:
  assumes "0 \<le> i" "i + int n \<le> int (length pt)"
  shows "\<exists>r. find_from n i P pt = Inr r \<and> (r = -1 \<and> (\<forall>k. i \<le> k \<and> k < i + int n \<longrightarrow> \<not> P (pt ! nat k))
     \<or> i \<le> r \<and> r < i + int n \<and> P (pt ! nat r) \<and> (\<forall>k. i \<le> k \<and> k < r \<longrightarrow> \<not> P (pt ! nat k)))"
  using assms
proof (induction n arbitrary: i)
  case (Suc n)
  have g: "arr_get pt i = Inr (pt ! nat i)" using Suc.prems by (simp add: arr_in)
  show ?case
  proof (cases "P (pt ! nat i)")
    case True
    then show ?thesis using g by (intro exI [of _ i]) auto
  next
    case False
    then have ne: "k \<noteq> i" if "P (pt ! nat k)" for k using that by auto
    obtain r where r: "find_from n (i + 1) P pt = Inr r" "r = -1 \<and> (\<forall>k. i + 1 \<le> k \<and> k < i + 1 + int n \<longrightarrow> \<not> P (pt ! nat k))
       \<or> i + 1 \<le> r \<and> r < i + 1 + int n \<and> P (pt ! nat r) \<and> (\<forall>k. i + 1 \<le> k \<and> k < r \<longrightarrow> \<not> P (pt ! nat k))"
      using Suc.IH [of "i + 1"] Suc.prems by auto
    have s: "\<forall>k. i \<le> k \<and> k < m \<longrightarrow> \<not> P (pt ! nat k)" if "\<forall>k. i + 1 \<le> k \<and> k < m \<longrightarrow> \<not> P (pt ! nat k)" for m
    proof (intro allI impI)
      fix k
      assume "i \<le> k \<and> k < m"
      then show "\<not> P (pt ! nat k)" using that False by (cases "k = i") auto
    qed
    have run: "find_from (Suc n) i P pt = Inr r" using g r(1) False by simp
    show ?thesis
      using r(2)
    proof
      assume a: "r = -1 \<and> (\<forall>k. i + 1 \<le> k \<and> k < i + 1 + int n \<longrightarrow> \<not> P (pt ! nat k))"
      then have "\<forall>k. i \<le> k \<and> k < i + int (Suc n) \<longrightarrow> \<not> P (pt ! nat k)" using s [of "i + int (Suc n)"] by (simp add: add.assoc)
      then show ?thesis using run a by blast
    next
      assume a: "i + 1 \<le> r \<and> r < i + 1 + int n \<and> P (pt ! nat r) \<and> (\<forall>k. i + 1 \<le> k \<and> k < r \<longrightarrow> \<not> P (pt ! nat k))"
      then have "i \<le> r \<and> r < i + int (Suc n)" by simp
      then show ?thesis using run a s [of r] by blast
    qed
  qed
qed auto

lemma shift_procs_run:
  assumes "0 \<le> i" "i + int n < int (length pt)"
  shows "shift_procs n i pt = Inr (take (nat i) pt @ take n (drop (Suc (nat i)) pt) @ drop (nat i + n) pt)"
  using assms
proof (induction n arbitrary: i pt)
  case (Suc n)
  let ?i = "nat i" and ?pt = "pt[nat i := pt ! Suc (nat i)]"
  have i: "Suc ?i < length pt" "nat (i + 1) = Suc ?i" using Suc.prems by simp_all
  then have "shift_procs (Suc n) i pt = shift_procs n (i + 1) ?pt" using Suc.prems by (simp add: arr_in)
  also have "\<dots> = Inr (take (Suc ?i) ?pt @ take n (drop (Suc (Suc ?i)) ?pt) @ drop (Suc ?i + n) ?pt)"
    using Suc.IH [of "i + 1" ?pt] Suc.prems i(2) by simp
  also have "take (Suc ?i) ?pt = take ?i pt @ [pt ! Suc ?i]" using i by (simp add: take_Suc_conv_app_nth)
  also have "take n (drop (Suc (Suc ?i)) ?pt) = take n (drop (Suc (Suc ?i)) pt)" by simp
  also have "drop (Suc ?i + n) ?pt = drop (Suc ?i + n) pt" by simp
  also have "(take ?i pt @ [pt ! Suc ?i]) @ take n (drop (Suc (Suc ?i)) pt) @ drop (Suc ?i + n) pt
      = take ?i pt @ take (Suc n) (drop (Suc ?i) pt) @ drop (?i + Suc n) pt"
    using i by (simp add: take_Suc_conv_app_nth flip: Cons_nth_drop_Suc)
  finally show ?case .
qed (simp add: append_take_drop_id)

lemma length_shift: "i + n < length xs \<Longrightarrow> length (take i xs @ take n (drop (Suc i) xs) @ drop (i + n) xs) = length xs"
  by simp

section \<open>The clients and the invariant\<close>

definition clients :: "sup \<Rightarrow> clientProc list" where
  "clients s = take (nat (numClients s)) (procTable s)"

text \<open>The strings of an entry fit their arrays.\<close>

definition proc_ok :: "clientProc \<Rightarrow> bool" where
  "proc_ok cp \<longleftrightarrow> length (p_name cp) < SZ_PNAME \<and> length (p_host cp) < SZ_PHOST \<and> length (colID cp) < SZ_PNAME
     \<and> length (p_date cp) < SZ_PDATE \<and> length (p_status cp) < SZ_PSTAT"

definition slot_ok :: "int \<Rightarrow> bool" where
  "slot_ok i \<longleftrightarrow> 0 \<le> i \<and> i < int SZ_PROCTABLE"

definition conn_ok :: "panConn \<Rightarrow> bool" where
  "conn_ok pc \<longleftrightarrow> (\<forall>c. collector pc = Some c \<longrightarrow> slot_ok c) \<and> (\<forall>p. pan pc = Some p \<longrightarrow> slot_ok p) \<and> length (pc_timestamp pc) < SZ_PDATE"

definition sup_ok :: "sup \<Rightarrow> bool" where
  "sup_ok s \<longleftrightarrow> length (procTable s) = SZ_PROCTABLE \<and> 0 \<le> numClients s \<and> numClients s \<le> int SZ_PROCTABLE
     \<and> (\<forall>cp \<in> set (procTable s). proc_ok cp)
     \<and> length (connTable s) = SZ_PROCTABLE \<and> 0 \<le> numPanConns s \<and> numPanConns s \<le> int SZ_PROCTABLE
     \<and> (\<forall>pc \<in> set (connTable s). conn_ok pc) \<and> (\<forall>i < nat (numPanConns s). collector (connTable s ! i) \<noteq> None)
     \<and> 0 \<le> numPanPairs s \<and> numPanPairs s \<le> int (length (pairTable s))"

lemma sup_okD:
  assumes "sup_ok s"
  shows "length (procTable s) = SZ_PROCTABLE" "0 \<le> numClients s" "numClients s \<le> int SZ_PROCTABLE"
    "\<forall>cp \<in> set (procTable s). proc_ok cp" "length (connTable s) = SZ_PROCTABLE" "0 \<le> numPanConns s" "numPanConns s \<le> int SZ_PROCTABLE"
    "\<forall>pc \<in> set (connTable s). conn_ok pc" "\<forall>i < nat (numPanConns s). collector (connTable s ! i) \<noteq> None"
    "0 \<le> numPanPairs s" "numPanPairs s \<le> int (length (pairTable s))"
  using assms by (simp_all add: sup_ok_def)

lemma sup_ok_gui [simp]: "sup_ok (s\<lparr>gui := g\<rparr>) = sup_ok s" "clients (s\<lparr>gui := g\<rparr>) = clients s"
  by (simp_all add: sup_ok_def clients_def)

lemma sup_message_gui: "sup_message s a b = s\<lparr>gui := gui s @ [(a, b)]\<rparr>"
  by (simp add: sup_message_def)

lemma fold_message_gui: "\<exists>g. fold (\<lambda>i s. sup_message s a (f i)) xs s = s\<lparr>gui := gui s @ g\<rparr>"
proof (induction xs arbitrary: s)
  case Nil
  show ?case by (intro exI [of _ "[]"]) simp
next
  case (Cons x xs)
  obtain g where "fold (\<lambda>i s. sup_message s a (f i)) xs (sup_message s a (f x)) = (sup_message s a (f x))\<lparr>gui := gui (sup_message s a (f x)) @ g\<rparr>"
    using Cons.IH by blast
  then show ?case by (intro exI [of _ "(a, f x) # g"]) (simp add: sup_message_gui)
qed

text \<open>Refreshing the display changes what has been sent to it and nothing else.\<close>

lemma update_frame:
  assumes "procUpdateProcessTable s = Inr s'"
  shows "\<exists>g. s' = s\<lparr>gui := g\<rparr>"
proof -
  obtain buf act where p: "proc_lines (nat (numClients s)) 0 (procTable s) [] [] = Inr (buf, act)"
    using assms by (auto simp: procUpdateProcessTable_def bind_res_Inr_iff)
  let ?s = "sup_message s ''procTab'' buf"
  obtain g where "fold (\<lambda>i s. sup_message s ''procActive'' (show_int i)) act ?s = ?s\<lparr>gui := gui ?s @ g\<rparr>"
    using fold_message_gui by blast
  then have "s' = ?s \<or> s' = ?s\<lparr>gui := gui ?s @ g\<rparr>"
    using assms p by (simp add: procUpdateProcessTable_def Let_def split: if_splits)
  then show ?thesis by (elim disjE) (simp_all add: sup_message_gui, blast+)
qed

lemma transfer_frame: "procUpdateTransferTable s = Inr s' \<Longrightarrow> \<exists>g. s' = s\<lparr>gui := g\<rparr>"
  by (auto simp: procUpdateTransferTable_def bind_res_Inr_iff sup_message_gui)

lemma frame_refl: "\<exists>g. s = s\<lparr>gui := g\<rparr>"
  by (intro exI [of _ "gui s"]) simp

lemma update_frame_if:
  "(if u then procUpdateProcessTable s else Inr s) = Inr s' \<Longrightarrow> \<exists>g. s' = s\<lparr>gui := g\<rparr>"
  "(if u then procUpdateTransferTable s else Inr s) = Inr s' \<Longrightarrow> \<exists>g. s' = s\<lparr>gui := g\<rparr>"
  by (cases u; use update_frame transfer_frame frame_refl in force)+

section \<open>Every operation keeps the invariant\<close>

text \<open>Setting an entry of the process table, and of the connection table.\<close>

lemma set_proc_ok:
  assumes "sup_ok s" "arr_set (procTable s) i cp = Inr pt" "proc_ok cp"
  shows "sup_ok (s\<lparr>procTable := pt\<rparr>)"
  using assms arr_set_mem [OF assms(2)] by (auto simp: sup_ok_def arr_set_Inr)

lemma set_conn_ok:
  assumes "sup_ok s" "arr_set (connTable s) i pc = Inr ct" "conn_ok pc" "collector pc \<noteq> None"
  shows "sup_ok (s\<lparr>connTable := ct\<rparr>)"
proof -
  have "length ct = length (connTable s)" "ct = (connTable s)[nat i := pc]" "nat i < length (connTable s)"
    using assms(2) by (auto simp: arr_set_Inr)
  moreover from this have "\<forall>j < nat (numPanConns s). collector (ct ! j) \<noteq> None"
    using sup_okD(5, 7, 9) [OF assms(1)] assms(4) by (auto simp: nth_list_update)
  ultimately show ?thesis using assms arr_set_mem [OF assms(2)] by (auto simp: sup_ok_def)
qed

lemma upd_proc_ok:
  assumes "sup_ok s" "upd_proc s clid f = Inr s'" "\<And>cp. proc_ok cp \<Longrightarrow> proc_ok (f cp)"
  shows "sup_ok s'"
proof -
  obtain cp pt where *: "arr_get (procTable s) clid = Inr cp" "arr_set (procTable s) clid (f cp) = Inr pt" "s' = s\<lparr>procTable := pt\<rparr>"
    using assms(2) by (auto simp: upd_proc_def bind_res_Inr_iff)
  then have "proc_ok cp" using sup_okD(4) [OF assms(1)] arr_get_mem [OF *(1)] by simp
  then show ?thesis using set_proc_ok [OF assms(1) *(2)] assms(3) *(3) by simp
qed

lemma match_conn_index: "match_conn n i s pp = Inr (Some j) \<Longrightarrow> i \<le> j \<and> j < i + int n"
proof (induction n arbitrary: i)
  case (Suc n)
  then have "j = i \<or> match_conn n (i + 1) s pp = Inr (Some j)"
    by (auto simp: bind_res_Inr_iff split: if_splits option.splits)
  then show ?case using Suc.IH [of "i + 1"] by auto
qed simp

lemma add_collector_ok:
  assumes "sup_ok s" "slot_ok k" "add_collector s k = Inr s'"
  shows "sup_ok s'"
proof -
  let ?n = "numPanConns s"
  obtain pc ct where *: "arr_get (connTable s) ?n = Inr pc" "arr_set (connTable s) ?n (pc\<lparr>collector := Some k, inUse := 0\<rparr>) = Inr ct"
    "s' = s\<lparr>connTable := ct, numPanConns := ?n + 1\<rparr>"
    using assms(3) by (auto simp: add_collector_def bind_res_Inr_iff)
  have n: "0 \<le> ?n" "?n < int (length (connTable s))" "ct = (connTable s)[nat ?n := pc\<lparr>collector := Some k, inUse := 0\<rparr>]"
    using *(1, 2) by (simp_all add: arr_get_Inr arr_set_Inr)
  have "conn_ok (pc\<lparr>collector := Some k, inUse := 0\<rparr>)"
    using arr_get_mem [OF *(1)] sup_okD(8) [OF assms(1)] assms(2) by (auto simp: conn_ok_def)
  then have "\<forall>pc \<in> set ct. conn_ok pc" using arr_set_mem [OF *(2)] sup_okD(8) [OF assms(1)] by blast
  moreover have "collector (ct ! i) \<noteq> None" if "i < nat (?n + 1)" for i
    using that n sup_okD(9) [OF assms(1)] by (cases "i = nat ?n") (auto simp: nth_list_update)
  ultimately show ?thesis using assms(1) n *(3) by (auto simp: sup_ok_def)
qed

lemma pair_pan_ok:
  assumes "sup_ok s" "slot_ok k" "pair_pan s k host = Inr s'"
  shows "sup_ok s'"
proof -
  obtain pp m where m: "match_conn (nat (numPanConns s)) 0 s pp = Inr m"
    "(case m of None \<Rightarrow> Inr s | Some i \<Rightarrow> bind_res (arr_get (connTable s) i) (\<lambda>pc.
           bind_res (arr_set (connTable s) i (pc\<lparr>pan := Some k\<rparr>)) (\<lambda>ct. Inr (s\<lparr>connTable := ct\<rparr>)))) = Inr s'"
    using assms(3) unfolding pair_pan_def by (simp only: bind_res_Inr_iff split_beta) blast
  show ?thesis
  proof (cases m)
    case (Some i)
    then obtain pc ct where *: "arr_get (connTable s) i = Inr pc" "arr_set (connTable s) i (pc\<lparr>pan := Some k\<rparr>) = Inr ct" "s' = s\<lparr>connTable := ct\<rparr>"
      using m(2) by (auto simp: bind_res_Inr_iff)
    have "0 \<le> i" "i < numPanConns s" using match_conn_index m(1) Some sup_okD(6) [OF assms(1)] by fastforce+
    then have "collector pc \<noteq> None" "conn_ok pc" using sup_okD(8, 9) [OF assms(1)] *(1) arr_get_mem [OF *(1)] by (auto simp: arr_get_Inr)
    then show ?thesis using set_conn_ok [OF assms(1) *(2)] *(3) assms(2) by (simp add: conn_ok_def)
  qed (use m assms(1) in simp)
qed

lemma connect_client_ok:
  assumes "sup_ok s" "slot_ok k" "connect_client s k name host = Inr s'"
  shows "sup_ok s'"
proof -
  consider "add_collector s k = Inr s'" | "pair_pan s k host = Inr s'" | "s' = s"
    using assms(3) unfolding connect_client_def by (metis Inr_inject)
  then show ?thesis using add_collector_ok [OF assms(1, 2)] pair_pan_ok [OF assms(1, 2)] assms(1) by cases simp_all
qed

lemma procAddClient_ok:
  assumes "sup_ok s" "procAddClient now s chan name host port tid pid status update = Inr (r, host', s')"
  shows "sup_ok s'"
proof (cases "name = ''CMD_Test'' \<or> numClients s = int SZ_PROCTABLE")
  case True
  then have "s' = s" using assms(2) by (auto simp: procAddClient_def split: if_splits)
  then show ?thesis using assms(1) by simp
next
  case False
  let ?k = "numClients s"
  obtain h pt s1 where *: "length name < SZ_PNAME" "length h < SZ_PHOST" "length now < SZ_PDATE" "length status < SZ_PSTAT"
    "arr_set (procTable s) ?k (new_client now chan name h port tid pid status) = Inr pt"
    "connect_client (s\<lparr>procTable := pt, numClients := ?k + 1\<rparr>) ?k name host' = Inr s1"
    "(if update then procUpdateProcessTable s1 else Inr s1) = Inr s'"
    using assms(2) False by (clarsimp simp: procAddClient_def Let_def bind_res_Inr_iff fit_Inr)
  have "proc_ok (new_client now chan name h port tid pid status)"
    using *(1-4) by (simp add: proc_ok_def new_client_def zero_proc_def sup_sizes)
  then have "sup_ok (s\<lparr>procTable := pt\<rparr>)" by (rule set_proc_ok [OF assms(1) *(5)])
  moreover have k: "slot_ok ?k" using sup_okD(2, 3) [OF assms(1)] False by (simp add: slot_ok_def)
  ultimately have "sup_ok (s\<lparr>procTable := pt, numClients := ?k + 1\<rparr>)" by (simp add: sup_ok_def slot_ok_def)
  then have "sup_ok s1" using connect_client_ok k *(6) by blast
  then show ?thesis using update_frame_if(1) [OF *(7)] by auto
qed

lemma procDelClient_ok:
  assumes "sup_ok s" "clid < numClients s" "procDelClient s clid update = Inr (r, s')"
  shows "sup_ok s' \<and> numClients s - 1 \<le> numClients s'"
proof -
  let ?n = "nat (numClients s - 1 - clid)"
  obtain cp where cp: "arr_get (procTable s) clid = Inr cp" using assms(3) by (auto simp: procDelClient_def bind_res_Inr_iff)
  show ?thesis
  proof (cases "connected cp = 0")
    case True
    obtain pt pt' where *: "shift_procs ?n clid (procTable s) = Inr pt" "arr_set pt (numClients s) zero_proc = Inr pt'"
      "(if update then procUpdateProcessTable (s\<lparr>procTable := pt', numClients := numClients s - 1\<rparr>)
        else Inr (s\<lparr>procTable := pt', numClients := numClients s - 1\<rparr>)) = Inr s'"
      using assms(3) cp True by (auto simp: procDelClient_def bind_res_Inr_iff Let_def)
    have c: "0 \<le> clid" "clid + int ?n < int (length (procTable s))" using cp assms(2) sup_okD(1, 3) [OF assms(1)] by (simp_all add: arr_get_Inr)
    then have pt: "pt = take (nat clid) (procTable s) @ take ?n (drop (Suc (nat clid)) (procTable s)) @ drop (nat clid + ?n) (procTable s)"
      using shift_procs_run [OF c] *(1) by simp
    have "set pt \<subseteq> set (procTable s)" unfolding pt by (auto dest: in_set_takeD in_set_dropD)
    moreover have "proc_ok zero_proc" by (simp add: proc_ok_def zero_proc_def sup_sizes)
    ultimately have "\<forall>cp \<in> set pt'. proc_ok cp" using arr_set_mem [OF *(2)] sup_okD(4) [OF assms(1)] by blast
    moreover have "nat clid + ?n < length (procTable s)" using c by linarith
    then have "length pt = length (procTable s)" unfolding pt by (rule length_shift)
    ultimately have "sup_ok (s\<lparr>procTable := pt', numClients := numClients s - 1\<rparr>)"
      using assms(1, 2) c(1) *(2) by (auto simp: sup_ok_def arr_set_Inr)
    then show ?thesis using update_frame_if(1) [OF *(3)] by auto
  next
    case False
    then show ?thesis using assms(1, 3) cp by (simp add: procDelClient_def)
  qed
qed

lemma clean_loop_ok:
  "sup_ok s \<Longrightarrow> clean_loop n i s = Inr s' \<Longrightarrow> sup_ok s'"
proof (induction n arbitrary: i s)
  case (Suc n)
  show ?case
  proof (cases "i < numClients s")
    case True
    then obtain cp where "arr_get (procTable s) i = Inr cp" using Suc.prems(2) by (auto simp: bind_res_Inr_iff)
    then consider "clean_loop n (i + 1) s = Inr s'" | r s1 where "procDelClient s i False = Inr (r, s1)" "clean_loop n i s1 = Inr s'"
      using Suc.prems(2) True by (auto simp: bind_res_Inr_iff split: if_splits)
    then show ?thesis using Suc.IH Suc.prems(1) procDelClient_ok [OF Suc.prems(1) True] by cases blast+
  qed (use Suc.prems in simp)
qed simp

lemma procCleanTable_ok: "sup_ok s \<Longrightarrow> procCleanTable s = Inr s' \<Longrightarrow> sup_ok s'"
  using clean_loop_ok update_frame by (fastforce simp: procCleanTable_def bind_res_Inr_iff)

lemma procDisconnect_ok:
  assumes "sup_ok s" "procDisconnect now (Some s) clid = Inr (Some s')"
  shows "sup_ok s'"
proof (cases "clid < 0")
  case False
  then obtain s1 where *: "length now < SZ_PDATE"
    "upd_proc s clid (\<lambda>cp. cp\<lparr>p_port := -1, p_tid := -1, connected := 0, p_date := now, p_status := ''Disconnected''\<rparr>) = Inr s1"
    "procUpdateProcessTable s1 = Inr s'"
    using assms(2) by (auto simp: procDisconnect_def bind_res_Inr_iff fit_Inr)
  then have "sup_ok s1" by (intro upd_proc_ok [OF assms(1) *(2)]) (simp add: proc_ok_def sup_sizes)
  then show ?thesis using update_frame [OF *(3)] by auto
qed (use assms in \<open>simp add: procDisconnect_def\<close>)

lemma procUpdateStatus_ok:
  assumes "sup_ok s" "procUpdateStatus now (Some s) clid status update = Inr (r, Some s')"
  shows "sup_ok s'"
proof (cases "clid < 0")
  case False
  let ?d = "\<lambda>t cp. cp\<lparr>p_date := now, p_status := t\<rparr>"
  obtain s1 where 1: "(\<exists>g. s1 = s\<lparr>gui := g\<rparr>) \<or> (\<exists>a. upd_proc s clid (\<lambda>cp. cp\<lparr>active := a\<rparr>) = Inr s1)
      \<or> (\<exists>t. length now < SZ_PDATE \<and> length t < SZ_PSTAT \<and> upd_proc s clid (?d t) = Inr s1)"
    and 2: "(if update then procUpdateProcessTable s1 else Inr s1) = Inr s'"
    using assms(2) False by (fastforce simp: procUpdateStatus_def bind_res_Inr_iff fit_Inr sup_message_gui split: if_splits)
  have "sup_ok s1" using 1
  proof (elim disjE exE conjE)
    fix t
    assume "length now < SZ_PDATE" "length t < SZ_PSTAT" "upd_proc s clid (?d t) = Inr s1"
    then show ?thesis using upd_proc_ok [OF assms(1), of clid "?d t" s1] by (simp add: proc_ok_def)
  qed (use assms(1) in \<open>auto elim!: upd_proc_ok simp: proc_ok_def\<close>)
  then show ?thesis using update_frame_if(1) [OF 2] by auto
qed (use assms in \<open>simp add: procUpdateStatus_def\<close>)

lemma set_port_ok: "proc_ok cp \<Longrightarrow> set_port msg cp = Inr cp' \<Longrightarrow> proc_ok cp'"
  by (auto simp: set_port_def Let_def bind_res_Inr_iff fit_Inr proc_ok_def split: option.splits if_splits)

lemma count_transfer_ok:
  "sup_ok s \<Longrightarrow> count_transfer now clid ival n i (connTable s) = Inr ct \<Longrightarrow> sup_ok (s\<lparr>connTable := ct\<rparr>)"
proof (induction n arbitrary: i s)
  case (Suc n)
  obtain pc where pc: "arr_get (connTable s) i = Inr pc" using Suc.prems(2) by (auto simp: bind_res_Inr_iff)
  show ?case
  proof (cases "collector pc = Some clid")
    case True
    let ?pc = "pc\<lparr>bytesTransferred := bytesTransferred pc + ival,
            bytesTotal := bytesTotal pc + of_int ival / (1024 * 1024 * 1024), pc_timestamp := now\<rparr>"
    obtain ct1 where 1: "length now < SZ_PDATE" "arr_set (connTable s) i ?pc = Inr ct1" "count_transfer now clid ival n (i + 1) ct1 = Inr ct"
      using Suc.prems(2) pc True by (auto simp: bind_res_Inr_iff fit_Inr)
    have "conn_ok pc" using arr_get_mem [OF pc] sup_okD(8) [OF Suc.prems(1)] by blast
    then have "sup_ok (s\<lparr>connTable := ct1\<rparr>)" using set_conn_ok [OF Suc.prems(1) 1(2)] True 1(1) by (simp add: conn_ok_def)
    from Suc.IH [OF this, of "i + 1"] 1(3) show ?thesis by simp
  next
    case False
    then show ?thesis using Suc.IH [OF Suc.prems(1), of "i + 1"] Suc.prems(2) pc by simp
  qed
next
  case 0
  then have "s\<lparr>connTable := ct\<rparr> = s" by auto
  then show ?case using "0.prems"(1) by simp
qed

lemma report_conns_frame: "report_conns clid ival n i s = Inr s' \<Longrightarrow> \<exists>g. s' = s\<lparr>gui := g\<rparr>"
proof (induction n arbitrary: i s)
  case 0
  then show ?case using frame_refl by simp
next
  case (Suc n)
  then obtain s1 where "report_conns clid ival n (i + 1) s1 = Inr s'" "\<exists>g. s1 = s\<lparr>gui := g\<rparr>"
    using frame_refl by (fastforce simp: bind_res_Inr_iff sup_message_gui split: if_splits option.splits)
  then show ?case using Suc.IH by fastforce
qed

lemma procSetValue_ok:
  assumes "sup_ok s" "procSetValue now (Some s) clid msg update = Inr (r, Some s')"
  shows "sup_ok s'"
proof (cases "clid < 0")
  case False
  show ?thesis
  proof (cases "starts msg ''port''")
    case True
    then obtain cp cp' pt where *: "arr_get (procTable s) clid = Inr cp" "set_port msg cp = Inr cp'" "arr_set (procTable s) clid cp' = Inr pt"
      "s' = s\<lparr>procTable := pt\<rparr>"
      using assms(2) False by (auto simp: procSetValue_def bind_res_Inr_iff)
    have "proc_ok cp" using arr_get_mem [OF *(1)] sup_okD(4) [OF assms(1)] by blast
    then show ?thesis using set_proc_ok [OF assms(1) *(3)] set_port_ok *(2, 4) by blast
  next
    case p: False
    show ?thesis
    proof (cases "starts msg ''transfer''")
      case True
      then obtain t ct where *: "count_transfer now clid (atoi t) (nat (numPanConns s)) 0 (connTable s) = Inr ct"
        "(if update then procUpdateTransferTable (s\<lparr>connTable := ct\<rparr>) else Inr (s\<lparr>connTable := ct\<rparr>)) = Inr s'"
        using assms(2) False p by (auto simp: procSetValue_def bind_res_Inr_iff Let_def)
      have "sup_ok (s\<lparr>connTable := ct\<rparr>)" by (rule count_transfer_ok [OF assms(1) *(1)])
      then show ?thesis using update_frame_if(2) [OF *(2)] by auto
    next
      case t: False
      show ?thesis
      proof (cases "starts msg ''connected''")
        case True
        then obtain v s1 s2 where *: "upd_proc s clid (\<lambda>cp. cp\<lparr>connected := v\<rparr>) = Inr s1"
          "report_conns clid v (nat (numPanConns s1)) 0 s1 = Inr s2" "(if update then procUpdateProcessTable s2 else Inr s2) = Inr s'"
          using assms(2) False p t by (auto simp: procSetValue_def bind_res_Inr_iff)
        have "sup_ok s1" by (rule upd_proc_ok [OF assms(1) *(1)]) (simp add: proc_ok_def)
        then show ?thesis using report_conns_frame [OF *(2)] update_frame_if(1) [OF *(3)] by auto
      qed (use assms False p t in \<open>simp add: procSetValue_def\<close>)
    qed
  qed
qed (use assms in \<open>simp add: procSetValue_def\<close>)

section \<open>The operations as steps\<close>

inductive proc_step :: "sup \<Rightarrow> sup \<Rightarrow> bool" where
  add: "procAddClient now s chan name host port tid pid status update = Inr (r, host', s') \<Longrightarrow> proc_step s s'"
| del: "clid < numClients s \<Longrightarrow> procDelClient s clid update = Inr (r, s') \<Longrightarrow> proc_step s s'"
| clean: "procCleanTable s = Inr s' \<Longrightarrow> proc_step s s'"
| disconnect: "procDisconnect now (Some s) clid = Inr (Some s') \<Longrightarrow> proc_step s s'"
| status: "procUpdateStatus now (Some s) clid st update = Inr (r, Some s') \<Longrightarrow> proc_step s s'"
| setval: "procSetValue now (Some s) clid msg update = Inr (r, Some s') \<Longrightarrow> proc_step s s'"

inductive_cases proc_stepE: "proc_step s s'"

lemma proc_step_ok: "proc_step s s' \<Longrightarrow> sup_ok s \<Longrightarrow> sup_ok s'"
  by (erule proc_stepE)
    (erule (1) procAddClient_ok procCleanTable_ok procDisconnect_ok procUpdateStatus_ok procSetValue_ok | use procDelClient_ok in blast)+

definition zero_conn :: panConn where
  "zero_conn = \<lparr>pan = None, collector = None, inUse = 0, bytesTransferred = 0, bytesTotal = 0, pc_timestamp = [], obsSetID = []\<rparr>"

text \<open>The tables when the supervisor has been configured: zero but for the pairings and the hosts.\<close>

definition sup_start :: "panPair list \<Rightarrow> hostTable list \<Rightarrow> sup" where
  "sup_start pairs hs = \<lparr>numClients = 0, procTable = replicate SZ_PROCTABLE zero_proc, numPanConns = 0,
     connTable = replicate SZ_PROCTABLE zero_conn, numPanPairs = int (length pairs), pairTable = pairs,
     numHostTable = int (length hs), hosts = hs, showActivity = False, sup_verbose = False, gui = []\<rparr>"

lemma sup_start_ok: "sup_ok (sup_start pairs hs)"
  by (simp add: sup_ok_def sup_start_def proc_ok_def zero_proc_def conn_ok_def zero_conn_def sup_sizes)

lemma reachable_ok: "proc_step\<^sup>*\<^sup>* (sup_start pairs hs) s \<Longrightarrow> sup_ok s"
proof (induction rule: rtranclp_induct)
  case base
  show ?case by (rule sup_start_ok)
next
  case (step s1 s2)
  then show ?case using proc_step_ok by blast
qed

lemma find_in_table:
  assumes "sup_ok s"
  shows "\<exists>r. find_from (nat (numClients s)) 0 P (procTable s) = Inr r \<and> (r = -1 \<or> 0 \<le> r \<and> r < numClients s \<and> P (procTable s ! nat r))"
  using find_from_run [of 0 "nat (numClients s)" "procTable s" P] sup_okD(1-3) [OF assms] by fastforce

lemma add_to_full_table:
  assumes "numClients s = int SZ_PROCTABLE" "name \<noteq> ''CMD_Test''"
  shows "procAddClient now s chan name host port tid pid status update = Inr (-1, host, s)"
  using assms by (simp add: procAddClient_def)

text \<open>
  C15: in every state that the operations reach from the configured tables, the counts are within
  the tables, every string is terminated inside its array, and every registered connection has a
  collector that points into the process table.  When the table is full a further client is refused
  with the error status, and nothing changes; looking for a client never fails, and what it finds is
  one of the registered clients.  (Clients are deleted at the numbers of existing clients, as in the
  loop of \<open>procCleanTable\<close>, the only caller.)
\<close>

theorem reachable_tables_ok:
  assumes "proc_step\<^sup>*\<^sup>* (sup_start pairs hs) s"
  shows "sup_ok s \<and> (numClients s = int SZ_PROCTABLE \<and> name \<noteq> ''CMD_Test'' \<longrightarrow>
       procAddClient now s chan name host port tid pid status update = Inr (-1, host, s))
     \<and> (\<exists>r. procFindClient s port tid = Inr r \<and> (r = -1 \<or> 0 \<le> r \<and> r < numClients s \<and> client_match port tid (procTable s ! nat r)))
     \<and> (\<exists>r. procFindBySocket s fd = Inr r \<and> (r = -1 \<or> 0 \<le> r \<and> r < numClients s \<and> datain (p_chan (procTable s ! nat r)) = fd))"
  using reachable_ok [OF assms] add_to_full_table find_in_table [OF reachable_ok [OF assms]]
  unfolding procFindClient_def procFindBySocket_def by blast

theorem reachable_tables_ok_witness:
  "\<exists>s h. procAddClient ''12:00:00'' (sup_start [] []) None ''collector'' ''dhs-1'' 4100 7 9 ''Ready'' False = Inr (0, h, s)
     \<and> numPanConns s = 1 \<and> sup_ok s"
proof -
  let ?s0 = "sup_start [] []"
  have l: "0 < SZ_PROCTABLE" "length (procTable ?s0) = SZ_PROCTABLE" "length (connTable ?s0) = SZ_PROCTABLE" "numClients ?s0 = 0" "numPanConns ?s0 = 0"
    by (simp_all add: sup_start_def SZ_PROCTABLE_def)
  have h: "supNeuter ''dhs-1'' = Inr (''dhs-1'', ''dhs-1'')" "starts_case ''collector'' ''collector''" by code_simp+
  obtain s h where s: "procAddClient ''12:00:00'' ?s0 None ''collector'' ''dhs-1'' 4100 7 9 ''Ready'' False = Inr (0, h, s)" "numPanConns s = 1"
    using l by (simp add: procAddClient_def fit_def h connect_client_def add_collector_def arr_get_def arr_set_def Let_def sup_sizes)
  then have "proc_step\<^sup>*\<^sup>* ?s0 s" using proc_step.add by blast
  then show ?thesis using s reachable_tables_ok by blast
qed

end
