(* ===== verification/Sup_Display.thy ===== *)
theory Sup_Display
  imports Sup_Proc_Props
begin

text \<open>
  The process table as the display gets it: how long its lines are, when the message fits its
  buffer, and that refreshing the display changes nothing else.
\<close>

section \<open>Lines of the display\<close>

text \<open>A client whose line takes at most 79 characters: numbers of the usual width and a status of at most 21 characters.\<close>

definition short_line :: "clientProc \<Rightarrow> bool" where
  "short_line cp \<longleftrightarrow> length (p_status cp) \<le> 21 \<and> length (p_date cp) \<le> 8 \<and> length (show_int (p_pid cp)) \<le> 6
     \<and> length (show_int (p_tid cp)) \<le> 6 \<and> length (show_int (p_port cp)) \<le> 4"

lemma length_pad: "length (padr n s) = max n (length s)" "length (padl n s) = max n (length s)"
  by (simp_all add: padr_def padl_def)

lemma num_text_fits: "length (show_int n) \<le> w \<Longrightarrow> 3 \<le> w \<Longrightarrow> w < 10 \<Longrightarrow> \<exists>t. num_text w n = Inr t \<and> length t \<le> w"
  by (auto simp: num_text_def fit_def length_pad)

lemma proc_line_fits:
  assumes "short_line cp"
  shows "\<exists>l. proc_line cp = Inr l \<and> length l \<le> 79"
proof -
  obtain t p where t: "num_text 6 (p_tid cp) = Inr t" "length t \<le> 6" and p: "num_text 4 (p_port cp) = Inr p" "length p \<le> 4"
    using num_text_fits [of "p_tid cp" 6] num_text_fits [of "p_port cp" 4] assms by (auto simp: short_line_def)
  then show ?thesis using assms by (simp add: proc_line_def fit_def length_pad short_line_def)
qed

lemma proc_line_length: "proc_line cp = Inr l \<Longrightarrow> 58 + length (p_status cp) \<le> length l"
  by (auto simp: proc_line_def bind_res_Inr_iff fit_Inr length_pad)

lemma proc_line_fault: "proc_line cp = Inl f \<Longrightarrow> f = Buffer_Overflow"
  by (auto simp: proc_line_def num_text_def fit_def bind_res_def split: sum.splits if_splits)

lemma proc_lines_fit:
  assumes "0 \<le> i" "i + int n \<le> int (length pt)" "\<forall>k. i \<le> k \<and> k < i + int n \<longrightarrow> short_line (pt ! nat k)"
    "length buf + 79 * n < SZ_PROCTABLE * 80"
  shows "\<exists>b a. proc_lines n i pt buf act = Inr (b, a) \<and> length b \<le> length buf + 79 * n"
  using assms
proof (induction n arbitrary: i buf act)
  case (Suc n)
  have g: "arr_get pt i = Inr (pt ! nat i)" using Suc.prems(1, 2) by (simp add: arr_in)
  obtain l where l: "proc_line (pt ! nat i) = Inr l" "length l \<le> 79" using proc_line_fits Suc.prems(3) by fastforce
  have s: "\<forall>k. i + 1 \<le> k \<and> k < i + 1 + int n \<longrightarrow> short_line (pt ! nat k)" using Suc.prems(3) by simp
  have "length (buf @ l) + 79 * n < SZ_PROCTABLE * 80" using Suc.prems(4) l(2) by simp
  then obtain b a where "proc_lines n (i + 1) pt (buf @ l) (if active (pt ! nat i) \<noteq> 0 then act @ [i] else act) = Inr (b, a)"
    "length b \<le> length (buf @ l) + 79 * n"
    using Suc.IH [OF _ _ s] Suc.prems(1, 2) by fastforce
  moreover have "fit (SZ_PROCTABLE * 80) (buf @ l) = Inr (buf @ l)" using Suc.prems(4) l(2) by (simp add: fit_def)
  ultimately show ?case using g l by (intro exI [of _ b] exI [of _ a]) simp
qed simp

lemma proc_lines_overflow:
  assumes "0 \<le> i" "i + int n \<le> int (length pt)" "\<forall>k. i \<le> k \<and> k < i + int n \<longrightarrow> 22 \<le> length (p_status (pt ! nat k))"
    "SZ_PROCTABLE * 80 \<le> length buf + 80 * n" "0 < n"
  shows "proc_lines n i pt buf act = Inl Buffer_Overflow"
  using assms
proof (induction n arbitrary: i buf act)
  case (Suc n)
  have g: "arr_get pt i = Inr (pt ! nat i)" using Suc.prems(1, 2) by (simp add: arr_in)
  show ?case
  proof (cases "proc_line (pt ! nat i)")
    case (Inl f)
    then show ?thesis using g proc_line_fault by simp
  next
    case (Inr l)
    have "22 \<le> length (p_status (pt ! nat i))" using Suc.prems(1, 3) by simp
    then have l: "80 \<le> length l" using proc_line_length [OF Inr] by simp
    show ?thesis
    proof (cases "length (buf @ l) < SZ_PROCTABLE * 80")
      case True
      have s: "\<forall>k. i + 1 \<le> k \<and> k < i + 1 + int n \<longrightarrow> 22 \<le> length (p_status (pt ! nat k))" using Suc.prems(3) by simp
      have "SZ_PROCTABLE * 80 \<le> length (buf @ l) + 80 * n" using Suc.prems(4) l by simp
      moreover from this have "0 < n" using True by (cases n) simp_all
      ultimately have "proc_lines n (i + 1) pt (buf @ l) a = Inl Buffer_Overflow" for a
        using Suc.IH [OF _ _ s] Suc.prems(1, 2) by fastforce
      then show ?thesis using g Inr True by (simp add: fit_def)
    qed (use g Inr in \<open>simp add: fit_def\<close>)
  qed
qed simp

lemma length_clients: "sup_ok s \<Longrightarrow> length (clients s) = nat (numClients s)"
  using sup_okD(1, 3) [of s] by (simp add: clients_def)

lemma nth_clients:
  assumes "sup_ok s" "0 \<le> k" "k < numClients s"
  shows "procTable s ! nat k = clients s ! nat k" "nat k < length (clients s)" "procTable s ! nat k \<in> set (clients s)"
proof -
  show l: "nat k < length (clients s)" using assms(2, 3) length_clients [OF assms(1)] by simp
  show e: "procTable s ! nat k = clients s ! nat k" using assms(2, 3) by (simp add: clients_def)
  show "procTable s ! nat k \<in> set (clients s)" using nth_mem [OF l] e by simp
qed

lemma shown:
  assumes "sup_ok s" "\<forall>cp \<in> set (clients s). short_line cp"
  shows "\<exists>buf g. length buf \<le> 79 * nat (numClients s) \<and> procUpdateProcessTable s = Inr (s\<lparr>gui := gui s @ (''procTab'', buf) # g\<rparr>)"
proof -
  have n: "0 + int (nat (numClients s)) \<le> int (length (procTable s))" "length ([] :: string) + 79 * nat (numClients s) < SZ_PROCTABLE * 80"
    using sup_okD(1-3) [OF assms(1)] by (simp_all add: SZ_PROCTABLE_def)
  have "\<forall>k. 0 \<le> k \<and> k < 0 + int (nat (numClients s)) \<longrightarrow> short_line (procTable s ! nat k)"
    using nth_clients(3) [OF assms(1)] assms(2) sup_okD(2) [OF assms(1)] by simp
  from proc_lines_fit [OF _ n(1) this n(2), where act = "[]"] obtain buf act where
    b: "proc_lines (nat (numClients s)) 0 (procTable s) [] [] = Inr (buf, act)" "length buf \<le> 79 * nat (numClients s)"
    by auto
  let ?s = "sup_message s ''procTab'' buf"
  obtain g where g: "fold (\<lambda>i s. sup_message s ''procActive'' (show_int i)) act ?s = ?s\<lparr>gui := gui ?s @ g\<rparr>"
    using fold_message_gui by blast
  have "procUpdateProcessTable s = Inr (s\<lparr>gui := gui s @ (''procTab'', buf) # (if showActivity s then g else [])\<rparr>)"
    using b(1) g by (simp add: procUpdateProcessTable_def Let_def sup_message_gui)
  then show ?thesis using b(2) by blast
qed

text \<open>
  C19: the display is refreshed with one message of at most 79 characters for each client as long as
  the lines are short, even with a full table.  When every client of a full table has a status of
  22 characters or more, the message overflows its buffer.
\<close>

theorem procUpdateProcessTable_bounds:
  assumes "sup_ok s"
  shows "((\<forall>cp \<in> set (clients s). short_line cp) \<longrightarrow> (\<exists>buf g. length buf \<le> 79 * nat (numClients s)
            \<and> procUpdateProcessTable s = Inr (s\<lparr>gui := gui s @ (''procTab'', buf) # g\<rparr>)))
     \<and> (numClients s = int SZ_PROCTABLE \<and> (\<forall>cp \<in> set (clients s). 22 \<le> length (p_status cp)) \<longrightarrow>
          procUpdateProcessTable s = Inl Buffer_Overflow)"
proof (intro conjI impI)
  assume "\<forall>cp \<in> set (clients s). short_line cp"
  from shown [OF assms this] show "\<exists>buf g. length buf \<le> 79 * nat (numClients s)
     \<and> procUpdateProcessTable s = Inr (s\<lparr>gui := gui s @ (''procTab'', buf) # g\<rparr>)" .
next
  assume a: "numClients s = int SZ_PROCTABLE \<and> (\<forall>cp \<in> set (clients s). 22 \<le> length (p_status cp))"
  then have "\<forall>k. 0 \<le> k \<and> k < 0 + int SZ_PROCTABLE \<longrightarrow> 22 \<le> length (p_status (procTable s ! nat k))"
    using nth_clients(3) [OF assms] by simp
  from proc_lines_overflow [OF _ _ this] a sup_okD(1) [OF assms]
  show "procUpdateProcessTable s = Inl Buffer_Overflow" by (simp add: procUpdateProcessTable_def SZ_PROCTABLE_def)
qed

definition busy :: clientProc where
  "busy = zero_proc\<lparr>p_name := ''PAN'', p_host := ''dhs-1'', p_pid := 4711, p_status := ''Transferring image data''\<rparr>"

theorem procUpdateProcessTable_bounds_witness:
  "procUpdateProcessTable ((sup_start [] [])\<lparr>numClients := 128, procTable := replicate 128 busy\<rparr>) = Inl Buffer_Overflow
   \<and> (\<exists>buf g. length buf \<le> 79 \<and> procUpdateProcessTable ((sup_start [] [])\<lparr>numClients := 1, procTable := replicate 128 zero_proc\<rparr>)
        = Inr ((sup_start [] [])\<lparr>numClients := 1, procTable := replicate 128 zero_proc, gui := (''procTab'', buf) # g\<rparr>))"
proof -
  let ?full = "(sup_start [] [])\<lparr>numClients := 128, procTable := replicate 128 busy\<rparr>"
  let ?one = "(sup_start [] [])\<lparr>numClients := 1, procTable := replicate 128 zero_proc\<rparr>"
  have "sup_ok ?full" "sup_ok ?one"
    using sup_start_ok [of "[]" "[]"] by (simp_all add: sup_ok_def proc_ok_def busy_def zero_proc_def sup_sizes)
  moreover have "\<forall>cp \<in> set (clients ?full). 22 \<le> length (p_status cp)" "\<forall>cp \<in> set (clients ?one). short_line cp"
    by (auto simp: clients_def busy_def short_line_def zero_proc_def show_int_def show_nat.simps dest: in_set_takeD)
  ultimately show ?thesis
    using procUpdateProcessTable_bounds [of ?full] procUpdateProcessTable_bounds [of ?one]
    by (simp add: SZ_PROCTABLE_def sup_start_def)
qed

end
