(* ===== verification/Sup_Clients.thy ===== *)
theory Sup_Clients
  imports Sup_Display
begin

text \<open>
  What the operations on the process table do to the list of its clients: adding a client and
  pairing a PAN with its collector, deleting and finding clients, cleaning the table, and the host
  names and client ids that the entries come from.
\<close>

section \<open>Pairing\<close>

text \<open>The pairing of a host; a host that has none gets the last one of the table.\<close>

definition host_pair :: "sup \<Rightarrow> string \<Rightarrow> panPair" where
  "host_pair s h = (let ps = take (nat (numPanPairs s)) (pairTable s) in
     case find (\<lambda>p. strcaseeq h (phost p)) ps of Some p \<Rightarrow> p | None \<Rightarrow> last ps)"

lemma find_pair_run:
  assumes "0 \<le> i" "i + int n \<le> int (length ps)"
  shows "find_pair n i ps h pp = Inr (case find (\<lambda>p. strcaseeq h (phost p)) (take n (drop (nat i) ps)) of Some p \<Rightarrow> Some p
     | None \<Rightarrow> if n = 0 then pp else Some (last (take n (drop (nat i) ps))))"
  using assms
proof (induction n arbitrary: i pp)
  case (Suc n)
  have i: "nat i < length ps" "nat (i + 1) = Suc (nat i)" using Suc.prems by simp_all
  have d: "take (Suc n) (drop (nat i) ps) = ps ! nat i # take n (drop (Suc (nat i)) ps)" using i by (simp flip: Cons_nth_drop_Suc)
  have ne: "n \<noteq> 0 \<Longrightarrow> take n (drop (Suc (nat i)) ps) \<noteq> []" using Suc.prems by auto
  have "arr_get ps i = Inr (ps ! nat i)" using Suc.prems by (simp add: arr_in)
  then show ?case using Suc.IH [of "i + 1" "Some (ps ! nat i)"] Suc.prems i(2) ne unfolding d
    by (auto split: option.splits)
qed simp

lemma find_pair_host:
  assumes "sup_ok s" "0 < numPanPairs s"
  shows "find_pair (nat (numPanPairs s)) 0 (pairTable s) h None = Inr (Some (host_pair s h))"
  using find_pair_run [of 0 "nat (numPanPairs s)" "pairTable s" h None] assms sup_okD(10, 11) [OF assms(1)]
  by (simp add: host_pair_def Let_def split: option.splits)

definition free_for :: "sup \<Rightarrow> panPair \<Rightarrow> panConn \<Rightarrow> bool" where
  "free_for s p pc \<longleftrightarrow> inUse pc \<le> 0 \<and> (let col = procTable s ! nat (the (collector pc)) in
     strcaseeq (p_host col) (chost p) \<and> socket p = p_port col)"

lemma match_conn_run:
  assumes ok: "sup_ok s" and "0 \<le> i" "i + int n \<le> numPanConns s"
  shows "match_conn n i s (Some p) = Inr (find (\<lambda>j. free_for s p (connTable s ! nat j)) [i..i + int n - 1])"
  using assms(2, 3)
proof (induction n arbitrary: i)
  case (Suc n)
  let ?pc = "connTable s ! nat i"
  have i: "nat i < nat (numPanConns s)" "i < int (length (connTable s))" using Suc.prems sup_okD(5, 7) [OF ok] by simp_all
  have "collector ?pc \<noteq> None" using sup_okD(9) [OF ok] i(1) by blast
  then obtain c where c: "collector ?pc = Some c" by blast
  have "?pc \<in> set (connTable s)" using i Suc.prems(1) by (intro nth_mem) simp
  then have "slot_ok c" using sup_okD(8) [OF ok] c by (auto simp: conn_ok_def)
  then have "arr_get (procTable s) c = Inr (procTable s ! nat c)" using sup_okD(1) [OF ok] by (simp add: slot_ok_def arr_in)
  moreover have "arr_get (connTable s) i = Inr ?pc" using i Suc.prems by (simp add: arr_in)
  moreover have "[i..i + int (Suc n) - 1] = i # [i + 1..i + 1 + int n - 1]" by (subst upto_rec1) simp_all
  moreover have "match_conn n (i + 1) s (Some p) = Inr (find (\<lambda>j. free_for s p (connTable s ! nat j)) [i + 1..i + 1 + int n - 1])"
    using Suc.IH [of "i + 1"] Suc.prems by simp
  ultimately show ?case using c by (simp add: free_for_def Let_def)
qed simp

text \<open>The connection, if any, that a new PAN at slot \<open>k\<close> on host \<open>h\<close> is entered in.\<close>

definition pan_conn :: "sup \<Rightarrow> string \<Rightarrow> int option" where
  "pan_conn s h = find (\<lambda>j. free_for s (host_pair s h) (connTable s ! nat j)) [0..numPanConns s - 1]"

lemma supNeuter_again:
  assumes "supNeuter host = Inr (h, l)"
  shows "supNeuter l = Inr (strip_ext l, l)"
proof -
  have l: "l = takeWhile (\<lambda>c. c \<noteq> CHR ''.'') host" "length l < SZ_FNAME"
    using assms by (auto simp: supNeuter_def Let_def split: if_splits)
  then have "CHR ''.'' \<notin> set l" by (auto dest: set_takeWhileD)
  moreover from this have t: "takeWhile (\<lambda>c. c \<noteq> CHR ''.'') l = l" by (auto simp: takeWhile_eq_all_conv)
  ultimately show ?thesis using l(2) unfolding supNeuter_def Let_def t by simp
qed

definition set_pan :: "sup \<Rightarrow> int \<Rightarrow> string \<Rightarrow> sup" where
  "set_pan s k h = (case pan_conn s h of None \<Rightarrow> s
     | Some i \<Rightarrow> s\<lparr>connTable := (connTable s)[nat i := (connTable s ! nat i)\<lparr>pan := Some k\<rparr>]\<rparr>)"

lemma pair_pan_run:
  assumes ok: "sup_ok s" and h: "supNeuter l = Inr (h, l')" and p: "0 < numPanPairs s"
  shows "pair_pan s k l = Inr (set_pan s k h)"
proof -
  have n: "0 + int (nat (numPanConns s)) \<le> numPanConns s" using sup_okD(6) [OF ok] by simp
  have m: "match_conn (nat (numPanConns s)) 0 s (Some (host_pair s h)) = Inr (pan_conn s h)"
    using match_conn_run [OF ok _ n, of "host_pair s h"] sup_okD(6) [OF ok] by (simp add: pan_conn_def)
  have "arr_get (connTable s) i = Inr (connTable s ! nat i)" "arr_set (connTable s) i x = Inr ((connTable s)[nat i := x])"
    if "pan_conn s h = Some i" for i x
  proof -
    have "0 \<le> i" "i < numPanConns s" using match_conn_index [OF m [unfolded that]] sup_okD(6) [OF ok] by simp_all
    then show "arr_get (connTable s) i = Inr (connTable s ! nat i)" "arr_set (connTable s) i x = Inr ((connTable s)[nat i := x])"
      using sup_okD(5, 7) [OF ok] by (simp_all add: arr_in)
  qed
  then show ?thesis using m find_pair_host [OF ok p] h p by (auto simp: pair_pan_def set_pan_def split: option.splits)
qed

lemma add_collector_run:
  assumes "sup_ok s" "numPanConns s < int SZ_PROCTABLE"
  shows "add_collector s k = Inr (s\<lparr>connTable := (connTable s)[nat (numPanConns s) :=
     (connTable s ! nat (numPanConns s))\<lparr>collector := Some k, inUse := 0\<rparr>], numPanConns := numPanConns s + 1\<rparr>)"
  using assms sup_okD(5, 6) [OF assms(1)] by (simp add: add_collector_def arr_in)

section \<open>Adding a client\<close>

text \<open>What the connection table becomes when the client in slot \<open>k\<close> has been added.\<close>

definition connect_spec :: "sup \<Rightarrow> int \<Rightarrow> string \<Rightarrow> string \<Rightarrow> sup" where
  "connect_spec s k name l =
     (if starts_case name ''collector'' then
        s\<lparr>connTable := (connTable s)[nat (numPanConns s) := (connTable s ! nat (numPanConns s))\<lparr>collector := Some k, inUse := 0\<rparr>],
          numPanConns := numPanConns s + 1\<rparr>
      else if starts_case name ''pan'' then set_pan s k (strip_ext l) else s)"

lemma connect_spec_table: "procTable (connect_spec s k name l) = procTable s" "numClients (connect_spec s k name l) = numClients s"
  by (simp_all add: connect_spec_def set_pan_def split: option.splits)

lemma put_slot_ok:
  assumes "sup_ok s" "numClients s < int SZ_PROCTABLE" "proc_ok cp"
  shows "sup_ok (s\<lparr>procTable := (procTable s)[nat (numClients s) := cp], numClients := numClients s + 1\<rparr>)"
proof -
  have "arr_set (procTable s) (numClients s) cp = Inr ((procTable s)[nat (numClients s) := cp])"
    using assms(2) sup_okD(1, 2) [OF assms(1)] by (simp add: arr_in)
  from set_proc_ok [OF assms(1) this assms(3)] show ?thesis using assms(2) by (simp add: sup_ok_def)
qed

lemma put_slot_clients:
  assumes "sup_ok s" "numClients s < int SZ_PROCTABLE"
  shows "clients (s\<lparr>procTable := (procTable s)[nat (numClients s) := cp], numClients := numClients s + 1\<rparr>) = clients s @ [cp]"
  using assms sup_okD(1, 2) [OF assms(1)] by (simp add: clients_def take_Suc_conv_app_nth nat_add_distrib)

lemma add_run:
  assumes ok: "sup_ok s" "numClients s < int SZ_PROCTABLE"
    and n: "name \<noteq> ''CMD_Test''" "length name < SZ_PNAME"
    and h: "supNeuter host = Inr (h, l)" "length h < SZ_PHOST"
    and t: "length now < SZ_PDATE" "length status < SZ_PSTAT"
    and sh: "\<forall>cp \<in> set (clients s). short_line cp" "short_line (new_client now chan name h port tid pid status)"
    and c: "starts_case name ''collector'' \<Longrightarrow> numPanConns s < int SZ_PROCTABLE"
    and p: "\<not> starts_case name ''collector'' \<Longrightarrow> starts_case name ''pan'' \<Longrightarrow> 0 < numPanPairs s"
    and s0: "s0 = s\<lparr>procTable := (procTable s)[nat (numClients s) := new_client now chan name h port tid pid status],
               numClients := numClients s + 1\<rparr>"
  shows "\<exists>g. procAddClient now s chan name host port tid pid status True = Inr (0, l, (connect_spec s0 (numClients s) name l)\<lparr>gui := g\<rparr>)
     \<and> clients (connect_spec s0 (numClients s) name l) = clients s @ [new_client now chan name h port tid pid status]"
proof -
  let ?k = "numClients s" and ?cp = "new_client now chan name h port tid pid status"
  let ?s = "connect_spec s0 ?k name l"
  have cp: "proc_ok ?cp" using n h t by (simp add: proc_ok_def new_client_def zero_proc_def sup_sizes)
  have k: "slot_ok ?k" using ok(2) sup_okD(2) [OF ok(1)] by (simp add: slot_ok_def)
  have s0ok: "sup_ok s0" "clients s0 = clients s @ [?cp]" unfolding s0 using put_slot_ok [OF ok cp] put_slot_clients [OF ok] by simp_all
  have conn: "connect_client s0 ?k name l = Inr ?s"
    using add_collector_run [OF s0ok(1)] pair_pan_run [OF s0ok(1) supNeuter_again [OF h(1)]] c p
    by (simp add: connect_client_def connect_spec_def s0)
  have sok: "sup_ok ?s" by (rule connect_client_ok [OF s0ok(1) k conn])
  have cl: "clients ?s = clients s @ [?cp]" using s0ok(2) by (simp add: clients_def connect_spec_table)
  then have "\<forall>cp \<in> set (clients ?s). short_line cp" using sh by simp
  then obtain buf g where g: "procUpdateProcessTable ?s = Inr (?s\<lparr>gui := gui ?s @ (''procTab'', buf) # g\<rparr>)"
    using shown [OF sok] by blast
  have "arr_set (procTable s) ?k ?cp = Inr ((procTable s)[nat ?k := ?cp])"
    using ok(2) sup_okD(1, 2) [OF ok(1)] by (simp add: arr_in)
  then have "procAddClient now s chan name host port tid pid status True = Inr (0, l, ?s\<lparr>gui := gui ?s @ (''procTab'', buf) # g\<rparr>)"
    using n h t ok(2) conn [unfolded s0] g by (simp add: procAddClient_def fit_def s0 Let_def)
  then show ?thesis using cl by blast
qed

text \<open>
  C16: a client is entered behind the others, under the name of its host without domain and
  location.  A collector opens a connection.  A PAN is entered in the first connection that is not
  in use and whose collector runs on the host and socket that the pairing table has for the PAN's
  host; a host that the table does not have counts as the one of its last line.
\<close>

theorem procAddClient_registers:
  assumes ok: "sup_ok s" "numClients s < int SZ_PROCTABLE"
    and n: "name \<noteq> ''CMD_Test''" "length name < SZ_PNAME"
    and h: "supNeuter host = Inr (h, l)" "length h < SZ_PHOST"
    and t: "length now < SZ_PDATE" "length status < SZ_PSTAT"
    and sh: "\<forall>cp \<in> set (clients s). short_line cp" "short_line (new_client now chan name h port tid pid status)"
    and c: "starts_case name ''collector'' \<Longrightarrow> numPanConns s < int SZ_PROCTABLE"
    and p: "\<not> starts_case name ''collector'' \<Longrightarrow> starts_case name ''pan'' \<Longrightarrow> 0 < numPanPairs s"
    and s0: "s0 = s\<lparr>procTable := (procTable s)[nat (numClients s) := new_client now chan name h port tid pid status],
               numClients := numClients s + 1\<rparr>"
  shows "\<exists>g. procAddClient now s chan name host port tid pid status True = Inr (0, l, (connect_spec s0 (numClients s) name l)\<lparr>gui := g\<rparr>)
     \<and> clients (connect_spec s0 (numClients s) name l) = clients s @ [new_client now chan name h port tid pid status]"
  by (rule add_run [OF ok n h t sh c p s0])

definition pairs0 :: "panPair list" where
  "pairs0 = [\<lparr>phost = ''pan-a'', chost = ''dhs-1'', socket = 4100\<rparr>, \<lparr>phost = ''pan-b'', chost = ''dhs-1'', socket = 4101\<rparr>]"

text \<open>A supervisor at which the two collectors of a host have registered.\<close>

definition col0 :: "int \<Rightarrow> clientProc" where
  "col0 port = zero_proc\<lparr>p_name := ''collector'', p_host := ''dhs-1'', p_port := port\<rparr>"

definition sup0 :: sup where
  "sup0 = (sup_start pairs0 [])\<lparr>numClients := 2, procTable := [col0 4100, col0 4101] @ replicate (SZ_PROCTABLE - 2) zero_proc, numPanConns := 2,
     connTable := [zero_conn\<lparr>collector := Some 0\<rparr>, zero_conn\<lparr>collector := Some 1\<rparr>] @ replicate (SZ_PROCTABLE - 2) zero_conn\<rparr>"

lemma sup0_ok: "sup_ok sup0" "clients sup0 = [col0 4100, col0 4101]"
proof -
  have l: "length (procTable sup0) = SZ_PROCTABLE" "length (connTable sup0) = SZ_PROCTABLE"
    by (simp_all add: sup0_def) (simp_all add: SZ_PROCTABLE_def)
  have p: "set (procTable sup0) \<subseteq> {col0 4100, col0 4101, zero_proc}"
    and c: "set (connTable sup0) \<subseteq> {zero_conn\<lparr>collector := Some 0\<rparr>, zero_conn\<lparr>collector := Some 1\<rparr>, zero_conn}"
    by (simp_all add: sup0_def set_replicate_conv_if)
  have "proc_ok (col0 4100)" "proc_ok (col0 4101)" "proc_ok zero_proc" by (simp_all add: proc_ok_def col0_def zero_proc_def sup_sizes)
  then have p': "\<forall>cp \<in> set (procTable sup0). proc_ok cp" using p by blast
  have "conn_ok (zero_conn\<lparr>collector := Some 0\<rparr>)" "conn_ok (zero_conn\<lparr>collector := Some 1\<rparr>)" "conn_ok zero_conn"
    by (simp_all add: conn_ok_def zero_conn_def slot_ok_def sup_sizes)
  then have c': "\<forall>pc \<in> set (connTable sup0). conn_ok pc" using c by blast
  have n: "numClients sup0 = 2" "numPanConns sup0 = 2" "numPanPairs sup0 = int (length (pairTable sup0))" by (simp_all add: sup0_def sup_start_def)
  have "\<forall>i < 2. collector (connTable sup0 ! i) \<noteq> None" by (simp add: sup0_def less_2_cases_iff)
  then show "sup_ok sup0" unfolding sup_ok_def using l p' c' n by (simp add: SZ_PROCTABLE_def)
  show "clients sup0 = [col0 4100, col0 4101]" by (simp add: clients_def sup0_def)
qed

lemma show_nat_steps: "n < 10 \<Longrightarrow> show_nat n = [digit n]" "10 \<le> n \<Longrightarrow> show_nat n = show_nat (n div 10) @ [digit (n mod 10)]"
  by (subst show_nat.simps, simp)+

lemma col0_short: "short_line (col0 4100)" "short_line (col0 4101)"
  by (simp_all add: short_line_def col0_def zero_proc_def show_int_def show_nat_steps)

theorem procAddClient_registers_witness:
  "\<exists>s'. procAddClient ''12:34:56'' sup0 None ''PAN'' ''pan-b-4m.noao.edu'' 4155 999 77 ''Ready'' True = Inr (0, ''pan-b-4m'', s')
     \<and> p_host (procTable s' ! 2) = ''pan-b'' \<and> map pan (take 2 (connTable s')) = [None, Some 2]"
proof -
  let ?cp = "new_client ''12:34:56'' None ''PAN'' ''pan-b'' 4155 999 77 ''Ready''"
  let ?s0 = "sup0\<lparr>procTable := (procTable sup0)[nat (numClients sup0) := ?cp], numClients := numClients sup0 + 1\<rparr>"
  have e: "strip_ext ''pan-b-4m'' = ''pan-b''" "strip_ext ''pan-b-4m.'' = ''pan-b''" "supNeuter ''pan-b-4m.noao.edu'' = Inr (''pan-b'', ''pan-b-4m'')"
    by (simp_all add: supNeuter_def extns_def starts_case_def tolower_def SZ_FNAME_def)
  have n: "starts_case ''PAN'' ''pan''" "\<not> starts_case ''PAN'' ''collector''" by code_simp+
  have sh: "\<forall>cp \<in> set (clients sup0). short_line cp" "short_line ?cp"
    using col0_short by (simp_all add: sup0_ok(2) short_line_def new_client_def zero_proc_def show_int_def show_nat_steps)
  have b: "numClients sup0 < int SZ_PROCTABLE" "''PAN'' \<noteq> ''CMD_Test''" "length ''PAN'' < SZ_PNAME" "length ''pan-b'' < SZ_PHOST"
    "length ''12:34:56'' < SZ_PDATE" "length ''Ready'' < SZ_PSTAT" "0 < numPanPairs sup0"
    by (simp_all add: sup0_def sup_start_def pairs0_def sup_sizes)
  obtain g where g: "procAddClient ''12:34:56'' sup0 None ''PAN'' ''pan-b-4m.noao.edu'' 4155 999 77 ''Ready'' True
      = Inr (0, ''pan-b-4m'', (connect_spec ?s0 (numClients sup0) ''PAN'' ''pan-b-4m'')\<lparr>gui := g\<rparr>)"
    using procAddClient_registers [OF sup0_ok(1) b(1-3) e(3) b(4-6) sh _ _ refl] n(2) b(7) by auto
  have "pan_conn ?s0 ''pan-b'' = Some 1"
    by (simp add: pan_conn_def host_pair_def free_for_def sup0_def sup_start_def pairs0_def strcaseeq_def col0_def upto_rec1 tolower_def zero_conn_def)
  then have "connect_spec ?s0 (numClients sup0) ''PAN'' ''pan-b-4m'' = ?s0\<lparr>connTable := (connTable ?s0)[1 := (connTable ?s0 ! 1)\<lparr>pan := Some 2\<rparr>]\<rparr>"
    using n e(1) by (simp add: connect_spec_def set_pan_def sup0_def)
  moreover have "2 < length (procTable sup0)" "numClients sup0 = 2" by (simp_all add: sup0_def) (simp add: SZ_PROCTABLE_def)
  moreover have "map pan (take 2 ((connTable sup0)[1 := (connTable sup0 ! 1)\<lparr>pan := Some 2\<rparr>])) = [None, Some 2]"
    by (simp add: sup0_def zero_conn_def numeral_2_eq_2)
  ultimately show ?thesis using g by (simp add: new_client_def)
qed

section \<open>Deleting and cleaning\<close>

lemma drop_one_shift:
  assumes "i < m" "m < length xs"
  shows "take (m - 1) ((take i xs @ take (m - 1 - i) (drop (Suc i) xs) @ drop (i + (m - 1 - i)) xs)[m := x])
     = take i (take m xs) @ drop (Suc i) (take m xs)"
proof -
  let ?A = "take i xs @ take (m - 1 - i) (drop (Suc i) xs)"
  have A: "length ?A = m - 1" using assms by simp
  have "take (m - 1) ((?A @ zs)[m := x]) = ?A" for zs
    by (metis A append_eq_conv_conj diff_le_self take_update_cancel)
  moreover have "?A = take i (take m xs) @ drop (Suc i) (take m xs)" using assms by (simp add: drop_take min_def)
  ultimately show ?thesis by simp
qed

lemma procDelClient_run:
  assumes ok: "sup_ok s" "0 \<le> clid" "clid < numClients s" "numClients s < int SZ_PROCTABLE"
    and c: "connected (clients s ! nat clid) = 0"
  shows "\<exists>pt. procDelClient s clid False = Inr (0, s\<lparr>procTable := pt, numClients := numClients s - 1\<rparr>)
     \<and> clients (s\<lparr>procTable := pt, numClients := numClients s - 1\<rparr>) = take (nat clid) (clients s) @ drop (Suc (nat clid)) (clients s)"
proof -
  let ?i = "nat clid" and ?m = "nat (numClients s)" and ?pt = "procTable s"
  let ?sh = "take ?i ?pt @ take (?m - 1 - ?i) (drop (Suc ?i) ?pt) @ drop (?i + (?m - 1 - ?i)) ?pt"
  have m: "?i < ?m" "?m < length ?pt" "nat (numClients s - 1 - clid) = ?m - 1 - ?i" "nat (numClients s - 1) = ?m - 1"
    using ok(2-4) sup_okD(1) [OF ok(1)] by simp_all
  have g: "arr_get ?pt clid = Inr (clients s ! ?i)"
    using ok(2, 3) m nth_clients(1) [OF ok(1-3)] by (simp add: arr_in)
  have "clid + int (?m - 1 - ?i) < int (length ?pt)" using m ok(2) by linarith
  then have sh: "shift_procs (?m - 1 - ?i) clid ?pt = Inr ?sh" by (rule shift_procs_run [OF ok(2)])
  have "?i + (?m - 1 - ?i) < length ?pt" using m(1, 2) by linarith
  then have "length ?sh = length ?pt" by (rule length_shift)
  then have st: "arr_set ?sh (numClients s) zero_proc = Inr (?sh[?m := zero_proc])"
    using ok(2-4) sup_okD(1) [OF ok(1)] by (intro arr_set_in) simp_all
  have "procDelClient s clid False = Inr (0, s\<lparr>procTable := ?sh[?m := zero_proc], numClients := numClients s - 1\<rparr>)"
    unfolding procDelClient_def m(3) g sh using c st by simp
  moreover have "clients (s\<lparr>procTable := ?sh[?m := zero_proc], numClients := numClients s - 1\<rparr>) = take ?i (clients s) @ drop (Suc ?i) (clients s)"
    unfolding clients_def using drop_one_shift [OF m(1, 2), of zero_proc] m(4) by simp
  ultimately show ?thesis by blast
qed

text \<open>The clients that cleaning leaves alone.\<close>

definition keep :: "clientProc \<Rightarrow> bool" where
  "keep cp \<longleftrightarrow> strcaseeq (p_name cp) ''Supervisor'' \<or> connected cp \<noteq> 0"

lemma clean_loop_run:
  assumes "sup_ok s" "numClients s < int SZ_PROCTABLE" "clients s = as @ bs" "list_all keep as" "length bs \<le> n" "\<exists>cp \<in> set (as @ bs). keep cp"
  shows "\<exists>pt m. clean_loop n (int (length as)) s = Inr (s\<lparr>procTable := pt, numClients := m\<rparr>)
     \<and> clients (s\<lparr>procTable := pt, numClients := m\<rparr>) = as @ filter keep bs"
  using assms
proof (induction n arbitrary: as bs s)
  case 0
  then show ?case by (intro exI [of _ "procTable s"] exI [of _ "numClients s"]) simp
next
  case (Suc n)
  let ?i = "int (length as)"
  have len: "int (length as + length bs) = numClients s"
    using length_clients [OF Suc.prems(1)] Suc.prems(3) sup_okD(2) [OF Suc.prems(1)] by simp
  show ?case
  proof (cases bs)
    case Nil
    then show ?thesis using len by (intro exI [of _ "procTable s"] exI [of _ "numClients s"]) (simp add: Suc.prems(3))
  next
    case (Cons b bs')
    have i: "0 \<le> ?i" "?i < numClients s" using len Cons by simp_all
    have b: "clients s ! length as = b" using Suc.prems(3) Cons by simp
    have g: "arr_get (procTable s) ?i = Inr b"
      using nth_clients(1) [OF Suc.prems(1) i] i Suc.prems(2) sup_okD(1) [OF Suc.prems(1)] b by (simp add: arr_in)
    show ?thesis
    proof (cases "keep b")
      case True
      then have "clean_loop (Suc n) ?i s = clean_loop n (int (length (as @ [b]))) s"
        using g i by (auto simp: keep_def algebra_simps)
      moreover have "clients s = (as @ [b]) @ bs'" "list_all keep (as @ [b])" "length bs' \<le> n" "\<exists>cp \<in> set ((as @ [b]) @ bs'). keep cp"
        using Suc.prems Cons True by simp_all
      ultimately obtain pt m where "clean_loop (Suc n) ?i s = Inr (s\<lparr>procTable := pt, numClients := m\<rparr>)"
        "clients (s\<lparr>procTable := pt, numClients := m\<rparr>) = (as @ [b]) @ filter keep bs'"
        using Suc.IH [OF Suc.prems(1, 2), of "as @ [b]" bs'] by metis
      then show ?thesis using Cons True by auto
    next
      case False
      then have c: "connected b = 0" "\<not> strcaseeq (p_name b) ''Supervisor''" by (simp_all add: keep_def)
      have "2 \<le> length (as @ bs)"
      proof -
        obtain cp where "cp \<in> set (as @ bs)" "keep cp" using Suc.prems(6) by blast
        then have "as \<noteq> [] \<or> bs' \<noteq> []" using Cons False by auto
        then show ?thesis using Cons by (cases as; cases bs') simp_all
      qed
      then have one: "numClients s > 1" using len by simp
      obtain pt where d: "procDelClient s ?i False = Inr (0, s\<lparr>procTable := pt, numClients := numClients s - 1\<rparr>)"
        "clients (s\<lparr>procTable := pt, numClients := numClients s - 1\<rparr>) = take (length as) (clients s) @ drop (Suc (length as)) (clients s)"
        using procDelClient_run [OF Suc.prems(1) i Suc.prems(2)] b c(1) by auto
      let ?s = "s\<lparr>procTable := pt, numClients := numClients s - 1\<rparr>"
      have "sup_ok ?s" using procDelClient_ok [OF Suc.prems(1) i(2) d(1)] by simp
      moreover have "clients ?s = as @ bs'" using d(2) Suc.prems(3) Cons by simp
      moreover have "numClients ?s < int SZ_PROCTABLE" "length bs' \<le> n" "\<exists>cp \<in> set (as @ bs'). keep cp"
        using Suc.prems Cons False by auto
      ultimately obtain pt' m where "clean_loop n ?i ?s = Inr (?s\<lparr>procTable := pt', numClients := m\<rparr>)"
        "clients (?s\<lparr>procTable := pt', numClients := m\<rparr>) = as @ filter keep bs'"
        using Suc.IH [of ?s as bs'] Suc.prems(4) by blast
      moreover have "clean_loop (Suc n) ?i s = clean_loop n ?i ?s" using g i c one d(1) by simp
      ultimately show ?thesis using Cons False by auto
    qed
  qed
qed

text \<open>
  C17: cleaning the table keeps exactly the supervisor and the connected clients, in their order, and
  leaves the connection table alone, so that the connections of the clients that moved up point to
  other entries than before.
\<close>

theorem procCleanTable_keeps_connected:
  assumes ok: "sup_ok s" "numClients s < int SZ_PROCTABLE"
    and k: "\<exists>cp \<in> set (clients s). keep cp" and sh: "\<forall>cp \<in> set (clients s). short_line cp"
  shows "\<exists>s'. procCleanTable s = Inr s' \<and> clients s' = filter keep (clients s) \<and> connTable s' = connTable s \<and> numPanConns s' = numPanConns s"
proof -
  have n: "length (clients s) \<le> nat (numClients s)" using length_clients [OF ok(1)] by simp
  obtain pt m where *: "clean_loop (nat (numClients s)) 0 s = Inr (s\<lparr>procTable := pt, numClients := m\<rparr>)"
    "clients (s\<lparr>procTable := pt, numClients := m\<rparr>) = filter keep (clients s)"
    using clean_loop_run [OF ok, of "[]" "clients s" "nat (numClients s)"] n k by auto
  let ?s = "s\<lparr>procTable := pt, numClients := m\<rparr>"
  have "sup_ok ?s" by (rule clean_loop_ok [OF ok(1) *(1)])
  moreover have "\<forall>cp \<in> set (clients ?s). short_line cp" using *(2) sh by simp
  ultimately obtain buf g where "procUpdateProcessTable ?s = Inr (?s\<lparr>gui := gui ?s @ (''procTab'', buf) # g\<rparr>)" using shown by blast
  then show ?thesis using * by (intro exI [of _ "?s\<lparr>gui := gui ?s @ (''procTab'', buf) # g\<rparr>"]) (simp add: procCleanTable_def)
qed

text \<open>
  the process table of a full supervisor cannot be cleaned: deleting a client clears the entry
  behind the last one, which is then outside the table.
\<close>

theorem procDelClient_full_table:
  assumes ok: "sup_ok s" "numClients s = int SZ_PROCTABLE" "0 \<le> clid" "clid < numClients s" and c: "connected (clients s ! nat clid) = 0"
  shows "procDelClient s clid update = Inl Out_Of_Bounds"
proof -
  let ?n = "nat (numClients s - 1 - clid)"
  have b: "clid + int ?n < int (length (procTable s))" using ok(2-4) sup_okD(1) [OF ok(1)] by simp
  have "arr_get (procTable s) clid = Inr (clients s ! nat clid)"
    using ok(2-4) sup_okD(1) [OF ok(1)] nth_clients(1) [OF ok(1, 3, 4)] by (simp add: arr_in)
  moreover have l: "nat clid + ?n < length (procTable s)" using b ok(3) by linarith
  have "arr_set (take (nat clid) (procTable s) @ take ?n (drop (Suc (nat clid)) (procTable s))
      @ drop (nat clid + ?n) (procTable s)) (numClients s) zero_proc = Inl Out_Of_Bounds"
    unfolding arr_set_def length_shift [OF l] using ok(2) sup_okD(1) [OF ok(1)] by simp
  ultimately show ?thesis using shift_procs_run [OF ok(3) b] c by (simp add: procDelClient_def)
qed

definition sup1 :: sup where
  "sup1 = sup0\<lparr>procTable := (procTable sup0)[1 := (col0 4101)\<lparr>connected := 1\<rparr>]\<rparr>"

lemma sup1: "sup_ok sup1" "clients sup1 = [col0 4100, (col0 4101)\<lparr>connected := 1\<rparr>]" "numClients sup1 = 2" "connTable sup1 = connTable sup0"
proof -
  have "1 < length (procTable sup0)" using sup_okD(1) [OF sup0_ok(1)] by (simp add: SZ_PROCTABLE_def)
  then have a: "arr_set (procTable sup0) 1 ((col0 4101)\<lparr>connected := 1\<rparr>) = Inr (procTable sup1)" by (simp add: sup1_def arr_set_def)
  have "proc_ok ((col0 4101)\<lparr>connected := 1\<rparr>)" by (simp add: proc_ok_def col0_def zero_proc_def sup_sizes)
  from set_proc_ok [OF sup0_ok(1) a this] show "sup_ok sup1" by (simp add: sup1_def)
  show "clients sup1 = [col0 4100, (col0 4101)\<lparr>connected := 1\<rparr>]" "numClients sup1 = 2" "connTable sup1 = connTable sup0"
    by (simp_all add: sup1_def sup0_def clients_def numeral_2_eq_2)
qed

theorem procCleanTable_keeps_connected_witness:
  "\<exists>s'. procCleanTable sup1 = Inr s' \<and> clients s' = [(col0 4101)\<lparr>connected := 1\<rparr>] \<and> collector (connTable s' ! 0) = Some 0"
proof -
  have "\<not> keep (col0 4100)" "keep ((col0 4101)\<lparr>connected := 1\<rparr>)" by code_simp+
  moreover have "short_line ((col0 4101)\<lparr>connected := 1\<rparr>)" using col0_short(2) by (simp add: short_line_def)
  moreover have "numClients sup1 < int SZ_PROCTABLE" by (simp add: sup1(3) SZ_PROCTABLE_def)
  moreover have "collector (connTable sup0 ! 0) = Some 0" by (simp add: sup0_def)
  ultimately show ?thesis using procCleanTable_keeps_connected [OF sup1(1)] col0_short(1) by (auto simp: sup1)
qed

theorem procDelClient_full_table_witness:
  "procDelClient ((sup_start [] [])\<lparr>numClients := 128, procTable := replicate 128 zero_proc\<rparr>) 5 True = Inl Out_Of_Bounds"
proof -
  let ?s = "(sup_start [] [])\<lparr>numClients := 128, procTable := replicate 128 zero_proc\<rparr>"
  have s: "sup_ok ?s" using sup_start_ok [of "[]" "[]"] by (simp add: sup_ok_def proc_ok_def zero_proc_def sup_sizes)
  have "clients ?s ! 5 = zero_proc" by (simp add: clients_def)
  then show ?thesis by (intro procDelClient_full_table [OF s]) (simp_all add: SZ_PROCTABLE_def zero_proc_def)
qed

section \<open>Finding and disconnecting\<close>

lemma find_client_run:
  assumes "sup_ok s"
  shows "\<exists>r. procFindClient s port tid = Inr r \<and> (r = -1 \<and> (\<forall>cp \<in> set (clients s). \<not> client_match port tid cp)
     \<or> 0 \<le> r \<and> r < numClients s \<and> client_match port tid (clients s ! nat r) \<and> (\<forall>k. 0 \<le> k \<and> k < r \<longrightarrow> \<not> client_match port tid (clients s ! nat k)))"
proof -
  let ?P = "client_match port tid" and ?n = "nat (numClients s)"
  have n: "0 + int ?n \<le> int (length (procTable s))" "int ?n = numClients s" using sup_okD(1-3) [OF assms] by simp_all
  obtain r where r: "procFindClient s port tid = Inr r" "r = -1 \<and> (\<forall>k. 0 \<le> k \<and> k < 0 + int ?n \<longrightarrow> \<not> ?P (procTable s ! nat k))
     \<or> 0 \<le> r \<and> r < 0 + int ?n \<and> ?P (procTable s ! nat r) \<and> (\<forall>k. 0 \<le> k \<and> k < r \<longrightarrow> \<not> ?P (procTable s ! nat k))"
    using find_from_run [OF order_refl n(1), of ?P] by (auto simp: procFindClient_def)
  note nth = nth_clients(1) [OF assms]
  show ?thesis
    using r(2)
  proof
    assume a: "r = -1 \<and> (\<forall>k. 0 \<le> k \<and> k < 0 + int ?n \<longrightarrow> \<not> ?P (procTable s ! nat k))"
    have "\<not> ?P cp" if cp: "cp \<in> set (clients s)" for cp
    proof -
      obtain k where k: "k < length (clients s)" "cp = clients s ! k" using cp by (metis in_set_conv_nth)
      then have "int k < numClients s" using length_clients [OF assms] n(2) by simp
      then show ?thesis using a nth [of "int k"] k(2) n(2) by (metis add_0 nat_int of_nat_0_le_iff)
    qed
    then show ?thesis using r(1) a by blast
  next
    assume a: "0 \<le> r \<and> r < 0 + int ?n \<and> ?P (procTable s ! nat r) \<and> (\<forall>k. 0 \<le> k \<and> k < r \<longrightarrow> \<not> ?P (procTable s ! nat k))"
    then have "?P (clients s ! nat r)" "\<forall>k. 0 \<le> k \<and> k < r \<longrightarrow> \<not> ?P (clients s ! nat k)"
      using nth n(2) by auto
    then show ?thesis using r(1) a n(2) by auto
  qed
qed

definition gone :: "string \<Rightarrow> clientProc \<Rightarrow> clientProc" where
  "gone now cp = cp\<lparr>p_port := -1, p_tid := -1, connected := 0, p_date := now, p_status := ''Disconnected''\<rparr>"

lemma procDisconnect_run:
  assumes ok: "sup_ok s" "0 \<le> clid" "clid < numClients s" and t: "length now < SZ_PDATE" and sh: "\<forall>cp \<in> set (clients s). short_line cp"
  shows "\<exists>s'. procDisconnect now (Some s) clid = Inr (Some s') \<and> clients s' = (clients s)[nat clid := gone now (clients s ! nat clid)] \<and> sup_ok s'"
proof -
  let ?cp = "gone now (clients s ! nat clid)" and ?s = "s\<lparr>procTable := (procTable s)[nat clid := gone now (clients s ! nat clid)]\<rparr>"
  have b: "clid < int (length (procTable s))" using ok(3) sup_okD(1, 3) [OF ok(1)] by simp
  have u: "upd_proc s clid (gone now) = Inr ?s" using arr_in [OF ok(2) b] nth_clients(1) [OF ok] by (simp add: upd_proc_def)
  have "sup_ok ?s" by (rule upd_proc_ok [OF ok(1) u]) (use t in \<open>simp add: gone_def proc_ok_def sup_sizes\<close>)
  moreover have cl: "clients ?s = (clients s)[nat clid := ?cp]" by (simp add: clients_def take_update_swap)
  have c: "short_line (clients s ! nat clid)" using sh nth_clients(2) [OF ok] nth_mem by blast
  have "show_int (-1) = ''-1''" by code_simp
  then have "short_line ?cp" using c t by (simp add: short_line_def gone_def SZ_PDATE_def)
  then have "\<forall>cp \<in> set (clients ?s). short_line cp" using cl sh set_update_subset_insert [of "clients s" "nat clid" ?cp] by auto
  ultimately obtain buf g where "procUpdateProcessTable ?s = Inr (?s\<lparr>gui := gui ?s @ (''procTab'', buf) # g\<rparr>)" using shown by blast
  then show ?thesis using u cl t ok(2) \<open>sup_ok ?s\<close> unfolding procDisconnect_def gone_def [abs_def] by (simp add: fit_def)
qed

text \<open>Entry \<open>k\<close>, and no other, has the task id.\<close>

definition only_at :: "int \<Rightarrow> nat \<Rightarrow> clientProc list \<Rightarrow> bool" where
  "only_at tid k cps \<longleftrightarrow> k < length cps \<and> (\<forall>j < length cps. p_tid (cps ! j) = tid \<longleftrightarrow> j = k)"

lemma only_at_update:
  "only_at tid k cps \<Longrightarrow> p_tid y = p_tid (cps ! i) \<or> i \<noteq> k \<and> p_tid y \<noteq> tid \<Longrightarrow> only_at tid k (cps[i := y])"
  by (cases "i < length cps") (auto simp: only_at_def nth_list_update list_update_beyond split: if_splits)

lemma only_at_append: "only_at tid k cps \<Longrightarrow> p_tid y \<noteq> tid \<Longrightarrow> only_at tid k (cps @ [y])"
  by (auto simp: only_at_def nth_append less_Suc_eq)

lemma only_at_gone:
  assumes "only_at tid k cps" "0 < tid" "cp \<in> set (cps[k := gone now x])"
  shows "p_tid cp \<noteq> tid"
proof -
  obtain i where i: "i < length cps" "cp = cps[k := gone now x] ! i" using assms(3) by (auto simp: in_set_conv_nth)
  show ?thesis
  proof (cases "i = k")
    case True
    then show ?thesis using i assms(2) by (simp add: gone_def)
  next
    case False
    then have "cp = cps ! i" using i by simp
    moreover have "p_tid (cps ! i) = tid \<longleftrightarrow> i = k" using assms(1) i(1) by (simp add: only_at_def)
    ultimately show ?thesis using False by simp
  qed
qed

lemma found_at:
  assumes "sup_ok s" "only_at tid (nat k) (clients s)" "0 < tid" "0 \<le> k"
  shows "procFindClient s (-1) tid = Inr k"
proof -
  have m: "client_match (-1) tid cp \<longleftrightarrow> p_tid cp = tid" for cp using assms(3) by (auto simp: client_match_def)
  have o: "nat k < length (clients s)" "\<And>j. j < length (clients s) \<Longrightarrow> p_tid (clients s ! j) = tid \<longleftrightarrow> j = nat k"
    using assms(2) by (auto simp: only_at_def)
  have "p_tid (clients s ! nat k) = tid" "clients s ! nat k \<in> set (clients s)" using o by simp_all
  then obtain r where r: "procFindClient s (-1) tid = Inr r" "0 \<le> r" "r < numClients s" "p_tid (clients s ! nat r) = tid"
    using find_client_run [OF assms(1), of "-1" tid] unfolding m by blast
  then have "nat r = nat k" using o(2) nth_clients(2) [OF assms(1) r(2, 3)] by blast
  then show ?thesis using r(1, 2) assms(4) by simp
qed

lemma found_nowhere:
  assumes "sup_ok s" "\<forall>cp \<in> set (clients s). p_tid cp \<noteq> tid" "0 < tid"
  shows "procFindClient s (-1) tid = Inr (-1)"
proof -
  have m: "client_match (-1) tid cp \<longleftrightarrow> p_tid cp = tid" for cp using assms(3) by (auto simp: client_match_def)
  obtain q where q: "procFindClient s (-1) tid = Inr q" "q = -1 \<or> 0 \<le> q \<and> q < numClients s \<and> p_tid (clients s ! nat q) = tid"
    using find_client_run [OF assms(1), of "-1" tid] unfolding m by blast
  have "\<not> (0 \<le> q \<and> q < numClients s \<and> p_tid (clients s ! nat q) = tid)" using assms(2) nth_clients(2) [OF assms(1)] nth_mem by blast
  then show ?thesis using q by blast
qed

text \<open>What the operations do to the task ids.\<close>

lemma upd_clients:
  assumes "upd_proc s clid f = Inr s'"
  shows "0 \<le> clid \<and> clients s' = (clients s)[nat clid := f (procTable s ! nat clid)]"
  using assms by (auto simp: upd_proc_def bind_res_Inr_iff arr_get_Inr arr_set_Inr clients_def take_update_swap)

lemma upd_only_at:
  assumes u: "upd_proc s clid f = Inr s'" and o: "only_at tid k (clients s)"
    and f: "\<And>cp. p_tid (f cp) = p_tid cp \<or> nat clid \<noteq> k \<and> p_tid (f cp) \<noteq> tid"
  shows "only_at tid k (clients s')"
proof (cases "nat clid < length (clients s)")
  case True
  then have "clients s ! nat clid = procTable s ! nat clid" by (simp add: clients_def)
  then show ?thesis using only_at_update [OF o] f upd_clients [OF u] by metis
next
  case False
  then show ?thesis using o upd_clients [OF u] by (simp add: list_update_beyond)
qed

lemma frame_only_at: "\<exists>g. s' = s\<lparr>gui := g\<rparr> \<Longrightarrow> only_at tid k (clients s) \<Longrightarrow> only_at tid k (clients s')"
  by auto

lemma connect_client_clients:
  assumes "connect_client s k name host = Inr s'"
  shows "clients s' = clients s"
proof -
  consider "add_collector s k = Inr s'" | "pair_pan s k host = Inr s'" | "s' = s"
    using assms unfolding connect_client_def by (metis Inr_inject)
  then show ?thesis
    by cases (auto simp: add_collector_def pair_pan_def bind_res_Inr_iff clients_def split: option.splits if_splits)
qed

lemma add_only_at:
  assumes ok: "sup_ok s" and a: "procAddClient now s chan name host port tid' pid status update = Inr (r, host', s')"
    and o: "only_at tid k (clients s)" "tid' \<noteq> tid"
  shows "only_at tid k (clients s')"
proof (cases "name = ''CMD_Test'' \<or> numClients s = int SZ_PROCTABLE")
  case True
  then have "s' = s" using a by (auto simp: procAddClient_def split: if_splits)
  then show ?thesis using o by simp
next
  case False
  let ?k = "numClients s"
  obtain h pt s1 where *: "arr_set (procTable s) ?k (new_client now chan name h port tid' pid status) = Inr pt"
    "connect_client (s\<lparr>procTable := pt, numClients := ?k + 1\<rparr>) ?k name host' = Inr s1"
    "(if update then procUpdateProcessTable s1 else Inr s1) = Inr s'"
    using a False by (clarsimp simp: procAddClient_def Let_def bind_res_Inr_iff fit_Inr)
  have "clients s1 = clients s @ [new_client now chan name h port tid' pid status]"
    unfolding connect_client_clients [OF *(2)] using put_slot_clients [OF ok] *(1) sup_okD(3) [OF ok] False by (simp add: arr_set_Inr)
  then have "only_at tid k (clients s1)" using only_at_append [OF o(1)] o(2) by (simp add: new_client_def)
  then show ?thesis using frame_only_at update_frame_if(1) [OF *(3)] by blast
qed

lemma disconnect_only_at:
  assumes d: "procDisconnect now (Some s) clid = Inr (Some s')" and o: "only_at tid k (clients s)" and c: "clid \<noteq> int k" "0 < tid"
  shows "only_at tid k (clients s')"
proof (cases "clid < 0")
  case False
  obtain s1 where *: "upd_proc s clid (gone now) = Inr s1" "procUpdateProcessTable s1 = Inr s'"
    using d False by (auto simp: procDisconnect_def gone_def [abs_def] bind_res_Inr_iff fit_Inr)
  have "only_at tid k (clients s1)" by (rule upd_only_at [OF *(1) o]) (use c False in \<open>auto simp: gone_def\<close>)
  then show ?thesis using frame_only_at update_frame [OF *(2)] by blast
qed (use assms in \<open>simp add: procDisconnect_def\<close>)

lemma status_only_at:
  assumes d: "procUpdateStatus now (Some s) clid st update = Inr (r, Some s')" and o: "only_at tid k (clients s)"
  shows "only_at tid k (clients s')"
proof (cases "clid < 0")
  case False
  then obtain s1 where *: "(\<exists>a b. s1 = sup_message s a b) \<or> (\<exists>f. upd_proc s clid f = Inr s1 \<and> (\<forall>cp. p_tid (f cp) = p_tid cp))"
    "(if update then procUpdateProcessTable s1 else Inr s1) = Inr s'"
    using d by (fastforce simp: procUpdateStatus_def bind_res_Inr_iff split: if_splits)
  have "only_at tid k (clients s1)" using *(1) o upd_only_at by (auto simp: sup_message_gui)
  then show ?thesis using frame_only_at update_frame_if(1) [OF *(2)] by blast
qed (use assms in \<open>simp add: procUpdateStatus_def\<close>)

lemma value_only_at:
  assumes d: "procSetValue now (Some s) clid msg update = Inr (r, Some s')" and o: "only_at tid k (clients s)"
  shows "only_at tid k (clients s')"
proof (cases "clid < 0")
  case c: False
  show ?thesis
  proof (cases "starts msg ''port''")
    case True
    then obtain cp cp' pt where *: "arr_get (procTable s) clid = Inr cp" "set_port msg cp = Inr cp'" "arr_set (procTable s) clid cp' = Inr pt"
      "s' = s\<lparr>procTable := pt\<rparr>"
      using d c by (auto simp: procSetValue_def bind_res_Inr_iff)
    have "p_tid cp' = p_tid cp" using *(2) by (auto simp: set_port_def Let_def bind_res_Inr_iff split: option.splits if_splits)
    moreover have "upd_proc s clid (\<lambda>cp. cp') = Inr s'" using * by (simp add: upd_proc_def)
    moreover have "cp = procTable s ! nat clid" using *(1) by (simp add: arr_get_Inr)
    ultimately show ?thesis using upd_clients [of s clid "\<lambda>cp. cp'"] o only_at_update [OF o, of cp' "nat clid"]
      by (cases "nat clid < length (clients s)") (auto simp: clients_def list_update_beyond)
  next
    case p: False
    show ?thesis
    proof (cases "starts msg ''transfer''")
      case True
      then obtain ct where *: "(if update then procUpdateTransferTable (s\<lparr>connTable := ct\<rparr>) else Inr (s\<lparr>connTable := ct\<rparr>)) = Inr s'"
        using d c p by (auto simp: procSetValue_def bind_res_Inr_iff Let_def)
      have "clients (s\<lparr>connTable := ct\<rparr>) = clients s" by (simp add: clients_def)
      then show ?thesis using frame_only_at [OF update_frame_if(2) [OF *]] o by simp
    next
      case t: False
      show ?thesis
      proof (cases "starts msg ''connected''")
        case True
        then obtain v s1 s2 where *: "upd_proc s clid (\<lambda>cp. cp\<lparr>connected := v\<rparr>) = Inr s1"
          "report_conns clid v (nat (numPanConns s1)) 0 s1 = Inr s2" "(if update then procUpdateProcessTable s2 else Inr s2) = Inr s'"
          using d c p t by (auto simp: procSetValue_def bind_res_Inr_iff)
        have "only_at tid k (clients s1)" by (rule upd_only_at [OF *(1) o]) simp
        then show ?thesis using frame_only_at report_conns_frame [OF *(2)] update_frame_if(1) [OF *(3)] by blast
      qed (use d o c p t in \<open>simp add: procSetValue_def\<close>)
    qed
  qed
qed (use assms in \<open>simp add: procSetValue_def\<close>)

text \<open>An operation in between: another client is added or disconnects, or any client reports a status or a value.\<close>

inductive other_step :: "int \<Rightarrow> int \<Rightarrow> sup \<Rightarrow> sup \<Rightarrow> bool" for tid clid where
  add: "procAddClient now s chan name host port tid' pid status update = Inr (r, host', s') \<Longrightarrow> tid' \<noteq> tid \<Longrightarrow> other_step tid clid s s'"
| disconnect: "procDisconnect now (Some s) clid' = Inr (Some s') \<Longrightarrow> clid' \<noteq> clid \<Longrightarrow> other_step tid clid s s'"
| status: "procUpdateStatus now (Some s) clid' st update = Inr (r, Some s') \<Longrightarrow> other_step tid clid s s'"
| setval: "procSetValue now (Some s) clid' msg update = Inr (r, Some s') \<Longrightarrow> other_step tid clid s s'"

lemma other_step_keeps:
  assumes "other_step tid (int k) s s'" "sup_ok s" "only_at tid k (clients s)" "0 < tid"
  shows "sup_ok s' \<and> only_at tid k (clients s')"
  using assms(1)
proof cases
  case add
  then show ?thesis using procAddClient_ok [OF assms(2) add(1)] add_only_at [OF assms(2) add(1) assms(3) add(2)] by blast
next
  case disconnect
  then show ?thesis using procDisconnect_ok [OF assms(2) disconnect(1)] disconnect_only_at [OF disconnect(1) assms(3) disconnect(2) assms(4)] by blast
next
  case status
  then show ?thesis using procUpdateStatus_ok [OF assms(2) status] status_only_at [OF status assms(3)] by blast
next
  case setval
  then show ?thesis using procSetValue_ok [OF assms(2) setval] value_only_at [OF setval assms(3)] by blast
qed

lemma other_steps_keep:
  assumes "(other_step tid (int k))\<^sup>*\<^sup>* s s'" "sup_ok s" "only_at tid k (clients s)" "0 < tid"
  shows "sup_ok s' \<and> only_at tid k (clients s')"
  using assms(1)
proof (induction rule: rtranclp_induct)
  case base
  show ?case using assms(2, 3) by blast
next
  case (step s1 s2)
  then show ?case using other_step_keeps assms(4) by blast
qed

text \<open>
  C18: a client with a new task id (a collector or a PAN, too) is found under this id, at the number
  that it got when it was added, after any sequence of operations in which other clients are added
  and disconnect and clients report statuses and values, until it disconnects, and not after that;
  its entry then stays in the table, marked as disconnected.  (Cleaning the table is not among the
  operations: it takes away clients that have never reported a connection.)
\<close>

theorem procFindClient_until_disconnect:
  assumes ok: "sup_ok s" "numClients s < int SZ_PROCTABLE"
    and n: "name \<noteq> ''CMD_Test''" "length name < SZ_PNAME"
    and h: "supNeuter host = Inr (h, l)" "length h < SZ_PHOST"
    and t: "length now < SZ_PDATE" "length status < SZ_PSTAT"
    and sh: "\<forall>cp \<in> set (clients s). short_line cp" "short_line (new_client now chan name h port tid pid status)"
    and c: "starts_case name ''collector'' \<Longrightarrow> numPanConns s < int SZ_PROCTABLE"
    and p: "\<not> starts_case name ''collector'' \<Longrightarrow> starts_case name ''pan'' \<Longrightarrow> 0 < numPanPairs s"
    and new: "0 < tid" "\<forall>cp \<in> set (clients s). p_tid cp \<noteq> tid"
  shows "\<exists>s1. procAddClient now s chan name host port tid pid status True = Inr (0, l, s1)
     \<and> (\<forall>s2. (other_step tid (numClients s))\<^sup>*\<^sup>* s1 s2 \<longrightarrow> procFindClient s2 (-1) tid = Inr (numClients s)
          \<and> ((\<forall>cp \<in> set (clients s2). short_line cp) \<longrightarrow> (\<exists>s3. procDisconnect now (Some s2) (numClients s) = Inr (Some s3)
               \<and> clients s3 = (clients s2)[nat (numClients s) := gone now (clients s2 ! nat (numClients s))]
               \<and> procFindClient s3 (-1) tid = Inr (-1))))"
proof -
  let ?k = "numClients s" and ?cp = "new_client now chan name h port tid pid status"
  obtain s1 where 1: "procAddClient now s chan name host port tid pid status True = Inr (0, l, s1)" "clients s1 = clients s @ [?cp]"
    using add_run [OF ok n h t sh c p refl] by fastforce
  have ok1: "sup_ok s1" by (rule procAddClient_ok [OF ok(1) 1(1)])
  have k: "0 \<le> ?k" "int (nat ?k) = ?k" "nat ?k = length (clients s)" using length_clients [OF ok(1)] sup_okD(2) [OF ok(1)] by simp_all
  have o1: "only_at tid (nat ?k) (clients s1)"
    using new(2) nth_mem unfolding only_at_def 1(2) k(3) by (auto simp: nth_append new_client_def less_Suc_eq)
  have "procFindClient s2 (-1) tid = Inr ?k \<and> ((\<forall>cp \<in> set (clients s2). short_line cp) \<longrightarrow> (\<exists>s3. procDisconnect now (Some s2) ?k = Inr (Some s3)
      \<and> clients s3 = (clients s2)[nat ?k := gone now (clients s2 ! nat ?k)] \<and> procFindClient s3 (-1) tid = Inr (-1)))"
    if st: "(other_step tid ?k)\<^sup>*\<^sup>* s1 s2" for s2
  proof -
    have 2: "sup_ok s2" "only_at tid (nat ?k) (clients s2)" using other_steps_keep [of tid "nat ?k" s1 s2] st ok1 o1 new(1) unfolding k(2) by blast+
    have k2: "?k < numClients s2" using 2(2) length_clients [OF 2(1)] sup_okD(2) [OF 2(1)] k(1) by (simp add: only_at_def)
    have "\<exists>s3. procDisconnect now (Some s2) ?k = Inr (Some s3) \<and> clients s3 = (clients s2)[nat ?k := gone now (clients s2 ! nat ?k)]
        \<and> procFindClient s3 (-1) tid = Inr (-1)" if sh: "\<forall>cp \<in> set (clients s2). short_line cp"
    proof -
      obtain s3 where s3: "procDisconnect now (Some s2) ?k = Inr (Some s3)" "clients s3 = (clients s2)[nat ?k := gone now (clients s2 ! nat ?k)]" "sup_ok s3"
        using procDisconnect_run [OF 2(1) k(1) k2 t(1) sh] by blast
      have "\<forall>cp \<in> set (clients s3). p_tid cp \<noteq> tid" using only_at_gone [OF 2(2) new(1)] unfolding s3(2) by blast
      from found_nowhere [OF s3(3) this new(1)] show ?thesis using s3 by blast
    qed
    then show ?thesis using found_at [OF 2 new(1) k(1)] by blast
  qed
  then show ?thesis using 1(1) by blast
qed

theorem procFindClient_until_disconnect_witness:
  "\<exists>s1 s2 s3. procAddClient ''12:34:56'' sup0 None ''PXF'' ''dhs-2'' 0 262150 812 ''Connected'' True = Inr (0, ''dhs-2'', s1)
     \<and> procDisconnect ''12:35:00'' (Some s1) 0 = Inr (Some s2) \<and> procFindClient s2 (-1) 262150 = Inr 2
     \<and> procDisconnect ''12:34:56'' (Some s2) 2 = Inr (Some s3) \<and> procFindClient s3 (-1) 262150 = Inr (-1)"
proof -
  let ?cp = "new_client ''12:34:56'' None ''PXF'' ''dhs-2'' 0 262150 812 ''Connected''"
  have h: "supNeuter ''dhs-2'' = Inr (''dhs-2'', ''dhs-2'')" by code_simp
  have n: "\<not> starts_case ''PXF'' ''collector''" "\<not> starts_case ''PXF'' ''pan''" by code_simp+
  have sh: "\<forall>cp \<in> set (clients sup0). short_line cp" "short_line ?cp"
    using col0_short by (simp_all add: sup0_ok(2) short_line_def new_client_def zero_proc_def show_int_def show_nat_steps)
  have b: "numClients sup0 < int SZ_PROCTABLE" "''PXF'' \<noteq> ''CMD_Test''" "length ''PXF'' < SZ_PNAME" "length ''dhs-2'' < SZ_PHOST"
    "length ''12:34:56'' < SZ_PDATE" "length ''Connected'' < SZ_PSTAT" "(0 :: int) < 262150" "\<forall>cp \<in> set (clients sup0). p_tid cp \<noteq> 262150"
    by (simp_all add: sup0_ok(2) col0_def zero_proc_def sup_sizes) (simp add: sup0_def)
  have k: "numClients sup0 = 2" by (simp add: sup0_def)
  obtain s1 where 1: "procAddClient ''12:34:56'' sup0 None ''PXF'' ''dhs-2'' 0 262150 812 ''Connected'' True = Inr (0, ''dhs-2'', s1)"
    "\<And>s2. (other_step 262150 2)\<^sup>*\<^sup>* s1 s2 \<Longrightarrow> procFindClient s2 (-1) 262150 = Inr 2
      \<and> ((\<forall>cp \<in> set (clients s2). short_line cp) \<longrightarrow> (\<exists>s3. procDisconnect ''12:34:56'' (Some s2) 2 = Inr (Some s3) \<and> procFindClient s3 (-1) 262150 = Inr (-1)))"
    using procFindClient_until_disconnect [OF sup0_ok(1) b(1-3) h b(4-6) sh _ _ b(7, 8)] n unfolding k by blast
  have ok1: "sup_ok s1" by (rule procAddClient_ok [OF sup0_ok(1) 1(1)])
  have cl: "clients s1 = clients sup0 @ [?cp]"
    using add_run [OF sup0_ok(1) b(1-3) h b(4-6) sh _ _ refl] n 1(1) by fastforce
  then have sh1: "\<forall>cp \<in> set (clients s1). short_line cp" using sh by auto
  have "0 < numClients s1" using length_clients [OF ok1] cl by simp
  from procDisconnect_run [OF ok1 order_refl this _ sh1, of "''12:35:00''"]
  obtain s2 where 2: "procDisconnect ''12:35:00'' (Some s1) 0 = Inr (Some s2)" "clients s2 = (clients s1)[0 := gone ''12:35:00'' (clients s1 ! 0)]"
    by (auto simp: SZ_PDATE_def)
  have "short_line (gone ''12:35:00'' (clients s1 ! 0))" using col0_short(1)
    by (simp add: cl sup0_ok(2) short_line_def gone_def show_int_def show_nat_steps)
  then have "\<forall>cp \<in> set (clients s2). short_line cp" using sh1 set_update_subset_insert [of "clients s1" 0] unfolding 2(2) by blast
  moreover have "(other_step 262150 2)\<^sup>*\<^sup>* s1 s2" using other_step.disconnect [OF 2(1), of 2 262150] by simp
  ultimately show ?thesis using 1(1) 1(2) [of s2] 2(1) by blast
qed

section \<open>Host names and client ids\<close>

lemma strip_ext_plain: "CHR ''-'' \<notin> set s \<Longrightarrow> strip_ext s = s"
  by (induction s) auto

text \<open>
  the name of a host with a domain keeps its dot the first time it is neutralised and loses it
  the second time, because the caller's string has been cut in between.
\<close>

theorem supNeuter_keeps_dot:
  assumes "CHR ''.'' \<notin> set b" "CHR ''-'' \<notin> set b" "length b + 1 < SZ_FNAME"
  shows "supNeuter (b @ ''.'' @ d) = Inr (b @ ''.'', b) \<and> supNeuter b = Inr (b, b)"
proof -
  have "takeWhile (\<lambda>c. c \<noteq> CHR ''.'') (b @ ''.'' @ d) = b" using assms(1) by (induction b) auto
  moreover have t: "takeWhile (\<lambda>c. c \<noteq> CHR ''.'') b = b" using assms(1) by (induction b) auto
  moreover have "strip_ext (b @ ''.'') = b @ ''.''" "strip_ext b = b" using assms(2) by (auto intro!: strip_ext_plain)
  ultimately show ?thesis using assms(1, 3) unfolding supNeuter_def t Let_def by simp
qed

theorem supNeuter_keeps_dot_witness:
  "supNeuter ''newfirm.kpno.noao.edu'' = Inr (''newfirm.'', ''newfirm'') \<and> supNeuter ''newfirm'' = Inr (''newfirm'', ''newfirm'')"
  using supNeuter_keeps_dot [of "''newfirm''" "''kpno.noao.edu''"] by (simp add: SZ_FNAME_def)

lemma takeWhile_stop: "\<forall>c \<in> set s. P c \<Longrightarrow> \<not> P d \<Longrightarrow> takeWhile P (s @ d # t) = s"
  by (induction s) auto

lemma dropWhile_stop: "\<forall>c \<in> set s. P c \<Longrightarrow> \<not> P d \<Longrightarrow> dropWhile P (s @ d # t) = d # t"
  by (induction s) auto

lemma put_zero: "length s < n \<Longrightarrow> put s (replicate n NUL) = Inr (s @ replicate (n - length s) NUL)"
  by (simp add: put_def poke_def)

lemma cstr_zero: "cstring s \<Longrightarrow> 0 < k \<Longrightarrow> cstr_at (s @ replicate k NUL) 0 = s"
  by (cases k) (simp_all add: cstr_at_def takeWhile_cstring_NUL)

definition in_word :: "char set \<Rightarrow> string \<Rightarrow> bool" where
  "in_word X s \<longleftrightarrow> (\<forall>c \<in> set s. c \<noteq> NUL \<and> c \<notin> X)"

text \<open>
  a client id \<open>name@host.domain:pid\<close>, or one without a domain, is broken out into its parts
  when the buffers have been cleared.
\<close>

theorem procBreakoutClientID_parts:
  assumes n: "name \<noteq> []" "in_word {CHR ''@''} name" "length name < N"
    and h: "host \<noteq> []" "in_word {CHR '':'', CHR ''.''} host" "length host < H"
    and d: "domain = [] \<or> (\<exists>d. domain = CHR ''.'' # d \<and> in_word {CHR '':''} d)"
  shows "\<exists>nb hb. procBreakoutClientID (Some (name @ ''@'' @ host @ domain @ '':'' @ show_nat pid @ NUL # junk)) (replicate N NUL) (replicate H NUL)
       = Inr (nb, hb, int pid) \<and> cstr_at nb 0 = name \<and> cstr_at hb 0 = host"
proof -
  let ?tail = "CHR '':'' # show_nat pid @ NUL # junk"
  have nm: "takeWhile (\<lambda>c. c \<notin> {NUL, CHR ''@''}) (name @ ''@'' @ host @ domain @ ?tail) = name"
    using takeWhile_stop [of name "\<lambda>c. c \<notin> {NUL, CHR ''@''}" "CHR ''@''" "host @ domain @ ?tail"] n(2) by (auto simp: in_word_def)
  have hb: "\<exists>hb. copy_host (host @ domain @ ?tail) (replicate H NUL) = Inr (host, ?tail, hb) \<and> cstr_at hb 0 = host"
    using d
  proof
    assume e: "domain = []"
    have "takeWhile (\<lambda>c. c \<notin> {NUL, CHR '':'', CHR ''.''}) (host @ domain @ ?tail) = host"
      using takeWhile_stop [of host "\<lambda>c. c \<notin> {NUL, CHR '':'', CHR ''.''}" "CHR '':''" "show_nat pid @ NUL # junk"] h(2) e by (auto simp: in_word_def)
    moreover have "put host (replicate H NUL) = Inr (host @ replicate (H - length host) NUL)" by (rule put_zero [OF h(3)])
    moreover have "cstr_at (host @ replicate (H - length host) NUL) 0 = host"
      using h(2, 3) by (intro cstr_zero) (auto simp: in_word_def cstring_def)
    ultimately show ?thesis using e by (simp add: copy_host_def)
  next
    assume "\<exists>d. domain = CHR ''.'' # d \<and> in_word {CHR '':''} d"
    then obtain e where e: "domain = CHR ''.'' # e" "in_word {CHR '':''} e" by blast
    have "takeWhile (\<lambda>c. c \<notin> {NUL, CHR '':'', CHR ''.''}) (host @ domain @ ?tail) = host"
      using takeWhile_stop [of host "\<lambda>c. c \<notin> {NUL, CHR '':'', CHR ''.''}" "CHR ''.''" "e @ ?tail"] h(2) e(1) by (auto simp: in_word_def)
    moreover have "dropWhile (\<lambda>c. c \<notin> {NUL, CHR '':''}) (domain @ ?tail) = ?tail"
      using dropWhile_stop [of domain "\<lambda>c. c \<notin> {NUL, CHR '':''}" "CHR '':''" "show_nat pid @ NUL # junk"] e by (auto simp: in_word_def)
    moreover have "put (host @ [NUL]) (replicate H NUL) = Inr ((host @ [NUL]) @ replicate (H - length (host @ [NUL])) NUL)"
      using h(3) by (simp add: put_def poke_def)
    moreover have "cstr_at ((host @ [NUL]) @ replicate k NUL) 0 = host" for k
      using h(2) takeWhile_cstring_NUL [of host "replicate k NUL"] by (auto simp: cstr_at_def in_word_def cstring_def)
    ultimately show ?thesis using e(1) by (simp add: copy_host_def Let_def)
  qed
  then obtain hb where hb: "copy_host (host @ domain @ ?tail) (replicate H NUL) = Inr (host, ?tail, hb)" "cstr_at hb 0 = host" by blast
  have pid: "atoi (cstr_at (show_nat pid @ NUL # junk) 0) = int pid"
  proof -
    have "cstring (show_nat pid)" using show_nat_digits [of pid] by (auto simp: cstring_def list_all_iff isdigit_def)
    then show ?thesis by (simp add: cstr_at_def takeWhile_cstring_NUL atoi_show_nat)
  qed
  have "put name (replicate N NUL) = Inr (name @ replicate (N - length name) NUL)" by (rule put_zero [OF n(3)])
  moreover have "cstr_at (name @ replicate (N - length name) NUL) 0 = name"
    using n(2, 3) by (intro cstr_zero) (auto simp: in_word_def cstring_def)
  ultimately show ?thesis using nm n(1) h(1) hb pid by (simp add: procBreakoutClientID_def)
qed

theorem procBreakoutClientID_parts_witness:
  "\<exists>nb hb. procBreakoutClientID (Some (''PAN@pan-a.noao.edu:'' @ show_nat 4711 @ [NUL])) (replicate 65 NUL) (replicate 65 NUL) = Inr (nb, hb, 4711)
     \<and> cstr_at nb 0 = ''PAN'' \<and> cstr_at hb 0 = ''pan-a''"
proof -
  have "in_word {CHR ''@''} ''PAN''" "in_word {CHR '':'', CHR ''.''} ''pan-a''" "in_word {CHR '':''} ''noao.edu''" by (simp_all add: in_word_def)
  then show ?thesis using procBreakoutClientID_parts [of "''PAN''" 65 "''pan-a''" 65 "''.noao.edu''" 4711 "[]"] by simp
qed

end
