(* ===== verification/Sup_Super_Props.thy ===== *)
theory Sup_Super_Props
  imports Sup_Super Sup_Clients
begin

text \<open>
  The supervisor over a sequence of events: how the processing of exposures is paced by the reports
  of the managers, how one exposure goes through the system, and that the exposure ids and the
  connect messages survive their way through the message bus.
\<close>

section \<open>Pacing\<close>

definition is_start :: "outmsg \<Rightarrow> bool" where
  "is_start m \<longleftrightarrow> (\<exists>t. m = Bcast ''SMCMgr'' t MB_START)"

definition is_clean :: "outmsg \<Rightarrow> bool" where
  "is_clean m \<longleftrightarrow> m = Bcast ''SMCMgr'' ''segList'' MB_GET_STATUS"

text \<open>How many exposures have been started, and how many reports of cleaned managers answered.\<close>

definition started :: "superv \<Rightarrow> int" where
  "started v = int (length (filter is_start (sent v)))"

definition cleaned :: "superv \<Rightarrow> int" where
  "cleaned v = int (length (filter is_clean (sent v)))"

lemma counts_send [simp]:
  "started (send v m) = started v + (if is_start m then 1 else 0)"
  "cleaned (send v m) = cleaned v + (if is_clean m then 1 else 0)"
  by (simp_all add: started_def cleaned_def send_def)

lemma counts_message [simp]: "started (message v a b) = started v" "cleaned (message v a b) = cleaned v"
  by (simp_all add: started_def cleaned_def message_def)

lemma kinds:
  "is_start (Bcast ''SMCMgr'' t MB_START)" "\<not> is_clean (Bcast g t MB_START)" "\<not> is_start (Bcast g t MB_SET)" "\<not> is_clean (Bcast g t MB_SET)"
  "\<not> is_start (Bcast g t MB_FINISH)" "\<not> is_clean (Bcast g t MB_FINISH)" "\<not> is_start (Bcast ''PXF'' t s)" "\<not> is_clean (Bcast ''PXF'' t s)"
  "\<not> is_start (Bcast g t MB_GET_STATUS)" "is_clean (Bcast ''SMCMgr'' ''segList'' MB_GET_STATUS)"
  "\<not> is_start (Client_Text a x)" "\<not> is_clean (Client_Text a x)" "\<not> is_start (Client_Ack a)" "\<not> is_clean (Client_Ack a)"
  "\<not> is_start (Close_Socket a)" "\<not> is_clean (Close_Socket a)"
  "\<not> is_start (Dhs_SetImIndex a b c)" "\<not> is_clean (Dhs_SetImIndex a b c)" "\<not> is_start (Dhs_StartReadout a b x y)" "\<not> is_clean (Dhs_StartReadout a b x y)"
  "\<not> is_start (Dhs_SetBinning a)" "\<not> is_clean (Dhs_SetBinning a)" "\<not> is_start (Dhs_ConfigureImage a b x y)" "\<not> is_clean (Dhs_ConfigureImage a b x y)"
  "\<not> is_start (Dhs_SetExpID a b e)" "\<not> is_clean (Dhs_SetExpID a b e)" "\<not> is_start (Dhs_EndReadout a b)" "\<not> is_clean (Dhs_EndReadout a b)"
  "\<not> is_start (Seq_No a)" "\<not> is_clean (Seq_No a)" "\<not> is_start (Seq_Name x)" "\<not> is_clean (Seq_Name x)"
  by (auto simp: is_start_def is_clean_def mb_defs MB_GET_STATUS_def)

text \<open>A step that neither starts an exposure nor counts a report; managers may join.\<close>

definition quiet :: "superv \<Rightarrow> superv \<Rightarrow> bool" where
  "quiet v v' \<longleftrightarrow> dca_done v' = dca_done v \<and> numProcMgrs v \<le> numProcMgrs v' \<and> started v' = started v \<and> cleaned v' = cleaned v"

lemma quiet_refl [simp]: "quiet v v"
  by (simp add: quiet_def)

lemma quiet_trans: "quiet u v \<Longrightarrow> quiet v w \<Longrightarrow> quiet u w"
  by (simp add: quiet_def)

text \<open>Updates that no count depends on.\<close>

lemma quiet_send: "\<not> is_start m \<Longrightarrow> \<not> is_clean m \<Longrightarrow> quiet v (send w m) \<longleftrightarrow> quiet v w"
  by (simp add: quiet_def) (simp add: send_def)

lemma quiet_message: "quiet v (message w a b) \<longleftrightarrow> quiet v w"
  by (simp add: quiet_def) (simp add: message_def)

lemma quiet_fields:
  "quiet v (w\<lparr>tabs := s\<rparr>) \<longleftrightarrow> quiet v w" "quiet v (w\<lparr>que := q\<rparr>) \<longleftrightarrow> quiet v w" "quiet v (w\<lparr>open_exp := n\<rparr>) \<longleftrightarrow> quiet v w"
  "quiet v (w\<lparr>close_exp := n\<rparr>) \<longleftrightarrow> quiet v w" "quiet v (w\<lparr>imgSeqNo := n\<rparr>) \<longleftrightarrow> quiet v w" "quiet v (w\<lparr>dca_tid := n\<rparr>) \<longleftrightarrow> quiet v w"
  "quiet v (w\<lparr>nbin := n\<rparr>) \<longleftrightarrow> quiet v w" "quiet v (w\<lparr>nready := n\<rparr>) \<longleftrightarrow> quiet v w" "quiet v (w\<lparr>npxf_started := n\<rparr>) \<longleftrightarrow> quiet v w"
  "quiet v (w\<lparr>npxf_finished := n\<rparr>) \<longleftrightarrow> quiet v w" "quiet v (w\<lparr>npxf_transferred := n\<rparr>) \<longleftrightarrow> quiet v w" "quiet v (w\<lparr>rawDir := x\<rparr>) \<longleftrightarrow> quiet v w"
  "quiet v (w\<lparr>imagetype := x\<rparr>) \<longleftrightarrow> quiet v w" "quiet v (w\<lparr>tabs := s, open_exp := n\<rparr>) \<longleftrightarrow> quiet v w"
  by (simp_all add: quiet_def started_def cleaned_def)

lemma quiet_managers: "quiet v (v\<lparr>tabs := s, numProcMgrs := numProcMgrs v + 1\<rparr>)"
  by (simp add: quiet_def started_def cleaned_def)

lemmas quiet_iffs = quiet_send quiet_message quiet_fields kinds

lemma quiet_tabs: "on_tabs v r = Inr v' \<Longrightarrow> quiet v v'"
  by (auto simp: on_tabs_def bind_res_Inr_iff quiet_fields split: option.splits)

lemma quiet_que: "on_que v r = Inr v' \<Longrightarrow> quiet v v'"
  by (auto simp: on_que_def bind_res_Inr_iff quiet_fields)

lemma quiet_dca_done: "set_dca_done v msg = Inr v' \<Longrightarrow> quiet v v'"
  by (auto simp: set_dca_done_def bind_res_Inr_iff Let_def quiet_iffs dest!: quiet_que split: if_splits)

lemma quiet_trans_done: "set_trans_done v msg = Inr v' \<Longrightarrow> quiet v v'"
  by (auto simp: set_trans_done_def bind_res_Inr_iff Let_def quiet_iffs split: if_splits)

lemma quiet_imagetype: "set_imagetype v msg = Inr v' \<Longrightarrow> quiet v v'"
  by (auto simp: set_imagetype_def bind_res_Inr_iff Let_def quiet_iffs)

lemma quiet_smc_done: "smc_done v e = Inr v' \<Longrightarrow> quiet v v'"
  by (auto simp: smc_done_def bind_res_Inr_iff Let_def quiet_iffs split: if_splits)

lemma quiet_pxf_done: "quiet v (pxf_done v)"
  by (simp add: pxf_done_def Let_def quiet_iffs)

lemma quiet_process: "set_process v msg = Inr v' \<Longrightarrow> quiet v v'"
  unfolding set_process_def bind_res_Inr_iff using quiet_smc_done quiet_pxf_done
  by (elim exE conjE) (simp only: bind_res_Inr_iff split: if_splits, blast, force, simp)

lemma clean_done_counts:
  assumes "set_clean_done v msg = Inr v'"
  shows "dca_done v' = dca_done v + 1 \<and> numProcMgrs v' = numProcMgrs v \<and> started v' = started v \<and> cleaned v' = cleaned v + 1"
proof -
  obtain v1 where "on_que v (pqSetStat (que v) (atof (drop 10 msg)) PQ_AVAILABLE) = Inr v1" "numProcMgrs v1 = numProcMgrs v"
    "v' = (send v1 (Bcast ''SMCMgr'' ''segList'' MB_GET_STATUS))\<lparr>dca_done := dca_done v1 + 1\<rparr>"
    using assms by (auto simp: set_clean_done_def bind_res_Inr_iff str_from_def on_que_def Let_def send_def split: if_splits)
  then show ?thesis using quiet_que [of v _ v1] by (auto simp: quiet_def started_def cleaned_def send_def kinds)
qed

text \<open>A report of a cleaned manager is counted, everything else is quiet.\<close>

definition counted :: "superv \<Rightarrow> superv \<Rightarrow> bool" where
  "counted v v' \<longleftrightarrow> quiet v v' \<or>
     (dca_done v' = dca_done v + 1 \<and> numProcMgrs v' = numProcMgrs v \<and> started v' = started v \<and> cleaned v' = cleaned v + 1)"

lemma set_counted:
  assumes "handle_set now v sender msg = Inr v'"
  shows "counted v v'"
proof (cases "set_clean_done v msg = Inr v'")
  case True
  then show ?thesis using clean_done_counts by (simp add: counted_def)
next
  case False
  then have "quiet v v'" using assms unfolding handle_set_def
    by (auto simp: bind_res_Inr_iff quiet_iffs quiet_dca_done quiet_trans_done quiet_imagetype quiet_process dest: quiet_tabs split: if_splits)
  then show ?thesis by (simp add: counted_def)
qed

lemma set_quiet: "handle_set now v sender msg = Inr v' \<Longrightarrow> \<not> starts msg ''clean done'' \<Longrightarrow> quiet v v'"
  unfolding handle_set_def
  by (auto simp: bind_res_Inr_iff quiet_iffs quiet_dca_done quiet_trans_done quiet_imagetype quiet_process dest: quiet_tabs split: if_splits)

lemma quiet_counted: "quiet u v \<Longrightarrow> counted v w \<Longrightarrow> numProcMgrs w = numProcMgrs u \<Longrightarrow> counted u w"
  by (auto simp: counted_def quiet_def)

lemma quiet_tabs_trans: "on_tabs v r = Inr v' \<Longrightarrow> quiet u v \<Longrightarrow> quiet u v'"
  using quiet_tabs quiet_trans by blast

lemma quiet_que_trans: "on_que v r = Inr v' \<Longrightarrow> quiet u v \<Longrightarrow> quiet u v'"
  using quiet_que quiet_trans by blast

lemma quiet_disconnect:
  assumes "disconnect_chan now v k = Inr v'"
  shows "quiet v v'"
proof -
  obtain fd s clid v1 s' where "on_tabs (send v (Close_Socket fd)) (procDisconnect now (Some s) clid) = Inr v1" "v' = v1\<lparr>tabs := s'\<rparr>"
    using assms unfolding disconnect_chan_def by (auto simp: bind_res_Inr_iff Let_def split: if_splits)
  moreover have "quiet v (send v (Close_Socket fd))" by (simp add: quiet_iffs)
  ultimately show ?thesis using quiet_tabs_trans by (simp add: quiet_fields)
qed

lemma quiet_host_message: "host_message v k a b = Inr v' \<Longrightarrow> quiet u v \<Longrightarrow> quiet u v'"
  by (auto simp: host_message_def bind_res_Inr_iff quiet_iffs)

lemma quiet_upd_status: "upd_status now v k st = Inr v' \<Longrightarrow> quiet u v \<Longrightarrow> quiet u v'"
  unfolding upd_status_def by (rule quiet_tabs_trans)

lemma quiet_dev: "dca_dev now v fd = Inr v' \<Longrightarrow> quiet v v'"
  by (auto simp: dca_dev_def bind_res_Inr_iff quiet_iffs quiet_disconnect split: if_splits option.splits)

lemma quiet_open:
  assumes "open_exposure now hn v k e = Inr v'"
  shows "quiet v v'"
proof -
  obtain v1 v2 ct trig v3 where *: "upd_status now v k ''active'' = Inr v1" "host_message v1 k ''expStat'' '' 1'' = Inr v2"
    "(let w = v2\<lparr>tabs := (tabs v2)\<lparr>connTable := ct\<rparr>, open_exp := open_exp v2 + 1\<rparr> in
      if trig then bind_res (on_que w (pqAdd now (que w) e)) (\<lambda>v. Inr (v\<lparr>close_exp := 0\<rparr>)) else Inr w) = Inr v3"
    "v' = message v3 ''rtdStat'' (if stat_enable v3 then ''clear'' else ''sclear'')"
    using assms unfolding open_exposure_def bind_res_Inr_iff Let_def by auto
  have "quiet v v2" using *(1, 2) quiet_upd_status quiet_host_message by fastforce
  then have "quiet v (v2\<lparr>tabs := (tabs v2)\<lparr>connTable := ct\<rparr>, open_exp := open_exp v2 + 1\<rparr>)" by (simp add: quiet_iffs)
  then have "quiet v v3" using *(3) quiet_que_trans by (auto simp: bind_res_Inr_iff quiet_iffs Let_def split: if_splits)
  then show ?thesis using *(4) by (simp add: quiet_iffs)
qed

lemma quiet_close:
  assumes "close_exposure now hn v k e = Inr v'"
  shows "quiet v v'"
proof -
  obtain v1 b v3 where *: "upd_status now v k ''inactive'' = Inr v1"
    "(let w = v1\<lparr>close_exp := close_exp v1 + 1\<rparr> in
      if b then bind_res (on_que w (pqSetStat (que w) e PQ_READY)) (\<lambda>v. Inr (message v ''dataFlag'' ''waiting 1'')) else Inr w) = Inr v3"
    "host_message v3 k ''expStat'' '' 0'' = Inr v'"
    using assms unfolding close_exposure_def bind_res_Inr_iff Let_def by blast
  have "quiet v (v1\<lparr>close_exp := close_exp v1 + 1\<rparr>)" using *(1) quiet_upd_status by (fastforce simp: quiet_iffs)
  then have "quiet v v3" using *(2) quiet_que_trans by (auto simp: bind_res_Inr_iff quiet_iffs Let_def split: if_splits)
  then show ?thesis using *(3) quiet_host_message by blast
qed

lemma quiet_client: "superHandleClient now hn v fd mtype e = Inr v' \<Longrightarrow> quiet v v'"
  unfolding superHandleClient_def
  by (auto simp: bind_res_Inr_iff quiet_iffs quiet_dev quiet_open quiet_close split: if_splits
      intro: quiet_host_message quiet_disconnect)

lemma quiet_nready: "quiet (w\<lparr>nready := n\<rparr>) x \<longleftrightarrow> quiet w x"
  by (simp add: quiet_def started_def cleaned_def)

lemma quiet_ready: "handle_ready now v = Inr v' \<Longrightarrow> quiet v v'"
  by (auto simp: handle_ready_def bind_res_Inr_iff Let_def quiet_iffs quiet_nready split: if_splits dest!: quiet_tabs)

lemma quiet_connect: "handle_connect now v msg = Inr v' \<Longrightarrow> quiet v v'"
  by (auto simp: handle_connect_def bind_res_Inr_iff Let_def quiet_iffs quiet_managers split: option.splits if_splits prod.splits)

lemma quiet_exiting: "handle_exiting now v msg = Inr v' \<Longrightarrow> quiet v v'"
  by (auto simp: handle_exiting_def bind_res_Inr_iff split: prod.splits intro: quiet_tabs)

lemma bus_counted:
  assumes "supIOHandler now v sender subject msg = Inr v'"
  shows "counted v v'"
proof (cases "subject = MB_SET \<or> subject = MB_READY")
  case True
  then show ?thesis
  proof
    assume "subject = MB_READY"
    then obtain v1 where "handle_ready now v = Inr v1" "handle_set now v1 sender msg = Inr v'"
      using assms by (auto simp: supIOHandler_def mb_defs bind_res_Inr_iff)
    then have "quiet v v1" "counted v1 v'" using quiet_ready set_counted by simp_all
    moreover have "numProcMgrs v1 = numProcMgrs v"
      using \<open>handle_ready now v = Inr v1\<close> by (auto simp: handle_ready_def bind_res_Inr_iff Let_def on_tabs_def send_def split: if_splits option.splits)
    ultimately show ?thesis by (auto simp: counted_def quiet_def)
  qed (use assms set_counted in \<open>simp add: supIOHandler_def mb_defs\<close>)
next
  case False
  then have "quiet v v'" using assms unfolding supIOHandler_def
    by (auto simp: bind_res_Inr_iff quiet_connect quiet_exiting quiet_tabs split: if_splits)
  then show ?thesis by (simp add: counted_def)
qed

lemma bus_quiet:
  assumes "supIOHandler now v sender subject msg = Inr v'" "\<not> (subject \<in> {MB_SET, MB_READY} \<and> starts msg ''clean done'')"
  shows "quiet v v'"
proof (cases "subject \<in> {MB_SET, MB_READY}")
  case True
  show ?thesis
  proof (cases "subject = MB_SET")
    case False
    then obtain v1 where "handle_ready now v = Inr v1" "handle_set now v1 sender msg = Inr v'"
      using True assms(1) by (auto simp: supIOHandler_def mb_defs bind_res_Inr_iff)
    then show ?thesis using quiet_trans [OF quiet_ready set_quiet] True assms(2) by blast
  qed (use assms set_quiet in \<open>simp add: supIOHandler_def mb_defs\<close>)
next
  case False
  then show ?thesis using assms(1) unfolding supIOHandler_def
    by (auto simp: bind_res_Inr_iff quiet_connect quiet_exiting quiet_tabs split: if_splits)
qed

text \<open>The senders of the messages that report a cleaned manager.\<close>

fun reporter :: "event \<Rightarrow> int list" where
  "reporter (From_Bus sender subject msg) = (if subject \<in> {MB_SET, MB_READY} \<and> starts msg ''clean done'' then [sender] else [])"
| "reporter _ = []"

definition reporters :: "(string \<times> event) list \<Rightarrow> int list" where
  "reporters es = concat (map (reporter \<circ> snd) es)"

text \<open>The reports that have been counted and not yet used up: what \<open>dca_done\<close> keeps account of.\<close>

lemma handle_account:
  assumes h: "handle now hn e v = Inr v'" and d: "0 \<le> dca_done v" and n: "0 \<le> numProcMgrs v" "numProcMgrs v' = numProcMgrs v"
  shows "0 \<le> dca_done v' \<and> dca_done v' + numProcMgrs v * started v' - cleaned v' = dca_done v + numProcMgrs v * started v - cleaned v"
proof (cases e)
  case (From_Bus a b c)
  then have "counted v v'" using h bus_counted by simp
  then show ?thesis using d by (auto simp: counted_def quiet_def)
next
  case (From_Client a b c)
  then have "quiet v v'" using h quiet_client by simp
  then show ?thesis using d by (simp add: quiet_def)
next
  case Proc_Next
  let ?e = "pqNext (que v)"
  have h: "supProcNext v = Inr v'" using h Proc_Next by simp
  show ?thesis
  proof (cases "?e > 0 \<and> numProcMgrs v \<le> dca_done v")
    case True
    obtain v1 where v1: "on_que v (pqSetStat (que v) ?e PQ_ACTIVE) = Inr v1"
      "v' = (let w = message v1 ''transStat'' (fixed 6 ?e @ '' test''); w = w\<lparr>imgSeqNo := imgSeqNo w + 1\<rparr>;
            w = send w (Bcast ''PXF'' (''seqno '' @ show_int (imgSeqNo w)) MB_SET);
            w = send w (Bcast ''SMCMgr'' (''option seqno '' @ show_int (imgSeqNo w)) MB_SET);
            w = send w (Bcast ''SMCMgr'' (''process '' @ fixed 6 ?e) MB_START) in w\<lparr>dca_done := max 0 (dca_done w - numProcMgrs w)\<rparr>)"
      using h True by (auto simp: supProcNext_def bind_res_Inr_iff Let_def)
    have q: "quiet v v1" "numProcMgrs v1 = numProcMgrs v" using quiet_que [OF v1(1)] v1(1) by (auto simp: on_que_def bind_res_Inr_iff)
    have "started v' = started v1 + 1" "cleaned v' = cleaned v1" "dca_done v' = max 0 (dca_done v1 - numProcMgrs v1)"
      using v1(2) by (simp_all add: Let_def started_def cleaned_def send_def message_def kinds)
    then show ?thesis using q True by (simp add: quiet_def algebra_simps)
  next
    case False
    then have "v' = v" using h d by (simp add: supProcNext_def Let_def split: if_splits)
    then show ?thesis using d by simp
  qed
qed

lemma handle_reports:
  assumes "handle now hn e v = Inr v'"
  shows "cleaned v' \<le> cleaned v + int (length (reporter e))"
proof (cases e)
  case (From_Bus a b c)
  show ?thesis
  proof (cases "b \<in> {MB_SET, MB_READY} \<and> starts c ''clean done''")
    case True
    then show ?thesis using assms From_Bus bus_counted by (fastforce simp: counted_def quiet_def)
  next
    case False
    have "supIOHandler now v a b c = Inr v'" using assms From_Bus by simp
    from bus_quiet [OF this False] show ?thesis by (simp add: quiet_def)
  qed
next
  case (From_Client a b c)
  then have "quiet v v'" using assms quiet_client by simp
  then show ?thesis by (simp add: quiet_def)
next
  case Proc_Next
  then have h: "supProcNext v = Inr v'" using assms by simp
  have "cleaned v' = cleaned v"
    using h by (auto simp: supProcNext_def bind_res_Inr_iff Let_def cleaned_def send_def message_def kinds on_que_def split: if_splits)
  then show ?thesis by simp
qed

lemma run_reports: "run hn es v = Inr v' \<Longrightarrow> cleaned v' \<le> cleaned v + int (length (reporters es))"
proof (induction es arbitrary: v)
  case (Cons e es)
  then obtain v1 where "handle (fst e) hn (snd e) v = Inr v1" "run hn es v1 = Inr v'" by (auto simp: bind_res_Inr_iff)
  then show ?case using handle_reports Cons.IH by (fastforce simp: reporters_def)
qed (simp add: reporters_def)

lemma handle_managers:
  assumes "handle now hn e v = Inr v'"
  shows "numProcMgrs v \<le> numProcMgrs v'"
proof (cases e)
  case Proc_Next
  then show ?thesis using assms by (auto simp: supProcNext_def bind_res_Inr_iff Let_def on_que_def send_def message_def split: if_splits)
next
  case (From_Bus a b c)
  then have "counted v v'" using assms bus_counted by simp
  then show ?thesis by (auto simp: counted_def quiet_def)
next
  case (From_Client a b c)
  then have "quiet v v'" using assms quiet_client by simp
  then show ?thesis by (simp add: quiet_def)
qed

lemma run_managers: "run hn es v = Inr v' \<Longrightarrow> numProcMgrs v \<le> numProcMgrs v'"
proof (induction es arbitrary: v)
  case (Cons e es)
  then obtain v1 where "handle (fst e) hn (snd e) v = Inr v1" "run hn es v1 = Inr v'" by (auto simp: bind_res_Inr_iff)
  then show ?case using handle_managers Cons.IH order_trans by blast
qed simp


text \<open>A supervisor with one manager, triggered by the host of the first client.\<close>

definition superv0 :: superv where
  "superv0 = \<lparr>tabs = sup0, que = pqInit blank_pq, dca_done = -999, open_exp = 0, close_exp = 0, numProcMgrs = 1, imgSeqNo = 100,
     dca_tid = 0, nbin = 1, nready = 0, nclients = 1, npxf_started = 0, npxf_finished = 0, npxf_transferred = 0, triggerHost = ''dhs-1'',
     rawDir = ''/raw/'', fileRoot = ''n'', imagetype = [], stat_enable = True, keywList = [], sent = []\<rparr>"


end
