(* ===== verification/Sup_Cycle.thy ===== *)
theory Sup_Cycle
  imports Sup_Super_Props
begin

text \<open>
  One exposure through the supervisor: from the instrument's message that opens it to the reports of
  the managers that its pages are gone, with the exposure id in the text of the messages.
\<close>

section \<open>Exposure ids in text\<close>

lemma digits_value_app: "list_all isdigit s \<Longrightarrow> digits_value acc (s @ t) = digits_value (digits_value acc s) t"
  by (induction s arbitrary: acc) auto

lemma digits_value_zeros: "digits_value 0 (replicate n CHR ''0'' @ s) = digits_value 0 s"
  by (induction n) (auto simp: isdigit_def)

lemma round_even_close: "\<bar>of_int (round_even x) - x\<bar> \<le> 1 / 2"
proof -
  have "of_int \<lfloor>x\<rfloor> \<le> x" "x < of_int \<lfloor>x\<rfloor> + 1" using floor_correct [of x] by simp_all
  then show ?thesis by (auto simp: round_even_def Let_def abs_le_iff)
qed

lemma round_even_pos: "0 \<le> x \<Longrightarrow> 0 \<le> round_even x"
  by (auto simp: round_even_def Let_def)

lemma isdigit_not: "isdigit c \<Longrightarrow> \<not> isspace c \<and> c \<noteq> CHR ''-'' \<and> c \<noteq> CHR ''+'' \<and> c \<noteq> CHR ''.''"
  by (auto simp: isdigit_def isspace_def)

lemma takeWhile_digits: "list_all isdigit s \<Longrightarrow> (t = [] \<or> \<not> isdigit (hd t)) \<Longrightarrow> takeWhile isdigit (s @ t) = s"
  by (rule takeWhile_all_hd)

lemma atof_fixed_point:
  assumes i: "list_all isdigit i" "i \<noteq> []" and f: "list_all isdigit f" and t: "t = [] \<or> \<not> isdigit (hd t)"
  shows "atof (i @ ''.'' @ f @ t) = of_nat (digits_value 0 i) + of_nat (digits_value 0 f) / 10 ^ length f"
proof -
  obtain c i' where c: "i = c # i'" "isdigit c" using i by (cases i) auto
  have "dropWhile isspace (i @ ''.'' @ f @ t) = i @ ''.'' @ f @ t" using c isdigit_not by simp
  moreover have "takeWhile isdigit (i @ ''.'' @ f @ t) = i" by (rule takeWhile_digits [OF i(1)]) (simp add: isdigit_def)
  moreover have "takeWhile isdigit (f @ t) = f" by (rule takeWhile_digits [OF f t])
  ultimately show ?thesis using c isdigit_not [OF c(2)] unfolding atof_def Let_def by simp
qed

lemma join_fraction: "(of_int a :: rat) + of_int b / 10 ^ 6 = of_int (a * 10 ^ 6 + b) / 10 ^ 6"
  by (simp add: field_simps)

text \<open>The id as it comes back from a message.\<close>

lemma atof_fixed:
  assumes "0 \<le> x" "t = [] \<or> \<not> isdigit (hd t)"
  shows "atof (fixed 6 x @ t) = of_int (round_even (x * 10 ^ 6)) / 10 ^ 6"
proof -
  let ?n = "round_even (x * 10 ^ 6)"
  let ?d = "show_nat (nat (?n mod 10 ^ 6))"
  let ?f = "replicate (6 - length ?d) CHR ''0'' @ ?d"
  have n: "0 \<le> ?n" using round_even_pos [of "x * 10 ^ 6"] assms(1) by simp
  have "nat (?n mod 10 ^ 6) < 10 ^ 6" by (simp add: nat_less_iff)
  then have l: "length ?f = 6" using length_show_nat [of "nat (?n mod 10 ^ 6)" 6] by simp
  have d: "list_all isdigit ?f" using show_nat_digits by (simp add: list_all_replicate isdigit_def)
  have "fixed 6 x @ t = show_nat (nat (?n div 10 ^ 6)) @ ''.'' @ ?f @ t" using assms(1) by (simp add: fixed_def Let_def)
  then have "atof (fixed 6 x @ t) = of_nat (digits_value 0 (show_nat (nat (?n div 10 ^ 6)))) + of_nat (digits_value 0 ?f) / 10 ^ length ?f"
    using atof_fixed_point [OF show_nat_digits show_nat_nonempty d assms(2)] by presburger
  also have "\<dots> = of_int (?n div 10 ^ 6) + of_int (?n mod 10 ^ 6) / 10 ^ 6"
    unfolding l digits_value_zeros digits_value_show_nat using n by (simp add: pos_imp_zdiv_nonneg_iff)
  also have "\<dots> = of_int (?n div 10 ^ 6 * 10 ^ 6 + ?n mod 10 ^ 6) / 10 ^ 6" by (rule join_fraction)
  finally show ?thesis by (simp only: div_mult_mod_eq)
qed

lemma text_id:
  assumes "0 \<le> x" "t = [] \<or> \<not> isdigit (hd t)"
  shows "smcEqualExpID x (atof (fixed 6 x @ t)) \<and> \<bar>x - atof (fixed 6 x @ t)\<bar> \<le> 1 / 2000000"
proof -
  have "\<bar>of_int (round_even (x * 10 ^ 6)) - x * 10 ^ 6\<bar> \<le> 1 / 2" by (rule round_even_close)
  then have "\<bar>x - of_int (round_even (x * 10 ^ 6)) / 10 ^ 6\<bar> \<le> 1 / 2000000" by (simp add: abs_le_iff field_simps) (simp add: abs_minus_commute)?
  then show ?thesis unfolding smcEqualExpID_iff atof_fixed [OF assms] by (intro conjI) linarith+
qed

section \<open>The instrument's side\<close>

text \<open>The client at slot \<open>k\<close> sends on socket \<open>fd\<close>, its host is the trigger, and the display can be refreshed.\<close>

definition tended :: "string option \<Rightarrow> superv \<Rightarrow> int \<Rightarrow> int \<Rightarrow> bool" where
  "tended hn v fd k \<longleftrightarrow> sup_ok (tabs v) \<and> procFindBySocket (tabs v) fd = Inr k \<and> 0 \<le> k \<and> k < numClients (tabs v)
     \<and> (\<forall>cp \<in> set (clients (tabs v)). short_line cp) \<and> isTriggerHost hn v k = Inr True"

text \<open>What an event of the instrument leaves alone.\<close>

definition core :: "superv \<Rightarrow> int \<times> int \<times> int \<times> int \<times> int \<times> string \<times> outmsg list" where
  "core v = (dca_done v, numProcMgrs v, imgSeqNo v, dca_tid v, npxf_started v, rawDir v, sent v)"

lemma find_from_same:
  assumes "\<And>j. P (pt' ! j) = P (pt ! j)" "length pt' = length pt"
  shows "find_from n i P pt' = find_from n i P pt"
  using assms by (induction n arbitrary: i) (simp_all add: arr_get_def)

lemma tended_tabs:
  assumes t: "tended hn v fd k" and ok: "sup_ok s'" and s': "procTable s' = (procTable (tabs v))[nat k := (procTable (tabs v) ! nat k)\<lparr>active := a\<rparr>]"
    "numClients s' = numClients (tabs v)"
  shows "tended hn (v\<lparr>tabs := s'\<rparr>) fd k"
proof -
  let ?s = "tabs v" and ?cp = "procTable (tabs v) ! nat k"
  have k: "0 \<le> k" "k < numClients ?s" and sok: "sup_ok ?s" using t by (simp_all add: tended_def)
  have kl: "nat k < length (procTable ?s)" using k sup_okD(1, 3) [OF sok] by simp
  have "datain (p_chan (procTable s' ! j)) = datain (p_chan (procTable ?s ! j))" for j
    using s'(1) kl by (cases "j = nat k") simp_all
  then have "procFindBySocket s' fd = procFindBySocket ?s fd"
    unfolding procFindBySocket_def s'(2) using s'(1) by (intro find_from_same) simp_all
  moreover have "clients s' = (clients ?s)[nat k := ?cp\<lparr>active := a\<rparr>]" by (simp add: clients_def s' take_update_swap)
  then have "set (clients s') \<subseteq> insert (?cp\<lparr>active := a\<rparr>) (set (clients ?s))" using set_update_subset_insert by metis
  moreover have "short_line (?cp\<lparr>active := a\<rparr>)" using t nth_clients(3) [OF sok k] by (simp add: tended_def short_line_def)
  moreover have "arr_get (procTable s') k = Inr (?cp\<lparr>active := a\<rparr>)" "arr_get (procTable ?s) k = Inr ?cp"
    using k kl s'(1) by (simp_all add: arr_get_def)
  then have "isTriggerHost hn (v\<lparr>tabs := s'\<rparr>) k = isTriggerHost hn v k" by (simp add: isTriggerHost_def)
  ultimately show ?thesis using t ok k s'(2) by (auto simp: tended_def)
qed

lemma tended_gui: "tended hn (v\<lparr>tabs := (tabs v)\<lparr>gui := g\<rparr>\<rparr>) fd k = tended hn v fd k"
  by (simp add: tended_def procFindBySocket_def isTriggerHost_def)

lemma tended_message: "tended hn (message v a b) fd k = tended hn v fd k"
  by (simp add: message_def sup_message_gui tended_gui)

lemma tended_fields:
  "tended hn (v\<lparr>que := q\<rparr>) fd k = tended hn v fd k" "tended hn (v\<lparr>open_exp := n\<rparr>) fd k = tended hn v fd k"
  "tended hn (v\<lparr>close_exp := n\<rparr>) fd k = tended hn v fd k"
  by (simp_all add: tended_def isTriggerHost_def)

lemma core_fields:
  "core (v\<lparr>que := q\<rparr>) = core v" "core (v\<lparr>open_exp := n\<rparr>) = core v" "core (v\<lparr>close_exp := n\<rparr>) = core v" "core (v\<lparr>tabs := s\<rparr>) = core v"
  "core (message v a b) = core v"
  by (simp_all add: core_def message_def)

lemma status_run:
  assumes t: "tended hn v fd k" and st: "st = ''active'' \<or> st = ''inactive''"
  shows "\<exists>s'. upd_status now v k st = Inr (v\<lparr>tabs := s'\<rparr>) \<and> tended hn (v\<lparr>tabs := s'\<rparr>) fd k"
proof -
  let ?s = "tabs v" and ?a = "if st = ''active'' then 1 else 0 :: int"
  have k: "0 \<le> k" "k < numClients ?s" and sok: "sup_ok ?s" using t by (simp_all add: tended_def)
  have kl: "k < int (length (procTable ?s))" using k sup_okD(1, 3) [OF sok] by simp
  let ?s1 = "?s\<lparr>procTable := (procTable ?s)[nat k := (procTable ?s ! nat k)\<lparr>active := ?a\<rparr>]\<rparr>"
  have u: "upd_proc ?s k (\<lambda>cp. cp\<lparr>active := ?a\<rparr>) = Inr ?s1" using k kl by (simp add: upd_proc_def arr_in)
  have ok1: "sup_ok ?s1" by (rule upd_proc_ok [OF sok u]) (simp add: proc_ok_def)
  have t1: "tended hn (v\<lparr>tabs := ?s1\<rparr>) fd k" by (rule tended_tabs [OF t ok1]) simp_all
  then have "\<forall>cp \<in> set (clients ?s1). short_line cp" by (simp add: tended_def)
  then obtain buf g where g: "procUpdateProcessTable ?s1 = Inr (?s1\<lparr>gui := gui ?s1 @ (''procTab'', buf) # g\<rparr>)" using shown [OF ok1] by blast
  have "upd_status now v k st = Inr (v\<lparr>tabs := ?s1\<lparr>gui := gui ?s1 @ (''procTab'', buf) # g\<rparr>\<rparr>)"
    using st
  proof
    assume "st = ''active''"
    then show ?thesis using u g k(1) by (simp add: upd_status_def on_tabs_def procUpdateStatus_def starts_def)
  next
    assume "st = ''inactive''"
    then show ?thesis using u g k(1) by (simp add: upd_status_def on_tabs_def procUpdateStatus_def starts_def)
  qed
  moreover have "tended hn (v\<lparr>tabs := ?s1\<lparr>gui := x\<rparr>\<rparr>) fd k" for x using tended_gui [where v = "v\<lparr>tabs := ?s1\<rparr>" and g = x] t1 by simp
  ultimately show ?thesis by blast
qed

lemma host_message_run:
  assumes t: "tended hn v fd k" and l: "length txt < 90"
  shows "\<exists>m. host_message v k obj txt = Inr (message v obj m)"
proof -
  have k: "0 \<le> k" "k < numClients (tabs v)" and sok: "sup_ok (tabs v)" using t by (simp_all add: tended_def)
  have kl: "k < int (length (procTable (tabs v)))" using k sup_okD(1, 3) [OF sok] by simp
  have "procTable (tabs v) ! nat k \<in> set (procTable (tabs v))" using k kl by (intro nth_mem) simp
  then have "length (p_host (procTable (tabs v) ! nat k)) < 32" using sup_okD(4) [OF sok] by (simp add: proc_ok_def SZ_PHOST_def)
  then show ?thesis using k kl l by (simp add: host_message_def arr_in fit_def) blast
qed

lemma reset_transfer_run:
  assumes "sup_ok s" "0 \<le> i" "i + int n \<le> numPanConns s"
  shows "\<exists>ct. reset_transfer n i clid (connTable s) = Inr ct \<and> sup_ok (s\<lparr>connTable := ct\<rparr>)"
  using assms(2, 3)
proof (induction n arbitrary: i)
  case 0
  have "s\<lparr>connTable := connTable s\<rparr> = s" by simp
  then show ?case using assms(1) by (intro exI [of _ "connTable s"]) simp
next
  case (Suc n)
  let ?pc = "connTable s ! nat i"
  have i: "i < int (length (connTable s))" "nat i < nat (numPanConns s)" using Suc.prems sup_okD(5, 7) [OF assms(1)] by simp_all
  have g: "arr_get (connTable s) i = Inr ?pc" using Suc.prems i by (simp add: arr_in)
  show ?case
  proof (cases "pan ?pc = Some clid")
    case True
    let ?ct = "(connTable s)[nat i := ?pc\<lparr>bytesTransferred := 0\<rparr>]"
    have a: "arr_set (connTable s) i (?pc\<lparr>bytesTransferred := 0\<rparr>) = Inr ?ct" using Suc.prems i by (simp add: arr_in)
    have "conn_ok ?pc" using arr_get_mem [OF g] sup_okD(8) [OF assms(1)] by blast
    moreover have "collector ?pc \<noteq> None" using sup_okD(9) [OF assms(1)] i(2) by blast
    ultimately have "sup_ok (s\<lparr>connTable := ?ct\<rparr>)" using set_conn_ok [OF assms(1) a] by (simp add: conn_ok_def)
    then show ?thesis using g a True by simp
  next
    case False
    then show ?thesis using Suc.IH [of "i + 1"] Suc.prems g by simp
  qed
qed

lemma tended_conns:
  assumes "tended hn v fd k" "sup_ok ((tabs v)\<lparr>connTable := ct\<rparr>)"
  shows "tended hn (v\<lparr>tabs := (tabs v)\<lparr>connTable := ct\<rparr>\<rparr>) fd k"
  using assms by (simp add: tended_def procFindBySocket_def isTriggerHost_def clients_def)

lemma open_run:
  assumes t: "tended hn v fd k" and q: "pq_inv (que v)" "length (items (que v)) < SZ_PROC_QUEUE"
  shows "\<exists>v'. open_exposure now hn v k e = Inr v' \<and> tended hn v' fd k \<and> pq_inv (que v') \<and> items (que v') = items (que v) @ [(e, PQ_START)]
     \<and> core v' = core v"
proof -
  obtain s1 where 1: "upd_status now v k ''active'' = Inr (v\<lparr>tabs := s1\<rparr>)" "tended hn (v\<lparr>tabs := s1\<rparr>) fd k" using status_run [OF t] by blast
  obtain m where 2: "host_message (v\<lparr>tabs := s1\<rparr>) k ''expStat'' '' 1'' = Inr (message (v\<lparr>tabs := s1\<rparr>) ''expStat'' m)"
    using host_message_run [OF 1(2), of "'' 1''"] by auto
  let ?v2 = "message (v\<lparr>tabs := s1\<rparr>) ''expStat'' m"
  have t2: "tended hn ?v2 fd k" using 1(2) by (simp add: tended_message)
  have ok2: "sup_ok (tabs ?v2)" using t2 by (simp add: tended_def)
  obtain ct where 3: "reset_transfer (nat (numPanConns (tabs ?v2))) 0 k (connTable (tabs ?v2)) = Inr ct" "sup_ok ((tabs ?v2)\<lparr>connTable := ct\<rparr>)"
    using reset_transfer_run [OF ok2, of 0 "nat (numPanConns (tabs ?v2))" k] sup_okD(6) [OF ok2] by auto
  let ?v3 = "?v2\<lparr>tabs := (tabs ?v2)\<lparr>connTable := ct\<rparr>, open_exp := open_exp ?v2 + 1\<rparr>"
  have t3: "tended hn ?v3 fd k" using tended_conns [OF t2 3(2)] by (simp add: tended_fields)
  have q3: "que ?v3 = que v" "core ?v3 = core v" by (simp_all add: core_fields) (simp_all add: message_def)
  obtain q' where 4: "pqAdd now (que v) e = Inr q'" "pq_inv q'" "items q' = items (que v) @ [(e, PQ_START)]"
    using pqAdd_items [OF q, of now e] by blast
  let ?v4 = "?v3\<lparr>que := q', close_exp := 0\<rparr>"
  have "open_exposure now hn v k e = Inr (message ?v4 ''rtdStat'' (if stat_enable ?v4 then ''clear'' else ''sclear''))"
    using 1(1) 2 3(1) t3 4(1) q3(1) unfolding open_exposure_def by (simp add: Let_def tended_def on_que_def)
  moreover have "tended hn (message ?v4 a b) fd k" "core (message ?v4 a b) = core v" for a b
    using t3 q3(2) by (simp_all add: tended_message tended_fields core_fields)
  moreover have "que (message ?v4 a b) = q'" for a b by (simp add: message_def)
  ultimately show ?thesis using 4 by (intro exI [of _ "message ?v4 ''rtdStat'' (if stat_enable ?v4 then ''clear'' else ''sclear'')"]) simp
qed

lemma close_run:
  assumes t: "tended hn v fd k" and q: "pq_inv (que v)" "items (que v) = (e, st) # xs"
  shows "\<exists>v'. close_exposure now hn v k e = Inr v' \<and> tended hn v' fd k \<and> pq_inv (que v') \<and> items (que v') = (e, PQ_READY) # xs \<and> core v' = core v"
proof -
  obtain s1 where 1: "upd_status now v k ''inactive'' = Inr (v\<lparr>tabs := s1\<rparr>)" "tended hn (v\<lparr>tabs := s1\<rparr>) fd k" using status_run [OF t] by blast
  let ?v2 = "v\<lparr>tabs := s1, close_exp := close_exp v + 1\<rparr>"
  have t2: "tended hn ?v2 fd k" using 1(2) by (simp add: tended_fields)
  obtain q' where 3: "pqSetStat (que v) e PQ_READY = Inr q'" "pq_inv q'" "items q' = (e, PQ_READY) # xs"
    using set_head_pq [OF q, of PQ_READY] by (auto simp: pq_status_defs)
  let ?v3 = "message (?v2\<lparr>que := q'\<rparr>) ''dataFlag'' ''waiting 1''"
  have t3: "tended hn ?v3 fd k" "core ?v3 = core v" using t2 by (simp_all add: tended_message tended_fields core_fields)
  obtain m where m: "host_message ?v3 k ''expStat'' '' 0'' = Inr (message ?v3 ''expStat'' m)" using host_message_run [OF t3(1), of "'' 0''"] by auto
  have "close_exposure now hn v k e = Inr (message ?v3 ''expStat'' m)"
    using 1(1) t2 3(1) m unfolding close_exposure_def by (simp add: Let_def tended_def on_que_def)
  moreover have "que (message ?v3 a b) = q'" for a b by (simp add: message_def)
  ultimately show ?thesis using 3 t3 by (intro exI [of _ "message ?v3 ''expStat'' m"]) (simp add: tended_message core_fields)
qed

section \<open>The managers' side\<close>

lemma atof_blank: "atof (CHR '' '' # s) = atof s"
  by (simp add: atof_def isspace_def)

lemma round_even_int [simp]: "round_even (of_int n) = n"
  by (simp add: round_even_def Let_def)

text \<open>The id that has been read is written again in the same way.\<close>

lemma fixed_again: "0 \<le> x \<Longrightarrow> fixed 6 (of_int (round_even (x * 10 ^ 6)) / 10 ^ 6) = fixed 6 x"
  using round_even_pos [of "x * 10 ^ 6"] by (simp add: fixed_def Let_def)

lemma fixed_atof: "0 \<le> x \<Longrightarrow> t = [] \<or> \<not> isdigit (hd t) \<Longrightarrow> fixed 6 (atof (fixed 6 x @ t)) = fixed 6 x"
  by (simp only: atof_fixed fixed_again)

text \<open>What the supervisor sends when an exposure begins to be processed, and when all managers have sent its pages.\<close>

definition begin_msgs :: "int \<Rightarrow> rat \<Rightarrow> outmsg list" where
  "begin_msgs sq e = [Bcast ''PXF'' (''seqno '' @ show_int sq) MB_SET, Bcast ''SMCMgr'' (''option seqno '' @ show_int sq) MB_SET,
     Bcast ''SMCMgr'' (''process '' @ fixed 6 e) MB_START]"

definition feed_msgs :: "int \<Rightarrow> int \<Rightarrow> rat \<Rightarrow> outmsg list" where
  "feed_msgs sq tid e = [Bcast ''PXF'' (''seqno '' @ show_int sq) MB_SET, Bcast ''PXF'' (''dca_tid '' @ show_int tid) MB_START,
     Bcast ''PXF'' (''process '' @ fixed 6 e) MB_START]"

text \<open>What a report of a manager leaves alone.\<close>

definition alike :: "superv \<Rightarrow> superv \<Rightarrow> bool" where
  "alike v v' \<longleftrightarrow> que v' = que v \<and> numProcMgrs v' = numProcMgrs v \<and> imgSeqNo v' = imgSeqNo v \<and> dca_tid v' = dca_tid v
     \<and> rawDir v' = rawDir v \<and> started v' = started v"

lemma alike_refl [simp]: "alike v v"
  by (simp add: alike_def)

lemma alike_trans: "alike u v \<Longrightarrow> alike v w \<Longrightarrow> alike u w"
  by (simp add: alike_def)

lemma alike_updates:
  "alike v (w\<lparr>npxf_started := n\<rparr>) = alike v w" "alike v (w\<lparr>dca_done := n\<rparr>) = alike v w"
  "alike v (message w a b) = alike v w"
  by (auto simp: alike_def started_def message_def)

lemma alike_send: "\<not> is_start m \<Longrightarrow> alike v (send w m) = alike v w"
  by (auto simp: alike_def) (auto simp: send_def)

text \<open>The messages of the managers and the data capture agent.\<close>

definition from_all :: "nat \<Rightarrow> string \<Rightarrow> (string \<times> event) list \<Rightarrow> bool" where
  "from_all n msg es \<longleftrightarrow> length es = n \<and> (\<forall>x \<in> set es. \<exists>sender. snd x = From_Bus sender MB_SET msg)"

lemma smc_done_message: "0 \<le> e \<Longrightarrow> handle now hn (From_Bus b MB_SET (''process smc done '' @ fixed 6 e)) v = smc_done v (atof (fixed 6 e))"
  by (simp add: supIOHandler_def mb_defs handle_set_def starts_def set_process_def str_from_def)

lemma clean_done_message: "handle now hn (From_Bus b MB_SET (''clean done '' @ fixed 6 e)) v = set_clean_done v (''clean done '' @ fixed 6 e)"
  by (simp add: supIOHandler_def mb_defs handle_set_def starts_def)

lemma smc_done_run:
  assumes e: "0 \<le> e" "length (fixed 6 e) < 30"
  shows "\<exists>v'. smc_done v (atof (fixed 6 e)) = Inr v' \<and> alike v v' \<and> dca_done v' = dca_done v
     \<and> npxf_started v' = (if npxf_started v + 1 \<ge> numProcMgrs v then npxf_started v + 1 - numProcMgrs v else npxf_started v + 1)
     \<and> sent v' = sent v @ (if npxf_started v + 1 \<ge> numProcMgrs v then feed_msgs (imgSeqNo v) (dca_tid v) e else [])"
proof -
  have "fixed 6 (atof (fixed 6 e)) = fixed 6 e" using fixed_atof [OF e(1), of "[]"] by simp
  then have "fit 128 (''process '' @ fixed 6 (atof (fixed 6 e))) = Inr (''process '' @ fixed 6 e)" using e(2) by (simp add: fit_def)
  then show ?thesis unfolding smc_done_def Let_def by (auto simp: alike_send alike_updates kinds) (auto simp: send_def feed_msgs_def)
qed

lemma all_sent:
  assumes e: "0 \<le> e" "length (fixed 6 e) < 30"
  shows "from_all n (''process smc done '' @ fixed 6 e) es \<Longrightarrow> 0 \<le> npxf_started v \<Longrightarrow> npxf_started v + int n = numProcMgrs v \<Longrightarrow> 0 < n \<Longrightarrow>
     \<exists>v'. run hn es v = Inr v' \<and> alike v v' \<and> dca_done v' = dca_done v \<and> npxf_started v' = 0
       \<and> sent v' = sent v @ feed_msgs (imgSeqNo v) (dca_tid v) e \<and> (\<forall>m < n. \<exists>u. run hn (take m es) v = Inr u \<and> sent u = sent v)"
proof (induction es arbitrary: v n)
  case (Cons x es)
  obtain b where x: "snd x = From_Bus b MB_SET (''process smc done '' @ fixed 6 e)" using Cons.prems(1) by (auto simp: from_all_def)
  have es: "from_all (n - 1) (''process smc done '' @ fixed 6 e) es" using Cons.prems(1) by (auto simp: from_all_def)
  obtain v1 where v1: "smc_done v (atof (fixed 6 e)) = Inr v1" "alike v v1" "dca_done v1 = dca_done v"
     "npxf_started v1 = (if npxf_started v + 1 \<ge> numProcMgrs v then npxf_started v + 1 - numProcMgrs v else npxf_started v + 1)"
     "sent v1 = sent v @ (if npxf_started v + 1 \<ge> numProcMgrs v then feed_msgs (imgSeqNo v) (dca_tid v) e else [])"
    using smc_done_run [OF e] by blast
  have h: "handle (fst x) hn (snd x) v = Inr v1" unfolding x smc_done_message [OF e(1)] by (rule v1(1))
  have n1: "numProcMgrs v1 = numProcMgrs v" using v1(2) by (simp add: alike_def)
  show ?case
  proof (cases "n = 1")
    case True
    then have "es = []" using Cons.prems(1) by (simp add: from_all_def)
    then show ?thesis using h v1(2, 3) v1(4, 5) Cons.prems(2-4) True by simp
  next
    case False
    then have lt: "npxf_started v + 1 < numProcMgrs v" "0 < n - 1" using Cons.prems(3, 4) by linarith+
    then have s1: "npxf_started v1 = npxf_started v + 1" "sent v1 = sent v" using v1(4, 5) by simp_all
    have "0 \<le> npxf_started v1" "npxf_started v1 + int (n - 1) = numProcMgrs v1" using s1(1) n1 lt Cons.prems(2-4) by linarith+
    from Cons.IH [OF es this lt(2)] obtain v' where v': "run hn es v1 = Inr v'" "alike v1 v'" "dca_done v' = dca_done v1" "npxf_started v' = 0"
      "sent v' = sent v1 @ feed_msgs (imgSeqNo v1) (dca_tid v1) e" "\<forall>m < n - 1. \<exists>u. run hn (take m es) v1 = Inr u \<and> sent u = sent v1" by blast
    have "\<exists>u. run hn (take m (x # es)) v = Inr u \<and> sent u = sent v" if "m < n" for m
    proof (cases m)
      case (Suc m')
      then show ?thesis using h v'(6) s1(2) that by simp
    qed simp
    moreover have "imgSeqNo v1 = imgSeqNo v" "dca_tid v1 = dca_tid v" using v1(2) by (simp_all add: alike_def)
    ultimately show ?thesis using h v1(2, 3) v' s1(2) alike_trans [OF v1(2) v'(2)] by (intro exI [of _ v']) simp
  qed
qed (simp add: from_all_def)

lemma clean_done_run:
  assumes e: "1 \<le> e" and q: "pq_inv (que v)" "items (que v) = []"
  shows "\<exists>v'. set_clean_done v (''clean done '' @ fixed 6 e) = Inr v' \<and> alike v v' \<and> dca_done v' = dca_done v + 1
     \<and> npxf_started v' = npxf_started v \<and> sent v' = sent v @ [Bcast ''SMCMgr'' ''segList'' MB_GET_STATUS]"
proof -
  have "\<bar>e - atof (fixed 6 e @ [])\<bar> \<le> 1 / 2000000" using text_id [of e "[]"] e by simp
  then have "1 / 2 < atof (fixed 6 e)" using e unfolding append_Nil2 abs_le_iff by linarith
  then have "valid_id (atof (fixed 6 e))" by (simp add: valid_id_def smcEqualExpID_iff)
  then have "pqSetStat (que v) (atof (fixed 6 e)) PQ_AVAILABLE = Inr (que v)" using pqSetStat_none [OF q(1)] q(2) by simp
  then show ?thesis
    by (simp add: set_clean_done_def str_from_def atof_blank on_que_def Let_def alike_updates alike_send kinds) (simp add: send_def)
qed

lemma all_clean:
  assumes e: "1 \<le> e"
  shows "from_all n (''clean done '' @ fixed 6 e) es \<Longrightarrow> pq_inv (que v) \<Longrightarrow> items (que v) = [] \<Longrightarrow>
     \<exists>v'. run hn es v = Inr v' \<and> alike v v' \<and> dca_done v' = dca_done v + int n \<and> npxf_started v' = npxf_started v
       \<and> sent v' = sent v @ replicate n (Bcast ''SMCMgr'' ''segList'' MB_GET_STATUS)"
proof (induction es arbitrary: v n)
  case Nil
  then show ?case by (simp add: from_all_def)
next
  case (Cons x es)
  obtain b where x: "snd x = From_Bus b MB_SET (''clean done '' @ fixed 6 e)" using Cons.prems(1) by (auto simp: from_all_def)
  have es: "from_all (n - 1) (''clean done '' @ fixed 6 e) es" "0 < n" using Cons.prems(1) by (auto simp: from_all_def)
  obtain v1 where v1: "set_clean_done v (''clean done '' @ fixed 6 e) = Inr v1" "alike v v1" "dca_done v1 = dca_done v + 1"
     "npxf_started v1 = npxf_started v" "sent v1 = sent v @ [Bcast ''SMCMgr'' ''segList'' MB_GET_STATUS]"
    using clean_done_run [OF e Cons.prems(2, 3)] by blast
  have h: "handle (fst x) hn (snd x) v = Inr v1" unfolding x clean_done_message by (rule v1(1))
  have q1: "que v1 = que v" using v1(2) by (simp add: alike_def)
  obtain v' where "run hn es v1 = Inr v'" "alike v1 v'" "dca_done v' = dca_done v1 + int (n - 1)" "npxf_started v' = npxf_started v1"
      "sent v' = sent v1 @ replicate (n - 1) (Bcast ''SMCMgr'' ''segList'' MB_GET_STATUS)"
    using Cons.IH [OF es(1), of v1] Cons.prems(2, 3) unfolding q1 by blast
  moreover obtain n' where "n = Suc n'" using es(2) by (cases n) auto
  ultimately show ?case using h v1(2-5) alike_trans by fastforce
qed


lemma fixed_word: "0 \<le> e \<Longrightarrow> list_all (\<lambda>c. \<not> isspace c) (fixed 6 e)"
proof -
  have "list_all isdigit s \<Longrightarrow> list_all (\<lambda>c. \<not> isspace c) s" for s using isdigit_not by (induction s) auto
  then show "0 \<le> e \<Longrightarrow> ?thesis" using show_nat_digits by (simp add: fixed_def Let_def list_all_replicate) (auto simp: isspace_def list_all_iff)
qed

text \<open>The data capture agent has written the file of the exposure.\<close>

lemma dca_done_run:
  assumes e: "1 \<le> e" "length (fixed 6 e) < 30" and f: "CHR ''/'' \<in> set f" "length f < 40"
    and r: "rawDir v \<noteq> []" "length (rawDir v) < 40" and q: "pq_inv (que v)" "items (que v) = (e, st) # xs"
  shows "\<exists>v'. handle now hn (From_Bus b MB_SET (''dca_done '' @ fixed 6 e @ ''  '' @ f)) v = Inr v' \<and> pq_inv (que v') \<and> items (que v') = xs
     \<and> dca_done v' = dca_done v \<and> numProcMgrs v' = numProcMgrs v \<and> imgSeqNo v' = imgSeqNo v \<and> npxf_started v' = npxf_started v
     \<and> started v' = started v \<and> sent v' = sent v @ [Bcast ''SMCMgr'' (''ExpID '' @ fixed 6 e) MB_FINISH]"
proof -
  let ?t = "fixed 6 e @ ''  '' @ f" and ?fname = "CHR ''/'' # rev (takeWhile (\<lambda>c. c \<noteq> CHR ''/'') (rev f))"
  have d: "smcEqualExpID e (atof ?t)" using text_id [of e "''  '' @ f"] e by (simp add: isdigit_def)
  have a: "fixed 6 (atof ?t) = fixed 6 e"
    by (rule fixed_atof) (use e in \<open>simp_all add: isdigit_def\<close>)
  obtain q' where q': "pqSetStat (que v) (atof ?t) PQ_DONE = Inr q'" "pq_inv q'" "items q' = xs"
    using pqSetStat_items [OF q(1), of 0 "atof ?t" PQ_DONE] q(2) d by auto
  have l: "last_slash (''dca_done '' @ ?t) = Inr ?fname"
    using f(1) by (simp add: last_slash_def takeWhile_append1)
  have fl: "length ?fname < 41" using f(2) length_takeWhile_le [of "\<lambda>c. c \<noteq> CHR ''/''" "rev f"] by simp
  have w: "blank_word ?t = Inr (fixed 6 e)"
    using takeWhile_all_hd [OF fixed_word, of e "''  '' @ f"] e(1) by (simp add: blank_word_def isspace_def)
  let ?v1 = "send (v\<lparr>que := q'\<rparr>) (Bcast ''SMCMgr'' (''ExpID '' @ fixed 6 e) MB_FINISH)"
  let ?m1 = "fixed 6 e @ '' '' @ rawDir v @ (if last (rawDir v) = CHR ''/'' then [] else ''/'') @ ?fname" and ?m2 = "?t @ '' '' @ rawDir v"
  have fits: "fit 128 (''ExpID '' @ fixed 6 e) = Inr (''ExpID '' @ fixed 6 e)" "fit SZ_FNAME ?fname = Inr ?fname" "fit 1024 (fixed 6 e) = Inr (fixed 6 e)"
    "fit 128 ?m1 = Inr ?m1" "fit 128 ?m2 = Inr ?m2" using fl e(2) f(2) r(2) by (simp_all add: fit_def SZ_FNAME_def)
  have "str_from (''dca_done '' @ ?t) 9 = Inr ?t" by (simp add: str_from_def)
  then have "set_dca_done v (''dca_done '' @ ?t) = Inr (message (message ?v1 ''dcaStat'' ?m1) ''dca_done'' ?m2)"
    unfolding set_dca_done_def using q'(1) r(1) by (simp only: l w a fits bind_res_simps Let_def on_que_def simp_thms if_False) (simp add: fits [simplified] send_def message_def)
  moreover have "handle now hn (From_Bus b MB_SET (''dca_done '' @ ?t)) v = set_dca_done v (''dca_done '' @ ?t)"
    by (simp add: supIOHandler_def mb_defs handle_set_def starts_def)
  ultimately show ?thesis using q'(2, 3) by (simp add: kinds) (simp add: send_def message_def started_def)
qed

section \<open>The whole exposure\<close>

lemma next_run:
  assumes e: "0 < e" and q: "pq_inv (que v)" "items (que v) = [(e, PQ_READY)]" and n: "0 \<le> numProcMgrs v"
    and d: "dca_done v < 0 \<or> numProcMgrs v \<le> dca_done v"
  shows "\<exists>v'. supProcNext v = Inr v' \<and> pq_inv (que v') \<and> items (que v') = [(e, PQ_ACTIVE)] \<and> numProcMgrs v' = numProcMgrs v
     \<and> dca_done v' = max 0 (dca_done v - numProcMgrs v) \<and> imgSeqNo v' = imgSeqNo v + 1 \<and> npxf_started v' = npxf_started v
     \<and> rawDir v' = rawDir v \<and> dca_tid v' = dca_tid v \<and> started v' = started v + 1 \<and> sent v' = sent v @ begin_msgs (imgSeqNo v + 1) e"
proof -
  have p: "pqNext (que v) = e" using pqNext_items [OF q(1)] q(2) by simp
  obtain q' where q': "pqSetStat (que v) e PQ_ACTIVE = Inr q'" "pq_inv q'" "items q' = [(e, PQ_ACTIVE)]"
    using set_head_pq [OF q, of PQ_ACTIVE] by (auto simp: pq_status_defs)
  show ?thesis using q' e d unfolding supProcNext_def p Let_def
    by (simp add: on_que_def kinds) (simp add: send_def message_def started_def is_start_def begin_msgs_def mb_defs)
qed

lemma open_message: "handle now hn (From_Client fd (DCA_OPEN OR DCA_EXP) e) v = bind_res (procFindBySocket (tabs v) fd) (\<lambda>clid.
    if clid < 0 then Inr v else open_exposure now hn v clid e)"
  by (simp add: superHandleClient_def dca_defs cong: if_cong)

lemma close_message: "handle now hn (From_Client fd (DCA_CLOSE OR DCA_EXP) e) v = bind_res (procFindBySocket (tabs v) fd) (\<lambda>clid.
    if clid < 0 then Inr v else close_exposure now hn v clid e)"
  by (simp add: superHandleClient_def dca_defs cong: if_cong)

lemma run_app: "run hn (es @ fs) v = bind_res (run hn es v) (run hn fs)"
  by (induction es arbitrary: v) (simp_all add: bind_res_def split: sum.splits)

text \<open>From the message that opens the exposure to the start of its processing.\<close>

lemma taken:
  assumes t: "tended hn v fd k" and q: "pq_inv (que v)" "items (que v) = []" and e: "0 < e"
    and n: "0 < numProcMgrs v" "dca_done v < 0 \<or> numProcMgrs v \<le> dca_done v"
    and es: "map snd es = [From_Client fd (DCA_OPEN OR DCA_EXP) e, From_Client fd (DCA_CLOSE OR DCA_EXP) e, Proc_Next]"
  shows "\<exists>v'. run hn es v = Inr v' \<and> pq_inv (que v') \<and> items (que v') = [(e, PQ_ACTIVE)] \<and> numProcMgrs v' = numProcMgrs v
     \<and> dca_done v' = max 0 (dca_done v - numProcMgrs v) \<and> imgSeqNo v' = imgSeqNo v + 1 \<and> npxf_started v' = npxf_started v
     \<and> rawDir v' = rawDir v \<and> dca_tid v' = dca_tid v \<and> started v' = started v + 1 \<and> sent v' = sent v @ begin_msgs (imgSeqNo v + 1) e"
proof -
  obtain t1 t2 t3 where es': "es = [(t1, From_Client fd (DCA_OPEN OR DCA_EXP) e), (t2, From_Client fd (DCA_CLOSE OR DCA_EXP) e), (t3, Proc_Next)]"
    using es by (auto simp: Cons_eq_map_conv)
  have len: "length (items (que v)) < SZ_PROC_QUEUE" using q(2) by (simp only: list.size) simp
  obtain v1 where 1: "open_exposure t1 hn v k e = Inr v1" "tended hn v1 fd k" "pq_inv (que v1)" "items (que v1) = [(e, PQ_START)]" "core v1 = core v"
    using open_run [OF t q(1) len, where now = t1 and e = e] q(2) by auto
  obtain v2 where 2: "close_exposure t2 hn v1 k e = Inr v2" "tended hn v2 fd k" "pq_inv (que v2)" "items (que v2) = [(e, PQ_READY)]" "core v2 = core v1"
    using close_run [OF 1(2-4), where now = t2] by auto
  have c: "dca_done v2 = dca_done v" "numProcMgrs v2 = numProcMgrs v" "imgSeqNo v2 = imgSeqNo v" "npxf_started v2 = npxf_started v"
    "rawDir v2 = rawDir v" "started v2 = started v" "dca_tid v2 = dca_tid v" "sent v2 = sent v" using 1(5) 2(5) by (simp_all add: core_def started_def)
  obtain v3 where 3: "supProcNext v2 = Inr v3" "pq_inv (que v3) \<and> items (que v3) = [(e, PQ_ACTIVE)] \<and> numProcMgrs v3 = numProcMgrs v2
     \<and> dca_done v3 = max 0 (dca_done v2 - numProcMgrs v2) \<and> imgSeqNo v3 = imgSeqNo v2 + 1 \<and> npxf_started v3 = npxf_started v2
     \<and> rawDir v3 = rawDir v2 \<and> dca_tid v3 = dca_tid v2 \<and> started v3 = started v2 + 1 \<and> sent v3 = sent v2 @ begin_msgs (imgSeqNo v2 + 1) e"
    using next_run [OF e 2(3, 4)] n unfolding c(1, 2) by auto
  have "handle t1 hn (From_Client fd (DCA_OPEN OR DCA_EXP) e) v = Inr v1" "handle t2 hn (From_Client fd (DCA_CLOSE OR DCA_EXP) e) v1 = Inr v2"
    using t 1(1, 2) 2(1) unfolding open_message close_message by (simp_all add: tended_def)
  then have "run hn es v = Inr v3" unfolding es' using 3(1) by (simp del: handle.simps(2))
  then show ?thesis using 3(2) unfolding c by blast
qed


lemma superv0_tended: "tended None superv0 0 0"
proof -
  have t: "procTable sup0 ! 0 = col0 4100" "0 < length (procTable sup0)" "numClients sup0 = 2" "datain (p_chan (col0 4100)) = 0"
    by (simp_all add: sup0_def col0_def zero_proc_def zero_chan_def)
  then have "procFindBySocket sup0 0 = Inr 0" "arr_get (procTable sup0) 0 = Inr (col0 4100)"
    by (simp_all add: procFindBySocket_def arr_get_def numeral_2_eq_2)
  moreover have "strcaseeq ''dhs-1'' (p_host (col0 4100))" by (simp add: strcaseeq_def col0_def)
  ultimately show ?thesis using sup0_ok col0_short t(3) by (simp add: tended_def superv0_def isTriggerHost_def)
qed


section \<open>Messages over the bus\<close>

text \<open>
  an exposure id that one program writes into a message with six decimals and another reads
  back is the same exposure, and differs by at most half a unit of the last decimal.
\<close>

theorem exposure_id_text:
  assumes "0 \<le> x" "t = [] \<or> \<not> isdigit (hd t)"
  shows "smcEqualExpID x (atof (fixed 6 x @ t)) \<and> \<bar>x - atof (fixed 6 x @ t)\<bar> \<le> 1 / 2000000"
  by (rule text_id [OF assms])

theorem exposure_id_text_witness: "smcEqualExpID (12345 / 7) (atof (fixed 6 (12345 / 7) @ '' /data''))"
  using exposure_id_text [of "12345 / 7" "'' /data''"] by (simp add: isdigit_def)

lemma scan_show_int:
  assumes "r = [] \<or> \<not> isdigit (hd r)"
  shows "scan_int (show_int n @ r) = Some (n, r)"
proof -
  have *: "\<exists>c s'. show_nat m = c # s' \<and> isdigit c" for m
    using show_nat_digits [of m] by (cases "show_nat m") auto
  have t: "takeWhile isdigit (show_nat m @ r) = show_nat m" for m by (rule takeWhile_digits [OF show_nat_digits assms])
  show ?thesis
  proof (cases "n < 0")
    case True
    then show ?thesis using t [of "nat (- n)"] by (simp add: scan_int_def show_int_def isspace_def digits_value_show_nat)
  next
    case False
    obtain c s' where c: "show_nat (nat n) = c # s'" "isdigit c" using * by blast
    note nc = isdigit_not [OF c(2)]
    have "dropWhile isspace (show_nat (nat n) @ r) = show_nat (nat n) @ r" using c nc by simp
    moreover have "hd (show_nat (nat n) @ r) = c" using c by simp
    ultimately show ?thesis using False nc t [of "nat n"] unfolding scan_int_def show_int_def
      by (simp add: digits_value_show_nat)
  qed
qed

lemma connect_directives:
  "directives connect_format = map Lit ''{'' @ Blank # map Lit ''tid='' @ Dir_d # Blank # map Lit ''who='' @ Dir_s # Blank # map Lit ''host='' @ Dir_s
     # Blank # map Lit ''pid='' @ Dir_d # Blank # map Lit ''}''"
  by code_simp

lemma sscanf_word:
  assumes "w \<noteq> []" "list_all (\<lambda>c. \<not> isspace c) w"
  shows "sscanf (Dir_s # f) (w @ CHR '' '' # t) = Word w # sscanf f (CHR '' '' # t)"
proof -
  have "dropWhile isspace (w @ CHR '' '' # t) = w @ CHR '' '' # t" using assms by (cases w) auto
  moreover have "takeWhile (\<lambda>c. \<not> isspace c) (w @ CHR '' '' # t) = w" by (rule takeWhile_all_hd [OF assms(2)]) (simp add: isspace_def)
  ultimately show ?thesis using assms(1) by (simp only: sscanf.simps Let_def if_False append_eq_conv_conj) simp
qed

lemma sscanf_num: "r = [] \<or> \<not> isdigit (hd r) \<Longrightarrow> sscanf (Dir_d # f) (show_int n @ r) = Num n # sscanf f r"
  using scan_show_int by simp

text \<open>
  C20: the supervisor reads from the connect message of a client the task id, the name, the host
  and the process id that the client wrote, whenever name and host are words.
\<close>

theorem connect_message_roundtrip:
  assumes "who \<noteq> []" "list_all (\<lambda>c. \<not> isspace c) who" "host \<noteq> []" "list_all (\<lambda>c. \<not> isspace c) host"
  shows "mbParseConnectMsg (connect_msg tid who host pid) = (0, Some tid, Some who, Some host, Some pid)"
  using assms unfolding mbParseConnectMsg_def connect_msg_def connect_directives
  by (simp add: sscanf_word sscanf_num isspace_def isdigit_def del: sscanf.simps(4, 5))

theorem connect_message_roundtrip_witness:
  "mbParseConnectMsg (connect_msg 262147 ''SMCMgr'' ''dhs-1.noao.edu'' (-5)) = (0, Some 262147, Some ''SMCMgr'', Some ''dhs-1.noao.edu'', Some (-5))"
  by (rule connect_message_roundtrip) (simp_all add: isspace_def)

end
