(* ===== verification/Smc_Manager_Props.thy ===== *)
theory Smc_Manager_Props
  imports Smc_Manager Sm_Cache_Props Sup_Cycle
begin

text \<open>
  Correctness of the SMC manager: finishing an exposure gives back exactly its pages, processing it
  leaves the pages as they are for the others, and the manager answers the supervisor's messages
  with the reports that the supervisor waits for.
\<close>

section \<open>Attaching and detaching a page\<close>

text \<open>The caller is in the page's table of processes, or finds a place there.\<close>

definition room :: "env \<Rightarrow> smcPage \<Rightarrow> bool" where
  "room e p \<longleftrightarrow> me e \<noteq> 0 \<and> alive e (me e) \<and> state_ok (alive e) (pstate p)
     \<and> (view (pstate p) (me e) = None \<longrightarrow> \<not> full (pstate p))"

text \<open>The page has a segment that no process has attached.\<close>

definition backed :: "env \<Rightarrow> kernel \<Rightarrow> smcPage \<Rightarrow> bool" where
  "backed e k p \<longleftrightarrow> memKey p \<noteq> 0 \<and> pg_size p \<noteq> 0 \<and> lock_ok e (lockFile p)
     \<and> (\<exists>s. segs k (memKey p) = Some s \<and> unat (pg_size p) \<le> sg_size s \<and> 123 \<le> sg_size s \<and> sg_nattch s = 0)"

definition idle :: "env \<Rightarrow> kernel \<Rightarrow> smcPage \<Rightarrow> bool" where
  "idle e k p \<longleftrightarrow> room e p \<and> backed e k p \<and> SEG_ATTACHED e p \<le> 0"

definition fresh :: "kernel \<Rightarrow> bool" where
  "fresh k \<longleftrightarrow> 0 < next_addr k \<and> (\<forall>a \<ge> next_addr k. maps k a = None)"

definition mapped :: "kernel \<Rightarrow> smcPage \<Rightarrow> kernel" where
  "mapped k p = k\<lparr>next_addr := next_addr k + 1, maps := (maps k)(next_addr k := Some (memKey p)),
     segs := (segs k)(memKey p := map_option (\<lambda>s. s\<lparr>sg_nattch := sg_nattch s + 1\<rparr>) (segs k (memKey p))),
     lockfiles := (lockfiles k)(lockFile p := True)\<rparr>"

definition joined_state :: "env \<Rightarrow> kernel \<Rightarrow> smcPage \<Rightarrow> smState_t" where
  "joined_state e k p = pt.register (alive e) (me e) (pstate p) (now e) (next_addr k) (smc_ptr e)"

lemma joined_state:
  assumes "room e p"
  shows "state_ok (alive e) (joined_state e k p)" "smStateGetAddr (me e) (joined_state e k p) = next_addr k"
    "smStateGetAttached (me e) (joined_state e k p) = 1" "view (joined_state e k p) (me e) \<noteq> None"
proof -
  have r: "state_ok (alive e) (pstate p)" "me e \<noteq> 0" "alive e (me e)" "view (pstate p) (me e) \<noteq> None \<or> \<not> full (pstate p)"
    using assms by (auto simp: room_def)
  show "state_ok (alive e) (joined_state e k p)" unfolding joined_state_def by (rule pt.register_look(1) [OF r])
  obtain s where "view (joined_state e k p) (me e) = Some s" "si_addr s = next_addr k" "si_attached s = 1"
    using pt.register_look(2) [OF r] unfolding joined_state_def by blast
  then show "smStateGetAddr (me e) (joined_state e k p) = next_addr k" "smStateGetAttached (me e) (joined_state e k p) = 1"
    "view (joined_state e k p) (me e) \<noteq> None" using state_get_view(5, 7) [OF r(2)] by simp_all
qed

lemma attach_run:
  assumes "backed e k (pdata c ! i)"
  shows "smcAttach e c k i = (set_page c i ((pdata c ! i)\<lparr>pstate := joined_state e k (pdata c ! i)\<rparr>), mapped k (pdata c ! i))"
  using assms by (auto simp: backed_def smcAttach_def smUtilAttach_def Let_def mapped_def joined_state_def pt.register_def)

lemma unlock_same:
  "memKey (smcUnlock e p) = memKey p" "lockFile (smcUnlock e p) = lockFile p" "pg_size (smcUnlock e p) = pg_size p"
  "expID (smcUnlock e p) = expID p" "colID (smcUnlock e p) = colID p" "pg_type (smcUnlock e p) = pg_type p" "cpid (smcUnlock e p) = cpid p"
  "initialized (smcUnlock e p) = initialized p" "ac_locked (smcUnlock e p) = False"
  by (simp_all add: smcUnlock_def Let_def)

lemma unlock_addr: "me e \<noteq> 0 \<Longrightarrow> SEG_ADDR e (smcUnlock e p) = SEG_ADDR e p"
  using state_get_view(5) state_set_view(2) by (simp add: SEG_ADDR_def smcUnlock_def Let_def split: option.splits)

lemma unlock_idle: "SEG_ATTACHED e p \<le> 0 \<Longrightarrow> smcUnlock e p = p\<lparr>ac_locked := False\<rparr>"
  by (simp add: smcUnlock_def SEG_ATTACHED_def)

text \<open>The system after the page has been given back.\<close>

definition gone_page :: "kernel \<Rightarrow> smcPage \<Rightarrow> kernel" where
  "gone_page k p = k\<lparr>next_addr := next_addr k + 1, segs := (segs k)(memKey p := None), lockfiles := (lockfiles k)(lockFile p := False)\<rparr>"

lemma detach_mapped:
  assumes "backed e k p" "fresh k"
  shows "smUtilDetach (mapped k p) (memKey p) (lockFile p) (next_addr k) True = gone_page k p"
  using assms by (auto simp: backed_def fresh_def smUtilDetach_def mapped_def gone_page_def shmdt_def fun_upd_idem_iff Let_def)

lemma release_run:
  assumes "idle e k (pdata c ! i)" "fresh k" "i < length (pdata c)"
  shows "smcDetach e c k i True = (freed c i (pg_size (pdata c ! i)), gone_page k (pdata c ! i))"
proof -
  let ?p = "pdata c ! i"
  let ?q = "?p\<lparr>pstate := joined_state e k ?p\<rparr>"
  have b: "backed e k ?p" "room e ?p" "SEG_ATTACHED e ?p \<le> 0" using assms(1) by (simp_all add: idle_def)
  have m: "me e \<noteq> 0" using b(2) by (simp add: room_def)
  have at: "SEG_ATTACHED e ?q = 1" "SEG_ADDR e ?q = next_addr k" using joined_state(2, 3) [OF b(2), of k] by (simp_all add: SEG_ATTACHED_def SEG_ADDR_def)
  have "smcDetach e (set_page c i ?q) (mapped k ?p) i True
    = (freed (set_page c i ?q) i (pg_size ?p), smUtilDetach (mapped k ?p) (memKey ?p) (lockFile ?p) (next_addr k) True)"
    using smcDetach_free_attached [of e "set_page c i ?q" i "mapped k ?p"] at assms(3) m by simp
  moreover have "smcDetach e c k i True = smcDetach e (set_page c i ?q) (mapped k ?p) i True"
    using b(3) at(1) assms(3) by (simp add: smcDetach_def attach_run [OF b(1)] del: fun_upd_apply)
  moreover have "freed (set_page c i ?q) i x = freed c i x" for x by (simp add: freed_def set_page_def)
  ultimately show ?thesis using detach_mapped [OF b(1) assms(2)] by simp
qed

section \<open>Finishing an exposure\<close>

definition freed_page :: smcPage where
  "freed_page = zero_page\<lparr>free_flag := True\<rparr>"

text \<open>The pages from \<open>i\<close> on that are selected.\<close>

definition picks :: "string option \<Rightarrow> rat \<Rightarrow> nat \<Rightarrow> smCache \<Rightarrow> nat set" where
  "picks pp xid i c = {j. i \<le> j \<and> j < top c \<and> selected pp xid (pdata c ! j)}"

definition keys :: "smCache \<Rightarrow> nat set \<Rightarrow> int set" where
  "keys c J = (\<lambda>j. memKey (pdata c ! j)) ` J"

definition apart :: "smCache \<Rightarrow> nat set \<Rightarrow> bool" where
  "apart c J \<longleftrightarrow> inj_on (\<lambda>j. memKey (pdata c ! j)) J"

lemma finite_picks [simp]: "finite (picks pp xid i c)"
  by (simp add: picks_def)

lemma idle_gone: "idle e k q \<Longrightarrow> memKey q \<noteq> memKey p \<Longrightarrow> idle e (gone_page k p) q"
  by (simp add: idle_def backed_def gone_page_def)

lemma idle_unlocked: "idle e k p \<Longrightarrow> idle e k (p\<lparr>ac_locked := False\<rparr>)"
  by (simp add: idle_def backed_def room_def SEG_ATTACHED_def)

lemma fresh_gone: "fresh k \<Longrightarrow> fresh (gone_page k p)"
  by (simp add: fresh_def gone_page_def)

lemma del_loop_run:
  assumes "cache_ok c" "fresh k" "i + n = top c" "\<forall>j \<in> picks pp xid i c. idle e k (pdata c ! j)" "apart c (picks pp xid i c)"
  shows "\<exists>c' k'. del_loop n e xid pp i (c, k) = (c', k') \<and> cache_ok c' \<and> length (pdata c') = length (pdata c)
     \<and> (\<forall>j. pdata c' ! j = (if j \<in> picks pp xid i c then freed_page else pdata c ! j))
     \<and> npages c' = npages c - int (Finite_Set.card (picks pp xid i c)) \<and> top c' \<le> top c
     \<and> (\<forall>key. segs k' key = (if key \<in> keys c (picks pp xid i c) then None else segs k key)) \<and> maps k' = maps k \<and> fresh k'"
  using assms
proof (induction n arbitrary: i c k)
  case 0
  then have "picks pp xid i c = {}" by (auto simp: picks_def)
  then show ?case using 0 by (simp add: keys_def)
next
  case (Suc n)
  let ?p = "pdata c ! i" and ?J = "picks pp xid i c" and ?J' = "picks pp xid (Suc i) c"
  have i: "i < top c" "i < length (pdata c)" using Suc.prems(3) cache_okD(1) [OF Suc.prems(1)] by simp_all
  show ?case
  proof (cases "selected pp xid ?p")
    case False
    then have J: "?J' = ?J" unfolding picks_def by (auto simp: Suc_le_eq order_le_less)
    have "del_loop (Suc n) e xid pp i (c, k) = del_loop n e xid pp (Suc i) (c, k)" using False i(1) by simp
    then show ?thesis using Suc.IH [of c k "Suc i"] Suc.prems unfolding J by simp
  next
    case True
    then have J: "?J = insert i ?J'" "i \<notin> ?J'" using i(1) by (auto simp: picks_def Suc_le_eq order_le_less)
    have id: "idle e k ?p" using Suc.prems(4) J(1) by simp
    let ?u = "?p\<lparr>ac_locked := False\<rparr>"
    have u: "smcUnlock e ?p = ?u" using id unlock_idle by (simp add: idle_def)
    have iu: "idle e k (pdata (set_page c i ?u) ! i)" using idle_unlocked [OF id] i(2) by simp
    let ?c1 = "freed c i (pg_size ?p)" and ?k1 = "gone_page k ?p"
    have "smcDetach e (set_page c i (smcUnlock e ?p)) k i True = (?c1, ?k1)"
      using release_run [OF iu Suc.prems(2)] i(2) unfolding u by (simp add: freed_def set_page_def gone_page_def)
    then have step: "del_loop (Suc n) e xid pp i (c, k) = del_loop n e xid pp (Suc i) (?c1, ?k1)" using True i(1) by simp
    have key: "memKey ?p \<noteq> 0" using id by (simp add: idle_def backed_def)
    have ok1: "cache_ok ?c1" by (rule freed_ok [OF Suc.prems(1) i(1) key])
    have pd: "pdata ?c1 ! j = (if j = i then freed_page else pdata c ! j)" for j
      using i(2) by (cases "j = i") (simp_all add: freed_page_def)
    show ?thesis
    proof (cases "Suc i = top c")
      case last: True
      have e: "?J' = {}" using last by (auto simp: picks_def)
      have "n = 0" using last Suc.prems(3) by simp
      then show ?thesis using step ok1 pd J(1) e fresh_gone [OF Suc.prems(2)]
        by (auto simp: keys_def gone_page_def freed_def set_page_def)
    next
      case False
      then have t: "top ?c1 = top c" by (simp add: freed_def set_page_def)
      have J1: "picks pp xid (Suc i) ?c1 = ?J'" unfolding picks_def t using pd by (auto simp: Suc_le_eq)
      have inj: "inj_on (\<lambda>j. memKey (pdata c ! j)) ?J'" "memKey ?p \<notin> keys c ?J'"
        using Suc.prems(5) J unfolding apart_def keys_def by (auto simp: inj_on_insert)
      have ap: "apart ?c1 ?J'" using inj(1) J(2) pd unfolding apart_def inj_on_def by auto
      have ids: "\<forall>j \<in> ?J'. idle e ?k1 (pdata ?c1 ! j)"
      proof
        fix j assume j: "j \<in> ?J'"
        have "memKey (pdata c ! j) \<noteq> memKey ?p" using j inj(2) unfolding keys_def by (metis image_eqI)
        moreover have "idle e k (pdata c ! j)" using j Suc.prems(4) J(1) by blast
        moreover have "j \<noteq> i" using j J(2) by blast
        ultimately show "idle e ?k1 (pdata ?c1 ! j)" using idle_gone pd by simp
      qed
      have ks: "keys ?c1 ?J' = keys c ?J'" unfolding keys_def by (rule image_cong [OF refl]) (use J(2) pd in auto)
      have top1: "Suc i + n = top ?c1" using t Suc.prems(3) by simp
      obtain c' k' where r: "del_loop n e xid pp (Suc i) (?c1, ?k1) = (c', k')" "cache_ok c'" "length (pdata c') = length (pdata ?c1)"
         "\<forall>j. pdata c' ! j = (if j \<in> ?J' then freed_page else pdata ?c1 ! j)"
         "npages c' = npages ?c1 - int (Finite_Set.card ?J')" "top c' \<le> top ?c1"
         "\<forall>key. segs k' key = (if key \<in> keys c ?J' then None else segs ?k1 key)" "maps k' = maps ?k1" "fresh k'"
        using Suc.IH [OF ok1 fresh_gone [OF Suc.prems(2)] top1] ids ap unfolding J1 ks by blast
      have "Finite_Set.card ?J = Suc (Finite_Set.card ?J')" using J by (simp add: picks_def)
      moreover have "keys c ?J = insert (memKey ?p) (keys c ?J')" using J(1) by (simp add: keys_def)
      ultimately show ?thesis using step r t pd J(1) by (auto simp: gone_page_def)
    qed
  qed
qed

text \<open>
  C30: finishing an exposure gives back exactly the pages that this manager has of it: their slots
  are free, their segments are gone, the count of pages has gone down by their number, and the
  cache is consistent; all other pages and segments are untouched.
\<close>

theorem smcDelExpID_removes:
  assumes "cache_ok c" "fresh k" "\<forall>j \<in> picks pp xid 0 c. idle e k (pdata c ! j)" "apart c (picks pp xid 0 c)"
  shows "\<exists>c' k'. smcDelExpID e c k xid pp = (c', k') \<and> cache_ok c'
     \<and> (\<forall>j. pdata c' ! j = (if j \<in> picks pp xid 0 c then freed_page else pdata c ! j))
     \<and> npages c' = npages c - int (Finite_Set.card (picks pp xid 0 c))
     \<and> (\<forall>key. segs k' key = (if key \<in> keys c (picks pp xid 0 c) then None else segs k key)) \<and> maps k' = maps k"
  using del_loop_run [OF assms(1, 2) _ assms(3, 4), of "top c"] unfolding smcDelExpID_def by auto

section \<open>Looking at a page and leaving it\<close>

text \<open>The same page for the other processes: only the table of processes and the lock may differ.\<close>

definition same_page :: "smcPage \<Rightarrow> smcPage \<Rightarrow> bool" where
  "same_page p q \<longleftrightarrow> (\<exists>st l. q = p\<lparr>pstate := st, ac_locked := l\<rparr>)"

lemma same_page_refl [simp]: "same_page p p"
  unfolding same_page_def by (intro exI [of _ "pstate p"] exI [of _ "ac_locked p"]) simp

lemma same_page_lock: "same_page p (p\<lparr>ac_locked := l\<rparr>)"
  unfolding same_page_def by (intro exI [of _ "pstate p"] exI [of _ l]) simp

lemma same_page_trans: "same_page p q \<Longrightarrow> same_page q r \<Longrightarrow> same_page p r"
  unfolding same_page_def by (elim exE) (simp, blast)

lemma same_pageD:
  assumes "same_page p q"
  shows "memKey q = memKey p" "lockFile q = lockFile p" "pg_size q = pg_size p" "expID q = expID p" "colID q = colID p"
    "pg_type q = pg_type p" "initialized q = initialized p" "free_flag q = free_flag p"
  using assms by (auto simp: same_page_def)

lemma same_selected: "same_page p q \<Longrightarrow> selected pp xid q = selected pp xid p"
  using same_pageD(4, 5) [of p q] by (simp add: selected_def wanted_def split: option.splits)

text \<open>The system after a page has been numbered and left.\<close>

definition set_seq :: "int \<Rightarrow> shm_seg \<Rightarrow> shm_seg" where
  "set_seq n s = s\<lparr>sg_hdr := (sg_hdr s)\<lparr>seg_seqno := n\<rparr>\<rparr>"

definition numbered :: "kernel \<Rightarrow> smcPage \<Rightarrow> int \<Rightarrow> kernel" where
  "numbered k p n = k\<lparr>segs := (segs k)(memKey p := map_option (set_seq n) (segs k (memKey p)))\<rparr>"

definition seen :: "kernel \<Rightarrow> smcPage \<Rightarrow> int \<Rightarrow> kernel" where
  "seen k p n = k\<lparr>next_addr := next_addr k + 1, segs := (segs k)(memKey p := map_option (set_seq n) (segs k (memKey p))),
     lockfiles := (lockfiles k)(lockFile p := True)\<rparr>"

lemma set_seq_simps [simp]:
  "sg_size (set_seq n s) = sg_size s" "sg_nattch (set_seq n s) = sg_nattch s" "sg_id (set_seq n s) = sg_id s"
  "seg_colID (sg_hdr (set_seq n s)) = seg_colID (sg_hdr s)" "dsize (sg_hdr (set_seq n s)) = dsize (sg_hdr s)"
  by (simp_all add: set_seq_def)

lemma number_run:
  assumes "room e p"
  shows "smcSetPageSeqNo e (mapped k p) (p\<lparr>pstate := joined_state e k p\<rparr>) n = Inr (numbered (mapped k p) p n)"
proof -
  have "SEG_ADDR e (p\<lparr>pstate := joined_state e k p\<rparr>) = next_addr k" using joined_state(2) [OF assms] by (simp add: SEG_ADDR_def)
  then show ?thesis by (simp add: smcSetPageSeqNo_def upd_header_def mapped_def numbered_def set_seq_def [abs_def] comp_def)
qed

lemma shmdt_numbered:
  assumes "backed e k p" "fresh k"
  shows "smUtilDetach (numbered (mapped k p) p n) (memKey p) (lockFile p) (next_addr k) False = seen k p n"
proof -
  obtain x where x: "segs k (memKey p) = Some x" "123 \<le> sg_size x" "sg_nattch x = 0" "memKey p \<noteq> 0" using assms(1) by (auto simp: backed_def)
  have "maps k (next_addr k) = None" using assms(2) by (simp add: fresh_def)
  then have m: "(maps k)(next_addr k := None) = maps k" by auto
  have s: "x\<lparr>sg_hdr := h, sg_nattch := 0\<rparr> = x\<lparr>sg_hdr := h\<rparr>" for h using x(3) by (cases x) simp
  show ?thesis using x m by (simp add: smUtilDetach_def mapped_def numbered_def seen_def shmdt_def set_seq_def s Let_def)
qed

lemma idle_seen: "idle e k q \<Longrightarrow> idle e (seen k p n) q"
  by (auto simp: idle_def backed_def seen_def)

lemma fresh_seen: "fresh k \<Longrightarrow> fresh (seen k p n)"
  by (simp add: fresh_def seen_def)

lemma leave_state:
  assumes "state_ok (alive e) st" "view st (me e) \<noteq> None" "me e \<noteq> 0" "alive e (me e)"
  shows "room e (p\<lparr>pstate := smStateSetAttached (me e) st 0, ac_locked := l\<rparr>)"
    "SEG_ATTACHED e (p\<lparr>pstate := smStateSetAttached (me e) st 0, ac_locked := l\<rparr>) = 0"
  using assms state_set_ok(7) state_set_view(7) state_get_view(7) by (auto simp: room_def SEG_ATTACHED_def)

lemma leave_run:
  assumes id: "idle e k (pdata c ! i)" and f: "fresh k" and i: "i < length (pdata c)"
  shows "\<exists>q. smcDetach e (set_page c i ((pdata c ! i)\<lparr>pstate := joined_state e k (pdata c ! i)\<rparr>)) (numbered (mapped k (pdata c ! i)) (pdata c ! i) n) i False
      = (set_page c i q, seen k (pdata c ! i) n) \<and> same_page (pdata c ! i) q \<and> idle e (seen k (pdata c ! i) n) q
      \<and> view (pstate q) (me e) \<noteq> None"
proof -
  let ?p = "pdata c ! i"
  let ?q = "?p\<lparr>pstate := joined_state e k ?p\<rparr>"
  let ?r = "if cpid ?p = me e then smcUnlock e ?q else ?q"
  have b: "backed e k ?p" "room e ?p" using id by (simp_all add: idle_def)
  have m: "me e \<noteq> 0" "alive e (me e)" using b(2) by (simp_all add: room_def)
  note js = joined_state [OF b(2), of k]
  have addr: "SEG_ADDR e ?q = next_addr k" using js(2) by (simp add: SEG_ADDR_def)
  have ra: "SEG_ADDR e ?r = next_addr k" using unlock_addr [OF m(1)] addr by simp
  obtain st l where r: "?r = ?p\<lparr>pstate := st, ac_locked := l\<rparr>" "state_ok (alive e) st" "view st (me e) \<noteq> None"
  proof (cases "cpid ?p = me e")
    case True
    have "?r = ?p\<lparr>pstate := (if SEG_ATTACHED e ?q > 0 then smStateSetLTime (me e) (joined_state e k ?p) (now e) else joined_state e k ?p), ac_locked := False\<rparr>"
      using True by (simp add: smcUnlock_def SEG_ATTACHED_def Let_def)
    moreover have "state_ok (alive e) (smStateSetLTime (me e) (joined_state e k ?p) (now e))"
      "view (smStateSetLTime (me e) (joined_state e k ?p) (now e)) (me e) \<noteq> None"
      using js(1, 4) state_set_ok(2) state_set_view(2) [OF m(1)] by auto
    ultimately show thesis using that js(1, 4) by (simp split: if_splits)
  next
    case False
    then have "?r = ?p\<lparr>pstate := joined_state e k ?p, ac_locked := ac_locked ?p\<rparr>" by simp
    then show thesis using that js(1, 4) by blast
  qed
  let ?t = "?p\<lparr>pstate := smStateSetAttached (me e) st 0, ac_locked := l\<rparr>"
  have swap: "p\<lparr>ac_locked := l, pstate := x\<rparr> = p\<lparr>pstate := x, ac_locked := l\<rparr>" for p :: smcPage and x by simp
  have "smcDetach e (set_page c i ?q) (numbered (mapped k ?p) ?p n) i False
    = (set_page (set_page c i ?q) i (?r\<lparr>pstate := smStateSetAttached (me e) (pstate ?r) 0\<rparr>),
       smUtilDetach (numbered (mapped k ?p) ?p n) (memKey ?p) (lockFile ?p) (SEG_ADDR e ?r) False)"
    using i by (simp add: smcDetach_def Let_def unlock_same)
  also have "\<dots> = (set_page c i ?t, seen k ?p n)"
    unfolding ra shmdt_numbered [OF b(1) f] unfolding r(1) by (simp add: set_page_def swap)
  finally have "smcDetach e (set_page c i ?q) (numbered (mapped k ?p) ?p n) i False = (set_page c i ?t, seen k ?p n)" .
  moreover have "same_page ?p ?t" unfolding same_page_def by blast
  moreover have "idle e (seen k ?p n) ?t"
    using leave_state [OF r(2, 3) m, where p = ?p and l = l] idle_seen [OF id, of ?p n] by (simp add: idle_def backed_def)
  moreover have "view (pstate ?t) (me e) \<noteq> None" using state_set_view(7) [OF m(1)] r(3) by auto
  ultimately show ?thesis by blast
qed

section \<open>Processing an exposure\<close>

definition imtype_word :: "string \<Rightarrow> string" where
  "imtype_word line = takeWhile (\<lambda>c. \<not> isspace c) (dropWhile isspace (drop 32 line))"

text \<open>The cards of a metadata page are terminated, and its words are short.\<close>

definition cards_ok :: "mgr_env \<Rightarrow> kernel \<Rightarrow> smcPage \<Rightarrow> bool" where
  "cards_ok E k p \<longleftrightarrow> pg_type p = TY_META \<longrightarrow> initialized p \<and> (\<exists>s. segs k (memKey p) = Some s \<and> length (seg_colID (sg_hdr s)) < 70
     \<and> (\<forall>i < unat (dsize (sg_hdr s)) div 128. length (cards E (memKey p) i) < 128 \<and> length (imtype_word (cards E (memKey p) i)) < 64))"

lemma find_imtype_run:
  "\<forall>j. i \<le> j \<and> j < i + n \<longrightarrow> length (f j) < 128 \<and> length (imtype_word (f j)) < 64 \<Longrightarrow> \<exists>v. find_imtype n i f kw = Inr v \<and> length v < 64"
proof (induction n arbitrary: i)
  case (Suc n)
  have "length (f i) < 128 \<and> length (imtype_word (f i)) < 64" using Suc.prems [rule_format, of i] by simp
  moreover have "\<exists>v. find_imtype n (Suc i) f kw = Inr v \<and> length v < 64" by (rule Suc.IH) (use Suc.prems in simp)
  ultimately show ?case by (simp add: fit_def Sm_Cache.SZ_FNAME_def imtype_word_def)
qed simp

text \<open>What the manager reports about an exposure.\<close>

primrec report :: "mout \<Rightarrow> string list" where
  "report (To_Super t s) = (if s = MB_SET \<and> (starts t ''process'' \<or> starts t ''clean'') then [t] else [])"
| "report (To_Join a b c) = []"
| "report (Rectified i) = []"
| "report (Displayed i) = []"
| "report (Display_Thread n i) = []"
| "report (Display_Open a b) = []"
| "report Display_Close = []"
| "report (Seg_List n) = []"
| "report (Debug_File a b) = []"

definition reports :: "manager \<Rightarrow> string list" where
  "reports m = concat (map report (m_out m))"

lemma reports_out [simp]: "reports (out m x) = reports m @ report x"
  by (simp add: reports_def out_def)

lemma reports_updates [simp]:
  "reports (m\<lparr>cache := c\<rparr>) = reports m" "reports (m\<lparr>kern := k\<rparr>) = reports m" "reports (m\<lparr>nthread := n\<rparr>) = reports m"
  "reports (m\<lparr>use_disp := n\<rparr>) = reports m" "reports (m\<lparr>disp_enable := n\<rparr>) = reports m"
  by (simp_all add: reports_def)

text \<open>What the manager does with the pixels of the pages: \<open>page_work d i p\<close> is due for page \<open>p\<close> in slot \<open>i\<close>, with the display when \<open>d\<close>.\<close>

fun work :: "mout \<Rightarrow> mout list" where
  "work (Rectified i) = [Rectified i]"
| "work (Displayed i) = [Displayed i]"
| "work x = []"

definition works :: "manager \<Rightarrow> mout list" where
  "works m = concat (map work (m_out m))"

definition page_work :: "bool \<Rightarrow> nat \<Rightarrow> smcPage \<Rightarrow> mout list" where
  "page_work d i p = (if pg_type p = TY_DATA \<or> pg_type p = TY_VOID then Rectified i # (if d then [Displayed i] else []) else [])"

definition all_work :: "bool \<Rightarrow> nat set \<Rightarrow> nat list \<Rightarrow> smcPage list \<Rightarrow> mout list" where
  "all_work d J is ps = concat (map (\<lambda>j. if j \<in> J then page_work d j (ps ! j) else []) is)"

lemma works_out [simp]: "works (out m x) = works m @ work x"
  by (simp add: works_def out_def)

lemma works_updates [simp]:
  "works (m\<lparr>cache := c\<rparr>) = works m" "works (m\<lparr>kern := k\<rparr>) = works m" "works (m\<lparr>nthread := n\<rparr>) = works m"
  "works (m\<lparr>use_disp := n\<rparr>) = works m" "works (m\<lparr>disp_enable := n\<rparr>) = works m"
  by (simp_all add: works_def)

lemma all_work_cong:
  "(\<And>j. j \<in> set is \<Longrightarrow> (j \<in> J \<longleftrightarrow> j \<in> J') \<and> (j \<in> J \<longrightarrow> pg_type (ps ! j) = pg_type (ps' ! j))) \<Longrightarrow> all_work d J is ps = all_work d J' is ps'"
  unfolding all_work_def by (rule arg_cong [of _ _ concat], rule map_cong [OF refl]) (auto simp: page_work_def)

text \<open>The settings that the processing goes by.\<close>

definition settings :: "manager \<Rightarrow> string option \<times> bool \<times> int \<times> int \<times> int \<times> string \<times> string" where
  "settings m = (procPages m, use_mbus m, use_pxf m, use_threads m, m_seqno m, imtypeDB m, imtypeKeyw m)"

lemma settings_updates [simp]:
  "settings (out m x) = settings m" "settings (m\<lparr>cache := c\<rparr>) = settings m" "settings (m\<lparr>kern := k\<rparr>) = settings m"
  "settings (m\<lparr>nthread := n\<rparr>) = settings m" "settings (m\<lparr>use_disp := n\<rparr>) = settings m" "settings (m\<lparr>disp_enable := n\<rparr>) = settings m"
  by (simp_all add: settings_def out_def)

lemma out_cache [simp]: "cache (out m x) = cache m" "kern (out m x) = kern m" "use_mbus (out m x) = use_mbus m"
  "procPages (out m x) = procPages m" "use_threads (out m x) = use_threads m" "use_pxf (out m x) = use_pxf m"
  "disp_enable (out m x) = disp_enable m"
  by (simp_all add: out_def)

text \<open>The same cache and settings, and nothing reported.\<close>

definition silent :: "manager \<Rightarrow> manager \<Rightarrow> bool" where
  "silent m m' \<longleftrightarrow> cache m' = cache m \<and> kern m' = kern m \<and> settings m' = settings m \<and> reports m' = reports m"

lemma data_page_run:
  "use_threads m = 0 \<Longrightarrow> \<exists>m'. data_page E i m = Inr m' \<and> silent m m' \<and> disp_enable m' = disp_enable m
     \<and> works m' = works m @ Rectified i # (if disp_enable m \<noteq> 0 then [Displayed i] else [])"
  by (simp add: data_page_def silent_def Let_def)

lemma meta_page_run:
  assumes "cards_ok E k p" "pg_type p = TY_META" "pdata (cache m) ! i = p\<lparr>pstate := joined_state (sys E) k p\<rparr>"
    "kern m = numbered (mapped k p) p n" "room (sys E) p" "length (fixed 6 xid) < 30"
  shows "\<exists>m'. meta_page E xid i m = Inr m' \<and> silent m m' \<and> disp_enable m' = disp_enable m \<and> works m' = works m"
proof -
  let ?q = "p\<lparr>pstate := joined_state (sys E) k p\<rparr>"
  obtain x where x: "initialized p" "segs k (memKey p) = Some x" "length (seg_colID (sg_hdr x)) < 70"
    "\<forall>i < unat (dsize (sg_hdr x)) div 128. length (cards E (memKey p) i) < 128 \<and> length (imtype_word (cards E (memKey p) i)) < 64"
    using assms(1, 2) by (auto simp: cards_ok_def)
  have "SEG_ADDR (sys E) ?q = next_addr k" using joined_state(2) [OF assms(5)] by (simp add: SEG_ADDR_def)
  then obtain h where h: "header_at (kern m) (SEG_ADDR (sys E) ?q) = Some h" "seg_colID h = seg_colID (sg_hdr x)" "dsize h = dsize (sg_hdr x)"
    using x(2) by (simp add: assms(4) header_at_def numbered_def mapped_def set_seq_def)
  let ?kw = "seg_colID h @ (if expPageNum h = 0 then ''_Pre'' else ''_Post'')"
  have k: "fit 80 ?kw = Inr ?kw" using x(3) h(2) by (simp add: fit_def)
  obtain v where v: "find_imtype (unat (dsize h) div 128) 0 (cards E (memKey p)) (imtypeKeyw m) = Inr v" "length v < 64"
    using find_imtype_run [of 0 "unat (dsize h) div 128" "cards E (memKey p)"] x(4) h(3) by auto
  have d: "smcGetPageData (sys E) (Some ?q) \<noteq> None" using x(1) by (simp add: smcGetPageData_def)
  let ?t = "''imagetype '' @ fixed 6 xid @ '' '' @ (if v \<noteq> [] then v else ''image'') @ [CHR 0x0A]"
  have t: "fit SZ_LINE ?t = Inr ?t" using assms(6) v(2) by (auto simp: fit_def SZ_LINE_def)
  show ?thesis
  proof (cases "strcaseeq (imtypeDB m) ?kw")
    case True
    then have "meta_page E xid i m = Inr (tell m ?t MB_SET)"
      unfolding meta_page_def assms(3) Let_def h(1) using k d v t by simp
    moreover have "silent m (tell m ?t MB_SET)" "disp_enable (tell m ?t MB_SET) = disp_enable m" "works (tell m ?t MB_SET) = works m"
      by (simp_all add: silent_def tell_def starts_def)
    ultimately show ?thesis by blast
  next
    case False
    then show ?thesis unfolding meta_page_def assms(3) Let_def h(1) using k by (simp add: silent_def)
  qed
qed

text \<open>
  A page that has been processed: it is the same for the others, the process is registered in its
  table and has detached it, and the header of its segment has the sequence number.
\<close>

definition served :: "env \<Rightarrow> kernel \<Rightarrow> int \<Rightarrow> smcPage \<Rightarrow> smcPage \<Rightarrow> bool" where
  "served e k n p q \<longleftrightarrow> same_page p q \<and> idle e k q \<and> view (pstate q) (me e) \<noteq> None
     \<and> (\<exists>sg. segs k (memKey p) = Some sg \<and> seg_seqno (sg_hdr sg) = n)"

lemma servedD: "served e k n p q \<Longrightarrow> same_page p q" "served e k n p q \<Longrightarrow> idle e k q"
  by (simp_all add: served_def)

lemma served_seen: "served e k n p q \<Longrightarrow> served e (seen k r n) n p q"
  using idle_seen [of e k q r n] by (auto simp: served_def seen_def set_seq_def)

lemma served_same: "same_page p0 p \<Longrightarrow> served e k n p q \<Longrightarrow> served e k n p0 q"
  using same_page_trans [of p0 p q] same_pageD(1) [of p0 p] by (simp add: served_def)

text \<open>The pages of the exposure have been processed, and nothing else has happened.\<close>

definition visited :: "env \<Rightarrow> rat \<Rightarrow> nat \<Rightarrow> manager \<Rightarrow> manager \<Rightarrow> bool" where
  "visited e xid i m m' \<longleftrightarrow> settings m' = settings m \<and> reports m' = reports m \<and> disp_enable m' = disp_enable m
     \<and> works m' = works m @ all_work (disp_enable m \<noteq> 0) (picks (procPages m) xid i (cache m)) [i..<top (cache m)] (pdata (cache m))
     \<and> (\<exists>ps. cache m' = (cache m)\<lparr>pdata := ps\<rparr> \<and> length ps = length (pdata (cache m))
          \<and> (\<forall>j. if j \<in> picks (procPages m) xid i (cache m) then served e (kern m') (m_seqno m) (pdata (cache m) ! j) (ps ! j)
               else ps ! j = pdata (cache m) ! j))
     \<and> (\<forall>p q. served e (kern m) (m_seqno m) p q \<longrightarrow> served e (kern m') (m_seqno m) p q)
     \<and> maps (kern m') = maps (kern m) \<and> (fresh (kern m) \<longrightarrow> fresh (kern m'))
     \<and> (\<forall>key. key \<notin> keys (cache m) (picks (procPages m) xid i (cache m)) \<longrightarrow> segs (kern m') key = segs (kern m) key)"

definition serviceable :: "mgr_env \<Rightarrow> rat \<Rightarrow> nat \<Rightarrow> manager \<Rightarrow> bool" where
  "serviceable E xid i m \<longleftrightarrow> fresh (kern m) \<and> top (cache m) \<le> length (pdata (cache m))
     \<and> (\<forall>j \<in> picks (procPages m) xid i (cache m). idle (sys E) (kern m) (pdata (cache m) ! j) \<and> cards_ok E (kern m) (pdata (cache m) ! j))"

lemma cards_seen: "cards_ok E k q \<Longrightarrow> cards_ok E (seen k p n) q"
  by (auto simp: cards_ok_def seen_def)

lemma cards_same: "same_page p q \<Longrightarrow> cards_ok E k q = cards_ok E k p"
  using same_pageD [of p q] by (simp add: cards_ok_def)

lemma visited_refl:
  assumes "top (cache m) \<le> i"
  shows "visited e xid i m m"
proof -
  have "cache m = (cache m)\<lparr>pdata := pdata (cache m)\<rparr>" "picks (procPages m) xid i (cache m) = {}" using assms by (auto simp: picks_def)
  then show ?thesis using assms unfolding visited_def all_work_def by (intro conjI exI [of _ "pdata (cache m)"]) auto
qed

lemma picks_step:
  assumes "i < top c"
  shows "picks pp xid i c = (if selected pp xid (pdata c ! i) then insert i (picks pp xid (Suc i) c) else picks pp xid (Suc i) c)"
    "i \<notin> picks pp xid (Suc i) c"
  using assms by (auto simp: picks_def Suc_le_eq order_le_less)

lemma picks_set_page: "i < Suc j \<Longrightarrow> picks pp xid (Suc j) (set_page c i q) = picks pp xid (Suc j) c"
  by (auto simp: picks_def)

text \<open>One page that is to be processed.\<close>

lemma proc_page_run:
  assumes s: "serviceable E xid i m" "i < top (cache m)" "selected (procPages m) xid (pdata (cache m) ! i)"
    and u: "use_threads m = 0" "use_pxf m \<noteq> 0" and x: "length (fixed 6 xid) < 30"
  shows "\<exists>m' q. proc_page E xid i m = Inr m' \<and> settings m' = settings m \<and> reports m' = reports m
     \<and> cache m' = set_page (cache m) i q \<and> kern m' = seen (kern m) (pdata (cache m) ! i) (m_seqno m)
     \<and> served (sys E) (kern m') (m_seqno m) (pdata (cache m) ! i) q
     \<and> disp_enable m' = disp_enable m \<and> works m' = works m @ page_work (disp_enable m \<noteq> 0) i (pdata (cache m) ! i)"
proof -
  let ?c = "cache m" and ?k = "kern m" and ?p = "pdata (cache m) ! i" and ?e = "sys E"
  have id: "idle ?e ?k ?p" "cards_ok E ?k ?p" and f: "fresh ?k" and i: "i < length (pdata ?c)"
    using s by (auto simp: serviceable_def picks_def)
  have b: "backed ?e ?k ?p" "room ?e ?p" using id(1) by (simp_all add: idle_def)
  let ?q = "?p\<lparr>pstate := joined_state ?e ?k ?p\<rparr>"
  let ?c1 = "set_page ?c i ?q" and ?k2 = "numbered (mapped ?k ?p) ?p (m_seqno m)"
  let ?m1 = "m\<lparr>cache := ?c1, kern := ?k2\<rparr>"
  have g: "pdata ?c1 ! i = ?q" using i by simp
  obtain m2 where m2: "(if pg_type ?q = TY_DATA \<or> pg_type ?q = TY_VOID then data_page E i ?m1
      else if pg_type ?q = TY_META then meta_page E xid i ?m1 else Inr ?m1) = Inr m2" "silent ?m1 m2"
    "disp_enable m2 = disp_enable m" "works m2 = works m @ page_work (disp_enable m \<noteq> 0) i ?p"
  proof (cases "pg_type ?p = TY_DATA \<or> pg_type ?p = TY_VOID")
    case True
    then show thesis using that data_page_run [of ?m1 E i] u(1) by (auto simp: page_work_def)
  next
    case d: False
    show thesis
    proof (cases "pg_type ?p = TY_META")
      case True
      then show thesis using that d meta_page_run [OF id(2) True _ _ b(2) x, of ?m1 i "m_seqno m"] i by (auto simp: page_work_def)
    next
      case False
      then show thesis using that d by (simp add: silent_def page_work_def)
    qed
  qed
  have st: "settings m2 = settings m" "reports m2 = reports m" "cache m2 = ?c1" "kern m2 = ?k2" using m2(2) by (simp_all add: silent_def)
  have sel: "use_threads m2 = 0" "use_pxf m2 \<noteq> 0" using st(1) u by (simp_all add: settings_def)
  obtain q where q: "smcDetach ?e ?c1 ?k2 i False = (set_page ?c i q, seen ?k ?p (m_seqno m))" "same_page ?p q" "idle ?e (seen ?k ?p (m_seqno m)) q" "view (pstate q) (me ?e) \<noteq> None"
    using leave_run [OF id(1) f i, of "m_seqno m"] by blast
  have "proc_page E xid i m = Inr (release_page E i m2)"
    using s(3) b(1) unfolding proc_page_def Let_def attach_run [OF b(1)] prod.case g number_run [OF b(2)] bind_res_simps m2(1)
    by (simp add: backed_def)
  moreover have "release_page E i m2 = m2\<lparr>cache := set_page ?c i q, kern := seen ?k ?p (m_seqno m)\<rparr>"
    using sel st(3, 4) q(1) by (simp add: release_page_def)
  moreover have "served ?e (seen ?k ?p (m_seqno m)) (m_seqno m) ?p q"
    using q(2-4) b(1) by (auto simp: served_def backed_def seen_def set_seq_def)
  ultimately show ?thesis using st(1, 2) m2(3, 4)
    by (intro exI [of _ "m2\<lparr>cache := set_page ?c i q, kern := seen ?k ?p (m_seqno m)\<rparr>"] exI [of _ q]) simp
qed

lemma proc_page_skip:
  "\<not> selected (procPages m) xid (pdata (cache m) ! i) \<Longrightarrow> proc_page E xid i m = Inr m"
  by (simp add: proc_page_def Let_def)

lemma serviceable_next:
  assumes s: "serviceable E xid i m" and i: "i < top (cache m)"
    and m': "settings m' = settings m" "cache m' = set_page (cache m) i q" "kern m' = seen (kern m) p n"
  shows "serviceable E xid (Suc i) m'"
proof -
  have pp: "procPages m' = procPages m" using m'(1) by (simp add: settings_def)
  have J: "picks (procPages m') xid (Suc i) (cache m') = picks (procPages m) xid (Suc i) (cache m)"
    unfolding pp m'(2) by (rule picks_set_page) simp
  have sub: "picks (procPages m) xid (Suc i) (cache m) \<subseteq> picks (procPages m) xid i (cache m)" by (auto simp: picks_def)
  have "pdata (cache m') ! j = pdata (cache m) ! j" if "j \<in> picks (procPages m) xid (Suc i) (cache m)" for j
    using that unfolding m'(2) by (auto simp: picks_def)
  then show ?thesis using s sub idle_seen cards_seen fresh_seen unfolding serviceable_def J by (auto simp: m'(2, 3))
qed

lemma visited_next:
  assumes i: "i < top (cache m)" "i < length (pdata (cache m))" "selected (procPages m) xid (pdata (cache m) ! i)"
    and m1: "settings m1 = settings m" "reports m1 = reports m" "cache m1 = set_page (cache m) i q"
      "kern m1 = seen (kern m) (pdata (cache m) ! i) (m_seqno m)" "served e (kern m1) (m_seqno m) (pdata (cache m) ! i) q"
      "disp_enable m1 = disp_enable m" "works m1 = works m @ page_work (disp_enable m \<noteq> 0) i (pdata (cache m) ! i)"
    and v: "visited e xid (Suc i) m1 m'"
  shows "visited e xid i m m'"
proof -
  let ?c = "cache m" and ?pp = "procPages m" and ?n = "m_seqno m" and ?d = "disp_enable m \<noteq> 0"
  have pp: "procPages m1 = ?pp" "m_seqno m1 = ?n" using m1(1) by (simp_all add: settings_def)
  have J: "picks ?pp xid (Suc i) (cache m1) = picks ?pp xid (Suc i) ?c" unfolding m1(3) by (rule picks_set_page) simp
  have J0: "picks ?pp xid i ?c = insert i (picks ?pp xid (Suc i) ?c)" "i \<notin> picks ?pp xid (Suc i) ?c" using picks_step [OF i(1), of ?pp xid] i(3) by simp_all
  obtain ps where ps: "cache m' = (cache m1)\<lparr>pdata := ps\<rparr>" "length ps = length (pdata (cache m1))"
    "\<And>j. if j \<in> picks ?pp xid (Suc i) ?c then served e (kern m') ?n (pdata (cache m1) ! j) (ps ! j) else ps ! j = pdata (cache m1) ! j"
    using v unfolding visited_def pp J by blast
  have s1: "served e (kern m1) ?n p r \<Longrightarrow> served e (kern m') ?n p r" for p r using v unfolding visited_def pp by blast
  have s0: "served e (kern m) ?n p r \<Longrightarrow> served e (kern m') ?n p r" for p r using s1 served_seen unfolding m1(4) by blast
  have g: "pdata (cache m1) ! j = (if j = i then q else pdata ?c ! j)" for j using i(2) unfolding m1(3) by (cases "j = i") simp_all
  have "if j \<in> picks ?pp xid i ?c then served e (kern m') ?n (pdata ?c ! j) (ps ! j) else ps ! j = pdata ?c ! j" for j
    using ps(3) [of j] J0 g [of j] s1 [OF m1(5)] by (auto split: if_splits)
  moreover have "cache m' = ?c\<lparr>pdata := ps\<rparr>" "length ps = length (pdata ?c)" using ps(1, 2) m1(3) by (simp_all add: set_page_def)
  moreover have ks: "keys (cache m1) (picks ?pp xid (Suc i) ?c) = keys ?c (picks ?pp xid (Suc i) ?c)"
    unfolding keys_def by (rule image_cong [OF refl]) (use g J0(2) in auto)
  moreover have "keys ?c (picks ?pp xid i ?c) = insert (memKey (pdata ?c ! i)) (keys ?c (picks ?pp xid (Suc i) ?c))"
    unfolding J0(1) by (simp add: keys_def)
  moreover have "settings m' = settings m \<and> reports m' = reports m \<and> disp_enable m' = disp_enable m
     \<and> maps (kern m') = maps (kern m1) \<and> (fresh (kern m1) \<longrightarrow> fresh (kern m'))
     \<and> (\<forall>key. key \<notin> keys (cache m1) (picks ?pp xid (Suc i) ?c) \<longrightarrow> segs (kern m') key = segs (kern m1) key)"
    using v m1(1, 2, 6) unfolding visited_def pp J by simp
  moreover have "works m' = works m @ all_work ?d (picks ?pp xid i ?c) [i..<top ?c] (pdata ?c)"
  proof -
    have t: "top (cache m1) = top ?c" unfolding m1(3) by (simp add: set_page_def)
    have "all_work ?d (picks ?pp xid (Suc i) ?c) [Suc i..<top ?c] (pdata (cache m1)) = all_work ?d (picks ?pp xid i ?c) [Suc i..<top ?c] (pdata ?c)"
      by (rule all_work_cong) (simp add: J0(1) g)
    moreover have "all_work ?d (picks ?pp xid i ?c) [i..<top ?c] (pdata ?c)
        = page_work ?d i (pdata ?c ! i) @ all_work ?d (picks ?pp xid i ?c) [Suc i..<top ?c] (pdata ?c)"
      using i(1) J0(1) by (simp add: all_work_def upt_conv_Cons)
    moreover have "works m' = works m1 @ all_work ?d (picks ?pp xid (Suc i) ?c) [Suc i..<top ?c] (pdata (cache m1))"
      using v unfolding visited_def pp J t m1(6) by blast
    ultimately show ?thesis using m1(7) by simp
  qed
  ultimately show ?thesis unfolding visited_def using m1(4) fresh_seen s0 by (auto simp: seen_def)
qed

lemma visited_skip:
  assumes "i < top (cache m)" "\<not> selected (procPages m) xid (pdata (cache m) ! i)"
  shows "visited e xid i m m' = visited e xid (Suc i) m m'"
proof -
  have "all_work d (picks (procPages m) xid i (cache m)) [i..<top (cache m)] ps = all_work d (picks (procPages m) xid (Suc i) (cache m)) [Suc i..<top (cache m)] ps" for d ps
    using picks_step [OF assms(1), of "procPages m" xid] assms by (simp add: all_work_def upt_conv_Cons)
  then show ?thesis using picks_step(1) [OF assms(1), of "procPages m" xid] assms(2) by (simp add: visited_def)
qed

lemma proc_loop_run:
  assumes "serviceable E xid i m" "i + n = top (cache m)" "use_threads m = 0" "use_pxf m \<noteq> 0" "length (fixed 6 xid) < 30"
  shows "\<exists>m'. proc_loop n E xid i m = Inr m' \<and> visited (sys E) xid i m m'"
  using assms(1-4)
proof (induction n arbitrary: i m)
  case 0
  then show ?case using visited_refl by simp
next
  case (Suc n)
  have i: "i < top (cache m)" "i < length (pdata (cache m))" using Suc.prems(1, 2) by (simp_all add: serviceable_def)
  show ?case
  proof (cases "selected (procPages m) xid (pdata (cache m) ! i)")
    case True
    obtain m1 q where m1: "proc_page E xid i m = Inr m1" "settings m1 = settings m" "reports m1 = reports m"
      "cache m1 = set_page (cache m) i q" "kern m1 = seen (kern m) (pdata (cache m) ! i) (m_seqno m)" "served (sys E) (kern m1) (m_seqno m) (pdata (cache m) ! i) q"
      "disp_enable m1 = disp_enable m" "works m1 = works m @ page_work (disp_enable m \<noteq> 0) i (pdata (cache m) ! i)"
      using proc_page_run [OF Suc.prems(1) i(1) True Suc.prems(3, 4) assms(5)] by blast
    have s1: "serviceable E xid (Suc i) m1" by (rule serviceable_next [OF Suc.prems(1) i(1) m1(2, 4, 5)])
    have t: "Suc i + n = top (cache m1)" "use_threads m1 = 0" "use_pxf m1 \<noteq> 0"
      using m1(2, 4) Suc.prems(2-4) by (simp_all add: settings_def)
    obtain m' where "proc_loop n E xid (Suc i) m1 = Inr m'" "visited (sys E) xid (Suc i) m1 m'" using Suc.IH [OF s1 t] by blast
    then show ?thesis using m1(1) i(1) visited_next [OF i True m1(2-8)] by auto
  next
    case False
    have "serviceable E xid (Suc i) m" using Suc.prems(1) picks_step(1) [OF i(1), of "procPages m" xid] False by (simp add: serviceable_def)
    then obtain m' where "proc_loop n E xid (Suc i) m = Inr m'" "visited (sys E) xid (Suc i) m m'" using Suc.IH [of "Suc i" m] Suc.prems(2-4) by auto
    then show ?thesis using proc_page_skip [OF False] i(1) visited_skip [OF i(1) False] by auto
  qed
qed

lemma visited_cong:
  assumes "visited e xid i m m'" "settings m0 = settings m" "reports m0 = reports m" "cache m0 = cache m" "kern m0 = kern m"
    "disp_enable m0 = disp_enable m" "works m0 = works m"
  shows "visited e xid i m0 m'"
proof -
  have pp: "procPages m0 = procPages m" "m_seqno m0 = m_seqno m" using assms(2) by (simp_all add: settings_def)
  show ?thesis using assms(1) unfolding visited_def assms(2-7) pp .
qed

text \<open>The display is used when it is enabled and its server can be reached.\<close>

definition display_of :: "mgr_env \<Rightarrow> manager \<Rightarrow> int" where
  "display_of E m = (if display_ok E then disp_enable m else 0)"

lemma open_display_silent: "silent m (open_display E m)" "works (open_display E m) = works m"
  "use_threads m = 0 \<Longrightarrow> disp_enable (open_display E m) = display_of E m"
  by (simp_all add: silent_def open_display_def display_of_def Let_def tell_def starts_def)

lemma smcProcess_run:
  assumes s: "serviceable E xid 0 m" "use_threads m = 0" "use_pxf m \<noteq> 0" "use_mbus m" and x: "length (fixed 6 xid) < 30"
  shows "\<exists>m1 m2. smcProcess E xid m = Inr m2 \<and> visited (sys E) xid 0 (m\<lparr>disp_enable := display_of E m\<rparr>) m1 \<and> cache m2 = cache m1 \<and> kern m2 = kern m1
     \<and> settings m2 = settings m \<and> works m2 = works m1 \<and> reports m2 = reports m @ [''process smc done '' @ fixed 6 xid]"
proof -
  let ?m = "(open_display E m)\<lparr>nthread := 0\<rparr>" and ?md = "m\<lparr>disp_enable := display_of E m\<rparr>"
  have o: "cache ?m = cache m" "kern ?m = kern m" "settings ?m = settings m" "reports ?m = reports m" "works ?m = works m"
      "disp_enable ?m = display_of E m"
    using open_display_silent(1) [of m E] open_display_silent(2) [of E m] open_display_silent(3) [of m E] s(2) by (simp_all add: silent_def)
  have pp: "procPages ?m = procPages m" "use_threads ?m = 0" "use_pxf ?m \<noteq> 0" "use_mbus ?m" using o(3) s(2-4) unfolding settings_def by (metis prod.inject)+
  have "serviceable E xid 0 ?m" using s(1) unfolding serviceable_def o(1, 2) pp(1) .
  then obtain m1 where m1: "proc_loop (top (cache ?m)) E xid 0 ?m = Inr m1" "visited (sys E) xid 0 ?m m1"
    using proc_loop_run [of E xid 0 ?m "top (cache ?m)"] pp x by auto
  have v: "visited (sys E) xid 0 ?md m1" by (rule visited_cong [OF m1(2)]) (simp_all add: o [symmetric])
  then have mb: "use_mbus m1" "settings m1 = settings m" "reports m1 = reports m" using s(4) by (auto simp: visited_def settings_def)
  let ?b = "''process smc done '' @ fixed 6 xid"
  have "fit 128 ?b = Inr ?b" using x by (simp add: fit_def)
  then have "smcProcess E xid m = Inr (tell (let m = tell (tell m1 ?b MB_SET) ''inactive'' MB_STATUS in
      if disp_enable m \<noteq> 0 \<and> use_threads m = 0 then out m Display_Close else m) ''inactive'' MB_STATUS)"
    unfolding smcProcess_def Let_def m1(1) using mb(1) by simp
  then show ?thesis using v mb(2, 3)
    by (intro exI [of _ m1] exI conjI) (assumption | simp add: Let_def tell_def starts_def mb_defs)+
qed

section \<open>Locking the pages of an exposure\<close>

definition on_selected :: "string option \<Rightarrow> rat \<Rightarrow> (smcPage \<Rightarrow> smcPage) \<Rightarrow> nat \<Rightarrow> smcPage list \<Rightarrow> smcPage list" where
  "on_selected pp xid f n ps = map (\<lambda>j. if j < n \<and> selected pp xid (ps ! j) then f (ps ! j) else ps ! j) [0..<length ps]"

lemma fold_selected:
  assumes "n \<le> length (pdata c)"
  shows "fold (\<lambda>i c. if selected pp xid (pdata c ! i) then set_page c i (f (pdata c ! i)) else c) [0..<n] c
    = c\<lparr>pdata := on_selected pp xid f n (pdata c)\<rparr>"
  using assms
proof (induction n)
  case 0
  then show ?case by (simp add: on_selected_def map_nth)
next
  case (Suc n)
  let ?ps = "on_selected pp xid f n (pdata c)"
  have n: "?ps ! n = pdata c ! n" "length ?ps = length (pdata c)" using Suc.prems by (simp_all add: on_selected_def)
  have "on_selected pp xid f (Suc n) (pdata c) = (if selected pp xid (pdata c ! n) then ?ps[n := f (pdata c ! n)] else ?ps)"
    using Suc.prems by (intro nth_equalityI) (auto simp: on_selected_def nth_list_update less_Suc_eq)
  then show ?case using Suc n by (simp add: set_page_def)
qed

lemma nth_beyond: "length xs = length ys \<Longrightarrow> length xs \<le> j \<Longrightarrow> xs ! j = ys ! j"
  by (induction xs ys arbitrary: j rule: list_induct2) (auto simp: nth_Cons split: nat.splits)

lemma on_selected_nth:
  assumes "top c \<le> length (pdata c)"
  shows "on_selected pp xid f (top c) (pdata c) ! j = (if j \<in> picks pp xid 0 c then f (pdata c ! j) else pdata c ! j)"
proof (cases "j < length (pdata c)")
  case False
  moreover from this have "j \<notin> picks pp xid 0 c" using assms by (simp add: picks_def)
  moreover have "length (on_selected pp xid f (top c) (pdata c)) = length (pdata c)" by (simp add: on_selected_def)
  ultimately show ?thesis using nth_beyond [of "on_selected pp xid f (top c) (pdata c)" "pdata c" j] by simp
qed (auto simp: on_selected_def picks_def)

lemma lock_run:
  assumes "top c \<le> length (pdata c)"
  shows "\<exists>ps. smcLockExpID c xid pp = c\<lparr>pdata := ps\<rparr> \<and> length ps = length (pdata c)
    \<and> (\<forall>j. ps ! j = (if j \<in> picks pp xid 0 c then smcLock (pdata c ! j) else pdata c ! j))"
  using fold_selected [OF assms, of pp xid smcLock] on_selected_nth [OF assms, of pp xid smcLock]
  unfolding smcLockExpID_def by (intro exI [of _ "on_selected pp xid smcLock (top c) (pdata c)"]) (simp add: on_selected_def)

lemma unlock_run:
  assumes "top c \<le> length (pdata c)"
  shows "\<exists>ps. smcUnlockExpID e c xid pp = c\<lparr>pdata := ps\<rparr> \<and> length ps = length (pdata c)
    \<and> (\<forall>j. ps ! j = (if j \<in> picks pp xid 0 c then smcUnlock e (pdata c ! j) else pdata c ! j))"
  using fold_selected [OF assms, of pp xid "smcUnlock e"] on_selected_nth [OF assms, of pp xid "smcUnlock e"]
  unfolding smcUnlockExpID_def by (intro exI [of _ "on_selected pp xid (smcUnlock e) (top c) (pdata c)"]) (simp add: on_selected_def)

text \<open>Changes of single pages that the others do not see.\<close>

lemma picks_same:
  assumes "\<forall>j. if j \<in> picks pp xid 0 c then same_page (pdata c ! j) (ps ! j) else ps ! j = pdata c ! j"
  shows "picks pp xid 0 (c\<lparr>pdata := ps\<rparr>) = picks pp xid 0 c" "keys (c\<lparr>pdata := ps\<rparr>) J = keys c J" "apart (c\<lparr>pdata := ps\<rparr>) J = apart c J"
proof -
  have s: "same_page (pdata c ! j) (ps ! j)" for j using assms [rule_format, of j] by (simp split: if_splits)
  have "selected pp xid (ps ! j) = selected pp xid (pdata c ! j)" for j by (rule same_selected [OF s])
  then show "picks pp xid 0 (c\<lparr>pdata := ps\<rparr>) = picks pp xid 0 c" by (simp add: picks_def)
  have "memKey (ps ! j) = memKey (pdata c ! j)" for j using same_pageD(1) [OF s] .
  then show "keys (c\<lparr>pdata := ps\<rparr>) J = keys c J" "apart (c\<lparr>pdata := ps\<rparr>) J = apart c J" by (simp_all add: keys_def apart_def)
qed

lemma cache_ok_same:
  assumes "cache_ok c" "\<forall>j. same_page (pdata c ! j) (ps ! j)" "length ps = length (pdata c)"
  shows "cache_ok (c\<lparr>pdata := ps\<rparr>)"
proof -
  have "map memKey ps = map memKey (pdata c)" using assms(2, 3) same_pageD(1) by (intro nth_equalityI) auto
  then have "map memKey (take (top c) ps) = map memKey (take (top c) (pdata c))" by (simp only: take_map [symmetric])
  moreover have n: "length (filter (\<lambda>p. memKey p \<noteq> 0) xs) = length (filter (\<lambda>k. k \<noteq> 0) (map memKey xs))" for xs
    by (simp add: filter_map comp_def)
  ultimately have "length (filter (\<lambda>p. memKey p \<noteq> 0) (take (top c) ps)) = length (filter (\<lambda>p. memKey p \<noteq> 0) (take (top c) (pdata c)))"
    using n [of "take (top c) ps"] n [of "take (top c) (pdata c)"] by simp
  moreover have "free_flag (ps ! j) = free_flag (pdata c ! j)" "memKey (ps ! j) = memKey (pdata c ! j)" for j
    using assms(2) same_pageD(1, 8) by blast+
  ultimately show ?thesis using assms(1, 3) by (simp add: cache_ok_def live_def)
qed

section \<open>Answering the supervisor\<close>

lemma kill_newline_none: "CHR 0x0A \<notin> set s \<Longrightarrow> kill_newline s = s"
  by (induction s) (auto simp: kill_newline_def)

lemma kill_newline_Cons: "kill_newline (c # s) = (if c = CHR 0x0A then NUL else c) # kill_newline s"
  by (simp add: kill_newline_def)

lemma kill_newline_append: "kill_newline (s @ t) = kill_newline s @ kill_newline t"
  by (simp add: kill_newline_def)

lemma no_newline:
  assumes "0 \<le> x"
  shows "kill_newline (fixed 6 x) = fixed 6 x" "cstring (fixed 6 x)"
proof -
  have "\<not> isspace c" if "c \<in> set (fixed 6 x)" for c using fixed_word [OF assms] that by (simp add: list_all_iff)
  moreover have "isspace (CHR 0x0A)" by code_simp
  ultimately have "CHR 0x0A \<notin> set (fixed 6 x)" by blast
  then show "kill_newline (fixed 6 x) = fixed 6 x" by (rule kill_newline_none)
  have "list_all isdigit s \<Longrightarrow> NUL \<notin> set s" for s by (auto simp: list_all_iff isdigit_def)
  then show "cstring (fixed 6 x)" using assms show_nat_digits
    by (auto simp: cstring_def fixed_def Let_def list_all_replicate)
qed

lemma cstr_at_all: "cstring s \<Longrightarrow> length t = n \<Longrightarrow> cstr_at (t @ s) n = s"
  by (simp add: cstr_at_def cstring_def) (metis takeWhile_eq_all_conv)

lemma fixed_head: "0 \<le> x \<Longrightarrow> \<exists>c t. fixed 6 x = c # t \<and> isdigit c"
proof -
  assume x: "0 \<le> x"
  obtain n t where n: "fixed 6 x = show_nat n @ t" using x by (auto simp: fixed_def Let_def)
  obtain c s where "show_nat n = c # s" by (cases "show_nat n") auto
  moreover from this have "isdigit c" using show_nat_digits [of n] by simp
  ultimately show ?thesis using n by simp
qed

lemma start_message:
  assumes "0 \<le> x"
  shows "mbusMsgHandler E t (Some (-1, MB_START, ''process '' @ fixed 6 x)) m
    = bind_res (mgr_start E m (''process '' @ fixed 6 x)) (\<lambda>m. Inr (0, m))"
  by (simp add: no_newline [OF assms] kill_newline_Cons mbusMsgHandler_def myHandler_def mb_defs MB_GET_STATUS_def Let_def)

lemma finish_message:
  assumes "0 \<le> x"
  shows "mbusMsgHandler E t (Some (-1, MB_FINISH, ''ExpID '' @ fixed 6 x)) m
    = bind_res (mgr_finish E m (''ExpID '' @ fixed 6 x)) (\<lambda>m. Inr (0, m))"
  by (simp add: no_newline [OF assms] kill_newline_Cons mbusMsgHandler_def myHandler_def mb_defs MB_GET_STATUS_def Let_def)

lemma start_run:
  assumes s: "serviceable E (atof (fixed 6 x)) 0 m" "use_threads m = 0" "use_pxf m \<noteq> 0" "use_mbus m" and x: "0 \<le> x" "length (fixed 6 x) < 30"
    and ok: "cache_ok (cache m)"
  shows "\<exists>m1 ps. mgr_start E m (''process '' @ fixed 6 x) = Inr m1 \<and> reports m1 = reports m @ [''process smc done '' @ fixed 6 x]
     \<and> settings m1 = settings m \<and> cache m1 = (cache m)\<lparr>pdata := ps\<rparr> \<and> length ps = length (pdata (cache m))
     \<and> (\<forall>j. if j \<in> picks (procPages m) (atof (fixed 6 x)) 0 (cache m) then \<not> ac_locked (ps ! j)
          \<and> served (sys E) (kern m1) (m_seqno m) (pdata (cache m) ! j) (ps ! j) else ps ! j = pdata (cache m) ! j)
     \<and> works m1 = works m @ all_work (display_of E m \<noteq> 0) (picks (procPages m) (atof (fixed 6 x)) 0 (cache m)) [0..<top (cache m)] (pdata (cache m))
     \<and> fresh (kern m1) \<and> maps (kern m1) = maps (kern m)
     \<and> (\<forall>key. key \<notin> keys (cache m) (picks (procPages m) (atof (fixed 6 x)) 0 (cache m)) \<longrightarrow> segs (kern m1) key = segs (kern m) key)"
proof -
  let ?xid = "atof (fixed 6 x)" and ?c = "cache m" and ?e = "sys E" and ?pp = "procPages m"
  let ?J = "picks ?pp ?xid 0 ?c" and ?t = "''process '' @ fixed 6 x"
  have fx: "fixed 6 ?xid = fixed 6 x" using fixed_atof [OF x(1), of "[]"] by simp
  have top: "top ?c \<le> length (pdata ?c)" by (rule cache_okD(1) [OF ok])
  obtain ps1 where 1: "smcLockExpID ?c ?xid ?pp = ?c\<lparr>pdata := ps1\<rparr>" "length ps1 = length (pdata ?c)"
    "\<forall>j. ps1 ! j = (if j \<in> ?J then smcLock (pdata ?c ! j) else pdata ?c ! j)" using lock_run [OF top] by blast
  have lk: "same_page p (smcLock p)" "idle ?e k p \<Longrightarrow> idle ?e k (smcLock p)" for p k
    using same_page_lock [of p True] by (simp_all add: smcLock_def idle_def backed_def room_def SEG_ATTACHED_def)
  let ?m = "m\<lparr>cache := ?c\<lparr>pdata := ps1\<rparr>\<rparr>" and ?n = "m_seqno m"
  let ?md = "?m\<lparr>disp_enable := display_of E ?m\<rparr>"
  have p1: "\<forall>j. if j \<in> ?J then same_page (pdata ?c ! j) (ps1 ! j) else ps1 ! j = pdata ?c ! j" using 1(3) lk(1) by simp
  note J1 = picks_same [OF p1]
  have "cards_ok E k (smcLock p) = cards_ok E k p" for k p by (rule cards_same [OF lk(1)])
  then have "serviceable E ?xid 0 ?m"
    using s(1) 1(2, 3) lk(2) unfolding serviceable_def by (simp add: J1)
  then have "serviceable E ?xid 0 ?m" "use_threads ?m = 0" "use_pxf ?m \<noteq> 0" "use_mbus ?m" using s(2-4) by simp_all
  from smcProcess_run [OF this] obtain m1 m2 where 2: "smcProcess E ?xid ?m = Inr m2" "visited ?e ?xid 0 ?md m1" "cache m2 = cache m1" "kern m2 = kern m1" "settings m2 = settings ?m"
     "works m2 = works m1" "reports m2 = reports ?m @ [''process smc done '' @ fixed 6 ?xid]"
    using x(2) unfolding fx by blast
  have f: "cache ?md = ?c\<lparr>pdata := ps1\<rparr>" "procPages ?md = ?pp" "pdata (?c\<lparr>pdata := ps1\<rparr>) = ps1" "m_seqno ?md = ?n"
    "disp_enable ?md = display_of E m" "works ?md = works m" "top (?c\<lparr>pdata := ps1\<rparr>) = top ?c" by (simp_all add: display_of_def)
  obtain ps2 where "cache m1 = ?c\<lparr>pdata := ps1, pdata := ps2\<rparr>" "length ps2 = length ps1"
    and 33: "\<forall>j. if j \<in> ?J then served ?e (kern m1) ?n (ps1 ! j) (ps2 ! j) else ps2 ! j = ps1 ! j"
    using 2(2) unfolding visited_def f J1(1) by blast
  then have 3: "cache m1 = ?c\<lparr>pdata := ps2\<rparr>" "length ps2 = length (pdata ?c)" using 1(2) by simp_all
  note 3 = 3 33
  have p2: "\<forall>j. if j \<in> ?J then same_page (pdata ?c ! j) (ps2 ! j) else ps2 ! j = pdata ?c ! j"
  proof
    fix j
    show "if j \<in> ?J then same_page (pdata ?c ! j) (ps2 ! j) else ps2 ! j = pdata ?c ! j"
      using spec [OF p1, of j] spec [OF 3(3), of j] same_page_trans [of "pdata ?c ! j" "ps1 ! j" "ps2 ! j"] servedD(1) by (simp split: if_splits)
  qed
  note J2 = picks_same [OF p2]
  obtain ps3 where 4: "smcUnlockExpID ?e (?c\<lparr>pdata := ps2\<rparr>) ?xid ?pp = ?c\<lparr>pdata := ps3\<rparr>" "length ps3 = length (pdata ?c)"
    "\<forall>j. ps3 ! j = (if j \<in> ?J then smcUnlock ?e (ps2 ! j) else ps2 ! j)"
    using unlock_run [of "?c\<lparr>pdata := ps2\<rparr>" ?e ?xid ?pp] top 3(2) by (auto simp: J2)
  have ul: "served ?e k n r (smcUnlock ?e p)" "\<not> ac_locked (smcUnlock ?e p)" if v: "served ?e k n r p" for k n p r
  proof -
    have u: "smcUnlock ?e p = p\<lparr>ac_locked := False\<rparr>" using unlock_idle servedD(2) [OF v] by (simp add: idle_def)
    show "served ?e k n r (smcUnlock ?e p)" using v idle_unlocked [OF servedD(2) [OF v]] same_page_trans [OF servedD(1) [OF v] same_page_lock [of p False]]
      unfolding u by (simp add: served_def)
    show "\<not> ac_locked (smcUnlock ?e p)" by (simp add: u)
  qed
  have p3: "if j \<in> ?J then \<not> ac_locked (ps3 ! j) \<and> served ?e (kern m1) ?n (pdata ?c ! j) (ps3 ! j) else ps3 ! j = pdata ?c ! j" for j
    using spec [OF p1, of j] spec [OF 3(3), of j] spec [OF 4(3), of j] ul [of "kern m1" ?n "ps1 ! j" "ps2 ! j"] served_same
    by (auto split: if_splits)
  have wk: "works m2 = works m @ all_work (display_of E m \<noteq> 0) ?J [0..<top ?c] (pdata ?c)"
  proof -
    have "works m1 = works m @ all_work (display_of E m \<noteq> 0) ?J [0..<top ?c] ps1" using 2(2) unfolding visited_def f J1(1) by blast
    moreover have "all_work (display_of E m \<noteq> 0) ?J [0..<top ?c] ps1 = all_work (display_of E m \<noteq> 0) ?J [0..<top ?c] (pdata ?c)"
      by (rule all_work_cong) (use p1 same_pageD(6) in \<open>auto split: if_splits\<close>)
    ultimately show ?thesis using 2(6) by simp
  qed
  obtain h r where h: "fixed 6 x = h # r" "isdigit h" using fixed_head [OF x(1)] by blast
  then have k: "text_from ?t 8 = Inr (fixed 6 x)" "starts ?t ''process''" "\<not> starts (fixed 6 x) ''all''" "\<not> starts (fixed 6 x) ''next''"
    using cstr_at_all [OF no_newline(2) [OF x(1)], of "''process ''" 8] by (auto simp: text_from_def starts_def isdigit_def)
  have pp: "procPages m2 = ?pp" using 2(5) by (simp add: settings_def)
  have "mgr_start E m ?t = Inr (m2\<lparr>cache := ?c\<lparr>pdata := ps3\<rparr>\<rparr>)"
    unfolding mgr_start_def using k 1(1) 2(1) 4(1) pp 2(3) 3(1) by simp
  moreover have "maps (kern m1) = maps (kern m)" "fresh (kern m1)" "\<forall>key. key \<notin> keys ?c ?J \<longrightarrow> segs (kern m1) key = segs (kern m) key"
    using 2(2) s(1) unfolding visited_def serviceable_def by (simp_all add: J1)
  ultimately show ?thesis using 2(4, 5, 7) 4(2) p3 fx wk
    by (intro exI [of _ "m2\<lparr>cache := ?c\<lparr>pdata := ps3\<rparr>\<rparr>"] exI [of _ ps3]) simp
qed

lemma same_equal: "Sm_Cache.smcEqualExpID a b = Proc_Queue.smcEqualExpID a b"
  by (simp add: Sm_Cache.smcEqualExpID_def Proc_Queue.smcEqualExpID_def)

lemma finish_run:
  assumes x: "0 \<le> x" "length (fixed 6 x) < 30" and ok: "cache_ok (cache m)" "fresh (kern m)"
    and J: "J = picks (procPages m) (atof (fixed 6 x)) 0 (cache m)" "\<forall>j \<in> J. idle (sys E) (kern m) (pdata (cache m) ! j)" "apart (cache m) J"
  shows "\<exists>m1. mgr_finish E m (''ExpID '' @ fixed 6 x) = Inr m1 \<and> reports m1 = reports m @ [''clean done '' @ fixed 6 x] \<and> cache_ok (cache m1)
     \<and> (\<forall>j. pdata (cache m1) ! j = (if j \<in> J then freed_page else pdata (cache m) ! j))
     \<and> npages (cache m1) = npages (cache m) - int (Finite_Set.card J)
     \<and> (\<forall>key. segs (kern m1) key = (if key \<in> keys (cache m) J then None else segs (kern m) key)) \<and> maps (kern m1) = maps (kern m)"
proof -
  let ?t = "''ExpID '' @ fixed 6 x" and ?b = "''clean done '' @ fixed 6 x"
  obtain c k where d: "smcDelExpID (sys E) (cache m) (kern m) (atof (fixed 6 x)) (procPages m) = (c, k)" "cache_ok c"
    "\<forall>j. pdata c ! j = (if j \<in> J then freed_page else pdata (cache m) ! j)" "npages c = npages (cache m) - int (Finite_Set.card J)"
    "\<forall>key. segs k key = (if key \<in> keys (cache m) J then None else segs (kern m) key)" "maps k = maps (kern m)"
    using del_loop_run [OF ok, of 0 "top (cache m)" "procPages m" "atof (fixed 6 x)" "sys E"] J unfolding smcDelExpID_def by auto
  have t: "starts ?t ''ExpID''" "text_from ?t 6 = Inr (fixed 6 x)" "fit SZ_LINE ?b = Inr ?b"
    using x(2) cstr_at_all [OF no_newline(2) [OF x(1)], of "''ExpID ''" 6] by (simp_all add: starts_def text_from_def fit_def SZ_LINE_def)
  have "mgr_finish E m ?t = Inr (tell (tell (tell (tell (m\<lparr>cache := c, kern := k\<rparr>) ?b MB_SET) [] MB_ACK) [] MB_ACK) [] MB_ACK)"
    unfolding mgr_finish_def using t d(1) by (simp add: Let_def)
  then show ?thesis using d(2-6) by (simp add: tell_def starts_def mb_defs)
qed

text \<open>The two messages of an exposure.\<close>

lemma manager_serves:
  assumes m: "use_threads m = 0" "use_pxf m \<noteq> 0" "use_mbus m" "cache_ok (cache m)"
    and x: "0 \<le> x" "length (fixed 6 x) < 30"
    and J: "J = picks (procPages m) (atof (fixed 6 x)) 0 (cache m)" "serviceable E (atof (fixed 6 x)) 0 m" "apart (cache m) J"
  shows "\<exists>m1 m2. mbusMsgHandler E t (Some (-1, MB_START, ''process '' @ fixed 6 x)) m = Inr (0, m1)
     \<and> reports m1 = reports m @ [''process smc done '' @ fixed 6 x]
     \<and> (\<forall>j. if j \<in> J then same_page (pdata (cache m) ! j) (pdata (cache m1) ! j) else pdata (cache m1) ! j = pdata (cache m) ! j)
     \<and> mbusMsgHandler E t (Some (-1, MB_FINISH, ''ExpID '' @ fixed 6 x)) m1 = Inr (0, m2)
     \<and> reports m2 = reports m1 @ [''clean done '' @ fixed 6 x] \<and> cache_ok (cache m2)
     \<and> (\<forall>j. pdata (cache m2) ! j = (if j \<in> J then freed_page else pdata (cache m) ! j))
     \<and> npages (cache m2) = npages (cache m) - int (Finite_Set.card J)
     \<and> (\<forall>key. segs (kern m2) key = (if key \<in> keys (cache m) J then None else segs (kern m) key))
     \<and> (\<forall>j < top (cache m). expID (pdata (cache m) ! j) = x \<and> wanted (procPages m) (pdata (cache m) ! j) \<longrightarrow> j \<in> J)
     \<and> (\<forall>j \<in> J. served (sys E) (kern m1) (m_seqno m) (pdata (cache m) ! j) (pdata (cache m1) ! j))
     \<and> works m1 = works m @ all_work (display_of E m \<noteq> 0) J [0..<top (cache m)] (pdata (cache m))
     \<and> (\<forall>key. key \<notin> keys (cache m) J \<longrightarrow> segs (kern m1) key = segs (kern m) key)"
proof -
  let ?c = "cache m"
  obtain m1 ps where 1: "mgr_start E m (''process '' @ fixed 6 x) = Inr m1" "reports m1 = reports m @ [''process smc done '' @ fixed 6 x]"
     "settings m1 = settings m" "cache m1 = ?c\<lparr>pdata := ps\<rparr>" "length ps = length (pdata ?c)"
     "\<forall>j. if j \<in> J then \<not> ac_locked (ps ! j) \<and> served (sys E) (kern m1) (m_seqno m) (pdata ?c ! j) (ps ! j) else ps ! j = pdata ?c ! j"
     "fresh (kern m1)" "maps (kern m1) = maps (kern m)" "\<forall>key. key \<notin> keys ?c J \<longrightarrow> segs (kern m1) key = segs (kern m) key"
     "works m1 = works m @ all_work (display_of E m \<noteq> 0) J [0..<top ?c] (pdata ?c)"
    using start_run [OF J(2) m(1-3) x m(4)] unfolding J(1) by blast
  have s: "if j \<in> J then same_page (pdata ?c ! j) (ps ! j) else ps ! j = pdata ?c ! j" for j using spec [OF 1(6), of j] by (auto split: if_splits dest: servedD)
  have s': "same_page (pdata ?c ! j) (ps ! j)" for j using s [of j] by (simp split: if_splits)
  have pp: "procPages m1 = procPages m" using 1(3) by (simp add: settings_def)
  have J1: "J = picks (procPages m1) (atof (fixed 6 x)) 0 (cache m1)" "keys (cache m1) J = keys ?c J" "apart (cache m1) J"
    using picks_same [of "procPages m" "atof (fixed 6 x)" ?c ps] s J(1, 3) unfolding 1(4) pp by auto
  have "cache_ok (cache m1)" unfolding 1(4) by (rule cache_ok_same [OF m(4) _ 1(5)]) (use s' in blast)
  moreover have "\<forall>j \<in> J. idle (sys E) (kern m1) (pdata (cache m1) ! j)"
  proof
    fix j assume "j \<in> J"
    then show "idle (sys E) (kern m1) (pdata (cache m1) ! j)" using spec [OF 1(6), of j] by (auto simp: 1(4) dest: servedD)
  qed
  ultimately obtain m2 where 2: "mgr_finish E m1 (''ExpID '' @ fixed 6 x) = Inr m2" "reports m2 = reports m1 @ [''clean done '' @ fixed 6 x]" "cache_ok (cache m2)"
     "\<forall>j. pdata (cache m2) ! j = (if j \<in> J then freed_page else pdata (cache m1) ! j)"
     "npages (cache m2) = npages (cache m1) - int (Finite_Set.card J)"
     "\<forall>key. segs (kern m2) key = (if key \<in> keys (cache m1) J then None else segs (kern m1) key)"
    using finish_run [OF x _ 1(7) J1(1) _ J1(3)] by blast
  have "pdata (cache m2) ! j = (if j \<in> J then freed_page else pdata ?c ! j)" for j using spec [OF 2(4), of j] s [of j] by (simp add: 1(4) split: if_splits)
  moreover have "segs (kern m2) key = (if key \<in> keys ?c J then None else segs (kern m) key)" for key
    using spec [OF 2(6), of key] spec [OF 1(9), of key] by (simp add: J1(2))
  moreover have "npages (cache m2) = npages ?c - int (Finite_Set.card J)" using 2(5) by (simp add: 1(4))
  moreover have "j \<in> J" if "j < top ?c" "expID (pdata ?c ! j) = x" "wanted (procPages m) (pdata ?c ! j)" for j
    using that text_id [of x "[]"] x(1) unfolding J(1) by (simp add: picks_def selected_def same_equal)
  moreover have "mbusMsgHandler E t (Some (-1, MB_START, ''process '' @ fixed 6 x)) m = Inr (0, m1)"
    unfolding start_message [OF x(1)] using 1(1) by simp
  moreover have "mbusMsgHandler E t (Some (-1, MB_FINISH, ''ExpID '' @ fixed 6 x)) m1 = Inr (0, m2)"
    unfolding finish_message [OF x(1)] using 2(1) by simp
  moreover have "pdata (cache m1) = ps" by (simp add: 1(4))
  moreover have "\<forall>j \<in> J. served (sys E) (kern m1) (m_seqno m) (pdata ?c ! j) (ps ! j)" 
  proof
    fix j assume "j \<in> J"
    then show "served (sys E) (kern m1) (m_seqno m) (pdata ?c ! j) (ps ! j)" using spec [OF 1(6), of j] by simp
  qed
  ultimately show ?thesis using 1(2, 9, 10) 2(2, 3) s by (intro exI [of _ m1] exI [of _ m2]) simp
qed

text \<open>
  C4: a manager that takes part in the processing answers the two messages by which the supervisor
  processes and finishes an exposure with exactly the two reports that the supervisor waits for,
  with the same id.  In between the pages of the exposure are as before for all others, but for
  the lock and the table of processes; afterwards exactly they are gone, among them every page
  with this id, and the cache is consistent.
\<close>

theorem manager_answers:
  assumes m: "use_threads m = 0" "use_pxf m \<noteq> 0" "use_mbus m" "cache_ok (cache m)"
    and x: "0 \<le> x" "length (fixed 6 x) < 30"
    and J: "J = picks (procPages m) (atof (fixed 6 x)) 0 (cache m)" "serviceable E (atof (fixed 6 x)) 0 m" "apart (cache m) J"
  shows "\<exists>m1 m2. mbusMsgHandler E t (Some (-1, MB_START, ''process '' @ fixed 6 x)) m = Inr (0, m1)
     \<and> reports m1 = reports m @ [''process smc done '' @ fixed 6 x]
     \<and> (\<forall>j. if j \<in> J then same_page (pdata (cache m) ! j) (pdata (cache m1) ! j) else pdata (cache m1) ! j = pdata (cache m) ! j)
     \<and> mbusMsgHandler E t (Some (-1, MB_FINISH, ''ExpID '' @ fixed 6 x)) m1 = Inr (0, m2)
     \<and> reports m2 = reports m1 @ [''clean done '' @ fixed 6 x] \<and> cache_ok (cache m2)
     \<and> (\<forall>j. pdata (cache m2) ! j = (if j \<in> J then freed_page else pdata (cache m) ! j))
     \<and> npages (cache m2) = npages (cache m) - int (Finite_Set.card J)
     \<and> (\<forall>key. segs (kern m2) key = (if key \<in> keys (cache m) J then None else segs (kern m) key))
     \<and> (\<forall>j < top (cache m). expID (pdata (cache m) ! j) = x \<and> wanted (procPages m) (pdata (cache m) ! j) \<longrightarrow> j \<in> J)"
  using manager_serves [OF m x J, of t] by (elim ex_forward conjE) (intro conjI; assumption)

text \<open>
  C35: the manager looks for the directory one character too far in the message by which the
  supervisor tells it: the directory that it sets has lost its first character.  (Of the message
  with an empty directory it reads the terminator behind the newline: the directory is empty.)
\<close>

theorem option_dirname_loses_a_character:
  assumes "cstring d" "CHR 0x0A \<notin> set d"
  shows "mbusMsgHandler E t (Some (-1, MB_SET, ''option dirname '' @ d @ [CHR 0x0A])) m = Inr (0, m\<lparr>cache := smcSetDir (cache m) (tl d)\<rparr>)"
proof -
  let ?b = "''option dirname '' @ d @ [NUL]"
  have b: "kill_newline (''option dirname '' @ d @ [CHR 0x0A]) = ?b"
    using kill_newline_none [OF assms(2)] by (simp add: kill_newline_append kill_newline_Cons) (simp add: kill_newline_def)
  have "text_from ?b 16 = Inr (tl d)"
    using assms(1) by (cases d) (simp_all add: text_from_def cstr_at_def takeWhile_cstring_NUL)
  then have "mgr_set E m ?b = Inr (m\<lparr>cache := smcSetDir (cache m) (tl d)\<rparr>)" by (simp add: mgr_set_def starts_def Let_def)
  then show ?thesis unfolding mbusMsgHandler_def myHandler_def option.case prod.case b Let_def by (simp add: MB_GET_STATUS_def mb_defs)
qed

text \<open>A manager with a page of exposure 12 and one of exposure 7.\<close>

definition page_of :: "int \<Rightarrow> rat \<Rightarrow> smcPage" where
  "page_of key xid = zero_page\<lparr>memKey := key, pg_size := 4096, pg_type := 2, expID := xid, initialized := True\<rparr>"

definition manager0 :: manager where
  "manager0 = \<lparr>cache = cache0\<lparr>npages := 2, top := 2, pdata := [page_of 11 12, page_of 13 7]\<rparr>,
     kern = kernel0\<lparr>segs := [11 \<mapsto> \<lparr>sg_id = 1, sg_size = 4096, sg_nattch = 0, sg_hdr = zero_segment\<rparr>,
        13 \<mapsto> \<lparr>sg_id = 2, sg_size = 4096, sg_nattch = 0, sg_hdr = zero_segment\<rparr>]\<rparr>,
     m_seqno = 5, procPages = None, imtypeDB = ''NOCS_Pre'', imtypeKeyw = ''NOCTYP'', use_mbus = True, use_disp = 0, use_pxf = 1,
     use_threads = 0, disp_enable = 1, stat_enb = 1, rotate_enable = 1, lo_gain = 0, otf_enable = 0, idListing = 1, disp_frame = 1,
     disp_stdimg = 42, trim_ref = 0, skysub = 0, nthread = 0, m_stid = 3, m_out = []\<rparr>"

definition mgr_env0 :: mgr_env where
  "mgr_env0 = \<lparr>sys = env0, display_ok = True, thread_ok = (\<lambda>_. True), cards = (\<lambda>_ _. []), mbhost = ''dhs-1''\<rparr>"

lemma page_of_idle:
  assumes "segs k key = Some s" "key \<noteq> 0" "sg_size s = 4096" "sg_nattch s = 0"
  shows "idle env0 k (page_of key xid)" "cards_ok E k (page_of key xid)"
proof -
  have "state_ok (alive env0) zero_state" "\<not> full zero_state" "view zero_state 42 = None" "smStateGetAttached 42 zero_state = 0"
    by (simp_all add: env0_def state_ok_def pids_ok_def full_def zero_state_def MAX_PROCS_def zero_info_def view_def
        smStateGetAttached_def smStateLookupByPid_def eval_nat_numeral)
  then show "idle env0 k (page_of key xid)" using assms
    by (simp add: idle_def room_def backed_def page_of_def SEG_ATTACHED_def) (simp add: env0_def)
  show "cards_ok E k (page_of key xid)" by (simp add: cards_ok_def page_of_def TY_META_def)
qed

lemma manager0_facts:
  "cache_ok (cache manager0)" "fresh (kern manager0)" "picks None 12 0 (cache manager0) = {0}" "top (cache manager0) = 2"
  "pdata (cache manager0) ! 0 = page_of 11 12" "idle env0 (kern manager0) (page_of 11 12)" "cards_ok E (kern manager0) (page_of 11 12)"
proof -
  have p: "pdata (cache manager0) = [page_of 11 12, page_of 13 7]" "top (cache manager0) = 2" "npages (cache manager0) = 2" by (simp_all add: manager0_def)
  show "cache_ok (cache manager0)" "pdata (cache manager0) ! 0 = page_of 11 12" "top (cache manager0) = 2" using p
    by (simp_all add: cache_ok_def live_def page_of_def less_2_cases_iff)
  show "fresh (kern manager0)" by (simp add: manager0_def fresh_def kernel0_def)
  have "{j. j < 2 \<and> selected None 12 ([page_of 11 12, page_of 13 7] ! j)} = {0}"
    by (auto simp: selected_def wanted_def page_of_def Sm_Cache.smcEqualExpID_def less_2_cases_iff)
  then show "picks None 12 0 (cache manager0) = {0}" using p by (simp add: picks_def)
  have "segs (kern manager0) 11 = Some \<lparr>sg_id = 1, sg_size = 4096, sg_nattch = 0, sg_hdr = zero_segment\<rparr>" by (simp add: manager0_def)
  from page_of_idle [OF this] show "idle env0 (kern manager0) (page_of 11 12)" "cards_ok E (kern manager0) (page_of 11 12)" by simp_all
qed

theorem smcDelExpID_removes_witness:
  "\<exists>c' k'. smcDelExpID env0 (cache manager0) (kern manager0) 12 None = (c', k') \<and> npages c' = 1 \<and> segs k' 11 = None
     \<and> pdata c' ! 1 = page_of 13 7"
proof -
  note f = manager0_facts
  have "\<forall>j \<in> picks None 12 0 (cache manager0). idle env0 (kern manager0) (pdata (cache manager0) ! j)" "apart (cache manager0) (picks None 12 0 (cache manager0))"
    unfolding f(3) using f(5, 6) by (simp_all add: apart_def)
  from smcDelExpID_removes [OF f(1, 2) this] obtain c' k' where
    r: "smcDelExpID env0 (cache manager0) (kern manager0) 12 None = (c', k')" "\<forall>j. pdata c' ! j = (if j \<in> {0} then freed_page else pdata (cache manager0) ! j)"
    "npages c' = npages (cache manager0) - int (Finite_Set.card {0 :: nat})" "\<forall>key. segs k' key = (if key \<in> keys (cache manager0) {0} then None else segs (kern manager0) key)"
    unfolding f(3) by blast
  have "pdata (cache manager0) ! 1 = page_of 13 7" "npages (cache manager0) = 2" by (simp_all add: manager0_def)
  moreover have "11 \<in> keys (cache manager0) {0}" using f(5) by (simp add: keys_def page_of_def)
  ultimately show ?thesis using r by simp
qed

theorem manager_answers_witness:
  "\<exists>m1 m2. mbusMsgHandler mgr_env0 9 (Some (-1, MB_START, ''process '' @ fixed 6 12)) manager0 = Inr (0, m1)
     \<and> mbusMsgHandler mgr_env0 9 (Some (-1, MB_FINISH, ''ExpID '' @ fixed 6 12)) m1 = Inr (0, m2)
     \<and> reports m2 = [''process smc done '' @ fixed 6 12, ''clean done '' @ fixed 6 12] \<and> npages (cache m2) = 1"
proof -
  note f = manager0_facts
  have x: "(0 :: rat) \<le> 12" "length (fixed 6 12) < 30" by (simp, simp add: fixed_def round_even_def Let_def show_nat_steps)
  have a: "atof (fixed 6 12) = 12" using atof_fixed [of 12 "[]"] by (simp add: round_even_def Let_def)
  have m: "use_threads manager0 = 0" "use_pxf manager0 \<noteq> 0" "use_mbus manager0" "procPages manager0 = None" "reports manager0 = []" "npages (cache manager0) = 2"
    by (simp_all add: manager0_def reports_def)
  have J: "{0} = picks (procPages manager0) (atof (fixed 6 12)) 0 (cache manager0)" unfolding a m(4) f(3) ..
  have "serviceable mgr_env0 (atof (fixed 6 12)) 0 manager0"
    unfolding serviceable_def J [symmetric] using f(2, 5-7) cache_okD(1) [OF f(1)] by (simp add: mgr_env0_def)
  from manager_answers [OF m(1-3) f(1) x J this, of 9] obtain m1 m2 where
    "mbusMsgHandler mgr_env0 9 (Some (-1, MB_START, ''process '' @ fixed 6 12)) manager0 = Inr (0, m1)"
    "reports m1 = reports manager0 @ [''process smc done '' @ fixed 6 12]"
    "mbusMsgHandler mgr_env0 9 (Some (-1, MB_FINISH, ''ExpID '' @ fixed 6 12)) m1 = Inr (0, m2)"
    "reports m2 = reports m1 @ [''clean done '' @ fixed 6 12]" "npages (cache m2) = npages (cache manager0) - int (Finite_Set.card {0 :: nat})"
    by (auto simp: apart_def)
  then show ?thesis using m(5, 6) by (intro exI [of _ m1] exI [of _ m2]) simp
qed

theorem option_dirname_loses_a_character_witness:
  "\<exists>m'. mbusMsgHandler mgr_env0 9 (Some (-1, MB_SET, ''option dirname '' @ ''/data/raw'' @ [CHR 0x0A])) manager0 = Inr (0, m')
     \<and> cache m' = smcSetDir (cache manager0) ''data/raw''"
  using option_dirname_loses_a_character [of "''/data/raw''" mgr_env0 9 manager0] by simp

end
