(* ===== verification/Col_Props.thy ===== *)
theory Col_Props
  imports Col_Pan Dca_Props Smc_Manager_Props
begin

text \<open>
  Correctness of the collector: what the library sends of an exposure arrives as pages of the shared
  memory cache, each with its data, its configuration and its names, free for the SMC managers.
\<close>

section \<open>Headers of a segment\<close>

definition with_hdr :: "kernel \<Rightarrow> int \<Rightarrow> (segment \<Rightarrow> segment) \<Rightarrow> kernel" where
  "with_hdr k key f = k\<lparr>segs := (segs k)(key := map_option (\<lambda>s. s\<lparr>sg_hdr := f (sg_hdr s)\<rparr>) (segs k key))\<rparr>"

lemma upd_header_run: "maps k a = Some key \<Longrightarrow> upd_header k a f = Inr (with_hdr k key f)"
  by (simp add: upd_header_def with_hdr_def)

lemma with_hdr_simps [simp]:
  "maps (with_hdr k key f) = maps k" "with_hdr (with_hdr k key f) key g = with_hdr k key (\<lambda>h. g (f h))"
  by (simp_all add: with_hdr_def option.map_comp comp_def)

lemma with_hdr_segs: "segs k key = Some sg \<Longrightarrow> with_hdr k key f = k\<lparr>segs := (segs k)(key := Some (sg\<lparr>sg_hdr := f (sg_hdr sg)\<rparr>))\<rparr>"
  by (simp add: with_hdr_def)

section \<open>A page with one process\<close>

lemma one_proc:
  assumes "si_pid y = m"
  shows "smStateLookupByPid (zero_state[0 := y]) m = Some 0" "zero_state[0 := y] ! 0 = y"
    "smStateGetAddr m (zero_state[0 := y]) = si_addr y" "smStateGetAttached m (zero_state[0 := y]) = si_attached y"
    "smStateSetLTime m (zero_state[0 := y]) t = zero_state[0 := y\<lparr>si_ltime := t\<rparr>]"
    "smStateSetAttached m (zero_state[0 := y]) v = zero_state[0 := y\<lparr>si_attached := v\<rparr>]"
  using assms by (simp_all add: state_access_defs smStateLookupByPid_def zero_state_def MAX_PROCS_def eval_nat_numeral)

lemma leave_page_run:
  assumes c: "pdata (ccache s) ! i = q" "i < length (pdata (ccache s))" "cpid q = me (csys E)"
    and st: "pstate q = zero_state[0 := y]" "si_pid y = me (csys E)" "si_attached y = 1" "si_addr y = a"
    and k: "maps (ckern s) a = Some key" "memKey q = key" "key \<noteq> 0" "segs (ckern s) key = Some sg" "123 \<le> sg_size sg"
  shows "leave_page E i s = s\<lparr>ccache := set_page (ccache s) i (q\<lparr>ac_locked := False,
       pstate := zero_state[0 := y\<lparr>si_ltime := now (csys E), si_attached := 0\<rparr>]\<rparr>),
     ckern := (ckern s)\<lparr>maps := (maps (ckern s))(a := None), segs := (segs (ckern s))(key := Some (sg\<lparr>sg_nattch := sg_nattch sg - 1\<rparr>))\<rparr>,
     c_sem := c_sem s + 1\<rparr>"
proof -
  let ?e = "csys E"
  have u: "smcUnlock ?e q = q\<lparr>ac_locked := False, pstate := zero_state[0 := y\<lparr>si_ltime := now ?e\<rparr>]\<rparr>"
    using st one_proc(4, 5) [OF st(2)] by (simp add: smcUnlock_def SEG_ATTACHED_def Let_def)
  have u2: "smcUnlock ?e (smcUnlock ?e q) = smcUnlock ?e q"
    unfolding u using st one_proc(4, 5) [of "y\<lparr>si_ltime := now ?e\<rparr>" "me ?e"] by (simp add: smcUnlock_def SEG_ATTACHED_def Let_def)
  have d: "smUtilDetach (ckern s) key lf a False = (ckern s)\<lparr>maps := (maps (ckern s))(a := None),
      segs := (segs (ckern s))(key := Some (sg\<lparr>sg_nattch := sg_nattch sg - 1\<rparr>))\<rparr>" for lf
    using k by (simp add: smUtilDetach_def shmdt_def Let_def)
  have a: "SEG_ADDR ?e (smcUnlock ?e q) = a" unfolding u using one_proc(3) [of "y\<lparr>si_ltime := now ?e\<rparr>" "me ?e"] st by (simp add: SEG_ADDR_def)
  have "smcDetach ?e (set_page (ccache s) i (smcUnlock ?e q)) (ckern s) i False
    = (set_page (ccache s) i (q\<lparr>ac_locked := False, pstate := zero_state[0 := y\<lparr>si_ltime := now ?e, si_attached := 0\<rparr>]\<rparr>),
       (ckern s)\<lparr>maps := (maps (ckern s))(a := None), segs := (segs (ckern s))(key := Some (sg\<lparr>sg_nattch := sg_nattch sg - 1\<rparr>))\<rparr>)"
    using c k a u2 d one_proc(6) [of "y\<lparr>si_ltime := now ?e\<rparr>" "me ?e"] st
    by (simp add: smcDetach_def Let_def unlock_same) (simp add: u set_page_def)
  then show ?thesis by (simp add: leave_page_def smcMutexOff_def c(1))
qed

section \<open>Filling a page\<close>

text \<open>What the header and the page get.\<close>

definition pixel_hdr :: "col \<Rightarrow> segment \<Rightarrow> segment" where
  "pixel_hdr s h = h\<lparr>seg_expID := l_expID s, fpCfg := fp_val (l_fp s), obsetID := overlay (obsetID h) (cstr_at (l_obset s) 0),
     seg_colID := overlay (seg_colID h) (c_colID s), expPageNum := c_pageNum s\<rparr>"

definition meta_hdr :: "col \<Rightarrow> segment \<Rightarrow> segment" where
  "meta_hdr s h = h\<lparr>mdCfg := md_val (l_md s), fpCfg := fp_val (l_fp s), seg_expID := l_expID s,
     obsetID := overlay (obsetID h) (cstr_at (l_obset s) 0), seg_colID := overlay (seg_colID h) (c_colID s), expPageNum := c_pageNum s\<rparr>"

definition labelled :: "col \<Rightarrow> smcPage \<Rightarrow> smcPage" where
  "labelled s p = p\<lparr>expID := l_expID s, colID := overlay (colID p) (c_colID s)\<rparr>"

text \<open>The page that the collector has got and is about to fill.\<close>

definition filling :: "col_env \<Rightarrow> nat \<Rightarrow> nat \<Rightarrow> int \<Rightarrow> smcPage \<Rightarrow> col \<Rightarrow> bool" where
  "filling E i a key p s \<longleftrightarrow> pdata (ccache s) ! i = p \<and> i < length (pdata (ccache s)) \<and> SEG_ADDR (csys E) p = a \<and> a \<noteq> 0
     \<and> maps (ckern s) a = Some key \<and> initialized p \<and> memKey p = key \<and> NUL \<in> set (l_obset s)
     \<and> length (cstr_at (l_obset s) 0) < 164 \<and> length (c_colID s) < 164"

lemma SEG_ADDR_upd [simp]: "SEG_ADDR e (p\<lparr>expID := x\<rparr>) = SEG_ADDR e p" "SEG_ADDR e (p\<lparr>colID := y\<rparr>) = SEG_ADDR e p"
  by (simp_all add: SEG_ADDR_def)

lemma store_meta_run:
  assumes "filling E i a key p s" "0 \<le> n"
  shows "store_meta E n blk i s = Inr (leave_page E i (s\<lparr>ccache := set_page (ccache s) i (labelled s p),
     ckern := with_hdr (ckern s) key (meta_hdr s),
     c_pageNum := c_pageNum s + 1, contents := (contents s)(key := blk)\<rparr>))"
  using assms unfolding filling_def store_meta_def name_page_def
  by (simp add: set_hdr_def set_both_def smcSetMDConfig_def smcSetFPConfig_def smcSetExpID_def smcSetObsetID_def smcSetColID_def
      smcSetExpPageNum_def upd_header_run smcGetPageData_def)
    (simp add: set_page_def labelled_def meta_hdr_def [abs_def])

lemma store_pixels_run:
  assumes "filling E i a key p s"
    and "c_recv (sint sz) (s\<lparr>l_array := l_array s + 1, ccache := set_page (ccache s) i (labelled s p), ckern := with_hdr (ckern s) key (pixel_hdr s),
     c_pageNum := c_pageNum s + 1\<rparr>) = (r, got, s')"
  shows "store_pixels E sz i s = Inr (leave_page E i (s'\<lparr>contents := (contents s')(key := overlay (replicate (unat sz) NUL) got)\<rparr>))"
proof -
  let ?s = "s\<lparr>l_array := l_array s + 1, ccache := set_page (ccache s) i (labelled s p), ckern := with_hdr (ckern s) key (pixel_hdr s),
     c_pageNum := c_pageNum s + 1\<rparr>"
  have "ccache s' = ccache ?s" using assms(2) by (auto simp: c_recv_def split: if_splits prod.splits)
  then have "memKey (pdata (ccache s') ! i) = key" using assms(1) by (simp add: filling_def labelled_def)
  moreover have "store_pixels E sz i s = (case c_recv (sint sz) ?s of (_, got, s) \<Rightarrow>
      Inr (leave_page E i (s\<lparr>contents := (contents s)(memKey (pdata (ccache s) ! i) := overlay (replicate (unat sz) NUL) got)\<rparr>)))"
    using assms(1) unfolding filling_def store_pixels_def name_page_def
    by (simp add: set_hdr_def set_both_def smcSetFPConfig_def smcSetExpID_def smcSetObsetID_def smcSetColID_def
        smcSetExpPageNum_def upd_header_run smcGetPageData_def)
      (simp add: set_page_def labelled_def pixel_hdr_def [abs_def])
  ultimately show ?thesis using assms(2) by simp
qed

section \<open>Room for pages\<close>

definition slot_file :: "smCache \<Rightarrow> nat \<Rightarrow> string" where
  "slot_file c i = cache_path c @ ''_'' @ show_nat i"

definition slot_key :: "env \<Rightarrow> smCache \<Rightarrow> nat \<Rightarrow> int" where
  "slot_key e c i = ftok e (slot_file c i)"

text \<open>A slot not in use: its lock file and its segment do not exist.\<close>

definition free_slot :: "smCache \<Rightarrow> nat \<Rightarrow> bool" where
  "free_slot c i \<longleftrightarrow> i < length (pdata c) \<and> (top c \<le> i \<or> memKey (pdata c ! i) = 0)"

definition roomy :: "env \<Rightarrow> smCache \<Rightarrow> kernel \<Rightarrow> nat \<Rightarrow> bool" where
  "roomy e c k n \<longleftrightarrow> cache_ok c \<and> npages c + int n \<le> np_max c \<and> top c + n \<le> length (pdata c) \<and> calloc_ok e \<and> me e \<noteq> 0
     \<and> fresh k \<and> 0 < next_id k \<and> inj_on (slot_key e c) {..<length (pdata c)}
     \<and> (\<forall>i < length (pdata c). length (slot_file c i) < SZ_FNAME \<and> lock_ok e (slot_file c i) \<and> slot_key e c i \<noteq> 0)
     \<and> (\<forall>i. free_slot c i \<longrightarrow> \<not> lockfiles k (slot_file c i) \<and> segs k (slot_key e c i) = None)"

definition fits :: "env \<Rightarrow> block \<Rightarrow> bool" where
  "fits e b \<longleftrightarrow> block_data b \<noteq> [] \<and> int (length (block_data b)) \<le> MAX_SEG_SIZE \<and> 123 \<le> unat (page_align e (raw_size e (int (length (block_data b)))))"

lemma first_free: "roomy e c k (Suc n) \<Longrightarrow> free_slot c (first_slot c)"
  using slot_first(2, 3) [of c] by (cases "first_slot c < top c") (simp_all add: roomy_def free_slot_def)

lemma roomy_can_get:
  assumes "roomy e c k (Suc n)" "sz \<le> MAX_SEG_SIZE" "page_align e (raw_size e sz) \<noteq> 0"
  shows "can_get e c k sz"
  using assms first_free [OF assms(1)] unfolding roomy_def can_get_def fresh_def
  by (auto simp: free_slot_def slot_file_def slot_key_def raw_size_def Let_def)

text \<open>The cache and the system with one page more.\<close>

definition one_more :: "env \<Rightarrow> smCache \<Rightarrow> kernel \<Rightarrow> nat \<Rightarrow> smCache \<Rightarrow> kernel \<Rightarrow> bool" where
  "one_more e c k i c' k' \<longleftrightarrow> top c' = (if i = top c then top c + 1 else top c) \<and> npages c' = npages c + 1 \<and> np_max c' = np_max c
     \<and> cache_path c' = cache_path c \<and> length (pdata c') = length (pdata c) \<and> (\<forall>j. j \<noteq> i \<longrightarrow> pdata c' ! j = pdata c ! j)
     \<and> cache_ok c' \<and> memKey (pdata c' ! i) \<noteq> 0 \<and> maps k' = maps k \<and> next_addr k \<le> next_addr k' \<and> 0 < next_id k'
     \<and> lockfiles k' = (lockfiles k)(slot_file c i := True) \<and> (\<forall>key. key \<noteq> slot_key e c i \<longrightarrow> segs k' key = segs k key)"

lemma one_more_slots: "one_more e c k i c' k' \<Longrightarrow> slot_file c' = slot_file c \<and> slot_key e c' = slot_key e c"
  by (auto simp: one_more_def slot_file_def slot_key_def fun_eq_iff)

lemma one_more_free:
  assumes "one_more e c k i c' k'" "i \<le> top c" "free_slot c' j"
  shows "free_slot c j \<and> j \<noteq> i"
proof (cases "j = i")
  case True
  then show ?thesis using assms by (auto simp: one_more_def free_slot_def split: if_splits)
next
  case False
  then show ?thesis using assms by (auto simp: one_more_def free_slot_def split: if_splits)
qed

lemma one_more_roomy:
  assumes r: "roomy e c k (Suc n)" and m: "one_more e c k (first_slot c) c' k'"
  shows "roomy e c' k' n"
proof -
  let ?i = "first_slot c"
  note s = one_more_slots [OF m]
  have le: "?i \<le> top c" using r slot_first(2) [of c] by (simp add: roomy_def)
  have i: "?i < length (pdata c)" using first_free [OF r] by (simp add: free_slot_def)
  have free: "\<not> lockfiles k' (slot_file c' j) \<and> segs k' (slot_key e c' j) = None" if j: "free_slot c' j" for j
  proof -
    have f: "free_slot c j" "j \<noteq> ?i" using one_more_free [OF m le j] by simp_all
    have inj: "inj_on (slot_key e c) {..<length (pdata c)}" using r by (simp add: roomy_def)
    have "slot_key e c j \<noteq> slot_key e c ?i" using inj_onD [OF inj, of j ?i] f i by (auto simp: free_slot_def)
    then have "slot_key e c j \<noteq> slot_key e c ?i" "slot_file c j \<noteq> slot_file c ?i" by (auto simp: slot_key_def)
    moreover have "\<not> lockfiles k (slot_file c j)" "segs k (slot_key e c j) = None" using r f(1) by (simp_all add: roomy_def)
    ultimately show ?thesis using m by (simp add: one_more_def s)
  qed
  have "fresh k'" using r m by (auto simp: roomy_def fresh_def one_more_def)
  then show ?thesis using r m free i by (auto simp: roomy_def one_more_def s split: if_splits)
qed

section \<open>One page\<close>

lemma cache_ok_set_page:
  assumes ok: "cache_ok c" and p: "memKey p = memKey (pdata c ! i)" "free_flag p = free_flag (pdata c ! i)"
  shows "cache_ok (set_page c i p)"
proof (cases "i < length (pdata c)")
  case True
  have "map memKey ((pdata c)[i := p]) = map memKey (pdata c)" using p(1) True by (simp add: map_update list_update_same_conv)
  then have "map memKey (take (top c) ((pdata c)[i := p])) = map memKey (take (top c) (pdata c))" by (simp add: take_map [symmetric])
  then have "length (filter (\<lambda>k. k \<noteq> 0) (map memKey (take (top c) ((pdata c)[i := p])))) = length (filter (\<lambda>k. k \<noteq> 0) (map memKey (take (top c) (pdata c))))"
    by simp
  then have "length (live (set_page c i p)) = length (live c)" by (simp add: live_def filter_map comp_def)
  moreover have "free_flag ((pdata c)[i := p] ! j) \<longrightarrow> memKey ((pdata c)[i := p] ! j) = 0" if "j < top c" for j
    using cache_okD(3) [OF ok that] p that cache_okD(1) [OF ok] by (cases "j = i") simp_all
  ultimately show ?thesis using ok by (simp add: cache_ok_def)
next
  case False
  then have "set_page c i p = c" by (simp add: set_page_def list_update_beyond)
  then show ?thesis using ok by simp
qed

lemma deposit:
  assumes r: "roomy e c k (Suc n)" and can: "can_get e c k sz" and big: "123 \<le> unat (page_align e (raw_size e sz))"
    and E: "e = csys E" "i = first_slot c" "p = got_page e c k ty sz True" "q = p\<lparr>expID := x, colID := cid\<rparr>"
    and s: "ccache s = set_page (got_cache e c k ty sz True) i q" "ckern s = with_hdr (got_kernel e c k ty sz) (slot_key e c i) f"
  shows "\<exists>c' k' y. leave_page E i s = s\<lparr>ccache := c', ckern := k', c_sem := c_sem s + 1\<rparr> \<and> one_more e c k i c' k'
     \<and> pdata c' ! i = q\<lparr>ac_locked := False, pstate := zero_state[0 := y]\<rparr> \<and> si_pid y = me e \<and> si_attached y = 0
     \<and> segs k' (slot_key e c i) = Some \<lparr>sg_id = next_id k, sg_size = unat (pg_size p), sg_nattch = 0, sg_hdr = f (new_header e c i p (next_id k) sz)\<rparr>"
proof -
  let ?a = "next_addr k" and ?key = "slot_key e c i"
  let ?sg = "\<lparr>sg_id = next_id k, sg_size = unat (pg_size p), sg_nattch = 1, sg_hdr = f (new_header e c i p (next_id k) sz)\<rparr>"
  define y where "y = zero_info\<lparr>si_smc := smc_ptr e, si_pid := me e, si_atime := now e, si_ltime := now e, si_addr := ?a, si_attached := 1\<rparr>"
  define y' where "y' = y\<lparr>si_ltime := now e, si_attached := 0\<rparr>"
  have g: "i < length (pdata c)" "me e \<noteq> 0" "?key \<noteq> 0" "maps k ?a = None"
    using can E(2) by (auto simp: can_get_def Let_def slot_key_def slot_file_def)
  have key: "memKey p = ?key" "lockFile p = slot_file c i" by (simp_all add: E slot_key_def slot_file_def)
  have q: "pdata (ccache s) ! i = q" "length (pdata (ccache s)) = length (pdata c)" using g(1) by (simp_all add: s(1) got_cache_def)
  have yst: "pstate q = zero_state[0 := y]" "si_pid y = me e" "si_attached y = 1" "si_addr y = ?a"
    by (simp_all add: E(3, 4) got_page_def Let_def y_def)
  have gk: "maps (got_kernel e c k ty sz) = (maps k)(?a \<mapsto> ?key)"
      "segs (got_kernel e c k ty sz) = (segs k)(?key := Some \<lparr>sg_id = next_id k, sg_size = unat (pg_size p), sg_nattch = 1, sg_hdr = new_header e c i p (next_id k) sz\<rparr>)"
      "lockfiles (got_kernel e c k ty sz) = (lockfiles k)(slot_file c i := True)"
      "next_id (got_kernel e c k ty sz) = next_id k + 1" "next_addr (got_kernel e c k ty sz) = next_addr k + 1"
    using key by (simp_all add: got_kernel_def Let_def E)
  have k: "maps (ckern s) ?a = Some ?key" "segs (ckern s) ?key = Some ?sg" "123 \<le> sg_size ?sg"
    using big by (simp_all add: s(2) gk with_hdr_def E(3))
  let ?q = "q\<lparr>ac_locked := False, pstate := zero_state[0 := y']\<rparr>"
  let ?c' = "set_page (ccache s) i ?q"
  let ?k' = "(ckern s)\<lparr>maps := (maps (ckern s))(?a := None), segs := (segs (ckern s))(?key := Some (?sg\<lparr>sg_nattch := sg_nattch ?sg - 1\<rparr>))\<rparr>"
  have mq: "memKey q = ?key" "cpid q = me e" using key by (simp_all add: E)
  have run: "leave_page E i s = s\<lparr>ccache := ?c', ckern := ?k', c_sem := c_sem s + 1\<rparr>"
    using leave_page_run [of s i q E y ?a ?key ?sg] q g k yst mq unfolding E(1) [symmetric] by (simp add: y'_def)
  have okc: "cache_ok ?c'"
  proof -
    have "cache_ok (got_cache e c k ty sz True)" using r by (intro got_cache_ok [OF _ can]) (simp add: roomy_def)
    moreover have "pdata (got_cache e c k ty sz True) ! i = p" using g(1) by (simp add: got_cache_def E)
    moreover have "free_flag q = free_flag p" "free_flag ?q = free_flag q" "memKey ?q = memKey q" "memKey q = memKey p" by (simp_all add: E(4))
    ultimately show ?thesis using cache_ok_set_page [OF cache_ok_set_page [of "got_cache e c k ty sz True" q i], of ?q i] q(1) s(1) by simp
  qed
  have "one_more e c k i ?c' ?k'"
    using okc g r gk mq unfolding one_more_def
    by (auto simp: s got_cache_def E(2) [symmetric] fun_eq_iff with_hdr_def roomy_def)
  moreover have "pdata ?c' ! i = ?q" "si_pid y' = me e" "si_attached y' = 0" using g(1) q(2) yst(2) by (simp_all add: y'_def)
  ultimately show ?thesis using run by (intro exI [of _ ?c'] exI [of _ ?k'] exI [of _ y']) simp
qed

section \<open>One block of data\<close>

definition block_ty :: "block \<Rightarrow> int" where
  "block_ty b = (case b of Pixels p f \<Rightarrow> TY_DATA | Meta t m \<Rightarrow> TY_META)"

definition block_cfg :: "block \<Rightarrow> segment \<Rightarrow> bool" where
  "block_cfg b h \<longleftrightarrow> (case b of Pixels p f \<Rightarrow> fpCfg h = f | Meta t m \<Rightarrow> mdCfg h = m)"

text \<open>Pixels are as many as their configuration says, the tables of metadata have their full size.\<close>

definition well :: "block \<Rightarrow> bool" where
  "well b \<longleftrightarrow> (case b of Pixels p f \<Rightarrow> sint (ySize f * xSize f * 4) = int (length p) | Meta t m \<Rightarrow> md_ok m)"

text \<open>Slot \<open>i\<close> has a page with the block, named, neither locked nor attached.\<close>

definition holds :: "col_env \<Rightarrow> rat \<Rightarrow> string \<Rightarrow> string \<Rightarrow> int \<Rightarrow> block \<Rightarrow> nat \<Rightarrow> col \<Rightarrow> bool" where
  "holds E x o' cid n b i s \<longleftrightarrow> (\<exists>y sg. let p = pdata (ccache s) ! i in
     i < top (ccache s) \<and> memKey p \<noteq> 0 \<and> memKey p = slot_key (csys E) (ccache s) i \<and> lockFile p = slot_file (ccache s) i
     \<and> pg_type p = block_ty b \<and> expID p = x \<and> colID p = cid \<and> \<not> ac_locked p \<and> initialized p \<and> 123 \<le> unat (pg_size p)
     \<and> pstate p = zero_state[0 := y] \<and> si_pid y = me (csys E) \<and> si_attached y = 0
     \<and> segs (ckern s) (memKey p) = Some sg \<and> sg_size sg = unat (pg_size p) \<and> sg_nattch sg = 0
     \<and> seg_expID (sg_hdr sg) = x \<and> obsetID (sg_hdr sg) = o' \<and> seg_colID (sg_hdr sg) = cid \<and> expPageNum (sg_hdr sg) = n
     \<and> dsize (sg_hdr sg) = word_of_nat (length (block_data b)) \<and> block_cfg b (sg_hdr sg) \<and> contents s (memKey p) = block_data b)"

definition ready :: "col \<Rightarrow> bool" where
  "ready s \<longleftrightarrow> 0 < c_sem s \<and> NUL \<in> set (l_obset s) \<and> length (cstr_at (l_obset s) 0) < 164 \<and> length (c_colID s) < 164"

definition after :: "col_env \<Rightarrow> block \<Rightarrow> col \<Rightarrow> col \<Rightarrow> bool" where
  "after E b s s' \<longleftrightarrow> (let i = first_slot (ccache s) in
     one_more (csys E) (ccache s) (ckern s) i (ccache s') (ckern s')
     \<and> holds E (l_expID s) (cstr_at (l_obset s) 0) (c_colID s) (c_pageNum s) b i s'
     \<and> (\<forall>key. key \<noteq> slot_key (csys E) (ccache s) i \<longrightarrow> contents s' key = contents s key)
     \<and> c_pageNum s' = c_pageNum s + 1 \<and> c_sem s' = c_sem s \<and> l_expID s' = l_expID s \<and> l_obset s' = l_obset s \<and> c_colID s' = c_colID s
     \<and> l_total s' = l_total s + word_of_nat (length (block_data b)) \<and> (\<exists>news. c_out s' = c_out s @ news))"

lemma c_recv_stream:
  assumes "plain (c_in s)" "stream (c_in s) = b @ rest" "b \<noteq> []"
  shows "\<exists>rs'. c_recv (int (length b)) s = (int (length b), b, s\<lparr>c_in := rs'\<rparr>) \<and> plain rs' \<and> stream rs' = rest"
proof -
  have n: "0 < length b" using assms(3) by simp
  obtain rs' where "recv_loop (c_in s) (length b) [] = (int (length b), b, rs')" "plain rs'" "stream rs' = rest"
    using recv_loop_stream [OF assms(1) n, of "[]"] by (auto simp: assms(2))
  then show ?thesis using n by (intro exI [of _ rs']) (simp add: c_recv_def dcaRecv_def)
qed

lemma get_run:
  assumes "roomy (csys E) (ccache s) (ckern s) (Suc n)" "can_get (csys E) (ccache s) (ckern s) sz" "0 < c_sem s"
  shows "get_page E ty sz s = Inr (Some (first_slot (ccache s)), s\<lparr>c_sem := c_sem s - 1, ccache := got_cache (csys E) (ccache s) (ckern s) ty sz True,
     ckern := got_kernel (csys E) (ccache s) (ckern s) ty sz\<rparr>)"
  using assms smcGetPage_run [OF _ assms(2)] by (simp add: get_page_def smcMutexOn_def roomy_def)

lemma got_filling:
  assumes r: "roomy (csys E) (ccache s) (ckern s) (Suc n)" and can: "can_get (csys E) (ccache s) (ckern s) sz" and rd: "ready s"
  shows "filling E (first_slot (ccache s)) (next_addr (ckern s)) (slot_key (csys E) (ccache s) (first_slot (ccache s)))
     (got_page (csys E) (ccache s) (ckern s) ty sz True)
     (s\<lparr>c_sem := c_sem s - 1, ccache := got_cache (csys E) (ccache s) (ckern s) ty sz True, ckern := got_kernel (csys E) (ccache s) (ckern s) ty sz\<rparr>)"
proof -
  have "first_slot (ccache s) < length (pdata (ccache s))" "me (csys E) \<noteq> 0" "0 < next_addr (ckern s)"
    using can by (simp_all add: can_get_def Let_def)
  then show ?thesis using rd got_page_state(1) [of "csys E" "ccache s" "ckern s" ty sz True]
    by (simp add: filling_def got_cache_def got_kernel_def Let_def slot_key_def slot_file_def ready_def)
qed

lemma word_int: "n < 2 ^ 31 \<Longrightarrow> sint (word_of_nat n :: 32 word) = int n"
  by (simp add: sint_uint unsigned_of_nat take_bit_nat_eq_self signed_take_bit_int_eq_self)

lemma fits_can:
  assumes "fits e b" "roomy e c k (Suc n)"
  shows "can_get e c k (int (length (block_data b)))" "length (block_data b) < 2 ^ 31"
proof -
  have "page_align e (raw_size e (int (length (block_data b)))) \<noteq> 0" using assms(1) by (auto simp: fits_def)
  then show "can_get e c k (int (length (block_data b)))" using assms by (intro roomy_can_get) (simp_all add: fits_def)
  show "length (block_data b) < 2 ^ 31" using assms(1) by (simp add: fits_def MAX_SEG_SIZE_def)
qed

text \<open>A page that has been filled and left: \<open>s\<close> is the state before, \<open>s4\<close> that with the page got.\<close>

lemma after_leave:
  assumes r: "roomy (csys E) (ccache s) (ckern s) (Suc n)" and f: "fits (csys E) b"
    and b: "i = first_slot (ccache s)" "key = slot_key (csys E) (ccache s) i"
      "p = got_page (csys E) (ccache s) (ckern s) (block_ty b) (int (length (block_data b))) True" "q = labelled s p"
    and t: "ccache t = set_page (got_cache (csys E) (ccache s) (ckern s) (block_ty b) (int (length (block_data b))) True) i q"
      "ckern t = with_hdr (got_kernel (csys E) (ccache s) (ckern s) (block_ty b) (int (length (block_data b)))) key g"
      "contents t = (contents s)(key := block_data b)" "c_pageNum t = c_pageNum s + 1" "l_expID t = l_expID s" "l_obset t = l_obset s"
      "c_colID t = c_colID s" "0 < c_sem s" "c_sem t = c_sem s - 1" "l_total t = l_total s + word_of_nat (length (block_data b))" "c_out t = c_out s @ news"
    and h: "\<And>h. obsetID h = [] \<Longrightarrow> seg_colID h = [] \<Longrightarrow> seg_expID (g h) = l_expID s \<and> obsetID (g h) = cstr_at (l_obset s) 0 \<and> seg_colID (g h) = c_colID s
      \<and> expPageNum (g h) = c_pageNum s \<and> dsize (g h) = dsize h \<and> block_cfg b (g h)"
  shows "after E b s (leave_page E i t)" "c_in (leave_page E i t) = c_in t"
proof -
  let ?e = "csys E" and ?c = "ccache s" and ?k = "ckern s" and ?n = "int (length (block_data b))"
  have can: "can_get ?e ?c ?k ?n" by (rule fits_can(1) [OF f r])
  have big: "123 \<le> unat (page_align ?e (raw_size ?e ?n))" using f by (simp add: fits_def)
  have q: "q = p\<lparr>expID := l_expID s, colID := c_colID s\<rparr>" by (simp add: b(3, 4) labelled_def got_page_def Let_def zero_page_def overlay_def)
  obtain c' k' y where d: "leave_page E i t = t\<lparr>ccache := c', ckern := k', c_sem := c_sem t + 1\<rparr>" "one_more ?e ?c ?k i c' k'"
     "pdata c' ! i = q\<lparr>ac_locked := False, pstate := zero_state[0 := y]\<rparr>" "si_pid y = me ?e" "si_attached y = 0"
     "segs k' key = Some \<lparr>sg_id = next_id ?k, sg_size = unat (pg_size p), sg_nattch = 0, sg_hdr = g (new_header ?e ?c i p (next_id ?k) ?n)\<rparr>"
    using deposit [OF r can big refl b(1) b(3) q t(1) t(2) [unfolded b(2)]] unfolding b(2) by blast
  let ?h = "new_header ?e ?c i p (next_id ?k) ?n"
  have hh: "obsetID ?h = []" "seg_colID ?h = []" "dsize ?h = word_of_nat (length (block_data b))" by (simp_all add: new_header_def zero_segment_def)
  have kp: "memKey p = key" "lockFile p = slot_file ?c i" "pg_size p = page_align ?e (raw_size ?e ?n)" "pg_type p = block_ty b" "initialized p"
    by (simp_all add: b slot_key_def slot_file_def)
  have k0: "key \<noteq> 0" using d(2, 3) kp(1) q by (simp add: one_more_def)
  have i: "i < top c'" using d(2) slot_first(2) [of ?c] r b(1) by (auto simp: one_more_def roomy_def)
  have sl: "slot_file c' = slot_file ?c" "slot_key ?e c' = slot_key ?e ?c" using one_more_slots [OF d(2)] by simp_all
  have "holds E (l_expID s) (cstr_at (l_obset s) 0) (c_colID s) (c_pageNum s) b i (leave_page E i t)"
    unfolding holds_def Let_def using d kp k0 i h [OF hh(1, 2)] hh(3) big b(2)
    by (intro exI [of _ y] exI [of _ "\<lparr>sg_id = next_id ?k, sg_size = unat (pg_size p), sg_nattch = 0, sg_hdr = g ?h\<rparr>"])
      (simp add: q sl t(3))
  then show "after E b s (leave_page E i t)" using d(1, 2) t b(1, 2) by (simp add: after_def Let_def)
  show "c_in (leave_page E i t) = c_in t" by (rule keeps_in(4))
qed

lemma meta_step:
  assumes r: "roomy (csys E) (ccache s) (ckern s) (Suc n)" and f: "fits (csys E) (Meta t m)" and m: "md_ok m" and rd: "ready s"
    and st: "plain (c_in s)" "stream (c_in s) = (le 8 (length t) @ replicate 112 NUL) @ t @ md_rep m @ rest"
  shows "\<exists>s'. meta_msg E buf s = Inr (True, s') \<and> after E (Meta t m) s s' \<and> plain (c_in s') \<and> stream (c_in s') = rest"
proof -
  let ?n = "int (length t)" and ?b = "Meta t m" and ?i = "first_slot (ccache s)" and ?key = "slot_key (csys E) (ccache s) (first_slot (ccache s))"
  have bd: "block_data ?b = t" "block_ty ?b = TY_META" by (simp_all add: block_data_def block_ty_def)
  have can: "can_get (csys E) (ccache s) (ckern s) ?n" "length t < 2 ^ 31" "t \<noteq> []" using fits_can [OF f r] f by (simp_all add: bd fits_def)
  obtain rs1 where 1: "c_recv 120 s = (120, le 8 (length t) @ replicate 112 NUL, s\<lparr>c_in := rs1\<rparr>)" "plain rs1" "stream rs1 = t @ md_rep m @ rest"
    using c_recv_stream [OF st] by auto
  have sz: "sint (rd32 (overlay buf (le 8 (length t) @ replicate 112 NUL)) 0) = ?n"
    using can(2) by (simp add: rd32_def overlay_def take_le un_le word_int)
  let ?s1 = "c_tell (s\<lparr>c_in := rs1\<rparr>) ''Reading metadata...'' MB_STATUS"
  obtain rs2 where 2: "c_recv ?n ?s1 = (?n, t, ?s1\<lparr>c_in := rs2\<rparr>)" "plain rs2" "stream rs2 = md_rep m @ rest"
    using c_recv_stream [of ?s1 t "md_rep m @ rest"] 1 can(3) by (auto simp: c_tell_def)
  have ml: "length (md_rep m) = SZ_MD" "md_rep m \<noteq> []" using length_md_rep [OF m] by (auto simp: SZ_MD_def)
  obtain rs3 where 3: "c_recv (int SZ_MD) (?s1\<lparr>c_in := rs2\<rparr>) = (int SZ_MD, md_rep m, ?s1\<lparr>c_in := rs2\<rparr>\<lparr>c_in := rs3\<rparr>)" "plain rs3" "stream rs3 = rest"
    using c_recv_stream [of "?s1\<lparr>c_in := rs2\<rparr>" "md_rep m" rest] 2 ml by auto
  let ?s3 = "?s1\<lparr>c_in := rs2\<rparr>\<lparr>c_in := rs3\<rparr>\<lparr>l_md := overlay (l_md s) (md_rep m), l_total := l_total s + word_of_int ?n\<rparr>"
  have s3: "ccache ?s3 = ccache s" "ckern ?s3 = ckern s" "ready ?s3" and sem: "0 < c_sem s" using rd by (simp_all add: c_tell_def ready_def)
  let ?s4 = "?s3\<lparr>c_sem := c_sem ?s3 - 1, ccache := got_cache (csys E) (ccache s) (ckern s) TY_META ?n True, ckern := got_kernel (csys E) (ccache s) (ckern s) TY_META ?n\<rparr>"
  have get: "get_page E TY_META ?n ?s3 = Inr (Some ?i, ?s4)"
    using get_run [of E ?s3 n ?n TY_META] r can(1) s3 unfolding ready_def by simp
  let ?p = "got_page (csys E) (ccache s) (ckern s) TY_META ?n True"
  have fl: "filling E ?i (next_addr (ckern s)) ?key ?p ?s4"
    using got_filling [of E ?s3 n ?n TY_META] r can(1) s3 by simp
  let ?t = "?s4\<lparr>ccache := set_page (ccache ?s4) ?i (labelled ?s4 ?p), ckern := with_hdr (ckern ?s4) ?key (meta_hdr ?s4),
     c_pageNum := c_pageNum ?s4 + 1, contents := (contents ?s4)(?key := t)\<rparr>"
  have store: "store_meta E ?n t ?i ?s4 = Inr (leave_page E ?i ?t)" by (rule store_meta_run [OF fl]) simp
  have blk: "overlay (replicate (nat ?n) NUL) t = t" by (simp add: overlay_def)
  have run: "meta_msg E buf s = Inr (True, leave_page E ?i ?t)"
    unfolding meta_msg_def Let_def 1(1) sz prod.case 2(1) blk 3(1)
    using get store by (simp add: c_tell_def)
  have "after E ?b s (leave_page E ?i ?t)" "c_in (leave_page E ?i ?t) = c_in ?t"
    by (rule after_leave [OF r f refl refl refl refl, where g = "meta_hdr ?s4" and news = "[C_Super ''Reading metadata...'' MB_STATUS]"];
        simp add: sem bd c_tell_def labelled_def meta_hdr_def overlay_def block_cfg_def md_val_rep [OF m])+
  then show ?thesis using run 3 by (intro exI [of _ "leave_page E ?i ?t"]) (simp add: c_tell_def)
qed

lemma bin_factor_run:
  assumes "sint (ySize f * xSize f * 4) = int (length p)" "p \<noteq> []"
  shows "\<exists>nb. bin_factor E f = Inr nb"
proof -
  have "ySize f \<noteq> 0" using assms by auto
  then have "sint (ySize f) \<noteq> 0" by (simp add: signed_eq_0_iff)
  then show ?thesis by (simp add: bin_factor_def Let_def)
qed

lemma pixel_step:
  assumes r: "roomy (csys E) (ccache s) (ckern s) (Suc n)" and f: "fits (csys E) (Pixels p f)" and m: "well (Pixels p f)" and rd: "ready s"
    and st: "plain (c_in s)" "stream (c_in s) = fp_rep f @ p @ rest"
  shows "\<exists>s'. pixel_msg E s = Inr (True, s') \<and> after E (Pixels p f) s s' \<and> plain (c_in s') \<and> stream (c_in s') = rest"
proof -
  let ?n = "int (length p)" and ?b = "Pixels p f" and ?i = "first_slot (ccache s)" and ?key = "slot_key (csys E) (ccache s) (first_slot (ccache s))"
  let ?sz = "ySize f * xSize f * 4"
  have bd: "block_data ?b = p" "block_ty ?b = TY_DATA" by (simp_all add: block_data_def block_ty_def)
  have can: "can_get (csys E) (ccache s) (ckern s) ?n" "length p < 2 ^ 31" "p \<noteq> []" using fits_can [OF f r] f by (simp_all add: bd fits_def)
  have sz: "sint ?sz = ?n" using m by (simp add: well_def)
  have wn: "?sz = word_of_nat (length p)" using sz by (metis of_int_of_nat_eq of_int_sint scast_id)
  have un: "unat ?sz = length p" using wn can(2) by (simp add: unsigned_of_nat take_bit_nat_eq_self)
  obtain nb where nb: "bin_factor E f = Inr nb" using bin_factor_run [OF sz can(3)] by blast
  have fl0: "fp_rep f \<noteq> []" "length (fp_rep f) = SZ_FP"
    by (metis length_fp_rep list.size(3) SZ_FP_def zero_neq_numeral, rule length_fp_rep)
  obtain rs1 where 1: "c_recv (int SZ_FP) s = (int SZ_FP, fp_rep f, s\<lparr>c_in := rs1\<rparr>)" "plain rs1" "stream rs1 = p @ rest"
    using c_recv_stream [OF st fl0(1)] by (auto simp: fl0(2))
  let ?s1 = "s\<lparr>c_in := rs1\<rparr>\<lparr>l_fp := overlay (l_fp s) (fp_rep f)\<rparr>"
  have fp: "fp_val (overlay (l_fp s) (fp_rep f)) = f" by (simp add: overlay_def fp_val_rep)
  let ?s2 = "c_tell (?s1\<lparr>l_total := l_total s + ?sz\<rparr>) ''Reading Pixel data...'' MB_STATUS"
  let ?s3 = "c_tell (?s2\<lparr>c_nbin := nb\<rparr>) (''nbin '' @ show_int nb) MB_SET"
  have s3: "ccache ?s3 = ccache s" "ckern ?s3 = ckern s" "ready ?s3" and sem: "0 < c_sem s" using rd by (simp_all add: c_tell_def ready_def)
  let ?s4 = "?s3\<lparr>c_sem := c_sem ?s3 - 1, ccache := got_cache (csys E) (ccache s) (ckern s) TY_DATA ?n True, ckern := got_kernel (csys E) (ccache s) (ckern s) TY_DATA ?n\<rparr>"
  have get: "get_page E TY_DATA ?n ?s3 = Inr (Some ?i, ?s4)"
    using get_run [of E ?s3 n ?n TY_DATA] r can(1) s3 unfolding ready_def by simp
  let ?p = "got_page (csys E) (ccache s) (ckern s) TY_DATA ?n True"
  have fl: "filling E ?i (next_addr (ckern s)) ?key ?p ?s4"
    using got_filling [of E ?s3 n ?n TY_DATA] r can(1) s3 by simp
  let ?s5 = "?s4\<lparr>l_array := l_array ?s4 + 1, ccache := set_page (ccache ?s4) ?i (labelled ?s4 ?p), ckern := with_hdr (ckern ?s4) ?key (pixel_hdr ?s4),
     c_pageNum := c_pageNum ?s4 + 1\<rparr>"
  obtain rs2 where 2: "c_recv ?n ?s5 = (?n, p, ?s5\<lparr>c_in := rs2\<rparr>)" "plain rs2" "stream rs2 = rest"
    using c_recv_stream [of ?s5 p rest] 1 can(3) by (auto simp: c_tell_def)
  let ?t = "?s5\<lparr>c_in := rs2\<rparr>\<lparr>contents := (contents (?s5\<lparr>c_in := rs2\<rparr>))(?key := overlay (replicate (unat ?sz) NUL) p)\<rparr>"
  have store: "store_pixels E ?sz ?i ?s4 = Inr (leave_page E ?i ?t)" by (rule store_pixels_run [OF fl]) (simp only: sz 2(1))
  have run: "pixel_msg E s = Inr (True, leave_page E ?i ?t)"
  proof -
    have "l_fp ?s1 = overlay (l_fp s) (fp_rep f)" "l_total ?s1 = l_total s" by simp_all
    then have "pixel_msg E s = bind_res (get_page E TY_DATA (sint ?sz) ?s3) (\<lambda>(io, s).
        case io of None \<Rightarrow> Inl Null_Deref | Some i \<Rightarrow> bind_res (store_pixels E ?sz i s) (\<lambda>s. Inr (True, s)))"
      unfolding pixel_msg_def Let_def 1(1) prod.case by (simp add: fp nb cong: option.case_cong)
    also have "\<dots> = Inr (True, leave_page E ?i ?t)" unfolding sz get by (simp only: bind_res_simps prod.case option.case store)
    finally show ?thesis .
  qed
  have "after E ?b s (leave_page E ?i ?t)" "c_in (leave_page E ?i ?t) = c_in ?t"
    by (rule after_leave [OF r f refl refl refl refl, where g = "pixel_hdr ?s4"
          and news = "[C_Super ''Reading Pixel data...'' MB_STATUS, C_Super (''nbin '' @ show_int nb) MB_SET]"];
        simp add: sem bd c_tell_def labelled_def pixel_hdr_def overlay_def block_cfg_def fp_val_rep wn un [unfolded wn])+
  then show ?thesis using run 2 by (intro exI [of _ "leave_page E ?i ?t"]) (simp add: c_tell_def)
qed

section \<open>The loop over the messages\<close>

lemma col_loop_on: "col_msg E buf s = Inr (True, s') \<Longrightarrow> col_loop E buf s = col_run E s'"
  by (simp add: col_loop.simps [of E buf s] col_run_def)

lemma col_loop_off: "col_msg E buf s = Inr (False, s') \<Longrightarrow> col_loop E buf s = Inr (0, s')"
  by (simp add: col_loop.simps [of E buf s])

lemma col_run_next:
  assumes "plain (c_in s)" "stream (c_in s) = buf @ rest" "length buf = 120"
  shows "\<exists>rs'. col_run E s = col_loop E buf (s\<lparr>c_in := rs'\<rparr>) \<and> plain rs' \<and> stream rs' = rest"
proof -
  have "buf \<noteq> []" using assms(3) by auto
  from c_recv_stream [OF assms(1, 2) this] show ?thesis by (auto simp: col_run_def assms(3))
qed

lemma after_c_in: "after E b (s\<lparr>c_in := rs\<rparr>) s' = after E b s s'"
  by (simp add: after_def)

lemma block_step:
  assumes r: "roomy (csys E) (ccache s) (ckern s) (Suc n)" and f: "fits (csys E) b" "well b" and rd: "ready s"
    and d: "dbl_ok (cdca E) (d_expID L)" and st: "plain (c_in s)" "stream (c_in s) = wire (cdca E) L b @ rest"
  shows "\<exists>s'. col_run E s = col_run E s' \<and> after E b s s' \<and> plain (c_in s') \<and> stream (c_in s') = rest"
proof (cases b)
  case (Pixels p g)
  let ?buf = "msg_rep (cdca E) L DCA_PIXEL DHS_IAMWHO"
  have "stream (c_in s) = ?buf @ (fp_rep g @ p @ rest)" using st(2) Pixels by (simp add: wire_def)
  then obtain rs where 1: "col_run E s = col_loop E ?buf (s\<lparr>c_in := rs\<rparr>)" "plain rs" "stream rs = fp_rep g @ p @ rest"
    using col_run_next [OF st(1) _ msg_rep_val(1) [OF d]] by blast
  have "col_msg E ?buf s1 = pixel_msg E s1" for s1
    unfolding col_msg_def Let_def msg_rep_val(2) [OF d] by (simp add: dca_defs dca_type_defs)
  moreover obtain s' where "pixel_msg E (s\<lparr>c_in := rs\<rparr>) = Inr (True, s')" "after E (Pixels p g) (s\<lparr>c_in := rs\<rparr>) s'" "plain (c_in s')" "stream (c_in s') = rest"
    using pixel_step [of E "s\<lparr>c_in := rs\<rparr>" n p g rest] r f rd 1 Pixels by (auto simp: ready_def)
  ultimately show ?thesis using 1(1) col_loop_on [of E ?buf] Pixels unfolding after_c_in by metis
next
  case (Meta t m)
  let ?buf = "msg_rep (cdca E) L DCA_META 0"
  have "stream (c_in s) = ?buf @ ((le 8 (length t) @ replicate 112 NUL) @ t @ md_rep m @ rest)" using st(2) Meta by (simp add: wire_def)
  then obtain rs where 1: "col_run E s = col_loop E ?buf (s\<lparr>c_in := rs\<rparr>)" "plain rs" "stream rs = (le 8 (length t) @ replicate 112 NUL) @ t @ md_rep m @ rest"
    using col_run_next [OF st(1) _ msg_rep_val(1) [OF d]] by blast
  have "col_msg E ?buf s1 = meta_msg E ?buf s1" for s1
    unfolding col_msg_def Let_def msg_rep_val(2) [OF d] by (simp add: dca_defs dca_type_defs)
  moreover have "md_ok m" using f(2) Meta by (simp add: well_def)
  moreover obtain s' where "meta_msg E ?buf (s\<lparr>c_in := rs\<rparr>) = Inr (True, s')" "after E (Meta t m) (s\<lparr>c_in := rs\<rparr>) s'" "plain (c_in s')" "stream (c_in s') = rest"
    using meta_step [of E "s\<lparr>c_in := rs\<rparr>" n t m rest ?buf] r f rd 1 Meta by (auto simp: ready_def well_def)
  ultimately show ?thesis using 1(1) col_loop_on [of E ?buf] Meta unfolding after_c_in by metis
qed

text \<open>The blocks are in the slots \<open>js\<close>, which were free; nothing else has changed.\<close>

definition stored :: "col_env \<Rightarrow> rat \<Rightarrow> string \<Rightarrow> int \<Rightarrow> block list \<Rightarrow> col \<Rightarrow> nat list \<Rightarrow> col \<Rightarrow> bool" where
  "stored E x o' n bs s js s' \<longleftrightarrow> length js = length bs \<and> distinct js \<and> (\<forall>j \<in> set js. free_slot (ccache s) j)
     \<and> (\<forall>m < length bs. holds E x o' (c_colID s) (n + int m) (bs ! m) (js ! m) s')
     \<and> (\<forall>j. j \<notin> set js \<longrightarrow> pdata (ccache s') ! j = pdata (ccache s) ! j)
     \<and> (\<forall>key. key \<notin> slot_key (csys E) (ccache s) ` set js \<longrightarrow> segs (ckern s') key = segs (ckern s) key \<and> contents s' key = contents s key)
     \<and> cache_ok (ccache s') \<and> cache_path (ccache s') = cache_path (ccache s) \<and> top (ccache s) \<le> top (ccache s')
     \<and> npages (ccache s') = npages (ccache s) + int (length bs) \<and> maps (ckern s') = maps (ckern s) \<and> c_sem s' = c_sem s \<and> c_colID s' = c_colID s
     \<and> next_addr (ckern s) \<le> next_addr (ckern s') \<and> (\<forall>j. top (ccache s) \<le> j \<and> j < top (ccache s') \<longrightarrow> j \<in> set js)"

lemma holds_kept:
  assumes "holds E x o' cid n b i s" "pdata (ccache s') ! i = pdata (ccache s) ! i" "top (ccache s) \<le> top (ccache s')"
    "cache_path (ccache s') = cache_path (ccache s)"
    "segs (ckern s') (slot_key (csys E) (ccache s) i) = segs (ckern s) (slot_key (csys E) (ccache s) i)"
    "contents s' (slot_key (csys E) (ccache s) i) = contents s (slot_key (csys E) (ccache s) i)"
  shows "holds E x o' cid n b i s'"
  using assms unfolding holds_def Let_def slot_key_def slot_file_def by (elim exE conjE) (intro exI conjI, simp_all)

lemma stored_Cons:
  assumes r: "roomy (csys E) (ccache s) (ckern s) (Suc n)" and a: "after E b s s1"
    and st: "stored E (l_expID s) (cstr_at (l_obset s) 0) (c_pageNum s + 1) bs s1 js s'"
  shows "stored E (l_expID s) (cstr_at (l_obset s) 0) (c_pageNum s) (b # bs) s (first_slot (ccache s) # js) s'"
proof -
  let ?i = "first_slot (ccache s)" and ?e = "csys E"
  have m: "one_more ?e (ccache s) (ckern s) ?i (ccache s1) (ckern s1)" using a by (simp add: after_def Let_def)
  have h: "holds E (l_expID s) (cstr_at (l_obset s) 0) (c_colID s) (c_pageNum s) b ?i s1" using a by (simp add: after_def Let_def)
  have le: "?i \<le> top (ccache s)" using r slot_first(2) [of "ccache s"] by (simp add: roomy_def)
  have fi: "free_slot (ccache s) ?i" by (rule first_free [OF r])
  have fr: "free_slot (ccache s) j \<and> j \<noteq> ?i" if "j \<in> set js" for j using st that one_more_free [OF m le] by (simp add: stored_def)
  have sk: "slot_key ?e (ccache s1) = slot_key ?e (ccache s)" "cache_path (ccache s1) = cache_path (ccache s)" using one_more_slots [OF m] m by (simp_all add: one_more_def)
  have inj: "inj_on (slot_key ?e (ccache s)) {..<length (pdata (ccache s))}" using r by (simp add: roomy_def)
  have ki: "slot_key ?e (ccache s) ?i \<notin> slot_key ?e (ccache s) ` set js"
    using fr fi inj_onD [OF inj, of ?i] by (force simp: free_slot_def)
  have t: "?i \<notin> set js" "top (ccache s1) \<le> top (ccache s')" "top (ccache s) \<le> top (ccache s1)" using fr st m by (auto simp: stored_def one_more_def)
  have h': "holds E (l_expID s) (cstr_at (l_obset s) 0) (c_colID s) (c_pageNum s) b ?i s'"
    by (rule holds_kept [OF h]) (use st t ki sk in \<open>auto simp: stored_def\<close>)
  have col: "c_colID s1 = c_colID s" using a by (simp add: after_def Let_def)
  have hs: "holds E (l_expID s) (cstr_at (l_obset s) 0) (c_colID s) (c_pageNum s + int k) ((b # bs) ! k) ((?i # js) ! k) s'" if k: "k < length (b # bs)" for k
  proof (cases k)
    case 0
    then show ?thesis using h' by simp
  next
    case (Suc l)
    then have "holds E (l_expID s) (cstr_at (l_obset s) 0) (c_colID s) (c_pageNum s + 1 + int l) (bs ! l) (js ! l) s'" using st k col by (simp add: stored_def)
    then show ?thesis using Suc by (simp add: add.assoc)
  qed
  show ?thesis unfolding stored_def
  proof (intro conjI)
    show "\<forall>k < length (b # bs). holds E (l_expID s) (cstr_at (l_obset s) 0) (c_colID s) (c_pageNum s + int k) ((b # bs) ! k) ((?i # js) ! k) s'"
      using hs by blast
    have "j \<in> set js" if "top (ccache s1) \<le> j" "j < top (ccache s')" for j using st that by (simp add: stored_def)
    moreover have "top (ccache s1) \<le> j" if "top (ccache s) \<le> j" "j \<noteq> ?i" for j using m that by (auto simp: one_more_def)
    ultimately show "\<forall>j. top (ccache s) \<le> j \<and> j < top (ccache s') \<longrightarrow> j \<in> set (?i # js)" by auto
  qed (use st m fr fi t a sk col in \<open>auto simp: stored_def one_more_def after_def Let_def\<close>)
qed

end
