(* ===== verification/Col_Transfer.thy ===== *)
theory Col_Transfer
  imports Col_Props
begin

text \<open>
  The data of an exposure: what the client library sends of it, from the first block to the end of
  the exposure, becomes pages of the collector's cache, and such pages can be picked up by an SMC
  manager.  The messages that open the exposure are not part of this: the two with the directory and
  the name of the file overrun the buffers of library and collector (the last sections, and
  \<open>Dca_Props\<close>).
\<close>

section \<open>All blocks of an exposure\<close>

definition bytes_of :: "block list \<Rightarrow> nat" where
  "bytes_of bs = sum_list (map (\<lambda>b. length (block_data b)) bs)"

lemma blocks_run:
  assumes "roomy (csys E) (ccache s) (ckern s) (length bs)" "\<forall>b \<in> set bs. fits (csys E) b \<and> well b" "ready s"
    and "dbl_ok (cdca E) (d_expID L)" "plain (c_in s)" "stream (c_in s) = concat (map (wire (cdca E) L) bs) @ rest"
  shows "\<exists>js s'. col_run E s = col_run E s' \<and> stored E (l_expID s) (cstr_at (l_obset s) 0) (c_pageNum s) bs s js s'
     \<and> plain (c_in s') \<and> stream (c_in s') = rest \<and> l_total s' = l_total s + word_of_nat (bytes_of bs)"
  using assms
proof (induction bs arbitrary: s)
  case Nil
  then show ?case by (intro exI [of _ "[]"] exI [of _ s]) (simp add: stored_def bytes_of_def ready_def roomy_def)
next
  case (Cons b bs)
  have r: "roomy (csys E) (ccache s) (ckern s) (Suc (length bs))" using Cons.prems(1) by simp
  have str: "stream (c_in s) = wire (cdca E) L b @ (concat (map (wire (cdca E) L) bs) @ rest)" using Cons.prems(6) by simp
  obtain s1 where 1: "col_run E s = col_run E s1" "after E b s s1" "plain (c_in s1)" "stream (c_in s1) = concat (map (wire (cdca E) L) bs) @ rest"
    using block_step [OF r _ _ Cons.prems(3, 4, 5) str] Cons.prems(2) by (meson list.set_intros(1))
  have a: "one_more (csys E) (ccache s) (ckern s) (first_slot (ccache s)) (ccache s1) (ckern s1)" "c_pageNum s1 = c_pageNum s + 1"
    "c_sem s1 = c_sem s" "l_expID s1 = l_expID s" "l_obset s1 = l_obset s" "c_colID s1 = c_colID s"
    "l_total s1 = l_total s + word_of_nat (length (block_data b))"
    using 1(2) by (simp_all add: after_def Let_def)
  have "ready s1" using Cons.prems(3) a by (simp add: ready_def)
  then obtain js s' where 2: "col_run E s1 = col_run E s'" "stored E (l_expID s) (cstr_at (l_obset s) 0) (c_pageNum s + 1) bs s1 js s'"
     "plain (c_in s')" "stream (c_in s') = rest" "l_total s' = l_total s1 + word_of_nat (bytes_of bs)"
    using Cons.IH [OF one_more_roomy [OF r a(1)] _ _ Cons.prems(4) 1(3, 4)] Cons.prems(2) a by auto
  then show ?case using stored_Cons [OF r 1(2) 2(2)] 1(1) a(7)
    by (intro exI [of _ "first_slot (ccache s) # js"] exI [of _ s']) (simp add: bytes_of_def)
qed

section \<open>The end of an exposure\<close>

lemma close_kind:
  assumes "dbl_ok (cdca E) (d_expID L)"
  shows "col_msg E (msg_rep (cdca E) L (DCA_CLOSE OR DCA_EXP) w) s = close_msg E (DCA_CLOSE OR DCA_EXP) s"
  unfolding col_msg_def Let_def msg_rep_val(2) [OF assms] by (simp add: dca_defs dca_type_defs)

lemma close_message_run:
  assumes d: "dbl_ok (cdca E) (d_expID L)" and st: "plain (c_in s)" "stream (c_in s) = msg_rep (cdca E) L (DCA_CLOSE OR DCA_EXP) w @ rest"
  shows "\<exists>rs. col_run E s = Inr (0, s\<lparr>c_in := rs, l_array := 0, c_out := c_out s @ [C_Super ''inactive'' MB_STATUS,
      C_Super ''Waiting for input...'' MB_STATUS, C_Super (''transfer '' @ show_int (sint (l_total s))) MB_SET]\<rparr>) \<and> plain rs \<and> stream rs = rest"
proof -
  obtain rs where 1: "col_run E s = col_loop E (msg_rep (cdca E) L (DCA_CLOSE OR DCA_EXP) w) (s\<lparr>c_in := rs\<rparr>)" "plain rs" "stream rs = rest"
    using col_run_next [OF st msg_rep_val(1) [OF d]] by blast
  have "close_msg E (DCA_CLOSE OR DCA_EXP) (s\<lparr>c_in := rs\<rparr>) = Inr (False, s\<lparr>c_in := rs, l_array := 0, c_out := c_out s @ [C_Super ''inactive'' MB_STATUS,
      C_Super ''Waiting for input...'' MB_STATUS, C_Super (''transfer '' @ show_int (sint (l_total s))) MB_SET]\<rparr>)"
    by (simp add: close_msg_def dca_defs dca_type_defs Let_def c_tell_def)
  then have "col_msg E (msg_rep (cdca E) L (DCA_CLOSE OR DCA_EXP) w) (s\<lparr>c_in := rs\<rparr>) = Inr (False, s\<lparr>c_in := rs, l_array := 0, c_out := c_out s @ [C_Super ''inactive'' MB_STATUS,
      C_Super ''Waiting for input...'' MB_STATUS, C_Super (''transfer '' @ show_int (sint (l_total s))) MB_SET]\<rparr>)"
    by (simp only: close_kind [OF d])
  from col_loop_off [OF this] show ?thesis using 1 by (intro exI [of _ rs]) simp
qed

section \<open>The transfer of an exposure\<close>

text \<open>The handler at the beginning: its local variables are set.\<close>

definition entered :: "col_env \<Rightarrow> col \<Rightarrow> col" where
  "entered E s = s\<lparr>l_expID := 0, l_obset := stack_obset E, l_dir := stack_dir E, l_file := stack_file E, l_fp := stack_fp E,
     l_md := stack_md E, l_total := 0, l_array := 0\<rparr>"

lemma handler_run:
  assumes "plain (c_in s)" "stream (c_in s) = buf @ rest" "length buf = 120"
  shows "colPanHandler E s = col_run E (entered E s)"
proof -
  have b: "buf \<noteq> []" using assms(3) by auto
  have "plain (c_in (entered E s))" "stream (c_in (entered E s)) = buf @ rest" using assms(1, 2) by (simp_all add: entered_def)
  from c_recv_stream [OF this b] obtain rs where "c_recv 120 (entered E s) = (120, buf, (entered E s)\<lparr>c_in := rs\<rparr>)" using assms(3) by auto
  then show ?thesis by (simp add: colPanHandler_def col_run_def entered_def)
qed

lemma exposure_run:
  assumes d: "dbl_ok (cdca E) (d_expID L)"
    and bs: "\<forall>b \<in> set bs. fits (csys E) b \<and> well b" "roomy (csys E) (ccache s) (ckern s) (length bs)" "ready s"
    and st: "plain (c_in s)" "stream (c_in s) = concat (map (wire (cdca E) L) bs) @ msg_rep (cdca E) L (DCA_CLOSE OR DCA_EXP) w @ rest"
  shows "\<exists>js s'. col_run E s = Inr (0, s') \<and> stored E (l_expID s) (cstr_at (l_obset s) 0) (c_pageNum s) bs s js s' \<and> plain (c_in s') \<and> stream (c_in s') = rest
     \<and> last (c_out s') = C_Super (''transfer '' @ show_int (sint (l_total s + word_of_nat (bytes_of bs)))) MB_SET"
proof -
  obtain js s2 where 2: "col_run E s = col_run E s2" "stored E (l_expID s) (cstr_at (l_obset s) 0) (c_pageNum s) bs s js s2" "plain (c_in s2)"
     "stream (c_in s2) = msg_rep (cdca E) L (DCA_CLOSE OR DCA_EXP) w @ rest" "l_total s2 = l_total s + word_of_nat (bytes_of bs)"
    using blocks_run [OF bs(2, 1, 3) d st] by blast
  obtain rs' where 3: "col_run E s2 = Inr (0, s2\<lparr>c_in := rs', l_array := 0, c_out := c_out s2 @ [C_Super ''inactive'' MB_STATUS,
      C_Super ''Waiting for input...'' MB_STATUS, C_Super (''transfer '' @ show_int (sint (l_total s2))) MB_SET]\<rparr>)" (is "_ = Inr (0, ?s3)")
      "plain rs'" "stream rs' = rest"
    using close_message_run [OF d 2(3, 4)] by blast
  have "stored E (l_expID s) (cstr_at (l_obset s) 0) (c_pageNum s) bs s js ?s3" using 2(2) unfolding stored_def holds_def by simp
  then show ?thesis using 2(1, 5) 3 by (intro exI [of _ js] exI [of _ ?s3]) simp
qed

text \<open>
  C5: the blocks of pixels and metadata of an exposure and its end are all sent without an error,
  and from what they have put on the wire, in whatever pieces it arrives, a collector that has been
  told of the exposure and waits for the next message in its loop stores each block in a page of
  its own: the bytes sent, their configuration, the exposure, the observation set and the number of
  the page are right; the page is unlocked and detached.  Other pages and segments stay as they are.
  The collector then reports the number of bytes transferred (modulo the width of its counter) and
  waits for more.  (The messages that open the exposure come before and are not part of this.)
\<close>

theorem transfer_stores_pages:
  assumes L: "linked_to L c" "dbl_ok (cdca E) (d_expID L)" "0 < d_expID L"
    and call: "\<not> status_bad (cdca E) istat" "0 \<le> dhsID"
    and bs: "\<forall>b \<in> set bs. fits (csys E) b \<and> well b" "roomy (csys E) (ccache s) (ckern s) (length bs)"
    and s: "ready s" "l_expID s = d_expID L" "cstr_at (l_obset s) 0 = d_obset L"
  shows "\<exists>L1 L2 c2 w. send_blocks (cdca E) L bs = Inr (DHS_OK, L1)
     \<and> dhsUtilCloseExp (cdca E) istat L1 dhsID (d_expID L) = Inr (DHS_OK, L2) \<and> collch L2 = Some c2 \<and> sent (ch_io c2) = sent (ch_io c) @ w
     \<and> (\<forall>rs rest. plain rs \<and> stream rs = w @ rest \<longrightarrow>
          (\<exists>js s'. col_run E (s\<lparr>c_in := rs\<rparr>) = Inr (0, s') \<and> stored E (d_expID L) (d_obset L) (c_pageNum s) bs s js s'
             \<and> plain (c_in s') \<and> stream (c_in s') = rest
             \<and> last (c_out s') = C_Super (''transfer '' @ show_int (sint (l_total s + word_of_nat (bytes_of bs)))) MB_SET))"
proof -
  have "\<forall>b \<in> set bs. block_data b \<noteq> []" using bs(1) by (simp add: fits_def)
  then obtain c2 where 2: "send_blocks (cdca E) L bs = Inr (DHS_OK, L\<lparr>collch := Some c2\<rparr>)" "sent_more c (concat (map (wire (cdca E) L) bs)) c2"
    using send_blocks_wire L(1) by blast
  let ?L2 = "L\<lparr>collch := Some c2\<rparr>"
  have "linked_to ?L2 c2" using L(1) sent_more_good [OF 2(2)] by (simp add: linked_to_def)
  then obtain L3 c3 where 3: "dhsUtilCloseExp (cdca E) istat ?L2 dhsID (d_expID L) = Inr (DHS_OK, L3)" "collch L3 = Some c3"
     "sent_more c2 (msg_rep (cdca E) ?L2 (DCA_CLOSE OR DCA_EXP) DHS_IAMPAN) c3"
    using close_sends [OF _ call L(3)] by blast
  have m: "msg_rep (cdca E) (L\<lparr>collch := x\<rparr>) t v = msg_rep (cdca E) L t v" for x t v by (simp add: msg_rep_def)
  let ?w = "concat (map (wire (cdca E) L) bs) @ msg_rep (cdca E) L (DCA_CLOSE OR DCA_EXP) DHS_IAMPAN"
  have "sent (ch_io c3) = sent (ch_io c) @ ?w" using 2(2) 3(3) by (simp add: sent_more_def m)
  moreover have "\<exists>js s'. col_run E (s\<lparr>c_in := rs\<rparr>) = Inr (0, s') \<and> stored E (d_expID L) (d_obset L) (c_pageNum s) bs (s\<lparr>c_in := rs\<rparr>) js s'
      \<and> plain (c_in s') \<and> stream (c_in s') = rest
      \<and> last (c_out s') = C_Super (''transfer '' @ show_int (sint (l_total s + word_of_nat (bytes_of bs)))) MB_SET"
    if "plain rs" "stream rs = ?w @ rest" for rs rest
    using exposure_run [OF L(2) bs(1), of "s\<lparr>c_in := rs\<rparr>" DHS_IAMPAN rest] bs(2) s that by (simp add: ready_def)
  moreover have "stored E x n i bs (s\<lparr>c_in := rs\<rparr>) js s' = stored E x n i bs s js s'" for x n i rs js s' by (simp add: stored_def)
  ultimately show ?thesis using 2(1) 3(1, 2)
    by (intro exI [of _ ?L2] exI [of _ L3] exI [of _ c3] exI [of _ ?w]) simp
qed

section \<open>The pages of an exposure for an SMC manager\<close>

text \<open>Another process that lives, and for which the first one does.\<close>

definition other_proc :: "env \<Rightarrow> env \<Rightarrow> bool" where
  "other_proc e e' \<longleftrightarrow> me e \<noteq> 0 \<and> me e' \<noteq> 0 \<and> me e' \<noteq> me e \<and> alive e' (me e) \<and> alive e' (me e') \<and> (\<forall>f. lock_ok e' f)"

lemma one_state:
  assumes "si_pid y = m" "m \<noteq> 0" "m' \<noteq> 0" "m' \<noteq> m" "al m"
  shows "state_ok al (zero_state[0 := y])" "\<not> full (zero_state[0 := y])" "smStateGetAttached m' (zero_state[0 := y]) = 0"
  using assms by (simp_all add: state_ok_def pids_ok_def full_def zero_state_def MAX_PROCS_def zero_info_def
      smStateGetAttached_def smStateLookupByPid_def eval_nat_numeral)

lemma holds_idle:
  assumes "holds E x o' cid n b i s" "other_proc (csys E) e'"
  shows "idle e' (ckern s) (pdata (ccache s) ! i)"
proof -
  obtain y sg where p: "memKey (pdata (ccache s) ! i) \<noteq> 0" "123 \<le> unat (pg_size (pdata (ccache s) ! i))"
    "pstate (pdata (ccache s) ! i) = zero_state[0 := y]" "si_pid y = me (csys E)"
    "segs (ckern s) (memKey (pdata (ccache s) ! i)) = Some sg" "sg_size sg = unat (pg_size (pdata (ccache s) ! i))" "sg_nattch sg = 0"
    using assms(1) unfolding holds_def Let_def by blast
  have o1: "me (csys E) \<noteq> 0" "me e' \<noteq> 0" "me e' \<noteq> me (csys E)" "alive e' (me (csys E))" "alive e' (me e')" "lock_ok e' f" for f
    using assms(2) by (simp_all add: other_proc_def)
  note one_state [OF p(4) o1(1-3), of "alive e'"]
  moreover have "pg_size (pdata (ccache s) ! i) \<noteq> 0" using p(2) by auto
  ultimately show ?thesis using p o1 by (simp add: idle_def room_def backed_def SEG_ATTACHED_def)
qed

text \<open>The cards that the manager reads in the pages of metadata are short enough for its buffers.\<close>

definition short_cards :: "mgr_env \<Rightarrow> bool" where
  "short_cards M \<longleftrightarrow> (\<forall>key i. length (cards M key i) < 128 \<and> length (imtype_word (cards M key i)) < 64)"

lemma holds_cards:
  assumes "holds E x o' cid n b i s" "length cid < 70" "short_cards M"
  shows "cards_ok M (ckern s) (pdata (ccache s) ! i)"
  using assms unfolding holds_def Let_def cards_ok_def short_cards_def by auto

lemma stored_picks:
  assumes st: "stored E x o' n bs s js s'" and x: "0 \<le> x" and none: "picks None (atof (fixed 6 x)) 0 (ccache s) = {}"
  shows "picks None (atof (fixed 6 x)) 0 (ccache s') = set js"
proof (intro equalityI subsetI)
  let ?X = "atof (fixed 6 x)"
  fix j assume "j \<in> picks None ?X 0 (ccache s')"
  then have j: "j < top (ccache s')" "selected None ?X (pdata (ccache s') ! j)" by (auto simp: picks_def)
  show "j \<in> set js"
  proof (rule ccontr)
    assume n: "j \<notin> set js"
    then have "j < top (ccache s)" using st j(1) unfolding stored_def by (meson not_le)
    moreover have "pdata (ccache s') ! j = pdata (ccache s) ! j" using st n by (simp add: stored_def)
    ultimately have "j \<in> picks None ?X 0 (ccache s)" using j(2) by (simp add: picks_def)
    then show False using none by simp
  qed
next
  let ?X = "atof (fixed 6 x)"
  fix j assume "j \<in> set js"
  then obtain m where m: "m < length bs" "j = js ! m" using st by (auto simp: stored_def in_set_conv_nth)
  then have "holds E x o' (c_colID s) (n + int m) (bs ! m) j s'" using st by (simp add: stored_def)
  then have "j < top (ccache s')" "expID (pdata (ccache s') ! j) = x" by (auto simp: holds_def Let_def)
  then show "j \<in> picks None ?X 0 (ccache s')" using text_id [OF x, of "[]"]
    by (simp add: picks_def selected_def wanted_def same_equal)
qed

lemma stored_at:
  assumes "stored E x o' n bs s js s'" "j \<in> set js"
  shows "\<exists>m b. holds E x o' (c_colID s) m b j s'"
  using assms unfolding stored_def in_set_conv_nth by metis

lemma stored_apart:
  assumes r: "roomy (csys E) (ccache s) (ckern s) (length bs)" and st: "stored E x o' n bs s js s'"
  shows "apart (ccache s') (set js)" "keys (ccache s') (set js) = slot_key (csys E) (ccache s) ` set js"
    "\<And>j. j \<in> set js \<Longrightarrow> memKey (pdata (ccache s') ! j) = slot_key (csys E) (ccache s) j"
proof -
  have path: "slot_key (csys E) (ccache s') = slot_key (csys E) (ccache s)" using st by (auto simp: stored_def slot_key_def slot_file_def fun_eq_iff)
  show k: "memKey (pdata (ccache s') ! j) = slot_key (csys E) (ccache s) j" if j: "j \<in> set js" for j
  proof -
    obtain m b where "holds E x o' (c_colID s) m b j s'" using stored_at [OF st j] by blast
    then show ?thesis by (auto simp: holds_def Let_def path)
  qed
  have "inj_on (slot_key (csys E) (ccache s)) (set js)"
    by (rule inj_on_subset [of _ "{..<length (pdata (ccache s))}"]) (use r st in \<open>auto simp: roomy_def stored_def free_slot_def\<close>)
  then show "apart (ccache s') (set js)" unfolding apart_def using k by (simp add: inj_on_def)
  show "keys (ccache s') (set js) = slot_key (csys E) (ccache s) ` set js" unfolding keys_def using k by (rule image_cong [OF refl])
qed

lemma stored_segs:
  assumes r: "roomy (csys E) (ccache s) (ckern s) (length bs)" and st: "stored E x o' n bs s js s'"
  shows "(if key \<in> slot_key (csys E) (ccache s) ` set js then None else segs (ckern s') key) = segs (ckern s) key"
proof (cases "key \<in> slot_key (csys E) (ccache s) ` set js")
  case True
  then obtain j where "j \<in> set js" "key = slot_key (csys E) (ccache s) j" by blast
  then show ?thesis using r st True by (simp add: roomy_def stored_def)
qed (use st in \<open>simp add: stored_def\<close>)

text \<open>The pages that the collector has stored are new to every other process.\<close>

lemma one_state_view: "si_pid y = m \<Longrightarrow> m' \<noteq> 0 \<Longrightarrow> m' \<noteq> m \<Longrightarrow> view (zero_state[0 := y]) m' = None"
  by (simp add: view_def zero_state_def MAX_PROCS_def zero_info_def smStateLookupByPid_def eval_nat_numeral)

lemma holds_new:
  assumes "holds E x o' cid n b i s" "other_proc (csys E) e'"
  shows "view (pstate (pdata (ccache s) ! i)) (me e') = None"
proof -
  obtain y where "pstate (pdata (ccache s) ! i) = zero_state[0 := y]" "si_pid y = me (csys E)"
    using assms(1) unfolding holds_def Let_def by blast
  then show ?thesis using assms(2) one_state_view [of y "me (csys E)" "me e'"] by (simp add: other_proc_def)
qed

text \<open>
  C6: from the pages that the collector has stored of an exposure to the end of its processing.  A
  manager that is told to process the exposure processes exactly these pages: it has registered
  itself in the table of each (where it was not known before) and set the sequence number in the
  header of its segment, and in the order of the slots it has rectified each page of pixels, and
  displayed it when the display is on; no other page has changed.  It then reports that the exposure
  is processed.  Told that it is finished the manager frees exactly these pages and says so.  Then
  all the pages of other exposures, the number of pages and all segments of shared memory are as
  they were before the exposure was sent.
\<close>

theorem stored_exposure_is_served:
  assumes r: "roomy (csys E) (ccache s) (ckern s) (length bs)" and st: "stored E x o' n bs s js s'"
    and x: "0 \<le> x" "length (fixed 6 x) < 30" and none: "picks None (atof (fixed 6 x)) 0 (ccache s) = {}" and cid: "length (c_colID s) < 70"
    and m: "use_threads m = 0" "use_pxf m \<noteq> 0" "use_mbus m" "procPages m = None" "cache m = ccache s'" "kern m = ckern s'"
    and M: "other_proc (csys E) (sys M)" "short_cards M"
  shows "\<exists>m1 m2. mbusMsgHandler M t (Some (-1, MB_START, ''process '' @ fixed 6 x)) m = Inr (0, m1)
     \<and> reports m1 = reports m @ [''process smc done '' @ fixed 6 x]
     \<and> (\<forall>j \<in> set js. view (pstate (pdata (ccache s') ! j)) (me (sys M)) = None \<and> same_page (pdata (ccache s') ! j) (pdata (cache m1) ! j)
          \<and> view (pstate (pdata (cache m1) ! j)) (me (sys M)) \<noteq> None
          \<and> (\<exists>sg. segs (kern m1) (memKey (pdata (ccache s') ! j)) = Some sg \<and> seg_seqno (sg_hdr sg) = m_seqno m))
     \<and> (\<forall>j. j \<notin> set js \<longrightarrow> pdata (cache m1) ! j = pdata (ccache s') ! j)
     \<and> works m1 = works m @ all_work (disp_enable m \<noteq> 0 \<and> display_ok M) (set js) [0..<top (ccache s')] (pdata (ccache s'))
     \<and> mbusMsgHandler M t (Some (-1, MB_FINISH, ''ExpID '' @ fixed 6 x)) m1 = Inr (0, m2)
     \<and> reports m2 = reports m1 @ [''clean done '' @ fixed 6 x] \<and> cache_ok (cache m2)
     \<and> (\<forall>j. pdata (cache m2) ! j = (if j \<in> set js then freed_page else pdata (ccache s) ! j))
     \<and> npages (cache m2) = npages (ccache s) \<and> segs (kern m2) = segs (ckern s)"
proof -
  have J: "set js = picks (procPages m) (atof (fixed 6 x)) 0 (cache m)" using stored_picks [OF st x(1) none] m by simp
  have ok: "cache_ok (cache m)" "length js = length bs" "distinct js" "maps (ckern s') = maps (ckern s)" "next_addr (ckern s) \<le> next_addr (ckern s')"
    using st m by (simp_all add: stored_def)
  have "fresh (kern m)" using r ok(4, 5) by (auto simp: roomy_def fresh_def m)
  moreover have "idle (sys M) (kern m) (pdata (cache m) ! j) \<and> cards_ok M (kern m) (pdata (cache m) ! j)" if "j \<in> set js" for j
    using stored_at [OF st that] holds_idle [OF _ M(1)] holds_cards [OF _ cid M(2)] unfolding m by blast
  ultimately have "serviceable M (atof (fixed 6 x)) 0 m" unfolding serviceable_def J [symmetric] using cache_okD(1) [OF ok(1)] by blast
  from manager_serves [OF m(1-3) ok(1) x J this, of t] stored_apart(1) [OF r st] obtain m1 m2 where
    1: "mbusMsgHandler M t (Some (-1, MB_START, ''process '' @ fixed 6 x)) m = Inr (0, m1)"
     "reports m1 = reports m @ [''process smc done '' @ fixed 6 x]"
     "\<forall>j. if j \<in> set js then same_page (pdata (cache m) ! j) (pdata (cache m1) ! j) else pdata (cache m1) ! j = pdata (cache m) ! j"
     "mbusMsgHandler M t (Some (-1, MB_FINISH, ''ExpID '' @ fixed 6 x)) m1 = Inr (0, m2)"
     "reports m2 = reports m1 @ [''clean done '' @ fixed 6 x]" "cache_ok (cache m2)"
     "\<forall>j. pdata (cache m2) ! j = (if j \<in> set js then freed_page else pdata (cache m) ! j)"
     "npages (cache m2) = npages (cache m) - int (Finite_Set.card (set js))"
     "\<forall>key. segs (kern m2) key = (if key \<in> keys (cache m) (set js) then None else segs (kern m) key)"
     "\<forall>j \<in> set js. served (sys M) (kern m1) (m_seqno m) (pdata (cache m) ! j) (pdata (cache m1) ! j)"
     "works m1 = works m @ all_work (display_of M m \<noteq> 0) (set js) [0..<top (cache m)] (pdata (cache m))"
    unfolding m by blast
  have "segs (kern m2) key = segs (ckern s) key" for key
    using spec [OF 1(9), of key] stored_segs [OF r st, of key] unfolding m stored_apart(2) [OF r st] by simp
  then have "segs (kern m2) = segs (ckern s)" by (rule ext)
  moreover have "npages (cache m2) = npages (ccache s)" using 1(8) st ok(2, 3) distinct_card [of js] by (simp add: stored_def m)
  moreover have "pdata (cache m2) ! j = (if j \<in> set js then freed_page else pdata (ccache s) ! j)" for j
    using spec [OF 1(7), of j] st by (simp add: stored_def m)
  moreover have "view (pstate (pdata (ccache s') ! j)) (me (sys M)) = None \<and> same_page (pdata (ccache s') ! j) (pdata (cache m1) ! j)
      \<and> view (pstate (pdata (cache m1) ! j)) (me (sys M)) \<noteq> None
      \<and> (\<exists>sg. segs (kern m1) (memKey (pdata (ccache s') ! j)) = Some sg \<and> seg_seqno (sg_hdr sg) = m_seqno m)" if "j \<in> set js" for j
    using bspec [OF 1(10) that] stored_at [OF st that] holds_new [OF _ M(1)] unfolding served_def m by blast
  moreover have "pdata (cache m1) ! j = pdata (ccache s') ! j" if "j \<notin> set js" for j using spec [OF 1(3), of j] that by (simp add: m)
  moreover have "works m1 = works m @ all_work (disp_enable m \<noteq> 0 \<and> display_ok M) (set js) [0..<top (ccache s')] (pdata (ccache s'))"
    using 1(11) by (auto simp: display_of_def m)
  ultimately show ?thesis using 1(1, 2, 4, 5, 6) by (intro exI [of _ m1] exI [of _ m2]) simp
qed

section \<open>Defects of the collector\<close>

text \<open>
  C38: a message with the directory overruns the collector's buffer: 256 bytes are received into an
  array of 120 bytes.
\<close>

theorem directory_overruns_buffer:
  assumes d: "dbl_ok (cdca E) (d_expID L)" and st: "plain (c_in s)" "stream (c_in s) = msg_rep (cdca E) L DCA_DIRECTORY w @ name @ rest" "length name = 256"
  shows "colPanHandler E s = Inl Buffer_Overflow"
proof -
  let ?buf = "msg_rep (cdca E) L DCA_DIRECTORY w" and ?e = "entered E s"
  have e: "plain (c_in ?e)" "stream (c_in ?e) = ?buf @ (name @ rest)" using st(1, 2) by (simp_all add: entered_def)
  obtain rs where 1: "col_run E ?e = col_loop E ?buf (?e\<lparr>c_in := rs\<rparr>)" "plain rs" "stream rs = name @ rest"
    using col_run_next [OF e msg_rep_val(1) [OF d]] by blast
  have "name \<noteq> []" using st(3) by auto
  then obtain rs' where 2: "c_recv 256 (?e\<lparr>c_in := rs\<rparr>) = (256, name, ?e\<lparr>c_in := rs\<rparr>\<lparr>c_in := rs'\<rparr>)"
    using c_recv_stream [of "?e\<lparr>c_in := rs\<rparr>" name rest] 1(2, 3) st(3) by auto
  have "dir_msg (?e\<lparr>c_in := rs\<rparr>) = Inl Buffer_Overflow" unfolding dir_msg_def recv_name_def 2 prod.case by (simp add: st(3))
  then have "col_msg E ?buf (?e\<lparr>c_in := rs\<rparr>) = Inl Buffer_Overflow"
    unfolding col_msg_def Let_def msg_rep_val(2) [OF d] by (simp add: dca_defs dca_type_defs)
  then have "col_loop E ?buf (?e\<lparr>c_in := rs\<rparr>) = Inl Buffer_Overflow" by (simp add: col_loop.simps [of E ?buf])
  then show ?thesis using handler_run [OF st(1, 2) msg_rep_val(1) [OF d]] 1(1) by simp
qed

text \<open>What is received of a metadata message before a page is requested.\<close>

lemma meta_receives:
  assumes d: "dbl_ok (cdca E) (d_expID L)" and t: "md_ok m" "t \<noteq> []" "length t < 2 ^ 31"
    and st: "plain (c_in s)" "stream (c_in s) = wire (cdca E) L (Meta t m) @ rest"
  shows "\<exists>buf s0 s1. colPanHandler E s = col_loop E buf s0 \<and> col_msg E buf s0 = meta_msg E buf s0
     \<and> meta_msg E buf s0 = bind_res (get_page E TY_META (int (length t)) s1) (\<lambda>(io, s). case io of None \<Rightarrow> Inr (False, s)
          | Some i \<Rightarrow> bind_res (store_meta E (int (length t)) t i s) (\<lambda>s. Inr (True, s)))
     \<and> ccache s1 = ccache s \<and> ckern s1 = ckern s \<and> c_sem s1 = c_sem s \<and> c_pageNum s1 = c_pageNum s \<and> contents s1 = contents s"
proof -
  let ?buf = "msg_rep (cdca E) L DCA_META 0" and ?e = "entered E s" and ?n = "int (length t)"
  have st2: "stream (c_in s) = ?buf @ ((le 8 (length t) @ replicate 112 NUL) @ t @ md_rep m @ rest)" using st(2) by (simp add: wire_def)
  then have e: "plain (c_in ?e)" "stream (c_in ?e) = ?buf @ ((le 8 (length t) @ replicate 112 NUL) @ t @ md_rep m @ rest)" using st(1) by (simp_all add: entered_def)
  obtain rs0 where 0: "col_run E ?e = col_loop E ?buf (?e\<lparr>c_in := rs0\<rparr>)" "plain rs0" "stream rs0 = (le 8 (length t) @ replicate 112 NUL) @ t @ md_rep m @ rest"
    using col_run_next [OF e msg_rep_val(1) [OF d]] by blast
  let ?s = "?e\<lparr>c_in := rs0\<rparr>"
  obtain rs1 where 1: "c_recv 120 ?s = (120, le 8 (length t) @ replicate 112 NUL, ?s\<lparr>c_in := rs1\<rparr>)" "plain rs1" "stream rs1 = t @ md_rep m @ rest"
    using c_recv_stream [of ?s "le 8 (length t) @ replicate 112 NUL" "t @ md_rep m @ rest"] 0 by auto
  have sz: "sint (rd32 (overlay ?buf (le 8 (length t) @ replicate 112 NUL)) 0) = ?n"
    using t(3) by (simp add: rd32_def overlay_def take_le un_le word_int)
  let ?s1 = "c_tell (?s\<lparr>c_in := rs1\<rparr>) ''Reading metadata...'' MB_STATUS"
  obtain rs2 where 2: "c_recv ?n ?s1 = (?n, t, ?s1\<lparr>c_in := rs2\<rparr>)" "plain rs2" "stream rs2 = md_rep m @ rest"
    using c_recv_stream [of ?s1 t "md_rep m @ rest"] 1 t(2) by (auto simp: c_tell_def)
  have ml: "length (md_rep m) = SZ_MD" "md_rep m \<noteq> []" using length_md_rep [OF t(1)] by (auto simp: SZ_MD_def)
  obtain rs3 where 3: "c_recv (int SZ_MD) (?s1\<lparr>c_in := rs2\<rparr>) = (int SZ_MD, md_rep m, ?s1\<lparr>c_in := rs2\<rparr>\<lparr>c_in := rs3\<rparr>)" "plain rs3" "stream rs3 = rest"
    using c_recv_stream [of "?s1\<lparr>c_in := rs2\<rparr>" "md_rep m" rest] 2 ml by auto
  have blk: "overlay (replicate (nat ?n) NUL) t = t" by (simp add: overlay_def)
  let ?s3 = "?s1\<lparr>c_in := rs2\<rparr>\<lparr>c_in := rs3\<rparr>"
  have "meta_msg E ?buf ?s = bind_res (get_page E TY_META ?n (?s3\<lparr>l_md := overlay (l_md ?s3) (md_rep m), l_total := l_total ?s3 + word_of_int ?n\<rparr>))
      (\<lambda>(io, s). case io of None \<Rightarrow> Inr (False, s) | Some i \<Rightarrow> bind_res (store_meta E ?n t i s) (\<lambda>s. Inr (True, s)))"
    unfolding meta_msg_def Let_def 1(1) sz prod.case 2(1) blk 3(1) ..
  moreover have "col_msg E ?buf ?s = meta_msg E ?buf ?s"
    unfolding col_msg_def Let_def msg_rep_val(2) [OF d] by (simp add: dca_defs dca_type_defs)
  ultimately show ?thesis using handler_run [OF st(1) st2 msg_rep_val(1) [OF d]] 0(1)
    by (intro exI [of _ ?buf] exI [of _ ?s] exI) (auto simp: c_tell_def entered_def)
qed

text \<open>
  C39: when there is no page for a block of metadata the collector returns from the handler as if
  nothing had happened, but has not given back the semaphore of the cache, whose value stays one
  lower.  When that is 0 and nobody else frees the semaphore (by opening the cache, say), the next
  call of the handler that starts with a block of metadata never returns.
\<close>

theorem no_page_keeps_semaphore:
  assumes d: "dbl_ok (cdca E) (d_expID L)" and t: "md_ok m" "t \<noteq> []" "length t < 2 ^ 31" "md_ok m'" "t' \<noteq> []" "length t' < 2 ^ 31"
    and st: "plain (c_in s)" "stream (c_in s) = wire (cdca E) L (Meta t m) @ rest"
    and none: "0 < c_sem s" "smcGetPage (csys E) (cwait E) (ccache s) (ckern s) TY_META (int (length t)) True True = Inr (None, c, k)"
  shows "\<exists>s'. colPanHandler E s = Inr (0, s') \<and> c_sem s' = c_sem s - 1 \<and> c_pageNum s' = c_pageNum s \<and> contents s' = contents s
     \<and> (\<forall>rs rest'. c_sem s = 1 \<and> csem_wait E = Sem_Never \<and> plain rs \<and> stream rs = wire (cdca E) L (Meta t' m') @ rest'
     \<longrightarrow> colPanHandler E (s'\<lparr>c_in := rs\<rparr>) = Inl Diverges)"
proof -
  obtain buf s0 s1 where 1: "colPanHandler E s = col_loop E buf s0" "col_msg E buf s0 = meta_msg E buf s0"
     "meta_msg E buf s0 = bind_res (get_page E TY_META (int (length t)) s1) (\<lambda>(io, s). case io of None \<Rightarrow> Inr (False, s)
          | Some i \<Rightarrow> bind_res (store_meta E (int (length t)) t i s) (\<lambda>s. Inr (True, s)))"
     "ccache s1 = ccache s" "ckern s1 = ckern s" "c_sem s1 = c_sem s" "c_pageNum s1 = c_pageNum s" "contents s1 = contents s"
    using meta_receives [OF d t(1-3) st] by blast
  let ?s' = "s1\<lparr>c_sem := c_sem s1 - 1, ccache := c, ckern := k\<rparr>"
  have "col_msg E buf s0 = Inr (False, ?s')" unfolding 1(2, 3) using none by (simp add: get_page_def smcMutexOn_def 1(4-6))
  then have "colPanHandler E s = Inr (0, ?s')" using 1(1) col_loop_off by simp
  moreover have "colPanHandler E (?s'\<lparr>c_in := rs\<rparr>) = Inl Diverges"
    if "c_sem s = 1" "csem_wait E = Sem_Never" "plain rs" "stream rs = wire (cdca E) L (Meta t' m') @ rest'" for rs rest'
  proof -
    let ?s = "?s'\<lparr>c_in := rs\<rparr>"
    have st': "plain (c_in ?s)" "stream (c_in ?s) = wire (cdca E) L (Meta t' m') @ rest'" using that by simp_all
    have z: "c_sem ?s = 0" using that(1) 1(6) by simp
    obtain buf s0 s2 where 2: "colPanHandler E ?s = col_loop E buf s0" "col_msg E buf s0 = meta_msg E buf s0"
     "meta_msg E buf s0 = bind_res (get_page E TY_META (int (length t')) s2) (\<lambda>(io, s). case io of None \<Rightarrow> Inr (False, s)
          | Some i \<Rightarrow> bind_res (store_meta E (int (length t')) t' i s) (\<lambda>s. Inr (True, s)))" "c_sem s2 = c_sem ?s"
      using meta_receives [OF d t(4-6) st'] by blast
    have "col_msg E buf s0 = Inl Diverges" unfolding 2(2, 3) using 2(4) z that(2) by (simp add: get_page_def smcMutexOn_def)
    then show ?thesis unfolding 2(1) by (simp add: col_loop.simps [of E buf])
  qed
  ultimately show ?thesis using 1(6-8) by (intro exI [of _ ?s']) simp
qed

section \<open>An exposure with two blocks\<close>

definition cenv0 :: col_env where
  "cenv0 = \<lparr>csys = env0\<lparr>ftok := \<lambda>s. 7 + int (of_char (last s))\<rparr>, cwait = (\<lambda>c. c), csem_wait = Sem_Never, cdca = dca_env0, ccd_xsize = 4096, ccd_ysize = 4096, temp_coll = False,
     stack_obset = [], stack_dir = [], stack_file = [], stack_fp = [], stack_md = []\<rparr>"

definition col0 :: col where
  "col0 = \<lparr>ccache = cache0, ckern = kernel0, contents = (\<lambda>_. []), c_colID = ''NOCS'', c_pageNum = 3, c_sem = 1, c_nbin = 1, c_in = [], c_out = [],
     l_expID = 0, l_obset = [], l_dir = [], l_file = [], l_fp = [], l_md = [], l_total = 9, l_array = 0\<rparr>"

definition lib1 :: dhs_lib where
  "lib1 = lib0\<lparr>d_expID := 12, d_obset := ''obs''\<rparr>"

definition md0 :: mdConfig where
  "md0 = \<lparr>metaType = 2, numFields = 1, fieldSize = replicate DHS_MAXFIELDS 8, md_dataType = replicate DHS_MAXFIELDS 1\<rparr>"

definition blocks0 :: "block list" where
  "blocks0 = [Meta ''abcd'' md0, Pixels (replicate 16 CHR ''p'') ((fpCfg zero_segment)\<lparr>xSize := 2, ySize := 2\<rparr>)]"

lemma lib1_ok:
  "linked_to lib1 reply_chan" "dbl_ok (cdca cenv0) (d_expID lib1)" "0 < d_expID lib1" 
  "\<not> status_bad (cdca cenv0) 0" "d_expID lib1 = 12" "d_obset lib1 = ''obs''"
  by (simp_all add: lib1_def lib0_def linked_to_def good_def reply_chan_def dbl_ok_def cenv0_def dca_env0_def cstring_def)

lemma slots0: "i < 8 \<Longrightarrow> slot_file cache0 i = ''/tmp/.smc_'' @ [digit i]"
  by (simp add: slot_file_def cache0_def show_nat.simps)

lemma roomy0: "roomy (csys cenv0) cache0 kernel0 (length blocks0)"
proof -
  have k: "slot_key (csys cenv0) cache0 i = 7 + int (48 + i)" if "i < 8" for i
    using that by (simp add: slot_key_def slots0 cenv0_def digit_def)
  have "inj_on (slot_key (csys cenv0) cache0) {..<8}" by (rule inj_onI) (simp add: k)
  moreover have "slot_key (csys cenv0) cache0 i \<noteq> 0" "length (slot_file cache0 i) < SZ_FNAME" if "i < 8" for i
    using k [OF that] slots0 [OF that] by (simp_all add: SZ_FNAME_def)
  moreover have "length (pdata cache0) = 8" "length blocks0 = 2" by (simp_all add: cache0_def blocks0_def)
  ultimately show ?thesis using cache0_ok(1)
    by (simp add: roomy_def fresh_def) (simp add: cenv0_def env0_def cache0_def kernel0_def)
qed

lemma blocks0_ok: "\<forall>b \<in> set blocks0. fits (csys cenv0) b \<and> well b"
  by (simp add: blocks0_def fits_def well_def md_ok_def md0_def block_data_def cenv0_def env0_def MAX_SEG_SIZE_def page_align_def raw_size_def)

lemma col0_ok: "ccache col0 = cache0" "ckern col0 = kernel0" "c_sem col0 = 1" "length (c_colID col0) < 70" "contents col0 = (\<lambda>_. [])" "length (c_colID col0) < 164"
  by (simp_all add: col0_def)

text \<open>The collector in its loop, after it has been told of exposure 12.\<close>

definition col1 :: col where
  "col1 = col0\<lparr>c_pageNum := 0, l_expID := 12, l_obset := ''obs'' @ replicate 77 NUL, l_total := 0\<rparr>"

lemma col1_ok: "ready col1" "l_expID col1 = 12" "cstr_at (l_obset col1) 0 = ''obs''" "ccache col1 = cache0" "ckern col1 = kernel0"
  "c_pageNum col1 = 0" "l_total col1 = 0" "length (c_colID col1) < 70"
  by (simp_all add: col1_def col0_def ready_def cstr_at_def)

theorem transfer_stores_pages_witness:
  "\<exists>L1 L2 c2 w js s'. send_blocks (cdca cenv0) lib1 blocks0 = Inr (DHS_OK, L1)
     \<and> dhsUtilCloseExp (cdca cenv0) 0 L1 1 12 = Inr (DHS_OK, L2) \<and> collch L2 = Some c2 \<and> sent (ch_io c2) = sent (ch_io reply_chan) @ w
     \<and> col_run cenv0 (col1\<lparr>c_in := [Again, Data (w @ ''xy'')]\<rparr>) = Inr (0, s')
     \<and> stored cenv0 12 ''obs'' 0 blocks0 col1 js s' \<and> stream (c_in s') = ''xy'' \<and> last (c_out s') = C_Super ''transfer 20'' MB_SET"
proof -
  have r: "roomy (csys cenv0) (ccache col1) (ckern col1) (length blocks0)" using roomy0 by (simp add: col1_ok)
  have n: "''transfer '' @ show_int (sint (0 + word_of_nat (bytes_of blocks0) :: 32 word)) = ''transfer 20''"
    by (simp add: bytes_of_def blocks0_def block_data_def show_int_def show_nat_steps digit_def char_of_def bit_iff_odd)
  have x: "l_expID col1 = d_expID lib1" "cstr_at (l_obset col1) 0 = d_obset lib1" by (simp_all add: col1_ok lib1_ok)
  obtain L1 L2 c2 w where 1: "send_blocks (cdca cenv0) lib1 blocks0 = Inr (DHS_OK, L1)"
     "dhsUtilCloseExp (cdca cenv0) 0 L1 1 12 = Inr (DHS_OK, L2)" "collch L2 = Some c2" "sent (ch_io c2) = sent (ch_io reply_chan) @ w"
     "\<forall>rs rest. plain rs \<and> stream rs = w @ rest \<longrightarrow>
          (\<exists>js s'. col_run cenv0 (col1\<lparr>c_in := rs\<rparr>) = Inr (0, s') \<and> stored cenv0 12 ''obs'' 0 blocks0 col1 js s'
             \<and> plain (c_in s') \<and> stream (c_in s') = rest \<and> last (c_out s') = C_Super ''transfer 20'' MB_SET)"
    using transfer_stores_pages [OF lib1_ok(1-4) _ blocks0_ok r col1_ok(1) x, of 1] unfolding col1_ok(6, 7) n lib1_ok(5, 6) by auto
  have "plain [Again, Data (w @ ''xy'')]" "stream [Again, Data (w @ ''xy'')] = w @ ''xy''" by simp_all
  then obtain js s' where "col_run cenv0 (col1\<lparr>c_in := [Again, Data (w @ ''xy'')]\<rparr>) = Inr (0, s')"
     "stored cenv0 12 ''obs'' 0 blocks0 col1 js s'" "stream (c_in s') = ''xy''" "last (c_out s') = C_Super ''transfer 20'' MB_SET"
    using 1(5) by blast
  then show ?thesis using 1(1-4) by blast
qed

text \<open>The state of the collector after that exposure.\<close>

lemma stored0: "\<exists>js s'. stored cenv0 12 ''obs'' 0 blocks0 col1 js s'"
proof -
  let ?w = "concat (map (wire (cdca cenv0) lib1) blocks0) @ msg_rep (cdca cenv0) lib1 (DCA_CLOSE OR DCA_EXP) 0 @ ''x''"
  let ?s = "col1\<lparr>c_in := [Data ?w]\<rparr>"
  have r: "roomy (csys cenv0) (ccache ?s) (ckern ?s) (length blocks0)" "ready ?s" using roomy0 col1_ok(1) by (simp_all add: col1_ok ready_def)
  have st: "plain (c_in ?s)" "stream (c_in ?s) = ?w" by simp_all
  from exposure_run [OF lib1_ok(2) blocks0_ok r st] obtain js s' where "stored cenv0 12 ''obs'' 0 blocks0 ?s js s'"
    by (auto simp: col1_ok)
  then show ?thesis unfolding stored_def by auto
qed

definition mgr_env1 :: mgr_env where
  "mgr_env1 = mgr_env0\<lparr>sys := env0\<lparr>me := 43\<rparr>\<rparr>"

theorem stored_exposure_is_served_witness:
  "\<exists>m m1 m2. mbusMsgHandler mgr_env1 9 (Some (-1, MB_START, ''process '' @ fixed 6 12)) m = Inr (0, m1) \<and> npages (cache m) = 2
     \<and> mbusMsgHandler mgr_env1 9 (Some (-1, MB_FINISH, ''ExpID '' @ fixed 6 12)) m1 = Inr (0, m2)
     \<and> reports m2 = [''process smc done '' @ fixed 6 12, ''clean done '' @ fixed 6 12] \<and> npages (cache m2) = 0 \<and> segs (kern m2) = (\<lambda>_. None)"
proof -
  obtain js s' where st: "stored cenv0 12 ''obs'' 0 blocks0 col1 js s'" using stored0 by blast
  have r: "roomy (csys cenv0) (ccache col1) (ckern col1) (length blocks0)" using roomy0 by (simp add: col1_ok)
  have x: "(0 :: rat) \<le> 12" "length (fixed 6 12) < 30" by (simp, simp add: fixed_def round_even_def Let_def show_nat_steps)
  have none: "picks None (atof (fixed 6 12)) 0 (ccache col1) = {}" by (simp add: picks_def col1_ok cache0_def)
  let ?m = "manager0\<lparr>cache := ccache s', kern := ckern s'\<rparr>"
  have m: "use_threads ?m = 0" "use_pxf ?m \<noteq> 0" "use_mbus ?m" "procPages ?m = None" "cache ?m = ccache s'" "kern ?m = ckern s'" "reports ?m = []"
    by (simp_all add: manager0_def reports_def)
  have M: "other_proc (csys cenv0) (sys mgr_env1)" "short_cards mgr_env1"
    by (simp_all add: other_proc_def short_cards_def mgr_env1_def mgr_env0_def cenv0_def env0_def imtype_word_def)
  have n: "npages (ccache s') = 2" "npages (ccache col1) = 0" "segs (ckern col1) = (\<lambda>_. None)"
    using st by (simp_all add: stored_def col1_ok cache0_def kernel0_def blocks0_def)
  from stored_exposure_is_served [OF r st x none col1_ok(8) m(1-6) M, of 9] obtain m1 m2 where
    "mbusMsgHandler mgr_env1 9 (Some (-1, MB_START, ''process '' @ fixed 6 12)) ?m = Inr (0, m1)" "reports m1 = [''process smc done '' @ fixed 6 12]"
    "mbusMsgHandler mgr_env1 9 (Some (-1, MB_FINISH, ''ExpID '' @ fixed 6 12)) m1 = Inr (0, m2)"
    "reports m2 = reports m1 @ [''clean done '' @ fixed 6 12]" "npages (cache m2) = npages (ccache col1)" "segs (kern m2) = segs (ckern col1)"
    unfolding m(7) by auto
  then show ?thesis using m(5) n by (intro exI [of _ ?m] exI [of _ m1] exI [of _ m2]) simp
qed

theorem directory_overruns_buffer_witness:
  "colPanHandler cenv0 (col0\<lparr>c_in := [Data (msg_rep (cdca cenv0) lib1 DCA_DIRECTORY 0 @ strn 256 ''/data'')]\<rparr>) = Inl Buffer_Overflow"
  by (rule directory_overruns_buffer [OF lib1_ok(2), where rest = "[]" and name = "strn 256 ''/data''" and w = 0]) (simp_all add: strn_def)

theorem no_page_keeps_semaphore_witness:
  "\<exists>s'. colPanHandler cenv0 (col0\<lparr>c_in := [Data (wire (cdca cenv0) lib1 (Meta (replicate 67104769 CHR ''x'') md0))]\<rparr>) = Inr (0, s') \<and> c_sem s' = 0
     \<and> colPanHandler cenv0 (s'\<lparr>c_in := [Data (wire (cdca cenv0) lib1 (Meta ''abcd'' md0))]\<rparr>) = Inl Diverges"
proof -
  have t: "md_ok md0" "replicate 67104769 CHR ''x'' \<noteq> []" "length (replicate 67104769 CHR ''x'') < 2 ^ 31" "md_ok md0" "''abcd'' \<noteq> []" "length ''abcd'' < 2 ^ 31"
    by (simp_all add: md_ok_def md0_def)
  let ?s = "col0\<lparr>c_in := [Data (wire (cdca cenv0) lib1 (Meta (replicate 67104769 CHR ''x'') md0))]\<rparr>"
  have w: "wire (cdca cenv0) lib1 (Meta u m) \<noteq> []" for u m
    using msg_rep_val(1) [OF lib1_ok(2)] by (simp add: wire_def)
  have st: "plain (c_in ?s)" "stream (c_in ?s) = wire (cdca cenv0) lib1 (Meta (replicate 67104769 CHR ''x'') md0) @ []" using w by simp_all
  have none: "0 < c_sem ?s" "smcGetPage (csys cenv0) (cwait cenv0) (ccache ?s) (ckern ?s) TY_META (int (length (replicate 67104769 CHR ''x''))) True True = Inr (None, cache0, kernel0)"
    by (simp_all add: smcGetPage_def MAX_SEG_SIZE_def col0_ok)
  have n: "plain [Data (wire (cdca cenv0) lib1 (Meta ''abcd'' md0))]"
    "stream [Data (wire (cdca cenv0) lib1 (Meta ''abcd'' md0))] = wire (cdca cenv0) lib1 (Meta ''abcd'' md0) @ []" using w by simp_all
  have e: "csem_wait cenv0 = Sem_Never" "c_sem ?s = 1" by (simp_all add: cenv0_def col0_ok)
  from no_page_keeps_semaphore [OF lib1_ok(2) t st none] e n show ?thesis by (metis diff_self_eq_0)
qed

end
