(* ===== verification/Spec2Isabelle.thy ===== *)
theory Spec2Isabelle
  imports Kwdb_Fits_Props Sm_Config_Props Sm_Cache_Props Proc_Queue Vm_Cache_Props Dsim_Header
    Raster_Rectify Mb_Handle Col_Transfer
begin

text \<open>
  A model of the Data Handling System (DHS) of a telescope: the programs that take pixel and
  meta data from the detector controllers, keep them in shared memory, and write them out as
  FITS images.

  \<^bold>\<open>The program.\<close>  A pixel acquisition node (PAN) sends its data with the client library
  (\<open>lib/dhslib\<close>, \<open>lib/dcalib\<close>) to a collector (\<open>collector\<close>).  Collectors write the data they
  receive into pages of a shared memory cache (\<open>lib/smCache\<close>).  Each page is a System V shared
  memory segment; the table of pages is itself a shared object, with a table of the attached
  processes in it and in every page.  The
  supervisor (\<open>super\<close>) queues the exposures whose data are complete and tells the SMC managers
  to process one exposure after the other.  These send the pages on to the data capture agent
  (\<open>mosdca\<close>), which keeps the header keywords of an image in a keyword database, reads and writes
  them as FITS cards, and maps the pixel files through a virtual memory cache.

  \<^bold>\<open>The theories.\<close>
  \<^item> \<open>Dhs_Prelude\<close>: faults and fallible results, C strings and buffers, \<open>ctype.h\<close>, numbers in
    text, linked lists, arrays; the lemma collections.
  \<^item> \<open>Kwdb\<close> (\<open>mosdca/kwdb.c\<close>): the entries of the keyword database, with its string buffer, item
    table, hash threads and the list of all entries.  \<open>Kwdb_Correct\<close> has the invariant \<open>kw_inv\<close>
    and what each operation does to the list of entries it stands for; \<open>Kwdb_Props\<close> the interface
    \<open>keyword_store\<close>, its interpretation and the properties.
  \<^item> \<open>Kwdb_Fits\<close>, \<open>Kwdb_Fits_Props\<close>: FITS cards and headers, read from and written to a database.
  \<^item> \<open>Sm_State\<close> (\<open>lib/smCache/smState.c\<close>): the table of processes attached to a page, as a finite
    map from pids (\<open>view\<close>), with the interface \<open>proc_table\<close>.
  \<^item> \<open>Sm_Config\<close>, \<open>Sm_Config_Props\<close> (\<open>smConfig.c\<close>, the lock file of \<open>smUtil.c\<close>): options,
    configuration files, and the lock file from setting a cache up to reading it in another process.
  \<^item> \<open>Sm_Cache\<close>, \<open>Sm_Cache_Props\<close> (\<open>smCache.c\<close>, \<open>smUtil.c\<close>): the cache, its pages and the System V
    segments behind them.  \<open>cache_ok\<close> is the invariant of the page array; \<open>due\<close> are the pages that
    a reader that polls with \<open>smcNextPage\<close> has not seen, registered on them or not.
  \<^item> \<open>Proc_Queue\<close> (\<open>super/supQueue.c\<close>): the ring of queued exposures, refined to a list (\<open>items\<close>);
    \<open>pq_run\<close> is a run over arrivals, ready marks, requests and ends in any order that the supervisor
    may see.
  \<^item> \<open>Sup_Proc\<close> (\<open>super/supProc.c\<close>, the host names of \<open>supSocket.c\<close>): the supervisor's tables of
    clients and of connections between PANs and collectors.  \<open>Sup_Proc_Props\<close> has their invariant
    \<open>sup_ok\<close> and the operations as the step relation \<open>proc_step\<close>, \<open>Sup_Display\<close> the messages to the
    display and their bounds, \<open>Sup_Clients\<close> what the operations do to the list of clients (\<open>other_step\<close>: what all
    clients but one do).
  \<^item> \<open>Sup_Super\<close> (\<open>super/supPanHandler.c\<close>, \<open>supIO.c\<close>, \<open>supProcNext\<close>): the supervisor's reactions to the
    instrument, the message bus and the user, over the tables and the queue, as a run over a list
    of events.  \<open>Sup_Super_Props\<close> shows how the reports of the managers (\<open>reporters\<close>) pace the
    exposures, \<open>Sup_Cycle\<close> follows one exposure through the system, with every message that the
    supervisor sends (\<open>sent\<close>) and the ids and names in their text.
  \<^item> \<open>Dca_Lib\<close> (\<open>include/dcaDhs.h\<close>, \<open>lib/dcalib\<close>): the messages as bytes, sending and receiving.
    \<open>Dhs_Lib\<close> (\<open>lib/dcalib\<close>, \<open>lib/dhslib\<close>): the channels to the supervisor and to a collector and
    the calls of an exposure.  \<open>Dca_Props\<close> shows that structures survive the way over a socket,
    however its stream is split, and which bytes the calls of an exposure send.
  \<^item> \<open>Col_Pan\<close> (\<open>collector/colPanHandler.c\<close>, \<open>colSocket.c\<close>): the collector's handler over the cache
    and the contents of the segments.  \<open>Col_Props\<close> follows one block of data into its page (\<open>holds\<close>,
    \<open>after\<close>); \<open>Col_Transfer\<close> the blocks of an exposure, from the library through the
    collector's loop (\<open>col_run\<close>) into the cache (\<open>stored\<close>), and on through a manager.  It starts
    from a collector that knows the exposure and the observation set: the calls that open an
    exposure send a directory and a file name that overrun the arrays on both sides, which is shown
    on its own (\<open>dhsUtilOpenExp_overreads\<close>, \<open>directory_overruns_buffer\<close>).  The collector takes the
    semaphore of the cache (\<open>smcMutexOn\<close>, \<open>smcMutexOff\<close>); that other processes reset it is part of
    its environment.  A cache is \<open>roomy\<close> when it has room for the blocks and the slots not in use
    have neither lock file nor segment.
  \<^item> \<open>Smc_Manager\<close> (\<open>smcmgr/smcProcess.c\<close>, \<open>smcmgr/mbusMsgHandler.c\<close>): the manager of the pages of one
    machine, over the cache, and its reactions to the message bus, with the buffer of a message as it is
    behind the newlines that are overwritten in it (\<open>kill_newline\<close>).  \<open>Smc_Manager_Props\<close> shows that
    it answers the supervisor's messages with the reports that \<open>Sup_Super\<close> waits for, and what
    processing and finishing an exposure do to the pages: on which it is registered and works
    (\<open>served\<close>, \<open>works\<close>), and which it frees.
  \<^item> \<open>Vm_Cache\<close>, \<open>Vm_Cache_Props\<close> (\<open>mosdca/vmcache.c\<close>): the list of mapped file segments in a heap,
    with frees, and its abstraction to the list from most to least recently used (\<open>seg_list\<close>,
    \<open>vm_ok\<close>) through the interface \<open>lru_list\<close>, with the calls to the kernel in order.
  \<^item> \<open>Dsim\<close>, \<open>Dsim_File\<close> (\<open>mosdca/dsim.c\<close>): image files of several FITS extensions.  \<open>Dsim\<close> has the
    descriptors, parameters, pixel regions and pixel encoding, with \<open>Dsim_Props\<close>; \<open>Dsim_File\<close> the
    emulated file access, headers and \<open>dsim_Configure\<close>.  \<open>Dsim_File_Props\<close> shows the layout of a
    configured file, that configuring succeeds, and the addresses of pixels; \<open>Dsim_Header\<close> that a
    header written into a file is read back.  Both rest on the keyword database: what is written
    are the cards of its entries, through \<open>kw_inv\<close>.
  \<^item> \<open>Raster\<close> (\<open>smcmgr/rotate.c\<close>, \<open>rectify.c\<close> of \<open>dev/src.newfirm\<close> and of \<open>dev/src.mosaic1\<close>): flips and
    transpositions of a raster and the rectification of pages, in a memory of blocks.
    \<open>Raster_Props\<close> describes the four directions by the interface \<open>raster_move\<close>, from which it
    has that \<open>rotate\<close> moves each pixel to its place; \<open>Raster_Rectify\<close> builds on it for the pages.
  \<^item> \<open>Mb_Handle\<close> (\<open>lib/mbus/mbHandle.c\<close>): the input handlers of the message bus as a list (\<open>live\<close>,
    \<open>bus_ok\<close>), and the main loop that calls them.

  \<^bold>\<open>Conventions.\<close>  A C structure is a record with its members' names (prefixed where names
  clash), a pointer into an array is an index, a pointer to allocated memory an address of a
  heap.  What the code asks of the system (allocation, files, shared memory, time, pids) is a
  parameter.  Undefined behaviour and \<open>exit\<close> are values of \<open>fault\<close>.  Error returns are the
  values that the code returns.  \<open>double\<close> times and exposure ids are rationals.

  \<^bold>\<open>Bounds and fuel.\<close>  Loops over linked structures carry a number of rounds.  In the keyword
  database it is the capacity of the item table, which no acyclic list exceeds; a run that
  exhausts it is a cycle.  In the virtual memory cache it is a parameter, and the theorems ask
  for more rounds than there are segments.  \<open>smcNextPage\<close> polls as often as its first argument
  says.  \<open>mbusAppMainLoop\<close>, which never returns, is
  run for a number of rounds.  The collector's loop ends because the bytes its connection still
  delivers become fewer.  All other loops are structural or have a termination proof.

  \<^bold>\<open>Not modelled.\<close>  The messages printed; the semaphore of the shared memory cache where programs
  other than the collector take it; the Tcl, X11
  and socket glue and the main programs; the real time display and the picture feed; the text of
  the page statistics; the calls of the client library that write files through cfitsio, its Tcl
  interface and the text of its responses; the collector's console; how the message bus sends and receives (a layer over the
  vendored pvm3); cfitsio, pvm3, x11iraf and cdl, which are third-party code.
\<close>

end
